(* ===== verification/Prelude.thy ===== *)
theory Prelude
  imports Main "HOL-Library.List_Lexorder" "HOL-Library.Char_ord"
begin

text \<open>
  Shared vocabulary of the development: the results of Go functions, the string and integer
  operations of the Go standard library that the services use, the SQL statements as operations
  on lists of rows, and three interfaces (identifier normalisation, ranks of enforcement levels,
  transition systems with an invariant) that several components implement.
\<close>

named_theorems bind_simps "results of Go functions: success and failure of a bind"
named_theorems sql_simps "lookups and sums over a table after an insert or an update"

subsection \<open>Identifiers, times, results\<close>

type_synonym ID = string
  \<comment> \<open>\<open>domain.ID\<close> is a Go string: a list of bytes.\<close>

type_synonym gtime = int
  \<comment> \<open>A \<open>time.Time\<close> as its UTC instant: nanoseconds since year 1, so that \<open>IsZero\<close> is \<open>= 0\<close>;
      \<open>After\<close>, \<open>Before\<close>, \<open>Equal\<close> and \<open>Add\<close> are the operations of \<open>int\<close>.\<close>

text \<open>
  Go errors. The sentinels of \<open>domain/errors.go\<close> are kept (\<open>errors.Is\<close> compares with them, also
  through \<open>%w\<close> wrapping); every other error is its message with the arguments left out.
\<close>

datatype go_error =
    ErrStaleAttempt
  | ErrLeaseInactive
  | ErrPolicyDenied
  | ErrInvalidPurpose
  | ErrIntentConflict
  | ErrBudgetExceeded
  | ErrOutcomeUnknown
  | ErrHardCapUnavailable
  | ErrNoRows
  | ErrConstraint string
  | Err string

type_synonym 'a res = "go_error + 'a"

definition bindE :: "'e + 'a \<Rightarrow> ('a \<Rightarrow> 'e + 'b) \<Rightarrow> 'e + 'b" where
  "bindE m k = (case m of Inl e \<Rightarrow> Inl e | Inr x \<Rightarrow> k x)"

declare bindE_def [code_unfold]
  \<comment> \<open>Evaluation looks at the continuation only once the first result is known.\<close>

definition requireE :: "bool \<Rightarrow> 'e \<Rightarrow> 'e + unit" where
  "requireE c e = (if c then Inr () else Inl e)"

lemma bindE_simps [simp]: "bindE (Inl e) k = Inl e" "bindE (Inr x) k = k x"
  by (simp_all add: bindE_def)

lemma requireE_simps [simp]: "requireE True e = Inr ()" "requireE False e = Inl e"
  by (simp_all add: requireE_def)

lemma bindE_Inr_iff [bind_simps]: "bindE m k = Inr y \<longleftrightarrow> (\<exists>x. m = Inr x \<and> k x = Inr y)"
  by (cases m) (auto simp: bindE_def)

lemma bindE_InrE: "bindE m k = Inr y \<Longrightarrow> (\<And>x. m = Inr x \<Longrightarrow> k x = Inr y \<Longrightarrow> P) \<Longrightarrow> P"
  by (auto simp: bindE_Inr_iff)

lemma bindE_Inl_iff [bind_simps]:
  "bindE m k = Inl e \<longleftrightarrow> m = Inl e \<or> (\<exists>x. m = Inr x \<and> k x = Inl e)"
  by (cases m) (auto simp: bindE_def)

lemma requireE_Inr_iff [bind_simps]: "requireE c e = Inr u \<longleftrightarrow> c"
  by (simp add: requireE_def)

lemma requireE_Inl_iff [bind_simps]: "requireE c e = Inl e' \<longleftrightarrow> \<not> c \<and> e' = e"
  by (auto simp: requireE_def)

subsection \<open>Go's 64-bit integers\<close>

definition in64 :: "int \<Rightarrow> bool" where
  "in64 x \<longleftrightarrow> - (2 ^ 63) \<le> x \<and> x < 2 ^ 63"

definition wrap64 :: "int \<Rightarrow> int" where
  "wrap64 x = (x + 2 ^ 63) mod 2 ^ 64 - 2 ^ 63"

lemma wrap64_in64 [simp]: "in64 (wrap64 x)"
proof -
  have "0 \<le> (x + 2 ^ 63) mod 2 ^ 64" and "(x + 2 ^ 63) mod 2 ^ 64 < (2 :: int) ^ 64"
    by (rule pos_mod_sign pos_mod_bound; simp)+
  then show ?thesis by (simp add: wrap64_def in64_def)
qed

lemma wrap64_id: "in64 x \<Longrightarrow> wrap64 x = x"
  by (simp add: wrap64_def in64_def)

lemma wrap64_id_iff: "wrap64 x = x \<longleftrightarrow> in64 x"
  by (metis wrap64_id wrap64_in64)

lemma wrap64_succ:
  assumes "in64 x" and "0 \<le> x" and "0 < wrap64 (x + 1)"
  shows "wrap64 (x + 1) = x + 1 \<and> in64 (x + 1)"
proof (cases "x + 1 < 2 ^ 63")
  case True
  then have "in64 (x + 1)" using assms(2) by (simp add: in64_def)
  then show ?thesis by (simp add: wrap64_id)
next
  case False
  then have "x + 1 = 2 ^ 63" using assms(1) by (simp add: in64_def)
  then have "wrap64 (x + 1) = - (2 ^ 63)" by (simp add: wrap64_def)
  with assms(3) show ?thesis by simp
qed

subsection \<open>\<open>strings.TrimSpace\<close>\<close>

text \<open>
  The byte encodings of the runes for which \<open>unicode.IsSpace\<close> holds: the six ASCII ones, U+0085,
  U+00A0, U+1680, U+2000 to U+200A, U+2028, U+2029, U+202F, U+205F and U+3000.
\<close>

definition go_spaces :: "string list" where
  "go_spaces =
     [[CHR 0x20], [CHR 0x09], [CHR 0x0A], [CHR 0x0B], [CHR 0x0C], [CHR 0x0D],
      [CHR 0xC2, CHR 0x85], [CHR 0xC2, CHR 0xA0], [CHR 0xE1, CHR 0x9A, CHR 0x80],
      [CHR 0xE2, CHR 0x80, CHR 0x80], [CHR 0xE2, CHR 0x80, CHR 0x81],
      [CHR 0xE2, CHR 0x80, CHR 0x82], [CHR 0xE2, CHR 0x80, CHR 0x83],
      [CHR 0xE2, CHR 0x80, CHR 0x84], [CHR 0xE2, CHR 0x80, CHR 0x85],
      [CHR 0xE2, CHR 0x80, CHR 0x86], [CHR 0xE2, CHR 0x80, CHR 0x87],
      [CHR 0xE2, CHR 0x80, CHR 0x88], [CHR 0xE2, CHR 0x80, CHR 0x89],
      [CHR 0xE2, CHR 0x80, CHR 0x8A], [CHR 0xE2, CHR 0x80, CHR 0xA8],
      [CHR 0xE2, CHR 0x80, CHR 0xA9], [CHR 0xE2, CHR 0x80, CHR 0xAF],
      [CHR 0xE2, CHR 0x81, CHR 0x9F], [CHR 0xE3, CHR 0x80, CHR 0x80]]"

function strip_all :: "'c list list \<Rightarrow> 'c list \<Rightarrow> 'c list" where
  "strip_all ps s =
     (case find (\<lambda>p. p \<noteq> [] \<and> take (length p) s = p) ps of
        None \<Rightarrow> s
      | Some p \<Rightarrow> strip_all ps (drop (length p) s))"
  by pat_completeness auto
termination
proof (relation "measure (\<lambda>(ps, s). length s)")
  fix ps :: "'c list list" and s p :: "'c list"
  assume "find (\<lambda>p. p \<noteq> [] \<and> take (length p) s = p) ps = Some p"
  then have "p \<noteq> []" and "take (length p) s = p"
    by (auto simp: find_Some_iff)
  then have "s \<noteq> []" by auto
  with \<open>p \<noteq> []\<close> show "((ps, drop (length p) s), (ps, s)) \<in> measure (\<lambda>(ps, s). length s)"
    by simp
qed simp

declare strip_all.simps [simp del]

definition trim_space :: "string \<Rightarrow> string" where
  "trim_space s = rev (strip_all (map rev go_spaces) (rev (strip_all go_spaces s)))"

text \<open>What no prefix of the list starts is left alone; what is stripped no longer starts with one.\<close>

definition starts_with_any :: "'c list list \<Rightarrow> 'c list \<Rightarrow> bool" where
  "starts_with_any ps s \<longleftrightarrow> (\<exists>p \<in> set ps. p \<noteq> [] \<and> take (length p) s = p)"

lemma strip_all_id: "\<not> starts_with_any ps s \<Longrightarrow> strip_all ps s = s"
  by (subst strip_all.simps)
    (auto simp: starts_with_any_def find_None_iff split: option.split dest!: find_Some_iff [THEN iffD1])

lemma strip_all_stripped: "\<not> starts_with_any ps (strip_all ps s)"
proof (induction ps s rule: strip_all.induct)
  case (1 ps s)
  show ?case
  proof (cases "find (\<lambda>p. p \<noteq> [] \<and> take (length p) s = p) ps")
    case None
    then have "\<not> starts_with_any ps s" by (auto simp: starts_with_any_def find_None_iff)
    then show ?thesis by (simp add: strip_all_id)
  next
    case (Some p)
    with "1.IH" [OF Some] show ?thesis by (subst strip_all.simps) simp
  qed
qed

lemma strip_all_suffix: "\<exists>pre. s = pre @ strip_all ps s"
proof (induction ps s rule: strip_all.induct)
  case (1 ps s)
  show ?case
  proof (cases "find (\<lambda>p. p \<noteq> [] \<and> take (length p) s = p) ps")
    case None
    then show ?thesis by (subst strip_all.simps) simp
  next
    case (Some p)
    then obtain pre where "drop (length p) s = pre @ strip_all ps (drop (length p) s)"
      using "1.IH" by blast
    then have "s = (take (length p) s @ pre) @ strip_all ps (drop (length p) s)"
      by (metis append.assoc append_take_drop_id)
    moreover have "strip_all ps s = strip_all ps (drop (length p) s)"
      using Some by (subst strip_all.simps) simp
    ultimately show ?thesis by metis
  qed
qed

lemma starts_with_any_prefix: "starts_with_any ps s \<Longrightarrow> starts_with_any ps (s @ t)"
proof -
  assume "starts_with_any ps s"
  then obtain p where p: "p \<in> set ps" "p \<noteq> []" "take (length p) s = p"
    by (auto simp: starts_with_any_def)
  then have "length p \<le> length s" by (metis length_take min.absorb_iff2 min.commute nat_le_linear)
  with p show ?thesis by (auto simp: starts_with_any_def)
qed

lemma trim_space_idem [simp]: "trim_space (trim_space s) = trim_space s"
proof -
  let ?l = "strip_all go_spaces s"
  let ?r = "strip_all (map rev go_spaces) (rev ?l)"
  obtain pre where "rev ?l = pre @ ?r"
    using strip_all_suffix by blast
  then have "?l = rev ?r @ rev pre" by (metis rev_append rev_rev_ident)
  then have "\<not> starts_with_any go_spaces (rev ?r)"
    using strip_all_stripped starts_with_any_prefix by metis
  then have "strip_all go_spaces (rev ?r) = rev ?r" by (rule strip_all_id)
  moreover have "strip_all (map rev go_spaces) ?r = ?r"
    by (rule strip_all_id) (rule strip_all_stripped)
  ultimately show ?thesis by (simp add: trim_space_def)
qed

lemma trim_space_empty [simp]: "trim_space [] = []"
  by (simp add: trim_space_def strip_all_id starts_with_any_def)

text \<open>A string whose first and last bytes occur in no space keeps them: the case of all literals here.\<close>

definition plain_byte :: "char \<Rightarrow> bool" where
  "plain_byte c \<longleftrightarrow> c \<notin> set (concat go_spaces)"

lemma trim_space_plain: "plain_byte (hd s) \<Longrightarrow> plain_byte (last s) \<Longrightarrow> trim_space s = s"
proof (cases "s = []")
  case False
  have starts: "\<not> starts_with_any ps xs"
    if "xs \<noteq> []" "hd xs \<notin> set (concat ps)" for ps and xs :: string
  proof
    assume "starts_with_any ps xs"
    then obtain p where "p \<in> set ps" "p \<noteq> []" "take (length p) xs = p"
      by (auto simp: starts_with_any_def)
    with that(1) have "hd p = hd xs" by (metis hd_take length_greater_0_conv)
    with \<open>p \<noteq> []\<close> have "hd xs \<in> set p" by (metis list.set_sel(1))
    with that \<open>p \<in> set ps\<close> show False by auto
  qed
  assume plain: "plain_byte (hd s)" "plain_byte (last s)"
  have "strip_all go_spaces s = s"
    using False plain(1) by (intro strip_all_id starts) (auto simp: plain_byte_def)
  moreover have "strip_all (map rev go_spaces) (rev s) = rev s"
    using False plain(2) by (intro strip_all_id starts) (auto simp: plain_byte_def hd_rev)
  ultimately show ?thesis by (simp add: trim_space_def)
qed simp

text \<open>\<open>strings.TrimSpace (x) != ""\<close> is the services' test for a required field.\<close>

abbreviation nonblank :: "string \<Rightarrow> bool" where
  "nonblank s \<equiv> trim_space s \<noteq> []"

subsection \<open>\<open>domain.NewID\<close>\<close>

text \<open>
  \<open>NewID(prefix)\<close> is the prefix, an underscore and sixteen random bytes in hexadecimal. The random
  bytes are not modelled: they are an argument, so a statement over all arguments covers every draw,
  a repeated one included.
\<close>

definition NewID :: "string \<Rightarrow> string \<Rightarrow> ID" where
  "NewID prefix rand = prefix @ ''_'' @ rand"

lemma NewID_nonempty [simp]: "NewID prefix rand \<noteq> []" "[] \<noteq> NewID prefix rand"
  by (simp_all add: NewID_def)

text \<open>
  What one call of a service reads from its environment: the clock at each of its call sites of
  \<open>clock.Now\<close> and the random part of the identifier at each of its call sites of \<open>NewID\<close>.
\<close>

record env =
  clk :: "nat \<Rightarrow> gtime"
  rnd :: "nat \<Rightarrow> string"

subsection \<open>Normalised lists of identifiers\<close>

text \<open>
  The services collect identifiers in a Go map and sort its keys. The interface is what their
  callers rely on: the values are the trimmed ones that are not empty, each once and in order.
\<close>

definition distinct_sorted :: "'a::linorder list \<Rightarrow> 'a list" where
  "distinct_sorted xs = sort (remdups xs)"

lemma set_distinct_sorted [simp]: "set (distinct_sorted xs) = set xs"
  by (simp add: distinct_sorted_def)

lemma distinct_distinct_sorted [simp]: "distinct (distinct_sorted xs)"
  by (simp add: distinct_sorted_def)

lemma sorted_distinct_sorted [simp]: "sorted (distinct_sorted xs)"
  by (simp add: distinct_sorted_def)

locale id_normalizer =
  fixes norm :: "string list \<Rightarrow> string list"
    and clean :: "string \<Rightarrow> string"
  assumes norm_set: "set (norm xs) = clean ` set xs - {[]}"
    and norm_sorted: "sorted (norm xs)"
    and norm_distinct: "distinct (norm xs)"
    and clean_idem: "clean (clean x) = clean x"
begin

lemma norm_eqI: "clean ` set xs - {[]} = clean ` set ys - {[]} \<Longrightarrow> norm xs = norm ys"
  by (rule sorted_distinct_set_unique) (simp_all add: norm_set norm_sorted norm_distinct)

lemma norm_ext: "set xs = set ys \<Longrightarrow> norm xs = norm ys"
  by (rule norm_eqI) simp

lemma norm_no_blank: "[] \<notin> set (norm xs)"
  by (simp add: norm_set)

lemma norm_member: "x \<in> set (norm xs) \<Longrightarrow> x \<noteq> [] \<and> clean x = x"
  using clean_idem by (auto simp: norm_set)

lemma norm_id: "norm (norm xs) = norm xs"
proof (rule sorted_distinct_set_unique)
  show "set (norm (norm xs)) = set (norm xs)"
    using norm_member unfolding norm_set [of "norm xs"] by force
qed (simp_all add: norm_sorted norm_distinct)

lemma norm_fixed: "sorted xs \<Longrightarrow> distinct xs \<Longrightarrow> (\<And>x. x \<in> set xs \<Longrightarrow> x \<noteq> [] \<and> clean x = x) \<Longrightarrow> norm xs = xs"
proof (rule sorted_distinct_set_unique)
  assume "\<And>x. x \<in> set xs \<Longrightarrow> x \<noteq> [] \<and> clean x = x"
  then show "set (norm xs) = set xs" by (force simp: norm_set)
qed (simp_all add: norm_sorted norm_distinct)

lemma norm_empty_iff: "norm xs = [] \<longleftrightarrow> (\<forall>x \<in> set xs. clean x = [])"
  by (metis (no_types, lifting) Diff_eq_empty_iff image_subset_iff norm_set set_empty singleton_iff)

end

subsection \<open>Transition systems with an invariant\<close>

text \<open>
  A component's calls, in any order and with any arguments, are the steps of a relation on the
  stored state. What every step keeps holds in every state that the calls reach.
\<close>

locale kept_invariant =
  fixes step :: "'s \<Rightarrow> 's \<Rightarrow> bool"
    and inv :: "'s \<Rightarrow> bool"
  assumes step_inv: "step s t \<Longrightarrow> inv s \<Longrightarrow> inv t"
begin

lemma reach_inv: "step\<^sup>*\<^sup>* s t \<Longrightarrow> inv s \<Longrightarrow> inv t"
  by (induction rule: rtranclp_induct) (auto intro: step_inv)

end

end
