(* ===== verification/Tables.thy ===== *)
theory Tables
  imports Prelude
begin

text \<open>
  A table of the SQLite store is the list of its rows in insertion order. The statements the
  services execute are operations on that list: \<open>SELECT ... WHERE key = ?\<close> is a lookup,
  \<open>UPDATE ... WHERE\<close> rewrites the rows that match, \<open>RowsAffected\<close> counts them, and
  \<open>INSERT\<close> fails on a duplicate key.
\<close>

definition find_by :: "('r \<Rightarrow> 'k) \<Rightarrow> 'k \<Rightarrow> 'r list \<Rightarrow> 'r option" where
  "find_by key k rows = find (\<lambda>r. key r = k) rows"

definition update_where :: "('r \<Rightarrow> bool) \<Rightarrow> ('r \<Rightarrow> 'r) \<Rightarrow> 'r list \<Rightarrow> 'r list" where
  "update_where P f rows = map (\<lambda>r. if P r then f r else r) rows"

definition count_where :: "('r \<Rightarrow> bool) \<Rightarrow> 'r list \<Rightarrow> nat" where
  "count_where P rows = length (filter P rows)"

definition exists_where :: "('r \<Rightarrow> bool) \<Rightarrow> 'r list \<Rightarrow> bool" where
  "exists_where P rows = list_ex P rows"

definition insert_unique :: "('r \<Rightarrow> 'k) \<Rightarrow> 'r \<Rightarrow> 'r list \<Rightarrow> 'r list res" where
  "insert_unique key r rows =
     (if exists_where (\<lambda>x. key x = key r) rows then Inl (ErrConstraint ''UNIQUE'')
      else Inr (rows @ [r]))"

subsection \<open>Lookups\<close>

lemma find_by_Nil [simp]: "find_by key k [] = None"
  by (simp add: find_by_def)

lemma find_by_Cons: "find_by key k (r # rows) = (if key r = k then Some r else find_by key k rows)"
  by (simp add: find_by_def)

lemma find_by_append: "find_by key k (xs @ ys) =
    (case find_by key k xs of None \<Rightarrow> find_by key k ys | Some r \<Rightarrow> Some r)"
  by (induction xs) (auto simp: find_by_Cons)

lemma find_by_SomeD: "find_by key k rows = Some r \<Longrightarrow> r \<in> set rows \<and> key r = k"
  by (auto simp: find_by_def find_Some_iff)

lemma find_by_key_mem: "find_by key k rows = Some r \<Longrightarrow> k \<in> key ` set rows"
  using find_by_SomeD [of key k rows r] by blast

lemma find_by_own: "find_by key k rows = Some r \<Longrightarrow> find_by key (key r) rows = Some r"
  using find_by_SomeD by metis

lemma find_by_None_iff: "find_by key k rows = None \<longleftrightarrow> k \<notin> key ` set rows"
  by (auto simp: find_by_def find_None_iff)

lemma find_by_member: "distinct (map key rows) \<Longrightarrow> r \<in> set rows \<Longrightarrow> find_by key (key r) rows = Some r"
  by (induction rows) (auto simp: find_by_Cons)

lemma find_by_iff: "distinct (map key rows) \<Longrightarrow> find_by key k rows = Some r \<longleftrightarrow> r \<in> set rows \<and> key r = k"
  using find_by_member find_by_SomeD by metis

lemma find_by_only:
  "distinct (map key rows) \<Longrightarrow> find_by key k rows = Some r \<Longrightarrow> y \<in> set rows \<Longrightarrow> key y = k \<longleftrightarrow> y = r"
  by (metis find_by_member find_by_SomeD option.inject)

subsection \<open>Updates\<close>

lemma set_update_where: "set (update_where P f rows) = (\<lambda>r. if P r then f r else r) ` set rows"
  by (simp add: update_where_def)

lemma all_update_where:
  "(\<forall>x \<in> set (update_where P f rows). Q x) \<longleftrightarrow> (\<forall>x \<in> set rows. Q (if P x then f x else x))"
  by (auto simp: set_update_where)

lemma update_where_Nil [simp]: "update_where P f [] = []"
  by (simp add: update_where_def)

lemma update_where_Cons:
  "update_where P f (r # rows) = (if P r then f r else r) # update_where P f rows"
  by (simp add: update_where_def)

lemma length_update_where [simp]: "length (update_where P f rows) = length rows"
  by (simp add: update_where_def)

lemma find_by_update_where [sql_simps]:
  assumes "\<And>r. r \<in> set rows \<Longrightarrow> P r \<Longrightarrow> key (f r) = key r"
  shows "find_by key k (update_where P f rows) =
    map_option (\<lambda>r. if P r then f r else r) (find_by key k rows)"
  using assms by (induction rows) (auto simp: find_by_Cons update_where_Cons)

lemma map_key_update_where [sql_simps]:
  assumes "\<And>r. r \<in> set rows \<Longrightarrow> P r \<Longrightarrow> key (f r) = key r"
  shows "map key (update_where P f rows) = map key rows"
  using assms by (induction rows) (auto simp: update_where_Cons)

lemma update_where_key_mem:
  assumes "distinct (map key rows)" and "find_by key k rows = Some r"
    and "x \<in> set (update_where (\<lambda>x. key x = k) f rows)"
  shows "x = f r \<or> x \<in> set rows \<and> key x \<noteq> k"
  using assms by (auto simp: set_update_where find_by_iff inj_on_eq_iff distinct_map dest: inj_onD)

lemma update_where_none: "(\<And>r. r \<in> set rows \<Longrightarrow> \<not> P r) \<Longrightarrow> update_where P f rows = rows"
  by (induction rows) (auto simp: update_where_Cons)

lemma count_where_append: "count_where P (xs @ ys) = count_where P xs + count_where P ys"
  by (simp add: count_where_def)

lemma count_where_update_other:
  "(\<And>r. r \<in> set rows \<Longrightarrow> P r \<Longrightarrow> Q (f r) = Q r) \<Longrightarrow>
   count_where Q (update_where P f rows) = count_where Q rows"
  by (induction rows) (auto simp: update_where_Cons count_where_def)

lemma count_where_zero: "count_where P rows = 0 \<longleftrightarrow> (\<forall>r \<in> set rows. \<not> P r)"
  by (auto simp: count_where_def filter_empty_conv)

lemma exists_where_iff: "exists_where P rows \<longleftrightarrow> (\<exists>r \<in> set rows. P r)"
  by (simp add: exists_where_def list_ex_iff)

text \<open>One keyed row: the count of a primary key is at most one.\<close>

lemma count_where_key:
  assumes "distinct (map key rows)"
  shows "count_where (\<lambda>r. key r = k \<and> P r) rows =
    (case find_by key k rows of None \<Rightarrow> 0 | Some r \<Rightarrow> if P r then 1 else 0)"
  using assms
proof (induction rows)
  case (Cons r rows)
  show ?case
  proof (cases "key r = k")
    case True
    with Cons.prems have "\<And>x. x \<in> set rows \<Longrightarrow> key x \<noteq> k"
      by (auto intro: rev_image_eqI)
    then have "filter (\<lambda>x. key x = k \<and> P x) rows = []"
      by (simp add: filter_empty_conv)
    with True show ?thesis by (simp add: count_where_def find_by_Cons)
  next
    case False
    with Cons show ?thesis by (simp add: count_where_def find_by_Cons)
  qed
qed (simp add: count_where_def)

subsection \<open>Inserts\<close>

lemma insert_unique_Inr_iff:
  "insert_unique key r rows = Inr rows' \<longleftrightarrow> key r \<notin> key ` set rows \<and> rows' = rows @ [r]"
  unfolding insert_unique_def exists_where_iff by (auto simp: image_iff) metis+

lemma insert_unique_Inl_iff:
  "insert_unique key r rows = Inl e \<longleftrightarrow> key r \<in> key ` set rows \<and> e = ErrConstraint ''UNIQUE''"
  unfolding insert_unique_def exists_where_iff by (auto simp: image_iff) metis+

lemma distinct_insert_unique:
  "distinct (map key rows) \<Longrightarrow> insert_unique key r rows = Inr rows' \<Longrightarrow> distinct (map key rows')"
  by (auto simp: insert_unique_Inr_iff)

lemma find_by_insert_new [sql_simps]:
  "key r \<notin> key ` set rows \<Longrightarrow>
   find_by key k (rows @ [r]) = (if key r = k then Some r else find_by key k rows)"
  by (auto simp: find_by_append find_by_Cons find_by_None_iff [THEN iffD2] split: option.split)

subsection \<open>Sums\<close>

definition sum_where :: "('r \<Rightarrow> bool) \<Rightarrow> ('r \<Rightarrow> int) \<Rightarrow> 'r list \<Rightarrow> int" where
  "sum_where P g rows = sum_list (map g (filter P rows))"

lemma sum_where_Nil [simp]: "sum_where P g [] = 0"
  by (simp add: sum_where_def)

lemma sum_where_Cons: "sum_where P g (r # rows) = (if P r then g r else 0) + sum_where P g rows"
  by (simp add: sum_where_def)

lemma sum_where_append: "sum_where P g (xs @ ys) = sum_where P g xs + sum_where P g ys"
  by (simp add: sum_where_def)

lemma sum_where_nonneg: "(\<And>r. r \<in> set rows \<Longrightarrow> P r \<Longrightarrow> 0 \<le> g r) \<Longrightarrow> 0 \<le> sum_where P g rows"
  by (induction rows) (auto simp: sum_where_Cons)

lemma sum_where_update_key:
  assumes "distinct (map key rows)" and "find_by key k rows = Some r" and "key (f r) = key r"
  shows "sum_where P g (update_where (\<lambda>x. key x = k) f rows) =
    sum_where P g rows - (if P r then g r else 0) + (if P (f r) then g (f r) else 0)"
  using assms
proof (induction rows)
  case (Cons x rows)
  show ?case
  proof (cases "key x = k")
    case True
    with Cons.prems have "x = r" and "\<And>y. y \<in> set rows \<Longrightarrow> key y \<noteq> k"
      by (auto simp: find_by_Cons intro: rev_image_eqI)
    moreover from this have "update_where (\<lambda>x. key x = k) f rows = rows"
      by (auto intro: update_where_none)
    ultimately show ?thesis using True by (simp add: update_where_Cons sum_where_Cons)
  next
    case False
    with Cons show ?thesis by (simp add: update_where_Cons sum_where_Cons find_by_Cons)
  qed
qed simp

end
