(* ===== verification/Domain.thy ===== *)
theory Domain
  imports Tables
begin

text \<open>
  The canonical vocabulary of \<open>internal/domain\<close>: lifecycle states, enforcement levels, purposes and
  the records that the services exchange. A Go string type whose values come from outside (a
  request, a provider, a policy engine) keeps a constructor for the strings that are no declared
  constant; a type that is only ever read from a column with a CHECK constraint has none.
\<close>

subsection \<open>Lifecycle states (domain/states.go)\<close>

datatype task_state =
    TaskCreated | TaskEligible | TaskExecuting | TaskAwaitingVerification | TaskSucceeded
  | TaskFailed | TaskBlocked | TaskCancelled | TaskChallenged | TaskExpired

datatype attempt_state =
    AttemptLeased | AttemptRunning | AttemptCompleted | AttemptFailed | AttemptCancelled
  | AttemptExpired

datatype lease_state = LeaseActive | LeaseRevoked | LeaseExpired

datatype operation_state =
    OperationPrepared | OperationDispatched | OperationConfirmedEffect
  | OperationConfirmedNoEffect | OperationOutcomeUnknown | OperationCancelled
  | OperationOther string

fun Terminal :: "operation_state \<Rightarrow> bool" where
  "Terminal OperationConfirmedEffect = True"
| "Terminal OperationConfirmedNoEffect = True"
| "Terminal OperationCancelled = True"
| "Terminal _ = False"

datatype enforcement_level =
    EnforcementEnforced | EnforcementPartial | EnforcementUnenforced
  | EnforcementOther string

datatype policy_outcome =
    PolicyAllow | PolicyAllowWithLimit | PolicyRequireApproval | PolicyDeny
  | PolicyOther string

datatype reservation_state =
    ReservationHeld | ReservationSettled | ReservationReleased | ReservationUnresolved

datatype challenge_scope =
    ChallengeTask | ChallengeParent | ChallengeGoal | ChallengeMissionAssumption
  | ChallengeOther string

datatype failure_class =
    FailureTransient | FailureCapability | FailureEpistemic | FailurePlanning | FailureResource
  | FailureAuthority | FailureObjectiveImpossible | FailureExecution | FailureOther string

datatype approval_state =
    ApprovalPending | ApprovalApproved | ApprovalRejected | ApprovalExpired | ApprovalConsumed

text \<open>How the cost of a reservation is bounded (\<open>CostControl\<close> of resources/service.go).\<close>

datatype cost_control =
    CostTechnicallyCapped | CostPrepaidQuota | CostVerifiedStop | CostEstimatedOnly
  | CostPotentiallyOpen | CostOther string

subsection \<open>Purposes (domain/task.go)\<close>

datatype purpose_kind =
    PurposeMission | PurposeObligation | PurposeCollectiveMaintenance | PurposeGovernance
  | PurposeStrategicPulse | PurposeRecovery | PurposeOwnerDirective | PurposeOther string

fun purpose_kind_valid :: "purpose_kind \<Rightarrow> bool" where
  "purpose_kind_valid (PurposeOther _) = False"
| "purpose_kind_valid _ = True"

record purpose_ref =
  pr_kind :: purpose_kind
  pr_id :: ID

record task =
  t_id :: ID
  t_parent :: ID
  t_purpose :: purpose_ref
  t_class :: string
  t_objective :: string
  t_payload :: string
  t_idem_key :: string
  t_state :: task_state
  t_attempt :: "ID option"
  t_fence :: int
  t_criteria :: "string list"
  t_capabilities :: "string list"
  t_enforcement :: enforcement_level
  t_authority :: "string list"
  t_envelope :: ID
  t_priority :: int
  t_earliest :: gtime
  t_deadline :: gtime
  t_created :: gtime
  t_updated :: gtime
  t_request_hash :: string

record attempt =
  a_id :: ID
  a_task :: ID
  a_state :: attempt_state
  a_fence :: int
  a_lease :: lease_state
  a_expires :: gtime
  a_executor :: string
  a_started :: gtime
  a_completed :: "gtime option"

subsection \<open>Policy decisions, reservations, operations, approvals\<close>

record policy_decision =
  pd_id :: ID
  pd_outcome :: policy_outcome
  pd_required :: "ID list"
  pd_set_id :: ID
  pd_set_hash :: string
  pd_caps_hash :: string
  pd_evaluated :: gtime

record reservation =
  r_id :: ID
  r_envelope :: ID
  r_state :: reservation_state
  r_amount :: int
  r_settled :: "int option"
  r_cost_control :: cost_control
  r_source :: string
  r_hard_cap :: bool
  r_created :: gtime
  r_updated :: gtime

record operation =
  o_id :: ID
  o_task :: ID
  o_attempt :: ID
  o_slot :: ID
  o_seq :: int
  o_state :: operation_state
  o_fingerprint :: string
  o_revision :: int
  o_provider :: string
  o_adapter :: string
  o_reservation :: ID
  o_risk :: string
  o_prepare_decision :: "ID \<times> ID \<times> string \<times> string"
  o_approval :: ID
  o_callers :: "ID list"
  o_dispatch_decision :: "(ID \<times> ID \<times> string \<times> string) option"
  o_claim :: "ID option"
  o_reference :: string
  o_cancel_requested :: bool
  o_reconcile :: bool
  o_cost :: "int option"
  o_created :: gtime
  o_dispatched :: "gtime option"
  o_settled :: "gtime option"

record approval =
  ap_id :: ID
  ap_kind :: string
  ap_subject :: ID
  ap_digest :: string
  ap_policy :: ID
  ap_required :: "ID list"
  ap_requester :: ID
  ap_state :: approval_state
  ap_expires :: gtime
  ap_decided :: "gtime option"
  ap_approver :: ID
  ap_action :: string
  ap_created :: gtime

record decision =
  de_approval :: ID
  de_approver :: ID
  de_digest :: string
  de_action :: string
  de_at :: gtime

subsection \<open>Enforcement levels in order\<close>

text \<open>
  The levels are ordered by the protection they claim: a string that is no level at the bottom,
  then UNENFORCED, PARTIAL and ENFORCED. Four packages carry a rank function of their own; the
  interface below is the contract between them.
\<close>

fun valid_enforcement :: "enforcement_level \<Rightarrow> bool" where
  "valid_enforcement (EnforcementOther _) = False"
| "valid_enforcement _ = True"

fun enforcement_key :: "enforcement_level \<Rightarrow> nat \<times> string" where
  "enforcement_key (EnforcementOther s) = (0, s)"
| "enforcement_key EnforcementUnenforced = (1, [])"
| "enforcement_key EnforcementPartial = (2, [])"
| "enforcement_key EnforcementEnforced = (3, [])"

lemma enforcement_key_inj: "enforcement_key a = enforcement_key b \<Longrightarrow> a = b"
  by (cases a; cases b) auto

instantiation enforcement_level :: linorder
begin

definition less_eq_enforcement_level :: "enforcement_level \<Rightarrow> enforcement_level \<Rightarrow> bool" where
  "a \<le> b \<longleftrightarrow> fst (enforcement_key a) < fst (enforcement_key b) \<or>
     fst (enforcement_key a) = fst (enforcement_key b) \<and> snd (enforcement_key a) \<le> snd (enforcement_key b)"

definition less_enforcement_level :: "enforcement_level \<Rightarrow> enforcement_level \<Rightarrow> bool" where
  "a < b \<longleftrightarrow> a \<le> b \<and> \<not> b \<le> (a :: enforcement_level)"

instance
proof
  fix a b c :: enforcement_level
  show "a < b \<longleftrightarrow> a \<le> b \<and> \<not> b \<le> a" by (rule less_enforcement_level_def)
  show "a \<le> a" by (simp add: less_eq_enforcement_level_def)
  show "a \<le> b \<Longrightarrow> b \<le> c \<Longrightarrow> a \<le> c" by (auto simp: less_eq_enforcement_level_def)
  show "a \<le> b \<Longrightarrow> b \<le> a \<Longrightarrow> a = b"
    by (rule enforcement_key_inj) (auto simp: less_eq_enforcement_level_def prod_eq_iff)
  show "a \<le> b \<or> b \<le> a" by (auto simp: less_eq_enforcement_level_def)
qed

end

locale enforcement_ranking =
  fixes rank :: "enforcement_level \<Rightarrow> int"
  assumes rank_unenforced: "rank EnforcementUnenforced < rank EnforcementPartial"
    and rank_partial: "rank EnforcementPartial < rank EnforcementEnforced"
    and rank_other: "rank (EnforcementOther s) \<le> rank EnforcementUnenforced"
begin

lemma rank_le_iff:
  "valid_enforcement a \<Longrightarrow> valid_enforcement b \<Longrightarrow> rank a \<le> rank b \<longleftrightarrow> a \<le> b"
  using rank_unenforced rank_partial
  by (cases a; cases b) (simp_all add: less_eq_enforcement_level_def)

lemma enforced_satisfies_all: "rank b \<le> rank EnforcementEnforced"
proof (cases b)
  case (EnforcementOther s)
  then show ?thesis using rank_unenforced rank_partial rank_other [of s] by simp
qed (use rank_unenforced rank_partial in simp_all)

lemma only_enforced_satisfies_enforced:
  "valid_enforcement a \<Longrightarrow> rank EnforcementEnforced \<le> rank a \<longleftrightarrow> a = EnforcementEnforced"
  using rank_unenforced rank_partial by (cases a) auto

end

end
