(* ===== verification/Schema.thy ===== *)
theory Schema
  imports Complex_Main Domain
begin

text \<open>
  The records of \<open>domain/experience.go\<close>, \<open>domain/feedback.go\<close> and \<open>domain/memory.go\<close> and the tables of the migrations
  00009 and 00010 that keep them, grouped by the package that writes them. A time column that may be NULL is 0 there when the
  code reads NULL as the zero time and writes the zero time as NULL.
\<close>

subsection \<open>States (domain/states.go, domain/feedback.go)\<close>

datatype GenericTaskClass =
    GenericTaskDebugging | GenericTaskReview | GenericTaskRefactor | GenericTaskDocumentation
  | GenericTaskMigration | GenericTaskTesting | GenericTaskMaintenance | GenericTaskOther
  | GenericTaskUnknown string
  \<comment> \<open>The last constructor holds the strings that are no declared constant, the empty one among them.\<close>

fun class_valid :: "GenericTaskClass \<Rightarrow> bool" where
  "class_valid (GenericTaskUnknown _) = False"
| "class_valid _ = True"

datatype rule_state =
    ExperienceCandidate | ExperienceShadow | ExperienceActive | ExperienceRolledBack | ExperienceRetired

datatype claim_status =
    ClaimSpeculation | ClaimHypothesis | ClaimSupported | ClaimVerified | ClaimOther string

datatype candidate_state =
    FeedbackStateCandidate | FeedbackStateSanitizing | FeedbackStateSanitized | FeedbackStateApprovalPending
  | FeedbackStateExportReady | FeedbackStateReported | FeedbackStateLocalOnly | FeedbackStateRejectedUnsafe
  | FeedbackStateRejectedPolicy | FeedbackStateDuplicate | FeedbackStateOther string

datatype sanitization_outcome = SanitizationPass | SanitizationReject | SanitizationUncertain

subsection \<open>Experience (migration 00010)\<close>

record grant_request_row =
  gr_id :: ID
  gr_digest :: string
  gr_definition :: string
  gr_approval :: ID
  gr_requester :: ID
  gr_created :: gtime

record AdaptationGrant =
  ag_id :: ID
  ag_request :: ID
  ag_kind :: string
  ag_scope :: string
  ag_executors :: "string list"
  ag_samples :: int
  ag_acceptance_bps :: int
  ag_cost_bps :: int
  ag_owner :: ID
  ag_expires :: gtime
  ag_activated :: gtime

record proposal_row =
  xp_id :: ID
  xp_grant :: ID
  xp_class :: GenericTaskClass
  xp_scope :: string
  xp_executor :: string
  xp_state :: rule_state
  xp_created :: gtime
  xp_updated :: gtime

record ExperienceRule =
  xr_id :: ID
  xr_proposal :: ID
  xr_grant :: ID
  xr_version :: int
  xr_kind :: string
  xr_scope :: string
  xr_class :: GenericTaskClass
  xr_executor :: string
  xr_state :: rule_state
  xr_samples :: int
  xr_activated :: gtime
  xr_rolled_back :: gtime
  xr_created :: gtime

record outcome_row =
  xo_id :: ID
  xo_task :: ID
  xo_class :: GenericTaskClass
  xo_scope :: string
  xo_executor :: string
  xo_accepted :: bool
  xo_human :: bool
  xo_retries :: int
  xo_cost :: "int option"
  xo_latency :: "int option"
  xo_recorded :: gtime

record experience_tables =
  xt_requests :: "grant_request_row list"
  xt_grants :: "AdaptationGrant list"
  xt_proposals :: "proposal_row list"
  xt_proposal_evidence :: "(ID \<times> ID) list"
  xt_rules :: "ExperienceRule list"
  xt_rule_evidence :: "(ID \<times> ID) list"
  xt_rule_outcomes :: "(ID \<times> ID) list"
  xt_outcomes :: "outcome_row list"

subsection \<open>Field feedback (migration 00010)\<close>

record observation_row =
  fo_id :: ID
  fo_collective :: ID
  fo_task :: ID
  fo_attempt :: ID
  fo_operation :: ID
  fo_detector :: "string option"
  fo_category :: string
  fo_basis :: string
  fo_source :: string
  fo_summary :: string
  fo_metrics :: string
  fo_runtime :: string
  fo_executor :: string
  fo_executor_version :: string
  fo_enforcement :: enforcement_level
  fo_created :: gtime

record FeedbackCandidate =
  fc_id :: ID
  fc_state :: candidate_state
  fc_class :: GenericTaskClass
  fc_category :: string
  fc_expected :: string
  fc_observed :: string
  fc_transitions :: string
  fc_metrics :: string
  fc_human :: bool
  fc_recovery :: string
  fc_runtime :: string
  fc_executor :: string
  fc_executor_version :: string
  fc_enforcement :: enforcement_level
  fc_correlation :: string
  fc_created :: gtime

record SanitizationResult =
  sz_id :: ID
  sz_candidate :: ID
  sz_version :: string
  sz_ruleset :: string
  sz_input :: string
  sz_outcome :: sanitization_outcome
  sz_reasons :: string
  sz_created :: gtime

record SanitizedFeedback =
  sf_id :: ID
  sf_candidate :: ID
  sf_schema :: int
  sf_content :: string
  sf_hash :: string
  sf_result :: ID
  sf_correlation :: string
  sf_fingerprint :: string
  sf_created :: gtime

record emission_row =
  fe_feedback :: ID
  fe_task :: ID
  fe_provider :: string
  fe_destination :: string
  fe_required :: "ID list"
  fe_created :: gtime

record feedback_tables =
  ft_observations :: "observation_row list"
  ft_observation_evidence :: "(ID \<times> ID) list"
  ft_candidates :: "FeedbackCandidate list"
  ft_candidate_observations :: "(ID \<times> ID) list"
  ft_results :: "SanitizationResult list"
  ft_sanitized :: "SanitizedFeedback list"
  ft_emissions :: "emission_row list"

subsection \<open>Memory and audit (migration 00009)\<close>

text \<open>
  A \<open>float64\<close> as the code uses it: it is compared with 0 and 1 and stored. Every finite value is rational; NaN compares
  false with everything, and SQLite stores it as NULL.
\<close>

datatype float64 = Finite rat | PosInf | NegInf | NaN

text \<open>\<open>float64\<close> comparisons with 0 and 1: NaN is neither below nor above.\<close>

fun below_zero :: "float64 \<Rightarrow> bool" where
  "below_zero (Finite r) = (r < 0)"
| "below_zero NegInf = True"
| "below_zero _ = False"

fun above_one :: "float64 \<Rightarrow> bool" where
  "above_one (Finite r) = (r > 1)"
| "above_one PosInf = True"
| "above_one _ = False"

text \<open>The column: NaN is NULL there, and the CHECK asks for a number from 0 to 1.\<close>

fun confidence_column :: "float64 \<Rightarrow> unit res" where
  "confidence_column (Finite r) = requireE (0 \<le> r \<and> r \<le> 1) (ErrConstraint ''CHECK'')"
| "confidence_column NaN = Inl (ErrConstraint ''NOT NULL'')"
| "confidence_column _ = Inl (ErrConstraint ''CHECK'')"

text \<open>The values of the payloads that are written as JSON and not read back by the services.\<close>

datatype payload_value = Text string | Number int | Texts "string list"

record claim_row =
  cl_id :: ID
  cl_subject :: ID
  cl_predicate :: string
  cl_statement :: string
  cl_normalized :: string
  cl_status :: claim_status
  cl_confidence :: float64
  cl_from :: gtime
  cl_to :: gtime
  cl_source :: ID
  cl_created :: gtime

record relation_row =
  rl_id :: ID
  rl_left :: ID
  rl_right :: ID
  rl_kind :: string
  rl_created :: gtime

record claim_evidence_row =
  ce_claim :: ID
  ce_evidence :: ID
  ce_linked :: gtime

record delta_row =
  kd_id :: ID
  kd_source :: ID
  kd_ingested :: gtime

record delta_claim_row =
  kc_delta :: ID
  kc_claim :: ID
  kc_status :: claim_status
  kc_confidence :: float64

record memory_event_row =
  me_id :: ID
  me_kind :: string
  me_subject :: ID
  me_payload :: "(string \<times> payload_value) list"
  me_created :: gtime

record memory_tables =
  mt_claims :: "claim_row list"
  mt_evidence :: "claim_evidence_row list"
  mt_relations :: "relation_row list"
  mt_deltas :: "delta_row list"
  mt_delta_claims :: "delta_claim_row list"
  mt_events :: "memory_event_row list"

record DecisionRecord =
  dr_id :: ID
  dr_trigger :: string
  dr_alternatives :: "string list"
  dr_basis :: string
  dr_evidence :: "ID list"
  dr_policy :: ID
  dr_authority :: "ID list"
  dr_expected :: string
  dr_confidence :: float64
  dr_envelope :: ID
  dr_actor :: ID
  dr_created :: gtime

record audit_event_row =
  ax_id :: ID
  ax_kind :: string
  ax_actor :: ID
  ax_subject :: ID
  ax_payload :: "(string \<times> payload_value) list"
  ax_created :: gtime

record audit_tables =
  at_decisions :: "DecisionRecord list"
  at_events :: "audit_event_row list"

definition empty_experience :: experience_tables where
  "empty_experience = \<lparr>xt_requests = [], xt_grants = [], xt_proposals = [], xt_proposal_evidence = [], xt_rules = [],
     xt_rule_evidence = [], xt_rule_outcomes = [], xt_outcomes = []\<rparr>"

definition empty_feedback :: feedback_tables where
  "empty_feedback = \<lparr>ft_observations = [], ft_observation_evidence = [], ft_candidates = [], ft_candidate_observations = [],
     ft_results = [], ft_sanitized = [], ft_emissions = []\<rparr>"

definition empty_memory :: memory_tables where
  "empty_memory = \<lparr>mt_claims = [], mt_evidence = [], mt_relations = [], mt_deltas = [], mt_delta_claims = [], mt_events = []\<rparr>"

definition empty_audit :: audit_tables where
  "empty_audit = \<lparr>at_decisions = [], at_events = []\<rparr>"

end
