(* ===== verification/Store.thy ===== *)
theory Store
  imports Schema
begin

text \<open>
  The canonical store (\<open>internal/state/sqlite\<close>): one record whose fields are the tables the
  modelled services use, the transaction wrapper \<open>WithTx\<close>, and the inserts whose constraints and
  triggers the migrations declare. A transaction body either fails, and nothing is written, or
  returns its result with the new tables. The foreign keys that the bodies rely on are all looked
  up by the bodies themselves before the insert, so they are not repeated here.
\<close>

subsection \<open>Rows (state/sqlite/migrations)\<close>

record mission_row =
  m_id :: ID
  m_statement :: string
  m_active :: bool
  m_created :: gtime
  m_deactivated :: "gtime option"

record goal_row =
  g_id :: ID
  g_purpose :: purpose_ref
  g_statement :: string
  g_active :: bool
  g_created :: gtime

record obligation_row =
  ob_id :: ID
  ob_source :: string
  ob_statement :: string
  ob_active :: bool
  ob_created :: gtime

record challenge_row =
  ch_id :: ID
  ch_task :: ID
  ch_scope :: challenge_scope
  ch_reason :: string
  ch_evidence :: "ID list"
  ch_at :: gtime

record failure_row =
  f_id :: ID
  f_attempt :: ID
  f_task :: ID
  f_class :: failure_class
  f_signature :: string
  f_evidence :: "ID list"
  f_at :: gtime

record event_row =
  ev_id :: ID
  ev_task :: ID
  ev_attempt :: "ID option"
  ev_type :: string
  ev_details :: "(string \<times> string) list"
  ev_at :: gtime

record evidence_row =
  evi_id :: ID
  evi_hash :: string
  evi_media :: string
  evi_kind :: string
  evi_size :: int
  evi_created :: gtime

record completion_row =
  co_id :: ID
  co_task :: ID
  co_attempt :: ID
  co_hash :: string
  co_evidence :: "ID list"
  co_at :: gtime

datatype verification_state = VerificationPending | VerificationAccepted | VerificationRejected

record verification_row =
  v_id :: ID
  v_task :: ID
  v_attempt :: ID
  v_completion :: ID
  v_state :: verification_state
  v_created :: gtime
  v_updated :: gtime

record acceptance_row =
  ac_id :: ID
  ac_task :: ID
  ac_attempt :: ID
  ac_verifier :: ID
  ac_type :: string
  ac_met :: bool
  ac_evidence :: "ID list"
  ac_at :: gtime

record envelope_row =
  e_id :: ID
  e_parent :: "ID option"
  e_hard_limit :: int
  e_created :: gtime

record slot_row =
  s_id :: ID
  s_collective :: ID
  s_task :: ID
  s_key :: string
  s_provider :: string
  s_descriptor :: string
  s_fingerprint :: string
  s_revision :: int
  s_canonical :: string
  s_adapter :: string
  s_semantic :: bool
  s_created :: gtime
  s_updated :: gtime

record policy_set_row =
  p_id :: ID
  p_hash :: string
  p_caps_hash :: string
  p_active :: bool

datatype wakeup_kind = KindTaskReevaluation | KindStrategicPulse | KindOther string

datatype wakeup_state = WakeupPending | WakeupFired | WakeupCancelled

record wakeup_row =
  w_id :: ID
  w_kind :: wakeup_kind
  w_task :: ID
  w_due :: gtime
  w_state :: wakeup_state
  w_created :: gtime
  w_fired :: "gtime option"

text \<open>
  Workflow cases (\<open>internal/workflow\<close>, \<open>internal/workflowcase\<close>): the values of the first package are kept
  decoded in the rows of the second; only the requests that are compared as texts stay encoded.
\<close>

record Grant =
  gr_capabilities :: "string list"
  gr_actions :: "string list"

record WorkProposal =
  wp_kind :: string
  wp_required :: "string list"
  wp_authority :: "string list"
  wp_actions :: "string list"

datatype work_outcome = OutcomeReady | OutcomeContinue | OutcomeBlocked

record work_decision =
  wd_outcome :: work_outcome
  wd_reason :: string
  wd_next :: "WorkProposal option"

datatype case_state = CaseActive | CaseBlocked | CaseReadyForVerification | CaseClosed

record workflow_case =
  wc_id :: ID
  wc_mission :: ID
  wc_work :: ID
  wc_source :: string
  wc_object :: string
  wc_revision :: string
  wc_evidence :: string
  wc_state :: case_state
  wc_next :: WorkProposal
  wc_grant :: Grant
  wc_steps :: int
  wc_max :: int
  wc_budget :: int
  wc_signature :: string

record case_row = workflow_case +
  wc_request :: string
  wc_created :: gtime
  wc_updated :: gtime

record assessment_row =
  as_id :: ID
  as_case :: ID
  as_work :: ID
  as_request :: string
  as_result :: "work_decision \<times> workflow_case"
  as_created :: gtime

record case_verification_row =
  cv_id :: ID
  cv_case :: ID
  cv_verifier :: ID
  cv_type :: string
  cv_hash :: string
  cv_snapshot :: string
  cv_evidence :: "ID list"
  cv_created :: gtime

text \<open>
  Capabilities (\<open>internal/capabilities\<close>) and run manifests (\<open>internal/runmanifest\<close>). The cost metadata of an
  assessment stay in their JSON text; the visible capabilities of a session are an association list.
\<close>

datatype Health = HealthHealthy | HealthDegraded | HealthUnhealthy | HealthOther string

record capability_row =
  cd_id :: ID
  cd_name :: string
  cd_version :: string
  cd_provider :: string
  cd_context :: string
  cd_authority :: "string list"
  cd_minimum :: enforcement_level
  cd_active :: bool
  cd_created :: gtime
  cd_updated :: gtime

record cap_assessment_row =
  ca_id :: ID
  ca_capability :: ID
  ca_provider :: string
  ca_enforcement :: enforcement_level
  ca_context :: string
  ca_at :: gtime
  ca_evidence :: "string list"
  ca_cost :: string
  ca_health :: Health
  ca_available :: bool

record session_row =
  cs_id :: ID
  cs_token_hash :: string
  cs_collective :: ID
  cs_task :: ID
  cs_attempt :: ID
  cs_fence :: int
  cs_expires :: gtime
  cs_visible :: "(string \<times> ID) list"
  cs_created :: gtime
  cs_revoked :: "gtime option"

record manifest_row =
  rm_attempt :: ID
  rm_task :: ID
  rm_hash :: string
  rm_json :: string
  rm_created :: gtime

record db =
  db_missions :: "mission_row list"
  db_goals :: "goal_row list"
  db_obligations :: "obligation_row list"
  db_tasks :: "task list"
  db_deps :: "(ID \<times> ID) list"
  db_attempts :: "attempt list"
  db_challenges :: "challenge_row list"
  db_failures :: "failure_row list"
  db_events :: "event_row list"
  db_evidence :: "evidence_row list"
  db_completions :: "completion_row list"
  db_verifications :: "verification_row list"
  db_acceptances :: "acceptance_row list"
  db_envelopes :: "envelope_row list"
  db_reservations :: "reservation list"
  db_slots :: "slot_row list"
  db_ops :: "operation list"
  db_policy_sets :: "policy_set_row list"
  db_approvals :: "approval list"
  db_decisions :: "decision list"
  db_wakeups :: "wakeup_row list"
  db_cases :: "case_row list"
  db_assessments :: "assessment_row list"
  db_case_verifications :: "case_verification_row list"
  db_capabilities :: "capability_row list"
  db_cap_assessments :: "cap_assessment_row list"
  db_sessions :: "session_row list"
  db_manifests :: "manifest_row list"
  db_experience :: experience_tables
  db_feedback :: feedback_tables
  db_memory :: memory_tables
  db_audit :: audit_tables

definition empty_db :: db where
  "empty_db = \<lparr>db_missions = [], db_goals = [], db_obligations = [], db_tasks = [], db_deps = [],
     db_attempts = [], db_challenges = [], db_failures = [], db_events = [], db_evidence = [],
     db_completions = [], db_verifications = [], db_acceptances = [], db_envelopes = [],
     db_reservations = [], db_slots = [], db_ops = [], db_policy_sets = [], db_approvals = [],
     db_decisions = [], db_wakeups = [], db_cases = [], db_assessments = [], db_case_verifications = [],
     db_capabilities = [], db_cap_assessments = [], db_sessions = [], db_manifests = [],
     db_experience = empty_experience, db_feedback = empty_feedback, db_memory = empty_memory, db_audit = empty_audit\<rparr>"

subsection \<open>Transactions (store.go)\<close>

text \<open>
  The two triggers on \<open>external_operations\<close> abort with a marker text; \<open>WithTx\<close> turns an error
  that carries it into a policy denial.
\<close>

definition policyProfileInactiveMarker :: go_error where
  "policyProfileInactiveMarker = ErrConstraint ''SUMMA42_POLICY_PROFILE_INACTIVE''"

definition mapCanonicalInvariantError :: "go_error \<Rightarrow> go_error" where
  "mapCanonicalInvariantError e = (if e = policyProfileInactiveMarker then ErrPolicyDenied else e)"

definition with_tx :: "(db \<Rightarrow> ('a \<times> db) res) \<Rightarrow> db \<Rightarrow> db \<times> 'a res" where
  "with_tx body d =
     (case body d of
        Inl e \<Rightarrow> (d, Inl (mapCanonicalInvariantError e))
      | Inr (x, d') \<Rightarrow> (d', Inr x))"

text \<open>A statement executed on the connection itself (\<open>store.DB ().ExecContext\<close>) is its own transaction.\<close>

definition on_db :: "(db \<Rightarrow> ('a \<times> db) res) \<Rightarrow> db \<Rightarrow> db \<times> 'a res" where
  "on_db body d = (case body d of Inl e \<Rightarrow> (d, Inl e) | Inr (x, d') \<Rightarrow> (d', Inr x))"

lemma on_db_Inr_iff: "on_db body d = (d', Inr x) \<longleftrightarrow> body d = Inr (x, d')"
  by (auto simp: on_db_def split: sum.splits prod.splits)

lemma on_db_Inl_iff: "on_db body d = (d', Inl e) \<longleftrightarrow> d' = d \<and> body d = Inl e"
  by (auto simp: on_db_def split: sum.splits prod.splits)

lemma with_tx_Inr_iff: "with_tx body d = (d', Inr x) \<longleftrightarrow> body d = Inr (x, d')"
  by (auto simp: with_tx_def split: sum.splits prod.splits)

lemma with_tx_Inl_iff:
  "with_tx body d = (d', Inl e) \<longleftrightarrow>
   d' = d \<and> (\<exists>e0. body d = Inl e0 \<and> e = mapCanonicalInvariantError e0)"
  by (auto simp: with_tx_def split: sum.splits prod.splits)

text \<open>A body without a result, and what a service leaves behind: nothing, or what its body committed.\<close>

definition no_result :: "(db \<Rightarrow> db res) \<Rightarrow> db \<Rightarrow> (unit \<times> db) res" where
  "no_result body d = bindE (body d) (\<lambda>d'. Inr ((), d'))"

lemma no_result_Inr [bind_simps]: "no_result body d = Inr (u, d') \<longleftrightarrow> body d = Inr d'"
  by (auto simp: no_result_def bind_simps)

lemma no_result_Inl [bind_simps]: "no_result body d = Inl e \<longleftrightarrow> body d = Inl e"
  by (auto simp: no_result_def bind_simps)

lemma fst_with_tx: "fst (with_tx body d) = d \<or> (\<exists>x. body d = Inr (x, fst (with_tx body d)))"
  by (auto simp: with_tx_def split: sum.splits prod.splits)

lemma fst_on_db: "fst (on_db body d) = d \<or> (\<exists>x. body d = Inr (x, fst (on_db body d)))"
  by (auto simp: on_db_def split: sum.splits prod.splits)

lemma on_db_invariant:
  assumes "\<And>x d'. body d = Inr (x, d') \<Longrightarrow> I d'" and "I d"
  shows "I (fst (on_db body d))"
  using assms by (auto simp: on_db_def split: sum.splits prod.splits)

lemma with_tx_invariant:
  assumes "\<And>x d'. body d = Inr (x, d') \<Longrightarrow> I d'" and "I d"
  shows "I (fst (with_tx body d))"
  using assms by (auto simp: with_tx_def split: sum.splits prod.splits)

lemma mapCanonicalInvariantError_simps [simp]:
  "mapCanonicalInvariantError (Err m) = Err m"
  "mapCanonicalInvariantError ErrStaleAttempt = ErrStaleAttempt"
  "mapCanonicalInvariantError ErrLeaseInactive = ErrLeaseInactive"
  "mapCanonicalInvariantError ErrPolicyDenied = ErrPolicyDenied"
  "mapCanonicalInvariantError ErrIntentConflict = ErrIntentConflict"
  "mapCanonicalInvariantError ErrBudgetExceeded = ErrBudgetExceeded"
  "mapCanonicalInvariantError ErrInvalidPurpose = ErrInvalidPurpose"
  "mapCanonicalInvariantError ErrNoRows = ErrNoRows"
  by (simp_all add: mapCanonicalInvariantError_def policyProfileInactiveMarker_def)

subsection \<open>Execution events\<close>

definition append_event ::
  "ID \<Rightarrow> ID \<Rightarrow> ID \<Rightarrow> string \<Rightarrow> (string \<times> string) list \<Rightarrow> gtime \<Rightarrow> db \<Rightarrow> db res" where
  "append_event event_id task_id attempt_id event_type details now d =
     bindE (insert_unique ev_id
              \<lparr>ev_id = event_id, ev_task = task_id,
               ev_attempt = (if attempt_id = [] then None else Some attempt_id),
               ev_type = event_type, ev_details = details, ev_at = now\<rparr> (db_events d))
       (\<lambda>events. Inr (d\<lparr>db_events := events\<rparr>))"

lemma append_event_Inr:
  "append_event i t a ty det now d = Inr d' \<Longrightarrow> \<exists>events. d' = d\<lparr>db_events := events\<rparr>"
  by (auto simp: append_event_def bind_simps)

lemma append_event_last:
  "append_event i t a ty det now d = Inr d' \<Longrightarrow>
   db_events d' = db_events d @
     [\<lparr>ev_id = i, ev_task = t, ev_attempt = (if a = [] then None else Some a), ev_type = ty,
       ev_details = det, ev_at = now\<rparr>]"
  by (auto simp: append_event_def bind_simps insert_unique_Inr_iff)

end
