(* ===== verification/Purpose.thy ===== *)
theory Purpose
  imports Store
begin

text \<open>
  Purpose lineage (\<open>internal/purpose/service.go\<close>): missions, obligations and goals, and the check that
  the purpose a task or goal names exists and is active. The partial unique index
  \<open>missions_one_active\<close> is part of the inserts.
\<close>

subsection \<open>Validation\<close>

definition validatePurpose :: "purpose_ref \<Rightarrow> db \<Rightarrow> unit res" where
  "validatePurpose p d =
     (if \<not> purpose_kind_valid (pr_kind p) \<or> pr_id p = [] then Inl ErrInvalidPurpose
      else case pr_kind p of
        PurposeMission \<Rightarrow>
          requireE (exists_where (\<lambda>m. m_id m = pr_id p \<and> m_active m) (db_missions d)) ErrInvalidPurpose
      | PurposeObligation \<Rightarrow>
          requireE (exists_where (\<lambda>b. ob_id b = pr_id p \<and> ob_active b) (db_obligations d)) ErrInvalidPurpose
      | PurposeOther _ \<Rightarrow> Inl ErrInvalidPurpose
      | _ \<Rightarrow> Inr ())"

subsection \<open>Missions\<close>

definition insert_mission :: "mission_row \<Rightarrow> db \<Rightarrow> db res" where
  "insert_mission m d =
     bindE (requireE (\<not> (m_active m \<and> exists_where m_active (db_missions d))) (ErrConstraint ''UNIQUE'')) (\<lambda>_.
     bindE (insert_unique m_id m (db_missions d)) (\<lambda>rows. Inr (d\<lparr>db_missions := rows\<rparr>)))"

definition CreateMission :: "gtime \<Rightarrow> string \<Rightarrow> string \<Rightarrow> db \<Rightarrow> db \<times> ID res" where
  "CreateMission now rand statement = on_db (\<lambda>d.
     let statement = trim_space statement; i = NewID ''mission'' rand in
     bindE (requireE (statement \<noteq> []) ErrInvalidPurpose) (\<lambda>_.
     bindE (insert_mission \<lparr>m_id = i, m_statement = statement, m_active = True, m_created = now,
              m_deactivated = None\<rparr> d) (\<lambda>d'. Inr (i, d'))))"

definition ActiveMission :: "db \<Rightarrow> (ID \<times> string) res" where
  "ActiveMission d =
     (case find m_active (db_missions d) of
        None \<Rightarrow> Inl ErrNoRows
      | Some m \<Rightarrow> Inr (m_id m, m_statement m))"

definition DeactivateMission :: "gtime \<Rightarrow> ID \<Rightarrow> db \<Rightarrow> db \<times> unit res" where
  "DeactivateMission now mission d =
     (if mission = [] then (d, Inl ErrInvalidPurpose)
      else
        let hit = (\<lambda>m. m_id m = mission \<and> m_active m);
            d' = d\<lparr>db_missions := update_where hit
                     (\<lambda>m. m\<lparr>m_active := False, m_deactivated := Some now\<rparr>) (db_missions d)\<rparr> in
        if count_where hit (db_missions d) \<noteq> 1 then (d', Inl ErrInvalidPurpose) else (d', Inr ()))"

subsection \<open>Goals and obligations\<close>

definition CreateGoal :: "gtime \<Rightarrow> string \<Rightarrow> purpose_ref \<Rightarrow> string \<Rightarrow> db \<Rightarrow> db \<times> ID res" where
  "CreateGoal now rand p statement d =
     (let statement = trim_space statement; i = NewID ''goal'' rand in
      if statement = [] then (d, Inl ErrInvalidPurpose)
      else with_tx (\<lambda>d.
        bindE (validatePurpose p d) (\<lambda>_.
        bindE (insert_unique g_id \<lparr>g_id = i, g_purpose = p, g_statement = statement, g_active = True,
                 g_created = now\<rparr> (db_goals d)) (\<lambda>rows.
        Inr (i, d\<lparr>db_goals := rows\<rparr>)))) d)"

definition CreateObligation :: "gtime \<Rightarrow> string \<Rightarrow> string \<Rightarrow> string \<Rightarrow> db \<Rightarrow> db \<times> ID res" where
  "CreateObligation now rand source statement = on_db (\<lambda>d.
     let source = trim_space source; statement = trim_space statement; i = NewID ''obligation'' rand in
     bindE (requireE (\<not> (source = [] \<or> statement = [])) ErrInvalidPurpose) (\<lambda>_.
     bindE (insert_unique ob_id \<lparr>ob_id = i, ob_source = source, ob_statement = statement,
              ob_active = True, ob_created = now\<rparr> (db_obligations d)) (\<lambda>rows.
     Inr (i, d\<lparr>db_obligations := rows\<rparr>))))"

subsection \<open>At most one active mission\<close>

definition missions_ok :: "db \<Rightarrow> bool" where
  "missions_ok d \<longleftrightarrow> distinct (map m_id (db_missions d)) \<and> count_where m_active (db_missions d) \<le> 1"

inductive purpose_step :: "db \<Rightarrow> db \<Rightarrow> bool" where
  "purpose_step d (fst (CreateMission now rand statement d))"
| "purpose_step d (fst (DeactivateMission now mission d))"
| "purpose_step d (fst (CreateGoal now rand p statement d))"
| "purpose_step d (fst (CreateObligation now rand source statement d))"

lemma count_active_deactivate:
  "count_where m_active (update_where hit (\<lambda>m. m\<lparr>m_active := False, m_deactivated := t\<rparr>) rows)
     \<le> count_where m_active rows"
  by (induction rows) (auto simp: update_where_Cons count_where_def)

lemma missions_ok_cong: "db_missions d' = db_missions d \<Longrightarrow> missions_ok d' = missions_ok d"
  by (simp add: missions_ok_def)

lemma CreateMission_ok: "missions_ok d \<Longrightarrow> missions_ok (fst (CreateMission now rand s d))"
  unfolding CreateMission_def
  by (rule on_db_invariant)
    (auto simp: missions_ok_def insert_mission_def bind_simps Let_def insert_unique_Inr_iff
      exists_where_iff count_where_append count_where_def filter_empty_conv)

lemma DeactivateMission_ok: "missions_ok d \<Longrightarrow> missions_ok (fst (DeactivateMission now k d))"
  using count_active_deactivate [of "\<lambda>m. m_id m = k \<and> m_active m" "Some now" "db_missions d"]
  by (auto simp: DeactivateMission_def missions_ok_def Let_def map_key_update_where)

lemma CreateGoal_missions: "db_missions (fst (CreateGoal now rand p s d)) = db_missions d"
  by (auto simp: CreateGoal_def Let_def with_tx_def bindE_def split: sum.splits)

lemma CreateObligation_missions: "db_missions (fst (CreateObligation now rand a s d)) = db_missions d"
  by (auto simp: CreateObligation_def Let_def on_db_def bindE_def split: sum.splits)

interpretation missions: kept_invariant purpose_step missions_ok
  by unfold_locales
    (auto elim!: purpose_step.cases intro: CreateMission_ok DeactivateMission_ok
      simp: missions_ok_cong [OF CreateGoal_missions] missions_ok_cong [OF CreateObligation_missions])

text \<open>
  The collective has at most one active mission, whatever calls the purpose service serves and
  in whatever order, and a MISSION purpose validates exactly when it names that mission.
\<close>

theorem one_active_mission:
  assumes "purpose_step\<^sup>*\<^sup>* d0 d" and "missions_ok d0"
  shows "count_where m_active (db_missions d) \<le> 1 \<and>
    (validatePurpose \<lparr>pr_kind = PurposeMission, pr_id = k\<rparr> d = Inr () \<longleftrightarrow>
       k \<noteq> [] \<and> (\<exists>statement. ActiveMission d = Inr (k, statement)))"
proof -
  have "missions_ok d" using missions.reach_inv assms .
  then have one: "length (filter m_active (db_missions d)) \<le> 1"
    by (simp add: missions_ok_def count_where_def)
  have "(\<exists>m \<in> set rows. m_id m = k \<and> m_active m) \<longleftrightarrow> (\<exists>m. find m_active rows = Some m \<and> m_id m = k)"
    if "length (filter m_active rows) \<le> 1" for rows
    using that by (induction rows) (auto simp: filter_empty_conv split: if_splits)
  from this [OF one] have "exists_where (\<lambda>m. m_id m = k \<and> m_active m) (db_missions d)
      \<longleftrightarrow> (\<exists>m. find m_active (db_missions d) = Some m \<and> m_id m = k)"
    by (simp add: exists_where_iff)
  with one show ?thesis
    by (auto simp: validatePurpose_def requireE_def ActiveMission_def count_where_def split: option.splits)
qed

lemma one_active_mission_witness:
  "\<exists>statement. ActiveMission (fst (CreateMission 1 ''a'' ''s'' empty_db)) = Inr (''mission_a'', statement)"
proof -
  let ?d = "fst (CreateMission 1 ''a'' ''s'' empty_db)"
  have "purpose_step\<^sup>*\<^sup>* empty_db ?d" by (blast intro: purpose_step.intros)
  moreover have "missions_ok empty_db" by code_simp
  moreover have "validatePurpose \<lparr>pr_kind = PurposeMission, pr_id = ''mission_a''\<rparr> ?d = Inr ()" by code_simp
  ultimately show ?thesis using one_active_mission [of empty_db ?d "''mission_a''"] by blast
qed

end
