(* ===== verification/Execution.thy ===== *)
theory Execution
  imports Purpose
begin

text \<open>
  The execution service (\<open>internal/execution\<close>): creation of root and child tasks with attenuated
  authority, idempotent replay of a request, and the attempts of a task: the lease and the fence
  that decide which attempt may write, renewal, revocation, failure and challenge.

  Columns that hold JSON lists are kept decoded. The JSON codec and the digest of a request
  (\<open>encoding/json\<close>, \<open>crypto/sha256\<close>) are the two functions of \<open>task_codec\<close>, an argument: the theorems
  hold for every codec. A \<open>TaskGuard\<close> and an \<open>AttemptStartRecorder\<close> are functions that look at the
  transaction and may fail (\<open>a guard should only read\<close>; a recorder gives the new rows of the table of run manifests).
\<close>

subsection \<open>Requests\<close>

record TaskRequest =
  tr_purpose :: purpose_ref
  tr_class :: string
  tr_objective :: string
  tr_payload :: string
  tr_key :: string
  tr_criteria :: "string list"
  tr_capabilities :: "string list"
  tr_enforcement :: enforcement_level
  tr_authority :: "string list"
  tr_envelope :: ID
  tr_priority :: int
  tr_earliest :: gtime
  tr_deadline :: gtime

record GuardedAttempt =
  ga_task :: ID
  ga_attempt :: ID
  ga_fence :: int
  ga_expires :: gtime
  ga_state :: task_state

record task_codec =
  normalize_json :: "string \<Rightarrow> string res"
  request_digest :: "ID \<Rightarrow> TaskRequest \<Rightarrow> string"

type_synonym task_guard = "db \<Rightarrow> unit res"
type_synonym start_recorder = "attempt \<Rightarrow> task \<Rightarrow> db \<Rightarrow> manifest_row list res"

definition normalizeCriteria :: "string list \<Rightarrow> string list" where
  "normalizeCriteria values = filter (\<lambda>v. v \<noteq> []) (map trim_space values)"

definition normalizeStrings :: "string list \<Rightarrow> string list" where
  "normalizeStrings values = distinct_sorted (filter (\<lambda>v. v \<noteq> []) (map trim_space values))"

definition stateAllowed :: "task_state \<Rightarrow> task_state list \<Rightarrow> bool" where
  "stateAllowed st allowed \<longleftrightarrow> list_ex (\<lambda>c. st = c) allowed"

fun enforcementRank :: "enforcement_level \<Rightarrow> int" where
  "enforcementRank EnforcementEnforced = 2"
| "enforcementRank EnforcementPartial = 1"
| "enforcementRank _ = 0"

fun validFailureClass :: "failure_class \<Rightarrow> bool" where
  "validFailureClass (FailureOther _) = False"
| "validFailureClass _ = True"

fun validChallengeScope :: "challenge_scope \<Rightarrow> bool" where
  "validChallengeScope (ChallengeOther _) = False"
| "validChallengeScope _ = True"

definition validateTimeWindow :: "gtime \<Rightarrow> gtime \<Rightarrow> unit res" where
  "validateTimeWindow earliest deadline =
     requireE (\<not> (earliest \<noteq> 0 \<and> deadline \<noteq> 0 \<and> deadline < earliest))
       (Err ''task deadline precedes earliest start'')"

abbreviation no_enforcement :: enforcement_level where
  "no_enforcement \<equiv> EnforcementOther []"

definition normalizeRootRequest :: "TaskRequest \<Rightarrow> TaskRequest res" where
  "normalizeRootRequest q =
     (let q = q\<lparr>tr_class := trim_space (tr_class q), tr_criteria := normalizeCriteria (tr_criteria q)\<rparr> in
      bindE (requireE (tr_criteria q \<noteq> []) (Err ''task requires acceptance criteria'')) (\<lambda>_.
      let q = q\<lparr>tr_capabilities := normalizeStrings (tr_capabilities q)\<rparr>;
          q = (if tr_enforcement q = no_enforcement
               then q\<lparr>tr_enforcement := EnforcementUnenforced\<rparr> else q) in
      bindE (requireE (valid_enforcement (tr_enforcement q)) (Err ''invalid enforcement level'')) (\<lambda>_.
      bindE (requireE (tr_envelope q \<noteq> []) (Err ''task requires resource envelope'')) (\<lambda>_.
      let q = q\<lparr>tr_authority := normalizeStrings (tr_authority q)\<rparr>;
          q = (if tr_authority q = [] then q\<lparr>tr_authority := tr_capabilities q\<rparr> else q) in
      bindE (requireE (list_all (\<lambda>c. c \<in> set (tr_authority q)) (tr_capabilities q))
               (Err ''required capability exceeds task authority ceiling'')) (\<lambda>_.
      bindE (validateTimeWindow (tr_earliest q) (tr_deadline q)) (\<lambda>_.
      Inr q))))))"

definition normalizeTaskIntent :: "task_codec \<Rightarrow> TaskRequest \<Rightarrow> TaskRequest res" where
  "normalizeTaskIntent K q =
     (let q = q\<lparr>tr_objective := trim_space (tr_objective q), tr_key := trim_space (tr_key q)\<rparr> in
      if trim_space (tr_payload q) = [] then Inr (q\<lparr>tr_payload := ''{}''\<rparr>)
      else bindE (normalize_json K (tr_payload q)) (\<lambda>encoded. Inr (q\<lparr>tr_payload := encoded\<rparr>)))"

subsection \<open>Tasks\<close>

definition loadTask :: "ID \<Rightarrow> db \<Rightarrow> task res" where
  "loadTask k d =
     (case find_by t_id k (db_tasks d) of None \<Rightarrow> Inl (Err ''task not found'') | Some t \<Rightarrow> Inr t)"

text \<open>The CHECK constraints of \<open>tasks\<close> that an insert can violate, and its two unique keys.\<close>

definition task_checks :: "task \<Rightarrow> bool" where
  "task_checks t \<longleftrightarrow> purpose_kind_valid (pr_kind (t_purpose t)) \<and> valid_enforcement (t_enforcement t)
     \<and> 0 \<le> t_fence t"

definition new_task :: "gtime \<Rightarrow> string \<Rightarrow> ID \<Rightarrow> TaskRequest \<Rightarrow> string \<Rightarrow> task" where
  "new_task now rand parent q hash =
     \<lparr>t_id = NewID ''task'' rand, t_parent = parent, t_purpose = tr_purpose q,
      t_class = tr_class q, t_objective = tr_objective q, t_payload = tr_payload q,
      t_idem_key = tr_key q, t_state = TaskEligible, t_attempt = None, t_fence = 0,
      t_criteria = tr_criteria q, t_capabilities = tr_capabilities q,
      t_enforcement = tr_enforcement q, t_authority = tr_authority q,
      t_envelope = tr_envelope q, t_priority = tr_priority q, t_earliest = tr_earliest q,
      t_deadline = tr_deadline q, t_created = now, t_updated = now, t_request_hash = hash\<rparr>"

definition replay_task :: "string \<Rightarrow> string \<Rightarrow> db \<Rightarrow> (task \<times> db) res" where
  "replay_task k hash d =
     (case find_by t_idem_key k (db_tasks d) of
        None \<Rightarrow> Inl ErrNoRows
      | Some x \<Rightarrow>
          bindE (requireE (t_request_hash x = hash)
                   (Err ''task idempotency key conflicts with a different request'')) (\<lambda>_.
          bindE (loadTask (t_id x) d) (\<lambda>task. Inr (task, d))))"

text \<open>The partial unique index \<open>feedback_emit_task_per_artifact\<close>: one emission task per artifact.\<close>

definition feedback_emit_key :: "task \<Rightarrow> (purpose_ref \<times> string) option" where
  "feedback_emit_key t =
     (if pr_kind (t_purpose t) = PurposeCollectiveMaintenance \<and> t_class t = ''collective.feedback.emit''
      then Some (t_purpose t, t_class t) else None)"

definition store_new_task :: "task \<Rightarrow> db \<Rightarrow> (task \<times> db) res" where
  "store_new_task t d =
     bindE (requireE (\<not> (feedback_emit_key t \<noteq> None \<and>
               exists_where (\<lambda>x. feedback_emit_key x = feedback_emit_key t) (db_tasks d)))
              (ErrConstraint ''UNIQUE'')) (\<lambda>_.
     bindE (insert_unique t_id t (db_tasks d)) (\<lambda>rows.
     let d' = d\<lparr>db_tasks := rows\<rparr> in
     bindE (validatePurpose (t_purpose t) d') (\<lambda>_. Inr (t, d'))))"

definition request_hash :: "task_codec \<Rightarrow> ID \<Rightarrow> TaskRequest \<Rightarrow> string" where
  "request_hash K parent q = (if tr_key q \<noteq> [] then request_digest K parent q else [])"

definition insertTaskTx ::
  "task_codec \<Rightarrow> gtime \<Rightarrow> string \<Rightarrow> ID \<Rightarrow> TaskRequest \<Rightarrow> task_guard option \<Rightarrow> db \<Rightarrow> (task \<times> db) res" where
  "insertTaskTx K now rand parent request guard d =
     bindE (normalizeTaskIntent K request) (\<lambda>q.
     let t = new_task now rand parent q (request_hash K parent q) in
     bindE (case guard of None \<Rightarrow> Inr () | Some g \<Rightarrow> g d) (\<lambda>_.
     bindE (requireE (task_checks t) (ErrConstraint ''CHECK'')) (\<lambda>_.
     if tr_key q \<noteq> [] \<and> exists_where (\<lambda>x. t_idem_key x = tr_key q) (db_tasks d)
     then replay_task (tr_key q) (request_hash K parent q) d
     else store_new_task t d)))"

definition CreateTaskWithGuardInTx ::
  "task_codec \<Rightarrow> gtime \<Rightarrow> string \<Rightarrow> TaskRequest \<Rightarrow> task_guard option \<Rightarrow> db \<Rightarrow> (task \<times> db) res" where
  "CreateTaskWithGuardInTx K now rand request guard d =
     bindE (normalizeRootRequest request) (\<lambda>q. insertTaskTx K now rand [] q guard d)"

definition CreateTaskWithGuard ::
  "task_codec \<Rightarrow> gtime \<Rightarrow> string \<Rightarrow> TaskRequest \<Rightarrow> task_guard option \<Rightarrow> db \<Rightarrow> db \<times> task res" where
  "CreateTaskWithGuard K now rand request guard d =
     (case normalizeRootRequest request of
        Inl e \<Rightarrow> (d, Inl e)
      | Inr q \<Rightarrow> with_tx (insertTaskTx K now rand [] q guard) d)"

definition CreateTask ::
  "task_codec \<Rightarrow> gtime \<Rightarrow> string \<Rightarrow> TaskRequest \<Rightarrow> db \<Rightarrow> db \<times> task res" where
  "CreateTask K now rand request d = CreateTaskWithGuard K now rand request None d"

text \<open>The steps of \<open>CreateChildTask\<close> on the request, one per group of inherited fields, in order.\<close>

definition child_purpose :: "task \<Rightarrow> TaskRequest \<Rightarrow> TaskRequest res" where
  "child_purpose parent q =
     (if pr_kind (tr_purpose q) = PurposeOther [] \<and> pr_id (tr_purpose q) = []
      then Inr (q\<lparr>tr_purpose := t_purpose parent\<rparr>)
      else if tr_purpose q \<noteq> t_purpose parent
      then Inl (Err ''child task cannot change inherited purpose'') else Inr q)"

definition child_capabilities :: "task \<Rightarrow> TaskRequest \<Rightarrow> TaskRequest res" where
  "child_capabilities parent q =
     (let q = q\<lparr>tr_class := (if trim_space (tr_class q) = [] then t_class parent else trim_space (tr_class q)),
                tr_capabilities := normalizeStrings (tr_capabilities q)\<rparr> in
      if list_all (\<lambda>c. c \<in> set (t_authority parent)) (tr_capabilities q) then Inr q
      else Inl (Err ''child capability exceeds parent authority ceiling''))"

definition child_authority :: "task \<Rightarrow> TaskRequest \<Rightarrow> TaskRequest res" where
  "child_authority parent q =
     (if tr_authority q = [] then Inr (q\<lparr>tr_authority := t_authority parent\<rparr>)
      else let q = q\<lparr>tr_authority := normalizeStrings (tr_authority q)\<rparr> in
        if list_all (\<lambda>c. c \<in> set (t_authority parent)) (tr_authority q) then Inr q
        else Inl (Err ''child authority exceeds parent authority ceiling''))"

definition child_within_authority :: "TaskRequest \<Rightarrow> TaskRequest res" where
  "child_within_authority q =
     (if list_all (\<lambda>c. c \<in> set (tr_authority q)) (tr_capabilities q) then Inr q
      else Inl (Err ''required capability exceeds child authority ceiling''))"

definition child_envelope :: "task \<Rightarrow> TaskRequest \<Rightarrow> TaskRequest res" where
  "child_envelope parent q =
     (if tr_envelope q = [] then Inr (q\<lparr>tr_envelope := t_envelope parent\<rparr>)
      else if tr_envelope q \<noteq> t_envelope parent
      then Inl (Err ''child task cannot replace inherited resource envelope'') else Inr q)"

definition child_enforcement :: "task \<Rightarrow> TaskRequest \<Rightarrow> TaskRequest res" where
  "child_enforcement parent q =
     (if tr_enforcement q = no_enforcement then Inr (q\<lparr>tr_enforcement := t_enforcement parent\<rparr>)
      else if \<not> valid_enforcement (tr_enforcement q) then Inl (Err ''invalid enforcement level'')
      else if enforcementRank (tr_enforcement q) < enforcementRank (t_enforcement parent)
      then Inl (Err ''child task cannot weaken parent enforcement requirement'') else Inr q)"

definition child_criteria :: "TaskRequest \<Rightarrow> TaskRequest res" where
  "child_criteria q =
     (let q = q\<lparr>tr_criteria := normalizeCriteria (tr_criteria q)\<rparr> in
      if tr_criteria q = [] then Inl (Err ''child task requires acceptance criteria'') else Inr q)"

definition child_earliest :: "task \<Rightarrow> TaskRequest \<Rightarrow> TaskRequest res" where
  "child_earliest parent q =
     (if tr_earliest q = 0 then Inr (q\<lparr>tr_earliest := t_earliest parent\<rparr>)
      else if t_earliest parent \<noteq> 0 \<and> tr_earliest q < t_earliest parent
      then Inl (Err ''child task cannot start before parent time window'') else Inr q)"

definition child_deadline :: "task \<Rightarrow> TaskRequest \<Rightarrow> TaskRequest res" where
  "child_deadline parent q =
     (if tr_deadline q = 0 then Inr (q\<lparr>tr_deadline := t_deadline parent\<rparr>)
      else if t_deadline parent \<noteq> 0 \<and> t_deadline parent < tr_deadline q
      then Inl (Err ''child task cannot extend parent deadline'') else Inr q)"

definition child_request :: "task \<Rightarrow> TaskRequest \<Rightarrow> TaskRequest res" where
  "child_request parent q =
     bindE (child_purpose parent q) (\<lambda>q.
     bindE (child_capabilities parent q) (\<lambda>q.
     bindE (child_authority parent q) (\<lambda>q.
     bindE (child_within_authority q) (\<lambda>q.
     bindE (child_envelope parent q) (\<lambda>q.
     bindE (child_enforcement parent q) (\<lambda>q.
     bindE (child_criteria q) (\<lambda>q.
     bindE (child_earliest parent q) (\<lambda>q.
     bindE (child_deadline parent q) (\<lambda>q.
     let q = (if tr_priority q = 0 then q\<lparr>tr_priority := t_priority parent\<rparr> else q) in
     bindE (validateTimeWindow (tr_earliest q) (tr_deadline q)) (\<lambda>_. Inr q))))))))))"

definition CreateChildTask ::
  "task_codec \<Rightarrow> gtime \<Rightarrow> string \<Rightarrow> ID \<Rightarrow> TaskRequest \<Rightarrow> db \<Rightarrow> db \<times> task res" where
  "CreateChildTask K now rand parent_id request d =
     (case loadTask parent_id d of
        Inl e \<Rightarrow> (d, Inl e)
      | Inr parent \<Rightarrow>
          (case child_request parent request of
             Inl e \<Rightarrow> (d, Inl e)
           | Inr q \<Rightarrow> with_tx (insertTaskTx K now rand (t_id parent) q None) d))"

subsection \<open>Attempts and leases\<close>

text \<open>The recorders run in turn, each on what the one before it has left.\<close>

fun record_start :: "start_recorder list \<Rightarrow> attempt \<Rightarrow> task \<Rightarrow> db \<Rightarrow> db res" where
  "record_start [] a t d = Inr d"
| "record_start (recorder # recorders) a t d =
     bindE (recorder a t d) (\<lambda>rows. record_start recorders a t (d\<lparr>db_manifests := rows\<rparr>))"

definition StartAttempt ::
  "start_recorder list \<Rightarrow> env \<Rightarrow> ID \<Rightarrow> string \<Rightarrow> int \<Rightarrow> db \<Rightarrow> db \<times> attempt res" where
  "StartAttempt recorders E task_id executor duration d =
     (if task_id = [] \<or> trim_space executor = [] \<or> duration \<le> 0
      then (d, Inl (Err ''task, executor kind, and positive lease duration are required''))
      else let now = clk E 0 in
      with_tx (\<lambda>d.
        case find_by t_id task_id (db_tasks d) of
          None \<Rightarrow> Inl (Err ''task not found'')
        | Some t \<Rightarrow>
          let fence = t_fence t;
              a = \<lparr>a_id = NewID ''attempt'' (rnd E 0), a_task = task_id, a_state = AttemptLeased,
                   a_fence = wrap64 (fence + 1), a_lease = LeaseActive, a_expires = now + duration,
                   a_executor = trim_space executor, a_started = now, a_completed = None\<rparr>;
              hit = (\<lambda>x. t_id x = task_id \<and> t_state x = TaskEligible \<and> t_fence x = fence) in
          bindE (requireE (t_state t = TaskEligible) (Err ''task is not ELIGIBLE'')) (\<lambda>_.
          bindE (requireE (a_fence a > 0) (ErrConstraint ''CHECK'')) (\<lambda>_.
          bindE (insert_unique a_id a (db_attempts d)) (\<lambda>attempts.
          let d' = d\<lparr>db_attempts := attempts,
                     db_tasks := update_where hit
                       (\<lambda>x. x\<lparr>t_state := TaskExecuting, t_attempt := Some (a_id a),
                              t_fence := a_fence a, t_updated := now\<rparr>) (db_tasks d)\<rparr> in
          bindE (requireE (count_where hit (db_tasks d) = 1) ErrStaleAttempt) (\<lambda>_.
          bindE (record_start recorders a t d') (\<lambda>d'.
          bindE (append_event (NewID ''event'' (rnd E 1)) task_id (a_id a) ''ATTEMPT_LEASED'' [] now d') (\<lambda>d''.
          Inr (a, d'')))))))) d)"

definition GuardAttempt :: "gtime \<Rightarrow> ID \<Rightarrow> task_state list \<Rightarrow> db \<Rightarrow> GuardedAttempt res" where
  "GuardAttempt now attempt_id allowed d =
     (case find_by a_id attempt_id (db_attempts d) of
        None \<Rightarrow> Inl ErrStaleAttempt
      | Some a \<Rightarrow>
        (case find_by t_id (a_task a) (db_tasks d) of
           None \<Rightarrow> Inl ErrStaleAttempt
         | Some t \<Rightarrow>
           if \<not> (t_attempt t = Some (a_id a) \<and> t_fence t = a_fence a) then Inl ErrStaleAttempt
           else if a_lease a \<noteq> LeaseActive \<or> \<not> a_expires a > now then Inl ErrLeaseInactive
           else if \<not> stateAllowed (t_state t) allowed then Inl ErrStaleAttempt
           else Inr \<lparr>ga_task = a_task a, ga_attempt = a_id a, ga_fence = a_fence a,
                     ga_expires = a_expires a, ga_state = t_state t\<rparr>))"

definition WithGuardedAttempt ::
  "gtime \<Rightarrow> ID \<Rightarrow> task_state list \<Rightarrow> (GuardedAttempt \<Rightarrow> db \<Rightarrow> (unit \<times> db) res) \<Rightarrow> db \<Rightarrow> db \<times> unit res" where
  "WithGuardedAttempt now attempt_id allowed body =
     with_tx (\<lambda>d. bindE (GuardAttempt now attempt_id allowed d) (\<lambda>g. body g d))"

definition RenewLease :: "env \<Rightarrow> ID \<Rightarrow> int \<Rightarrow> db \<Rightarrow> db \<times> unit res" where
  "RenewLease E attempt_id duration d =
     (if duration \<le> 0 then (d, Inl (Err ''positive lease duration is required''))
      else WithGuardedAttempt (clk E 0) attempt_id [TaskExecuting] (\<lambda>g d.
        Inr ((), d\<lparr>db_attempts :=
          update_where (\<lambda>a. a_id a = ga_attempt g \<and> a_lease a = LeaseActive)
            (\<lambda>a. a\<lparr>a_expires := clk E 1 + duration\<rparr>) (db_attempts d)\<rparr>)) d)"

definition RevokeLease :: "env \<Rightarrow> ID \<Rightarrow> db \<Rightarrow> db \<times> unit res" where
  "RevokeLease E attempt_id =
     (let now = clk E 0 in
      with_tx (no_result (\<lambda>d.
        case find_by a_id attempt_id (db_attempts d) of
          None \<Rightarrow> Inl ErrStaleAttempt
        | Some a \<Rightarrow>
          if a_lease a \<noteq> LeaseActive then Inr d
          else append_event (NewID ''event'' (rnd E 0)) (a_task a) attempt_id ''LEASE_REVOKED'' [] now
            (d\<lparr>db_attempts := update_where (\<lambda>x. a_id x = attempt_id)
                 (\<lambda>x. x\<lparr>a_lease := LeaseRevoked, a_state := AttemptCancelled, a_completed := Some now\<rparr>)
                 (db_attempts d),
               db_tasks := update_where (\<lambda>t. t_id t = a_task a)
                 (\<lambda>t. t\<lparr>t_state := (if t_attempt t = Some attempt_id \<and> t_state t = TaskExecuting
                                     then TaskEligible else t_state t), t_updated := now\<rparr>)
                 (db_tasks d)\<rparr>))))"

text \<open>The writes of \<open>FailAttempt\<close>, once the failure is in the table.\<close>

definition apply_failure :: "gtime \<Rightarrow> ID \<Rightarrow> ID \<Rightarrow> string \<Rightarrow> failure_row list \<Rightarrow> db \<Rightarrow> db" where
  "apply_failure now attempt_id task_id signature failures d =
     (let repeats = count_where (\<lambda>f. f_task f = task_id \<and> f_signature f = signature) failures;
          new_state = (if repeats > 1 then TaskBlocked else TaskEligible) in
      d\<lparr>db_failures := failures,
        db_attempts := update_where (\<lambda>a. a_id a = attempt_id)
          (\<lambda>a. a\<lparr>a_state := AttemptFailed, a_lease := LeaseRevoked, a_completed := Some now\<rparr>)
          (db_attempts d),
        db_tasks := update_where (\<lambda>t. t_id t = task_id)
          (\<lambda>t. t\<lparr>t_state := new_state, t_updated := now\<rparr>) (db_tasks d)\<rparr>)"

definition FailAttempt ::
  "env \<Rightarrow> ID \<Rightarrow> failure_class \<Rightarrow> string \<Rightarrow> ID list \<Rightarrow> db \<Rightarrow> db \<times> unit res" where
  "FailAttempt E attempt_id class signature evidence d =
     (if trim_space signature = [] \<or> \<not> validFailureClass class
      then (d, Inl (Err ''valid failure class and signature are required''))
      else WithGuardedAttempt (clk E 1) attempt_id [TaskExecuting] (\<lambda>g. no_result (\<lambda>d.
        bindE (insert_unique f_id \<lparr>f_id = NewID ''failure'' (rnd E 0), f_attempt = attempt_id,
                 f_task = ga_task g, f_class = class, f_signature = trim_space signature,
                 f_evidence = evidence, f_at = clk E 0\<rparr> (db_failures d)) (\<lambda>failures.
        append_event (NewID ''event'' (rnd E 1)) (ga_task g) attempt_id ''ATTEMPT_FAILED'' [] (clk E 0)
          (apply_failure (clk E 0) attempt_id (ga_task g) (trim_space signature) failures d)))) d)"

definition ChallengeTask ::
  "env \<Rightarrow> ID \<Rightarrow> challenge_scope \<Rightarrow> string \<Rightarrow> ID list \<Rightarrow> db \<Rightarrow> db \<times> unit res" where
  "ChallengeTask E task_id scope reason evidence d =
     (let reason = trim_space reason; now = clk E 0 in
      if task_id = [] \<or> reason = [] \<or> \<not> validChallengeScope scope
      then (d, Inl (Err ''task, valid challenge scope, and reason are required''))
      else with_tx (no_result (\<lambda>d.
        case find_by t_id task_id (db_tasks d) of
          None \<Rightarrow> Inl (Err ''task not found'')
        | Some t \<Rightarrow>
          bindE (insert_unique ch_id \<lparr>ch_id = NewID ''challenge'' (rnd E 0), ch_task = task_id,
                   ch_scope = scope, ch_reason = reason, ch_evidence = evidence, ch_at = now\<rparr>
                   (db_challenges d)) (\<lambda>challenges.
          append_event (NewID ''event'' (rnd E 1)) task_id
            (case t_attempt t of None \<Rightarrow> [] | Some k \<Rightarrow> k) ''TASK_CHALLENGED'' [] now
            (d\<lparr>db_challenges := challenges,
               db_attempts := (case t_attempt t of None \<Rightarrow> db_attempts d | Some k \<Rightarrow>
                 update_where (\<lambda>a. a_id a = k \<and> a_lease a = LeaseActive)
                   (\<lambda>a. a\<lparr>a_lease := LeaseRevoked, a_state := AttemptCancelled,
                          a_completed := (case a_completed a of None \<Rightarrow> Some now | Some c \<Rightarrow> Some c)\<rparr>)
                   (db_attempts d)),
               db_tasks := update_where (\<lambda>x. t_id x = task_id)
                 (\<lambda>x. x\<lparr>t_state := TaskChallenged, t_updated := now\<rparr>) (db_tasks d)\<rparr>)))) d)"

subsection \<open>Reads (execution/read.go)\<close>

definition Task :: "ID \<Rightarrow> db \<Rightarrow> task res" where
  "Task k d = bindE (requireE (nonblank k) (Err ''task id is required'')) (\<lambda>_. loadTask (trim_space k) d)"

definition FindByIdempotencyKey :: "string \<Rightarrow> db \<Rightarrow> task option res" where
  "FindByIdempotencyKey k d =
     bindE (requireE (nonblank k) (Err ''idempotency key is required'')) (\<lambda>_.
     case find_by t_idem_key (trim_space k) (db_tasks d) of
       None \<Rightarrow> Inr None
     | Some t \<Rightarrow> bindE (loadTask (t_id t) d) (\<lambda>t. Inr (Some t)))"

definition Attempt :: "ID \<Rightarrow> db \<Rightarrow> attempt res" where
  "Attempt k d =
     bindE (requireE (nonblank k) (Err ''attempt id is required'')) (\<lambda>_.
     case find_by a_id (trim_space k) (db_attempts d) of
       None \<Rightarrow> Inl (Err ''attempt not found'')
     | Some a \<Rightarrow> Inr a)"

end
