(* ===== verification/Leases.thy ===== *)
theory Leases
  imports Execution
begin

text \<open>
  The discipline of leases and fences that the execution service keeps, and that verification,
  scheduling and the external operations rely on: which attempt of a task may still write. The
  invariant is stated on the tables \<open>tasks\<close> and \<open>attempts\<close> alone, with one lemma for every kind of
  statement the services execute on them, so that each service only has to say which one it is.
\<close>

subsection \<open>The invariant\<close>

definition attempt_ok :: "task list \<Rightarrow> attempt \<Rightarrow> bool" where
  "attempt_ok tasks a \<longleftrightarrow>
     (case find_by t_id (a_task a) tasks of
        None \<Rightarrow> False
      | Some t \<Rightarrow> 0 < a_fence a \<and> a_fence a \<le> t_fence t \<and>
          (a_lease a = LeaseActive \<longrightarrow>
             t_attempt t = Some (a_id a) \<and> t_fence t = a_fence a \<and> t_state t = TaskExecuting))"

definition task_ok :: "attempt list \<Rightarrow> task \<Rightarrow> bool" where
  "task_ok attempts t \<longleftrightarrow> 0 \<le> t_fence t \<and> in64 (t_fence t) \<and> task_checks t \<and>
     (case t_attempt t of
        None \<Rightarrow> t_fence t = 0
      | Some k \<Rightarrow> (case find_by a_id k attempts of
          None \<Rightarrow> False
        | Some a \<Rightarrow> a_task a = t_id t \<and> a_fence a = t_fence t))"

definition fences_distinct :: "attempt list \<Rightarrow> bool" where
  "fences_distinct attempts \<longleftrightarrow> distinct (map (\<lambda>a. (a_task a, a_fence a)) attempts)"

definition keys_distinct :: "task list \<Rightarrow> bool" where
  "keys_distinct tasks \<longleftrightarrow> distinct (filter (\<lambda>k. k \<noteq> []) (map t_idem_key tasks))"

text \<open>What a child may do, as its parent allows: the contract of \<open>CreateChildTask\<close>.\<close>

definition attenuated :: "task \<Rightarrow> task \<Rightarrow> bool" where
  "attenuated parent t \<longleftrightarrow> t_purpose t = t_purpose parent \<and> t_envelope t = t_envelope parent \<and>
     set (t_capabilities t) \<subseteq> set (t_authority t) \<and> set (t_authority t) \<subseteq> set (t_authority parent) \<and>
     t_enforcement parent \<le> t_enforcement t \<and> t_criteria t \<noteq> [] \<and>
     (t_earliest parent \<noteq> 0 \<longrightarrow> t_earliest t \<noteq> 0 \<and> t_earliest parent \<le> t_earliest t) \<and>
     (t_deadline parent \<noteq> 0 \<longrightarrow> t_deadline t \<noteq> 0 \<and> t_deadline t \<le> t_deadline parent)"

definition lineage_ok :: "task list \<Rightarrow> task \<Rightarrow> bool" where
  "lineage_ok tasks t \<longleftrightarrow> t_parent t = [] \<or>
     (case find_by t_id (t_parent t) tasks of None \<Rightarrow> False | Some p \<Rightarrow> attenuated p t)"

definition exec_ok :: "db \<Rightarrow> bool" where
  "exec_ok d \<longleftrightarrow> distinct (map t_id (db_tasks d)) \<and> distinct (map a_id (db_attempts d)) \<and>
     list_all (attempt_ok (db_tasks d)) (db_attempts d) \<and>
     list_all (task_ok (db_attempts d)) (db_tasks d) \<and>
     fences_distinct (db_attempts d) \<and> keys_distinct (db_tasks d) \<and>
     list_all (lineage_ok (db_tasks d)) (db_tasks d)"

lemma exec_ok_cong:
  "db_tasks d' = db_tasks d \<Longrightarrow> db_attempts d' = db_attempts d \<Longrightarrow> exec_ok d' = exec_ok d"
  by (simp add: exec_ok_def)

lemma exec_okD:
  assumes "exec_ok d"
  shows "distinct (map t_id (db_tasks d))" "distinct (map a_id (db_attempts d))"
    "\<And>a. a \<in> set (db_attempts d) \<Longrightarrow> attempt_ok (db_tasks d) a"
    "\<And>t. t \<in> set (db_tasks d) \<Longrightarrow> task_ok (db_attempts d) t"
    "fences_distinct (db_attempts d)" "keys_distinct (db_tasks d)"
    "\<And>t. t \<in> set (db_tasks d) \<Longrightarrow> lineage_ok (db_tasks d) t"
  using assms by (auto simp: exec_ok_def list_all_iff)

lemma attempt_row:
  assumes "exec_ok d" and "find_by a_id k (db_attempts d) = Some a"
  obtains t where "a_id a = k" "find_by t_id (a_task a) (db_tasks d) = Some t" "t_id t = a_task a"
    "0 < a_fence a" "a_fence a \<le> t_fence t"
    "a_lease a = LeaseActive \<Longrightarrow> t_attempt t = Some k \<and> t_fence t = a_fence a \<and> t_state t = TaskExecuting"
proof -
  have "attempt_ok (db_tasks d) a" and k: "a_id a = k"
    using exec_okD(3) [OF assms(1)] find_by_SomeD [OF assms(2)] by auto
  then show thesis
    by (auto simp: attempt_ok_def split: option.splits dest: find_by_SomeD intro: that)
qed

lemma task_row:
  assumes "exec_ok d" and "find_by t_id k (db_tasks d) = Some t"
  shows "t_id t = k" "task_ok (db_attempts d) t" "t \<in> set (db_tasks d)"
  using exec_okD(4) [OF assms(1)] find_by_SomeD [OF assms(2)] by auto

text \<open>A lease that is ACTIVE is the lease of its task's current attempt; there is at most one.\<close>

lemma one_active_lease:
  assumes ok: "exec_ok d" and a: "a \<in> set (db_attempts d)" "b \<in> set (db_attempts d)"
    and "a_task a = a_task b" "a_lease a = LeaseActive" "a_lease b = LeaseActive"
  shows "a = b"
proof -
  have "a_id a = a_id b"
    using exec_okD(3) [OF ok a(1)] exec_okD(3) [OF ok a(2)] assms(4-)
    by (auto simp: attempt_ok_def split: option.splits)
  then show ?thesis
    using find_by_member [OF exec_okD(2) [OF ok] a(1)] find_by_member [OF exec_okD(2) [OF ok] a(2)]
    by (metis option.inject)
qed

subsection \<open>What an update must respect\<close>

text \<open>
  \<open>t'\<close> is \<open>t\<close> with another state or time stamp; \<open>a'\<close> is \<open>a\<close> with another state, expiry or completion
  time, and a lease that can end but not come back.
\<close>

definition same_task :: "task \<Rightarrow> task \<Rightarrow> bool" where
  "same_task t t' \<longleftrightarrow> t' = t\<lparr>t_state := t_state t', t_updated := t_updated t'\<rparr>"

definition same_attempt :: "attempt \<Rightarrow> attempt \<Rightarrow> bool" where
  "same_attempt a a' \<longleftrightarrow> a' = a\<lparr>a_state := a_state a', a_lease := a_lease a', a_expires := a_expires a',
       a_completed := a_completed a'\<rparr> \<and> (a_lease a' = LeaseActive \<longrightarrow> a_lease a = LeaseActive)"

lemma same_taskD:
  "same_task t t' \<Longrightarrow> t_id t' = t_id t \<and> t_attempt t' = t_attempt t \<and> t_fence t' = t_fence t
     \<and> t_purpose t' = t_purpose t \<and> t_enforcement t' = t_enforcement t \<and> t_idem_key t' = t_idem_key t"
proof -
  assume "same_task t t'"
  then obtain s u where "t' = t\<lparr>t_state := s, t_updated := u\<rparr>"
    unfolding same_task_def by blast
  then show ?thesis by simp
qed

lemma same_attemptD:
  "same_attempt a a' \<Longrightarrow> a_id a' = a_id a \<and> a_task a' = a_task a \<and> a_fence a' = a_fence a
     \<and> (a_lease a' = LeaseActive \<longrightarrow> a_lease a = LeaseActive)"
  by (cases a, cases a') (auto simp: same_attempt_def)

lemma same_task_update [simp]: "same_task t (t\<lparr>t_state := s, t_updated := u\<rparr>)"
  by (simp add: same_task_def)

text \<open>
  Rows are never deleted. A later state of a task has the same intent and a fence that is not
  smaller; a later state of an attempt has the same fence, and its lease has not come back.
\<close>

definition later_task :: "task \<Rightarrow> task \<Rightarrow> bool" where
  "later_task t t' \<longleftrightarrow> t' = t\<lparr>t_state := t_state t', t_attempt := t_attempt t', t_fence := t_fence t',
     t_updated := t_updated t'\<rparr> \<and> t_fence t \<le> t_fence t'"

lemma later_task_refl [simp]: "later_task t t"
  by (simp add: later_task_def)

lemma later_taskD:
  "later_task t t' \<Longrightarrow> t_id t' = t_id t \<and> t_fence t \<le> t_fence t' \<and> t_authority t' = t_authority t
     \<and> t_purpose t' = t_purpose t \<and> t_enforcement t' = t_enforcement t \<and> t_idem_key t' = t_idem_key t
     \<and> t_envelope t' = t_envelope t \<and> t_request_hash t' = t_request_hash t \<and> t_parent t' = t_parent t"
proof -
  assume "later_task t t'"
  then obtain a b c e where
    "t' = t\<lparr>t_state := a, t_attempt := b, t_fence := c, t_updated := e\<rparr>" "t_fence t \<le> c"
    unfolding later_task_def by metis
  then show ?thesis by simp
qed

lemma same_task_later: "same_task t t' \<Longrightarrow> later_task t t'"
proof -
  assume "same_task t t'"
  then obtain s u where "t' = t\<lparr>t_state := s, t_updated := u\<rparr>"
    unfolding same_task_def by blast
  then show ?thesis by (simp add: later_task_def)
qed

lemma attenuated_later:
  "attenuated p t \<Longrightarrow> later_task p p' \<Longrightarrow> later_task t t' \<Longrightarrow> attenuated p' t'"
proof -
  assume "later_task p p'" "later_task t t'" and att: "attenuated p t"
  then obtain a b c e a' b' c' e' where
    "p' = p\<lparr>t_state := a, t_attempt := b, t_fence := c, t_updated := e\<rparr>"
    "t' = t\<lparr>t_state := a', t_attempt := b', t_fence := c', t_updated := e'\<rparr>"
    unfolding later_task_def by metis
  with att show ?thesis by (simp add: attenuated_def)
qed

lemma lineage_update:
  assumes "\<And>t. t \<in> set ts \<Longrightarrow> lineage_ok ts t" and f: "\<And>t. t \<in> set ts \<Longrightarrow> P t \<Longrightarrow> later_task t (f t)"
  shows "\<forall>x \<in> set (update_where P f ts). lineage_ok (update_where P f ts) x"
proof -
  let ?h = "\<lambda>t. if P t then f t else t"
  have later: "t \<in> set ts \<Longrightarrow> later_task t (?h t)" for t using f by simp
  have find_t: "find_by t_id k (update_where P f ts) = map_option ?h (find_by t_id k ts)" for k
    using later_taskD [OF f] by (simp add: find_by_update_where)
  have "lineage_ok (update_where P f ts) (?h t)" if t: "t \<in> set ts" for t
  proof (cases "t_parent t = []")
    case False
    then obtain p where p: "find_by t_id (t_parent t) ts = Some p" "attenuated p t"
      using assms(1) [OF t] by (auto simp: lineage_ok_def split: option.splits)
    then have "p \<in> set ts" using find_by_SomeD by metis
    from attenuated_later [OF p(2) later [OF this] later [OF t]] show ?thesis
      using later_taskD [OF later [OF t]] p(1) by (simp add: lineage_ok_def find_t)
  qed (use later_taskD [OF later [OF t]] in \<open>simp add: lineage_ok_def\<close>)
  then show ?thesis
    unfolding set_update_where by blast
qed

lemma exec_ok_update:
  assumes ok: "exec_ok d"
    and t: "\<And>t. t \<in> set (db_tasks d) \<Longrightarrow> P t \<Longrightarrow> same_task t (f t)"
    and a: "\<And>a. a \<in> set (db_attempts d) \<Longrightarrow> Q a \<Longrightarrow> same_attempt a (g a)"
    and rel: "\<And>a t. a \<in> set (db_attempts d) \<Longrightarrow> t \<in> set (db_tasks d) \<Longrightarrow> t_id t = a_task a \<Longrightarrow>
      t_attempt t = Some (a_id a) \<Longrightarrow> t_state t = TaskExecuting \<Longrightarrow> a_lease a = LeaseActive \<Longrightarrow> P t \<Longrightarrow>
      t_state (f t) \<noteq> TaskExecuting \<Longrightarrow> Q a \<and> a_lease (g a) \<noteq> LeaseActive"
    and d': "db_tasks d' = update_where P f (db_tasks d)" "db_attempts d' = update_where Q g (db_attempts d)"
  shows "exec_ok d'"
proof -
  note T = same_taskD [OF t] and A = same_attemptD [OF a]
  have find_t: "find_by t_id k (db_tasks d') = map_option (\<lambda>t. if P t then f t else t) (find_by t_id k (db_tasks d))"
    and find_a: "find_by a_id k (db_attempts d') = map_option (\<lambda>a. if Q a then g a else a) (find_by a_id k (db_attempts d))"
    for k unfolding d' using T A by (simp_all add: find_by_update_where)
  have rows_a: "attempt_ok (db_tasks d') (if Q x then g x else x)" if x: "x \<in> set (db_attempts d)" for x
  proof -
    obtain y where y: "find_by t_id (a_task x) (db_tasks d) = Some y" "y \<in> set (db_tasks d)" "t_id y = a_task x"
      and y_ok: "0 < a_fence x" "a_fence x \<le> t_fence y"
      "a_lease x = LeaseActive \<longrightarrow> t_attempt y = Some (a_id x) \<and> t_fence y = a_fence x \<and> t_state y = TaskExecuting"
      using exec_okD(3) [OF ok x] by (auto simp: attempt_ok_def split: option.splits dest: find_by_SomeD)
    show ?thesis
      using A [OF x] T [OF y(2)] y y_ok rel [OF x y(2)] by (auto simp: attempt_ok_def find_t)
  qed
  have rows_t: "task_ok (db_attempts d') (if P y then f y else y)" if y: "y \<in> set (db_tasks d)" for y
  proof -
    have "find_by a_id k (db_attempts d) = Some x \<Longrightarrow> x \<in> set (db_attempts d)" for k x
      using find_by_SomeD by metis
    then show ?thesis
      using T [OF y] A exec_okD(4) [OF ok y]
      by (auto simp: task_ok_def task_checks_def find_a split: option.splits)
  qed
  have "map t_id (db_tasks d') = map t_id (db_tasks d)"
    "map t_idem_key (db_tasks d') = map t_idem_key (db_tasks d)"
    "map a_id (db_attempts d') = map a_id (db_attempts d)"
    "map (\<lambda>a. (a_task a, a_fence a)) (db_attempts d') = map (\<lambda>a. (a_task a, a_fence a)) (db_attempts d)"
    unfolding d' using T A by (simp_all add: map_key_update_where)
  moreover have "\<forall>x \<in> set (db_attempts d'). attempt_ok (db_tasks d') x"
    unfolding d'(2) set_update_where by (rule ballI, erule imageE) (simp only: rows_a)
  moreover have "\<forall>x \<in> set (db_tasks d'). task_ok (db_attempts d') x"
    unfolding d'(1) set_update_where by (rule ballI, erule imageE) (simp only: rows_t)
  ultimately show ?thesis
    using exec_okD(1,2,5,6) [OF ok] lineage_update [OF exec_okD(7) [OF ok], of P f] same_task_later [OF t]
    unfolding exec_ok_def list_all_iff fences_distinct_def keys_distinct_def
    by (simp add: d'(1))
qed

text \<open>A new attempt under a fresh fence, which becomes the current one.\<close>

lemma exec_ok_start:
  assumes ok: "exec_ok d" and t: "find_by t_id k (db_tasks d) = Some t" and idle: "t_state t \<noteq> TaskExecuting"
    and a: "a_id a \<notin> a_id ` set (db_attempts d)" "a_task a = k" "a_fence a = t_fence t + 1" "in64 (t_fence t + 1)"
    and f: "t_id (f t) = k" "t_attempt (f t) = Some (a_id a)" "t_fence (f t) = a_fence a"
      "t_state (f t) = TaskExecuting" "task_checks (f t)" "later_task t (f t)"
    and d': "db_tasks d' = update_where (\<lambda>x. t_id x = k \<and> P x) f (db_tasks d)" "P t"
      "db_attempts d' = db_attempts d @ [a]"
  shows "exec_ok d'"
proof -
  have only_t: "x = t" if "x \<in> set (db_tasks d)" "t_id x = k" for x
    using find_by_member [OF exec_okD(1) [OF ok] that(1)] that(2) t by simp
  have keys: "t_id (f x) = t_id x \<and> t_idem_key (f x) = t_idem_key x" if "x \<in> set (db_tasks d)" "t_id x = k" for x
    using only_t [OF that] later_taskD [OF f(6)] by auto
  have find_t: "find_by t_id j (db_tasks d') = (if j = k then Some (f t) else find_by t_id j (db_tasks d))" for j
  proof -
    have "find_by t_id j (db_tasks d') = map_option (\<lambda>x. if t_id x = k \<and> P x then f x else x) (find_by t_id j (db_tasks d))"
      unfolding d' by (rule find_by_update_where) (use keys in blast)
    with t d'(2) show ?thesis by (auto dest!: find_by_SomeD intro!: option.map_ident_strong)
  qed
  have find_a: "find_by a_id j (db_attempts d') = (if a_id a = j then Some a else find_by a_id j (db_attempts d))" for j
    using a(1) by (simp add: d' find_by_insert_new)
  have fresh: "a_fence x \<le> t_fence t" "a_lease x \<noteq> LeaseActive"
    if "x \<in> set (db_attempts d)" "a_task x = k" for x
    using exec_okD(3) [OF ok that(1)] that(2) t idle by (auto simp: attempt_ok_def)
  have "0 \<le> t_fence t" using task_row(2) [OF ok t] by (simp add: task_ok_def)
  then have row_a: "attempt_ok (db_tasks d') a" using a(2,3) f by (simp add: attempt_ok_def find_t)
  have rows_a: "attempt_ok (db_tasks d') x" if x: "x \<in> set (db_attempts d)" for x
    using exec_okD(3) [OF ok x] fresh [OF x] a(3) f by (auto simp: attempt_ok_def find_t split: option.splits)
  have rows_t: "task_ok (db_attempts d') (if t_id y = k \<and> P y then f y else y)" if y: "y \<in> set (db_tasks d)" for y
  proof (cases "t_id y = k")
    case True
    then show ?thesis
      using only_t [OF y] d'(2) f a(2-4) \<open>0 \<le> t_fence t\<close> by (auto simp: task_ok_def find_a)
  next
    case False
    have "find_by a_id (a_id a) (db_attempts d) = None"
      using a(1) by (simp add: find_by_None_iff)
    with False show ?thesis
      using exec_okD(4) [OF ok y] by (auto simp: task_ok_def find_a split: option.splits)
  qed
  have "map t_id (db_tasks d') = map t_id (db_tasks d)" "map t_idem_key (db_tasks d') = map t_idem_key (db_tasks d)"
    unfolding d' by (rule map_key_update_where; use keys in blast)+
  moreover have "(a_task a, a_fence a) \<notin> (\<lambda>a. (a_task a, a_fence a)) ` set (db_attempts d)"
    using fresh a(2,3) by fastforce
  moreover have "\<forall>x \<in> set (db_attempts d'). attempt_ok (db_tasks d') x"
    unfolding d'(3) using row_a rows_a by simp
  moreover have "\<forall>x \<in> set (db_tasks d'). task_ok (db_attempts d') x"
    unfolding d'(1) set_update_where by (rule ballI, erule imageE) (simp only: rows_t)
  moreover have lineage: "\<forall>x \<in> set (db_tasks d'). lineage_ok (db_tasks d') x"
    unfolding d'(1) by (rule lineage_update [OF exec_okD(7) [OF ok]]) (use only_t f(6) in auto)
  ultimately show ?thesis
    using exec_okD(1,2,5,6) [OF ok] a(1) lineage
    unfolding exec_ok_def list_all_iff fences_distinct_def keys_distinct_def
    by (simp add: d'(3))
qed

text \<open>A new task, without attempts.\<close>

lemma exec_ok_insert_task:
  assumes ok: "exec_ok d" and t: "t_id t \<notin> t_id ` set (db_tasks d)" "t_attempt t = None" "t_fence t = 0"
    "task_checks t" "t_idem_key t = [] \<or> t_idem_key t \<notin> t_idem_key ` set (db_tasks d)"
    "lineage_ok (db_tasks d) t"
    and d': "db_tasks d' = db_tasks d @ [t]" "db_attempts d' = db_attempts d"
  shows "exec_ok d'"
proof -
  have find_t: "find_by t_id j (db_tasks d') = (if t_id t = j then Some t else find_by t_id j (db_tasks d))" for j
    using t(1) by (simp add: d' find_by_insert_new)
  have "attempt_ok (db_tasks d') x" if x: "x \<in> set (db_attempts d)" for x
  proof -
    have "find_by t_id (a_task x) (db_tasks d) \<noteq> None"
      using exec_okD(3) [OF ok x] by (auto simp: attempt_ok_def split: option.splits)
    then have "t_id t \<noteq> a_task x" using t(1) by (auto simp: find_by_None_iff)
    then show ?thesis using exec_okD(3) [OF ok x] by (simp add: attempt_ok_def find_t)
  qed
  moreover have "task_ok (db_attempts d') t"
    using t by (simp add: task_ok_def in64_def)
  moreover have "lineage_ok (db_tasks d') x" if "lineage_ok (db_tasks d) x" for x
  proof (cases "t_parent x = []")
    case False
    then have "find_by t_id (t_parent x) (db_tasks d) \<noteq> None"
      using that by (auto simp: lineage_ok_def split: option.splits)
    then have "t_id t \<noteq> t_parent x" using t(1) by (auto simp: find_by_None_iff)
    with that show ?thesis by (simp add: lineage_ok_def find_t)
  qed (simp add: lineage_ok_def)
  ultimately show ?thesis
    using exec_okD [OF ok] t by (auto simp: exec_ok_def list_all_iff keys_distinct_def d')
qed

subsection \<open>What the tables remember\<close>

definition exec_le :: "db \<Rightarrow> db \<Rightarrow> bool" where
  "exec_le d d' \<longleftrightarrow>
     (\<forall>k t. find_by t_id k (db_tasks d) = Some t \<longrightarrow>
        (\<exists>t'. find_by t_id k (db_tasks d') = Some t' \<and> later_task t t')) \<and>
     (\<forall>k a. find_by a_id k (db_attempts d) = Some a \<longrightarrow>
        (\<exists>a'. find_by a_id k (db_attempts d') = Some a' \<and> same_attempt a a'))"

text \<open>The two together: what one call makes of a consistent store.\<close>

definition exec_next :: "db \<Rightarrow> db \<Rightarrow> bool" where
  "exec_next d d' \<longleftrightarrow> exec_ok d' \<and> exec_le d d'"

lemma same_attempt_refl [simp]: "same_attempt a a"
  by (simp add: same_attempt_def)

lemma later_task_trans: "later_task t u \<Longrightarrow> later_task u v \<Longrightarrow> later_task t v"
proof -
  assume "later_task t u" "later_task u v"
  then obtain a b c e a' b' c' e' where
    "u = t\<lparr>t_state := a, t_attempt := b, t_fence := c, t_updated := e\<rparr>" "t_fence t \<le> c"
    "v = u\<lparr>t_state := a', t_attempt := b', t_fence := c', t_updated := e'\<rparr>" "t_fence u \<le> c'"
    unfolding later_task_def by metis
  then show ?thesis by (simp add: later_task_def)
qed

lemma same_attempt_trans: "same_attempt a b \<Longrightarrow> same_attempt b c \<Longrightarrow> same_attempt a c"
proof -
  assume "same_attempt a b" "same_attempt b c"
  then obtain s l e m s' l' e' m' where
    "b = a\<lparr>a_state := s, a_lease := l, a_expires := e, a_completed := m\<rparr>" "l = LeaseActive \<longrightarrow> a_lease a = LeaseActive"
    "c = b\<lparr>a_state := s', a_lease := l', a_expires := e', a_completed := m'\<rparr>" "l' = LeaseActive \<longrightarrow> a_lease b = LeaseActive"
    unfolding same_attempt_def by metis
  then show ?thesis by (simp add: same_attempt_def)
qed

lemma exec_le_refl [simp]: "exec_le d d"
  by (simp add: exec_le_def)

lemma exec_le_trans: "exec_le d e \<Longrightarrow> exec_le e f \<Longrightarrow> exec_le d f"
  unfolding exec_le_def using later_task_trans same_attempt_trans by meson

lemma exec_le_task:
  "exec_le d d' \<Longrightarrow> find_by t_id k (db_tasks d) = Some t \<Longrightarrow>
   \<exists>t'. find_by t_id k (db_tasks d') = Some t' \<and> later_task t t'"
  by (simp add: exec_le_def)

lemma exec_le_attempt:
  "exec_le d d' \<Longrightarrow> find_by a_id k (db_attempts d) = Some a \<Longrightarrow>
   \<exists>a'. find_by a_id k (db_attempts d') = Some a' \<and> same_attempt a a'"
  by (simp add: exec_le_def)

lemma exec_next_refl: "exec_ok d \<Longrightarrow> exec_next d d"
  by (simp add: exec_next_def)

lemma exec_next_trans: "exec_next d e \<Longrightarrow> exec_next e f \<Longrightarrow> exec_next d f"
  by (auto simp: exec_next_def intro: exec_le_trans)

lemma exec_next_cong:
  "db_tasks e' = db_tasks e \<Longrightarrow> db_attempts e' = db_attempts e \<Longrightarrow> exec_next d e' = exec_next d e"
  by (simp add: exec_next_def exec_le_def exec_ok_cong [of e' e])

lemma exec_le_update:
  assumes t: "\<And>t. t \<in> set (db_tasks d) \<Longrightarrow> P t \<Longrightarrow> later_task t (f t)"
    and a: "\<And>a. a \<in> set (db_attempts d) \<Longrightarrow> Q a \<Longrightarrow> same_attempt a (g a)"
    and d': "db_tasks d' = update_where P f (db_tasks d)" "db_attempts d' = update_where Q g (db_attempts d) @ new"
  shows "exec_le d d'"
proof -
  have tasks: "find_by t_id k (db_tasks d') = map_option (\<lambda>t. if P t then f t else t) (find_by t_id k (db_tasks d))"
    and attempts: "find_by a_id k (update_where Q g (db_attempts d)) = map_option (\<lambda>a. if Q a then g a else a) (find_by a_id k (db_attempts d))"
    for k unfolding d'(1) using later_taskD [OF t] same_attemptD [OF a] by (simp_all add: find_by_update_where)
  show ?thesis
    unfolding exec_le_def
  proof (intro conjI allI impI)
    fix k r
    assume "find_by t_id k (db_tasks d) = Some r"
    then show "\<exists>r'. find_by t_id k (db_tasks d') = Some r' \<and> later_task r r'"
      using t find_by_SomeD by (fastforce simp: tasks)
  next
    fix k r
    assume "find_by a_id k (db_attempts d) = Some r"
    then show "\<exists>r'. find_by a_id k (db_attempts d') = Some r' \<and> same_attempt r r'"
      using a find_by_SomeD by (fastforce simp: attempts d'(2) find_by_append)
  qed
qed

lemma exec_next_update:
  assumes ok: "exec_ok d"
    and t: "\<And>t. t \<in> set (db_tasks d) \<Longrightarrow> P t \<Longrightarrow> same_task t (f t)"
    and a: "\<And>a. a \<in> set (db_attempts d) \<Longrightarrow> Q a \<Longrightarrow> same_attempt a (g a)"
    and rel: "\<And>a t. a \<in> set (db_attempts d) \<Longrightarrow> t \<in> set (db_tasks d) \<Longrightarrow> t_id t = a_task a \<Longrightarrow>
      t_attempt t = Some (a_id a) \<Longrightarrow> t_state t = TaskExecuting \<Longrightarrow> a_lease a = LeaseActive \<Longrightarrow> P t \<Longrightarrow>
      t_state (f t) \<noteq> TaskExecuting \<Longrightarrow> Q a \<and> a_lease (g a) \<noteq> LeaseActive"
    and d': "db_tasks d' = update_where P f (db_tasks d)" "db_attempts d' = update_where Q g (db_attempts d)"
  shows "exec_next d d'"
  unfolding exec_next_def
proof
  show "exec_ok d'" by (rule exec_ok_update [OF ok t a rel d'])
  show "exec_le d d'"
    by (rule exec_le_update [of d P f Q g d' "[]"]) (use t a d' same_task_later in simp_all)
qed

lemma exec_next_insert_task:
  assumes "exec_ok d" and "t_id t \<notin> t_id ` set (db_tasks d)" "t_attempt t = None" "t_fence t = 0"
    "task_checks t" "t_idem_key t = [] \<or> t_idem_key t \<notin> t_idem_key ` set (db_tasks d)"
    "lineage_ok (db_tasks d) t"
    and "db_tasks d' = db_tasks d @ [t]" "db_attempts d' = db_attempts d"
  shows "exec_next d d'"
  using exec_ok_insert_task [OF assms] assms(8,9)
  by (auto simp: exec_next_def exec_le_def find_by_append)

subsection \<open>The operations keep the invariant\<close>

lemma stateAllowed_iff [simp]: "stateAllowed st allowed \<longleftrightarrow> st \<in> set allowed"
  by (auto simp: stateAllowed_def list_ex_iff)

lemma GuardAttempt_Inr:
  "GuardAttempt now k allowed d = Inr g \<longleftrightarrow>
   (\<exists>a t. find_by a_id k (db_attempts d) = Some a \<and> find_by t_id (a_task a) (db_tasks d) = Some t \<and>
     t_attempt t = Some (a_id a) \<and> t_fence t = a_fence a \<and> a_lease a = LeaseActive \<and>
     now < a_expires a \<and> t_state t \<in> set allowed \<and>
     g = \<lparr>ga_task = a_task a, ga_attempt = a_id a, ga_fence = a_fence a,
          ga_expires = a_expires a, ga_state = t_state t\<rparr>)"
  by (auto simp: GuardAttempt_def split: option.splits if_splits)

lemma append_event_tables:
  assumes "append_event i t a ty det now d = Inr d'"
  shows "db_tasks d' = db_tasks d" "db_attempts d' = db_attempts d"
  using append_event_Inr [OF assms] by auto

lemma loadTask_Inr: "loadTask k d = Inr t \<longleftrightarrow> find_by t_id k (db_tasks d) = Some t"
  by (simp add: loadTask_def split: option.split)

lemma validatePurpose_tasks [simp]: "validatePurpose p (d\<lparr>db_tasks := ts\<rparr>) = validatePurpose p d"
  by (simp add: validatePurpose_def split: purpose_kind.split)

lemma normalizeTaskIntent_Inr:
  "normalizeTaskIntent K q = Inr q' \<Longrightarrow>
   \<exists>payload. q' = q\<lparr>tr_objective := trim_space (tr_objective q), tr_key := trim_space (tr_key q), tr_payload := payload\<rparr>"
  by (auto simp: normalizeTaskIntent_def Let_def bind_simps split: if_splits)

definition task_of_request :: "TaskRequest \<Rightarrow> task \<Rightarrow> bool" where
  "task_of_request q t \<longleftrightarrow> t_purpose t = tr_purpose q \<and> t_class t = tr_class q \<and>
     t_criteria t = tr_criteria q \<and> t_capabilities t = tr_capabilities q \<and>
     t_enforcement t = tr_enforcement q \<and> t_authority t = tr_authority q \<and> t_envelope t = tr_envelope q \<and>
     t_priority t = tr_priority q \<and> t_earliest t = tr_earliest q \<and> t_deadline t = tr_deadline q \<and>
     t_objective t = trim_space (tr_objective q) \<and> t_idem_key t = trim_space (tr_key q)"

lemma new_task_simps [simp]:
  "t_id (new_task now rand p q h) = NewID ''task'' rand" "t_parent (new_task now rand p q h) = p"
  "t_attempt (new_task now rand p q h) = None" "t_fence (new_task now rand p q h) = 0"
  "t_state (new_task now rand p q h) = TaskEligible" "t_idem_key (new_task now rand p q h) = tr_key q"
  "t_purpose (new_task now rand p q h) = tr_purpose q" "t_request_hash (new_task now rand p q h) = h"
  by (simp_all add: new_task_def)

lemma replay_task_Inr:
  "replay_task k h d = Inr (t, d') \<longleftrightarrow>
   (\<exists>x. find_by t_idem_key k (db_tasks d) = Some x \<and> t_request_hash x = h \<and>
     find_by t_id (t_id x) (db_tasks d) = Some t \<and> d' = d)"
  by (auto simp: replay_task_def bind_simps loadTask_Inr split: option.split)

lemma store_new_task_Inr:
  "store_new_task x d = Inr (t, d') \<longleftrightarrow>
   t = x \<and> t_id x \<notin> t_id ` set (db_tasks d) \<and> validatePurpose (t_purpose x) d = Inr () \<and>
   \<not> (feedback_emit_key x \<noteq> None \<and>
      exists_where (\<lambda>y. feedback_emit_key y = feedback_emit_key x) (db_tasks d)) \<and>
   d' = d\<lparr>db_tasks := db_tasks d @ [x]\<rparr>"
  by (auto simp: store_new_task_def bind_simps Let_def insert_unique_Inr_iff)

lemma insertTaskTx_cases:
  assumes "insertTaskTx K now rand parent q guard d = Inr (t, d')"
  obtains (replay) q' x where "normalizeTaskIntent K q = Inr q'" "tr_key q' \<noteq> []"
      "find_by t_idem_key (tr_key q') (db_tasks d) = Some x" "t_request_hash x = request_hash K parent q'"
      "find_by t_id (t_id x) (db_tasks d) = Some t" "d' = d"
  | (new) q' where "normalizeTaskIntent K q = Inr q'"
      "t = new_task now rand parent q' (request_hash K parent q')"
      "task_checks t" "t_id t \<notin> t_id ` set (db_tasks d)" "d' = d\<lparr>db_tasks := db_tasks d @ [t]\<rparr>"
      "tr_key q' = [] \<or> tr_key q' \<notin> t_idem_key ` set (db_tasks d)"
      "validatePurpose (t_purpose t) d = Inr ()"
proof -
  obtain q' where q': "normalizeTaskIntent K q = Inr q'"
    using assms unfolding insertTaskTx_def bindE_Inr_iff by blast
  let ?t = "new_task now rand parent q' (request_hash K parent q')"
  let ?dup = "tr_key q' \<noteq> [] \<and> exists_where (\<lambda>x. t_idem_key x = tr_key q') (db_tasks d)"
  have checks: "task_checks ?t" and
    run: "(if ?dup then replay_task (tr_key q') (request_hash K parent q') d else store_new_task ?t d) = Inr (t, d')"
    using assms q' unfolding insertTaskTx_def Let_def bindE_Inr_iff requireE_Inr_iff by auto
  show thesis
  proof (cases ?dup)
    case True
    with run q' replay show thesis by (auto simp: replay_task_Inr)
  next
    case False
    then have "tr_key q' = [] \<or> tr_key q' \<notin> t_idem_key ` set (db_tasks d)"
      by (auto simp: exists_where_iff)
    moreover have "store_new_task ?t d = Inr (t, d')" using run False by (simp only: if_False)
    ultimately show thesis
      using checks q' new unfolding store_new_task_Inr by blast
  qed
qed

lemma task_of_new_task:
  "normalizeTaskIntent K q = Inr q' \<Longrightarrow> task_of_request q (new_task now rand parent q' h)"
proof -
  assume "normalizeTaskIntent K q = Inr q'"
  then obtain payload where
    "q' = q\<lparr>tr_objective := trim_space (tr_objective q), tr_key := trim_space (tr_key q), tr_payload := payload\<rparr>"
    using normalizeTaskIntent_Inr by blast
  then show ?thesis by (simp add: task_of_request_def new_task_def)
qed

interpretation exec_rank: enforcement_ranking enforcementRank
  by unfold_locales simp_all

lemma child_steps_Inr:
  "child_purpose parent q = Inr q' \<Longrightarrow> q' = q\<lparr>tr_purpose := t_purpose parent\<rparr>"
  "child_capabilities parent q = Inr q' \<Longrightarrow> \<exists>c caps. q' = q\<lparr>tr_class := c, tr_capabilities := caps\<rparr>"
  "child_authority parent q = Inr q' \<Longrightarrow>
     \<exists>as. q' = q\<lparr>tr_authority := as\<rparr> \<and> set as \<subseteq> set (t_authority parent)"
  "child_within_authority q = Inr q' \<Longrightarrow> q' = q \<and> set (tr_capabilities q) \<subseteq> set (tr_authority q)"
  "child_envelope parent q = Inr q' \<Longrightarrow> q' = q\<lparr>tr_envelope := t_envelope parent\<rparr>"
  "child_enforcement parent q = Inr q' \<Longrightarrow> valid_enforcement (t_enforcement parent) \<Longrightarrow>
     \<exists>l. q' = q\<lparr>tr_enforcement := l\<rparr> \<and> t_enforcement parent \<le> l"
  "child_criteria q = Inr q' \<Longrightarrow> \<exists>cs. q' = q\<lparr>tr_criteria := cs\<rparr> \<and> cs \<noteq> []"
  "child_earliest parent q = Inr q' \<Longrightarrow>
     \<exists>x. q' = q\<lparr>tr_earliest := x\<rparr> \<and> (t_earliest parent \<noteq> 0 \<longrightarrow> x \<noteq> 0 \<and> t_earliest parent \<le> x)"
  "child_deadline parent q = Inr q' \<Longrightarrow>
     \<exists>x. q' = q\<lparr>tr_deadline := x\<rparr> \<and> (t_deadline parent \<noteq> 0 \<longrightarrow> x \<noteq> 0 \<and> x \<le> t_deadline parent)"
  by (auto simp: child_purpose_def child_capabilities_def child_authority_def child_within_authority_def
      child_envelope_def child_enforcement_def child_criteria_def child_earliest_def child_deadline_def
      Let_def list_all_iff exec_rank.rank_le_iff [symmetric] not_less
      split: if_splits intro: exI [of _ "tr_enforcement q"] exI [of _ "tr_earliest q"] exI [of _ "tr_deadline q"])

lemma child_request_Inr:
  assumes "child_request parent q = Inr q'" and "valid_enforcement (t_enforcement parent)"
  shows "tr_purpose q' = t_purpose parent \<and> tr_envelope q' = t_envelope parent \<and>
    set (tr_capabilities q') \<subseteq> set (tr_authority q') \<and> set (tr_authority q') \<subseteq> set (t_authority parent) \<and>
    t_enforcement parent \<le> tr_enforcement q' \<and> tr_criteria q' \<noteq> [] \<and>
    (t_earliest parent \<noteq> 0 \<longrightarrow> tr_earliest q' \<noteq> 0 \<and> t_earliest parent \<le> tr_earliest q') \<and>
    (t_deadline parent \<noteq> 0 \<longrightarrow> tr_deadline q' \<noteq> 0 \<and> tr_deadline q' \<le> t_deadline parent)"
proof -
  obtain q1 q2 q3 q4 q5 q6 q7 q8 q9 where
    steps: "child_purpose parent q = Inr q1" "child_capabilities parent q1 = Inr q2"
      "child_authority parent q2 = Inr q3" "child_within_authority q3 = Inr q4"
      "child_envelope parent q4 = Inr q5" "child_enforcement parent q5 = Inr q6"
      "child_criteria q6 = Inr q7" "child_earliest parent q7 = Inr q8" "child_deadline parent q8 = Inr q9"
    and q': "q' = (if tr_priority q9 = 0 then q9\<lparr>tr_priority := t_priority parent\<rparr> else q9)"
    using assms(1) unfolding child_request_def bindE_Inr_iff Let_def by blast
  obtain c caps as l cs x y where
    "q2 = q1\<lparr>tr_class := c, tr_capabilities := caps\<rparr>"
    "q3 = q2\<lparr>tr_authority := as\<rparr>" "set as \<subseteq> set (t_authority parent)"
    "q6 = q5\<lparr>tr_enforcement := l\<rparr>" "t_enforcement parent \<le> l"
    "q7 = q6\<lparr>tr_criteria := cs\<rparr>" "cs \<noteq> []"
    "q8 = q7\<lparr>tr_earliest := x\<rparr>" "t_earliest parent \<noteq> 0 \<longrightarrow> x \<noteq> 0 \<and> t_earliest parent \<le> x"
    "q9 = q8\<lparr>tr_deadline := y\<rparr>" "t_deadline parent \<noteq> 0 \<longrightarrow> y \<noteq> 0 \<and> y \<le> t_deadline parent"
    using child_steps_Inr(2) [OF steps(2)] child_steps_Inr(3) [OF steps(3)]
      child_steps_Inr(6) [OF steps(6) assms(2)] child_steps_Inr(7) [OF steps(7)]
      child_steps_Inr(8) [OF steps(8)] child_steps_Inr(9) [OF steps(9)] by blast
  moreover note child_steps_Inr(1) [OF steps(1)] child_steps_Inr(4) [OF steps(4)] child_steps_Inr(5) [OF steps(5)]
  ultimately show ?thesis by (simp add: q')
qed

lemma insertTaskTx_ok:
  assumes ok: "exec_ok d" and run: "insertTaskTx K now rand parent q guard d = Inr (t, d')"
    and parent: "parent = [] \<or> (\<exists>p q0. find_by t_id parent (db_tasks d) = Some p \<and> child_request p q0 = Inr q)"
  shows "exec_next d d'"
proof -
  consider "d' = d" | "t_id t \<notin> t_id ` set (db_tasks d)" "d' = d\<lparr>db_tasks := db_tasks d @ [t]\<rparr>"
    "t_attempt t = None" "t_fence t = 0" "task_checks t" "t_parent t = parent" "task_of_request q t"
    "t_idem_key t = [] \<or> t_idem_key t \<notin> t_idem_key ` set (db_tasks d)"
    using run by (cases rule: insertTaskTx_cases) (simp_all only: task_of_new_task new_task_simps, simp_all)
  then show ?thesis
  proof cases
    case 2
    note new = this
    have "lineage_ok (db_tasks d) t"
    proof (cases "parent = []")
    case False
    then obtain p q0 where p: "find_by t_id parent (db_tasks d) = Some p" "child_request p q0 = Inr q"
      using parent by blast
    have "valid_enforcement (t_enforcement p)"
      using task_row(2) [OF ok p(1)] by (simp add: task_ok_def task_checks_def)
    from child_request_Inr [OF p(2) this] new(6,7) p(1) show ?thesis
      by (simp add: lineage_ok_def attenuated_def task_of_request_def)
    qed (simp add: lineage_ok_def new)
    with new ok show ?thesis by (intro exec_next_insert_task [of d t]) simp_all
  qed (use ok exec_next_refl in simp)
qed

lemma CreateTaskWithGuard_ok: "exec_ok d \<Longrightarrow> exec_next d (fst (CreateTaskWithGuard K now rand q guard d))"
  by (cases "normalizeRootRequest q")
    (simp_all add: CreateTaskWithGuard_def with_tx_invariant [where I = "exec_next d"] insertTaskTx_ok exec_next_refl)

lemma CreateChildTask_ok:
  assumes ok: "exec_ok d"
  shows "exec_next d (fst (CreateChildTask K now rand p q d))"
proof (cases "loadTask p d")
  case (Inr parent)
  have p: "find_by t_id (t_id parent) (db_tasks d) = Some parent"
    using Inr find_by_own by (simp add: loadTask_Inr)
  show ?thesis
  proof (cases "child_request parent q")
    case (Inr q')
    have "exec_next d (fst (with_tx (insertTaskTx K now rand (t_id parent) q' None) d))"
      using p Inr ok by (intro with_tx_invariant [where I = "exec_next d"] exec_next_refl) (auto intro: insertTaskTx_ok)
    with Inr \<open>loadTask p d = Inr parent\<close> show ?thesis by (simp add: CreateChildTask_def)
  qed (simp add: CreateChildTask_def \<open>loadTask p d = Inr parent\<close> ok exec_next_refl)
qed (simp add: CreateChildTask_def ok exec_next_refl)

lemma record_start_Inr: "record_start rs a t d = Inr d' \<Longrightarrow> \<exists>rows. d' = d\<lparr>db_manifests := rows\<rparr>"
proof (induction rs arbitrary: d)
  case Nil
  then show ?case by (auto intro: exI [of _ "db_manifests d"])
next
  case (Cons r rs)
  then obtain rows where "record_start rs a t (d\<lparr>db_manifests := rows\<rparr>) = Inr d'" by (auto simp: bind_simps)
  from Cons.IH [OF this] show ?case by auto
qed

lemma StartAttempt_Inr:
  assumes "StartAttempt recorders E k executor duration d = (d', Inr a)"
  obtains t events manifests where "find_by t_id k (db_tasks d) = Some t" "t_state t = TaskEligible"
    "a = \<lparr>a_id = NewID ''attempt'' (rnd E 0), a_task = k, a_state = AttemptLeased,
          a_fence = wrap64 (t_fence t + 1), a_lease = LeaseActive, a_expires = clk E 0 + duration,
          a_executor = trim_space executor, a_started = clk E 0, a_completed = None\<rparr>"
    "0 < a_fence a" "a_id a \<notin> a_id ` set (db_attempts d)" "0 < duration"
    "d' = d\<lparr>db_attempts := db_attempts d @ [a],
        db_tasks := update_where (\<lambda>x. t_id x = k \<and> t_state x = TaskEligible \<and> t_fence x = t_fence t)
          (\<lambda>x. x\<lparr>t_state := TaskExecuting, t_attempt := Some (a_id a), t_fence := a_fence a,
                 t_updated := clk E 0\<rparr>) (db_tasks d), db_manifests := manifests, db_events := events\<rparr>"
  using assms
  by (auto simp: StartAttempt_def with_tx_Inr_iff bind_simps Let_def insert_unique_Inr_iff
      split: if_splits option.splits dest!: append_event_Inr record_start_Inr)

lemma fence_in_range:
  "exec_ok d \<Longrightarrow> find_by t_id k (db_tasks d) = Some t \<Longrightarrow> 0 < wrap64 (t_fence t + 1) \<Longrightarrow>
   wrap64 (t_fence t + 1) = t_fence t + 1 \<and> in64 (t_fence t + 1)"
  using task_row(2) [of d k t] wrap64_succ [of "t_fence t"] by (auto simp: task_ok_def)

lemma StartAttempt_ok: "exec_ok d \<Longrightarrow> exec_next d (fst (StartAttempt recorders E k executor duration d))"
proof (cases "snd (StartAttempt recorders E k executor duration d)")
  case (Inl e)
  then show "exec_ok d \<Longrightarrow> ?thesis"
    by (auto simp: StartAttempt_def with_tx_def Let_def exec_next_refl split: sum.splits if_splits)
next
  case (Inr a)
  assume ok: "exec_ok d"
  obtain d' where run: "StartAttempt recorders E k executor duration d = (d', Inr a)"
    using Inr by (metis prod.collapse)
  then show ?thesis
  proof (cases rule: StartAttempt_Inr)
    case (1 t events manifests)
    let ?P = "\<lambda>x. t_state x = TaskEligible \<and> t_fence x = t_fence t"
    let ?f = "\<lambda>x. x\<lparr>t_state := TaskExecuting, t_attempt := Some (a_id a), t_fence := a_fence a,
      t_updated := clk E 0\<rparr>"
    note range = fence_in_range [OF ok 1(1)]
    have "task_checks (?f t)"
      using task_row(2) [OF ok 1(1)] 1(4) by (auto simp: task_ok_def task_checks_def)
    moreover have "later_task t (?f t)"
      using range 1(3,4) by (simp add: later_task_def)
    ultimately have "exec_ok d'"
      using range 1 task_row(1) [OF ok 1(1)]
      by (intro exec_ok_start [where f = ?f and a = a and P = ?P, OF ok 1(1)]) simp_all
    moreover have "exec_le d d'"
      using range 1(3,4,7)
      by (intro exec_le_update [of d "\<lambda>x. t_id x = k \<and> ?P x" ?f "\<lambda>_. False" id d' "[a]"])
        (simp_all add: later_task_def update_where_none)
    ultimately show ?thesis unfolding run exec_next_def by simp
  qed
qed

lemma same_attempt_updates [simp]:
  "same_attempt a (a\<lparr>a_expires := e\<rparr>)"
  "same_attempt a (a\<lparr>a_state := s, a_lease := LeaseRevoked, a_completed := c\<rparr>)"
  "same_attempt a (a\<lparr>a_state := s, a_lease := LeaseExpired, a_completed := c\<rparr>)"
  by (simp_all add: same_attempt_def)

lemma GuardAttempt_row:
  assumes "exec_ok d" and "GuardAttempt now k allowed d = Inr g"
  obtains a t where "find_by a_id k (db_attempts d) = Some a" "find_by t_id (ga_task g) (db_tasks d) = Some t"
    "a_id a = k" "a_task a = ga_task g" "t_id t = ga_task g" "t_attempt t = Some k" "ga_attempt g = k"
    "ga_fence g = t_fence t" "a_fence a = t_fence t" "a_lease a = LeaseActive" "now < a_expires a"
    "t_state t = TaskExecuting" "t_state t \<in> set allowed" "ga_state g = t_state t"
proof -
  from assms(2) obtain a t where a: "find_by a_id k (db_attempts d) = Some a"
    "find_by t_id (a_task a) (db_tasks d) = Some t" "t_attempt t = Some (a_id a)" "t_fence t = a_fence a"
    "a_lease a = LeaseActive" "now < a_expires a" "t_state t \<in> set allowed"
    "g = \<lparr>ga_task = a_task a, ga_attempt = a_id a, ga_fence = a_fence a,
          ga_expires = a_expires a, ga_state = t_state t\<rparr>"
    by (auto simp: GuardAttempt_Inr)
  with attempt_row [OF assms(1) a(1)] have "t_state t = TaskExecuting" by auto
  with a find_by_SomeD [OF a(1)] find_by_SomeD [OF a(2)] show thesis by (intro that [of a t]) simp_all
qed

text \<open>
  The attempt that the guard lets through is the only one of its task with an active lease, so any
  change of the task's state that ends that lease keeps the invariant.
\<close>

lemma exec_next_end_attempt:
  assumes ok: "exec_ok d" and a: "find_by a_id k (db_attempts d) = Some a"
    and g: "\<And>x. same_attempt x (g x)" "\<And>x. a_lease (g x) \<noteq> LeaseActive"
    and f: "\<And>t. same_task t (f t)" and current: "\<And>t. t_id t = a_task a \<Longrightarrow>
      t_attempt t \<noteq> Some k \<Longrightarrow> t_state t = TaskExecuting \<Longrightarrow> t_state (f t) = TaskExecuting"
    and d': "db_tasks d' = update_where (\<lambda>t. t_id t = a_task a) f (db_tasks d)"
      "db_attempts d' = update_where (\<lambda>x. a_id x = k) g (db_attempts d)"
  shows "exec_next d d'"
proof (rule exec_next_update [OF ok _ _ _ d'])
  fix x :: attempt and t :: task
  assume "t_attempt t = Some (a_id x)" "t_id t = a_task a" "t_state t = TaskExecuting"
    "t_state (f t) \<noteq> TaskExecuting"
  then show "a_id x = k \<and> a_lease (g x) \<noteq> LeaseActive"
    using current [of t] g(2) by auto
qed (use f g in simp_all)

lemma exec_next_update_attempts:
  assumes "exec_ok d" and "\<And>x. same_attempt x (g x)"
    and "db_tasks d' = db_tasks d" "db_attempts d' = update_where Q g (db_attempts d)"
  shows "exec_next d d'"
  by (rule exec_next_update [where P = "\<lambda>_. False" and f = id, OF assms(1)])
    (use assms in \<open>simp_all add: update_where_none\<close>)

lemma RenewLease_body:
  "exec_ok d \<Longrightarrow> exec_next d (d\<lparr>db_attempts := update_where Q (\<lambda>a. a\<lparr>a_expires := e\<rparr>) (db_attempts d)\<rparr>)"
  by (rule exec_next_update_attempts [where Q = Q and g = "\<lambda>a. a\<lparr>a_expires := e\<rparr>"]) simp_all

lemma RenewLease_ok: "exec_ok d \<Longrightarrow> exec_next d (fst (RenewLease E k duration d))"
  unfolding RenewLease_def WithGuardedAttempt_def
  by (auto simp: bind_simps intro!: with_tx_invariant [where I = "exec_next d"] exec_next_refl RenewLease_body)

lemma RevokeLease_body:
  assumes ok: "exec_ok d" and a: "find_by a_id k (db_attempts d) = Some a"
  shows "exec_next d (d\<lparr>db_attempts := update_where (\<lambda>x. a_id x = k)
           (\<lambda>x. x\<lparr>a_lease := LeaseRevoked, a_state := s, a_completed := c\<rparr>) (db_attempts d),
         db_tasks := update_where (\<lambda>t. t_id t = a_task a)
           (\<lambda>t. t\<lparr>t_state := (if t_attempt t = Some k \<and> t_state t = TaskExecuting
                               then TaskEligible else t_state t), t_updated := now\<rparr>) (db_tasks d)\<rparr>)"
  by (rule exec_next_end_attempt [OF ok a,
        where f = "\<lambda>t. t\<lparr>t_state := (if t_attempt t = Some k \<and> t_state t = TaskExecuting
                               then TaskEligible else t_state t), t_updated := now\<rparr>"
          and g = "\<lambda>x. x\<lparr>a_lease := LeaseRevoked, a_state := s, a_completed := c\<rparr>"])
    (simp_all add: same_attempt_def)

lemma exec_next_event:
  "append_event i t a ty det now d = Inr d' \<Longrightarrow> exec_next d0 d \<Longrightarrow> exec_next d0 d'"
  using append_event_tables exec_next_cong by metis

lemma RevokeLease_ok: "exec_ok d \<Longrightarrow> exec_next d (fst (RevokeLease E k d))"
  unfolding RevokeLease_def Let_def
  by (rule with_tx_invariant [where I = "exec_next d"])
    (auto simp: bind_simps exec_next_refl split: option.splits if_splits elim!: exec_next_event
      intro: RevokeLease_body)

text \<open>The guarded attempt ends and its task moves on: what completion and failure have in common.\<close>

lemma exec_next_end_guarded:
  assumes ok: "exec_ok d" and g: "GuardAttempt now k allowed d = Inr g"
    and d': "db_tasks d' = update_where (\<lambda>t. t_id t = ga_task g) (\<lambda>t. t\<lparr>t_state := s, t_updated := u\<rparr>) (db_tasks d)"
      "db_attempts d' = update_where (\<lambda>a. a_id a = k)
        (\<lambda>a. a\<lparr>a_state := s', a_lease := LeaseRevoked, a_completed := c\<rparr>) (db_attempts d)"
  shows "exec_next d d'"
  using ok g
proof (rule GuardAttempt_row)
  fix a t
  assume a: "find_by a_id k (db_attempts d) = Some a" "a_task a = ga_task g"
    and t: "find_by t_id (ga_task g) (db_tasks d) = Some t" "t_attempt t = Some k"
  have "x = t" if "x \<in> set (db_tasks d)" "t_id x = ga_task g" for x
    using find_by_member [OF exec_okD(1) [OF ok] that(1)] that(2) t(1) by simp
  with t show ?thesis
    by (intro exec_next_update [OF ok _ _ _ d']) auto
qed

lemma FailAttempt_body:
  assumes "exec_ok d" and "GuardAttempt now k allowed d = Inr g"
  shows "exec_next d (apply_failure u k (ga_task g) signature fs d)"
  unfolding apply_failure_def Let_def by (rule exec_next_end_guarded [OF assms]) simp_all

lemma FailAttempt_ok: "exec_ok d \<Longrightarrow> exec_next d (fst (FailAttempt E k class signature evidence d))"
  unfolding FailAttempt_def WithGuardedAttempt_def
  by (auto simp: bind_simps intro!: with_tx_invariant [where I = "exec_next d"] exec_next_refl
      elim!: exec_next_event intro: FailAttempt_body)

lemma ChallengeTask_body:
  assumes ok: "exec_ok d" and t: "find_by t_id k (db_tasks d) = Some t"
  shows "exec_next d (d\<lparr>db_challenges := cs,
      db_attempts := (case t_attempt t of None \<Rightarrow> db_attempts d | Some j \<Rightarrow>
        update_where (\<lambda>a. a_id a = j \<and> a_lease a = LeaseActive)
          (\<lambda>a. a\<lparr>a_lease := LeaseRevoked, a_state := s, a_completed :=
             (case a_completed a of None \<Rightarrow> Some now | Some c \<Rightarrow> Some c)\<rparr>) (db_attempts d)),
      db_tasks := update_where (\<lambda>x. t_id x = k) (\<lambda>x. x\<lparr>t_state := s', t_updated := u\<rparr>) (db_tasks d)\<rparr>)"
proof -
  let ?Q = "\<lambda>a. a_id a = the (t_attempt t) \<and> t_attempt t \<noteq> None \<and> a_lease a = LeaseActive"
  let ?g = "\<lambda>a. a\<lparr>a_lease := LeaseRevoked, a_state := s, a_completed :=
             (case a_completed a of None \<Rightarrow> Some now | Some c \<Rightarrow> Some c)\<rparr>"
  have rows: "(case t_attempt t of None \<Rightarrow> db_attempts d | Some j \<Rightarrow>
      update_where (\<lambda>a. a_id a = j \<and> a_lease a = LeaseActive) ?g (db_attempts d))
    = update_where ?Q ?g (db_attempts d)"
    by (cases "t_attempt t") (simp_all add: update_where_none)
  have "x = t" if "x \<in> set (db_tasks d)" "t_id x = k" for x
    using find_by_member [OF exec_okD(1) [OF ok] that(1)] that(2) t by simp
  then show ?thesis
    unfolding rows
    by (intro exec_next_update [OF ok, where P = "\<lambda>x. t_id x = k" and Q = ?Q
          and f = "\<lambda>x. x\<lparr>t_state := s', t_updated := u\<rparr>" and g = ?g])
      (auto simp: same_attempt_def)
qed

lemma ChallengeTask_ok: "exec_ok d \<Longrightarrow> exec_next d (fst (ChallengeTask E k scope reason evidence d))"
  unfolding ChallengeTask_def Let_def
  by (cases "find_by t_id k (db_tasks d)")
    (auto simp: bind_simps intro!: with_tx_invariant [where I = "exec_next d"] exec_next_refl elim!: exec_next_event
      intro: ChallengeTask_body)

lemmas execution_ok = CreateTaskWithGuard_ok CreateChildTask_ok StartAttempt_ok RenewLease_ok
  RevokeLease_ok FailAttempt_ok ChallengeTask_ok

subsection \<open>The execution service as a transition system\<close>

inductive exec_step :: "db \<Rightarrow> db \<Rightarrow> bool" where
  step_create: "exec_step d (fst (CreateTaskWithGuard K now rand q guard d))"
| step_child: "exec_step d (fst (CreateChildTask K now rand p q d))"
| step_start: "exec_step d (fst (StartAttempt recorders E k executor duration d))"
| step_renew: "exec_step d (fst (RenewLease E k duration d))"
| step_revoke: "exec_step d (fst (RevokeLease E k d))"
| step_fail: "exec_step d (fst (FailAttempt E k class signature evidence d))"
| step_challenge: "exec_step d (fst (ChallengeTask E k scope reason evidence d))"

lemma exec_step_next: "exec_step d d' \<Longrightarrow> exec_ok d \<Longrightarrow> exec_next d d'"
  by (erule exec_step.cases) (auto intro: execution_ok)

interpretation execution: kept_invariant exec_step exec_ok
  by unfold_locales (blast dest: exec_step_next intro: exec_next_def [THEN iffD1, THEN conjunct1])

interpretation exec_ids: id_normalizer normalizeStrings trim_space
  by unfold_locales (auto simp: normalizeStrings_def)

subsection \<open>A store to evaluate on\<close>

definition demo_codec :: task_codec where
  "demo_codec = \<lparr>normalize_json = (\<lambda>s. Inr s), request_digest = (\<lambda>p q. p @ ''/'' @ tr_objective q)\<rparr>"

definition demo_request :: "string \<Rightarrow> string \<Rightarrow> TaskRequest" where
  "demo_request objective k = \<lparr>tr_purpose = \<lparr>pr_kind = PurposeGovernance, pr_id = ''g''\<rparr>, tr_class = ''c'',
     tr_objective = objective, tr_payload = [], tr_key = k, tr_criteria = [''done''],
     tr_capabilities = [''read''], tr_enforcement = EnforcementPartial, tr_authority = [''read'', ''write''],
     tr_envelope = ''e'', tr_priority = 1, tr_earliest = 0, tr_deadline = 100\<rparr>"

definition demo_env :: env where
  "demo_env = \<lparr>clk = (\<lambda>_. 10), rnd = (\<lambda>i. if i = 0 then ''1'' else ''2'')\<rparr>"

definition demo_created :: db where
  "demo_created = fst (CreateTask demo_codec 5 ''1'' (demo_request ''x'' ''k'') empty_db)"

definition demo_started :: db where
  "demo_started = fst (StartAttempt [] demo_env ''task_1'' ''codex'' 50 demo_created)"

lemma empty_exec_ok: "exec_ok empty_db"
  by code_simp

lemma demo_created_ok: "exec_ok demo_created"
  unfolding demo_created_def CreateTask_def
  using CreateTaskWithGuard_ok [OF empty_exec_ok] by (simp add: exec_next_def)

lemma demo_started_ok: "exec_ok demo_started"
  unfolding demo_started_def using StartAttempt_ok [OF demo_created_ok] by (simp add: exec_next_def)

subsection \<open>Properties\<close>

text \<open>
  C10. A task has at most one attempt that may write: in every state the execution service reaches,
  whenever the guard lets an attempt through, the attempt is the task's current one under its current
  fence, the task is EXECUTING, the lease is ACTIVE and not expired, and no other attempt of that task
  gets through, at any time and for any allowed states.
\<close>

theorem guard_admits_one_attempt:
  assumes "exec_step\<^sup>*\<^sup>* d0 d" and "exec_ok d0" and "GuardAttempt now k allowed d = Inr g"
  shows "(\<exists>a t. find_by a_id k (db_attempts d) = Some a \<and> find_by t_id (ga_task g) (db_tasks d) = Some t \<and>
      a_task a = ga_task g \<and> t_attempt t = Some k \<and> a_fence a = t_fence t \<and> ga_fence g = t_fence t \<and>
      t_state t = TaskExecuting \<and> a_lease a = LeaseActive \<and> now < a_expires a) \<and>
    (\<forall>j a' now' allowed'. find_by a_id j (db_attempts d) = Some a' \<and> a_task a' = ga_task g \<and> j \<noteq> k \<longrightarrow>
      GuardAttempt now' j allowed' d = Inl ErrStaleAttempt)"
proof -
  have ok: "exec_ok d" using execution.reach_inv assms(1,2) .
  from ok assms(3) show ?thesis
  proof (cases rule: GuardAttempt_row)
    case (1 a t)
    then have "GuardAttempt now' j allowed' d = Inl ErrStaleAttempt"
      if "find_by a_id j (db_attempts d) = Some a'" "a_task a' = ga_task g" "j \<noteq> k" for j a' now' allowed'
      using that find_by_SomeD [OF that(1)] by (auto simp: GuardAttempt_def)
    with 1 show ?thesis by blast
  qed
qed

lemma guard_admits_one_attempt_witness:
  "\<exists>t. find_by t_id ''task_1'' (db_tasks demo_started) = Some t \<and> t_attempt t = Some ''attempt_1'' \<and> t_fence t = 1"
proof -
  have g: "GuardAttempt 20 ''attempt_1'' [TaskExecuting] demo_started = Inr
      \<lparr>ga_task = ''task_1'', ga_attempt = ''attempt_1'', ga_fence = 1, ga_expires = 60, ga_state = TaskExecuting\<rparr>"
    by code_simp
  have "exec_step\<^sup>*\<^sup>* demo_created demo_started"
    unfolding demo_started_def by (blast intro: step_start)
  from guard_admits_one_attempt [OF this demo_created_ok g] show ?thesis by auto
qed

lemma StartAttempt_success:
  assumes ok: "exec_ok d" and run: "StartAttempt recorders E k executor duration d = (d', Inr a)"
  shows "(\<exists>t. find_by t_id k (db_tasks d) = Some t \<and> t_state t = TaskEligible \<and>
      a_fence a = t_fence t + 1 \<and> find_by t_id k (db_tasks d') =
        Some (t\<lparr>t_state := TaskExecuting, t_attempt := Some (a_id a), t_fence := t_fence t + 1,
                t_updated := clk E 0\<rparr>)) \<and>
    find_by a_id (a_id a) (db_attempts d') = Some a \<and> a_task a = k \<and> a_lease a = LeaseActive \<and>
    a_expires a = clk E 0 + duration \<and> 0 < duration"
  using run
proof (cases rule: StartAttempt_Inr)
  case (1 t events manifests)
  note range = fence_in_range [OF ok 1(1)] and row = task_row(1) [OF ok 1(1)]
  let ?hit = "\<lambda>x. t_id x = k \<and> t_state x = TaskEligible \<and> t_fence x = t_fence t"
  let ?f = "\<lambda>x. x\<lparr>t_state := TaskExecuting, t_attempt := Some (a_id a), t_fence := a_fence a,
    t_updated := clk E 0\<rparr>"
  have "find_by t_id k (update_where ?hit ?f (db_tasks d)) =
      map_option (\<lambda>x. if ?hit x then ?f x else x) (find_by t_id k (db_tasks d))"
    by (rule find_by_update_where) simp
  then have t': "find_by t_id k (db_tasks d') = Some (?f t)"
    using 1(1,2,7) row by simp
  have a': "find_by a_id (a_id a) (db_attempts d') = Some a"
    using 1(5,7) by (simp add: find_by_insert_new)
  have "a_fence a = t_fence t + 1" using range 1(3,4) by simp
  with t' a' 1 show ?thesis by simp
qed

text \<open>
  Starting an attempt, on every branch: when \<open>StartAttempt\<close> succeeds the task was ELIGIBLE and is
  now EXECUTING under the next fence, and the new attempt passes the guard until its lease expires,
  and fails with an inactive lease from then on; when it fails, nothing has changed.
\<close>

theorem StartAttempt_behaviour:
  assumes "exec_ok d" and "StartAttempt recorders E k executor duration d = (d', out)"
  shows "(case out of
      Inl e \<Rightarrow> d' = d
    | Inr a \<Rightarrow> (\<exists>t. find_by t_id k (db_tasks d) = Some t \<and> t_state t = TaskEligible \<and>
          a_fence a = t_fence t + 1 \<and> find_by t_id k (db_tasks d') =
            Some (t\<lparr>t_state := TaskExecuting, t_attempt := Some (a_id a), t_fence := t_fence t + 1,
                    t_updated := clk E 0\<rparr>)) \<and>
        a_expires a = clk E 0 + duration \<and> 0 < duration \<and>
        GuardAttempt now (a_id a) [TaskExecuting] d' =
          (if now < a_expires a
           then Inr \<lparr>ga_task = k, ga_attempt = a_id a, ga_fence = a_fence a, ga_expires = a_expires a,
                     ga_state = TaskExecuting\<rparr>
           else Inl ErrLeaseInactive))"
proof (cases out)
  case (Inl e)
  with assms(2) show ?thesis
    by (auto simp: StartAttempt_def Let_def with_tx_def split: sum.splits if_splits)
next
  case (Inr a)
  have "StartAttempt recorders E k executor duration d = (d', Inr a)" using assms(2) Inr by simp
  from StartAttempt_success [OF assms(1) this] show ?thesis by (auto simp: Inr GuardAttempt_def)
qed

lemma StartAttempt_behaviour_witness:
  "GuardAttempt 59 ''attempt_1'' [TaskExecuting] demo_started \<noteq> Inl ErrLeaseInactive \<and>
   GuardAttempt 60 ''attempt_1'' [TaskExecuting] demo_started = Inl ErrLeaseInactive"
proof -
  have run: "StartAttempt [] demo_env ''task_1'' ''codex'' 50 demo_created = (demo_started, Inr
      \<lparr>a_id = ''attempt_1'', a_task = ''task_1'', a_state = AttemptLeased, a_fence = 1, a_lease = LeaseActive,
       a_expires = 60, a_executor = ''codex'', a_started = 10, a_completed = None\<rparr>)"
    by code_simp
  show ?thesis
    using StartAttempt_behaviour [OF demo_created_ok run, of 59] StartAttempt_behaviour [OF demo_created_ok run, of 60]
    by simp
qed

subsection \<open>Children\<close>

inductive ancestor :: "task list \<Rightarrow> task \<Rightarrow> task \<Rightarrow> bool" for tasks where
  parent: "find_by t_id (t_parent t) tasks = Some p \<Longrightarrow> t_parent t \<noteq> [] \<Longrightarrow> ancestor tasks p t"
| grandparent: "find_by t_id (t_parent t) tasks = Some p \<Longrightarrow> t_parent t \<noteq> [] \<Longrightarrow> ancestor tasks r p \<Longrightarrow>
    ancestor tasks r t"

lemma attenuated_trans:
  "attenuated r p \<Longrightarrow> attenuated p t \<Longrightarrow> attenuated r t"
  by (auto simp: attenuated_def)

text \<open>
  C30. Authority never grows down the task tree: in every state the execution service reaches, a task has
  the purpose and the resource envelope of each of its ancestors, its required capabilities and its
  authority ceiling are within the ancestor's ceiling, its enforcement level is at least the
  ancestor's, and its time window lies within the ancestor's.
\<close>

theorem descendants_are_attenuated:
  assumes "exec_step\<^sup>*\<^sup>* d0 d" and "exec_ok d0" and "t \<in> set (db_tasks d)" and "ancestor (db_tasks d) r t"
  shows "t_purpose t = t_purpose r \<and> t_envelope t = t_envelope r \<and>
    set (t_capabilities t) \<subseteq> set (t_authority t) \<and> set (t_authority t) \<subseteq> set (t_authority r) \<and>
    t_enforcement r \<le> t_enforcement t \<and>
    (t_earliest r \<noteq> 0 \<longrightarrow> t_earliest t \<noteq> 0 \<and> t_earliest r \<le> t_earliest t) \<and>
    (t_deadline r \<noteq> 0 \<longrightarrow> t_deadline t \<noteq> 0 \<and> t_deadline t \<le> t_deadline r)"
proof -
  have ok: "exec_ok d" using execution.reach_inv assms(1,2) .
  have "attenuated r t"
    using assms(4,3)
  proof (induction rule: ancestor.induct)
    case (parent t p)
    then show ?case using exec_okD(7) [OF ok, of t] by (simp add: lineage_ok_def)
  next
    case (grandparent t p r)
    then have "attenuated p t" using exec_okD(7) [OF ok, of t] by (simp add: lineage_ok_def)
    moreover have "attenuated r p" using grandparent.IH find_by_SomeD [OF grandparent.hyps(1)] by blast
    ultimately show ?case by (blast intro: attenuated_trans)
  qed
  then show ?thesis by (simp add: attenuated_def)
qed

definition demo_child :: db where
  "demo_child = fst (CreateChildTask demo_codec 6 ''2'' ''task_1''
     ((demo_request ''y'' [])\<lparr>tr_authority := [''read''], tr_enforcement := EnforcementEnforced,
        tr_deadline := 90\<rparr>) demo_created)"

lemma descendants_are_attenuated_witness:
  "EnforcementPartial \<le> t_enforcement (db_tasks demo_child ! 1)"
proof -
  have "exec_step\<^sup>*\<^sup>* demo_created demo_child"
    unfolding demo_child_def by (blast intro: step_child)
  moreover have two: "length (db_tasks demo_child) = 2"
    "find_by t_id (t_parent (db_tasks demo_child ! 1)) (db_tasks demo_child) = Some (db_tasks demo_child ! 0)"
    "t_parent (db_tasks demo_child ! 1) \<noteq> []" "t_enforcement (db_tasks demo_child ! 0) = EnforcementPartial"
    by code_simp+
  moreover have "db_tasks demo_child ! 1 \<in> set (db_tasks demo_child)"
    using two(1) by (intro nth_mem) simp
  ultimately have "t_enforcement (db_tasks demo_child ! 0) \<le> t_enforcement (db_tasks demo_child ! 1)"
    using descendants_are_attenuated [OF _ demo_created_ok _ ancestor.parent [OF two(2,3)]] by blast
  then show ?thesis unfolding two(4) .
qed

subsection \<open>Failures and challenges\<close>

lemma FailAttempt_Inr:
  assumes "FailAttempt E k class signature evidence d = (d', Inr u)"
  obtains g f events where "GuardAttempt (clk E 1) k [TaskExecuting] d = Inr g"
    "f_attempt f = k" "f_task f = ga_task g" "f_class f = class" "f_signature f = trim_space signature"
    "d' = (apply_failure (clk E 0) k (ga_task g) (trim_space signature) (db_failures d @ [f]) d)
       \<lparr>db_events := events\<rparr>"
proof -
  from assms obtain g fs where guard: "GuardAttempt (clk E 1) k [TaskExecuting] d = Inr g"
    and fs: "insert_unique f_id \<lparr>f_id = NewID ''failure'' (rnd E 0), f_attempt = k, f_task = ga_task g,
      f_class = class, f_signature = trim_space signature, f_evidence = evidence, f_at = clk E 0\<rparr>
      (db_failures d) = Inr fs"
    and ev: "append_event (NewID ''event'' (rnd E 1)) (ga_task g) k ''ATTEMPT_FAILED'' [] (clk E 0)
      (apply_failure (clk E 0) k (ga_task g) (trim_space signature) fs d) = Inr d'"
    by (auto simp: FailAttempt_def WithGuardedAttempt_def with_tx_Inr_iff bind_simps split: if_split_asm)
  let ?f = "\<lparr>f_id = NewID ''failure'' (rnd E 0), f_attempt = k, f_task = ga_task g,
      f_class = class, f_signature = trim_space signature, f_evidence = evidence, f_at = clk E 0\<rparr>"
  obtain events where "d' = (apply_failure (clk E 0) k (ga_task g) (trim_space signature) (db_failures d @ [?f]) d)
       \<lparr>db_events := events\<rparr>"
    using append_event_Inr [OF ev] fs by (auto simp: insert_unique_Inr_iff)
  then show thesis by (intro that [of g ?f] guard) simp_all
qed

lemma repeated_signature:
  "f_task f = k \<and> f_signature f = s \<Longrightarrow>
   count_where (\<lambda>f. f_task f = k \<and> f_signature f = s) (fs @ [f]) > 1 \<longleftrightarrow>
   exists_where (\<lambda>f. f_task f = k \<and> f_signature f = s) fs"
  by (auto simp: count_where_append count_where_def exists_where_iff filter_empty_conv)

lemma FailAttempt_success:
  assumes ok: "exec_ok d" and run: "FailAttempt E k class signature evidence d = (d', Inr u)"
  shows "\<exists>a t t' f. find_by a_id k (db_attempts d) = Some a \<and>
    find_by t_id (a_task a) (db_tasks d) = Some t \<and> t_state t = TaskExecuting \<and>
    find_by t_id (a_task a) (db_tasks d') = Some t' \<and>
    t_state t' = (if exists_where (\<lambda>f. f_task f = a_task a \<and> f_signature f = trim_space signature)
                       (db_failures d) then TaskBlocked else TaskEligible) \<and>
    db_failures d' = db_failures d @ [f] \<and> f_task f = a_task a \<and> f_attempt f = k \<and>
    f_signature f = trim_space signature \<and> f_class f = class \<and>
    (\<forall>now allowed. \<exists>e. GuardAttempt now k allowed d' = Inl e)"
proof -
  from run obtain g f events where
    guard: "GuardAttempt (clk E 1) k [TaskExecuting] d = Inr g" and
    f: "f_task f = ga_task g" "f_attempt f = k" "f_signature f = trim_space signature" "f_class f = class" and
    d': "d' = (apply_failure (clk E 0) k (ga_task g) (trim_space signature) (db_failures d @ [f]) d)
       \<lparr>db_events := events\<rparr>"
    by (cases rule: FailAttempt_Inr) auto
  note repeat = repeated_signature [OF conjI [OF f(1,3)], of "db_failures d"]
  from ok guard show ?thesis
  proof (cases rule: GuardAttempt_row)
    case (1 a t)
    have "find_by a_id k (db_attempts d') = Some (a\<lparr>a_state := AttemptFailed, a_lease := LeaseRevoked,
        a_completed := Some (clk E 0)\<rparr>)"
      using 1(1,3) by (simp add: d' apply_failure_def find_by_update_where)
    then have "\<exists>e. GuardAttempt now k allowed d' = Inl e" for now allowed
      by (auto simp: GuardAttempt_def split: option.split)
    moreover have "find_by t_id (ga_task g) (db_tasks d') = Some (t\<lparr>t_state :=
        (if exists_where (\<lambda>f. f_task f = ga_task g \<and> f_signature f = trim_space signature) (db_failures d)
         then TaskBlocked else TaskEligible), t_updated := clk E 0\<rparr>)"
      using 1(2,5) by (simp add: d' apply_failure_def find_by_update_where repeat del: One_nat_def)
    ultimately show ?thesis
      using 1 f by (simp add: d' apply_failure_def)
  qed
qed

text \<open>
  Failing an attempt, on every branch: when \<open>FailAttempt\<close> succeeds the attempt's lease is revoked, so
  that the guard refuses it from then on, the failure is on record, and the task is ELIGIBLE again
  unless a failure with the same (trimmed) signature was on record for it already, in which case it is
  BLOCKED; when it fails, nothing has changed.
\<close>

theorem FailAttempt_behaviour:
  assumes "exec_ok d" and "FailAttempt E k class signature evidence d = (d', out)"
  shows "(case out of
      Inl e \<Rightarrow> d' = d
    | Inr u \<Rightarrow> (\<exists>a t t' f. find_by a_id k (db_attempts d) = Some a \<and>
        find_by t_id (a_task a) (db_tasks d) = Some t \<and> t_state t = TaskExecuting \<and>
        find_by t_id (a_task a) (db_tasks d') = Some t' \<and>
        t_state t' = (if exists_where (\<lambda>f. f_task f = a_task a \<and> f_signature f = trim_space signature)
                           (db_failures d) then TaskBlocked else TaskEligible) \<and>
        db_failures d' = db_failures d @ [f] \<and> f_task f = a_task a \<and> f_attempt f = k \<and>
        f_signature f = trim_space signature \<and> f_class f = class \<and>
        (\<forall>now allowed. \<exists>e. GuardAttempt now k allowed d' = Inl e)))"
proof (cases out)
  case (Inl e)
  with assms(2) show ?thesis
    by (auto simp: FailAttempt_def WithGuardedAttempt_def Let_def with_tx_def split: sum.splits if_splits)
next
  case (Inr u)
  have "FailAttempt E k class signature evidence d = (d', Inr u)" using assms(2) Inr by simp
  from FailAttempt_success [OF assms(1) this] show ?thesis by (simp add: Inr)
qed

definition demo_env2 :: env where
  "demo_env2 = \<lparr>clk = (\<lambda>_. 20), rnd = (\<lambda>i. if i = 0 then ''3'' else ''4'')\<rparr>"

definition demo_failed :: db where
  "demo_failed = fst (FailAttempt demo_env2 ''attempt_1'' FailureTransient '' boom '' [] demo_started)"

lemma FailAttempt_behaviour_witness:
  "\<exists>t'. find_by t_id ''task_1'' (db_tasks demo_failed) = Some t' \<and> t_state t' = TaskEligible"
proof -
  have run: "FailAttempt demo_env2 ''attempt_1'' FailureTransient '' boom '' [] demo_started = (demo_failed, Inr ())"
    by code_simp
  have facts: "map a_id (db_attempts demo_started) = [''attempt_1'']" "map a_task (db_attempts demo_started) = [''task_1'']"
    "db_failures demo_started = []" by code_simp+
  then have "a_task a = ''task_1''" if "find_by a_id ''attempt_1'' (db_attempts demo_started) = Some a" for a
    using find_by_SomeD [OF that] by auto
  with FailAttempt_behaviour [OF demo_started_ok run] facts(3) show ?thesis
    by (auto simp: exists_where_def)
qed

text \<open>
  A challenge stops the work: after \<open>ChallengeTask\<close> has succeeded, the task is CHALLENGED, the challenge
  is on record, and the guard refuses every attempt of the task.
\<close>

theorem ChallengeTask_stops_attempts:
  assumes "exec_ok d" and "ChallengeTask E k scope reason evidence d = (d', Inr u)"
    and "find_by a_id j (db_attempts d') = Some a" and "a_task a = k"
  shows "(\<exists>e. GuardAttempt now j allowed d' = Inl e) \<and>
    (\<exists>t. find_by t_id k (db_tasks d') = Some t \<and> t_state t = TaskChallenged) \<and>
    (\<exists>c. db_challenges d' = db_challenges d @ [c] \<and> ch_task c = k \<and> ch_scope c = scope)"
proof -
  have ok': "exec_ok d'"
    using ChallengeTask_ok [OF assms(1), of E k scope reason evidence] assms(2) by (simp add: exec_next_def)
  obtain t cs where t: "find_by t_id k (db_tasks d) = Some t"
    and cs: "insert_unique ch_id \<lparr>ch_id = NewID ''challenge'' (rnd E 0), ch_task = k, ch_scope = scope,
      ch_reason = trim_space reason, ch_evidence = evidence, ch_at = clk E 0\<rparr> (db_challenges d) = Inr cs"
    and tables: "db_challenges d' = cs" "db_tasks d' = update_where (\<lambda>x. t_id x = k)
      (\<lambda>x. x\<lparr>t_state := TaskChallenged, t_updated := clk E 0\<rparr>) (db_tasks d)"
    using assms(2)
    by (cases "find_by t_id k (db_tasks d)")
      (auto simp: ChallengeTask_def Let_def with_tx_Inr_iff bind_simps split: if_split_asm dest!: append_event_Inr)
  have state: "find_by t_id k (db_tasks d') = Some (t\<lparr>t_state := TaskChallenged, t_updated := clk E 0\<rparr>)"
    using t task_row(1) [OF assms(1) t] by (simp add: tables find_by_update_where)
  have "GuardAttempt now j allowed d' \<noteq> Inr g" for g
  proof
    assume "GuardAttempt now j allowed d' = Inr g"
    with ok' show False
      by (rule GuardAttempt_row) (use assms(3,4) state in auto)
  qed
  then have "\<exists>e. GuardAttempt now j allowed d' = Inl e"
    by (cases "GuardAttempt now j allowed d'") auto
  moreover have "\<exists>c. db_challenges d' = db_challenges d @ [c] \<and> ch_task c = k \<and> ch_scope c = scope"
    using cs by (auto simp: tables insert_unique_Inr_iff)
  ultimately show ?thesis using state by simp
qed

definition demo_challenged :: db where
  "demo_challenged = fst (ChallengeTask demo_env2 ''task_1'' ChallengeGoal ''why'' [] demo_started)"

lemma ChallengeTask_stops_attempts_witness:
  "\<exists>e. GuardAttempt 21 ''attempt_1'' [TaskExecuting] demo_challenged = Inl e"
proof -
  have run: "ChallengeTask demo_env2 ''task_1'' ChallengeGoal ''why'' [] demo_started = (demo_challenged, Inr ())"
    by code_simp
  have rows: "map a_id (db_attempts demo_challenged) = [''attempt_1'']"
    "map a_task (db_attempts demo_challenged) = [''task_1'']" by code_simp+
  then obtain a where "db_attempts demo_challenged = [a]" "a_id a = ''attempt_1''" "a_task a = ''task_1''"
    by (auto simp: map_eq_Cons_conv)
  then have "find_by a_id ''attempt_1'' (db_attempts demo_challenged) = Some a" "a_task a = ''task_1''"
    by (simp_all add: find_by_Cons)
  from ChallengeTask_stops_attempts [OF demo_started_ok run this] show ?thesis by blast
qed

subsection \<open>What later states still refuse, and what they replay\<close>

text \<open>Facts over \<open>exec_le\<close>: every service that only makes such changes inherits them.\<close>

lemma superseded_attempt_is_stale:
  assumes "exec_le d d'" and "find_by a_id k (db_attempts d) = Some a"
    and "find_by t_id (a_task a) (db_tasks d) = Some t" and "a_fence a < t_fence t"
  shows "GuardAttempt now k allowed d' = Inl ErrStaleAttempt"
proof -
  obtain a' where a': "find_by a_id k (db_attempts d') = Some a'" "same_attempt a a'"
    using exec_le_attempt assms(1,2) by blast
  obtain t' where t': "find_by t_id (a_task a) (db_tasks d') = Some t'" "later_task t t'"
    using exec_le_task assms(1,3) by blast
  show ?thesis
    using a' t' same_attemptD [OF a'(2)] later_taskD [OF t'(2)] assms(4) by (simp add: GuardAttempt_def)
qed

lemma ended_lease_is_refused:
  assumes "exec_le d d'" and "find_by a_id k (db_attempts d) = Some a" and "a_lease a \<noteq> LeaseActive"
  shows "GuardAttempt now k allowed d' = Inl ErrStaleAttempt \<or> GuardAttempt now k allowed d' = Inl ErrLeaseInactive"
proof -
  obtain a' where "find_by a_id k (db_attempts d') = Some a'" "same_attempt a a'"
    using exec_le_attempt assms(1,2) by blast
  then show ?thesis
    using assms(3) same_attemptD [of a a'] by (auto simp: GuardAttempt_def split: option.splits)
qed

lemma start_supersedes:
  assumes ok: "exec_ok d" and run: "StartAttempt recorders E k executor duration d = (d1, Inr a)"
    and b: "find_by a_id j (db_attempts d) = Some b" "a_task b = k" and le: "exec_le d1 d2"
  shows "GuardAttempt now j allowed d2 = Inl ErrStaleAttempt"
proof -
  have nxt: "exec_next d d1"
    using StartAttempt_ok [OF ok, of recorders E k executor duration] run by simp
  obtain t where t: "find_by t_id k (db_tasks d) = Some t" "a_fence b \<le> t_fence t"
    using attempt_row [OF ok b(1)] b(2) by metis
  obtain t1 where t1: "find_by t_id k (db_tasks d1) = Some t1" "t_fence t1 = t_fence t + 1"
    using StartAttempt_success [OF ok run] t(1) by auto
  obtain b1 where "find_by a_id j (db_attempts d1) = Some b1" "same_attempt b b1"
    using exec_le_attempt [OF _ b(1), of d1] nxt unfolding exec_next_def by blast
  then show ?thesis
    using superseded_attempt_is_stale [OF le, of j b1 t1] t t1 b(2) same_attemptD [of b b1] by simp
qed

lemma keys_distinctD:
  "keys_distinct ts \<Longrightarrow> x \<in> set ts \<Longrightarrow> y \<in> set ts \<Longrightarrow> t_idem_key x = t_idem_key y \<Longrightarrow> t_idem_key x \<noteq> [] \<Longrightarrow> x = y"
  by (induction ts) (auto simp: keys_distinct_def rev_image_eqI split: if_splits)

lemma find_by_key:
  "exec_ok d \<Longrightarrow> t \<in> set (db_tasks d) \<Longrightarrow> t_idem_key t \<noteq> [] \<Longrightarrow>
   find_by t_idem_key (t_idem_key t) (db_tasks d) = Some t"
proof -
  assume ok: "exec_ok d" and t: "t \<in> set (db_tasks d)" "t_idem_key t \<noteq> []"
  then obtain x where x: "find_by t_idem_key (t_idem_key t) (db_tasks d) = Some x"
    using find_by_None_iff [of t_idem_key "t_idem_key t" "db_tasks d"] by auto
  then have "t = x"
    using keys_distinctD [OF exec_okD(6) [OF ok] t(1)] t(2) find_by_SomeD [OF x] by simp
  with x show ?thesis by simp
qed

text \<open>A task made under a key, as a row of a store: its key, its digest and its checks are the request's.\<close>

lemma created_row:
  assumes ok: "exec_ok d" and run: "insertTaskTx K now rand parent q guard d = Inr (t, d1)"
    and q': "normalizeTaskIntent K q = Inr q'" and k: "tr_key q' \<noteq> []"
  shows "find_by t_id (t_id t) (db_tasks d1) = Some t \<and> t_idem_key t = tr_key q' \<and>
    t_request_hash t = request_hash K parent q'"
  using run
proof (cases rule: insertTaskTx_cases)
  case (replay q'' x)
  have "x \<in> set (db_tasks d)" using find_by_SomeD [OF replay(3)] by simp
  then have "t = x" using find_by_member [OF exec_okD(1) [OF ok]] replay(5) by simp
  with replay q' find_by_SomeD [OF replay(3)] show ?thesis by simp
next
  case (new q'')
  with q' show ?thesis by (simp add: find_by_insert_new)
qed

lemma task_checks_new_task:
  "task_checks (new_task now rand p q h) \<longleftrightarrow> purpose_kind_valid (pr_kind (tr_purpose q)) \<and> valid_enforcement (tr_enforcement q)"
  by (simp add: task_checks_def new_task_def)

lemma insertTaskTx_checks:
  "insertTaskTx K now rand p q guard d = Inr (t, d') \<Longrightarrow> normalizeTaskIntent K q = Inr q' \<Longrightarrow>
   task_checks (new_task now' rand' p q' h)"
  by (auto simp: insertTaskTx_def Let_def bindE_Inr_iff requireE_Inr_iff task_checks_new_task)

lemma replayed_row:
  assumes ok: "exec_ok d" and x: "find_by t_id i (db_tasks d) = Some x" and q': "normalizeTaskIntent K q = Inr q'"
    and k: "t_idem_key x = tr_key q'" "tr_key q' \<noteq> []"
  shows "insertTaskTx K now rand parent q None d =
    (if task_checks (new_task now rand parent q' (request_hash K parent q'))
     then if t_request_hash x = request_hash K parent q' then Inr (x, d)
       else Inl (Err ''task idempotency key conflicts with a different request'')
     else Inl (ErrConstraint ''CHECK''))"
proof -
  have mem: "x \<in> set (db_tasks d)" using find_by_SomeD [OF x] by simp
  have "find_by t_idem_key (tr_key q') (db_tasks d) = Some x"
    using find_by_key [OF ok mem] k by simp
  moreover have "loadTask (t_id x) d = Inr x"
    using find_by_member [OF exec_okD(1) [OF ok] mem] by (simp add: loadTask_Inr)
  moreover have "exists_where (\<lambda>x. t_idem_key x = tr_key q') (db_tasks d)"
    using mem k by (auto simp: exists_where_iff)
  ultimately show ?thesis
    using k by (simp add: insertTaskTx_def q' Let_def replay_task_def requireE_def)
qed

lemma normalizeRootRequest_key: "normalizeRootRequest q = Inr q1 \<Longrightarrow> tr_key q1 = tr_key q"
  by (auto simp: normalizeRootRequest_def bind_simps Let_def split: if_splits)

lemma normalizeTaskIntent_key: "normalizeTaskIntent K q = Inr q' \<Longrightarrow> tr_key q' = trim_space (tr_key q)"
  by (auto dest!: normalizeTaskIntent_Inr)

lemma CreateTask_Inr:
  "CreateTask K now rand q d = (d', Inr t) \<longleftrightarrow>
   (\<exists>q1. normalizeRootRequest q = Inr q1 \<and> insertTaskTx K now rand [] q1 None d = Inr (t, d'))"
  by (auto simp: CreateTask_def CreateTaskWithGuard_def with_tx_Inr_iff split: sum.split)

lemma create_replays:
  assumes ok: "exec_ok d" and run: "CreateTask K now rand q d = (d1, Inr t)" and k: "nonblank (tr_key q)"
    and le: "exec_le d1 d2" and ok2: "exec_ok d2"
  shows "\<exists>x. find_by t_id (t_id t) (db_tasks d2) = Some x \<and> CreateTask K now' rand' q d2 = (d2, Inr x) \<and>
    (\<forall>q2 d3 t2. trim_space (tr_key q2) = trim_space (tr_key q) \<and>
       CreateTask K now' rand' q2 d2 = (d3, Inr t2) \<longrightarrow> d3 = d2 \<and> t2 = x)"
proof -
  obtain q1 q' where q1: "normalizeRootRequest q = Inr q1" and ins: "insertTaskTx K now rand [] q1 None d = Inr (t, d1)"
    and q': "normalizeTaskIntent K q1 = Inr q'"
    using run unfolding CreateTask_Inr insertTaskTx_def bindE_Inr_iff by blast
  have key: "tr_key q' = trim_space (tr_key q)"
    using normalizeTaskIntent_key [OF q'] normalizeRootRequest_key [OF q1] by simp
  note row = created_row [OF ok ins q'] and checks = insertTaskTx_checks [OF ins q']
  obtain x where x: "find_by t_id (t_id t) (db_tasks d2) = Some x" "t_idem_key x = tr_key q'"
    "t_request_hash x = request_hash K [] q'"
  proof -
    obtain x where "find_by t_id (t_id t) (db_tasks d2) = Some x" "later_task t x"
      using exec_le_task [OF le] row k key by fastforce
    with later_taskD [of t x] row k key show thesis by (intro that [of x]) simp_all
  qed
  have "insertTaskTx K now' rand' [] q1 None d2 = Inr (x, d2)"
    using replayed_row [OF ok2 x(1) q' x(2)] x(3) checks k key by simp
  then have "CreateTask K now' rand' q d2 = (d2, Inr x)"
    using q1 by (simp add: CreateTask_Inr)
  moreover have "d3 = d2 \<and> t2 = x"
    if same: "trim_space (tr_key q2) = trim_space (tr_key q)"
      and run2: "CreateTask K now' rand' q2 d2 = (d3, Inr t2)" for q2 d3 t2
  proof -
    obtain r1 r' where r1: "normalizeRootRequest q2 = Inr r1" and
      ins2: "insertTaskTx K now' rand' [] r1 None d2 = Inr (t2, d3)" and r': "normalizeTaskIntent K r1 = Inr r'"
      using run2 unfolding CreateTask_Inr insertTaskTx_def bindE_Inr_iff by blast
    have "tr_key r' = tr_key q'"
      using normalizeTaskIntent_key [OF r'] normalizeRootRequest_key [OF r1] key same by simp
    with replayed_row [OF ok2 x(1) r'] x(2) k key ins2 show ?thesis
      by (auto split: if_splits)
  qed
  ultimately show ?thesis using x(1) by blast
qed

end
