(* ===== verification/Frames.thy ===== *)
theory Frames
  imports Leases
begin

text \<open>
  What the calls of the execution service leave alone: every table but its own, and the tasks that
  have succeeded. The other components use these facts to keep their invariants across its steps.
\<close>

subsection \<open>Tables\<close>

definition exec_only :: "db \<Rightarrow> db \<Rightarrow> bool" where
  "exec_only d d' \<longleftrightarrow>
     d' = d\<lparr>db_tasks := db_tasks d', db_attempts := db_attempts d', db_challenges := db_challenges d',
            db_failures := db_failures d', db_events := db_events d', db_manifests := db_manifests d'\<rparr>"

lemma exec_only_refl [simp]: "exec_only d d"
  by (simp add: exec_only_def)

lemma exec_only_update:
  "exec_only d (d\<lparr>db_tasks := a\<rparr>)" "exec_only d (d\<lparr>db_attempts := b\<rparr>)"
  "exec_only d (d\<lparr>db_attempts := b, db_tasks := a\<rparr>)"
  "exec_only d (d\<lparr>db_challenges := c, db_attempts := b, db_tasks := a\<rparr>)"
  "exec_only d (d\<lparr>db_failures := f, db_attempts := b, db_tasks := a\<rparr>)"
  by (simp_all add: exec_only_def)

lemma exec_only_event:
  assumes "append_event i t a ty det now d' = Inr d''" and "exec_only d d'"
  shows "exec_only d d''"
proof -
  obtain es where es: "d'' = d'\<lparr>db_events := es\<rparr>" using append_event_Inr [OF assms(1)] by blast
  show ?thesis
    unfolding exec_only_def es by (subst assms(2) [unfolded exec_only_def]) simp
qed

lemma insertTaskTx_only: "insertTaskTx K now rand parent q guard d = Inr (t, d') \<Longrightarrow> exec_only d d'"
  by (erule insertTaskTx_cases) (simp_all add: exec_only_update)

lemma exec_step_only: "exec_step d d' \<Longrightarrow> exec_only d d'"
proof (induction rule: exec_step.induct)
  case (step_create d K now rand q guard)
  show ?case unfolding CreateTaskWithGuard_def
    by (auto split: sum.split intro!: with_tx_invariant [where I = "exec_only d"] dest: insertTaskTx_only)
next
  case (step_child d K now rand p q)
  show ?case unfolding CreateChildTask_def
    by (auto split: sum.split intro!: with_tx_invariant [where I = "exec_only d"] dest: insertTaskTx_only)
next
  case (step_start d recorders E k executor duration)
  show ?case
  proof (cases "StartAttempt recorders E k executor duration d")
    case (Pair d' r)
    then show ?thesis
    proof (cases r)
      case (Inl e)
      then have "d' = d" using Pair by (auto simp: StartAttempt_def with_tx_Inl_iff Let_def split: if_splits)
      then show ?thesis using Pair by simp
    next
      case (Inr a)
      then show ?thesis using Pair by (auto elim!: StartAttempt_Inr simp: exec_only_def)
    qed
  qed
next
  case (step_renew d E k duration)
  show ?case unfolding RenewLease_def WithGuardedAttempt_def
    by (auto simp: bind_simps exec_only_update intro!: with_tx_invariant [where I = "exec_only d"])
next
  case (step_revoke d E k)
  show ?case unfolding RevokeLease_def Let_def
    by (rule with_tx_invariant [where I = "exec_only d"])
      (auto simp: bind_simps exec_only_update split: option.splits if_splits elim!: exec_only_event)
next
  case (step_fail d E k cls signature evidence)
  show ?case unfolding FailAttempt_def WithGuardedAttempt_def apply_failure_def Let_def
    by (auto simp: bind_simps intro!: with_tx_invariant [where I = "exec_only d"] exec_only_update elim!: exec_only_event)
next
  case (step_challenge d E k scope reason evidence)
  show ?case unfolding ChallengeTask_def Let_def
    by (cases "find_by t_id k (db_tasks d)")
      (auto simp: bind_simps exec_only_update intro!: with_tx_invariant [where I = "exec_only d"] elim!: exec_only_event)
qed

lemma exec_onlyD:
  assumes "exec_only d d'"
  shows "db_ops d' = db_ops d" "db_slots d' = db_slots d" "db_reservations d' = db_reservations d"
    "db_approvals d' = db_approvals d" "db_decisions d' = db_decisions d" "db_envelopes d' = db_envelopes d"
    "db_evidence d' = db_evidence d" "db_completions d' = db_completions d" "db_verifications d' = db_verifications d"
    "db_acceptances d' = db_acceptances d" "db_deps d' = db_deps d" "db_wakeups d' = db_wakeups d"
    "db_missions d' = db_missions d" "db_goals d' = db_goals d" "db_obligations d' = db_obligations d"
    "db_cases d' = db_cases d" "db_assessments d' = db_assessments d" "db_case_verifications d' = db_case_verifications d"
    "db_capabilities d' = db_capabilities d" "db_cap_assessments d' = db_cap_assessments d" "db_sessions d' = db_sessions d"
    "db_experience d' = db_experience d" "db_feedback d' = db_feedback d" "db_memory d' = db_memory d" "db_audit d' = db_audit d"
proof -
  obtain a b c f e m where
    "d' = d\<lparr>db_tasks := a, db_attempts := b, db_challenges := c, db_failures := f, db_events := e, db_manifests := m\<rparr>"
    using assms unfolding exec_only_def by blast
  then show "db_ops d' = db_ops d" "db_slots d' = db_slots d" "db_reservations d' = db_reservations d"
    "db_approvals d' = db_approvals d" "db_decisions d' = db_decisions d" "db_envelopes d' = db_envelopes d"
    "db_evidence d' = db_evidence d" "db_completions d' = db_completions d" "db_verifications d' = db_verifications d"
    "db_acceptances d' = db_acceptances d" "db_deps d' = db_deps d" "db_wakeups d' = db_wakeups d"
    "db_missions d' = db_missions d" "db_goals d' = db_goals d" "db_obligations d' = db_obligations d"
    "db_cases d' = db_cases d" "db_assessments d' = db_assessments d" "db_case_verifications d' = db_case_verifications d"
    "db_capabilities d' = db_capabilities d" "db_cap_assessments d' = db_cap_assessments d" "db_sessions d' = db_sessions d"
    "db_experience d' = db_experience d" "db_feedback d' = db_feedback d" "db_memory d' = db_memory d" "db_audit d' = db_audit d"
    by simp_all
qed

subsection \<open>Success\<close>

text \<open>No execution call lets a task succeed: that is for the verification service.\<close>

definition no_task_succeeds :: "task list \<Rightarrow> task list \<Rightarrow> bool" where
  "no_task_succeeds ts ts' \<longleftrightarrow> (\<forall>t' \<in> set ts'. t_state t' = TaskSucceeded \<longrightarrow>
     (\<exists>t \<in> set ts. t_id t = t_id t' \<and> t_state t = TaskSucceeded))"

lemma no_task_succeeds_refl [simp]: "no_task_succeeds ts ts"
  by (auto simp: no_task_succeeds_def)

lemma no_task_succeeds_update:
  assumes "\<And>t. P t \<Longrightarrow> t_id (f t) = t_id t \<and> (t_state (f t) = TaskSucceeded \<longrightarrow> t_state t = TaskSucceeded)"
  shows "no_task_succeeds ts (update_where P f ts)"
  using assms by (auto simp: no_task_succeeds_def set_update_where)

lemma no_task_succeeds_append: "t_state t \<noteq> TaskSucceeded \<Longrightarrow> no_task_succeeds ts (ts @ [t])"
  by (auto simp: no_task_succeeds_def)

lemma no_task_succeeds_event:
  "append_event i t a ty det now d' = Inr d'' \<Longrightarrow> no_task_succeeds ts (db_tasks d') \<Longrightarrow> no_task_succeeds ts (db_tasks d'')"
  using append_event_tables(1) by metis

lemma insertTaskTx_succeeds:
  "insertTaskTx K now rand parent q guard d = Inr (t, d') \<Longrightarrow> no_task_succeeds (db_tasks d) (db_tasks d')"
  by (erule insertTaskTx_cases) (simp_all add: no_task_succeeds_append)

lemma exec_step_succeeds: "exec_step d d' \<Longrightarrow> no_task_succeeds (db_tasks d) (db_tasks d')"
proof (induction rule: exec_step.induct)
  case (step_create d K now rand q guard)
  show ?case unfolding CreateTaskWithGuard_def
    by (auto split: sum.split dest: insertTaskTx_succeeds
        intro!: with_tx_invariant [where I = "\<lambda>d'. no_task_succeeds (db_tasks d) (db_tasks d')"])
next
  case (step_child d K now rand p q)
  show ?case unfolding CreateChildTask_def
    by (auto split: sum.split dest: insertTaskTx_succeeds
        intro!: with_tx_invariant [where I = "\<lambda>d'. no_task_succeeds (db_tasks d) (db_tasks d')"])
next
  case (step_start d recorders E k executor duration)
  show ?case
  proof (cases "StartAttempt recorders E k executor duration d")
    case (Pair d' r)
    then show ?thesis
    proof (cases r)
      case (Inl e)
      then have "d' = d" using Pair by (auto simp: StartAttempt_def with_tx_Inl_iff Let_def split: if_splits)
      then show ?thesis using Pair by simp
    next
      case (Inr a)
      then show ?thesis using Pair by (auto elim!: StartAttempt_Inr intro!: no_task_succeeds_update)
    qed
  qed
next
  case (step_renew d E k duration)
  show ?case unfolding RenewLease_def WithGuardedAttempt_def
    by (auto simp: bind_simps intro!: with_tx_invariant [where I = "\<lambda>d'. no_task_succeeds (db_tasks d) (db_tasks d')"])
next
  case (step_revoke d E k)
  show ?case unfolding RevokeLease_def Let_def
    by (rule with_tx_invariant [where I = "\<lambda>d'. no_task_succeeds (db_tasks d) (db_tasks d')"])
      (auto simp: bind_simps split: option.splits if_splits elim!: no_task_succeeds_event intro!: no_task_succeeds_update)
next
  case (step_fail d E k cls signature evidence)
  show ?case unfolding FailAttempt_def WithGuardedAttempt_def apply_failure_def Let_def
    by (auto simp: bind_simps elim!: no_task_succeeds_event
        intro!: with_tx_invariant [where I = "\<lambda>d'. no_task_succeeds (db_tasks d) (db_tasks d')"] no_task_succeeds_update)
next
  case (step_challenge d E k scope reason evidence)
  show ?case unfolding ChallengeTask_def Let_def
    by (cases "find_by t_id k (db_tasks d)")
      (auto simp: bind_simps elim!: no_task_succeeds_event
        intro!: with_tx_invariant [where I = "\<lambda>d'. no_task_succeeds (db_tasks d) (db_tasks d')"] no_task_succeeds_update)
qed

end
