(* ===== verification/Times.thy ===== *)
theory Times
  imports Prelude "HOL-Library.Product_Lexorder"
begin

text \<open>
  \<open>value.UTC ().Format (time.RFC3339Nano)\<close>: the text in which every service stores a time. Columns of
  times are kept as instants in the model; the text matters only where a statement compares or sorts
  these strings, because the layout drops trailing zeros of the fraction. The calendar is the
  proleptic Gregorian one of Go's \<open>time\<close> package, for the years 1 to 9999.
\<close>

fun digits :: "nat \<Rightarrow> int \<Rightarrow> string" where
  "digits 0 n = []"
| "digits (Suc w) n = digits w (n div 10) @ [char_of (48 + n mod 10)]"

definition leap_year :: "int \<Rightarrow> bool" where
  "leap_year y \<longleftrightarrow> y mod 4 = 0 \<and> (y mod 100 \<noteq> 0 \<or> y mod 400 = 0)"

definition month_lengths :: "bool \<Rightarrow> int list" where
  "month_lengths leap = [31, if leap then 29 else 28, 31, 30, 31, 30, 31, 31, 30, 31, 30, 31]"

fun month_day :: "int \<Rightarrow> int list \<Rightarrow> int \<Rightarrow> int \<times> int" where
  "month_day m [] day = (m, day + 1)"
| "month_day m (l # ls) day = (if day < l then (m, day + 1) else month_day (m + 1) ls (day - l))"

text \<open>Days since 1 January of year 1, split into cycles of 400, 100, 4 and 1 years.\<close>

definition civil :: "int \<Rightarrow> int \<times> int \<times> int" where
  "civil day =
     (let n400 = day div 146097; day = day mod 146097;
          n100 = min 3 (day div 36524); day = day - n100 * 36524;
          n4 = day div 1461; day = day mod 1461;
          n1 = min 3 (day div 365); day = day - n1 * 365;
          y = 400 * n400 + 100 * n100 + 4 * n4 + n1 + 1;
          md = month_day 1 (month_lengths (leap_year y)) day in
      (y, fst md, snd md))"

definition trim_zeros :: "string \<Rightarrow> string" where
  "trim_zeros s = rev (dropWhile (\<lambda>c. c = CHR ''0'') (rev s))"

definition fraction :: "int \<Rightarrow> string" where
  "fraction ns = (if ns = 0 then [] else CHR ''.'' # trim_zeros (digits 9 ns))"

text \<open>The text up to the second, then the fraction without its trailing zeros, then the zone.\<close>

definition second_text :: "int \<Rightarrow> string" where
  "second_text s =
     (let ymd = civil (s div 86400); r = s mod 86400 in
      digits 4 (fst ymd) @ ''-'' @ digits 2 (fst (snd ymd)) @ ''-'' @ digits 2 (snd (snd ymd)) @ ''T'' @
      digits 2 (r div 3600) @ '':'' @ digits 2 (r div 60 mod 60) @ '':'' @ digits 2 (r mod 60))"

definition formatTime :: "gtime \<Rightarrow> string" where
  "formatTime t = second_text (t div 1000000000) @ fraction (t mod 1000000000) @ ''Z''"

lemma formatTime_sample: "formatTime (63890208000 * 1000000000 + 500000000) = ''2025-08-08T00:00:00.5Z''"
  by code_simp

lemma less_append_same: "p @ x < p @ (y :: 'a::linorder list) \<longleftrightarrow> x < y"
  by (induction p) simp_all

text \<open>The order of the texts is not the order of the times: a whole second comes after its fractions.\<close>

lemma formatTime_whole_second:
  assumes "t mod 1000000000 = 0" and "t < t'" and "t' < t + 1000000000"
  shows "formatTime t' < formatTime t"
proof -
  define m :: int where "m = 1000000000"
  have t: "t = (t div m) * m" using assms(1) by (metis m_def add.right_neutral div_mult_mod_eq)
  then have t': "t' = (t' - t) + (t div m) * m" "0 < t' - t" "t' - t < m"
    using assms by (simp_all add: m_def)
  have "t' div m = t div m" and "t' mod m = t' - t"
    by (subst t'(1), use t'(2,3) in simp)+
  then have eq: "t' div 1000000000 = t div 1000000000" and pos: "t' mod 1000000000 \<noteq> 0"
    using t'(2) by (simp_all add: m_def)
  have "fraction (t' mod 1000000000) @ ''Z'' < fraction (t mod 1000000000) @ ''Z''"
    unfolding assms(1) fraction_def if_not_P [OF pos] if_P [OF refl]
    by (simp add: less_char_def)
  then show ?thesis
    unfolding formatTime_def eq less_append_same .
qed

subsection \<open>The texts of distinct seconds are ordered as the times are\<close>

lemma less_append: "length p = length q \<Longrightarrow> p < q \<Longrightarrow> p @ x < q @ (y :: 'a::linorder list)"
  by (induction p q rule: list_induct2) auto

lemma length_digits [simp]: "length (digits w n) = w"
  by (induction w n rule: digits.induct) simp_all

lemma char_of_digit_less:
  assumes "0 \<le> m" and "m < n" and "n < (10 :: int)"
  shows "(char_of (48 + m) :: char) < char_of (48 + n)"
proof -
  have "c < d" if "(of_char c :: int) < of_char d" for c d :: char
    using that unfolding less_char_def of_nat_of_char [where ?'a = int, symmetric] by (simp only: of_nat_less_iff)
  then show ?thesis using assms by simp
qed

lemma div_mod_less: "m < n \<Longrightarrow> 0 < k \<Longrightarrow> m div k < n div k \<or> m div k = n div k \<and> m mod k < n mod (k :: int)"
proof -
  assume "m < n" "0 < k"
  then have "m div k \<le> n div k" by (simp add: zdiv_mono1)
  then show ?thesis using \<open>m < n\<close> by (metis div_mod_decomp_int add_less_cancel_left order_le_less)
qed

lemma digits_less: "0 \<le> n \<Longrightarrow> n < n' \<Longrightarrow> n' < 10 ^ w \<Longrightarrow> digits w n < digits w n'"
proof (induction w arbitrary: n n')
  case (Suc w)
  show ?case
  proof (cases "n div 10 < n' div 10")
    case True
    have "n' div 10 < 10 ^ w" using Suc.prems(3) by simp
    with Suc.IH [of "n div 10" "n' div 10"] True Suc.prems(1) show ?thesis by (simp add: less_append)
  next
    case False
    then have "n div 10 = n' div 10 \<and> n mod 10 < n' mod 10" using div_mod_less [OF Suc.prems(2), of 10] by simp
    then show ?thesis by (simp add: less_append_same char_of_digit_less)
  qed
qed simp

text \<open>A field of fixed width decides unless it is equal, when the rest does.\<close>

lemma digits_then:
  assumes "0 \<le> n" and "n' < 10 ^ w" and "n < n' \<or> n = n' \<and> x < y"
  shows "digits w n @ x < digits w n' @ y"
  using assms digits_less [of n n' w] by (auto simp: less_append less_append_same)

lemma month_day_less: "day < day' \<Longrightarrow> fst (month_day m ls day) < fst (month_day m ls day') \<or>
    fst (month_day m ls day) = fst (month_day m ls day') \<and> snd (month_day m ls day) < snd (month_day m ls day')"
proof (induction ls arbitrary: m day day')
  case (Cons l ls)
  have ge: "k \<le> fst (month_day k xs x)" for k xs x
    by (induction k xs x rule: month_day.induct) auto
  show ?case using Cons.IH [of "day - l" "day' - l" "m + 1"] Cons.prems ge [of "m + 1" ls "day' - l"] by auto
qed simp

lemma month_day_range:
  assumes "0 \<le> day" and "day < sum_list ls + 31" and "\<forall>l \<in> set ls. l \<le> 31"
  shows "m \<le> fst (month_day m ls day) \<and> fst (month_day m ls day) \<le> m + int (length ls) \<and>
    1 \<le> snd (month_day m ls day) \<and> snd (month_day m ls day) \<le> 31"
  using assms by (induction m ls day rule: month_day.induct) auto

text \<open>The year of a day and the days since the start of that year.\<close>

definition calendar_year :: "int \<Rightarrow> int \<times> int" where
  "calendar_year day =
     (let n400 = day div 146097; r400 = day mod 146097; n100 = min 3 (r400 div 36524); r100 = r400 - n100 * 36524;
          n4 = r100 div 1461; r4 = r100 mod 1461; n1 = min 3 (r4 div 365) in
      (400 * n400 + 100 * n100 + 4 * n4 + n1 + 1, r4 - n1 * 365))"

lemma civil_calendar_year:
  "civil day = (fst (calendar_year day), month_day 1 (month_lengths (leap_year (fst (calendar_year day)))) (snd (calendar_year day)))"
  by (simp only: civil_def calendar_year_def Let_def fst_conv snd_conv prod.collapse)

lemma calendar_year_parts:
  obtains a b c e r where "calendar_year day = (400 * a + 100 * b + 4 * c + e + 1, r)"
    "day = 146097 * a + 36524 * b + 1461 * c + 365 * e + r" "0 \<le> b" "b \<le> 3" "0 \<le> c" "c \<le> 24" "0 \<le> e" "e \<le> 3" "0 \<le> r" "r \<le> 365"
    "b < 3 \<longrightarrow> 1461 * c + 365 * e + r < 36524" "e < 3 \<longrightarrow> r < 365"
proof -
  define a where "a = day div 146097"
  define r1 where "r1 = day mod 146097"
  define b where "b = min 3 (r1 div 36524)"
  define r2 where "r2 = r1 - b * 36524"
  define c where "c = r2 div 1461"
  define r3 where "r3 = r2 mod 1461"
  define e where "e = min 3 (r3 div 365)"
  define r where "r = r3 - e * 365"
  have day: "day = 146097 * a + r1" and r1: "0 \<le> r1" "r1 < 146097" by (simp_all add: a_def r1_def)
  have b: "0 \<le> b" "b \<le> 3" "b < 3 \<longrightarrow> r2 < 36524" "0 \<le> r2" "r2 < 36525"
    using r1 unfolding b_def r2_def min_def by (auto simp: minus_div_mult_eq_mod split: if_splits)
  have c: "r2 = 1461 * c + r3" "0 \<le> r3" "r3 < 1461" "0 \<le> c" "c \<le> 24"
    using b(4,5) by (simp_all add: c_def r3_def pos_imp_zdiv_nonneg_iff)
  have e: "0 \<le> e" "e \<le> 3" "e < 3 \<longrightarrow> r < 365" "0 \<le> r" "r \<le> 365"
    using c(2,3) unfolding e_def r_def min_def by (auto simp: minus_div_mult_eq_mod pos_imp_zdiv_nonneg_iff split: if_splits)
  have "calendar_year day = (400 * a + 100 * b + 4 * c + e + 1, r)"
    by (simp add: calendar_year_def Let_def a_def r1_def b_def r2_def c_def r3_def e_def r_def)
  moreover have "day = 146097 * a + 36524 * b + 1461 * c + 365 * e + r"
    using day c(1) unfolding r2_def r_def by simp
  moreover have "b < 3 \<longrightarrow> 1461 * c + 365 * e + r < 36524" using b(3) c(1) unfolding r_def by simp
  ultimately show thesis using that b(1,2) c(4,5) e by blast
qed

lemma calendar_year_less:
  assumes "d < d'"
  shows "calendar_year d < calendar_year d'"
proof -
  obtain a b c e r where p: "calendar_year d = (400 * a + 100 * b + 4 * c + e + 1, r)"
    "d = 146097 * a + 36524 * b + 1461 * c + 365 * e + r" "0 \<le> b" "b \<le> 3" "0 \<le> c" "c \<le> 24" "0 \<le> e" "e \<le> 3" "0 \<le> r" "r \<le> 365"
    "b < 3 \<longrightarrow> 1461 * c + 365 * e + r < 36524" "e < 3 \<longrightarrow> r < 365" by (rule calendar_year_parts)
  obtain a' b' c' e' r' where p': "calendar_year d' = (400 * a' + 100 * b' + 4 * c' + e' + 1, r')"
    "d' = 146097 * a' + 36524 * b' + 1461 * c' + 365 * e' + r'" "0 \<le> b'" "b' \<le> 3" "0 \<le> c'" "c' \<le> 24" "0 \<le> e'" "e' \<le> 3" "0 \<le> r'" "r' \<le> 365"
    "b' < 3 \<longrightarrow> 1461 * c' + 365 * e' + r' < 36524" "e' < 3 \<longrightarrow> r' < 365" by (rule calendar_year_parts)
  have "a \<le> a'" using assms p(2-11) p'(2-11) by linarith
  moreover have "b \<le> b'" if "a = a'" using that assms p(2-11) p'(2-11) by linarith
  moreover have "c \<le> c'" if "a = a'" "b = b'" using that assms p(2-12) p'(2-12) by linarith
  moreover have "e \<le> e'" if "a = a'" "b = b'" "c = c'" using that assms p(2-12) p'(2-12) by linarith
  moreover have "r < r'" if "a = a'" "b = b'" "c = c'" "e = e'" using that assms p(2) p'(2) by linarith
  ultimately show ?thesis using p(1,3-8) p'(1,3-8) by (auto simp: less_prod_def')
qed

lemma civil_less: "d < d' \<Longrightarrow> civil d < civil d'"
  using calendar_year_less [of d d'] month_day_less unfolding civil_calendar_year by (fastforce simp: less_prod_def')

text \<open>The first instant of the year 10000, which no longer has a text of four digits.\<close>

definition year_10000 :: gtime where
  "year_10000 = 3652059 * 86400 * 1000000000"

lemma civil_range:
  assumes "0 \<le> day" and "day < 3652059"
  obtains y m d where "civil day = (y, m, d)" "1 \<le> y" "y < 10 ^ 4" "0 \<le> m" "m < 10 ^ 2" "0 \<le> d" "d < 10 ^ 2"
proof -
  obtain y r where y: "calendar_year day = (y, r)" by fastforce
  obtain a b c e r' where parts: "calendar_year day = (400 * a + 100 * b + 4 * c + e + 1, r')"
    "day = 146097 * a + 36524 * b + 1461 * c + 365 * e + r'" "0 \<le> b" "b \<le> 3" "0 \<le> c" "c \<le> 24" "0 \<le> e" "e \<le> 3" "0 \<le> r'" "r' \<le> 365"
    by (rule calendar_year_parts) blast
  have r: "0 \<le> r" "r \<le> 365" using parts(1,9,10) y by simp_all
  have "calendar_year day < calendar_year 3652059" using assms(2) by (rule calendar_year_less)
  moreover have "calendar_year 3652059 = (10000, 0)" by code_simp
  ultimately have "y < 10 ^ 4" using r y by (auto simp: less_prod_def')
  moreover have "1 \<le> y"
  proof -
    have "0 \<le> a" using parts(2,4,6,8,10) assms(1) by linarith
    then show ?thesis using parts(1,3,5,7) y by simp
  qed
  moreover have "r < sum_list (month_lengths (leap_year y)) + 31" "\<forall>l \<in> set (month_lengths (leap_year y)). l \<le> 31"
    "length (month_lengths (leap_year y)) = 12" using r by (simp_all add: month_lengths_def)
  ultimately show thesis
    using that [of y "fst (month_day 1 (month_lengths (leap_year y)) r)" "snd (month_day 1 (month_lengths (leap_year y)) r)"]
      month_day_range [of r "month_lengths (leap_year y)" 1] r(1) y by (simp add: civil_calendar_year)
qed

lemma length_second_text: "length (second_text s) = 19"
  by (simp add: second_text_def Let_def)

lemma fields_less:
  assumes "0 \<le> n1" "n1' < 10 ^ w1" "0 \<le> n2" "n2' < 10 ^ w2" "0 \<le> n3" "n3' < 10 ^ w3"
    and "n1 < n1' \<or> n1 = n1' \<and> (n2 < n2' \<or> n2 = n2' \<and> (n3 < n3' \<or> n3 = n3' \<and> x < x'))"
  shows "digits w1 n1 @ s @ digits w2 n2 @ u @ digits w3 n3 @ x < digits w1 n1' @ s @ digits w2 n2' @ u @ digits w3 n3' @ x'"
  using assms by (auto simp: less_append_same intro!: digits_then)

lemma second_text_less:
  assumes "0 \<le> s" and "s < s'" and "s' < 3652059 * 86400"
  shows "second_text s < second_text s'"
proof -
  have days: "0 \<le> s div 86400" "s div 86400 < 3652059" "0 \<le> s' div 86400" "s' div 86400 < 3652059"
    using assms by (simp_all add: pos_imp_zdiv_nonneg_iff)
  obtain y m d where c: "civil (s div 86400) = (y, m, d)" "1 \<le> y" "y < 10 ^ 4" "0 \<le> m" "m < 10 ^ 2" "0 \<le> d" "d < 10 ^ 2"
    using days(1,2) by (rule civil_range)
  obtain y' m' d' where c': "civil (s' div 86400) = (y', m', d')" "1 \<le> y'" "y' < 10 ^ 4" "0 \<le> m'" "m' < 10 ^ 2" "0 \<le> d'" "d' < 10 ^ 2"
    using days(3,4) by (rule civil_range)
  define r where "r = s mod 86400"
  define r' where "r' = s' mod 86400"
  have r: "0 \<le> r" "r < 86400" "0 \<le> r'" "r' < 86400" by (simp_all add: r_def r'_def)
  have order: "civil (s div 86400) < civil (s' div 86400) \<or> civil (s div 86400) = civil (s' div 86400) \<and> r < r'"
    using div_mod_less [OF assms(2), of 86400] civil_less by (auto simp: r_def r'_def)
  have hours: "x div 3600 = x div 60 div 60" for x :: int by (simp flip: zdiv_zmult2_eq)
  have clock: "r div 3600 < r' div 3600 \<or> r div 3600 = r' div 3600 \<and> (r div 60 mod 60 < r' div 60 mod 60 \<or>
      r div 60 mod 60 = r' div 60 mod 60 \<and> r mod 60 < r' mod 60)" if "r < r'"
    using div_mod_less [OF that, of 60] div_mod_less [of "r div 60" "r' div 60" 60] unfolding hours by auto
  have bounds: "0 \<le> r div 3600" "r' div 3600 < 10 ^ 2" "0 \<le> r div 60 mod 60" "r' div 60 mod 60 < 10 ^ 2" "0 \<le> r mod 60" "r' mod 60 < 10 ^ 2"
    using r pos_mod_bound [of 60 "r' div 60"] pos_mod_bound [of 60 r'] by (simp_all add: pos_imp_zdiv_nonneg_iff)
  have whole: "second_text s = digits 4 y @ ''-'' @ digits 2 m @ ''-'' @ digits 2 d @
      ''T'' @ digits 2 (r div 3600) @ '':'' @ digits 2 (r div 60 mod 60) @ '':'' @ digits 2 (r mod 60)"
    by (simp only: second_text_def Let_def c(1) fst_conv snd_conv r_def)
  have whole': "second_text s' = digits 4 y' @ ''-'' @ digits 2 m' @ ''-'' @ digits 2 d' @
      ''T'' @ digits 2 (r' div 3600) @ '':'' @ digits 2 (r' div 60 mod 60) @ '':'' @ digits 2 (r' mod 60)"
    by (simp only: second_text_def Let_def c'(1) fst_conv snd_conv r'_def)
  have "y < y' \<or> y = y' \<and> (m < m' \<or> m = m' \<and> (d < d' \<or> d = d' \<and> r < r'))"
    using order unfolding c(1) c'(1) by (auto simp: less_prod_def')
  moreover have "digits 2 (r div 3600) @ '':'' @ digits 2 (r div 60 mod 60) @ '':'' @ digits 2 (r mod 60) @ [] <
      digits 2 (r' div 3600) @ '':'' @ digits 2 (r' div 60 mod 60) @ '':'' @ digits 2 (r' mod 60) @ []" if "r < r'"
    using clock [OF that] by (intro fields_less bounds) blast
  ultimately have "y < y' \<or> y = y' \<and> (m < m' \<or> m = m' \<and> (d < d' \<or> d = d' \<and>
      ''T'' @ digits 2 (r div 3600) @ '':'' @ digits 2 (r div 60 mod 60) @ '':'' @ digits 2 (r mod 60) <
      ''T'' @ digits 2 (r' div 3600) @ '':'' @ digits 2 (r' div 60 mod 60) @ '':'' @ digits 2 (r' mod 60)))"
    by (simp only: less_append_same append_Nil2) blast
  moreover have "0 \<le> y" using c(2) by simp
  ultimately show ?thesis unfolding whole whole' using c(4,6) c'(3,5,7) by (intro fields_less)
qed

lemma trim_zeros_inj: "length s = length s' \<Longrightarrow> trim_zeros s = trim_zeros s' \<Longrightarrow> s = s'"
proof -
  have rest: "xs = takeWhile P xs @ dropWhile P xs \<and> takeWhile P xs = replicate (length (takeWhile P xs)) c"
    if "P = (\<lambda>x. x = c)" for P xs and c :: char
    unfolding that by (induction xs) auto
  assume len: "length s = length s'" and eq: "trim_zeros s = trim_zeros s'"
  let ?P = "\<lambda>c. c = CHR ''0''"
  from eq have drop: "dropWhile ?P (rev s) = dropWhile ?P (rev s')" by (simp add: trim_zeros_def)
  then have "length (takeWhile ?P (rev s)) = length (takeWhile ?P (rev s'))"
    using len by (metis add_right_cancel length_append length_rev takeWhile_dropWhile_id)
  then have "takeWhile ?P (rev s) = takeWhile ?P (rev s')" using rest [of ?P _ "rev s"] rest [of ?P _ "rev s'"] by metis
  with drop show ?thesis by (metis rev_rev_ident takeWhile_dropWhile_id)
qed

lemma fraction_inj:
  assumes "0 \<le> n" "n < 10 ^ 9" "0 \<le> n'" "n' < 10 ^ 9" and "fraction n = fraction n'"
  shows "n = n'"
proof -
  have "n = n'" if "digits 9 n = digits 9 n'"
    using that digits_less [of n n' 9] digits_less [of n' n 9] assms(1-4) by (cases n n' rule: linorder_cases) auto
  then show ?thesis using assms(5) trim_zeros_inj [of "digits 9 n" "digits 9 n'"] by (auto simp: fraction_def split: if_splits)
qed

text \<open>A text determines its time, and the texts of distinct seconds are ordered as their times are.\<close>

lemma formatTime_seconds:
  assumes "0 \<le> t" and "t' < year_10000" and "t div 1000000000 < t' div 1000000000"
  shows "formatTime t < formatTime t'"
proof -
  have "t' div 1000000000 < 3652059 * 86400" using assms(2) by (simp add: year_10000_def)
  moreover have "0 \<le> t div 1000000000" using assms(1) by (simp add: pos_imp_zdiv_nonneg_iff)
  ultimately show ?thesis
    using second_text_less [OF _ assms(3)] by (simp add: formatTime_def less_append length_second_text)
qed

lemma formatTime_inj:
  assumes "0 \<le> t" "t < year_10000" "0 \<le> t'" "t' < year_10000" and "formatTime t = formatTime t'"
  shows "t = t'"
proof -
  have "\<not> t div 1000000000 < t' div 1000000000" "\<not> t' div 1000000000 < t div 1000000000"
    using formatTime_seconds assms by force+
  then have second: "t div 1000000000 = t' div 1000000000" by simp
  then have "fraction (t mod 1000000000) = fraction (t' mod 1000000000)" using assms(5) by (simp add: formatTime_def)
  then have "t mod 1000000000 = t' mod 1000000000" by (intro fraction_inj) simp_all
  with second show ?thesis by (metis div_mult_mod_eq)
qed

subsection \<open>Property\<close>

text \<open>
  C39. What the statements that compare stored times may rely on: up to the year 9999 two times have the same text exactly if they are
  equal, and times of distinct seconds compare as their texts do. (Within a second they need not, as \<open>formatTime_whole_second\<close>
  shows.)
\<close>

theorem stored_times_compare:
  assumes "0 \<le> t" "t < year_10000" "0 \<le> t'" "t' < year_10000"
  shows "(formatTime t = formatTime t' \<longleftrightarrow> t = t') \<and>
    (t div 1000000000 \<noteq> t' div 1000000000 \<longrightarrow> (formatTime t < formatTime t' \<longleftrightarrow> t < t'))"
proof -
  have "formatTime a < formatTime b \<and> a < b" if "0 \<le> a" "b < year_10000" "a div 1000000000 < b div 1000000000" for a b
    using formatTime_seconds [OF that] that(3) by (meson leD leI zdiv_mono1 zero_less_numeral)
  from this [of t t'] this [of t' t] show ?thesis
    using formatTime_inj [OF assms] assms by (cases "t div 1000000000" "t' div 1000000000" rule: linorder_cases) auto
qed

lemma stored_times_compare_witness:
  "formatTime 999999999 < formatTime 1000000000 \<and> formatTime 500000000 \<noteq> formatTime 550000000"
  using stored_times_compare [of 999999999 1000000000] stored_times_compare [of 500000000 550000000]
  by (simp add: year_10000_def)

end
