(* ===== verification/Evidence.thy ===== *)
theory Evidence
  imports Frames Times
begin

text \<open>
  The evidence store (\<open>internal/evidence/store.go\<close>): blobs kept under the SHA-256 of their content and
  rows that name them. The digest in hexadecimal is an argument, the directory of blobs a map from
  hashes to contents; failures of the file system itself are not modelled.
\<close>

subsection \<open>Blobs and rows\<close>

type_synonym blobs = "string \<Rightarrow> string option"

record evidence_store =
  es_db :: db
  es_blobs :: blobs

definition ErrEvidenceNotFound :: go_error where
  "ErrEvidenceNotFound = Err ''evidence not found''"

definition ErrEvidenceCorrupt :: go_error where
  "ErrEvidenceCorrupt = Err ''evidence corrupt''"

definition verifyHash :: "(string \<Rightarrow> string) \<Rightarrow> string \<Rightarrow> string \<Rightarrow> unit res" where
  "verifyHash sha content expected = requireE (sha content = expected) ErrEvidenceCorrupt"

text \<open>A staged content moves to its hash, or is dropped when an intact blob of that size is there.\<close>

definition persistBlob :: "(string \<Rightarrow> string) \<Rightarrow> string \<Rightarrow> string \<Rightarrow> blobs \<Rightarrow> blobs res" where
  "persistBlob sha staged expected bs =
     (case bs expected of
        Some old \<Rightarrow>
          bindE (requireE (length old = length staged) (Err ''existing evidence blob size mismatch'')) (\<lambda>_.
          bindE (verifyHash sha old expected) (\<lambda>_. Inr bs))
      | None \<Rightarrow> bindE (verifyHash sha staged expected) (\<lambda>_. Inr (bs(expected \<mapsto> staged))))"

definition evidence_row_of :: "(string \<Rightarrow> string) \<Rightarrow> gtime \<Rightarrow> string \<Rightarrow> string \<Rightarrow> string \<Rightarrow> string \<Rightarrow> evidence_row" where
  "evidence_row_of sha now rand content media kind =
     \<lparr>evi_id = NewID ''evidence'' rand, evi_hash = sha content, evi_media = trim_space media,
      evi_kind = trim_space kind, evi_size = int (length content), evi_created = now\<rparr>"

definition Put ::
  "(string \<Rightarrow> string) \<Rightarrow> gtime \<Rightarrow> string \<Rightarrow> string \<Rightarrow> string \<Rightarrow> string \<Rightarrow> evidence_store \<Rightarrow>
   evidence_store \<times> evidence_row res" where
  "Put sha now rand content media kind s =
     (if trim_space media = [] \<or> trim_space kind = []
      then (s, Inl (Err ''evidence media type and kind are required''))
      else case persistBlob sha content (sha content) (es_blobs s) of
        Inl e \<Rightarrow> (s, Inl e)
      | Inr bs \<Rightarrow>
          let r = evidence_row_of sha now rand content media kind; s1 = s\<lparr>es_blobs := bs\<rparr> in
          (case insert_unique evi_id r (db_evidence (es_db s)) of
             Inl e \<Rightarrow> (s1, Inl e)
           | Inr rows \<Rightarrow> (s1\<lparr>es_db := (es_db s)\<lparr>db_evidence := rows\<rparr>\<rparr>, Inr r)))"

definition hex_char :: "char \<Rightarrow> bool" where
  "hex_char c \<longleftrightarrow> c \<in> set ''0123456789abcdefABCDEF''"

definition Get_evidence :: "(string \<Rightarrow> string) \<Rightarrow> ID \<Rightarrow> evidence_store \<Rightarrow> (evidence_row \<times> string) res" where
  "Get_evidence sha k s =
     (case find_by evi_id k (db_evidence (es_db s)) of
        None \<Rightarrow> Inl ErrEvidenceNotFound
      | Some r \<Rightarrow>
          bindE (requireE (length (evi_hash r) = 64) ErrEvidenceCorrupt) (\<lambda>_.
          bindE (requireE (list_all hex_char (evi_hash r)) ErrEvidenceCorrupt) (\<lambda>_.
          case es_blobs s (evi_hash r) of
            None \<Rightarrow> Inl ErrEvidenceCorrupt
          | Some content \<Rightarrow> bindE (verifyHash sha content (evi_hash r)) (\<lambda>_. Inr (r, content)))))"

definition FindByContentHash ::
  "(string \<Rightarrow> string) \<Rightarrow> string \<Rightarrow> string \<Rightarrow> evidence_store \<Rightarrow> evidence_row option res" where
  "FindByContentHash sha content_hash kind s =
     (let h = trim_space content_hash; kind = trim_space kind in
      bindE (requireE (h \<noteq> [] \<and> kind \<noteq> []) (Err ''content hash and kind are required'')) (\<lambda>_.
      case sort_key (\<lambda>r. (formatTime (evi_created r), evi_id r))
             (filter (\<lambda>r. evi_hash r = h \<and> evi_kind r = kind) (db_evidence (es_db s))) of
        [] \<Rightarrow> Inr None
      | r # rs \<Rightarrow> bindE (Get_evidence sha (evi_id r) s) (\<lambda>x. Inr (Some (fst x)))))"

subsection \<open>What a put leaves\<close>

lemma persistBlob_Inr:
  "persistBlob sha staged h bs = Inr bs' \<Longrightarrow> \<exists>c. bs' h = Some c \<and> sha c = h \<and> length c = length staged \<and>
     (\<forall>j. bs j \<noteq> None \<longrightarrow> bs' j = bs j) \<and> (bs h = None \<longrightarrow> c = staged) \<and> (bs h \<noteq> None \<longrightarrow> bs h = Some c)"
  by (auto simp: persistBlob_def verifyHash_def bind_simps split: option.splits)

lemma Put_Inr:
  assumes "Put sha now rand content media kind s = (s', Inr r)"
  obtains bs where "persistBlob sha content (sha content) (es_blobs s) = Inr bs"
    "r = evidence_row_of sha now rand content media kind" "evi_id r \<notin> evi_id ` set (db_evidence (es_db s))"
    "s' = s\<lparr>es_blobs := bs, es_db := (es_db s)\<lparr>db_evidence := db_evidence (es_db s) @ [r]\<rparr>\<rparr>"
    "trim_space media \<noteq> []" "trim_space kind \<noteq> []"
  using assms
  by (auto simp: Put_def Let_def insert_unique_Inr_iff split: if_splits sum.splits)

text \<open>Every call leaves the rows it found and the blobs that were there.\<close>

definition evidence_le :: "evidence_store \<Rightarrow> evidence_store \<Rightarrow> bool" where
  "evidence_le s s' \<longleftrightarrow> (\<exists>new. db_evidence (es_db s') = db_evidence (es_db s) @ new) \<and>
     (\<forall>h. es_blobs s h \<noteq> None \<longrightarrow> es_blobs s' h = es_blobs s h)"

lemma evidence_le_refl [simp]: "evidence_le s s"
  by (simp add: evidence_le_def)

lemma evidence_le_trans: "evidence_le s t \<Longrightarrow> evidence_le t u \<Longrightarrow> evidence_le s u"
  by (auto simp: evidence_le_def)

lemma Put_le: "evidence_le s (fst (Put sha now rand content media kind s))"
proof (cases "persistBlob sha content (sha content) (es_blobs s)")
  case (Inl e)
  then show ?thesis by (simp add: Put_def)
next
  case (Inr bs)
  then have "\<forall>j. es_blobs s j \<noteq> None \<longrightarrow> bs j = es_blobs s j" using persistBlob_Inr by blast
  with Inr show ?thesis
    by (auto simp: Put_def Let_def evidence_le_def insert_unique_Inr_iff split: sum.split)
qed

definition evidence_step :: "(string \<Rightarrow> string) \<Rightarrow> evidence_store \<Rightarrow> evidence_store \<Rightarrow> bool" where
  "evidence_step sha s s' \<longleftrightarrow>
     (\<exists>now rand content media kind. s' = fst (Put sha now rand content media kind s))"

lemma evidence_steps_le: "(evidence_step sha)\<^sup>*\<^sup>* s s' \<Longrightarrow> evidence_le s s'"
  by (induction rule: rtranclp_induct) (auto simp: evidence_step_def intro: evidence_le_trans Put_le)

lemma Get_evidence_Inr:
  "Get_evidence sha k s = Inr (r, c) \<longleftrightarrow>
   find_by evi_id k (db_evidence (es_db s)) = Some r \<and> length (evi_hash r) = 64 \<and> list_all hex_char (evi_hash r) \<and>
   es_blobs s (evi_hash r) = Some c \<and> sha c = evi_hash r"
  by (auto simp: Get_evidence_def bind_simps verifyHash_def split: option.splits)

lemma Get_evidence_le:
  assumes "evidence_le s s'" and "Get_evidence sha k s = Inr x"
  shows "Get_evidence sha k s' = Inr x"
  using assms by (cases x) (auto simp: Get_evidence_Inr evidence_le_def find_by_append)

lemma FindByContentHash_Inr:
  assumes "FindByContentHash sha h kind s = Inr (Some r)" and "distinct (map evi_id (db_evidence (es_db s)))"
  shows "evi_hash r = trim_space h \<and> evi_kind r = trim_space kind \<and> (\<exists>c. Get_evidence sha (evi_id r) s = Inr (r, c))"
proof -
  let ?rows = "filter (\<lambda>r. evi_hash r = trim_space h \<and> evi_kind r = trim_space kind) (db_evidence (es_db s))"
  obtain r0 rs c where r0: "sort_key (\<lambda>r. (formatTime (evi_created r), evi_id r)) ?rows = r0 # rs"
    and get: "Get_evidence sha (evi_id r0) s = Inr (r, c)"
    using assms(1) by (auto simp: FindByContentHash_def Let_def bind_simps split: list.splits)
  have "set (r0 # rs) = set ?rows" unfolding r0 [symmetric] by (rule set_sort)
  then have "r0 \<in> set ?rows" by (metis list.set_intros(1))
  then have "r0 \<in> set (db_evidence (es_db s))" "evi_hash r0 = trim_space h" "evi_kind r0 = trim_space kind"
    by simp_all
  moreover have "r = r0"
    using get find_by_member [OF assms(2) calculation(1)] by (simp add: Get_evidence_Inr)
  ultimately show ?thesis using get by blast
qed

subsection \<open>Properties\<close>

text \<open>
  C31. Evidence reads back. What \<open>Put\<close> stored is what \<open>Get\<close> returns in every later state of the store,
  under the identifier that \<open>Put\<close> returned: the same row, and a content with the hash and the size of
  the one that was put, the very same one if the digest is injective on what the store holds.
\<close>

theorem evidence_reads_back:
  assumes "Put sha now rand content media kind s = (s', Inr r)" and "(evidence_step sha)\<^sup>*\<^sup>* s' s2"
    and "length (sha content) = 64" and "list_all hex_char (sha content)"
  shows "\<exists>c. Get_evidence sha (evi_id r) s2 = Inr (r, c) \<and> sha c = sha content \<and>
    evi_hash r = sha content \<and> evi_size r = int (length c) \<and> length c = length content \<and>
    ((\<forall>old. es_blobs s (sha content) = Some old \<longrightarrow> sha old = sha content \<longrightarrow> old = content) \<longrightarrow> c = content)"
proof -
  from assms(1) obtain bs where bs: "persistBlob sha content (sha content) (es_blobs s) = Inr bs"
    and r: "r = evidence_row_of sha now rand content media kind" "evi_id r \<notin> evi_id ` set (db_evidence (es_db s))"
    and s': "s' = s\<lparr>es_blobs := bs, es_db := (es_db s)\<lparr>db_evidence := db_evidence (es_db s) @ [r]\<rparr>\<rparr>"
    by (rule Put_Inr)
  obtain c where c: "bs (sha content) = Some c" "sha c = sha content" "length c = length content"
    "es_blobs s (sha content) = None \<longrightarrow> c = content"
    "es_blobs s (sha content) \<noteq> None \<longrightarrow> es_blobs s (sha content) = Some c"
    using persistBlob_Inr [OF bs] by (elim exE conjE) (rule that)
  have "find_by evi_id (evi_id r) (db_evidence (es_db s')) = Some r"
    using r(2) by (simp add: s' find_by_insert_new)
  moreover have "evi_hash r = sha content" "evi_size r = int (length content)"
    by (simp_all add: r evidence_row_of_def)
  ultimately have "Get_evidence sha (evi_id r) s' = Inr (r, c)"
    using c assms(3,4) by (simp add: Get_evidence_def s' verifyHash_def)
  then have "Get_evidence sha (evi_id r) s2 = Inr (r, c)"
    using Get_evidence_le evidence_steps_le [OF assms(2)] by blast
  with c \<open>evi_hash r = sha content\<close> \<open>evi_size r = int (length content)\<close> show ?thesis
    by (cases "es_blobs s (sha content)") simp_all
qed

definition demo_sha :: "string \<Rightarrow> string" where
  "demo_sha s = take 64 (map (\<lambda>c. if c = CHR ''x'' then CHR ''1'' else CHR ''a'') s @ replicate 64 CHR ''0'')"

definition demo_evidence :: evidence_store where
  "demo_evidence = \<lparr>es_db = empty_db, es_blobs = Map.empty\<rparr>"

lemma evidence_reads_back_witness:
  "\<exists>r s'. Put demo_sha 5 ''1'' ''xy'' ''text/plain'' ''log'' demo_evidence = (s', Inr r) \<and>
     Get_evidence demo_sha (evi_id r) s' = Inr (r, ''xy'')"
proof -
  obtain s' r where run: "Put demo_sha 5 ''1'' ''xy'' ''text/plain'' ''log'' demo_evidence = (s', Inr r)"
  proof -
    have "case snd (Put demo_sha 5 ''1'' ''xy'' ''text/plain'' ''log'' demo_evidence) of Inl e \<Rightarrow> False | Inr r \<Rightarrow> True"
      by code_simp
    then show thesis using that by (metis (no_types, lifting) prod.collapse sum.case_eq_if sum.collapse(2) sum.disc(2))
  qed
  have "length (demo_sha ''xy'') = 64" "list_all hex_char (demo_sha ''xy'')" by code_simp+
  moreover have "es_blobs demo_evidence (demo_sha ''xy'') = None" by (simp add: demo_evidence_def)
  ultimately show ?thesis using run evidence_reads_back [OF run rtranclp.rtrancl_refl] by auto
qed

text \<open>
  No corrupt evidence is handed out: whatever happens to the blobs behind the store's back, a content
  that \<open>Get\<close> returns has the hash its row was recorded with, and \<open>FindByContentHash\<close> only returns rows
  whose content can be read back so; a missing or altered blob is the corruption error.
\<close>

theorem no_corrupt_evidence:
  assumes "distinct (map evi_id (db_evidence (es_db s)))"
  shows "(\<forall>r content. Get_evidence sha k s = Inr (r, content) \<longrightarrow>
      find_by evi_id k (db_evidence (es_db s)) = Some r \<and> sha content = evi_hash r) \<and>
   (\<forall>r. FindByContentHash sha h kind s = Inr (Some r) \<longrightarrow>
      evi_hash r = trim_space h \<and> evi_kind r = trim_space kind \<and>
      (\<exists>content. es_blobs s (evi_hash r) = Some content \<and> sha content = trim_space h)) \<and>
   (\<forall>r. find_by evi_id k (db_evidence (es_db s)) = Some r \<and>
      (case es_blobs s (evi_hash r) of None \<Rightarrow> True | Some c \<Rightarrow> sha c \<noteq> evi_hash r) \<longrightarrow>
      Get_evidence sha k s = Inl ErrEvidenceCorrupt)"
proof (intro conjI allI impI; (elim conjE)?)
  fix r content
  assume "Get_evidence sha k s = Inr (r, content)"
  then show "find_by evi_id k (db_evidence (es_db s)) = Some r" "sha content = evi_hash r"
    by (simp_all add: Get_evidence_Inr)
next
  fix r
  assume "FindByContentHash sha h kind s = Inr (Some r)"
  from FindByContentHash_Inr [OF this assms]
  show "evi_hash r = trim_space h" "evi_kind r = trim_space kind"
    "\<exists>content. es_blobs s (evi_hash r) = Some content \<and> sha content = trim_space h"
    by (auto simp: Get_evidence_Inr)
next
  fix r
  assume "find_by evi_id k (db_evidence (es_db s)) = Some r"
    "case es_blobs s (evi_hash r) of None \<Rightarrow> True | Some c \<Rightarrow> sha c \<noteq> evi_hash r"
  then show "Get_evidence sha k s = Inl ErrEvidenceCorrupt"
    by (auto simp: Get_evidence_def verifyHash_def requireE_def bindE_def split: option.splits)
qed

lemma no_corrupt_evidence_witness:
  "Get_evidence demo_sha ''evidence_1''
     ((fst (Put demo_sha 5 ''1'' ''xy'' ''text/plain'' ''log'' demo_evidence))
        \<lparr>es_blobs := (\<lambda>h. Some ''altered'')\<rparr>) = Inl ErrEvidenceCorrupt"
proof -
  let ?s = "(fst (Put demo_sha 5 ''1'' ''xy'' ''text/plain'' ''log'' demo_evidence)) \<lparr>es_blobs := (\<lambda>h. Some ''altered'')\<rparr>"
  have rows: "map (\<lambda>r. (evi_id r, evi_hash r)) (db_evidence (es_db ?s)) = [(''evidence_1'', demo_sha ''xy'')]"
    "demo_sha ''altered'' \<noteq> demo_sha ''xy''"
    by code_simp+
  then obtain r where r: "db_evidence (es_db ?s) = [r]" "evi_id r = ''evidence_1''" "evi_hash r = demo_sha ''xy''"
    by (auto simp: map_eq_Cons_conv)
  then have "find_by evi_id ''evidence_1'' (db_evidence (es_db ?s)) = Some r" "distinct (map evi_id (db_evidence (es_db ?s)))"
    by (simp_all only: find_by_Cons) simp_all
  with no_corrupt_evidence [of ?s demo_sha "''evidence_1''"] rows(2) r(3) show ?thesis by simp
qed

end
