(* ===== verification/Verification.thy ===== *)
theory Verification
  imports Evidence
begin

text \<open>
  The verification service (\<open>internal/verification/service.go\<close>): an attempt completes with a manifest of
  durable evidence, a verifier accepts the task, and the tasks that only waited for it become eligible.
  The digest of a manifest (\<open>encoding/json\<close>, \<open>crypto/sha256\<close>) is an argument.
\<close>

subsection \<open>Requests\<close>

record AcceptanceRequest =
  aq_verifier :: ID
  aq_type :: string
  aq_met :: bool
  aq_evidence :: "ID list"

definition normalizeIDs :: "ID list \<Rightarrow> ID list" where
  "normalizeIDs ids = distinct_sorted (filter (\<lambda>v. v \<noteq> []) ids)"

definition hashManifest :: "(ID list \<Rightarrow> string) \<Rightarrow> ID list \<Rightarrow> string" where
  "hashManifest digest evidence = digest evidence"

fun requireEvidence :: "ID list \<Rightarrow> db \<Rightarrow> unit res" where
  "requireEvidence [] d = Inr ()"
| "requireEvidence (k # ks) d =
     (case find_by evi_id k (db_evidence d) of
        None \<Rightarrow> Inl (Err ''evidence not found'')
      | Some e \<Rightarrow> requireEvidence ks d)"

subsection \<open>Completion\<close>

definition insert_completion :: "completion_row \<Rightarrow> db \<Rightarrow> db res" where
  "insert_completion c d =
     bindE (requireE (\<not> exists_where (\<lambda>x. co_id x = co_id c \<or> co_attempt x = co_attempt c) (db_completions d))
              (ErrConstraint ''UNIQUE'')) (\<lambda>_.
     Inr (d\<lparr>db_completions := db_completions d @ [c]\<rparr>))"

definition insert_verification :: "verification_row \<Rightarrow> db \<Rightarrow> db res" where
  "insert_verification v d =
     bindE (requireE (\<not> exists_where (\<lambda>x. v_id x = v_id v \<or> v_attempt x = v_attempt v \<or> v_completion x = v_completion v)
              (db_verifications d)) (ErrConstraint ''UNIQUE'')) (\<lambda>_.
     Inr (d\<lparr>db_verifications := db_verifications d @ [v]\<rparr>))"

text \<open>The two updates that end the attempt and hand its task to verification.\<close>

definition end_attempt :: "gtime \<Rightarrow> ID \<Rightarrow> ID \<Rightarrow> db \<Rightarrow> db" where
  "end_attempt now attempt_id task_id d =
     d\<lparr>db_attempts := update_where (\<lambda>a. a_id a = attempt_id)
         (\<lambda>a. a\<lparr>a_state := AttemptCompleted, a_lease := LeaseRevoked, a_completed := Some now\<rparr>) (db_attempts d),
       db_tasks := update_where (\<lambda>t. t_id t = task_id)
         (\<lambda>t. t\<lparr>t_state := TaskAwaitingVerification, t_updated := now\<rparr>) (db_tasks d)\<rparr>"

definition complete_body ::
  "(ID list \<Rightarrow> string) \<Rightarrow> env \<Rightarrow> ID \<Rightarrow> ID list \<Rightarrow> GuardedAttempt \<Rightarrow> db \<Rightarrow> db res" where
  "complete_body digest E attempt_id evidence g d =
     (let now = clk E 0;
          c = \<lparr>co_id = NewID ''completion'' (rnd E 0), co_task = ga_task g, co_attempt = attempt_id,
               co_hash = hashManifest digest evidence, co_evidence = evidence, co_at = now\<rparr> in
      bindE (requireEvidence evidence d) (\<lambda>_.
      bindE (insert_completion c d) (\<lambda>d1.
      bindE (insert_verification \<lparr>v_id = NewID ''verification'' (rnd E 1), v_task = ga_task g, v_attempt = attempt_id,
               v_completion = co_id c, v_state = VerificationPending, v_created = now, v_updated = now\<rparr>
               (end_attempt now attempt_id (ga_task g) d1)) (\<lambda>d2.
      append_event (NewID ''event'' (rnd E 2)) (ga_task g) attempt_id ''ATTEMPT_COMPLETED''
        [(''manifest_hash'', co_hash c)] now d2))))"

definition CompleteAttempt :: "(ID list \<Rightarrow> string) \<Rightarrow> env \<Rightarrow> ID \<Rightarrow> ID list \<Rightarrow> db \<Rightarrow> db \<times> unit res" where
  "CompleteAttempt digest E attempt_id evidence d =
     (if attempt_id = [] then (d, Inl (Err ''attempt id is required''))
      else if normalizeIDs evidence = [] then (d, Inl (Err ''completion manifest requires evidence''))
      else WithGuardedAttempt (clk E 1) attempt_id [TaskExecuting]
        (\<lambda>g. no_result (complete_body digest E attempt_id (normalizeIDs evidence) g)) d)"

subsection \<open>Acceptance\<close>

definition insert_acceptance :: "acceptance_row \<Rightarrow> db \<Rightarrow> db res" where
  "insert_acceptance r d =
     bindE (requireE (\<not> exists_where (\<lambda>x. ac_id x = ac_id r \<or> ac_task x = ac_task r) (db_acceptances d))
              (ErrConstraint ''UNIQUE'')) (\<lambda>_.
     Inr (d\<lparr>db_acceptances := db_acceptances d @ [r]\<rparr>))"

text \<open>A dependency is unmet when the task it names exists and has not succeeded.\<close>

definition unmet :: "db \<Rightarrow> ID \<Rightarrow> nat" where
  "unmet d task_id =
     count_where (\<lambda>p. fst p = task_id \<and>
       exists_where (\<lambda>t. t_id t = snd p \<and> t_state t \<noteq> TaskSucceeded) (db_tasks d)) (db_deps d)"

text \<open>The tasks that waited for this one only.\<close>

definition unlocked :: "db \<Rightarrow> ID \<Rightarrow> task \<Rightarrow> bool" where
  "unlocked d task_id t \<longleftrightarrow> t_state t = TaskCreated \<and>
     exists_where (\<lambda>p. fst p = t_id t \<and> snd p = task_id) (db_deps d) \<and> unmet d (t_id t) = 0"

definition unlock_dependents :: "gtime \<Rightarrow> ID \<Rightarrow> db \<Rightarrow> db" where
  "unlock_dependents now task_id d =
     d\<lparr>db_tasks := update_where (unlocked d task_id) (\<lambda>t. t\<lparr>t_state := TaskEligible, t_updated := now\<rparr>) (db_tasks d)\<rparr>"

definition accept_writes :: "env \<Rightarrow> ID \<Rightarrow> ID \<Rightarrow> AcceptanceRequest \<Rightarrow> db \<Rightarrow> db res" where
  "accept_writes E task_id attempt_id q d =
     (let now = clk E 0; hit = (\<lambda>t. t_id t = task_id \<and> t_state t = TaskAwaitingVerification);
          r = \<lparr>ac_id = NewID ''acceptance'' (rnd E 0), ac_task = task_id, ac_attempt = attempt_id,
               ac_verifier = aq_verifier q, ac_type = trim_space (aq_type q), ac_met = True,
               ac_evidence = normalizeIDs (aq_evidence q), ac_at = now\<rparr> in
      bindE (insert_acceptance r d) (\<lambda>d1.
      bindE (requireE (count_where hit (db_tasks d1) = 1) (Err ''task acceptance lost state race'')) (\<lambda>_.
      let d2 = d1\<lparr>db_verifications := update_where
                   (\<lambda>v. v_task v = task_id \<and> v_attempt v = attempt_id \<and> v_state v = VerificationPending)
                   (\<lambda>v. v\<lparr>v_state := VerificationAccepted, v_updated := now\<rparr>) (db_verifications d1),
                 db_tasks := update_where hit (\<lambda>t. t\<lparr>t_state := TaskSucceeded, t_updated := now\<rparr>) (db_tasks d1)\<rparr> in
      append_event (NewID ''event'' (rnd E 1)) task_id attempt_id ''TASK_ACCEPTED'' [(''acceptance_id'', ac_id r)] now
        (unlock_dependents now task_id d2))))"

definition accept_body :: "env \<Rightarrow> ID \<Rightarrow> AcceptanceRequest \<Rightarrow> db \<Rightarrow> db res" where
  "accept_body E task_id q d =
     (case find_by t_id task_id (db_tasks d) of
        None \<Rightarrow> Inl (Err ''task not found'')
      | Some t \<Rightarrow>
        (case t_attempt t of
           None \<Rightarrow> Inl (Err ''task is not awaiting verification'')
         | Some attempt_id \<Rightarrow>
           if t_state t \<noteq> TaskAwaitingVerification then Inl (Err ''task is not awaiting verification'')
           else if \<not> exists_where (\<lambda>c. co_task c = task_id \<and> co_attempt c = attempt_id) (db_completions d)
           then Inl (Err ''durable completion record is required before acceptance'')
           else bindE (requireEvidence (normalizeIDs (aq_evidence q)) d) (\<lambda>_. accept_writes E task_id attempt_id q d)))"

definition AcceptTask :: "env \<Rightarrow> ID \<Rightarrow> AcceptanceRequest \<Rightarrow> db \<Rightarrow> db \<times> unit res" where
  "AcceptTask E task_id q d =
     (if task_id = [] \<or> aq_verifier q = [] \<or> trim_space (aq_type q) = []
      then (d, Inl (Err ''task, verifier id, and verifier type are required''))
      else if \<not> aq_met q then (d, Inl (Err ''AcceptTask requires satisfied acceptance criteria''))
      else if normalizeIDs (aq_evidence q) = [] then (d, Inl (Err ''acceptance requires evidence''))
      else with_tx (no_result (accept_body E task_id q)) d)"

subsection \<open>The invariant\<close>

interpretation evidence_ids: id_normalizer normalizeIDs "\<lambda>x. x"
  by unfold_locales (auto simp: normalizeIDs_def)

definition evidenced :: "db \<Rightarrow> ID list \<Rightarrow> bool" where
  "evidenced d ids \<longleftrightarrow> ids \<noteq> [] \<and> set ids \<subseteq> evi_id ` set (db_evidence d)"

definition completed :: "db \<Rightarrow> ID \<Rightarrow> ID \<Rightarrow> bool" where
  "completed d task_id attempt_id \<longleftrightarrow>
     exists_where (\<lambda>c. co_task c = task_id \<and> co_attempt c = attempt_id \<and> evidenced d (co_evidence c)) (db_completions d)"

definition accepted :: "db \<Rightarrow> ID \<Rightarrow> bool" where
  "accepted d task_id \<longleftrightarrow>
     exists_where (\<lambda>r. ac_task r = task_id \<and> ac_met r \<and> evidenced d (ac_evidence r) \<and> completed d task_id (ac_attempt r))
       (db_acceptances d)"

definition verified_ok :: "db \<Rightarrow> bool" where
  "verified_ok d \<longleftrightarrow>
     distinct (map co_attempt (db_completions d)) \<and> distinct (map ac_task (db_acceptances d)) \<and>
     list_all (\<lambda>c. evidenced d (co_evidence c)) (db_completions d) \<and>
     list_all (\<lambda>t. t_state t = TaskSucceeded \<longrightarrow> accepted d (t_id t)) (db_tasks d)"

lemma verified_okD:
  assumes "verified_ok d"
  shows "distinct (map co_attempt (db_completions d))" "distinct (map ac_task (db_acceptances d))"
    "c \<in> set (db_completions d) \<Longrightarrow> evidenced d (co_evidence c)"
    "t \<in> set (db_tasks d) \<Longrightarrow> t_state t = TaskSucceeded \<Longrightarrow> accepted d (t_id t)"
  using assms by (auto simp: verified_ok_def list_all_iff)

text \<open>Records are never removed, so what they establish stays.\<close>

definition records_grow :: "db \<Rightarrow> db \<Rightarrow> bool" where
  "records_grow d d' \<longleftrightarrow> set (db_evidence d) \<subseteq> set (db_evidence d') \<and> set (db_completions d) \<subseteq> set (db_completions d') \<and>
     set (db_acceptances d) \<subseteq> set (db_acceptances d')"

lemma evidenced_grows: "records_grow d d' \<Longrightarrow> evidenced d ids \<Longrightarrow> evidenced d' ids"
  by (force simp: evidenced_def records_grow_def)

lemma completed_grows: "records_grow d d' \<Longrightarrow> completed d k a \<Longrightarrow> completed d' k a"
  using evidenced_grows [of d d'] by (auto simp: completed_def records_grow_def exists_where_iff)

lemma accepted_grows: "records_grow d d' \<Longrightarrow> accepted d k \<Longrightarrow> accepted d' k"
  using evidenced_grows [of d d'] completed_grows [of d d'] by (auto simp: accepted_def records_grow_def exists_where_iff)

text \<open>A step that writes none of the records and lets no task succeed.\<close>

definition no_new_success :: "db \<Rightarrow> db \<Rightarrow> bool" where
  "no_new_success d d' \<longleftrightarrow> db_completions d' = db_completions d \<and> db_acceptances d' = db_acceptances d \<and>
     set (db_evidence d) \<subseteq> set (db_evidence d') \<and>
     no_task_succeeds (db_tasks d) (db_tasks d')"

lemma verified_ok_kept:
  assumes "verified_ok d" and "no_new_success d d'"
  shows "verified_ok d'"
proof -
  have grow: "records_grow d d'" using assms(2) by (auto simp: no_new_success_def records_grow_def)
  have "accepted d' (t_id t')" if t': "t' \<in> set (db_tasks d')" "t_state t' = TaskSucceeded" for t'
  proof -
    obtain t where "t \<in> set (db_tasks d)" "t_id t = t_id t'" "t_state t = TaskSucceeded"
      using assms(2) t' unfolding no_new_success_def no_task_succeeds_def by blast
    then show ?thesis using verified_okD(4) [OF assms(1), of t] accepted_grows [OF grow] by simp
  qed
  then show ?thesis
    using assms verified_okD(3) [OF assms(1)] evidenced_grows [OF grow]
    by (auto simp: verified_ok_def no_new_success_def list_all_iff)
qed

subsection \<open>What the two operations write\<close>

lemma requireEvidence_Inr: "requireEvidence ks d = Inr () \<longleftrightarrow> set ks \<subseteq> evi_id ` set (db_evidence d)"
  by (induction ks) (auto simp: find_by_None_iff split: option.split dest: find_by_SomeD)

lemma insert_completion_Inr:
  "insert_completion c d = Inr d' \<longleftrightarrow>
   co_id c \<notin> co_id ` set (db_completions d) \<and> co_attempt c \<notin> co_attempt ` set (db_completions d) \<and>
   d' = d\<lparr>db_completions := db_completions d @ [c]\<rparr>"
  by (simp add: insert_completion_def bind_simps exists_where_iff image_iff) metis

lemma insert_verification_Inr:
  "insert_verification v d = Inr d' \<Longrightarrow> d' = d\<lparr>db_verifications := db_verifications d @ [v]\<rparr>"
  by (auto simp: insert_verification_def bind_simps)

lemma insert_acceptance_Inr:
  "insert_acceptance r d = Inr d' \<longleftrightarrow>
   ac_id r \<notin> ac_id ` set (db_acceptances d) \<and> ac_task r \<notin> ac_task ` set (db_acceptances d) \<and>
   d' = d\<lparr>db_acceptances := db_acceptances d @ [r]\<rparr>"
  by (simp add: insert_acceptance_def bind_simps exists_where_iff image_iff) metis

lemma complete_body_Inr:
  assumes "complete_body digest E k ids g d = Inr d'"
  obtains c v events where "set ids \<subseteq> evi_id ` set (db_evidence d)" "co_attempt c \<notin> co_attempt ` set (db_completions d)"
    "co_task c = ga_task g" "co_attempt c = k" "co_evidence c = ids" "co_hash c = hashManifest digest ids"
    "d' = (end_attempt (clk E 0) k (ga_task g) d)
       \<lparr>db_completions := db_completions d @ [c], db_verifications := db_verifications d @ [v], db_events := events\<rparr>"
proof -
  define c where "c = \<lparr>co_id = NewID ''completion'' (rnd E 0), co_task = ga_task g, co_attempt = k,
               co_hash = hashManifest digest ids, co_evidence = ids, co_at = clk E 0\<rparr>"
  obtain d1 d2 v where ev: "requireEvidence ids d = Inr ()" and c: "insert_completion c d = Inr d1"
    and v: "insert_verification v (end_attempt (clk E 0) k (ga_task g) d1) = Inr d2"
    and app: "append_event (NewID ''event'' (rnd E 2)) (ga_task g) k ''ATTEMPT_COMPLETED''
        [(''manifest_hash'', co_hash c)] (clk E 0) d2 = Inr d'"
    using assms unfolding complete_body_def Let_def bindE_Inr_iff c_def [symmetric] by auto
  obtain events where "d' = d2\<lparr>db_events := events\<rparr>" using append_event_Inr [OF app] by blast
  then have "d' = (end_attempt (clk E 0) k (ga_task g) d)
       \<lparr>db_completions := db_completions d @ [c], db_verifications := db_verifications d @ [v], db_events := events\<rparr>"
    using c insert_verification_Inr [OF v] by (simp add: insert_completion_Inr end_attempt_def)
  then show thesis
    using ev c by (intro that [of c]) (simp_all add: requireEvidence_Inr insert_completion_Inr c_def)
qed

lemma CompleteAttempt_Inr:
  "CompleteAttempt digest E k evidence d = (d', Inr u) \<longleftrightarrow>
   k \<noteq> [] \<and> normalizeIDs evidence \<noteq> [] \<and>
   (\<exists>g. GuardAttempt (clk E 1) k [TaskExecuting] d = Inr g \<and>
      complete_body digest E k (normalizeIDs evidence) g d = Inr d')"
  by (auto simp: CompleteAttempt_def WithGuardedAttempt_def with_tx_Inr_iff bind_simps)

lemma accept_writes_Inr:
  assumes "accept_writes E k a q d = Inr d'"
  obtains r vs events ts where "ac_task r \<notin> ac_task ` set (db_acceptances d)" "ac_task r = k" "ac_attempt r = a" "ac_met r"
    "ac_evidence r = normalizeIDs (aq_evidence q)" "ac_verifier r = aq_verifier q"
    "count_where (\<lambda>t. t_id t = k \<and> t_state t = TaskAwaitingVerification) (db_tasks d) = 1"
    "ts = update_where (\<lambda>t. t_id t = k \<and> t_state t = TaskAwaitingVerification)
       (\<lambda>t. t\<lparr>t_state := TaskSucceeded, t_updated := clk E 0\<rparr>) (db_tasks d)"
    "d' = (unlock_dependents (clk E 0) k (d\<lparr>db_tasks := ts\<rparr>))
       \<lparr>db_acceptances := db_acceptances d @ [r], db_verifications := vs, db_events := events\<rparr>"
proof -
  define r where "r = \<lparr>ac_id = NewID ''acceptance'' (rnd E 0), ac_task = k, ac_attempt = a,
     ac_verifier = aq_verifier q, ac_type = trim_space (aq_type q), ac_met = True,
     ac_evidence = normalizeIDs (aq_evidence q), ac_at = clk E 0\<rparr>"
  define hit :: "task \<Rightarrow> bool" where "hit = (\<lambda>t. t_id t = k \<and> t_state t = TaskAwaitingVerification)"
  define ts where "ts = update_where hit (\<lambda>t. t\<lparr>t_state := TaskSucceeded, t_updated := clk E 0\<rparr>) (db_tasks d)"
  obtain d1 vs where r: "insert_acceptance r d = Inr d1" and one: "count_where hit (db_tasks d1) = 1"
    and app: "append_event (NewID ''event'' (rnd E 1)) k a ''TASK_ACCEPTED'' [(''acceptance_id'', ac_id r)] (clk E 0)
        (unlock_dependents (clk E 0) k (d1\<lparr>db_verifications := vs, db_tasks :=
           update_where hit (\<lambda>t. t\<lparr>t_state := TaskSucceeded, t_updated := clk E 0\<rparr>) (db_tasks d1)\<rparr>)) = Inr d'"
    using assms unfolding accept_writes_def Let_def bindE_Inr_iff requireE_Inr_iff r_def [symmetric] hit_def [symmetric] by blast
  have d1: "d1 = d\<lparr>db_acceptances := db_acceptances d @ [r]\<rparr>" using r by (simp add: insert_acceptance_Inr)
  have un: "unlocked (e\<lparr>db_verifications := v, db_tasks := t\<rparr>) = unlocked (d\<lparr>db_tasks := t\<rparr>)"
    if "db_deps e = db_deps d" for e v t
    using that by (intro ext) (simp add: unlocked_def unmet_def)
  obtain events where "d' = (unlock_dependents (clk E 0) k (d1\<lparr>db_verifications := vs, db_tasks := ts\<rparr>))\<lparr>db_events := events\<rparr>"
    using append_event_Inr [OF app] by (auto simp: ts_def d1)
  then have "d' = (unlock_dependents (clk E 0) k (d\<lparr>db_tasks := ts\<rparr>))
       \<lparr>db_acceptances := db_acceptances d @ [r], db_verifications := vs, db_events := events\<rparr>"
    by (simp add: unlock_dependents_def un d1)
  then show thesis
    using r one by (intro that [of r ts]) (simp_all add: insert_acceptance_Inr r_def hit_def ts_def d1)
qed

lemma AcceptTask_Inr:
  assumes "AcceptTask E k q d = (d', Inr u)"
  obtains t a where "find_by t_id k (db_tasks d) = Some t" "t_attempt t = Some a" "t_state t = TaskAwaitingVerification"
    "exists_where (\<lambda>c. co_task c = k \<and> co_attempt c = a) (db_completions d)"
    "set (normalizeIDs (aq_evidence q)) \<subseteq> evi_id ` set (db_evidence d)" "normalizeIDs (aq_evidence q) \<noteq> []"
    "aq_met q" "aq_verifier q \<noteq> []" "accept_writes E k a q d = Inr d'"
  using assms
  by (auto simp: AcceptTask_def with_tx_Inr_iff bind_simps accept_body_def requireEvidence_Inr split: if_splits option.splits)

subsection \<open>The operations keep the invariants\<close>

lemma end_attempt_next:
  assumes "exec_ok d" and "GuardAttempt now k allowed d = Inr g"
  shows "exec_next d (end_attempt u k (ga_task g) d)"
  unfolding end_attempt_def by (rule exec_next_end_guarded [OF assms]) simp_all

lemma CompleteAttempt_ok:
  assumes ok: "exec_ok d"
  shows "exec_next d (fst (CompleteAttempt digest E k evidence d))"
proof (cases "CompleteAttempt digest E k evidence d")
  case (Pair d' out)
  show ?thesis
  proof (cases out)
    case (Inl e)
    with Pair have "d' = d"
      by (auto simp: CompleteAttempt_def WithGuardedAttempt_def with_tx_Inl_iff split: if_splits)
    with Pair ok show ?thesis by (simp add: exec_next_refl)
  next
    case (Inr u)
    with Pair obtain g where g: "GuardAttempt (clk E 1) k [TaskExecuting] d = Inr g"
      and body: "complete_body digest E k (normalizeIDs evidence) g d = Inr d'"
      by (auto simp: CompleteAttempt_Inr)
    from body have same: "db_tasks d' = db_tasks (end_attempt (clk E 0) k (ga_task g) d)"
      "db_attempts d' = db_attempts (end_attempt (clk E 0) k (ga_task g) d)"
      by (rule complete_body_Inr; simp)+
    show ?thesis
      using exec_next_cong [OF same, of d] end_attempt_next [OF ok g, of "clk E 0"] Pair by simp
  qed
qed

lemma unlock_next: "exec_ok d \<Longrightarrow> exec_next d (unlock_dependents now k d)"
  by (rule exec_next_update [where P = "unlocked d k" and f = "\<lambda>t. t\<lparr>t_state := TaskEligible, t_updated := now\<rparr>"
        and Q = "\<lambda>_. False" and g = id])
    (simp_all add: unlock_dependents_def update_where_none unlocked_def)

lemma AcceptTask_ok:
  assumes ok: "exec_ok d"
  shows "exec_next d (fst (AcceptTask E k q d))"
proof (cases "AcceptTask E k q d")
  case (Pair d' out)
  show ?thesis
  proof (cases out)
    case (Inl e)
    with Pair have "d' = d" by (auto simp: AcceptTask_def with_tx_Inl_iff split: if_splits)
    with Pair ok show ?thesis by (simp add: exec_next_refl)
  next
    case (Inr u)
    let ?hit = "\<lambda>t. t_id t = k \<and> t_state t = TaskAwaitingVerification"
    let ?d1 = "d\<lparr>db_tasks := update_where ?hit (\<lambda>t. t\<lparr>t_state := TaskSucceeded, t_updated := clk E 0\<rparr>) (db_tasks d)\<rparr>"
    from Pair Inr obtain a where "accept_writes E k a q d = Inr d'" by (auto elim: AcceptTask_Inr)
    then have same: "db_tasks d' = db_tasks (unlock_dependents (clk E 0) k ?d1)"
      "db_attempts d' = db_attempts (unlock_dependents (clk E 0) k ?d1)"
      by (rule accept_writes_Inr; simp)+
    have step: "exec_next d ?d1"
      by (rule exec_next_update [where P = ?hit and f = "\<lambda>t. t\<lparr>t_state := TaskSucceeded, t_updated := clk E 0\<rparr>"
            and Q = "\<lambda>_. False" and g = id, OF ok]) (simp_all add: update_where_none)
    then have "exec_next ?d1 (unlock_dependents (clk E 0) k ?d1)"
      by (intro unlock_next) (simp add: exec_next_def)
    then have "exec_next d d'"
      using exec_next_cong [OF same] exec_next_trans [OF step] by blast
    then show ?thesis using Pair by simp
  qed
qed

lemma verified_ok_complete:
  assumes ok: "verified_ok d" and run: "complete_body digest E k ids g d = Inr d'" and ids: "ids \<noteq> []"
  shows "verified_ok d'"
proof -
  from run obtain c v events where ev: "set ids \<subseteq> evi_id ` set (db_evidence d)"
    and c: "co_attempt c \<notin> co_attempt ` set (db_completions d)" "co_evidence c = ids"
    and d': "d' = (end_attempt (clk E 0) k (ga_task g) d)
       \<lparr>db_completions := db_completions d @ [c], db_verifications := db_verifications d @ [v], db_events := events\<rparr>"
    by (rule complete_body_Inr)
  have tables: "db_completions d' = db_completions d @ [c]" "db_acceptances d' = db_acceptances d" "db_evidence d' = db_evidence d"
    "db_tasks d' = update_where (\<lambda>t. t_id t = ga_task g) (\<lambda>t. t\<lparr>t_state := TaskAwaitingVerification, t_updated := clk E 0\<rparr>) (db_tasks d)"
    by (simp_all add: d' end_attempt_def)
  then have grow: "records_grow d d'" by (auto simp: records_grow_def)
  have "accepted d' (t_id t)" if "t \<in> set (db_tasks d')" "t_state t = TaskSucceeded" for t
    using that verified_okD(4) [OF ok] accepted_grows [OF grow]
    by (auto simp: tables(4) set_update_where split: if_splits)
  moreover have "evidenced d' (co_evidence c)" using ev c(2) ids by (simp add: evidenced_def tables)
  ultimately show ?thesis
    using verified_okD(1-3) [OF ok] c(1) evidenced_grows [OF grow]
    by (simp add: verified_ok_def list_all_iff tables)
qed

lemma verified_ok_accept:
  assumes ok: "verified_ok d" and run: "accept_writes E k a q d = Inr d'"
    and c: "exists_where (\<lambda>c. co_task c = k \<and> co_attempt c = a) (db_completions d)"
    and ev: "evidenced d (normalizeIDs (aq_evidence q))"
  shows "verified_ok d'"
proof -
  from run obtain r vs events ts where r: "ac_task r \<notin> ac_task ` set (db_acceptances d)" "ac_task r = k" "ac_attempt r = a"
      "ac_met r" "ac_evidence r = normalizeIDs (aq_evidence q)"
    and ts: "ts = update_where (\<lambda>t. t_id t = k \<and> t_state t = TaskAwaitingVerification)
       (\<lambda>t. t\<lparr>t_state := TaskSucceeded, t_updated := clk E 0\<rparr>) (db_tasks d)"
    and d': "d' = (unlock_dependents (clk E 0) k (d\<lparr>db_tasks := ts\<rparr>))
       \<lparr>db_acceptances := db_acceptances d @ [r], db_verifications := vs, db_events := events\<rparr>"
    by (rule accept_writes_Inr)
  have tables: "db_completions d' = db_completions d" "db_acceptances d' = db_acceptances d @ [r]" "db_evidence d' = db_evidence d"
    by (simp_all add: d' unlock_dependents_def)
  then have grow: "records_grow d d'" by (auto simp: records_grow_def)
  have "completed d k a" using c verified_okD(3) [OF ok] by (auto simp: completed_def exists_where_iff)
  then have this_one: "accepted d' k"
    using r completed_grows [OF grow] evidenced_grows [OF grow ev]
    by (auto simp: accepted_def exists_where_iff tables)
  have "accepted d' (t_id t)" if t: "t \<in> set (db_tasks d')" "t_state t = TaskSucceeded" for t
  proof -
    have "t \<in> set ts"
      using t by (auto simp: d' unlock_dependents_def set_update_where split: if_splits)
    then have "t_id t = k \<or> t \<in> set (db_tasks d)" by (auto simp: ts set_update_where)
    then show ?thesis
      using this_one t(2) verified_okD(4) [OF ok] accepted_grows [OF grow] by blast
  qed
  then show ?thesis
    using verified_okD(1-3) [OF ok] r(1) evidenced_grows [OF grow]
    by (simp add: verified_ok_def list_all_iff tables)
qed

text \<open>The calls of the execution, evidence and verification services, in any order.\<close>

inductive verify_step :: "db \<Rightarrow> db \<Rightarrow> bool" where
  verify_exec: "exec_step d d' \<Longrightarrow> verify_step d d'"
| verify_put: "verify_step d (es_db (fst (Put sha now rand content media kind \<lparr>es_db = d, es_blobs = bs\<rparr>)))"
| verify_complete: "verify_step d (fst (CompleteAttempt digest E k evidence d))"
| verify_accept: "verify_step d (fst (AcceptTask E k q d))"

lemma Put_db: "\<exists>rows. es_db (fst (Put sha now rand content media kind s)) = (es_db s)\<lparr>db_evidence := db_evidence (es_db s) @ rows\<rparr>"
  by (auto simp: Put_def Let_def insert_unique_Inr_iff split: sum.split intro: exI [of _ "[]"])

lemma verify_step_next: "verify_step d d' \<Longrightarrow> exec_ok d \<Longrightarrow> exec_next d d'"
proof (induction rule: verify_step.induct)
  case (verify_put d sha now rand content media kind bs)
  obtain rows where "es_db (fst (Put sha now rand content media kind \<lparr>es_db = d, es_blobs = bs\<rparr>)) =
      d\<lparr>db_evidence := db_evidence d @ rows\<rparr>"
    using Put_db [of sha now rand content media kind "\<lparr>es_db = d, es_blobs = bs\<rparr>"] by auto
  then show ?case
    using exec_next_cong [of "d\<lparr>db_evidence := db_evidence d @ rows\<rparr>" d d] exec_next_refl [OF verify_put] by simp
qed (auto intro: exec_step_next CompleteAttempt_ok AcceptTask_ok)

lemma exec_step_no_new_success: "exec_step d d' \<Longrightarrow> no_new_success d d'"
  using exec_onlyD [OF exec_step_only] exec_step_succeeds by (simp add: no_new_success_def)

lemma verify_step_verified: "verify_step d d' \<Longrightarrow> verified_ok d \<Longrightarrow> verified_ok d'"
proof (induction rule: verify_step.induct)
  case (verify_exec d d')
  then show ?case using verified_ok_kept exec_step_no_new_success by blast
next
  case (verify_put d sha now rand content media kind bs)
  obtain rows where "es_db (fst (Put sha now rand content media kind \<lparr>es_db = d, es_blobs = bs\<rparr>)) =
      d\<lparr>db_evidence := db_evidence d @ rows\<rparr>"
    using Put_db [of sha now rand content media kind "\<lparr>es_db = d, es_blobs = bs\<rparr>"] by auto
  then show ?case by (auto intro!: verified_ok_kept [OF verify_put] simp: no_new_success_def)
next
  case (verify_complete d digest E k evidence)
  show ?case
  proof (cases "CompleteAttempt digest E k evidence d")
    case (Pair d' out)
    show ?thesis
    proof (cases out)
      case (Inl e)
      with Pair verify_complete show ?thesis
        by (auto simp: CompleteAttempt_def WithGuardedAttempt_def with_tx_Inl_iff split: if_splits)
    next
      case (Inr u)
      with Pair obtain g where "normalizeIDs evidence \<noteq> []" "complete_body digest E k (normalizeIDs evidence) g d = Inr d'"
        by (auto simp: CompleteAttempt_Inr)
      then show ?thesis using verified_ok_complete [OF verify_complete] Pair by simp
    qed
  qed
next
  case (verify_accept d E k q)
  show ?case
  proof (cases "AcceptTask E k q d")
    case (Pair d' out)
    show ?thesis
    proof (cases out)
      case (Inl e)
      with Pair verify_accept show ?thesis by (auto simp: AcceptTask_def with_tx_Inl_iff split: if_splits)
    next
      case (Inr u)
      with Pair verify_accept show ?thesis
        by (auto elim!: AcceptTask_Inr intro!: verified_ok_accept [of d E k] simp: evidenced_def)
    qed
  qed
qed

interpretation verification: kept_invariant verify_step "\<lambda>d. exec_ok d \<and> verified_ok d"
  by unfold_locales (blast dest: verify_step_next intro: verify_step_verified exec_next_def [THEN iffD1, THEN conjunct1])

lemma CompleteAttempt_refused:
  assumes "\<And>now allowed. \<exists>e. GuardAttempt now k allowed d = Inl e"
  shows "\<exists>e. CompleteAttempt digest E k evidence d = (d, Inl e)"
proof -
  obtain e where "GuardAttempt (clk E 1) k [TaskExecuting] d = Inl e" using assms by blast
  then show ?thesis by (simp add: CompleteAttempt_def WithGuardedAttempt_def with_tx_def)
qed

lemma unmet_zero_iff:
  "distinct (map t_id (db_tasks d)) \<Longrightarrow> unmet d j = 0 \<longleftrightarrow>
   (\<forall>i s. (j, i) \<in> set (db_deps d) \<and> find_by t_id i (db_tasks d) = Some s \<longrightarrow> t_state s = TaskSucceeded)"
  by (auto simp: unmet_def count_where_zero exists_where_iff find_by_iff)

subsection \<open>Properties\<close>

definition demo_evidence_row :: evidence_row where
  "demo_evidence_row = \<lparr>evi_id = ''e1'', evi_hash = ''h'', evi_media = ''text/plain'', evi_kind = ''log'',
     evi_size = 1, evi_created = 9\<rparr>"

definition demo_working :: db where
  "demo_working = demo_started\<lparr>db_evidence := [demo_evidence_row]\<rparr>"

definition demo_digest :: "ID list \<Rightarrow> string" where
  "demo_digest ids = concat ids"

definition demo_completed :: db where
  "demo_completed = fst (CompleteAttempt demo_digest demo_env2 ''attempt_1'' [''e1'', [], ''e1''] demo_working)"

definition demo_acceptance :: AcceptanceRequest where
  "demo_acceptance = \<lparr>aq_verifier = ''owner'', aq_type = '' human '', aq_met = True, aq_evidence = [''e1'']\<rparr>"

definition demo_env3 :: env where
  "demo_env3 = \<lparr>clk = (\<lambda>_. 30), rnd = (\<lambda>i. if i = 0 then ''5'' else ''6'')\<rparr>"

definition demo_accepted :: db where
  "demo_accepted = fst (AcceptTask demo_env3 ''task_1'' demo_acceptance demo_completed)"

lemma demo_working_ok: "exec_ok demo_working" "verified_ok demo_working"
proof -
  show "exec_ok demo_working"
    using demo_started_ok exec_ok_cong [of demo_working demo_started] by (simp add: demo_working_def)
  show "verified_ok demo_working" by code_simp
qed

text \<open>
  C15. Success is earned: in every state that the execution, evidence and verification services reach, a task
  that SUCCEEDED has exactly one acceptance, whose criteria were met and which names stored evidence, and
  the accepted attempt has exactly one completion record of this task, which names stored evidence too.
\<close>

theorem success_needs_acceptance:
  assumes "verify_step\<^sup>*\<^sup>* d0 d" and "exec_ok d0" and "verified_ok d0"
    and t: "t \<in> set (db_tasks d)" "t_state t = TaskSucceeded"
  shows "\<exists>r c. r \<in> set (db_acceptances d) \<and> ac_task r = t_id t \<and> ac_met r \<and> ac_evidence r \<noteq> [] \<and>
      set (ac_evidence r) \<subseteq> evi_id ` set (db_evidence d) \<and>
      (\<forall>r' \<in> set (db_acceptances d). ac_task r' = t_id t \<longrightarrow> r' = r) \<and>
      c \<in> set (db_completions d) \<and> co_task c = t_id t \<and> co_attempt c = ac_attempt r \<and> co_evidence c \<noteq> [] \<and>
      set (co_evidence c) \<subseteq> evi_id ` set (db_evidence d) \<and>
      (\<forall>c' \<in> set (db_completions d). co_attempt c' = ac_attempt r \<longrightarrow> c' = c)"
proof -
  have ok: "verified_ok d" using verification.reach_inv [OF assms(1)] assms(2,3) by blast
  obtain r c where r: "r \<in> set (db_acceptances d)" "ac_task r = t_id t" "ac_met r" "evidenced d (ac_evidence r)"
    and c: "c \<in> set (db_completions d)" "co_task c = t_id t" "co_attempt c = ac_attempt r" "evidenced d (co_evidence c)"
    using verified_okD(4) [OF ok t] unfolding accepted_def completed_def exists_where_iff by blast
  moreover have "\<forall>r' \<in> set (db_acceptances d). ac_task r' = t_id t \<longrightarrow> r' = r"
    using find_by_only [OF verified_okD(2) [OF ok] find_by_member [OF verified_okD(2) [OF ok] r(1)]] r(2) by metis
  moreover have "\<forall>c' \<in> set (db_completions d). co_attempt c' = ac_attempt r \<longrightarrow> c' = c"
    using find_by_only [OF verified_okD(1) [OF ok] find_by_member [OF verified_okD(1) [OF ok] c(1)]] c(3) by metis
  ultimately show ?thesis unfolding evidenced_def by blast
qed

lemma demo_accepted_reached: "verify_step\<^sup>*\<^sup>* demo_working demo_accepted"
proof -
  have "verify_step demo_working demo_completed"
    unfolding demo_completed_def by (rule verify_complete)
  moreover have "verify_step demo_completed demo_accepted"
    unfolding demo_accepted_def by (rule verify_accept)
  ultimately show ?thesis by auto
qed

lemma success_needs_acceptance_witness: "\<exists>r \<in> set (db_acceptances demo_accepted). ac_task r = ''task_1'' \<and> ac_met r"
proof -
  have "map (\<lambda>t. (t_id t, t_state t)) (db_tasks demo_accepted) = [(''task_1'', TaskSucceeded)]" by code_simp
  then obtain t where "t \<in> set (db_tasks demo_accepted)" "t_id t = ''task_1''" "t_state t = TaskSucceeded"
    by (auto simp: map_eq_Cons_conv)
  with success_needs_acceptance [OF demo_accepted_reached demo_working_ok, of t] show ?thesis by auto
qed

lemma CompleteAttempt_success:
  assumes ok: "exec_ok d" and run: "CompleteAttempt digest E k evidence d = (d', Inr u)"
  shows "\<exists>g t c. GuardAttempt (clk E 1) k [TaskExecuting] d = Inr g \<and>
    find_by t_id (ga_task g) (db_tasks d') = Some t \<and> t_state t = TaskAwaitingVerification \<and> t_attempt t = Some k \<and>
    db_completions d' = db_completions d @ [c] \<and> co_task c = ga_task g \<and> co_attempt c = k \<and>
    co_evidence c = normalizeIDs evidence \<and> co_hash c = digest (normalizeIDs evidence) \<and>
    set evidence - {[]} \<subseteq> evi_id ` set (db_evidence d) \<and> set evidence - {[]} \<noteq> {} \<and>
    (\<forall>d2. exec_le d' d2 \<longrightarrow> (\<forall>now allowed. \<exists>e. GuardAttempt now k allowed d2 = Inl e) \<and>
       (\<forall>digest E evidence. \<exists>e. CompleteAttempt digest E k evidence d2 = (d2, Inl e)))"
proof -
  from run obtain g where ids: "normalizeIDs evidence \<noteq> []"
    and g: "GuardAttempt (clk E 1) k [TaskExecuting] d = Inr g"
    and body: "complete_body digest E k (normalizeIDs evidence) g d = Inr d'"
    by (auto simp: CompleteAttempt_Inr)
  from body obtain c v events where ev: "set (normalizeIDs evidence) \<subseteq> evi_id ` set (db_evidence d)"
    and c: "co_task c = ga_task g" "co_attempt c = k" "co_evidence c = normalizeIDs evidence"
      "co_hash c = hashManifest digest (normalizeIDs evidence)"
    and d': "d' = (end_attempt (clk E 0) k (ga_task g) d)
       \<lparr>db_completions := db_completions d @ [c], db_verifications := db_verifications d @ [v], db_events := events\<rparr>"
    by (rule complete_body_Inr)
  from ok g obtain a t where a: "find_by a_id k (db_attempts d) = Some a" and t: "find_by t_id (ga_task g) (db_tasks d) = Some t"
    "t_attempt t = Some k" "t_id t = ga_task g" "a_id a = k"
    by (rule GuardAttempt_row)
  have a': "find_by a_id k (db_attempts d') = Some (a\<lparr>a_state := AttemptCompleted, a_lease := LeaseRevoked, a_completed := Some (clk E 0)\<rparr>)"
    using a t(4) by (simp add: d' end_attempt_def find_by_update_where)
  have t': "find_by t_id (ga_task g) (db_tasks d') = Some (t\<lparr>t_state := TaskAwaitingVerification, t_updated := clk E 0\<rparr>)"
    using t by (simp add: d' end_attempt_def find_by_update_where)
  have refused: "\<exists>e. GuardAttempt now k allowed d2 = Inl e" if "exec_le d' d2" for now allowed d2
    using ended_lease_is_refused [OF that a', of now allowed] by auto
  have again: "\<exists>e. CompleteAttempt digest' E' k evidence' d2 = (d2, Inl e)" if le: "exec_le d' d2" for digest' E' evidence' d2
    by (rule CompleteAttempt_refused) (rule refused [OF le])
  have set_ids: "set (normalizeIDs evidence) = set evidence - {[]}"
    using evidence_ids.norm_set [of evidence] by simp
  then have "set evidence - {[]} \<noteq> {}" using ids by (metis set_empty)
  moreover have "db_completions d' = db_completions d @ [c]" by (simp add: d')
  ultimately show ?thesis
    using g t' t(2) c ev refused again unfolding set_ids hashManifest_def
    by (intro exI [of _ g] exI [of _ "t\<lparr>t_state := TaskAwaitingVerification, t_updated := clk E 0\<rparr>"] exI [of _ c]) simp
qed

text \<open>
  Completing an attempt, on every branch: when \<open>CompleteAttempt\<close> succeeds, the guard admitted the attempt,
  all of its evidence is stored, the task AWAITS VERIFICATION, one completion record with the digest of the
  normalised manifest has been added, and neither the guard nor a second completion lets the attempt through
  in any later state; when it fails, nothing has changed.
\<close>

theorem CompleteAttempt_behaviour:
  assumes ok: "exec_ok d" and run: "CompleteAttempt digest E k evidence d = (d', out)"
  shows "(case out of
      Inl e \<Rightarrow> d' = d
    | Inr u \<Rightarrow> (\<exists>g t c. GuardAttempt (clk E 1) k [TaskExecuting] d = Inr g \<and>
        find_by t_id (ga_task g) (db_tasks d') = Some t \<and> t_state t = TaskAwaitingVerification \<and> t_attempt t = Some k \<and>
        db_completions d' = db_completions d @ [c] \<and> co_task c = ga_task g \<and> co_attempt c = k \<and>
        co_evidence c = normalizeIDs evidence \<and> co_hash c = digest (normalizeIDs evidence) \<and>
        set evidence - {[]} \<subseteq> evi_id ` set (db_evidence d) \<and> set evidence - {[]} \<noteq> {} \<and>
        (\<forall>d2. exec_le d' d2 \<longrightarrow> (\<forall>now allowed. \<exists>e. GuardAttempt now k allowed d2 = Inl e) \<and>
           (\<forall>digest E evidence. \<exists>e. CompleteAttempt digest E k evidence d2 = (d2, Inl e)))))"
proof (cases out)
  case (Inl e)
  with run show ?thesis
    by (auto simp: CompleteAttempt_def WithGuardedAttempt_def with_tx_Inl_iff split: if_splits)
next
  case (Inr u)
  have "CompleteAttempt digest E k evidence d = (d', Inr u)" using run Inr by simp
  from CompleteAttempt_success [OF ok this] show ?thesis by (simp only: Inr sum.case)
qed

lemma CompleteAttempt_behaviour_witness:
  "\<exists>e. CompleteAttempt demo_digest demo_env3 ''attempt_1'' [''e1''] demo_completed = (demo_completed, Inl e)"
proof -
  have run: "CompleteAttempt demo_digest demo_env2 ''attempt_1'' [''e1'', [], ''e1''] demo_working = (demo_completed, Inr ())"
    by code_simp
  show ?thesis
    using CompleteAttempt_behaviour [OF demo_working_ok(1) run] by auto
qed

text \<open>
  What acceptance does to the other tasks: the accepted task SUCCEEDED, and of the others exactly those
  become ELIGIBLE that were CREATED, depend on it, and whose remaining dependencies have all succeeded;
  every other task is as before.
\<close>

theorem AcceptTask_unlocks:
  assumes ok: "exec_ok d" and run: "AcceptTask E k q d = (d', Inr u)"
  shows "(\<exists>t. find_by t_id k (db_tasks d) = Some t \<and> find_by t_id k (db_tasks d') =
        Some (t\<lparr>t_state := TaskSucceeded, t_updated := clk E 0\<rparr>)) \<and>
    (\<forall>j t. j \<noteq> k \<and> find_by t_id j (db_tasks d) = Some t \<longrightarrow> find_by t_id j (db_tasks d') =
       Some (if t_state t = TaskCreated \<and> (j, k) \<in> set (db_deps d) \<and>
               (\<forall>i s. (j, i) \<in> set (db_deps d) \<and> i \<noteq> k \<and> find_by t_id i (db_tasks d) = Some s \<longrightarrow>
                  t_state s = TaskSucceeded)
             then t\<lparr>t_state := TaskEligible, t_updated := clk E 0\<rparr> else t))"
proof -
  from run obtain t0 a where t0: "find_by t_id k (db_tasks d) = Some t0" "t_state t0 = TaskAwaitingVerification"
    and acc: "accept_writes E k a q d = Inr d'"
    by (rule AcceptTask_Inr)
  let ?f = "\<lambda>t. t\<lparr>t_state := TaskSucceeded, t_updated := clk E 0\<rparr>"
  from acc obtain r vs events ts where
    ts: "ts = update_where (\<lambda>t. t_id t = k \<and> t_state t = TaskAwaitingVerification) ?f (db_tasks d)"
    and d': "d' = (unlock_dependents (clk E 0) k (d\<lparr>db_tasks := ts\<rparr>))
       \<lparr>db_acceptances := db_acceptances d @ [r], db_verifications := vs, db_events := events\<rparr>"
    by (rule accept_writes_Inr)
  have find_ts: "find_by t_id j ts = (if j = k then Some (?f t0) else find_by t_id j (db_tasks d))" for j
    unfolding ts using t0 find_by_SomeD [OF t0(1)]
    by (subst find_by_update_where) (auto dest: find_by_SomeD intro!: option.map_ident_strong)
  have distinct_ts: "distinct (map t_id ts)"
    unfolding ts by (subst map_key_update_where) (simp_all add: exec_okD(1) [OF ok])
  have unmet: "unmet (d\<lparr>db_tasks := ts\<rparr>) j = 0 \<longleftrightarrow> (\<forall>i s. (j, i) \<in> set (db_deps d) \<and> i \<noteq> k \<and>
      find_by t_id i (db_tasks d) = Some s \<longrightarrow> t_state s = TaskSucceeded)" for j
    unfolding unmet_zero_iff [of "d\<lparr>db_tasks := ts\<rparr>", simplified, OF distinct_ts] find_ts by auto
  have find_d': "find_by t_id j (db_tasks d') = map_option (\<lambda>t. if unlocked (d\<lparr>db_tasks := ts\<rparr>) k t
      then t\<lparr>t_state := TaskEligible, t_updated := clk E 0\<rparr> else t) (find_by t_id j ts)" for j
    by (simp add: d' unlock_dependents_def find_by_update_where)
  have "find_by t_id k (db_tasks d') = Some (?f t0)"
    by (simp add: find_d' find_ts unlocked_def)
  moreover have "find_by t_id j (db_tasks d') = Some (if t_state t = TaskCreated \<and> (j, k) \<in> set (db_deps d) \<and>
               (\<forall>i s. (j, i) \<in> set (db_deps d) \<and> i \<noteq> k \<and> find_by t_id i (db_tasks d) = Some s \<longrightarrow>
                  t_state s = TaskSucceeded)
             then t\<lparr>t_state := TaskEligible, t_updated := clk E 0\<rparr> else t)"
    if "j \<noteq> k" "find_by t_id j (db_tasks d) = Some t" for j t
  proof -
    have "exists_where (\<lambda>p. fst p = j \<and> snd p = k) (db_deps d) \<longleftrightarrow> (j, k) \<in> set (db_deps d)"
      by (force simp: exists_where_iff)
    then have "unlocked (d\<lparr>db_tasks := ts\<rparr>) k t \<longleftrightarrow> t_state t = TaskCreated \<and> (j, k) \<in> set (db_deps d) \<and>
        unmet (d\<lparr>db_tasks := ts\<rparr>) j = 0"
      using find_by_SomeD [OF that(2)] by (simp add: unlocked_def)
    then show ?thesis using that by (simp add: find_d' find_ts unmet)
  qed
  ultimately show ?thesis using t0(1) by blast
qed

definition demo_waiting :: db where
  "demo_waiting = demo_completed\<lparr>db_tasks := db_tasks demo_completed @
      [(new_task 5 ''8'' [] (demo_request ''y'' []) [])\<lparr>t_state := TaskCreated\<rparr>,
       (new_task 5 ''9'' [] (demo_request ''z'' []) [])\<lparr>t_state := TaskCreated\<rparr>],
     db_deps := [(''task_8'', ''task_1''), (''task_9'', ''task_1''), (''task_9'', ''task_8'')]\<rparr>"

lemma AcceptTask_unlocks_witness:
  "map (\<lambda>k. map_option t_state (find_by t_id k (db_tasks (fst (AcceptTask demo_env3 ''task_1'' demo_acceptance demo_waiting)))))
     [''task_1'', ''task_8'', ''task_9''] = [Some TaskSucceeded, Some TaskEligible, Some TaskCreated]"
proof -
  have ok: "exec_ok demo_waiting" by code_simp
  have run: "AcceptTask demo_env3 ''task_1'' demo_acceptance demo_waiting =
      (fst (AcceptTask demo_env3 ''task_1'' demo_acceptance demo_waiting), Inr ())"
    by code_simp
  have rows: "map t_state (db_tasks demo_waiting) = [TaskAwaitingVerification, TaskCreated, TaskCreated]"
    "map t_id (db_tasks demo_waiting) = [''task_1'', ''task_8'', ''task_9'']"
    "db_deps demo_waiting = [(''task_8'', ''task_1''), (''task_9'', ''task_1''), (''task_9'', ''task_8'')]"
    by code_simp+
  then obtain t1 t8 t9 where "db_tasks demo_waiting = [t1, t8, t9]" "t_id t1 = ''task_1''" "t_id t8 = ''task_8''"
    "t_id t9 = ''task_9''" "t_state t8 = TaskCreated" "t_state t9 = TaskCreated"
    by (auto simp: map_eq_Cons_conv)
  then have "find_by t_id ''task_8'' (db_tasks demo_waiting) = Some t8" "t_state t8 = TaskCreated"
    "find_by t_id ''task_9'' (db_tasks demo_waiting) = Some t9" "t_state t9 = TaskCreated"
    by (simp_all add: find_by_Cons)
  with AcceptTask_unlocks [OF ok run] rows(3) show ?thesis by auto
qed

text \<open>
  A manifest is a set: the evidence lists of a completion or an acceptance matter only through the
  identifiers in them that are not empty, so order, repetition and blanks change neither the digest
  nor any other part of the result.
\<close>

theorem manifest_is_a_set:
  assumes "set e1 - {[]} = set e2 - {[]}"
  shows "CompleteAttempt digest E k e1 d = CompleteAttempt digest E k e2 d \<and>
    AcceptTask E j (q\<lparr>aq_evidence := e1\<rparr>) d = AcceptTask E j (q\<lparr>aq_evidence := e2\<rparr>) d"
proof -
  have "normalizeIDs e1 = normalizeIDs e2"
    by (rule evidence_ids.norm_eqI) (use assms in simp)
  moreover from this have "accept_body E j (q\<lparr>aq_evidence := e1\<rparr>) = accept_body E j (q\<lparr>aq_evidence := e2\<rparr>)"
    by (intro ext) (simp add: accept_body_def accept_writes_def split: option.split)
  ultimately show ?thesis by (simp add: CompleteAttempt_def AcceptTask_def)
qed

lemma manifest_is_a_set_witness:
  "CompleteAttempt demo_digest demo_env2 ''attempt_1'' [''b'', [], ''a'', ''b''] demo_working =
   CompleteAttempt demo_digest demo_env2 ''attempt_1'' [''a'', ''b''] demo_working"
proof -
  have "set [''b'', [], ''a'', ''b''] - {[]} = set [''a'', ''b''] - {[] :: string}" by auto
  from manifest_is_a_set [OF this] show ?thesis by blast
qed

end
