(* ===== verification/Resources.thy ===== *)
theory Resources
  imports Store
begin

text \<open>
  The resource ledger (\<open>internal/resources/service.go\<close>): reservations against the hard limit of an
  envelope, their settlement, release and the state UNRESOLVED of an operation whose outcome is
  unknown. Amounts are Go \<open>int64\<close> values, so the subtraction of \<open>availableIn\<close> wraps, and SQLite's
  \<open>SUM\<close> fails when the total leaves the 64-bit range.
\<close>

subsection \<open>Requests\<close>

record Enforceability =
  en_cost_control :: cost_control
  en_require_hard_cap :: bool
  en_source :: string

fun cost_valid :: "cost_control \<Rightarrow> bool" where
  "cost_valid (CostOther _) = False"
| "cost_valid _ = True"

fun providesHardCeiling :: "cost_control \<Rightarrow> bool" where
  "providesHardCeiling CostTechnicallyCapped = True"
| "providesHardCeiling CostPrepaidQuota = True"
| "providesHardCeiling CostVerifiedStop = True"
| "providesHardCeiling _ = False"

definition validateReservationRequest :: "ID \<Rightarrow> int \<Rightarrow> Enforceability \<Rightarrow> unit res" where
  "validateReservationRequest envelope amount e =
     bindE (requireE (envelope \<noteq> [] \<and> amount > 0)
              (Err ''envelope id and positive reservation amount are required'')) (\<lambda>_.
     bindE (requireE (cost_valid (en_cost_control e)) (Err ''invalid cost control'')) (\<lambda>_.
     bindE (requireE (nonblank (en_source e)) (Err ''cost-control source is required'')) (\<lambda>_.
     requireE (\<not> (en_require_hard_cap e \<and> \<not> providesHardCeiling (en_cost_control e)))
       ErrHardCapUnavailable)))"

subsection \<open>The balance of an envelope\<close>

definition in_state :: "ID \<Rightarrow> reservation_state \<Rightarrow> reservation \<Rightarrow> bool" where
  "in_state envelope st r \<longleftrightarrow> r_envelope r = envelope \<and> r_state r = st"

definition settled_sum :: "ID \<Rightarrow> reservation list \<Rightarrow> int" where
  "settled_sum envelope =
     sum_where (in_state envelope ReservationSettled)
       (\<lambda>r. case r_settled r of None \<Rightarrow> 0 | Some x \<Rightarrow> x)"

definition reserved_sum :: "ID \<Rightarrow> reservation_state \<Rightarrow> reservation list \<Rightarrow> int" where
  "reserved_sum envelope st = sum_where (in_state envelope st) r_amount"

definition sql_sum :: "int \<Rightarrow> int res" where
  "sql_sum s = (if in64 s then Inr s else Inl (Err ''integer overflow''))"

definition availableIn :: "ID \<Rightarrow> db \<Rightarrow> int res" where
  "availableIn envelope d =
     (case find_by e_id envelope (db_envelopes d) of
        None \<Rightarrow> Inl (Err ''resource envelope not found'')
      | Some e \<Rightarrow>
          bindE (sql_sum (settled_sum envelope (db_reservations d))) (\<lambda>settled.
          bindE (sql_sum (reserved_sum envelope ReservationHeld (db_reservations d))) (\<lambda>held.
          bindE (sql_sum (reserved_sum envelope ReservationUnresolved (db_reservations d))) (\<lambda>unresolved.
          Inr (wrap64 (wrap64 (wrap64 (e_hard_limit e - settled) - held) - unresolved))))))"

definition Available :: "ID \<Rightarrow> db \<Rightarrow> int res" where
  "Available envelope d =
     bindE (requireE (envelope \<noteq> []) (Err ''envelope id is required'')) (\<lambda>_. availableIn envelope d)"

definition loadReservationState :: "ID \<Rightarrow> db \<Rightarrow> (reservation_state \<times> int option) res" where
  "loadReservationState reservation d =
     (case find_by r_id reservation (db_reservations d) of
        None \<Rightarrow> Inl (Err ''reservation not found'')
      | Some r \<Rightarrow> Inr (r_state r, r_settled r))"

subsection \<open>Operations inside a transaction\<close>

definition ReserveInTx ::
  "gtime \<Rightarrow> string \<Rightarrow> ID \<Rightarrow> int \<Rightarrow> Enforceability \<Rightarrow> db \<Rightarrow> (reservation \<times> db) res" where
  "ReserveInTx now rand envelope amount e d =
     bindE (validateReservationRequest envelope amount e) (\<lambda>_.
     let r = \<lparr>r_id = NewID ''reservation'' rand, r_envelope = envelope, r_state = ReservationHeld,
              r_amount = amount, r_settled = None, r_cost_control = en_cost_control e,
              r_source = trim_space (en_source e), r_hard_cap = en_require_hard_cap e,
              r_created = now, r_updated = now\<rparr> in
     bindE (availableIn envelope d) (\<lambda>available.
     bindE (requireE (\<not> amount > available) ErrBudgetExceeded) (\<lambda>_.
     bindE (insert_unique r_id r (db_reservations d)) (\<lambda>rows.
     Inr (r, d\<lparr>db_reservations := rows\<rparr>)))))"

definition set_reservation :: "ID \<Rightarrow> (reservation \<Rightarrow> reservation) \<Rightarrow> db \<Rightarrow> db" where
  "set_reservation reservation f d =
     d\<lparr>db_reservations := update_where (\<lambda>r. r_id r = reservation) f (db_reservations d)\<rparr>"

definition SettleInTx :: "gtime \<Rightarrow> ID \<Rightarrow> int \<Rightarrow> db \<Rightarrow> db res" where
  "SettleInTx now reservation actual d =
     bindE (requireE (\<not> (reservation = [] \<or> actual < 0))
              (Err ''reservation id and non-negative actual amount are required'')) (\<lambda>_.
     bindE (loadReservationState reservation d) (\<lambda>(st, settled).
     case st of
       ReservationSettled \<Rightarrow>
         if settled = Some actual then Inr d
         else Inl (Err ''reservation already settled with a different actual amount'')
     | ReservationReleased \<Rightarrow> Inl (Err ''cannot settle reservation in state'')
     | _ \<Rightarrow> Inr (set_reservation reservation
                   (\<lambda>r. r\<lparr>r_state := ReservationSettled, r_settled := Some actual,
                          r_updated := now\<rparr>) d)))"

definition MarkUnresolvedInTx :: "gtime \<Rightarrow> ID \<Rightarrow> db \<Rightarrow> db res" where
  "MarkUnresolvedInTx now reservation d =
     bindE (requireE (reservation \<noteq> []) (Err ''reservation id is required'')) (\<lambda>_.
     bindE (loadReservationState reservation d) (\<lambda>(st, settled).
     case st of
       ReservationUnresolved \<Rightarrow> Inr d
     | ReservationHeld \<Rightarrow>
         Inr (set_reservation reservation
                (\<lambda>r. r\<lparr>r_state := ReservationUnresolved, r_updated := now\<rparr>) d)
     | _ \<Rightarrow> Inl (Err ''cannot mark reservation unresolved from state'')))"

definition ReleaseInTx :: "gtime \<Rightarrow> ID \<Rightarrow> db \<Rightarrow> db res" where
  "ReleaseInTx now reservation d =
     bindE (requireE (reservation \<noteq> []) (Err ''reservation id is required'')) (\<lambda>_.
     bindE (loadReservationState reservation d) (\<lambda>(st, settled).
     case st of
       ReservationReleased \<Rightarrow> Inr d
     | ReservationSettled \<Rightarrow> Inl (Err ''cannot release reservation in state'')
     | _ \<Rightarrow> Inr (set_reservation reservation
                   (\<lambda>r. r\<lparr>r_state := ReservationReleased, r_updated := now\<rparr>) d)))"

subsection \<open>The public services\<close>

definition Reserve ::
  "gtime \<Rightarrow> string \<Rightarrow> ID \<Rightarrow> int \<Rightarrow> Enforceability \<Rightarrow> db \<Rightarrow> db \<times> reservation res" where
  "Reserve now rand envelope amount e = with_tx (ReserveInTx now rand envelope amount e)"

definition Settle :: "gtime \<Rightarrow> ID \<Rightarrow> int \<Rightarrow> db \<Rightarrow> db \<times> unit res" where
  "Settle now reservation actual = with_tx (no_result (SettleInTx now reservation actual))"

definition MarkUnresolved :: "gtime \<Rightarrow> ID \<Rightarrow> db \<Rightarrow> db \<times> unit res" where
  "MarkUnresolved now reservation = with_tx (no_result (MarkUnresolvedInTx now reservation))"

definition Release :: "gtime \<Rightarrow> ID \<Rightarrow> db \<Rightarrow> db \<times> unit res" where
  "Release now reservation = with_tx (no_result (ReleaseInTx now reservation))"

subsection \<open>The ledger invariant\<close>

definition live :: "reservation \<Rightarrow> bool" where
  "live r \<longleftrightarrow> r_state r = ReservationHeld \<or> r_state r = ReservationUnresolved"

definition exposure :: "ID \<Rightarrow> db \<Rightarrow> int" where
  "exposure envelope d =
     sum_where (\<lambda>r. r_envelope r = envelope \<and> live r) r_amount (db_reservations d)"

definition reservation_ok :: "reservation \<Rightarrow> bool" where
  "reservation_ok r \<longleftrightarrow> 0 < r_amount r \<and> in64 (r_amount r) \<and>
     (r_state r = ReservationSettled \<longleftrightarrow> r_settled r \<noteq> None) \<and>
     (\<forall>x \<in> set_option (r_settled r). 0 \<le> x \<and> in64 x)"

definition envelope_ok :: "db \<Rightarrow> envelope_row \<Rightarrow> bool" where
  "envelope_ok d e \<longleftrightarrow> in64 (e_hard_limit e) \<and> exposure (e_id e) d \<le> e_hard_limit e"

definition ledger_ok :: "db \<Rightarrow> bool" where
  "ledger_ok d \<longleftrightarrow> distinct (map r_id (db_reservations d)) \<and> distinct (map e_id (db_envelopes d)) \<and>
     list_all reservation_ok (db_reservations d) \<and> list_all (envelope_ok d) (db_envelopes d)"

lemma exposure_split:
  "exposure envelope d = reserved_sum envelope ReservationHeld (db_reservations d)
     + reserved_sum envelope ReservationUnresolved (db_reservations d)"
proof -
  have "sum_where (\<lambda>r. r_envelope r = envelope \<and> live r) r_amount rows =
      sum_where (in_state envelope ReservationHeld) r_amount rows
      + sum_where (in_state envelope ReservationUnresolved) r_amount rows" for rows
    by (induction rows) (auto simp: sum_where_Cons live_def in_state_def)
  then show ?thesis by (simp add: exposure_def reserved_sum_def)
qed

lemma ledger_okD:
  assumes "ledger_ok d"
  shows "distinct (map r_id (db_reservations d))" "distinct (map e_id (db_envelopes d))"
    "\<And>r. r \<in> set (db_reservations d) \<Longrightarrow> reservation_ok r"
    "\<And>e. e \<in> set (db_envelopes d) \<Longrightarrow> envelope_ok d e"
  using assms by (auto simp: ledger_ok_def list_all_iff)

lemma reserved_sum_nonneg: "ledger_ok d \<Longrightarrow> 0 \<le> reserved_sum envelope st (db_reservations d)"
  unfolding reserved_sum_def
  by (rule sum_where_nonneg) (auto dest!: ledger_okD(3) simp: reservation_ok_def)

lemma settled_sum_nonneg: "ledger_ok d \<Longrightarrow> 0 \<le> settled_sum envelope (db_reservations d)"
  unfolding settled_sum_def
  by (rule sum_where_nonneg) (auto dest!: ledger_okD(3) simp: reservation_ok_def split: option.split)

lemma exposure_nonneg: "ledger_ok d \<Longrightarrow> 0 \<le> exposure envelope d"
  by (simp add: exposure_split reserved_sum_nonneg)

lemma ledger_ok_cong:
  "db_reservations d' = db_reservations d \<Longrightarrow> db_envelopes d' = db_envelopes d \<Longrightarrow>
   ledger_ok d' = ledger_ok d"
proof -
  assume eq: "db_reservations d' = db_reservations d" "db_envelopes d' = db_envelopes d"
  then have "envelope_ok d' = envelope_ok d"
    by (simp add: fun_eq_iff envelope_ok_def exposure_def)
  with eq show "ledger_ok d' = ledger_ok d" by (simp add: ledger_ok_def)
qed

text \<open>The balance the code computes is the exact one: in a ledger state no subtraction wraps.\<close>

definition balance :: "ID \<Rightarrow> db \<Rightarrow> int" where
  "balance envelope d =
     (case find_by e_id envelope (db_envelopes d) of None \<Rightarrow> 0 | Some e \<Rightarrow> e_hard_limit e)
     - settled_sum envelope (db_reservations d) - exposure envelope d"

lemma availableIn_ok:
  assumes ok: "ledger_ok d" and found: "find_by e_id envelope (db_envelopes d) = Some e"
  shows "availableIn envelope d =
    (if in64 (settled_sum envelope (db_reservations d)) then Inr (balance envelope d)
     else Inl (Err ''integer overflow''))"
proof (cases "in64 (settled_sum envelope (db_reservations d))")
  case True
  let ?held = "reserved_sum envelope ReservationHeld (db_reservations d)"
  let ?unres = "reserved_sum envelope ReservationUnresolved (db_reservations d)"
  have "envelope_ok d e" and "e_id e = envelope"
    using ledger_okD(4) [OF ok] find_by_SomeD [OF found] by auto
  then have sum: "?held + ?unres \<le> e_hard_limit e" and lim: "in64 (e_hard_limit e)"
    by (auto simp: envelope_ok_def exposure_split)
  have nonneg: "0 \<le> ?held" "0 \<le> ?unres" "0 \<le> settled_sum envelope (db_reservations d)"
    using ok by (simp_all add: reserved_sum_nonneg settled_sum_nonneg)
  have ranges: "in64 ?held" "in64 ?unres"
    "in64 (e_hard_limit e - settled_sum envelope (db_reservations d))"
    "in64 (e_hard_limit e - settled_sum envelope (db_reservations d) - ?held)"
    "in64 (e_hard_limit e - settled_sum envelope (db_reservations d) - ?held - ?unres)"
    using sum lim nonneg True unfolding in64_def by linarith+
  then show ?thesis
    using True found by (simp add: availableIn_def sql_sum_def wrap64_id balance_def exposure_split)
next
  case False
  then show ?thesis using found by (simp add: availableIn_def sql_sum_def)
qed

lemma availableIn_Inr:
  "ledger_ok d \<Longrightarrow> availableIn envelope d = Inr a \<Longrightarrow>
   (\<exists>e. find_by e_id envelope (db_envelopes d) = Some e) \<and> a = balance envelope d"
  using availableIn_ok
  by (cases "find_by e_id envelope (db_envelopes d)") (fastforce simp: availableIn_def split: if_splits)+

text \<open>A row that leaves the live states, or moves between them, keeps the invariant.\<close>

lemma exposure_set_reservation:
  assumes "ledger_ok d" and "find_by r_id k (db_reservations d) = Some r"
    and "r_id (f r) = r_id r" "r_envelope (f r) = r_envelope r" "r_amount (f r) = r_amount r"
  shows "exposure envelope (set_reservation k f d) = exposure envelope d
    - (if r_envelope r = envelope \<and> live r then r_amount r else 0)
    + (if r_envelope r = envelope \<and> live (f r) then r_amount r else 0)"
  using sum_where_update_key [of r_id "db_reservations d" k r f
      "\<lambda>r. r_envelope r = envelope \<and> live r" r_amount] assms
  by (simp add: exposure_def set_reservation_def ledger_okD(1))

lemma ledger_ok_set_reservation:
  assumes ok: "ledger_ok d" and row: "find_by r_id k (db_reservations d) = Some r" and "live r"
    and f: "\<And>x. r_id (f x) = r_id x" "\<And>x. r_envelope (f x) = r_envelope x" "\<And>x. r_amount (f x) = r_amount x"
    and "reservation_ok (f r)"
  shows "ledger_ok (set_reservation k f d)"
proof -
  have pos: "0 < r_amount r"
    using ledger_okD(3) [OF ok] find_by_SomeD [OF row] by (auto simp: reservation_ok_def)
  have less: "exposure envelope (set_reservation k f d) \<le> exposure envelope d" for envelope
    using pos exposure_set_reservation [OF ok row, where f = f, OF f] \<open>live r\<close>
    by auto
  have "reservation_ok x" if "x \<in> set (db_reservations (set_reservation k f d))" for x
    using update_where_key_mem [OF ledger_okD(1) [OF ok] row] that \<open>reservation_ok (f r)\<close>
      ledger_okD(3) [OF ok]
    by (auto simp: set_reservation_def)
  moreover have "envelope_ok (set_reservation k f d) e" if "e \<in> set (db_envelopes d)" for e
    using ledger_okD(4) [OF ok that] less [of "e_id e"] by (auto simp: envelope_ok_def)
  moreover have "distinct (map r_id (db_reservations (set_reservation k f d)))"
    using ledger_okD(1) [OF ok] f(1) by (simp add: set_reservation_def map_key_update_where)
  ultimately show ?thesis
    using ledger_okD(2) [OF ok] by (simp add: ledger_ok_def list_all_iff set_reservation_def)
qed

subsection \<open>Each operation keeps the invariant\<close>

lemma loadReservationState_Inr:
  "loadReservationState k d = Inr (st, settled) \<longleftrightarrow>
   (\<exists>r. find_by r_id k (db_reservations d) = Some r \<and> r_state r = st \<and> r_settled r = settled)"
  by (auto simp: loadReservationState_def split: option.splits)

lemma ReserveInTx_Inr:
  "ReserveInTx now rand envelope amount e d = Inr (r, d') \<longleftrightarrow>
   validateReservationRequest envelope amount e = Inr () \<and>
   (\<exists>a. availableIn envelope d = Inr a \<and> amount \<le> a) \<and>
   NewID ''reservation'' rand \<notin> r_id ` set (db_reservations d) \<and>
   r = \<lparr>r_id = NewID ''reservation'' rand, r_envelope = envelope, r_state = ReservationHeld,
        r_amount = amount, r_settled = None, r_cost_control = en_cost_control e,
        r_source = trim_space (en_source e), r_hard_cap = en_require_hard_cap e,
        r_created = now, r_updated = now\<rparr> \<and>
   d' = d\<lparr>db_reservations := db_reservations d @ [r]\<rparr>"
  by (auto simp: ReserveInTx_def bind_simps insert_unique_Inr_iff Let_def not_less)

lemma SettleInTx_Inr:
  "SettleInTx now k x d = Inr d' \<longleftrightarrow>
   k \<noteq> [] \<and> 0 \<le> x \<and> (\<exists>r. find_by r_id k (db_reservations d) = Some r \<and>
     (r_state r = ReservationSettled \<and> r_settled r = Some x \<and> d' = d \<or>
      live r \<and> d' = set_reservation k
        (\<lambda>r. r\<lparr>r_state := ReservationSettled, r_settled := Some x, r_updated := now\<rparr>) d))"
  by (cases "find_by r_id k (db_reservations d)")
    (auto simp: SettleInTx_def requireE_def loadReservationState_def live_def bindE_def
      split: reservation_state.split if_splits)

lemma MarkUnresolvedInTx_Inr:
  "MarkUnresolvedInTx now k d = Inr d' \<longleftrightarrow>
   k \<noteq> [] \<and> (\<exists>r. find_by r_id k (db_reservations d) = Some r \<and>
     (r_state r = ReservationUnresolved \<and> d' = d \<or>
      r_state r = ReservationHeld \<and> d' = set_reservation k
        (\<lambda>r. r\<lparr>r_state := ReservationUnresolved, r_updated := now\<rparr>) d))"
  by (cases "find_by r_id k (db_reservations d)")
    (auto simp: MarkUnresolvedInTx_def requireE_def loadReservationState_def bindE_def
      split: reservation_state.split if_splits)

lemma ReleaseInTx_Inr:
  "ReleaseInTx now k d = Inr d' \<longleftrightarrow>
   k \<noteq> [] \<and> (\<exists>r. find_by r_id k (db_reservations d) = Some r \<and>
     (r_state r = ReservationReleased \<and> d' = d \<or>
      live r \<and> d' = set_reservation k
        (\<lambda>r. r\<lparr>r_state := ReservationReleased, r_updated := now\<rparr>) d))"
  by (cases "find_by r_id k (db_reservations d)")
    (auto simp: ReleaseInTx_def requireE_def loadReservationState_def live_def bindE_def
      split: reservation_state.split if_splits)

lemmas ledger_Inr = ReserveInTx_Inr SettleInTx_Inr MarkUnresolvedInTx_Inr ReleaseInTx_Inr

lemma validateReservationRequest_pos:
  "validateReservationRequest envelope amount e = Inr u \<Longrightarrow> envelope \<noteq> [] \<and> 0 < amount"
  by (auto simp: validateReservationRequest_def bind_simps)

lemma row_ok: "ledger_ok d \<Longrightarrow> find_by r_id k (db_reservations d) = Some r \<Longrightarrow> reservation_ok r"
  using ledger_okD(3) find_by_SomeD by metis

lemma exposure_reserve:
  "ReserveInTx now rand envelope amount e d = Inr (r, d') \<Longrightarrow>
   exposure k d' = exposure k d + (if k = envelope then amount else 0)"
  by (auto simp: ReserveInTx_Inr exposure_def sum_where_append sum_where_Cons live_def)

lemma ReserveInTx_ok:
  assumes ok: "ledger_ok d" and "in64 amount"
    and res: "ReserveInTx now rand envelope amount e d = Inr (r, d')"
  shows "ledger_ok d'"
proof -
  obtain a where a: "availableIn envelope d = Inr a" "amount \<le> a" and pos: "0 < amount"
    and new: "r_id r \<notin> r_id ` set (db_reservations d)" and "reservation_ok r"
    and d': "d' = d\<lparr>db_reservations := db_reservations d @ [r]\<rparr>"
    using res \<open>in64 amount\<close>
    by (auto simp: ReserveInTx_Inr reservation_ok_def dest: validateReservationRequest_pos)
  have room: "amount \<le> e_hard_limit x - exposure (e_id x) d"
    if "find_by e_id envelope (db_envelopes d) = Some x" for x
    using availableIn_Inr [OF ok a(1)] a(2) that find_by_SomeD [OF that]
      settled_sum_nonneg [OF ok, of envelope]
    by (auto simp: balance_def)
  have "envelope_ok d' x" if x: "x \<in> set (db_envelopes d)" for x
    using ledger_okD(4) [OF ok x] exposure_reserve [OF res, of "e_id x"]
      room [of x] find_by_member [OF ledger_okD(2) [OF ok] x]
    by (auto simp: envelope_ok_def)
  with ledger_okD [OF ok] new \<open>reservation_ok r\<close> show ?thesis
    by (auto simp: ledger_ok_def list_all_iff d')
qed

lemma SettleInTx_ok:
  "ledger_ok d \<Longrightarrow> in64 x \<Longrightarrow> SettleInTx now k x d = Inr d' \<Longrightarrow> ledger_ok d'"
  by (auto simp: SettleInTx_Inr intro!: ledger_ok_set_reservation dest: row_ok)
    (auto simp: reservation_ok_def dest!: row_ok)

lemma MarkUnresolvedInTx_ok:
  "ledger_ok d \<Longrightarrow> MarkUnresolvedInTx now k d = Inr d' \<Longrightarrow> ledger_ok d'"
  by (auto simp: MarkUnresolvedInTx_Inr live_def intro!: ledger_ok_set_reservation dest: row_ok)
    (auto simp: reservation_ok_def dest!: row_ok)

lemma ReleaseInTx_ok:
  "ledger_ok d \<Longrightarrow> ReleaseInTx now k d = Inr d' \<Longrightarrow> ledger_ok d'"
  by (auto simp: ReleaseInTx_Inr live_def intro!: ledger_ok_set_reservation dest: row_ok)
    (auto simp: reservation_ok_def dest!: row_ok)

lemmas ledger_ops_ok = ReserveInTx_ok SettleInTx_ok MarkUnresolvedInTx_ok ReleaseInTx_ok

subsection \<open>The ledger as a transition system\<close>

text \<open>One step is one call of a public operation, with any arguments and whatever it returns.\<close>

inductive ledger_step :: "db \<Rightarrow> db \<Rightarrow> bool" where
  step_reserve: "in64 amount \<Longrightarrow> ledger_step d (fst (Reserve now rand envelope amount e d))"
| step_settle: "in64 actual \<Longrightarrow> ledger_step d (fst (Settle now k actual d))"
| step_mark: "ledger_step d (fst (MarkUnresolved now k d))"
| step_release: "ledger_step d (fst (Release now k d))"

inductive_cases ledger_stepE: "ledger_step d d'"

lemma ledger_step_cases:
  assumes "ledger_step d d'"
  obtains "d' = d"
  | now rand envelope amount e r where "in64 amount" "ReserveInTx now rand envelope amount e d = Inr (r, d')"
  | now k actual where "in64 actual" "SettleInTx now k actual d = Inr d'"
  | now k where "MarkUnresolvedInTx now k d = Inr d'"
  | now k where "ReleaseInTx now k d = Inr d'"
  using assms
  by (elim ledger_stepE)
    (force simp: Reserve_def Settle_def MarkUnresolved_def Release_def with_tx_def no_result_def
      bindE_def split: sum.splits prod.splits)+

interpretation ledger: kept_invariant ledger_step ledger_ok
  by unfold_locales (erule ledger_step_cases, auto intro: ledger_ops_ok)

text \<open>
  The contract of one envelope, without rows: what is spent and what is exposed. Holding needs room
  under the limit; settling and releasing take a hold away, at any actual cost.
\<close>

record budget =
  b_limit :: int
  b_spent :: int
  b_exposed :: int

inductive budget_step :: "budget \<Rightarrow> budget \<Rightarrow> bool" where
  hold: "0 < a \<Longrightarrow> b_spent b + b_exposed b + a \<le> b_limit b \<Longrightarrow>
    budget_step b (b\<lparr>b_exposed := b_exposed b + a\<rparr>)"
| spend: "0 < a \<Longrightarrow> a \<le> b_exposed b \<Longrightarrow> 0 \<le> x \<Longrightarrow>
    budget_step b (b\<lparr>b_exposed := b_exposed b - a, b_spent := b_spent b + x\<rparr>)"
| free: "0 < a \<Longrightarrow> a \<le> b_exposed b \<Longrightarrow> budget_step b (b\<lparr>b_exposed := b_exposed b - a\<rparr>)"

definition budget_of :: "ID \<Rightarrow> db \<Rightarrow> budget option" where
  "budget_of envelope d = map_option
     (\<lambda>e. \<lparr>b_limit = e_hard_limit e, b_spent = settled_sum envelope (db_reservations d),
           b_exposed = exposure envelope d\<rparr>)
     (find_by e_id envelope (db_envelopes d))"

lemma settled_sum_reserve:
  "ReserveInTx now rand envelope amount e d = Inr (r, d') \<Longrightarrow>
   settled_sum k (db_reservations d') = settled_sum k (db_reservations d)"
  by (auto simp: ReserveInTx_Inr settled_sum_def sum_where_append sum_where_Cons in_state_def)

lemma settled_sum_set_reservation:
  assumes "ledger_ok d" and "find_by r_id k (db_reservations d) = Some r" and "live r"
    and "r_id (f r) = r_id r" "r_envelope (f r) = r_envelope r"
  shows "settled_sum envelope (db_reservations (set_reservation k f d)) =
    settled_sum envelope (db_reservations d)
    + (if r_envelope r = envelope \<and> r_state (f r) = ReservationSettled
       then (case r_settled (f r) of None \<Rightarrow> 0 | Some x \<Rightarrow> x) else 0)"
  using sum_where_update_key [of r_id "db_reservations d" k r f
      "in_state envelope ReservationSettled" "\<lambda>r. case r_settled r of None \<Rightarrow> 0 | Some x \<Rightarrow> x"] assms
  by (auto simp: settled_sum_def set_reservation_def ledger_okD(1) in_state_def live_def)

lemma member_le_exposure:
  assumes ok: "ledger_ok d" and row: "find_by r_id k (db_reservations d) = Some r" and "live r"
  shows "0 < r_amount r \<and> r_amount r \<le> exposure (r_envelope r) d"
proof -
  have "0 < r_amount r" using row_ok [OF ok row] by (simp add: reservation_ok_def)
  moreover have "r_amount r \<le> sum_where (\<lambda>x. r_envelope x = r_envelope r \<and> live x) r_amount rows"
    if "r \<in> set rows" "\<And>x. x \<in> set rows \<Longrightarrow> 0 < r_amount x" for rows
    using that
  proof (induction rows)
    case (Cons x rows)
    then have "0 \<le> sum_where (\<lambda>x. r_envelope x = r_envelope r \<and> live x) r_amount rows"
      by (intro sum_where_nonneg) (simp add: less_imp_le)
    with Cons \<open>live r\<close> show ?case by (force simp: sum_where_Cons)
  qed simp
  ultimately show ?thesis
    using find_by_SomeD [OF row] ledger_okD(3) [OF ok]
    by (simp add: exposure_def reservation_ok_def)
qed

lemma budget_of_set_reservation:
  assumes "find_by e_id envelope (db_envelopes d) = Some e"
  shows "budget_of envelope (set_reservation k f d) = Some
    \<lparr>b_limit = e_hard_limit e, b_spent = settled_sum envelope (db_reservations (set_reservation k f d)),
     b_exposed = exposure envelope (set_reservation k f d)\<rparr>"
  using assms by (simp add: budget_of_def set_reservation_def)

lemma budget_step_reserve:
  assumes ok: "ledger_ok d" and res: "ReserveInTx now rand k amount e d = Inr (r, d')"
    and b: "budget_of envelope d = Some b"
  shows "\<exists>b'. budget_of envelope d' = Some b' \<and> (b' = b \<or> budget_step b b')"
proof -
  obtain x where x: "find_by e_id envelope (db_envelopes d) = Some x"
    and b_eq: "b = \<lparr>b_limit = e_hard_limit x, b_spent = settled_sum envelope (db_reservations d),
      b_exposed = exposure envelope d\<rparr>"
    using b by (auto simp: budget_of_def)
  have env: "db_envelopes d' = db_envelopes d" and pos: "0 < amount"
    using res by (auto simp: ReserveInTx_Inr dest: validateReservationRequest_pos)
  have b': "budget_of envelope d' = Some (b\<lparr>b_exposed := b_exposed b + (if envelope = k then amount else 0)\<rparr>)"
    using x env settled_sum_reserve [OF res] exposure_reserve [OF res] by (simp add: budget_of_def b_eq)
  show ?thesis
  proof (cases "envelope = k")
    case True
    with res have "amount \<le> balance envelope d"
      by (auto simp: ReserveInTx_Inr dest: availableIn_Inr [OF ok])
    with x have "b_spent b + b_exposed b + amount \<le> b_limit b" by (simp add: balance_def b_eq)
    with pos b' True show ?thesis by (auto intro: budget_step.hold)
  qed (use b' in simp)
qed

lemma budget_step_set_reservation:
  assumes ok: "ledger_ok d" and row: "find_by r_id k (db_reservations d) = Some r" and "live r"
    and f: "r_id (f r) = r_id r" "r_envelope (f r) = r_envelope r" "r_amount (f r) = r_amount r"
    and f_ok: "reservation_ok (f r)" and b: "budget_of envelope d = Some b"
  shows "\<exists>b'. budget_of envelope (set_reservation k f d) = Some b' \<and> (b' = b \<or> budget_step b b')"
proof -
  obtain x where x: "find_by e_id envelope (db_envelopes d) = Some x"
    and b_eq: "b = \<lparr>b_limit = e_hard_limit x, b_spent = settled_sum envelope (db_reservations d),
      b_exposed = exposure envelope d\<rparr>"
    using b by (auto simp: budget_of_def)
  note b' = budget_of_set_reservation [OF x, of k f]
  note sums = settled_sum_set_reservation [where f = f, OF ok row \<open>live r\<close> f(1,2)]
    exposure_set_reservation [where f = f, OF ok row f]
  show ?thesis
  proof (cases "r_envelope r = envelope \<and> \<not> live (f r)")
    case True
    then have a: "0 < r_amount r" "r_amount r \<le> b_exposed b"
      using member_le_exposure [OF ok row \<open>live r\<close>] by (auto simp: b_eq)
    show ?thesis
    proof (cases "r_settled (f r)")
      case None
      then have "r_state (f r) \<noteq> ReservationSettled" using f_ok by (simp add: reservation_ok_def)
      with b' sums True \<open>live r\<close> budget_step.free [OF a] show ?thesis by (simp add: b_eq)
    next
      case (Some y)
      then have "r_state (f r) = ReservationSettled" "0 \<le> y" using f_ok by (auto simp: reservation_ok_def)
      with b' sums True \<open>live r\<close> Some budget_step.spend [OF a, of y] show ?thesis by (simp add: b_eq)
    qed
  next
    case False
    with b' sums \<open>live r\<close> show ?thesis by (auto simp: b_eq live_def)
  qed
qed

lemma budget_step_ops:
  assumes ok: "ledger_ok d" and b: "budget_of envelope d = Some b"
  shows "SettleInTx now k x d = Inr d' \<Longrightarrow> in64 x \<Longrightarrow>
      \<exists>b'. budget_of envelope d' = Some b' \<and> (b' = b \<or> budget_step b b')"
    and "MarkUnresolvedInTx now k d = Inr d' \<Longrightarrow>
      \<exists>b'. budget_of envelope d' = Some b' \<and> (b' = b \<or> budget_step b b')"
    and "ReleaseInTx now k d = Inr d' \<Longrightarrow>
      \<exists>b'. budget_of envelope d' = Some b' \<and> (b' = b \<or> budget_step b b')"
proof -
  note update = budget_step_set_reservation [OF ok _ _ _ _ _ _ b]
  have row: "0 < r_amount r \<and> in64 (r_amount r) \<and> (live r \<longrightarrow> r_settled r = None)"
    if "find_by r_id k (db_reservations d) = Some r" for r
    using row_ok [OF ok that] by (auto simp: reservation_ok_def live_def)
  show "\<exists>b'. budget_of envelope d' = Some b' \<and> (b' = b \<or> budget_step b b')"
    if "SettleInTx now k x d = Inr d'" "in64 x"
    using that b unfolding SettleInTx_Inr by (auto intro!: update simp: reservation_ok_def dest: row)
  show "\<exists>b'. budget_of envelope d' = Some b' \<and> (b' = b \<or> budget_step b b')"
    if "MarkUnresolvedInTx now k d = Inr d'"
    using that b unfolding MarkUnresolvedInTx_Inr
    by (auto intro!: update simp: reservation_ok_def live_def dest: row)
  show "\<exists>b'. budget_of envelope d' = Some b' \<and> (b' = b \<or> budget_step b b')"
    if "ReleaseInTx now k d = Inr d'"
    using that b unfolding ReleaseInTx_Inr by (auto intro!: update simp: reservation_ok_def dest: row)
qed

text \<open>A reservation that is settled or released keeps its row under every call.\<close>

lemma find_set_reservation_other:
  "j \<noteq> k \<Longrightarrow> (\<And>x. r_id (f x) = r_id x) \<Longrightarrow>
   find_by r_id j (db_reservations (set_reservation k f d)) = find_by r_id j (db_reservations d)"
  by (auto simp: set_reservation_def find_by_update_where option.map_ident_strong dest!: find_by_SomeD
      intro!: option.map_ident_strong)

lemma find_set_reservation:
  "(\<And>x. r_id (f x) = r_id x) \<Longrightarrow>
   find_by r_id k (db_reservations (set_reservation k f d)) = map_option f (find_by r_id k (db_reservations d))"
  by (auto simp: set_reservation_def find_by_update_where intro!: option.map_cong0 dest: find_by_SomeD
      split: if_splits)

lemma closed_row_step:
  assumes "ledger_step d d'" and row: "find_by r_id j (db_reservations d) = Some r" and "\<not> live r"
  shows "find_by r_id j (db_reservations d') = Some r"
  using assms(1)
proof (cases rule: ledger_step_cases)
  case (2 now rand envelope amount e r')
  then show ?thesis using row by (auto simp: ReserveInTx_Inr find_by_append)
next
  case (3 now k actual)
  then show ?thesis using assms(2,3)
    by (cases "j = k") (auto simp: SettleInTx_Inr find_set_reservation_other)
next
  case (4 now k)
  then show ?thesis using assms(2,3)
    by (cases "j = k") (auto simp: MarkUnresolvedInTx_Inr find_set_reservation_other live_def)
next
  case (5 now k)
  then show ?thesis using assms(2,3)
    by (cases "j = k") (auto simp: ReleaseInTx_Inr find_set_reservation_other)
qed (simp add: row)

subsection \<open>Properties\<close>

definition demo_ledger :: "reservation list \<Rightarrow> db" where
  "demo_ledger rows = empty_db\<lparr>db_envelopes :=
     [\<lparr>e_id = ''e'', e_parent = None, e_hard_limit = 10, e_created = 1\<rparr>], db_reservations := rows\<rparr>"

definition demo_hold :: "string \<Rightarrow> int \<Rightarrow> reservation_state \<Rightarrow> int option \<Rightarrow> reservation" where
  "demo_hold k amount st x = \<lparr>r_id = k, r_envelope = ''e'', r_state = st, r_amount = amount,
     r_settled = x, r_cost_control = CostPrepaidQuota, r_source = ''q'', r_hard_cap = True,
     r_created = 1, r_updated = 1\<rparr>"

definition demo_cap :: Enforceability where
  "demo_cap = \<lparr>en_cost_control = CostPrepaidQuota, en_require_hard_cap = True, en_source = ''q''\<rparr>"

lemma demo_reserve_step:
  "ledger_step\<^sup>*\<^sup>* (demo_ledger []) (demo_ledger [demo_hold ''reservation_1'' 4 ReservationHeld None])"
proof -
  have "fst (Reserve 1 ''1'' ''e'' 4 demo_cap (demo_ledger [])) =
      demo_ledger [demo_hold ''reservation_1'' 4 ReservationHeld None]"
    by code_simp
  then have "ledger_step (demo_ledger []) (demo_ledger [demo_hold ''reservation_1'' 4 ReservationHeld None])"
    using step_reserve [of 4 "demo_ledger []" 1 "''1''" "''e''" demo_cap] by (simp add: in64_def)
  then show ?thesis by blast
qed

lemma demo_ledger_ok: "ledger_ok (demo_ledger [])"
  by code_simp

text \<open>
  C7. The budget is never overcommitted: whatever calls the ledger serves, in any order and with any
  arguments, what an envelope has HELD and UNRESOLVED stays within its hard limit, and the balance
  that \<open>availableIn\<close> computes with 64-bit subtractions is the exact one (it can only fail when the
  settled total itself leaves the 64-bit range).
\<close>

theorem budget_never_overcommitted:
  assumes "ledger_step\<^sup>*\<^sup>* d0 d" and "ledger_ok d0" and "e \<in> set (db_envelopes d)"
  shows "reserved_sum (e_id e) ReservationHeld (db_reservations d)
      + reserved_sum (e_id e) ReservationUnresolved (db_reservations d) \<le> e_hard_limit e \<and>
    availableIn (e_id e) d =
      (if in64 (settled_sum (e_id e) (db_reservations d))
       then Inr (e_hard_limit e - settled_sum (e_id e) (db_reservations d)
                 - reserved_sum (e_id e) ReservationHeld (db_reservations d)
                 - reserved_sum (e_id e) ReservationUnresolved (db_reservations d))
       else Inl (Err ''integer overflow''))"
proof -
  have ok: "ledger_ok d" using ledger.reach_inv assms(1,2) .
  note found = find_by_member [OF ledger_okD(2) [OF ok] assms(3)]
  show ?thesis
    using ledger_okD(4) [OF ok assms(3)] availableIn_ok [OF ok found] found
    by (simp add: envelope_ok_def balance_def exposure_split)
qed

lemma budget_never_overcommitted_witness:
  "availableIn ''e'' (demo_ledger [demo_hold ''reservation_1'' 4 ReservationHeld None]) = Inr 6"
proof -
  let ?d = "demo_ledger [demo_hold ''reservation_1'' 4 ReservationHeld None]"
  have "hd (db_envelopes ?d) \<in> set (db_envelopes ?d)" by (simp add: demo_ledger_def)
  from budget_never_overcommitted [OF demo_reserve_step demo_ledger_ok this]
  show ?thesis
    by (simp add: demo_ledger_def demo_hold_def reserved_sum_def settled_sum_def sum_where_def
        in_state_def in64_def)
qed

lemma validateReservationRequest_Inr:
  "validateReservationRequest envelope amount e = Inr () \<longleftrightarrow> envelope \<noteq> [] \<and> 0 < amount \<and> cost_valid (en_cost_control e) \<and>
     nonblank (en_source e) \<and> (en_require_hard_cap e \<longrightarrow> providesHardCeiling (en_cost_control e))"
  by (auto simp: validateReservationRequest_def bind_simps)

text \<open>
  C8. \<open>Reserve\<close> on a consistent ledger, on every branch: it succeeds exactly when the request is valid (an envelope, a positive
  amount, a known cost control with a source, and a hard ceiling where one is required), the envelope exists, the settled total is a
  64-bit number, the amount is within the exact balance and the drawn identifier is unused; then the only change is the new HELD row
  with the fields of the request. Otherwise nothing changes, and a valid request that asks for more than the balance fails with the
  budget error, which no other request gets.
\<close>

theorem Reserve_behaviour:
  assumes "ledger_ok d" and "Reserve now rand envelope amount e d = (d', out)"
  shows "((\<exists>r. out = Inr r) \<longleftrightarrow>
      envelope \<noteq> [] \<and> 0 < amount \<and> cost_valid (en_cost_control e) \<and> nonblank (en_source e) \<and>
      (en_require_hard_cap e \<longrightarrow> providesHardCeiling (en_cost_control e)) \<and>
      find_by e_id envelope (db_envelopes d) \<noteq> None \<and> in64 (settled_sum envelope (db_reservations d)) \<and>
      amount \<le> balance envelope d \<and> NewID ''reservation'' rand \<notin> r_id ` set (db_reservations d)) \<and>
    (case out of
      Inr r \<Rightarrow> r = \<lparr>r_id = NewID ''reservation'' rand, r_envelope = envelope, r_state = ReservationHeld, r_amount = amount,
          r_settled = None, r_cost_control = en_cost_control e, r_source = trim_space (en_source e),
          r_hard_cap = en_require_hard_cap e, r_created = now, r_updated = now\<rparr> \<and>
        d' = d\<lparr>db_reservations := db_reservations d @ [r]\<rparr>
    | Inl err \<Rightarrow> d' = d
        \<and> (err = ErrBudgetExceeded \<longleftrightarrow> validateReservationRequest envelope amount e = Inr ()
             \<and> find_by e_id envelope (db_envelopes d) \<noteq> None
             \<and> in64 (settled_sum envelope (db_reservations d)) \<and> balance envelope d < amount))"
proof -
  have balance: "(\<exists>a. availableIn envelope d = Inr a \<and> amount \<le> a) \<longleftrightarrow>
      find_by e_id envelope (db_envelopes d) \<noteq> None \<and> in64 (settled_sum envelope (db_reservations d)) \<and> amount \<le> balance envelope d"
    using availableIn_ok [OF assms(1), of envelope]
    by (cases "find_by e_id envelope (db_envelopes d)") (auto simp: availableIn_def)
  have tx: "Reserve now rand envelope amount e d = (d', Inr r) \<longleftrightarrow> ReserveInTx now rand envelope amount e d = Inr (r, d')" for r d'
    by (simp add: Reserve_def with_tx_Inr_iff)
  show ?thesis
  proof (cases out)
    case (Inl err)
    have no_budget_error: "validateReservationRequest envelope amount e \<noteq> Inl ErrBudgetExceeded"
      by (auto simp: validateReservationRequest_def bind_simps)
    from Inl assms(2) obtain err0 where d': "d' = d" and
      err0: "ReserveInTx now rand envelope amount e d = Inl err0" "err = mapCanonicalInvariantError err0"
      by (auto simp: Reserve_def with_tx_Inl_iff)
    have "err = ErrBudgetExceeded \<longleftrightarrow> err0 = ErrBudgetExceeded"
      using err0(2) by (auto simp: mapCanonicalInvariantError_def policyProfileInactiveMarker_def)
    moreover have "err0 = ErrBudgetExceeded \<longleftrightarrow> validateReservationRequest envelope amount e = Inr ()
        \<and> find_by e_id envelope (db_envelopes d) \<noteq> None
        \<and> in64 (settled_sum envelope (db_reservations d)) \<and> balance envelope d < amount"
      using err0(1) no_budget_error availableIn_ok [OF assms(1), of envelope]
      by (cases "find_by e_id envelope (db_envelopes d)")
        (auto simp: ReserveInTx_def bind_simps insert_unique_Inl_iff Let_def availableIn_def bindE_def
          split: sum.splits if_splits)
    moreover have "\<not> (validateReservationRequest envelope amount e = Inr () \<and> (\<exists>a. availableIn envelope d = Inr a \<and> amount \<le> a) \<and>
        NewID ''reservation'' rand \<notin> r_id ` set (db_reservations d))"
    proof
      assume "validateReservationRequest envelope amount e = Inr () \<and> (\<exists>a. availableIn envelope d = Inr a \<and> amount \<le> a) \<and>
        NewID ''reservation'' rand \<notin> r_id ` set (db_reservations d)"
      then have "\<exists>r d2. ReserveInTx now rand envelope amount e d = Inr (r, d2)" by (simp add: ReserveInTx_Inr)
      with err0(1) show False by auto
    qed
    ultimately show ?thesis using Inl d' unfolding balance validateReservationRequest_Inr by auto
  next
    case (Inr r)
    with assms(2) have "ReserveInTx now rand envelope amount e d = Inr (r, d')" by (simp add: tx)
    with Inr balance show ?thesis unfolding ReserveInTx_Inr validateReservationRequest_Inr by auto
  qed
qed

lemma Reserve_behaviour_witness:
  "snd (Reserve 1 ''1'' ''e'' 11 demo_cap (demo_ledger [])) = Inl ErrBudgetExceeded \<and>
   \<not> (11 \<le> balance ''e'' (demo_ledger [])) \<and> (\<exists>r. snd (Reserve 1 ''1'' ''e'' 10 demo_cap (demo_ledger [])) = Inr r)"
proof -
  have over: "Reserve 1 ''1'' ''e'' 11 demo_cap (demo_ledger []) = (demo_ledger [], Inl ErrBudgetExceeded)"
    by code_simp
  obtain d' out where within: "Reserve 1 ''1'' ''e'' 10 demo_cap (demo_ledger []) = (d', out)" by (metis prod.collapse)
  have facts: "cost_valid (en_cost_control demo_cap)" "nonblank (en_source demo_cap)" "providesHardCeiling (en_cost_control demo_cap)"
    "find_by e_id ''e'' (db_envelopes (demo_ledger [])) \<noteq> None" "in64 (settled_sum ''e'' (db_reservations (demo_ledger [])))"
    "10 \<le> balance ''e'' (demo_ledger [])" "db_reservations (demo_ledger []) = []" by code_simp+
  have "\<exists>r. out = Inr r" using Reserve_behaviour [OF demo_ledger_ok within, THEN conjunct1] facts by simp
  with Reserve_behaviour [OF demo_ledger_ok over] over within show ?thesis by auto
qed

text \<open>
  C9. The ledger implements the row-free budget of each envelope: every call either leaves an
  envelope's limit, spent and exposed amounts as they are, or holds an amount that fits under the
  limit, or takes a hold away at an actual cost, or frees it.
\<close>

theorem ledger_refines_budget:
  assumes "ledger_ok d" and "ledger_step d d'" and "budget_of envelope d = Some b"
  shows "\<exists>b'. budget_of envelope d' = Some b' \<and> (b' = b \<or> budget_step b b')"
  using assms(2)
proof (cases rule: ledger_step_cases)
  case (2 now rand k amount e r)
  then show ?thesis using budget_step_reserve assms by blast
qed (use budget_step_ops assms in blast)+

lemma ledger_refines_budget_witness:
  "\<exists>b'. budget_of ''e'' (fst (Reserve 1 ''1'' ''e'' 4 demo_cap (demo_ledger []))) = Some b'
     \<and> (b' = \<lparr>b_limit = 10, b_spent = 0, b_exposed = 0\<rparr>
        \<or> budget_step \<lparr>b_limit = 10, b_spent = 0, b_exposed = 0\<rparr> b')"
  by (rule ledger_refines_budget [OF demo_ledger_ok])
    (auto intro: step_reserve simp: in64_def budget_of_def demo_ledger_def find_by_Cons settled_sum_def
      exposure_def sum_where_def empty_db_def)

text \<open>
  Settlement and release are final: whatever the ledger is called with afterwards, a reservation
  that is SETTLED or RELEASED keeps its row, amounts and time stamps included.
\<close>

theorem closed_reservation_is_final:
  assumes "ledger_step\<^sup>*\<^sup>* d d'" and "find_by r_id k (db_reservations d) = Some r"
    and "r_state r = ReservationSettled \<or> r_state r = ReservationReleased"
  shows "find_by r_id k (db_reservations d') = Some r"
proof -
  have "\<not> live r" using assms(3) by (auto simp: live_def)
  with assms(1) show ?thesis
    by (induction rule: rtranclp_induct) (use assms(2) closed_row_step in blast)+
qed

lemma closed_reservation_is_final_witness:
  "find_by r_id ''r'' (db_reservations (fst (Release 5 ''r''
     (demo_ledger [demo_hold ''r'' 4 ReservationSettled (Some 3)])))) =
   Some (demo_hold ''r'' 4 ReservationSettled (Some 3))"
  by (rule closed_reservation_is_final [of "demo_ledger [demo_hold ''r'' 4 ReservationSettled (Some 3)]"])
    (auto intro: step_release simp: demo_ledger_def demo_hold_def find_by_Cons)

text \<open>
  Settling is idempotent and binds the actual amount: once \<open>Settle\<close> has succeeded, settling again
  with the same amount succeeds and changes nothing, and settling with another amount, marking
  unresolved or releasing fails and changes nothing.
\<close>

theorem Settle_binds_amount:
  assumes "ledger_ok d" and "Settle now k x d = (d', Inr ())"
  shows "Settle now' k x d' = (d', Inr ()) \<and>
    (y \<noteq> x \<longrightarrow> (\<exists>err. Settle now' k y d' = (d', Inl err))) \<and>
    (\<exists>err. MarkUnresolved now' k d' = (d', Inl err)) \<and> (\<exists>err. Release now' k d' = (d', Inl err))"
proof -
  have "SettleInTx now k x d = Inr d'"
    using assms(2) by (simp add: Settle_def with_tx_Inr_iff bind_simps)
  then obtain r where row: "find_by r_id k (db_reservations d') = Some r"
    and r: "r_state r = ReservationSettled" "r_settled r = Some x" and k: "k \<noteq> []" "0 \<le> x"
    by (auto simp: SettleInTx_Inr find_set_reservation)
  have load: "loadReservationState k d' = Inr (ReservationSettled, Some x)"
    using row r by (simp add: loadReservationState_Inr)
  have "SettleInTx now' k x d' = Inr d'" "y \<noteq> x \<longrightarrow> (\<exists>err. SettleInTx now' k y d' = Inl err)"
    "\<exists>err. MarkUnresolvedInTx now' k d' = Inl err" "\<exists>err. ReleaseInTx now' k d' = Inl err"
    using load k by (simp_all add: SettleInTx_def MarkUnresolvedInTx_def ReleaseInTx_def requireE_def)
  then show ?thesis
    by (auto simp: Settle_def MarkUnresolved_def Release_def with_tx_def no_result_def)
qed

lemma Settle_binds_amount_witness:
  "\<exists>err. snd (Settle 9 ''r'' 4 (fst (Settle 8 ''r'' 3
     (demo_ledger [demo_hold ''r'' 4 ReservationHeld None])))) = Inl err"
proof -
  let ?d = "demo_ledger [demo_hold ''r'' 4 ReservationHeld None]"
  have "ledger_ok ?d" by code_simp
  moreover have "Settle 8 ''r'' 3 ?d = (fst (Settle 8 ''r'' 3 ?d), Inr ())" by code_simp
  ultimately show ?thesis using Settle_binds_amount [of ?d 8 "''r''" 3 _ 9 4] by fastforce
qed

end
