(* ===== verification/Scheduler.thy ===== *)
theory Scheduler
  imports Verification Resources
begin

text \<open>
  The scheduler (\<open>internal/scheduler/service.go\<close>): which of the eligible tasks runs next, on which kind
  of executor, and its lease. The learned preference between executors is an interface and stays an
  argument; Go's \<open>sort.SliceStable\<close> is an insertion sort, which is stable too.
\<close>

subsection \<open>Stable sorting by a Go comparison\<close>

fun stable_insert :: "('a \<Rightarrow> 'a \<Rightarrow> bool) \<Rightarrow> 'a \<Rightarrow> 'a list \<Rightarrow> 'a list" where
  "stable_insert before x [] = [x]"
| "stable_insert before x (y # ys) = (if before y x then y # stable_insert before x ys else x # y # ys)"

definition SliceStable :: "('a \<Rightarrow> 'a \<Rightarrow> bool) \<Rightarrow> 'a list \<Rightarrow> 'a list" where
  "SliceStable before xs = foldr (stable_insert before) xs []"

lemma set_stable_insert: "set (stable_insert before x ys) = insert x (set ys)"
  by (induction ys) auto

lemma set_SliceStable [simp]: "set (SliceStable before xs) = set xs"
  by (induction xs) (simp_all add: SliceStable_def set_stable_insert)

text \<open>What a comparison function has to satisfy so that the first element is one that nothing precedes.\<close>

locale strict_order =
  fixes before :: "'a \<Rightarrow> 'a \<Rightarrow> bool"
  assumes before_asym: "before x y \<Longrightarrow> \<not> before y x"
    and before_negtrans: "\<not> before x y \<Longrightarrow> \<not> before y z \<Longrightarrow> \<not> before x z"
begin

lemma stable_insert_sorted:
  "sorted_wrt (\<lambda>a b. \<not> before b a) ys \<Longrightarrow> sorted_wrt (\<lambda>a b. \<not> before b a) (stable_insert before x ys)"
proof (induction ys)
  case (Cons y ys)
  show ?case
  proof (cases "before y x")
    case True
    then have "\<not> before x y" by (rule before_asym)
    with Cons True show ?thesis by (simp add: set_stable_insert)
  next
    case False
    then have "\<not> before z x" if "\<not> before z y" for z using before_negtrans that by blast
    with Cons.prems False show ?thesis by simp
  qed
qed simp

lemma SliceStable_sorted: "sorted_wrt (\<lambda>a b. \<not> before b a) (SliceStable before xs)"
  by (induction xs) (simp_all add: SliceStable_def stable_insert_sorted)

lemma SliceStable_first:
  "SliceStable before xs = y # ys \<Longrightarrow> y \<in> set xs \<and> (\<forall>x \<in> set xs. \<not> before x y)"
proof -
  assume sorted: "SliceStable before xs = y # ys"
  then have "set xs = insert y (set ys)" by (metis list.simps(15) set_SliceStable)
  moreover have "\<forall>x \<in> set ys. \<not> before x y"
    using SliceStable_sorted [of xs] sorted by simp
  moreover have "\<not> before y y" using before_asym by blast
  ultimately show ?thesis by auto
qed

end

subsection \<open>Candidates\<close>

record CapabilityCapacity =
  cc_accessible :: bool
  cc_enforcement :: enforcement_level

type_synonym CapacitySnapshot = "string \<Rightarrow> CapabilityCapacity option"

record TaskCandidate =
  tc_task :: task
  tc_budget :: int
  tc_unlocks :: nat

fun scheduler_rank :: "enforcement_level \<Rightarrow> int" where
  "scheduler_rank EnforcementUnenforced = 1"
| "scheduler_rank EnforcementPartial = 2"
| "scheduler_rank EnforcementEnforced = 3"
| "scheduler_rank _ = 0"

definition capacityEligible :: "task \<Rightarrow> CapacitySnapshot \<Rightarrow> bool" where
  "capacityEligible t capacity \<longleftrightarrow> list_all (\<lambda>k.
     case capacity k of
       None \<Rightarrow> False
     | Some c \<Rightarrow> cc_accessible c \<and> \<not> scheduler_rank (cc_enforcement c) < scheduler_rank (t_enforcement t))
     (t_capabilities t)"

definition authorityEligible :: "task \<Rightarrow> bool" where
  "authorityEligible t \<longleftrightarrow> list_all (\<lambda>k. k \<in> set (t_authority t)) (t_capabilities t)"

definition loadEligibleTasks :: "db \<Rightarrow> task list" where
  "loadEligibleTasks d = filter (\<lambda>t. t_state t = TaskEligible) (db_tasks d)"

definition dependenciesReady :: "ID \<Rightarrow> db \<Rightarrow> bool" where
  "dependenciesReady task_id d \<longleftrightarrow>
     count_where (\<lambda>p. fst p = task_id \<and>
       exists_where (\<lambda>t. t_id t = snd p \<and> t_state t \<noteq> TaskSucceeded) (db_tasks d)) (db_deps d) = 0"

definition dependencyUnlockCount :: "ID \<Rightarrow> db \<Rightarrow> nat" where
  "dependencyUnlockCount task_id d = count_where (\<lambda>p. snd p = task_id) (db_deps d)"

definition candidateBefore :: "TaskCandidate \<Rightarrow> TaskCandidate \<Rightarrow> bool" where
  "candidateBefore a b \<longleftrightarrow>
     (let s = tc_task a; t = tc_task b; a_has = t_deadline s \<noteq> 0; b_has = t_deadline t \<noteq> 0 in
      if a_has \<noteq> b_has then a_has
      else if a_has \<and> t_deadline s \<noteq> t_deadline t then t_deadline s < t_deadline t
      else if tc_unlocks a \<noteq> tc_unlocks b then tc_unlocks a > tc_unlocks b
      else if t_priority s \<noteq> t_priority t then t_priority s > t_priority t
      else if tc_budget a \<noteq> tc_budget b then tc_budget a > tc_budget b
      else if t_created s \<noteq> t_created t then t_created s < t_created t
      else t_id s < t_id t)"

text \<open>One round of the loop: skip the task, fail, or take it as a candidate.\<close>

definition admit :: "gtime \<Rightarrow> CapacitySnapshot \<Rightarrow> db \<Rightarrow> task \<Rightarrow> TaskCandidate option res" where
  "admit now capacity d t =
     (if t_earliest t \<noteq> 0 \<and> t_earliest t > now then Inr None
      else case validatePurpose (t_purpose t) d of
        Inl e \<Rightarrow> if e = ErrInvalidPurpose then Inr None else Inl e
      | Inr u \<Rightarrow>
          if \<not> dependenciesReady (t_id t) d \<or> \<not> capacityEligible t capacity \<or> \<not> authorityEligible t then Inr None
          else bindE (Available (t_envelope t) d) (\<lambda>available.
            if available \<le> 0 then Inr None
            else Inr (Some \<lparr>tc_task = t, tc_budget = available, tc_unlocks = dependencyUnlockCount (t_id t) d\<rparr>)))"

fun candidates :: "gtime \<Rightarrow> CapacitySnapshot \<Rightarrow> db \<Rightarrow> task list \<Rightarrow> TaskCandidate list res" where
  "candidates now capacity d [] = Inr []"
| "candidates now capacity d (t # ts) =
     bindE (admit now capacity d t) (\<lambda>c.
     bindE (candidates now capacity d ts) (\<lambda>cs.
     Inr (case c of None \<Rightarrow> cs | Some c \<Rightarrow> c # cs)))"

definition Next :: "gtime \<Rightarrow> CapacitySnapshot \<Rightarrow> db \<Rightarrow> TaskCandidate option res" where
  "Next now capacity d =
     bindE (candidates now capacity d (loadEligibleTasks d)) (\<lambda>cs.
     Inr (case SliceStable candidateBefore cs of [] \<Rightarrow> None | c # rest \<Rightarrow> Some c))"

type_synonym preference = "task \<Rightarrow> string list \<Rightarrow> (string \<times> bool) res"

definition ChooseExecutor :: "preference option \<Rightarrow> task \<Rightarrow> string list \<Rightarrow> string res" where
  "ChooseExecutor pref t kinds =
     (let eligible = distinct_sorted (filter (\<lambda>k. k \<noteq> []) (map trim_space kinds)) in
      case eligible of
        [] \<Rightarrow> Inl (Err ''no eligible executor kinds'')
      | baseline # rest \<Rightarrow>
          (case pref of
             None \<Rightarrow> Inr baseline
           | Some f \<Rightarrow> bindE (f t eligible) (\<lambda>(preferred, found).
               if \<not> found then Inr baseline
               else if trim_space preferred \<in> set eligible then Inr (trim_space preferred)
               else Inl (Err ''learned preference returned ineligible executor''))))"

definition Lease :: "start_recorder list \<Rightarrow> env \<Rightarrow> ID \<Rightarrow> string \<Rightarrow> int \<Rightarrow> db \<Rightarrow> db \<times> attempt res" where
  "Lease recorders E task_id kind duration d = StartAttempt recorders E task_id kind duration d"

subsection \<open>The order of candidates\<close>

text \<open>
  The specification of the order: tasks with a deadline first, the earlier deadline first; then the task that
  more tasks depend on, the higher priority, the larger budget, the older task, the smaller identifier.
\<close>

definition urgency :: "TaskCandidate \<Rightarrow> bool \<times> int \<times> int \<times> int \<times> int \<times> int \<times> string" where
  "urgency c = (t_deadline (tc_task c) = 0, t_deadline (tc_task c), - int (tc_unlocks c), - t_priority (tc_task c),
     - tc_budget c, t_created (tc_task c), t_id (tc_task c))"

lemma candidateBefore_urgency: "candidateBefore a b \<longleftrightarrow> urgency a < urgency b"
  by (auto simp: candidateBefore_def urgency_def Let_def)

interpretation candidate_order: strict_order candidateBefore
  by unfold_locales (auto simp: candidateBefore_urgency)

interpretation schedule_rank: enforcement_ranking scheduler_rank
  by unfold_locales simp_all

definition schedulable :: "gtime \<Rightarrow> CapacitySnapshot \<Rightarrow> db \<Rightarrow> task \<Rightarrow> bool" where
  "schedulable now capacity d t \<longleftrightarrow> t_state t = TaskEligible \<and> (t_earliest t = 0 \<or> t_earliest t \<le> now) \<and>
     validatePurpose (t_purpose t) d = Inr () \<and>
     (\<forall>i s. (t_id t, i) \<in> set (db_deps d) \<and> s \<in> set (db_tasks d) \<and> t_id s = i \<longrightarrow> t_state s = TaskSucceeded) \<and>
     (\<forall>k \<in> set (t_capabilities t). k \<in> set (t_authority t) \<and>
        (\<exists>c. capacity k = Some c \<and> cc_accessible c \<and> scheduler_rank (t_enforcement t) \<le> scheduler_rank (cc_enforcement c))) \<and>
     (\<exists>budget > 0. Available (t_envelope t) d = Inr budget)"

definition candidate_of :: "db \<Rightarrow> task \<Rightarrow> TaskCandidate" where
  "candidate_of d t = \<lparr>tc_task = t, tc_budget = (case Available (t_envelope t) d of Inl e \<Rightarrow> 0 | Inr b \<Rightarrow> b),
     tc_unlocks = dependencyUnlockCount (t_id t) d\<rparr>"

lemma capacityEligible_iff:
  "capacityEligible t capacity \<longleftrightarrow> (\<forall>k \<in> set (t_capabilities t).
     \<exists>c. capacity k = Some c \<and> cc_accessible c \<and> scheduler_rank (t_enforcement t) \<le> scheduler_rank (cc_enforcement c))"
  by (auto simp: capacityEligible_def list_all_iff not_less split: option.splits)

lemma dependenciesReady_iff:
  "dependenciesReady k d \<longleftrightarrow>
   (\<forall>i s. (k, i) \<in> set (db_deps d) \<and> s \<in> set (db_tasks d) \<and> t_id s = i \<longrightarrow> t_state s = TaskSucceeded)"
  by (auto simp: dependenciesReady_def count_where_zero exists_where_iff)

lemma admit_Inr:
  assumes "admit now capacity d t = Inr c" and "t_state t = TaskEligible"
  shows "c = (if schedulable now capacity d t then Some (candidate_of d t) else None)"
  using assms
  by (auto simp: admit_def schedulable_def candidate_of_def capacityEligible_iff authorityEligible_def list_all_iff
      dependenciesReady_iff bind_simps not_le split: if_splits sum.splits)

lemma candidates_Inr:
  assumes "candidates now capacity d ts = Inr cs" and "\<forall>t \<in> set ts. t_state t = TaskEligible"
  shows "cs = map (candidate_of d) (filter (schedulable now capacity d) ts)"
  using assms
proof (induction ts arbitrary: cs)
  case (Cons t ts)
  then obtain c cs' where "admit now capacity d t = Inr c" "candidates now capacity d ts = Inr cs'"
    "cs = (case c of None \<Rightarrow> cs' | Some c \<Rightarrow> c # cs')"
    by (auto simp: bind_simps)
  with Cons admit_Inr [of now capacity d t c] show ?case by simp
qed simp

text \<open>The best candidate of a set of rows, as a property of the set alone.\<close>

definition best :: "gtime \<Rightarrow> CapacitySnapshot \<Rightarrow> db \<Rightarrow> TaskCandidate option \<Rightarrow> bool" where
  "best now capacity d out \<longleftrightarrow>
     (case out of
        None \<Rightarrow> \<forall>t \<in> set (db_tasks d). \<not> schedulable now capacity d t
      | Some c \<Rightarrow> tc_task c \<in> set (db_tasks d) \<and> schedulable now capacity d (tc_task c) \<and>
          c = candidate_of d (tc_task c) \<and>
          (\<forall>t \<in> set (db_tasks d). schedulable now capacity d t \<and> t \<noteq> tc_task c \<longrightarrow>
             urgency c < urgency (candidate_of d t)))"

lemma tc_task_candidate_of [simp]: "tc_task (candidate_of d t) = t"
  by (simp add: candidate_of_def)

lemma Next_best:
  assumes "distinct (map t_id (db_tasks d))" and "Next now capacity d = Inr out"
  shows "best now capacity d out"
proof -
  let ?ts = "filter (schedulable now capacity d) (loadEligibleTasks d)"
  have rows: "t \<in> set ?ts \<longleftrightarrow> t \<in> set (db_tasks d) \<and> schedulable now capacity d t" for t
    by (auto simp: loadEligibleTasks_def schedulable_def)
  obtain cs where cs: "candidates now capacity d (loadEligibleTasks d) = Inr cs"
    and out: "out = (case SliceStable candidateBefore cs of [] \<Rightarrow> None | c # rest \<Rightarrow> Some c)"
    using assms(2) by (auto simp: Next_def bind_simps)
  have cs': "cs = map (candidate_of d) ?ts"
    by (rule candidates_Inr [OF cs]) (simp add: loadEligibleTasks_def)
  show ?thesis
  proof (cases "SliceStable candidateBefore cs")
    case Nil
    then have "set cs = {}" by (metis set_SliceStable set_empty)
    then have "?ts = []" by (simp add: cs')
    then have "\<forall>t. t \<notin> set ?ts" by (metis list.set(1) empty_iff)
    with Nil out rows show ?thesis by (simp add: best_def)
  next
    case (Cons c rest)
    from candidate_order.SliceStable_first [OF this]
    have first: "c \<in> set cs" "\<forall>x \<in> set cs. \<not> urgency x < urgency c"
      by (simp_all add: candidateBefore_urgency)
    then obtain t where t: "t \<in> set ?ts" "c = candidate_of d t" by (auto simp: cs')
    have "urgency c < urgency (candidate_of d s)" if s: "s \<in> set ?ts" "s \<noteq> t" for s
    proof -
      have "\<not> urgency (candidate_of d s) < urgency c" using first(2) s(1) by (auto simp: cs')
      moreover have "t_id s \<noteq> t_id t"
        using assms(1) s t(1) unfolding rows by (metis distinct_map inj_onD)
      then have "urgency (candidate_of d s) \<noteq> urgency c" by (simp add: urgency_def t(2))
      ultimately show ?thesis by (metis not_less_iff_gr_or_eq)
    qed
    with t rows show ?thesis by (simp add: best_def out Cons)
  qed
qed

lemma best_unique:
  assumes "best now capacity d x" and "best now capacity d y"
  shows "x = y"
proof (cases x)
  case None
  then show ?thesis using assms by (cases y) (auto simp: best_def)
next
  case (Some a)
  then obtain b where b: "y = Some b" using assms by (cases y) (auto simp: best_def)
  have "tc_task a = tc_task b"
  proof (rule ccontr)
    assume "tc_task a \<noteq> tc_task b"
    then have "urgency a < urgency b" "urgency b < urgency a"
      using assms unfolding best_def Some b option.case by metis+
    then show False by simp
  qed
  with assms show ?thesis unfolding best_def Some b option.case by metis
qed

lemma best_permuted:
  assumes "set ts = set (db_tasks d)" and "best now capacity (d\<lparr>db_tasks := ts\<rparr>) x"
  shows "best now capacity d x"
proof -
  have "Available k (d\<lparr>db_tasks := ts\<rparr>) = Available k d" for k
    by (simp add: Available_def availableIn_def cong: option.case_cong)
  then have "schedulable now capacity (d\<lparr>db_tasks := ts\<rparr>) = schedulable now capacity d"
    "candidate_of (d\<lparr>db_tasks := ts\<rparr>) = candidate_of d"
    using assms(1) by (auto simp: fun_eq_iff schedulable_def candidate_of_def dependencyUnlockCount_def)
  with assms show ?thesis by (simp add: best_def split: option.splits)
qed

lemma ChooseExecutor_Inr:
  "ChooseExecutor pref t kinds = Inr k \<longleftrightarrow>
   (let eligible = normalizeStrings kinds in eligible \<noteq> [] \<and>
     (case pref of None \<Rightarrow> k = hd eligible
      | Some f \<Rightarrow> \<exists>p found. f t eligible = Inr (p, found) \<and>
          (if found then k = trim_space p \<and> k \<in> set eligible else k = hd eligible)))"
  unfolding ChooseExecutor_def normalizeStrings_def [symmetric] Let_def
  by (cases "normalizeStrings kinds"; cases pref) (auto simp: bind_simps split: if_splits)

subsection \<open>Properties\<close>

definition demo_capacity :: CapacitySnapshot where
  "demo_capacity = (\<lambda>k. if k = ''read'' then Some \<lparr>cc_accessible = True, cc_enforcement = EnforcementEnforced\<rparr> else None)"

definition demo_queue :: db where
  "demo_queue = empty_db\<lparr>db_envelopes := [\<lparr>e_id = ''e'', e_parent = None, e_hard_limit = 100, e_created = 0\<rparr>],
     db_tasks := [new_task 5 ''1'' [] ((demo_request ''x'' [])\<lparr>tr_deadline := 0\<rparr>) [],
       new_task 6 ''2'' [] (demo_request ''y'' []) [],
       new_task 6 ''3'' [] ((demo_request ''z'' [])\<lparr>tr_earliest := 50\<rparr>) []]\<rparr>"

text \<open>
  C25. The scheduler picks the most urgent task. \<open>Next\<close> returns no task exactly when none is schedulable:
  ELIGIBLE, past its earliest start, with a valid purpose, all dependencies succeeded, every required
  capability authorised, accessible and enforced strongly enough, and a positive available budget.
  Otherwise it returns a schedulable task that comes before all the others: deadlines first and in order,
  then more dependents, higher priority, larger budget, earlier creation, smaller identifier. The order
  in which the store lists its rows makes no difference.
\<close>

theorem Next_is_most_urgent:
  assumes "exec_ok d" and "Next now capacity d = Inr out"
  shows "(case out of
      None \<Rightarrow> \<forall>t \<in> set (db_tasks d). \<not> schedulable now capacity d t
    | Some c \<Rightarrow> tc_task c \<in> set (db_tasks d) \<and> schedulable now capacity d (tc_task c) \<and>
        Available (t_envelope (tc_task c)) d = Inr (tc_budget c) \<and>
        (\<forall>t b. t \<in> set (db_tasks d) \<and> schedulable now capacity d t \<and> t \<noteq> tc_task c \<and>
           Available (t_envelope t) d = Inr b \<longrightarrow>
           urgency c < urgency \<lparr>tc_task = t, tc_budget = b, tc_unlocks = dependencyUnlockCount (t_id t) d\<rparr>)) \<and>
    (\<forall>ts out'. set ts = set (db_tasks d) \<and> distinct ts \<and> Next now capacity (d\<lparr>db_tasks := ts\<rparr>) = Inr out' \<longrightarrow> out' = out)"
proof -
  have best: "best now capacity d out" using Next_best exec_okD(1) assms by blast
  have "out' = out" if ts: "set ts = set (db_tasks d)" "distinct ts"
    and run: "Next now capacity (d\<lparr>db_tasks := ts\<rparr>) = Inr out'" for ts out'
  proof -
    have "inj_on t_id (set ts)" using exec_okD(1) [OF assms(1)] ts(1) by (simp add: distinct_map)
    then have "distinct (map t_id (db_tasks (d\<lparr>db_tasks := ts\<rparr>)))" using ts(2) by (simp add: distinct_map)
    from Next_best [OF this run] show ?thesis using best_permuted [OF ts(1)] best_unique best by blast
  qed
  moreover have "Available (t_envelope (tc_task c)) d = Inr (tc_budget c)" if "out = Some c" for c
  proof -
    have c: "schedulable now capacity d (tc_task c)" "c = candidate_of d (tc_task c)"
      using best by (simp_all add: best_def that)
    then obtain b where b: "Available (t_envelope (tc_task c)) d = Inr b" by (auto simp: schedulable_def)
    then have "tc_budget (candidate_of d (tc_task c)) = b" by (simp add: candidate_of_def)
    with c(2) b show ?thesis by simp
  qed
  moreover have "candidate_of d t = \<lparr>tc_task = t, tc_budget = b, tc_unlocks = dependencyUnlockCount (t_id t) d\<rparr>"
    if "Available (t_envelope t) d = Inr b" for t b
    using that by (simp add: candidate_of_def)
  ultimately show ?thesis using best by (cases out) (simp_all add: best_def, metis+)
qed

lemma Next_is_most_urgent_witness:
  "\<exists>c. Next 10 demo_capacity demo_queue = Inr (Some c) \<and> t_id (tc_task c) = ''task_2'' \<and> tc_budget c = 100 \<and>
     \<not> schedulable 10 demo_capacity demo_queue (db_tasks demo_queue ! 2)"
proof -
  have ok: "exec_ok demo_queue" by code_simp
  have "(case Next 10 demo_capacity demo_queue of Inr (Some c) \<Rightarrow> t_id (tc_task c) = ''task_2'' | _ \<Rightarrow> False)"
    by code_simp
  then obtain c where c: "Next 10 demo_capacity demo_queue = Inr (Some c)" "t_id (tc_task c) = ''task_2''"
    by (auto split: sum.splits option.splits)
  have e: "Available ''e'' demo_queue = Inr 100" "map t_envelope (db_tasks demo_queue) = [''e'', ''e'', ''e'']"
    "t_earliest (db_tasks demo_queue ! 2) = 50" by code_simp+
  note best = Next_is_most_urgent [OF ok c(1)]
  then have "t_envelope (tc_task c) \<in> set (map t_envelope (db_tasks demo_queue))"
    "Available (t_envelope (tc_task c)) demo_queue = Inr (tc_budget c)" by simp_all
  then have "tc_budget c = 100" using e(1,2) by simp
  with c e(3) show ?thesis by (simp add: schedulable_def)
qed

text \<open>
  The executor is one of the eligible ones: whatever the learned preference answers, the kind that
  \<open>ChooseExecutor\<close> returns is a trimmed, non-empty member of the given kinds; without a preference, or when
  it has none for this task, it is the least of them; and order, repetition and blanks of the kinds do not
  matter. With no preference it fails only when every kind is blank.
\<close>

theorem ChooseExecutor_eligible:
  "(\<forall>k. ChooseExecutor pref t kinds = Inr k \<longrightarrow> k \<noteq> [] \<and> k \<in> trim_space ` set kinds) \<and>
   ((pref = None \<or> (\<exists>f p. pref = Some f \<and> (\<forall>ks. f t ks = Inr (p, False)))) \<longrightarrow>
      ChooseExecutor pref t kinds =
        (if \<exists>x \<in> set kinds. nonblank x then Inr (Min (trim_space ` set kinds - {[]}))
         else Inl (Err ''no eligible executor kinds''))) \<and>
   (\<forall>kinds'. trim_space ` set kinds' - {[]} = trim_space ` set kinds - {[]} \<longrightarrow>
      ChooseExecutor pref t kinds' = ChooseExecutor pref t kinds)"
proof -
  let ?ks = "normalizeStrings kinds"
  have ks: "distinct_sorted (filter (\<lambda>k. k \<noteq> []) (map trim_space xs)) = normalizeStrings xs" for xs
    by (simp add: normalizeStrings_def)
  have members: "k \<in> set ?ks \<Longrightarrow> k \<noteq> [] \<and> k \<in> trim_space ` set kinds" for k
    by (auto simp: exec_ids.norm_set)
  have least: "hd ?ks = Min (trim_space ` set kinds - {[]})" if "?ks \<noteq> []"
  proof -
    have "Min (set ?ks) = hd ?ks"
      using that exec_ids.norm_sorted [of kinds] by (cases ?ks) (auto intro!: Min_eqI)
    then show ?thesis by (simp add: exec_ids.norm_set)
  qed
  have empty: "?ks = [] \<longleftrightarrow> \<not> (\<exists>x \<in> set kinds. nonblank x)"
    using exec_ids.norm_empty_iff [of kinds] by blast
  have "k \<noteq> [] \<and> k \<in> trim_space ` set kinds" if "ChooseExecutor pref t kinds = Inr k" for k
    using that members [of k] members [of "hd ?ks"]
    by (auto simp: ChooseExecutor_Inr Let_def split: option.splits if_splits)
  moreover have "ChooseExecutor pref t kinds = (if \<exists>x \<in> set kinds. nonblank x
      then Inr (Min (trim_space ` set kinds - {[]})) else Inl (Err ''no eligible executor kinds''))"
    if "pref = None \<or> (\<exists>f p. pref = Some f \<and> (\<forall>ks. f t ks = Inr (p, False)))"
  proof (cases ?ks)
    case Nil
    then have "ChooseExecutor pref t kinds = Inl (Err ''no eligible executor kinds'')"
      unfolding ChooseExecutor_def ks Let_def by simp
    with Nil empty show ?thesis by simp
  next
    case (Cons k rest)
    then have "ChooseExecutor pref t kinds = Inr k" using that by (auto simp: ChooseExecutor_def ks)
    with Cons least empty show ?thesis by simp
  qed
  moreover have "ChooseExecutor pref t kinds' = ChooseExecutor pref t kinds"
    if "trim_space ` set kinds' - {[]} = trim_space ` set kinds - {[]}" for kinds'
    using exec_ids.norm_eqI [OF that] by (simp add: ChooseExecutor_def ks)
  ultimately show ?thesis by blast
qed

lemma ChooseExecutor_eligible_witness:
  "ChooseExecutor None (new_task 5 ''1'' [] (demo_request ''x'' []) []) [''codex'', [], '' codex''] =
   ChooseExecutor None (new_task 5 ''1'' [] (demo_request ''x'' []) []) [''codex'']"
proof -
  have "trim_space ` set [''codex'', [], '' codex''] - {[]} = trim_space ` set [''codex''] - {[]}" by code_simp
  with ChooseExecutor_eligible show ?thesis by blast
qed

end
