(* ===== verification/Wake.thy ===== *)
theory Wake
  imports Scheduler
begin

text \<open>
  The wake service (\<open>internal/wake/service.go\<close>): scheduled wakeups, the recovery of expired leases and the
  strategic pulse. Due times are compared as instants where the code parses them, and as texts where the
  statement compares the column.
\<close>

subsection \<open>Wakeups\<close>

fun valid_kind :: "wakeup_kind \<Rightarrow> bool" where
  "valid_kind KindTaskReevaluation = True"
| "valid_kind KindStrategicPulse = True"
| "valid_kind (KindOther _) = False"

definition pending_wakeup :: "gtime \<Rightarrow> string \<Rightarrow> wakeup_kind \<Rightarrow> ID \<Rightarrow> gtime \<Rightarrow> wakeup_row" where
  "pending_wakeup now rand kind task_id due =
     \<lparr>w_id = NewID ''wakeup'' rand, w_kind = kind, w_task = task_id, w_due = due, w_state = WakeupPending,
      w_created = now, w_fired = None\<rparr>"

definition insert_wakeup :: "wakeup_row \<Rightarrow> db \<Rightarrow> db res" where
  "insert_wakeup w d =
     bindE (requireE (w_task w = [] \<or> exists_where (\<lambda>t. t_id t = w_task w) (db_tasks d)) (ErrConstraint ''FOREIGN KEY'')) (\<lambda>_.
     bindE (insert_unique w_id w (db_wakeups d)) (\<lambda>rows. Inr (d\<lparr>db_wakeups := rows\<rparr>)))"

definition Schedule :: "env \<Rightarrow> wakeup_kind \<Rightarrow> ID \<Rightarrow> gtime \<Rightarrow> db \<Rightarrow> db \<times> wakeup_row res" where
  "Schedule E kind task_id due d =
     (if \<not> valid_kind kind \<or> due = 0 then (d, Inl (Err ''valid wakeup kind and due time are required''))
      else let w = pending_wakeup (clk E 0) (rnd E 0) kind task_id due in
        on_db (\<lambda>d. bindE (insert_wakeup w d) (\<lambda>d'. Inr (w, d'))) d)"

definition pending :: "db \<Rightarrow> wakeup_row list" where
  "pending d = filter (\<lambda>w. w_state w = WakeupPending) (db_wakeups d)"

definition NextDeadline :: "db \<Rightarrow> gtime option" where
  "NextDeadline d =
     (let earliest = foldl (\<lambda>e w. if e = 0 \<or> w_due w < e then w_due w else e) 0 (pending d) in
      if earliest = 0 then None else Some earliest)"

definition Due :: "gtime \<Rightarrow> db \<Rightarrow> wakeup_row list" where
  "Due now d = sort_key (\<lambda>w. (w_due w, w_id w)) (filter (\<lambda>w. \<not> w_due w > now) (pending d))"

definition Acknowledge :: "env \<Rightarrow> ID \<Rightarrow> db \<Rightarrow> db \<times> unit res" where
  "Acknowledge E wakeup_id d =
     (if wakeup_id = [] then (d, Inl (Err ''wakeup id is required''))
      else let hit = (\<lambda>w. w_id w = wakeup_id \<and> w_state w = WakeupPending);
               d' = d\<lparr>db_wakeups := update_where hit
                        (\<lambda>w. w\<lparr>w_state := WakeupFired, w_fired := Some (clk E 0)\<rparr>) (db_wakeups d)\<rparr> in
        (d', requireE (count_where hit (db_wakeups d) = 1) (Err ''pending wakeup not found or already acknowledged'')))"

subsection \<open>Expired leases\<close>

definition expire_attempt :: "gtime \<Rightarrow> ID \<Rightarrow> db \<Rightarrow> db" where
  "expire_attempt now attempt_id d =
     d\<lparr>db_attempts := update_where (\<lambda>a. a_id a = attempt_id \<and> a_lease a = LeaseActive)
         (\<lambda>a. a\<lparr>a_lease := LeaseExpired, a_state := AttemptExpired, a_completed := Some now\<rparr>) (db_attempts d)\<rparr>"

definition release_task :: "gtime \<Rightarrow> ID \<Rightarrow> ID \<Rightarrow> db \<Rightarrow> db" where
  "release_task now task_id attempt_id d =
     d\<lparr>db_tasks := update_where (\<lambda>t. t_id t = task_id \<and> t_attempt t = Some attempt_id \<and> t_state t = TaskExecuting)
         (\<lambda>t. t\<lparr>t_state := TaskEligible, t_updated := now\<rparr>) (db_tasks d)\<rparr>"

fun expire_all :: "env \<Rightarrow> gtime \<Rightarrow> nat \<Rightarrow> (ID \<times> ID) list \<Rightarrow> db \<Rightarrow> (nat \<times> db) res" where
  "expire_all E now i [] d = Inr (0, d)"
| "expire_all E now i ((attempt_id, task_id) # xs) d =
     (let d1 = expire_attempt now attempt_id d in
      if count_where (\<lambda>a. a_id a = attempt_id \<and> a_lease a = LeaseActive) (db_attempts d) \<noteq> 1
      then expire_all E now i xs d1
      else bindE (append_event (NewID ''event'' (rnd E i)) task_id attempt_id ''LEASE_EXPIRED''
                    [(''reason'', ''lease_expired'')] now (release_task now task_id attempt_id d1)) (\<lambda>d2.
           bindE (expire_all E now (Suc i) xs d2) (\<lambda>(n, d3). Inr (Suc n, d3))))"

definition expired_attempts :: "gtime \<Rightarrow> db \<Rightarrow> attempt list" where
  "expired_attempts now d = filter (\<lambda>a. a_lease a = LeaseActive \<and> \<not> a_expires a > now) (db_attempts d)"

definition RecoverExpiredLeases :: "env \<Rightarrow> db \<Rightarrow> db \<times> nat res" where
  "RecoverExpiredLeases E d =
     with_tx (\<lambda>d. expire_all E (clk E 0) 0 (map (\<lambda>a. (a_id a, a_task a)) (expired_attempts (clk E 0) d)) d) d"

subsection \<open>The strategic pulse\<close>

record PulseResult =
  pu_dormant :: bool
  pu_authorized :: bool
  pu_obligations :: nat
  pu_blocked :: nat
  pu_unknowns :: nat
  pu_stale :: int
  pu_next :: gtime

definition countDueObligations :: "gtime \<Rightarrow> db \<Rightarrow> nat" where
  "countDueObligations now d =
     count_where (\<lambda>(t, ob). ob_id ob = pr_id (t_purpose t) \<and> ob_active ob \<and> pr_kind (t_purpose t) = PurposeObligation \<and>
         (t_state t = TaskEligible \<or> t_state t = TaskBlocked) \<and> (t_earliest t = 0 \<or> \<not> t_earliest t > now))
       (List.product (db_tasks d) (db_obligations d))"

definition countBlockedTasks :: "db \<Rightarrow> nat" where
  "countBlockedTasks d = count_where (\<lambda>t. t_state t = TaskBlocked) (db_tasks d)"

definition countKnownUnknowns :: "db \<Rightarrow> nat" where
  "countKnownUnknowns d = count_where (\<lambda>x. o_state x = OperationOutcomeUnknown) (db_ops d)"

type_synonym freshness = "db \<Rightarrow> int res"

definition countStaleCapabilityAssessments :: "freshness option \<Rightarrow> db \<Rightarrow> int res" where
  "countStaleCapabilityAssessments fresh d =
     (case fresh of
        None \<Rightarrow> Inr 0
      | Some f \<Rightarrow> bindE (f d) (\<lambda>n.
          bindE (requireE (\<not> n < 0) (Err ''stale capability assessment count cannot be negative'')) (\<lambda>_. Inr n)))"

text \<open>The pending pulses whose stored due time is a later text than the text of now.\<close>

definition future_pulses :: "gtime \<Rightarrow> db \<Rightarrow> wakeup_row list" where
  "future_pulses now d = sort_key (\<lambda>w. (formatTime (w_due w), w_id w))
     (filter (\<lambda>w. w_kind w = KindStrategicPulse \<and> formatTime (w_due w) > formatTime now) (pending d))"

definition ensureStrategicPulse :: "gtime \<Rightarrow> string \<Rightarrow> gtime \<Rightarrow> db \<Rightarrow> db \<times> gtime res" where
  "ensureStrategicPulse now rand desired =
     with_tx (\<lambda>d.
       case future_pulses now d of
         w # ws \<Rightarrow>
           if desired < w_due w
           then Inr (desired, d\<lparr>db_wakeups := update_where (\<lambda>x. w_id x = w_id w \<and> w_state x = WakeupPending)
                                  (\<lambda>x. x\<lparr>w_due := desired\<rparr>) (db_wakeups d)\<rparr>)
           else Inr (w_due w, d)
       | [] \<Rightarrow>
           bindE (insert_wakeup (pending_wakeup now rand KindStrategicPulse [] desired) d) (\<lambda>d'. Inr (desired, d')))"

definition StrategicPulse ::
  "freshness option \<Rightarrow> env \<Rightarrow> CapacitySnapshot \<Rightarrow> int \<Rightarrow> db \<Rightarrow> db \<times> PulseResult res" where
  "StrategicPulse fresh E capacity interval d =
     (if interval \<le> 0 then (d, Inl (Err ''positive strategic pulse interval is required''))
      else case countStaleCapabilityAssessments fresh d of
        Inl e \<Rightarrow> (d, Inl e)
      | Inr stale \<Rightarrow>
          (case Next (clk E 1) capacity d of
             Inl e \<Rightarrow> (d, Inl e)
           | Inr candidate \<Rightarrow>
               (case ensureStrategicPulse (clk E 3) (rnd E 0) (clk E 2 + interval) d of
                  (d', Inl e) \<Rightarrow> (d', Inl e)
                | (d', Inr next_at) \<Rightarrow>
                    let authorized = (candidate \<noteq> None); obligations = countDueObligations (clk E 0) d;
                        blocked = countBlockedTasks d; unknowns = countKnownUnknowns d in
                    (d', Inr \<lparr>pu_dormant = (\<not> authorized \<and> obligations = 0 \<and> blocked = 0 \<and> unknowns = 0 \<and> stale = 0),
                              pu_authorized = authorized, pu_obligations = obligations, pu_blocked = blocked,
                              pu_unknowns = unknowns, pu_stale = stale, pu_next = next_at\<rparr>))))"

subsection \<open>Recovery in closed form\<close>

lemma update_where_twice:
  assumes "\<And>x. x \<in> set rows \<Longrightarrow> Q x \<Longrightarrow> \<not> P (f x)"
  shows "update_where P f (update_where Q f rows) = update_where (\<lambda>x. P x \<or> Q x) f rows"
  using assms by (induction rows) (auto simp: update_where_Cons)

lemma update_where_cong:
  "(\<And>x. x \<in> set rows \<Longrightarrow> P x = Q x) \<Longrightarrow> update_where P f rows = update_where Q f rows"
  by (induction rows) (auto simp: update_where_Cons)

definition recovered :: "gtime \<Rightarrow> (ID \<times> ID) list \<Rightarrow> db \<Rightarrow> db" where
  "recovered now xs d =
     d\<lparr>db_attempts := update_where (\<lambda>a. a_id a \<in> fst ` set xs \<and> a_lease a = LeaseActive)
         (\<lambda>a. a\<lparr>a_lease := LeaseExpired, a_state := AttemptExpired, a_completed := Some now\<rparr>) (db_attempts d),
       db_tasks := update_where (\<lambda>t. (\<exists>k. t_attempt t = Some k \<and> (k, t_id t) \<in> set xs) \<and> t_state t = TaskExecuting)
         (\<lambda>t. t\<lparr>t_state := TaskEligible, t_updated := now\<rparr>) (db_tasks d)\<rparr>"

lemma recovered_Nil: "recovered now [] d = d"
  by (simp add: recovered_def update_where_none)

lemma expire_all_recovered:
  assumes "expire_all E now i xs d = Inr (n, d')" and "distinct (map fst xs)" and "distinct (map a_id (db_attempts d))"
    and "\<And>k. k \<in> fst ` set xs \<Longrightarrow> \<exists>a. find_by a_id k (db_attempts d) = Some a \<and> a_lease a = LeaseActive"
  shows "n = length xs \<and> (\<exists>events. d' = (recovered now xs d)\<lparr>db_events := events\<rparr>)"
  using assms
proof (induction E now i xs d arbitrary: n d' rule: expire_all.induct)
  case (1 E now i d)
  then show ?case by (simp add: recovered_Nil) (metis db.surjective db.update_convs(9))
next
  case (2 E now i k j xs d)
  let ?active = "\<lambda>a. a_id a = k \<and> a_lease a = LeaseActive"
  have one: "count_where ?active (db_attempts d) = 1"
  proof -
    obtain a where "find_by a_id k (db_attempts d) = Some a" "a_lease a = LeaseActive" using 2(6) [of k] by auto
    then show ?thesis using 2(5) by (simp add: count_where_key)
  qed
  let ?d1 = "release_task now j k (expire_attempt now k d)"
  obtain d2 m where ev: "append_event (NewID ''event'' (rnd E i)) j k ''LEASE_EXPIRED'' [(''reason'', ''lease_expired'')] now ?d1 = Inr d2"
    and rest: "expire_all E now (Suc i) xs d2 = Inr (m, d')" and n: "n = Suc m"
    using 2(3) one by (auto simp: Let_def bind_simps)
  obtain es where d2: "d2 = ?d1\<lparr>db_events := es\<rparr>" using append_event_Inr [OF ev] by blast
  have attempts: "db_attempts d2 = update_where ?active (\<lambda>a. a\<lparr>a_lease := LeaseExpired, a_state := AttemptExpired, a_completed := Some now\<rparr>) (db_attempts d)"
    and tasks: "db_tasks d2 = update_where (\<lambda>t. t_id t = j \<and> t_attempt t = Some k \<and> t_state t = TaskExecuting)
         (\<lambda>t. t\<lparr>t_state := TaskEligible, t_updated := now\<rparr>) (db_tasks d)"
    by (simp_all add: d2 release_task_def expire_attempt_def)
  have "m = length xs \<and> (\<exists>events. d' = (recovered now xs d2)\<lparr>db_events := events\<rparr>)"
  proof (rule 2(2) [OF refl _ rest])
    show "\<not> count_where ?active (db_attempts d) \<noteq> 1" using one by simp
    show "distinct (map fst xs)" using 2(4) by simp
    show "distinct (map a_id (db_attempts d2))" using 2(5) by (simp add: attempts map_key_update_where)
    fix x
    assume "x \<in> fst ` set xs"
    then have "x \<noteq> k" "x \<in> fst ` set ((k, j) # xs)" using 2(4) by auto
    moreover obtain a where a: "find_by a_id x (db_attempts d) = Some a" "a_lease a = LeaseActive"
      using 2(6) [OF calculation(2)] by blast
    ultimately show "\<exists>a. find_by a_id x (db_attempts d2) = Some a \<and> a_lease a = LeaseActive"
      using find_by_SomeD [OF a(1)] by (simp add: attempts find_by_update_where)
  qed
  then obtain events where m: "m = length xs" and d': "d' = (recovered now xs d2)\<lparr>db_events := events\<rparr>" by blast
  have "db_attempts (recovered now xs d2) = db_attempts (recovered now ((k, j) # xs) d)"
    unfolding recovered_def
    by (simp add: attempts) (subst update_where_twice; auto intro!: update_where_cong)
  moreover have "db_tasks (recovered now xs d2) = db_tasks (recovered now ((k, j) # xs) d)"
    unfolding recovered_def
    by (simp add: tasks) (subst update_where_twice; auto intro!: update_where_cong)
  ultimately have "(recovered now xs d2)\<lparr>db_events := events\<rparr> = (recovered now ((k, j) # xs) d)\<lparr>db_events := events\<rparr>"
    by (simp add: recovered_def d2 release_task_def expire_attempt_def)
  then show ?case using m n d' by auto
qed

lemma expired_active:
  assumes "exec_ok d" and "k \<in> fst ` set (map (\<lambda>a. (a_id a, a_task a)) (expired_attempts now d))"
  shows "\<exists>a. find_by a_id k (db_attempts d) = Some a \<and> a_lease a = LeaseActive"
  using assms(2) find_by_member [OF exec_okD(2) [OF assms(1)]] by (auto simp: expired_attempts_def)

lemma distinct_expired:
  "exec_ok d \<Longrightarrow> distinct (map fst (map (\<lambda>a. (a_id a, a_task a)) (expired_attempts now d)))"
  using exec_okD(2) by (simp add: expired_attempts_def comp_def distinct_map_filter)

lemma RecoverExpiredLeases_Inr:
  assumes "exec_ok d" and "RecoverExpiredLeases E d = (d', Inr n)"
  obtains events where "n = length (expired_attempts (clk E 0) d)"
    "d' = (recovered (clk E 0) (map (\<lambda>a. (a_id a, a_task a)) (expired_attempts (clk E 0) d)) d)\<lparr>db_events := events\<rparr>"
proof -
  have "expire_all E (clk E 0) 0 (map (\<lambda>a. (a_id a, a_task a)) (expired_attempts (clk E 0) d)) d = Inr (n, d')"
    using assms(2) by (simp add: RecoverExpiredLeases_def with_tx_Inr_iff)
  from expire_all_recovered [OF this distinct_expired [OF assms(1)] exec_okD(2) [OF assms(1)] expired_active [OF assms(1), where now = "clk E 0"]]
  show thesis using that by auto
qed

lemma recovered_next:
  assumes ok: "exec_ok d"
  shows "exec_next d (recovered now xs d)"
proof -
  let ?P = "\<lambda>t. (\<exists>k. t_attempt t = Some k \<and> (k, t_id t) \<in> set xs) \<and> t_state t = TaskExecuting"
  let ?Q = "\<lambda>a. a_id a \<in> fst ` set xs \<and> a_lease a = LeaseActive"
  show ?thesis
  proof (rule exec_next_update [OF ok, where P = ?P and Q = ?Q])
    fix a t
    assume "t_attempt t = Some (a_id a)" "a_lease a = LeaseActive" "?P t"
    then show "?Q a \<and> a_lease (a\<lparr>a_lease := LeaseExpired, a_state := AttemptExpired, a_completed := Some now\<rparr>) \<noteq> LeaseActive"
      by (auto intro: rev_image_eqI)
  qed (simp_all add: recovered_def same_attempt_def)
qed

lemma RecoverExpiredLeases_ok: "exec_ok d \<Longrightarrow> exec_next d (fst (RecoverExpiredLeases E d))"
proof (cases "RecoverExpiredLeases E d")
  case (Pair d' out)
  assume ok: "exec_ok d"
  show ?thesis
  proof (cases out)
    case (Inl e)
    with Pair have "d' = d" by (auto simp: RecoverExpiredLeases_def with_tx_Inl_iff)
    with Pair ok show ?thesis by (simp add: exec_next_refl)
  next
    case (Inr n)
    from RecoverExpiredLeases_Inr [OF ok Pair [unfolded Inr]] obtain events where d': "d' =
      (recovered (clk E 0) (map (\<lambda>a. (a_id a, a_task a)) (expired_attempts (clk E 0) d)) d)\<lparr>db_events := events\<rparr>"
      by blast
    show ?thesis
      using recovered_next [OF ok] exec_next_cong [of d' "recovered (clk E 0) (map (\<lambda>a. (a_id a, a_task a)) (expired_attempts (clk E 0) d)) d" d]
        Pair by (simp add: d')
  qed
qed

lemma expire_all_unique: "expire_all E now i xs d = Inl e \<Longrightarrow> e = ErrConstraint ''UNIQUE''"
  by (induction E now i xs d rule: expire_all.induct)
    (auto simp: Let_def bind_simps append_event_def insert_unique_Inl_iff split: if_splits)

lemma expire_all_error: "expire_all E now i xs d = Inl e \<Longrightarrow> mapCanonicalInvariantError e = ErrConstraint ''UNIQUE''"
  by (drule expire_all_unique) (simp add: mapCanonicalInvariantError_def policyProfileInactiveMarker_def)

subsection \<open>Wakeups as a transition system\<close>

text \<open>Everything that may happen to the wakeups short of acknowledging the one called \<open>k\<close>.\<close>

inductive wake_step :: "ID \<Rightarrow> db \<Rightarrow> db \<Rightarrow> bool" for k where
  wake_schedule: "wake_step k d (fst (Schedule E kind task_id due d))"
| wake_acknowledge: "j \<noteq> k \<Longrightarrow> wake_step k d (fst (Acknowledge E j d))"
| wake_recover: "wake_step k d (fst (RecoverExpiredLeases E d))"
| wake_pulse: "wake_step k d (fst (StrategicPulse fresh E capacity interval d))"
| wake_exec: "exec_step d d' \<Longrightarrow> wake_step k d d'"

definition waiting :: "ID \<Rightarrow> gtime \<Rightarrow> db \<Rightarrow> bool" where
  "waiting k due d \<longleftrightarrow> distinct (map w_id (db_wakeups d)) \<and>
     (\<exists>w. find_by w_id k (db_wakeups d) = Some w \<and> w_state w = WakeupPending \<and> w_due w \<le> due)"

lemma waiting_cong: "db_wakeups d' = db_wakeups d \<Longrightarrow> waiting k due d' = waiting k due d"
  by (simp add: waiting_def)

lemma waiting_update:
  assumes "waiting k due d" and f: "\<And>w. w_id (f w) = w_id w"
    and keep: "\<And>w. w \<in> set (db_wakeups d) \<Longrightarrow> w_id w = k \<Longrightarrow> P w \<Longrightarrow> w_state w = WakeupPending \<Longrightarrow> w_due w \<le> due \<Longrightarrow>
      w_state (f w) = WakeupPending \<and> w_due (f w) \<le> due"
    and d': "db_wakeups d' = update_where P f (db_wakeups d)"
  shows "waiting k due d'"
proof -
  obtain w where w: "find_by w_id k (db_wakeups d) = Some w" "w_state w = WakeupPending" "w_due w \<le> due"
    using assms(1) by (auto simp: waiting_def)
  have "find_by w_id k (db_wakeups d') = Some (if P w then f w else w)"
    using w(1) f by (simp add: d' find_by_update_where)
  moreover have "map w_id (db_wakeups d') = map w_id (db_wakeups d)"
    using f by (simp add: d' map_key_update_where)
  ultimately show ?thesis
    using assms(1) w(2,3) keep find_by_SomeD [OF w(1)] by (auto simp: waiting_def)
qed

lemma insert_wakeup_waiting: "insert_wakeup w d = Inr d' \<Longrightarrow> waiting k due d \<Longrightarrow> waiting k due d'"
  by (auto simp: insert_wakeup_def bind_simps waiting_def insert_unique_Inr_iff find_by_append)

lemma future_pulses_member:
  assumes "future_pulses now d = w # ws"
  shows "w \<in> set (db_wakeups d) \<and> w_state w = WakeupPending \<and> w_kind w = KindStrategicPulse \<and>
    formatTime now < formatTime (w_due w)"
proof -
  have "set (future_pulses now d) = set (filter (\<lambda>w. w_kind w = KindStrategicPulse \<and> formatTime (w_due w) > formatTime now) (pending d))"
    by (simp add: future_pulses_def)
  then have "w \<in> set (filter (\<lambda>w. w_kind w = KindStrategicPulse \<and> formatTime (w_due w) > formatTime now) (pending d))"
    using assms by auto
  then show ?thesis by (simp add: pending_def)
qed

lemma ensureStrategicPulse_waiting:
  assumes "waiting k due d"
  shows "waiting k due (fst (ensureStrategicPulse now rand desired d))"
  unfolding ensureStrategicPulse_def
proof (rule with_tx_invariant [where I = "waiting k due", OF _ assms])
  fix x d'
  assume body: "(case future_pulses now d of
         w # ws \<Rightarrow>
           if desired < w_due w
           then Inr (desired, d\<lparr>db_wakeups := update_where (\<lambda>x. w_id x = w_id w \<and> w_state x = WakeupPending)
                                  (\<lambda>x. x\<lparr>w_due := desired\<rparr>) (db_wakeups d)\<rparr>)
           else Inr (w_due w, d)
       | [] \<Rightarrow>
           bindE (insert_wakeup (pending_wakeup now rand KindStrategicPulse [] desired) d) (\<lambda>d'. Inr (desired, d'))) = Inr (x, d')"
  show "waiting k due d'"
  proof (cases "future_pulses now d")
    case Nil
    with body show ?thesis using insert_wakeup_waiting assms by (auto simp: bind_simps)
  next
    case (Cons w ws)
    show ?thesis
    proof (cases "desired < w_due w")
      case True
      have w: "w \<in> set (db_wakeups d)" using future_pulses_member [OF Cons] by blast
      show ?thesis
      proof (rule waiting_update [OF assms])
        show "db_wakeups d' = update_where (\<lambda>x. w_id x = w_id w \<and> w_state x = WakeupPending) (\<lambda>x. x\<lparr>w_due := desired\<rparr>) (db_wakeups d)"
          using body Cons True by auto
        fix v
        assume v: "v \<in> set (db_wakeups d)" "w_id v = w_id w \<and> w_state v = WakeupPending" "w_due v \<le> due"
        have "distinct (map w_id (db_wakeups d))" using assms by (simp add: waiting_def)
        then have "v = w" using v w by (metis distinct_map inj_onD)
        with True v show "w_state (v\<lparr>w_due := desired\<rparr>) = WakeupPending \<and> w_due (v\<lparr>w_due := desired\<rparr>) \<le> due" by simp
      qed simp
    next
      case False
      then show ?thesis using body Cons assms by auto
    qed
  qed
qed

lemma wake_step_waiting: "wake_step k d d' \<Longrightarrow> exec_ok d \<and> waiting k due d \<Longrightarrow> exec_ok d' \<and> waiting k due d'"
proof (induction rule: wake_step.induct)
  case (wake_schedule d E kind task_id due')
  have "db_tasks (fst (Schedule E kind task_id due' d)) = db_tasks d \<and> db_attempts (fst (Schedule E kind task_id due' d)) = db_attempts d"
    by (auto simp: Schedule_def Let_def insert_wakeup_def bind_simps
        intro!: on_db_invariant [where I = "\<lambda>x. db_tasks x = db_tasks d \<and> db_attempts x = db_attempts d"])
  moreover have "waiting k due (fst (Schedule E kind task_id due' d))"
    using wake_schedule insert_wakeup_waiting
    by (auto simp: Schedule_def Let_def bind_simps intro!: on_db_invariant [where I = "waiting k due"])
  ultimately show ?case using wake_schedule exec_ok_cong by blast
next
  case (wake_acknowledge j d E)
  have "waiting k due (fst (Acknowledge E j d))"
    using wake_acknowledge
    by (auto simp: Acknowledge_def Let_def intro: waiting_update [where P = "\<lambda>w. w_id w = j \<and> w_state w = WakeupPending"
          and f = "\<lambda>w. w\<lparr>w_state := WakeupFired, w_fired := Some (clk E 0)\<rparr>" and d = d])
  then show ?case
    using wake_acknowledge exec_ok_cong [of "fst (Acknowledge E j d)" d] by (simp add: Acknowledge_def Let_def)
next
  case (wake_recover d E)
  then have "exec_ok (fst (RecoverExpiredLeases E d))" using RecoverExpiredLeases_ok by (simp add: exec_next_def)
  moreover have "db_wakeups (fst (RecoverExpiredLeases E d)) = db_wakeups d"
  proof (cases "RecoverExpiredLeases E d")
    case (Pair d' out)
    show ?thesis
    proof (cases out)
      case (Inl e)
      then have "d' = d" using Pair by (auto simp: RecoverExpiredLeases_def with_tx_Inl_iff)
      then show ?thesis using Pair by simp
    next
      case (Inr n)
      then have "db_wakeups d' = db_wakeups d"
        using wake_recover Pair by (auto elim!: RecoverExpiredLeases_Inr simp: recovered_def)
      then show ?thesis using Pair by simp
    qed
  qed
  ultimately show ?case using wake_recover waiting_cong by blast
next
  case (wake_pulse d fresh E capacity interval)
  let ?d' = "fst (StrategicPulse fresh E capacity interval d)"
  have cases: "?d' = d \<or> ?d' = fst (ensureStrategicPulse (clk E 3) (rnd E 0) (clk E 2 + interval) d)"
    by (auto simp: StrategicPulse_def Let_def split: sum.splits prod.splits)
  have "db_tasks (fst (ensureStrategicPulse now rand desired d)) = db_tasks d \<and>
      db_attempts (fst (ensureStrategicPulse now rand desired d)) = db_attempts d" for now rand desired
    by (auto simp: ensureStrategicPulse_def insert_wakeup_def bind_simps split: list.splits if_splits
        intro!: with_tx_invariant [where I = "\<lambda>x. db_tasks x = db_tasks d \<and> db_attempts x = db_attempts d"])
  then show ?case
    using cases wake_pulse ensureStrategicPulse_waiting exec_ok_cong by metis
next
  case (wake_exec d d')
  then have "exec_ok d'" using execution.step_inv by blast
  then show ?case using wake_exec exec_onlyD(12) [OF exec_step_only [OF wake_exec(1)]] waiting_cong by blast
qed

interpretation wake: kept_invariant "wake_step k" "\<lambda>d. exec_ok d \<and> waiting k due d" for k due
  by unfold_locales (rule wake_step_waiting)

subsection \<open>Properties\<close>

text \<open>
  Recovery of expired leases, on every branch: \<open>RecoverExpiredLeases\<close> ends exactly the ACTIVE leases that have
  run out, makes exactly the tasks ELIGIBLE that were EXECUTING under one of them, changes no other attempt or
  task and returns their number, so that afterwards every ACTIVE lease has time left; it fails only on an event
  identifier that is taken, and then changes nothing.
\<close>

theorem RecoverExpiredLeases_behaviour:
  assumes ok: "exec_ok d" and run: "RecoverExpiredLeases E d = (d', out)"
  shows "(case out of
      Inl e \<Rightarrow> d' = d \<and> e = ErrConstraint ''UNIQUE''
    | Inr n \<Rightarrow> n = count_where (\<lambda>a. a_lease a = LeaseActive \<and> a_expires a \<le> clk E 0) (db_attempts d) \<and>
        (\<forall>a' \<in> set (db_attempts d'). a_lease a' = LeaseActive \<longrightarrow> clk E 0 < a_expires a') \<and>
        (\<forall>k a. find_by a_id k (db_attempts d) = Some a \<longrightarrow> find_by a_id k (db_attempts d') =
           Some (if a_lease a = LeaseActive \<and> a_expires a \<le> clk E 0
                 then a\<lparr>a_lease := LeaseExpired, a_state := AttemptExpired, a_completed := Some (clk E 0)\<rparr> else a)) \<and>
        (\<forall>j t. find_by t_id j (db_tasks d) = Some t \<longrightarrow> find_by t_id j (db_tasks d') =
           Some (if t_state t = TaskExecuting \<and> (\<exists>k a. t_attempt t = Some k \<and> find_by a_id k (db_attempts d) = Some a \<and>
                     a_lease a = LeaseActive \<and> a_expires a \<le> clk E 0)
                 then t\<lparr>t_state := TaskEligible, t_updated := clk E 0\<rparr> else t)))"
proof (cases out)
  case (Inl e)
  then show ?thesis
    using run expire_all_error by (auto simp: RecoverExpiredLeases_def with_tx_Inl_iff)
next
  case (Inr n)
  let ?now = "clk E 0"
  let ?xs = "map (\<lambda>a. (a_id a, a_task a)) (expired_attempts ?now d)"
  let ?old = "\<lambda>a. a_lease a = LeaseActive \<and> a_expires a \<le> ?now"
  let ?g = "\<lambda>a. a\<lparr>a_lease := LeaseExpired, a_state := AttemptExpired, a_completed := Some ?now\<rparr>"
  let ?f = "\<lambda>t. t\<lparr>t_state := TaskEligible, t_updated := ?now\<rparr>"
  from run [unfolded Inr] obtain events where n: "n = length (expired_attempts ?now d)"
    and d': "d' = (recovered ?now ?xs d)\<lparr>db_events := events\<rparr>"
    by (rule RecoverExpiredLeases_Inr [OF ok])
  have expired: "a \<in> set (expired_attempts ?now d) \<longleftrightarrow> a \<in> set (db_attempts d) \<and> ?old a" for a
    by (auto simp: expired_attempts_def)
  have ids: "a_id a \<in> fst ` set ?xs \<and> a_lease a = LeaseActive \<longleftrightarrow> ?old a" if "a \<in> set (db_attempts d)" for a
  proof
    assume "a_id a \<in> fst ` set ?xs \<and> a_lease a = LeaseActive"
    then obtain b where "b \<in> set (db_attempts d)" "?old b" "a_id b = a_id a" by (auto simp: expired)
    then show "?old a" using that exec_okD(2) [OF ok] by (metis distinct_map inj_onD)
  qed (use that expired in \<open>force\<close>)
  have attempts: "db_attempts d' = update_where ?old ?g (db_attempts d)"
    unfolding d' recovered_def by (simp, rule update_where_cong) (use ids in simp)
  have task_hit: "((\<exists>k. t_attempt t = Some k \<and> (k, t_id t) \<in> set ?xs) \<and> t_state t = TaskExecuting) \<longleftrightarrow>
      t_state t = TaskExecuting \<and> (\<exists>k a. t_attempt t = Some k \<and> find_by a_id k (db_attempts d) = Some a \<and> ?old a)"
    if t: "t \<in> set (db_tasks d)" for t
  proof -
    have "a_task a = t_id t" if "t_attempt t = Some k" "find_by a_id k (db_attempts d) = Some a" for k a
      using exec_okD(4) [OF ok t] that by (simp add: task_ok_def)
    moreover have "(k, t_id t) \<in> set ?xs \<longleftrightarrow> (\<exists>a. find_by a_id k (db_attempts d) = Some a \<and> ?old a \<and> a_task a = t_id t)" for k
      unfolding find_by_iff [OF exec_okD(2) [OF ok]] by (auto simp: expired)
    ultimately show ?thesis by blast
  qed
  have tasks: "db_tasks d' = update_where (\<lambda>t. t_state t = TaskExecuting \<and>
      (\<exists>k a. t_attempt t = Some k \<and> find_by a_id k (db_attempts d) = Some a \<and> ?old a)) ?f (db_tasks d)"
    unfolding d' recovered_def by (simp, rule update_where_cong) (use task_hit in simp)
  have "find_by a_id k (db_attempts d') = map_option (\<lambda>a. if ?old a then ?g a else a) (find_by a_id k (db_attempts d))" for k
    by (simp add: attempts find_by_update_where)
  moreover have "find_by t_id j (db_tasks d') = map_option (\<lambda>t. if t_state t = TaskExecuting \<and>
      (\<exists>k a. t_attempt t = Some k \<and> find_by a_id k (db_attempts d) = Some a \<and> ?old a) then ?f t else t) (find_by t_id j (db_tasks d))" for j
    by (simp add: tasks find_by_update_where)
  moreover have "\<forall>a' \<in> set (db_attempts d'). a_lease a' = LeaseActive \<longrightarrow> ?now < a_expires a'"
    by (auto simp: attempts set_update_where not_le)
  moreover have "n = count_where ?old (db_attempts d)"
    by (simp add: n expired_attempts_def count_where_def not_less)
  ultimately show ?thesis unfolding Inr sum.case by simp
qed

definition demo_env70 :: env where
  "demo_env70 = \<lparr>clk = (\<lambda>_. 70), rnd = (\<lambda>i. ''7'')\<rparr>"

lemma RecoverExpiredLeases_behaviour_witness:
  "\<exists>t. find_by t_id ''task_1'' (db_tasks (fst (RecoverExpiredLeases demo_env70 demo_started))) = Some t \<and> t_state t = TaskEligible"
proof -
  have run: "RecoverExpiredLeases demo_env70 demo_started = (fst (RecoverExpiredLeases demo_env70 demo_started), Inr 1)"
    by code_simp
  have "map (\<lambda>t. (t_id t, t_state t, t_attempt t)) (db_tasks demo_started) = [(''task_1'', TaskExecuting, Some ''attempt_1'')]"
    "map (\<lambda>a. (a_id a, a_lease a, a_expires a)) (db_attempts demo_started) = [(''attempt_1'', LeaseActive, 60)]"
    by code_simp+
  then obtain t a where "db_tasks demo_started = [t]" "t_id t = ''task_1''" "t_state t = TaskExecuting"
    "t_attempt t = Some ''attempt_1''" "db_attempts demo_started = [a]" "a_id a = ''attempt_1''" "a_lease a = LeaseActive" "a_expires a = 60"
    by (auto simp: map_eq_Cons_conv)
  then have "find_by t_id ''task_1'' (db_tasks demo_started) = Some t" "find_by a_id ''attempt_1'' (db_attempts demo_started) = Some a"
    "t_state t = TaskExecuting" "t_attempt t = Some ''attempt_1''" "a_lease a = LeaseActive" "a_expires a = 60"
    by (simp_all add: find_by_Cons)
  with RecoverExpiredLeases_behaviour [OF demo_started_ok run] show ?thesis by (simp add: demo_env70_def)
qed

text \<open>
  C27. No wakeup is lost: once a wakeup is pending, then whatever is scheduled, acknowledged, recovered or executed
  afterwards, and however often the strategic pulse moves it, \<open>Due\<close> delivers it at every time from its due time
  on until it is acknowledged itself; the first acknowledgement succeeds, \<open>Due\<close> no longer delivers it and a
  second acknowledgement fails.
\<close>

theorem wakeup_delivered_until_acknowledged:
  assumes "(wake_step k)\<^sup>*\<^sup>* d d'" and "exec_ok d" and "distinct (map w_id (db_wakeups d))" and "k \<noteq> []"
    and "find_by w_id k (db_wakeups d) = Some w" and "w_state w = WakeupPending" and "w_due w \<le> now"
  shows "k \<in> w_id ` set (Due now d') \<and>
    (\<exists>d2. Acknowledge E k d' = (d2, Inr ()) \<and> (\<forall>now'. k \<notin> w_id ` set (Due now' d2)) \<and>
       (\<forall>E'. \<exists>e. Acknowledge E' k d2 = (d2, Inl e)))"
proof -
  have "exec_ok d \<and> waiting k now d" using assms by (auto simp: waiting_def)
  then have "waiting k now d'" using wake.reach_inv [OF assms(1)] by blast
  then obtain w' where distinct: "distinct (map w_id (db_wakeups d'))" and w': "find_by w_id k (db_wakeups d') = Some w'"
    "w_state w' = WakeupPending" "w_due w' \<le> now"
    by (auto simp: waiting_def)
  let ?hit = "\<lambda>w. w_id w = k \<and> w_state w = WakeupPending"
  let ?d2 = "d'\<lparr>db_wakeups := update_where ?hit (\<lambda>w. w\<lparr>w_state := WakeupFired, w_fired := Some (clk E 0)\<rparr>) (db_wakeups d')\<rparr>"
  have mem: "w' \<in> set (db_wakeups d')" "w_id w' = k" using find_by_SomeD [OF w'(1)] by auto
  then have due: "k \<in> w_id ` set (Due now d')"
    using w' by (auto simp: Due_def pending_def)
  have "count_where ?hit (db_wakeups d') = 1"
    using w' by (simp add: count_where_key [OF distinct])
  then have ack: "Acknowledge E k d' = (?d2, Inr ())"
    using assms(4) by (simp add: Acknowledge_def Let_def)
  have "\<forall>v \<in> set (db_wakeups ?d2). \<not> ?hit v"
    by (simp add: all_update_where)
  then have none: "\<not> ?hit v" if "v \<in> set (db_wakeups ?d2)" for v
    using that by blast
  then have "k \<notin> w_id ` set (Due now' ?d2)" for now'
    by (auto simp: Due_def pending_def)
  moreover have "update_where ?hit f (db_wakeups ?d2) = db_wakeups ?d2" for f
    by (rule update_where_none) (use none in blast)
  moreover have "count_where ?hit (db_wakeups ?d2) = 0"
    unfolding count_where_zero using none by blast
  ultimately have "\<exists>e. Acknowledge E' k ?d2 = (?d2, Inl e)" for E'
    using assms(4) by (simp add: Acknowledge_def Let_def)
  with due ack \<open>\<And>now'. k \<notin> w_id ` set (Due now' ?d2)\<close> show ?thesis by blast
qed

definition demo_pulse_env :: env where
  "demo_pulse_env = \<lparr>clk = (\<lambda>_. 5), rnd = (\<lambda>i. ''1'')\<rparr>"

definition demo_scheduled :: db where
  "demo_scheduled = fst (Schedule demo_pulse_env KindTaskReevaluation ''task_1'' 40 demo_started)"

lemma wakeup_delivered_until_acknowledged_witness:
  "''wakeup_1'' \<in> w_id ` set (Due 70 (fst (RecoverExpiredLeases demo_env70 demo_scheduled)))"
proof -
  have "wake_step ''wakeup_1'' demo_scheduled (fst (RecoverExpiredLeases demo_env70 demo_scheduled))"
    by (rule wake_recover)
  moreover have "exec_ok demo_scheduled"
  proof -
    have "db_tasks demo_scheduled = db_tasks demo_started" "db_attempts demo_scheduled = db_attempts demo_started"
      by code_simp+
    from exec_ok_cong [OF this] demo_started_ok show ?thesis by simp
  qed
  moreover have rows: "map (\<lambda>w. (w_id w, w_state w, w_due w)) (db_wakeups demo_scheduled) = [(''wakeup_1'', WakeupPending, 40)]"
    by code_simp
  then obtain w where "db_wakeups demo_scheduled = [w]" "w_id w = ''wakeup_1''" "w_state w = WakeupPending" "w_due w = 40"
    by (auto simp: map_eq_Cons_conv)
  then have "distinct (map w_id (db_wakeups demo_scheduled))" "find_by w_id ''wakeup_1'' (db_wakeups demo_scheduled) = Some w"
    "w_state w = WakeupPending" "w_due w \<le> 70" by (simp_all add: find_by_Cons)
  ultimately show ?thesis
    using wakeup_delivered_until_acknowledged [OF r_into_rtranclp, of "''wakeup_1''" demo_scheduled _ w 70] by blast
qed

lemma StrategicPulse_Inr:
  assumes "StrategicPulse fresh E capacity interval d = (d', Inr r)"
  obtains candidate stale where "0 < interval" "Next (clk E 1) capacity d = Inr candidate"
    "countStaleCapabilityAssessments fresh d = Inr stale"
    "ensureStrategicPulse (clk E 3) (rnd E 0) (clk E 2 + interval) d = (d', Inr (pu_next r))"
    "pu_dormant r \<longleftrightarrow> candidate = None \<and> countDueObligations (clk E 0) d = 0 \<and> countBlockedTasks d = 0 \<and>
       countKnownUnknowns d = 0 \<and> stale = 0"
    "pu_stale r = stale"
  using assms by (auto simp: StrategicPulse_def Let_def split: if_splits sum.splits prod.splits)

definition due_obligation :: "gtime \<Rightarrow> db \<Rightarrow> task \<Rightarrow> bool" where
  "due_obligation now d t \<longleftrightarrow> pr_kind (t_purpose t) = PurposeObligation \<and>
     (t_state t = TaskEligible \<or> t_state t = TaskBlocked) \<and> (t_earliest t = 0 \<or> t_earliest t \<le> now) \<and>
     (\<exists>ob \<in> set (db_obligations d). ob_id ob = pr_id (t_purpose t) \<and> ob_active ob)"

lemma countDueObligations_zero:
  "countDueObligations now d = 0 \<longleftrightarrow> (\<forall>t \<in> set (db_tasks d). \<not> due_obligation now d t)"
  by (auto simp: countDueObligations_def count_where_zero due_obligation_def not_less)

lemma ensureStrategicPulse_Inr:
  assumes "ensureStrategicPulse now rand desired d = (d', Inr due)"
  shows "due \<le> desired \<and> (\<exists>w \<in> set (db_wakeups d'). w_kind w = KindStrategicPulse \<and> w_state w = WakeupPending \<and> w_due w = due)"
proof (cases "future_pulses now d")
  case Nil
  with assms show ?thesis
    by (auto simp: ensureStrategicPulse_def with_tx_Inr_iff bind_simps insert_wakeup_def insert_unique_Inr_iff pending_wakeup_def)
next
  case (Cons w ws)
  note w = future_pulses_member [OF Cons]
  show ?thesis
  proof (cases "desired < w_due w")
    case True
    with assms Cons have "due = desired" "db_wakeups d' =
        update_where (\<lambda>x. w_id x = w_id w \<and> w_state x = WakeupPending) (\<lambda>x. x\<lparr>w_due := desired\<rparr>) (db_wakeups d)"
      by (auto simp: ensureStrategicPulse_def with_tx_Inr_iff)
    moreover from w have "w\<lparr>w_due := desired\<rparr> \<in> set (update_where (\<lambda>x. w_id x = w_id w \<and> w_state x = WakeupPending)
        (\<lambda>x. x\<lparr>w_due := desired\<rparr>) (db_wakeups d))"
      by (force simp: set_update_where)
    ultimately show ?thesis using w by (intro conjI bexI [of _ "w\<lparr>w_due := desired\<rparr>"]) simp_all
  next
    case False
    with assms Cons have "due = w_due w" "d' = d" by (auto simp: ensureStrategicPulse_def with_tx_Inr_iff)
    with False w show ?thesis by auto
  qed
qed

text \<open>
  The strategic pulse, when it succeeds: it is dormant exactly when no task is schedulable, no due obligation,
  blocked task or operation of unknown outcome exists and no capability assessment is stale; and it leaves a
  pending pulse at the time it returns, which is at most one interval away.
\<close>

theorem StrategicPulse_behaviour:
  assumes "exec_ok d" and "StrategicPulse fresh E capacity interval d = (d', Inr r)"
  shows "(pu_dormant r \<longleftrightarrow> (\<forall>t \<in> set (db_tasks d). \<not> schedulable (clk E 1) capacity d t \<and> t_state t \<noteq> TaskBlocked \<and>
        \<not> due_obligation (clk E 0) d t) \<and>
      (\<forall>x \<in> set (db_ops d). o_state x \<noteq> OperationOutcomeUnknown) \<and>
      (case fresh of None \<Rightarrow> True | Some f \<Rightarrow> f d = Inr 0)) \<and>
    pu_next r \<le> clk E 2 + interval \<and>
    (\<exists>w \<in> set (db_wakeups d'). w_kind w = KindStrategicPulse \<and> w_state w = WakeupPending \<and> w_due w = pu_next r)"
proof -
  from assms(2) obtain candidate stale where c: "Next (clk E 1) capacity d = Inr candidate"
    and stale: "countStaleCapabilityAssessments fresh d = Inr stale"
    and pulse: "ensureStrategicPulse (clk E 3) (rnd E 0) (clk E 2 + interval) d = (d', Inr (pu_next r))"
    and dormant: "pu_dormant r \<longleftrightarrow> candidate = None \<and> countDueObligations (clk E 0) d = 0 \<and> countBlockedTasks d = 0 \<and>
       countKnownUnknowns d = 0 \<and> stale = 0"
    by (rule StrategicPulse_Inr)
  have "best (clk E 1) capacity d candidate" using Next_best [OF exec_okD(1) [OF assms(1)] c] .
  then have "candidate = None \<longleftrightarrow> (\<forall>t \<in> set (db_tasks d). \<not> schedulable (clk E 1) capacity d t)"
    by (auto simp: best_def split: option.splits)
  moreover have "stale = 0 \<longleftrightarrow> (case fresh of None \<Rightarrow> True | Some f \<Rightarrow> f d = Inr 0)"
    using stale by (auto simp: countStaleCapabilityAssessments_def bind_simps split: option.splits)
  moreover have "countBlockedTasks d = 0 \<longleftrightarrow> (\<forall>t \<in> set (db_tasks d). t_state t \<noteq> TaskBlocked)"
    "countKnownUnknowns d = 0 \<longleftrightarrow> (\<forall>x \<in> set (db_ops d). o_state x \<noteq> OperationOutcomeUnknown)"
    by (simp_all add: countBlockedTasks_def countKnownUnknowns_def count_where_zero)
  moreover note countDueObligations_zero [of "clk E 0" d] ensureStrategicPulse_Inr [OF pulse]
  ultimately show ?thesis unfolding dormant by blast
qed

definition demo_pulsed :: db where
  "demo_pulsed = fst (StrategicPulse None demo_pulse_env (\<lambda>_. None) 1000000000 demo_started)"

lemma StrategicPulse_behaviour_witness:
  "\<exists>w \<in> set (db_wakeups demo_pulsed). w_kind w = KindStrategicPulse \<and> w_due w \<le> 1000000005"
proof -
  have "case snd (StrategicPulse None demo_pulse_env (\<lambda>_. None) 1000000000 demo_started) of Inl e \<Rightarrow> False | Inr r \<Rightarrow> True"
    by code_simp
  then obtain r where "StrategicPulse None demo_pulse_env (\<lambda>_. None) 1000000000 demo_started = (demo_pulsed, Inr r)"
    unfolding demo_pulsed_def by (cases "StrategicPulse None demo_pulse_env (\<lambda>_. None) 1000000000 demo_started") (auto split: sum.splits)
  from StrategicPulse_behaviour [OF demo_started_ok this] show ?thesis by (auto simp: demo_pulse_env_def)
qed

text \<open>
  A pulse that is due on a whole second stops the pulse for good. Called within that second to handle it,
  \<open>StrategicPulse\<close> takes the very wakeup that is due for a future one, because the text of a whole second comes
  after the texts of its fractions: it schedules nothing and returns a time that has passed, and once the
  handler acknowledges the wakeup no strategic pulse is pending any more.
\<close>

theorem pulse_on_the_second_is_the_last:
  assumes run: "StrategicPulse fresh E capacity interval d = (d', Inr r)"
    and w: "w \<in> set (db_wakeups d)" "w_kind w = KindStrategicPulse" "w_state w = WakeupPending" "w_id w \<noteq> []"
    and only: "\<And>v. v \<in> set (db_wakeups d) \<Longrightarrow> w_kind v = KindStrategicPulse \<Longrightarrow> w_state v = WakeupPending \<Longrightarrow> v = w"
    and second: "w_due w mod 1000000000 = 0" "w_due w < clk E 3" "clk E 3 < w_due w + 1000000000" "w_due w \<le> clk E 2"
  shows "d' = d \<and> pu_next r = w_due w \<and> w \<in> set (Due (clk E 3) d) \<and>
    (\<forall>v \<in> set (db_wakeups (fst (Acknowledge E' (w_id w) d'))). w_kind v = KindStrategicPulse \<longrightarrow> w_state v \<noteq> WakeupPending)"
proof -
  from run obtain "0 < interval"
    and pulse: "ensureStrategicPulse (clk E 3) (rnd E 0) (clk E 2 + interval) d = (d', Inr (pu_next r))"
    by (rule StrategicPulse_Inr)
  have "formatTime (clk E 3) < formatTime (w_due w)"
    by (rule formatTime_whole_second [OF second(1-3)])
  then have "w \<in> set (future_pulses (clk E 3) d)"
    using w by (simp add: future_pulses_def pending_def)
  then obtain v vs where "future_pulses (clk E 3) d = v # vs" by (cases "future_pulses (clk E 3) d") auto
  moreover from future_pulses_member [OF this] only have "v = w" by blast
  ultimately have fp: "future_pulses (clk E 3) d = w # vs" by simp
  have same: "d' = d" "pu_next r = w_due w"
    using pulse fp second(4) \<open>0 < interval\<close> by (auto simp: ensureStrategicPulse_def with_tx_Inr_iff)
  have "w_state v \<noteq> WakeupPending"
    if v: "v \<in> set (db_wakeups (fst (Acknowledge E' (w_id w) d')))" "w_kind v = KindStrategicPulse" for v
  proof -
    obtain u where u: "u \<in> set (db_wakeups d)" "v = (if w_id u = w_id w \<and> w_state u = WakeupPending
        then u\<lparr>w_state := WakeupFired, w_fired := Some (clk E' 0)\<rparr> else u)"
      using v(1) w(4) by (auto simp: Acknowledge_def Let_def set_update_where same)
    show ?thesis
    proof (cases "w_id u = w_id w \<and> w_state u = WakeupPending")
      case False
      then show ?thesis using u only [of u] v(2) by auto
    qed (simp add: u(2))
  qed
  moreover have "w \<in> set (Due (clk E 3) d)"
    using w second(2) by (simp add: Due_def pending_def)
  ultimately show ?thesis using same by blast
qed

definition demo_pulse_env2 :: env where
  "demo_pulse_env2 = \<lparr>clk = (\<lambda>_. 63890208000500000000), rnd = (\<lambda>i. ''2'')\<rparr>"

definition demo_pulse_db :: db where
  "demo_pulse_db = empty_db\<lparr>db_wakeups := [pending_wakeup 5 ''1'' KindStrategicPulse [] 63890208000000000000]\<rparr>"

lemma pulse_on_the_second_is_the_last_witness:
  "\<exists>r. StrategicPulse None demo_pulse_env2 (\<lambda>_. None) 1000000000 demo_pulse_db = (demo_pulse_db, Inr r) \<and>
     pu_next r = 63890208000000000000"
proof -
  have "case snd (StrategicPulse None demo_pulse_env2 (\<lambda>_. None) 1000000000 demo_pulse_db) of Inl e \<Rightarrow> False | Inr r \<Rightarrow> True"
    by code_simp
  then obtain d' r where run: "StrategicPulse None demo_pulse_env2 (\<lambda>_. None) 1000000000 demo_pulse_db = (d', Inr r)"
    by (cases "StrategicPulse None demo_pulse_env2 (\<lambda>_. None) 1000000000 demo_pulse_db") (auto split: sum.splits)
  have "d' = demo_pulse_db \<and> pu_next r = 63890208000000000000"
    using pulse_on_the_second_is_the_last [OF run, of "pending_wakeup 5 ''1'' KindStrategicPulse [] 63890208000000000000"]
    by (simp add: demo_pulse_db_def pending_wakeup_def demo_pulse_env2_def)
  with run show ?thesis by simp
qed

end
