(* ===== verification/Workflow.thy ===== *)
theory Workflow
  imports Purpose
begin

text \<open>
  The bounded workflow (\<open>internal/workflow/decision.go\<close>): \<open>Decide\<close> turns an assessment of finished work into
  the next step of a case, within the grant, the step limit and the budget of the case. Its types are with
  the rows of the store, which keeps them.
\<close>

datatype Verdict = VerdictReady | VerdictContinue | VerdictUnknown | VerdictOther string

record Assessment =
  sm_verdict :: Verdict
  sm_reason :: string
  sm_evidence :: "string list"
  sm_next :: "WorkProposal option"

record Limits =
  li_max :: int
  li_budget :: int

record decide_input =
  in_assessment :: Assessment
  in_grant :: Grant
  in_limits :: Limits
  in_completed :: int
  in_signature :: string
  in_previous :: string

definition isSubset :: "string list \<Rightarrow> string list \<Rightarrow> bool" where
  "isSubset values allowed = list_all (\<lambda>v. v \<in> set allowed) values"

text \<open>The switch on the verdict of an assessment that has evidence.\<close>

definition judge :: "decide_input \<Rightarrow> work_decision res" where
  "judge i =
     (let a = in_assessment i in
      case sm_verdict a of
        VerdictReady \<Rightarrow>
          bindE (requireE (sm_next a = None) (Err ''ready assessment cannot include next work'')) (\<lambda>_.
          Inr \<lparr>wd_outcome = OutcomeReady, wd_reason = sm_reason a, wd_next = None\<rparr>)
      | VerdictUnknown \<Rightarrow> Inr \<lparr>wd_outcome = OutcomeBlocked, wd_reason = sm_reason a, wd_next = None\<rparr>
      | VerdictContinue \<Rightarrow>
          (case sm_next a of
             None \<Rightarrow> Inl (Err ''continue assessment must include a next work kind'')
           | Some n \<Rightarrow>
               bindE (requireE (nonblank (wp_kind n)) (Err ''continue assessment must include a next work kind'')) (\<lambda>_.
               bindE (requireE (isSubset (wp_authority n) (gr_capabilities (in_grant i)))
                        (Err ''next work authority ceiling exceeds grant capabilities'')) (\<lambda>_.
               bindE (requireE (isSubset (wp_required n) (wp_authority n))
                        (Err ''next work required capabilities exceed its authority ceiling'')) (\<lambda>_.
               bindE (requireE (isSubset (wp_actions n) (gr_actions (in_grant i)))
                        (Err ''next work proposed actions exceed grant actions'')) (\<lambda>_.
               if in_completed i \<ge> li_max (in_limits i)
               then Inr \<lparr>wd_outcome = OutcomeBlocked, wd_reason = ''maximum steps exhausted'', wd_next = None\<rparr>
               else if li_budget (in_limits i) \<le> 0
               then Inr \<lparr>wd_outcome = OutcomeBlocked, wd_reason = ''remaining budget exhausted'', wd_next = None\<rparr>
               else if in_signature i \<noteq> [] \<and> in_signature i = in_previous i
               then Inr \<lparr>wd_outcome = OutcomeBlocked, wd_reason = ''no progress detected'', wd_next = None\<rparr>
               else Inr \<lparr>wd_outcome = OutcomeContinue, wd_reason = sm_reason a, wd_next = Some n\<rparr>)))))
      | VerdictOther v \<Rightarrow> Inl (Err ''invalid assessment verdict''))"

definition Decide :: "decide_input \<Rightarrow> work_decision res" where
  "Decide i =
     (let a = in_assessment i in
      bindE (requireE (sm_evidence a \<noteq> []) (Err ''assessment must include evidence'')) (\<lambda>_.
      bindE (requireE (list_all nonblank (sm_evidence a)) (Err ''assessment evidence ID must not be blank'')) (\<lambda>_.
      judge i)))"

subsection \<open>When the work goes on\<close>

text \<open>A proposal is within a grant when all that it asks for has been granted.\<close>

definition within_grant :: "Grant \<Rightarrow> WorkProposal \<Rightarrow> bool" where
  "within_grant g n \<longleftrightarrow> nonblank (wp_kind n) \<and> set (wp_required n) \<subseteq> set (wp_authority n) \<and>
     set (wp_authority n) \<subseteq> set (gr_capabilities g) \<and> set (wp_actions n) \<subseteq> set (gr_actions g)"

lemma isSubset_iff [simp]: "isSubset xs ys \<longleftrightarrow> set xs \<subseteq> set ys"
  by (auto simp: isSubset_def list_all_iff)

definition well_evidenced :: "Assessment \<Rightarrow> bool" where
  "well_evidenced a \<longleftrightarrow> sm_evidence a \<noteq> [] \<and> (\<forall>e \<in> set (sm_evidence a). nonblank e)"

lemma Decide_evidence_first:
  "Decide i = Inr dec \<longleftrightarrow> well_evidenced (in_assessment i) \<and> judge i = Inr dec"
  by (auto simp: Decide_def Let_def bind_simps well_evidenced_def list_all_iff)

lemma judge_other:
  "sm_verdict (in_assessment i) = VerdictReady \<Longrightarrow> judge i = (if sm_next (in_assessment i) = None
     then Inr \<lparr>wd_outcome = OutcomeReady, wd_reason = sm_reason (in_assessment i), wd_next = None\<rparr>
     else Inl (Err ''ready assessment cannot include next work''))"
  "sm_verdict (in_assessment i) = VerdictUnknown \<Longrightarrow>
     judge i = Inr \<lparr>wd_outcome = OutcomeBlocked, wd_reason = sm_reason (in_assessment i), wd_next = None\<rparr>"
  "sm_verdict (in_assessment i) = VerdictOther v \<Longrightarrow> judge i = Inl (Err ''invalid assessment verdict'')"
  "sm_verdict (in_assessment i) = VerdictContinue \<Longrightarrow> sm_next (in_assessment i) = None \<Longrightarrow>
     judge i = Inl (Err ''continue assessment must include a next work kind'')"
  by (auto simp: judge_def Let_def requireE_def)

lemma judge_beyond_grant:
  "sm_verdict (in_assessment i) = VerdictContinue \<Longrightarrow> sm_next (in_assessment i) = Some n \<Longrightarrow>
   \<not> within_grant (in_grant i) n \<Longrightarrow> judge i \<noteq> Inr dec"
  by (auto simp: judge_def within_grant_def bind_simps)

definition stopped :: "decide_input \<Rightarrow> bool" where
  "stopped i \<longleftrightarrow> li_max (in_limits i) \<le> in_completed i \<or> li_budget (in_limits i) \<le> 0 \<or>
     in_signature i \<noteq> [] \<and> in_signature i = in_previous i"

lemma judge_within_grant:
  "sm_verdict (in_assessment i) = VerdictContinue \<Longrightarrow> sm_next (in_assessment i) = Some n \<Longrightarrow> within_grant (in_grant i) n \<Longrightarrow>
   judge i = Inr \<lparr>wd_outcome = (if stopped i then OutcomeBlocked else OutcomeContinue),
     wd_reason = (if li_max (in_limits i) \<le> in_completed i then ''maximum steps exhausted''
       else if li_budget (in_limits i) \<le> 0 then ''remaining budget exhausted''
       else if in_signature i \<noteq> [] \<and> in_signature i = in_previous i then ''no progress detected''
       else sm_reason (in_assessment i)), wd_next = (if stopped i then None else Some n)\<rparr>"
  by (simp add: judge_def within_grant_def stopped_def)

lemma judge_Continue:
  "judge i = Inr dec \<and> wd_outcome dec = OutcomeContinue \<and> wd_next dec = x \<longleftrightarrow>
   sm_verdict (in_assessment i) = VerdictContinue \<and>
   (\<exists>n. sm_next (in_assessment i) = Some n \<and> x = Some n \<and> within_grant (in_grant i) n \<and> \<not> stopped i \<and>
     dec = \<lparr>wd_outcome = OutcomeContinue, wd_reason = sm_reason (in_assessment i), wd_next = Some n\<rparr>)"
proof (cases "sm_verdict (in_assessment i)")
  case VerdictContinue
  show ?thesis
  proof (cases "sm_next (in_assessment i)")
    case (Some n)
    show ?thesis
    proof (cases "within_grant (in_grant i) n")
      case True
      have "\<not> stopped i \<Longrightarrow> \<not> li_max (in_limits i) \<le> in_completed i \<and> \<not> li_budget (in_limits i) \<le> 0 \<and>
          \<not> (in_signature i \<noteq> [] \<and> in_signature i = in_previous i)"
        by (auto simp: stopped_def)
      then show ?thesis
        using judge_within_grant [OF VerdictContinue Some True] VerdictContinue Some True by (cases "stopped i") auto
    qed (use judge_beyond_grant [OF VerdictContinue Some] VerdictContinue Some in auto)
  qed (use judge_other(4) [OF VerdictContinue] VerdictContinue in auto)
qed (use judge_other(1-3) [of i] in auto)

lemma judge_Blocked:
  "(\<exists>dec. judge i = Inr dec \<and> wd_outcome dec = OutcomeBlocked) \<longleftrightarrow>
   sm_verdict (in_assessment i) = VerdictUnknown \<or>
   sm_verdict (in_assessment i) = VerdictContinue \<and>
     (\<exists>n. sm_next (in_assessment i) = Some n \<and> within_grant (in_grant i) n) \<and> stopped i"
proof (cases "sm_verdict (in_assessment i)")
  case VerdictContinue
  show ?thesis
  proof (cases "sm_next (in_assessment i)")
    case (Some n)
    show ?thesis
    proof (cases "within_grant (in_grant i) n")
      case True
      then show ?thesis using judge_within_grant [OF VerdictContinue Some True] VerdictContinue Some by (cases "stopped i") auto
    qed (use judge_beyond_grant [OF VerdictContinue Some] VerdictContinue Some in auto)
  qed (use judge_other(4) [OF VerdictContinue] VerdictContinue in auto)
qed (use judge_other(1-3) [of i] in auto)

lemma judge_Ready:
  "(\<exists>dec. judge i = Inr dec \<and> wd_outcome dec = OutcomeReady) \<longleftrightarrow>
   sm_verdict (in_assessment i) = VerdictReady \<and> sm_next (in_assessment i) = None"
proof (cases "sm_verdict (in_assessment i)")
  case VerdictContinue
  show ?thesis
  proof (cases "sm_next (in_assessment i)")
    case (Some n)
    show ?thesis
    proof (cases "within_grant (in_grant i) n")
      case True
      then show ?thesis using judge_within_grant [OF VerdictContinue Some True] VerdictContinue by (cases "stopped i") auto
    qed (use judge_beyond_grant [OF VerdictContinue Some] VerdictContinue in auto)
  qed (use judge_other(4) [OF VerdictContinue] VerdictContinue in auto)
qed (use judge_other(1-3) [of i] in auto)

lemma judge_next: "judge i = Inr dec \<Longrightarrow> wd_outcome dec \<noteq> OutcomeContinue \<Longrightarrow> wd_next dec = None"
  by (cases "sm_verdict (in_assessment i)"; cases "sm_next (in_assessment i)")
    (auto simp: judge_def bind_simps split: if_splits)

subsection \<open>Properties\<close>

text \<open>
  The decision on an assessment, in full. Work goes on exactly when the assessment has evidence and says so, the
  proposal names a kind and asks for nothing beyond the grant, and steps, budget and progress allow it, and
  then it goes on with that proposal. It is ready for verification exactly on a READY verdict without a
  proposal; an UNKNOWN verdict, or a valid proposal beyond the steps, the budget or without progress, blocks.
  Everything else is an error.
\<close>

theorem Decide_spec:
  "((\<exists>dec. Decide i = Inr dec \<and> wd_outcome dec = OutcomeContinue \<and> wd_next dec = Some n) \<longleftrightarrow>
      well_evidenced (in_assessment i) \<and> sm_verdict (in_assessment i) = VerdictContinue \<and>
      sm_next (in_assessment i) = Some n \<and> within_grant (in_grant i) n \<and> \<not> stopped i) \<and>
   ((\<exists>dec. Decide i = Inr dec \<and> wd_outcome dec = OutcomeReady) \<longleftrightarrow>
      well_evidenced (in_assessment i) \<and> sm_verdict (in_assessment i) = VerdictReady \<and> sm_next (in_assessment i) = None) \<and>
   ((\<exists>dec. Decide i = Inr dec \<and> wd_outcome dec = OutcomeBlocked) \<longleftrightarrow>
      well_evidenced (in_assessment i) \<and>
      (sm_verdict (in_assessment i) = VerdictUnknown \<or>
       sm_verdict (in_assessment i) = VerdictContinue \<and>
       (\<exists>m. sm_next (in_assessment i) = Some m \<and> within_grant (in_grant i) m) \<and> stopped i))"
proof (intro conjI)
  show "(\<exists>dec. Decide i = Inr dec \<and> wd_outcome dec = OutcomeContinue \<and> wd_next dec = Some n) \<longleftrightarrow>
      well_evidenced (in_assessment i) \<and> sm_verdict (in_assessment i) = VerdictContinue \<and>
      sm_next (in_assessment i) = Some n \<and> within_grant (in_grant i) n \<and> \<not> stopped i"
    unfolding Decide_evidence_first conj_assoc judge_Continue by auto
qed (unfold Decide_evidence_first conj_assoc ex_simps judge_Blocked judge_Ready, rule refl, rule refl)

end
