(* ===== verification/Workflow_Cases.thy ===== *)
theory Workflow_Cases
  imports Workflow Verification Frames
begin

text \<open>
  Workflow cases (\<open>internal/workflowcase\<close>): one durable case per observed revision, moved on by assessments
  within its limits, turned into tasks of the execution service, and closed or rejected by a verifier.
  The JSON texts that are compared or stored as texts come from functions of \<open>case_codec\<close>, an argument.
  Grants, proposals and results are stored as JSON and read back unchanged, which holds for texts in valid UTF-8.
  Transactions are serial in the model, so SQLITE_BUSY does not occur and reading a verification again finds
  what the first reading found: the twenty readings of \<open>replayWorkflowVerification\<close> are one.
\<close>

subsection \<open>Requests\<close>

record Observation =
  on_mission :: ID
  on_source :: string
  on_object :: string
  on_revision :: string
  on_evidence :: string
  on_first :: WorkProposal
  on_grant :: Grant
  on_max :: int
  on_budget :: int

record AssessmentRequest =
  ar_case :: ID
  ar_work :: ID
  ar_assessment :: Assessment
  ar_budget :: int
  ar_signature :: string

record VerificationRequest =
  vr_case :: ID
  vr_verifier :: ID
  vr_type :: string
  vr_hash :: string
  vr_snapshot :: string
  vr_evidence :: "ID list"

record case_codec =
  observation_json :: "Observation \<Rightarrow> string"
  assessment_json :: "AssessmentRequest \<Rightarrow> string"
  rejection_json :: "string \<Rightarrow> string"

definition no_work :: WorkProposal where
  "no_work = \<lparr>wp_kind = [], wp_required = [], wp_authority = [], wp_actions = []\<rparr>"

subsection \<open>Reads\<close>

definition scanCase :: "case_row \<Rightarrow> workflow_case" where
  "scanCase r = workflow_case.truncate r"

definition Get_case :: "ID \<Rightarrow> db \<Rightarrow> workflow_case res" where
  "Get_case k d =
     bindE (requireE (nonblank k) (Err ''case ID is required'')) (\<lambda>_.
     case find_by wc_id k (db_cases d) of None \<Rightarrow> Inl ErrNoRows | Some r \<Rightarrow> Inr (scanCase r))"

definition case_key :: "'a workflow_case_scheme \<Rightarrow> ID \<times> string \<times> string \<times> string" where
  "case_key c = (wc_mission c, wc_source c, wc_object c, wc_revision c)"

definition Find_case :: "ID \<Rightarrow> string \<Rightarrow> string \<Rightarrow> string \<Rightarrow> db \<Rightarrow> workflow_case option res" where
  "Find_case mission source object revision d =
     Inr (map_option scanCase (find_by case_key (mission, source, object, revision) (db_cases d)))"

definition normalizeWorkflowEvidenceIDs :: "ID list \<Rightarrow> ID list" where
  "normalizeWorkflowEvidenceIDs ids = distinct_sorted (filter (\<lambda>k. k \<noteq> []) ids)"

definition scanVerification :: "case_verification_row \<Rightarrow> case_verification_row" where
  "scanVerification v = v\<lparr>cv_evidence := normalizeWorkflowEvidenceIDs (cv_evidence v)\<rparr>"

definition FindVerification :: "ID \<Rightarrow> db \<Rightarrow> case_verification_row option res" where
  "FindVerification k d =
     bindE (requireE (nonblank k) (Err ''case ID is required'')) (\<lambda>_.
     Inr (map_option scanVerification (find_by cv_case (trim_space k) (db_case_verifications d))))"

definition list_cases :: "case_state \<Rightarrow> ID \<Rightarrow> db \<Rightarrow> workflow_case list res" where
  "list_cases st mission d =
     bindE (requireE (nonblank mission) (Err ''mission ID is required'')) (\<lambda>_.
     Inr (map scanCase (sort_key wc_id
       (filter (\<lambda>r. wc_state r = st \<and> wc_mission r = trim_space mission) (db_cases d)))))"

definition ListActive :: "ID \<Rightarrow> db \<Rightarrow> workflow_case list res" where
  "ListActive mission d = list_cases CaseActive mission d"

definition ListReadyForVerification :: "ID \<Rightarrow> db \<Rightarrow> workflow_case list res" where
  "ListReadyForVerification mission d = list_cases CaseReadyForVerification mission d"

definition ListAssessments :: "ID \<Rightarrow> db \<Rightarrow> assessment_row list res" where
  "ListAssessments k d =
     bindE (requireE (nonblank k) (Err ''case ID is required'')) (\<lambda>_.
     Inr (sort_key (\<lambda>x. (formatTime (as_created x), as_id x))
       (filter (\<lambda>x. as_case x = trim_space k) (db_assessments d))))"

subsection \<open>Opening a case\<close>

text \<open>The insert does nothing when the revision has a case already.\<close>

definition insert_case :: "case_row \<Rightarrow> db \<Rightarrow> db res" where
  "insert_case r d =
     (if exists_where (\<lambda>x. wc_id x = wc_id r) (db_cases d) then Inl (ErrConstraint ''UNIQUE'')
      else if exists_where (\<lambda>x. case_key x = case_key r) (db_cases d) then Inr d
      else Inr (d\<lparr>db_cases := db_cases d @ [r]\<rparr>))"

definition first_input :: "Observation \<Rightarrow> decide_input" where
  "first_input o' =
     \<lparr>in_assessment = \<lparr>sm_verdict = VerdictContinue, sm_reason = [], sm_evidence = [on_evidence o'], sm_next = Some (on_first o')\<rparr>,
      in_grant = on_grant o', in_limits = \<lparr>li_max = on_max o', li_budget = on_budget o'\<rparr>, in_completed = 0,
      in_signature = [], in_previous = []\<rparr>"

text \<open>What an accepted observation becomes as a row, with the identifiers of the case and of its first work.\<close>

definition prepareObservation :: "case_codec \<Rightarrow> gtime \<Rightarrow> string \<Rightarrow> string \<Rightarrow> Observation \<Rightarrow> case_row res" where
  "prepareObservation J now work_rand case_rand o' =
     bindE (requireE (nonblank (on_mission o') \<and> nonblank (on_source o') \<and> nonblank (on_object o') \<and>
         nonblank (on_revision o') \<and> nonblank (on_evidence o') \<and> nonblank (wp_kind (on_first o')) \<and>
         0 < on_max o' \<and> 0 < on_budget o')
       (Err ''observation identity, evidence, first work, and positive limits are required'')) (\<lambda>_.
     bindE (Decide (first_input o')) (\<lambda>dec.
     bindE (requireE (wd_outcome dec = OutcomeContinue) (Err ''first work decision'')) (\<lambda>_.
     Inr \<lparr>wc_id = NewID ''case'' case_rand, wc_mission = on_mission o', wc_work = NewID ''work'' work_rand,
          wc_source = on_source o', wc_object = on_object o', wc_revision = on_revision o',
          wc_evidence = on_evidence o', wc_state = CaseActive, wc_next = on_first o', wc_grant = on_grant o',
          wc_steps = 0, wc_max = on_max o', wc_budget = on_budget o', wc_signature = [],
          wc_request = observation_json J o', wc_created = now, wc_updated = now\<rparr>)))"

definition mission_ref :: "ID \<Rightarrow> purpose_ref" where
  "mission_ref k = \<lparr>pr_kind = PurposeMission, pr_id = k\<rparr>"

definition ensureTx :: "case_row \<Rightarrow> db \<Rightarrow> (workflow_case \<times> db) res" where
  "ensureTx r d =
     bindE (validatePurpose (mission_ref (wc_mission r)) d) (\<lambda>_.
     bindE (insert_case r d) (\<lambda>d1.
     case find_by case_key (case_key r) (db_cases d1) of
       None \<Rightarrow> Inl ErrNoRows
     | Some x \<Rightarrow>
         if wc_request x \<noteq> wc_request r
         then Inl (Err ''observation revision already exists with a different initial request'')
         else Inr (scanCase x, d1)))"

definition Ensure :: "case_codec \<Rightarrow> env \<Rightarrow> Observation \<Rightarrow> db \<Rightarrow> db \<times> workflow_case res" where
  "Ensure J E o' d =
     (case prepareObservation J (clk E 0) (rnd E 0) (rnd E 1) o' of
        Inl e \<Rightarrow> (d, Inl e)
      | Inr r \<Rightarrow> with_tx (ensureTx r) d)"

subsection \<open>Assessments\<close>

definition insert_assessment :: "assessment_row \<Rightarrow> db \<Rightarrow> db res" where
  "insert_assessment x d =
     bindE (requireE (\<not> exists_where (\<lambda>y. as_id y = as_id x \<or> as_case y = as_case x \<and> as_work y = as_work x) (db_assessments d))
       (ErrConstraint ''UNIQUE'')) (\<lambda>_.
     Inr (d\<lparr>db_assessments := db_assessments d @ [x]\<rparr>))"

definition assess_input :: "workflow_case \<Rightarrow> AssessmentRequest \<Rightarrow> decide_input" where
  "assess_input c q =
     \<lparr>in_assessment = ar_assessment q, in_grant = wc_grant c,
      in_limits = \<lparr>li_max = wc_max c, li_budget = ar_budget q\<rparr>, in_completed = wrap64 (wc_steps c + 1),
      in_signature = ar_signature q, in_previous = wc_signature c\<rparr>"

text \<open>The case after the decision.\<close>

definition next_case :: "string \<Rightarrow> AssessmentRequest \<Rightarrow> work_decision \<Rightarrow> workflow_case \<Rightarrow> workflow_case" where
  "next_case rand q dec c =
     (let c1 = c\<lparr>wc_steps := wrap64 (wc_steps c + 1), wc_budget := ar_budget q, wc_signature := ar_signature q\<rparr> in
      case wd_outcome dec of
        OutcomeContinue \<Rightarrow> c1\<lparr>wc_state := CaseActive, wc_work := NewID ''work'' rand,
                              wc_next := (case wd_next dec of None \<Rightarrow> no_work | Some n \<Rightarrow> n)\<rparr>
      | OutcomeBlocked \<Rightarrow> c1\<lparr>wc_state := CaseBlocked, wc_work := [], wc_next := no_work\<rparr>
      | OutcomeReady \<Rightarrow> c1\<lparr>wc_state := CaseReadyForVerification, wc_work := [], wc_next := no_work\<rparr>)"

definition write_case :: "gtime \<Rightarrow> workflow_case \<Rightarrow> db \<Rightarrow> db" where
  "write_case now c d =
     d\<lparr>db_cases := update_where (\<lambda>r. wc_id r = wc_id c)
        (\<lambda>r. r\<lparr>wc_state := wc_state c, wc_work := wc_work c, wc_next := wc_next c, wc_steps := wc_steps c,
               wc_budget := wc_budget c, wc_signature := wc_signature c, wc_updated := now\<rparr>) (db_cases d)\<rparr>"

definition assess_new :: "case_codec \<Rightarrow> env \<Rightarrow> AssessmentRequest \<Rightarrow> workflow_case \<Rightarrow> db \<Rightarrow> ((work_decision \<times> workflow_case) \<times> db) res" where
  "assess_new J E q c d =
     bindE (requireE (wc_state c = CaseActive \<and> wc_work c = ar_work q) (Err ''work is not the active work for this case'')) (\<lambda>_.
     bindE (validatePurpose (mission_ref (wc_mission c)) d) (\<lambda>_.
     bindE (requireE (\<not> (ar_budget q < 0 \<or> ar_budget q > wc_budget c))
       (Err ''remaining budget must be nonnegative and cannot increase'')) (\<lambda>_.
     bindE (Decide (assess_input c q)) (\<lambda>dec.
     let c' = next_case (rnd E 0) q dec c in
     bindE (insert_assessment \<lparr>as_id = NewID ''assessment'' (rnd E 1), as_case = wc_id c, as_work = ar_work q,
              as_request = assessment_json J q, as_result = (dec, c'), as_created = clk E 0\<rparr>
              (write_case (clk E 0) c' d)) (\<lambda>d'.
     Inr ((dec, c'), d'))))))"

definition assessTx :: "case_codec \<Rightarrow> env \<Rightarrow> AssessmentRequest \<Rightarrow> db \<Rightarrow> ((work_decision \<times> workflow_case) \<times> db) res" where
  "assessTx J E q d =
     (case find_by (\<lambda>x. (as_case x, as_work x)) (ar_case q, ar_work q) (db_assessments d) of
        Some x \<Rightarrow>
          if as_request x \<noteq> assessment_json J q then Inl (Err ''work already assessed with a different request'')
          else Inr (as_result x, d)
      | None \<Rightarrow>
          (case find_by wc_id (ar_case q) (db_cases d) of
             None \<Rightarrow> Inl ErrNoRows
           | Some r \<Rightarrow> assess_new J E q (scanCase r) d))"

definition Assess :: "case_codec \<Rightarrow> env \<Rightarrow> AssessmentRequest \<Rightarrow> db \<Rightarrow> db \<times> (work_decision \<times> workflow_case) res" where
  "Assess J E q d =
     (if \<not> nonblank (ar_case q) \<or> \<not> nonblank (ar_work q) then (d, Inl (Err ''case and work IDs are required''))
      else with_tx (assessTx J E q) d)"

subsection \<open>Closing and rejecting\<close>

fun requireWorkflowEvidence :: "ID list \<Rightarrow> db \<Rightarrow> unit res" where
  "requireWorkflowEvidence [] d = Inr ()"
| "requireWorkflowEvidence (k # ks) d =
     (case find_by evi_id k (db_evidence d) of
        None \<Rightarrow> Inl (Err ''evidence not found'')
      | Some e \<Rightarrow> requireWorkflowEvidence ks d)"

definition insert_case_verification :: "case_verification_row \<Rightarrow> db \<Rightarrow> db res" where
  "insert_case_verification v d =
     bindE (requireE (\<not> exists_where (\<lambda>x. cv_id x = cv_id v \<or> cv_case x = cv_case v) (db_case_verifications d))
       (ErrConstraint ''UNIQUE'')) (\<lambda>_.
     Inr (d\<lparr>db_case_verifications := db_case_verifications d @ [v]\<rparr>))"

definition compareWorkflowVerification :: "case_verification_row \<Rightarrow> VerificationRequest \<Rightarrow> ID list \<Rightarrow> case_verification_row res" where
  "compareWorkflowVerification v q evidence =
     (if cv_hash v \<noteq> vr_hash q \<or> cv_evidence v \<noteq> evidence then Inl ErrIntentConflict else Inr v)"

text \<open>The common end of both: the record goes in and a case that is ready moves to its last state.\<close>

definition finish_case :: "gtime \<Rightarrow> case_verification_row \<Rightarrow> case_state \<Rightarrow> db \<Rightarrow> db res" where
  "finish_case now v st d =
     (let hit = (\<lambda>r. wc_id r = cv_case v \<and> wc_state r = CaseReadyForVerification) in
      bindE (insert_case_verification v d) (\<lambda>d1.
      bindE (requireE (count_where hit (db_cases d1) = 1) (Err ''workflow case lost state race'')) (\<lambda>_.
      Inr (d1\<lparr>db_cases := update_where hit
             (\<lambda>r. r\<lparr>wc_state := st, wc_work := [], wc_next := no_work, wc_updated := now\<rparr>) (db_cases d1)\<rparr>))))"

definition closeTx :: "gtime \<Rightarrow> string \<Rightarrow> VerificationRequest \<Rightarrow> ID list \<Rightarrow> db \<Rightarrow> (case_verification_row \<times> db) res" where
  "closeTx now rand q evidence d =
     (case find_by wc_id (vr_case q) (db_cases d) of
        None \<Rightarrow> Inl ErrNoRows
      | Some r \<Rightarrow>
          bindE (validatePurpose (mission_ref (wc_mission r)) d) (\<lambda>_.
          case find_by cv_case (vr_case q) (db_case_verifications d) of
            Some v \<Rightarrow> bindE (compareWorkflowVerification (scanVerification v) q evidence) (\<lambda>v. Inr (v, d))
          | None \<Rightarrow>
              if wc_state r \<noteq> CaseReadyForVerification then Inl (Err ''case is not ready for verification'')
              else bindE (requireWorkflowEvidence evidence d) (\<lambda>_.
                let v = \<lparr>cv_id = NewID ''verification'' rand, cv_case = vr_case q, cv_verifier = vr_verifier q,
                         cv_type = vr_type q, cv_hash = vr_hash q, cv_snapshot = vr_snapshot q,
                         cv_evidence = evidence, cv_created = now\<rparr> in
                bindE (finish_case now v CaseClosed d) (\<lambda>d'. Inr (v, d')))))"

definition replayWorkflowVerification :: "VerificationRequest \<Rightarrow> ID list \<Rightarrow> db \<Rightarrow> case_verification_row res" where
  "replayWorkflowVerification q evidence d =
     (case find_by cv_case (vr_case q) (db_case_verifications d) of
        None \<Rightarrow> Inl ErrNoRows
      | Some v \<Rightarrow> compareWorkflowVerification (scanVerification v) q evidence)"

definition closeRetryAttempts :: nat where
  "closeRetryAttempts = 20"

fun close_loop :: "env \<Rightarrow> VerificationRequest \<Rightarrow> ID list \<Rightarrow> nat \<Rightarrow> nat \<Rightarrow> go_error \<Rightarrow> db \<Rightarrow> db \<times> case_verification_row res" where
  "close_loop E q evidence 0 i e d = (d, Inl e)"
| "close_loop E q evidence (Suc n) i e0 d =
     (case with_tx (closeTx (clk E i) (rnd E i) q evidence) d of
        (d', Inr v) \<Rightarrow> (d', Inr v)
      | (d', Inl e) \<Rightarrow>
          if e \<noteq> ErrConstraint ''UNIQUE'' then (d', Inl e)
          else (case replayWorkflowVerification q evidence d' of
                  Inr v \<Rightarrow> (d', Inr v)
                | Inl e' \<Rightarrow> if e' \<noteq> ErrNoRows then (d', Inl e') else close_loop E q evidence n (Suc i) e d'))"

definition trim_request :: "VerificationRequest \<Rightarrow> VerificationRequest" where
  "trim_request q = q\<lparr>vr_case := trim_space (vr_case q), vr_verifier := trim_space (vr_verifier q),
     vr_type := trim_space (vr_type q), vr_hash := trim_space (vr_hash q)\<rparr>"

definition Close :: "env \<Rightarrow> VerificationRequest \<Rightarrow> db \<Rightarrow> db \<times> case_verification_row res" where
  "Close E request d =
     (let q = trim_request request in
      if vr_case q = [] \<or> vr_verifier q = [] \<or> vr_type q = [] \<or> vr_hash q = [] \<or> \<not> nonblank (vr_snapshot q)
      then (d, Inl (Err ''case, verifier, snapshot hash, and snapshot JSON are required''))
      else close_loop E q (normalizeWorkflowEvidenceIDs (vr_evidence q)) closeRetryAttempts 0 ErrNoRows d)"

definition rejectTx :: "case_codec \<Rightarrow> gtime \<Rightarrow> string \<Rightarrow> ID \<Rightarrow> string \<Rightarrow> ID list \<Rightarrow> db \<Rightarrow> (case_verification_row \<times> db) res" where
  "rejectTx J now rand k reason evidence d =
     (case find_by wc_id k (db_cases d) of
        None \<Rightarrow> Inl ErrNoRows
      | Some r \<Rightarrow>
          bindE (validatePurpose (mission_ref (wc_mission r)) d) (\<lambda>_.
          if wc_state r \<noteq> CaseReadyForVerification then Inl (Err ''case is not ready for rejection'')
          else bindE (requireWorkflowEvidence evidence d) (\<lambda>_.
            let v = \<lparr>cv_id = NewID ''verification'' rand, cv_case = k, cv_verifier = [], cv_type = ''REJECT'',
                     cv_hash = [], cv_snapshot = rejection_json J reason, cv_evidence = evidence, cv_created = now\<rparr> in
            bindE (finish_case now v CaseBlocked d) (\<lambda>d'. Inr (v, d')))))"

definition Reject_case :: "case_codec \<Rightarrow> env \<Rightarrow> ID \<Rightarrow> string \<Rightarrow> ID list \<Rightarrow> db \<Rightarrow> db \<times> case_verification_row res" where
  "Reject_case J E k reason evidence d =
     (if trim_space k = [] \<or> trim_space reason = [] then (d, Inl (Err ''case and rejection reason are required''))
      else with_tx (rejectTx J (clk E 0) (rnd E 0) (trim_space k) (trim_space reason)
             (normalizeWorkflowEvidenceIDs evidence)) d)"

subsection \<open>Tasks of a case\<close>

definition hasNonblankCriterion :: "string list \<Rightarrow> bool" where
  "hasNonblankCriterion criteria \<longleftrightarrow> list_ex nonblank criteria"

definition templateForCase :: "workflow_case \<Rightarrow> TaskRequest \<Rightarrow> TaskRequest res" where
  "templateForCase c q =
     bindE (requireE (nonblank (tr_objective q) \<and> hasNonblankCriterion (tr_criteria q) \<and> nonblank (tr_envelope q))
       (Err ''task template requires objective, acceptance criteria, and resource envelope'')) (\<lambda>_.
     Inr (q\<lparr>tr_purpose := mission_ref (wc_mission c), tr_class := wp_kind (wc_next c),
            tr_capabilities := wp_required (wc_next c), tr_authority := wp_authority (wc_next c), tr_key := wc_work c\<rparr>))"

definition activeWorkGuard :: "workflow_case \<Rightarrow> task_guard" where
  "activeWorkGuard c d =
     requireE (exists_where (\<lambda>r. wc_id r = wc_id c \<and> wc_mission r = wc_mission c \<and> wc_state r = CaseActive \<and>
       wc_work r = wc_work c) (db_cases d)) (Err ''work is not the active work for this case'')"

definition materializeCurrentCase ::
  "task_codec \<Rightarrow> gtime \<Rightarrow> string \<Rightarrow> workflow_case \<Rightarrow> TaskRequest \<Rightarrow> db \<Rightarrow> db \<times> task res" where
  "materializeCurrentCase K now rand c template d =
     (case templateForCase c template of
        Inl e \<Rightarrow> (d, Inl e)
      | Inr q \<Rightarrow> CreateTaskWithGuard K now rand q (Some (activeWorkGuard c)) d)"

definition MaterializeTask ::
  "task_codec \<Rightarrow> gtime \<Rightarrow> string \<Rightarrow> ID \<Rightarrow> ID \<Rightarrow> TaskRequest \<Rightarrow> db \<Rightarrow> db \<times> task res" where
  "MaterializeTask K now rand k work template d =
     (case Get_case k d of
        Inl e \<Rightarrow> (d, Inl e)
      | Inr c \<Rightarrow>
          if wc_state c \<noteq> CaseActive \<or> wc_work c \<noteq> work \<or> \<not> nonblank work
          then (d, Inl (Err ''work is not the active work for this case''))
          else materializeCurrentCase K now rand c template d)"

definition EnsureAndMaterialize ::
  "case_codec \<Rightarrow> task_codec \<Rightarrow> env \<Rightarrow> Observation \<Rightarrow> TaskRequest \<Rightarrow> db \<Rightarrow> db \<times> (workflow_case \<times> task) res" where
  "EnsureAndMaterialize J K E o' template d =
     (case prepareObservation J (clk E 0) (rnd E 0) (rnd E 1) o' of
        Inl e \<Rightarrow> (d, Inl e)
      | Inr r \<Rightarrow> with_tx (\<lambda>d.
          bindE (ensureTx r d) (\<lambda>(c, d1).
          bindE (templateForCase c template) (\<lambda>q.
          bindE (CreateTaskWithGuardInTx K (clk E 1) (rnd E 2) q (Some (activeWorkGuard c)) d1) (\<lambda>(t, d2).
          Inr ((c, t), d2))))) d)"

subsection \<open>The invariant\<close>

definition case_ok :: "db \<Rightarrow> case_row \<Rightarrow> bool" where
  "case_ok d r \<longleftrightarrow> in64 (wc_max r) \<and> 0 \<le> wc_steps r \<and> wc_steps r \<le> wc_max r \<and> 0 \<le> wc_budget r \<and>
     int (count_where (\<lambda>x. as_case x = wc_id r) (db_assessments d)) = wc_steps r \<and>
     (if wc_state r = CaseActive
      then wc_work r \<noteq> [] \<and> wc_steps r < wc_max r \<and> 0 < wc_budget r \<and> within_grant (wc_grant r) (wc_next r)
      else wc_work r = [] \<and> wc_next r = no_work) \<and>
     (case find_by cv_case (wc_id r) (db_case_verifications d) of
        None \<Rightarrow> wc_state r \<noteq> CaseClosed
      | Some v \<Rightarrow> wc_state r = (if cv_hash v = [] then CaseBlocked else CaseClosed))"

definition cases_ok :: "db \<Rightarrow> bool" where
  "cases_ok d \<longleftrightarrow> distinct (map wc_id (db_cases d)) \<and> distinct (map case_key (db_cases d)) \<and>
     distinct (map (\<lambda>x. (as_case x, as_work x)) (db_assessments d)) \<and>
     distinct (map cv_case (db_case_verifications d)) \<and>
     (\<forall>x \<in> set (db_assessments d). as_case x \<in> wc_id ` set (db_cases d)) \<and>
     (\<forall>v \<in> set (db_case_verifications d). cv_case v \<in> wc_id ` set (db_cases d)) \<and>
     (\<forall>r \<in> set (db_cases d). case_ok d r)"

lemma cases_okD:
  assumes "cases_ok d"
  shows "distinct (map wc_id (db_cases d))" "distinct (map case_key (db_cases d))"
    "distinct (map (\<lambda>x. (as_case x, as_work x)) (db_assessments d))" "distinct (map cv_case (db_case_verifications d))"
    "\<And>x. x \<in> set (db_assessments d) \<Longrightarrow> as_case x \<in> wc_id ` set (db_cases d)"
    "\<And>v. v \<in> set (db_case_verifications d) \<Longrightarrow> cv_case v \<in> wc_id ` set (db_cases d)"
    "\<And>r. r \<in> set (db_cases d) \<Longrightarrow> case_ok d r"
  using assms by (auto simp: cases_ok_def)

text \<open>A change of one case, which keeps its identity, its limits and its grant.\<close>

definition same_case :: "case_row \<Rightarrow> case_row \<Rightarrow> bool" where
  "same_case r r' \<longleftrightarrow> r' = r\<lparr>wc_state := wc_state r', wc_work := wc_work r', wc_next := wc_next r',
     wc_steps := wc_steps r', wc_budget := wc_budget r', wc_signature := wc_signature r', wc_updated := wc_updated r'\<rparr>"

lemma same_caseD:
  assumes "same_case r r'"
  shows "wc_id r' = wc_id r" "case_key r' = case_key r" "wc_max r' = wc_max r" "wc_grant r' = wc_grant r"
    "wc_mission r' = wc_mission r" "wc_request r' = wc_request r"
proof -
  obtain a b c e f g h where "r' = r\<lparr>wc_state := a, wc_work := b, wc_next := c, wc_steps := e, wc_budget := f,
      wc_signature := g, wc_updated := h\<rparr>"
    using assms unfolding same_case_def by blast
  then show "wc_id r' = wc_id r" "case_key r' = case_key r" "wc_max r' = wc_max r" "wc_grant r' = wc_grant r"
    "wc_mission r' = wc_mission r" "wc_request r' = wc_request r"
    by (simp_all add: case_key_def)
qed

lemma cases_ok_change:
  assumes ok: "cases_ok d" and r: "find_by wc_id k (db_cases d) = Some r"
    and f: "\<And>x. same_case x (f x)" and P: "P r"
    and cases': "db_cases d' = update_where (\<lambda>x. wc_id x = k \<and> P x) f (db_cases d)"
    and as': "db_assessments d' = db_assessments d \<or> (\<exists>x. as_case x = k \<and>
       (as_case x, as_work x) \<notin> (\<lambda>x. (as_case x, as_work x)) ` set (db_assessments d) \<and>
       db_assessments d' = db_assessments d @ [x])"
    and cv': "db_case_verifications d' = db_case_verifications d \<or> (\<exists>v. cv_case v = k \<and>
       cv_case v \<notin> cv_case ` set (db_case_verifications d) \<and>
       db_case_verifications d' = db_case_verifications d @ [v])"
    and new: "case_ok d' (f r)"
  shows "cases_ok d'"
proof -
  note keys = same_caseD(1,2) [OF f]
  have only: "x = r" if "x \<in> set (db_cases d)" "wc_id x = k" for x
    using find_by_only [OF cases_okD(1) [OF ok] r that(1)] that(2) by blast
  have maps: "map wc_id (db_cases d') = map wc_id (db_cases d)" "map case_key (db_cases d') = map case_key (db_cases d)"
    using keys by (simp_all add: cases' map_key_update_where)
  have ids: "wc_id ` set (db_cases d') = wc_id ` set (db_cases d)"
    using maps(1) by (metis set_map)
  have k: "k \<in> wc_id ` set (db_cases d)" using find_by_SomeD [OF r] by auto
  have other: "case_ok d' x" if x: "x \<in> set (db_cases d)" "wc_id x \<noteq> k" for x
  proof -
    have "count_where (\<lambda>y. as_case y = wc_id x) (db_assessments d') = count_where (\<lambda>y. as_case y = wc_id x) (db_assessments d)"
      using as' x(2) by (auto simp: count_where_append) (simp add: count_where_def)
    moreover have "find_by cv_case (wc_id x) (db_case_verifications d') = find_by cv_case (wc_id x) (db_case_verifications d)"
      using cv' x(2) by (auto simp: find_by_append find_by_Cons split: option.split)
    ultimately show ?thesis using cases_okD(7) [OF ok x(1)] by (simp add: case_ok_def)
  qed
  have "case_ok d' y" if y: "y \<in> set (db_cases d')" for y
  proof -
    obtain x where x: "x \<in> set (db_cases d)" "y = (if wc_id x = k \<and> P x then f x else x)"
      using y unfolding cases' update_where_def by auto
    show ?thesis using x only [OF x(1)] other [OF x(1)] P new by (cases "wc_id x = k") auto
  qed
  then show ?thesis
    using cases_okD(1-6) [OF ok] as' cv' k unfolding cases_ok_def maps ids by auto
qed

lemma insert_case_Inr:
  "insert_case r d = Inr d' \<longleftrightarrow> wc_id r \<notin> wc_id ` set (db_cases d) \<and>
   (if case_key r \<in> case_key ` set (db_cases d) then d' = d else d' = d\<lparr>db_cases := db_cases d @ [r]\<rparr>)"
  unfolding insert_case_def exists_where_iff by (auto simp: image_iff) metis+

definition opening_ok :: "case_row \<Rightarrow> bool" where
  "opening_ok r \<longleftrightarrow> wc_state r = CaseActive \<and> wc_steps r = 0 \<and> 0 < wc_max r \<and> 0 < wc_budget r \<and> wc_work r \<noteq> [] \<and>
     within_grant (wc_grant r) (wc_next r)"

lemma prepareObservation_Inr:
  assumes "prepareObservation J now wr cr o' = Inr r"
  shows "opening_ok r \<and> wc_max r = on_max o' \<and> wc_grant r = on_grant o' \<and> wc_budget r = on_budget o' \<and>
    case_key r = (on_mission o', on_source o', on_object o', on_revision o')"
proof -
  obtain dec where dec: "Decide (first_input o') = Inr dec" "wd_outcome dec = OutcomeContinue"
    and r: "0 < on_max o'" "0 < on_budget o'" "r = \<lparr>wc_id = NewID ''case'' cr, wc_mission = on_mission o', wc_work = NewID ''work'' wr,
          wc_source = on_source o', wc_object = on_object o', wc_revision = on_revision o',
          wc_evidence = on_evidence o', wc_state = CaseActive, wc_next = on_first o', wc_grant = on_grant o',
          wc_steps = 0, wc_max = on_max o', wc_budget = on_budget o', wc_signature = [],
          wc_request = observation_json J o', wc_created = now, wc_updated = now\<rparr>"
    using assms unfolding prepareObservation_def bindE_Inr_iff requireE_Inr_iff by auto
  have "judge (first_input o') = Inr dec" using dec(1) by (simp add: Decide_evidence_first)
  then have "within_grant (on_grant o') (on_first o')"
    using judge_Continue [of "first_input o'" dec "wd_next dec"] dec(2) by (auto simp: first_input_def)
  with r show ?thesis by (simp add: opening_ok_def case_key_def)
qed

lemma insert_case_ok:
  assumes ok: "cases_ok d" and r: "insert_case r d = Inr d'" and new: "opening_ok r" "in64 (wc_max r)"
  shows "cases_ok d'"
proof (cases "case_key r \<in> case_key ` set (db_cases d)")
  case True
  with r ok show ?thesis by (simp add: insert_case_Inr)
next
  case False
  then have fresh: "wc_id r \<notin> wc_id ` set (db_cases d)" and d': "d' = d\<lparr>db_cases := db_cases d @ [r]\<rparr>"
    using r by (simp_all add: insert_case_Inr)
  have "count_where (\<lambda>x. as_case x = wc_id r) (db_assessments d) = 0"
    unfolding count_where_zero using cases_okD(5) [OF ok] fresh by metis
  moreover have "find_by cv_case (wc_id r) (db_case_verifications d) = None"
    unfolding find_by_None_iff using cases_okD(6) [OF ok] fresh by (metis imageE)
  ultimately have "case_ok d' r" using new by (simp add: case_ok_def opening_ok_def d')
  moreover have "case_ok d' x" if "x \<in> set (db_cases d)" for x
    using cases_okD(7) [OF ok that] by (simp add: case_ok_def d')
  ultimately show ?thesis
    using cases_okD(1-6) [OF ok] fresh False by (auto simp: cases_ok_def d')
qed

lemma ensureTx_Inr:
  assumes "ensureTx r d = Inr (c, d')"
  obtains x where "insert_case r d = Inr d'" "find_by case_key (case_key r) (db_cases d') = Some x"
    "wc_request x = wc_request r" "c = scanCase x" "validatePurpose (mission_ref (wc_mission r)) d = Inr ()"
  using assms by (auto simp: ensureTx_def bind_simps split: option.splits if_splits)

lemma insert_assessment_Inr:
  "insert_assessment x d = Inr d' \<Longrightarrow> (as_case x, as_work x) \<notin> (\<lambda>x. (as_case x, as_work x)) ` set (db_assessments d) \<and>
   d' = d\<lparr>db_assessments := db_assessments d @ [x]\<rparr>"
  by (auto simp: insert_assessment_def bind_simps exists_where_iff)

lemma scanCase_simps [simp]:
  "wc_id (scanCase r) = wc_id r" "wc_state (scanCase r) = wc_state r" "wc_work (scanCase r) = wc_work r"
  "wc_mission (scanCase r) = wc_mission r" "wc_steps (scanCase r) = wc_steps r" "wc_budget (scanCase r) = wc_budget r"
  "wc_max (scanCase r) = wc_max r" "wc_grant (scanCase r) = wc_grant r" "wc_next (scanCase r) = wc_next r"
  "wc_signature (scanCase r) = wc_signature r" "case_key (scanCase r) = case_key r"
  by (simp_all add: scanCase_def workflow_case.defs case_key_def)

subsection \<open>Every call keeps it\<close>

lemma Decide_Continue_limits:
  assumes "Decide i = Inr dec" and "wd_outcome dec = OutcomeContinue"
  shows "\<exists>n. wd_next dec = Some n \<and> within_grant (in_grant i) n \<and> in_completed i < li_max (in_limits i) \<and> 0 < li_budget (in_limits i)"
  using assms judge_Continue [of i dec "wd_next dec"] by (auto simp: Decide_evidence_first stopped_def)

lemma steps_plus_one:
  assumes "in64 m" "0 \<le> s" "s < m"
  shows "wrap64 (s + 1) = s + 1"
  using assms by (intro wrap64_id) (auto simp: in64_def)

lemma assess_new_Inr:
  assumes "assess_new J E q c d = Inr ((dec, c'), d')"
  obtains "wc_state c = CaseActive" "wc_work c = ar_work q" "0 \<le> ar_budget q" "ar_budget q \<le> wc_budget c"
    "Decide (assess_input c q) = Inr dec" "c' = next_case (rnd E 0) q dec c"
    "insert_assessment \<lparr>as_id = NewID ''assessment'' (rnd E 1), as_case = wc_id c, as_work = ar_work q,
       as_request = assessment_json J q, as_result = (dec, c'), as_created = clk E 0\<rparr> (write_case (clk E 0) c' d) = Inr d'"
  using assms unfolding assess_new_def Let_def bindE_Inr_iff requireE_Inr_iff by auto

lemma next_case_keeps:
  "wc_id (next_case rand q dec c) = wc_id c" "wc_mission (next_case rand q dec c) = wc_mission c"
  "wc_max (next_case rand q dec c) = wc_max c" "wc_grant (next_case rand q dec c) = wc_grant c"
  "wc_steps (next_case rand q dec c) = wrap64 (wc_steps c + 1)" "wc_budget (next_case rand q dec c) = ar_budget q"
  by (simp_all add: next_case_def Let_def split: work_outcome.split)

lemma assess_new_ok:
  assumes ok: "cases_ok d" and r: "find_by wc_id k (db_cases d) = Some r"
    and new: "assess_new J E q (scanCase r) d = Inr ((dec, c'), d')"
  shows "cases_ok d'"
  using new
proof (rule assess_new_Inr)
  let ?f = "\<lambda>x. x\<lparr>wc_state := wc_state c', wc_work := wc_work c', wc_next := wc_next c', wc_steps := wc_steps c',
               wc_budget := wc_budget c', wc_signature := wc_signature c', wc_updated := clk E 0\<rparr>"
  let ?x = "\<lparr>as_id = NewID ''assessment'' (rnd E 1), as_case = wc_id (scanCase r), as_work = ar_work q,
       as_request = assessment_json J q, as_result = (dec, c'), as_created = clk E 0\<rparr>"
  assume act: "wc_state (scanCase r) = CaseActive" "0 \<le> ar_budget q"
    and dec: "Decide (assess_input (scanCase r) q) = Inr dec" and c': "c' = next_case (rnd E 0) q dec (scanCase r)"
    and ins: "insert_assessment ?x (write_case (clk E 0) c' d) = Inr d'"
  have mem: "r \<in> set (db_cases d)" and k: "wc_id r = k" using find_by_SomeD [OF r] by auto
  note rok = cases_okD(7) [OF ok mem]
  have st: "wc_state r = CaseActive" using act by simp
  have d': "db_cases d' = update_where (\<lambda>x. wc_id x = k) ?f (db_cases d)" "db_assessments d' = db_assessments d @ [?x]"
    "db_case_verifications d' = db_case_verifications d"
    "(as_case ?x, as_work ?x) \<notin> (\<lambda>x. (as_case x, as_work x)) ` set (db_assessments d)"
    using insert_assessment_Inr [OF ins] by (simp_all add: write_case_def c' next_case_keeps k)
  have lim: "in64 (wc_max r)" "0 \<le> wc_steps r" "wc_steps r < wc_max r"
    "int (count_where (\<lambda>x. as_case x = k) (db_assessments d)) = wc_steps r"
    using rok st k by (simp_all add: case_ok_def)
  have nov: "find_by cv_case k (db_case_verifications d) = None"
    using rok st k by (auto simp: case_ok_def split: option.splits if_splits)
  have steps: "wc_steps c' = wc_steps r + 1" using steps_plus_one [OF lim(1-3)] by (simp add: c' next_case_keeps)
  have shape: "(if wc_state c' = CaseActive
      then wc_work c' \<noteq> [] \<and> wc_steps c' < wc_max r \<and> 0 < wc_budget c' \<and> within_grant (wc_grant r) (wc_next c')
      else wc_work c' = [] \<and> wc_next c' = no_work) \<and> wc_state c' \<noteq> CaseClosed"
  proof (cases "wd_outcome dec")
    case OutcomeContinue
    from Decide_Continue_limits [OF dec this] obtain n where "wd_next dec = Some n" "within_grant (wc_grant r) n"
      "wrap64 (wc_steps r + 1) < wc_max r" "0 < ar_budget q" by (auto simp: assess_input_def)
    then show ?thesis using OutcomeContinue by (simp add: c' next_case_def NewID_def)
  qed (simp_all add: c' next_case_def)
  have one: "count_where (\<lambda>x. as_case x = k) (db_assessments d') = Suc (count_where (\<lambda>x. as_case x = k) (db_assessments d))"
    by (simp add: d' count_where_append count_where_def k)
  have budget: "wc_budget c' = ar_budget q" by (simp add: c' next_case_keeps)
  have "case_ok d' (?f r)"
    using shape [unfolded steps budget] lim act(2) unfolding case_ok_def d'(3) by (simp add: k one steps budget nov)
  then show ?thesis
    using d' k by (intro cases_ok_change [OF ok r, of ?f "\<lambda>_. True"]) (simp_all add: same_case_def)
qed

lemma Assess_ok: "cases_ok d \<Longrightarrow> cases_ok (fst (Assess J E q d))"
  unfolding Assess_def assessTx_def
  by (auto intro!: with_tx_invariant [where I = cases_ok] intro: assess_new_ok split: option.splits if_splits)

lemma finish_case_Inr:
  assumes "finish_case now v st d = Inr d'"
  shows "cv_case v \<notin> cv_case ` set (db_case_verifications d) \<and>
    d' = d\<lparr>db_case_verifications := db_case_verifications d @ [v],
           db_cases := update_where (\<lambda>r. wc_id r = cv_case v \<and> wc_state r = CaseReadyForVerification)
             (\<lambda>r. r\<lparr>wc_state := st, wc_work := [], wc_next := no_work, wc_updated := now\<rparr>) (db_cases d)\<rparr>"
proof -
  have "\<not> exists_where (\<lambda>x. cv_id x = cv_id v \<or> cv_case x = cv_case v) (db_case_verifications d)"
    "d' = d\<lparr>db_case_verifications := db_case_verifications d @ [v],
           db_cases := update_where (\<lambda>r. wc_id r = cv_case v \<and> wc_state r = CaseReadyForVerification)
             (\<lambda>r. r\<lparr>wc_state := st, wc_work := [], wc_next := no_work, wc_updated := now\<rparr>) (db_cases d)\<rparr>"
    using assms unfolding finish_case_def insert_case_verification_def Let_def bindE_Inr_iff requireE_Inr_iff by auto
  then show ?thesis by (simp add: exists_where_iff image_iff) metis
qed

lemma finish_case_ok:
  assumes ok: "cases_ok d" and r: "find_by wc_id (cv_case v) (db_cases d) = Some r"
    and ready: "wc_state r = CaseReadyForVerification" and fin: "finish_case now v st d = Inr d'"
    and st: "st = (if cv_hash v = [] then CaseBlocked else CaseClosed)"
  shows "cases_ok d'"
proof -
  let ?f = "\<lambda>r. r\<lparr>wc_state := st, wc_work := [], wc_next := no_work, wc_updated := now\<rparr>"
  have id: "wc_id r = cv_case v" and mem: "r \<in> set (db_cases d)" using find_by_SomeD [OF r] by auto
  from finish_case_Inr [OF fin] have fresh: "cv_case v \<notin> cv_case ` set (db_case_verifications d)" and
    d': "db_case_verifications d' = db_case_verifications d @ [v]" "db_assessments d' = db_assessments d"
      "db_cases d' = update_where (\<lambda>r. wc_id r = cv_case v \<and> wc_state r = CaseReadyForVerification) ?f (db_cases d)"
    by simp_all
  have "find_by cv_case (cv_case v) (db_case_verifications d') = Some v"
    using fresh by (simp add: d' find_by_insert_new)
  moreover have "st \<noteq> CaseActive" by (simp add: st)
  ultimately have "case_ok d' (?f r)" using cases_okD(7) [OF ok mem] st by (simp add: case_ok_def d'(2) id)
  then show ?thesis
    using ready fresh d' by (intro cases_ok_change [OF ok r, of ?f]) (simp_all add: same_case_def)
qed

lemma closeTx_Inr:
  assumes "closeTx now rand q evidence d = Inr (v, d')"
  obtains (replayed) w where "find_by cv_case (vr_case q) (db_case_verifications d) = Some w" "v = scanVerification w"
      "cv_hash w = vr_hash q" "cv_evidence v = evidence" "d' = d"
  | (closed) r where "find_by wc_id (vr_case q) (db_cases d) = Some r" "wc_state r = CaseReadyForVerification"
      "find_by cv_case (vr_case q) (db_case_verifications d) = None" "requireWorkflowEvidence evidence d = Inr ()"
      "cv_case v = vr_case q" "cv_hash v = vr_hash q" "cv_evidence v = evidence" "finish_case now v CaseClosed d = Inr d'"
      "validatePurpose (mission_ref (wc_mission r)) d = Inr ()"
proof (cases "find_by wc_id (vr_case q) (db_cases d)")
  case (Some r)
  show thesis
  proof (cases "find_by cv_case (vr_case q) (db_case_verifications d)")
    case None
    then show thesis
      using assms Some unfolding closeTx_def Let_def option.case bindE_Inr_iff
      by (intro that(2) [of r]) (auto simp: bindE_Inr_iff split: if_splits)
  next
    case w: (Some w)
    then have "cv_hash (scanVerification w) = vr_hash q \<and> cv_evidence (scanVerification w) = evidence \<and> scanVerification w = v \<and> d' = d"
      using assms Some by (auto simp: closeTx_def bind_simps compareWorkflowVerification_def split: if_splits)
    then show thesis using w by (intro that(1) [of w]) (auto simp: scanVerification_def)
  qed
qed (use assms in \<open>simp add: closeTx_def\<close>)

lemma closeTx_ok: "cases_ok d \<Longrightarrow> vr_hash q \<noteq> [] \<Longrightarrow> closeTx now rand q evidence d = Inr (v, d') \<Longrightarrow> cases_ok d'"
proof (erule closeTx_Inr)
  fix r assume "cases_ok d" "vr_hash q \<noteq> []" "find_by wc_id (vr_case q) (db_cases d) = Some r"
    "wc_state r = CaseReadyForVerification" "cv_case v = vr_case q" "cv_hash v = vr_hash q" "finish_case now v CaseClosed d = Inr d'"
  then show "cases_ok d'" using finish_case_ok [of d v r now CaseClosed d'] by simp
qed simp

lemma close_loop_ok: "vr_hash q \<noteq> [] \<Longrightarrow> cases_ok d \<Longrightarrow> cases_ok (fst (close_loop E q evidence n i e d))"
proof (induction n arbitrary: i e)
  case (Suc n)
  show ?case
  proof (cases "closeTx (clk E i) (rnd E i) q evidence d")
    case (Inl e1)
    then show ?thesis using Suc by (simp add: with_tx_def split: sum.split)
  next
    case (Inr x)
    then show ?thesis using Suc.prems closeTx_ok by (cases x) (simp add: with_tx_def)
  qed
qed simp

lemma Close_ok: "cases_ok d \<Longrightarrow> cases_ok (fst (Close E q d))"
  unfolding Close_def Let_def by (simp add: close_loop_ok)

lemma Reject_case_ok: "cases_ok d \<Longrightarrow> cases_ok (fst (Reject_case J E k reason evidence d))"
  unfolding Reject_case_def
proof (auto intro!: with_tx_invariant [where I = cases_ok])
  fix v d' assume ok: "cases_ok d" and "rejectTx J (clk E 0) (rnd E 0) (trim_space k) (trim_space reason)
    (normalizeWorkflowEvidenceIDs evidence) d = Inr (v, d')"
  then obtain r where "find_by wc_id (trim_space k) (db_cases d) = Some r" "wc_state r = CaseReadyForVerification"
    "cv_case v = trim_space k" "cv_hash v = []" "finish_case (clk E 0) v CaseBlocked d = Inr d'"
    by (auto simp: rejectTx_def Let_def bind_simps split: option.splits if_splits)
  then show "cases_ok d'" using ok finish_case_ok [of d v r "clk E 0" CaseBlocked d'] by simp
qed

lemma cases_ok_cong:
  "db_cases d' = db_cases d \<Longrightarrow> db_assessments d' = db_assessments d \<Longrightarrow> db_case_verifications d' = db_case_verifications d \<Longrightarrow>
   cases_ok d' \<longleftrightarrow> cases_ok d"
  by (simp add: cases_ok_def case_ok_def)

lemma cases_ok_exec: "exec_only d d' \<Longrightarrow> cases_ok d' \<longleftrightarrow> cases_ok d"
  by (rule cases_ok_cong) (simp_all add: exec_onlyD)

lemma ensureTx_ok:
  assumes "cases_ok d" "prepareObservation J now wr cr o' = Inr r" "in64 (on_max o')" "ensureTx r d = Inr (c, d')"
  shows "cases_ok d'"
  using assms(4)
proof (rule ensureTx_Inr)
  assume "insert_case r d = Inr d'"
  then show ?thesis using insert_case_ok [OF assms(1)] prepareObservation_Inr [OF assms(2)] assms(3) by auto
qed

lemma Ensure_ok: "cases_ok d \<Longrightarrow> in64 (on_max o') \<Longrightarrow> cases_ok (fst (Ensure J E o' d))"
  unfolding Ensure_def
  by (auto intro!: with_tx_invariant [where I = cases_ok] intro: ensureTx_ok split: sum.split)

lemma EnsureAndMaterialize_ok:
  "cases_ok d \<Longrightarrow> in64 (on_max o') \<Longrightarrow> cases_ok (fst (EnsureAndMaterialize J K E o' template d))"
  unfolding EnsureAndMaterialize_def
proof (auto intro!: with_tx_invariant [where I = cases_ok] split: sum.split simp: bindE_Inr_iff CreateTaskWithGuardInTx_def)
  fix r q c q1 t d1 d2
  assume "cases_ok d" "in64 (on_max o')" "prepareObservation J (clk E 0) (rnd E 0) (rnd E (Suc 0)) o' = Inr r"
    "ensureTx r d = Inr (c, d1)"
    "insertTaskTx K (clk E (Suc 0)) (rnd E 2) [] q1 (Some (activeWorkGuard c)) d1 = Inr (t, d2)"
  then show "cases_ok d2" using ensureTx_ok cases_ok_exec [OF insertTaskTx_only] by metis
qed

lemma MaterializeTask_only: "exec_only d (fst (MaterializeTask K now rand k work template d))"
  by (auto simp: MaterializeTask_def materializeCurrentCase_def intro: exec_step_only step_create split: sum.split)

inductive case_step :: "db \<Rightarrow> db \<Rightarrow> bool" where
  case_ensure: "in64 (on_max o') \<Longrightarrow> case_step d (fst (Ensure J E o' d))"
| case_ensure_task: "in64 (on_max o') \<Longrightarrow> case_step d (fst (EnsureAndMaterialize J K E o' template d))"
| case_task: "case_step d (fst (MaterializeTask K now rand k work template d))"
| case_assess: "case_step d (fst (Assess J E q d))"
| case_close: "case_step d (fst (Close E v d))"
| case_reject: "case_step d (fst (Reject_case J E k reason evidence d))"
| case_exec: "exec_step d d' \<Longrightarrow> case_step d d'"

lemma case_step_ok: "case_step d d' \<Longrightarrow> cases_ok d \<Longrightarrow> cases_ok d'"
  by (induction rule: case_step.induct)
    (simp_all add: Ensure_ok EnsureAndMaterialize_ok Assess_ok Close_ok Reject_case_ok
      cases_ok_exec [OF MaterializeTask_only] cases_ok_exec [OF exec_step_only])

interpretation cases: kept_invariant case_step cases_ok
  by unfold_locales (rule case_step_ok)

lemma cases_ok_empty [simp]: "cases_ok empty_db"
  by (simp add: cases_ok_def empty_db_def)

subsection \<open>What is never undone\<close>

definition more_verifications :: "db \<Rightarrow> db \<Rightarrow> bool" where
  "more_verifications d d' \<longleftrightarrow> (\<exists>vs. db_case_verifications d' = db_case_verifications d @ vs)"

lemma more_verifications_refl [simp]: "more_verifications d d"
  by (simp add: more_verifications_def)

lemma more_verifications_same: "db_case_verifications d' = db_case_verifications d \<Longrightarrow> more_verifications d d'"
  by (simp add: more_verifications_def)

lemma finish_case_more: "finish_case now v st d = Inr d' \<Longrightarrow> more_verifications d d'"
  by (auto dest!: finish_case_Inr simp: more_verifications_def)

lemma ensureTx_verifications: "ensureTx r d = Inr (c, d') \<Longrightarrow> db_case_verifications d' = db_case_verifications d"
  by (erule ensureTx_Inr) (auto simp: insert_case_Inr split: if_splits)

lemma assess_new_more:
  assumes "assess_new J E q c d = Inr (x, d')"
  shows "more_verifications d d'"
proof (cases x)
  case (Pair dec c')
  show ?thesis using assms [unfolded Pair]
    by (rule assess_new_Inr) (drule insert_assessment_Inr, simp add: write_case_def more_verifications_def)
qed

lemma close_loop_Inr:
  "close_loop E q evidence n i e d = (d', Inr v) \<Longrightarrow>
   (\<exists>now rand. closeTx now rand q evidence d = Inr (v, d')) \<or> d' = d \<and> replayWorkflowVerification q evidence d = Inr v"
proof (induction n arbitrary: i e)
  case (Suc n)
  show ?case
  proof (cases "closeTx (clk E i) (rnd E i) q evidence d")
    case (Inl e1)
    then show ?thesis using Suc by (auto simp: with_tx_def split: if_splits sum.splits)
  next
    case (Inr x)
    then have "closeTx (clk E i) (rnd E i) q evidence d = Inr (v, d')"
      using Suc.prems by (cases x) (simp add: with_tx_def)
    then show ?thesis by blast
  qed
qed simp

lemma close_loop_Inl: "close_loop E q evidence n i e d = (d', Inl x) \<Longrightarrow> d' = d"
proof (induction n arbitrary: i e)
  case (Suc n)
  then show ?case by (auto simp: with_tx_def split: if_splits sum.splits prod.splits)
qed simp

lemma Close_Inr:
  assumes "Close E q d = (d', Inr v)"
  obtains (recorded) w where "find_by cv_case (trim_space (vr_case q)) (db_case_verifications d) = Some w" "v = scanVerification w"
      "cv_hash w = trim_space (vr_hash q)" "cv_evidence v = normalizeWorkflowEvidenceIDs (vr_evidence q)" "d' = d" "cv_hash w \<noteq> []"
  | (closed) now r where "find_by wc_id (trim_space (vr_case q)) (db_cases d) = Some r" "wc_state r = CaseReadyForVerification"
      "find_by cv_case (trim_space (vr_case q)) (db_case_verifications d) = None"
      "requireWorkflowEvidence (normalizeWorkflowEvidenceIDs (vr_evidence q)) d = Inr ()"
      "cv_case v = trim_space (vr_case q)" "cv_hash v = trim_space (vr_hash q)" "cv_hash v \<noteq> []"
      "cv_evidence v = normalizeWorkflowEvidenceIDs (vr_evidence q)" "finish_case now v CaseClosed d = Inr d'"
proof -
  let ?q = "trim_request q" and ?ev = "normalizeWorkflowEvidenceIDs (vr_evidence q)"
  have h: "vr_hash ?q \<noteq> []" "vr_evidence ?q = vr_evidence q" "vr_case ?q = trim_space (vr_case q)" "vr_hash ?q = trim_space (vr_hash q)"
    and run: "close_loop E ?q ?ev closeRetryAttempts 0 ErrNoRows d = (d', Inr v)"
    using assms by (auto simp: Close_def Let_def trim_request_def split: if_splits)
  from close_loop_Inr [OF run] show thesis
  proof (elim disjE exE conjE)
    fix now rand assume "closeTx now rand ?q ?ev d = Inr (v, d')"
    then show thesis by (cases rule: closeTx_Inr) (use h that in metis)+
  next
    assume "d' = d" "replayWorkflowVerification ?q ?ev d = Inr v"
    then show thesis using h that(1)
      by (auto simp: replayWorkflowVerification_def compareWorkflowVerification_def scanVerification_def split: option.splits if_splits)
  qed
qed

lemma Close_more: "more_verifications d (fst (Close E q d))"
proof (cases "Close E q d")
  case (Pair d' res)
  show ?thesis
  proof (cases res)
    case (Inl e)
    then show ?thesis using Pair by (auto simp: Close_def Let_def dest: close_loop_Inl split: if_splits)
  next
    case (Inr v)
    then have "Close E q d = (d', Inr v)" using Pair by simp
    then show ?thesis by (cases rule: Close_Inr) (use Pair finish_case_more in auto)
  qed
qed

text \<open>A case keeps its identity, mission, maximum and grant; its budget never grows and its steps never shrink.\<close>

definition limits_kept :: "case_row \<Rightarrow> case_row \<Rightarrow> bool" where
  "limits_kept r r' \<longleftrightarrow> wc_id r' = wc_id r \<and> wc_mission r' = wc_mission r \<and> wc_max r' = wc_max r \<and> wc_grant r' = wc_grant r \<and>
     wc_budget r' \<le> wc_budget r \<and> wc_steps r \<le> wc_steps r'"

definition cases_le :: "db \<Rightarrow> db \<Rightarrow> bool" where
  "cases_le d d' \<longleftrightarrow> (\<forall>r \<in> set (db_cases d). \<exists>r' \<in> set (db_cases d'). limits_kept r r')"

lemma limits_kept_refl [simp]: "limits_kept r r"
  by (simp add: limits_kept_def)

lemma cases_le_same: "set (db_cases d) \<subseteq> set (db_cases d') \<Longrightarrow> cases_le d d'"
  unfolding cases_le_def by (meson limits_kept_refl subsetD)

lemma cases_le_trans: "cases_le d d' \<Longrightarrow> cases_le d' d'' \<Longrightarrow> cases_le d d''"
  unfolding cases_le_def limits_kept_def by (metis order_trans)

lemma cases_le_update:
  assumes "db_cases d' = update_where P f (db_cases d)" and "\<And>r. r \<in> set (db_cases d) \<Longrightarrow> P r \<Longrightarrow> limits_kept r (f r)"
  shows "cases_le d d'"
  unfolding cases_le_def
proof
  fix r assume r: "r \<in> set (db_cases d)"
  show "\<exists>r' \<in> set (db_cases d'). limits_kept r r'"
    by (rule bexI [of _ "if P r then f r else r"]) (use r assms in \<open>auto simp: set_update_where\<close>)
qed

lemma ensureTx_le: "ensureTx r d = Inr (c, d') \<Longrightarrow> cases_le d d'"
  by (erule ensureTx_Inr) (auto simp: insert_case_Inr intro!: cases_le_same split: if_splits)

lemma finish_case_le: "finish_case now v st d = Inr d' \<Longrightarrow> cases_le d d'"
proof -
  assume "finish_case now v st d = Inr d'"
  then have "db_cases d' = update_where (\<lambda>r. wc_id r = cv_case v \<and> wc_state r = CaseReadyForVerification)
             (\<lambda>r. r\<lparr>wc_state := st, wc_work := [], wc_next := no_work, wc_updated := now\<rparr>) (db_cases d)"
    by (auto dest: finish_case_Inr)
  then show ?thesis by (rule cases_le_update) (simp add: limits_kept_def)
qed

lemma assess_new_le:
  assumes ok: "cases_ok d" and r: "find_by wc_id k (db_cases d) = Some r" and new: "assess_new J E q (scanCase r) d = Inr (x, d')"
  shows "cases_le d d'"
proof (cases x)
  case (Pair dec c')
  show ?thesis using new [unfolded Pair]
  proof (rule assess_new_Inr)
    assume act: "wc_state (scanCase r) = CaseActive" and budget: "ar_budget q \<le> wc_budget (scanCase r)"
      and c': "c' = next_case (rnd E 0) q dec (scanCase r)"
      and ins: "insert_assessment \<lparr>as_id = NewID ''assessment'' (rnd E 1), as_case = wc_id (scanCase r), as_work = ar_work q,
       as_request = assessment_json J q, as_result = (dec, c'), as_created = clk E 0\<rparr> (write_case (clk E 0) c' d) = Inr d'"
    have mem: "r \<in> set (db_cases d)" and k: "wc_id r = k" using find_by_SomeD [OF r] by auto
    have "in64 (wc_max r)" "0 \<le> wc_steps r" "wc_steps r < wc_max r"
      using cases_okD(7) [OF ok mem] act by (auto simp: case_ok_def split: if_splits)
    then have steps: "wc_steps c' = wc_steps r + 1" by (simp add: c' next_case_keeps steps_plus_one)
    have fields: "wc_id c' = k" "wc_budget c' \<le> wc_budget r" using budget by (simp_all add: c' next_case_keeps k)
    have cases: "db_cases d' = db_cases (write_case (clk E 0) c' d)" using insert_assessment_Inr [OF ins] by simp
    have only: "y = r" if "y \<in> set (db_cases d)" "wc_id y = k" for y using find_by_only [OF cases_okD(1) [OF ok] r that(1)] that(2) by simp
    show ?thesis unfolding cases_le_def
    proof
      fix y assume y: "y \<in> set (db_cases d)"
      let ?f = "\<lambda>x. if wc_id x = wc_id c' then x\<lparr>wc_state := wc_state c', wc_work := wc_work c', wc_next := wc_next c', wc_steps := wc_steps c',
               wc_budget := wc_budget c', wc_signature := wc_signature c', wc_updated := clk E 0\<rparr> else x"
      have "?f y \<in> set (db_cases d')" using y by (auto simp: cases write_case_def set_update_where)
      moreover have "limits_kept y (?f y)" using only [OF y] steps fields by (auto simp: limits_kept_def)
      ultimately show "\<exists>r' \<in> set (db_cases d'). limits_kept y r'" by blast
    qed
  qed
qed

lemma Close_le: "cases_le d (fst (Close E q d))"
proof (cases "Close E q d")
  case (Pair d' res)
  show ?thesis
  proof (cases res)
    case (Inl e)
    then show ?thesis using Pair by (auto simp: Close_def Let_def cases_le_same dest: close_loop_Inl split: if_splits)
  next
    case (Inr v)
    then have "Close E q d = (d', Inr v)" using Pair by simp
    then show ?thesis by (cases rule: Close_Inr) (use Pair finish_case_le cases_le_same in auto)
  qed
qed

lemma case_step_le: "case_step d d' \<Longrightarrow> cases_ok d \<Longrightarrow> cases_le d d'"
proof (induction rule: case_step.induct)
  case (case_ensure o' d J E)
  show ?case unfolding Ensure_def
    by (auto intro!: with_tx_invariant [where I = "cases_le d"] intro: cases_le_same ensureTx_le split: sum.split)
next
  case (case_ensure_task o' d J K E template)
  show ?case unfolding EnsureAndMaterialize_def
  proof (auto intro!: with_tx_invariant [where I = "cases_le d"] split: sum.split simp: bindE_Inr_iff CreateTaskWithGuardInTx_def cases_le_same)
    fix r c d1 q t d2
    assume "ensureTx r d = Inr (c, d1)" "insertTaskTx K (clk E (Suc 0)) (rnd E 2) [] q (Some (activeWorkGuard c)) d1 = Inr (t, d2)"
    then have 1: "cases_le d d1" "exec_only d1 d2" using ensureTx_le insertTaskTx_only by blast+
    have "cases_le d1 d2" by (rule cases_le_same) (simp add: exec_onlyD [OF 1(2)])
    with 1(1) show "cases_le d d2" by (rule cases_le_trans)
  qed
next
  case (case_assess d J E q)
  then show ?case unfolding Assess_def assessTx_def
    by (auto intro!: with_tx_invariant [where I = "cases_le d"] intro: assess_new_le cases_le_same split: option.splits if_splits)
next
  case (case_reject d J E k reason evidence)
  show ?case unfolding Reject_case_def rejectTx_def Let_def
    by (auto intro!: with_tx_invariant [where I = "cases_le d"] simp: bindE_Inr_iff intro: finish_case_le cases_le_same
      split: option.splits if_splits)
next
  case (case_task d K now rand k work template)
  show ?case by (rule cases_le_same) (simp add: exec_onlyD [OF MaterializeTask_only])
next
  case (case_exec d d')
  show ?case by (rule cases_le_same) (simp add: exec_onlyD [OF exec_step_only [OF case_exec(1)]])
qed (simp add: Close_le)

lemma case_run_le: "case_step\<^sup>*\<^sup>* d d' \<Longrightarrow> cases_ok d \<Longrightarrow> cases_le d d'"
proof (induction rule: rtranclp_induct)
  case (step e f)
  then show ?case using case_step_le [OF step(2)] cases.reach_inv [OF step(1,4)] cases_le_trans by blast
qed (simp add: cases_le_same)

lemma case_step_more: "case_step d d' \<Longrightarrow> more_verifications d d'"
proof (induction rule: case_step.induct)
  case (case_ensure o' d J E)
  show ?case unfolding Ensure_def
    by (auto intro!: with_tx_invariant [where I = "more_verifications d"]
        intro: more_verifications_same ensureTx_verifications split: sum.split)
next
  case (case_ensure_task o' d J K E template)
  show ?case unfolding EnsureAndMaterialize_def
  proof (auto intro!: with_tx_invariant [where I = "more_verifications d"] split: sum.split
      simp: bindE_Inr_iff CreateTaskWithGuardInTx_def)
    fix r c d1 q t d2
    assume "ensureTx r d = Inr (c, d1)" "insertTaskTx K (clk E (Suc 0)) (rnd E 2) [] q (Some (activeWorkGuard c)) d1 = Inr (t, d2)"
    then have "db_case_verifications d2 = db_case_verifications d"
      using ensureTx_verifications exec_onlyD(18) [OF insertTaskTx_only] by metis
    then show "more_verifications d d2" by (rule more_verifications_same)
  qed
next
  case (case_assess d J E q)
  show ?case unfolding Assess_def assessTx_def
    by (auto intro!: with_tx_invariant [where I = "more_verifications d"] intro: assess_new_more
      split: option.splits if_splits)
next
  case (case_reject d J E k reason evidence)
  show ?case unfolding Reject_case_def rejectTx_def Let_def
    by (auto intro!: with_tx_invariant [where I = "more_verifications d"] simp: bindE_Inr_iff
      intro: finish_case_more split: option.splits if_splits)
qed (simp_all add: Close_more more_verifications_same exec_onlyD(18) [OF MaterializeTask_only] exec_onlyD(18) [OF exec_step_only])

lemma case_run_verification:
  "case_step\<^sup>*\<^sup>* d d' \<Longrightarrow> find_by cv_case k (db_case_verifications d) = Some v \<Longrightarrow>
   find_by cv_case k (db_case_verifications d') = Some v"
  by (induction rule: rtranclp_induct) (auto dest!: case_step_more simp: more_verifications_def find_by_append)

interpretation workflow_ids: id_normalizer normalizeWorkflowEvidenceIDs "\<lambda>k. k"
  by unfold_locales (auto simp: normalizeWorkflowEvidenceIDs_def)

lemma scanVerification_idem: "scanVerification (scanVerification v) = scanVerification v"
  by (simp add: scanVerification_def workflow_ids.norm_id)

lemma Close_recorded:
  assumes "Close E q d = (d', Inr v)"
  shows "(\<exists>x. find_by cv_case (trim_space (vr_case q)) (db_case_verifications d') = Some x \<and>
      scanVerification x = scanVerification v \<and> cv_hash x \<noteq> []) \<and>
    cv_hash v = trim_space (vr_hash q) \<and> cv_evidence v = normalizeWorkflowEvidenceIDs (vr_evidence q)"
  using assms
proof (cases rule: Close_Inr)
  case (recorded w)
  then show ?thesis using recorded(3,4) by (simp add: scanVerification_idem) (simp add: scanVerification_def)
next
  case (closed now r)
  from finish_case_Inr [OF closed(9)] have fresh: "cv_case v \<notin> cv_case ` set (db_case_verifications d)"
    and d': "db_case_verifications d' = db_case_verifications d @ [v]" by simp_all
  have "find_by cv_case (cv_case v) (db_case_verifications d') = Some v"
    unfolding d' find_by_insert_new [where key = cv_case, OF fresh] by simp
  with closed(5-8) show ?thesis by auto
qed

lemma closed_row:
  assumes ok: "cases_ok d" and v: "find_by cv_case k (db_case_verifications d) = Some v" "cv_hash v \<noteq> []"
  shows "\<exists>r. find_by wc_id k (db_cases d) = Some r \<and> wc_state r = CaseClosed"
proof -
  have "k \<in> wc_id ` set (db_cases d)" using cases_okD(6) [OF ok] find_by_SomeD [OF v(1)] by blast
  then obtain r where r: "find_by wc_id k (db_cases d) = Some r" by (metis find_by_None_iff option.exhaust)
  have "r \<in> set (db_cases d)" "wc_id r = k" using find_by_SomeD [OF r] by simp_all
  with cases_okD(7) [OF ok] have "case_ok d r" "wc_id r = k" by simp_all
  with r v show ?thesis by (simp add: case_ok_def)
qed

subsection \<open>Tasks within the grant\<close>

lemma normalizeRootRequest_authority:
  assumes "normalizeRootRequest q = Inr q1"
  shows "tr_purpose q1 = tr_purpose q" "tr_key q1 = tr_key q" "set (tr_capabilities q1) \<subseteq> set (tr_authority q1)"
    "set (tr_authority q1) \<subseteq> trim_space ` (set (tr_authority q) \<union> set (tr_capabilities q))"
  using assms
  by (auto simp: normalizeRootRequest_def Let_def bind_simps list_all_iff normalizeStrings_def split: if_splits)

lemma templateForCase_Inr:
  "templateForCase c template = Inr q \<Longrightarrow> tr_purpose q = mission_ref (wc_mission c) \<and> tr_key q = wc_work c \<and>
   tr_authority q = wp_authority (wc_next c) \<and> tr_capabilities q = wp_required (wc_next c)"
  by (auto simp: templateForCase_def bind_simps)

lemma new_task_within_grant:
  assumes q: "templateForCase c template = Inr q" "normalizeRootRequest q = Inr q1"
    and ins: "insertTaskTx K now rand [] q1 guard d = Inr (t, d')" "d' \<noteq> d"
    and grant: "within_grant (wc_grant c) (wc_next c)"
  shows "db_tasks d' = db_tasks d @ [t] \<and> t_parent t = [] \<and> t_purpose t = mission_ref (wc_mission c) \<and>
    t_idem_key t = trim_space (wc_work c) \<and> (t_idem_key t = [] \<or> t_idem_key t \<notin> t_idem_key ` set (db_tasks d)) \<and>
    set (t_capabilities t) \<subseteq> set (t_authority t) \<and> set (t_authority t) \<subseteq> trim_space ` set (gr_capabilities (wc_grant c))"
  using ins(1)
proof (cases rule: insertTaskTx_cases)
  case (new q')
  note n = normalizeRootRequest_authority [OF q(2)] and t = templateForCase_Inr [OF q(1)]
  have q': "tr_purpose q' = tr_purpose q1" "tr_key q' = trim_space (tr_key q1)" "tr_authority q' = tr_authority q1"
    "tr_capabilities q' = tr_capabilities q1"
    using normalizeTaskIntent_Inr [OF new(1)] by auto
  have caps: "t_capabilities t = tr_capabilities q1" "t_authority t = tr_authority q1"
    unfolding new(2) by (simp_all add: new_task_def q')
  have "set (wp_authority (wc_next c)) \<union> set (wp_required (wc_next c)) \<subseteq> set (gr_capabilities (wc_grant c))"
    using grant by (auto simp: within_grant_def)
  then have "set (tr_authority q1) \<subseteq> trim_space ` set (gr_capabilities (wc_grant c))"
    using n(4) t by (simp add: subset_trans [OF n(4)] image_mono)
  then show ?thesis using new n t q' caps by auto
qed (use ins in simp)

lemma MaterializeTask_Inr:
  assumes "MaterializeTask K now rand k work template d = (d', Inr t)"
  obtains r q q1 where "find_by wc_id k (db_cases d) = Some r" "wc_state r = CaseActive" "wc_work r = work" "nonblank work"
    "templateForCase (scanCase r) template = Inr q" "normalizeRootRequest q = Inr q1"
    "insertTaskTx K now rand [] q1 (Some (activeWorkGuard (scanCase r))) d = Inr (t, d')"
proof -
  obtain r where r: "find_by wc_id k (db_cases d) = Some r" and g: "Get_case k d = Inr (scanCase r)"
    using assms by (auto simp: MaterializeTask_def Get_case_def requireE_def bindE_def split: option.splits if_splits)
  have act: "wc_state r = CaseActive" "wc_work r = work" "nonblank work"
    and m: "materializeCurrentCase K now rand (scanCase r) template d = (d', Inr t)"
    using assms g by (auto simp: MaterializeTask_def split: if_splits)
  then show thesis using that [OF r]
    by (auto simp: materializeCurrentCase_def CreateTaskWithGuard_def with_tx_Inr_iff split: sum.splits)
qed

subsection \<open>A store to evaluate on\<close>

definition demo_case_codec :: case_codec where
  "demo_case_codec = \<lparr>observation_json = on_revision, assessment_json = ar_signature, rejection_json = (\<lambda>s. s)\<rparr>"

definition demo_mission :: db where
  "demo_mission = empty_db\<lparr>db_missions := [\<lparr>m_id = ''m'', m_statement = ''s'', m_active = True, m_created = 1, m_deactivated = None\<rparr>],
     db_evidence := [demo_evidence_row]\<rparr>"

definition demo_observation :: Observation where
  "demo_observation = \<lparr>on_mission = ''m'', on_source = ''ado'', on_object = ''pr/7'', on_revision = ''3'', on_evidence = ''e1'',
     on_first = \<lparr>wp_kind = ''review'', wp_required = [''read''], wp_authority = [''read''], wp_actions = []\<rparr>,
     on_grant = \<lparr>gr_capabilities = [''read'', ''write''], gr_actions = []\<rparr>, on_max = 2, on_budget = 5\<rparr>"

definition demo_open :: db where
  "demo_open = fst (Ensure demo_case_codec demo_env demo_observation demo_mission)"

definition demo_ready :: AssessmentRequest where
  "demo_ready = \<lparr>ar_case = ''case_2'', ar_work = ''work_1'', ar_assessment = \<lparr>sm_verdict = VerdictReady, sm_reason = ''done'',
     sm_evidence = [''e1''], sm_next = None\<rparr>, ar_budget = 4, ar_signature = ''s1''\<rparr>"

definition demo_assessed :: db where
  "demo_assessed = fst (Assess demo_case_codec demo_env demo_ready demo_open)"

definition demo_request_close :: VerificationRequest where
  "demo_request_close = \<lparr>vr_case = ''case_2'', vr_verifier = ''v'', vr_type = ''HUMAN'', vr_hash = '' h '', vr_snapshot = ''{}'',
     vr_evidence = [''e1'', [], ''e1'']\<rparr>"

definition demo_closed :: db where
  "demo_closed = fst (Close demo_env demo_request_close demo_assessed)"

lemma demo_mission_ok: "cases_ok demo_mission"
  by code_simp

lemma demo_case_runs:
  "case_step\<^sup>*\<^sup>* demo_mission demo_open" "case_step\<^sup>*\<^sup>* demo_mission demo_assessed"
proof -
  have "in64 (on_max demo_observation)" by code_simp
  then show o': "case_step\<^sup>*\<^sup>* demo_mission demo_open" unfolding demo_open_def by (blast intro: case_ensure)
  have "case_step demo_open demo_assessed" unfolding demo_assessed_def by (rule case_assess)
  with o' show "case_step\<^sup>*\<^sup>* demo_mission demo_assessed" by (rule rtranclp.rtrancl_into_rtrancl)
qed

subsection \<open>Properties\<close>

text \<open>
  C28. A case is bounded. After any calls of the workflow and of the execution service, each case has
  exactly as many accepted assessments as it has completed steps, never more than its maximum. While it is
  ACTIVE it has work, a step and budget left and its next work is within its grant; otherwise it has no
  work. It has at most one verification, and it is CLOSED exactly when that is not a rejection. And from any earlier state on, no call has
  raised its budget, taken back a step or changed its mission, maximum or grant.
\<close>

theorem case_is_bounded:
  assumes "case_step\<^sup>*\<^sup>* d0 d" and "cases_ok d0" and "r \<in> set (db_cases d)"
  shows "int (length (filter (\<lambda>x. as_case x = wc_id r) (db_assessments d))) = wc_steps r \<and> wc_steps r \<le> wc_max r \<and>
    0 \<le> wc_budget r \<and>
    (if wc_state r = CaseActive
     then wc_work r \<noteq> [] \<and> wc_steps r < wc_max r \<and> 0 < wc_budget r \<and> within_grant (wc_grant r) (wc_next r)
     else wc_work r = []) \<and>
    length (filter (\<lambda>v. cv_case v = wc_id r) (db_case_verifications d)) \<le> 1 \<and>
    (wc_state r = CaseClosed \<longleftrightarrow> (\<exists>v \<in> set (db_case_verifications d). cv_case v = wc_id r \<and> cv_hash v \<noteq> [])) \<and>
    (\<forall>r0 \<in> set (db_cases d0). wc_id r0 = wc_id r \<longrightarrow> wc_budget r \<le> wc_budget r0 \<and> wc_steps r0 \<le> wc_steps r \<and>
       wc_mission r = wc_mission r0 \<and> wc_max r = wc_max r0 \<and> wc_grant r = wc_grant r0)"
proof -
  have ok: "cases_ok d" using cases.reach_inv assms(1,2) .
  have limits: "\<forall>r0 \<in> set (db_cases d0). wc_id r0 = wc_id r \<longrightarrow> limits_kept r0 r"
  proof (intro ballI impI)
    fix r0 assume "r0 \<in> set (db_cases d0)" and id: "wc_id r0 = wc_id r"
    then obtain r' where r': "r' \<in> set (db_cases d)" "limits_kept r0 r'" using case_run_le [OF assms(1,2)] unfolding cases_le_def by blast
    then have "r' = r" using find_by_only [OF cases_okD(1) [OF ok] find_by_member [OF cases_okD(1) [OF ok] assms(3)] r'(1)] id
      by (simp add: limits_kept_def)
    with r' show "limits_kept r0 r" by simp
  qed
  note row = cases_okD(7) [OF ok assms(3)]
  have "count_where (\<lambda>v. cv_case v = wc_id r \<and> True) (db_case_verifications d) \<le> 1"
    unfolding count_where_key [OF cases_okD(4) [OF ok]] by (simp split: option.split)
  moreover have "wc_state r = CaseClosed \<longleftrightarrow> (\<exists>v \<in> set (db_case_verifications d). cv_case v = wc_id r \<and> cv_hash v \<noteq> [])"
  proof (cases "find_by cv_case (wc_id r) (db_case_verifications d)")
    case None
    then have "\<forall>v \<in> set (db_case_verifications d). cv_case v \<noteq> wc_id r" unfolding find_by_None_iff by (metis imageI)
    with None row show ?thesis by (auto simp: case_ok_def)
  next
    case (Some v)
    then have "\<forall>w \<in> set (db_case_verifications d). cv_case w = wc_id r \<longleftrightarrow> w = v"
      using find_by_only [OF cases_okD(4) [OF ok]] by blast
    moreover have "v \<in> set (db_case_verifications d)" using find_by_SomeD [OF Some] by simp
    ultimately show ?thesis using Some row by (auto simp: case_ok_def)
  qed
  moreover have "int (length (filter (\<lambda>x. as_case x = wc_id r) (db_assessments d))) = wc_steps r \<and> wc_steps r \<le> wc_max r \<and>
    0 \<le> wc_budget r \<and>
    (if wc_state r = CaseActive
     then wc_work r \<noteq> [] \<and> wc_steps r < wc_max r \<and> 0 < wc_budget r \<and> within_grant (wc_grant r) (wc_next r)
     else wc_work r = [])" using row by (simp add: case_ok_def count_where_def)
  ultimately show ?thesis using limits by (simp add: count_where_def limits_kept_def)
qed

lemma case_is_bounded_witness:
  "\<exists>r0 \<in> set (db_cases demo_open). \<exists>r \<in> set (db_cases demo_assessed). wc_steps r = 1 \<and> wc_state r = CaseReadyForVerification \<and>
     wc_work r = [] \<and> wc_budget r0 = 5 \<and> wc_budget r \<le> wc_budget r0"
proof -
  have "list_ex (\<lambda>r. wc_steps r = 1 \<and> wc_state r = CaseReadyForVerification \<and> wc_id r = ''case_2'') (db_cases demo_assessed)"
    "list_ex (\<lambda>r. wc_budget r = 5 \<and> wc_id r = ''case_2'') (db_cases demo_open)" by code_simp+
  then obtain r r0 where r: "r \<in> set (db_cases demo_assessed)" "wc_steps r = 1" "wc_state r = CaseReadyForVerification" "wc_id r = ''case_2''"
    and r0: "r0 \<in> set (db_cases demo_open)" "wc_budget r0 = 5" "wc_id r0 = ''case_2''" by (auto simp: list_ex_iff)
  have "case_step\<^sup>*\<^sup>* demo_open demo_assessed" unfolding demo_assessed_def by (rule r_into_rtranclp) (rule case_assess)
  moreover have "cases_ok demo_open" by (rule cases.reach_inv [OF demo_case_runs(1) demo_mission_ok])
  ultimately show ?thesis using case_is_bounded [OF _ _ r(1)] r r0 by fastforce
qed

text \<open>
  C29. A piece of work becomes one task, and only within the grant of its case: when \<open>MaterializeTask\<close> stores a
  task, the case is ACTIVE with that work and with a step and budget left, the task is a root task for the mission of
  the case, keyed by the work, no task had that key before, and its authority comes from the capabilities the case
  was granted.
\<close>

theorem work_becomes_a_task_within_the_grant:
  assumes "case_step\<^sup>*\<^sup>* d0 d" and "cases_ok d0"
    and "MaterializeTask K now rand k work template d = (d', Inr t)" and "d' \<noteq> d"
  shows "\<exists>r. find_by wc_id k (db_cases d) = Some r \<and> wc_state r = CaseActive \<and> wc_work r = work \<and>
    wc_steps r < wc_max r \<and> 0 < wc_budget r \<and> db_tasks d' = db_tasks d @ [t] \<and> t_parent t = [] \<and>
    t_purpose t = mission_ref (wc_mission r) \<and> t_idem_key t = trim_space work \<and> t_idem_key t \<notin> t_idem_key ` set (db_tasks d) \<and>
    set (t_capabilities t) \<subseteq> set (t_authority t) \<and> set (t_authority t) \<subseteq> trim_space ` set (gr_capabilities (wc_grant r))"
  using assms(3)
proof (rule MaterializeTask_Inr)
  fix r q q1
  assume r: "find_by wc_id k (db_cases d) = Some r" "wc_state r = CaseActive" "wc_work r = work" "nonblank work"
    and q: "templateForCase (scanCase r) template = Inr q" "normalizeRootRequest q = Inr q1"
    and ins: "insertTaskTx K now rand [] q1 (Some (activeWorkGuard (scanCase r))) d = Inr (t, d')"
  have "cases_ok d" using cases.reach_inv assms(1,2) .
  then have "case_ok d r" using cases_okD(7) find_by_SomeD [OF r(1)] by blast
  then have lim: "wc_steps r < wc_max r" "0 < wc_budget r" "within_grant (wc_grant r) (wc_next r)"
    using r(2) by (simp_all add: case_ok_def)
  have "within_grant (wc_grant (scanCase r)) (wc_next (scanCase r))" using lim(3) by simp
  with new_task_within_grant [OF q ins assms(4)] r lim show ?thesis by auto
qed

lemma work_becomes_a_task_within_the_grant_witness:
  "\<exists>d' t. MaterializeTask demo_codec 9 ''t'' ''case_2'' ''work_1'' (demo_request ''x'' ''k'') demo_open =
     (d', Inr t) \<and> db_tasks d' = [t] \<and> t_idem_key t = ''work_1'' \<and> set (t_authority t) \<subseteq> {''read'', ''write''}"
proof -
  let ?m = "MaterializeTask demo_codec 9 ''t'' ''case_2'' ''work_1'' (demo_request ''x'' ''k'') demo_open"
  have c: "(case ?m of (d', Inr t) \<Rightarrow> db_tasks d' = [t] | _ \<Rightarrow> False) \<and> db_tasks demo_open = [] \<and>
      map (\<lambda>r. (wc_id r, gr_capabilities (wc_grant r))) (db_cases demo_open) = [(''case_2'', [''read'', ''write''])]"
    by code_simp
  then obtain d' t where m: "?m = (d', Inr t)" "db_tasks d' = [t]" by (auto split: prod.splits sum.splits)
  have ne: "d' \<noteq> demo_open" using m(2) c by auto
  have tr: "trim_space ''work_1'' = ''work_1''" "trim_space ''read'' = ''read''" "trim_space ''write'' = ''write''" by code_simp+
  from work_becomes_a_task_within_the_grant [OF demo_case_runs(1) demo_mission_ok m(1) ne]
  obtain r where r: "find_by wc_id ''case_2'' (db_cases demo_open) = Some r" "t_idem_key t = trim_space ''work_1''"
    "set (t_authority t) \<subseteq> trim_space ` set (gr_capabilities (wc_grant r))" by blast
  have "gr_capabilities (wc_grant r) = [''read'', ''write'']"
    using find_by_SomeD [OF r(1)] c by (auto simp: map_eq_Cons_conv)
  with r tr have "t_idem_key t = ''work_1'' \<and> set (t_authority t) \<subseteq> {''read'', ''write''}" by auto
  with m show ?thesis by blast
qed

text \<open>
  An assessment is accepted once. After \<open>Assess\<close> has succeeded the same request returns the same decision and
  case and changes nothing, and every other request for that work of that case is refused.
\<close>

theorem Assess_is_idempotent:
  assumes "Assess J E q d = (d1, Inr x)"
  shows "Assess J E' q d1 = (d1, Inr x) \<and>
    (\<forall>q'. ar_case q' = ar_case q \<and> ar_work q' = ar_work q \<and> assessment_json J q' \<noteq> assessment_json J q \<longrightarrow>
      Assess J E' q' d1 = (d1, Inl (Err ''work already assessed with a different request'')))"
proof -
  let ?key = "\<lambda>x. (as_case x, as_work x)"
  have ids: "nonblank (ar_case q)" "nonblank (ar_work q)" and run: "assessTx J E q d = Inr (x, d1)"
    using assms by (auto simp: Assess_def with_tx_Inr_iff split: if_splits)
  have "\<exists>y. find_by ?key (ar_case q, ar_work q) (db_assessments d1) = Some y \<and>
      as_request y = assessment_json J q \<and> as_result y = x"
  proof (cases "find_by ?key (ar_case q, ar_work q) (db_assessments d)")
    case (Some y)
    with run show ?thesis by (auto simp: assessTx_def split: if_splits)
  next
    case None
    with run obtain r where r: "find_by wc_id (ar_case q) (db_cases d) = Some r" "assess_new J E q (scanCase r) d = Inr (x, d1)"
      by (auto simp: assessTx_def split: option.splits)
    obtain dec c' where x: "x = (dec, c')" by (cases x)
    have id: "wc_id r = ar_case q" using find_by_SomeD [OF r(1)] by simp
    show ?thesis using r(2) [unfolded x]
      by (rule assess_new_Inr) (drule insert_assessment_Inr, auto simp: find_by_insert_new id x)
  qed
  with ids show ?thesis by (auto simp: Assess_def assessTx_def with_tx_def)
qed

lemma Assess_is_idempotent_witness:
  "Assess demo_case_codec demo_env3 demo_ready demo_assessed =
     (demo_assessed, snd (Assess demo_case_codec demo_env demo_ready demo_open)) \<and>
   Assess demo_case_codec demo_env3 (demo_ready\<lparr>ar_signature := ''s2''\<rparr>) demo_assessed =
     (demo_assessed, Inl (Err ''work already assessed with a different request''))"
proof -
  have "(case snd (Assess demo_case_codec demo_env demo_ready demo_open) of Inr x \<Rightarrow> True | Inl e \<Rightarrow> False)" by code_simp
  then obtain x where x: "snd (Assess demo_case_codec demo_env demo_ready demo_open) = Inr x" by (auto split: sum.splits)
  then have "Assess demo_case_codec demo_env demo_ready demo_open = (demo_assessed, Inr x)"
    by (simp add: demo_assessed_def prod_eq_iff)
  note again = Assess_is_idempotent [OF this, of demo_env3]
  have "assessment_json demo_case_codec (demo_ready\<lparr>ar_signature := ''s2''\<rparr>) \<noteq> assessment_json demo_case_codec demo_ready"
    by (simp add: demo_case_codec_def demo_ready_def)
  then show ?thesis using again by (simp add: x)
qed

text \<open>
  A case is closed once and for good. When \<open>Close\<close> has succeeded, the case is CLOSED by exactly the snapshot hash
  and the evidence that were asked for, and after any further calls a \<open>Close\<close> of the case that succeeds returns the
  same record and changes nothing, and no rejection of it succeeds.
\<close>

theorem closed_for_good:
  assumes "case_step\<^sup>*\<^sup>* d0 d" and "cases_ok d0" and "Close E q d = (d1, Inr v)" and "case_step\<^sup>*\<^sup>* d1 d2"
  shows "cv_hash v = trim_space (vr_hash q) \<and> cv_evidence v = normalizeWorkflowEvidenceIDs (vr_evidence q) \<and>
    (\<exists>r. find_by wc_id (trim_space (vr_case q)) (db_cases d2) = Some r \<and> wc_state r = CaseClosed) \<and>
    (\<forall>E' q' d3 w. trim_space (vr_case q') = trim_space (vr_case q) \<and> Close E' q' d2 = (d3, Inr w) \<longrightarrow>
       d3 = d2 \<and> w = scanVerification v) \<and>
    (\<forall>J E' k reason ids d3 w. trim_space k = trim_space (vr_case q) \<longrightarrow>
       Reject_case J E' k reason ids d2 \<noteq> (d3, Inr w))"
proof -
  let ?k = "trim_space (vr_case q)"
  have "\<exists>x. find_by cv_case ?k (db_case_verifications d1) = Some x \<and> scanVerification x = scanVerification v \<and>
      cv_hash x \<noteq> []" and v: "cv_hash v = trim_space (vr_hash q)" "cv_evidence v = normalizeWorkflowEvidenceIDs (vr_evidence q)"
    using Close_recorded [OF assms(3)] by simp_all
  then obtain x where "find_by cv_case ?k (db_case_verifications d1) = Some x" and
    x: "scanVerification x = scanVerification v" "cv_hash x \<noteq> []" by blast
  then have rec: "find_by cv_case ?k (db_case_verifications d2) = Some x"
    using case_run_verification [OF assms(4)] by blast
  have "cases_ok d1" using Close_ok [OF cases.reach_inv [OF assms(1,2)]] assms(3) by (metis fst_conv)
  then have ok: "cases_ok d2" using cases.reach_inv [OF assms(4)] by blast
  obtain r where r: "find_by wc_id ?k (db_cases d2) = Some r" "wc_state r = CaseClosed"
    using closed_row [OF ok rec x(2)] by blast
  have "d3 = d2 \<and> w = scanVerification v"
    if k: "trim_space (vr_case q') = ?k" and c: "Close E' q' d2 = (d3, Inr w)" for E' q' d3 w
    using c by (cases rule: Close_Inr) (use rec x(1) k in auto)
  moreover have "Reject_case J E' k reason ids d2 \<noteq> (d3, Inr w)" if "trim_space k = ?k" for J E' k reason ids d3 w
    using r that by (auto simp: Reject_case_def with_tx_Inr_iff rejectTx_def bindE_Inr_iff)
  ultimately show ?thesis using v r by blast
qed

lemma closed_for_good_witness:
  "\<exists>r. find_by wc_id ''case_2'' (db_cases demo_closed) = Some r \<and> wc_state r = CaseClosed"
proof -
  have "(case snd (Close demo_env demo_request_close demo_assessed) of Inr v \<Rightarrow> True | Inl e \<Rightarrow> False) \<and>
      trim_space (vr_case demo_request_close) = ''case_2''" by code_simp
  then obtain v where v: "snd (Close demo_env demo_request_close demo_assessed) = Inr v"
    and k: "trim_space (vr_case demo_request_close) = ''case_2''" by (auto split: sum.splits)
  then have "Close demo_env demo_request_close demo_assessed = (demo_closed, Inr v)"
    by (simp add: demo_closed_def prod_eq_iff)
  from closed_for_good [OF demo_case_runs(2) demo_mission_ok this rtranclp.rtrancl_refl] k show ?thesis by simp
qed

end
