(* ===== verification/Capabilities.thy ===== *)
theory Capabilities
  imports Frames Times
begin

text \<open>
  The capability registry and its sessions (\<open>internal/capabilities\<close>): which primitive capabilities providers
  offer, what has been observed of them, and the sessions through which one attempt may call some of them.
  A provider is an interface: its answers are arguments. A call returns what it sends to a provider, so that
  the theorems can say what is never sent. The digest of a token is an argument, too.
\<close>

record Definition =
  de_id :: ID
  de_name :: string
  de_version :: string
  de_provider :: string
  de_context :: string
  de_authority :: "string list"
  de_minimum :: enforcement_level

record ProbeResult =
  pb_enforcement :: enforcement_level
  pb_evidence :: "string list"
  pb_cost :: "string option"
  pb_health :: Health
  pb_available :: bool

text \<open>A provider; only an assessable one advertises, and it is probed once per advertised definition.\<close>

record cap_provider =
  cp_name :: string
  cp_advertise :: "Definition list res option"
  cp_probe :: "nat \<Rightarrow> Definition \<Rightarrow> ProbeResult res"

record taskCapabilityControl =
  tc_authority :: "string list"
  tc_required :: enforcement_level

text \<open>Here a list is cleaned without sorting it: the first occurrence of a value stays.\<close>

definition normalizeNames :: "string list \<Rightarrow> string list" where
  "normalizeNames values = rev (remdups (rev (filter (\<lambda>v. v \<noteq> []) (map trim_space values))))"

definition registry_provider :: "cap_provider list \<Rightarrow> string \<Rightarrow> cap_provider option" where
  "registry_provider ps name = find (\<lambda>p. nonblank (cp_name p) \<and> trim_space (cp_name p) = name) (rev ps)"

subsection \<open>Definitions and assessments\<close>

definition clean_definition :: "Definition \<Rightarrow> Definition" where
  "clean_definition de = \<lparr>de_id = trim_space (de_id de), de_name = trim_space (de_name de),
     de_version = trim_space (de_version de), de_provider = trim_space (de_provider de),
     de_context = trim_space (de_context de), de_authority = normalizeNames (de_authority de), de_minimum = de_minimum de\<rparr>"

definition validateDefinition :: "cap_provider list \<Rightarrow> Definition \<Rightarrow> Definition res" where
  "validateDefinition ps raw =
     (let de = clean_definition raw in
      bindE (requireE (de_id de \<noteq> [] \<and> de_name de \<noteq> [] \<and> de_version de \<noteq> [] \<and> de_provider de \<noteq> [] \<and> de_context de \<noteq> [])
        (Err ''capability id, skill name/version, provider, and access context are required'')) (\<lambda>_.
      bindE (requireE (registry_provider ps (de_provider de) \<noteq> None) (Err ''capability provider is not registered'')) (\<lambda>_.
      bindE (requireE (valid_enforcement (de_minimum de)) (Err ''invalid minimum enforcement'')) (\<lambda>_.
      bindE (requireE (de_authority de \<noteq> []) (Err ''capability authority requirements are required'')) (\<lambda>_.
      Inr de)))))"

fun valid_health :: "Health \<Rightarrow> bool" where
  "valid_health (HealthOther _) = False"
| "valid_health _ = True"

definition validateProbeResult :: "ProbeResult \<Rightarrow> unit res" where
  "validateProbeResult p =
     bindE (requireE (valid_enforcement (pb_enforcement p)) (Err ''invalid observed enforcement'')) (\<lambda>_.
     bindE (requireE (normalizeNames (pb_evidence p) \<noteq> []) (Err ''assessment requires probe evidence'')) (\<lambda>_.
     bindE (requireE (pb_cost p \<noteq> None) (Err ''assessment requires cost metadata'')) (\<lambda>_.
     requireE (valid_health (pb_health p)) (Err ''invalid capability health''))))"

definition deactivate :: "gtime \<Rightarrow> string \<Rightarrow> ID \<Rightarrow> capability_row list \<Rightarrow> capability_row list" where
  "deactivate now name k rows =
     update_where (\<lambda>x. cd_name x = name \<and> cd_id x \<noteq> k \<and> cd_active x) (\<lambda>x. x\<lparr>cd_active := False, cd_updated := now\<rparr>) rows"

definition new_capability :: "gtime \<Rightarrow> Definition \<Rightarrow> capability_row" where
  "new_capability now de = \<lparr>cd_id = de_id de, cd_name = de_name de, cd_version = de_version de, cd_provider = de_provider de,
     cd_context = de_context de, cd_authority = de_authority de, cd_minimum = de_minimum de, cd_active = True,
     cd_created = now, cd_updated = now\<rparr>"

text \<open>
  A known identifier is updated in place: all but its name and version. The unique index on active names refuses
  the update when another definition is active under the name the row has.
\<close>

definition registerDefinitionTx :: "gtime \<Rightarrow> Definition \<Rightarrow> db \<Rightarrow> db res" where
  "registerDefinitionTx now de d =
     (let rows = deactivate now (de_name de) (de_id de) (db_capabilities d) in
      case find_by cd_id (de_id de) (db_capabilities d) of
        Some r \<Rightarrow>
          bindE (requireE (cd_version r = de_version de) (Err ''capability id already belongs to another semantic version'')) (\<lambda>_.
          bindE (requireE (\<not> exists_where (\<lambda>x. cd_id x \<noteq> de_id de \<and> cd_name x = cd_name r \<and> cd_active x) rows)
            (ErrConstraint ''UNIQUE'')) (\<lambda>_.
          Inr (d\<lparr>db_capabilities := update_where (\<lambda>x. cd_id x = de_id de)
            (\<lambda>x. x\<lparr>cd_provider := de_provider de, cd_context := de_context de, cd_authority := de_authority de,
                   cd_minimum := de_minimum de, cd_active := True, cd_updated := now\<rparr>) rows\<rparr>)))
      | None \<Rightarrow> Inr (d\<lparr>db_capabilities := rows @ [new_capability now de]\<rparr>))"

definition Register :: "cap_provider list \<Rightarrow> gtime \<Rightarrow> Definition \<Rightarrow> db \<Rightarrow> db \<times> unit res" where
  "Register ps now raw d =
     (case validateDefinition ps raw of
        Inl e \<Rightarrow> (d, Inl e)
      | Inr de \<Rightarrow> with_tx (no_result (registerDefinitionTx now de)) d)"

definition insert_cap_assessment :: "cap_assessment_row \<Rightarrow> db \<Rightarrow> db res" where
  "insert_cap_assessment a d =
     bindE (insert_unique ca_id a (db_cap_assessments d)) (\<lambda>rows. Inr (d\<lparr>db_cap_assessments := rows\<rparr>))"

text \<open>One turn of the loop of \<open>AssessProvider\<close>: the turns before it stay committed when it fails.\<close>

definition assess_one ::
  "cap_provider list \<Rightarrow> cap_provider \<Rightarrow> env \<Rightarrow> nat \<Rightarrow> string \<Rightarrow> Definition \<Rightarrow> db \<Rightarrow> db \<times> cap_assessment_row res" where
  "assess_one ps p E i name raw d =
     (case bindE (validateDefinition ps raw) (\<lambda>de.
           bindE (requireE (de_provider de = name) (Err ''advertised capability names another provider'')) (\<lambda>_.
           bindE (cp_probe p i de) (\<lambda>pr. bindE (validateProbeResult pr) (\<lambda>_. Inr (de, pr))))) of
        Inl e \<Rightarrow> (d, Inl e)
      | Inr (de, pr) \<Rightarrow>
          let a = \<lparr>ca_id = NewID ''capassessment'' (rnd E i), ca_capability = de_id de, ca_provider = name,
                   ca_enforcement = pb_enforcement pr, ca_context = de_context de, ca_at = clk E i,
                   ca_evidence = pb_evidence pr, ca_cost = (case pb_cost pr of None \<Rightarrow> [] | Some c \<Rightarrow> c),
                   ca_health = pb_health pr, ca_available = pb_available pr\<rparr> in
          with_tx (\<lambda>d. bindE (registerDefinitionTx (clk E i) de d) (\<lambda>d1.
            bindE (insert_cap_assessment a d1) (\<lambda>d2. Inr (a, d2)))) d)"

fun assess_all ::
  "cap_provider list \<Rightarrow> cap_provider \<Rightarrow> env \<Rightarrow> nat \<Rightarrow> string \<Rightarrow> Definition list \<Rightarrow> db \<Rightarrow> db \<times> cap_assessment_row list res" where
  "assess_all ps p E i name [] d = (d, Inr [])"
| "assess_all ps p E i name (raw # raws) d =
     (case assess_one ps p E i name raw d of
        (d1, Inl e) \<Rightarrow> (d1, Inl e)
      | (d1, Inr a) \<Rightarrow>
          (case assess_all ps p E (Suc i) name raws d1 of
             (d2, Inl e) \<Rightarrow> (d2, Inl e)
           | (d2, Inr rest) \<Rightarrow> (d2, Inr (a # rest))))"

definition AssessProvider :: "cap_provider list \<Rightarrow> env \<Rightarrow> string \<Rightarrow> db \<Rightarrow> db \<times> cap_assessment_row list res" where
  "AssessProvider ps E raw_name d =
     (let name = trim_space raw_name in
      case registry_provider ps name of
        None \<Rightarrow> (d, Inl (Err ''capability provider is not registered''))
      | Some p \<Rightarrow>
          (case cp_advertise p of
             None \<Rightarrow> (d, Inl (Err ''capability provider does not support assessment''))
           | Some (Inl e) \<Rightarrow> (d, Inl e)
           | Some (Inr []) \<Rightarrow> (d, Inl (Err ''provider advertised no primitive capabilities''))
           | Some (Inr raws) \<Rightarrow> assess_all ps p E 0 name raws d))"

text \<open>\<open>ORDER BY assessed_at DESC, rowid DESC LIMIT 1\<close>: the greatest text, and of equal ones the last row.\<close>

definition later_text :: "cap_assessment_row \<Rightarrow> cap_assessment_row option \<Rightarrow> cap_assessment_row option" where
  "later_text a best =
     (case best of None \<Rightarrow> Some a | Some b \<Rightarrow> if formatTime (ca_at b) \<le> formatTime (ca_at a) then Some a else Some b)"

definition latest :: "cap_assessment_row list \<Rightarrow> cap_assessment_row option" where
  "latest rows = fold later_text rows None"

definition loadLatestAssessmentByCapability :: "ID \<Rightarrow> db \<Rightarrow> cap_assessment_row res" where
  "loadLatestAssessmentByCapability k d =
     (case latest (filter (\<lambda>a. ca_capability a = k) (db_cap_assessments d)) of
        None \<Rightarrow> Inl ErrNoRows
      | Some a \<Rightarrow> Inr a)"

definition LatestAssessment :: "string \<Rightarrow> db \<Rightarrow> cap_assessment_row res" where
  "LatestAssessment raw_name d =
     (let name = trim_space raw_name in
      if name = [] then Inl (Err ''semantic capability name is required'')
      else case latest (filter (\<lambda>a. exists_where (\<lambda>x. cd_id x = ca_capability a \<and> cd_name x = name) (db_capabilities d))
                 (db_cap_assessments d)) of
        None \<Rightarrow> Inl (Err ''capability has no assessment'')
      | Some a \<Rightarrow> Inr a)"

definition definition_of :: "capability_row \<Rightarrow> Definition" where
  "definition_of r = \<lparr>de_id = cd_id r, de_name = cd_name r, de_version = cd_version r, de_provider = cd_provider r,
     de_context = cd_context r, de_authority = cd_authority r, de_minimum = cd_minimum r\<rparr>"

definition definitionByNameTx :: "string \<Rightarrow> db \<Rightarrow> Definition res" where
  "definitionByNameTx name d =
     (case find (\<lambda>r. cd_name r = trim_space name \<and> cd_active r) (db_capabilities d) of
        None \<Rightarrow> Inl (Err ''active capability not found'')
      | Some r \<Rightarrow> Inr (definition_of r))"

definition definitionByIDTx :: "ID \<Rightarrow> db \<Rightarrow> Definition res" where
  "definitionByIDTx k d =
     (case find_by cd_id k (db_capabilities d) of None \<Rightarrow> Inl ErrNoRows | Some r \<Rightarrow> Inr (definition_of r))"

subsection \<open>Sessions\<close>

fun capability_rank :: "enforcement_level \<Rightarrow> int" where
  "capability_rank EnforcementUnenforced = 1"
| "capability_rank EnforcementPartial = 2"
| "capability_rank EnforcementEnforced = 3"
| "capability_rank (EnforcementOther _) = 0"

interpretation capability_levels: enforcement_ranking capability_rank
  by unfold_locales simp_all

definition enforcementAtLeast :: "enforcement_level \<Rightarrow> enforcement_level \<Rightarrow> bool" where
  "enforcementAtLeast actual required \<longleftrightarrow> capability_rank actual \<ge> capability_rank required"

definition authorityContains :: "string list \<Rightarrow> string list \<Rightarrow> bool" where
  "authorityContains authority required = list_all (\<lambda>c. c \<in> set authority) required"

definition loadTaskCapabilityControl :: "ID \<Rightarrow> db \<Rightarrow> taskCapabilityControl res" where
  "loadTaskCapabilityControl k d =
     (case find_by t_id k (db_tasks d) of
        None \<Rightarrow> Inl ErrNoRows
      | Some t \<Rightarrow> Inr \<lparr>tc_authority = t_authority t, tc_required = t_enforcement t\<rparr>)"

definition ensureCurrentAssessmentEligible :: "Definition \<Rightarrow> taskCapabilityControl \<Rightarrow> db \<Rightarrow> unit res" where
  "ensureCurrentAssessmentEligible de control d =
     (case loadLatestAssessmentByCapability (de_id de) d of
        Inl e \<Rightarrow> Inl ErrPolicyDenied
      | Inr a \<Rightarrow>
          bindE (requireE (ca_provider a = de_provider de \<and> ca_context a = de_context de) ErrPolicyDenied) (\<lambda>_.
          bindE (requireE (ca_available a \<and> ca_health a \<noteq> HealthUnhealthy) ErrPolicyDenied) (\<lambda>_.
          requireE (enforcementAtLeast (ca_enforcement a) (de_minimum de) \<and>
                    enforcementAtLeast (ca_enforcement a) (tc_required control)) ErrPolicyDenied)))"

definition admit_capability :: "cap_provider list \<Rightarrow> taskCapabilityControl \<Rightarrow> string \<Rightarrow> db \<Rightarrow> Definition res" where
  "admit_capability ps control name d =
     bindE (definitionByNameTx name d) (\<lambda>de.
     bindE (requireE (registry_provider ps (de_provider de) \<noteq> None) (Err ''capability provider is not registered'')) (\<lambda>_.
     bindE (requireE (authorityContains (tc_authority control) (de_authority de)) ErrPolicyDenied) (\<lambda>_.
     bindE (ensureCurrentAssessmentEligible de control d) (\<lambda>_. Inr de))))"

fun visible_ids :: "cap_provider list \<Rightarrow> taskCapabilityControl \<Rightarrow> string list \<Rightarrow> db \<Rightarrow> (string \<times> ID) list res" where
  "visible_ids ps control [] d = Inr []"
| "visible_ids ps control (name # names) d =
     bindE (admit_capability ps control name d) (\<lambda>de.
     bindE (visible_ids ps control names d) (\<lambda>rest. Inr ((name, de_id de) # rest)))"

definition insert_session :: "session_row \<Rightarrow> db \<Rightarrow> db res" where
  "insert_session s d =
     bindE (requireE (\<not> exists_where (\<lambda>x. cs_id x = cs_id s \<or> cs_token_hash x = cs_token_hash s) (db_sessions d))
       (ErrConstraint ''UNIQUE'')) (\<lambda>_. Inr (d\<lparr>db_sessions := db_sessions d @ [s]\<rparr>))"

definition OpenSession ::
  "cap_provider list \<Rightarrow> (string \<Rightarrow> string) \<Rightarrow> string \<Rightarrow> env \<Rightarrow> ID \<Rightarrow> ID \<Rightarrow> string list \<Rightarrow> db \<Rightarrow> db \<times> string res" where
  "OpenSession ps sha token E raw_collective attempt_id raw_visible d =
     (let collective = trim_space raw_collective; names = normalizeNames raw_visible in
      if collective = [] \<or> attempt_id = [] \<or> names = []
      then (d, Inl (Err ''collective, attempt, and visible capabilities are required''))
      else case WithGuardedAttempt (clk E 1) attempt_id [TaskExecuting] (\<lambda>g d.
          bindE (loadTaskCapabilityControl (ga_task g) d) (\<lambda>control.
          bindE (visible_ids ps control names d) (\<lambda>visible.
          bindE (insert_session \<lparr>cs_id = NewID ''capsession'' (rnd E 0), cs_token_hash = sha token, cs_collective = collective,
              cs_task = ga_task g, cs_attempt = ga_attempt g, cs_fence = ga_fence g, cs_expires = ga_expires g,
              cs_visible = visible, cs_created = clk E 0, cs_revoked = None\<rparr> d) (\<lambda>d'.
          Inr ((), d'))))) d of
        (d', Inl e) \<Rightarrow> (d', Inl e)
      | (d', Inr _) \<Rightarrow> (d', Inr token))"

definition Revoke :: "(string \<Rightarrow> string) \<Rightarrow> gtime \<Rightarrow> string \<Rightarrow> db \<Rightarrow> db \<times> unit res" where
  "Revoke sha now token d =
     (if \<not> nonblank token then (d, Inl (Err ''capability session is not configured''))
      else let hit = (\<lambda>s. cs_token_hash s = sha token);
               d' = d\<lparr>db_sessions := update_where hit
                 (\<lambda>s. s\<lparr>cs_revoked := (case cs_revoked s of None \<Rightarrow> Some now | Some r \<Rightarrow> Some r)\<rparr>) (db_sessions d)\<rparr> in
           if count_where hit (db_sessions d) = 0 then (d', Inl (Err ''capability session token is invalid''))
           else (d', Inr ()))"

definition loadSession :: "string \<Rightarrow> db \<Rightarrow> session_row res" where
  "loadSession hash d =
     (case find_by cs_token_hash hash (db_sessions d) of
        None \<Rightarrow> Inl (Err ''capability session token is invalid'')
      | Some s \<Rightarrow> if cs_revoked s \<noteq> None then Inl ErrLeaseInactive else Inr s)"

text \<open>The body of the transaction of \<open>Session.Call\<close>: the provider and the semantic name it is called with.\<close>

definition admit_call :: "cap_provider list \<Rightarrow> gtime \<Rightarrow> string \<Rightarrow> string \<Rightarrow> GuardedAttempt \<Rightarrow> db \<Rightarrow> (string \<times> string) res" where
  "admit_call ps now hash name g d =
     bindE (loadSession hash d) (\<lambda>s.
     bindE (requireE (cs_task s = ga_task g \<and> cs_attempt s = ga_attempt g \<and> cs_fence s = ga_fence g) ErrStaleAttempt) (\<lambda>_.
     bindE (requireE (cs_expires s > now) ErrLeaseInactive) (\<lambda>_.
     case map_of (cs_visible s) name of
       None \<Rightarrow> Inl ErrPolicyDenied
     | Some k \<Rightarrow>
         bindE (definitionByIDTx k d) (\<lambda>de.
         bindE (loadTaskCapabilityControl (ga_task g) d) (\<lambda>control.
         bindE (requireE (authorityContains (tc_authority control) (de_authority de)) ErrPolicyDenied) (\<lambda>_.
         bindE (ensureCurrentAssessmentEligible de control d) (\<lambda>_.
         bindE (requireE (registry_provider ps (de_provider de) \<noteq> None) (Err ''capability provider is not registered'')) (\<lambda>_.
         Inr (de_provider de, de_name de)))))))))"

text \<open>
  \<open>Session.Call\<close>: the session is first read in the store \<open>d0\<close>, and the transaction runs in the store \<open>d\<close> that other
  services may have left since. The result lists what is sent to a provider: its name, the capability, the request.
\<close>

definition Call ::
  "cap_provider list \<Rightarrow> (string \<Rightarrow> string) \<Rightarrow> env \<Rightarrow> (string \<Rightarrow> string \<Rightarrow> 'q \<Rightarrow> 'a res) \<Rightarrow> string \<Rightarrow> string \<Rightarrow> 'q \<Rightarrow>
   db \<Rightarrow> db \<Rightarrow> db \<times> (string \<times> string \<times> 'q) list \<times> 'a res" where
  "Call ps sha E answer token raw_name request d0 d =
     (let name = trim_space raw_name in
      if \<not> nonblank token then (d, [], Inl (Err ''capability session is not configured''))
      else if name = [] then (d, [], Inl (Err ''capability name is required''))
      else case loadSession (sha token) d0 of
        Inl e \<Rightarrow> (d, [], Inl e)
      | Inr s \<Rightarrow>
          if \<not> cs_expires s > clk E 0 then (d, [], Inl ErrLeaseInactive)
          else case with_tx (\<lambda>d. bindE (GuardAttempt (clk E 1) (cs_attempt s) [TaskExecuting] d) (\<lambda>g.
                   bindE (admit_call ps (clk E 2) (sha token) name g d) (\<lambda>target. Inr (target, d)))) d of
            (d', Inl e) \<Rightarrow> (d', [], Inl e)
          | (d', Inr (provider, semantic)) \<Rightarrow> (d', [(provider, semantic, request)], answer provider semantic request))"

subsection \<open>The invariant\<close>

definition one_active :: "capability_row list \<Rightarrow> bool" where
  "one_active rows \<longleftrightarrow> (\<forall>x \<in> set rows. \<forall>y \<in> set rows. cd_active x \<and> cd_active y \<and> cd_name x = cd_name y \<longrightarrow> cd_id x = cd_id y)"

definition session_ok :: "db \<Rightarrow> session_row \<Rightarrow> bool" where
  "session_ok d s \<longleftrightarrow>
     (case find_by a_id (cs_attempt s) (db_attempts d) of
        None \<Rightarrow> False
      | Some a \<Rightarrow> a_task a = cs_task s \<and> a_fence a = cs_fence s) \<and>
     (\<forall>v \<in> set (cs_visible s). \<exists>r \<in> set (db_capabilities d). cd_id r = snd v \<and> cd_name r = fst v)"

definition caps_ok :: "db \<Rightarrow> bool" where
  "caps_ok d \<longleftrightarrow> distinct (map cd_id (db_capabilities d)) \<and> one_active (db_capabilities d) \<and>
     distinct (map cs_token_hash (db_sessions d)) \<and> (\<forall>s \<in> set (db_sessions d). session_ok d s)"

lemma caps_okD:
  assumes "caps_ok d"
  shows "distinct (map cd_id (db_capabilities d))" "one_active (db_capabilities d)"
    "distinct (map cs_token_hash (db_sessions d))" "\<And>s. s \<in> set (db_sessions d) \<Longrightarrow> session_ok d s"
  using assms by (simp_all add: caps_ok_def)

text \<open>What a change may do to the definitions: their identifiers and names stay.\<close>

definition caps_grow :: "capability_row list \<Rightarrow> capability_row list \<Rightarrow> bool" where
  "caps_grow rows rows' \<longleftrightarrow> (\<forall>r \<in> set rows. \<exists>r' \<in> set rows'. cd_id r' = cd_id r \<and> cd_name r' = cd_name r)"

lemma caps_grow_refl [simp]: "caps_grow rows rows"
  by (auto simp: caps_grow_def)

lemma caps_grow_trans: "caps_grow a b \<Longrightarrow> caps_grow b c \<Longrightarrow> caps_grow a c"
  unfolding caps_grow_def by metis

lemma caps_grow_update: "(\<And>r. P r \<Longrightarrow> cd_id (f r) = cd_id r \<and> cd_name (f r) = cd_name r) \<Longrightarrow> caps_grow rows (update_where P f rows)"
  by (auto simp: caps_grow_def set_update_where)

lemma caps_grow_append: "caps_grow rows rows' \<Longrightarrow> caps_grow rows (rows' @ new)"
  by (auto simp: caps_grow_def)

lemma session_ok_later:
  assumes "session_ok d s" and "exec_le d d'" and "caps_grow (db_capabilities d) (db_capabilities d')"
  shows "session_ok d' s"
proof -
  obtain a where a: "find_by a_id (cs_attempt s) (db_attempts d) = Some a" "a_task a = cs_task s" "a_fence a = cs_fence s"
    using assms(1) by (auto simp: session_ok_def split: option.splits)
  obtain a' where a': "find_by a_id (cs_attempt s) (db_attempts d') = Some a'" "same_attempt a a'"
    using exec_le_attempt [OF assms(2) a(1)] by blast
  have "\<exists>r \<in> set (db_capabilities d'). cd_id r = snd v \<and> cd_name r = fst v" if "v \<in> set (cs_visible s)" for v
    using assms(1,3) that unfolding session_ok_def caps_grow_def by metis
  then show ?thesis using a a' same_attemptD [OF a'(2)] by (simp add: session_ok_def)
qed

lemma deactivate_ids [simp]: "map cd_id (deactivate now name k rows) = map cd_id rows"
  unfolding deactivate_def by (rule map_key_update_where) simp

lemma deactivate_mem:
  "x \<in> set (deactivate now name k rows) \<Longrightarrow> cd_active x \<Longrightarrow> x \<in> set rows \<and> \<not> (cd_name x = name \<and> cd_id x \<noteq> k)"
  by (auto simp: deactivate_def set_update_where split: if_splits)

lemma one_active_deactivate: "one_active rows \<Longrightarrow> one_active (deactivate now name k rows)"
  unfolding one_active_def by (meson deactivate_mem)

lemma registerDefinitionTx_cases:
  assumes "registerDefinitionTx now de d = Inr d'"
  obtains (known) r where "find_by cd_id (de_id de) (db_capabilities d) = Some r" "cd_version r = de_version de"
      "\<forall>x \<in> set (deactivate now (de_name de) (de_id de) (db_capabilities d)). cd_id x \<noteq> de_id de \<longrightarrow> cd_name x = cd_name r \<longrightarrow> \<not> cd_active x"
      "d' = d\<lparr>db_capabilities := update_where (\<lambda>x. cd_id x = de_id de)
            (\<lambda>x. x\<lparr>cd_provider := de_provider de, cd_context := de_context de, cd_authority := de_authority de,
                   cd_minimum := de_minimum de, cd_active := True, cd_updated := now\<rparr>)
            (deactivate now (de_name de) (de_id de) (db_capabilities d))\<rparr>"
  | (new) "de_id de \<notin> cd_id ` set (db_capabilities d)"
      "d' = d\<lparr>db_capabilities := deactivate now (de_name de) (de_id de) (db_capabilities d) @ [new_capability now de]\<rparr>"
  using assms
  by (auto simp: registerDefinitionTx_def Let_def bind_simps exists_where_iff find_by_None_iff split: option.splits)

lemma registerDefinitionTx_rows:
  assumes "distinct (map cd_id (db_capabilities d))" "one_active (db_capabilities d)" and run: "registerDefinitionTx now de d = Inr d'"
  shows "distinct (map cd_id (db_capabilities d'))" "one_active (db_capabilities d')"
    "caps_grow (db_capabilities d) (db_capabilities d')"
proof -
  let ?rows = "deactivate now (de_name de) (de_id de) (db_capabilities d)"
  have grow: "caps_grow (db_capabilities d) ?rows"
    unfolding deactivate_def by (rule caps_grow_update) simp
  have ids: "cd_id ` set ?rows = cd_id ` set (db_capabilities d)" using deactivate_ids by (metis set_map)
  have one: "one_active ?rows" by (rule one_active_deactivate) (rule assms(2))
  from run have "distinct (map cd_id (db_capabilities d')) \<and> one_active (db_capabilities d') \<and>
      caps_grow ?rows (db_capabilities d')"
  proof (cases rule: registerDefinitionTx_cases)
    case (known r)
    let ?f = "\<lambda>x. x\<lparr>cd_provider := de_provider de, cd_context := de_context de, cd_authority := de_authority de,
                   cd_minimum := de_minimum de, cd_active := True, cd_updated := now\<rparr>"
    have name: "cd_name x = cd_name r" if x: "x \<in> set ?rows" "cd_id x = de_id de" for x
    proof -
      obtain y where "y \<in> set (db_capabilities d)" "cd_id y = cd_id x" "cd_name y = cd_name x"
        using x(1) unfolding deactivate_def update_where_def by auto
      then show ?thesis using find_by_only [OF assms(1) known(1)] x(2) by metis
    qed
    have "one_active (update_where (\<lambda>x. cd_id x = de_id de) ?f ?rows)"
      unfolding one_active_def set_update_where
    proof (intro ballI impI, elim imageE conjE)
      fix x' y' x y
      assume m: "x' = (if cd_id x = de_id de then ?f x else x)" "y' = (if cd_id y = de_id de then ?f y else y)"
        "x \<in> set ?rows" "y \<in> set ?rows" "cd_active x'" "cd_active y'" "cd_name x' = cd_name y'"
      have names: "cd_name x = cd_name y" using m(1,2,7) by (simp split: if_splits)
      have no: False if "u \<in> set ?rows" "cd_active u" "cd_id u \<noteq> de_id de" "cd_name u = cd_name r" for u
        using known(3) that by blast
      consider "cd_id x = de_id de" "cd_id y = de_id de" | "cd_id x = de_id de" "cd_id y \<noteq> de_id de"
        | "cd_id x \<noteq> de_id de" "cd_id y = de_id de" | "cd_id x \<noteq> de_id de" "cd_id y \<noteq> de_id de" by blast
      then show "cd_id x' = cd_id y'"
      proof cases
        case 2
        then show ?thesis using m(2,4,6) no [of y] name [OF m(3)] names by simp
      next
        case 3
        then show ?thesis using m(1,3,5) no [of x] name [OF m(4)] names by simp
      next
        case 4
        then have "cd_active x" "cd_active y" using m(1,2,5,6) by simp_all
        then have "cd_id x = cd_id y" using one m(3,4) names unfolding one_active_def by blast
        then show ?thesis using m(1,2) 4 by simp
      qed (use m in simp)
    qed
    then show ?thesis
      using assms(1) known(4) by (auto simp: map_key_update_where intro: caps_grow_update)
  next
    case new
    have fresh: "cd_name x \<noteq> de_name de" if x: "x \<in> set ?rows" "cd_active x" for x
    proof
      assume "cd_name x = de_name de"
      then have "cd_id x = de_id de" "x \<in> set (db_capabilities d)" using deactivate_mem [OF x] by auto
      then show False using new(1) by (metis imageI)
    qed
    have "one_active (?rows @ [new_capability now de])"
      unfolding one_active_def
    proof (intro ballI impI, elim conjE)
      fix x y
      assume m: "x \<in> set (?rows @ [new_capability now de])" "y \<in> set (?rows @ [new_capability now de])"
        "cd_active x" "cd_active y" "cd_name x = cd_name y"
      have rows: "u \<in> set ?rows \<or> u = new_capability now de" if "u \<in> set (?rows @ [new_capability now de])" for u
        using that by auto
      have nm: "cd_name (new_capability now de) = de_name de" by (simp add: new_capability_def)
      show "cd_id x = cd_id y"
        using rows [OF m(1)] rows [OF m(2)]
      proof (elim disjE)
        assume "x \<in> set ?rows" "y \<in> set ?rows"
        then show ?thesis using one m(3-5) unfolding one_active_def by blast
      qed (use m(3-5) fresh nm in metis)+
    qed
    moreover have "distinct (map cd_id (?rows @ [new_capability now de]))"
      using assms(1) new(1) ids by (simp add: new_capability_def)
    ultimately show ?thesis using new(2) by (simp add: caps_grow_append)
  qed
  then show "distinct (map cd_id (db_capabilities d'))" "one_active (db_capabilities d')"
    "caps_grow (db_capabilities d) (db_capabilities d')"
    using grow caps_grow_trans by blast+
qed

text \<open>A session keeps all but its revocation, and that is not taken back.\<close>

definition sessions_le :: "session_row list \<Rightarrow> session_row list \<Rightarrow> bool" where
  "sessions_le rows rows' \<longleftrightarrow> (\<forall>h s. find_by cs_token_hash h rows = Some s \<longrightarrow>
     (\<exists>r. find_by cs_token_hash h rows' = Some (s\<lparr>cs_revoked := r\<rparr>) \<and> (cs_revoked s \<noteq> None \<longrightarrow> r = cs_revoked s)))"

lemma sessions_le_refl [simp]: "sessions_le rows rows"
  unfolding sessions_le_def
proof (intro allI impI)
  fix h s assume "find_by cs_token_hash h rows = Some s"
  then show "\<exists>r. find_by cs_token_hash h rows = Some (s\<lparr>cs_revoked := r\<rparr>) \<and> (cs_revoked s \<noteq> None \<longrightarrow> r = cs_revoked s)"
    by (intro exI [of _ "cs_revoked s"]) simp
qed

lemma sessions_le_trans:
  assumes "sessions_le a b" "sessions_le b c"
  shows "sessions_le a c"
  unfolding sessions_le_def
proof (intro allI impI)
  fix h s assume "find_by cs_token_hash h a = Some s"
  then obtain r where r: "find_by cs_token_hash h b = Some (s\<lparr>cs_revoked := r\<rparr>)" "cs_revoked s \<noteq> None \<longrightarrow> r = cs_revoked s"
    using assms(1) unfolding sessions_le_def by blast
  obtain r' where "find_by cs_token_hash h c = Some (s\<lparr>cs_revoked := r'\<rparr>)" "r \<noteq> None \<longrightarrow> r' = r"
    using assms(2) r(1) unfolding sessions_le_def by fastforce
  with r(2) show "\<exists>r. find_by cs_token_hash h c = Some (s\<lparr>cs_revoked := r\<rparr>) \<and> (cs_revoked s \<noteq> None \<longrightarrow> r = cs_revoked s)"
    by auto
qed

definition cap_next :: "db \<Rightarrow> db \<Rightarrow> bool" where
  "cap_next d d' \<longleftrightarrow> exec_next d d' \<and> caps_ok d' \<and> sessions_le (db_sessions d) (db_sessions d')"

lemma cap_next_refl: "exec_ok d \<Longrightarrow> caps_ok d \<Longrightarrow> cap_next d d"
  by (simp add: cap_next_def exec_next_refl)

lemma cap_next_trans: "cap_next d e \<Longrightarrow> cap_next e f \<Longrightarrow> cap_next d f"
  unfolding cap_next_def using exec_next_trans sessions_le_trans by blast

text \<open>Definitions change, sessions stay.\<close>

lemma cap_next_definitions:
  assumes "exec_ok d" "caps_ok d" "db_tasks d' = db_tasks d" "db_attempts d' = db_attempts d" "db_sessions d' = db_sessions d"
    and "distinct (map cd_id (db_capabilities d'))" "one_active (db_capabilities d')"
    "caps_grow (db_capabilities d) (db_capabilities d')"
  shows "cap_next d d'"
proof -
  have "exec_next d d'" using exec_next_cong [OF assms(3,4), of d] exec_next_refl [OF assms(1)] by simp
  moreover from this have "session_ok d' s" if "s \<in> set (db_sessions d)" for s
    using session_ok_later [OF caps_okD(4) [OF assms(2) that]] assms(8) by (simp add: exec_next_def)
  ultimately show ?thesis
    using assms(5-7) caps_okD(3) [OF assms(2)] by (simp add: cap_next_def caps_ok_def)
qed

lemma registerDefinitionTx_next:
  assumes "exec_ok d" "caps_ok d" "registerDefinitionTx now de d = Inr d'"
  shows "cap_next d d'"
proof (rule cap_next_definitions [OF assms(1,2)])
  note rows = registerDefinitionTx_rows [OF caps_okD(1,2) [OF assms(2)] assms(3)]
  show "distinct (map cd_id (db_capabilities d'))" "one_active (db_capabilities d')"
    "caps_grow (db_capabilities d) (db_capabilities d')" by (rule rows)+
  show "db_tasks d' = db_tasks d" "db_attempts d' = db_attempts d" "db_sessions d' = db_sessions d"
    using assms(3) by (cases rule: registerDefinitionTx_cases; simp)+
qed

lemma insert_cap_assessment_Inr:
  "insert_cap_assessment a d = Inr d' \<Longrightarrow> ca_id a \<notin> ca_id ` set (db_cap_assessments d) \<and>
   d' = d\<lparr>db_cap_assessments := db_cap_assessments d @ [a]\<rparr>"
  by (auto simp: insert_cap_assessment_def bind_simps insert_unique_Inr_iff)

lemma cap_next_assessments: "cap_next d e \<Longrightarrow> cap_next d (e\<lparr>db_cap_assessments := x\<rparr>)"
  using exec_next_cong [of "e\<lparr>db_cap_assessments := x\<rparr>" e d]
  by (simp add: cap_next_def caps_ok_def session_ok_def)

lemma Register_next:
  assumes "exec_ok d" "caps_ok d"
  shows "cap_next d (fst (Register ps now raw d))"
proof (cases "validateDefinition ps raw")
  case (Inr de)
  have "cap_next d (fst (with_tx (no_result (registerDefinitionTx now de)) d))"
  proof (rule with_tx_invariant [where I = "cap_next d"])
    fix u d' assume "no_result (registerDefinitionTx now de) d = Inr (u, d')"
    then have "registerDefinitionTx now de d = Inr d'" by (auto simp: no_result_def bindE_Inr_iff)
    then show "cap_next d d'" by (rule registerDefinitionTx_next [OF assms])
  qed (rule cap_next_refl [OF assms])
  then show ?thesis by (simp add: Register_def Inr)
qed (simp add: Register_def cap_next_refl [OF assms])

lemma assess_tx_next:
  assumes ok: "exec_ok d" "caps_ok d"
  shows "cap_next d (fst (with_tx (\<lambda>d. bindE (registerDefinitionTx now de d) (\<lambda>d1.
            bindE (insert_cap_assessment a d1) (\<lambda>d2. Inr (a, d2)))) d))"
proof (rule with_tx_invariant [where I = "cap_next d"])
  fix x d' assume "bindE (registerDefinitionTx now de d) (\<lambda>d1. bindE (insert_cap_assessment a d1) (\<lambda>d2. Inr (a, d2))) = Inr (x, d')"
  then obtain d1 where d1: "registerDefinitionTx now de d = Inr d1" "insert_cap_assessment a d1 = Inr d'"
    by (auto simp: bindE_Inr_iff)
  from insert_cap_assessment_Inr [OF d1(2)] have "d' = d1\<lparr>db_cap_assessments := db_cap_assessments d1 @ [a]\<rparr>" by simp
  then show "cap_next d d'" using cap_next_assessments [OF registerDefinitionTx_next [OF ok d1(1)]] by simp
qed (rule cap_next_refl [OF ok])

lemma assess_one_next: "exec_ok d \<Longrightarrow> caps_ok d \<Longrightarrow> cap_next d (fst (assess_one ps p E i name raw d))"
  by (simp add: assess_one_def Let_def assess_tx_next cap_next_refl split: sum.split prod.split)

lemma admit_capability_Inr:
  assumes "admit_capability ps control name d = Inr de"
  shows "\<exists>r \<in> set (db_capabilities d). cd_name r = trim_space name \<and> cd_active r \<and> de = definition_of r \<and>
    registry_provider ps (cd_provider r) \<noteq> None \<and> set (cd_authority r) \<subseteq> set (tc_authority control) \<and>
    ensureCurrentAssessmentEligible (definition_of r) control d = Inr ()"
proof -
  obtain r where r: "find (\<lambda>r. cd_name r = trim_space name \<and> cd_active r) (db_capabilities d) = Some r" "de = definition_of r"
    "registry_provider ps (de_provider de) \<noteq> None" "authorityContains (tc_authority control) (de_authority de)"
    "ensureCurrentAssessmentEligible de control d = Inr ()"
    using assms by (auto simp: admit_capability_def definitionByNameTx_def bind_simps split: option.splits)
  have "r \<in> set (db_capabilities d) \<and> cd_name r = trim_space name \<and> cd_active r"
    using r(1) by (auto simp: find_Some_iff)
  with r show ?thesis by (auto simp: definition_of_def authorityContains_def list_all_iff)
qed

lemma visible_ids_Inr:
  "visible_ids ps control names d = Inr vs \<Longrightarrow> map fst vs = names \<and>
   (\<forall>v \<in> set vs. \<exists>r \<in> set (db_capabilities d). cd_id r = snd v \<and> cd_name r = trim_space (fst v))"
proof (induction names arbitrary: vs)
  case (Cons n names)
  from Cons.prems obtain de rest where *: "admit_capability ps control n d = Inr de" "visible_ids ps control names d = Inr rest"
    "vs = (n, de_id de) # rest" by (auto simp: bind_simps)
  obtain r where "r \<in> set (db_capabilities d)" "cd_name r = trim_space n" "de = definition_of r"
    using admit_capability_Inr [OF *(1)] by blast
  with Cons.IH [OF *(2)] *(3) show ?case by (auto simp: definition_of_def)
qed simp

lemma normalizeNames_trimmed: "n \<in> set (normalizeNames names) \<Longrightarrow> trim_space n = n \<and> n \<noteq> []"
  by (auto simp: normalizeNames_def)

lemma insert_session_Inr:
  "insert_session s d = Inr d' \<Longrightarrow> cs_token_hash s \<notin> cs_token_hash ` set (db_sessions d) \<and>
   d' = d\<lparr>db_sessions := db_sessions d @ [s]\<rparr>"
  by (auto simp: insert_session_def bind_simps exists_where_iff)

lemma OpenSession_Inr:
  assumes "OpenSession ps sha token E collective k visible d = (d', Inr out)"
  obtains g control vs s where "GuardAttempt (clk E 1) k [TaskExecuting] d = Inr g"
    "loadTaskCapabilityControl (ga_task g) d = Inr control" "visible_ids ps control (normalizeNames visible) d = Inr vs"
    "s = \<lparr>cs_id = NewID ''capsession'' (rnd E 0), cs_token_hash = sha token, cs_collective = trim_space collective,
       cs_task = ga_task g, cs_attempt = ga_attempt g, cs_fence = ga_fence g, cs_expires = ga_expires g,
       cs_visible = vs, cs_created = clk E 0, cs_revoked = None\<rparr>"
    "insert_session s d = Inr d'" "out = token" "normalizeNames visible \<noteq> []"
proof -
  have n: "trim_space collective \<noteq> []" "k \<noteq> []" "normalizeNames visible \<noteq> []"
    using assms by (auto simp: OpenSession_def Let_def split: if_splits)
  let ?row = "\<lambda>g vs. \<lparr>cs_id = NewID ''capsession'' (rnd E 0), cs_token_hash = sha token, cs_collective = trim_space collective,
       cs_task = ga_task g, cs_attempt = ga_attempt g, cs_fence = ga_fence g, cs_expires = ga_expires g,
       cs_visible = vs, cs_created = clk E 0, cs_revoked = None\<rparr>"
  let ?body = "\<lambda>g d. bindE (loadTaskCapabilityControl (ga_task g) d) (\<lambda>control.
          bindE (visible_ids ps control (normalizeNames visible) d) (\<lambda>vs.
          bindE (insert_session (?row g vs) d) (\<lambda>d'. Inr ((), d'))))"
  have "WithGuardedAttempt (clk E 1) k [TaskExecuting] ?body d = (d', Inr ()) \<and> out = token"
    using assms n unfolding OpenSession_def Let_def by (simp split: prod.splits sum.splits)
  then have run: "bindE (GuardAttempt (clk E 1) k [TaskExecuting] d) (\<lambda>g. ?body g d) = Inr ((), d')" and out: "out = token"
    by (simp_all add: WithGuardedAttempt_def with_tx_Inr_iff)
  from run obtain g control vs where "GuardAttempt (clk E 1) k [TaskExecuting] d = Inr g"
    "loadTaskCapabilityControl (ga_task g) d = Inr control" "visible_ids ps control (normalizeNames visible) d = Inr vs"
    "insert_session (?row g vs) d = Inr d'"
    unfolding bindE_Inr_iff by auto
  then show thesis using that n(3) out by blast
qed

lemma OpenSession_next:
  assumes ok: "exec_ok d" "caps_ok d"
  shows "cap_next d (fst (OpenSession ps sha token E collective k visible d))"
proof (cases "OpenSession ps sha token E collective k visible d")
  case (Pair d' out)
  show ?thesis
  proof (cases out)
    case (Inl e)
    then have "d' = d"
      using Pair by (auto simp: OpenSession_def Let_def WithGuardedAttempt_def with_tx_Inl_iff split: if_splits prod.splits sum.splits)
    then show ?thesis using Pair cap_next_refl [OF ok] by simp
  next
    case (Inr x)
    then have "OpenSession ps sha token E collective k visible d = (d', Inr x)" using Pair by simp
    then show ?thesis
    proof (rule OpenSession_Inr)
      fix g control vs s
      assume g: "GuardAttempt (clk E 1) k [TaskExecuting] d = Inr g"
        and vs: "visible_ids ps control (normalizeNames visible) d = Inr vs"
        and s: "s = \<lparr>cs_id = NewID ''capsession'' (rnd E 0), cs_token_hash = sha token, cs_collective = trim_space collective,
           cs_task = ga_task g, cs_attempt = ga_attempt g, cs_fence = ga_fence g, cs_expires = ga_expires g,
           cs_visible = vs, cs_created = clk E 0, cs_revoked = None\<rparr>"
        and ins: "insert_session s d = Inr d'"
      from insert_session_Inr [OF ins] have fresh: "cs_token_hash s \<notin> cs_token_hash ` set (db_sessions d)"
        and d': "d' = d\<lparr>db_sessions := db_sessions d @ [s]\<rparr>" by simp_all
      note v = visible_ids_Inr [OF vs]
      have "\<exists>r \<in> set (db_capabilities d). cd_id r = snd x \<and> cd_name r = fst x" if x: "x \<in> set vs" for x
      proof -
        have "fst x \<in> set (normalizeNames visible)" using v x by (metis image_eqI set_map)
        then show ?thesis using v x normalizeNames_trimmed by metis
      qed
      moreover obtain a where "find_by a_id k (db_attempts d) = Some a" "a_task a = ga_task g" "a_fence a = ga_fence g" "ga_attempt g = k"
        using GuardAttempt_row [OF ok(1) g] by metis
      ultimately have new: "session_ok d' s" by (simp add: session_ok_def d' s)
      have old: "session_ok d' u" if "u \<in> set (db_sessions d)" for u
        using caps_okD(4) [OF ok(2) that] by (simp add: session_ok_def d')
      have "sessions_le (db_sessions d) (db_sessions d')"
        using sessions_le_refl [of "db_sessions d"] unfolding sessions_le_def d' by (auto simp: find_by_append)
      moreover have "exec_next d d'"
        using exec_next_cong [of d' d d] exec_next_refl [OF ok(1)] by (simp add: d')
      ultimately show ?thesis
        using caps_okD(1-3) [OF ok(2)] fresh new old by (simp add: Pair cap_next_def caps_ok_def d' ball_Un)
    qed
  qed
qed

lemma session_ok_revoked: "session_ok d (s\<lparr>cs_revoked := r\<rparr>) \<longleftrightarrow> session_ok d s"
  by (simp add: session_ok_def cong: option.case_cong)

lemma Revoke_next:
  assumes ok: "exec_ok d" "caps_ok d"
  shows "cap_next d (fst (Revoke sha now token d))"
proof (cases "nonblank token")
  case True
  let ?f = "\<lambda>s. s\<lparr>cs_revoked := (case cs_revoked s of None \<Rightarrow> Some now | Some r \<Rightarrow> Some r)\<rparr>"
  let ?rows = "update_where (\<lambda>s. cs_token_hash s = sha token) ?f (db_sessions d)"
  let ?d = "d\<lparr>db_sessions := ?rows\<rparr>"
  have keep: "map cs_token_hash ?rows = map cs_token_hash (db_sessions d)" by (rule map_key_update_where) simp
  have "sessions_le (db_sessions d) ?rows"
    unfolding sessions_le_def
  proof (intro allI impI)
    fix h s assume "find_by cs_token_hash h (db_sessions d) = Some s"
    then have "find_by cs_token_hash h ?rows = Some (if cs_token_hash s = sha token then ?f s else s)"
      by (subst find_by_update_where) simp_all
    then show "\<exists>r. find_by cs_token_hash h ?rows = Some (s\<lparr>cs_revoked := r\<rparr>) \<and> (cs_revoked s \<noteq> None \<longrightarrow> r = cs_revoked s)"
      by (cases "cs_token_hash s = sha token"; cases "cs_revoked s")
        (auto intro: exI [of _ "cs_revoked s"] exI [of _ "Some now"])
  qed
  moreover have "session_ok ?d u" if u: "u \<in> set ?rows" for u
  proof -
    obtain x where x: "x \<in> set (db_sessions d)" "u = (if cs_token_hash x = sha token then ?f x else x)"
      using u unfolding update_where_def by auto
    have "session_ok d x" "session_ok d (?f x)" using caps_okD(4) [OF ok(2) x(1)] by (simp_all add: session_ok_revoked)
    then have "session_ok ?d x" "session_ok ?d (?f x)" by (simp_all add: session_ok_def)
    then show ?thesis using x(2) by simp
  qed
  moreover have "exec_next d ?d" using exec_next_cong [of ?d d d] exec_next_refl [OF ok(1)] by simp
  ultimately have "cap_next d ?d" using caps_okD(1-3) [OF ok(2)] keep by (simp add: cap_next_def caps_ok_def)
  with True show ?thesis by (simp add: Revoke_def Let_def)
qed (simp add: Revoke_def cap_next_refl [OF ok])

lemma exec_step_cap_next:
  assumes "exec_ok d" "caps_ok d" "exec_step d d'"
  shows "cap_next d d'"
proof -
  have nxt: "exec_next d d'" using exec_step_next assms(1,3) by blast
  have same: "db_capabilities d' = db_capabilities d" "db_sessions d' = db_sessions d"
    using exec_onlyD [OF exec_step_only [OF assms(3)]] by simp_all
  have "session_ok d' s" if "s \<in> set (db_sessions d)" for s
    using session_ok_later [OF caps_okD(4) [OF assms(2) that]] nxt same by (simp add: exec_next_def)
  then show ?thesis using nxt same assms(2) by (simp add: cap_next_def caps_ok_def)
qed

inductive cap_step :: "db \<Rightarrow> db \<Rightarrow> bool" where
  cap_register: "cap_step d (fst (Register ps now raw d))"
| cap_assess: "cap_step d (fst (assess_one ps p E i name raw d))"
| cap_open: "cap_step d (fst (OpenSession ps sha token E collective k visible d))"
| cap_revoke: "cap_step d (fst (Revoke sha now token d))"
| cap_exec: "exec_step d d' \<Longrightarrow> cap_step d d'"

lemma cap_step_next: "cap_step d d' \<Longrightarrow> exec_ok d \<Longrightarrow> caps_ok d \<Longrightarrow> cap_next d d'"
  by (induction rule: cap_step.induct)
    (simp_all add: Register_next assess_one_next OpenSession_next Revoke_next exec_step_cap_next)

interpretation capabilities: kept_invariant cap_step "\<lambda>d. exec_ok d \<and> caps_ok d"
  by unfold_locales (auto dest: cap_step_next simp: cap_next_def exec_next_def)

lemma cap_run_next: "cap_step\<^sup>*\<^sup>* d d' \<Longrightarrow> exec_ok d \<Longrightarrow> caps_ok d \<Longrightarrow> cap_next d d'"
proof (induction rule: rtranclp_induct)
  case (step e f)
  then have "cap_next d e" by simp
  moreover from this have "cap_next e f"
    using step(2) cap_step_next by (simp add: cap_next_def exec_next_def)
  ultimately show ?case by (rule cap_next_trans)
qed (rule cap_next_refl)

text \<open>An assessment of a provider is a run of such steps, one for each definition it advertises.\<close>

lemma assess_all_run: "cap_step\<^sup>*\<^sup>* d (fst (assess_all ps p E i name raws d))"
proof (induction raws arbitrary: i d)
  case (Cons raw raws)
  let ?d = "fst (assess_one ps p E i name raw d)"
  have "cap_step d ?d" by (rule cap_assess)
  then have "cap_step\<^sup>*\<^sup>* d ?d" "cap_step\<^sup>*\<^sup>* d (fst (assess_all ps p E (Suc i) name raws ?d))"
    using Cons.IH by (auto intro: converse_rtranclp_into_rtranclp)
  then show ?case by (cases "assess_one ps p E i name raw d") (auto split: sum.split prod.split)
qed simp

lemma AssessProvider_run: "cap_step\<^sup>*\<^sup>* d (fst (AssessProvider ps E name d))"
  unfolding AssessProvider_def Let_def
  by (auto simp del: assess_all.simps intro: assess_all_run split: option.split sum.split list.split)

subsection \<open>What a call needs\<close>

lemma latest_last_greatest:
  "latest rows = Some a \<Longrightarrow> \<exists>older newer. rows = older @ a # newer \<and> (\<forall>y \<in> set older. formatTime (ca_at y) \<le> formatTime (ca_at a)) \<and>
     (\<forall>y \<in> set newer. formatTime (ca_at y) < formatTime (ca_at a))"
proof (induction rows arbitrary: a rule: rev_induct)
  case (snoc x xs)
  show ?case
  proof (cases "latest xs")
    case None
    then have "xs = []" by (cases xs rule: rev_cases) (auto simp: latest_def later_text_def split: option.splits if_splits)
    then have "xs @ [x] = [] @ a # []" using snoc.prems by (simp add: latest_def later_text_def)
    then show ?thesis by (intro exI [of _ "[]"]) simp
  next
    case (Some b)
    then have a: "a = (if formatTime (ca_at b) \<le> formatTime (ca_at x) then x else b)"
      using snoc.prems by (auto simp: latest_def later_text_def split: if_splits)
    obtain older newer where b: "xs = older @ b # newer" "\<forall>y \<in> set older. formatTime (ca_at y) \<le> formatTime (ca_at b)"
      "\<forall>y \<in> set newer. formatTime (ca_at y) < formatTime (ca_at b)" using snoc.IH [OF Some] by blast
    show ?thesis
    proof (cases "formatTime (ca_at b) \<le> formatTime (ca_at x)")
      case True
      then have "\<forall>y \<in> set xs. formatTime (ca_at y) \<le> formatTime (ca_at x)" using b by fastforce
      with True a show ?thesis by (intro exI [of _ xs] exI [of _ "[]"]) simp
    next
      case False
      with a b show ?thesis by (intro exI [of _ older] exI [of _ "newer @ [x]"]) auto
    qed
  qed
qed (simp add: latest_def)

text \<open>
  The newest of the assessments with a property: no other with it has a greater text of its time, and none that was stored after it has
  an equal one.
\<close>

definition newest_of :: "(cap_assessment_row \<Rightarrow> bool) \<Rightarrow> cap_assessment_row list \<Rightarrow> cap_assessment_row \<Rightarrow> bool" where
  "newest_of P rows a \<longleftrightarrow> P a \<and> (\<exists>older newer. rows = older @ a # newer \<and>
     (\<forall>y \<in> set older. P y \<longrightarrow> formatTime (ca_at y) \<le> formatTime (ca_at a)) \<and>
     (\<forall>y \<in> set newer. P y \<longrightarrow> formatTime (ca_at y) < formatTime (ca_at a)))"

lemma filter_split:
  "filter P xs = us @ a # vs \<Longrightarrow> \<exists>ls rs. xs = ls @ a # rs \<and> filter P ls = us \<and> filter P rs = vs \<and> P a"
proof (induction us arbitrary: xs)
  case Nil
  then obtain ks ms where "xs = ks @ a # ms" "\<forall>x \<in> set ks. \<not> P x" "P a" "vs = filter P ms" by (auto simp: filter_eq_Cons_iff)
  then show ?case by (intro exI [of _ ks] exI [of _ ms]) simp
next
  case (Cons u us)
  then obtain ks ms where "xs = ks @ u # ms" "\<forall>x \<in> set ks. \<not> P x" "P u" "filter P ms = us @ a # vs"
    by (auto simp: filter_eq_Cons_iff)
  moreover from Cons.IH [OF this(4)] obtain ls rs where "ms = ls @ a # rs" "filter P ls = us" "filter P rs = vs" "P a" by blast
  ultimately show ?case by (intro exI [of _ "ks @ u # ls"] exI [of _ rs]) auto
qed

lemma latest_newest:
  assumes "latest (filter P rows) = Some a"
  shows "newest_of P rows a"
proof -
  from latest_last_greatest [OF assms] obtain older newer where f: "filter P rows = older @ a # newer"
    and le: "\<forall>y \<in> set older. formatTime (ca_at y) \<le> formatTime (ca_at a)" "\<forall>y \<in> set newer. formatTime (ca_at y) < formatTime (ca_at a)"
    by blast
  from filter_split [OF f] obtain xs ys where xs: "rows = xs @ a # ys" "filter P xs = older" "filter P ys = newer" "P a"
    by blast
  have "\<forall>y \<in> set xs. P y \<longrightarrow> y \<in> set older" "\<forall>y \<in> set ys. P y \<longrightarrow> y \<in> set newer" using xs(2,3) by auto
  then show ?thesis using xs(1,4) le unfolding newest_of_def by (intro conjI exI [of _ xs] exI [of _ ys]) auto
qed

lemma latest_None: "latest rows = None \<longleftrightarrow> rows = []"
  by (cases rows rule: rev_cases) (auto simp: latest_def later_text_def split: option.split)

text \<open>The assessment that counts for a capability.\<close>

definition counts_for :: "db \<Rightarrow> ID \<Rightarrow> cap_assessment_row \<Rightarrow> bool" where
  "counts_for d k ca \<longleftrightarrow> newest_of (\<lambda>a. ca_capability a = k) (db_cap_assessments d) ca"

lemma counts_for_time:
  assumes "counts_for d k ca" and "y \<in> set (db_cap_assessments d)" and "ca_capability y = k"
    and "ca_at y < year_10000" and "0 \<le> ca_at ca"
  shows "ca_at y div 1000000000 \<le> ca_at ca div 1000000000"
proof (rule ccontr)
  assume "\<not> ?thesis"
  then have "formatTime (ca_at ca) < formatTime (ca_at y)" using formatTime_seconds [OF assms(5,4)] by simp
  moreover from assms(1) obtain older newer where "db_cap_assessments d = older @ ca # newer"
    "\<forall>y \<in> set older. ca_capability y = k \<longrightarrow> formatTime (ca_at y) \<le> formatTime (ca_at ca)"
    "\<forall>y \<in> set newer. ca_capability y = k \<longrightarrow> formatTime (ca_at y) < formatTime (ca_at ca)"
    unfolding counts_for_def newest_of_def by blast
  ultimately show False using assms(2,3) by fastforce
qed

definition observed_fit :: "db \<Rightarrow> task \<Rightarrow> capability_row \<Rightarrow> cap_assessment_row \<Rightarrow> bool" where
  "observed_fit d t r ca \<longleftrightarrow> counts_for d (cd_id r) ca \<and> ca_provider ca = cd_provider r \<and>
     ca_context ca = cd_context r \<and> ca_available ca \<and> ca_health ca \<noteq> HealthUnhealthy \<and>
     capability_rank (cd_minimum r) \<le> capability_rank (ca_enforcement ca) \<and>
     capability_rank (t_enforcement t) \<le> capability_rank (ca_enforcement ca)"

lemma ensureCurrentAssessmentEligible_Inr:
  assumes "ensureCurrentAssessmentEligible (definition_of r) \<lparr>tc_authority = au, tc_required = t_enforcement t\<rparr> d = Inr ()"
  shows "\<exists>ca. observed_fit d t r ca"
proof -
  obtain ca where ca: "latest (filter (\<lambda>a. ca_capability a = cd_id r) (db_cap_assessments d)) = Some ca"
    "ca_provider ca = cd_provider r" "ca_context ca = cd_context r" "ca_available ca" "ca_health ca \<noteq> HealthUnhealthy"
    "enforcementAtLeast (ca_enforcement ca) (cd_minimum r)" "enforcementAtLeast (ca_enforcement ca) (t_enforcement t)"
    using assms
    by (auto simp: ensureCurrentAssessmentEligible_def loadLatestAssessmentByCapability_def definition_of_def bind_simps split: sum.splits option.splits)
  have "counts_for d (cd_id r) ca" unfolding counts_for_def by (rule latest_newest [OF ca(1)])
  with ca show ?thesis by (auto simp: observed_fit_def enforcementAtLeast_def)
qed

lemma Call_sent:
  assumes "Call ps sha E answer token name request e d = (d', sent, out)" and "sent \<noteq> []"
  obtains k g target where "GuardAttempt (clk E 1) k [TaskExecuting] d = Inr g"
    "admit_call ps (clk E 2) (sha token) (trim_space name) g d = Inr target"
    "sent = [(fst target, snd target, request)]" "d' = d"
proof -
  obtain s where s: "loadSession (sha token) e = Inr s"
    using assms by (auto simp: Call_def Let_def split: if_splits sum.splits)
  let ?tx = "with_tx (\<lambda>d. bindE (GuardAttempt (clk E 1) (cs_attempt s) [TaskExecuting] d) (\<lambda>g.
                   bindE (admit_call ps (clk E 2) (sha token) (trim_space name) g d) (\<lambda>target. Inr (target, d)))) d"
  obtain target where "?tx = (d', Inr target)" "sent = [(fst target, snd target, request)]"
    using assms s by (auto simp: Call_def Let_def split: if_splits sum.splits prod.splits)
  then show thesis using that by (auto simp: with_tx_Inr_iff bindE_Inr_iff)
qed

lemma admit_call_Inr:
  assumes "admit_call ps now h name g d = Inr target"
  obtains s r t ca where "find_by cs_token_hash h (db_sessions d) = Some s" "cs_revoked s = None" "now < cs_expires s"
    "cs_task s = ga_task g" "cs_attempt s = ga_attempt g" "cs_fence s = ga_fence g"
    "(name, cd_id r) \<in> set (cs_visible s)" "r \<in> set (db_capabilities d)" "find_by t_id (ga_task g) (db_tasks d) = Some t"
    "set (cd_authority r) \<subseteq> set (t_authority t)" "observed_fit d t r ca" "registry_provider ps (cd_provider r) \<noteq> None"
    "target = (cd_provider r, cd_name r)"
proof -
  obtain s where s: "find_by cs_token_hash h (db_sessions d) = Some s" "cs_revoked s = None"
    using assms by (auto simp: admit_call_def loadSession_def bindE_Inr_iff split: option.splits if_splits)
  then have load: "loadSession h d = Inr s" by (simp add: loadSession_def)
  have own: "cs_task s = ga_task g" "cs_attempt s = ga_attempt g" "cs_fence s = ga_fence g" "now < cs_expires s"
    using assms by (simp_all add: admit_call_def load bind_simps)
  obtain k where k: "map_of (cs_visible s) name = Some k"
    using assms by (auto simp: admit_call_def load bind_simps split: option.splits)
  obtain r where r: "find_by cd_id k (db_capabilities d) = Some r"
    using assms by (auto simp: admit_call_def load bind_simps k definitionByIDTx_def split: option.splits)
  obtain t where t: "find_by t_id (ga_task g) (db_tasks d) = Some t"
    using assms by (auto simp: admit_call_def load bind_simps k loadTaskCapabilityControl_def split: option.splits)
  have last: "authorityContains (t_authority t) (cd_authority r)" "registry_provider ps (cd_provider r) \<noteq> None"
    "ensureCurrentAssessmentEligible (definition_of r) \<lparr>tc_authority = t_authority t, tc_required = t_enforcement t\<rparr> d = Inr ()"
    "target = (cd_provider r, cd_name r)"
    using assms r t
    by (simp_all add: admit_call_def load bind_simps k definitionByIDTx_def loadTaskCapabilityControl_def definition_of_def)
  obtain ca where "observed_fit d t r ca" using ensureCurrentAssessmentEligible_Inr [OF last(3)] by blast
  moreover have "set (cd_authority r) \<subseteq> set (t_authority t)" using last(1) by (auto simp: authorityContains_def list_all_iff)
  moreover have "(name, cd_id r) \<in> set (cs_visible s)" "r \<in> set (db_capabilities d)"
    using map_of_SomeD [OF k] find_by_SomeD [OF r] by auto
  ultimately show thesis using s own t last that by blast
qed

subsection \<open>A registry to evaluate on\<close>

definition demo_definition :: Definition where
  "demo_definition = \<lparr>de_id = ''cap1'', de_name = ''repo.read'', de_version = ''1'', de_provider = ''git'', de_context = ''local'',
     de_authority = ['' read ''], de_minimum = EnforcementPartial\<rparr>"

definition demo_probe :: "Health \<Rightarrow> ProbeResult" where
  "demo_probe h = \<lparr>pb_enforcement = EnforcementPartial, pb_evidence = [''probe''], pb_cost = Some ''{}'', pb_health = h, pb_available = True\<rparr>"

definition demo_provider :: "Health \<Rightarrow> cap_provider" where
  "demo_provider h = \<lparr>cp_name = ''git'', cp_advertise = Some (Inr [demo_definition]), cp_probe = (\<lambda>_ _. Inr (demo_probe h))\<rparr>"

definition demo_at :: "gtime \<Rightarrow> string \<Rightarrow> env" where
  "demo_at now r = \<lparr>clk = (\<lambda>_. now), rnd = (\<lambda>_. r)\<rparr>"

definition demo_assessed_provider :: db where
  "demo_assessed_provider = fst (AssessProvider [demo_provider HealthHealthy] (demo_at 12 ''1'') ''git'' demo_started)"

definition demo_open_session :: db where
  "demo_open_session = fst (OpenSession [demo_provider HealthHealthy] (\<lambda>s. s) ''token'' (demo_at 20 ''1'') ''c'' ''attempt_1''
     ['' repo.read ''] demo_assessed_provider)"

definition demo_revoked :: db where
  "demo_revoked = fst (Revoke (\<lambda>s. s) 30 ''token'' demo_open_session)"

lemma demo_started_caps: "caps_ok demo_started"
  by code_simp

lemma demo_session_run: "cap_step\<^sup>*\<^sup>* demo_started demo_open_session"
proof -
  have "cap_step\<^sup>*\<^sup>* demo_started demo_assessed_provider"
    unfolding demo_assessed_provider_def by (rule AssessProvider_run)
  moreover have "cap_step demo_assessed_provider demo_open_session"
    unfolding demo_open_session_def by (rule cap_open)
  ultimately show ?thesis by (rule rtranclp.rtrancl_into_rtrancl)
qed

subsection \<open>Properties\<close>

text \<open>
  C11. No capability is called without authority: whenever \<open>Session.Call\<close> sends a request, it sends only that request,
  to a registered provider and under the name that was asked for, and the token names a session that is neither revoked
  nor expired, whose attempt is the current one of its task under its fence with an active lease, while the
  task is EXECUTING; the session was opened with that name, the task still holds every authority the definition requires,
  and the assessment that counts, the last stored one of those with the greatest text of their time, so that none of a later second is left
  out, observed the definition's access path as available, not unhealthy, and enforced at least as the definition and the task require. The
  store stays as it was.
\<close>

theorem Call_is_authorized:
  assumes "cap_step\<^sup>*\<^sup>* d0 d" and "exec_ok d0" and "caps_ok d0"
    and "Call ps sha E answer token name request e d = (d', sent, out)" and "sent \<noteq> []"
  shows "d' = d \<and> (\<exists>s a t r ca. sent = [(cd_provider r, trim_space name, request)] \<and> registry_provider ps (cd_provider r) \<noteq> None \<and>
    find_by cs_token_hash (sha token) (db_sessions d) = Some s \<and> cs_revoked s = None \<and> clk E 2 < cs_expires s \<and>
    find_by a_id (cs_attempt s) (db_attempts d) = Some a \<and> a_lease a = LeaseActive \<and> clk E 1 < a_expires a \<and>
    find_by t_id (cs_task s) (db_tasks d) = Some t \<and> t_state t = TaskExecuting \<and>
    t_attempt t = Some (cs_attempt s) \<and> t_fence t = cs_fence s \<and>
    (trim_space name, cd_id r) \<in> set (cs_visible s) \<and> r \<in> set (db_capabilities d) \<and>
    set (cd_authority r) \<subseteq> set (t_authority t) \<and> observed_fit d t r ca \<and>
    (\<forall>y \<in> set (db_cap_assessments d). ca_capability y = cd_id r \<and> ca_at y < year_10000 \<and> 0 \<le> ca_at ca \<longrightarrow>
       ca_at y div 1000000000 \<le> ca_at ca div 1000000000))"
proof -
  have inv: "exec_ok d" "caps_ok d" using capabilities.reach_inv assms(1-3) by blast+
  obtain k g target where g: "GuardAttempt (clk E 1) k [TaskExecuting] d = Inr g"
    and admit: "admit_call ps (clk E 2) (sha token) (trim_space name) g d = Inr target"
    and sent: "sent = [(fst target, snd target, request)]" "d' = d"
    using Call_sent [OF assms(4,5)] by blast
  obtain s r t ca where s: "find_by cs_token_hash (sha token) (db_sessions d) = Some s" "cs_revoked s = None" "clk E 2 < cs_expires s"
    "cs_task s = ga_task g" "cs_attempt s = ga_attempt g" "cs_fence s = ga_fence g" "(trim_space name, cd_id r) \<in> set (cs_visible s)"
    and r: "r \<in> set (db_capabilities d)" "set (cd_authority r) \<subseteq> set (t_authority t)" "observed_fit d t r ca"
      "registry_provider ps (cd_provider r) \<noteq> None" "target = (cd_provider r, cd_name r)"
    and t: "find_by t_id (ga_task g) (db_tasks d) = Some t"
    using admit_call_Inr [OF admit] by metis
  have "\<exists>x \<in> set (db_capabilities d). cd_id x = cd_id r \<and> cd_name x = trim_space name"
    using caps_okD(4) [OF inv(2)] find_by_SomeD [OF s(1)] s(7) by (fastforce simp: session_ok_def)
  then have name: "cd_name r = trim_space name"
    using find_by_only [OF caps_okD(1) [OF inv(2)] find_by_member [OF caps_okD(1) [OF inv(2)] r(1)]] by metis
  have newest: "\<forall>y \<in> set (db_cap_assessments d). ca_capability y = cd_id r \<and> ca_at y < year_10000 \<and> 0 \<le> ca_at ca \<longrightarrow>
       ca_at y div 1000000000 \<le> ca_at ca div 1000000000"
    using r(3) counts_for_time unfolding observed_fit_def by blast
  from inv(1) g obtain a where "find_by a_id (cs_attempt s) (db_attempts d) = Some a" "a_lease a = LeaseActive" "clk E 1 < a_expires a"
    "t_state t = TaskExecuting" "t_attempt t = Some (cs_attempt s)" "t_fence t = cs_fence s"
    by (rule GuardAttempt_row) (use s t in auto)
  then show ?thesis using s r t sent name newest
    by (intro conjI exI [of _ s] exI [of _ a] exI [of _ t] exI [of _ r] exI [of _ ca]) simp_all
qed

lemma Call_is_authorized_witness:
  "\<exists>s t. find_by cs_token_hash ''token'' (db_sessions demo_open_session) = Some s \<and> cs_revoked s = None \<and>
    find_by t_id (cs_task s) (db_tasks demo_open_session) = Some t \<and> t_state t = TaskExecuting"
proof -
  have run: "Call [demo_provider HealthHealthy] (\<lambda>s. s) (demo_at 25 []) (\<lambda>p n q. Inr (p, n)) ''token'' '' repo.read'' ''q''
      demo_open_session demo_open_session =
      (demo_open_session, [(''git'', ''repo.read'', ''q'')], Inr (''git'', ''repo.read''))"
    by code_simp
  from Call_is_authorized [OF demo_session_run demo_started_ok demo_started_caps run] show ?thesis by auto
qed

text \<open>
  C12. A session dies for good: once it is revoked, or the lease of its attempt has ended, or its task has moved on to
  another fence, no later call with its token sends anything, whatever calls come between, also when the lease is renewed,
  the capability is registered again or the provider assessed anew.
\<close>

theorem dead_session_sends_nothing:
  assumes "cap_step\<^sup>*\<^sup>* d0 d" and "exec_ok d0" and "caps_ok d0"
    and "find_by cs_token_hash (sha token) (db_sessions d) = Some s"
    and "cs_revoked s \<noteq> None \<or> (\<exists>a. find_by a_id (cs_attempt s) (db_attempts d) = Some a \<and> a_lease a \<noteq> LeaseActive) \<or>
      (\<exists>t. find_by t_id (cs_task s) (db_tasks d) = Some t \<and> cs_fence s < t_fence t)"
    and "cap_step\<^sup>*\<^sup>* d d2"
  shows "fst (snd (Call ps sha E answer token name request e d2)) = []"
proof (rule ccontr)
  obtain d' sent out where run: "Call ps sha E answer token name request e d2 = (d', sent, out)" by (cases "Call ps sha E answer token name request e d2")
  assume "fst (snd (Call ps sha E answer token name request e d2)) \<noteq> []"
  then have ne: "sent \<noteq> []" using run by simp
  obtain k g target where g: "GuardAttempt (clk E 1) k [TaskExecuting] d2 = Inr g"
    and admit: "admit_call ps (clk E 2) (sha token) (trim_space name) g d2 = Inr target"
    using Call_sent [OF run ne] by metis
  obtain s2 where s2: "find_by cs_token_hash (sha token) (db_sessions d2) = Some s2" "cs_revoked s2 = None"
    "cs_attempt s2 = ga_attempt g" using admit_call_Inr [OF admit] by metis
  have inv: "exec_ok d" "caps_ok d" using capabilities.reach_inv assms(1-3) by blast+
  have nxt: "exec_next d d2" "sessions_le (db_sessions d) (db_sessions d2)"
    using cap_run_next [OF assms(6) inv] by (simp_all add: cap_next_def)
  then have le: "exec_le d d2" and ok2: "exec_ok d2" by (simp_all add: exec_next_def)
  from nxt(2) assms(4) s2 have same: "cs_attempt s2 = cs_attempt s" "cs_revoked s = None"
    unfolding sessions_le_def by fastforce+
  have k: "k = cs_attempt s" using GuardAttempt_row [OF ok2 g] s2(3) same(1) by metis
  have ses: "session_ok d s" using caps_okD(4) [OF inv(2)] find_by_SomeD [OF assms(4)] by blast
  then obtain a where a: "find_by a_id k (db_attempts d) = Some a" "a_task a = cs_task s" "a_fence a = cs_fence s"
    by (auto simp: session_ok_def k split: option.splits)
  from assms(5) same(2) consider "a_lease a \<noteq> LeaseActive" | t where "find_by t_id (cs_task s) (db_tasks d) = Some t" "cs_fence s < t_fence t"
    using a(1) k by auto
  then show False
  proof cases
    case 1
    from ended_lease_is_refused [OF le a(1) this, of "clk E 1" "[TaskExecuting]"] g show ?thesis by auto
  next
    case (2 t)
    from superseded_attempt_is_stale [OF le a(1), of t "clk E 1" "[TaskExecuting]"] 2 a g show ?thesis by simp
  qed
qed

lemma dead_session_sends_nothing_witness:
  "fst (snd (Call [demo_provider HealthHealthy] (\<lambda>s. s) (demo_at 25 []) (\<lambda>p n q. Inr (p, n)) ''token'' ''repo.read'' ''q''
     demo_open_session demo_revoked)) = []"
proof -
  have "cap_step demo_open_session demo_revoked" unfolding demo_revoked_def by (rule cap_revoke)
  with demo_session_run have run: "cap_step\<^sup>*\<^sup>* demo_started demo_revoked" by (rule rtranclp.rtrancl_into_rtrancl)
  have rows: "map (\<lambda>s. (cs_token_hash s, cs_revoked s)) (db_sessions demo_revoked) = [(''token'', Some 30)]" by code_simp
  then obtain s where "db_sessions demo_revoked = [s]" "cs_token_hash s = ''token''" "cs_revoked s = Some 30"
    by (auto simp: map_eq_Cons_conv)
  then have "find_by cs_token_hash ''token'' (db_sessions demo_revoked) = Some s" "cs_revoked s \<noteq> None"
    by (simp_all add: find_by_Cons)
  with dead_session_sends_nothing [OF run demo_started_ok demo_started_caps, of "\<lambda>s. s" "''token''" s demo_revoked]
  show ?thesis by simp
qed

text \<open>
  The assessment that counts may be an older one. A capability is assessed as healthy at a whole second, and half a
  second later as unhealthy: the stored texts order the other way round, so \<open>LatestAssessment\<close> still
  returns the healthy one, and a session that is open may call the capability, at any later time.
\<close>

theorem stale_assessment_wins:
  "\<exists>d. cap_step\<^sup>*\<^sup>* demo_open_session d \<and>
     map (\<lambda>a. (ca_at a, ca_health a)) (db_cap_assessments d) = [(12, HealthHealthy), (1000000000, HealthHealthy), (1500000000, HealthUnhealthy)] \<and>
     map_sum id (\<lambda>a. (ca_at a, ca_health a)) (LatestAssessment ''repo.read'' d) = Inr (1000000000, HealthHealthy)"
proof -
  let ?d1 = "fst (AssessProvider [demo_provider HealthHealthy] (demo_at 1000000000 ''2'') ''git'' demo_open_session)"
  let ?d2 = "fst (AssessProvider [demo_provider HealthUnhealthy] (demo_at 1500000000 ''3'') ''git'' ?d1)"
  have run: "cap_step\<^sup>*\<^sup>* demo_open_session ?d2"
    using AssessProvider_run by (rule rtranclp_trans) (rule AssessProvider_run)
  have rows: "map (\<lambda>a. (ca_at a, ca_health a)) (db_cap_assessments ?d2) =
      [(12, HealthHealthy), (1000000000, HealthHealthy), (1500000000, HealthUnhealthy)]" by code_simp
  have "map_sum id (\<lambda>a. (ca_at a, ca_health a)) (LatestAssessment ''repo.read'' ?d2) = Inr (1000000000, HealthHealthy)"
    by code_simp
  with run rows show ?thesis by (intro exI [of _ ?d2] conjI)
qed

text \<open>
  A second flaw, in the registry: an identifier that is registered again with another name and the same version is
  accepted, but it stays under its old name, and the definition that was active under the new name is active no more.
\<close>

lemma registered_under_another_name:
  "\<exists>d. snd (Register [demo_provider HealthHealthy] 3 (demo_definition\<lparr>de_name := ''other''\<rparr>) d) = Inr () \<and>
     map (\<lambda>r. (cd_id r, cd_name r, cd_active r)) (db_capabilities d) = [(''cap1'', ''repo.read'', True), (''cap2'', ''other'', True)] \<and>
     map (\<lambda>r. (cd_id r, cd_name r, cd_active r))
       (db_capabilities (fst (Register [demo_provider HealthHealthy] 3 (demo_definition\<lparr>de_name := ''other''\<rparr>) d))) =
       [(''cap1'', ''repo.read'', True), (''cap2'', ''other'', False)]"
  by (rule exI [of _ "fst (Register [demo_provider HealthHealthy] 2 (demo_definition\<lparr>de_name := ''other'', de_id := ''cap2''\<rparr>)
        (fst (Register [demo_provider HealthHealthy] 1 demo_definition empty_db)))"]) code_simp

end
