(* ===== verification/Run_Manifest.thy ===== *)
theory Run_Manifest
  imports Capabilities Resources "HOL-Library.Countable"
begin

text \<open>
  Run manifests (\<open>internal/runmanifest\<close>) and the profiles of execution boundaries they quote
  (\<open>internal/teb/profile.go\<close>). The service is an attempt start recorder of the execution service: it
  describes an attempt in the transaction that creates it. JSON and SHA-256 are arguments.
\<close>

subsection \<open>Profiles\<close>

datatype Guarantee =
    GuaranteeReadOnlyRoot | GuaranteeNonRoot | GuaranteeNoNewPrivileges | GuaranteeCapabilitiesDropped
  | GuaranteePIDLimit | GuaranteeMemoryLimit | GuaranteeCPULimit | GuaranteeNetworkIsolated
  | GuaranteeWorkspaceOnlyWrite | GuaranteeNoAmbientCredentials | GuaranteeNoContainerSocket
  | GuaranteeModelEgressMediated | GuaranteeOther string

fun guarantee_text :: "Guarantee \<Rightarrow> string" where
  "guarantee_text GuaranteeReadOnlyRoot = ''READ_ONLY_ROOT''"
| "guarantee_text GuaranteeNonRoot = ''NON_ROOT''"
| "guarantee_text GuaranteeNoNewPrivileges = ''NO_NEW_PRIVILEGES''"
| "guarantee_text GuaranteeCapabilitiesDropped = ''CAPABILITIES_DROPPED''"
| "guarantee_text GuaranteePIDLimit = ''PID_LIMIT''"
| "guarantee_text GuaranteeMemoryLimit = ''MEMORY_LIMIT''"
| "guarantee_text GuaranteeCPULimit = ''CPU_LIMIT''"
| "guarantee_text GuaranteeNetworkIsolated = ''NETWORK_ISOLATED''"
| "guarantee_text GuaranteeWorkspaceOnlyWrite = ''WORKSPACE_ONLY_WRITE''"
| "guarantee_text GuaranteeNoAmbientCredentials = ''NO_AMBIENT_CREDENTIALS''"
| "guarantee_text GuaranteeNoContainerSocket = ''NO_CONTAINER_SOCKET''"
| "guarantee_text GuaranteeModelEgressMediated = ''MODEL_EGRESS_MEDIATED''"
| "guarantee_text (GuaranteeOther s) = s"

text \<open>A Go map from guarantees to booleans that may be nil: an association list, read with \<open>map_of\<close>.\<close>

record Profile =
  tp_name :: string
  tp_level :: enforcement_level
  tp_guarantees :: "(Guarantee \<times> bool) list option"

definition guaranteeSet :: "Guarantee list \<Rightarrow> (Guarantee \<times> bool) list" where
  "guaranteeSet gs = map (\<lambda>g. (g, True)) (remdups gs)"

definition enforcedOfflineGuarantees :: "Guarantee list" where
  "enforcedOfflineGuarantees =
     [GuaranteeReadOnlyRoot, GuaranteeNonRoot, GuaranteeNoNewPrivileges, GuaranteeCapabilitiesDropped, GuaranteePIDLimit,
      GuaranteeMemoryLimit, GuaranteeCPULimit, GuaranteeNetworkIsolated, GuaranteeWorkspaceOnlyWrite,
      GuaranteeNoAmbientCredentials, GuaranteeNoContainerSocket]"

definition EnforcedOfflineProfile :: Profile where
  "EnforcedOfflineProfile = \<lparr>tp_name = ''oci-offline-strong'', tp_level = EnforcementEnforced,
     tp_guarantees = Some (guaranteeSet
       [GuaranteeReadOnlyRoot, GuaranteeNonRoot, GuaranteeNoNewPrivileges, GuaranteeCapabilitiesDropped, GuaranteePIDLimit,
        GuaranteeMemoryLimit, GuaranteeCPULimit, GuaranteeNetworkIsolated, GuaranteeWorkspaceOnlyWrite,
        GuaranteeNoAmbientCredentials, GuaranteeNoContainerSocket])\<rparr>"

definition EnforcedProxyProfile :: Profile where
  "EnforcedProxyProfile = \<lparr>tp_name = ''oci-proxy-strong'', tp_level = EnforcementEnforced,
     tp_guarantees = Some (guaranteeSet
       [GuaranteeReadOnlyRoot, GuaranteeNonRoot, GuaranteeNoNewPrivileges, GuaranteeCapabilitiesDropped, GuaranteePIDLimit,
        GuaranteeMemoryLimit, GuaranteeCPULimit, GuaranteeNetworkIsolated, GuaranteeWorkspaceOnlyWrite,
        GuaranteeNoAmbientCredentials, GuaranteeNoContainerSocket, GuaranteeModelEgressMediated])\<rparr>"

definition PartialProfile :: "string \<Rightarrow> Guarantee list \<Rightarrow> Profile" where
  "PartialProfile name gs = \<lparr>tp_name = name, tp_level = EnforcementPartial, tp_guarantees = Some (guaranteeSet gs)\<rparr>"

definition UnenforcedProfile :: "string \<Rightarrow> Profile" where
  "UnenforcedProfile name = \<lparr>tp_name = name, tp_level = EnforcementUnenforced, tp_guarantees = Some []\<rparr>"

definition guaranteed :: "(Guarantee \<times> bool) list \<Rightarrow> Guarantee \<Rightarrow> bool" where
  "guaranteed gs g \<longleftrightarrow> map_of gs g = Some True"

definition Validate_profile :: "Profile \<Rightarrow> unit res" where
  "Validate_profile p =
     bindE (requireE (valid_enforcement (tp_level p)) (Err ''invalid TEB enforcement level'')) (\<lambda>_.
     case tp_guarantees p of
       None \<Rightarrow> Inl (Err ''TEB profile has no guarantee map'')
     | Some gs \<Rightarrow>
         requireE (tp_level p = EnforcementEnforced \<longrightarrow> list_all (guaranteed gs) enforcedOfflineGuarantees)
           (Err ''ENFORCED profile is missing a guarantee''))"

subsection \<open>Manifests\<close>

record BuildMetadata =
  bm_version :: string
  bm_commit :: string

record PolicySnapshot =
  ps_set :: ID
  ps_hash :: string
  ps_caps_hash :: string

record StaticContext =
  sc_build :: BuildMetadata
  sc_policy :: PolicySnapshot
  sc_profile :: Profile

record TEBSnapshot =
  ts_name :: string
  ts_level :: enforcement_level
  ts_guarantees :: "string list"

record CapabilitySnapshot =
  sn_name :: string
  sn_capability :: ID
  sn_version :: string
  sn_provider :: string
  sn_context :: string
  sn_minimum :: enforcement_level
  sn_assessment :: ID
  sn_observed :: enforcement_level
  sn_health :: "Health option"
  sn_available :: "bool option"
  sn_at :: "gtime option"

record Manifest =
  mf_version :: int
  mf_task :: ID
  mf_objective :: string
  mf_payload_hash :: string
  mf_attempt :: ID
  mf_fence :: int
  mf_executor :: string
  mf_runtime :: BuildMetadata
  mf_policy :: PolicySnapshot
  mf_teb :: TEBSnapshot
  mf_capabilities :: "CapabilitySnapshot list"
  mf_envelope :: ID
  mf_started :: gtime

record manifest_codec =
  mc_encode :: "Manifest \<Rightarrow> string"
  mc_decode :: "string \<Rightarrow> Manifest res"
  mc_sha :: "string \<Rightarrow> string"

definition manifestVersion :: int where
  "manifestVersion = 1"

text \<open>\<open>New\<close> trims the strings of its context.\<close>

definition New_manifests :: "StaticContext \<Rightarrow> StaticContext" where
  "New_manifests c = \<lparr>
     sc_build = \<lparr>bm_version = trim_space (bm_version (sc_build c)), bm_commit = trim_space (bm_commit (sc_build c))\<rparr>,
     sc_policy = \<lparr>ps_set = trim_space (ps_set (sc_policy c)), ps_hash = trim_space (ps_hash (sc_policy c)),
                  ps_caps_hash = trim_space (ps_caps_hash (sc_policy c))\<rparr>,
     sc_profile = (sc_profile c)\<lparr>tp_name := trim_space (tp_name (sc_profile c))\<rparr>\<rparr>"

definition validPolicySnapshot :: "PolicySnapshot \<Rightarrow> bool" where
  "validPolicySnapshot p \<longleftrightarrow>
     (let count = (if ps_set p \<noteq> [] then 1 else 0) + (if ps_hash p \<noteq> [] then 1 else 0) + (if ps_caps_hash p \<noteq> [] then 1 else (0::nat)) in
      count = 0 \<or> count = 3)"

definition no_capability :: "string \<Rightarrow> CapabilitySnapshot" where
  "no_capability name = \<lparr>sn_name = name, sn_capability = [], sn_version = [], sn_provider = [], sn_context = [],
     sn_minimum = no_enforcement, sn_assessment = [], sn_observed = no_enforcement, sn_health = None,
     sn_available = None, sn_at = None\<rparr>"

definition capability_snapshot :: "db \<Rightarrow> string \<Rightarrow> CapabilitySnapshot" where
  "capability_snapshot d name =
     (case find (\<lambda>r. cd_name r = name \<and> cd_active r) (db_capabilities d) of
        None \<Rightarrow> no_capability name
      | Some r \<Rightarrow>
          let s = (no_capability name)\<lparr>sn_capability := cd_id r, sn_version := cd_version r, sn_provider := cd_provider r,
                     sn_context := cd_context r, sn_minimum := cd_minimum r\<rparr> in
          case latest (filter (\<lambda>a. ca_capability a = cd_id r \<and> ca_provider a = cd_provider r \<and> ca_context a = cd_context r)
                  (db_cap_assessments d)) of
            None \<Rightarrow> s
          | Some a \<Rightarrow> s\<lparr>sn_assessment := ca_id a, sn_observed := ca_enforcement a, sn_health := Some (ca_health a),
                         sn_available := Some (ca_available a), sn_at := Some (ca_at a)\<rparr>)"

definition loadCapabilitySnapshots :: "string list \<Rightarrow> db \<Rightarrow> CapabilitySnapshot list" where
  "loadCapabilitySnapshots names d = map (capability_snapshot d) (sort (normalizeNames names))"

definition guarantees_text :: "(Guarantee \<times> bool) list \<Rightarrow> string list" where
  "guarantees_text gs = sort (map guarantee_text (filter (guaranteed gs) (remdups (map fst gs))))"

definition manifest_of :: "manifest_codec \<Rightarrow> StaticContext \<Rightarrow> attempt \<Rightarrow> task \<Rightarrow> db \<Rightarrow> Manifest" where
  "manifest_of C S a t d =
     \<lparr>mf_version = manifestVersion, mf_task = t_id t, mf_objective = t_objective t, mf_payload_hash = mc_sha C (t_payload t),
      mf_attempt = a_id a, mf_fence = a_fence a, mf_executor = trim_space (a_executor a), mf_runtime = sc_build S,
      mf_policy = sc_policy S,
      mf_teb = \<lparr>ts_name = tp_name (sc_profile S), ts_level = tp_level (sc_profile S),
        ts_guarantees = guarantees_text (case tp_guarantees (sc_profile S) of None \<Rightarrow> [] | Some gs \<Rightarrow> gs)\<rparr>,
      mf_capabilities = loadCapabilitySnapshots (t_capabilities t) d, mf_envelope = t_envelope t, mf_started = a_started a\<rparr>"

text \<open>A manifest of an attempt is inserted once: a second one aborts in the trigger.\<close>

definition insert_manifest :: "manifest_row \<Rightarrow> manifest_row list \<Rightarrow> manifest_row list res" where
  "insert_manifest r rows =
     bindE (requireE (\<not> exists_where (\<lambda>x. rm_attempt x = rm_attempt r) rows)
       (ErrConstraint ''attempt run manifests are immutable'')) (\<lambda>_. Inr (rows @ [r]))"

definition RecordAttemptStartInTx :: "manifest_codec \<Rightarrow> StaticContext \<Rightarrow> start_recorder" where
  "RecordAttemptStartInTx C S a t d =
     bindE (requireE (a_id a \<noteq> [] \<and> a_task a \<noteq> [] \<and> a_task a = t_id t \<and> a_fence a > 0)
       (Err ''attempt run manifest requires a valid Attempt and matching Task'')) (\<lambda>_.
     bindE (requireE (nonblank (a_executor a) \<and> a_started a \<noteq> 0)
       (Err ''attempt run manifest requires executor kind and start time'')) (\<lambda>_.
     bindE (Validate_profile (sc_profile S)) (\<lambda>_.
     bindE (requireE (validPolicySnapshot (sc_policy S))
       (Err ''attempt run manifest policy provenance must be either complete or absent'')) (\<lambda>_.
     let encoded = mc_encode C (manifest_of C S a t d) in
     insert_manifest \<lparr>rm_attempt = a_id a, rm_task = t_id t, rm_hash = mc_sha C encoded, rm_json = encoded, rm_created = a_started a\<rparr>
       (db_manifests d)))))"

record Record =
  rc_attempt :: ID
  rc_task :: ID
  rc_hash :: string
  rc_json :: string
  rc_manifest :: Manifest
  rc_created :: gtime

definition ErrManifestNotFound :: go_error where
  "ErrManifestNotFound = Err ''run manifest not found''"

definition ErrManifestIncomplete :: go_error where
  "ErrManifestIncomplete = Err ''run manifest provenance is incomplete''"

definition Read_manifest :: "manifest_codec \<Rightarrow> ID \<Rightarrow> db \<Rightarrow> Record res" where
  "Read_manifest C raw d =
     (let k = trim_space raw in
      bindE (requireE (k \<noteq> []) (Err ''attempt id is required'')) (\<lambda>_.
      case find_by rm_attempt k (db_manifests d) of
        None \<Rightarrow> Inl ErrManifestNotFound
      | Some r \<Rightarrow>
          bindE (requireE (mc_sha C (rm_json r) = rm_hash r) (Err ''attempt run manifest hash mismatch'')) (\<lambda>_.
          bindE (mc_decode C (rm_json r)) (\<lambda>m.
          bindE (requireE (mf_version m = manifestVersion \<and> mf_attempt m = rm_attempt r \<and> mf_task m = rm_task r)
            (Err ''attempt run manifest identity mismatch'')) (\<lambda>_.
          Inr \<lparr>rc_attempt = rm_attempt r, rc_task = rm_task r, rc_hash = rm_hash r, rc_json = rm_json r,
               rc_manifest = m, rc_created = rm_created r\<rparr>)))))"

subsection \<open>Provenance\<close>

record Provenance =
  pv_run :: Record
  pv_evidence :: "(ID \<times> string) list"
  pv_settled :: "int option"

definition outputEvidenceIDs :: "ID \<Rightarrow> db \<Rightarrow> ID list res" where
  "outputEvidenceIDs k d =
     (let completion = find_by co_attempt k (db_completions d);
          done = (case completion of None \<Rightarrow> [] | Some c \<Rightarrow> co_evidence c);
          failed = concat (map f_evidence (filter (\<lambda>f. f_attempt f = k) (db_failures d)));
          ids = filter (\<lambda>i. i \<noteq> []) (done @ failed) in
      if completion = None \<and> ids = [] then Inl ErrManifestIncomplete
      else Inr (distinct_sorted ids))"

fun output_evidence :: "ID list \<Rightarrow> db \<Rightarrow> (ID \<times> string) list res" where
  "output_evidence [] d = Inr []"
| "output_evidence (k # ks) d =
     (case find_by evi_id k (db_evidence d) of
        None \<Rightarrow> Inl (Err ''output evidence is not present in canonical evidence'')
      | Some e \<Rightarrow> bindE (output_evidence ks d) (\<lambda>rest. Inr ((k, evi_hash e) # rest)))"

definition settled_amounts :: "ID \<Rightarrow> db \<Rightarrow> int list" where
  "settled_amounts k d =
     concat (map (\<lambda>x. List.map_filter (\<lambda>r. if r_id r = o_reservation x \<and> r_state r = ReservationSettled then r_settled r else None)
       (db_reservations d)) (filter (\<lambda>x. o_attempt x = k) (db_ops d)))"

definition Read_provenance :: "manifest_codec \<Rightarrow> ID \<Rightarrow> db \<Rightarrow> Provenance res" where
  "Read_provenance C k d =
     bindE (Read_manifest C k d) (\<lambda>run.
     bindE (outputEvidenceIDs k d) (\<lambda>ids.
     bindE (output_evidence ids d) (\<lambda>evidence.
     let amounts = settled_amounts k d in
     bindE (sql_sum (sum_list amounts)) (\<lambda>total.
     Inr \<lparr>pv_run = run, pv_evidence = evidence, pv_settled = (if amounts = [] then None else Some total)\<rparr>))))"

subsection \<open>Every attempt has its manifest\<close>

text \<open>
  The execution service with this recorder: the calls that \<open>exec_step\<close> allows, each start recorded. Between them the capability
  registry registers definitions and stores assessments.
\<close>

inductive run_step :: "manifest_codec \<Rightarrow> StaticContext \<Rightarrow> db \<Rightarrow> db \<Rightarrow> bool" for C S where
  run_create: "run_step C S d (fst (CreateTaskWithGuard K now rand q guard d))"
| run_child: "run_step C S d (fst (CreateChildTask K now rand p q d))"
| run_start: "run_step C S d (fst (StartAttempt [RecordAttemptStartInTx C S] E k executor duration d))"
| run_renew: "run_step C S d (fst (RenewLease E k duration d))"
| run_revoke: "run_step C S d (fst (RevokeLease E k d))"
| run_fail: "run_step C S d (fst (FailAttempt E k class signature evidence d))"
| run_challenge: "run_step C S d (fst (ChallengeTask E k scope reason evidence d))"
| run_register: "run_step C S d (fst (Register ps now raw d))"
| run_assess: "run_step C S d (fst (assess_one ps p E i name raw d))"

text \<open>The registry leaves tasks, attempts and manifests alone.\<close>

definition registry_only :: "db \<Rightarrow> db \<Rightarrow> bool" where
  "registry_only d d' \<longleftrightarrow> db_tasks d' = db_tasks d \<and> db_attempts d' = db_attempts d \<and> db_manifests d' = db_manifests d"

lemma registerDefinitionTx_registry: "registerDefinitionTx now de d = Inr d' \<Longrightarrow> registry_only d d'"
  by (auto simp: registerDefinitionTx_def registry_only_def Let_def bind_simps split: option.splits)

lemma insert_cap_assessment_registry: "insert_cap_assessment a d = Inr d' \<Longrightarrow> registry_only e d \<Longrightarrow> registry_only e d'"
  by (auto simp: insert_cap_assessment_def registry_only_def bind_simps)

lemma Register_registry: "registry_only d (fst (Register ps now raw d))"
  unfolding Register_def
  by (auto simp: no_result_def bind_simps registry_only_def [of d d] intro!: with_tx_invariant [where I = "registry_only d"]
      dest: registerDefinitionTx_registry split: sum.split)

lemma assess_one_registry: "registry_only d (fst (assess_one ps p E i name raw d))"
  unfolding assess_one_def Let_def
  by (auto simp: bind_simps registry_only_def [of d d] intro!: with_tx_invariant [where I = "registry_only d"]
      intro: insert_cap_assessment_registry [OF _ registerDefinitionTx_registry] split: sum.split)

lemma registry_only_next: "registry_only d d' \<Longrightarrow> exec_ok d \<Longrightarrow> exec_next d d'"
  unfolding registry_only_def by (subst exec_next_cong [of d' d d]) (simp_all add: exec_next_def)

lemma run_step_next: "run_step C S d d' \<Longrightarrow> exec_ok d \<Longrightarrow> exec_next d d'"
  by (induction rule: run_step.induct)
    (auto intro: exec_step_next exec_step.intros registry_only_next Register_registry assess_one_registry)

lemma append_event_manifests: "append_event i t a ty det now d = Inr d' \<Longrightarrow> db_manifests d' = db_manifests d"
  using append_event_Inr by fastforce

text \<open>The attempts of a store by identifier, the manifests with them: only a start adds to either.\<close>

definition quiet :: "db \<Rightarrow> db \<Rightarrow> bool" where
  "quiet d d' \<longleftrightarrow> db_manifests d' = db_manifests d \<and> map a_id (db_attempts d') = map a_id (db_attempts d)"

lemma quiet_refl [simp]: "quiet d d"
  by (simp add: quiet_def)

lemma quiet_event: "append_event i t a ty det now d' = Inr d'' \<Longrightarrow> quiet d d' \<Longrightarrow> quiet d d''"
  using append_event_manifests append_event_tables(2) by (fastforce simp: quiet_def)

lemma quiet_updates:
  "(\<And>a. P a \<Longrightarrow> a_id (f a) = a_id a) \<Longrightarrow> quiet d (d\<lparr>db_attempts := update_where P f (db_attempts d)\<rparr>)"
  "(\<And>a. P a \<Longrightarrow> a_id (f a) = a_id a) \<Longrightarrow> quiet d (d\<lparr>db_attempts := update_where P f (db_attempts d), db_tasks := ts\<rparr>)"
  "(\<And>a. P a \<Longrightarrow> a_id (f a) = a_id a) \<Longrightarrow>
   quiet d (d\<lparr>db_failures := fs, db_attempts := update_where P f (db_attempts d), db_tasks := ts\<rparr>)"
  "(\<And>a. P a \<Longrightarrow> a_id (f a) = a_id a) \<Longrightarrow>
   quiet d (d\<lparr>db_challenges := cs, db_attempts := update_where P f (db_attempts d), db_tasks := ts\<rparr>)"
  "quiet d (d\<lparr>db_challenges := cs, db_tasks := ts\<rparr>)"
  by (simp_all add: quiet_def map_key_update_where)

lemma registry_quiet: "registry_only d d' \<Longrightarrow> quiet d d'"
  by (simp add: registry_only_def quiet_def)

lemma insertTaskTx_quiet: "insertTaskTx K now rand parent q guard d = Inr (t, d') \<Longrightarrow> quiet d d'"
  by (erule insertTaskTx_cases) (simp_all add: quiet_def)

lemma run_step_quiet:
  assumes "run_step C S d d'"
  shows "quiet d d' \<or> (\<exists>E k executor duration a. StartAttempt [RecordAttemptStartInTx C S] E k executor duration d = (d', Inr a))"
  using assms
proof (induction rule: run_step.induct)
  case (run_create d K now rand q guard)
  show ?case unfolding CreateTaskWithGuard_def
    by (auto split: sum.split intro!: disjI1 with_tx_invariant [where I = "quiet d"] dest: insertTaskTx_quiet)
next
  case (run_child d K now rand p q)
  show ?case unfolding CreateChildTask_def
    by (auto split: sum.split intro!: disjI1 with_tx_invariant [where I = "quiet d"] dest: insertTaskTx_quiet)
next
  case (run_start d E k executor duration)
  show ?case
  proof (cases "StartAttempt [RecordAttemptStartInTx C S] E k executor duration d")
    case (Pair d' r)
    show ?thesis
    proof (cases r)
      case (Inl e)
      then have "d' = d" using Pair by (auto simp: StartAttempt_def with_tx_Inl_iff Let_def split: if_splits)
      then show ?thesis using Pair by simp
    next
      case (Inr a)
      then have run: "StartAttempt [RecordAttemptStartInTx C S] E k executor duration d = (d', Inr a)" using Pair by simp
      have d': "fst (StartAttempt [RecordAttemptStartInTx C S] E k executor duration d) = d'" using run by simp
      show ?thesis unfolding d' using run by blast
    qed
  qed
next
  case (run_renew d E k duration)
  show ?case unfolding RenewLease_def WithGuardedAttempt_def
    by (auto simp: bind_simps intro!: disjI1 with_tx_invariant [where I = "quiet d"] quiet_updates)
next
  case (run_revoke d E k)
  have "quiet d (fst (RevokeLease E k d))" unfolding RevokeLease_def Let_def
    by (rule with_tx_invariant [where I = "quiet d"])
      (auto simp: bind_simps no_result_def split: option.splits if_splits elim!: quiet_event intro!: quiet_updates)
  then show ?case ..
next
  case (run_fail d E k cls signature evidence)
  have "quiet d (fst (FailAttempt E k cls signature evidence d))"
    unfolding FailAttempt_def WithGuardedAttempt_def apply_failure_def Let_def
    by (auto simp: bind_simps intro!: with_tx_invariant [where I = "quiet d"] quiet_updates elim!: quiet_event)
  then show ?case ..
next
  case (run_challenge d E k scope reason evidence)
  have "quiet d (fst (ChallengeTask E k scope reason evidence d))" unfolding ChallengeTask_def Let_def
    by (cases "find_by t_id k (db_tasks d)")
      (auto simp: bind_simps no_result_def intro!: with_tx_invariant [where I = "quiet d"] quiet_updates elim!: quiet_event
        split: option.split)
  then show ?case ..
qed (blast intro: registry_quiet Register_registry assess_one_registry)+

text \<open>
  What a snapshot says of the capability of a name in a store: the definition that is active under the name, and the newest assessment of
  it by its own provider in its own context.
\<close>

definition assesses :: "capability_row \<Rightarrow> cap_assessment_row \<Rightarrow> bool" where
  "assesses r a \<longleftrightarrow> ca_capability a = cd_id r \<and> ca_provider a = cd_provider r \<and> ca_context a = cd_context r"

definition quotes_assessment :: "cap_assessment_row list \<Rightarrow> capability_row \<Rightarrow> CapabilitySnapshot \<Rightarrow> bool" where
  "quotes_assessment rows r s \<longleftrightarrow>
     (if \<exists>a \<in> set rows. assesses r a
      then \<exists>a. newest_of (assesses r) rows a \<and> sn_assessment s = ca_id a \<and> sn_observed s = ca_enforcement a \<and>
        sn_health s = Some (ca_health a) \<and> sn_available s = Some (ca_available a) \<and> sn_at s = Some (ca_at a)
      else sn_assessment s = [] \<and> sn_observed s = no_enforcement \<and> sn_health s = None \<and> sn_available s = None \<and> sn_at s = None)"

definition quotes :: "db \<Rightarrow> string \<Rightarrow> CapabilitySnapshot \<Rightarrow> bool" where
  "quotes d name s \<longleftrightarrow> sn_name s = name \<and>
     (if \<exists>r \<in> set (db_capabilities d). cd_name r = name \<and> cd_active r
      then \<exists>r \<in> set (db_capabilities d). cd_name r = name \<and> cd_active r \<and> sn_capability s = cd_id r \<and> sn_version s = cd_version r \<and>
        sn_provider s = cd_provider r \<and> sn_context s = cd_context r \<and> sn_minimum s = cd_minimum r \<and>
        quotes_assessment (db_cap_assessments d) r s
      else s = no_capability name)"

lemma capability_snapshot_quotes: "quotes d name (capability_snapshot d name)"
proof (cases "find (\<lambda>r. cd_name r = name \<and> cd_active r) (db_capabilities d)")
  case None
  then have none: "(\<exists>r \<in> set (db_capabilities d). cd_name r = name \<and> cd_active r) = False" by (simp add: find_None_iff)
  have "capability_snapshot d name = no_capability name" using None by (simp add: capability_snapshot_def)
  moreover have "sn_name (no_capability name) = name" by (simp add: no_capability_def)
  ultimately show ?thesis unfolding quotes_def none by simp
next
  case (Some r)
  then have r: "r \<in> set (db_capabilities d)" "cd_name r = name" "cd_active r" by (auto simp: find_Some_iff)
  have some: "\<exists>r \<in> set (db_capabilities d). cd_name r = name \<and> cd_active r" using r by blast
  let ?s = "capability_snapshot d name"
  let ?own = "filter (\<lambda>a. ca_capability a = cd_id r \<and> ca_provider a = cd_provider r \<and> ca_context a = cd_context r) (db_cap_assessments d)"
  have own: "?own = filter (assesses r) (db_cap_assessments d)" by (rule filter_cong) (simp_all add: assesses_def)
  have "quotes_assessment (db_cap_assessments d) r ?s"
  proof (cases "latest ?own")
    case None
    then have "\<not> (\<exists>a \<in> set (db_cap_assessments d). assesses r a)" unfolding own latest_None by (simp add: filter_empty_conv)
    then show ?thesis using Some None by (simp add: quotes_assessment_def capability_snapshot_def no_capability_def Let_def)
  next
    case (Some a)
    then have new: "newest_of (assesses r) (db_cap_assessments d) a" unfolding own by (rule latest_newest)
    then have "\<exists>a \<in> set (db_cap_assessments d). assesses r a" by (auto simp: newest_of_def)
    then show ?thesis using \<open>find _ _ = Some r\<close> Some new
      unfolding quotes_assessment_def by (simp add: capability_snapshot_def Let_def) (intro exI [of _ a]; simp)
  qed
  moreover have "sn_name ?s = name \<and> sn_capability ?s = cd_id r \<and> sn_version ?s = cd_version r \<and> sn_provider ?s = cd_provider r \<and>
      sn_context ?s = cd_context r \<and> sn_minimum ?s = cd_minimum r"
    using Some by (simp add: capability_snapshot_def no_capability_def Let_def split: option.split)
  ultimately show ?thesis using r some unfolding quotes_def by auto
qed

text \<open>
  The manifest of an attempt: the facts of the attempt and of its task, the runtime with the policy, the boundary with every guarantee
  that it gives, and the required capabilities as the store had them.
\<close>

definition gives :: "Profile \<Rightarrow> Guarantee \<Rightarrow> bool" where
  "gives p g \<longleftrightarrow> (\<exists>gs. tp_guarantees p = Some gs \<and> map_of gs g = Some True)"

definition described :: "StaticContext \<Rightarrow> manifest_codec \<Rightarrow> attempt \<Rightarrow> task \<Rightarrow> db \<Rightarrow> Manifest \<Rightarrow> bool" where
  "described S C a t d m \<longleftrightarrow> mf_version m = 1 \<and> mf_task m = a_task a \<and> mf_attempt m = a_id a \<and> mf_fence m = a_fence a \<and>
     mf_executor m = trim_space (a_executor a) \<and> mf_started m = a_started a \<and> mf_objective m = t_objective t \<and>
     mf_payload_hash m = mc_sha C (t_payload t) \<and> mf_envelope m = t_envelope t \<and> mf_runtime m = sc_build S \<and>
     mf_policy m = sc_policy S \<and> ts_name (mf_teb m) = tp_name (sc_profile S) \<and> ts_level (mf_teb m) = tp_level (sc_profile S) \<and>
     sorted (ts_guarantees (mf_teb m)) \<and> set (ts_guarantees (mf_teb m)) = guarantee_text ` {g. gives (sc_profile S) g} \<and>
     list_all2 (quotes d) (sort (normalizeNames (t_capabilities t))) (mf_capabilities m)"

definition has_manifest :: "StaticContext \<Rightarrow> manifest_codec \<Rightarrow> db \<Rightarrow> db \<Rightarrow> attempt \<Rightarrow> bool" where
  "has_manifest S C d1 d a \<longleftrightarrow> (\<exists>t m. find_by t_id (a_task a) (db_tasks d) = Some t \<and> described S C a t d1 m \<and>
     find_by rm_attempt (a_id a) (db_manifests d) = Some \<lparr>rm_attempt = a_id a, rm_task = a_task a,
       rm_hash = mc_sha C (mc_encode C m), rm_json = mc_encode C m, rm_created = a_started a\<rparr>)"

lemma guarantees_text_set: "set (guarantees_text gs) = guarantee_text ` {g. map_of gs g = Some True}"
  by (auto simp: guarantees_text_def guaranteed_def dest: map_of_SomeD intro!: imageI) (force dest: map_of_SomeD)

lemma described_manifest_of: "a_task a = t_id t \<Longrightarrow> described S C a t d (manifest_of C S a t d)"
proof -
  assume "a_task a = t_id t"
  moreover have "list_all2 (quotes d) names (map (capability_snapshot d) names)" for names
    by (induction names) (simp_all add: capability_snapshot_quotes)
  moreover have "set (guarantees_text (case tp_guarantees p of None \<Rightarrow> [] | Some gs \<Rightarrow> gs)) = guarantee_text ` {g. gives p g}" for p
    by (cases "tp_guarantees p") (simp_all add: guarantees_text_set gives_def)
  moreover have "sorted (guarantees_text gs)" for gs by (simp add: guarantees_text_def)
  ultimately show ?thesis by (simp add: described_def manifest_of_def manifestVersion_def loadCapabilitySnapshots_def)
qed

lemma described_later: "described S C a t d m \<Longrightarrow> same_attempt a a' \<Longrightarrow> later_task t t' \<Longrightarrow> described S C a' t' d m"
  by (cases a, cases a', cases t, cases t') (auto simp: described_def same_attempt_def later_task_def)

lemma RecordAttemptStartInTx_Inr:
  assumes "RecordAttemptStartInTx C S a t d = Inr rows"
  shows "a_task a = t_id t \<and> rm_attempt ` set (db_manifests d) \<inter> {a_id a} = {} \<and>
    rows = db_manifests d @ [\<lparr>rm_attempt = a_id a, rm_task = a_task a, rm_hash = mc_sha C (mc_encode C (manifest_of C S a t d)),
      rm_json = mc_encode C (manifest_of C S a t d), rm_created = a_started a\<rparr>]"
  using assms
  by (auto simp: RecordAttemptStartInTx_def Let_def bind_simps insert_manifest_def exists_where_iff)

text \<open>A start with this recorder adds the manifest of its attempt.\<close>

lemma StartAttempt_manifest:
  assumes ok: "exec_ok d" and run: "StartAttempt [RecordAttemptStartInTx C S] E k executor duration d = (d', Inr a)"
  shows "has_manifest S C d d' a \<and> a_id a \<notin> rm_attempt ` set (db_manifests d) \<and> (\<exists>r. rm_attempt r = a_id a \<and> db_manifests d' = db_manifests d @ [r])"
proof -
  obtain t d1 d2 where rec: "record_start [RecordAttemptStartInTx C S] a t d1 = Inr d2" "db_manifests d' = db_manifests d2"
    and t: "find_by t_id k (db_tasks d) = Some t" and d1: "db_manifests d1 = db_manifests d"
      "db_capabilities d1 = db_capabilities d" "db_cap_assessments d1 = db_cap_assessments d" and task: "a_task a = k"
    using run
    by (auto simp: StartAttempt_def with_tx_Inr_iff bindE_Inr_iff Let_def simp del: record_start.simps
        split: if_splits option.splits dest!: append_event_manifests)
  obtain rows where rows: "RecordAttemptStartInTx C S a t d1 = Inr rows" "db_manifests d2 = rows"
    using rec(1) by (auto simp: bindE_Inr_iff)
  let ?m = "manifest_of C S a t d1"
  let ?r = "\<lparr>rm_attempt = a_id a, rm_task = a_task a, rm_hash = mc_sha C (mc_encode C ?m), rm_json = mc_encode C ?m, rm_created = a_started a\<rparr>"
  from RecordAttemptStartInTx_Inr [OF rows(1)] have own: "a_task a = t_id t"
    and fresh: "a_id a \<notin> rm_attempt ` set (db_manifests d)" and man: "db_manifests d' = db_manifests d @ [?r]"
    using d1 rows(2) rec(2) by auto
  obtain t' where t': "find_by t_id k (db_tasks d') = Some t'" "later_task t t'"
    using StartAttempt_ok [OF ok, of "[RecordAttemptStartInTx C S]" E k executor duration] exec_le_task [OF _ t] run
    by (auto simp: exec_next_def)
  have "manifest_of C S a t d1 = manifest_of C S a t d"
    unfolding manifest_of_def loadCapabilitySnapshots_def capability_snapshot_def [abs_def] d1 ..
  then have "described S C a t' d ?m" using described_later [OF described_manifest_of [OF own] _ t'(2)] by simp
  moreover have "find_by rm_attempt (a_id a) (db_manifests d') = Some ?r"
    unfolding man using fresh by (subst find_by_insert_new) simp_all
  ultimately show ?thesis using t' task fresh man by (auto simp: has_manifest_def)
qed

lemma has_manifest_later:
  assumes "has_manifest S C d1 d a" and "exec_le d d'" and "same_attempt a a'"
    and "\<And>r. find_by rm_attempt (a_id a) (db_manifests d) = Some r \<Longrightarrow> find_by rm_attempt (a_id a) (db_manifests d') = Some r"
  shows "has_manifest S C d1 d' a'"
proof -
  obtain t m where t: "find_by t_id (a_task a) (db_tasks d) = Some t" and m: "described S C a t d1 m"
    "find_by rm_attempt (a_id a) (db_manifests d) = Some \<lparr>rm_attempt = a_id a, rm_task = a_task a,
       rm_hash = mc_sha C (mc_encode C m), rm_json = mc_encode C m, rm_created = a_started a\<rparr>"
    using assms(1) unfolding has_manifest_def by blast
  obtain t' where t': "find_by t_id (a_task a) (db_tasks d') = Some t'" "later_task t t'"
    using exec_le_task [OF assms(2) t] by blast
  have a': "a_id a' = a_id a" "a_task a' = a_task a" "a_started a' = a_started a"
    using assms(3) by (cases a, cases a'; simp add: same_attempt_def)+
  show ?thesis unfolding has_manifest_def a'
    using t'(1) described_later [OF m(1) assms(3) t'(2)] assms(4) [OF m(2)] by blast
qed

lemma run_step_manifest:
  assumes step: "run_step C S d d'" and ok: "exec_ok d"
    and x: "find_by a_id k (db_attempts d) = Some x" "has_manifest S C d1 d x"
  shows "\<exists>y. find_by a_id k (db_attempts d') = Some y \<and> has_manifest S C d1 d' y"
proof -
  have le: "exec_le d d'" using run_step_next [OF step ok] by (simp add: exec_next_def)
  obtain y where y: "find_by a_id k (db_attempts d') = Some y" "same_attempt x y" using exec_le_attempt [OF le x(1)] by blast
  have "a_id x = k" using find_by_SomeD [OF x(1)] by simp
  have "find_by rm_attempt j (db_manifests d') = Some r" if "find_by rm_attempt j (db_manifests d) = Some r" for j r
    using run_step_quiet [OF step] that StartAttempt_manifest [OF ok] by (fastforce simp: quiet_def find_by_append)
  then have "has_manifest S C d1 d' y" using has_manifest_later [OF x(2) le y(2)] by blast
  with y(1) show ?thesis by blast
qed

text \<open>The call that starts an attempt gives it its manifest.\<close>

lemma started_manifest:
  assumes step: "run_step C S d d'" and ok: "exec_ok d" and k: "k \<notin> a_id ` set (db_attempts d)" "k \<in> a_id ` set (db_attempts d')"
  shows "\<exists>y. find_by a_id k (db_attempts d') = Some y \<and> has_manifest S C d d' y"
proof -
  have "\<not> quiet d d'" using k unfolding quiet_def by (metis set_map)
  then obtain E j executor duration a where run: "StartAttempt [RecordAttemptStartInTx C S] E j executor duration d = (d', Inr a)"
    using run_step_quiet [OF step] by blast
  from run have add: "db_attempts d' = db_attempts d @ [a]" by (rule StartAttempt_Inr) simp
  then have "a_id a = k" using k by auto
  moreover have "find_by a_id (a_id a) (db_attempts d') = Some a"
    by (rule find_by_member [OF exec_okD(2)]) (use run_step_next [OF step ok] add in \<open>simp_all add: exec_next_def\<close>)
  ultimately show ?thesis using StartAttempt_manifest [OF ok run] by blast
qed

interpretation run_manifests: kept_invariant "run_step C S"
    "\<lambda>d. exec_ok d \<and> (\<exists>x. find_by a_id k (db_attempts d) = Some x \<and> has_manifest S C d1 d x)" for C S k d1
  by unfold_locales (use run_step_manifest run_step_next in \<open>blast intro: exec_next_def [THEN iffD1, THEN conjunct1]\<close>)

subsection \<open>What a codec reads back\<close>

text \<open>
  \<open>encoding/json\<close> replaces text that is not UTF-8, writes the years up to 9999 and reads an integer of 64 bits; a level or a health is
  its text. A manifest of ASCII texts, such times and levels with a text of their own is read back as it was written.
\<close>

definition ascii :: "string \<Rightarrow> bool" where
  "ascii s \<longleftrightarrow> list_all (\<lambda>c. of_char c < (128::nat)) s"

fun plain_level :: "enforcement_level \<Rightarrow> bool" where
  "plain_level (EnforcementOther s) \<longleftrightarrow> ascii s \<and> s \<notin> {''ENFORCED'', ''PARTIAL'', ''UNENFORCED''}"
| "plain_level _ \<longleftrightarrow> True"

fun plain_health :: "Health \<Rightarrow> bool" where
  "plain_health (HealthOther s) \<longleftrightarrow> ascii s \<and> s \<notin> {[], ''HEALTHY'', ''DEGRADED'', ''UNHEALTHY''}"
| "plain_health _ \<longleftrightarrow> True"

definition plain_time :: "gtime \<Rightarrow> bool" where
  "plain_time t \<longleftrightarrow> 0 \<le> t \<and> t < year_10000"

definition plain_capability :: "CapabilitySnapshot \<Rightarrow> bool" where
  "plain_capability s \<longleftrightarrow>
     list_all ascii [sn_name s, sn_capability s, sn_version s, sn_provider s, sn_context s, sn_assessment s] \<and>
     plain_level (sn_minimum s) \<and> plain_level (sn_observed s) \<and> list_all plain_health (case sn_health s of None \<Rightarrow> [] | Some h \<Rightarrow> [h]) \<and>
     list_all plain_time (case sn_at s of None \<Rightarrow> [] | Some t \<Rightarrow> [t])"

definition plain_manifest :: "Manifest \<Rightarrow> bool" where
  "plain_manifest m \<longleftrightarrow>
     list_all ascii ([mf_task m, mf_objective m, mf_payload_hash m, mf_attempt m, mf_executor m, bm_version (mf_runtime m),
       bm_commit (mf_runtime m), ps_set (mf_policy m), ps_hash (mf_policy m), ps_caps_hash (mf_policy m), ts_name (mf_teb m), mf_envelope m] @
       ts_guarantees (mf_teb m)) \<and> plain_level (ts_level (mf_teb m)) \<and> list_all plain_capability (mf_capabilities m) \<and>
     plain_time (mf_started m) \<and> mf_version m = manifestVersion \<and> - (2 ^ 63) \<le> mf_fence m \<and> mf_fence m < 2 ^ 63"

subsection \<open>A codec that reads back what it writes\<close>

instance enforcement_level :: countable by countable_datatype

instance Health :: countable by countable_datatype

definition flat_capability where
  "flat_capability s = (sn_name s, sn_capability s, sn_version s, sn_provider s, sn_context s, sn_minimum s, sn_assessment s,
     sn_observed s, sn_health s, sn_available s, sn_at s)"

definition read_capability where
  "read_capability = (\<lambda>(name, capability, version, provider, context, least, assessment, observed, health, available, seen).
     \<lparr>sn_name = name, sn_capability = capability, sn_version = version, sn_provider = provider, sn_context = context,
      sn_minimum = least, sn_assessment = assessment, sn_observed = observed, sn_health = health, sn_available = available, sn_at = seen\<rparr>)"

definition flat_manifest where
  "flat_manifest m = (mf_version m, mf_task m, mf_objective m, mf_payload_hash m, mf_attempt m, mf_fence m, mf_executor m,
     (bm_version (mf_runtime m), bm_commit (mf_runtime m)), (ps_set (mf_policy m), ps_hash (mf_policy m), ps_caps_hash (mf_policy m)),
     (ts_name (mf_teb m), ts_level (mf_teb m), ts_guarantees (mf_teb m)), map flat_capability (mf_capabilities m), mf_envelope m, mf_started m)"

definition read_flat where
  "read_flat = (\<lambda>(version, task, objective, payload, attempt, fence, executor, (v, c), (i, h, ch), (n, l, g), caps, envelope, started).
     \<lparr>mf_version = version, mf_task = task, mf_objective = objective, mf_payload_hash = payload, mf_attempt = attempt, mf_fence = fence,
      mf_executor = executor, mf_runtime = \<lparr>bm_version = v, bm_commit = c\<rparr>, mf_policy = \<lparr>ps_set = i, ps_hash = h, ps_caps_hash = ch\<rparr>,
      mf_teb = \<lparr>ts_name = n, ts_level = l, ts_guarantees = g\<rparr>, mf_capabilities = map read_capability caps, mf_envelope = envelope,
      mf_started = started\<rparr>)"

definition unary_codec :: manifest_codec where
  "unary_codec = \<lparr>mc_encode = (\<lambda>m. replicate (to_nat (flat_manifest m)) CHR ''1''),
     mc_decode = (\<lambda>s. Inr (read_flat (from_nat (length s)))), mc_sha = (\<lambda>s. s)\<rparr>"

lemma unary_codec_reads_back: "mc_decode unary_codec (mc_encode unary_codec m) = Inr m"
proof -
  have "read_capability (flat_capability s) = s" for s by (simp add: read_capability_def flat_capability_def)
  then have "map (read_capability \<circ> flat_capability) cs = cs" for cs by (simp add: comp_def)
  then show ?thesis by (simp add: unary_codec_def flat_manifest_def read_flat_def)
qed

definition demo_static :: StaticContext where
  "demo_static = New_manifests \<lparr>sc_build = \<lparr>bm_version = '' v1 '', bm_commit = []\<rparr>, sc_policy = \<lparr>ps_set = [], ps_hash = [], ps_caps_hash = []\<rparr>,
     sc_profile = PartialProfile ''docker'' [GuaranteePIDLimit, GuaranteeNonRoot, GuaranteePIDLimit]\<rparr>"

definition demo_assess :: "Health \<Rightarrow> gtime \<Rightarrow> string \<Rightarrow> db \<Rightarrow> db" where
  "demo_assess h now r d = fst (assess_one [demo_provider h] (demo_provider h) (demo_at now r) 0 ''git'' (demo_definition\<lparr>de_name := ''read''\<rparr>) d)"

definition demo_unstarted :: db where
  "demo_unstarted = demo_assess HealthHealthy 6 ''7'' demo_created"

definition demo_recorded :: "manifest_codec \<Rightarrow> db" where
  "demo_recorded C = fst (StartAttempt [RecordAttemptStartInTx C demo_static] demo_env ''task_1'' ''codex'' 50 demo_unstarted)"

subsection \<open>Properties\<close>

text \<open>
  C40. Every attempt can be traced: when each start of an attempt is recorded, then from the call that starts an attempt on, in every
  state that the execution service and the capability registry reach, it has one stored run manifest. It holds the facts of the attempt
  (task, fence, executor, start), of its task (objective, payload hash, envelope), of the runtime, the policy and the execution boundary
  with every guarantee it gives, and for each required capability the definition and the newest assessment that the store had when the
  attempt was started, whatever the registry has stored since. \<open>Manifest\<close> returns it with its hash intact when it is
  one that \<open>encoding/json\<close> reads back as it was written.
\<close>

theorem attempt_has_its_manifest:
  assumes "exec_ok d1" and "run_step C S d1 d2" and "a_id a \<notin> a_id ` set (db_attempts d1)" and "a_id a \<in> a_id ` set (db_attempts d2)"
    and "(run_step C S)\<^sup>*\<^sup>* d2 d" and "a \<in> set (db_attempts d)" and "trim_space (a_id a) = a_id a" and "a_id a \<noteq> []"
    and "\<And>m. plain_manifest m \<Longrightarrow> mc_decode C (mc_encode C m) = Inr m"
  shows "\<exists>t m. find_by t_id (a_task a) (db_tasks d) = Some t \<and> described S C a t d1 m \<and>
    find_by rm_attempt (a_id a) (db_manifests d) = Some \<lparr>rm_attempt = a_id a, rm_task = a_task a, rm_hash = mc_sha C (mc_encode C m),
      rm_json = mc_encode C m, rm_created = a_started a\<rparr> \<and>
    (plain_manifest m \<longrightarrow> Read_manifest C (a_id a) d = Inr \<lparr>rc_attempt = a_id a, rc_task = a_task a, rc_hash = mc_sha C (mc_encode C m),
      rc_json = mc_encode C m, rc_manifest = m, rc_created = a_started a\<rparr>)"
proof -
  have ok2: "exec_ok d2" using run_step_next [OF assms(2,1)] by (simp add: exec_next_def)
  have ok: "exec_ok d" and "\<exists>x. find_by a_id (a_id a) (db_attempts d) = Some x \<and> has_manifest S C d1 d x"
    using run_manifests.reach_inv [OF assms(5), of "a_id a" d1] started_manifest [OF assms(2,1,3,4)] ok2 by blast+
  then have "has_manifest S C d1 d a" using find_by_member [OF exec_okD(2) [OF ok] assms(6)] by auto
  then obtain t m where t: "find_by t_id (a_task a) (db_tasks d) = Some t" and m: "described S C a t d1 m"
    and r: "find_by rm_attempt (a_id a) (db_manifests d) = Some \<lparr>rm_attempt = a_id a, rm_task = a_task a,
       rm_hash = mc_sha C (mc_encode C m), rm_json = mc_encode C m, rm_created = a_started a\<rparr>"
    unfolding has_manifest_def by blast
  have "plain_manifest m \<longrightarrow> Read_manifest C (a_id a) d = Inr \<lparr>rc_attempt = a_id a, rc_task = a_task a,
      rc_hash = mc_sha C (mc_encode C m), rc_json = mc_encode C m, rc_manifest = m, rc_created = a_started a\<rparr>"
    using m r assms(7,8) by (simp add: assms(9) Read_manifest_def described_def manifestVersion_def)
  with t m r show ?thesis by blast
qed

lemma newest_of_single: "newest_of P [b] a \<longleftrightarrow> P a \<and> a = b"
  by (auto simp: newest_of_def Cons_eq_append_conv)

lemma demo_unstarted_ok: "exec_ok demo_unstarted"
  unfolding demo_unstarted_def demo_assess_def
  using registry_only_next [OF assess_one_registry demo_created_ok] by (simp add: exec_next_def)

lemma demo_unstarted_capability:
  "db_attempts demo_unstarted = [] \<and> db_capabilities demo_unstarted = [\<lparr>cd_id = ''cap1'', cd_name = ''read'', cd_version = ''1'',
     cd_provider = ''git'', cd_context = ''local'', cd_authority = [''read''], cd_minimum = EnforcementPartial, cd_active = True,
     cd_created = 6, cd_updated = 6\<rparr>] \<and>
   db_cap_assessments demo_unstarted = [\<lparr>ca_id = ''capassessment_7'', ca_capability = ''cap1'', ca_provider = ''git'',
     ca_enforcement = EnforcementPartial, ca_context = ''local'', ca_at = 6, ca_evidence = [''probe''], ca_cost = ''{}'',
     ca_health = HealthHealthy, ca_available = True\<rparr>]"
  by code_simp

text \<open>After the start the provider is found unhealthy: the manifest still has what was known at the start.\<close>

definition demo_unhealthy :: db where
  "demo_unhealthy = demo_assess HealthUnhealthy 20 ''8'' (demo_recorded unary_codec)"

lemma demo_unhealthy_rows:
  "case db_attempts demo_unhealthy of [a] \<Rightarrow> a_id a = ''attempt_1'' \<and> a_task a = ''task_1'' \<and> a_executor a = ''codex'' \<and> a_fence a = 1 \<and>
     a_started a = 10 | _ \<Rightarrow> False"
  "case find_by t_id ''task_1'' (db_tasks demo_unhealthy) of Some t \<Rightarrow> t_objective t = ''x'' \<and> t_payload t = ''{}'' \<and> t_envelope t = ''e'' \<and>
     sort (normalizeNames (t_capabilities t)) = [''read''] | None \<Rightarrow> False"
  "map a_id (db_attempts (demo_recorded unary_codec)) = [''attempt_1'']" "trim_space ''codex'' = ''codex''" "trim_space ''attempt_1'' = ''attempt_1''"
  "demo_static = \<lparr>sc_build = \<lparr>bm_version = ''v1'', bm_commit = []\<rparr>, sc_policy = \<lparr>ps_set = [], ps_hash = [], ps_caps_hash = []\<rparr>,
     sc_profile = \<lparr>tp_name = ''docker'', tp_level = EnforcementPartial,
       tp_guarantees = Some [(GuaranteeNonRoot, True), (GuaranteePIDLimit, True)]\<rparr>\<rparr>"
  by code_simp+

lemma demo_quoted:
  "quotes demo_unstarted ''read'' s \<longleftrightarrow> s = \<lparr>sn_name = ''read'', sn_capability = ''cap1'', sn_version = ''1'', sn_provider = ''git'',
     sn_context = ''local'', sn_minimum = EnforcementPartial, sn_assessment = ''capassessment_7'', sn_observed = EnforcementPartial,
     sn_health = Some HealthHealthy, sn_available = Some True, sn_at = Some 6\<rparr>"
  using demo_unstarted_capability
  by (cases s) (auto simp: quotes_def quotes_assessment_def newest_of_single assesses_def)

lemma demo_gives: "{g. gives (sc_profile demo_static) g} = {GuaranteeNonRoot, GuaranteePIDLimit}"
  unfolding demo_unhealthy_rows by (auto simp: gives_def)

lemma demo_plain:
  assumes "described demo_static unary_codec a t demo_unstarted m" and "a_id a = ''attempt_1''" "a_task a = ''task_1''"
    "a_executor a = ''codex''" "a_fence a = 1" "a_started a = 10" and "t_objective t = ''x''" "t_payload t = ''{}''" "t_envelope t = ''e''"
    "sort (normalizeNames (t_capabilities t)) = [''read'']"
  shows "plain_manifest m"
proof -
  have g: "set (ts_guarantees (mf_teb m)) = {''NON_ROOT'', ''PID_LIMIT''}" using assms(1) by (simp add: described_def demo_gives)
  have "list_all ascii (ts_guarantees (mf_teb m))" by (simp add: list_all_iff g ascii_def)
  moreover have "mf_capabilities m = [\<lparr>sn_name = ''read'', sn_capability = ''cap1'', sn_version = ''1'', sn_provider = ''git'',
     sn_context = ''local'', sn_minimum = EnforcementPartial, sn_assessment = ''capassessment_7'', sn_observed = EnforcementPartial,
     sn_health = Some HealthHealthy, sn_available = Some True, sn_at = Some 6\<rparr>]"
    using assms(1,10) by (auto simp: described_def list_all2_Cons1 demo_quoted)
  moreover have "plain_time 6" "plain_time 10" by (simp_all add: plain_time_def year_10000_def)
  ultimately show ?thesis using assms
    by (simp add: described_def plain_manifest_def plain_capability_def ascii_def manifestVersion_def demo_unhealthy_rows unary_codec_def)
qed

theorem attempt_has_its_manifest_witness:
  "\<exists>r. Read_manifest unary_codec ''attempt_1'' demo_unhealthy = Inr r \<and> mf_executor (rc_manifest r) = ''codex'' \<and>
     set (ts_guarantees (mf_teb (rc_manifest r))) = {''NON_ROOT'', ''PID_LIMIT''} \<and>
     map (\<lambda>s. (sn_capability s, sn_health s)) (mf_capabilities (rc_manifest r)) = [(''cap1'', Some HealthHealthy)]"
proof -
  let ?C = unary_codec
  have start: "run_step ?C demo_static demo_unstarted (demo_recorded ?C)"
    unfolding demo_recorded_def by (rule run_step.run_start)
  have later: "(run_step ?C demo_static)\<^sup>*\<^sup>* (demo_recorded ?C) demo_unhealthy"
    unfolding demo_unhealthy_def demo_assess_def by (blast intro: run_step.run_assess)
  obtain a where a: "a \<in> set (db_attempts demo_unhealthy)" "a_id a = ''attempt_1''" "a_task a = ''task_1''" "a_executor a = ''codex''"
    "a_fence a = 1" "a_started a = 10" using demo_unhealthy_rows(1) by (auto split: list.splits)
  have new: "a_id a \<notin> a_id ` set (db_attempts demo_unstarted)" "a_id a \<in> a_id ` set (db_attempts (demo_recorded ?C))"
    using demo_unstarted_capability arg_cong [OF demo_unhealthy_rows(3), of set] a(2) by auto
  have id: "trim_space (a_id a) = a_id a" "a_id a \<noteq> []" using a(2) demo_unhealthy_rows(5) by simp_all
  from attempt_has_its_manifest [OF demo_unstarted_ok start new later a(1) id unary_codec_reads_back] obtain t m
    where t: "find_by t_id ''task_1'' (db_tasks demo_unhealthy) = Some t" and m: "described demo_static ?C a t demo_unstarted m"
    and r: "plain_manifest m \<longrightarrow> Read_manifest ?C (a_id a) demo_unhealthy = Inr \<lparr>rc_attempt = a_id a, rc_task = a_task a,
      rc_hash = mc_sha ?C (mc_encode ?C m), rc_json = mc_encode ?C m, rc_manifest = m, rc_created = a_started a\<rparr>"
    unfolding a(3) by blast
  have task: "t_objective t = ''x''" "t_payload t = ''{}''" "t_envelope t = ''e''" "sort (normalizeNames (t_capabilities t)) = [''read'']"
    using demo_unhealthy_rows(2) t by simp_all
  have "plain_manifest m" by (rule demo_plain [OF m a(2-6) task])
  with r have read: "Read_manifest ?C ''attempt_1'' demo_unhealthy = Inr \<lparr>rc_attempt = a_id a, rc_task = a_task a,
      rc_hash = mc_sha ?C (mc_encode ?C m), rc_json = mc_encode ?C m, rc_manifest = m, rc_created = a_started a\<rparr>" using a(2) by simp
  have "mf_executor m = ''codex''" using m a(4) demo_unhealthy_rows(4) by (simp add: described_def)
  moreover have "set (ts_guarantees (mf_teb m)) = {''NON_ROOT'', ''PID_LIMIT''}" using m by (simp add: described_def demo_gives)
  moreover have "map (\<lambda>s. (sn_capability s, sn_health s)) (mf_capabilities m) = [(''cap1'', Some HealthHealthy)]"
    using m task(4) by (auto simp: described_def list_all2_Cons1 demo_quoted)
  ultimately show ?thesis using read by simp
qed

end
