(* ===== verification/Approvals.thy ===== *)
theory Approvals
  imports Store Times
begin

text \<open>
  Exact approvals (\<open>internal/approvals/service.go\<close>): a request binds a subject, a digest and the
  principals who must all approve that digest before it expires; each principal decides once; an
  approved request is consumed once. The trigger of migration 12 that makes requests and decisions
  append-only is part of the inserts; the binding columns are never updated by the statements below.
\<close>

record CreateRequest =
  cr_kind :: string
  cr_subject :: ID
  cr_digest :: string
  cr_policy :: ID
  cr_required :: "ID list"
  cr_requester :: ID
  cr_expires :: gtime

definition cleanIDs :: "ID list \<Rightarrow> ID list" where
  "cleanIDs values = distinct_sorted (filter (\<lambda>v. v \<noteq> []) (map trim_space values))"

definition sameDigest :: "string \<Rightarrow> string \<Rightarrow> bool" where
  "sameDigest a b \<longleftrightarrow> trim_space a \<noteq> [] \<and> trim_space a = trim_space b"

definition validateCreate :: "gtime \<Rightarrow> CreateRequest \<Rightarrow> CreateRequest res" where
  "validateCreate now q =
     (let q = \<lparr>cr_kind = trim_space (cr_kind q), cr_subject = trim_space (cr_subject q),
               cr_digest = trim_space (cr_digest q), cr_policy = trim_space (cr_policy q),
               cr_required = cleanIDs (cr_required q), cr_requester = trim_space (cr_requester q),
               cr_expires = cr_expires q\<rparr> in
      if cr_kind q = [] \<or> cr_subject q = [] \<or> cr_digest q = [] \<or> cr_requester q = [] \<or> cr_required q = []
      then Inl (Err ''approval subject, digest, requester, and required approvers are required'')
      else if cr_kind q = ''EXTERNAL_OPERATION'' \<and> cr_policy q = []
      then Inl (Err ''external-operation approval requires policy decision provenance'')
      else if cr_expires q = 0 \<or> \<not> cr_expires q > now
      then Inl (Err ''approval expiry must be in the future'')
      else Inr q)"

definition sameCreate :: "approval \<Rightarrow> CreateRequest \<Rightarrow> bool" where
  "sameCreate r q \<longleftrightarrow> ap_kind r = cr_kind q \<and> ap_subject r = cr_subject q \<and> ap_digest r = cr_digest q \<and>
     ap_policy r = cr_policy q \<and> ap_requester r = cr_requester q \<and> ap_expires r = cr_expires q \<and>
     ap_required r = cr_required q"

subsection \<open>Reads\<close>

definition loadByID :: "ID \<Rightarrow> db \<Rightarrow> approval res" where
  "loadByID k d = (case find_by ap_id k (db_approvals d) of None \<Rightarrow> Inl ErrNoRows | Some r \<Rightarrow> Inr r)"

definition approval_key :: "approval \<Rightarrow> string \<times> ID \<times> string" where
  "approval_key r = (ap_kind r, ap_subject r, ap_digest r)"

definition loadBySubjectDigest :: "string \<Rightarrow> ID \<Rightarrow> string \<Rightarrow> db \<Rightarrow> approval option" where
  "loadBySubjectDigest kind subject digest d =
     find_by approval_key (kind, subject, digest) (db_approvals d)"

definition decision_key :: "decision \<Rightarrow> ID \<times> ID" where
  "decision_key x = (de_approval x, de_approver x)"

definition loadDecision :: "ID \<Rightarrow> ID \<Rightarrow> db \<Rightarrow> decision option" where
  "loadDecision k approver d = find_by decision_key (k, approver) (db_decisions d)"

definition loadDecisions :: "ID \<Rightarrow> db \<Rightarrow> decision list" where
  "loadDecisions k d =
     sort_key (\<lambda>x. (formatTime (de_at x), de_approver x)) (filter (\<lambda>x. de_approval x = k) (db_decisions d))"

definition Get :: "ID \<Rightarrow> db \<Rightarrow> (approval \<times> decision list) res" where
  "Get k d =
     (let k = trim_space k in
      bindE (requireE (k \<noteq> []) (Err ''approval id is required'')) (\<lambda>_.
      case find_by ap_id k (db_approvals d) of
        None \<Rightarrow> Inl (Err ''approval not found'')
      | Some r \<Rightarrow> Inr (r, loadDecisions k d)))"

definition Pending :: "gtime \<Rightarrow> db \<Rightarrow> (approval \<times> decision list) list" where
  "Pending now d =
     map (\<lambda>r. (r, loadDecisions (ap_id r) d))
       (sort_key (\<lambda>r. (formatTime (ap_created r), ap_id r))
         (filter (\<lambda>r. ap_state r = ApprovalPending \<and> formatTime (ap_expires r) > formatTime now)
           (db_approvals d)))"

definition IsApproved :: "gtime \<Rightarrow> ID \<Rightarrow> string \<Rightarrow> db \<Rightarrow> bool res" where
  "IsApproved now k digest d =
     bindE (Get k d) (\<lambda>x.
     Inr (sameDigest (ap_digest (fst x)) digest \<and> ap_expires (fst x) > now \<and>
          ap_state (fst x) = ApprovalApproved))"

subsection \<open>Requests\<close>

definition insert_approval :: "approval \<Rightarrow> db \<Rightarrow> db res" where
  "insert_approval r d =
     bindE (requireE (\<not> exists_where (\<lambda>x. ap_id x = ap_id r \<or> approval_key x = approval_key r) (db_approvals d))
              (ErrConstraint ''approval requests are durable governance history'')) (\<lambda>_.
     Inr (d\<lparr>db_approvals := db_approvals d @ [r]\<rparr>))"

definition CreateInTx ::
  "gtime \<Rightarrow> gtime \<Rightarrow> string \<Rightarrow> CreateRequest \<Rightarrow> db \<Rightarrow> (approval \<times> db) res" where
  "CreateInTx now created rand request d =
     bindE (validateCreate now request) (\<lambda>q.
     case loadBySubjectDigest (cr_kind q) (cr_subject q) (cr_digest q) d of
       Some existing \<Rightarrow>
         if \<not> sameCreate existing q
         then Inl (Err ''existing approval subject/digest has different immutable definition'')
         else Inr (existing, d)
     | None \<Rightarrow>
         let r = \<lparr>ap_id = NewID ''approval'' rand, ap_kind = cr_kind q, ap_subject = cr_subject q,
                  ap_digest = cr_digest q, ap_policy = cr_policy q, ap_required = cr_required q,
                  ap_requester = cr_requester q, ap_state = ApprovalPending, ap_expires = cr_expires q,
                  ap_decided = None, ap_approver = [], ap_action = [], ap_created = created\<rparr> in
         bindE (insert_approval r d) (\<lambda>d'. Inr (r, d')))"

definition Create :: "gtime \<Rightarrow> gtime \<Rightarrow> string \<Rightarrow> CreateRequest \<Rightarrow> db \<Rightarrow> db \<times> approval res" where
  "Create now created rand request = with_tx (CreateInTx now created rand request)"

subsection \<open>Decisions\<close>

definition set_approval :: "(approval \<Rightarrow> bool) \<Rightarrow> (approval \<Rightarrow> approval) \<Rightarrow> db \<Rightarrow> db" where
  "set_approval P f d = d\<lparr>db_approvals := update_where P f (db_approvals d)\<rparr>"

definition terminalize ::
  "ID \<Rightarrow> approval_state \<Rightarrow> ID \<Rightarrow> string \<Rightarrow> gtime \<Rightarrow> db \<Rightarrow> db res" where
  "terminalize k target actor action now d =
     (let hit = (\<lambda>r. ap_id r = k \<and> ap_state r = ApprovalPending);
          d' = set_approval hit (\<lambda>r. r\<lparr>ap_state := target, ap_decided := Some now, ap_approver := actor,
                 ap_action := action\<rparr>) d in
      if count_where hit (db_approvals d) \<noteq> 1 then Inl (Err ''approval was concurrently changed'')
      else Inr d')"

definition insert_decision :: "decision \<Rightarrow> db \<Rightarrow> db res" where
  "insert_decision x d =
     bindE (requireE (\<not> exists_where (\<lambda>y. decision_key y = decision_key x) (db_decisions d))
              (ErrConstraint ''approval decisions are immutable'')) (\<lambda>_.
     Inr (d\<lparr>db_decisions := db_decisions d @ [x]\<rparr>))"

definition approve_count :: "ID \<Rightarrow> db \<Rightarrow> nat" where
  "approve_count k d = count_where (\<lambda>x. de_approval x = k \<and> de_action x = ''APPROVE'') (db_decisions d)"

definition record_decision :: "gtime \<Rightarrow> approval \<Rightarrow> ID \<Rightarrow> string \<Rightarrow> string \<Rightarrow> db \<Rightarrow> db res" where
  "record_decision now r approver digest action d =
     bindE (insert_decision \<lparr>de_approval = ap_id r, de_approver = approver, de_digest = digest,
              de_action = action, de_at = now\<rparr> d) (\<lambda>d'.
     if action = ''REJECT'' then terminalize (ap_id r) ApprovalRejected approver action now d'
     else if approve_count (ap_id r) d' < length (ap_required r) then Inr d'
     else if approve_count (ap_id r) d' \<noteq> length (ap_required r)
     then Inl (Err ''approval decision count exceeds required approvers'')
     else terminalize (ap_id r) ApprovalApproved approver action now d')"

definition decideInTx :: "gtime \<Rightarrow> ID \<Rightarrow> ID \<Rightarrow> string \<Rightarrow> string \<Rightarrow> db \<Rightarrow> db res" where
  "decideInTx now k approver digest action d =
     bindE (loadByID k d) (\<lambda>r.
     if \<not> sameDigest (ap_digest r) digest then Inl (Err ''approval request digest mismatch'')
     else if ap_state r \<noteq> ApprovalPending then Inl (Err ''approval is not PENDING'')
     else if \<not> ap_expires r > now then
       (let d' = set_approval (\<lambda>x. ap_id x = k \<and> ap_state x = ApprovalPending)
                   (\<lambda>x. x\<lparr>ap_state := ApprovalExpired\<rparr>) d in
        Inl (Err ''approval request expired''))
     else if approver \<notin> set (ap_required r) then Inl (Err ''principal is not a required approver'')
     else (case loadDecision k approver d of
        Some x \<Rightarrow>
          if de_action x = action \<and> sameDigest (de_digest x) digest then Inr d
          else Inl (Err ''approver already recorded a different decision'')
      | None \<Rightarrow> record_decision now r approver digest action d))"

definition decide :: "gtime \<Rightarrow> ID \<Rightarrow> ID \<Rightarrow> string \<Rightarrow> string \<Rightarrow> db \<Rightarrow> db \<times> unit res" where
  "decide now k approver digest action d =
     (let k = trim_space k; approver = trim_space approver; digest = trim_space digest in
      if k = [] \<or> approver = [] \<or> digest = []
      then (d, Inl (Err ''approval id, approver, and request digest are required''))
      else if action \<noteq> ''APPROVE'' \<and> action \<noteq> ''REJECT''
      then (d, Inl (Err ''approval action must be APPROVE or REJECT''))
      else with_tx (no_result (decideInTx now k approver digest action)) d)"

definition Approve :: "gtime \<Rightarrow> ID \<Rightarrow> ID \<Rightarrow> string \<Rightarrow> db \<Rightarrow> db \<times> unit res" where
  "Approve now k approver digest = decide now k approver digest ''APPROVE''"

definition Reject :: "gtime \<Rightarrow> ID \<Rightarrow> ID \<Rightarrow> string \<Rightarrow> db \<Rightarrow> db \<times> unit res" where
  "Reject now k approver digest = decide now k approver digest ''REJECT''"

subsection \<open>Consumption\<close>

definition ConsumeInTx :: "gtime \<Rightarrow> ID \<Rightarrow> string \<Rightarrow> db \<Rightarrow> db res" where
  "ConsumeInTx now k digest d =
     (let k = trim_space k; digest = trim_space digest;
          hit = (\<lambda>x. ap_id x = k \<and> ap_state x = ApprovalApproved) in
      if k = [] \<or> digest = [] then Inl (Err ''approval id and request digest are required'')
      else bindE (loadByID k d) (\<lambda>r.
        if \<not> sameDigest (ap_digest r) digest then Inl (Err ''approval request digest mismatch'')
        else if \<not> ap_expires r > now then Inl (Err ''approval request expired'')
        else if ap_state r \<noteq> ApprovalApproved then Inl (Err ''approval is not APPROVED'')
        else if count_where hit (db_approvals d) \<noteq> 1 then Inl (Err ''approval was concurrently changed'')
        else Inr (set_approval hit (\<lambda>x. x\<lparr>ap_state := ApprovalConsumed\<rparr>) d)))"

definition Consume :: "gtime \<Rightarrow> ID \<Rightarrow> string \<Rightarrow> db \<Rightarrow> db \<times> unit res" where
  "Consume now k digest = with_tx (no_result (ConsumeInTx now k digest))"

subsection \<open>The invariant\<close>

interpretation approval_ids: id_normalizer cleanIDs trim_space
  by unfold_locales (auto simp: cleanIDs_def)

definition state_backed :: "approval \<Rightarrow> decision list \<Rightarrow> bool" where
  "state_backed r xs \<longleftrightarrow>
     (case ap_state r of
        ApprovalPending \<Rightarrow> (\<forall>x \<in> set xs. de_action x = ''APPROVE'') \<and> length xs < length (ap_required r)
      | ApprovalApproved \<Rightarrow> (\<forall>x \<in> set xs. de_action x = ''APPROVE'') \<and> de_approver ` set xs = set (ap_required r)
      | ApprovalConsumed \<Rightarrow> (\<forall>x \<in> set xs. de_action x = ''APPROVE'') \<and> de_approver ` set xs = set (ap_required r)
      | ApprovalRejected \<Rightarrow> (\<exists>x \<in> set xs. de_action x = ''REJECT'')
      | ApprovalExpired \<Rightarrow> True)"

definition decision_ok :: "approval \<Rightarrow> decision \<Rightarrow> bool" where
  "decision_ok r x \<longleftrightarrow> de_approver x \<in> set (ap_required r) \<and> sameDigest (ap_digest r) (de_digest x)"

definition approval_ok :: "decision list \<Rightarrow> approval \<Rightarrow> bool" where
  "approval_ok decisions r \<longleftrightarrow> distinct (ap_required r) \<and> ap_required r \<noteq> [] \<and>
     (let xs = filter (\<lambda>x. de_approval x = ap_id r) decisions in
      list_all (decision_ok r) xs \<and> state_backed r xs)"

definition approvals_ok :: "db \<Rightarrow> bool" where
  "approvals_ok d \<longleftrightarrow> distinct (map ap_id (db_approvals d)) \<and> distinct (map decision_key (db_decisions d)) \<and>
     list_all (\<lambda>x. find_by ap_id (de_approval x) (db_approvals d) \<noteq> None) (db_decisions d) \<and>
     list_all (approval_ok (db_decisions d)) (db_approvals d)"

lemma approvals_ok_cong:
  "db_approvals d' = db_approvals d \<Longrightarrow> db_decisions d' = db_decisions d \<Longrightarrow> approvals_ok d' = approvals_ok d"
  by (simp add: approvals_ok_def)

lemma approvals_okD:
  assumes "approvals_ok d"
  shows "distinct (map ap_id (db_approvals d))" "distinct (map decision_key (db_decisions d))"
    "\<And>x. x \<in> set (db_decisions d) \<Longrightarrow> find_by ap_id (de_approval x) (db_approvals d) \<noteq> None"
    "\<And>r. r \<in> set (db_approvals d) \<Longrightarrow> approval_ok (db_decisions d) r"
  using assms by (auto simp: approvals_ok_def list_all_iff)

lemma approval_row:
  "approvals_ok d \<Longrightarrow> find_by ap_id k (db_approvals d) = Some r \<Longrightarrow>
   ap_id r = k \<and> r \<in> set (db_approvals d) \<and> approval_ok (db_decisions d) r"
  using approvals_okD(4) find_by_SomeD by metis

text \<open>The two shapes of change: the rows of one approval change, with at most one decision added.\<close>

definition only_state :: "(approval \<Rightarrow> approval) \<Rightarrow> bool" where
  "only_state f \<longleftrightarrow> (\<forall>r. ap_id (f r) = ap_id r \<and> approval_key (f r) = approval_key r \<and>
     ap_required (f r) = ap_required r \<and> ap_digest (f r) = ap_digest r)"

lemma approvals_ok_change:
  assumes ok: "approvals_ok d" and r: "find_by ap_id k (db_approvals d) = Some r"
    and f: "only_state f" and hit: "\<And>x. x \<in> set (db_approvals d) \<Longrightarrow> P x \<longleftrightarrow> x = r"
    and new: "\<And>x. x \<in> set new \<Longrightarrow> de_approval x = k" "distinct (map decision_key (db_decisions d @ new))"
    and after: "approval_ok (db_decisions d @ new) (f r)"
    and d': "db_approvals d' = update_where P f (db_approvals d)" "db_decisions d' = db_decisions d @ new"
  shows "approvals_ok d'"
proof -
  have ids: "map ap_id (db_approvals d') = map ap_id (db_approvals d)"
    unfolding d' using f by (intro map_key_update_where) (simp add: only_state_def)
  have find_r: "find_by ap_id j (db_approvals d') = map_option (\<lambda>x. if P x then f x else x) (find_by ap_id j (db_approvals d))" for j
    unfolding d' using f by (intro find_by_update_where) (simp add: only_state_def)
  have row: "ap_id r = k" "r \<in> set (db_approvals d)" using find_by_SomeD [OF r] by auto
  have "approval_ok (db_decisions d') (if P x then f x else x)" if x: "x \<in> set (db_approvals d)" for x
  proof (cases "x = r")
    case True
    with after hit [OF x] show ?thesis by (simp add: d')
  next
    case False
    then have "ap_id x \<noteq> k"
      using find_by_member [OF approvals_okD(1) [OF ok] x] r by auto
    then have "filter (\<lambda>y. de_approval y = ap_id x) new = []"
      using new(1) by (auto simp: filter_empty_conv)
    with approvals_okD(4) [OF ok x] False hit [OF x] show ?thesis by (simp add: approval_ok_def d')
  qed
  then have "list_all (approval_ok (db_decisions d')) (db_approvals d')"
    unfolding list_all_iff d'(1) all_update_where by blast
  moreover have "find_by ap_id (de_approval x) (db_approvals d') \<noteq> None" if "x \<in> set (db_decisions d')" for x
    using that approvals_okD(3) [OF ok, of x] new(1) [of x] r by (auto simp: find_r d'(2))
  ultimately show ?thesis
    using approvals_okD(1) [OF ok] new(2) ids by (simp add: approvals_ok_def list_all_iff d'(2))
qed

subsection \<open>The operations keep it\<close>

lemma insert_approval_Inr:
  "insert_approval r d = Inr d' \<longleftrightarrow> d' = d\<lparr>db_approvals := db_approvals d @ [r]\<rparr> \<and>
   ap_id r \<notin> ap_id ` set (db_approvals d) \<and> approval_key r \<notin> approval_key ` set (db_approvals d)"
  by (auto simp: insert_approval_def bind_simps exists_where_iff image_iff)

lemma validateCreate_Inr:
  "validateCreate now q = Inr q' \<Longrightarrow> cr_required q' = cleanIDs (cr_required q) \<and> cleanIDs (cr_required q) \<noteq> [] \<and>
   cr_digest q' = trim_space (cr_digest q) \<and> now < cr_expires q'"
  by (auto simp: validateCreate_def Let_def split: if_splits)

lemma CreateInTx_Inr:
  assumes "CreateInTx now created rand request d = Inr (r, d')"
  shows "d' = d \<and> r \<in> set (db_approvals d) \<or>
    d' = d\<lparr>db_approvals := db_approvals d @ [r]\<rparr> \<and> ap_id r \<notin> ap_id ` set (db_approvals d) \<and>
    ap_state r = ApprovalPending \<and> ap_required r = cleanIDs (cr_required request) \<and> ap_required r \<noteq> [] \<and>
    ap_digest r = trim_space (cr_digest request) \<and> now < ap_expires r"
proof -
  obtain q where q: "validateCreate now request = Inr q"
    using assms unfolding CreateInTx_def bindE_Inr_iff by blast
  note fields = validateCreate_Inr [OF q]
  show ?thesis
  proof (cases "loadBySubjectDigest (cr_kind q) (cr_subject q) (cr_digest q) d")
    case None
    with assms q have "d' = d\<lparr>db_approvals := db_approvals d @ [r]\<rparr>" "ap_id r \<notin> ap_id ` set (db_approvals d)"
      "ap_state r = ApprovalPending" "ap_required r = cr_required q" "ap_digest r = cr_digest q" "ap_expires r = cr_expires q"
      by (auto simp: CreateInTx_def Let_def bindE_Inr_iff insert_approval_Inr)
    with fields show ?thesis by simp
  next
    case (Some existing)
    with assms q have "d' = d" "r = existing" by (auto simp: CreateInTx_def split: if_splits)
    moreover have "existing \<in> set (db_approvals d)"
      using Some find_by_SomeD unfolding loadBySubjectDigest_def by metis
    ultimately show ?thesis by simp
  qed
qed

lemma CreateInTx_ok:
  assumes ok: "approvals_ok d" and run: "CreateInTx now created rand request d = Inr (r, d')"
  shows "approvals_ok d'"
  using CreateInTx_Inr [OF run]
proof (elim disjE conjE)
  assume new: "d' = d\<lparr>db_approvals := db_approvals d @ [r]\<rparr>" "ap_id r \<notin> ap_id ` set (db_approvals d)"
    "ap_state r = ApprovalPending" "ap_required r = cleanIDs (cr_required request)" "ap_required r \<noteq> []"
  have "de_approval x \<noteq> ap_id r" if x: "x \<in> set (db_decisions d)" for x
  proof
    assume "de_approval x = ap_id r"
    moreover obtain y where "find_by ap_id (de_approval x) (db_approvals d) = Some y"
      using approvals_okD(3) [OF ok x] by blast
    ultimately show False using new(2) find_by_SomeD by (metis image_eqI)
  qed
  then have "filter (\<lambda>x. de_approval x = ap_id r) (db_decisions d) = []"
    by (simp add: filter_empty_conv)
  with new approval_ids.norm_distinct [of "cr_required request"]
  have "approval_ok (db_decisions d) r" by (simp add: approval_ok_def state_backed_def)
  moreover have "find_by ap_id (de_approval x) (db_approvals d @ [r]) \<noteq> None" if "x \<in> set (db_decisions d)" for x
    using approvals_okD(3) [OF ok that] by (auto simp: find_by_append)
  ultimately show ?thesis using approvals_okD [OF ok] new by (simp add: approvals_ok_def list_all_iff)
qed (use ok in simp)

lemma loadByID_Inr: "loadByID k d = Inr r \<longleftrightarrow> find_by ap_id k (db_approvals d) = Some r"
  by (simp add: loadByID_def split: option.split)

lemma terminalize_Inr:
  "terminalize k target actor action now d = Inr d' \<Longrightarrow>
   d' = set_approval (\<lambda>r. ap_id r = k \<and> ap_state r = ApprovalPending)
     (\<lambda>r. r\<lparr>ap_state := target, ap_decided := Some now, ap_approver := actor, ap_action := action\<rparr>) d"
  by (simp add: terminalize_def Let_def split: if_splits)

lemma insert_decision_Inr:
  "insert_decision x d = Inr d' \<longleftrightarrow> d' = d\<lparr>db_decisions := db_decisions d @ [x]\<rparr> \<and>
   decision_key x \<notin> decision_key ` set (db_decisions d)"
  by (auto simp: insert_decision_def bind_simps exists_where_iff image_iff)

lemma approve_count_all:
  "(\<And>x. x \<in> set (db_decisions d) \<Longrightarrow> de_approval x = k \<Longrightarrow> de_action x = ''APPROVE'') \<Longrightarrow>
   approve_count k d = length (filter (\<lambda>x. de_approval x = k) (db_decisions d))"
  unfolding approve_count_def count_where_def by (intro arg_cong [where f = length] filter_cong) auto

lemma record_decision_Inr:
  assumes "record_decision now r approver digest action d = Inr d'"
  obtains x f where "x = \<lparr>de_approval = ap_id r, de_approver = approver, de_digest = digest,
      de_action = action, de_at = now\<rparr>"
    "decision_key x \<notin> decision_key ` set (db_decisions d)"
    "d' = d\<lparr>db_approvals := update_where (\<lambda>y. ap_id y = ap_id r \<and> ap_state y = ApprovalPending) f (db_approvals d),
         db_decisions := db_decisions d @ [x]\<rparr>"
    "f = (if action = ''REJECT'' then (\<lambda>y. y\<lparr>ap_state := ApprovalRejected, ap_decided := Some now,
            ap_approver := approver, ap_action := action\<rparr>)
          else if approve_count (ap_id r) (d\<lparr>db_decisions := db_decisions d @ [x]\<rparr>) < length (ap_required r) then id
          else (\<lambda>y. y\<lparr>ap_state := ApprovalApproved, ap_decided := Some now,
            ap_approver := approver, ap_action := action\<rparr>))"
    "action = ''REJECT'' \<or> approve_count (ap_id r) (d\<lparr>db_decisions := db_decisions d @ [x]\<rparr>) \<le> length (ap_required r)"
proof -
  let ?x = "\<lparr>de_approval = ap_id r, de_approver = approver, de_digest = digest, de_action = action, de_at = now\<rparr>"
  let ?d = "d\<lparr>db_decisions := db_decisions d @ [?x]\<rparr>"
  have new: "decision_key ?x \<notin> decision_key ` set (db_decisions d)"
    and run: "(if action = ''REJECT'' then terminalize (ap_id r) ApprovalRejected approver action now ?d
     else if approve_count (ap_id r) ?d < length (ap_required r) then Inr ?d
     else if approve_count (ap_id r) ?d \<noteq> length (ap_required r)
     then Inl (Err ''approval decision count exceeds required approvers'')
     else terminalize (ap_id r) ApprovalApproved approver action now ?d) = Inr d'"
    using assms by (simp_all only: record_decision_def bindE_Inr_iff insert_decision_Inr) auto
  have id: "update_where P id rows = rows" for P and rows :: "approval list"
    by (simp add: update_where_def map_idI)
  show thesis
    by (rule that [OF refl new _ refl]; use run in \<open>auto split: if_splits dest!: terminalize_Inr simp: set_approval_def id\<close>)
qed

lemma all_required_decided:
  assumes "distinct (map decision_key ds)" and "list_all (decision_ok r) (filter (\<lambda>x. de_approval x = k) ds)"
    and "distinct (ap_required r)" and "length (filter (\<lambda>x. de_approval x = k) ds) = length (ap_required r)"
  shows "de_approver ` set (filter (\<lambda>x. de_approval x = k) ds) = set (ap_required r)"
proof -
  let ?xs = "filter (\<lambda>x. de_approval x = k) ds"
  have "distinct (map decision_key ?xs)" using assms(1) by (rule distinct_map_filter)
  then have "distinct (map de_approver ?xs)"
    by (auto simp: distinct_map inj_on_def decision_key_def)
  then have "card (de_approver ` set ?xs) = length ?xs"
    by (metis distinct_card length_map set_map)
  moreover have "card (set (ap_required r)) = length (ap_required r)"
    using assms(3) by (rule distinct_card)
  moreover have "de_approver ` set ?xs \<subseteq> set (ap_required r)"
    using assms(2) by (auto simp: list_all_iff decision_ok_def)
  ultimately show ?thesis
    using assms(4) by (intro card_subset_eq) auto
qed

lemma record_decision_ok:
  assumes ok: "approvals_ok d" and r: "find_by ap_id k (db_approvals d) = Some r" "ap_state r = ApprovalPending"
    and member: "approver \<in> set (ap_required r)" and digest: "sameDigest (ap_digest r) digest"
    and action: "action = ''APPROVE'' \<or> action = ''REJECT''"
    and run: "record_decision now r approver digest action d = Inr d'"
  shows "approvals_ok d'"
  using run
proof (cases rule: record_decision_Inr)
  case (1 x f)
  let ?xs = "filter (\<lambda>x. de_approval x = ap_id r) (db_decisions d)"
  let ?ds = "db_decisions d @ [x]"
  note row = approval_row [OF ok r(1)]
  have x: "de_approval x = ap_id r" "de_approver x = approver" "de_action x = action" "decision_ok r x"
    using 1(1) member digest by (simp_all add: decision_ok_def)
  have pending: "\<And>y. y \<in> set ?xs \<Longrightarrow> de_action y = ''APPROVE''" and backed: "list_all (decision_ok r) ?xs"
    and required: "distinct (ap_required r)" "ap_required r \<noteq> []"
    using row r(2) by (auto simp: approval_ok_def state_backed_def Let_def)
  have distinct: "distinct (map decision_key ?ds)"
    using approvals_okD(2) [OF ok] 1(2) by simp
  have only: "only_state f"
    by (simp add: 1(4) only_state_def approval_key_def)
  then have f: "only_state f" "decision_ok (f r) = decision_ok r" "ap_id (f r) = ap_id r" "ap_required (f r) = ap_required r"
    by (simp_all add: only_state_def decision_ok_def fun_eq_iff)
  have all: "list_all (decision_ok r) (filter (\<lambda>x. de_approval x = ap_id r) ?ds)"
    using backed x by simp
  have count: "approve_count (ap_id r) (d\<lparr>db_decisions := ?ds\<rparr>) = length ?xs + 1" if "action = ''APPROVE''"
    using that pending x by (subst approve_count_all) auto
  have full: "de_approver ` set (filter (\<lambda>x. de_approval x = ap_id r) ?ds) = set (ap_required r)"
    if "length ?xs + 1 = length (ap_required r)"
    using all_required_decided [OF distinct all required(1)] that x(1) by simp
  have "state_backed (f r) (filter (\<lambda>x. de_approval x = ap_id r) ?ds)"
    using action
  proof
    assume a: "action = ''APPROVE''"
    then show ?thesis
      using count [OF a] pending x full r(2) 1(5)
      by (cases "length ?xs + 1 < length (ap_required r)") (simp_all add: 1(4) state_backed_def)
  next
    assume "action = ''REJECT''"
    then show ?thesis using x by (simp add: 1(4) state_backed_def)
  qed
  then have "approval_ok ?ds (f r)"
    using required all by (simp add: approval_ok_def f Let_def)
  moreover have "ap_id y = ap_id r \<and> ap_state y = ApprovalPending \<longleftrightarrow> y = r" if "y \<in> set (db_approvals d)" for y
    using find_by_only [OF approvals_okD(1) [OF ok] r(1) that] row r(2) by auto
  ultimately show ?thesis
    using row r(1) x(1) distinct
    by (intro approvals_ok_change [OF ok _ f(1), of k r _ "[x]"]) (simp_all add: 1(3))
qed

lemma decideInTx_Inr:
  assumes "decideInTx now k approver digest action d = Inr d'"
  obtains r where "find_by ap_id k (db_approvals d) = Some r" "ap_state r = ApprovalPending"
    "sameDigest (ap_digest r) digest" "now < ap_expires r" "approver \<in> set (ap_required r)"
    "d' = d \<or> record_decision now r approver digest action d = Inr d'"
  using assms
  by (auto simp: decideInTx_def bind_simps loadByID_Inr split: if_splits option.splits intro: that)

lemma decide_ok:
  assumes ok: "approvals_ok d"
  shows "approvals_ok (fst (decide now k approver digest action d))"
proof -
  have "approvals_ok d'" if act: "action = ''APPROVE'' \<or> action = ''REJECT''"
    and run: "decideInTx now k approver digest action d = Inr d'" for k approver digest d'
    using run
  proof (cases rule: decideInTx_Inr)
    case (1 r)
    from 1(6) show ?thesis using record_decision_ok [OF ok 1(1,2,5,3) act] ok by blast
  qed
  then show ?thesis
    unfolding decide_def Let_def
    by (auto simp: no_result_Inr ok intro!: with_tx_invariant [where I = approvals_ok])
qed

lemma ConsumeInTx_Inr:
  assumes "ConsumeInTx now k digest d = Inr d'"
  obtains r where "find_by ap_id (trim_space k) (db_approvals d) = Some r" "ap_state r = ApprovalApproved"
    "sameDigest (ap_digest r) digest" "now < ap_expires r"
    "d' = set_approval (\<lambda>x. ap_id x = trim_space k \<and> ap_state x = ApprovalApproved)
       (\<lambda>x. x\<lparr>ap_state := ApprovalConsumed\<rparr>) d"
  using assms
  by (auto simp: ConsumeInTx_def Let_def bind_simps loadByID_Inr sameDigest_def split: if_splits intro: that)

lemma ConsumeInTx_ok:
  assumes ok: "approvals_ok d" and run: "ConsumeInTx now k digest d = Inr d'"
  shows "approvals_ok d'"
  using run
proof (cases rule: ConsumeInTx_Inr)
  case (1 r)
  note row = approval_row [OF ok 1(1)]
  let ?f = "\<lambda>x. x\<lparr>ap_state := ApprovalConsumed\<rparr>"
  have "approval_ok (db_decisions d) (?f r)"
    using row 1(2) by (clarsimp simp: approval_ok_def state_backed_def decision_ok_def [abs_def] Let_def)
  moreover have "ap_id y = trim_space k \<and> ap_state y = ApprovalApproved \<longleftrightarrow> y = r" if "y \<in> set (db_approvals d)" for y
    using find_by_only [OF approvals_okD(1) [OF ok] 1(1) that] 1(2) by auto
  ultimately show ?thesis
    using 1(1,5) approvals_okD(2) [OF ok]
    by (intro approvals_ok_change [OF ok 1(1), of ?f _ "[]"])
      (simp_all add: set_approval_def only_state_def approval_key_def)
qed

subsection \<open>The service as a transition system\<close>

inductive approval_step :: "db \<Rightarrow> db \<Rightarrow> bool" where
  step_create: "approval_step d (fst (Create now created rand request d))"
| step_approve: "approval_step d (fst (Approve now k approver digest d))"
| step_reject: "approval_step d (fst (Reject now k approver digest d))"
| step_consume: "approval_step d (fst (Consume now k digest d))"

lemma Create_ok: "approvals_ok d \<Longrightarrow> approvals_ok (fst (Create now created rand request d))"
  unfolding Create_def by (rule with_tx_invariant [where I = approvals_ok]) (auto intro: CreateInTx_ok)

lemma Consume_ok: "approvals_ok d \<Longrightarrow> approvals_ok (fst (Consume now k digest d))"
  unfolding Consume_def
  by (rule with_tx_invariant [where I = approvals_ok]) (auto simp: no_result_Inr intro: ConsumeInTx_ok)

interpretation approvals: kept_invariant approval_step approvals_ok
  by unfold_locales
    (auto elim!: approval_step.cases simp: Approve_def Reject_def intro: Create_ok decide_ok Consume_ok)

subsection \<open>What the tables remember\<close>

text \<open>The binding of a request never changes, its state only advances, and decisions are append-only.\<close>

fun state_advance :: "approval_state \<Rightarrow> approval_state \<Rightarrow> bool" where
  "state_advance ApprovalPending s = True"
| "state_advance ApprovalApproved s = (s = ApprovalApproved \<or> s = ApprovalConsumed)"
| "state_advance s s' = (s' = s)"

definition later_approval :: "approval \<Rightarrow> approval \<Rightarrow> bool" where
  "later_approval r r' \<longleftrightarrow> r' = r\<lparr>ap_state := ap_state r', ap_decided := ap_decided r', ap_approver := ap_approver r',
     ap_action := ap_action r'\<rparr> \<and> state_advance (ap_state r) (ap_state r')"

definition approval_le :: "db \<Rightarrow> db \<Rightarrow> bool" where
  "approval_le d d' \<longleftrightarrow>
     (\<forall>k r. find_by ap_id k (db_approvals d) = Some r \<longrightarrow>
        (\<exists>r'. find_by ap_id k (db_approvals d') = Some r' \<and> later_approval r r')) \<and>
     (\<exists>new. db_decisions d' = db_decisions d @ new)"

lemma state_advance_refl [simp]: "state_advance s s"
  by (cases s) simp_all

lemma state_advance_trans: "state_advance a b \<Longrightarrow> state_advance b c \<Longrightarrow> state_advance a c"
  by (cases a; cases b) auto

lemma later_approval_refl [simp]: "later_approval r r"
  by (simp add: later_approval_def)

lemma later_approvalD:
  assumes "later_approval r r'"
  shows "ap_id r' = ap_id r" "approval_key r' = approval_key r" "ap_required r' = ap_required r"
    "ap_digest r' = ap_digest r" "ap_expires r' = ap_expires r" "state_advance (ap_state r) (ap_state r')"
proof -
  obtain s c a x where "r' = r\<lparr>ap_state := s, ap_decided := c, ap_approver := a, ap_action := x\<rparr>"
    "state_advance (ap_state r) s"
    using assms unfolding later_approval_def by metis
  then show "ap_id r' = ap_id r" "approval_key r' = approval_key r" "ap_required r' = ap_required r"
    "ap_digest r' = ap_digest r" "ap_expires r' = ap_expires r" "state_advance (ap_state r) (ap_state r')"
    by (simp_all add: approval_key_def)
qed

lemma later_approval_trans: "later_approval r s \<Longrightarrow> later_approval s t \<Longrightarrow> later_approval r t"
proof -
  assume "later_approval r s" "later_approval s t"
  then obtain a b c e a' b' c' e' where
    "s = r\<lparr>ap_state := a, ap_decided := b, ap_approver := c, ap_action := e\<rparr>" "state_advance (ap_state r) a"
    "t = s\<lparr>ap_state := a', ap_decided := b', ap_approver := c', ap_action := e'\<rparr>" "state_advance (ap_state s) a'"
    unfolding later_approval_def by metis
  then show ?thesis by (simp add: later_approval_def) (blast intro: state_advance_trans)
qed

lemma approval_le_refl [simp]: "approval_le d d"
  by (simp add: approval_le_def)

lemma approval_le_trans: "approval_le d e \<Longrightarrow> approval_le e f \<Longrightarrow> approval_le d f"
proof -
  assume le: "approval_le d e" "approval_le e f"
  then obtain x y where "db_decisions e = db_decisions d @ x" "db_decisions f = db_decisions e @ y"
    unfolding approval_le_def by blast
  then have "\<exists>new. db_decisions f = db_decisions d @ new" by simp
  moreover have "\<exists>t. find_by ap_id k (db_approvals f) = Some t \<and> later_approval r t"
    if "find_by ap_id k (db_approvals d) = Some r" for k r
    using le that unfolding approval_le_def by (blast intro: later_approval_trans)
  ultimately show ?thesis unfolding approval_le_def by blast
qed

lemma approval_le_cong:
  "db_approvals e' = db_approvals e \<Longrightarrow> db_decisions e' = db_decisions e \<Longrightarrow> approval_le d e' = approval_le d e"
  by (simp add: approval_le_def)

lemma approval_le_change:
  assumes "\<And>r. r \<in> set (db_approvals d) \<Longrightarrow> P r \<Longrightarrow> later_approval r (f r)"
    and "db_approvals d' = update_where P f (db_approvals d) @ extra" "db_decisions d' = db_decisions d @ new"
  shows "approval_le d d'"
proof -
  have "find_by ap_id k (update_where P f (db_approvals d)) = map_option (\<lambda>r. if P r then f r else r) (find_by ap_id k (db_approvals d))" for k
    using later_approvalD(1) [OF assms(1)] by (intro find_by_update_where)
  then have "\<exists>r'. find_by ap_id k (db_approvals d') = Some r' \<and> later_approval r r'"
    if "find_by ap_id k (db_approvals d) = Some r" for k r
    using that assms(1) [of r] find_by_SomeD [OF that] by (auto simp: assms(2) find_by_append)
  then show ?thesis using assms(3) by (auto simp: approval_le_def)
qed

lemma CreateInTx_le: "CreateInTx now created rand request d = Inr (r, d') \<Longrightarrow> approval_le d d'"
  using CreateInTx_Inr [of now created rand request d r d']
  by (auto intro: approval_le_change [of d "\<lambda>_. False" id _ "[r]" "[]"] simp: update_where_none)

lemma record_decision_le:
  assumes "record_decision now r approver digest action d = Inr d'"
  shows "approval_le d d'"
  using assms
proof (cases rule: record_decision_Inr)
  case (1 x f)
  have "later_approval y (f y)" if "ap_state y = ApprovalPending" for y
    using that by (simp add: 1(4) later_approval_def)
  then show ?thesis
    by (intro approval_le_change [of d _ f _ "[]" "[x]"]) (auto simp: 1(3))
qed

lemma decideInTx_le: "decideInTx now k approver digest action d = Inr d' \<Longrightarrow> approval_le d d'"
  by (erule decideInTx_Inr) (auto intro: record_decision_le)

lemma ConsumeInTx_le: "ConsumeInTx now k digest d = Inr d' \<Longrightarrow> approval_le d d'"
  by (erule ConsumeInTx_Inr)
    (auto intro!: approval_le_change [of d "\<lambda>x. ap_id x = trim_space k \<and> ap_state x = ApprovalApproved"
        "\<lambda>x. x\<lparr>ap_state := ApprovalConsumed\<rparr>" _ "[]" "[]"] simp: set_approval_def later_approval_def)

lemma decide_le: "approval_le d (fst (decide now k approver digest action d))"
  by (auto simp: decide_def Let_def no_result_Inr intro!: with_tx_invariant [where I = "approval_le d"]
      intro: decideInTx_le)

lemma approval_step_le: "approval_step d d' \<Longrightarrow> approval_le d d'"
  by (erule approval_step.cases)
    (auto simp: Create_def Approve_def Reject_def Consume_def no_result_Inr
      intro!: with_tx_invariant [where I = "approval_le d"] decide_le
      intro: CreateInTx_le ConsumeInTx_le)

lemma approval_steps_le: "approval_step\<^sup>*\<^sup>* d d' \<Longrightarrow> approval_le d d'"
  by (induction rule: rtranclp_induct) (auto intro: approval_le_trans approval_step_le)

subsection \<open>Properties\<close>

definition has_approved :: "db \<Rightarrow> approval \<Rightarrow> ID \<Rightarrow> bool" where
  "has_approved d r p \<longleftrightarrow> exists_where (\<lambda>x. de_approval x = ap_id r \<and> de_approver x = p \<and>
     de_action x = ''APPROVE'' \<and> sameDigest (ap_digest r) (de_digest x)) (db_decisions d)"

lemma decided_once:
  "approvals_ok d \<Longrightarrow> x \<in> set (db_decisions d) \<Longrightarrow> y \<in> set (db_decisions d) \<Longrightarrow>
   de_approval x = de_approval y \<Longrightarrow> de_approver x = de_approver y \<Longrightarrow> x = y"
  using approvals_okD(2) [of d] by (simp add: distinct_map inj_on_def decision_key_def)

lemma approved_iff:
  assumes ok: "approvals_ok d" and r: "r \<in> set (db_approvals d)" and "ap_state r \<noteq> ApprovalExpired"
  shows "ap_state r = ApprovalApproved \<or> ap_state r = ApprovalConsumed \<longleftrightarrow> (\<forall>p \<in> set (ap_required r). has_approved d r p)"
proof -
  let ?xs = "filter (\<lambda>x. de_approval x = ap_id r) (db_decisions d)"
  have row: "distinct (ap_required r)" "ap_required r \<noteq> []" "list_all (decision_ok r) ?xs" "state_backed r ?xs"
    using approvals_okD(4) [OF ok r] by (auto simp: approval_ok_def Let_def)
  have digest: "sameDigest (ap_digest r) (de_digest x)" "de_approver x \<in> set (ap_required r)" if "x \<in> set ?xs" for x
    using row(3) that by (auto simp: list_all_iff decision_ok_def)
  have all: "set (ap_required r) \<subseteq> de_approver ` set ?xs" if "\<forall>p \<in> set (ap_required r). has_approved d r p"
    using that by (force simp: has_approved_def exists_where_iff)
  show ?thesis
  proof (cases "ap_state r")
    case ApprovalPending
    then have "length ?xs < length (ap_required r)" using row(4) by (simp add: state_backed_def)
    then have "card (de_approver ` set ?xs) < card (set (ap_required r))"
      using card_image_le [of "set ?xs" de_approver] card_length [of ?xs] distinct_card [OF row(1)] by simp
    then have "\<not> set (ap_required r) \<subseteq> de_approver ` set ?xs"
      using card_mono [of "de_approver ` set ?xs" "set (ap_required r)"] by auto
    then show ?thesis using ApprovalPending all by auto
  next
    case ApprovalRejected
    then obtain x where x: "x \<in> set (db_decisions d)" "de_approval x = ap_id r" "de_action x = ''REJECT''"
      "de_approver x \<in> set (ap_required r)"
      using row(4) digest(2) by (auto simp: state_backed_def)
    have "\<not> has_approved d r (de_approver x)"
      using decided_once [OF ok x(1)] x by (force simp: has_approved_def exists_where_iff)
    then show ?thesis using ApprovalRejected x(4) by auto
  next
    case ApprovalApproved
    then show ?thesis
      using row(4) digest by (force simp: state_backed_def has_approved_def exists_where_iff)
  next
    case ApprovalConsumed
    then show ?thesis
      using row(4) digest by (force simp: state_backed_def has_approved_def exists_where_iff)
  qed (use assms(3) in simp)
qed

definition demo_ask :: CreateRequest where
  "demo_ask = \<lparr>cr_kind = ''K'', cr_subject = ''s'', cr_digest = ''d'', cr_policy = [],
     cr_required = ['' b'', ''a'', ''b ''], cr_requester = ''q'', cr_expires = 100\<rparr>"

definition demo_asked :: db where
  "demo_asked = fst (Create 1 1 ''1'' demo_ask empty_db)"

definition demo_half :: db where
  "demo_half = fst (Approve 2 ''approval_1'' ''a'' ''d'' demo_asked)"

definition demo_approved :: db where
  "demo_approved = fst (Approve 3 ''approval_1'' ''b'' ''d'' demo_half)"

definition demo_consumed :: db where
  "demo_consumed = fst (Consume 4 ''approval_1'' ''d'' demo_approved)"

lemma demo_approval_steps:
  "approval_step\<^sup>*\<^sup>* empty_db demo_asked" "approval_step\<^sup>*\<^sup>* demo_asked demo_approved"
  unfolding demo_asked_def demo_approved_def demo_half_def
  by (blast intro: step_create step_approve rtranclp.intros)+

lemma empty_approvals_ok: "approvals_ok empty_db"
  by code_simp

text \<open>
  An approval means that everyone approved: in every state the approval service reaches, a request
  is APPROVED or CONSUMED exactly when each of its required approvers has recorded APPROVE for its
  digest; one missing approver or one rejection keeps it from being approved.
\<close>

theorem approved_means_all_approved:
  assumes "approval_step\<^sup>*\<^sup>* d0 d" and "approvals_ok d0" and "find_by ap_id k (db_approvals d) = Some r"
    and "ap_state r \<noteq> ApprovalExpired"
  shows "ap_state r = ApprovalApproved \<or> ap_state r = ApprovalConsumed \<longleftrightarrow>
    (\<forall>p \<in> set (ap_required r). has_approved d r p)"
  using approved_iff [OF approvals.reach_inv [OF assms(1,2)]] find_by_SomeD [OF assms(3)] assms(4) by blast

lemma approved_means_all_approved_witness:
  "\<exists>r. find_by ap_id ''approval_1'' (db_approvals demo_approved) = Some r \<and> has_approved demo_approved r ''a''"
proof -
  have steps: "approval_step\<^sup>*\<^sup>* empty_db demo_approved"
    using demo_approval_steps by (rule rtranclp_trans)
  obtain r where r: "db_approvals demo_approved = [r]" "ap_id r = ''approval_1''" "ap_state r = ApprovalApproved"
    "ap_required r = [''a'', ''b'']"
  proof -
    have "map (\<lambda>r. (ap_id r, ap_state r, ap_required r)) (db_approvals demo_approved) =
        [(''approval_1'', ApprovalApproved, [''a'', ''b''])]" by code_simp
    then show thesis by (auto simp: map_eq_Cons_conv intro: that)
  qed
  then have row: "find_by ap_id ''approval_1'' (db_approvals demo_approved) = Some r"
    by (simp add: find_by_Cons)
  from approved_means_all_approved [OF steps empty_approvals_ok row] r show ?thesis
    using row by simp
qed

text \<open>
  An approval is consumed once: when \<open>Consume\<close> has succeeded, the request was APPROVED for that digest
  and not expired, it is CONSUMED in every later state of the service, and every further \<open>Consume\<close> of
  it fails and changes nothing.
\<close>

theorem consumed_once:
  assumes "approvals_ok d" and "Consume now k digest d = (d1, Inr u)" and "approval_step\<^sup>*\<^sup>* d1 d2"
  shows "(\<exists>r. find_by ap_id (trim_space k) (db_approvals d) = Some r \<and> ap_state r = ApprovalApproved \<and>
      sameDigest (ap_digest r) digest \<and> now < ap_expires r) \<and>
    (\<exists>r. find_by ap_id (trim_space k) (db_approvals d2) = Some r \<and> ap_state r = ApprovalConsumed) \<and>
    (\<exists>e. Consume now' k digest' d2 = (d2, Inl e))"
proof -
  have "ConsumeInTx now k digest d = Inr d1"
    using assms(2) by (simp add: Consume_def with_tx_Inr_iff no_result_Inr)
  then obtain r where r: "find_by ap_id (trim_space k) (db_approvals d) = Some r" "ap_state r = ApprovalApproved"
    "sameDigest (ap_digest r) digest" "now < ap_expires r" and
    d1: "d1 = set_approval (\<lambda>x. ap_id x = trim_space k \<and> ap_state x = ApprovalApproved)
       (\<lambda>x. x\<lparr>ap_state := ApprovalConsumed\<rparr>) d"
    by (rule ConsumeInTx_Inr)
  have "find_by ap_id (trim_space k) (db_approvals d1) = Some (r\<lparr>ap_state := ApprovalConsumed\<rparr>)"
    using r find_by_SomeD [OF r(1)] by (simp add: d1 set_approval_def find_by_update_where)
  with approval_steps_le [OF assms(3)] obtain r2 where
    r2: "find_by ap_id (trim_space k) (db_approvals d2) = Some r2" "later_approval (r\<lparr>ap_state := ApprovalConsumed\<rparr>) r2"
    unfolding approval_le_def by blast
  have consumed: "ap_state r2 = ApprovalConsumed" using later_approvalD(6) [OF r2(2)] by simp
  have "ConsumeInTx now' k digest' d2 \<noteq> Inr d3" for d3
    using r2(1) consumed by (auto elim!: ConsumeInTx_Inr)
  then have "\<exists>e. ConsumeInTx now' k digest' d2 = Inl e"
    by (cases "ConsumeInTx now' k digest' d2") auto
  then have "\<exists>e. Consume now' k digest' d2 = (d2, Inl e)"
    by (auto simp: Consume_def with_tx_def no_result_def)
  with r r2 consumed show ?thesis by blast
qed

lemma consumed_once_witness: "\<exists>e. Consume 5 ''approval_1'' ''d'' demo_consumed = (demo_consumed, Inl e)"
proof -
  have "approvals_ok demo_approved"
    using approvals.reach_inv [OF rtranclp_trans [OF demo_approval_steps] empty_approvals_ok] .
  moreover have "Consume 4 ''approval_1'' ''d'' demo_approved = (demo_consumed, Inr ())"
    by code_simp
  ultimately show ?thesis using consumed_once [of demo_approved 4 "''approval_1''" "''d''"] by blast
qed

lemma no_expired_update:
  "\<forall>r \<in> set rows. ap_state r \<noteq> ApprovalExpired \<Longrightarrow> (\<And>r. ap_state r \<noteq> ApprovalExpired \<Longrightarrow> ap_state (f r) \<noteq> ApprovalExpired) \<Longrightarrow>
   \<forall>r \<in> set (update_where P f rows). ap_state r \<noteq> ApprovalExpired"
  by (auto simp: set_update_where)

lemma no_expired_record:
  assumes "record_decision now r approver digest action d = Inr d'" and "\<forall>r \<in> set (db_approvals d). ap_state r \<noteq> ApprovalExpired"
  shows "\<forall>r \<in> set (db_approvals d'). ap_state r \<noteq> ApprovalExpired"
  using assms(1)
proof (cases rule: record_decision_Inr)
  case (1 x f)
  have "ap_state (f y) \<noteq> ApprovalExpired" if "ap_state y \<noteq> ApprovalExpired" for y
    using that by (simp add: 1(4))
  from no_expired_update [OF assms(2) this] show ?thesis by (simp add: 1(3))
qed

definition never_expired :: "db \<Rightarrow> bool" where
  "never_expired d \<longleftrightarrow> (\<forall>r \<in> set (db_approvals d). ap_state r \<noteq> ApprovalExpired)"

lemma never_expired_ops:
  assumes "never_expired d"
  shows "CreateInTx now created rand request d = Inr (r, d') \<Longrightarrow> never_expired d'"
    and "decideInTx now k approver digest action d = Inr d' \<Longrightarrow> never_expired d'"
    and "ConsumeInTx now k digest d = Inr d' \<Longrightarrow> never_expired d'"
proof -
  show "CreateInTx now created rand request d = Inr (r, d') \<Longrightarrow> never_expired d'"
    using assms unfolding never_expired_def by (elim disjE conjE CreateInTx_Inr [THEN disjE]) simp_all
  show "never_expired d'" if "decideInTx now k approver digest action d = Inr d'"
    using that
  proof (cases rule: decideInTx_Inr)
    case (1 r)
    with assms no_expired_record show ?thesis unfolding never_expired_def by blast
  qed
  show "never_expired d'" if "ConsumeInTx now k digest d = Inr d'"
    using that
  proof (cases rule: ConsumeInTx_Inr)
    case (1 r)
    with assms show ?thesis
      by (auto simp: never_expired_def set_approval_def set_update_where)
  qed
qed

lemma never_expired_empty: "never_expired empty_db"
  by (simp add: never_expired_def empty_db_def)

lemma no_expired_step:
  assumes "approval_step d d'" and no: "never_expired d"
  shows "never_expired d'"
proof -
  have "never_expired (fst (decide now k approver digest action d))" for now k approver digest action
    unfolding decide_def Let_def
    by (auto simp: no_result_Inr no intro!: with_tx_invariant [where I = never_expired]
        intro: never_expired_ops(2) [OF no])
  moreover have "never_expired (fst (Create now created rand request d))" for now created rand request
    unfolding Create_def by (rule with_tx_invariant [where I = never_expired]) (auto intro: no never_expired_ops(1) [OF no])
  moreover have "never_expired (fst (Consume now k digest d))" for now k digest
    unfolding Consume_def
    by (rule with_tx_invariant [where I = never_expired]) (auto simp: no_result_Inr intro: no never_expired_ops(3) [OF no])
  ultimately have kept: "never_expired (fst (decide now k approver digest action d))"
    "never_expired (fst (Create now created rand request d))" "never_expired (fst (Consume now k digest d))"
    for now k approver digest action created rand request by blast+
  from assms(1) show ?thesis by cases (simp_all add: Approve_def Reject_def kept)
qed

text \<open>
  EXPIRED is never recorded: \<open>decide\<close> writes the state EXPIRED and then fails, so the transaction is
  rolled back; no sequence of calls of the service ever leaves a request in the state EXPIRED, and a
  decision on an expired request changes nothing.
\<close>

theorem expired_is_never_recorded:
  assumes "approval_step\<^sup>*\<^sup>* empty_db d"
  shows "(\<forall>r \<in> set (db_approvals d). ap_state r \<noteq> ApprovalExpired) \<and>
    (\<forall>k r now. find_by ap_id (trim_space k) (db_approvals d) = Some r \<and> ap_expires r \<le> now \<longrightarrow>
       fst (decide now k approver digest action d) = d)"
proof
  have "never_expired d"
    using assms
    by (induction rule: rtranclp_induct) (simp_all add: never_expired_empty no_expired_step)
  then show "\<forall>r \<in> set (db_approvals d). ap_state r \<noteq> ApprovalExpired"
    by (simp add: never_expired_def)
  show "\<forall>k r now. find_by ap_id (trim_space k) (db_approvals d) = Some r \<and> ap_expires r \<le> now \<longrightarrow>
       fst (decide now k approver digest action d) = d"
    by (auto simp: decide_def Let_def with_tx_def no_result_def decideInTx_def loadByID_def)
qed

lemma expired_is_never_recorded_witness:
  "fst (Approve 100 ''approval_1'' ''a'' ''d'' demo_asked) = demo_asked"
proof -
  have "map (\<lambda>r. (ap_id r, ap_expires r)) (db_approvals demo_asked) = [(''approval_1'', 100)]" by code_simp
  then obtain r where "db_approvals demo_asked = [r]" "ap_id r = ''approval_1''" "ap_expires r = 100"
    by (auto simp: map_eq_Cons_conv)
  moreover have "trim_space ''approval_1'' = ''approval_1''" by code_simp
  ultimately have "find_by ap_id (trim_space ''approval_1'') (db_approvals demo_asked) = Some r \<and> ap_expires r \<le> 100"
    by (simp add: find_by_Cons)
  with expired_is_never_recorded [OF demo_approval_steps(1)] show ?thesis
    unfolding Approve_def by blast
qed

text \<open>
  \<open>Pending\<close> compares times as text: a PENDING request that expires on a whole second is still listed
  during the rest of that second, although \<open>decide\<close> already refuses every decision on it as expired.
\<close>

theorem Pending_lists_expired:
  assumes "r \<in> set (db_approvals d)" and "ap_state r = ApprovalPending"
    and "ap_expires r mod 1000000000 = 0" and "ap_expires r < now" and "now < ap_expires r + 1000000000"
  shows "r \<in> fst ` set (Pending now d) \<and>
    (distinct (map ap_id (db_approvals d)) \<and> trim_space (ap_id r) = ap_id r \<longrightarrow>
     (\<exists>e. decide now (ap_id r) approver digest action d = (d, Inl e)))"
proof
  have "formatTime now < formatTime (ap_expires r)"
    using formatTime_whole_second assms(3-5) .
  then show "r \<in> fst ` set (Pending now d)"
    using assms(1,2) by (force simp: Pending_def)
  show "distinct (map ap_id (db_approvals d)) \<and> trim_space (ap_id r) = ap_id r \<longrightarrow>
     (\<exists>e. decide now (ap_id r) approver digest action d = (d, Inl e))"
    using find_by_member [of ap_id "db_approvals d" r] assms(1,4)
    by (auto simp: decide_def Let_def with_tx_def no_result_def decideInTx_def loadByID_def)
qed

definition demo_late :: db where
  "demo_late = fst (Create 1 1 ''1'' (demo_ask\<lparr>cr_expires := 63890208000000000000\<rparr>) empty_db)"

lemma Pending_lists_expired_witness:
  "''approval_1'' \<in> ap_id ` fst ` set (Pending 63890208000500000000 demo_late)"
proof -
  have "map (\<lambda>r. (ap_id r, ap_state r, ap_expires r)) (db_approvals demo_late) =
      [(''approval_1'', ApprovalPending, 63890208000000000000)]" by code_simp
  then obtain r where "db_approvals demo_late = [r]" "ap_id r = ''approval_1''" "ap_state r = ApprovalPending"
    "ap_expires r = 63890208000000000000"
    by (auto simp: map_eq_Cons_conv)
  then have "r \<in> fst ` set (Pending 63890208000500000000 demo_late)"
    using Pending_lists_expired [of r demo_late 63890208000500000000] by simp
  then show ?thesis using \<open>ap_id r = ''approval_1''\<close> by (metis image_eqI)
qed

end
