(* ===== verification/Go_Library.thy ===== *)
theory Go_Library
  imports Tables
begin

text \<open>
  More of the Go language and its standard library: division of 64-bit integers, the functions of \<open>strings\<close> that split, join
  and change the case of texts, and the order-keeping removal of repeated identifiers that several packages carry.
\<close>

subsection \<open>Division\<close>

text \<open>Go truncates towards zero; the one quotient outside the range, of the least integer by -1, wraps.\<close>

definition quot64 :: "int \<Rightarrow> int \<Rightarrow> int" where
  "quot64 a b = wrap64 (sgn a * sgn b * (\<bar>a\<bar> div \<bar>b\<bar>))"

lemma quot64_nonneg:
  assumes "0 \<le> a" and "0 < b" and "in64 a"
  shows "quot64 a b = a div b"
proof -
  have "0 \<le> a div b" "a div b \<le> a" using assms(1,2) using zdiv_mono2 [of a 1 b] by (auto simp: pos_imp_zdiv_nonneg_iff)
  then have "in64 (a div b)" using assms(3) by (auto simp: in64_def)
  moreover have "sgn a * sgn b * (\<bar>a\<bar> div \<bar>b\<bar>) = a div b" using assms(1,2) by (cases "a = 0") (simp_all add: sgn_if)
  ultimately show ?thesis by (simp add: quot64_def wrap64_id)
qed

lemma in64_nonneg_le: "0 \<le> a \<Longrightarrow> a \<le> b \<Longrightarrow> in64 b \<Longrightarrow> in64 a"
  by (simp add: in64_def)

lemma wrap64_add_left [simp]: "wrap64 (wrap64 a + b) = wrap64 (a + b)"
proof -
  have "(wrap64 a + b + 2 ^ 63) mod 2 ^ 64 = (a + b + 2 ^ 63) mod (2 :: int) ^ 64"
    unfolding wrap64_def by (simp add: mod_simps algebra_simps)
  then show ?thesis by (simp add: wrap64_def)
qed

lemma wrap64_add_right [simp]: "wrap64 (a + wrap64 b) = wrap64 (a + b)"
  using wrap64_add_left [of b a] by (simp add: add.commute)

subsection \<open>\<open>strings.ToLower\<close>\<close>

text \<open>
  A text of ASCII bytes is changed byte by byte. For any other text the function maps each rune with the case tables
  of Unicode; those tables are the argument \<open>U\<close>.
\<close>

definition ascii_lower :: "char \<Rightarrow> char" where
  "ascii_lower c = (if CHR ''A'' \<le> c \<and> c \<le> CHR ''Z'' then char_of (of_char c + (32 :: nat)) else c)"

definition to_lower :: "(string \<Rightarrow> string) \<Rightarrow> string \<Rightarrow> string" where
  "to_lower U s = (if list_all (\<lambda>c. of_char c < (128 :: nat)) s then map ascii_lower s else U s)"

subsection \<open>\<open>strings.FieldsFunc\<close>, \<open>strings.Fields\<close>, \<open>strings.Join\<close>\<close>

definition word_list :: "string \<Rightarrow> string list" where
  "word_list w = (if w = [] then [] else [w])"

text \<open>\<open>FieldsFunc\<close> with separators that are ASCII runes, each of which is one byte of the text and of no other rune.\<close>

fun fields_by :: "(char \<Rightarrow> bool) \<Rightarrow> string \<Rightarrow> string \<Rightarrow> string list" where
  "fields_by sep w [] = word_list w"
| "fields_by sep w (c # s) = (if sep c then word_list w @ fields_by sep [] s else fields_by sep (w @ [c]) s)"

definition FieldsFunc :: "(char \<Rightarrow> bool) \<Rightarrow> string \<Rightarrow> string list" where
  "FieldsFunc sep s = fields_by sep [] s"

text \<open>\<open>Fields\<close> splits at white space: where the encoding of a space starts, all its bytes are skipped.\<close>

fun fields_space :: "string \<Rightarrow> string \<Rightarrow> string list" where
  "fields_space w [] = word_list w"
| "fields_space w (c # s) =
     (case find (\<lambda>p. take (length p) (c # s) = p) go_spaces of
        None \<Rightarrow> fields_space (w @ [c]) s
      | Some p \<Rightarrow> word_list w @ fields_space [] (drop (length p - 1) s))"

definition Fields :: "string \<Rightarrow> string list" where
  "Fields s = fields_space [] s"

fun Join :: "string list \<Rightarrow> string \<Rightarrow> string" where
  "Join [] sep = []"
| "Join [x] sep = x"
| "Join (x # y # xs) sep = x @ sep @ Join (y # xs) sep"

lemma word_list_no_blank: "[] \<notin> set (word_list w)"
  by (simp add: word_list_def)

lemma FieldsFunc_words: "x \<in> set (FieldsFunc sep s) \<Longrightarrow> x \<noteq> [] \<and> list_all (\<lambda>c. \<not> sep c) x"
proof -
  have "x \<in> set (fields_by sep w s) \<Longrightarrow> list_all (\<lambda>c. \<not> sep c) w \<Longrightarrow> x \<noteq> [] \<and> list_all (\<lambda>c. \<not> sep c) x" for w
    by (induction sep w s rule: fields_by.induct) (auto simp: word_list_def split: if_splits)
  then show "x \<in> set (FieldsFunc sep s) \<Longrightarrow> x \<noteq> [] \<and> list_all (\<lambda>c. \<not> sep c) x" by (simp add: FieldsFunc_def)
qed

lemma Fields_no_blank: "[] \<notin> set (Fields s)"
proof -
  have "[] \<notin> set (fields_space w s)" for w
    by (induction w s rule: fields_space.induct) (auto simp: word_list_no_blank split: option.split)
  then show ?thesis by (simp add: Fields_def)
qed

subsection \<open>Numbers and lines\<close>

text \<open>Decimal digits of \<open>%d\<close>.\<close>

function decimal :: "int \<Rightarrow> string" where
  "decimal n = (if n < 0 then CHR ''-'' # decimal (- n)
     else if n < 10 then [char_of (48 + n)] else decimal (n div 10) @ [char_of (48 + n mod 10)])"
  by pat_completeness auto
termination by (relation "measure (\<lambda>n. nat (2 * \<bar>n\<bar> + (if n < 0 then 1 else 0)))") auto

declare decimal.simps [simp del]

definition newline :: string where
  "newline = [CHR 0x0A]"

subsection \<open>Tokens\<close>

text \<open>
  The regular expressions \<open>^[first][rest]{0,n}$\<close> of the packages, over bytes: each class is a list of ranges, and \<open>$\<close> without a
  flag is the end of the text.
\<close>

definition in_ranges :: "(char \<times> char) list \<Rightarrow> char \<Rightarrow> bool" where
  "in_ranges rs c \<longleftrightarrow> list_ex (\<lambda>r. fst r \<le> c \<and> c \<le> snd r) rs"

definition upper_range :: "char \<times> char" where "upper_range = (CHR ''A'', CHR ''Z'')"

definition lower_range :: "char \<times> char" where "lower_range = (CHR ''a'', CHR ''z'')"

definition digit_range :: "char \<times> char" where "digit_range = (CHR ''0'', CHR ''9'')"

definition letter_or_digit :: "char \<Rightarrow> bool" where
  "letter_or_digit = in_ranges [digit_range, upper_range, lower_range]"

definition token_text :: "(char \<Rightarrow> bool) \<Rightarrow> (char \<Rightarrow> bool) \<Rightarrow> nat \<Rightarrow> string \<Rightarrow> bool" where
  "token_text first rest n s \<longleftrightarrow> s \<noteq> [] \<and> length s \<le> n + 1 \<and> first (hd s) \<and> list_all rest (tl s)"

subsection \<open>Identifiers, each once, in the order of their first occurrence\<close>

definition first_occurrences :: "'a list \<Rightarrow> 'a list" where
  "first_occurrences xs = rev (remdups (rev xs))"

lemma set_first_occurrences [simp]: "set (first_occurrences xs) = set xs"
  by (simp add: first_occurrences_def)

lemma distinct_first_occurrences [simp]: "distinct (first_occurrences xs)"
  by (simp add: first_occurrences_def)

lemma first_occurrences_Nil [simp]: "first_occurrences xs = [] \<longleftrightarrow> xs = []"
  by (metis set_first_occurrences set_empty)

lemma first_occurrences_id: "distinct xs \<Longrightarrow> first_occurrences xs = xs"
  by (simp add: first_occurrences_def distinct_remdups_id)

text \<open>The loop over the values with a map of those seen: \<open>cleanIDs\<close> of the packages audit and fieldfeedback.\<close>

definition clean_ids :: "ID list \<Rightarrow> ID list" where
  "clean_ids ids = first_occurrences (filter (\<lambda>k. k \<noteq> []) (map trim_space ids))"

lemma clean_ids_members: "set (clean_ids ids) = trim_space ` set ids - {[]}"
  by (auto simp: clean_ids_def)

lemma distinct_clean_ids [simp]: "distinct (clean_ids ids)"
  by (simp add: clean_ids_def)

lemma clean_ids_idem [simp]: "clean_ids (clean_ids ids) = clean_ids ids"
proof -
  have "map trim_space (clean_ids ids) = clean_ids ids" "filter (\<lambda>k. k \<noteq> []) (clean_ids ids) = clean_ids ids"
    by (auto simp: clean_ids_members intro!: map_idI filter_True)
  then show ?thesis using distinct_clean_ids [of ids] unfolding clean_ids_def [of "clean_ids ids"] by (simp add: first_occurrences_id)
qed

end
