(* ===== verification/Audit_Log.thy ===== *)
theory Audit_Log
  imports Store Go_Library
begin

text \<open>
  The audit log (\<open>internal/audit\<close>): records of decisions with what they rest on, and events. Both tables are append-only.
\<close>

subsection \<open>Decisions\<close>

definition validateDecision :: "DecisionRecord \<Rightarrow> DecisionRecord res" where
  "validateDecision q =
     (let q = q\<lparr>dr_id := trim_space (dr_id q), dr_trigger := trim_space (dr_trigger q), dr_basis := trim_space (dr_basis q),
                dr_policy := trim_space (dr_policy q), dr_expected := trim_space (dr_expected q),
                dr_envelope := trim_space (dr_envelope q), dr_actor := trim_space (dr_actor q)\<rparr>;
          alternatives = map trim_space (dr_alternatives q) in
      if dr_trigger q = [] \<or> dr_basis q = [] \<or> dr_policy q = [] \<or> dr_expected q = [] \<or> dr_envelope q = [] \<or> dr_actor q = []
      then Inl (Err ''decision trigger, basis, policy decision, expected outcome, resource envelope, and actor are required'')
      else if alternatives = [] then Inl (Err ''decision must record alternatives considered'')
      else if [] \<in> set alternatives then Inl (Err ''decision alternative must not be empty'')
      else if dr_evidence q = [] then Inl (Err ''decision must cite evidence'')
      else if dr_authority q = [] then Inl (Err ''decision must record authority ids'')
      else if below_zero (dr_confidence q) \<or> above_one (dr_confidence q) then Inl (Err ''decision confidence must be between 0 and 1'')
      else Inr (q\<lparr>dr_alternatives := alternatives, dr_evidence := clean_ids (dr_evidence q), dr_authority := clean_ids (dr_authority q)\<rparr>))"

definition set_audit :: "audit_tables \<Rightarrow> db \<Rightarrow> db" where
  "set_audit a d = d\<lparr>db_audit := a\<rparr>"

definition insert_decision_record :: "DecisionRecord \<Rightarrow> db \<Rightarrow> db res" where
  "insert_decision_record r d =
     bindE (confidence_column (dr_confidence r)) (\<lambda>_.
     bindE (insert_unique dr_id r (at_decisions (db_audit d))) (\<lambda>rows.
     Inr (set_audit ((db_audit d)\<lparr>at_decisions := rows\<rparr>) d)))"

definition RecordDecision :: "env \<Rightarrow> DecisionRecord \<Rightarrow> db \<Rightarrow> db \<times> DecisionRecord res" where
  "RecordDecision E input d =
     (case validateDecision input of
        Inl e \<Rightarrow> (d, Inl e)
      | Inr q \<Rightarrow>
          let q = q\<lparr>dr_id := if dr_id q = [] then NewID ''decision'' (rnd E 0) else dr_id q, dr_created := clk E 0\<rparr> in
          on_db (\<lambda>d. bindE (insert_decision_record q d) (\<lambda>d'. Inr (q, d'))) d)"

definition Decision :: "ID \<Rightarrow> db \<Rightarrow> DecisionRecord res" where
  "Decision k d =
     (let k = trim_space k in
      if k = [] then Inl (Err ''decision id is required'')
      else case find_by dr_id k (at_decisions (db_audit d)) of
             None \<Rightarrow> Inl (Err ''decision not found'')
           | Some r \<Rightarrow> Inr r)"

subsection \<open>Events\<close>

text \<open>The payload is kept as its keys with their values; a nil payload is an empty one.\<close>

record audit_event =
  au_id :: ID
  au_kind :: string
  au_actor :: ID
  au_subject :: ID
  au_payload :: "(string \<times> payload_value) list"

definition insert_audit_event :: "audit_event_row \<Rightarrow> db \<Rightarrow> db res" where
  "insert_audit_event r d =
     bindE (insert_unique ax_id r (at_events (db_audit d))) (\<lambda>rows.
     Inr (set_audit ((db_audit d)\<lparr>at_events := rows\<rparr>) d))"

definition Append :: "gtime \<Rightarrow> string \<Rightarrow> audit_event \<Rightarrow> db \<Rightarrow> db \<times> audit_event_row res" where
  "Append now rand input d =
     (let kind = trim_space (au_kind input); actor = trim_space (au_actor input); subject = trim_space (au_subject input);
          k = trim_space (au_id input) in
      if kind = [] \<or> actor = [] \<or> subject = [] then (d, Inl (Err ''audit kind, actor id, and subject id are required''))
      else let r = \<lparr>ax_id = if k = [] then NewID ''audit'' rand else k, ax_kind = kind, ax_actor = actor, ax_subject = subject,
                    ax_payload = au_payload input, ax_created = now\<rparr> in
           on_db (\<lambda>d. bindE (insert_audit_event r d) (\<lambda>d'. Inr (r, d'))) d)"

subsection \<open>The log only grows\<close>

inductive audit_step :: "db \<Rightarrow> db \<Rightarrow> bool" where
  step_decision: "audit_step d (fst (RecordDecision E input d))"
| step_event: "audit_step d (fst (Append now rand event d))"

definition log_grows :: "db \<Rightarrow> db \<Rightarrow> bool" where
  "log_grows d d' \<longleftrightarrow> (\<exists>a. d' = set_audit a d \<and> (\<exists>xs. at_decisions a = at_decisions (db_audit d) @ xs) \<and>
     (\<exists>ys. at_events a = at_events (db_audit d) @ ys))"

lemma log_grows_refl [simp]: "log_grows d d"
  by (auto simp: log_grows_def set_audit_def intro: exI [of _ "db_audit d"])

lemma log_grows_trans: "log_grows d e \<Longrightarrow> log_grows e f \<Longrightarrow> log_grows d f"
  by (fastforce simp: log_grows_def set_audit_def)

lemma RecordDecision_Inr:
  assumes "RecordDecision E input d = (d', Inr r)"
  obtains q where "validateDecision input = Inr q"
    "r = q\<lparr>dr_id := if dr_id q = [] then NewID ''decision'' (rnd E 0) else dr_id q, dr_created := clk E 0\<rparr>"
    "dr_id r \<notin> dr_id ` set (at_decisions (db_audit d))" "confidence_column (dr_confidence r) = Inr ()"
    "d' = set_audit ((db_audit d)\<lparr>at_decisions := at_decisions (db_audit d) @ [r]\<rparr>) d"
proof (cases "validateDecision input")
  case (Inr q)
  show thesis
    by (rule that [of q])
      (use assms Inr in \<open>auto simp: RecordDecision_def Let_def on_db_Inr_iff insert_decision_record_def bindE_Inr_iff insert_unique_Inr_iff\<close>)
qed (use assms in \<open>simp add: RecordDecision_def\<close>)

lemma Append_cases:
  obtains "fst (Append now rand event d) = d"
  | r where "fst (Append now rand event d) = set_audit ((db_audit d)\<lparr>at_events := at_events (db_audit d) @ [r]\<rparr>) d"
proof (cases "Append now rand event d")
  case (Pair d' x)
  then show thesis
    using that by (cases x) (auto simp: Append_def Let_def on_db_Inl_iff on_db_Inr_iff insert_audit_event_def bind_simps
      insert_unique_Inr_iff split: if_splits)
qed

lemma RecordDecision_Inl: "RecordDecision E input d = (d', Inl e) \<Longrightarrow> d' = d"
  by (auto simp: RecordDecision_def Let_def on_db_Inl_iff split: sum.splits)

lemma Append_grows: "log_grows d (fst (Append now rand event d))"
  by (rule Append_cases [of now rand event d]) (auto simp: log_grows_def set_audit_def)

lemma audit_step_grows: "audit_step d d' \<Longrightarrow> log_grows d d'"
proof (induction rule: audit_step.induct)
  case (step_decision d E input)
  show ?case
  proof (cases "RecordDecision E input d")
    case (Pair d' r)
    then show ?thesis
    proof (cases r)
      case (Inl e)
      with Pair show ?thesis using RecordDecision_Inl by fastforce
    next
      case (Inr q)
      with Pair show ?thesis by (auto elim!: RecordDecision_Inr simp: log_grows_def set_audit_def)
    qed
  qed
qed (rule Append_grows)

interpretation audit: kept_invariant audit_step "log_grows d0" for d0
  by unfold_locales (blast intro: log_grows_trans audit_step_grows)

subsection \<open>Properties\<close>

text \<open>
  A recorded decision stands: in every later state of the log \<open>Decision\<close> returns it under its identifier, as it was
  recorded, with its trigger, basis, policy decision, expected outcome, envelope and actor given, its alternatives none of
  them blank, its evidence and authority free of blanks and repetitions, and a confidence that is a number from 0 to 1.
\<close>

theorem recorded_decision_stands:
  assumes "RecordDecision E input d = (d', Inr r)" and "audit_step\<^sup>*\<^sup>* d' d''" and "dr_id r = trim_space (dr_id r)"
  shows "Decision (dr_id r) d'' = Inr r \<and> dr_created r = clk E 0 \<and>
    [] \<notin> {dr_trigger r, dr_basis r, dr_policy r, dr_expected r, dr_envelope r, dr_actor r} \<union> set (dr_alternatives r) \<and>
    dr_alternatives r \<noteq> [] \<and> dr_evidence r = clean_ids (dr_evidence input) \<and> dr_authority r = clean_ids (dr_authority input) \<and>
    (\<exists>c. dr_confidence r = Finite c \<and> 0 \<le> c \<and> c \<le> 1)"
proof -
  obtain q where q: "validateDecision input = Inr q" and new: "dr_id r \<notin> dr_id ` set (at_decisions (db_audit d))"
    and d': "d' = set_audit ((db_audit d)\<lparr>at_decisions := at_decisions (db_audit d) @ [r]\<rparr>) d"
    and r: "r = q\<lparr>dr_id := if dr_id q = [] then NewID ''decision'' (rnd E 0) else dr_id q, dr_created := clk E 0\<rparr>"
    and conf: "confidence_column (dr_confidence r) = Inr ()"
    using assms(1) by (rule RecordDecision_Inr)
  have "log_grows d' d''" using audit.reach_inv [OF assms(2), of d'] by simp
  then obtain xs where "at_decisions (db_audit d'') = at_decisions (db_audit d) @ [r] @ xs"
    by (auto simp: log_grows_def set_audit_def d')
  then have "find_by dr_id (dr_id r) (at_decisions (db_audit d'')) = Some r"
    using new [folded find_by_None_iff] by (simp add: find_by_append find_by_Cons)
  moreover have "dr_id r \<noteq> []" by (simp add: r)
  moreover have "\<exists>c. dr_confidence r = Finite c \<and> 0 \<le> c \<and> c \<le> 1"
    using conf by (cases "dr_confidence r") (simp_all add: requireE_def split: if_splits)
  ultimately show ?thesis using q assms(3)
    by (auto simp: r Decision_def Let_def validateDecision_def split: if_splits)
qed

definition demo_decision :: DecisionRecord where
  "demo_decision = \<lparr>dr_id = [], dr_trigger = '' pulse'', dr_alternatives = [''wait'', '' act ''], dr_basis = ''RULE'',
     dr_evidence = [''  ''], dr_policy = ''p'', dr_authority = [''owner'', '' owner''], dr_expected = ''done'',
     dr_confidence = Finite (1 / 2), dr_envelope = ''e'', dr_actor = ''box'', dr_created = 0\<rparr>"

definition demo_log_env :: env where
  "demo_log_env = \<lparr>clk = (\<lambda>_. 7), rnd = (\<lambda>_. ''1'')\<rparr>"

definition demo_log :: "db \<times> DecisionRecord res" where
  "demo_log = RecordDecision demo_log_env demo_decision empty_db"

lemma recorded_decision_stands_witness:
  "\<exists>r. Decision ''decision_1'' (fst demo_log) = Inr r \<and> dr_alternatives r = [''wait'', ''act''] \<and> dr_authority r = [''owner'']"
proof -
  obtain r where run: "RecordDecision demo_log_env demo_decision empty_db = (fst demo_log, Inr r)"
    and r: "dr_id r = ''decision_1''" "dr_alternatives r = [''wait'', ''act'']"
  proof -
    have "map_sum id (\<lambda>r. (dr_id r, dr_alternatives r)) (snd demo_log) = Inr (''decision_1'', [''wait'', ''act''])"
      by code_simp
    then show thesis using that by (cases "snd demo_log") (auto simp: demo_log_def prod_eq_iff)
  qed
  have "trim_space ''decision_1'' = ''decision_1''" "clean_ids (dr_authority demo_decision) = [''owner'']" by code_simp+
  with recorded_decision_stands [OF run rtranclp.rtrancl_refl] r show ?thesis by auto
qed

text \<open>
  The check that a decision cites evidence and names authority comes before blanks are removed: a decision whose evidence
  identifiers are all blank is recorded without any.
\<close>

theorem blank_evidence_is_recorded:
  "\<exists>r. snd (RecordDecision demo_log_env demo_decision empty_db) = Inr r \<and> dr_evidence demo_decision \<noteq> [] \<and> dr_evidence r = []"
proof -
  have "map_sum id dr_evidence (snd (RecordDecision demo_log_env demo_decision empty_db)) = Inr []" by code_simp
  then show ?thesis
    by (cases "snd (RecordDecision demo_log_env demo_decision empty_db)") (auto simp: demo_decision_def)
qed

end
