(* ===== verification/Experience.thy ===== *)
theory Experience
  imports Approvals Execution Audit_Log
begin

text \<open>
  The experience service (\<open>internal/experience\<close>): the Owner grants the preference of executors within bounds, proposals and
  verified outcomes are collected under a grant, and the evaluator turns a proposal into versions of a rule that is SHADOW,
  ACTIVE or ROLLED_BACK. The JSON text of a grant and SHA-256 are arguments.
\<close>

subsection \<open>Requests and the service\<close>

record GrantInput =
  gi_kind :: string
  gi_scope :: string
  gi_executors :: "string list"
  gi_samples :: int
  gi_acceptance_bps :: int
  gi_cost_bps :: int
  gi_expires :: gtime

record GrantRequest =
  gq_id :: ID
  gq_digest :: string
  gq_approval :: ID

record ProposalInput =
  pi_grant :: ID
  pi_class :: GenericTaskClass
  pi_scope :: string
  pi_executor :: string
  pi_evidence :: "ID list"

record VerifiedOutcome =
  vo_task :: ID
  vo_class :: GenericTaskClass
  vo_scope :: string
  vo_executor :: string
  vo_accepted :: bool
  vo_human :: bool
  vo_retries :: int
  vo_cost :: "int option"
  vo_latency :: "int option"

record ExperienceProposal =
  ep_id :: ID
  ep_grant :: ID
  ep_class :: GenericTaskClass
  ep_scope :: string
  ep_executor :: string
  ep_evidence :: "ID list"
  ep_state :: rule_state
  ep_created :: gtime

record grant_codec =
  gc_encode :: "GrantInput \<Rightarrow> string res"
  gc_decode :: "string \<Rightarrow> GrantInput res"
  gc_sha :: "string \<Rightarrow> string"

record experience_service =
  es_codec :: grant_codec
  es_lower :: "string \<Rightarrow> string"
  es_owner :: ID

definition New_experience :: "grant_codec \<Rightarrow> (string \<Rightarrow> string) \<Rightarrow> ID \<Rightarrow> experience_service" where
  "New_experience C U owner = \<lparr>es_codec = C, es_lower = U, es_owner = trim_space owner\<rparr>"

definition configured :: "experience_service \<Rightarrow> unit res" where
  "configured S = requireE (es_owner S \<noteq> []) (Err ''experience service is not configured'')"

definition AdaptationExecutorPreference :: string where
  "AdaptationExecutorPreference = ''EXECUTOR_PREFERENCE''"

subsection \<open>Normalisation (service.go, classify.go)\<close>

definition cleanStrings :: "string list \<Rightarrow> string list" where
  "cleanStrings values = distinct_sorted (filter (\<lambda>v. v \<noteq> []) (map trim_space values))"

interpretation executor_names: id_normalizer cleanStrings trim_space
  by unfold_locales (auto simp: cleanStrings_def)

definition executor_byte :: "char \<Rightarrow> bool" where
  "executor_byte c \<longleftrightarrow> letter_or_digit c \<or> c \<in> set ''._-''"

fun safeExecutorName :: "string \<Rightarrow> bool" where
  "safeExecutorName [] = False"
| "safeExecutorName (c # s) \<longleftrightarrow> length (c # s) \<le> 64 \<and> list_all executor_byte (c # s) \<and>
     c \<notin> {CHR ''.'', CHR ''_'', CHR ''-''}"

definition normalizeGrantInput ::
  "grant_codec \<Rightarrow> GrantInput \<Rightarrow> gtime \<Rightarrow> (GrantInput \<times> string \<times> string) res" where
  "normalizeGrantInput C input now =
     (let input = input\<lparr>gi_kind := trim_space (gi_kind input), gi_scope := trim_space (gi_scope input),
                        gi_executors := cleanStrings (gi_executors input)\<rparr> in
      if gi_kind input \<noteq> AdaptationExecutorPreference then Inl (Err ''only EXECUTOR_PREFERENCE adaptation is permitted'')
      else if gi_scope input = [] \<or> gi_executors input = [] \<or> gi_samples input \<le> 0
      then Inl (Err ''grant requires scope, allowed executors, and positive sample threshold'')
      else if \<not> list_all safeExecutorName (gi_executors input) then Inl (Err ''invalid executor kind'')
      else if gi_acceptance_bps input < 0 \<or> gi_acceptance_bps input > 10000 \<or> gi_cost_bps input < 0
      then Inl (Err ''grant regression thresholds are invalid'')
      else if \<not> gi_expires input > now then Inl (Err ''grant expiry must be in the future'')
      else bindE (gc_encode C input) (\<lambda>definition. Inr (input, definition, gc_sha C definition)))"

definition class_separator :: "char \<Rightarrow> bool" where
  "class_separator c \<longleftrightarrow> c \<in> {CHR ''.'', CHR ''/'', CHR ''_'', CHR ''-'', CHR '':''}"

definition class_of_token :: "string \<Rightarrow> GenericTaskClass option" where
  "class_of_token token =
     (if token \<in> {''debug'', ''debugging''} then Some GenericTaskDebugging
      else if token = ''review'' then Some GenericTaskReview
      else if token \<in> {''refactor'', ''refactoring''} then Some GenericTaskRefactor
      else if token \<in> {''doc'', ''docs'', ''documentation''} then Some GenericTaskDocumentation
      else if token \<in> {''migrate'', ''migration''} then Some GenericTaskMigration
      else if token \<in> {''test'', ''tests'', ''testing''} then Some GenericTaskTesting
      else if token \<in> {''maint'', ''maintenance''} then Some GenericTaskMaintenance
      else None)"

definition genericTaskClassForScope :: "(string \<Rightarrow> string) \<Rightarrow> string \<Rightarrow> GenericTaskClass" where
  "genericTaskClassForScope U scope =
     (case List.map_filter class_of_token (FieldsFunc class_separator (to_lower U (trim_space scope))) of
        [] \<Rightarrow> GenericTaskOther
      | c # _ \<Rightarrow> c)"

lemma genericTaskClass_valid: "class_valid (genericTaskClassForScope U scope)"
proof -
  have "\<forall>c \<in> set (List.map_filter class_of_token tokens). class_valid c" for tokens
    by (auto simp: map_filter_def class_of_token_def split: if_splits)
  then show ?thesis
    by (auto simp: genericTaskClassForScope_def split: list.split) (metis list.set_intros(1))
qed

subsection \<open>Tables\<close>

definition set_experience :: "(experience_tables \<Rightarrow> experience_tables) \<Rightarrow> db \<Rightarrow> db" where
  "set_experience f d = d\<lparr>db_experience := f (db_experience d)\<rparr>"

definition insert_grant_request :: "grant_request_row \<Rightarrow> db \<Rightarrow> db res" where
  "insert_grant_request r d =
     bindE (requireE (\<not> exists_where (\<lambda>x. gr_id x = gr_id r \<or> gr_digest x = gr_digest r \<or> gr_approval x = gr_approval r)
                        (xt_requests (db_experience d))) (ErrConstraint ''UNIQUE'')) (\<lambda>_.
     Inr (set_experience (\<lambda>x. x\<lparr>xt_requests := xt_requests x @ [r]\<rparr>) d))"

definition insert_grant :: "AdaptationGrant \<Rightarrow> db \<Rightarrow> db res" where
  "insert_grant g d =
     bindE (requireE (\<not> exists_where (\<lambda>x. ag_id x = ag_id g \<or> ag_request x = ag_request g) (xt_grants (db_experience d)))
              (ErrConstraint ''adaptation_grants are immutable'')) (\<lambda>_.
     bindE (requireE (ag_samples g > 0 \<and> ag_acceptance_bps g \<ge> 0 \<and> ag_cost_bps g \<ge> 0) (ErrConstraint ''CHECK'')) (\<lambda>_.
     Inr (set_experience (\<lambda>x. x\<lparr>xt_grants := xt_grants x @ [g]\<rparr>) d)))"

definition insert_proposal :: "proposal_row \<Rightarrow> db \<Rightarrow> db res" where
  "insert_proposal r d =
     bindE (requireE (\<not> exists_where (\<lambda>x. xp_id x = xp_id r) (xt_proposals (db_experience d)))
              (ErrConstraint ''experience proposals are immutable'')) (\<lambda>_.
     bindE (requireE (class_valid (xp_class r)) (ErrConstraint ''CHECK'')) (\<lambda>_.
     Inr (set_experience (\<lambda>x. x\<lparr>xt_proposals := xt_proposals x @ [r]\<rparr>) d)))"

definition insert_rule :: "ExperienceRule \<Rightarrow> db \<Rightarrow> db res" where
  "insert_rule r d =
     bindE (requireE (\<not> exists_where (\<lambda>x. xr_id x = xr_id r \<or> xr_proposal x = xr_proposal r \<and> xr_version x = xr_version r)
                        (xt_rules (db_experience d))) (ErrConstraint ''experience rules are immutable'')) (\<lambda>_.
     bindE (requireE (xr_version r > 0 \<and> class_valid (xr_class r) \<and> xr_samples r \<ge> 0) (ErrConstraint ''CHECK'')) (\<lambda>_.
     Inr (set_experience (\<lambda>x. x\<lparr>xt_rules := xt_rules x @ [r]\<rparr>) d)))"

definition same_outcome :: "outcome_row \<Rightarrow> outcome_row \<Rightarrow> bool" where
  "same_outcome x r \<longleftrightarrow> xo_task x = xo_task r \<and> xo_class x = xo_class r \<and> xo_scope x = xo_scope r \<and>
     xo_executor x = xo_executor r \<and> xo_accepted x = xo_accepted r"

definition insert_outcome :: "outcome_row \<Rightarrow> db \<Rightarrow> db res" where
  "insert_outcome r d =
     bindE (requireE (\<not> exists_where (\<lambda>x. xo_id x = xo_id r \<or> same_outcome x r) (xt_outcomes (db_experience d)))
              (ErrConstraint ''experience outcomes are immutable'')) (\<lambda>_.
     bindE (requireE (class_valid (xo_class r) \<and> xo_retries r \<ge> 0) (ErrConstraint ''CHECK'')) (\<lambda>_.
     Inr (set_experience (\<lambda>x. x\<lparr>xt_outcomes := xt_outcomes x @ [r]\<rparr>) d)))"

text \<open>Inserts into the link tables, whose primary key is the pair.\<close>

fun insert_links :: "ID \<Rightarrow> ID list \<Rightarrow> (ID \<times> ID) list \<Rightarrow> (ID \<times> ID) list res" where
  "insert_links k [] links = Inr links"
| "insert_links k (x # xs) links = bindE (insert_unique id (k, x) links) (insert_links k xs)"

lemma insert_links_Inr: "insert_links k xs links = Inr links' \<Longrightarrow> links' = links @ map (Pair k) xs"
  by (induction xs arbitrary: links) (fastforce simp: bindE_Inr_iff insert_unique_Inr_iff)+

subsection \<open>Grants\<close>

definition requestGrantTx ::
  "experience_service \<Rightarrow> env \<Rightarrow> GrantInput \<Rightarrow> string \<Rightarrow> string \<Rightarrow> ID \<Rightarrow> db \<Rightarrow> (GrantRequest \<times> db) res" where
  "requestGrantTx S E normalized definition digest actor d =
     (case find_by gr_digest digest (xt_requests (db_experience d)) of
        Some r \<Rightarrow>
          if gr_requester r \<noteq> actor then Inl (Err ''existing grant request digest belongs to a different requester'')
          else Inr (\<lparr>gq_id = gr_id r, gq_digest = digest, gq_approval = gr_approval r\<rparr>, d)
      | None \<Rightarrow>
          let k = NewID ''grant-request'' (rnd E 0) in
          bindE (CreateInTx (clk E 1) (clk E 2) (rnd E 1)
                   \<lparr>cr_kind = ''ADAPTATION_GRANT'', cr_subject = k, cr_digest = digest, cr_policy = [],
                    cr_required = [es_owner S], cr_requester = actor, cr_expires = gi_expires normalized\<rparr> d) (\<lambda>(approval, d).
          bindE (insert_grant_request \<lparr>gr_id = k, gr_digest = digest, gr_definition = definition, gr_approval = ap_id approval,
                   gr_requester = actor, gr_created = clk E 3\<rparr> d) (\<lambda>d.
          Inr (\<lparr>gq_id = k, gq_digest = digest, gq_approval = ap_id approval\<rparr>, d))))"

definition RequestGrant :: "experience_service \<Rightarrow> env \<Rightarrow> GrantInput \<Rightarrow> ID \<Rightarrow> db \<Rightarrow> db \<times> GrantRequest res" where
  "RequestGrant S E input requestingActor d =
     (let actor = trim_space requestingActor in
      case bindE (configured S) (\<lambda>_. bindE (requireE (actor \<noteq> []) (Err ''requesting actor is required'')) (\<lambda>_.
             normalizeGrantInput (es_codec S) input (clk E 0))) of
        Inl e \<Rightarrow> (d, Inl e)
      | Inr (normalized, definition, digest) \<Rightarrow> with_tx (requestGrantTx S E normalized definition digest actor) d)"

definition Get_grant :: "ID \<Rightarrow> db \<Rightarrow> AdaptationGrant res" where
  "Get_grant k d =
     (case find_by ag_id k (xt_grants (db_experience d)) of
        None \<Rightarrow> Inl (Err ''adaptation grant not found'')
      | Some g \<Rightarrow> Inr g)"

definition loadGrantByRequest :: "ID \<Rightarrow> db \<Rightarrow> AdaptationGrant option" where
  "loadGrantByRequest request d = find_by ag_request request (xt_grants (db_experience d))"

definition authorized_request :: "experience_service \<Rightarrow> ID \<Rightarrow> string \<Rightarrow> approval \<Rightarrow> unit res" where
  "authorized_request S request digest a =
     (if ap_kind a \<noteq> ''ADAPTATION_GRANT'' \<or> ap_subject a \<noteq> request \<or> ap_digest a \<noteq> digest
      then Inl (Err ''adaptation grant approval binding mismatch'')
      else if ap_required a \<noteq> [es_owner S] then Inl (Err ''adaptation grant approval is not Owner-authorized'')
      else if ap_state a \<noteq> ApprovalApproved then Inl (Err ''adaptation grant approval is not APPROVED'')
      else Inr ())"

definition activate_body :: "experience_service \<Rightarrow> env \<Rightarrow> ID \<Rightarrow> grant_request_row \<Rightarrow> GrantInput \<Rightarrow> db \<Rightarrow> (AdaptationGrant \<times> db) res" where
  "activate_body S E request r normalized d =
     bindE (Approvals.Get (gr_approval r) d) (\<lambda>(a, _).
     bindE (authorized_request S request (gr_digest r) a) (\<lambda>_.
     bindE (ConsumeInTx (clk E 2) (ap_id a) (gr_digest r) d) (\<lambda>d.
     let g = \<lparr>ag_id = NewID ''grant'' (rnd E 0), ag_request = request, ag_kind = gi_kind normalized,
              ag_scope = gi_scope normalized, ag_executors = gi_executors normalized,
              ag_samples = gi_samples normalized, ag_acceptance_bps = gi_acceptance_bps normalized,
              ag_cost_bps = gi_cost_bps normalized, ag_owner = es_owner S, ag_expires = gi_expires normalized,
              ag_activated = clk E 3\<rparr> in
     bindE (insert_grant g d) (\<lambda>d. Inr (g, d)))))"

definition activateGrantTx :: "experience_service \<Rightarrow> env \<Rightarrow> ID \<Rightarrow> db \<Rightarrow> (AdaptationGrant \<times> db) res" where
  "activateGrantTx S E request d =
     (case loadGrantByRequest request d of
        Some existing \<Rightarrow> Inr (existing, d)
      | None \<Rightarrow>
          (case find_by gr_id request (xt_requests (db_experience d)) of
             None \<Rightarrow> Inl (Err ''adaptation grant request not found'')
           | Some r \<Rightarrow>
               bindE (gc_decode (es_codec S) (gr_definition r)) (\<lambda>definition.
               bindE (normalizeGrantInput (es_codec S) definition (clk E 0)) (\<lambda>(normalized, _, computed).
               if computed \<noteq> gr_digest r then Inl (Err ''adaptation grant definition digest mismatch'')
               else if \<not> gi_expires normalized > clk E 1 then Inl (Err ''adaptation grant request expired'')
               else activate_body S E request r normalized d))))"

definition ActivateGrant :: "experience_service \<Rightarrow> env \<Rightarrow> ID \<Rightarrow> db \<Rightarrow> db \<times> AdaptationGrant res" where
  "ActivateGrant S E requestID d =
     (let request = trim_space requestID in
      case bindE (configured S) (\<lambda>_. requireE (request \<noteq> []) (Err ''grant request id is required'')) of
        Inl e \<Rightarrow> (d, Inl e)
      | Inr _ \<Rightarrow>
          (case with_tx (activateGrantTx S E request) d of
             (d, Inl e) \<Rightarrow> (d, Inl e)
           | (d, Inr g) \<Rightarrow>
               (fst (Append (clk E 4) (rnd E 1)
                  \<lparr>au_id = [], au_kind = ''ADAPTATION_GRANT_ACTIVATED'', au_actor = es_owner S, au_subject = ag_id g,
                   au_payload = [(''grant_request_id'', Text (ag_request g)), (''kind'', Text (ag_kind g)), (''scope_key'', Text (ag_scope g))]\<rparr> d),
                Inr g)))"

subsection \<open>Proposals\<close>

definition check_proposal :: "experience_service \<Rightarrow> gtime \<Rightarrow> ProposalInput \<Rightarrow> AdaptationGrant \<Rightarrow> (string \<times> GenericTaskClass) res" where
  "check_proposal S now input g =
     (let scope = trim_space (ag_scope g); cls = genericTaskClassForScope (es_lower S) scope in
      if \<not> ag_expires g > now then Inl (Err ''adaptation grant expired'')
      else if ag_kind g \<noteq> AdaptationExecutorPreference then Inl (Err ''grant does not authorize executor preference'')
      else if pi_scope input \<noteq> [] \<and> pi_scope input \<noteq> scope then Inl (Err ''proposal scope does not match canonical grant scope'')
      else if pi_class input \<noteq> GenericTaskUnknown [] \<and> pi_class input \<noteq> cls
      then Inl (Err ''proposal generic task class does not match canonical scope classification'')
      else if pi_executor input \<notin> set (ag_executors g) then Inl (Err ''preferred executor is not allowed by grant'')
      else Inr (scope, cls))"

definition proposeTx :: "ExperienceProposal \<Rightarrow> db \<Rightarrow> (ExperienceProposal \<times> db) res" where
  "proposeTx out d =
     bindE (requireE (list_all (\<lambda>k. exists_where (\<lambda>x. fo_id x = k) (ft_observations (db_feedback d))) (ep_evidence out))
              (Err ''proposal evidence observation not found'')) (\<lambda>_.
     bindE (insert_proposal \<lparr>xp_id = ep_id out, xp_grant = ep_grant out, xp_class = ep_class out, xp_scope = ep_scope out,
              xp_executor = ep_executor out, xp_state = ep_state out, xp_created = ep_created out, xp_updated = ep_created out\<rparr> d) (\<lambda>d.
     bindE (insert_links (ep_id out) (ep_evidence out) (xt_proposal_evidence (db_experience d))) (\<lambda>links.
     Inr (out, set_experience (\<lambda>x. x\<lparr>xt_proposal_evidence := links\<rparr>) d))))"

definition Propose :: "experience_service \<Rightarrow> env \<Rightarrow> ProposalInput \<Rightarrow> db \<Rightarrow> db \<times> ExperienceProposal res" where
  "Propose S E input d =
     (let input = input\<lparr>pi_grant := trim_space (pi_grant input), pi_scope := trim_space (pi_scope input),
                        pi_executor := trim_space (pi_executor input), pi_evidence := cleanStrings (pi_evidence input)\<rparr> in
      case bindE (configured S) (\<lambda>_.
           bindE (requireE (\<not> (pi_grant input = [] \<or> pi_executor input = [] \<or> pi_evidence input = []))
                    (Err ''proposal requires grant, preferred executor, and evidence'')) (\<lambda>_.
           bindE (Get_grant (pi_grant input) d) (\<lambda>g.
           bindE (check_proposal S (clk E 0) input g) (\<lambda>(scope, cls). Inr (g, scope, cls))))) of
        Inl e \<Rightarrow> (d, Inl e)
      | Inr (g, scope, cls) \<Rightarrow>
          with_tx (proposeTx \<lparr>ep_id = NewID ''experience-proposal'' (rnd E 0), ep_grant = ag_id g, ep_class = cls, ep_scope = scope,
             ep_executor = pi_executor input, ep_evidence = pi_evidence input, ep_state = ExperienceCandidate,
             ep_created = clk E 1\<rparr>) d)"

subsection \<open>Verified outcomes\<close>

definition validate_outcome :: "VerifiedOutcome \<Rightarrow> unit res" where
  "validate_outcome v =
     (if vo_task v = [] then Inl (Err ''verified outcome requires task'')
      else if vo_class v \<noteq> GenericTaskUnknown [] \<and> \<not> class_valid (vo_class v)
      then Inl (Err ''verified outcome generic task class is invalid'')
      else if vo_retries v < 0 then Inl (Err ''retry count cannot be negative'')
      else if (\<exists>c \<in> set_option (vo_cost v). c < 0) then Inl (Err ''cost cannot be negative'')
      else if (\<exists>c \<in> set_option (vo_latency v). c < 0) then Inl (Err ''latency cannot be negative'')
      else Inr ())"

text \<open>The task with its current attempt: both rows, or the join finds nothing.\<close>

definition canonical_attempt :: "ID \<Rightarrow> db \<Rightarrow> (task \<times> attempt) res" where
  "canonical_attempt k d =
     (case find_by t_id k (db_tasks d) of
        None \<Rightarrow> Inl ErrNoRows
      | Some t \<Rightarrow>
          (case t_attempt t of
             None \<Rightarrow> Inl ErrNoRows
           | Some a_key \<Rightarrow>
               (case find_by a_id a_key (db_attempts d) of
                  None \<Rightarrow> Inl ErrNoRows
                | Some a \<Rightarrow> Inr (t, a))))"

definition check_outcome :: "experience_service \<Rightarrow> VerifiedOutcome \<Rightarrow> db \<Rightarrow> VerifiedOutcome res" where
  "check_outcome S v d =
     bindE (canonical_attempt (vo_task v) d) (\<lambda>(t, a).
     let taskClass = trim_space (t_class t); cls = genericTaskClassForScope (es_lower S) taskClass in
     if taskClass = [] then Inl (Err ''verified outcome task has no canonical TaskClass'')
     else if vo_scope v \<noteq> [] \<and> vo_scope v \<noteq> taskClass then Inl (Err ''verified outcome scope does not match canonical TaskClass'')
     else if vo_class v \<noteq> GenericTaskUnknown [] \<and> vo_class v \<noteq> cls
     then Inl (Err ''verified outcome class does not match canonical TaskClass'')
     else if vo_executor v \<noteq> [] \<and> vo_executor v \<noteq> a_executor a
     then Inl (Err ''verified outcome executor does not match canonical attempt'')
     else if vo_accepted v \<and> t_state t \<noteq> TaskSucceeded then Inl (Err ''accepted outcome requires canonical SUCCEEDED task'')
     else if vo_accepted v \<and> \<not> exists_where (\<lambda>x. ac_task x = vo_task v \<and> ac_attempt x = a_id a) (db_acceptances d)
     then Inl (Err ''accepted outcome lacks canonical acceptance for current Attempt'')
     else if \<not> vo_accepted v \<and> t_state t \<noteq> TaskChallenged then Inl (Err ''negative outcome requires canonical CHALLENGED task'')
     else if \<not> vo_accepted v \<and> \<not> exists_where (\<lambda>x. ev_task x = vo_task v \<and> ev_attempt x = Some (a_id a) \<and>
        ev_type x = ''TASK_CHALLENGED'') (db_events d)
     then Inl (Err ''negative outcome lacks canonical challenge for current Attempt'')
     else Inr (v\<lparr>vo_scope := taskClass, vo_class := cls, vo_executor := a_executor a\<rparr>))"

definition outcome_row_of :: "env \<Rightarrow> VerifiedOutcome \<Rightarrow> outcome_row" where
  "outcome_row_of E v = \<lparr>xo_id = NewID ''experience-outcome'' (rnd E 0), xo_task = vo_task v, xo_class = vo_class v,
     xo_scope = vo_scope v, xo_executor = vo_executor v, xo_accepted = vo_accepted v, xo_human = vo_human v,
     xo_retries = vo_retries v, xo_cost = vo_cost v, xo_latency = vo_latency v, xo_recorded = clk E 0\<rparr>"

definition ObserveVerifiedOutcome :: "experience_service \<Rightarrow> env \<Rightarrow> VerifiedOutcome \<Rightarrow> db \<Rightarrow> db \<times> unit res" where
  "ObserveVerifiedOutcome S E input d =
     (let v = input\<lparr>vo_task := trim_space (vo_task input), vo_scope := trim_space (vo_scope input),
                    vo_executor := trim_space (vo_executor input)\<rparr> in
      case bindE (configured S) (\<lambda>_. bindE (validate_outcome v) (\<lambda>_. check_outcome S v d)) of
        Inl e \<Rightarrow> (d, Inl e)
      | Inr v \<Rightarrow>
          let r = outcome_row_of E v in
          if exists_where (\<lambda>x. same_outcome x r) (xt_outcomes (db_experience d)) then (d, Inr ())
          else (case insert_outcome r d of
                  Inr d' \<Rightarrow> (d', Inr ())
                | Inl e \<Rightarrow> if exists_where (\<lambda>x. same_outcome x r) (xt_outcomes (db_experience d)) then (d, Inr ()) else (d, Inl e)))"

subsection \<open>Evaluation (evaluator.go)\<close>

record outcomeStat =
  st_samples :: int
  st_accepted :: int
  st_cost :: int
  st_costs :: int

definition no_stat :: outcomeStat where
  "no_stat = \<lparr>st_samples = 0, st_accepted = 0, st_cost = 0, st_costs = 0\<rparr>"

definition add_outcome :: "outcome_row \<Rightarrow> outcomeStat \<Rightarrow> outcomeStat" where
  "add_outcome r s =
     \<lparr>st_samples = st_samples s + 1, st_accepted = st_accepted s + (if xo_accepted r then 1 else 0),
      st_cost = (case xo_cost r of None \<Rightarrow> st_cost s | Some c \<Rightarrow> wrap64 (st_cost s + c)),
      st_costs = st_costs s + (if xo_cost r = None then 0 else 1)\<rparr>"

definition mergeStat :: "outcomeStat \<Rightarrow> outcomeStat \<Rightarrow> outcomeStat" where
  "mergeStat a b = \<lparr>st_samples = st_samples a + st_samples b, st_accepted = st_accepted a + st_accepted b,
     st_cost = wrap64 (st_cost a + st_cost b), st_costs = st_costs a + st_costs b\<rparr>"

definition acceptanceRegressed :: "outcomeStat \<Rightarrow> outcomeStat \<Rightarrow> int \<Rightarrow> bool" where
  "acceptanceRegressed preferred baseline maxBps =
     (if st_samples preferred = 0 then False
      else let preferredBps = quot64 (wrap64 (st_accepted preferred * 10000)) (st_samples preferred) in
        if st_samples baseline = 0 then preferredBps < 10000
        else quot64 (wrap64 (st_accepted baseline * 10000)) (st_samples baseline) - preferredBps > maxBps)"

definition costRegressed :: "outcomeStat \<Rightarrow> outcomeStat \<Rightarrow> int \<Rightarrow> bool" where
  "costRegressed preferred baseline maxBps =
     (if st_costs preferred = 0 \<or> st_costs baseline = 0 then False
      else let prefAvg = quot64 (st_cost preferred) (st_costs preferred); baseAvg = quot64 (st_cost baseline) (st_costs baseline) in
        if baseAvg \<le> 0 then prefAvg > 0
        else if prefAvg \<le> baseAvg then False
        else quot64 (wrap64 (wrap64 (prefAvg - baseAvg) * 10000)) baseAvg > maxBps)"

text \<open>
  The latest outcome of each task, by the text of its time and then its identifier. The rows come without an ORDER BY; here
  they keep the order of the table.
\<close>

definition outcome_time :: "outcome_row \<Rightarrow> string \<times> ID" where
  "outcome_time r = (formatTime (xo_recorded r), xo_id r)"

definition later_outcome :: "outcome_row \<Rightarrow> outcome_row \<Rightarrow> bool" where
  "later_outcome x r \<longleftrightarrow> fst (outcome_time x) > fst (outcome_time r) \<or>
     fst (outcome_time x) = fst (outcome_time r) \<and> snd (outcome_time x) > snd (outcome_time r)"

definition latest_outcomes :: "string \<Rightarrow> GenericTaskClass \<Rightarrow> db \<Rightarrow> outcome_row list" where
  "latest_outcomes scope cls d =
     (let rows = filter (\<lambda>r. xo_scope r = scope \<and> xo_class r = cls) (xt_outcomes (db_experience d)) in
      filter (\<lambda>r. \<not> exists_where (\<lambda>x. xo_task x = xo_task r \<and> later_outcome x r) rows) rows)"

definition stat_of :: "outcome_row list \<Rightarrow> outcomeStat" where
  "stat_of rows = fold add_outcome rows no_stat"

definition outcomeStats :: "string \<Rightarrow> GenericTaskClass \<Rightarrow> db \<Rightarrow> (string \<times> outcomeStat) list \<times> ID list" where
  "outcomeStats scope cls d =
     (let rows = latest_outcomes scope cls d in
      (map (\<lambda>x. (x, stat_of (filter (\<lambda>r. xo_executor r = x) rows))) (remdups (map xo_executor rows)), map xo_id rows))"

definition stat_lookup :: "string \<Rightarrow> (string \<times> outcomeStat) list \<Rightarrow> outcomeStat" where
  "stat_lookup x stats = (case map_of stats x of None \<Rightarrow> no_stat | Some s \<Rightarrow> s)"

definition baseline_of :: "string \<Rightarrow> (string \<times> outcomeStat) list \<Rightarrow> outcomeStat" where
  "baseline_of preferred stats = fold (\<lambda>(x, s) acc. if x \<noteq> preferred then mergeStat acc s else acc) stats no_stat"

definition loadProposal :: "ID \<Rightarrow> db \<Rightarrow> (proposal_row \<times> ID list) res" where
  "loadProposal k d =
     (let k = trim_space k in
      if k = [] then Inl (Err ''proposal id is required'')
      else case find_by xp_id k (xt_proposals (db_experience d)) of
             None \<Rightarrow> Inl (Err ''experience proposal not found'')
           | Some p \<Rightarrow> Inr (p, sort (map snd (filter (\<lambda>(q, _). q = k) (xt_proposal_evidence (db_experience d))))))"

definition rules_of :: "ID \<Rightarrow> db \<Rightarrow> ExperienceRule list" where
  "rules_of proposal d = filter (\<lambda>r. xr_proposal r = proposal) (xt_rules (db_experience d))"

definition latestRule :: "ID \<Rightarrow> db \<Rightarrow> ExperienceRule option" where
  "latestRule proposal d =
     (case rev (sort_key xr_version (rules_of proposal d)) of [] \<Rightarrow> None | r # _ \<Rightarrow> Some r)"

definition next_rule_state :: "rule_state option \<Rightarrow> bool \<Rightarrow> bool \<Rightarrow> outcomeStat \<Rightarrow> int \<Rightarrow> rule_state" where
  "next_rule_state current expired regressed preferred least =
     (if current = Some ExperienceActive \<and> (expired \<or> regressed) then ExperienceRolledBack
      else if \<not> expired \<and> st_samples preferred \<ge> least \<and> \<not> regressed \<and> st_accepted preferred > 0 then ExperienceActive
      else if current = Some ExperienceActive then ExperienceActive
      else ExperienceShadow)"

fun rule_state_text :: "rule_state \<Rightarrow> string" where
  "rule_state_text ExperienceCandidate = ''CANDIDATE''"
| "rule_state_text ExperienceShadow = ''SHADOW''"
| "rule_state_text ExperienceActive = ''ACTIVE''"
| "rule_state_text ExperienceRolledBack = ''ROLLED_BACK''"
| "rule_state_text ExperienceRetired = ''RETIRED''"

definition evaluateTx :: "ExperienceRule \<Rightarrow> ID list \<Rightarrow> ID list \<Rightarrow> db \<Rightarrow> (ExperienceRule \<times> db) res" where
  "evaluateTx rule evidence outcomes d =
     bindE (insert_rule rule d) (\<lambda>d.
     bindE (insert_links (xr_id rule) evidence (xt_rule_evidence (db_experience d))) (\<lambda>links.
     bindE (insert_links (xr_id rule) outcomes (xt_rule_outcomes (db_experience d))) (\<lambda>links'.
     Inr (rule, set_experience (\<lambda>x. x\<lparr>xt_rule_evidence := links, xt_rule_outcomes := links',
       xt_proposals := update_where (\<lambda>p. xp_id p = xr_proposal rule)
         (\<lambda>p. p\<lparr>xp_state := xr_state rule, xp_updated := xr_created rule\<rparr>) (xt_proposals x)\<rparr>) d))))"

text \<open>What an evaluation reads, and the version of the rule it decides to write, if any.\<close>

definition evaluate_rule :: "env \<Rightarrow> proposal_row \<Rightarrow> AdaptationGrant \<Rightarrow> db \<Rightarrow> ExperienceRule + ExperienceRule" where
  "evaluate_rule E p g d =
     (let current = latestRule (xp_id p) d; stats = fst (outcomeStats (xp_scope p) (xp_class p) d);
          preferred = stat_lookup (xp_executor p) stats; baseline = baseline_of (xp_executor p) stats;
          expired = (\<not> ag_expires g > clk E 0);
          regressed = (acceptanceRegressed preferred baseline (ag_acceptance_bps g) \<or>
            costRegressed preferred baseline (ag_cost_bps g));
          next_state = next_rule_state (map_option xr_state current) expired regressed preferred (ag_samples g);
          fresh = \<lparr>xr_id = NewID ''experience-rule'' (rnd E 0), xr_proposal = xp_id p, xr_grant = ag_id g,
            xr_version = (case current of None \<Rightarrow> 1 | Some c \<Rightarrow> wrap64 (xr_version c + 1)), xr_kind = ag_kind g,
            xr_scope = xp_scope p, xr_class = xp_class p, xr_executor = xp_executor p, xr_state = next_state,
            xr_samples = st_samples preferred,
            xr_activated = (if next_state = ExperienceActive then clk E 1 else 0),
            xr_rolled_back = (if next_state = ExperienceRolledBack then clk E 1 else 0), xr_created = clk E 1\<rparr> in
      case current of
        None \<Rightarrow> Inr fresh
      | Some c \<Rightarrow>
          if xr_state c = ExperienceRolledBack \<or> xr_state c = next_state \<and> xr_samples c = st_samples preferred then Inl c
          else Inr fresh)"

definition Evaluate :: "experience_service \<Rightarrow> env \<Rightarrow> ID \<Rightarrow> db \<Rightarrow> db \<times> ExperienceRule res" where
  "Evaluate S E proposalID d =
     (case bindE (configured S) (\<lambda>_. bindE (loadProposal proposalID d) (\<lambda>(p, evidence).
           bindE (Get_grant (xp_grant p) d) (\<lambda>g. Inr (p, evidence, g)))) of
        Inl e \<Rightarrow> (d, Inl e)
      | Inr (p, evidence, g) \<Rightarrow>
          (case evaluate_rule E p g d of
             Inl current \<Rightarrow> (d, Inr current)
           | Inr rule \<Rightarrow>
               let outcomes = snd (outcomeStats (xp_scope p) (xp_class p) d) in
               (case with_tx (evaluateTx rule evidence outcomes) d of
                  (d, Inl e) \<Rightarrow> (d, Inl e)
                | (d, Inr rule) \<Rightarrow>
                    (fst (Append (clk E 2) (rnd E 1)
                       \<lparr>au_id = [], au_kind = ''EXPERIENCE_RULE_EVALUATED'', au_actor = ''experience-service'', au_subject = xr_id rule,
                        au_payload = [(''proposal_id'', Text (xr_proposal rule)), (''grant_id'', Text (xr_grant rule)),
                          (''state'', Text (rule_state_text (xr_state rule))), (''verified_samples'', Number (xr_samples rule)),
                          (''evidence_ids'', Texts evidence), (''outcome_ids'', Texts outcomes)]\<rparr> d),
                     Inr rule))))"

subsection \<open>Preferences\<close>

record PreferenceQuery =
  pq_scope :: string
  pq_class :: GenericTaskClass

definition latest_version :: "ExperienceRule \<Rightarrow> db \<Rightarrow> bool" where
  "latest_version r d \<longleftrightarrow> \<not> exists_where (\<lambda>x. xr_proposal x = xr_proposal r \<and> xr_version x > xr_version r) (xt_rules (db_experience d))"

definition in_force :: "PreferenceQuery \<Rightarrow> gtime \<Rightarrow> db \<Rightarrow> ExperienceRule \<Rightarrow> bool" where
  "in_force q now d r \<longleftrightarrow> latest_version r d \<and> xr_scope r = pq_scope q \<and> xr_state r = ExperienceActive \<and>
     exists_where (\<lambda>g. ag_id g = xr_grant r \<and> formatTime (ag_expires g) > formatTime now) (xt_grants (db_experience d)) \<and>
     (pq_class q = GenericTaskUnknown [] \<or> xr_class r = pq_class q)"

definition active_rules :: "PreferenceQuery \<Rightarrow> gtime \<Rightarrow> db \<Rightarrow> ExperienceRule list" where
  "active_rules q now d =
     rev (sort_key (\<lambda>r. (formatTime (xr_created r), xr_version r)) (filter (in_force q now d) (xt_rules (db_experience d))))"

definition Preference :: "experience_service \<Rightarrow> gtime \<Rightarrow> PreferenceQuery \<Rightarrow> db \<Rightarrow> (ID \<times> string) option res" where
  "Preference S now query d =
     (let q = query\<lparr>pq_scope := trim_space (pq_scope query)\<rparr> in
      bindE (configured S) (\<lambda>_.
      if pq_scope q = [] then Inl (Err ''preference scope is required'')
      else if pq_class q \<noteq> GenericTaskUnknown [] \<and> \<not> class_valid (pq_class q) then Inl (Err ''invalid preference task class'')
      else case active_rules q now d of
             [] \<Rightarrow> Inr None
           | [r] \<Rightarrow> Inr (Some (xr_id r, xr_executor r))
           | r # r' # _ \<Rightarrow>
               if xr_executor r \<noteq> xr_executor r' then Inl (Err ''ambiguous active experience preferences'')
               else Inr (Some (xr_id r, xr_executor r))))"

definition PreferredExecutor :: "experience_service \<Rightarrow> gtime \<Rightarrow> db \<Rightarrow> task \<Rightarrow> string list \<Rightarrow> (string \<times> bool) res" where
  "PreferredExecutor S now d t eligible =
     (let scope = trim_space (t_class t) in
      if scope = [] then Inr ([], False)
      else bindE (Preference S now \<lparr>pq_scope = scope, pq_class = GenericTaskUnknown []\<rparr> d) (\<lambda>p.
           case p of
             None \<Rightarrow> Inr ([], False)
           | Some (_, x) \<Rightarrow> Inr (if x \<in> set eligible then (x, True) else ([], False))))"

text \<open>The reads \<open>Rule\<close> and \<open>Rules\<close>.\<close>

definition Rule :: "ID \<Rightarrow> db \<Rightarrow> ExperienceRule res" where
  "Rule k d = (case find_by xr_id k (xt_rules (db_experience d)) of None \<Rightarrow> Inl ErrNoRows | Some r \<Rightarrow> Inr r)"

definition Rules :: "db \<Rightarrow> ExperienceRule list" where
  "Rules d = rev (sort_key (\<lambda>r. (formatTime (xr_created r), xr_version r)) (xt_rules (db_experience d)))"

subsection \<open>The invariant\<close>

text \<open>
  A grant rests on a consumed approval of the Owner alone, whose digest is that of the definition the grant was made from.
\<close>

definition defines_grant :: "GrantInput \<Rightarrow> AdaptationGrant \<Rightarrow> bool" where
  "defines_grant n g \<longleftrightarrow> ag_kind g = gi_kind n \<and> ag_scope g = gi_scope n \<and> ag_executors g = gi_executors n \<and>
     ag_samples g = gi_samples n \<and> ag_acceptance_bps g = gi_acceptance_bps n \<and> ag_cost_bps g = gi_cost_bps n \<and>
     ag_expires g = gi_expires n"

definition owner_consented :: "experience_service \<Rightarrow> db \<Rightarrow> AdaptationGrant \<Rightarrow> bool" where
  "owner_consented S d g \<longleftrightarrow> (\<exists>r a n definition.
     find_by gr_id (ag_request g) (xt_requests (db_experience d)) = Some r \<and>
     find_by ap_id (trim_space (gr_approval r)) (db_approvals d) = Some a \<and> ap_state a = ApprovalConsumed \<and>
     ap_kind a = ''ADAPTATION_GRANT'' \<and> ap_subject a = ag_request g \<and> ap_required a = [es_owner S] \<and>
     defines_grant n g \<and> gc_encode (es_codec S) n = Inr definition \<and> ap_digest a = gc_sha (es_codec S) definition)"

definition proposal_ok :: "db \<Rightarrow> proposal_row \<Rightarrow> bool" where
  "proposal_ok d p \<longleftrightarrow> (\<exists>g. find_by ag_id (xp_grant p) (xt_grants (db_experience d)) = Some g \<and>
     xp_executor p \<in> set (ag_executors g) \<and> xp_scope p = trim_space (ag_scope g))"

definition rule_ok :: "db \<Rightarrow> ExperienceRule \<Rightarrow> bool" where
  "rule_ok d r \<longleftrightarrow> (\<exists>p. find_by xp_id (xr_proposal r) (xt_proposals (db_experience d)) = Some p \<and>
     xr_grant r = xp_grant p \<and> xr_executor r = xp_executor p \<and> xr_scope r = xp_scope p \<and> proposal_ok d p)"

definition rolled_back_last :: "ExperienceRule list \<Rightarrow> bool" where
  "rolled_back_last rules \<longleftrightarrow> (\<forall>r \<in> set rules. \<forall>x \<in> set rules. xr_state r = ExperienceRolledBack \<longrightarrow>
     xr_proposal x = xr_proposal r \<longrightarrow> x = r \<or> xr_version x < xr_version r)"

definition experience_ok :: "experience_service \<Rightarrow> db \<Rightarrow> bool" where
  "experience_ok S d \<longleftrightarrow> approvals_ok d \<and> distinct (map ag_id (xt_grants (db_experience d))) \<and>
     (\<forall>g \<in> set (xt_grants (db_experience d)). owner_consented S d g) \<and>
     (\<forall>p \<in> set (xt_proposals (db_experience d)). proposal_ok d p) \<and>
     (\<forall>r \<in> set (xt_rules (db_experience d)). rule_ok d r \<and> in64 (xr_version r)) \<and>
     rolled_back_last (xt_rules (db_experience d))"

lemma experience_okD:
  assumes "experience_ok S d"
  shows "approvals_ok d" "\<And>g. g \<in> set (xt_grants (db_experience d)) \<Longrightarrow> owner_consented S d g"
    "\<And>p. p \<in> set (xt_proposals (db_experience d)) \<Longrightarrow> proposal_ok d p"
    "\<And>r. r \<in> set (xt_rules (db_experience d)) \<Longrightarrow> rule_ok d r"
    "\<And>r. r \<in> set (xt_rules (db_experience d)) \<Longrightarrow> in64 (xr_version r)" "rolled_back_last (xt_rules (db_experience d))"
    "distinct (map ag_id (xt_grants (db_experience d)))"
  using assms by (simp_all add: experience_ok_def)

lemma experience_ok_cong:
  "db_experience d' = db_experience d \<Longrightarrow> db_approvals d' = db_approvals d \<Longrightarrow> db_decisions d' = db_decisions d \<Longrightarrow>
   experience_ok S d' = experience_ok S d"
  by (simp add: experience_ok_def owner_consented_def proposal_ok_def rule_ok_def approvals_ok_def)

text \<open>Requests, grants and the bindings of proposals are never lost; an approval once consumed stays so.\<close>

definition same_binding :: "proposal_row \<Rightarrow> proposal_row \<Rightarrow> bool" where
  "same_binding p p' \<longleftrightarrow> p' = p\<lparr>xp_state := xp_state p', xp_updated := xp_updated p'\<rparr>"

definition grants_le :: "db \<Rightarrow> db \<Rightarrow> bool" where
  "grants_le d d' \<longleftrightarrow> approval_le d d' \<and>
     (\<exists>rs. xt_requests (db_experience d') = xt_requests (db_experience d) @ rs) \<and>
     (\<exists>gs. xt_grants (db_experience d') = xt_grants (db_experience d) @ gs)"

lemma find_by_appended: "find_by key k xs = Some r \<Longrightarrow> find_by key k (xs @ ys) = Some r"
  by (simp add: find_by_append)

lemma owner_consented_later:
  assumes "owner_consented S d g" and "grants_le d d'"
  shows "owner_consented S d' g"
proof -
  obtain r a n js where r: "find_by gr_id (ag_request g) (xt_requests (db_experience d)) = Some r"
    and a: "find_by ap_id (trim_space (gr_approval r)) (db_approvals d) = Some a" "ap_state a = ApprovalConsumed"
      "ap_kind a = ''ADAPTATION_GRANT''" "ap_subject a = ag_request g" "ap_required a = [es_owner S]"
    and n: "defines_grant n g" "gc_encode (es_codec S) n = Inr js" "ap_digest a = gc_sha (es_codec S) js"
    using assms(1) unfolding owner_consented_def by blast
  obtain rs where "xt_requests (db_experience d') = xt_requests (db_experience d) @ rs"
    using assms(2) unfolding grants_le_def by blast
  then have r': "find_by gr_id (ag_request g) (xt_requests (db_experience d')) = Some r"
    using r by (simp add: find_by_appended)
  obtain a' where a': "find_by ap_id (trim_space (gr_approval r)) (db_approvals d') = Some a'" and later: "later_approval a a'"
    using assms(2) a(1) unfolding grants_le_def approval_le_def by blast
  have "ap_state a' = ApprovalConsumed" using later_approvalD(6) [OF later] a(2) by simp
  moreover have "ap_kind a' = ap_kind a" "ap_subject a' = ap_subject a"
    using later_approvalD(2) [OF later] by (simp_all add: approval_key_def)
  ultimately show ?thesis
    unfolding owner_consented_def using r' a' a n later_approvalD(3,4) [OF later] by metis
qed

lemma proposal_ok_later: "proposal_ok d p \<Longrightarrow> grants_le d d' \<Longrightarrow> proposal_ok d' p"
  unfolding proposal_ok_def grants_le_def by (auto simp: find_by_appended)

lemma proposal_ok_binding: "same_binding p p' \<Longrightarrow> proposal_ok d p \<Longrightarrow> proposal_ok d p'"
  by (cases p, cases p') (simp add: same_binding_def proposal_ok_def)

lemma rule_ok_later:
  assumes "rule_ok d r" and "grants_le d d'"
    and "\<And>k p. find_by xp_id k (xt_proposals (db_experience d)) = Some p \<Longrightarrow>
      \<exists>p'. find_by xp_id k (xt_proposals (db_experience d')) = Some p' \<and> same_binding p p'"
  shows "rule_ok d' r"
proof -
  obtain p where p: "find_by xp_id (xr_proposal r) (xt_proposals (db_experience d)) = Some p"
    "xr_grant r = xp_grant p" "xr_executor r = xp_executor p" "xr_scope r = xp_scope p" "proposal_ok d p"
    using assms(1) unfolding rule_ok_def by blast
  obtain p' where p': "find_by xp_id (xr_proposal r) (xt_proposals (db_experience d')) = Some p'" "same_binding p p'"
    using assms(3) [OF p(1)] by blast
  have "proposal_ok d' p'" using proposal_ok_binding [OF p'(2) proposal_ok_later [OF p(5) assms(2)]] .
  moreover have "xp_grant p' = xp_grant p" "xp_executor p' = xp_executor p" "xp_scope p' = xp_scope p"
    using p'(2) by (cases p, cases p'; simp add: same_binding_def)+
  ultimately show ?thesis using p p'(1) unfolding rule_ok_def by auto
qed

text \<open>The general step: new requests and grants, proposals that keep their bindings, and perhaps new rules.\<close>

lemma experience_ok_step:
  assumes ok: "experience_ok S d" and le: "grants_le d d'" and approvals: "approvals_ok d'"
    and dist: "distinct (map ag_id (xt_grants (db_experience d')))"
    and grants: "\<And>g. g \<in> set (xt_grants (db_experience d')) \<Longrightarrow> g \<notin> set (xt_grants (db_experience d)) \<Longrightarrow> owner_consented S d' g"
    and proposals: "\<And>p'. p' \<in> set (xt_proposals (db_experience d')) \<Longrightarrow>
      proposal_ok d' p' \<or> (\<exists>p \<in> set (xt_proposals (db_experience d)). same_binding p p')"
    and bound: "\<And>k p. find_by xp_id k (xt_proposals (db_experience d)) = Some p \<Longrightarrow>
      \<exists>p'. find_by xp_id k (xt_proposals (db_experience d')) = Some p' \<and> same_binding p p'"
    and rules: "xt_rules (db_experience d') = xt_rules (db_experience d) @ new"
    and fresh: "\<And>r. r \<in> set new \<Longrightarrow> rule_ok d' r \<and> in64 (xr_version r)"
    and last: "rolled_back_last (xt_rules (db_experience d) @ new)"
  shows "experience_ok S d'"
  unfolding experience_ok_def
proof (intro conjI ballI)
  fix g assume "g \<in> set (xt_grants (db_experience d'))"
  then show "owner_consented S d' g"
    using grants owner_consented_later [OF experience_okD(2) [OF ok] le] by blast
next
  fix p' assume "p' \<in> set (xt_proposals (db_experience d'))"
  then show "proposal_ok d' p'"
    using proposals proposal_ok_binding proposal_ok_later [OF experience_okD(3) [OF ok] le] by blast
next
  fix r assume "r \<in> set (xt_rules (db_experience d'))"
  then show "rule_ok d' r" "in64 (xr_version r)"
    unfolding rules using fresh rule_ok_later [OF experience_okD(4) [OF ok] le bound] experience_okD(5) [OF ok] by auto
qed (use approvals last rules dist in simp_all)

lemma same_binding_refl [simp]: "same_binding p p"
  by (simp add: same_binding_def)

text \<open>Steps that touch neither proposals nor rules, or add a proposal.\<close>

lemma experience_ok_grants:
  assumes "experience_ok S d" and "grants_le d d'" and "approvals_ok d'"
    and "distinct (map ag_id (xt_grants (db_experience d')))"
    and "\<And>g. g \<in> set (xt_grants (db_experience d')) \<Longrightarrow> g \<notin> set (xt_grants (db_experience d)) \<Longrightarrow> owner_consented S d' g"
    and "xt_proposals (db_experience d') = xt_proposals (db_experience d) @ ps" and "\<And>p. p \<in> set ps \<Longrightarrow> proposal_ok d' p"
    and "xt_rules (db_experience d') = xt_rules (db_experience d)"
  shows "experience_ok S d'"
proof (rule experience_ok_step [where new = "[]", OF assms(1-5)])
  show "proposal_ok d' p' \<or> (\<exists>p \<in> set (xt_proposals (db_experience d)). same_binding p p')"
    if "p' \<in> set (xt_proposals (db_experience d'))" for p'
    using that assms(6,7) same_binding_refl by (metis Un_iff set_append)
qed (use assms(6,8) experience_okD(6) [OF assms(1)] in \<open>auto simp: find_by_appended\<close>)

subsection \<open>The calls\<close>

lemma set_experience_sel [simp]:
  "db_experience (set_experience f d) = f (db_experience d)" "db_approvals (set_experience f d) = db_approvals d"
  "db_decisions (set_experience f d) = db_decisions d"
  by (simp_all add: set_experience_def)

lemma Append_same:
  "db_experience (fst (Append now rand event d)) = db_experience d" "db_approvals (fst (Append now rand event d)) = db_approvals d"
  "db_decisions (fst (Append now rand event d)) = db_decisions d"
  by (rule Append_cases [of now rand event d]; simp add: set_audit_def)+

lemma CreateInTx_experience: "CreateInTx now created rand q d = Inr (a, d') \<Longrightarrow> db_experience d' = db_experience d"
  using CreateInTx_Inr [of now created rand q d a d'] by auto

lemma ConsumeInTx_experience: "ConsumeInTx now k digest d = Inr d' \<Longrightarrow> db_experience d' = db_experience d"
  by (erule ConsumeInTx_Inr) (simp add: set_approval_def)

lemma normalizeGrantInput_Inr:
  "normalizeGrantInput C input now = Inr (n, js, digest) \<Longrightarrow> gc_encode C n = Inr js \<and> digest = gc_sha C js \<and>
   gi_kind n = AdaptationExecutorPreference \<and> gi_scope n = trim_space (gi_scope input) \<and>
   gi_executors n = cleanStrings (gi_executors input) \<and> list_all safeExecutorName (gi_executors n) \<and> gi_samples n > 0 \<and>
   0 \<le> gi_acceptance_bps n \<and> gi_acceptance_bps n \<le> 10000 \<and> 0 \<le> gi_cost_bps n \<and> now < gi_expires n"
  by (auto simp: normalizeGrantInput_def Let_def bindE_Inr_iff split: if_splits)

lemma requestGrantTx_cases:
  assumes "requestGrantTx S E n js digest actor d = Inr (q, d')"
  obtains "d' = d"
  | a d1 r where "CreateInTx (clk E 1) (clk E 2) (rnd E 1)
       \<lparr>cr_kind = ''ADAPTATION_GRANT'', cr_subject = NewID ''grant-request'' (rnd E 0), cr_digest = digest, cr_policy = [],
        cr_required = [es_owner S], cr_requester = actor, cr_expires = gi_expires n\<rparr> d = Inr (a, d1)"
      "d' = set_experience (\<lambda>x. x\<lparr>xt_requests := xt_requests x @ [r]\<rparr>) d1"
  using assms
  by (auto simp: requestGrantTx_def Let_def bindE_Inr_iff insert_grant_request_def requireE_Inr_iff split: option.splits if_splits)

lemma activateGrantTx_cases:
  assumes "activateGrantTx S E request d = Inr (g, d')"
  obtains "loadGrantByRequest request d = Some g" "d' = d"
  | r n js a xs d1 where "loadGrantByRequest request d = None" "find_by gr_id request (xt_requests (db_experience d)) = Some r"
      "Approvals.Get (gr_approval r) d = Inr (a, xs)" "authorized_request S request (gr_digest r) a = Inr ()"
      "ConsumeInTx (clk E 2) (ap_id a) (gr_digest r) d = Inr d1"
      "d' = set_experience (\<lambda>x. x\<lparr>xt_grants := xt_grants x @ [g]\<rparr>) d1"
      "ag_id g \<notin> ag_id ` set (xt_grants (db_experience d))" "ag_request g = request" "ag_owner g = es_owner S"
      "defines_grant n g" "gc_encode (es_codec S) n = Inr js" "gr_digest r = gc_sha (es_codec S) js"
      "clk E 1 < ag_expires g" "gi_kind n = AdaptationExecutorPreference" "list_all safeExecutorName (ag_executors g)"
proof (cases "loadGrantByRequest request d")
  case (Some x)
  then have "g = x \<and> d' = d" using assms unfolding activateGrantTx_def by simp
  with Some show thesis using that(1) by simp
next
  case None
  from assms None obtain r where r: "find_by gr_id request (xt_requests (db_experience d)) = Some r"
    by (cases "find_by gr_id request (xt_requests (db_experience d))") (simp_all add: activateGrantTx_def)
  from assms None r have run: "bindE (gc_decode (es_codec S) (gr_definition r)) (\<lambda>definition.
      bindE (normalizeGrantInput (es_codec S) definition (clk E 0)) (\<lambda>(normalized, _, computed).
        if computed \<noteq> gr_digest r then Inl (Err ''adaptation grant definition digest mismatch'')
        else if \<not> gi_expires normalized > clk E 1 then Inl (Err ''adaptation grant request expired'')
        else activate_body S E request r normalized d)) = Inr (g, d')"
    by (simp add: activateGrantTx_def)
  then obtain def n js computed where
    def: "gc_decode (es_codec S) (gr_definition r) = Inr def"
      "normalizeGrantInput (es_codec S) def (clk E 0) = Inr (n, js, computed)"
    and comp: "computed = gr_digest r" "clk E 1 < gi_expires n"
    and body: "activate_body S E request r n d = Inr (g, d')"
    by (auto simp: bindE_Inr_iff split: if_splits)
  let ?g = "\<lparr>ag_id = NewID ''grant'' (rnd E 0), ag_request = request, ag_kind = gi_kind n, ag_scope = gi_scope n,
     ag_executors = gi_executors n, ag_samples = gi_samples n, ag_acceptance_bps = gi_acceptance_bps n,
     ag_cost_bps = gi_cost_bps n, ag_owner = es_owner S, ag_expires = gi_expires n, ag_activated = clk E 3\<rparr>"
  from body obtain z where z: "Approvals.Get (gr_approval r) d = Inr z"
    "(case z of (a, _) \<Rightarrow> bindE (authorized_request S request (gr_digest r) a) (\<lambda>_.
      bindE (ConsumeInTx (clk E 2) (ap_id a) (gr_digest r) d) (\<lambda>d. bindE (insert_grant ?g d) (\<lambda>d. Inr (?g, d))))) = Inr (g, d')"
    unfolding activate_body_def Let_def by (rule bindE_InrE)
  obtain a xs where axs: "z = (a, xs)" by (cases z)
  have a: "Approvals.Get (gr_approval r) d = Inr (a, xs)" using z(1) axs by simp
  from z(2) have "bindE (authorized_request S request (gr_digest r) a) (\<lambda>_.
      bindE (ConsumeInTx (clk E 2) (ap_id a) (gr_digest r) d) (\<lambda>d. bindE (insert_grant ?g d) (\<lambda>d. Inr (?g, d)))) = Inr (g, d')"
    using axs by simp
  then obtain d1 where d1: "authorized_request S request (gr_digest r) a = Inr ()"
    "ConsumeInTx (clk E 2) (ap_id a) (gr_digest r) d = Inr d1" and ins: "bindE (insert_grant ?g d1) (\<lambda>d. Inr (?g, d)) = Inr (g, d')"
    by (elim bindE_InrE) simp
  from ins have g: "g = ?g" and ins: "insert_grant g d1 = Inr d'" by (auto elim!: bindE_InrE)
  have "d' = set_experience (\<lambda>x. x\<lparr>xt_grants := xt_grants x @ [g]\<rparr>) d1 \<and> ag_id g \<notin> ag_id ` set (xt_grants (db_experience d))"
    using ins ConsumeInTx_experience [OF d1(2)] by (auto simp: insert_grant_def bindE_Inr_iff requireE_Inr_iff exists_where_iff)
  moreover have "gc_encode (es_codec S) n = Inr js \<and> computed = gc_sha (es_codec S) js \<and>
      gi_kind n = AdaptationExecutorPreference \<and> list_all safeExecutorName (gi_executors n)"
    using normalizeGrantInput_Inr [OF def(2)] by blast
  ultimately show thesis
    using comp by (intro that(2) [where n = n and js = js, OF None r a d1]) (simp_all add: g defines_grant_def)
qed

lemma authorized_requestD:
  "authorized_request S request digest a = Inr u \<Longrightarrow> ap_kind a = ''ADAPTATION_GRANT'' \<and> ap_subject a = request \<and>
   ap_digest a = digest \<and> ap_required a = [es_owner S] \<and> ap_state a = ApprovalApproved"
  by (simp add: authorized_request_def split: if_splits)

lemma Get_granted_Inr: "Approvals.Get k d = Inr (a, xs) \<Longrightarrow> find_by ap_id (trim_space k) (db_approvals d) = Some a"
  by (auto simp: Approvals.Get_def Let_def bindE_Inr_iff requireE_Inr_iff split: option.splits)

lemma check_proposal_Inr:
  "check_proposal S now input g = Inr (scope, cls) \<Longrightarrow> scope = trim_space (ag_scope g) \<and> cls = genericTaskClassForScope (es_lower S) scope \<and>
   pi_executor input \<in> set (ag_executors g) \<and> now < ag_expires g \<and> ag_kind g = AdaptationExecutorPreference"
  by (auto simp: check_proposal_def Let_def split: if_splits)

lemma Get_grant_Inr: "Get_grant k d = Inr g \<Longrightarrow> find_by ag_id k (xt_grants (db_experience d)) = Some g"
  by (simp add: Get_grant_def split: option.splits)

lemma proposeTx_Inr:
  assumes "proposeTx out d = Inr (x, d')"
  shows "\<exists>p links. xp_id p = ep_id out \<and> xp_grant p = ep_grant out \<and> xp_scope p = ep_scope out \<and> xp_executor p = ep_executor out \<and>
    ep_id out \<notin> xp_id ` set (xt_proposals (db_experience d)) \<and>
    d' = set_experience (\<lambda>x. x\<lparr>xt_proposals := xt_proposals x @ [p], xt_proposal_evidence := links\<rparr>) d"
proof -
  let ?p = "\<lparr>xp_id = ep_id out, xp_grant = ep_grant out, xp_class = ep_class out, xp_scope = ep_scope out,
      xp_executor = ep_executor out, xp_state = ep_state out, xp_created = ep_created out, xp_updated = ep_created out\<rparr>"
  obtain d1 links where d1: "insert_proposal ?p d = Inr d1"
    and d': "d' = set_experience (\<lambda>x. x\<lparr>xt_proposal_evidence := links\<rparr>) d1"
    using assms by (auto simp: proposeTx_def elim!: bindE_InrE)
  have "d1 = set_experience (\<lambda>x. x\<lparr>xt_proposals := xt_proposals x @ [?p]\<rparr>) d" "ep_id out \<notin> xp_id ` set (xt_proposals (db_experience d))"
    using d1 by (auto simp: insert_proposal_def bindE_Inr_iff requireE_Inr_iff exists_where_iff)
  then show ?thesis unfolding d' by (intro exI [of _ ?p] exI [of _ links]) (simp add: set_experience_def)
qed

lemma Propose_cases:
  obtains "fst (Propose S E input d) = d"
  | g p links where "find_by ag_id (xp_grant p) (xt_grants (db_experience d)) = Some g"
      "xp_executor p \<in> set (ag_executors g)" "xp_scope p = trim_space (ag_scope g)"
      "xp_id p \<notin> xp_id ` set (xt_proposals (db_experience d))"
      "fst (Propose S E input d) = set_experience (\<lambda>x. x\<lparr>xt_proposals := xt_proposals x @ [p], xt_proposal_evidence := links\<rparr>) d"
proof -
  define q where "q = input\<lparr>pi_grant := trim_space (pi_grant input), pi_scope := trim_space (pi_scope input),
    pi_executor := trim_space (pi_executor input), pi_evidence := cleanStrings (pi_evidence input)\<rparr>"
  define chk where "chk = bindE (configured S) (\<lambda>_.
      bindE (requireE (\<not> (pi_grant q = [] \<or> pi_executor q = [] \<or> pi_evidence q = []))
        (Err ''proposal requires grant, preferred executor, and evidence'')) (\<lambda>_.
      bindE (Get_grant (pi_grant q) d) (\<lambda>g. bindE (check_proposal S (clk E 0) q g) (\<lambda>(scope, cls). Inr (g, scope, cls)))))"
  show thesis
  proof (cases chk)
    case (Inl e)
    then show thesis using that(1) by (simp add: Propose_def q_def [symmetric] chk_def)
  next
    case (Inr y)
    obtain g scope cls where y: "y = (g, scope, cls)" by (cases y)
    then have g: "Get_grant (pi_grant q) d = Inr g" and chk: "check_proposal S (clk E 0) q g = Inr (scope, cls)"
      using Inr by (auto simp: chk_def elim!: bindE_InrE)
    let ?out = "\<lparr>ep_id = NewID ''experience-proposal'' (rnd E 0), ep_grant = ag_id g, ep_class = cls, ep_scope = scope,
      ep_executor = pi_executor q, ep_evidence = pi_evidence q, ep_state = ExperienceCandidate, ep_created = clk E 1\<rparr>"
    have run: "Propose S E input d = with_tx (proposeTx ?out) d"
      using Inr y by (simp add: Propose_def q_def [symmetric] chk_def)
    show thesis
    proof (cases "proposeTx ?out d")
      case (Inl e)
      then show thesis using that(1) run by (simp add: with_tx_def)
    next
      case (Inr z)
      obtain x d' where z: "z = (x, d')" by (cases z)
      from Inr [unfolded z] obtain links p where p: "xp_id p = ep_id ?out" "xp_grant p = ag_id g" "xp_scope p = scope" "xp_executor p = pi_executor q"
        "ep_id ?out \<notin> xp_id ` set (xt_proposals (db_experience d))"
        "d' = set_experience (\<lambda>x. x\<lparr>xt_proposals := xt_proposals x @ [p], xt_proposal_evidence := links\<rparr>) d"
        using proposeTx_Inr [of ?out d x d'] by auto
      have "find_by ag_id (ag_id g) (xt_grants (db_experience d)) = Some g" using find_by_own [OF Get_grant_Inr [OF g]] .
      then show thesis
        using check_proposal_Inr [OF chk] p run Inr z by (intro that(2) [of p g links]) (simp_all add: with_tx_def)
    qed
  qed
qed

lemma ObserveVerifiedOutcome_cases:
  obtains "fst (ObserveVerifiedOutcome S E input d) = d"
  | v r where "fst (ObserveVerifiedOutcome S E input d) = set_experience (\<lambda>x. x\<lparr>xt_outcomes := xt_outcomes x @ [r]\<rparr>) d"
      "check_outcome S (input\<lparr>vo_task := trim_space (vo_task input), vo_scope := trim_space (vo_scope input),
         vo_executor := trim_space (vo_executor input)\<rparr>) d = Inr v" "r = outcome_row_of E v"
      "\<not> exists_where (\<lambda>x. xo_id x = xo_id r \<or> same_outcome x r) (xt_outcomes (db_experience d))"
proof -
  define v0 where "v0 = input\<lparr>vo_task := trim_space (vo_task input), vo_scope := trim_space (vo_scope input),
    vo_executor := trim_space (vo_executor input)\<rparr>"
  show thesis
  proof (cases "bindE (configured S) (\<lambda>_. bindE (validate_outcome v0) (\<lambda>_. check_outcome S v0 d))")
    case (Inl e)
    then show thesis using that(1) by (simp add: ObserveVerifiedOutcome_def v0_def [symmetric])
  next
    case (Inr v)
    then have run: "ObserveVerifiedOutcome S E input d =
        (if exists_where (\<lambda>x. same_outcome x (outcome_row_of E v)) (xt_outcomes (db_experience d)) then (d, Inr ())
         else (case insert_outcome (outcome_row_of E v) d of
                 Inr d' \<Rightarrow> (d', Inr ())
               | Inl e \<Rightarrow> if exists_where (\<lambda>x. same_outcome x (outcome_row_of E v)) (xt_outcomes (db_experience d))
                   then (d, Inr ()) else (d, Inl e)))"
      by (simp add: ObserveVerifiedOutcome_def v0_def [symmetric] Let_def)
    have chk: "check_outcome S v0 d = Inr v" using Inr by (auto elim!: bindE_InrE)
    show thesis
    proof (cases "insert_outcome (outcome_row_of E v) d")
      case (Inl e)
      then show thesis using that(1) run by simp
    next
      case (Inr d')
      then have "d' = set_experience (\<lambda>x. x\<lparr>xt_outcomes := xt_outcomes x @ [outcome_row_of E v]\<rparr>) d"
        "\<not> exists_where (\<lambda>x. xo_id x = xo_id (outcome_row_of E v) \<or> same_outcome x (outcome_row_of E v)) (xt_outcomes (db_experience d))"
        by (auto simp: insert_outcome_def bindE_Inr_iff requireE_Inr_iff)
      then show thesis
        using that(1) that(2) [OF _ chk [unfolded v0_def] refl] run Inr by (auto simp: exists_where_iff)
    qed
  qed
qed

lemma latestRule_Some:
  assumes "latestRule k d = Some r"
  shows "r \<in> set (xt_rules (db_experience d)) \<and> xr_proposal r = k \<and>
    (\<forall>x \<in> set (xt_rules (db_experience d)). xr_proposal x = k \<longrightarrow> xr_version x \<le> xr_version r)"
proof -
  let ?s = "sort_key xr_version (rules_of k d)"
  obtain rs where rs: "rev ?s = r # rs" using assms by (auto simp: latestRule_def split: list.splits)
  then have s: "?s = rev rs @ [r]" by (metis rev_eq_Cons_iff)
  have "sorted (map xr_version ?s)" by simp
  then have "\<forall>x \<in> set ?s. xr_version x \<le> xr_version r" unfolding s by (auto simp: sorted_append)
  moreover have "r \<in> set ?s" unfolding s by simp
  ultimately show ?thesis by (auto simp: rules_of_def)
qed

lemma latestRule_None: "latestRule k d = None \<longleftrightarrow> (\<forall>x \<in> set (xt_rules (db_experience d)). xr_proposal x \<noteq> k)"
proof -
  have "latestRule k d = None \<longleftrightarrow> rules_of k d = []"
    by (auto simp: latestRule_def split: list.split) (metis length_0_conv length_sort)
  then show ?thesis by (auto simp: rules_of_def filter_empty_conv)
qed

lemma evaluate_rule_Inr:
  assumes "evaluate_rule E p g d = Inr r"
  shows "xr_proposal r = xp_id p \<and> xr_grant r = ag_id g \<and> xr_scope r = xp_scope p \<and> xr_class r = xp_class p \<and>
    xr_executor r = xp_executor p \<and> in64 (xr_version r) \<and>
    (case latestRule (xp_id p) d of None \<Rightarrow> xr_version r = 1 \<and> xr_state r \<noteq> ExperienceRolledBack
     | Some c \<Rightarrow> xr_version r = wrap64 (xr_version c + 1) \<and> xr_state c \<noteq> ExperienceRolledBack)"
  using assms
  by (cases "latestRule (xp_id p) d")
    (auto simp: evaluate_rule_def Let_def next_rule_state_def in64_def [of 1] split: if_splits)

lemma evaluateTx_Inr:
  assumes "evaluateTx rule evidence outcomes d = Inr (x, d')"
  shows "\<exists>l l'. x = rule \<and> 0 < xr_version rule \<and>
    (\<forall>y \<in> set (xt_rules (db_experience d)). xr_id y \<noteq> xr_id rule \<and> (xr_proposal y = xr_proposal rule \<longrightarrow> xr_version y \<noteq> xr_version rule)) \<and>
    d' = set_experience (\<lambda>x. x\<lparr>xt_rules := xt_rules x @ [rule], xt_rule_evidence := l, xt_rule_outcomes := l',
      xt_proposals := update_where (\<lambda>p. xp_id p = xr_proposal rule)
         (\<lambda>p. p\<lparr>xp_state := xr_state rule, xp_updated := xr_created rule\<rparr>) (xt_proposals x)\<rparr>) d"
proof -
  obtain d1 l l' where d1: "insert_rule rule d = Inr d1" and x: "x = rule"
    and d': "d' = set_experience (\<lambda>x. x\<lparr>xt_rule_evidence := l, xt_rule_outcomes := l',
      xt_proposals := update_where (\<lambda>p. xp_id p = xr_proposal rule)
         (\<lambda>p. p\<lparr>xp_state := xr_state rule, xp_updated := xr_created rule\<rparr>) (xt_proposals x)\<rparr>) d1"
    using assms unfolding evaluateTx_def by (elim bindE_InrE) auto
  have "d1 = set_experience (\<lambda>x. x\<lparr>xt_rules := xt_rules x @ [rule]\<rparr>) d" "0 < xr_version rule"
    "\<forall>y \<in> set (xt_rules (db_experience d)). xr_id y \<noteq> xr_id rule \<and> (xr_proposal y = xr_proposal rule \<longrightarrow> xr_version y \<noteq> xr_version rule)"
    using d1 by (auto simp: insert_rule_def bindE_Inr_iff requireE_Inr_iff exists_where_iff)
  then show ?thesis unfolding d' x by (intro exI [of _ l] exI [of _ l']) (simp add: set_experience_def)
qed

lemma loadProposal_Inr: "loadProposal k d = Inr (p, xs) \<Longrightarrow> find_by xp_id (trim_space k) (xt_proposals (db_experience d)) = Some p"
  by (simp add: loadProposal_def Let_def split: if_splits option.splits)

text \<open>An evaluation returns the stored rule and changes nothing, fails and changes nothing, or writes the next version.\<close>

lemma Evaluate_cases:
  obtains (same) p g c where "Evaluate S E k d = (d, Inr c)" "find_by xp_id (trim_space k) (xt_proposals (db_experience d)) = Some p"
      "find_by ag_id (xp_grant p) (xt_grants (db_experience d)) = Some g" "evaluate_rule E p g d = Inl c"
  | (fail) e where "Evaluate S E k d = (d, Inl e)"
  | (new) p g r evidence d1 event where "find_by xp_id (trim_space k) (xt_proposals (db_experience d)) = Some p"
      "find_by ag_id (xp_grant p) (xt_grants (db_experience d)) = Some g" "evaluate_rule E p g d = Inr r"
      "evaluateTx r evidence (snd (outcomeStats (xp_scope p) (xp_class p) d)) d = Inr (r, d1)"
      "Evaluate S E k d = (fst (Append (clk E 2) (rnd E 1) event d1), Inr r)"
proof -
  define chk where "chk = bindE (configured S) (\<lambda>_. bindE (loadProposal k d) (\<lambda>(p, evidence).
      bindE (Get_grant (xp_grant p) d) (\<lambda>g. Inr (p, evidence, g))))"
  show thesis
  proof (cases chk)
    case (Inl e)
    then show thesis using that(2) by (simp add: Evaluate_def chk_def)
  next
    case (Inr y)
    obtain p evidence g where y: "y = (p, evidence, g)" by (cases y)
    then have load: "loadProposal k d = Inr (p, evidence)" and g: "Get_grant (xp_grant p) d = Inr g"
      using Inr by (auto simp: chk_def elim!: bindE_InrE)
    note found = loadProposal_Inr [OF load] Get_grant_Inr [OF g]
    show thesis
    proof (cases "evaluate_rule E p g d")
      case (Inl c)
      then show thesis using that(1) [OF _ found Inl] \<open>chk = Inr y\<close> y by (simp add: Evaluate_def chk_def)
    next
      case (Inr r)
      let ?out = "snd (outcomeStats (xp_scope p) (xp_class p) d)"
      show thesis
      proof (cases "evaluateTx r evidence ?out d")
        case (Inl e)
        then show thesis
          using that(2) \<open>evaluate_rule E p g d = Inr r\<close> \<open>chk = Inr y\<close> y by (simp add: Evaluate_def chk_def Let_def with_tx_def)
      next
        case (Inr z)
        obtain x d1 where "z = (x, d1)" by (cases z)
        moreover from Inr this have "x = r" using evaluateTx_Inr by blast
        ultimately have tx: "evaluateTx r evidence ?out d = Inr (r, d1)" using Inr by simp
        show thesis
          by (rule that(3) [OF found \<open>evaluate_rule E p g d = Inr r\<close> tx])
            (use \<open>evaluate_rule E p g d = Inr r\<close> \<open>chk = Inr y\<close> y tx in \<open>simp add: Evaluate_def chk_def Let_def with_tx_def\<close>)
      qed
    qed
  qed
qed

lemma rolled_back_last_append:
  assumes "rolled_back_last rules"
    and "\<And>x. x \<in> set rules \<Longrightarrow> xr_proposal x = xr_proposal r \<Longrightarrow> xr_state x \<noteq> ExperienceRolledBack \<and> xr_version x < xr_version r"
  shows "rolled_back_last (rules @ [r])"
  using assms unfolding rolled_back_last_def by auto

lemma Evaluate_ok:
  assumes ok: "experience_ok S d"
  shows "experience_ok S (fst (Evaluate S E k d))"
proof (cases rule: Evaluate_cases [of S E k d])
  case (new p g r evidence d1 event)
  obtain l l' where d1: "d1 = set_experience (\<lambda>x. x\<lparr>xt_rules := xt_rules x @ [r], xt_rule_evidence := l, xt_rule_outcomes := l',
      xt_proposals := update_where (\<lambda>p. xp_id p = xr_proposal r)
         (\<lambda>p. p\<lparr>xp_state := xr_state r, xp_updated := xr_created r\<rparr>) (xt_proposals x)\<rparr>) d" and pos: "0 < xr_version r"
    using evaluateTx_Inr [OF new(4)] by blast
  note r = evaluate_rule_Inr [OF new(3)]
  let ?f = "\<lambda>p. p\<lparr>xp_state := xr_state r, xp_updated := xr_created r\<rparr>"
  have bound: "\<exists>p'. find_by xp_id j (xt_proposals (db_experience d1)) = Some p' \<and> same_binding q p'"
    if "find_by xp_id j (xt_proposals (db_experience d)) = Some q" for j q
    using that unfolding d1 by (simp add: find_by_update_where same_binding_def)
  have le: "grants_le d d1" unfolding grants_le_def d1 by (simp add: approval_le_def)
  have last: "rolled_back_last (xt_rules (db_experience d) @ [r])"
  proof (rule rolled_back_last_append [OF experience_okD(6) [OF ok]])
    fix x assume x: "x \<in> set (xt_rules (db_experience d))" "xr_proposal x = xr_proposal r"
    then obtain c where c: "latestRule (xp_id p) d = Some c" using r latestRule_None [of "xp_id p" d] by auto
    note top = latestRule_Some [OF c]
    have cs: "xr_state c \<noteq> ExperienceRolledBack" "xr_version r = wrap64 (xr_version c + 1)" using r c by simp_all
    have "xr_version x \<le> xr_version c" using top x r by simp
    moreover have "xr_version r = xr_version c + 1"
    proof (cases "xr_version c + 1 < 2 ^ 63")
      case True
      then show ?thesis using cs(2) experience_okD(5) [OF ok, of c] top by (subst cs(2), intro wrap64_id) (simp add: in64_def)
    next
      case False
      then have "xr_version c + 1 = 2 ^ 63" using experience_okD(5) [OF ok, of c] top by (simp add: in64_def)
      then have "xr_version r = - (2 ^ 63)" using cs(2) by (simp add: wrap64_def)
      with pos show ?thesis by simp
    qed
    moreover have "xr_state x \<noteq> ExperienceRolledBack"
    proof
      assume "xr_state x = ExperienceRolledBack"
      then have "c = x \<or> xr_version c < xr_version x"
        using experience_okD(6) [OF ok] x top r unfolding rolled_back_last_def by metis
      then show False using cs(1) \<open>xr_state x = ExperienceRolledBack\<close> \<open>xr_version x \<le> xr_version c\<close> by auto
    qed
    ultimately show "xr_state x \<noteq> ExperienceRolledBack \<and> xr_version x < xr_version r" by simp
  qed
  have "experience_ok S d1"
  proof (rule experience_ok_step [where new = "[r]", OF ok le])
    show "approvals_ok d1" using experience_okD(1) [OF ok] approvals_ok_cong [of d1 d] by (simp add: d1)
    show "proposal_ok d1 p' \<or> (\<exists>p \<in> set (xt_proposals (db_experience d)). same_binding p p')"
      if "p' \<in> set (xt_proposals (db_experience d1))" for p'
    proof -
      have "p' \<in> (\<lambda>q. if xp_id q = xr_proposal r then ?f q else q) ` set (xt_proposals (db_experience d))"
        using that by (simp add: d1 set_update_where)
      then obtain q where q: "q \<in> set (xt_proposals (db_experience d))" "p' = (if xp_id q = xr_proposal r then ?f q else q)"
        by (rule imageE)
      then have "same_binding q p'" by (auto simp: same_binding_def)
      with q(1) show ?thesis by blast
    qed
    show "rule_ok d1 x \<and> in64 (xr_version x)" if "x \<in> set [r]" for x
    proof -
      have member: "p \<in> set (xt_proposals (db_experience d))" and id: "xp_id p = trim_space k" using find_by_SomeD [OF new(1)] by auto
      obtain p' where p': "find_by xp_id (xp_id p) (xt_proposals (db_experience d1)) = Some p'" "same_binding p p'"
        using bound [of "xp_id p" p] new(1) id by auto
      have "proposal_ok d1 p'" using proposal_ok_binding [OF p'(2) proposal_ok_later [OF experience_okD(3) [OF ok member] le]] .
      moreover have "xp_grant p' = xp_grant p" "xp_executor p' = xp_executor p" "xp_scope p' = xp_scope p"
        using p'(2) by (cases p, cases p'; simp add: same_binding_def)+
      moreover have "ag_id g = xp_grant p" using find_by_SomeD [OF new(2)] by simp
      ultimately show ?thesis using that r p'(1) unfolding rule_ok_def by auto
    qed
  qed (use bound last experience_okD(7) [OF ok] in \<open>simp_all add: d1\<close>)
  then show ?thesis using new(5) experience_ok_cong [of "fst (Append (clk E 2) (rnd E 1) event d1)" d1] by (simp add: Append_same)
qed (use ok in auto)

lemma RequestGrant_ok:
  assumes ok: "experience_ok S d"
  shows "experience_ok S (fst (RequestGrant S E input actor d))"
proof -
  have "experience_ok S d'" if "requestGrantTx S E n js digest actor d = Inr (q, d')" for n js digest actor q d'
    using that
  proof (cases rule: requestGrantTx_cases)
    case (2 a d1 r)
    have same: "db_experience d1 = db_experience d" by (rule CreateInTx_experience [OF 2(1)])
    have le: "grants_le d d'"
      using CreateInTx_le [OF 2(1)] approval_le_cong [of d' d1 d] by (simp add: grants_le_def 2(2) same)
    have "approvals_ok d'"
      using CreateInTx_ok [OF experience_okD(1) [OF ok] 2(1)] approvals_ok_cong [of d' d1] by (simp add: 2(2))
    then show ?thesis
      using experience_okD(7) [OF ok] by (intro experience_ok_grants [where ps = "[]", OF ok le]) (simp_all add: 2(2) same)
  qed (use ok in simp)
  then show ?thesis
    unfolding RequestGrant_def Let_def
    by (auto split: sum.split intro!: with_tx_invariant [where I = "experience_ok S"] simp: ok)
qed

lemma activateGrantTx_ok:
  assumes ok: "experience_ok S d" and run: "activateGrantTx S E request d = Inr (g, d')"
  shows "experience_ok S d' \<and> (g \<in> set (xt_grants (db_experience d')))"
  using run
proof (cases rule: activateGrantTx_cases)
  case 1
  then show ?thesis using ok by (auto simp: loadGrantByRequest_def dest: find_by_SomeD)
next
  case (2 r n js a xs d1)
  have same: "db_experience d1 = db_experience d" by (rule ConsumeInTx_experience [OF 2(5)])
  have le: "grants_le d d'"
    using ConsumeInTx_le [OF 2(5)] approval_le_cong [of d' d1 d] by (simp add: grants_le_def 2(6) same)
  have "approvals_ok d'"
    using ConsumeInTx_ok [OF experience_okD(1) [OF ok] 2(5)] approvals_ok_cong [of d' d1] by (simp add: 2(6))
  moreover have "owner_consented S d' g"
  proof -
    note auth = authorized_requestD [OF 2(4)]
    have a: "find_by ap_id (trim_space (gr_approval r)) (db_approvals d) = Some a" using Get_granted_Inr [OF 2(3)] .
    then have aid: "ap_id a = trim_space (gr_approval r)" by (auto dest: find_by_SomeD)
    obtain y where y: "find_by ap_id (trim_space (ap_id a)) (db_approvals d) = Some y"
      "d1 = set_approval (\<lambda>x. ap_id x = trim_space (ap_id a) \<and> ap_state x = ApprovalApproved) (\<lambda>x. x\<lparr>ap_state := ApprovalConsumed\<rparr>) d"
      using 2(5) by (rule ConsumeInTx_Inr)
    have "find_by ap_id (trim_space (gr_approval r)) (db_approvals d') = Some (a\<lparr>ap_state := ApprovalConsumed\<rparr>)"
      using a auth by (simp add: 2(6) y(2) set_approval_def find_by_update_where aid)
    moreover have "find_by gr_id (ag_request g) (xt_requests (db_experience d')) = Some r" using 2(2,8) by (simp add: 2(6) same)
    ultimately show ?thesis unfolding owner_consented_def using auth 2(8,10-12)
      by (intro exI [of _ r] exI [of _ "a\<lparr>ap_state := ApprovalConsumed\<rparr>"] exI [of _ n] exI [of _ js]) simp
  qed
  moreover have "\<forall>x \<in> set (xt_grants (db_experience d')). x \<in> set (xt_grants (db_experience d)) \<or> x = g"
    by (simp add: 2(6) same)
  ultimately have "experience_ok S d'"
    using experience_okD(7) [OF ok] 2(7) by (intro experience_ok_grants [where ps = "[]", OF ok le]) (auto simp: 2(6) same)
  then show ?thesis by (simp add: 2(6))
qed

lemma ActivateGrant_Inr:
  assumes "ActivateGrant S E k d = (d', Inr g)"
  obtains d1 event where "activateGrantTx S E (trim_space k) d = Inr (g, d1)" "d' = fst (Append (clk E 4) (rnd E 1) event d1)"
  using assms
  by (auto simp: ActivateGrant_def Let_def with_tx_def split: sum.splits prod.splits intro: that)

lemma ActivateGrant_Inl: "ActivateGrant S E k d = (d', Inl e) \<Longrightarrow> d' = d"
  by (auto simp: ActivateGrant_def Let_def with_tx_def split: sum.splits prod.splits)

lemma ActivateGrant_ok:
  assumes ok: "experience_ok S d"
  shows "experience_ok S (fst (ActivateGrant S E k d))"
proof (cases "ActivateGrant S E k d")
  case (Pair d' x)
  show ?thesis
  proof (cases x)
    case (Inl e)
    then show ?thesis using Pair ActivateGrant_Inl ok by fastforce
  next
    case (Inr g)
    obtain d1 event where "activateGrantTx S E (trim_space k) d = Inr (g, d1)" and d': "d' = fst (Append (clk E 4) (rnd E 1) event d1)"
      using Pair [unfolded Inr] by (rule ActivateGrant_Inr)
    then have "experience_ok S d1" using activateGrantTx_ok [OF ok] by blast
    then show ?thesis using Pair d' experience_ok_cong [of d' d1] by (simp add: Append_same)
  qed
qed

lemma Propose_ok:
  assumes ok: "experience_ok S d"
  shows "experience_ok S (fst (Propose S E input d))"
proof (cases rule: Propose_cases [of S E input d])
  case (2 g p links)
  have le: "grants_le d (fst (Propose S E input d))" by (simp add: grants_le_def 2(5) approval_le_def)
  show ?thesis
  proof (rule experience_ok_grants [where ps = "[p]", OF ok le])
    show "approvals_ok (fst (Propose S E input d))"
      using experience_okD(1) [OF ok] approvals_ok_cong [of "fst (Propose S E input d)" d] by (simp add: 2(5))
    show "proposal_ok (fst (Propose S E input d)) q" if "q \<in> set [p]" for q
      using that 2(1-3) by (simp add: proposal_ok_def 2(5))
  qed (use experience_okD(7) [OF ok] in \<open>simp_all add: 2(5)\<close>)
qed (use ok in simp)

lemma ObserveVerifiedOutcome_ok:
  assumes ok: "experience_ok S d"
  shows "experience_ok S (fst (ObserveVerifiedOutcome S E input d))"
proof (cases rule: ObserveVerifiedOutcome_cases [of S E input d])
  case (2 v r)
  have le: "grants_le d (fst (ObserveVerifiedOutcome S E input d))" by (simp add: grants_le_def 2(1) approval_le_def)
  show ?thesis
    by (rule experience_ok_grants [where ps = "[]", OF ok le])
      (use experience_okD(1,7) [OF ok] approvals_ok_cong [of "fst (ObserveVerifiedOutcome S E input d)" d] in \<open>simp_all add: 2(1)\<close>)
qed (use ok in simp)

text \<open>
  The other services: they leave the experience tables alone, and change approvals only through the approval service.
\<close>

definition elsewhere :: "db \<Rightarrow> db \<Rightarrow> bool" where
  "elsewhere d d' \<longleftrightarrow> db_experience d' = db_experience d \<and> approval_le d d' \<and> (approvals_ok d \<longrightarrow> approvals_ok d')"

inductive experience_step :: "experience_service \<Rightarrow> db \<Rightarrow> db \<Rightarrow> bool" for S where
  step_request: "experience_step S d (fst (RequestGrant S E input actor d))"
| step_activate: "experience_step S d (fst (ActivateGrant S E k d))"
| step_propose: "experience_step S d (fst (Propose S E proposal d))"
| step_observe: "experience_step S d (fst (ObserveVerifiedOutcome S E outcome d))"
| step_evaluate: "experience_step S d (fst (Evaluate S E k d))"
| step_elsewhere: "elsewhere d d' \<Longrightarrow> experience_step S d d'"

lemma approval_step_elsewhere:
  assumes "approval_step d d'"
  shows "elsewhere d d'"
proof -
  have decide: "db_experience (fst (decide now k approver digest action d)) = db_experience d" for now k approver digest action
    unfolding decide_def Let_def
    by (auto intro!: with_tx_invariant [where I = "\<lambda>d'. db_experience d' = db_experience d"]
        simp: no_result_Inr elim!: decideInTx_Inr record_decision_Inr)
  have "db_experience d' = db_experience d"
    using assms
  proof (cases rule: approval_step.cases)
    case (step_create now created rand request)
    show ?thesis unfolding step_create Create_def
      by (rule with_tx_invariant [where I = "\<lambda>d'. db_experience d' = db_experience d"]) (auto dest: CreateInTx_experience)
  next
    case (step_consume now k digest)
    show ?thesis unfolding step_consume Consume_def
      by (rule with_tx_invariant [where I = "\<lambda>d'. db_experience d' = db_experience d"])
        (auto simp: no_result_Inr dest: ConsumeInTx_experience)
  qed (simp_all add: Approve_def Reject_def decide)
  then show ?thesis using approval_step_le [OF assms] approvals.step_inv [OF assms] by (simp add: elsewhere_def)
qed

lemma experience_step_ok:
  assumes "experience_step S d d'" and ok: "experience_ok S d"
  shows "experience_ok S d'"
  using assms(1)
proof (cases rule: experience_step.cases)
  case step_elsewhere
  then have same: "db_experience d' = db_experience d" and le: "grants_le d d'" and "approvals_ok d'"
    using experience_okD(1) [OF ok] by (auto simp: elsewhere_def grants_le_def)
  then show ?thesis
    using experience_okD(7) [OF ok] by (intro experience_ok_grants [where ps = "[]", OF ok]) simp_all
qed (simp_all add: RequestGrant_ok ActivateGrant_ok Propose_ok ObserveVerifiedOutcome_ok Evaluate_ok ok)

interpretation experience: kept_invariant "experience_step S" "experience_ok S" for S
  by unfold_locales (rule experience_step_ok)

text \<open>Versions of rules and verified outcomes are never taken back or rewritten.\<close>

definition rules_grow :: "db \<Rightarrow> db \<Rightarrow> bool" where
  "rules_grow d d' \<longleftrightarrow> (\<exists>new. xt_rules (db_experience d') = xt_rules (db_experience d) @ new)"

lemma rules_grow_refl [simp]: "db_experience d' = db_experience d \<Longrightarrow> rules_grow d d'"
  by (simp add: rules_grow_def)

lemma experience_step_rules: "experience_step S d d' \<Longrightarrow> rules_grow d d'"
proof (induction rule: experience_step.induct)
  case (step_request d E input actor)
  have "rules_grow d d'"
    if "requestGrantTx S E n js digest actor d = Inr (q, d')" for n js digest actor q d'
    using that by (cases rule: requestGrantTx_cases) (simp_all add: CreateInTx_experience rules_grow_def)
  then show ?case unfolding RequestGrant_def Let_def
    by (auto split: sum.split intro!: with_tx_invariant [where I = "rules_grow d"])
next
  case (step_activate d E k)
  have tx: "rules_grow d d1" if "activateGrantTx S E request d = Inr (g, d1)" for request g d1
    using that by (cases rule: activateGrantTx_cases) (simp_all add: rules_grow_def ConsumeInTx_experience)
  show ?case
  proof (cases "ActivateGrant S E k d")
    case (Pair d' x)
    then show ?thesis
    proof (cases x)
      case (Inl e)
      with Pair ActivateGrant_Inl show ?thesis by fastforce
    next
      case (Inr g)
      then obtain d1 event where "activateGrantTx S E (trim_space k) d = Inr (g, d1)" "d' = fst (Append (clk E 4) (rnd E 1) event d1)"
        using Pair ActivateGrant_Inr by metis
      then show ?thesis using tx Pair by (simp add: rules_grow_def Append_same)
    qed
  qed
next
  case (step_propose d E proposal)
  show ?case by (cases rule: Propose_cases [of S E proposal d]) (simp_all add: rules_grow_def)
next
  case (step_observe d E outcome)
  show ?case by (cases rule: ObserveVerifiedOutcome_cases [of S E outcome d]) (simp_all add: rules_grow_def)
next
  case (step_evaluate d E k)
  show ?case
  proof (cases rule: Evaluate_cases [of S E k d])
    case (new p g r evidence d1 event)
    have "rules_grow d d1" using evaluateTx_Inr [OF new(4)] by (auto simp: rules_grow_def)
    then show ?thesis using new(5) by (simp add: rules_grow_def Append_same)
  qed simp_all
qed (simp add: elsewhere_def)

lemma experience_steps_rules: "(experience_step S)\<^sup>*\<^sup>* d d' \<Longrightarrow> rules_grow d d'"
proof (induction rule: rtranclp_induct)
  case (step e f)
  then show ?case using experience_step_rules unfolding rules_grow_def by (metis append.assoc)
qed simp

end
