(* ===== verification/Learning.thy ===== *)
theory Learning
  imports Experience
begin

text \<open>
  What the experience service promises: its statistics are those of the latest outcomes whatever the order of rows, regression is
  decided in exact numbers within bounds, a grant takes the Owner's consent, an evaluation follows its table of states, and a
  rule that was rolled back never returns.
\<close>

subsection \<open>Statistics\<close>

definition costs_of :: "outcome_row list \<Rightarrow> int list" where
  "costs_of rows = List.map_filter xo_cost rows"

lemma costs_of_simps [simp]:
  "costs_of [] = []" "costs_of (r # rows) = (case xo_cost r of None \<Rightarrow> costs_of rows | Some c \<Rightarrow> c # costs_of rows)"
  by (simp_all add: costs_of_def map_filter_def split: option.split)

definition shifted_stat :: "outcomeStat \<Rightarrow> outcome_row list \<Rightarrow> outcomeStat" where
  "shifted_stat s rows = \<lparr>st_samples = st_samples s + int (length rows),
     st_accepted = st_accepted s + int (length (filter xo_accepted rows)),
     st_cost = wrap64 (st_cost s + sum_list (costs_of rows)), st_costs = st_costs s + int (length (costs_of rows))\<rparr>"

lemma fold_add_outcome: "in64 (st_cost s) \<Longrightarrow> fold add_outcome rows s = shifted_stat s rows"
proof (induction rows arbitrary: s)
  case Nil
  then show ?case by (simp add: shifted_stat_def wrap64_id)
next
  case (Cons r rows)
  have "in64 (st_cost (add_outcome r s))" using Cons.prems by (simp add: add_outcome_def split: option.split)
  then have "fold add_outcome (r # rows) s = shifted_stat (add_outcome r s) rows" by (simp add: Cons.IH)
  also have "\<dots> = shifted_stat s (r # rows)"
    by (cases "xo_cost r") (simp_all add: shifted_stat_def add_outcome_def algebra_simps)
  finally show ?case .
qed

lemma stat_of_eq: "stat_of rows = \<lparr>st_samples = int (length rows), st_accepted = int (length (filter xo_accepted rows)),
    st_cost = wrap64 (sum_list (costs_of rows)), st_costs = int (length (costs_of rows))\<rparr>"
  unfolding stat_of_def by (subst fold_add_outcome) (simp_all add: no_stat_def shifted_stat_def in64_def)

text \<open>The numbers of a disjoint union of rows are the merged numbers; the order of rows is irrelevant.\<close>

lemma sum_list_costs_filter:
  "sum_list (costs_of (filter P rows)) + sum_list (costs_of (filter (\<lambda>r. \<not> P r) rows)) = sum_list (costs_of rows)"
  by (induction rows) (auto split: option.split)

lemma length_costs_filter:
  "length (costs_of (filter P rows)) + length (costs_of (filter (\<lambda>r. \<not> P r) rows)) = length (costs_of rows)"
  by (induction rows) (auto split: option.split)

lemma mergeStat_split: "mergeStat (stat_of (filter P rows)) (stat_of (filter (\<lambda>r. \<not> P r) rows)) = stat_of rows"
proof -
  have "length (filter P rows) + length (filter (\<lambda>r. \<not> P r) rows) = length rows"
    "length (filter xo_accepted (filter P rows)) + length (filter xo_accepted (filter (\<lambda>r. \<not> P r) rows)) = length (filter xo_accepted rows)"
    by (induction rows) auto
  then show ?thesis
    using sum_list_costs_filter [of P rows] length_costs_filter [of P rows]
    by (simp add: stat_of_eq mergeStat_def flip: of_nat_add)
qed

lemma mergeStat_no_stat: "mergeStat no_stat (stat_of rows) = stat_of rows" "mergeStat (stat_of rows) no_stat = stat_of rows"
  by (simp_all add: mergeStat_def no_stat_def stat_of_eq wrap64_id)

definition by_executor :: "outcome_row list \<Rightarrow> (string \<times> outcomeStat) list" where
  "by_executor rows = map (\<lambda>x. (x, stat_of (filter (\<lambda>r. xo_executor r = x) rows))) (remdups (map xo_executor rows))"

lemma stat_lookup_by_executor: "stat_lookup x (by_executor rows) = stat_of (filter (\<lambda>r. xo_executor r = x) rows)"
proof (cases "x \<in> xo_executor ` set rows")
  case True
  then have "map_of (by_executor rows) x = Some (stat_of (filter (\<lambda>r. xo_executor r = x) rows))"
    unfolding by_executor_def by (subst map_of_map_restrict) (simp add: restrict_map_def)
  then show ?thesis by (simp add: stat_lookup_def)
next
  case False
  then have none: "filter (\<lambda>r. xo_executor r = x) rows = []" by (auto simp: filter_empty_conv)
  from False have "map_of (by_executor rows) x = None"
    unfolding by_executor_def by (subst map_of_map_restrict) (simp add: restrict_map_def)
  then show ?thesis by (simp add: stat_lookup_def none stat_of_def)
qed

lemma fold_merge:
  assumes "distinct xs" and "A \<inter> (set xs - {p}) = {}"
  shows "fold (\<lambda>(x, s) acc. if x \<noteq> p then mergeStat acc s else acc)
      (map (\<lambda>x. (x, stat_of (filter (\<lambda>r. xo_executor r = x) rows))) xs) (stat_of (filter (\<lambda>r. xo_executor r \<in> A) rows)) =
    stat_of (filter (\<lambda>r. xo_executor r \<in> A \<union> (set xs - {p})) rows)"
  using assms
proof (induction xs arbitrary: A)
  case (Cons x xs)
  show ?case
  proof (cases "x = p")
    case True
    then have eq: "set (x # xs) - {p} = set xs - {p}" by auto
    have "A \<inter> (set xs - {p}) = {}" "distinct xs" using Cons.prems by auto
    from Cons.IH [OF this(2,1)] True show ?thesis
      unfolding eq by (simp only: list.map fold_simps prod.case simp_thms if_False)
  next
    case False
    have "mergeStat (stat_of (filter (\<lambda>r. xo_executor r \<in> A) rows)) (stat_of (filter (\<lambda>r. xo_executor r = x) rows)) =
        stat_of (filter (\<lambda>r. xo_executor r \<in> insert x A) rows)"
    proof -
      have "x \<notin> A" using Cons.prems False by auto
      then have "filter (\<lambda>r. xo_executor r \<in> A) (filter (\<lambda>r. xo_executor r \<in> insert x A) rows) = filter (\<lambda>r. xo_executor r \<in> A) rows"
        "filter (\<lambda>r. xo_executor r \<notin> A) (filter (\<lambda>r. xo_executor r \<in> insert x A) rows) = filter (\<lambda>r. xo_executor r = x) rows"
        by (auto intro!: filter_cong)
      then show ?thesis using mergeStat_split [of "\<lambda>r. xo_executor r \<in> A" "filter (\<lambda>r. xo_executor r \<in> insert x A) rows"] by simp
    qed
    moreover have "insert x A \<union> (set xs - {p}) = A \<union> (set (x # xs) - {p})" using False by auto
    moreover have "insert x A \<inter> (set xs - {p}) = {}" "distinct xs" using Cons.prems by auto
    ultimately show ?thesis
      using Cons.IH [OF _ \<open>insert x A \<inter> (set xs - {p}) = {}\<close>] False
      by (simp only: list.map fold_simps prod.case simp_thms if_True)
  qed
qed simp

lemma baseline_by_executor: "baseline_of p (by_executor rows) = stat_of (filter (\<lambda>r. xo_executor r \<noteq> p) rows)"
proof -
  have "baseline_of p (by_executor rows) =
      stat_of (filter (\<lambda>r. xo_executor r \<in> {} \<union> (set (remdups (map xo_executor rows)) - {p})) rows)"
    using fold_merge [of "remdups (map xo_executor rows)" "{}" p rows]
    by (simp add: baseline_of_def by_executor_def stat_of_def)
  also have "filter (\<lambda>r. xo_executor r \<in> {} \<union> (set (remdups (map xo_executor rows)) - {p})) rows = filter (\<lambda>r. xo_executor r \<noteq> p) rows"
    by (rule filter_cong) auto
  finally show ?thesis .
qed

lemma outcomeStats_rows: "fst (outcomeStats scope cls d) = by_executor (latest_outcomes scope cls d)"
  by (simp add: outcomeStats_def by_executor_def Let_def)

subsection \<open>Regression in exact numbers\<close>

text \<open>The share of accepted outcomes in basis points, and the average cost, of rows.\<close>

definition acceptance_bps :: "outcome_row list \<Rightarrow> int" where
  "acceptance_bps rows = int (length (filter xo_accepted rows)) * 10000 div int (length rows)"

definition average_cost :: "outcome_row list \<Rightarrow> int" where
  "average_cost rows = sum_list (costs_of rows) div int (length (costs_of rows))"

lemma acceptanceRegressed_exact:
  assumes "int (length p) * 10000 < 2 ^ 63" and "int (length b) * 10000 < 2 ^ 63"
  shows "acceptanceRegressed (stat_of p) (stat_of b) maxBps \<longleftrightarrow>
    p \<noteq> [] \<and> (if b = [] then acceptance_bps p < 10000 else maxBps < acceptance_bps b - acceptance_bps p)"
proof -
  have share: "quot64 (wrap64 (int (length (filter xo_accepted rows)) * 10000)) (int (length rows)) = acceptance_bps rows"
    if "int (length rows) * 10000 < 2 ^ 63" "rows \<noteq> []" for rows
  proof -
    have "length (filter xo_accepted rows) \<le> length rows" by simp
    then have "in64 (int (length (filter xo_accepted rows)) * 10000)" using that(1) unfolding in64_def by linarith
    then show ?thesis using that(2) by (simp add: wrap64_id quot64_nonneg acceptance_bps_def)
  qed
  show ?thesis
    using share [OF assms(1)] share [OF assms(2)] by (auto simp: acceptanceRegressed_def stat_of_eq Let_def)
qed

lemma costRegressed_exact:
  assumes "\<forall>c \<in> set (costs_of p) \<union> set (costs_of b). 0 \<le> c" and "sum_list (costs_of p) * 10000 < 2 ^ 63"
    and "sum_list (costs_of b) < 2 ^ 63" and "0 \<le> maxBps"
  shows "costRegressed (stat_of p) (stat_of b) maxBps \<longleftrightarrow> costs_of p \<noteq> [] \<and> costs_of b \<noteq> [] \<and>
    (if average_cost b = 0 then 0 < average_cost p
     else maxBps < (average_cost p - average_cost b) * 10000 div average_cost b)"
proof (cases "costs_of p = [] \<or> costs_of b = []")
  case False
  let ?sp = "sum_list (costs_of p)" and ?sb = "sum_list (costs_of b)"
  have nonneg: "0 \<le> ?sp" "0 \<le> ?sb" using assms(1) by (auto intro!: sum_list_nonneg)
  have range: "in64 ?sp" "in64 ?sb" using nonneg assms(2,3) by (simp_all add: in64_def)
  have len: "0 < int (length (costs_of p))" "0 < int (length (costs_of b))" using False by auto
  have avg: "quot64 (wrap64 ?sp) (int (length (costs_of p))) = average_cost p"
    "quot64 (wrap64 ?sb) (int (length (costs_of b))) = average_cost b"
    using nonneg range len by (simp_all add: wrap64_id quot64_nonneg average_cost_def)
  have "?sp div int (length (costs_of p)) \<le> ?sp div 1" using nonneg len by (intro zdiv_mono2) (auto simp: Suc_le_eq)
  then have ap: "0 \<le> average_cost p" "0 \<le> average_cost b" "average_cost p \<le> ?sp"
    using nonneg len by (simp_all add: average_cost_def pos_imp_zdiv_nonneg_iff)
  have grow: "quot64 (wrap64 (wrap64 (average_cost p - average_cost b) * 10000)) (average_cost b) =
      (average_cost p - average_cost b) * 10000 div average_cost b"
    if "average_cost b < average_cost p" "0 < average_cost b"
  proof -
    have "0 \<le> average_cost p - average_cost b" "(average_cost p - average_cost b) * 10000 \<le> ?sp * 10000" using that ap by simp_all
    then have "in64 (average_cost p - average_cost b)" "in64 ((average_cost p - average_cost b) * 10000)"
      using assms(2) unfolding in64_def by auto
    then show ?thesis using that by (simp add: wrap64_id quot64_nonneg)
  qed
  have less: "(average_cost p - average_cost b) * 10000 div average_cost b \<le> maxBps"
    if "average_cost p \<le> average_cost b" "0 < average_cost b"
  proof -
    have "(average_cost p - average_cost b) * 10000 div average_cost b \<le> 0"
      using that by (intro div_nonpos_pos_le0) auto
    then show ?thesis using assms(4) by linarith
  qed
  show ?thesis
    using False avg ap grow less by (auto simp: costRegressed_def stat_of_eq Let_def)
qed (auto simp: costRegressed_def stat_of_eq)

subsection \<open>A store to evaluate on\<close>

text \<open>A codec for one scope at a time, a task that has succeeded with an acceptance, and an observation.\<close>

definition demo_grant :: GrantInput where
  "demo_grant = \<lparr>gi_kind = ''EXECUTOR_PREFERENCE'', gi_scope = ''team.review'', gi_executors = ['' codex''], gi_samples = 1,
     gi_acceptance_bps = 0, gi_cost_bps = 0, gi_expires = 1000\<rparr>"

definition demo_experience :: experience_service where
  "demo_experience = New_experience \<lparr>gc_encode = (\<lambda>n. Inr (gi_scope n)), gc_decode = (\<lambda>s. Inr (demo_grant\<lparr>gi_scope := s\<rparr>)),
     gc_sha = (\<lambda>s. ''sha:'' @ s)\<rparr> (\<lambda>s. s) '' owner''"

definition demo_learn_clock :: "gtime \<Rightarrow> env" where
  "demo_learn_clock now = \<lparr>clk = (\<lambda>_. now), rnd = (\<lambda>_. ''1'')\<rparr>"

definition demo_field_observation :: observation_row where
  "demo_field_observation = \<lparr>fo_id = ''observation_1'', fo_collective = ''c'', fo_task = ''task_1'', fo_attempt = [], fo_operation = [],
     fo_detector = None, fo_category = ''TEST'', fo_basis = ''b'', fo_source = ''s'', fo_summary = ''x'', fo_metrics = [],
     fo_runtime = [], fo_executor = [], fo_executor_version = [], fo_enforcement = EnforcementUnenforced, fo_created = 1\<rparr>"

definition demo_task :: task where
  "demo_task = \<lparr>t_id = ''task_1'', t_parent = [], t_purpose = \<lparr>pr_kind = PurposeMission, pr_id = ''m''\<rparr>, t_class = ''team.review'',
     t_objective = ''o'', t_payload = [], t_idem_key = [], t_state = TaskSucceeded, t_attempt = Some ''attempt_1'', t_fence = 1,
     t_criteria = [''c''], t_capabilities = [], t_enforcement = EnforcementUnenforced, t_authority = [], t_envelope = ''e'',
     t_priority = 0, t_earliest = 0, t_deadline = 0, t_created = 1, t_updated = 1, t_request_hash = []\<rparr>"

definition demo_attempt :: attempt where
  "demo_attempt = \<lparr>a_id = ''attempt_1'', a_task = ''task_1'', a_state = AttemptCompleted, a_fence = 1, a_lease = LeaseRevoked,
     a_expires = 9, a_executor = ''codex'', a_started = 1, a_completed = Some 2\<rparr>"

definition demo_world :: db where
  "demo_world = empty_db\<lparr>db_tasks := [demo_task], db_attempts := [demo_attempt], db_feedback := empty_feedback\<lparr>ft_observations := [demo_field_observation]\<rparr>,
     db_acceptances := [\<lparr>ac_id = ''acceptance_1'', ac_task = ''task_1'', ac_attempt = ''attempt_1'', ac_verifier = ''v'', ac_type = ''T'',
       ac_met = True, ac_evidence = [''x''], ac_at = 2\<rparr>]\<rparr>"

definition demo_requested :: db where
  "demo_requested = fst (RequestGrant demo_experience (demo_learn_clock 3) demo_grant ''box'' demo_world)"

definition demo_consented :: db where
  "demo_consented = fst (Approve 4 ''approval_1'' ''owner'' ''sha:team.review'' demo_requested)"

definition demo_granted :: "db \<times> AdaptationGrant res" where
  "demo_granted = ActivateGrant demo_experience (demo_learn_clock 5) ''grant-request_1'' demo_consented"

definition demo_proposed :: db where
  "demo_proposed = fst (Propose demo_experience (demo_learn_clock 6) \<lparr>pi_grant = ''grant_1'', pi_class = GenericTaskUnknown [], pi_scope = [],
     pi_executor = ''codex'', pi_evidence = [''observation_1'']\<rparr> (fst demo_granted))"

definition demo_verified :: db where
  "demo_verified = fst (ObserveVerifiedOutcome demo_experience (demo_learn_clock 7) \<lparr>vo_task = ''task_1'', vo_class = GenericTaskUnknown [],
     vo_scope = [], vo_executor = [], vo_accepted = True, vo_human = False, vo_retries = 0, vo_cost = Some 4, vo_latency = None\<rparr>
     demo_proposed)"

definition demo_learned :: "db \<times> ExperienceRule res" where
  "demo_learned = Evaluate demo_experience (demo_learn_clock 8) ''experience-proposal_1'' demo_verified"

lemma demo_learned_rule:
  "map (\<lambda>r. (xr_id r, xr_state r, xr_executor r)) (xt_rules (db_experience (fst demo_learned))) = [(''experience-rule_1'', ExperienceActive, ''codex'')]"
  by code_simp

lemma demo_world_ok: "experience_ok S demo_world"
  by (simp add: experience_ok_def demo_world_def empty_db_def empty_experience_def approvals_ok_def rolled_back_last_def)

lemma demo_experience_run: "(experience_step demo_experience)\<^sup>*\<^sup>* demo_world (fst demo_learned)"
proof -
  have "approval_step demo_requested demo_consented" unfolding demo_consented_def by (rule step_approve)
  then have consent: "experience_step demo_experience demo_requested demo_consented"
    by (intro step_elsewhere approval_step_elsewhere)
  have "(experience_step demo_experience)\<^sup>*\<^sup>* demo_world demo_requested"
    unfolding demo_requested_def by (blast intro: experience_step.step_request)
  also note consent
  also have "experience_step demo_experience demo_consented (fst demo_granted)" unfolding demo_granted_def by (rule step_activate)
  also have "experience_step demo_experience (fst demo_granted) demo_proposed" unfolding demo_proposed_def by (rule step_propose)
  also have "experience_step demo_experience demo_proposed demo_verified" unfolding demo_verified_def by (rule step_observe)
  also have "experience_step demo_experience demo_verified (fst demo_learned)" unfolding demo_learned_def by (rule step_evaluate)
  finally show ?thesis .
qed

subsection \<open>Properties\<close>

lemma experience_grants:
  assumes ok: "experience_ok S d" and g: "g \<in> set (xt_grants (db_experience d))"
  shows "\<exists>a n js. find_by ap_id (ap_id a) (db_approvals d) = Some a \<and> ap_state a = ApprovalConsumed \<and> ap_required a = [es_owner S] \<and>
    has_approved d a (es_owner S) \<and> ap_subject a = ag_request g \<and> defines_grant n g \<and> gc_encode (es_codec S) n = Inr js \<and>
    ap_digest a = gc_sha (es_codec S) js"
proof -
  obtain r a n js where "find_by gr_id (ag_request g) (xt_requests (db_experience d)) = Some r"
    and a: "find_by ap_id (trim_space (gr_approval r)) (db_approvals d) = Some a" "ap_state a = ApprovalConsumed"
    "ap_subject a = ag_request g" "ap_required a = [es_owner S]"
    and n: "defines_grant n g" "gc_encode (es_codec S) n = Inr js" "ap_digest a = gc_sha (es_codec S) js"
    using experience_okD(2) [OF ok g] unfolding owner_consented_def by blast
  have row: "a \<in> set (db_approvals d)" using find_by_SomeD [OF a(1)] by simp
  have "has_approved d a (es_owner S)"
    using approved_iff [OF experience_okD(1) [OF ok] row] a(2,4) by simp
  then show ?thesis using find_by_own [OF a(1)] a n by blast
qed

text \<open>
  C19. No adaptation without the Owner: in every state the experience service reaches, whatever the other services do meanwhile,
  each grant rests on a consumed approval for exactly its request, which the Owner alone had to give and has given, for the
  digest of the definition whose kind, scope, executors, thresholds and expiry the grant carries.
\<close>

theorem grant_needs_the_owner:
  assumes "(experience_step S)\<^sup>*\<^sup>* d0 d" and "experience_ok S d0" and "g \<in> set (xt_grants (db_experience d))"
  shows "\<exists>a n js. find_by ap_id (ap_id a) (db_approvals d) = Some a \<and> ap_state a = ApprovalConsumed \<and> ap_required a = [es_owner S] \<and>
    has_approved d a (es_owner S) \<and> ap_subject a = ag_request g \<and> defines_grant n g \<and> gc_encode (es_codec S) n = Inr js \<and>
    ap_digest a = gc_sha (es_codec S) js"
  by (rule experience_grants [OF experience.reach_inv [OF assms(1,2)] assms(3)])

lemma grant_needs_the_owner_witness: "\<exists>a. ap_required a = [''owner''] \<and> has_approved (fst demo_learned) a ''owner''"
proof -
  have "map ag_id (xt_grants (db_experience (fst demo_learned))) = [''grant_1'']" and owner: "es_owner demo_experience = ''owner''"
    by code_simp+
  then obtain g where "g \<in> set (xt_grants (db_experience (fst demo_learned)))" by (auto simp: map_eq_Cons_conv)
  from grant_needs_the_owner [OF demo_experience_run demo_world_ok this] owner show ?thesis by auto
qed

lemma rolled_back_kept:
  assumes ok: "experience_ok S d'" and c: "latestRule k d = Some c" "xr_state c = ExperienceRolledBack" and grow: "rules_grow d d'"
  shows "latestRule k d' = Some c"
proof -
  note old = latestRule_Some [OF c(1)]
  have mem: "c \<in> set (xt_rules (db_experience d'))" using old grow by (auto simp: rules_grow_def)
  then obtain r where r: "latestRule k d' = Some r" using old latestRule_None [of k d'] by (cases "latestRule k d'") auto
  note new = latestRule_Some [OF r]
  have "xr_version c \<le> xr_version r" using new mem old by blast
  moreover have "r = c \<or> xr_version r < xr_version c"
    using experience_okD(6) [OF ok] mem new old c(2) unfolding rolled_back_last_def by metis
  ultimately show ?thesis using r by auto
qed

text \<open>
  C18. A rule that was rolled back stays so: once the latest version of the rule of a proposal is ROLLED_BACK, every later
  evaluation of that proposal returns this version and writes nothing, and no version of the rule is ever in force again.
\<close>

theorem rolled_back_for_good:
  assumes "experience_ok S d" and "latestRule k d = Some c" and "xr_state c = ExperienceRolledBack"
    and "(experience_step S)\<^sup>*\<^sup>* d d'" and "trim_space k = k" and "k \<noteq> []" and "es_owner S \<noteq> []"
  shows "Evaluate S E k d' = (d', Inr c) \<and> (\<forall>r \<in> set (xt_rules (db_experience d')). xr_proposal r = k \<longrightarrow> \<not> in_force q now d' r)"
proof -
  have ok: "experience_ok S d'" by (rule experience.reach_inv [OF assms(4,1)])
  have latest: "latestRule k d' = Some c" by (rule rolled_back_kept [OF ok assms(2,3) experience_steps_rules [OF assms(4)]])
  note top = latestRule_Some [OF latest]
  obtain p where p: "find_by xp_id k (xt_proposals (db_experience d')) = Some p" "proposal_ok d' p"
    using experience_okD(4) [OF ok, of c] top unfolding rule_ok_def by blast
  obtain g where g: "find_by ag_id (xp_grant p) (xt_grants (db_experience d')) = Some g"
    using p(2) unfolding proposal_ok_def by blast
  have key: "xp_id p = k" using find_by_SomeD [OF p(1)] by simp
  have "evaluate_rule E p g d' = Inl c" using latest assms(3) by (simp add: evaluate_rule_def key Let_def)
  moreover have "Get_grant (xp_grant p) d' = Inr g" using g by (simp add: Get_grant_def)
  ultimately have "Evaluate S E k d' = (d', Inr c)"
    using assms(5-7) p(1) by (simp add: Evaluate_def configured_def loadProposal_def)
  moreover have "\<not> in_force q now d' r" if r: "r \<in> set (xt_rules (db_experience d'))" "xr_proposal r = k" for r
  proof
    assume force: "in_force q now d' r"
    then have "xr_state r = ExperienceActive" "\<not> xr_version c > xr_version r"
      using top r(2) by (auto simp: in_force_def latest_version_def exists_where_iff)
    moreover have "r = c \<or> xr_version r < xr_version c"
      using experience_okD(6) [OF ok] top r assms(3) unfolding rolled_back_last_def by metis
    ultimately show False using assms(3) by auto
  qed
  ultimately show ?thesis by blast
qed

text \<open>A later outcome of the same task, negative this time, takes the learned rule back.\<close>

definition demo_challenged_world :: "db \<Rightarrow> db" where
  "demo_challenged_world d = d\<lparr>db_tasks := [demo_task\<lparr>t_state := TaskChallenged\<rparr>],
     db_events := [\<lparr>ev_id = ''event_1'', ev_task = ''task_1'', ev_attempt = Some ''attempt_1'', ev_type = ''TASK_CHALLENGED'',
       ev_details = [], ev_at = 9\<rparr>]\<rparr>"

definition demo_disproved :: db where
  "demo_disproved = fst (ObserveVerifiedOutcome demo_experience \<lparr>clk = (\<lambda>_. 2000000000), rnd = (\<lambda>_. ''2'')\<rparr>
     \<lparr>vo_task = ''task_1'', vo_class = GenericTaskReview,
      vo_scope = [], vo_executor = [], vo_accepted = False, vo_human = False, vo_retries = 0, vo_cost = None, vo_latency = None\<rparr>
     (demo_challenged_world (fst demo_learned)))"

definition demo_rolled_back :: "db \<times> ExperienceRule res" where
  "demo_rolled_back = Evaluate demo_experience \<lparr>clk = (\<lambda>_. 11), rnd = (\<lambda>_. ''2'')\<rparr> ''experience-proposal_1'' demo_disproved"

lemma rolled_back_for_good_witness:
  "\<exists>c. Evaluate demo_experience (demo_learn_clock 12) ''experience-proposal_1'' (fst demo_rolled_back) = (fst demo_rolled_back, Inr c) \<and>
     xr_state c = ExperienceRolledBack"
proof -
  have "elsewhere (fst demo_learned) (demo_challenged_world (fst demo_learned))"
    unfolding elsewhere_def by (simp add: demo_challenged_world_def approval_le_def approvals_ok_def)
  then have "experience_step demo_experience (fst demo_learned) (demo_challenged_world (fst demo_learned))" by (rule step_elsewhere)
  note demo_experience_run
  also note \<open>experience_step demo_experience (fst demo_learned) (demo_challenged_world (fst demo_learned))\<close>
  also have "experience_step demo_experience (demo_challenged_world (fst demo_learned)) demo_disproved"
    unfolding demo_disproved_def by (rule step_observe)
  also have "experience_step demo_experience demo_disproved (fst demo_rolled_back)" unfolding demo_rolled_back_def by (rule step_evaluate)
  finally have ok: "experience_ok demo_experience (fst demo_rolled_back)" by (rule experience.reach_inv [OF _ demo_world_ok])
  have "map_option xr_state (latestRule ''experience-proposal_1'' (fst demo_rolled_back)) = Some ExperienceRolledBack" by code_simp
  then obtain c where c: "latestRule ''experience-proposal_1'' (fst demo_rolled_back) = Some c" "xr_state c = ExperienceRolledBack"
    by auto
  have "trim_space ''experience-proposal_1'' = ''experience-proposal_1''" "es_owner demo_experience \<noteq> []" by code_simp+
  then show ?thesis using rolled_back_for_good [OF ok c rtranclp.rtrancl_refl] c(2) by auto
qed

text \<open>
  Costs are compared without wrap-around up to a bound: when no recorded cost is negative, ten thousand times the costs of the
  preferred executor and the costs of the others stay below 2^63, then \<open>costRegressed\<close> says exactly that both sides have costs and
  that the average of the preferred one exceeds the average of the others by more than the allowed basis points (or, where that
  average is zero, that it costs anything at all); and the acceptance shares are exact for fewer than 2^63 / 10000 outcomes.
\<close>

theorem regression_is_exact:
  assumes "\<forall>c \<in> set (costs_of p) \<union> set (costs_of b). 0 \<le> c" and "sum_list (costs_of p) * 10000 < 2 ^ 63"
    and "sum_list (costs_of b) < 2 ^ 63" and "0 \<le> maxBps"
    and "int (length p) * 10000 < 2 ^ 63" and "int (length b) * 10000 < 2 ^ 63"
  shows "(costRegressed (stat_of p) (stat_of b) maxBps \<longleftrightarrow> costs_of p \<noteq> [] \<and> costs_of b \<noteq> [] \<and>
      (if average_cost b = 0 then 0 < average_cost p
       else maxBps < (average_cost p - average_cost b) * 10000 div average_cost b)) \<and>
    (acceptanceRegressed (stat_of p) (stat_of b) share \<longleftrightarrow>
      p \<noteq> [] \<and> (if b = [] then acceptance_bps p < 10000 else share < acceptance_bps b - acceptance_bps p))"
  using costRegressed_exact [OF assms(1-4)] acceptanceRegressed_exact [OF assms(5,6)] by blast

definition demo_outcome :: "int \<Rightarrow> bool \<Rightarrow> outcome_row" where
  "demo_outcome cost accepted = \<lparr>xo_id = [], xo_task = [], xo_class = GenericTaskOther, xo_scope = [], xo_executor = [],
     xo_accepted = accepted, xo_human = False, xo_retries = 0, xo_cost = Some cost, xo_latency = None, xo_recorded = 0\<rparr>"

lemma regression_is_exact_witness:
  "costRegressed (stat_of [demo_outcome 12 True, demo_outcome 10 True]) (stat_of [demo_outcome 10 True]) 999 \<and>
   \<not> costRegressed (stat_of [demo_outcome 12 True, demo_outcome 10 True]) (stat_of [demo_outcome 10 True]) 1000 \<and>
   \<not> acceptanceRegressed (stat_of [demo_outcome 12 True]) (stat_of [demo_outcome 10 False]) 0"
  using regression_is_exact [of "[demo_outcome 12 True, demo_outcome 10 True]" "[demo_outcome 10 True]" 999]
    regression_is_exact [of "[demo_outcome 12 True, demo_outcome 10 True]" "[demo_outcome 10 True]" 1000]
    regression_is_exact [of "[demo_outcome 12 True]" "[demo_outcome 10 False]" 0 0]
  by (simp add: demo_outcome_def average_cost_def acceptance_bps_def)

text \<open>
  Beyond the bound the product wraps: an executor whose average is \<open>2 ^ 60 + 1\<close> where the others cost 1 has not regressed, not
  even when no increase at all is allowed.
\<close>

theorem huge_costs_go_unnoticed:
  "\<not> costRegressed (stat_of [demo_outcome (2 ^ 60 + 1) True]) (stat_of [demo_outcome 1 True]) 0 \<and>
   average_cost [demo_outcome (2 ^ 60 + 1) True] = 2 ^ 60 + 1 \<and> average_cost [demo_outcome 1 True] = 1"
  by code_simp

text \<open>
  What an evaluation decides, over the latest outcome of each task of the proposal's scope and class, split into those of the
  preferred executor and of all others.
\<close>

definition expired_grant :: "env \<Rightarrow> AdaptationGrant \<Rightarrow> bool" where
  "expired_grant E g \<longleftrightarrow> ag_expires g \<le> clk E 0"

definition regressed :: "AdaptationGrant \<Rightarrow> outcome_row list \<Rightarrow> outcome_row list \<Rightarrow> bool" where
  "regressed g mine others \<longleftrightarrow>
     (mine \<noteq> [] \<and> (if others = [] then acceptance_bps mine < 10000
                  else ag_acceptance_bps g < acceptance_bps others - acceptance_bps mine)) \<or>
     (costs_of mine \<noteq> [] \<and> costs_of others \<noteq> [] \<and>
      (if average_cost others = 0 then 0 < average_cost mine
       else ag_cost_bps g < (average_cost mine - average_cost others) * 10000 div average_cost others))"

lemma evaluate_rule_decides:
  assumes "evaluate_rule E p g d = Inl r \<or> evaluate_rule E p g d = Inr r"
    and "map_option xr_state (latestRule (xp_id p) d) \<noteq> Some ExperienceRolledBack"
    and "rows = latest_outcomes (xp_scope p) (xp_class p) d"
  shows "xr_samples r = int (length (filter (\<lambda>x. xo_executor x = xp_executor p) rows)) \<and>
    xr_state r = next_rule_state (map_option xr_state (latestRule (xp_id p) d)) (expired_grant E g)
      (acceptanceRegressed (stat_of (filter (\<lambda>x. xo_executor x = xp_executor p) rows))
         (stat_of (filter (\<lambda>x. xo_executor x \<noteq> xp_executor p) rows)) (ag_acceptance_bps g) \<or>
       costRegressed (stat_of (filter (\<lambda>x. xo_executor x = xp_executor p) rows))
         (stat_of (filter (\<lambda>x. xo_executor x \<noteq> xp_executor p) rows)) (ag_cost_bps g))
      (stat_of (filter (\<lambda>x. xo_executor x = xp_executor p) rows)) (ag_samples g)"
proof -
  have le: "(\<not> clk E 0 < ag_expires g) = expired_grant E g" by (auto simp: expired_grant_def)
  have n: "st_samples (stat_of xs) = int (length xs)" for xs by (simp add: stat_of_eq)
  show ?thesis
    using assms(1,2) unfolding assms(3)
    by (cases "latestRule (xp_id p) d")
      (auto simp: evaluate_rule_def Let_def outcomeStats_rows stat_lookup_by_executor baseline_by_executor le n split: if_splits)
qed

text \<open>
  C17. What an evaluation decides: unless its rule was rolled back before, an evaluation ends in the state ROLLED_BACK exactly when
  the rule was ACTIVE and the grant has expired or the preferred executor has regressed against all others, in ACTIVE exactly when
  neither is the case and the rule was ACTIVE or enough outcomes of the preferred executor, one of them accepted, are there, and in
  SHADOW otherwise; it counts each task once, by its latest outcome (amounts within the bounds of exact arithmetic).
\<close>

theorem Evaluate_decides:
  assumes "Evaluate S E k d = (d', Inr r)" and "find_by xp_id (trim_space k) (xt_proposals (db_experience d)) = Some p"
    and "find_by ag_id (xp_grant p) (xt_grants (db_experience d)) = Some g"
    and "before = map_option xr_state (latestRule (xp_id p) d)" and "before \<noteq> Some ExperienceRolledBack"
    and "mine = filter (\<lambda>x. xo_executor x = xp_executor p) (latest_outcomes (xp_scope p) (xp_class p) d)"
    and "others = filter (\<lambda>x. xo_executor x \<noteq> xp_executor p) (latest_outcomes (xp_scope p) (xp_class p) d)"
    and "\<forall>c \<in> set (costs_of mine) \<union> set (costs_of others). 0 \<le> c" and "sum_list (costs_of mine) * 10000 < 2 ^ 63"
    and "sum_list (costs_of others) < 2 ^ 63" and "0 \<le> ag_cost_bps g"
    and "int (length mine) * 10000 < 2 ^ 63" and "int (length others) * 10000 < 2 ^ 63"
  shows "xr_samples r = int (length mine) \<and>
    (xr_state r = ExperienceRolledBack \<longleftrightarrow> before = Some ExperienceActive \<and> (expired_grant E g \<or> regressed g mine others)) \<and>
    (xr_state r = ExperienceActive \<longleftrightarrow> \<not> expired_grant E g \<and> \<not> regressed g mine others \<and>
      (before = Some ExperienceActive \<or> ag_samples g \<le> int (length mine) \<and> (\<exists>x \<in> set mine. xo_accepted x))) \<and>
    xr_state r \<in> {ExperienceShadow, ExperienceActive, ExperienceRolledBack}"
proof -
  have "evaluate_rule E p g d = Inl r \<or> evaluate_rule E p g d = Inr r"
    by (cases rule: Evaluate_cases [of S E k d]) (use assms(1-3) in auto)
  note dec = evaluate_rule_decides [OF this assms(5) [unfolded assms(4)] refl, folded assms(6,7)]
  have reg: "(acceptanceRegressed (stat_of mine) (stat_of others) (ag_acceptance_bps g) \<or>
      costRegressed (stat_of mine) (stat_of others) (ag_cost_bps g)) = regressed g mine others"
    unfolding regressed_def acceptanceRegressed_exact [OF assms(12,13)] costRegressed_exact [OF assms(8-11)] by blast
  have acc: "0 < st_accepted (stat_of mine) \<longleftrightarrow> (\<exists>x \<in> set mine. xo_accepted x)" by (auto simp: stat_of_eq filter_empty_conv)
  have state: "xr_state r = next_rule_state before (expired_grant E g) (regressed g mine others) (stat_of mine) (ag_samples g)"
    using dec by (simp add: reg assms(4))
  have "xr_samples r = int (length mine)" using dec by blast
  moreover have "xr_state r = ExperienceRolledBack \<longleftrightarrow> before = Some ExperienceActive \<and> (expired_grant E g \<or> regressed g mine others)"
    unfolding state next_rule_state_def by simp
  moreover have "xr_state r = ExperienceActive \<longleftrightarrow> \<not> expired_grant E g \<and> \<not> regressed g mine others \<and>
      (before = Some ExperienceActive \<or> ag_samples g \<le> int (length mine) \<and> (\<exists>x \<in> set mine. xo_accepted x))"
    unfolding state next_rule_state_def acc by (auto simp: stat_of_eq)
  moreover have "xr_state r \<in> {ExperienceShadow, ExperienceActive, ExperienceRolledBack}" unfolding state next_rule_state_def by simp
  ultimately show ?thesis by blast
qed

lemma Evaluate_decides_witness:
  "\<exists>r. Evaluate demo_experience (demo_learn_clock 8) ''experience-proposal_1'' demo_verified = (fst demo_learned, Inr r) \<and>
     xr_state r = ExperienceActive \<and> xr_samples r = 1"
proof -
  have "isl (snd demo_learned) = False" by code_simp
  then obtain r where "snd demo_learned = Inr r" by (cases "snd demo_learned") auto
  then have run: "Evaluate demo_experience (demo_learn_clock 8) ''experience-proposal_1'' demo_verified = (fst demo_learned, Inr r)"
    by (simp add: demo_learned_def prod_eq_iff)
  have "map (\<lambda>p. (xp_id p, xp_grant p, xp_scope p, xp_class p, xp_executor p)) (xt_proposals (db_experience demo_verified)) =
      [(''experience-proposal_1'', ''grant_1'', ''team.review'', GenericTaskReview, ''codex'')]"
    "map (\<lambda>g. (ag_id g, ag_samples g, ag_cost_bps g, ag_expires g)) (xt_grants (db_experience demo_verified)) = [(''grant_1'', 1, 0, 1000)]"
    "map (\<lambda>r. (xo_executor r, xo_accepted r, xo_cost r)) (latest_outcomes ''team.review'' GenericTaskReview demo_verified) =
      [(''codex'', True, Some 4)]" by code_simp+
  then obtain p g x where
    p: "xt_proposals (db_experience demo_verified) = [p]" "xp_id p = ''experience-proposal_1''" "xp_grant p = ''grant_1''"
      "xp_scope p = ''team.review''" "xp_class p = GenericTaskReview" "xp_executor p = ''codex''"
    and g: "xt_grants (db_experience demo_verified) = [g]" "ag_id g = ''grant_1''" "ag_samples g = 1" "ag_cost_bps g = 0" "ag_expires g = 1000"
    and x: "latest_outcomes ''team.review'' GenericTaskReview demo_verified = [x]" "xo_executor x = ''codex''" "xo_accepted x" "xo_cost x = Some 4"
    by (auto simp: map_eq_Cons_conv)
  have key: "trim_space ''experience-proposal_1'' = ''experience-proposal_1''" and first: "latestRule ''experience-proposal_1'' demo_verified = None"
    by code_simp+
  have found: "find_by xp_id (trim_space ''experience-proposal_1'') (xt_proposals (db_experience demo_verified)) = Some p"
    "find_by ag_id (xp_grant p) (xt_grants (db_experience demo_verified)) = Some g" unfolding key p(1) g(1) by (simp_all add: find_by_Cons p(2,3) g(2))
  have mine: "filter (\<lambda>y. xo_executor y = xp_executor p) (latest_outcomes (xp_scope p) (xp_class p) demo_verified) = [x]"
    "filter (\<lambda>y. xo_executor y \<noteq> xp_executor p) (latest_outcomes (xp_scope p) (xp_class p) demo_verified) = []"
    by (simp_all add: p(4-6) x(1,2))
  have facts: "\<not> regressed g [x] []" "\<not> expired_grant (demo_learn_clock 8) g"
    using g x by (simp_all add: regressed_def acceptance_bps_def expired_grant_def demo_learn_clock_def)
  have "xr_samples r = int (length [x])" "xr_state r = ExperienceActive"
    using Evaluate_decides [OF run found refl _ mine [symmetric]]
      first p(2) g x facts by simp_all
  with run show ?thesis by simp
qed

end
