(* ===== verification/Memory.thy ===== *)
theory Memory
  imports Audit_Log Times
begin

text \<open>
  The collective memory (\<open>internal/memory\<close>): claims that cite stored evidence, the contradictions between them, their
  supersession and what was believed at a time. The Unicode tables of \<open>strings.ToLower\<close> and the full text index of SQLite are
  arguments. A column \<open>valid_to\<close> that is NULL is 0 here, the zero time the code reads it as.
\<close>

subsection \<open>Data (domain/memory.go, memory/service.go)\<close>

record EvidenceRef =
  er_id :: ID
  er_hash :: string
  er_media :: string
  er_size :: int
  er_created :: gtime

record EvidenceInput =
  ei_ref :: EvidenceRef
  ei_kind :: string

record ClaimInput =
  cn_id :: ID
  cn_subject :: ID
  cn_predicate :: string
  cn_statement :: string
  cn_status :: claim_status
  cn_confidence :: float64
  cn_from :: gtime
  cn_to :: gtime
  cn_evidence :: "ID list"
  cn_source :: ID

record KnowledgeDelta =
  nd_id :: ID
  nd_source :: ID
  nd_evidence :: "EvidenceInput list"
  nd_claims :: "ClaimInput list"

record Claim =
  cm_id :: ID
  cm_statement :: string
  cm_status :: claim_status
  cm_confidence :: float64
  cm_from :: gtime
  cm_to :: gtime
  cm_created :: gtime

subsection \<open>Validation\<close>

definition validClaimStatus :: "claim_status \<Rightarrow> bool" where
  "validClaimStatus s = (case s of ClaimOther _ \<Rightarrow> False | _ \<Rightarrow> True)"

definition validateEvidence :: "gtime \<Rightarrow> EvidenceInput \<Rightarrow> EvidenceInput res" where
  "validateEvidence now q =
     (let ref = ei_ref q;
          ref = ref\<lparr>er_id := trim_space (er_id ref), er_hash := trim_space (er_hash ref), er_media := trim_space (er_media ref)\<rparr>;
          kind = trim_space (ei_kind q) in
      if er_id ref = [] \<or> er_hash ref = [] \<or> er_media ref = [] \<or> kind = []
      then Inl (Err ''evidence id, content hash, media type, and kind are required'')
      else if er_size ref < 0 then Inl (Err ''evidence size must not be negative'')
      else Inr \<lparr>ei_ref = ref\<lparr>er_created := if er_created ref = 0 then now else er_created ref\<rparr>, ei_kind = kind\<rparr>)"

definition validateClaimInput :: "ClaimInput \<Rightarrow> ClaimInput res" where
  "validateClaimInput q =
     (let q = q\<lparr>cn_id := trim_space (cn_id q), cn_subject := trim_space (cn_subject q), cn_predicate := trim_space (cn_predicate q),
                cn_statement := trim_space (cn_statement q), cn_source := trim_space (cn_source q)\<rparr>;
          evidence = map trim_space (cn_evidence q) in
      if cn_subject q = [] \<or> cn_predicate q = [] \<or> cn_statement q = [] then Inl (Err ''claim subject, predicate, and statement are required'')
      else if \<not> validClaimStatus (cn_status q) then Inl (Err ''invalid claim status'')
      else if below_zero (cn_confidence q) \<or> above_one (cn_confidence q) then Inl (Err ''claim confidence must be between 0 and 1'')
      else if cn_from q = 0 then Inl (Err ''claim valid_from is required'')
      else if cn_to q \<noteq> 0 \<and> cn_to q < cn_from q then Inl (Err ''claim valid_to cannot precede valid_from'')
      else if evidence = [] then Inl (Err ''claim must cite at least one evidence object'')
      else if [] \<in> set evidence then Inl (Err ''claim evidence id must not be empty'')
      else Inr (q\<lparr>cn_evidence := first_occurrences evidence\<rparr>))"

definition normalizeStatement :: "(string \<Rightarrow> string) \<Rightarrow> string \<Rightarrow> string" where
  "normalizeStatement U s = to_lower U (Join (Fields s) '' '')"

subsection \<open>Rows\<close>

definition set_memory :: "memory_tables \<Rightarrow> db \<Rightarrow> db" where
  "set_memory m d = d\<lparr>db_memory := m\<rparr>"

definition claim_of_row :: "claim_row \<Rightarrow> Claim" where
  "claim_of_row r = \<lparr>cm_id = cl_id r, cm_statement = cl_statement r, cm_status = cl_status r, cm_confidence = cl_confidence r,
     cm_from = cl_from r, cm_to = cl_to r, cm_created = cl_created r\<rparr>"

definition load_claim_row :: "ID \<Rightarrow> db \<Rightarrow> claim_row res" where
  "load_claim_row k d =
     (case find_by cl_id k (mt_claims (db_memory d)) of None \<Rightarrow> Inl (Err ''claim not found'') | Some r \<Rightarrow> Inr r)"

definition loadClaim :: "ID \<Rightarrow> db \<Rightarrow> Claim res" where
  "loadClaim k d = bindE (load_claim_row k d) (\<lambda>r. Inr (claim_of_row r))"

text \<open>The CHECK on the period compares the texts of its two times.\<close>

definition period_check :: "gtime \<Rightarrow> gtime \<Rightarrow> unit res" where
  "period_check valid_from valid_to =
     requireE (valid_to = 0 \<or> formatTime valid_from \<le> formatTime valid_to) (ErrConstraint ''CHECK'')"

definition insert_claim :: "claim_row \<Rightarrow> db \<Rightarrow> db res" where
  "insert_claim r d =
     bindE (requireE (validClaimStatus (cl_status r)) (ErrConstraint ''CHECK'')) (\<lambda>_.
     bindE (confidence_column (cl_confidence r)) (\<lambda>_.
     bindE (period_check (cl_from r) (cl_to r)) (\<lambda>_.
     bindE (insert_unique cl_id r (mt_claims (db_memory d))) (\<lambda>rows.
     Inr (set_memory ((db_memory d)\<lparr>mt_claims := rows\<rparr>) d)))))"

definition link_key :: "claim_evidence_row \<Rightarrow> ID \<times> ID" where
  "link_key l = (ce_claim l, ce_evidence l)"

definition insert_link :: "claim_evidence_row \<Rightarrow> db \<Rightarrow> db res" where
  "insert_link l d =
     bindE (insert_unique link_key l (mt_evidence (db_memory d))) (\<lambda>rows.
     Inr (set_memory ((db_memory d)\<lparr>mt_evidence := rows\<rparr>) d))"

text \<open>\<open>INSERT OR IGNORE\<close> leaves the table alone where the insert would violate a constraint.\<close>

definition link_or_ignore :: "claim_evidence_row \<Rightarrow> db \<Rightarrow> db" where
  "link_or_ignore l d = (case insert_link l d of Inl _ \<Rightarrow> d | Inr d' \<Rightarrow> d')"

definition relation_key :: "relation_row \<Rightarrow> ID \<times> ID \<times> string" where
  "relation_key r = (rl_left r, rl_right r, rl_kind r)"

definition insertRelationTx :: "string \<Rightarrow> ID \<Rightarrow> ID \<Rightarrow> string \<Rightarrow> gtime \<Rightarrow> db \<Rightarrow> db" where
  "insertRelationTx rand left right kind created d =
     (let r = \<lparr>rl_id = NewID ''claimrel'' rand, rl_left = left, rl_right = right, rl_kind = kind, rl_created = created\<rparr>;
          rows = mt_relations (db_memory d) in
      if left = right \<or> exists_where (\<lambda>x. rl_id x = rl_id r \<or> relation_key x = relation_key r) rows then d
      else set_memory ((db_memory d)\<lparr>mt_relations := rows @ [r]\<rparr>) d)"

definition appendMemoryEventTx :: "string \<Rightarrow> string \<Rightarrow> ID \<Rightarrow> (string \<times> payload_value) list \<Rightarrow> gtime \<Rightarrow> db \<Rightarrow> db res" where
  "appendMemoryEventTx rand kind subject payload created d =
     bindE (insert_unique me_id \<lparr>me_id = NewID ''memoryevent'' rand, me_kind = kind, me_subject = subject, me_payload = payload,
              me_created = created\<rparr> (mt_events (db_memory d))) (\<lambda>rows.
     Inr (set_memory ((db_memory d)\<lparr>mt_events := rows\<rparr>) d))"

subsection \<open>Evidence\<close>

definition evidence_of_input :: "EvidenceInput \<Rightarrow> evidence_row" where
  "evidence_of_input q = \<lparr>evi_id = er_id (ei_ref q), evi_hash = er_hash (ei_ref q), evi_media = er_media (ei_ref q), evi_kind = ei_kind q,
     evi_size = er_size (ei_ref q), evi_created = er_created (ei_ref q)\<rparr>"

definition putEvidenceTx :: "EvidenceInput \<Rightarrow> db \<Rightarrow> db res" where
  "putEvidenceTx q d =
     (let r = evidence_of_input q;
          d' = (if evi_size r < 0 \<or> exists_where (\<lambda>x. evi_id x = evi_id r) (db_evidence d) then d
                else d\<lparr>db_evidence := db_evidence d @ [r]\<rparr>) in
      case find_by evi_id (evi_id r) (db_evidence d') of
        None \<Rightarrow> Inl ErrNoRows
      | Some x \<Rightarrow>
          if evi_hash x \<noteq> evi_hash r \<or> evi_media x \<noteq> evi_media r \<or> evi_kind x \<noteq> evi_kind r \<or> evi_size x \<noteq> evi_size r \<or>
             evi_created x \<noteq> evi_created r
          then Inl (Err ''evidence id already exists with different immutable metadata'') else Inr d')"

definition PutEvidence :: "gtime \<Rightarrow> EvidenceInput \<Rightarrow> db \<Rightarrow> db \<times> unit res" where
  "PutEvidence now q d =
     (case validateEvidence now q of Inl e \<Rightarrow> (d, Inl e) | Inr q \<Rightarrow> with_tx (no_result (putEvidenceTx q)) d)"

subsection \<open>Claims\<close>

text \<open>The other claims on the subject and predicate of a claim whose period meets its own, in the order of the table.\<close>

definition disputed :: "claim_row \<Rightarrow> claim_row \<Rightarrow> bool" where
  "disputed c r \<longleftrightarrow> cl_id r \<noteq> cl_id c \<and> cl_subject r = cl_subject c \<and> cl_predicate r = cl_predicate c \<and>
     cl_normalized r \<noteq> cl_normalized c \<and> (cl_to r = 0 \<or> formatTime (cl_from c) \<le> formatTime (cl_to r)) \<and>
     (cl_to c = 0 \<or> formatTime (cl_from r) \<le> formatTime (cl_to c))"

text \<open>The identifier of the \<open>i\<close>-th relation is drawn after that of the claim.\<close>

fun record_disputes :: "(nat \<Rightarrow> string) \<Rightarrow> nat \<Rightarrow> ID \<Rightarrow> gtime \<Rightarrow> ID list \<Rightarrow> db \<Rightarrow> db" where
  "record_disputes rand i new now [] d = d"
| "record_disputes rand i new now (k # ks) d =
     record_disputes rand (Suc i) new now ks (insertRelationTx (rand i) (min k new) (max k new) ''CONTRADICTS'' now d)"

definition recordContradictionsTx :: "(nat \<Rightarrow> string) \<Rightarrow> claim_row \<Rightarrow> gtime \<Rightarrow> db \<Rightarrow> db" where
  "recordContradictionsTx rand c now d =
     record_disputes rand 1 (cl_id c) now (map cl_id (filter (disputed c) (mt_claims (db_memory d)))) d"

fun link_all :: "ID \<Rightarrow> gtime \<Rightarrow> ID list \<Rightarrow> db \<Rightarrow> db res" where
  "link_all k now [] d = Inr d"
| "link_all k now (e # es) d =
     bindE (insert_link \<lparr>ce_claim = k, ce_evidence = e, ce_linked = now\<rparr> d) (\<lambda>d. link_all k now es d)"

fun link_more :: "(nat \<Rightarrow> gtime) \<Rightarrow> nat \<Rightarrow> ID \<Rightarrow> ID list \<Rightarrow> db \<Rightarrow> db" where
  "link_more clock i k [] d = d"
| "link_more clock i k (e # es) d =
     link_more clock (Suc i) k es (link_or_ignore \<lparr>ce_claim = k, ce_evidence = e, ce_linked = clock i\<rparr> d)"

definition same_claim :: "string \<Rightarrow> ClaimInput \<Rightarrow> claim_row \<Rightarrow> bool" where
  "same_claim normalized q r \<longleftrightarrow> cl_subject r = cn_subject q \<and> cl_predicate r = cn_predicate q \<and> cl_normalized r = normalized \<and>
     cl_from r = cn_from q \<and> cl_to r = cn_to q"

definition new_claim :: "(string \<Rightarrow> string) \<Rightarrow> env \<Rightarrow> ClaimInput \<Rightarrow> claim_row" where
  "new_claim U E q =
     \<lparr>cl_id = if cn_id q = [] then NewID ''claim'' (rnd E 0) else cn_id q, cl_subject = cn_subject q, cl_predicate = cn_predicate q,
      cl_statement = cn_statement q, cl_normalized = normalizeStatement U (cn_statement q), cl_status = cn_status q,
      cl_confidence = cn_confidence q, cl_from = cn_from q, cl_to = cn_to q, cl_source = cn_source q, cl_created = clk E 0\<rparr>"

definition status_text :: "claim_status \<Rightarrow> string" where
  "status_text s = (case s of ClaimSpeculation \<Rightarrow> ''SPECULATION'' | ClaimHypothesis \<Rightarrow> ''HYPOTHESIS'' | ClaimSupported \<Rightarrow> ''SUPPORTED''
     | ClaimVerified \<Rightarrow> ''VERIFIED'' | ClaimOther t \<Rightarrow> t)"

definition store_claim :: "env \<Rightarrow> claim_row \<Rightarrow> ID list \<Rightarrow> db \<Rightarrow> db res" where
  "store_claim E c evidence d =
     bindE (insert_claim c d) (\<lambda>d.
     bindE (link_all (cl_id c) (clk E 0) evidence d) (\<lambda>d.
     let d' = recordContradictionsTx (rnd E) c (clk E 0) d in
     appendMemoryEventTx (rnd E (1 + length (filter (disputed c) (mt_claims (db_memory d))))) ''CLAIM_RECORDED'' (cl_id c)
       [(''subject_id'', Text (cl_subject c)), (''predicate'', Text (cl_predicate c)), (''status'', Text (status_text (cl_status c)))]
       (clk E 0) d'))"

definition addClaimTx :: "(string \<Rightarrow> string) \<Rightarrow> env \<Rightarrow> ClaimInput \<Rightarrow> db \<Rightarrow> (Claim \<times> db) res" where
  "addClaimTx U E q d =
     bindE (requireE (\<forall>e \<in> set (cn_evidence q). exists_where (\<lambda>x. evi_id x = e) (db_evidence d)) (Err ''claim evidence does not exist'')) (\<lambda>_.
     let normalized = normalizeStatement U (cn_statement q) in
     case sort_key (\<lambda>r. (formatTime (cl_created r), cl_id r)) (filter (same_claim normalized q) (mt_claims (db_memory d))) of
       r # _ \<Rightarrow>
         (let d' = link_more (clk E) 0 (cl_id r) (cn_evidence q) d in
          bindE (loadClaim (cl_id r) d') (\<lambda>c. Inr (c, d')))
     | [] \<Rightarrow>
         (let c = new_claim U E q in
          bindE (store_claim E c (cn_evidence q) d) (\<lambda>d.
          bindE (loadClaim (cl_id c) d) (\<lambda>x. Inr (x, d)))))"

definition AddClaim :: "(string \<Rightarrow> string) \<Rightarrow> env \<Rightarrow> ClaimInput \<Rightarrow> db \<Rightarrow> db \<times> Claim res" where
  "AddClaim U E q d =
     (case validateClaimInput q of Inl e \<Rightarrow> (d, Inl e) | Inr q \<Rightarrow> with_tx (addClaimTx U E q) d)"

subsection \<open>Deltas\<close>

fun map_res :: "('a \<Rightarrow> 'b res) \<Rightarrow> 'a list \<Rightarrow> 'b list res" where
  "map_res f [] = Inr []"
| "map_res f (x # xs) = bindE (f x) (\<lambda>y. bindE (map_res f xs) (\<lambda>ys. Inr (y # ys)))"

text \<open>The \<open>i\<close>-th evidence reads the clock as \<open>clk E i\<close>, the transaction after them all; each claim has an environment of its own.\<close>

fun put_all :: "EvidenceInput list \<Rightarrow> db \<Rightarrow> db res" where
  "put_all [] d = Inr d"
| "put_all (q # qs) d = bindE (putEvidenceTx q d) (\<lambda>d. put_all qs d)"

definition delta_claim_key :: "delta_claim_row \<Rightarrow> ID \<times> ID" where
  "delta_claim_key r = (kc_delta r, kc_claim r)"

definition insert_delta_claim :: "delta_claim_row \<Rightarrow> db \<Rightarrow> db res" where
  "insert_delta_claim r d =
     bindE (requireE (kc_confidence r \<noteq> NaN) (ErrConstraint ''NOT NULL'')) (\<lambda>_.
     bindE (insert_unique delta_claim_key r (mt_delta_claims (db_memory d))) (\<lambda>rows.
     Inr (set_memory ((db_memory d)\<lparr>mt_delta_claims := rows\<rparr>) d)))"

fun add_all :: "(string \<Rightarrow> string) \<Rightarrow> (nat \<Rightarrow> env) \<Rightarrow> nat \<Rightarrow> ID \<Rightarrow> ClaimInput list \<Rightarrow> db \<Rightarrow> (Claim list \<times> db) res" where
  "add_all U Es i delta [] d = Inr ([], d)"
| "add_all U Es i delta (q # qs) d =
     bindE (addClaimTx U (Es i) q d) (\<lambda>(c, d).
     bindE (insert_delta_claim \<lparr>kc_delta = delta, kc_claim = cm_id c, kc_status = cn_status q, kc_confidence = cn_confidence q\<rparr> d) (\<lambda>d.
     bindE (add_all U Es (Suc i) delta qs d) (\<lambda>(cs, d). Inr (c # cs, d))))"

definition ingestTx ::
  "(string \<Rightarrow> string) \<Rightarrow> (nat \<Rightarrow> env) \<Rightarrow> gtime \<Rightarrow> string \<Rightarrow> ID \<Rightarrow> ID \<Rightarrow> EvidenceInput list \<Rightarrow> ClaimInput list \<Rightarrow> db \<Rightarrow> (Claim list \<times> db) res" where
  "ingestTx U Es now rand delta source evidence claims d =
     bindE (insert_unique kd_id \<lparr>kd_id = delta, kd_source = source, kd_ingested = now\<rparr> (mt_deltas (db_memory d))) (\<lambda>rows.
     bindE (put_all evidence (set_memory ((db_memory d)\<lparr>mt_deltas := rows\<rparr>) d)) (\<lambda>d.
     bindE (add_all U Es 0 delta claims d) (\<lambda>(cs, d).
     bindE (appendMemoryEventTx rand ''KNOWLEDGE_DELTA_INGESTED'' delta
              [(''source_id'', Text source), (''claims'', Number (int (length cs)))] now d) (\<lambda>d. Inr (cs, d)))))"

definition Ingest :: "(string \<Rightarrow> string) \<Rightarrow> env \<Rightarrow> (nat \<Rightarrow> env) \<Rightarrow> KnowledgeDelta \<Rightarrow> db \<Rightarrow> db \<times> Claim list res" where
  "Ingest U E Es delta d =
     (let k = trim_space (nd_id delta); source = trim_space (nd_source delta) in
      if k = [] then (d, Inl (Err ''knowledge delta id is required''))
      else if source = [] then (d, Inl (Err ''knowledge delta source id is required''))
      else if nd_claims delta = [] then (d, Inl (Err ''knowledge delta must contain at least one claim''))
      else case map_res (\<lambda>(i, q). validateEvidence (clk E i) q) (enumerate 0 (nd_evidence delta)) of
        Inl e \<Rightarrow> (d, Inl e)
      | Inr evidence \<Rightarrow>
          (case map_res (\<lambda>q. validateClaimInput (q\<lparr>cn_source := source\<rparr>)) (nd_claims delta) of
             Inl e \<Rightarrow> (d, Inl e)
           | Inr claims \<Rightarrow> with_tx (ingestTx U Es (clk E (length evidence)) (rnd E 0) k source evidence claims) d))"

subsection \<open>Supersession\<close>

definition supersedeTx :: "env \<Rightarrow> ID \<Rightarrow> ID \<Rightarrow> gtime \<Rightarrow> db \<Rightarrow> db res" where
  "supersedeTx E old new t d =
     bindE (load_claim_row old d) (\<lambda>r.
     bindE (load_claim_row new d) (\<lambda>_.
     bindE (requireE (\<not> t < cl_from r) (Err ''supersession cannot precede old claim validity'')) (\<lambda>_.
     bindE (requireE (\<not> (cl_to r \<noteq> 0 \<and> cl_to r < t)) (Err ''old claim already ended before supersession'')) (\<lambda>_.
     bindE (period_check (cl_from r) t) (\<lambda>_.
     let d = set_memory ((db_memory d)\<lparr>mt_claims := update_where (\<lambda>x. cl_id x = old) (\<lambda>x. x\<lparr>cl_to := t\<rparr>) (mt_claims (db_memory d))\<rparr>) d;
         d = insertRelationTx (rnd E 0) old new ''SUPERSEDES'' t d in
     appendMemoryEventTx (rnd E 1) ''CLAIM_SUPERSEDED'' old [(''replacement_claim_id'', Text new)] t d)))))"

definition Supersede :: "env \<Rightarrow> ID \<Rightarrow> ID \<Rightarrow> gtime \<Rightarrow> db \<Rightarrow> db \<times> unit res" where
  "Supersede E old new t d =
     (let old = trim_space old; new = trim_space new in
      if old = [] \<or> new = [] \<or> old = new then (d, Inl (Err ''distinct old and new claim ids are required''))
      else if t = 0 then (d, Inl (Err ''supersession time is required''))
      else with_tx (no_result (supersedeTx E old new t)) d)"

subsection \<open>Reads\<close>

definition Get_claim :: "ID \<Rightarrow> db \<Rightarrow> Claim res" where
  "Get_claim k d = loadClaim k d"

definition Contradictions :: "ID \<Rightarrow> db \<Rightarrow> ID list" where
  "Contradictions k d =
     map (\<lambda>r. if rl_left r = k then rl_right r else rl_left r)
       (sort_key (\<lambda>r. (formatTime (rl_created r), rl_id r))
         (filter (\<lambda>r. rl_kind r = ''CONTRADICTS'' \<and> (rl_left r = k \<or> rl_right r = k)) (mt_relations (db_memory d))))"

definition believed :: "string \<Rightarrow> db \<Rightarrow> claim_row \<Rightarrow> bool" where
  "believed ts d r \<longleftrightarrow> formatTime (cl_created r) \<le> ts \<and> formatTime (cl_from r) \<le> ts \<and> (cl_to r = 0 \<or> ts < formatTime (cl_to r)) \<and>
     exists_where (\<lambda>l. ce_claim l = cl_id r) (mt_evidence (db_memory d)) \<and>
     \<not> exists_where (\<lambda>l. ce_claim l = cl_id r \<and> exists_where (\<lambda>e. evi_id e = ce_evidence l \<and> ts < formatTime (evi_created e)) (db_evidence d))
         (mt_evidence (db_memory d))"

definition BeliefsAt :: "gtime \<Rightarrow> db \<Rightarrow> Claim list res" where
  "BeliefsAt t d =
     (if t = 0 then Inl (Err ''belief query time is required'')
      else Inr (map claim_of_row (sort_key (\<lambda>r. (formatTime (cl_created r), cl_id r))
             (filter (believed (formatTime t) d) (mt_claims (db_memory d))))))"

text \<open>The full text index is an argument: for a query and the claims it returns a rank for each that matches, or an error.\<close>

definition Search :: "(string \<Rightarrow> claim_row list \<Rightarrow> (rat \<times> claim_row) list res) \<Rightarrow> string \<Rightarrow> int \<Rightarrow> db \<Rightarrow> Claim list res" where
  "Search fts query limit d =
     (let query = trim_space query in
      if query = [] then Inl (Err ''search query is required'')
      else if limit \<le> 0 \<or> limit > 100 then Inl (Err ''search limit must be between 1 and 100'')
      else bindE (fts query (mt_claims (db_memory d))) (\<lambda>matches.
        Inr (map (claim_of_row \<circ> snd)
               (take (nat limit) (sort_key (\<lambda>(rank, r). (rank, formatTime (cl_created r), cl_id r)) matches)))))"

subsection \<open>What every call leaves: rows stay, periods only shrink\<close>

definition claim_le :: "claim_row \<Rightarrow> claim_row \<Rightarrow> bool" where
  "claim_le r r' \<longleftrightarrow> r' = r\<lparr>cl_to := cl_to r'\<rparr> \<and> (cl_to r' = cl_to r \<or> cl_to r' \<noteq> 0 \<and> cl_from r \<le> cl_to r' \<and>
     (cl_to r = 0 \<or> cl_to r' \<le> cl_to r))"

definition memory_le :: "db \<Rightarrow> db \<Rightarrow> bool" where
  "memory_le d d' \<longleftrightarrow> (\<exists>xs. db_evidence d' = db_evidence d @ xs) \<and>
     (\<forall>r \<in> set (mt_claims (db_memory d)). \<exists>r' \<in> set (mt_claims (db_memory d')). claim_le r r') \<and>
     set (mt_relations (db_memory d)) \<subseteq> set (mt_relations (db_memory d')) \<and>
     set (mt_evidence (db_memory d)) \<subseteq> set (mt_evidence (db_memory d')) \<and>
     set (mt_deltas (db_memory d)) \<subseteq> set (mt_deltas (db_memory d'))"

lemma claim_le_refl [simp]: "claim_le r r"
  by (simp add: claim_le_def)

lemma claim_leD:
  assumes "claim_le r r'"
  shows "cl_id r' = cl_id r" "cl_subject r' = cl_subject r" "cl_predicate r' = cl_predicate r" "cl_normalized r' = cl_normalized r"
    "cl_from r' = cl_from r" "cl_status r' = cl_status r" "cl_confidence r' = cl_confidence r"
  using assms by (cases r; cases r'; auto simp: claim_le_def)+

lemma claim_le_trans: "claim_le r s \<Longrightarrow> claim_le s t \<Longrightarrow> claim_le r t"
  by (cases r; cases s; cases t) (auto simp: claim_le_def)

lemma memory_le_refl [simp]: "memory_le d d"
  by (auto simp: memory_le_def intro: claim_le_refl)

lemma memory_le_trans: "memory_le d e \<Longrightarrow> memory_le e f \<Longrightarrow> memory_le d f"
proof -
  assume a: "memory_le d e" "memory_le e f"
  have "\<exists>r' \<in> set (mt_claims (db_memory f)). claim_le r r'" if "r \<in> set (mt_claims (db_memory d))" for r
    using a that unfolding memory_le_def by (metis claim_le_trans)
  moreover have "\<exists>xs. db_evidence f = db_evidence d @ xs" using a unfolding memory_le_def by auto
  ultimately show ?thesis using a by (simp add: memory_le_def) blast
qed

lemma memory_le_same: "db_memory d' = db_memory d \<Longrightarrow> db_evidence d' = db_evidence d @ xs \<Longrightarrow> memory_le d d'"
  by (auto simp: memory_le_def intro: claim_le_refl)

lemma set_memory_simps [simp]: "db_memory (set_memory m d) = m" "db_evidence (set_memory m d) = db_evidence d"
  by (simp_all add: set_memory_def)

subsection \<open>The invariant\<close>

definition genuine :: "db \<Rightarrow> ID \<Rightarrow> ID \<Rightarrow> bool" where
  "genuine d x y \<longleftrightarrow> (\<exists>a \<in> set (mt_claims (db_memory d)). \<exists>b \<in> set (mt_claims (db_memory d)). cl_id a = x \<and> cl_id b = y \<and>
     cl_subject a = cl_subject b \<and> cl_predicate a = cl_predicate b \<and> cl_normalized a \<noteq> cl_normalized b)"

definition claim_fields_ok :: "claim_row \<Rightarrow> bool" where
  "claim_fields_ok r \<longleftrightarrow> validClaimStatus (cl_status r) \<and> (\<exists>c. cl_confidence r = Finite c \<and> 0 \<le> c \<and> c \<le> 1) \<and>
     (cl_to r \<noteq> 0 \<longrightarrow> cl_from r \<le> cl_to r)"

definition rows_ok :: "db \<Rightarrow> bool" where
  "rows_ok d \<longleftrightarrow> distinct (map cl_id (mt_claims (db_memory d))) \<and> (\<forall>r \<in> set (mt_claims (db_memory d)). claim_fields_ok r) \<and>
     (\<forall>l \<in> set (mt_evidence (db_memory d)). ce_claim l \<in> cl_id ` set (mt_claims (db_memory d)) \<and> ce_evidence l \<in> evi_id ` set (db_evidence d)) \<and>
     (\<forall>r \<in> set (mt_relations (db_memory d)). rl_left r \<noteq> rl_right r \<and> (rl_kind r = ''CONTRADICTS'' \<longrightarrow> genuine d (rl_left r) (rl_right r)))"

definition cited :: "db \<Rightarrow> claim_row \<Rightarrow> bool" where
  "cited d r \<longleftrightarrow> (\<exists>l \<in> set (mt_evidence (db_memory d)). ce_claim l = cl_id r)"

definition memory_ok :: "db \<Rightarrow> bool" where
  "memory_ok d \<longleftrightarrow> rows_ok d \<and> (\<forall>r \<in> set (mt_claims (db_memory d)). cited d r)"

lemma cited_le: "memory_le d d' \<Longrightarrow> cited d r \<Longrightarrow> cited d' r"
  unfolding cited_def memory_le_def by blast

lemma claim_ids_le: "memory_le d d' \<Longrightarrow> k \<in> cl_id ` set (mt_claims (db_memory d)) \<Longrightarrow> k \<in> cl_id ` set (mt_claims (db_memory d'))"
  unfolding memory_le_def by (metis (no_types, lifting) claim_leD(1) image_iff)

lemma genuine_sym: "genuine d x y \<Longrightarrow> genuine d y x"
  unfolding genuine_def by metis

lemma genuine_le: "memory_le d d' \<Longrightarrow> genuine d x y \<Longrightarrow> genuine d' x y"
proof -
  assume le: "memory_le d d'" and "genuine d x y"
  then obtain a b where r: "a \<in> set (mt_claims (db_memory d))" "b \<in> set (mt_claims (db_memory d))" "cl_id a = x" "cl_id b = y"
    "cl_subject a = cl_subject b" "cl_predicate a = cl_predicate b" "cl_normalized a \<noteq> cl_normalized b" unfolding genuine_def by blast
  obtain a' b' where r': "a' \<in> set (mt_claims (db_memory d'))" "b' \<in> set (mt_claims (db_memory d'))" "claim_le a a'" "claim_le b b'"
    using le r(1,2) unfolding memory_le_def by blast
  show ?thesis unfolding genuine_def
    by (intro bexI [OF _ r'(1)] bexI [OF _ r'(2)]) (use r claim_leD [OF r'(3)] claim_leD [OF r'(4)] in simp)
qed

lemma genuine_same: "mt_claims (db_memory d') = mt_claims (db_memory d) \<Longrightarrow> genuine d' x y = genuine d x y"
  by (simp add: genuine_def)

text \<open>A step that leaves the claims alone and adds well-formed links and relations.\<close>

lemma rows_ok_more:
  assumes "rows_ok d" and "mt_claims (db_memory d') = mt_claims (db_memory d)" and "evi_id ` set (db_evidence d) \<subseteq> evi_id ` set (db_evidence d')"
    and "\<And>l. l \<in> set (mt_evidence (db_memory d')) \<Longrightarrow> l \<in> set (mt_evidence (db_memory d)) \<or>
      ce_claim l \<in> cl_id ` set (mt_claims (db_memory d)) \<and> ce_evidence l \<in> evi_id ` set (db_evidence d')"
    and "\<And>r. r \<in> set (mt_relations (db_memory d')) \<Longrightarrow> r \<in> set (mt_relations (db_memory d)) \<or>
      rl_left r \<noteq> rl_right r \<and> (rl_kind r = ''CONTRADICTS'' \<longrightarrow> genuine d (rl_left r) (rl_right r))"
  shows "rows_ok d'"
proof -
  have links: "ce_claim l \<in> cl_id ` set (mt_claims (db_memory d')) \<and> ce_evidence l \<in> evi_id ` set (db_evidence d')"
    if "l \<in> set (mt_evidence (db_memory d'))" for l
    using assms(4) [OF that] assms(1-3) unfolding rows_ok_def by (metis subsetD)
  have rels: "rl_left r \<noteq> rl_right r \<and> (rl_kind r = ''CONTRADICTS'' \<longrightarrow> genuine d' (rl_left r) (rl_right r))"
    if "r \<in> set (mt_relations (db_memory d'))" for r
    using assms(5) [OF that] assms(1) unfolding rows_ok_def genuine_same [OF assms(2)] by blast
  have "distinct (map cl_id (mt_claims (db_memory d'))) \<and> (\<forall>r \<in> set (mt_claims (db_memory d')). claim_fields_ok r)"
    using assms(1,2) by (simp add: rows_ok_def)
  then show ?thesis unfolding rows_ok_def [of d'] using links rels by (intro conjI ballI) simp_all
qed

subsection \<open>The statements\<close>

lemma insert_link_Inr: "insert_link l d = Inr d' \<longleftrightarrow> link_key l \<notin> link_key ` set (mt_evidence (db_memory d)) \<and>
    d' = set_memory ((db_memory d)\<lparr>mt_evidence := mt_evidence (db_memory d) @ [l]\<rparr>) d"
  by (auto simp: insert_link_def bind_simps insert_unique_Inr_iff)

lemma link_le: "insert_link l d = Inr d' \<Longrightarrow> memory_le d d'"
  by (auto simp: insert_link_Inr memory_le_def intro: claim_le_refl)

lemma link_rows:
  assumes "insert_link l d = Inr d'" and "rows_ok d" and "ce_claim l \<in> cl_id ` set (mt_claims (db_memory d))"
    and "ce_evidence l \<in> evi_id ` set (db_evidence d)"
  shows "rows_ok d'"
  by (rule rows_ok_more [OF assms(2)]) (use assms in \<open>auto simp: insert_link_Inr\<close>)

lemma link_or_ignore_cases: "link_or_ignore l d = d \<or> insert_link l d = Inr (link_or_ignore l d)"
  by (auto simp: link_or_ignore_def split: sum.split)

lemma insertRelationTx_cases: "insertRelationTx rand left right kind created d = d \<or> left \<noteq> right \<and>
    insertRelationTx rand left right kind created d = set_memory ((db_memory d)\<lparr>mt_relations := mt_relations (db_memory d) @
      [\<lparr>rl_id = NewID ''claimrel'' rand, rl_left = left, rl_right = right, rl_kind = kind, rl_created = created\<rparr>]\<rparr>) d"
  by (simp add: insertRelationTx_def Let_def)

lemma relation_le: "memory_le d (insertRelationTx rand left right kind created d)"
  using insertRelationTx_cases [of rand left right kind created d] by (auto simp: memory_le_def intro: claim_le_refl)

lemma relation_claims [simp]: "mt_claims (db_memory (insertRelationTx rand left right kind created d)) = mt_claims (db_memory d)"
  using insertRelationTx_cases [of rand left right kind created d] by auto

lemma relation_rows:
  assumes "rows_ok d" and "kind = ''CONTRADICTS'' \<longrightarrow> genuine d left right"
  shows "rows_ok (insertRelationTx rand left right kind created d)"
proof -
  consider "insertRelationTx rand left right kind created d = d" | "left \<noteq> right" "insertRelationTx rand left right kind created d =
      set_memory ((db_memory d)\<lparr>mt_relations := mt_relations (db_memory d) @
      [\<lparr>rl_id = NewID ''claimrel'' rand, rl_left = left, rl_right = right, rl_kind = kind, rl_created = created\<rparr>]\<rparr>) d"
    using insertRelationTx_cases [of rand left right kind created d] by blast
  then show ?thesis
  proof cases
    case 2
    show ?thesis unfolding 2(2) by (rule rows_ok_more [OF assms(1)]) (use 2(1) assms(2) in auto)
  qed (simp add: assms(1))
qed

lemma event_Inr: "appendMemoryEventTx rand kind subject payload created d = Inr d' \<Longrightarrow>
    \<exists>rows. d' = set_memory ((db_memory d)\<lparr>mt_events := rows\<rparr>) d"
  by (auto simp: appendMemoryEventTx_def bind_simps)

lemma delta_claim_Inr: "insert_delta_claim r d = Inr d' \<Longrightarrow> \<exists>rows. d' = set_memory ((db_memory d)\<lparr>mt_delta_claims := rows\<rparr>) d"
  by (auto simp: insert_delta_claim_def bind_simps)

text \<open>These two tables are written and never read back.\<close>

definition same_view :: "db \<Rightarrow> db \<Rightarrow> bool" where
  "same_view d d' \<longleftrightarrow> db_evidence d' = db_evidence d \<and> mt_claims (db_memory d') = mt_claims (db_memory d) \<and>
     mt_evidence (db_memory d') = mt_evidence (db_memory d) \<and> mt_relations (db_memory d') = mt_relations (db_memory d) \<and>
     mt_deltas (db_memory d') = mt_deltas (db_memory d)"

lemma event_view: "appendMemoryEventTx rand kind subject payload created d = Inr d' \<Longrightarrow> same_view d d'"
  by (auto simp: same_view_def dest: event_Inr)

lemma delta_claim_view: "insert_delta_claim r d = Inr d' \<Longrightarrow> same_view d d'"
  by (auto simp: same_view_def dest: delta_claim_Inr)

lemma same_view_le: "same_view d d' \<Longrightarrow> memory_le d d'"
  by (auto simp: same_view_def memory_le_def intro: claim_le_refl)

lemma same_view_ok: "same_view d d' \<Longrightarrow> rows_ok d' = rows_ok d \<and> memory_ok d' = memory_ok d \<and> cited d' = cited d"
  by (simp add: same_view_def memory_ok_def rows_ok_def genuine_def cited_def fun_eq_iff)

subsection \<open>Every call keeps the invariant\<close>

lemma putEvidenceTx_Inr:
  assumes "putEvidenceTx q d = Inr d'"
  shows "(d' = d \<or> d' = d\<lparr>db_evidence := db_evidence d @ [evidence_of_input q]\<rparr>) \<and> er_id (ei_ref q) \<in> evi_id ` set (db_evidence d')"
  using assms by (auto simp: putEvidenceTx_def Let_def evidence_of_input_def dest: find_by_key_mem split: if_splits option.splits)

lemma more_evidence:
  assumes "db_memory d' = db_memory d" and "db_evidence d' = db_evidence d @ xs"
  shows "memory_le d d' \<and> (rows_ok d \<longrightarrow> rows_ok d') \<and> (memory_ok d \<longrightarrow> memory_ok d')"
proof -
  have rows: "rows_ok d'" if "rows_ok d" by (rule rows_ok_more [OF that]) (use assms in auto)
  moreover have "cited d' = cited d" using assms(1) by (simp add: cited_def fun_eq_iff)
  ultimately show ?thesis using memory_le_same [OF assms] assms(1) by (simp add: memory_ok_def)
qed

lemma putEvidenceTx_keeps:
  assumes "putEvidenceTx q d = Inr d'"
  shows "memory_le d d' \<and> (memory_ok d \<longrightarrow> memory_ok d')"
  using putEvidenceTx_Inr [OF assms] more_evidence [of d' d "[]"] more_evidence [of d' d "[evidence_of_input q]"] by auto

lemma insert_claim_Inr: "insert_claim c d = Inr d' \<longleftrightarrow> validClaimStatus (cl_status c) \<and> confidence_column (cl_confidence c) = Inr () \<and>
    (cl_to c = 0 \<or> formatTime (cl_from c) \<le> formatTime (cl_to c)) \<and> cl_id c \<notin> cl_id ` set (mt_claims (db_memory d)) \<and>
    d' = set_memory ((db_memory d)\<lparr>mt_claims := mt_claims (db_memory d) @ [c]\<rparr>) d"
  by (auto simp: insert_claim_def period_check_def bind_simps insert_unique_Inr_iff)

lemma confidence_column_Inr: "confidence_column x = Inr () \<longleftrightarrow> (\<exists>c. x = Finite c \<and> 0 \<le> c \<and> c \<le> 1)"
  by (cases x) (auto simp: requireE_def)

lemma insert_claim_rows:
  assumes "insert_claim c d = Inr d'" and "rows_ok d" and "cl_to c \<noteq> 0 \<longrightarrow> cl_from c \<le> cl_to c"
  shows "rows_ok d' \<and> memory_le d d'"
proof -
  have d': "mt_claims (db_memory d') = mt_claims (db_memory d) @ [c]" "db_evidence d' = db_evidence d"
    "mt_evidence (db_memory d') = mt_evidence (db_memory d)" "mt_relations (db_memory d') = mt_relations (db_memory d)"
    "mt_deltas (db_memory d') = mt_deltas (db_memory d)"
    using assms(1) by (auto simp: insert_claim_Inr)
  have le: "memory_le d d'" using d' by (auto simp: memory_le_def intro: claim_le_refl)
  have "claim_fields_ok c" using assms(1,3) by (simp add: insert_claim_Inr claim_fields_ok_def confidence_column_Inr)
  moreover have "rl_left r \<noteq> rl_right r \<and> (rl_kind r = ''CONTRADICTS'' \<longrightarrow> genuine d' (rl_left r) (rl_right r))"
    if "r \<in> set (mt_relations (db_memory d'))" for r
    using that assms(2) genuine_le [OF le] unfolding d'(4) rows_ok_def by blast
  moreover have "cl_id c \<notin> cl_id ` set (mt_claims (db_memory d))" using assms(1) by (simp add: insert_claim_Inr)
  ultimately have "rows_ok d'" using assms(2) by (auto simp: rows_ok_def d' simp del: distinct_map)
  with le show ?thesis by simp
qed

lemma link_all_keeps:
  assumes "link_all k now es d = Inr d'" and "rows_ok d" and "k \<in> cl_id ` set (mt_claims (db_memory d))"
    and "set es \<subseteq> evi_id ` set (db_evidence d)"
  shows "rows_ok d' \<and> memory_le d d' \<and> mt_claims (db_memory d') = mt_claims (db_memory d) \<and> db_evidence d' = db_evidence d \<and>
    mt_relations (db_memory d') = mt_relations (db_memory d) \<and>
    (\<forall>e \<in> set es. \<exists>l \<in> set (mt_evidence (db_memory d')). ce_claim l = k \<and> ce_evidence l = e)"
  using assms
proof (induction es arbitrary: d)
  case (Cons e es)
  let ?l = "\<lparr>ce_claim = k, ce_evidence = e, ce_linked = now\<rparr>"
  obtain d1 where d1: "insert_link ?l d = Inr d1" and rest: "link_all k now es d1 = Inr d'"
    using Cons.prems(1) by (auto elim: bindE_InrE)
  have same: "mt_claims (db_memory d1) = mt_claims (db_memory d)" "db_evidence d1 = db_evidence d"
    "mt_relations (db_memory d1) = mt_relations (db_memory d)" "?l \<in> set (mt_evidence (db_memory d1))"
    using d1 by (auto simp: insert_link_Inr)
  have "rows_ok d1" using link_rows [OF d1] Cons.prems(2-4) by simp
  then have IH: "rows_ok d' \<and> memory_le d1 d' \<and> mt_claims (db_memory d') = mt_claims (db_memory d1) \<and> db_evidence d' = db_evidence d1 \<and>
    mt_relations (db_memory d') = mt_relations (db_memory d1) \<and>
    (\<forall>e \<in> set es. \<exists>l \<in> set (mt_evidence (db_memory d')). ce_claim l = k \<and> ce_evidence l = e)"
    using Cons.IH [OF rest] Cons.prems(3,4) same by simp
  then have "?l \<in> set (mt_evidence (db_memory d'))" using same(4) unfolding memory_le_def by blast
  then have "\<exists>l \<in> set (mt_evidence (db_memory d')). ce_claim l = k \<and> ce_evidence l = e" by force
  with IH same memory_le_trans [OF link_le [OF d1]] show ?case by simp
qed simp

lemma link_more_keeps:
  assumes "rows_ok d" and "k \<in> cl_id ` set (mt_claims (db_memory d))" and "set es \<subseteq> evi_id ` set (db_evidence d)"
  shows "rows_ok (link_more clock i k es d) \<and> memory_le d (link_more clock i k es d) \<and>
    mt_claims (db_memory (link_more clock i k es d)) = mt_claims (db_memory d)"
  using assms
proof (induction es arbitrary: d i)
  case (Cons e es)
  let ?l = "\<lparr>ce_claim = k, ce_evidence = e, ce_linked = clock i\<rparr>"
  let ?d = "link_or_ignore ?l d"
  have "rows_ok ?d \<and> memory_le d ?d \<and> mt_claims (db_memory ?d) = mt_claims (db_memory d) \<and> db_evidence ?d = db_evidence d"
    using link_or_ignore_cases [of ?l d]
  proof
    assume step: "insert_link ?l d = Inr ?d"
    then have "mt_claims (db_memory ?d) = mt_claims (db_memory d)" "db_evidence ?d = db_evidence d" by (auto simp: insert_link_Inr)
    then show ?thesis using link_rows [OF step Cons.prems(1)] link_le [OF step] Cons.prems(2,3) by simp
  qed (simp add: Cons.prems(1))
  then show ?case using Cons.IH [of ?d "Suc i"] Cons.prems(2,3) memory_le_trans [of d ?d] by simp
qed simp

lemma record_disputes_keeps:
  assumes "rows_ok d" and "\<forall>k \<in> set ks. genuine d k new"
  shows "rows_ok (record_disputes rand i new now ks d) \<and> memory_le d (record_disputes rand i new now ks d) \<and>
    mt_claims (db_memory (record_disputes rand i new now ks d)) = mt_claims (db_memory d)"
  using assms
proof (induction ks arbitrary: d i)
  case (Cons k ks)
  let ?d = "insertRelationTx (rand i) (min k new) (max k new) ''CONTRADICTS'' now d"
  have "genuine d (min k new) (max k new)" using Cons.prems(2) genuine_sym by (auto simp: min_def max_def)
  then have "rows_ok ?d" by (intro relation_rows Cons.prems(1) impI)
  moreover have "genuine ?d x y = genuine d x y" for x y by (rule genuine_same) simp
  ultimately show ?case using Cons.IH [of ?d "Suc i"] Cons.prems(2) memory_le_trans [OF relation_le] by auto
qed simp

lemma store_claim_keeps:
  assumes "store_claim E c evidence d = Inr d'" and "memory_ok d" and "evidence \<noteq> []" and "set evidence \<subseteq> evi_id ` set (db_evidence d)"
    and "cl_to c \<noteq> 0 \<longrightarrow> cl_from c \<le> cl_to c"
  shows "memory_ok d' \<and> memory_le d d' \<and> mt_claims (db_memory d') = mt_claims (db_memory d) @ [c] \<and> cl_id c \<notin> cl_id ` set (mt_claims (db_memory d))"
proof -
  obtain d1 where d1: "insert_claim c d = Inr d1" and s1: "bindE (link_all (cl_id c) (clk E 0) evidence d1) (\<lambda>d.
     let d' = recordContradictionsTx (rnd E) c (clk E 0) d in
     appendMemoryEventTx (rnd E (1 + length (filter (disputed c) (mt_claims (db_memory d))))) ''CLAIM_RECORDED'' (cl_id c)
       [(''subject_id'', Text (cl_subject c)), (''predicate'', Text (cl_predicate c)), (''status'', Text (status_text (cl_status c)))]
       (clk E 0) d') = Inr d'"
    using assms(1) unfolding store_claim_def by (rule bindE_InrE)
  obtain d2 where d2: "link_all (cl_id c) (clk E 0) evidence d1 = Inr d2" and s2: "same_view (recordContradictionsTx (rnd E) c (clk E 0) d2) d'"
    using s1 by (auto elim!: bindE_InrE simp: Let_def dest: event_view)
  have rows: "rows_ok d" and cited: "\<forall>r \<in> set (mt_claims (db_memory d)). cited d r" using assms(2) by (simp_all add: memory_ok_def)
  have one: "rows_ok d1" "memory_le d d1" using insert_claim_rows [OF d1 rows assms(5)] by simp_all
  have same1: "mt_claims (db_memory d1) = mt_claims (db_memory d) @ [c]" "db_evidence d1 = db_evidence d"
    "cl_id c \<notin> cl_id ` set (mt_claims (db_memory d))" using d1 by (auto simp: insert_claim_Inr)
  have two: "rows_ok d2" "memory_le d1 d2" "mt_claims (db_memory d2) = mt_claims (db_memory d1)"
    "\<forall>e \<in> set evidence. \<exists>l \<in> set (mt_evidence (db_memory d2)). ce_claim l = cl_id c \<and> ce_evidence l = e"
    using link_all_keeps [OF d2 one(1)] same1(1,2) assms(4) by simp_all
  define d3 where "d3 = recordContradictionsTx (rnd E) c (clk E 0) d2"
  have "genuine d2 (cl_id r) (cl_id c)" if "disputed c r" "r \<in> set (mt_claims (db_memory d2))" for r
    unfolding genuine_def by (rule bexI [OF _ that(2)], rule bexI [of _ c]) (use that(1) two(3) same1(1) in \<open>auto simp: disputed_def\<close>)
  then have three: "rows_ok d3" "memory_le d2 d3" "mt_claims (db_memory d3) = mt_claims (db_memory d2)"
    using record_disputes_keeps [OF two(1)] unfolding d3_def recordContradictionsTx_def by auto
  have le: "memory_le d d3" using one(2) two(2) three(2) by (blast intro: memory_le_trans)
  have "cited d3 r" if "r \<in> set (mt_claims (db_memory d3))" for r
  proof (cases "r = c")
    case True
    have "cited d2 c" using two(4) assms(3) unfolding cited_def by (metis hd_in_set)
    then show ?thesis using cited_le [OF three(2)] True by simp
  next
    case False
    then have "cited d r" using that cited three(3) two(3) same1(1) by auto
    then show ?thesis by (rule cited_le [OF le])
  qed
  then have "memory_ok d3" using three(1) by (simp add: memory_ok_def)
  moreover have "same_view d3 d'" using s2 by (simp add: d3_def)
  ultimately show ?thesis
    using same_view_ok [of d3 d'] same_view_le [of d3 d'] memory_le_trans [OF le] same1 two(3) three(3) by (simp add: same_view_def)
qed

text \<open>What a validated claim is like.\<close>

definition input_ok :: "ClaimInput \<Rightarrow> bool" where
  "input_ok q \<longleftrightarrow> cn_evidence q \<noteq> [] \<and> (cn_to q \<noteq> 0 \<longrightarrow> cn_from q \<le> cn_to q)"

lemma validateClaimInput_ok: "validateClaimInput q = Inr q' \<Longrightarrow> input_ok q'"
  by (auto simp: validateClaimInput_def Let_def input_ok_def split: if_splits)

lemma addClaimTx_Inr:
  assumes "addClaimTx U E q d = Inr (c, d')"
  obtains (known) r where "r \<in> set (mt_claims (db_memory d))" "same_claim (normalizeStatement U (cn_statement q)) q r"
      "set (cn_evidence q) \<subseteq> evi_id ` set (db_evidence d)"
      "d' = link_more (clk E) 0 (cl_id r) (cn_evidence q) d" "loadClaim (cl_id r) d' = Inr c"
    | (recorded) "set (cn_evidence q) \<subseteq> evi_id ` set (db_evidence d)"
      "filter (same_claim (normalizeStatement U (cn_statement q)) q) (mt_claims (db_memory d)) = []"
      "store_claim E (new_claim U E q) (cn_evidence q) d = Inr d'" "loadClaim (cl_id (new_claim U E q)) d' = Inr c"
proof -
  let ?found = "filter (same_claim (normalizeStatement U (cn_statement q)) q) (mt_claims (db_memory d))"
  let ?sorted = "sort_key (\<lambda>r. (formatTime (cl_created r), cl_id r)) ?found"
  have ev: "set (cn_evidence q) \<subseteq> evi_id ` set (db_evidence d)"
    using assms by (auto simp: addClaimTx_def exists_where_iff requireE_def split: if_splits)
  show thesis
  proof (cases ?sorted)
    case Nil
    then have empty: "?found = []" by (metis set_sort set_empty)
    have "store_claim E (new_claim U E q) (cn_evidence q) d = Inr d'" "loadClaim (cl_id (new_claim U E q)) d' = Inr c"
      using assms Nil by (auto simp: addClaimTx_def Let_def elim!: bindE_InrE)
    then show thesis by (rule recorded [OF ev empty])
  next
    case (Cons r rs)
    then have "r \<in> set ?found" by (metis list.set_intros(1) set_sort)
    moreover have "d' = link_more (clk E) 0 (cl_id r) (cn_evidence q) d \<and> loadClaim (cl_id r) d' = Inr c"
      using assms Cons by (auto simp: addClaimTx_def Let_def elim!: bindE_InrE)
    ultimately show thesis using ev by (intro known [of r]) auto
  qed
qed

lemma addClaimTx_keeps:
  assumes "addClaimTx U E q d = Inr (c, d')" and "memory_ok d" and "input_ok q"
  shows "memory_ok d' \<and> memory_le d d'"
  using assms(1)
proof (cases rule: addClaimTx_Inr)
  case (known r)
  have "rows_ok d' \<and> memory_le d d' \<and> mt_claims (db_memory d') = mt_claims (db_memory d)"
    unfolding known(4) by (rule link_more_keeps) (use assms(2) known in \<open>auto simp: memory_ok_def\<close>)
  then show ?thesis using assms(2) by (auto simp: memory_ok_def intro: cited_le)
next
  case recorded
  show ?thesis using store_claim_keeps [OF recorded(3) assms(2) _ recorded(1)] assms(3) by (simp add: input_ok_def new_claim_def)
qed

lemma put_all_keeps: "put_all qs d = Inr d' \<Longrightarrow> memory_le d d' \<and> (memory_ok d \<longrightarrow> memory_ok d')"
proof (induction qs arbitrary: d)
  case (Cons q qs)
  obtain d1 where "putEvidenceTx q d = Inr d1" "put_all qs d1 = Inr d'" using Cons.prems by (auto elim: bindE_InrE)
  then show ?case using putEvidenceTx_keeps [of q d d1] Cons.IH [of d1] memory_le_trans by blast
qed simp

lemma add_all_keeps:
  assumes "add_all U Es i delta qs d = Inr (cs, d')" and "memory_ok d" and "\<forall>q \<in> set qs. input_ok q"
  shows "memory_ok d' \<and> memory_le d d'"
  using assms
proof (induction qs arbitrary: d i cs)
  case (Cons q qs)
  obtain c d1 d2 cs' where 1: "addClaimTx U (Es i) q d = Inr (c, d1)"
    "insert_delta_claim \<lparr>kc_delta = delta, kc_claim = cm_id c, kc_status = cn_status q, kc_confidence = cn_confidence q\<rparr> d1 = Inr d2"
    "add_all U Es (Suc i) delta qs d2 = Inr (cs', d')"
    using Cons.prems(1) by (auto elim!: bindE_InrE)
  have d1: "memory_ok d1" "memory_le d d1" using addClaimTx_keeps [OF 1(1) Cons.prems(2)] Cons.prems(3) by simp_all
  have "memory_ok d2" "memory_le d1 d2" using same_view_ok same_view_le delta_claim_view [OF 1(2)] d1(1) by blast+
  then show ?case using Cons.IH [OF 1(3)] Cons.prems(3) d1(2) by (auto intro: memory_le_trans)
qed simp

lemma loadClaim_Inr: "loadClaim k d = Inr c \<longleftrightarrow> (\<exists>r. find_by cl_id k (mt_claims (db_memory d)) = Some r \<and> c = claim_of_row r)"
  by (auto simp: loadClaim_def load_claim_row_def bind_simps split: option.splits)

lemma add_all_stored:
  assumes "add_all U Es i delta qs d = Inr (cs, d')" and "memory_ok d" and "\<forall>q \<in> set qs. input_ok q"
  shows "length cs = length qs \<and> (\<forall>c \<in> set cs. cm_id c \<in> cl_id ` set (mt_claims (db_memory d')))"
  using assms
proof (induction qs arbitrary: d i cs)
  case (Cons q qs)
  obtain c d1 d2 cs' where 1: "addClaimTx U (Es i) q d = Inr (c, d1)"
    "insert_delta_claim \<lparr>kc_delta = delta, kc_claim = cm_id c, kc_status = cn_status q, kc_confidence = cn_confidence q\<rparr> d1 = Inr d2"
    "add_all U Es (Suc i) delta qs d2 = Inr (cs', d')" "cs = c # cs'"
    using Cons.prems(1) by (auto elim!: bindE_InrE)
  have d1: "memory_ok d1" using addClaimTx_keeps [OF 1(1) Cons.prems(2)] Cons.prems(3) by simp
  have d2: "memory_ok d2" using same_view_ok [OF delta_claim_view [OF 1(2)]] d1 by simp
  have "cm_id c \<in> cl_id ` set (mt_claims (db_memory d1))"
    using 1(1) by (cases rule: addClaimTx_Inr) (auto simp: loadClaim_Inr claim_of_row_def dest: find_by_key_mem find_by_SomeD)
  moreover have "memory_le d1 d'"
    using same_view_le [OF delta_claim_view [OF 1(2)]] add_all_keeps [OF 1(3) d2] Cons.prems(3) memory_le_trans by auto
  ultimately have "cm_id c \<in> cl_id ` set (mt_claims (db_memory d'))" using claim_ids_le by blast
  then show ?case using Cons.IH [OF 1(3) d2] Cons.prems(3) 1(4) by simp
qed simp

lemma map_res_set: "map_res f xs = Inr ys \<Longrightarrow> \<forall>y \<in> set ys. \<exists>x \<in> set xs. f x = Inr y"
proof (induction xs arbitrary: ys)
  case (Cons x xs)
  then obtain y zs where "f x = Inr y" "map_res f xs = Inr zs" "ys = y # zs" by (auto elim!: bindE_InrE)
  then show ?case using Cons.IH [of zs] by auto
qed simp

lemma length_map_res: "map_res f xs = Inr ys \<Longrightarrow> length ys = length xs"
  by (induction xs arbitrary: ys) (auto elim!: bindE_InrE)

lemma ingestTx_Inr:
  assumes "ingestTx U Es now rand k source evidence claims d = Inr (cs, d')"
  obtains d1 d2 where "k \<notin> kd_id ` set (mt_deltas (db_memory d))"
    "put_all evidence (set_memory ((db_memory d)\<lparr>mt_deltas := mt_deltas (db_memory d) @
       [\<lparr>kd_id = k, kd_source = source, kd_ingested = now\<rparr>]\<rparr>) d) = Inr d1"
    "add_all U Es 0 k claims d1 = Inr (cs, d2)" "same_view d2 d'"
  using assms unfolding ingestTx_def by (auto elim!: bindE_InrE simp: insert_unique_Inr_iff dest: event_view)

lemma ingestTx_keeps:
  assumes "ingestTx U Es now rand k source evidence claims d = Inr (cs, d')" and "memory_ok d" and "\<forall>q \<in> set claims. input_ok q"
  shows "memory_ok d' \<and> memory_le d d' \<and> k \<in> kd_id ` set (mt_deltas (db_memory d')) \<and> length cs = length claims \<and>
    (\<forall>c \<in> set cs. cm_id c \<in> cl_id ` set (mt_claims (db_memory d')))"
  using assms(1)
proof (rule ingestTx_Inr)
  fix d1 d2
  let ?row = "\<lparr>kd_id = k, kd_source = source, kd_ingested = now\<rparr>"
  let ?d0 = "set_memory ((db_memory d)\<lparr>mt_deltas := mt_deltas (db_memory d) @ [?row]\<rparr>) d"
  assume 1: "put_all evidence ?d0 = Inr d1" "add_all U Es 0 k claims d1 = Inr (cs, d2)" "same_view d2 d'"
  have "memory_ok ?d0" using assms(2) by (simp add: memory_ok_def rows_ok_def cited_def genuine_def)
  moreover have "memory_le d ?d0" by (auto simp: memory_le_def intro: claim_le_refl)
  ultimately have d1: "memory_ok d1" "memory_le d d1" "memory_le ?d0 d1" using put_all_keeps [OF 1(1)] memory_le_trans by blast+
  then have d2: "memory_ok d2" "memory_le d1 d2" using add_all_keeps [OF 1(2)] assms(3) by simp_all
  then have d': "memory_ok d'" "memory_le d1 d'" using same_view_ok [OF 1(3)] same_view_le [OF 1(3)] memory_le_trans by blast+
  have "?row \<in> set (mt_deltas (db_memory ?d0))" by simp
  moreover have "memory_le ?d0 d'" by (rule memory_le_trans [OF d1(3) d'(2)])
  ultimately have "?row \<in> set (mt_deltas (db_memory d'))" unfolding memory_le_def by blast
  then have "k \<in> kd_id ` set (mt_deltas (db_memory d'))" by force
  moreover have "length cs = length claims" "\<forall>c \<in> set cs. cm_id c \<in> cl_id ` set (mt_claims (db_memory d'))"
    using add_all_stored [OF 1(2) d1(1) assms(3)] 1(3) by (simp_all add: same_view_def)
  ultimately show ?thesis using d'(1) memory_le_trans [OF d1(2) d'(2)] by simp
qed

lemma supersedeTx_Inr:
  assumes "supersedeTx E old new t d = Inr d'"
  obtains r d1 where "find_by cl_id old (mt_claims (db_memory d)) = Some r" "cl_from r \<le> t" "cl_to r = 0 \<or> t \<le> cl_to r"
    "t = 0 \<or> formatTime (cl_from r) \<le> formatTime t"
    "d1 = set_memory ((db_memory d)\<lparr>mt_claims := update_where (\<lambda>x. cl_id x = old) (\<lambda>x. x\<lparr>cl_to := t\<rparr>) (mt_claims (db_memory d))\<rparr>) d"
    "same_view (insertRelationTx (rnd E 0) old new ''SUPERSEDES'' t d1) d'"
  using assms unfolding supersedeTx_def Let_def
  by (auto elim!: bindE_InrE simp: load_claim_row_def period_check_def bind_simps dest!: event_view split: option.splits)

lemma supersedeTx_keeps:
  assumes "supersedeTx E old new t d = Inr d'" and "memory_ok d" and "t \<noteq> 0"
  shows "memory_ok d' \<and> memory_le d d'"
  using assms(1)
proof (rule supersedeTx_Inr)
  fix r d1
  assume r: "find_by cl_id old (mt_claims (db_memory d)) = Some r" "cl_from r \<le> t" "cl_to r = 0 \<or> t \<le> cl_to r"
    and d1: "d1 = set_memory ((db_memory d)\<lparr>mt_claims := update_where (\<lambda>x. cl_id x = old) (\<lambda>x. x\<lparr>cl_to := t\<rparr>) (mt_claims (db_memory d))\<rparr>) d"
    and view: "same_view (insertRelationTx (rnd E 0) old new ''SUPERSEDES'' t d1) d'"
  have rows: "rows_ok d" and all_cited: "\<forall>r \<in> set (mt_claims (db_memory d)). cited d r" using assms(2) by (simp_all add: memory_ok_def)
  have only: "x = r" if "x \<in> set (mt_claims (db_memory d))" "cl_id x = old" for x
    using find_by_only [OF _ r(1) that(1)] rows that(2) by (simp add: rows_ok_def)
  define f :: "claim_row \<Rightarrow> claim_row" where "f = (\<lambda>x. if cl_id x = old then x\<lparr>cl_to := t\<rparr> else x)"
  have set1: "set (mt_claims (db_memory d1)) = f ` set (mt_claims (db_memory d))" by (simp add: d1 set_update_where f_def)
  have step: "claim_le x (f x)" if "x \<in> set (mt_claims (db_memory d))" for x
    using only [OF that] r(2,3) assms(3) by (auto simp: claim_le_def f_def)
  then have "\<forall>x \<in> set (mt_claims (db_memory d)). \<exists>x' \<in> set (mt_claims (db_memory d1)). claim_le x x'"
    unfolding set1 by (meson imageI)
  then have le: "memory_le d d1" unfolding memory_le_def by (simp add: d1)
  have ids: "map cl_id (mt_claims (db_memory d1)) = map cl_id (mt_claims (db_memory d))"
    unfolding d1 set_memory_simps by (simp add: map_key_update_where)
  have fields: "claim_fields_ok (f x)" if "x \<in> set (mt_claims (db_memory d))" for x
    using only [OF that] rows that r(2) by (auto simp: rows_ok_def claim_fields_ok_def f_def)
  have "distinct (map cl_id (mt_claims (db_memory d1)))" unfolding ids using rows by (simp add: rows_ok_def)
  moreover have "\<forall>l \<in> set (mt_evidence (db_memory d1)). ce_claim l \<in> cl_id ` set (mt_claims (db_memory d1)) \<and> ce_evidence l \<in> evi_id ` set (db_evidence d1)"
    using rows arg_cong [OF ids, of set] by (simp add: rows_ok_def d1 flip: set_map)
  moreover have "mt_relations (db_memory d1) = mt_relations (db_memory d)" by (simp add: d1)
  ultimately have rows1: "rows_ok d1"
    using rows fields genuine_le [OF le] by (simp add: rows_ok_def set1)
  have "cited d1 (f x)" if "x \<in> set (mt_claims (db_memory d))" for x
    using all_cited that by (auto simp: cited_def d1 f_def)
  then have ok1: "\<forall>r \<in> set (mt_claims (db_memory d1)). cited d1 r" unfolding set1 by blast
  let ?d2 = "insertRelationTx (rnd E 0) old new ''SUPERSEDES'' t d1"
  have "rows_ok ?d2" by (rule relation_rows [OF rows1]) simp
  moreover have "memory_le d1 ?d2" by (rule relation_le)
  ultimately have "memory_ok ?d2" using ok1 cited_le by (simp add: memory_ok_def)
  then show ?thesis using same_view_ok [OF view] same_view_le [OF view] memory_le_trans [OF le] memory_le_trans [OF relation_le] by blast
qed

subsection \<open>Sequences of calls\<close>

inductive memory_step :: "(string \<Rightarrow> string) \<Rightarrow> db \<Rightarrow> db \<Rightarrow> bool" for U where
  step_put: "memory_step U d (fst (PutEvidence now evidence d))"
| step_add: "memory_step U d (fst (AddClaim U E claim d))"
| step_ingest: "memory_step U d (fst (Ingest U E Es delta d))"
| step_supersede: "memory_step U d (fst (Supersede E old new t d))"
| step_elsewhere: "db_memory d' = db_memory d \<Longrightarrow> db_evidence d' = db_evidence d @ xs \<Longrightarrow> memory_step U d d'"
  \<comment> \<open>The other services leave the memory alone and only add evidence.\<close>

lemma Ingest_Inr:
  assumes "Ingest U E Es delta d = (d', Inr cs)"
  obtains evidence claims where "\<forall>q \<in> set claims. input_ok q" "length claims = length (nd_claims delta)"
    "ingestTx U Es (clk E (length evidence)) (rnd E 0) (trim_space (nd_id delta)) (trim_space (nd_source delta)) evidence claims d = Inr (cs, d')"
proof -
  have "\<exists>evidence claims. map_res (\<lambda>q. validateClaimInput (q\<lparr>cn_source := trim_space (nd_source delta)\<rparr>)) (nd_claims delta) = Inr claims \<and>
    ingestTx U Es (clk E (length evidence)) (rnd E 0) (trim_space (nd_id delta)) (trim_space (nd_source delta)) evidence claims d = Inr (cs, d')"
    using assms by (auto simp: Ingest_def Let_def with_tx_Inr_iff split: if_splits sum.splits)
  then show thesis using that map_res_set validateClaimInput_ok length_map_res by metis
qed

lemma memory_step_keeps:
  assumes "memory_step U d d'" and "memory_ok d"
  shows "memory_ok d' \<and> memory_le d d'"
proof -
  let ?I = "\<lambda>d'. memory_ok d' \<and> memory_le d d'"
  have same: "?I d" using assms(2) by simp
  show ?thesis
    using assms(1)
  proof cases
    case (step_put now evidence)
    show ?thesis unfolding step_put PutEvidence_def using same putEvidenceTx_keeps assms(2)
      by (auto intro!: with_tx_invariant [where I = ?I] simp: no_result_Inr split: sum.split)
  next
    case (step_add E claim)
    show ?thesis unfolding step_add AddClaim_def using same addClaimTx_keeps [OF _ assms(2)] validateClaimInput_ok
      by (auto intro!: with_tx_invariant [where I = ?I] split: sum.split)
  next
    case (step_ingest E Es delta)
    show ?thesis
    proof (cases "snd (Ingest U E Es delta d)")
      case (Inl e)
      then have "fst (Ingest U E Es delta d) = d" by (auto simp: Ingest_def Let_def with_tx_def split: if_splits sum.splits prod.splits)
      then show ?thesis using same step_ingest by simp
    next
      case (Inr cs)
      then have "Ingest U E Es delta d = (d', Inr cs)" using step_ingest by (simp add: prod_eq_iff)
      then show ?thesis by (rule Ingest_Inr) (use ingestTx_keeps assms(2) in blast)
    qed
  next
    case (step_supersede E old new t)
    show ?thesis unfolding step_supersede Supersede_def Let_def using same supersedeTx_keeps [OF _ assms(2)]
      by (auto intro!: with_tx_invariant [where I = ?I] simp: no_result_Inr)
  next
    case (step_elsewhere xs)
    then show ?thesis using more_evidence assms(2) by blast
  qed
qed

interpretation memory: kept_invariant "memory_step U" memory_ok
  by unfold_locales (use memory_step_keeps in blast)

lemma memory_reach_le: "(memory_step U)\<^sup>*\<^sup>* d d' \<Longrightarrow> memory_ok d \<Longrightarrow> memory_le d d'"
proof (induction rule: rtranclp_induct)
  case (step e f)
  then show ?case using memory_step_keeps [OF step(2)] memory.reach_inv [OF step(1,4)] memory_le_trans by blast
qed simp

subsection \<open>Reading\<close>

lemma Contradictions_iff: "j \<in> set (Contradictions k d) \<longleftrightarrow> (\<exists>r \<in> set (mt_relations (db_memory d)). rl_kind r = ''CONTRADICTS'' \<and>
    (rl_left r = k \<and> j = rl_right r \<or> rl_left r \<noteq> k \<and> rl_right r = k \<and> j = rl_left r))"
  by (auto simp: Contradictions_def)

lemma BeliefsAt_mem: "BeliefsAt t d = Inr cs \<Longrightarrow>
    c \<in> set cs \<longleftrightarrow> (\<exists>r \<in> set (mt_claims (db_memory d)). c = claim_of_row r \<and> believed (formatTime t) d r)"
  by (auto simp: BeliefsAt_def split: if_splits)

subsection \<open>Which contradictions are recorded\<close>

definition in_years :: "gtime \<Rightarrow> bool" where
  "in_years t \<longleftrightarrow> 0 \<le> t \<and> t < year_10000"

text \<open>The periods of two claims have more than a second in common.\<close>

definition overlapping :: "claim_row \<Rightarrow> claim_row \<Rightarrow> bool" where
  "overlapping a b \<longleftrightarrow> in_years (cl_from a) \<and> in_years (cl_to a) \<and> in_years (cl_from b) \<and> in_years (cl_to b) \<and>
     (cl_to a = 0 \<or> cl_from b div 1000000000 < cl_to a div 1000000000) \<and>
     (cl_to b = 0 \<or> cl_from a div 1000000000 < cl_to b div 1000000000)"

lemma overlapping_disputed:
  assumes "overlapping a b" and "cl_id b \<noteq> cl_id a" and "cl_subject b = cl_subject a" and "cl_predicate b = cl_predicate a"
    and "cl_normalized b \<noteq> cl_normalized a"
  shows "disputed a b"
  using assms formatTime_seconds [of "cl_from b" "cl_to a"] formatTime_seconds [of "cl_from a" "cl_to b"]
  by (auto simp: overlapping_def disputed_def in_years_def)

definition fresh_relations :: "(nat \<Rightarrow> string) \<Rightarrow> db \<Rightarrow> bool" where
  "fresh_relations rand d \<longleftrightarrow> inj rand \<and> (\<forall>i. \<forall>r \<in> set (mt_relations (db_memory d)). rl_id r \<noteq> NewID ''claimrel'' (rand i))"

definition related :: "db \<Rightarrow> ID \<Rightarrow> ID \<Rightarrow> bool" where
  "related d x y \<longleftrightarrow> (\<exists>r \<in> set (mt_relations (db_memory d)). rl_kind r = ''CONTRADICTS'' \<and> rl_left r = min x y \<and> rl_right r = max x y)"

lemma related_Contradictions:
  assumes "related d x y"
  shows "y \<in> set (Contradictions x d) \<and> x \<in> set (Contradictions y d)"
proof -
  obtain r where "r \<in> set (mt_relations (db_memory d))" "rl_kind r = ''CONTRADICTS''" "rl_left r = min x y" "rl_right r = max x y"
    using assms unfolding related_def by blast
  then show ?thesis unfolding Contradictions_iff by (intro conjI bexI [of _ r]) (auto simp: min_def max_def)
qed

lemma related_le: "memory_le d d' \<Longrightarrow> related d x y \<Longrightarrow> related d' x y"
  unfolding related_def memory_le_def by blast

lemma insertRelationTx_related:
  assumes "x \<noteq> y" and "\<forall>r \<in> set (mt_relations (db_memory d)). rl_id r \<noteq> NewID ''claimrel'' rand"
  shows "related (insertRelationTx rand (min x y) (max x y) ''CONTRADICTS'' now d) x y"
proof (cases "exists_where (\<lambda>r. relation_key r = (min x y, max x y, ''CONTRADICTS'')) (mt_relations (db_memory d))")
  case True
  then have "related d x y" by (auto simp: related_def exists_where_iff relation_key_def)
  then show ?thesis by (rule related_le [OF relation_le])
next
  case False
  have "min x y \<noteq> max x y" using assms(1) by (auto simp: min_def max_def)
  moreover have "\<not> exists_where (\<lambda>r. rl_id r = NewID ''claimrel'' rand \<or> relation_key r = (min x y, max x y, ''CONTRADICTS'')) (mt_relations (db_memory d))"
    using False assms(2) by (auto simp: exists_where_iff)
  ultimately show ?thesis by (simp add: insertRelationTx_def relation_key_def related_def)
qed

lemma record_disputes_related:
  assumes "\<forall>j \<ge> i. \<forall>r \<in> set (mt_relations (db_memory d)). rl_id r \<noteq> NewID ''claimrel'' (rand j)" and "inj rand" and "k \<in> set ks" and "k \<noteq> new"
    and "rows_ok d" and "\<forall>k \<in> set ks. genuine d k new"
  shows "related (record_disputes rand i new now ks d) k new"
  using assms
proof (induction ks arbitrary: d i)
  case (Cons h hs)
  let ?d = "insertRelationTx (rand i) (min h new) (max h new) ''CONTRADICTS'' now d"
  have gen: "\<forall>k \<in> set hs. genuine ?d k new" using Cons.prems(6) genuine_le [OF relation_le] by simp
  have "genuine d (min h new) (max h new)" using Cons.prems(6) genuine_sym by (auto simp: min_def max_def)
  then have rows: "rows_ok ?d" by (intro relation_rows Cons.prems(5) impI)
  have fresh: "\<forall>j \<ge> Suc i. \<forall>r \<in> set (mt_relations (db_memory ?d)). rl_id r \<noteq> NewID ''claimrel'' (rand j)"
  proof (intro allI impI)
    fix j assume "Suc i \<le> j"
    then have "rand j \<noteq> rand i" "i \<le> j" using Cons.prems(2) by (auto dest: injD)
    then show "\<forall>r \<in> set (mt_relations (db_memory ?d)). rl_id r \<noteq> NewID ''claimrel'' (rand j)"
      using Cons.prems(1) insertRelationTx_cases [of "rand i" "min h new" "max h new" "''CONTRADICTS''" now d] by (auto simp: NewID_def)
  qed
  show ?case
  proof (cases "k = h")
    case True
    have "related ?d k new" unfolding True by (rule insertRelationTx_related) (use Cons.prems(1,4) True in auto)
    moreover have "memory_le ?d (record_disputes rand (Suc i) new now hs ?d)" using record_disputes_keeps [OF rows gen] by blast
    ultimately show ?thesis by (simp add: related_le)
  next
    case False
    then have "k \<in> set hs" using Cons.prems(3) by simp
    then show ?thesis using Cons.IH [OF fresh Cons.prems(2) _ Cons.prems(4) rows gen] by simp
  qed
qed simp

lemma store_claim_related:
  assumes "store_claim E c evidence d = Inr d'" and "memory_ok d" and "set evidence \<subseteq> evi_id ` set (db_evidence d)"
    and "cl_to c \<noteq> 0 \<longrightarrow> cl_from c \<le> cl_to c" and "b \<in> set (mt_claims (db_memory d))" and "disputed c b" and "cl_id b \<noteq> cl_id c"
    and "fresh_relations (rnd E) d"
  shows "related d' (cl_id b) (cl_id c)"
proof -
  obtain d1 d2 where d1: "insert_claim c d = Inr d1" and d2: "link_all (cl_id c) (clk E 0) evidence d1 = Inr d2"
    and view: "same_view (recordContradictionsTx (rnd E) c (clk E 0) d2) d'"
    using assms(1) unfolding store_claim_def Let_def by (auto elim!: bindE_InrE dest: event_view)
  have "rows_ok d" using assms(2) by (simp add: memory_ok_def)
  then have rows1: "rows_ok d1" using insert_claim_rows [OF d1 _ assms(4)] by simp
  have same1: "mt_claims (db_memory d1) = mt_claims (db_memory d) @ [c]" "db_evidence d1 = db_evidence d"
    "mt_relations (db_memory d1) = mt_relations (db_memory d)" using d1 by (auto simp: insert_claim_Inr)
  then have two: "rows_ok d2" "mt_claims (db_memory d2) = mt_claims (db_memory d) @ [c]"
    "mt_relations (db_memory d2) = mt_relations (db_memory d)"
    using link_all_keeps [OF d2 rows1] assms(3) by simp_all
  let ?ks = "map cl_id (filter (disputed c) (mt_claims (db_memory d2)))"
  have "genuine d2 (cl_id r) (cl_id c)" if "disputed c r" "r \<in> set (mt_claims (db_memory d2))" for r
    unfolding genuine_def by (rule bexI [OF _ that(2)], rule bexI [of _ c]) (use that(1) two(2) in \<open>auto simp: disputed_def\<close>)
  then have gen: "\<forall>k \<in> set ?ks. genuine d2 k (cl_id c)" by auto
  have "cl_id b \<in> set ?ks" using assms(5,6) two(2) by auto
  moreover have "\<forall>j \<ge> 1. \<forall>r \<in> set (mt_relations (db_memory d2)). rl_id r \<noteq> NewID ''claimrel'' (rnd E j)" "inj (rnd E)"
    using assms(8) two(3) by (auto simp: fresh_relations_def)
  ultimately have "related (recordContradictionsTx (rnd E) c (clk E 0) d2) (cl_id b) (cl_id c)"
    unfolding recordContradictionsTx_def by (intro record_disputes_related) (use assms(7) two(1) gen in auto)
  then show ?thesis using related_le [OF same_view_le [OF view]] by simp
qed

subsection \<open>Contradictions are recorded only where periods meet\<close>

text \<open>
  Two claims that contradict each other: they are about the same subject and predicate, say something else, and their periods meet, up to
  the second. A later supersession may shorten a period, so this holds when the contradiction is recorded.
\<close>

definition periods_meet :: "claim_row \<Rightarrow> claim_row \<Rightarrow> bool" where
  "periods_meet a b \<longleftrightarrow> (in_years (cl_from a) \<and> in_years (cl_to a) \<and> in_years (cl_from b) \<and> in_years (cl_to b) \<longrightarrow>
     (cl_to a = 0 \<or> cl_from b div 1000000000 \<le> cl_to a div 1000000000) \<and>
     (cl_to b = 0 \<or> cl_from a div 1000000000 \<le> cl_to b div 1000000000))"

definition contradict :: "db \<Rightarrow> ID \<Rightarrow> ID \<Rightarrow> bool" where
  "contradict d x y \<longleftrightarrow> (\<exists>a \<in> set (mt_claims (db_memory d)). \<exists>b \<in> set (mt_claims (db_memory d)). cl_id a = x \<and> cl_id b = y \<and>
     cl_subject a = cl_subject b \<and> cl_predicate a = cl_predicate b \<and> cl_normalized a \<noteq> cl_normalized b \<and> periods_meet a b)"

lemma contradict_sym: "contradict d x y \<Longrightarrow> contradict d y x"
  unfolding contradict_def periods_meet_def by metis

lemma disputed_meet: "disputed a b \<Longrightarrow> periods_meet a b"
  using formatTime_seconds [of "cl_to a" "cl_from b"] formatTime_seconds [of "cl_to b" "cl_from a"]
  by (auto simp: disputed_def periods_meet_def in_years_def not_less [symmetric])

text \<open>A step that keeps every claim and relates only claims that contradict each other.\<close>

definition relates_only :: "db \<Rightarrow> db \<Rightarrow> bool" where
  "relates_only d d' \<longleftrightarrow> (\<forall>r \<in> set (mt_relations (db_memory d')). rl_kind r = ''CONTRADICTS'' \<longrightarrow>
     r \<in> set (mt_relations (db_memory d)) \<or> contradict d' (rl_left r) (rl_right r))"

definition meets_more :: "db \<Rightarrow> db \<Rightarrow> bool" where
  "meets_more d d' \<longleftrightarrow> set (mt_claims (db_memory d)) \<subseteq> set (mt_claims (db_memory d')) \<and> relates_only d d'"

lemma meets_more_same:
  "mt_relations (db_memory d') = mt_relations (db_memory d) \<Longrightarrow> set (mt_claims (db_memory d)) \<subseteq> set (mt_claims (db_memory d')) \<Longrightarrow> meets_more d d'"
  by (simp add: meets_more_def relates_only_def)

lemma meets_more_refl [simp]: "meets_more d d"
  by (rule meets_more_same) simp_all

lemma meets_more_trans: "meets_more d d' \<Longrightarrow> meets_more d' d'' \<Longrightarrow> meets_more d d''"
  unfolding meets_more_def relates_only_def contradict_def by (meson subsetD subset_trans)

lemma same_view_meets: "same_view d d' \<Longrightarrow> meets_more d d'"
  by (rule meets_more_same) (simp_all add: same_view_def)

lemma link_all_meets: "link_all k now es d = Inr d' \<Longrightarrow> mt_relations (db_memory d') = mt_relations (db_memory d) \<and>
    mt_claims (db_memory d') = mt_claims (db_memory d)"
proof (induction es arbitrary: d)
  case (Cons e es)
  then obtain d1 where "insert_link \<lparr>ce_claim = k, ce_evidence = e, ce_linked = now\<rparr> d = Inr d1" "link_all k now es d1 = Inr d'"
    by (auto elim: bindE_InrE)
  with Cons.IH [of d1] show ?case by (auto simp: insert_link_Inr)
qed simp

lemma link_more_meets: "mt_relations (db_memory (link_more clock i k es d)) = mt_relations (db_memory d) \<and>
    mt_claims (db_memory (link_more clock i k es d)) = mt_claims (db_memory d)"
proof (induction es arbitrary: d i)
  case (Cons e es)
  let ?l = "\<lparr>ce_claim = k, ce_evidence = e, ce_linked = clock i\<rparr>"
  show ?case using link_or_ignore_cases [of ?l d] by (auto simp: Cons.IH insert_link_Inr)
qed simp

lemma relation_meets:
  assumes "kind = ''CONTRADICTS'' \<longrightarrow> contradict d left right"
  shows "meets_more d (insertRelationTx rand left right kind created d)"
proof -
  have same: "contradict (insertRelationTx rand left right kind created d) x y = contradict d x y" for x y by (simp add: contradict_def)
  show ?thesis
    using assms insertRelationTx_cases [of rand left right kind created d] unfolding meets_more_def relates_only_def same by auto
qed

lemma record_disputes_meets:
  "\<forall>k \<in> set ks. contradict d k new \<Longrightarrow> meets_more d (record_disputes rand i new now ks d)"
proof (induction ks arbitrary: d i)
  case (Cons k ks)
  let ?d = "insertRelationTx (rand i) (min k new) (max k new) ''CONTRADICTS'' now d"
  have "contradict d (min k new) (max k new)" using Cons.prems contradict_sym by (auto simp: min_def max_def)
  then have "meets_more d ?d" by (intro relation_meets impI)
  moreover have "contradict ?d x y = contradict d x y" for x y by (simp add: contradict_def)
  ultimately show ?case using Cons.IH [of ?d "Suc i"] Cons.prems meets_more_trans by auto
qed simp

lemma store_claim_meets:
  assumes "store_claim E c evidence d = Inr d'"
  shows "meets_more d d'"
proof -
  obtain d1 d2 where d1: "insert_claim c d = Inr d1" and d2: "link_all (cl_id c) (clk E 0) evidence d1 = Inr d2"
    and view: "same_view (recordContradictionsTx (rnd E) c (clk E 0) d2) d'"
    using assms unfolding store_claim_def Let_def by (auto elim!: bindE_InrE dest: event_view)
  have rows: "mt_claims (db_memory d2) = mt_claims (db_memory d) @ [c]" "mt_relations (db_memory d2) = mt_relations (db_memory d)"
    using d1 link_all_meets [OF d2] by (auto simp: insert_claim_Inr)
  have "contradict d2 (cl_id b) (cl_id c)" if b: "b \<in> set (mt_claims (db_memory d2))" "disputed c b" for b
  proof -
    have "contradict d2 (cl_id c) (cl_id b)"
      unfolding contradict_def by (rule bexI [of _ c], rule bexI [OF _ b(1)]) (use b(2) disputed_meet rows(1) in \<open>auto simp: disputed_def\<close>)
    then show ?thesis by (rule contradict_sym)
  qed
  then have "meets_more d2 (recordContradictionsTx (rnd E) c (clk E 0) d2)"
    unfolding recordContradictionsTx_def by (intro record_disputes_meets) auto
  moreover have "meets_more d d2" by (rule meets_more_same) (use rows in auto)
  ultimately show ?thesis using same_view_meets [OF view] meets_more_trans by blast
qed

lemma addClaimTx_meets: "addClaimTx U E q d = Inr (c, d') \<Longrightarrow> meets_more d d'"
  by (erule addClaimTx_Inr) (auto intro: meets_more_same store_claim_meets simp: link_more_meets)

lemma add_all_meets: "add_all U Es i delta qs d = Inr (cs, d') \<Longrightarrow> meets_more d d'"
proof (induction qs arbitrary: d i cs)
  case (Cons q qs)
  obtain c d1 d2 cs' where "addClaimTx U (Es i) q d = Inr (c, d1)"
    "insert_delta_claim \<lparr>kc_delta = delta, kc_claim = cm_id c, kc_status = cn_status q, kc_confidence = cn_confidence q\<rparr> d1 = Inr d2"
    "add_all U Es (Suc i) delta qs d2 = Inr (cs', d')"
    using Cons.prems by (auto elim!: bindE_InrE)
  note parts = this
  have "meets_more d d1" by (rule addClaimTx_meets [OF parts(1)])
  moreover have "meets_more d1 d2" by (rule same_view_meets [OF delta_claim_view [OF parts(2)]])
  ultimately show ?case using Cons.IH [OF parts(3)] meets_more_trans by blast
qed simp

lemma putEvidenceTx_meets: "putEvidenceTx q d = Inr d' \<Longrightarrow> meets_more d d'"
  by (drule putEvidenceTx_Inr) (auto intro!: meets_more_same)

lemma put_all_meets: "put_all qs d = Inr d' \<Longrightarrow> meets_more d d'"
proof (induction qs arbitrary: d)
  case (Cons q qs)
  then obtain d1 where "putEvidenceTx q d = Inr d1" "put_all qs d1 = Inr d'" by (auto elim: bindE_InrE)
  then show ?case using putEvidenceTx_meets Cons.IH meets_more_trans by blast
qed simp

lemma supersedeTx_relates: "supersedeTx E old new t d = Inr d' \<Longrightarrow> relates_only d d'"
proof (erule supersedeTx_Inr)
  fix r d1
  assume d1: "d1 = set_memory ((db_memory d)\<lparr>mt_claims := update_where (\<lambda>x. cl_id x = old) (\<lambda>x. x\<lparr>cl_to := t\<rparr>) (mt_claims (db_memory d))\<rparr>) d"
    and view: "same_view (insertRelationTx (rnd E 0) old new ''SUPERSEDES'' t d1) d'"
  have "mt_relations (db_memory d') = mt_relations (db_memory (insertRelationTx (rnd E 0) old new ''SUPERSEDES'' t d1))"
    using view by (simp add: same_view_def)
  then show "relates_only d d'"
    using insertRelationTx_cases [of "rnd E 0" old new "''SUPERSEDES''" t d1] by (auto simp: relates_only_def d1)
qed

lemma memory_step_relates: "memory_step U d d' \<Longrightarrow> relates_only d d'"
proof (induction rule: memory_step.induct)
  case (step_put d now evidence)
  show ?case unfolding PutEvidence_def using putEvidenceTx_meets
    by (auto intro!: with_tx_invariant [where I = "relates_only d"] simp: no_result_Inr meets_more_def split: sum.split)
      (simp_all add: relates_only_def)
next
  case (step_add d E claim)
  show ?case unfolding AddClaim_def using addClaimTx_meets
    by (auto intro!: with_tx_invariant [where I = "relates_only d"] simp: meets_more_def split: sum.split) (simp_all add: relates_only_def)
next
  case (step_ingest d E Es delta)
  show ?case
  proof (cases "Ingest U E Es delta d")
    case (Pair d' out)
    show ?thesis
    proof (cases out)
      case (Inl e)
      then have "d' = d" using Pair by (auto simp: Ingest_def Let_def with_tx_def split: if_splits sum.splits prod.splits)
      then show ?thesis using Pair by (simp add: relates_only_def)
    next
      case (Inr cs)
      then obtain evidence claims where "ingestTx U Es (clk E (length evidence)) (rnd E 0) (trim_space (nd_id delta))
          (trim_space (nd_source delta)) evidence claims d = Inr (cs, d')" using Ingest_Inr Pair by metis
      then have "meets_more d d'"
      proof (rule ingestTx_Inr)
        fix d1 d2
        let ?d0 = "set_memory ((db_memory d)\<lparr>mt_deltas := mt_deltas (db_memory d) @ [\<lparr>kd_id = trim_space (nd_id delta),
          kd_source = trim_space (nd_source delta), kd_ingested = clk E (length evidence)\<rparr>]\<rparr>) d"
        assume 1: "put_all evidence ?d0 = Inr d1" "add_all U Es 0 (trim_space (nd_id delta)) claims d1 = Inr (cs, d2)" "same_view d2 d'"
        have "meets_more d ?d0" by (rule meets_more_same) simp_all
        then show "meets_more d d'"
          using put_all_meets [OF 1(1)] add_all_meets [OF 1(2)] same_view_meets [OF 1(3)] meets_more_trans by blast
      qed
      then show ?thesis using Pair by (simp add: meets_more_def)
    qed
  qed
next
  case (step_supersede d E old new t)
  show ?case unfolding Supersede_def Let_def using supersedeTx_relates
    by (auto intro!: with_tx_invariant [where I = "relates_only d"] simp: no_result_Inr) (simp_all add: relates_only_def)
qed (simp add: relates_only_def)

text \<open>Every contradiction in a state was one when it was recorded, in some state on the way.\<close>

lemma relation_was_genuine:
  assumes "(memory_step U)\<^sup>*\<^sup>* d d'" and "r \<in> set (mt_relations (db_memory d'))" and "rl_kind r = ''CONTRADICTS''"
  shows "r \<in> set (mt_relations (db_memory d)) \<or>
    (\<exists>e. (memory_step U)\<^sup>*\<^sup>* d e \<and> (memory_step U)\<^sup>*\<^sup>* e d' \<and> contradict e (rl_left r) (rl_right r))"
  using assms
proof (induction rule: rtranclp_induct)
  case (step e f)
  consider "r \<in> set (mt_relations (db_memory e))" | "contradict f (rl_left r) (rl_right r)"
    using memory_step_relates [OF step(2)] step(4,5) unfolding relates_only_def by blast
  then show ?case
  proof cases
    case 1
    from step.IH [OF this step(5)] step(2) show ?thesis by (elim disjE exE conjE) (auto intro: rtranclp.rtrancl_into_rtrancl)
  next
    case 2
    have "(memory_step U)\<^sup>*\<^sup>* d f" using step(1,2) by (rule rtranclp.rtrancl_into_rtrancl)
    with 2 show ?thesis by blast
  qed
qed simp

subsection \<open>A small memory\<close>

definition seconds :: "int \<Rightarrow> gtime" where
  "seconds n = n * 1000000000"

definition demo_memory_env :: "int \<Rightarrow> env" where
  "demo_memory_env now = \<lparr>clk = (\<lambda>_. seconds now), rnd = (\<lambda>i. replicate (8 * nat now + i) CHR ''a'')\<rparr>"

definition demo_source :: EvidenceInput where
  "demo_source = \<lparr>ei_ref = \<lparr>er_id = ''e1'', er_hash = ''h'', er_media = ''text/plain'', er_size = 3, er_created = seconds 1\<rparr>, ei_kind = ''note''\<rparr>"

definition demo_claim :: "string \<Rightarrow> string \<Rightarrow> gtime \<Rightarrow> gtime \<Rightarrow> ClaimInput" where
  "demo_claim k statement valid_from valid_to = \<lparr>cn_id = k, cn_subject = ''sky'', cn_predicate = ''color'', cn_statement = statement,
     cn_status = ClaimHypothesis, cn_confidence = Finite (1 / 2), cn_from = valid_from, cn_to = valid_to, cn_evidence = [''e1''], cn_source = ''s''\<rparr>"

definition demo_noted :: db where
  "demo_noted = fst (PutEvidence (seconds 1) demo_source empty_db)"

definition demo_blue :: db where
  "demo_blue = fst (AddClaim id (demo_memory_env 2) (demo_claim ''a'' ''The sky  is BLUE'' (seconds 2) 0) demo_noted)"

definition demo_red :: "db \<times> Claim res" where
  "demo_red = AddClaim id (demo_memory_env 4) (demo_claim ''b'' ''the sky is red'' (seconds 4) 0) demo_blue"

definition demo_superseded :: "db \<times> unit res" where
  "demo_superseded = Supersede (demo_memory_env 9) ''a'' ''b'' (seconds 8) (fst demo_red)"

definition demo_delta :: KnowledgeDelta where
  "demo_delta = \<lparr>nd_id = ''k'', nd_source = ''s'', nd_evidence = [demo_source],
     nd_claims = [demo_claim [] ''blue'' (seconds 2) 0, demo_claim [] ''red'' (seconds 4) 0]\<rparr>"

definition demo_ingested :: "db \<times> Claim list res" where
  "demo_ingested = Ingest id (demo_memory_env 2) (\<lambda>i. demo_memory_env (3 + int i)) demo_delta empty_db"

lemma empty_memory_ok: "memory_ok empty_db"
  by (simp add: memory_ok_def rows_ok_def empty_db_def empty_memory_def)

lemma demo_blue_reached: "(memory_step id)\<^sup>*\<^sup>* empty_db demo_blue"
  unfolding demo_blue_def demo_noted_def
  by (rule rtranclp.rtrancl_into_rtrancl, rule r_into_rtranclp, rule memory_step.step_put, rule memory_step.step_add)

lemma demo_red_reached: "(memory_step id)\<^sup>*\<^sup>* empty_db (fst demo_red)"
  unfolding demo_red_def by (rule rtranclp.rtrancl_into_rtrancl [OF demo_blue_reached memory_step.step_add])

lemma demo_superseded_reached: "(memory_step id)\<^sup>*\<^sup>* (fst demo_red) (fst demo_superseded)"
  unfolding demo_superseded_def by (rule r_into_rtranclp) (rule memory_step.step_supersede)

lemma demo_red_ok: "memory_ok (fst demo_red)"
  by (rule memory.reach_inv [OF demo_red_reached empty_memory_ok])

lemma demo_memory_fresh: "fresh_relations (rnd (demo_memory_env 4)) demo_blue"
proof -
  have "mt_relations (db_memory demo_blue) = []" by code_simp
  moreover have "inj (\<lambda>i. replicate (n + i) CHR ''a'')" for n by (rule inj_onI) (metis length_replicate add_left_cancel)
  ultimately show ?thesis by (simp add: fresh_relations_def demo_memory_env_def)
qed

subsection \<open>Properties\<close>

text \<open>
  C38. Claims rest on evidence. In every state the calls of the memory and of the other services reach, a claim that is read has the
  status and confidence the schema admits, does not end before it begins, cites at least one evidence object, and every
  object it cites is stored; what \<open>BeliefsAt\<close> returns are such claims.
\<close>

theorem claims_cite_evidence:
  assumes "(memory_step U)\<^sup>*\<^sup>* d0 d" and "memory_ok d0" and "Get_claim k d = Inr c \<or> (\<exists>t cs. BeliefsAt t d = Inr cs \<and> c \<in> set cs)"
  shows "(\<exists>l \<in> set (mt_evidence (db_memory d)). ce_claim l = cm_id c) \<and>
    {ce_evidence l |l. l \<in> set (mt_evidence (db_memory d)) \<and> ce_claim l = cm_id c} \<subseteq> evi_id ` set (db_evidence d) \<and>
    validClaimStatus (cm_status c) \<and> (\<exists>p. cm_confidence c = Finite p \<and> 0 \<le> p \<and> p \<le> 1) \<and> (cm_to c = 0 \<or> cm_from c \<le> cm_to c)"
proof -
  have ok: "memory_ok d" by (rule memory.reach_inv [OF assms(1,2)])
  obtain r where r: "r \<in> set (mt_claims (db_memory d))" "c = claim_of_row r"
    using assms(3) BeliefsAt_mem unfolding Get_claim_def loadClaim_Inr by (metis find_by_SomeD)
  then have "cited d r" "claim_fields_ok r" using ok by (auto simp: memory_ok_def rows_ok_def)
  moreover have "{ce_evidence l |l. l \<in> set (mt_evidence (db_memory d)) \<and> ce_claim l = cm_id c} \<subseteq> evi_id ` set (db_evidence d)"
    using ok by (auto simp: memory_ok_def rows_ok_def)
  ultimately show ?thesis using r(2) by (auto simp: cited_def claim_fields_ok_def claim_of_row_def)
qed

text \<open>
  Repetition does not verify. Whatever calls follow, with whatever claims are submitted again, a stored claim keeps its
  statement, status, confidence and beginning; its end only moves forward in time, and never before its beginning.
\<close>

theorem repetition_never_verifies:
  assumes "memory_ok d" and "(memory_step U)\<^sup>*\<^sup>* d d'" and "Get_claim k d = Inr c"
  shows "\<exists>c'. Get_claim k d' = Inr c' \<and> c' = c\<lparr>cm_to := cm_to c'\<rparr> \<and>
    (cm_to c' = cm_to c \<or> cm_to c' \<noteq> 0 \<and> cm_from c \<le> cm_to c' \<and> (cm_to c = 0 \<or> cm_to c' \<le> cm_to c))"
proof -
  obtain r where r: "find_by cl_id k (mt_claims (db_memory d)) = Some r" "c = claim_of_row r"
    using assms(3) by (auto simp: Get_claim_def loadClaim_Inr)
  then obtain r' where r': "r' \<in> set (mt_claims (db_memory d'))" "claim_le r r'"
    using memory_reach_le [OF assms(2,1)] find_by_SomeD [OF r(1)] unfolding memory_le_def by blast
  have "distinct (map cl_id (mt_claims (db_memory d')))"
    using memory.reach_inv [OF assms(2,1)] by (simp add: memory_ok_def rows_ok_def)
  then have "find_by cl_id k (mt_claims (db_memory d')) = Some r'"
    using r' claim_leD(1) [OF r'(2)] find_by_SomeD [OF r(1)] by (simp add: find_by_iff)
  then have "Get_claim k d' = Inr (claim_of_row r')" by (simp add: Get_claim_def loadClaim_Inr)
  moreover have "claim_of_row r' = c\<lparr>cm_to := cl_to r'\<rparr>"
    using r'(2) unfolding r(2) by (cases r; cases r') (auto simp: claim_of_row_def claim_le_def)
  ultimately show ?thesis using r'(2) unfolding r(2) by (auto simp: claim_le_def claim_of_row_def)
qed

text \<open>
  C21. A superseded claim is not believed. After a supersession at a time \<open>t\<close> has succeeded, the claim ends no later than \<open>t\<close> in every
  later state, whatever calls follow, and the beliefs of every time from the next second on do not contain it.
\<close>

theorem superseded_is_not_believed:
  assumes "memory_ok d" and "Supersede E old new t d = (d1, Inr ())" and "(memory_step U)\<^sup>*\<^sup>* d1 d2"
    and "\<And>c. Get_claim (trim_space old) d = Inr c \<Longrightarrow> 0 \<le> cm_from c"
    and "t div 1000000000 < t' div 1000000000" and "t' < year_10000" and "BeliefsAt t' d2 = Inr cs"
  shows "trim_space old \<notin> cm_id ` set cs \<and> (\<exists>c. Get_claim (trim_space old) d2 = Inr c \<and> cm_to c \<noteq> 0 \<and> cm_to c \<le> t)"
proof -
  have tx: "supersedeTx E (trim_space old) (trim_space new) t d = Inr d1" and t: "t \<noteq> 0"
    using assms(2) by (auto simp: Supersede_def Let_def with_tx_Inr_iff no_result_Inr split: if_splits)
  obtain r dm where r: "find_by cl_id (trim_space old) (mt_claims (db_memory d)) = Some r" "cl_from r \<le> t"
    and dm: "dm = set_memory ((db_memory d)\<lparr>mt_claims := update_where (\<lambda>x. cl_id x = trim_space old) (\<lambda>x. x\<lparr>cl_to := t\<rparr>) (mt_claims (db_memory d))\<rparr>) d"
    and view: "same_view (insertRelationTx (rnd E 0) (trim_space old) (trim_space new) ''SUPERSEDES'' t dm) d1"
    using tx by (rule supersedeTx_Inr)
  have "mt_claims (db_memory d1) = mt_claims (db_memory dm)" using view by (simp add: same_view_def)
  then have found1: "find_by cl_id (trim_space old) (mt_claims (db_memory d1)) = Some (r\<lparr>cl_to := t\<rparr>)"
    using r(1) find_by_SomeD [OF r(1)] by (simp add: dm find_by_update_where)
  have ok1: "memory_ok d1" using supersedeTx_keeps [OF tx assms(1) t] by simp
  have from_r: "0 \<le> cl_from r" using assms(4) r(1) by (auto simp: Get_claim_def loadClaim_Inr claim_of_row_def)
  obtain r' where r': "r' \<in> set (mt_claims (db_memory d2))" "claim_le (r\<lparr>cl_to := t\<rparr>) r'"
    using memory_reach_le [OF assms(3) ok1] find_by_SomeD [OF found1]
    unfolding memory_le_def by blast
  have bound: "cl_to r' \<noteq> 0" "cl_to r' \<le> t" "0 \<le> cl_to r'" "cl_id r' = trim_space old"
    using r'(2) t r(2) from_r find_by_SomeD [OF r(1)] claim_leD(1) [OF r'(2)] by (auto simp: claim_le_def)
  have distinct2: "distinct (map cl_id (mt_claims (db_memory d2)))"
    using memory.reach_inv [OF assms(3) ok1] by (simp add: memory_ok_def rows_ok_def)
  then have found: "find_by cl_id (trim_space old) (mt_claims (db_memory d2)) = Some r'" using r'(1) bound(4) by (simp add: find_by_iff)
  have "cl_to r' div 1000000000 < t' div 1000000000" using bound(2) assms(5) zdiv_mono1 [of "cl_to r'" t 1000000000] by simp
  then have "formatTime (cl_to r') < formatTime t'" by (rule formatTime_seconds [OF bound(3) assms(6)])
  then have "\<not> believed (formatTime t') d2 r'" using bound(1) by (auto simp: believed_def dest: less_asym)
  moreover have "x = r'" if "x \<in> set (mt_claims (db_memory d2))" "cl_id x = trim_space old" for x
    using find_by_only [OF distinct2 found that(1)] that(2) by simp
  ultimately have "trim_space old \<notin> cm_id ` set cs"
    using BeliefsAt_mem [OF assms(7)] by (force simp: claim_of_row_def)
  moreover have "Get_claim (trim_space old) d2 = Inr (claim_of_row r')" using found by (simp add: Get_claim_def loadClaim_Inr)
  ultimately show ?thesis using bound by (simp add: claim_of_row_def)
qed

text \<open>
  C20. Contradictions are found. When a claim is recorded, every stored claim about the same subject and predicate that says something
  else, and whose period has more than a second in common with its own, contradicts it from then on, both ways, if
  the identifiers drawn for the relations are new. And only such pairs are reported: two claims, different ones, about the same
  subject and predicate with different statements, each of which contradicts the other, and whose periods met, to the second, in a state
  on the way, when the contradiction was recorded (a supersession may have ended one of them since).
\<close>

theorem contradictions_are_found:
  assumes "(memory_step U)\<^sup>*\<^sup>* d0 d" and "memory_ok d0"
    and "AddClaim U E q d = (d1, Inr c)" and "cm_id c \<notin> cl_id ` set (mt_claims (db_memory d))" and "fresh_relations (rnd E) d"
    and "(memory_step U)\<^sup>*\<^sup>* d1 d2"
  shows "(\<forall>a \<in> set (mt_claims (db_memory d1)). \<forall>b \<in> set (mt_claims (db_memory d)). cl_id a = cm_id c \<and> cl_subject b = cl_subject a \<and>
      cl_predicate b = cl_predicate a \<and> cl_normalized b \<noteq> cl_normalized a \<and> overlapping a b \<longrightarrow>
      cl_id b \<in> set (Contradictions (cl_id a) d2) \<and> cl_id a \<in> set (Contradictions (cl_id b) d2)) \<and>
    (\<forall>k. \<forall>j \<in> set (Contradictions k d2). j \<noteq> k \<and> genuine d2 k j \<and> k \<in> set (Contradictions j d2) \<and>
      (j \<in> set (Contradictions k d0) \<or>
       (\<exists>e. (memory_step U)\<^sup>*\<^sup>* d0 e \<and> (memory_step U)\<^sup>*\<^sup>* e d2 \<and> contradict e k j)))"
proof -
  have ok: "memory_ok d" by (rule memory.reach_inv [OF assms(1,2)])
  obtain q' where q': "validateClaimInput q = Inr q'" "addClaimTx U E q' d = Inr (c, d1)"
    using assms(3) by (auto simp: AddClaim_def with_tx_Inr_iff split: sum.splits)
  have ok1: "memory_ok d1" using addClaimTx_keeps [OF q'(2) ok validateClaimInput_ok [OF q'(1)]] by simp
  have ok2: "memory_ok d2" by (rule memory.reach_inv [OF assms(6) ok1])
  have sound: "j \<noteq> k \<and> genuine d2 k j \<and> k \<in> set (Contradictions j d2)" if mem: "j \<in> set (Contradictions k d2)" for j k
  proof -
    obtain r :: relation_row where r: "r \<in> set (mt_relations (db_memory d2))" "rl_kind r = ''CONTRADICTS''"
      "rl_left r = k \<and> j = rl_right r \<or> rl_left r \<noteq> k \<and> rl_right r = k \<and> j = rl_left r" using mem unfolding Contradictions_iff by blast
    then have "rl_left r \<noteq> rl_right r" "genuine d2 (rl_left r) (rl_right r)" using ok2 by (auto simp: memory_ok_def rows_ok_def)
    then show ?thesis using r genuine_sym unfolding Contradictions_iff by metis
  qed
  have found: "related d2 (cl_id b) (cl_id a)"
    if a: "a \<in> set (mt_claims (db_memory d1))" "cl_id a = cm_id c" and b: "b \<in> set (mt_claims (db_memory d))"
      and diff: "cl_subject b = cl_subject a" "cl_predicate b = cl_predicate a" "cl_normalized b \<noteq> cl_normalized a" "overlapping a b" for a b
    using q'(2)
  proof (cases rule: addClaimTx_Inr)
    case (known r)
    then have "cm_id c \<in> cl_id ` set (mt_claims (db_memory d))"
      by (auto simp: loadClaim_Inr claim_of_row_def dest: find_by_SomeD)
    with assms(4) show ?thesis by simp
  next
    case recorded
    let ?c = "new_claim U E q'"
    have stored: "mt_claims (db_memory d1) = mt_claims (db_memory d) @ [?c]" "cl_id ?c \<notin> cl_id ` set (mt_claims (db_memory d))"
      using store_claim_keeps [OF recorded(3) ok _ recorded(1)] validateClaimInput_ok [OF q'(1)] by (simp_all add: input_ok_def new_claim_def)
    have "a \<notin> set (mt_claims (db_memory d))" using a(2) assms(4) by (metis image_eqI)
    then have "a = ?c" using a(1) stored(1) by simp
    have ne: "cl_id b \<noteq> cl_id ?c" using stored(2) b by (metis image_eqI)
    then have other: "disputed ?c b" using overlapping_disputed [of ?c b] diff \<open>a = ?c\<close> by simp
    have "related d1 (cl_id b) (cl_id ?c)"
      by (rule store_claim_related [OF recorded(3) ok recorded(1) _ b other ne assms(5)])
        (use validateClaimInput_ok [OF q'(1)] in \<open>simp add: input_ok_def new_claim_def\<close>)
    then show ?thesis using related_le [OF memory_reach_le [OF assms(6) ok1]] \<open>a = ?c\<close> by simp
  qed
  have "memory_step U d d1" using step_add [of U d E q] assms(3) by simp
  then have path: "(memory_step U)\<^sup>*\<^sup>* d0 d2" using assms(1,6) by (meson rtranclp.rtrancl_into_rtrancl rtranclp_trans)
  have recorded: "j \<in> set (Contradictions k d0) \<or> (\<exists>e. (memory_step U)\<^sup>*\<^sup>* d0 e \<and> (memory_step U)\<^sup>*\<^sup>* e d2 \<and> contradict e k j)"
    if "j \<in> set (Contradictions k d2)" for j k
    using that relation_was_genuine [OF path] contradict_sym unfolding Contradictions_iff by metis
  show ?thesis using found related_Contradictions sound recorded by blast
qed

lemma contradictions_are_found_witness:
  "''a'' \<in> set (Contradictions ''b'' (fst demo_superseded)) \<and> ''b'' \<in> set (Contradictions ''a'' (fst demo_superseded))"
proof -
  obtain c where c: "demo_red = (fst demo_red, Inr c)" "cm_id c = ''b''"
  proof -
    have "(case snd demo_red of Inl _ \<Rightarrow> False | Inr c \<Rightarrow> cm_id c = ''b'')" by code_simp
    then show thesis using that by (cases "snd demo_red") (auto simp: prod_eq_iff)
  qed
  have new: "cm_id c \<notin> cl_id ` set (mt_claims (db_memory demo_blue))" unfolding c(2) by code_simp
  have pair: "list_ex (\<lambda>a. list_ex (\<lambda>b. cl_id a = ''b'' \<and> cl_id b = ''a'' \<and> cl_subject b = cl_subject a \<and> cl_predicate b = cl_predicate a \<and>
      cl_normalized b \<noteq> cl_normalized a \<and> overlapping a b) (mt_claims (db_memory demo_blue))) (mt_claims (db_memory (fst demo_red)))"
    by code_simp
  note claim = contradictions_are_found [OF demo_blue_reached empty_memory_ok c(1) [unfolded demo_red_def] new demo_memory_fresh, folded demo_red_def,
    OF demo_superseded_reached]
  obtain a b where ab: "a \<in> set (mt_claims (db_memory (fst demo_red)))" "b \<in> set (mt_claims (db_memory demo_blue))"
    "cl_id a = ''b''" "cl_id b = ''a''" "cl_subject b = cl_subject a" "cl_predicate b = cl_predicate a"
    "cl_normalized b \<noteq> cl_normalized a" "overlapping a b" using pair unfolding list_ex_iff by blast
  show ?thesis using claim [THEN conjunct1, rule_format, OF ab(1,2)] ab c(2) by simp
qed

lemma claims_cite_evidence_witness:
  "\<exists>c. Get_claim ''a'' demo_blue = Inr c \<and> (\<exists>l \<in> set (mt_evidence (db_memory demo_blue)). ce_claim l = cm_id c)"
proof -
  have "(case Get_claim ''a'' demo_blue of Inl _ \<Rightarrow> False | Inr c \<Rightarrow> True)" by code_simp
  then obtain c where "Get_claim ''a'' demo_blue = Inr c" by (auto split: sum.splits)
  then show ?thesis using claims_cite_evidence [OF demo_blue_reached empty_memory_ok, of "''a''" c] by blast
qed

lemma repetition_never_verifies_witness:
  "\<exists>c c'. Get_claim ''a'' (fst demo_red) = Inr c \<and> Get_claim ''a'' (fst demo_superseded) = Inr c' \<and> c' = c\<lparr>cm_to := cm_to c'\<rparr> \<and> cm_to c' \<noteq> cm_to c"
proof -
  have "(case Get_claim ''a'' (fst demo_red) of Inl _ \<Rightarrow> False | Inr c \<Rightarrow> cm_to c = 0)" by code_simp
  then obtain c where c: "Get_claim ''a'' (fst demo_red) = Inr c" "cm_to c = 0" by (auto split: sum.splits)
  moreover have "(case Get_claim ''a'' (fst demo_superseded) of Inl _ \<Rightarrow> False | Inr c \<Rightarrow> cm_to c \<noteq> 0)" by code_simp
  ultimately show ?thesis using repetition_never_verifies [OF demo_red_ok demo_superseded_reached c(1)] by auto
qed

lemma superseded_is_not_believed_witness:
  "\<exists>cs. BeliefsAt (seconds 9) (fst demo_superseded) = Inr cs \<and> ''a'' \<notin> cm_id ` set cs \<and> map cm_id cs = [''b'']"
proof -
  have run: "(case BeliefsAt (seconds 9) (fst demo_superseded) of Inl _ \<Rightarrow> False | Inr cs \<Rightarrow> map cm_id cs = [''b''])" by code_simp
  then obtain cs where cs: "BeliefsAt (seconds 9) (fst demo_superseded) = Inr cs" "map cm_id cs = [''b'']" by (auto split: sum.splits)
  have "snd demo_superseded = Inr ()" by code_simp
  then have step: "Supersede (demo_memory_env 9) ''a'' ''b'' (seconds 8) (fst demo_red) = (fst demo_superseded, Inr ())"
    by (simp add: demo_superseded_def prod_eq_iff)
  have name: "trim_space ''a'' = ''a''" by code_simp
  have early: "(case Get_claim ''a'' (fst demo_red) of Inl _ \<Rightarrow> False | Inr c \<Rightarrow> 0 \<le> cm_from c)" by code_simp
  show ?thesis
    using superseded_is_not_believed [OF demo_red_ok step rtranclp.rtrancl_refl _ _ _ cs(1)] early cs
    by (auto simp: name seconds_def year_10000_def split: sum.splits)
qed

text \<open>
  A delta is ingested once, as a whole. When \<open>Ingest\<close> has succeeded it has returned one claim per submitted claim, all of them
  stored then and in every later state, and every later call with the same identifier fails and changes nothing. When it fails
  it has changed nothing.
\<close>

theorem delta_is_ingested_once:
  assumes "memory_ok d" and "Ingest U E Es delta d = (d1, Inr cs)" and "(memory_step U)\<^sup>*\<^sup>* d1 d2"
    and "trim_space (nd_id delta') = trim_space (nd_id delta)"
  shows "length cs = length (nd_claims delta) \<and> cm_id ` set cs \<subseteq> cl_id ` set (mt_claims (db_memory d2)) \<and>
    (\<exists>e. Ingest U' E' Es' delta' d2 = (d2, Inl e)) \<and> (\<forall>d e x. Ingest U' E' Es' delta' d = (x, Inl e) \<longrightarrow> x = d)"
proof -
  obtain evidence claims where in_ok: "\<forall>q \<in> set claims. input_ok q" "length claims = length (nd_claims delta)"
    and tx: "ingestTx U Es (clk E (length evidence)) (rnd E 0) (trim_space (nd_id delta)) (trim_space (nd_source delta)) evidence claims d = Inr (cs, d1)"
    using assms(2) by (rule Ingest_Inr)
  note keeps = ingestTx_keeps [OF tx assms(1) in_ok(1)]
  have le: "memory_le d1 d2" using memory_reach_le [OF assms(3)] keeps by blast
  have failed: "x = d" if "Ingest U' E' Es' delta' d = (x, Inl e)" for d x e
    using that by (auto simp: Ingest_def Let_def with_tx_Inl_iff split: if_splits sum.splits)
  have "\<exists>e. Ingest U' E' Es' delta' d2 = (d2, Inl e)"
  proof (cases "snd (Ingest U' E' Es' delta' d2)")
    case (Inl e)
    then show ?thesis using failed by (metis prod.collapse)
  next
    case (Inr cs')
    then obtain d3 where "Ingest U' E' Es' delta' d2 = (d3, Inr cs')" by (metis prod.collapse)
    then obtain evidence' claims' where "ingestTx U' Es' (clk E' (length evidence')) (rnd E' 0) (trim_space (nd_id delta'))
        (trim_space (nd_source delta')) evidence' claims' d2 = Inr (cs', d3)" by (rule Ingest_Inr)
    then have "trim_space (nd_id delta') \<notin> kd_id ` set (mt_deltas (db_memory d2))" by (rule ingestTx_Inr)
    moreover have "trim_space (nd_id delta') \<in> kd_id ` set (mt_deltas (db_memory d2))"
      using keeps le assms(4) unfolding memory_le_def by (metis (no_types, lifting) image_mono subsetD)
    ultimately show ?thesis by simp
  qed
  then show ?thesis using failed keeps in_ok(2) claim_ids_le [OF le] by auto
qed

lemma delta_is_ingested_once_witness:
  "\<exists>e. Ingest id (demo_memory_env 9) (\<lambda>i. demo_memory_env (10 + int i)) demo_delta (fst demo_ingested) = (fst demo_ingested, Inl e)"
proof -
  have "(case snd demo_ingested of Inl _ \<Rightarrow> False | Inr cs \<Rightarrow> length cs = 2)" by code_simp
  then obtain cs where "snd demo_ingested = Inr cs" by (auto split: sum.splits)
  then have "Ingest id (demo_memory_env 2) (\<lambda>i. demo_memory_env (3 + int i)) demo_delta empty_db = (fst demo_ingested, Inr cs)"
    by (simp add: demo_ingested_def prod_eq_iff)
  from delta_is_ingested_once [OF empty_memory_ok this rtranclp.rtrancl_refl refl] show ?thesis by blast
qed

subsection \<open>Where texts of times and new evidence change the picture\<close>

text \<open>
  The statements compare texts. A claim that ends within a second is not seen to meet one that begins at that second: no
  contradiction is recorded, though the periods share half a second.
\<close>

lemma contradiction_missed:
  "(let d = fst (AddClaim id (demo_memory_env 2) (demo_claim ''a'' ''blue'' (seconds 2) (seconds 4 + 500000000)) demo_noted);
        d = fst (AddClaim id (demo_memory_env 5) (demo_claim ''b'' ''red'' (seconds 4) 0) d)
    in (map cl_id (mt_claims (db_memory d)), Contradictions ''a'' d)) = ([''a'', ''b''], [])"
  by code_simp

text \<open>
  A repeated claim that cites evidence stored later takes the claim out of the beliefs of the time in between: what was believed at
  a time is not what \<open>BeliefsAt\<close> returns for it afterwards.
\<close>

definition demo_later_evidence :: db where
  "demo_later_evidence =
     (let d = fst (PutEvidence 0 (demo_source\<lparr>ei_ref := (ei_ref demo_source)\<lparr>er_id := ''e2'', er_created := seconds 20\<rparr>\<rparr>) demo_blue) in
      fst (AddClaim id (demo_memory_env 21) ((demo_claim ''c'' ''The sky is blue'' (seconds 2) 0)\<lparr>cn_evidence := [''e1'', ''e2'']\<rparr>) d))"

lemma beliefs_of_the_past_change:
  "(case BeliefsAt (seconds 3) demo_blue of Inl _ \<Rightarrow> [] | Inr cs \<Rightarrow> map cm_id cs) = [''a''] \<and> BeliefsAt (seconds 3) demo_later_evidence = Inr []"
proof
  show "(case BeliefsAt (seconds 3) demo_blue of Inl _ \<Rightarrow> [] | Inr cs \<Rightarrow> map cm_id cs) = [''a'']" by code_simp
  show "BeliefsAt (seconds 3) demo_later_evidence = Inr []" by code_simp
qed

end
