(* ===== verification/Observations.thy ===== *)
theory Observations
  imports Audit_Log Frames Times
begin

text \<open>
  Field observations (\<open>internal/fieldfeedback/observer.go\<close>, \<open>detectors.go\<close>): notes on how the runtime behaved, recorded by hand or by
  seven detectors that look for patterns in the tables. A detector names its finding by a key, and one observation is kept per key. The
  JSON of the metrics and SHA-256 in hexadecimal are arguments. Go iterates over a map in any order: that order is an argument too.
\<close>

subsection \<open>Recording\<close>

record ObservationInput =
  oi_task :: ID
  oi_attempt :: ID
  oi_operation :: ID
  oi_category :: string
  oi_basis :: string
  oi_source :: string
  oi_summary :: string
  oi_metrics :: "(string \<times> payload_value) list"
  oi_runtime :: string
  oi_executor :: string
  oi_executor_version :: string
  oi_enforcement :: enforcement_level
  oi_evidence :: "ID list"

record observer =
  ov_collective :: ID
  ov_json :: "(string \<times> payload_value) list \<Rightarrow> string"
  ov_sha :: "string \<Rightarrow> string"

definition NewObserver :: "ID \<Rightarrow> ((string \<times> payload_value) list \<Rightarrow> string) \<Rightarrow> (string \<Rightarrow> string) \<Rightarrow> observer" where
  "NewObserver collective json sha = \<lparr>ov_collective = trim_space collective, ov_json = json, ov_sha = sha\<rparr>"

definition observer_configured :: "observer \<Rightarrow> unit res" where
  "observer_configured V = requireE (ov_collective V \<noteq> []) (Err ''field observation service is not configured'')"

definition known_enforcement :: "enforcement_level \<Rightarrow> bool" where
  "known_enforcement l = (case l of EnforcementOther _ \<Rightarrow> False | _ \<Rightarrow> True)"

definition validateInput :: "ObservationInput \<Rightarrow> ObservationInput res" where
  "validateInput q =
     (let q = q\<lparr>oi_task := trim_space (oi_task q), oi_attempt := trim_space (oi_attempt q), oi_operation := trim_space (oi_operation q),
                oi_category := trim_space (oi_category q), oi_basis := trim_space (oi_basis q), oi_source := trim_space (oi_source q),
                oi_summary := trim_space (oi_summary q), oi_runtime := trim_space (oi_runtime q), oi_executor := trim_space (oi_executor q),
                oi_executor_version := trim_space (oi_executor_version q)\<rparr> in
      if oi_category q = [] \<or> oi_basis q = [] \<or> oi_source q = [] \<or> oi_summary q = []
      then Inl (Err ''observation category, basis class, source kind, and local summary are required'')
      else if \<not> known_enforcement (oi_enforcement q) then Inl (Err ''invalid observation enforcement'')
      else Inr (q\<lparr>oi_evidence := clean_ids (oi_evidence q)\<rparr>))"

text \<open>The references of an observation are completed and compared: operation, then attempt, then task, then evidence.\<close>

definition operation_reference :: "ObservationInput \<Rightarrow> db \<Rightarrow> ObservationInput res" where
  "operation_reference q d =
     (if oi_operation q = [] then Inr q
      else case find_by o_id (oi_operation q) (db_ops d) of
        None \<Rightarrow> Inl (Err ''operation not found'')
      | Some x \<Rightarrow>
          if oi_task q \<noteq> [] \<and> oi_task q \<noteq> o_task x then Inl (Err ''operation task does not match observation task'')
          else if oi_attempt q \<noteq> [] \<and> oi_attempt q \<noteq> o_attempt x then Inl (Err ''operation attempt does not match observation attempt'')
          else Inr (q\<lparr>oi_task := o_task x, oi_attempt := o_attempt x\<rparr>))"

definition attempt_reference :: "ObservationInput \<Rightarrow> db \<Rightarrow> ObservationInput res" where
  "attempt_reference q d =
     (if oi_attempt q = [] then Inr q
      else case find_by a_id (oi_attempt q) (db_attempts d) of
        None \<Rightarrow> Inl (Err ''attempt not found'')
      | Some a \<Rightarrow>
          if oi_task q \<noteq> [] \<and> oi_task q \<noteq> a_task a then Inl (Err ''attempt task does not match observation task'')
          else Inr (q\<lparr>oi_task := a_task a\<rparr>))"

definition validateReferencesTx :: "ObservationInput \<Rightarrow> db \<Rightarrow> ObservationInput res" where
  "validateReferencesTx q d =
     bindE (operation_reference q d) (\<lambda>q.
     bindE (attempt_reference q d) (\<lambda>q.
     bindE (requireE (oi_task q = [] \<or> exists_where (\<lambda>t. t_id t = oi_task q) (db_tasks d)) (Err ''task not found'')) (\<lambda>_.
     bindE (requireE (\<forall>e \<in> set (oi_evidence q). exists_where (\<lambda>r. evi_id r = e) (db_evidence d)) (Err ''evidence not found'')) (\<lambda>_.
     Inr q))))"

definition set_feedback :: "(feedback_tables \<Rightarrow> feedback_tables) \<Rightarrow> db \<Rightarrow> db" where
  "set_feedback f d = d\<lparr>db_feedback := f (db_feedback d)\<rparr>"

definition loadObservation :: "ID \<Rightarrow> db \<Rightarrow> observation_row res" where
  "loadObservation k d = (case find_by fo_id k (ft_observations (db_feedback d)) of None \<Rightarrow> Inl ErrNoRows | Some r \<Rightarrow> Inr r)"

definition loadObservationByDetectorKey :: "string \<Rightarrow> db \<Rightarrow> observation_row res" where
  "loadObservationByDetectorKey key d =
     (case find_by fo_detector (Some key) (ft_observations (db_feedback d)) of None \<Rightarrow> Inl ErrNoRows | Some r \<Rightarrow> loadObservation (fo_id r) d)"

definition insert_observation :: "observation_row \<Rightarrow> db \<Rightarrow> db res" where
  "insert_observation r d =
     (let rows = ft_observations (db_feedback d) in
      bindE (requireE (known_enforcement (fo_enforcement r)) (ErrConstraint ''CHECK'')) (\<lambda>_.
      bindE (requireE (\<not> exists_where (\<lambda>x. fo_id x = fo_id r \<or> fo_detector r \<noteq> None \<and> fo_detector x = fo_detector r) rows)
               (ErrConstraint ''UNIQUE'')) (\<lambda>_.
      Inr (set_feedback (\<lambda>t. t\<lparr>ft_observations := rows @ [r]\<rparr>) d))))"

definition insert_observation_links :: "ID \<Rightarrow> ID list \<Rightarrow> db \<Rightarrow> db res" where
  "insert_observation_links k evidence d =
     (let rows = ft_observation_evidence (db_feedback d); new = map (Pair k) evidence in
      bindE (requireE (distinct new \<and> set new \<inter> set rows = {}) (ErrConstraint ''UNIQUE'')) (\<lambda>_.
      Inr (set_feedback (\<lambda>t. t\<lparr>ft_observation_evidence := rows @ new\<rparr>) d)))"

definition observation_of :: "observer \<Rightarrow> env \<Rightarrow> string \<Rightarrow> ObservationInput \<Rightarrow> observation_row" where
  "observation_of V E key q =
     \<lparr>fo_id = NewID ''observation'' (rnd E 0), fo_collective = ov_collective V, fo_task = oi_task q, fo_attempt = oi_attempt q,
      fo_operation = oi_operation q, fo_detector = (if key = [] then None else Some key), fo_category = oi_category q, fo_basis = oi_basis q,
      fo_source = oi_source q, fo_summary = oi_summary q, fo_metrics = ov_json V (oi_metrics q), fo_runtime = oi_runtime q,
      fo_executor = oi_executor q, fo_executor_version = oi_executor_version q, fo_enforcement = oi_enforcement q, fo_created = clk E 0\<rparr>"

definition observation_event :: "observer \<Rightarrow> env \<Rightarrow> observation_row \<Rightarrow> audit_event_row" where
  "observation_event V E r =
     \<lparr>ax_id = NewID ''audit'' (rnd E 1), ax_kind = ''FIELD_OBSERVATION_RECORDED'', ax_actor = ov_collective V, ax_subject = fo_id r,
      ax_payload = [(''observation_id'', Text (fo_id r)), (''category'', Text (fo_category r)), (''task_id'', Text (fo_task r)),
        (''attempt_id'', Text (fo_attempt r)), (''operation_id'', Text (fo_operation r)), (''source_kind'', Text (fo_source r))],
      ax_created = clk E 0\<rparr>"

definition store_observation :: "observer \<Rightarrow> env \<Rightarrow> string \<Rightarrow> ObservationInput \<Rightarrow> db \<Rightarrow> (observation_row \<times> db) res" where
  "store_observation V E key q d =
     (let r = observation_of V E key q in
      case insert_observation r d of
        Inl e \<Rightarrow>
          (if key \<noteq> [] \<and> e = ErrConstraint ''UNIQUE''
           then (case loadObservationByDetectorKey key d of Inr x \<Rightarrow> Inr (x, d) | Inl _ \<Rightarrow> Inl e)
           else Inl e)
      | Inr d \<Rightarrow>
          bindE (insert_observation_links (fo_id r) (oi_evidence q) d) (\<lambda>d.
          bindE (insert_audit_event (observation_event V E r) d) (\<lambda>d. Inr (r, d))))"

definition recordTx :: "observer \<Rightarrow> env \<Rightarrow> string \<Rightarrow> ObservationInput \<Rightarrow> db \<Rightarrow> (observation_row \<times> db) res" where
  "recordTx V E key q d =
     (let existing = (if key = [] then Inl ErrNoRows else loadObservationByDetectorKey key d) in
      case existing of
        Inr x \<Rightarrow> Inr (x, d)
      | Inl e \<Rightarrow>
          if e \<noteq> ErrNoRows then Inl e
          else bindE (validateReferencesTx q d) (\<lambda>q. store_observation V E key q d))"

definition recordWithDetectorKey :: "observer \<Rightarrow> env \<Rightarrow> ObservationInput \<Rightarrow> string \<Rightarrow> db \<Rightarrow> db \<times> observation_row res" where
  "recordWithDetectorKey V E q key d =
     (case bindE (observer_configured V) (\<lambda>_. validateInput q) of
        Inl e \<Rightarrow> (d, Inl e)
      | Inr q \<Rightarrow> with_tx (recordTx V E (trim_space key) q) d)"

definition Record_observation :: "observer \<Rightarrow> env \<Rightarrow> ObservationInput \<Rightarrow> db \<Rightarrow> db \<times> observation_row res" where
  "Record_observation V E q d = recordWithDetectorKey V E q [] d"

definition Observation :: "observer \<Rightarrow> ID \<Rightarrow> db \<Rightarrow> observation_row res" where
  "Observation V k d =
     bindE (observer_configured V) (\<lambda>_.
     let k = trim_space k in
     if k = [] then Inl (Err ''observation id is required'') else loadObservation k d)"

fun all_results :: "'a res list \<Rightarrow> 'a list res" where
  "all_results [] = Inr []"
| "all_results (m # ms) = bindE m (\<lambda>x. bindE (all_results ms) (\<lambda>xs. Inr (x # xs)))"

definition ForTask :: "observer \<Rightarrow> ID \<Rightarrow> db \<Rightarrow> observation_row list res" where
  "ForTask V k d =
     bindE (observer_configured V) (\<lambda>_.
     let k = trim_space k in
     if k = [] then Inl (Err ''task id is required'')
     else all_results (map (\<lambda>r. Observation V (fo_id r) d)
            (sort_key (\<lambda>r. (formatTime (fo_created r), fo_id r)) (filter (\<lambda>r. fo_task r = k) (ft_observations (db_feedback d))))))"

subsection \<open>What recording leaves\<close>

definition row_refers :: "db \<Rightarrow> observation_row \<Rightarrow> bool" where
  "row_refers d r \<longleftrightarrow> (fo_task r \<noteq> [] \<longrightarrow> fo_task r \<in> t_id ` set (db_tasks d)) \<and>
     (fo_attempt r \<noteq> [] \<longrightarrow> (\<exists>a \<in> set (db_attempts d). a_id a = fo_attempt r \<and> a_task a = fo_task r)) \<and>
     (fo_operation r \<noteq> [] \<longrightarrow> (\<exists>x \<in> set (db_ops d). o_id x = fo_operation r \<and> o_attempt x = fo_attempt r))"

definition observations_ok :: "db \<Rightarrow> bool" where
  "observations_ok d \<longleftrightarrow> distinct (map fo_id (ft_observations (db_feedback d))) \<and>
     distinct (filter (\<lambda>k. k \<noteq> None) (map fo_detector (ft_observations (db_feedback d)))) \<and>
     (\<forall>r \<in> set (ft_observations (db_feedback d)). row_refers d r) \<and>
     (\<forall>l \<in> set (ft_observation_evidence (db_feedback d)). fst l \<in> fo_id ` set (ft_observations (db_feedback d)) \<and>
        snd l \<in> evi_id ` set (db_evidence d))"

text \<open>A record touches two tables of the feedback and the audit log, and nothing else.\<close>

definition noted :: "db \<Rightarrow> db \<Rightarrow> bool" where
  "noted d d' \<longleftrightarrow> (\<exists>obs links audit. d' = set_audit audit (set_feedback (\<lambda>t. t\<lparr>ft_observations := ft_observations t @ obs,
     ft_observation_evidence := ft_observation_evidence t @ links\<rparr>) d))"

lemma set_feedback_sel [simp]:
  "db_feedback (set_feedback f d) = f (db_feedback d)" "db_tasks (set_feedback f d) = db_tasks d" "db_attempts (set_feedback f d) = db_attempts d"
  "db_ops (set_feedback f d) = db_ops d" "db_evidence (set_feedback f d) = db_evidence d" "db_audit (set_feedback f d) = db_audit d"
  "db_envelopes (set_feedback f d) = db_envelopes d" "db_reservations (set_feedback f d) = db_reservations d"
  "db_approvals (set_feedback f d) = db_approvals d" "db_decisions (set_feedback f d) = db_decisions d"
  by (simp_all add: set_feedback_def)

lemma set_audit_sel [simp]:
  "db_feedback (set_audit a d) = db_feedback d" "db_tasks (set_audit a d) = db_tasks d" "db_attempts (set_audit a d) = db_attempts d"
  "db_ops (set_audit a d) = db_ops d" "db_evidence (set_audit a d) = db_evidence d" "db_audit (set_audit a d) = a"
  by (simp_all add: set_audit_def)

lemma noted_refl [simp]: "noted d d"
  unfolding noted_def by (rule exI [of _ "[]"], rule exI [of _ "[]"], rule exI [of _ "db_audit d"]) (simp add: set_audit_def set_feedback_def)

lemma noted_trans:
  assumes "noted d e" and "noted e f"
  shows "noted d f"
proof -
  obtain obs links audit obs' links' audit'
    where "e = set_audit audit (set_feedback (\<lambda>t. t\<lparr>ft_observations := ft_observations t @ obs,
        ft_observation_evidence := ft_observation_evidence t @ links\<rparr>) d)"
      "f = set_audit audit' (set_feedback (\<lambda>t. t\<lparr>ft_observations := ft_observations t @ obs',
        ft_observation_evidence := ft_observation_evidence t @ links'\<rparr>) e)"
    using assms unfolding noted_def by blast
  then have "f = set_audit audit' (set_feedback (\<lambda>t. t\<lparr>ft_observations := ft_observations t @ (obs @ obs'),
        ft_observation_evidence := ft_observation_evidence t @ (links @ links')\<rparr>) d)"
    by (simp add: set_audit_def set_feedback_def)
  then show ?thesis unfolding noted_def by blast
qed

lemma notedD:
  assumes "noted d d'"
  shows "db_tasks d' = db_tasks d" "db_attempts d' = db_attempts d" "db_ops d' = db_ops d" "db_evidence d' = db_evidence d"
    "db_failures d' = db_failures d" "db_events d' = db_events d" "db_challenges d' = db_challenges d"
    "db_acceptances d' = db_acceptances d" "db_experience d' = db_experience d"
    "set (ft_observations (db_feedback d)) \<subseteq> set (ft_observations (db_feedback d'))"
    "ft_candidates (db_feedback d') = ft_candidates (db_feedback d)" "ft_results (db_feedback d') = ft_results (db_feedback d)"
    "ft_sanitized (db_feedback d') = ft_sanitized (db_feedback d)" "ft_emissions (db_feedback d') = ft_emissions (db_feedback d)"
    "ft_candidate_observations (db_feedback d') = ft_candidate_observations (db_feedback d)"
  using assms by (auto simp: noted_def set_audit_def set_feedback_def)

lemma insert_observation_Inr: "insert_observation r d = Inr d' \<longleftrightarrow> known_enforcement (fo_enforcement r) \<and>
    fo_id r \<notin> fo_id ` set (ft_observations (db_feedback d)) \<and>
    (fo_detector r = None \<or> fo_detector r \<notin> fo_detector ` set (ft_observations (db_feedback d))) \<and>
    d' = set_feedback (\<lambda>t. t\<lparr>ft_observations := ft_observations (db_feedback d) @ [r]\<rparr>) d"
  by (auto simp: insert_observation_def Let_def bind_simps exists_where_iff image_iff)

lemma same_key_same_row:
  "distinct (filter (\<lambda>k. k \<noteq> None) (map f rows)) \<Longrightarrow> x \<in> set rows \<Longrightarrow> y \<in> set rows \<Longrightarrow> f x = f y \<Longrightarrow> f x \<noteq> None \<Longrightarrow> x = y"
proof (induction rows)
  case (Cons r rows)
  have out: "f r \<noteq> None \<Longrightarrow> z \<in> set rows \<Longrightarrow> f z \<noteq> f r" for z
    using Cons.prems(1) by (auto simp: image_iff)
  have "distinct (filter (\<lambda>k. k \<noteq> None) (map f rows))" using Cons.prems(1) by (auto split: if_splits)
  from Cons.IH [OF this] Cons.prems(2-5) out show ?case by (metis set_ConsD)
qed simp

lemma detector_row:
  assumes "observations_ok d" and "r \<in> set (ft_observations (db_feedback d))" and "fo_detector r = Some key"
  shows "loadObservationByDetectorKey key d = Inr r"
proof -
  let ?rows = "ft_observations (db_feedback d)"
  obtain x where x: "find_by fo_detector (Some key) ?rows = Some x"
    using assms(2,3) find_by_None_iff [of fo_detector "Some key" ?rows] by (cases "find_by fo_detector (Some key) ?rows") force+
  have "x \<in> set ?rows" "fo_detector x = Some key" using find_by_SomeD [OF x] by simp_all
  moreover have "distinct (filter (\<lambda>k. k \<noteq> None) (map fo_detector ?rows))" using assms(1) by (simp add: observations_ok_def)
  ultimately have "x = r" using same_key_same_row assms(2,3) by (metis option.distinct(1))
  moreover have "find_by fo_id (fo_id r) ?rows = Some r"
    using assms(1,2) by (simp add: observations_ok_def find_by_member)
  ultimately show ?thesis using x by (simp add: loadObservationByDetectorKey_def loadObservation_def)
qed

lemma loadObservationByDetectorKey_Inr:
  assumes "loadObservationByDetectorKey key d = Inr r" and "observations_ok d"
  shows "r \<in> set (ft_observations (db_feedback d)) \<and> fo_detector r = Some key"
proof -
  let ?rows = "ft_observations (db_feedback d)"
  obtain x where x: "find_by fo_detector (Some key) ?rows = Some x" and r: "find_by fo_id (fo_id x) ?rows = Some r"
    using assms(1) by (auto simp: loadObservationByDetectorKey_def loadObservation_def split: option.splits)
  then have "x \<in> set ?rows" "fo_detector x = Some key" by (auto dest: find_by_SomeD)
  moreover from this have "find_by fo_id (fo_id x) ?rows = Some x" using assms(2) by (simp add: observations_ok_def find_by_member)
  ultimately show ?thesis using r by simp
qed

lemma validateReferencesTx_Inr:
  assumes "validateReferencesTx q d = Inr p"
  shows "(oi_task p \<noteq> [] \<longrightarrow> oi_task p \<in> t_id ` set (db_tasks d)) \<and>
    (oi_attempt p \<noteq> [] \<longrightarrow> (\<exists>a \<in> set (db_attempts d). a_id a = oi_attempt p \<and> a_task a = oi_task p)) \<and>
    (oi_operation p \<noteq> [] \<longrightarrow> (\<exists>x \<in> set (db_ops d). o_id x = oi_operation p \<and> o_attempt x = oi_attempt p)) \<and>
    set (oi_evidence p) \<subseteq> evi_id ` set (db_evidence d) \<and> oi_evidence p = oi_evidence q"
proof -
  obtain u where u: "operation_reference q d = Inr u" and v: "attempt_reference u d = Inr p"
    and t: "oi_task p = [] \<or> exists_where (\<lambda>t. t_id t = oi_task p) (db_tasks d)"
    and e: "\<forall>e \<in> set (oi_evidence p). exists_where (\<lambda>r. evi_id r = e) (db_evidence d)"
    using assms by (auto simp: validateReferencesTx_def bind_simps)
  have "(oi_operation u \<noteq> [] \<longrightarrow> (\<exists>x \<in> set (db_ops d). o_id x = oi_operation u \<and> o_attempt x = oi_attempt u)) \<and>
      oi_evidence u = oi_evidence q"
    using u by (auto simp: operation_reference_def dest!: find_by_SomeD split: if_splits option.splits)
  moreover have "(oi_attempt p \<noteq> [] \<longrightarrow> (\<exists>a \<in> set (db_attempts d). a_id a = oi_attempt p \<and> a_task a = oi_task p)) \<and>
      oi_operation p = oi_operation u \<and> oi_attempt p = oi_attempt u \<and> oi_evidence p = oi_evidence u"
    using v by (auto simp: attempt_reference_def dest!: find_by_SomeD split: if_splits option.splits)
  moreover have "oi_task p \<noteq> [] \<longrightarrow> oi_task p \<in> t_id ` set (db_tasks d)" using t by (force simp: exists_where_iff)
  moreover have "set (oi_evidence p) \<subseteq> evi_id ` set (db_evidence d)" using e by (force simp: exists_where_iff)
  ultimately show ?thesis by metis
qed

lemma observation_of_sel [simp]:
  "fo_id (observation_of V E key q) = NewID ''observation'' (rnd E 0)" "fo_task (observation_of V E key q) = oi_task q"
  "fo_attempt (observation_of V E key q) = oi_attempt q" "fo_operation (observation_of V E key q) = oi_operation q"
  "fo_detector (observation_of V E key q) = (if key = [] then None else Some key)"
  by (simp_all add: observation_of_def)

lemma insert_audit_event_noted: "insert_audit_event r d = Inr d' \<Longrightarrow> \<exists>a. d' = set_audit a d"
  by (auto simp: insert_audit_event_def Let_def bind_simps)

lemma row_refers_set_audit [simp]: "row_refers (set_audit a d) r \<longleftrightarrow> row_refers d r"
  by (simp add: row_refers_def)

lemma observations_ok_set_audit [simp]: "observations_ok (set_audit a d) \<longleftrightarrow> observations_ok d"
  by (simp add: observations_ok_def)

lemma row_refers_set_feedback [simp]: "row_refers (set_feedback f d) r \<longleftrightarrow> row_refers d r"
  by (simp add: row_refers_def)

lemma store_observation_new:
  assumes ok: "observations_ok d" and refers: "row_refers d (observation_of V E key q)"
    and evidence: "set (oi_evidence q) \<subseteq> evi_id ` set (db_evidence d)"
    and ins: "insert_observation (observation_of V E key q) d = Inr d1"
    and run: "store_observation V E key q d = Inr (r, d')"
  shows "observations_ok d' \<and> noted d d' \<and> r = observation_of V E key q \<and> r \<in> set (ft_observations (db_feedback d'))"
proof -
  let ?r = "observation_of V E key q" and ?links = "map (Pair (NewID ''observation'' (rnd E 0))) (oi_evidence q)"
  have fresh: "fo_id ?r \<notin> fo_id ` set (ft_observations (db_feedback d))"
      "fo_detector ?r = None \<or> fo_detector ?r \<notin> fo_detector ` set (ft_observations (db_feedback d))"
    and d1: "d1 = set_feedback (\<lambda>t. t\<lparr>ft_observations := ft_observations (db_feedback d) @ [?r]\<rparr>) d"
    using ins unfolding insert_observation_Inr by auto
  obtain d2 where links: "insert_observation_links (fo_id ?r) (oi_evidence q) d1 = Inr d2"
    and audit: "insert_audit_event (observation_event V E ?r) d2 = Inr d'" and r: "r = ?r"
    using run unfolding store_observation_def Let_def ins by (auto elim!: bindE_InrE)
  have "d2 = set_feedback (\<lambda>t. t\<lparr>ft_observation_evidence := ft_observation_evidence (db_feedback d) @ ?links\<rparr>) d1"
    using links by (auto simp: insert_observation_links_def Let_def bind_simps d1)
  then have d2: "d2 = set_feedback (\<lambda>t. t\<lparr>ft_observations := ft_observations t @ [?r], ft_observation_evidence := ft_observation_evidence t @ ?links\<rparr>) d"
    by (simp add: d1 set_feedback_def)
  obtain a where d': "d' = set_audit a d2" using insert_audit_event_noted [OF audit] ..
  have "noted d d'" unfolding noted_def d' d2 by blast
  moreover have "observations_ok d'"
    using ok refers evidence fresh unfolding d' d2 by (auto simp: observations_ok_def)
  moreover have "?r \<in> set (ft_observations (db_feedback d'))" by (simp add: d' d2)
  ultimately show ?thesis unfolding r by simp
qed

lemma recordTx_ok:
  assumes ok: "observations_ok d" and run: "recordTx V E key q d = Inr (r, d')"
  shows "observations_ok d' \<and> noted d d' \<and> r \<in> set (ft_observations (db_feedback d')) \<and> (key \<noteq> [] \<longrightarrow> fo_detector r = Some key)"
proof -
  have known: ?thesis if "loadObservationByDetectorKey key d = Inr r" "d' = d"
    using loadObservationByDetectorKey_Inr [OF that(1) ok] ok that(2) by simp
  show ?thesis
  proof (cases "if key = [] then Inl ErrNoRows else loadObservationByDetectorKey key d")
    case (Inr x)
    then have "loadObservationByDetectorKey key d = Inr x" by (simp split: if_splits)
    moreover have "r = x \<and> d' = d" using run Inr unfolding recordTx_def Let_def by simp
    ultimately show ?thesis using known by simp
  next
    case (Inl e)
    with run obtain p where p: "validateReferencesTx q d = Inr p" and s: "store_observation V E key p d = Inr (r, d')"
      unfolding recordTx_def Let_def by (auto split: if_splits elim!: bindE_InrE)
    show ?thesis
    proof (cases "insert_observation (observation_of V E key p) d")
      case (Inl e)
      then have "loadObservationByDetectorKey key d = Inr r \<and> d' = d"
        using s unfolding store_observation_def Let_def by (simp split: if_splits sum.splits)
      with known show ?thesis by simp
    next
      case (Inr d1)
      have "row_refers d (observation_of V E key p)" using validateReferencesTx_Inr [OF p] by (simp add: row_refers_def)
      from store_observation_new [OF ok this _ Inr s] validateReferencesTx_Inr [OF p]
      have "observations_ok d' \<and> noted d d' \<and> r = observation_of V E key p \<and> r \<in> set (ft_observations (db_feedback d'))" by metis
      then show ?thesis by auto
    qed
  qed
qed

lemma recordWithDetectorKey_ok:
  assumes "observations_ok d"
  shows "observations_ok (fst (recordWithDetectorKey V E q key d)) \<and> noted d (fst (recordWithDetectorKey V E q key d))"
proof (cases "bindE (observer_configured V) (\<lambda>_. validateInput q)")
  case (Inr p)
  have "observations_ok (fst (with_tx (recordTx V E (trim_space key) p) d)) \<and> noted d (fst (with_tx (recordTx V E (trim_space key) p) d))"
    using recordTx_ok [OF assms] assms by (cases "recordTx V E (trim_space key) p d") (auto simp: with_tx_def)
  with Inr show ?thesis by (simp add: recordWithDetectorKey_def)
qed (simp add: recordWithDetectorKey_def assms)

text \<open>Other services keep the rows that an observation may refer to, and the task of an attempt and the attempt of an operation.\<close>

definition keeps_references :: "db \<Rightarrow> db \<Rightarrow> bool" where
  "keeps_references d d' \<longleftrightarrow> ft_observations (db_feedback d') = ft_observations (db_feedback d) \<and>
     ft_observation_evidence (db_feedback d') = ft_observation_evidence (db_feedback d) \<and>
     t_id ` set (db_tasks d) \<subseteq> t_id ` set (db_tasks d') \<and>
     (\<lambda>a. (a_id a, a_task a)) ` set (db_attempts d) \<subseteq> (\<lambda>a. (a_id a, a_task a)) ` set (db_attempts d') \<and>
     (\<lambda>x. (o_id x, o_attempt x)) ` set (db_ops d) \<subseteq> (\<lambda>x. (o_id x, o_attempt x)) ` set (db_ops d') \<and>
     evi_id ` set (db_evidence d) \<subseteq> evi_id ` set (db_evidence d')"

lemma row_refers_iff: "row_refers d r \<longleftrightarrow> (fo_task r \<noteq> [] \<longrightarrow> fo_task r \<in> t_id ` set (db_tasks d)) \<and>
     (fo_attempt r \<noteq> [] \<longrightarrow> (fo_attempt r, fo_task r) \<in> (\<lambda>a. (a_id a, a_task a)) ` set (db_attempts d)) \<and>
     (fo_operation r \<noteq> [] \<longrightarrow> (fo_operation r, fo_attempt r) \<in> (\<lambda>x. (o_id x, o_attempt x)) ` set (db_ops d))"
proof -
  have "u \<in> (\<lambda>a. (a_id a, a_task a)) ` A \<longleftrightarrow> (\<exists>a \<in> A. a_id a = fst u \<and> a_task a = snd u)"
      "v \<in> (\<lambda>x. (o_id x, o_attempt x)) ` X \<longleftrightarrow> (\<exists>x \<in> X. o_id x = fst v \<and> o_attempt x = snd v)" for u v and A :: "attempt set" and X :: "operation set" by force+
  then show ?thesis unfolding row_refers_def by simp
qed

lemma keeps_references_ok: "observations_ok d \<Longrightarrow> keeps_references d d' \<Longrightarrow> observations_ok d'"
  unfolding observations_ok_def keeps_references_def row_refers_iff by (simp add: subset_iff)

inductive observation_step :: "db \<Rightarrow> db \<Rightarrow> bool" where
  recorded: "observation_step d (fst (recordWithDetectorKey V E q key d))"
| elsewhere: "keeps_references d d' \<Longrightarrow> observation_step d d'"

lemma observation_step_ok: "observation_step d d' \<Longrightarrow> observations_ok d \<Longrightarrow> observations_ok d'"
  by (induction rule: observation_step.induct) (auto simp: recordWithDetectorKey_ok intro: keeps_references_ok)

interpretation observing: kept_invariant observation_step observations_ok
  by unfold_locales (rule observation_step_ok)

text \<open>
  C37. Observations refer to what exists: in every database the observation service and the other services can reach, each observation
  names only stored tasks, attempts and operations, its attempt belongs to its task and its operation to its attempt, the evidence it is
  linked with is stored, no link is without its observation, and no two observations carry one detector key.
\<close>

theorem observations_refer_to_what_exists:
  assumes "observation_step\<^sup>*\<^sup>* d0 d" and "observations_ok d0" and "r \<in> set (ft_observations (db_feedback d))"
  shows "(fo_task r \<noteq> [] \<longrightarrow> fo_task r \<in> t_id ` set (db_tasks d)) \<and>
    (fo_attempt r \<noteq> [] \<longrightarrow> (\<exists>a \<in> set (db_attempts d). a_id a = fo_attempt r \<and> a_task a = fo_task r)) \<and>
    (fo_operation r \<noteq> [] \<longrightarrow> (\<exists>x \<in> set (db_ops d). o_id x = fo_operation r \<and> o_attempt x = fo_attempt r)) \<and>
    (\<forall>e. (fo_id r, e) \<in> set (ft_observation_evidence (db_feedback d)) \<longrightarrow> e \<in> evi_id ` set (db_evidence d)) \<and>
    (\<forall>l \<in> set (ft_observation_evidence (db_feedback d)). fst l \<in> fo_id ` set (ft_observations (db_feedback d))) \<and>
    (\<forall>r' \<in> set (ft_observations (db_feedback d)). fo_detector r' = fo_detector r \<and> fo_detector r \<noteq> None \<longrightarrow> r' = r)"
proof -
  have ok: "observations_ok d" using assms(1,2) by (rule observing.reach_inv)
  then have keys: "distinct (filter (\<lambda>k. k \<noteq> None) (map fo_detector (ft_observations (db_feedback d))))" and "row_refers d r"
    and links: "\<forall>l \<in> set (ft_observation_evidence (db_feedback d)). fst l \<in> fo_id ` set (ft_observations (db_feedback d)) \<and>
        snd l \<in> evi_id ` set (db_evidence d)"
    using assms(3) by (simp_all add: observations_ok_def)
  moreover have "\<forall>r' \<in> set (ft_observations (db_feedback d)). fo_detector r' = fo_detector r \<and> fo_detector r \<noteq> None \<longrightarrow> r' = r"
    using same_key_same_row [OF keys _ assms(3)] by auto
  moreover have "\<forall>e. (fo_id r, e) \<in> set (ft_observation_evidence (db_feedback d)) \<longrightarrow> e \<in> evi_id ` set (db_evidence d)"
    "\<forall>l \<in> set (ft_observation_evidence (db_feedback d)). fst l \<in> fo_id ` set (ft_observations (db_feedback d))"
    using links by fastforce+
  ultimately show ?thesis unfolding row_refers_def by blast
qed

text \<open>A task with a failed attempt and a note on it.\<close>

definition demo_noted_task :: task where
  "demo_noted_task = \<lparr>t_id = ''task_1'', t_parent = [], t_purpose = \<lparr>pr_kind = PurposeMission, pr_id = ''m''\<rparr>, t_class = ''team.review'',
     t_objective = ''o'', t_payload = [], t_idem_key = [], t_state = TaskEligible, t_attempt = None, t_fence = 1,
     t_criteria = [''c''], t_capabilities = [], t_enforcement = EnforcementPartial, t_authority = [], t_envelope = ''e'',
     t_priority = 0, t_earliest = 0, t_deadline = 0, t_created = 1, t_updated = 1, t_request_hash = []\<rparr>"

definition demo_noted_attempt :: attempt where
  "demo_noted_attempt = \<lparr>a_id = ''attempt_1'', a_task = ''task_1'', a_state = AttemptFailed, a_fence = 1, a_lease = LeaseRevoked,
     a_expires = 9, a_executor = ''codex'', a_started = 1, a_completed = Some 2\<rparr>"

definition demo_noted_world :: db where
  "demo_noted_world = empty_db\<lparr>db_tasks := [demo_noted_task], db_attempts := [demo_noted_attempt], db_evidence :=
     [\<lparr>evi_id = ''e1'', evi_hash = ''h'', evi_media = ''text/plain'', evi_kind = ''log'', evi_size = 1, evi_created = 1\<rparr>]\<rparr>"

definition demo_observer :: observer where
  "demo_observer = NewObserver ''collective_1'' (\<lambda>_. ''{}'') (\<lambda>s. ''sha:'' @ s)"

definition demo_note :: ObservationInput where
  "demo_note = \<lparr>oi_task = [], oi_attempt = ''attempt_1'', oi_operation = [], oi_category = ''SLOW '', oi_basis = ''OPERATOR'',
     oi_source = ''MANUAL'', oi_summary = ''slow start'', oi_metrics = [], oi_runtime = [], oi_executor = ''codex'',
     oi_executor_version = [], oi_enforcement = EnforcementPartial, oi_evidence = [''e1'']\<rparr>"

definition demo_note_clock :: "string \<Rightarrow> env" where
  "demo_note_clock s = \<lparr>clk = (\<lambda>_. 5), rnd = (\<lambda>n. s @ (if n = 0 then ''a'' else ''b''))\<rparr>"

definition demo_recorded :: db where
  "demo_recorded = fst (recordWithDetectorKey demo_observer (demo_note_clock ''1'') demo_note ''slow'' demo_noted_world)"

theorem observations_refer_to_what_exists_witness:
  "\<exists>r \<in> set (ft_observations (db_feedback demo_recorded)). fo_task r = ''task_1'' \<and> fo_task r \<in> t_id ` set (db_tasks demo_recorded) \<and>
     (fo_id r, ''e1'') \<in> set (ft_observation_evidence (db_feedback demo_recorded)) \<and> ''e1'' \<in> evi_id ` set (db_evidence demo_recorded)"
proof -
  have start: "observations_ok demo_noted_world" by code_simp
  have run: "observation_step\<^sup>*\<^sup>* demo_noted_world demo_recorded"
    unfolding demo_recorded_def by (rule r_into_rtranclp, rule observation_step.recorded)
  have "(case ft_observations (db_feedback demo_recorded) of [r] \<Rightarrow> fo_task r = ''task_1'' \<and> fo_category r = ''SLOW'' \<and>
      (fo_id r, ''e1'') \<in> set (ft_observation_evidence (db_feedback demo_recorded)) | _ \<Rightarrow> False)"
    by code_simp
  then obtain r where r: "r \<in> set (ft_observations (db_feedback demo_recorded))" "fo_task r = ''task_1''"
    "(fo_id r, ''e1'') \<in> set (ft_observation_evidence (db_feedback demo_recorded))"
    by (auto split: list.splits)
  from observations_refer_to_what_exists [OF run start r(1)] r show ?thesis by (intro bexI [OF _ r(1)]) auto
qed

end
