(* ===== verification/Detectors.thy ===== *)
theory Detectors
  imports Observations
begin

text \<open>
  The seven detectors of \<open>internal/fieldfeedback/detectors.go\<close>. Each reads the canonical tables and returns candidates; \<open>Detect\<close> runs
  them in turn and records what they found, one transaction per observation.
\<close>

subsection \<open>What a detector finds\<close>

type_synonym detector_candidate = "string \<times> ObservationInput"

definition blank_input :: ObservationInput where
  "blank_input = \<lparr>oi_task = [], oi_attempt = [], oi_operation = [], oi_category = [], oi_basis = [], oi_source = [], oi_summary = [],
     oi_metrics = [], oi_runtime = [], oi_executor = [], oi_executor_version = [], oi_enforcement = EnforcementOther [], oi_evidence = []\<rparr>"

text \<open>The levels are loaded once, for the task that is asked for or for all of them.\<close>

definition wanted :: "ID \<Rightarrow> ID \<Rightarrow> bool" where
  "wanted filter_task k \<longleftrightarrow> filter_task = [] \<or> k = filter_task"

definition taskEnforcement :: "ID \<Rightarrow> db \<Rightarrow> ID \<Rightarrow> enforcement_level res" where
  "taskEnforcement filter_task d k =
     (case find_by t_id k (filter (\<lambda>t. wanted filter_task (t_id t)) (db_tasks d)) of
        None \<Rightarrow> Inl (Err ''task has no enforcement level'')
      | Some t \<Rightarrow> Inr (t_enforcement t))"

definition with_level :: "ID \<Rightarrow> db \<Rightarrow> ID \<Rightarrow> (enforcement_level \<Rightarrow> detector_candidate) \<Rightarrow> detector_candidate res" where
  "with_level filter_task d k candidate = bindE (taskEnforcement filter_task d k) (\<lambda>level. Inr (candidate level))"

definition bar :: string where
  "bar = ''|''"

subsection \<open>Repeated failures\<close>

record failure_group =
  fg_task :: ID
  fg_attempt :: ID
  fg_signature :: string
  fg_count :: int
  fg_evidence :: "ID list"

definition nul :: string where
  "nul = [CHR 0x00]"

definition failure_key :: "failure_row \<Rightarrow> string" where
  "failure_key f = f_task f @ nul @ f_signature f"

fun add_failure :: "failure_row \<Rightarrow> (string \<times> failure_group) list \<Rightarrow> (string \<times> failure_group) list" where
  "add_failure f [] =
     [(failure_key f, \<lparr>fg_task = f_task f, fg_attempt = f_attempt f, fg_signature = f_signature f, fg_count = 1, fg_evidence = clean_ids (f_evidence f)\<rparr>)]"
| "add_failure f ((k, g) # gs) =
     (if k = failure_key f
      then (k, g\<lparr>fg_attempt := f_attempt f, fg_count := fg_count g + 1, fg_evidence := fg_evidence g @ clean_ids (f_evidence f)\<rparr>) # gs
      else (k, g) # add_failure f gs)"

definition failure_groups :: "ID \<Rightarrow> db \<Rightarrow> failure_group list" where
  "failure_groups filter_task d =
     map snd (fold add_failure
       (sort_key (\<lambda>f. (f_task f, f_signature f, formatTime (f_at f), f_id f)) (filter (\<lambda>f. wanted filter_task (f_task f)) (db_failures d))) [])"

definition repeated_failure :: "observer \<Rightarrow> failure_group \<Rightarrow> enforcement_level \<Rightarrow> detector_candidate" where
  "repeated_failure V g level =
     (''repeated-attempt-failure|'' @ fg_task g @ bar @ ov_sha V (fg_signature g),
      blank_input\<lparr>oi_task := fg_task g, oi_attempt := fg_attempt g, oi_category := ''REPEATED_ATTEMPT_FAILURE'',
        oi_basis := ''DETERMINISTIC_RUNTIME_PATTERN'', oi_source := ''ATTEMPT_FAILURES'',
        oi_summary := ''Attempt failure signature repeated '' @ decimal (fg_count g) @ '' times: '' @ fg_signature g,
        oi_metrics := [(''failure_count'', Number (fg_count g))], oi_enforcement := level, oi_evidence := clean_ids (fg_evidence g)\<rparr>)"

text \<open>The groups are visited in the order of the Go map, which \<open>visit\<close> gives.\<close>

definition detectRepeatedFailures ::
  "observer \<Rightarrow> (failure_group list \<Rightarrow> failure_group list) \<Rightarrow> ID \<Rightarrow> db \<Rightarrow> detector_candidate list res" where
  "detectRepeatedFailures V visit filter_task d =
     all_results (map (\<lambda>g. with_level filter_task d (fg_task g) (repeated_failure V g))
       (filter (\<lambda>g. \<not> fg_count g < 2) (visit (failure_groups filter_task d))))"

subsection \<open>Recovered attempts\<close>

definition next_fence :: "attempt list \<Rightarrow> attempt \<Rightarrow> int option" where
  "next_fence attempts old =
     (case sort (map a_fence (filter (\<lambda>n. a_task n = a_task old \<and> a_fence n > a_fence old) attempts)) of [] \<Rightarrow> None | m # _ \<Rightarrow> Some m)"

definition recovered_pairs :: "ID \<Rightarrow> db \<Rightarrow> (attempt \<times> attempt) list" where
  "recovered_pairs filter_task d =
     sort_key (\<lambda>(old, n). (a_task old, a_fence old))
       (concat (map (\<lambda>old. map (Pair old) (filter (\<lambda>n. a_task n = a_task old \<and> next_fence (db_attempts d) old = Some (a_fence n)) (db_attempts d)))
         (filter (\<lambda>old. (a_lease old = LeaseRevoked \<or> a_lease old = LeaseExpired) \<and> wanted filter_task (a_task old)) (db_attempts d))))"

definition recovered_attempt :: "attempt \<times> attempt \<Rightarrow> enforcement_level \<Rightarrow> detector_candidate" where
  "recovered_attempt p level =
     (''attempt-recovery|'' @ a_id (fst p) @ bar @ a_id (snd p),
      blank_input\<lparr>oi_task := a_task (fst p), oi_attempt := a_id (snd p), oi_category := ''ATTEMPT_RECOVERY'',
        oi_basis := ''DETERMINISTIC_RUNTIME_PATTERN'', oi_source := ''ATTEMPT_LEASES'',
        oi_summary := ''Attempt '' @ a_id (fst p) @ '' was recovered by replacement '' @ a_id (snd p),
        oi_metrics := [(''recovered_attempt_id'', Text (a_id (fst p)))], oi_enforcement := level\<rparr>)"

definition detectAttemptRecovery :: "ID \<Rightarrow> db \<Rightarrow> detector_candidate list res" where
  "detectAttemptRecovery filter_task d =
     all_results (map (\<lambda>p. with_level filter_task d (a_task (fst p)) (recovered_attempt p)) (recovered_pairs filter_task d))"

subsection \<open>Friction, unresolved operations, interventions\<close>

definition friction :: "ID \<Rightarrow> int \<Rightarrow> enforcement_level \<Rightarrow> detector_candidate" where
  "friction k n level =
     (''policy-authority-friction|'' @ k,
      blank_input\<lparr>oi_task := k, oi_category := ''POLICY_AUTHORITY_FRICTION'', oi_basis := ''DETERMINISTIC_RUNTIME_PATTERN'',
        oi_source := ''EXECUTION_EVENTS'',
        oi_summary := ''Consequential operations were cancelled before dispatch '' @ decimal n @ '' times'',
        oi_metrics := [(''denial_count'', Number n)], oi_enforcement := level\<rparr>)"

definition detectPolicyAuthorityFriction :: "ID \<Rightarrow> db \<Rightarrow> detector_candidate list res" where
  "detectPolicyAuthorityFriction filter_task d =
     (let rows = filter (\<lambda>e. ev_type e = ''OPERATION_CANCELLED_BEFORE_DISPATCH'' \<and> wanted filter_task (ev_task e)) (db_events d);
          n = (\<lambda>k. int (count_where (\<lambda>e. ev_task e = k) rows)) in
      all_results (map (\<lambda>k. with_level filter_task d k (friction k (n k)))
        (filter (\<lambda>k. n k \<ge> 2) (distinct_sorted (map ev_task rows)))))"

definition unresolved_operation :: "operation \<Rightarrow> enforcement_level \<Rightarrow> detector_candidate" where
  "unresolved_operation x level =
     (''unresolved-operation|'' @ o_id x,
      blank_input\<lparr>oi_operation := o_id x, oi_category := ''UNRESOLVED_OPERATION'', oi_basis := ''DETERMINISTIC_RUNTIME_PATTERN'',
        oi_source := ''EXTERNAL_OPERATIONS'', oi_summary := ''External operation requires outcome reconciliation'', oi_enforcement := level\<rparr>)"

definition detectUnresolvedOperations :: "ID \<Rightarrow> db \<Rightarrow> detector_candidate list res" where
  "detectUnresolvedOperations filter_task d =
     all_results (map (\<lambda>x. with_level filter_task d (o_task x) (unresolved_operation x))
       (sort_key (\<lambda>x. (formatTime (o_created x), o_id x))
         (filter (\<lambda>x. (o_state x = OperationOutcomeUnknown \<or> o_reconcile x) \<and> wanted filter_task (o_task x)) (db_ops d))))"

definition intervention :: "event_row \<Rightarrow> enforcement_level \<Rightarrow> detector_candidate" where
  "intervention e level =
     (''human-intervention|'' @ ev_id e,
      blank_input\<lparr>oi_task := ev_task e, oi_attempt := (case ev_attempt e of None \<Rightarrow> [] | Some a \<Rightarrow> a), oi_category := ''HUMAN_INTERVENTION'',
        oi_basis := ''EXPLICIT_OPERATOR_EVENT'', oi_source := ''EXECUTION_EVENTS'',
        oi_summary := ''Human intervention was required during Collective work'', oi_enforcement := level\<rparr>)"

definition detectHumanIntervention :: "ID \<Rightarrow> db \<Rightarrow> detector_candidate list res" where
  "detectHumanIntervention filter_task d =
     all_results (map (\<lambda>e. with_level filter_task d (ev_task e) (intervention e))
       (sort_key (\<lambda>e. (formatTime (ev_at e), ev_id e))
         (filter (\<lambda>e. ev_type e = ''HUMAN_INTERVENTION'' \<and> wanted filter_task (ev_task e)) (db_events d))))"

subsection \<open>Challenges after an acceptance\<close>

definition late_challenges :: "ID \<Rightarrow> db \<Rightarrow> (challenge_row \<times> acceptance_row) list" where
  "late_challenges filter_task d =
     sort_key (\<lambda>(c, a). (formatTime (ch_at c), ch_id c))
       (concat (map (\<lambda>c. map (Pair c) (filter (\<lambda>a. ac_task a = ch_task c \<and> formatTime (ac_at a) < formatTime (ch_at c) \<and> ac_evidence a \<noteq> [])
           (db_acceptances d)))
         (filter (\<lambda>c. wanted filter_task (ch_task c)) (db_challenges d))))"

definition late_challenge :: "challenge_row \<times> acceptance_row \<Rightarrow> enforcement_level \<Rightarrow> detector_candidate" where
  "late_challenge p level =
     (''verification-challenge-after-acceptance|'' @ ch_id (fst p),
      blank_input\<lparr>oi_task := ch_task (fst p), oi_attempt := ac_attempt (snd p), oi_category := ''VERIFICATION_CHALLENGE_AFTER_ACCEPTANCE'',
        oi_basis := ''CANONICAL_VERIFICATION_CONTRADICTION'', oi_source := ''VERIFICATION_STATE'',
        oi_summary := ''Task was challenged after an earlier evidence-backed acceptance'', oi_enforcement := level,
        oi_evidence := clean_ids (clean_ids (ch_evidence (fst p)) @ clean_ids (ac_evidence (snd p)))\<rparr>)"

definition detectVerificationChallengeAfterAcceptance :: "ID \<Rightarrow> db \<Rightarrow> detector_candidate list res" where
  "detectVerificationChallengeAfterAcceptance filter_task d =
     all_results (map (\<lambda>p. with_level filter_task d (ch_task (fst p)) (late_challenge p)) (late_challenges filter_task d))"

subsection \<open>Cost and latency outliers\<close>

definition class_text :: "GenericTaskClass \<Rightarrow> string" where
  "class_text c = (case c of GenericTaskDebugging \<Rightarrow> ''DEBUGGING'' | GenericTaskReview \<Rightarrow> ''REVIEW'' | GenericTaskRefactor \<Rightarrow> ''REFACTOR''
     | GenericTaskDocumentation \<Rightarrow> ''DOCUMENTATION'' | GenericTaskMigration \<Rightarrow> ''MIGRATION'' | GenericTaskTesting \<Rightarrow> ''TESTING''
     | GenericTaskMaintenance \<Rightarrow> ''MAINTENANCE'' | GenericTaskOther \<Rightarrow> ''OTHER'' | GenericTaskUnknown s \<Rightarrow> s)"

text \<open>The loop over the earlier samples keeps the greatest value above zero and counts those that are there.\<close>

definition greatest :: "int option list \<Rightarrow> int" where
  "greatest xs = fold (\<lambda>x m. case x of None \<Rightarrow> m | Some v \<Rightarrow> if v > m then v else m) xs 0"

definition present :: "int option list \<Rightarrow> int" where
  "present xs = int (length (filter (\<lambda>x. x \<noteq> None) xs))"

definition exceeds :: "int option \<Rightarrow> int option list \<Rightarrow> bool" where
  "exceeds x previous \<longleftrightarrow> (case x of None \<Rightarrow> False | Some v \<Rightarrow> present previous \<ge> 5 \<and> greatest previous > 0 \<and> v > wrap64 (2 * greatest previous))"

definition isHighSignalOutlier :: "outcome_row \<Rightarrow> outcome_row list \<Rightarrow> bool" where
  "isHighSignalOutlier s previous \<longleftrightarrow> exceeds (xo_cost s) (map xo_cost previous) \<or> exceeds (xo_latency s) (map xo_latency previous)"

definition outcome_group :: "outcome_row \<Rightarrow> string" where
  "outcome_group s = xo_scope s @ nul @ class_text (xo_class s) @ nul @ xo_executor s"

definition outlier :: "outcome_row \<Rightarrow> outcome_row list \<Rightarrow> enforcement_level \<Rightarrow> detector_candidate" where
  "outlier s previous level =
     (''cost-latency-outlier|'' @ xo_id s,
      blank_input\<lparr>oi_task := xo_task s, oi_category := ''COST_LATENCY_OUTLIER'', oi_basis := ''DETERMINISTIC_VERIFIED_OUTLIER'',
        oi_source := ''EXPERIENCE_OUTCOMES'', oi_summary := ''Verified outcome exceeded the conservative cost/latency outlier threshold'',
        oi_metrics := [(''baseline_samples'', Number (int (length previous)))] @
          (case xo_cost s of None \<Rightarrow> [] | Some v \<Rightarrow> [(''cost_units'', Number v)]) @
          (case xo_latency s of None \<Rightarrow> [] | Some v \<Rightarrow> [(''latency_ms'', Number v)]),
        oi_executor := xo_executor s, oi_enforcement := level\<rparr>)"

fun outliers_after :: "outcome_row list \<Rightarrow> outcome_row list \<Rightarrow> (outcome_row \<times> outcome_row list) list" where
  "outliers_after seen [] = []"
| "outliers_after seen (s # ss) =
     (let previous = filter (\<lambda>x. outcome_group x = outcome_group s) seen in
      (if length previous \<ge> 5 \<and> isHighSignalOutlier s previous then [(s, previous)] else []) @ outliers_after (seen @ [s]) ss)"

definition detectCostLatencyOutliers :: "ID \<Rightarrow> db \<Rightarrow> detector_candidate list res" where
  "detectCostLatencyOutliers filter_task d =
     all_results (map (\<lambda>(s, previous). with_level filter_task d (xo_task s) (outlier s previous))
       (outliers_after []
         (sort_key (\<lambda>s. (xo_scope s, class_text (xo_class s), xo_executor s, formatTime (xo_recorded s), xo_id s))
           (filter (\<lambda>s. xo_accepted s \<and> wanted filter_task (xo_task s)) (xt_outcomes (db_experience d))))))"

subsection \<open>Detecting\<close>

definition detected ::
  "observer \<Rightarrow> (failure_group list \<Rightarrow> failure_group list) \<Rightarrow> ID \<Rightarrow> db \<Rightarrow> detector_candidate list res" where
  "detected V visit filter_task d =
     bindE (all_results [detectRepeatedFailures V visit filter_task d, detectAttemptRecovery filter_task d,
              detectPolicyAuthorityFriction filter_task d, detectUnresolvedOperations filter_task d, detectHumanIntervention filter_task d,
              detectVerificationChallengeAfterAcceptance filter_task d, detectCostLatencyOutliers filter_task d])
       (\<lambda>found. Inr (concat found))"

text \<open>Each observation is recorded in a transaction of its own; those before a failing one stay.\<close>

fun record_all :: "observer \<Rightarrow> (nat \<Rightarrow> env) \<Rightarrow> nat \<Rightarrow> detector_candidate list \<Rightarrow> db \<Rightarrow> db \<times> observation_row list res" where
  "record_all V Es i [] d = (d, Inr [])"
| "record_all V Es i ((key, q) # cs) d =
     (case recordWithDetectorKey V (Es i) q key d of
        (d, Inl e) \<Rightarrow> (d, Inl e)
      | (d, Inr r) \<Rightarrow>
          (case record_all V Es (Suc i) cs d of
             (d, Inl e) \<Rightarrow> (d, Inl e)
           | (d, Inr rs) \<Rightarrow> (d, Inr (r # rs))))"

definition Detect ::
  "observer \<Rightarrow> (nat \<Rightarrow> env) \<Rightarrow> (failure_group list \<Rightarrow> failure_group list) \<Rightarrow> ID \<Rightarrow> db \<Rightarrow> db \<times> observation_row list res" where
  "Detect V Es visit filter_task d =
     (case bindE (observer_configured V) (\<lambda>_. detected V visit (trim_space filter_task) d) of
        Inl e \<Rightarrow> (d, Inl e)
      | Inr cs \<Rightarrow> record_all V Es 0 cs d)"

definition Scan :: "observer \<Rightarrow> (nat \<Rightarrow> env) \<Rightarrow> (failure_group list \<Rightarrow> failure_group list) \<Rightarrow> db \<Rightarrow> db \<times> observation_row list res" where
  "Scan V Es visit d = Detect V Es visit [] d"

subsection \<open>Detecting again\<close>

lemma all_results_Inr: "all_results ms = Inr xs \<longleftrightarrow> ms = map Inr xs"
  by (induction ms arbitrary: xs) (auto simp: bind_simps Cons_eq_map_conv)

lemma all_results_same_set:
  assumes "all_results ms = Inr xs" and "set ms' = set ms"
  shows "\<exists>xs'. all_results ms' = Inr xs' \<and> set xs' = set xs"
proof -
  have ms: "ms = map Inr xs" using assms(1) by (simp add: all_results_Inr)
  then have "\<forall>m \<in> set ms'. \<exists>x. m = Inr x" using assms(2) by auto
  then have ms': "ms' = map Inr (map projr ms')" by (induction ms') auto
  have "set (map projr ms') = set xs" using assms(2) by (simp add: ms image_image)
  with ms' show ?thesis unfolding all_results_Inr by blast
qed

lemma detected_noted: "noted d d' \<Longrightarrow> detected V visit k d' = detected V visit k d"
  by (simp add: detected_def detectRepeatedFailures_def failure_groups_def with_level_def taskEnforcement_def detectAttemptRecovery_def
      recovered_pairs_def detectPolicyAuthorityFriction_def detectUnresolvedOperations_def detectHumanIntervention_def
      detectVerificationChallengeAfterAcceptance_def late_challenges_def detectCostLatencyOutliers_def notedD)

lemma detected_other_order:
  assumes "detected V visit k d = Inr cs" and "\<forall>gs. set (visit gs) = set gs" and "\<forall>gs. set (visit' gs) = set gs"
  shows "\<exists>cs'. detected V visit' k d = Inr cs' \<and> set cs' = set cs"
proof -
  let ?others = "[detectAttemptRecovery k d, detectPolicyAuthorityFriction k d, detectUnresolvedOperations k d, detectHumanIntervention k d,
     detectVerificationChallengeAfterAcceptance k d, detectCostLatencyOutliers k d]"
  obtain xs yss where f: "detectRepeatedFailures V visit k d = Inr xs" and o: "all_results ?others = Inr yss" and cs: "cs = xs @ concat yss"
    using assms(1) by (auto simp: detected_def elim!: bindE_InrE)
  obtain xs' where f': "detectRepeatedFailures V visit' k d = Inr xs'" "set xs' = set xs"
    using all_results_same_set [OF f [unfolded detectRepeatedFailures_def]] assms(2,3)
    unfolding detectRepeatedFailures_def by (metis (no_types, lifting) filter_set image_set)
  show ?thesis using o f' by (simp add: detected_def cs)
qed

lemma strip_all_keeps: "c \<in> set s \<Longrightarrow> c \<notin> set (concat ps) \<Longrightarrow> c \<in> set (strip_all ps s)"
proof (induction ps s rule: strip_all.induct)
  case (1 ps s)
  show ?case
  proof (cases "find (\<lambda>p. p \<noteq> [] \<and> take (length p) s = p) ps")
    case None
    then show ?thesis using "1.prems" by (subst strip_all.simps) simp
  next
    case (Some p)
    then have p: "p \<in> set ps" "take (length p) s = p" by (auto simp: find_Some_iff)
    then have "s = p @ drop (length p) s" by (metis append_take_drop_id)
    moreover have "c \<notin> set p" using "1.prems"(2) p(1) by auto
    ultimately have "c \<in> set (drop (length p) s)" using "1.prems"(1) by (metis Un_iff set_append)
    then show ?thesis using "1.IH" [OF Some] "1.prems"(2) Some by (subst strip_all.simps) simp
  qed
qed

lemma trim_space_nonblank: "c \<in> set s \<Longrightarrow> plain_byte c \<Longrightarrow> trim_space s \<noteq> []"
proof -
  assume c: "c \<in> set s" "plain_byte c"
  then have "c \<in> set (rev (strip_all go_spaces s))" using strip_all_keeps by (auto simp: plain_byte_def)
  moreover have "c \<notin> set (concat (map rev go_spaces))" using c(2) by (simp add: plain_byte_def)
  ultimately have "c \<in> set (strip_all (map rev go_spaces) (rev (strip_all go_spaces s)))" by (rule strip_all_keeps)
  then show ?thesis by (auto simp: trim_space_def)
qed

lemma all_results_with_level:
  assumes "all_results (map (\<lambda>x. with_level k d (f x) (g x)) xs) = Inr cs" and "c \<in> set cs"
  shows "\<exists>x l. x \<in> set xs \<and> c = g x l"
proof -
  have "Inr c \<in> (\<lambda>x. with_level k d (f x) (g x)) ` set xs"
    using assms unfolding all_results_Inr by (metis image_eqI set_map)
  then obtain x where x: "x \<in> set xs" and "Inr c = with_level k d (f x) (g x)" by (rule imageE)
  then have "with_level k d (f x) (g x) = Inr c" by simp
  with x show ?thesis unfolding with_level_def by (auto elim!: bindE_InrE)
qed

lemma dash_plain: "CHR ''-'' \<in> set s \<Longrightarrow> trim_space s \<noteq> []"
proof -
  have "plain_byte (CHR ''-'')" by code_simp
  then show "CHR ''-'' \<in> set s \<Longrightarrow> trim_space s \<noteq> []" using trim_space_nonblank by blast
qed

lemma keys_not_blank:
  assumes "detected V visit k d = Inr cs" and "c \<in> set cs"
  shows "trim_space (fst c) \<noteq> []"
proof (rule dash_plain)
  obtain yss where "all_results [detectRepeatedFailures V visit k d, detectAttemptRecovery k d,
      detectPolicyAuthorityFriction k d, detectUnresolvedOperations k d, detectHumanIntervention k d,
      detectVerificationChallengeAfterAcceptance k d, detectCostLatencyOutliers k d] = Inr yss" and cs: "cs = concat yss"
    using assms(1) unfolding detected_def by (auto elim!: bindE_InrE)
  moreover obtain ys where "ys \<in> set yss" and c: "c \<in> set ys" using assms(2) cs by auto
  ultimately have "Inr ys \<in> {detectRepeatedFailures V visit k d, detectAttemptRecovery k d,
      detectPolicyAuthorityFriction k d, detectUnresolvedOperations k d, detectHumanIntervention k d,
      detectVerificationChallengeAfterAcceptance k d, detectCostLatencyOutliers k d}"
    unfolding all_results_Inr by (metis (no_types, lifting) image_eqI list.set(1) list.simps(15) set_map)
  then consider "detectRepeatedFailures V visit k d = Inr ys" | "detectAttemptRecovery k d = Inr ys"
    | "detectPolicyAuthorityFriction k d = Inr ys" | "detectUnresolvedOperations k d = Inr ys" | "detectHumanIntervention k d = Inr ys"
    | "detectVerificationChallengeAfterAcceptance k d = Inr ys" | "detectCostLatencyOutliers k d = Inr ys"
    by auto
  then show "CHR ''-'' \<in> set (fst c)"
  proof cases
    case 1
    from all_results_with_level [OF this [unfolded detectRepeatedFailures_def] c] show ?thesis by (auto simp: repeated_failure_def)
  next
    case 2
    from all_results_with_level [OF this [unfolded detectAttemptRecovery_def] c] show ?thesis by (auto simp: recovered_attempt_def)
  next
    case 3
    from all_results_with_level [OF this [unfolded detectPolicyAuthorityFriction_def Let_def] c] show ?thesis by (auto simp: friction_def)
  next
    case 4
    from all_results_with_level [OF this [unfolded detectUnresolvedOperations_def] c] show ?thesis by (auto simp: unresolved_operation_def)
  next
    case 5
    from all_results_with_level [OF this [unfolded detectHumanIntervention_def] c] show ?thesis by (auto simp: intervention_def)
  next
    case 6
    from all_results_with_level [OF this [unfolded detectVerificationChallengeAfterAcceptance_def] c] show ?thesis
      by (auto simp: late_challenge_def)
  next
    case 7
    from all_results_with_level [OF this [unfolded detectCostLatencyOutliers_def split_beta] c] show ?thesis
      by (auto simp: outlier_def)
  qed
qed

lemma recordWithDetectorKey_Inr:
  "recordWithDetectorKey V E q key d = (d', Inr r) \<longleftrightarrow> (\<exists>p. observer_configured V = Inr () \<and> validateInput q = Inr p \<and>
     recordTx V E (trim_space key) p d = Inr (r, d'))"
  by (cases "observer_configured V") (auto simp: recordWithDetectorKey_def with_tx_def bind_simps split: sum.splits)

lemma record_known:
  assumes "observations_ok d" and "trim_space key \<noteq> []" and "observer_configured V = Inr ()" and "validateInput q = Inr p"
    and "r \<in> set (ft_observations (db_feedback d))" and "fo_detector r = Some (trim_space key)"
  shows "recordWithDetectorKey V E q key d = (d, Inr r)"
  using detector_row [OF assms(1,5,6)] assms(2-4) unfolding recordWithDetectorKey_Inr by (auto simp: recordTx_def)

text \<open>What a sequence of recordings returns are the rows of its keys; where all of them are known it changes nothing.\<close>

definition rows_of :: "db \<Rightarrow> detector_candidate list \<Rightarrow> observation_row set" where
  "rows_of d cs = {r \<in> set (ft_observations (db_feedback d)). fo_detector r \<in> (\<lambda>c. Some (trim_space (fst c))) ` set cs}"

lemma rows_of_Cons: "rows_of d (c # cs) =
    {x \<in> set (ft_observations (db_feedback d)). fo_detector x = Some (trim_space (fst c))} \<union> rows_of d cs"
  by (auto simp: rows_of_def)

lemma record_all_known:
  assumes "observations_ok d" and "observer_configured V = Inr ()"
    and "\<forall>c \<in> set cs. trim_space (fst c) \<noteq> [] \<and> (\<exists>p. validateInput (snd c) = Inr p) \<and>
      (\<exists>r \<in> set (ft_observations (db_feedback d)). fo_detector r = Some (trim_space (fst c)))"
  shows "\<exists>rs. record_all V Es i cs d = (d, Inr rs)"
  using assms(3)
proof (induction cs arbitrary: i)
  case (Cons c cs)
  obtain key q where c: "c = (key, q)" by fastforce
  then obtain p r where "trim_space key \<noteq> []" "validateInput q = Inr p" "r \<in> set (ft_observations (db_feedback d))"
    "fo_detector r = Some (trim_space key)" using Cons.prems by auto
  then have "recordWithDetectorKey V (Es i) q key d = (d, Inr r)" using record_known assms(1,2) by blast
  moreover obtain rs where "record_all V Es (Suc i) cs d = (d, Inr rs)" using Cons by auto
  ultimately show ?case by (simp add: c)
qed simp

lemma record_all_rows:
  assumes "record_all V Es i cs d = (d', Inr rs)" and "observations_ok d" and "\<forall>c \<in> set cs. trim_space (fst c) \<noteq> []"
  shows "observations_ok d' \<and> noted d d' \<and> set rs = rows_of d' cs \<and> (cs \<noteq> [] \<longrightarrow> observer_configured V = Inr ()) \<and>
    (\<forall>c \<in> set cs. (\<exists>p. validateInput (snd c) = Inr p) \<and>
      (\<exists>r \<in> set (ft_observations (db_feedback d')). fo_detector r = Some (trim_space (fst c))))"
  using assms
proof (induction cs arbitrary: i d rs)
  case (Cons c cs)
  obtain key q where c: "c = (key, q)" by fastforce
  obtain d1 r rs' where run: "recordWithDetectorKey V (Es i) q key d = (d1, Inr r)"
    and rest: "record_all V Es (Suc i) cs d1 = (d', Inr rs')" and rs: "rs = r # rs'"
    using Cons.prems(1) by (auto simp: c split: prod.splits sum.splits)
  obtain p where p: "observer_configured V = Inr ()" "validateInput q = Inr p" "recordTx V (Es i) (trim_space key) p d = Inr (r, d1)"
    using run unfolding recordWithDetectorKey_Inr by blast
  have r: "observations_ok d1" "noted d d1" "r \<in> set (ft_observations (db_feedback d1))" "fo_detector r = Some (trim_space key)"
    using recordTx_ok [OF Cons.prems(2) p(3)] Cons.prems(3) c by auto
  from Cons.IH [OF rest r(1)] Cons.prems(3) have ih: "observations_ok d'" "noted d1 d'" "set rs' = rows_of d' cs"
    "\<forall>c \<in> set cs. (\<exists>p. validateInput (snd c) = Inr p) \<and>
      (\<exists>r \<in> set (ft_observations (db_feedback d')). fo_detector r = Some (trim_space (fst c)))" by auto
  have in': "r \<in> set (ft_observations (db_feedback d'))" using r(3) notedD(10) [OF ih(2)] by blast
  have "x = r" if "x \<in> set (ft_observations (db_feedback d'))" "fo_detector x = Some (trim_space key)" for x
    using detector_row [OF ih(1) that] detector_row [OF ih(1) in' r(4)] by simp
  then have "{x \<in> set (ft_observations (db_feedback d')). fo_detector x = Some (trim_space key)} = {r}" using in' r(4) by blast
  then have "rows_of d' (c # cs) = insert r (rows_of d' cs)" by (simp add: rows_of_Cons c)
  then have "set rs = rows_of d' (c # cs)" by (simp add: rs ih(3))
  then show ?case using ih(1,4) noted_trans [OF r(2) ih(2)] p(1,2) in' r(4) by (auto simp: c)
qed (simp add: rows_of_def)

text \<open>
  C36. Detecting is idempotent: when the detectors have run without an error, running them again for the same task, at any later time,
  with other identifiers and with the groups of the Go map in any other order, succeeds, changes nothing and returns the same rows.
\<close>

theorem detecting_again_changes_nothing:
  assumes "observations_ok d" and "Detect V Es visit k d = (d', Inr rs)"
    and "\<forall>gs. set (visit gs) = set gs" and "\<forall>gs. set (visit' gs) = set gs"
  shows "\<exists>rs'. Detect V Es' visit' k d' = (d', Inr rs') \<and> set rs' = set rs"
proof -
  let ?k = "trim_space k"
  obtain cs where V: "observer_configured V = Inr ()" and cs: "detected V visit ?k d = Inr cs"
    and run: "record_all V Es 0 cs d = (d', Inr rs)"
    using assms(2) unfolding Detect_def by (auto elim!: bindE_InrE split: sum.splits)
  have r: "observations_ok d'" "noted d d'" "set rs = rows_of d' cs" "\<forall>c \<in> set cs. (\<exists>p. validateInput (snd c) = Inr p) \<and>
      (\<exists>r \<in> set (ft_observations (db_feedback d')). fo_detector r = Some (trim_space (fst c)))"
    using record_all_rows [OF run assms(1)] keys_not_blank [OF cs] by auto
  obtain cs' where cs': "detected V visit' ?k d' = Inr cs'" "set cs' = set cs"
    using detected_other_order [OF cs assms(3,4)] detected_noted [OF r(2)] by auto
  have "\<exists>rs'. record_all V Es' 0 cs' d' = (d', Inr rs')"
    using r(4) keys_not_blank [OF cs] unfolding cs'(2) [symmetric] by (intro record_all_known [OF r(1) V]) blast
  then obtain rs' where rs': "record_all V Es' 0 cs' d' = (d', Inr rs')" ..
  have "set rs' = rows_of d' cs'" using record_all_rows [OF rs' r(1)] keys_not_blank [OF cs'(1)] by blast
  also have "\<dots> = set rs" by (simp add: r(3) rows_of_def cs'(2))
  finally show ?thesis using rs' V cs'(1) by (auto simp: Detect_def)
qed

text \<open>A task whose attempt was revoked and replaced, with two failures of one signature and an operation with an unknown outcome.\<close>

definition demo_failure :: "ID \<Rightarrow> failure_row" where
  "demo_failure k = \<lparr>f_id = k, f_attempt = ''attempt_1'', f_task = ''task_1'', f_class = FailureTransient, f_signature = ''timeout'',
     f_evidence = [], f_at = 3\<rparr>"

definition demo_failing_world :: db where
  "demo_failing_world = demo_noted_world\<lparr>db_attempts := [demo_noted_attempt, demo_noted_attempt\<lparr>a_id := ''attempt_2'', a_fence := 2\<rparr>],
     db_failures := [demo_failure ''failure_1'', demo_failure ''failure_2'']\<rparr>"

definition demo_detect_clock :: "nat \<Rightarrow> env" where
  "demo_detect_clock i = demo_note_clock (if i = 0 then ''1'' else ''2'')"

definition demo_detected :: "db \<times> observation_row list res" where
  "demo_detected = Detect demo_observer demo_detect_clock (\<lambda>gs. gs) ''task_1 '' demo_failing_world"

theorem detecting_again_changes_nothing_witness:
  "\<exists>rs rs'. length rs = 2 \<and> Detect demo_observer (\<lambda>_. demo_note_clock ''9'') rev ''task_1 '' (fst demo_detected) = (fst demo_detected, Inr rs') \<and>
    set rs' = set rs"
proof -
  have ok: "observations_ok demo_failing_world" by code_simp
  have "(case snd demo_detected of Inr rs \<Rightarrow> length rs = 2 | Inl _ \<Rightarrow> False)" by code_simp
  then obtain rs where two: "length rs = 2" "snd demo_detected = Inr rs" by (auto split: sum.splits)
  then have "Detect demo_observer demo_detect_clock (\<lambda>gs. gs) ''task_1 '' demo_failing_world = (fst demo_detected, Inr rs)"
    unfolding demo_detected_def by (metis prod.collapse)
  from detecting_again_changes_nothing [OF ok this, of rev "\<lambda>_. demo_note_clock ''9''"] two(1) show ?thesis by auto
qed

subsection \<open>The threshold of an outlier\<close>

lemma greatest_from: "fold (\<lambda>x m. case x of None \<Rightarrow> m | Some v \<Rightarrow> if v > m then v else m) xs m < b \<longleftrightarrow> m < b \<and> (\<forall>w. Some w \<in> set xs \<longrightarrow> w < (b :: int))"
  by (induction xs arbitrary: m) (auto split: option.splits)

lemma greatest_mem: "fold (\<lambda>x m. case x of None \<Rightarrow> m | Some v \<Rightarrow> if v > m then v else m) xs m = m \<or>
    Some (fold (\<lambda>x m. case x of None \<Rightarrow> m | Some v \<Rightarrow> if v > m then v else m) xs (m :: int)) \<in> set xs"
proof (induction xs arbitrary: m)
  case (Cons x xs)
  show ?case
  proof (cases x)
    case (Some v)
    with Cons.IH [of m] Cons.IH [of v] show ?thesis by (cases "v > m") auto
  qed (use Cons.IH [of m] in auto)
qed simp

definition far_above :: "int option \<Rightarrow> int option list \<Rightarrow> bool" where
  "far_above x previous \<longleftrightarrow> (\<exists>v. x = Some v \<and> length (filter (\<lambda>w. w \<noteq> None) previous) \<ge> 5 \<and>
     (\<exists>w > 0. Some w \<in> set previous) \<and> (\<forall>w. Some w \<in> set previous \<longrightarrow> v > 2 * w))"

lemma exceeds_iff:
  assumes small: "\<forall>w. Some w \<in> set previous \<longrightarrow> w < 2 ^ 62"
  shows "exceeds x previous \<longleftrightarrow> far_above x previous"
proof (cases x)
  case (Some v)
  have range: "0 \<le> greatest previous" "greatest previous < 2 ^ 62"
    using greatest_from [of previous 0 "2 ^ 62"] greatest_from [of previous 0 0] small
      greatest_from [of previous 0 "greatest previous"] unfolding greatest_def by force+
  have bound: "greatest previous < b \<longleftrightarrow> 0 < b \<and> (\<forall>w. Some w \<in> set previous \<longrightarrow> w < b)" for b
    unfolding greatest_def by (rule greatest_from)
  have pos: "greatest previous > 0 \<longleftrightarrow> (\<exists>w > 0. Some w \<in> set previous)"
    using greatest_mem [of previous 0] bound [of 1] range(1) unfolding greatest_def [symmetric] by force
  have "wrap64 (2 * greatest previous) = 2 * greatest previous"
    using range by (intro wrap64_id) (simp add: in64_def)
  moreover have "2 * greatest previous < v \<longleftrightarrow> (\<forall>w. Some w \<in> set previous \<longrightarrow> 2 * w < v)" if "greatest previous > 0"
    using greatest_mem [of previous 0] bound [of "greatest previous + 1"] that unfolding greatest_def [symmetric] by force
  ultimately show ?thesis using pos by (auto simp: exceeds_def far_above_def Some present_def)
qed (simp add: exceeds_def far_above_def)

text \<open>
  The outlier test is exact: as long as the earlier samples stay below \<open>2 ^ 62\<close>, a sample is an outlier exactly when, for its cost
  or its latency, at least five earlier samples have a value, one of them is positive, and it is more than twice every one of them.
\<close>

theorem outlier_test_is_exact:
  assumes "\<forall>p \<in> set previous. \<forall>w. xo_cost p = Some w \<or> xo_latency p = Some w \<longrightarrow> w < 2 ^ 62"
  shows "isHighSignalOutlier s previous \<longleftrightarrow> far_above (xo_cost s) (map xo_cost previous) \<or> far_above (xo_latency s) (map xo_latency previous)"
proof -
  have "\<forall>w. Some w \<in> set (map xo_cost previous) \<longrightarrow> w < 2 ^ 62" "\<forall>w. Some w \<in> set (map xo_latency previous) \<longrightarrow> w < 2 ^ 62"
    using assms unfolding set_map by (metis imageE)+
  then show ?thesis by (simp add: isHighSignalOutlier_def exceeds_iff)
qed

definition demo_outcome :: "int \<Rightarrow> outcome_row" where
  "demo_outcome cost = \<lparr>xo_id = ''outcome'', xo_task = ''task_1'', xo_class = GenericTaskReview, xo_scope = [], xo_executor = ''codex'',
     xo_accepted = True, xo_human = False, xo_retries = 0, xo_cost = Some cost, xo_latency = None, xo_recorded = 1\<rparr>"

theorem outlier_test_is_exact_witness:
  "isHighSignalOutlier (demo_outcome 9) (map demo_outcome [1, 4, 2, 3, 1]) \<and>
     far_above (Some 9) (map Some [1, 4, 2, 3, 1])"
proof -
  have far: "far_above (Some 9) (map Some [1, 4, 2, 3, 1])" by (auto simp: far_above_def intro: exI [of _ 4])
  have "map xo_cost (map demo_outcome [1, 4, 2, 3, 1]) = map Some [1, 4, 2, 3, 1]" by (simp add: demo_outcome_def)
  with far have "far_above (xo_cost (demo_outcome 9)) (map xo_cost (map demo_outcome [1, 4, 2, 3, 1]))"
    by (simp add: demo_outcome_def)
  moreover have "\<forall>p \<in> set (map demo_outcome [1, 4, 2, 3, 1]). \<forall>w. xo_cost p = Some w \<or> xo_latency p = Some w \<longrightarrow> w < 2 ^ 62"
    by (simp add: demo_outcome_def)
  ultimately show ?thesis using outlier_test_is_exact [of "map demo_outcome [1, 4, 2, 3, 1]" "demo_outcome 9"] far by blast
qed

text \<open>Above the bound twice the maximum wraps: after samples of \<open>2 ^ 62\<close> a cost of one unit is reported as an outlier.\<close>

theorem doubled_maximum_wraps:
  "isHighSignalOutlier (demo_outcome 1) (map demo_outcome (replicate 5 (2 ^ 62))) \<and>
     \<not> far_above (Some 1) (map Some (replicate 5 (2 ^ 62)))"
proof
  show "isHighSignalOutlier (demo_outcome 1) (map demo_outcome (replicate 5 (2 ^ 62)))" by code_simp
qed (simp add: far_above_def)

end
