(* ===== verification/Operations.thy ===== *)
theory Operations
  imports Leases Resources Approvals Go_Library
begin

text \<open>
  External operations (\<open>internal/operations\<close>): the effect slot that binds one semantic effect of a
  task, the operation that is prepared, dispatched once and settled or left unknown, and the
  approval and policy gates in front of it.

  A provider is its \<open>Provider\<close> interface: the pure methods are fields, the two effectful ones are
  answers that each call receives as an argument. The policy engine, the JSON codec and the digest
  are functions of the service and of the codec. What a service sends to a provider is part of its
  result, in order, so that theorems can count the requests of an operation.
\<close>

subsection \<open>Interfaces (operations/provider.go)\<close>

record intent =
  it_type :: string
  it_body :: string

record CostProfile =
  cp_exposure :: int
  cp_enforceability :: Enforceability

record ProviderOutcome =
  out_state :: operation_state
  out_reference :: string
  out_cost :: int

record ProviderDispatchRequest =
  rq_operation :: ID
  rq_task :: ID
  rq_slot :: ID
  rq_fingerprint :: string
  rq_revision :: int
  rq_canonical :: string

record Provider =
  pv_name :: string
  pv_capability :: string
  pv_enforcement :: enforcement_level
  pv_adapter :: string
  pv_semantic :: bool
  pv_canonical :: "intent \<Rightarrow> string res"
  pv_cost :: "intent \<Rightarrow> CostProfile res"

type_synonym answer = "ProviderDispatchRequest \<Rightarrow> ProviderOutcome res"

record PolicyInput =
  pi_risk :: string
  pi_authority :: bool
  pi_now :: gtime
  pi_attributes :: "string \<Rightarrow> string option"

record Service =
  sv_collective :: ID
  sv_providers :: "Provider list"
  sv_policy :: "PolicyInput \<Rightarrow> policy_decision res"

record op_codec =
  canonical_json :: "string \<Rightarrow> string res"
  intent_material :: "string \<Rightarrow> string \<Rightarrow> string \<Rightarrow> string \<Rightarrow> string res"
  sha256_hex :: "string \<Rightarrow> string"

record PrepareRequest =
  qp_attempt :: ID
  qp_provider :: string
  qp_slot_key :: string
  qp_intent :: "intent option"
  qp_risk :: string
  qp_attributes :: "string \<Rightarrow> string option"
  qp_required :: "ID list"

text \<open>\<open>New\<close> fills the registry in the order of its arguments: the last provider of a name stays.\<close>

definition registered :: "Service \<Rightarrow> string \<Rightarrow> Provider option" where
  "registered S name = find (\<lambda>p. nonblank (pv_name p) \<and> pv_name p = name) (rev (sv_providers S))"

definition providerFor :: "Service \<Rightarrow> string \<Rightarrow> Provider res" where
  "providerFor S name =
     (case registered S (trim_space name) of
        None \<Rightarrow> Inl (Err ''provider is not registered'')
      | Some p \<Rightarrow> Inr p)"

subsection \<open>Policy gates (operations/approval_gate.go)\<close>

fun operation_rank :: "enforcement_level \<Rightarrow> int" where
  "operation_rank EnforcementUnenforced = 1"
| "operation_rank EnforcementPartial = 2"
| "operation_rank EnforcementEnforced = 3"
| "operation_rank _ = 0"

definition enforcementSatisfies :: "enforcement_level \<Rightarrow> enforcement_level \<Rightarrow> bool" where
  "enforcementSatisfies actual required \<longleftrightarrow> operation_rank actual \<ge> operation_rank required"

definition authority_covers :: "Provider \<Rightarrow> task \<Rightarrow> bool" where
  "authority_covers p t \<longleftrightarrow>
     list_ex (\<lambda>v. v = pv_capability p) (t_authority t) \<and> enforcementSatisfies (pv_enforcement p) (t_enforcement t)"

definition validateDecisionProvenance :: "policy_decision \<Rightarrow> gtime \<Rightarrow> unit res" where
  "validateDecisionProvenance c now =
     bindE (requireE (\<not> (pd_id c = [] \<or> pd_set_id c = [] \<or> trim_space (pd_set_hash c) = [] \<or>
              trim_space (pd_caps_hash c) = [])) ErrPolicyDenied) (\<lambda>_.
     requireE (\<not> (pd_evaluated c = 0 \<or> pd_evaluated c \<noteq> now)) ErrPolicyDenied)"

text \<open>The gate is whether the decision itself asks for an approval.\<close>

fun evaluatePrepareOutcome :: "policy_outcome \<Rightarrow> bool res" where
  "evaluatePrepareOutcome PolicyAllow = Inr False"
| "evaluatePrepareOutcome PolicyRequireApproval = Inr True"
| "evaluatePrepareOutcome _ = Inl ErrPolicyDenied"

fun validateDispatchOutcome :: "policy_outcome \<Rightarrow> unit res" where
  "validateDispatchOutcome PolicyAllow = Inr ()"
| "validateDispatchOutcome PolicyRequireApproval = Inr ()"
| "validateDispatchOutcome _ = Inl ErrPolicyDenied"

definition normalizeApprovalIDs :: "ID list \<Rightarrow> ID list" where
  "normalizeApprovalIDs values = distinct_sorted (filter (\<lambda>v. v \<noteq> []) (map trim_space values))"

definition requiredApproversFor :: "policy_decision \<Rightarrow> ID list \<Rightarrow> ID list" where
  "requiredApproversFor c callers =
     normalizeApprovalIDs (callers @ (if pd_outcome c = PolicyRequireApproval then pd_required c else []))"

definition approvalIDsEqual :: "ID list \<Rightarrow> ID list \<Rightarrow> bool" where
  "approvalIDsEqual a b \<longleftrightarrow> normalizeApprovalIDs a = normalizeApprovalIDs b"

definition requires_approval :: "policy_decision \<Rightarrow> ID list \<Rightarrow> bool" where
  "requires_approval c callers \<longleftrightarrow> pd_outcome c = PolicyRequireApproval \<or> callers \<noteq> []"

definition operationApprovalDigest ::
  "op_codec \<Rightarrow> string \<Rightarrow> string \<Rightarrow> ID \<Rightarrow> string \<Rightarrow> int \<Rightarrow> string \<Rightarrow> string res" where
  "operationApprovalDigest C provider dtype slot fingerprint revision canonical =
     (if trim_space provider = [] \<or> trim_space dtype = [] \<or> slot = [] \<or> trim_space fingerprint = [] \<or>
         revision \<le> 0 \<or> canonical = []
      then Inl (Err ''complete consequential dispatch identity is required'')
      else Inr (sha256_hex C (
        ''provider:'' @ trim_space provider @ newline @ ''descriptor-type:'' @ trim_space dtype @ newline @
        ''effect-slot-id:'' @ slot @ newline @ ''intent-fingerprint:'' @ trim_space fingerprint @ newline @
        ''intent-revision:'' @ decimal revision @ newline @
        ''canonical-intent-hash:'' @ sha256_hex C canonical @ newline)))"

text \<open>
  \<open>prepareApprovalInTx\<close>: no approval when neither the decision nor the caller asks for one. The
  caller's approvers are stored as a JSON list, kept decoded here.
\<close>

definition prepareApprovalInTx ::
  "op_codec \<Rightarrow> env \<Rightarrow> operation \<Rightarrow> gtime \<Rightarrow> policy_decision \<Rightarrow> ID list \<Rightarrow> Provider \<Rightarrow> string \<Rightarrow> string \<Rightarrow>
   db \<Rightarrow> ((ID \<times> ID list) \<times> db) res" where
  "prepareApprovalInTx C E op lease_expiry c callers p dtype canonical d =
     (let callers = normalizeApprovalIDs callers; required = requiredApproversFor c callers in
      if \<not> requires_approval c callers then Inr (([], callers), d)
      else if required = [] then Inl ErrPolicyDenied
      else bindE (operationApprovalDigest C (pv_name p) dtype (o_slot op) (o_fingerprint op) (o_revision op) canonical)
        (\<lambda>digest.
      bindE (CreateInTx (clk E 4) (clk E 5) (rnd E 3)
        \<lparr>cr_kind = ''EXTERNAL_OPERATION'', cr_subject = o_id op, cr_digest = digest, cr_policy = pd_id c,
         cr_required = required, cr_requester = o_attempt op, cr_expires = lease_expiry\<rparr> d)
        (\<lambda>x. Inr ((ap_id (fst x), callers), snd x))))"

text \<open>Whether the approval of an operation binds exactly this operation, digest and set of approvers.\<close>

definition approval_binds :: "operation \<Rightarrow> string \<Rightarrow> ID list \<Rightarrow> approval \<Rightarrow> bool" where
  "approval_binds op digest required r \<longleftrightarrow>
     \<not> (ap_kind r \<noteq> ''EXTERNAL_OPERATION'' \<or> ap_subject r \<noteq> o_id op \<or> ap_digest r \<noteq> digest \<or>
        \<not> approvalIDsEqual (ap_required r) required)"

definition preparedApprovalMatchesInTx ::
  "op_codec \<Rightarrow> operation \<Rightarrow> policy_decision \<Rightarrow> ID list \<Rightarrow> Provider \<Rightarrow> string \<Rightarrow> string \<Rightarrow> db \<Rightarrow> bool res" where
  "preparedApprovalMatchesInTx C op c callers p dtype canonical d =
     (let callers = normalizeApprovalIDs callers; required = requiredApproversFor c callers in
      if \<not> approvalIDsEqual (o_callers op) callers then Inr False
      else if \<not> requires_approval c callers then Inr (o_approval op = [])
      else if o_approval op = [] \<or> required = [] then Inr False
      else bindE (Get (o_approval op) d) (\<lambda>x.
        bindE (operationApprovalDigest C (pv_name p) dtype (o_slot op) (o_fingerprint op) (o_revision op) canonical)
          (\<lambda>digest.
        Inr (approval_binds op digest required (fst x) \<and>
             (ap_state (fst x) = ApprovalPending \<or> ap_state (fst x) = ApprovalApproved)))))"

definition policy_denied :: "'a res \<Rightarrow> 'a res" where
  "policy_denied r = (case r of Inl e \<Rightarrow> Inl ErrPolicyDenied | Inr x \<Rightarrow> Inr x)"

definition validateAndConsumeApprovalInTx ::
  "op_codec \<Rightarrow> gtime \<Rightarrow> operation \<Rightarrow> policy_decision \<Rightarrow> ID list \<Rightarrow> Provider \<Rightarrow> string \<Rightarrow> string \<Rightarrow> db \<Rightarrow> db res" where
  "validateAndConsumeApprovalInTx C now op c callers p dtype canonical d =
     (let required = requiredApproversFor c callers in
      if \<not> requires_approval c callers
      then (if o_approval op \<noteq> [] then Inl ErrPolicyDenied else Inr d)
      else if o_approval op = [] \<or> required = [] then Inl ErrPolicyDenied
      else bindE (policy_denied (Get (o_approval op) d)) (\<lambda>x.
        bindE (operationApprovalDigest C (pv_name p) dtype (o_slot op) (o_fingerprint op) (o_revision op) canonical)
          (\<lambda>digest.
        if \<not> approval_binds op digest required (fst x) then Inl ErrPolicyDenied
        else if ap_state (fst x) \<noteq> ApprovalApproved then Inl ErrPolicyDenied
        else policy_denied (ConsumeInTx now (ap_id (fst x)) digest d))))"

subsection \<open>Loading rows (operations/service.go)\<close>

definition loadOperation :: "ID \<Rightarrow> db \<Rightarrow> operation res" where
  "loadOperation k d =
     (case find_by o_id k (db_ops d) of None \<Rightarrow> Inl (Err ''operation not found'') | Some x \<Rightarrow> Inr x)"

definition Operation :: "ID \<Rightarrow> db \<Rightarrow> operation res" where
  "Operation k d =
     bindE (requireE (nonblank k) (Err ''operation id is required'')) (\<lambda>_. loadOperation (trim_space k) d)"

definition slot_ops :: "ID \<Rightarrow> db \<Rightarrow> operation list" where
  "slot_ops k d = filter (\<lambda>x. o_slot x = k) (db_ops d)"

text \<open>\<open>ORDER BY operation_sequence DESC LIMIT 1\<close>.\<close>

fun highest :: "operation list \<Rightarrow> operation option" where
  "highest [] = None"
| "highest (x # xs) =
     (case highest xs of None \<Rightarrow> Some x | Some y \<Rightarrow> if o_seq x < o_seq y then Some y else Some x)"

definition loadLatestOperationForSlotTx :: "ID \<Rightarrow> db \<Rightarrow> operation option" where
  "loadLatestOperationForSlotTx k d = highest (slot_ops k d)"

definition max_sequence :: "operation list \<Rightarrow> int" where
  "max_sequence xs = (case map o_seq xs of [] \<Rightarrow> 0 | y # ys \<Rightarrow> fold max ys y)"

text \<open>SQLite's sum leaves the integers at 2^63 and the scan into an \<open>int64\<close> then fails.\<close>

definition nextOperationSequence :: "ID \<Rightarrow> db \<Rightarrow> int res" where
  "nextOperationSequence k d =
     bindE (requireE (in64 (max_sequence (slot_ops k d) + 1)) (Err ''converting driver.Value'')) (\<lambda>_.
     Inr (max_sequence (slot_ops k d) + 1))"

definition controlForAttempt :: "ID \<Rightarrow> db \<Rightarrow> task res" where
  "controlForAttempt k d =
     (case find_by a_id k (db_attempts d) of
        None \<Rightarrow> Inl ErrStaleAttempt
      | Some a \<Rightarrow> (case find_by t_id (a_task a) (db_tasks d) of None \<Rightarrow> Inl ErrStaleAttempt | Some t \<Rightarrow> Inr t))"

definition loadTaskControlTx :: "ID \<Rightarrow> db \<Rightarrow> task res" where
  "loadTaskControlTx k d = (case find_by t_id k (db_tasks d) of None \<Rightarrow> Inl ErrNoRows | Some t \<Rightarrow> Inr t)"

definition controlRisk :: "ID \<Rightarrow> db \<Rightarrow> string res" where
  "controlRisk k d =
     (case find_by o_id k (db_ops d) of None \<Rightarrow> Inl ErrNoRows | Some x \<Rightarrow> Inr (o_risk x))"

definition controlDescriptorType :: "ID \<Rightarrow> db \<Rightarrow> string res" where
  "controlDescriptorType k d =
     (case find_by s_id k (db_slots d) of None \<Rightarrow> Inl ErrNoRows | Some x \<Rightarrow> Inr (s_descriptor x))"

definition request_of :: "operation \<Rightarrow> slot_row \<Rightarrow> ProviderDispatchRequest" where
  "request_of x s =
     \<lparr>rq_operation = o_id x, rq_task = o_task x, rq_slot = o_slot x, rq_fingerprint = o_fingerprint x,
      rq_revision = o_revision x, rq_canonical = s_canonical s\<rparr>"

definition providerRequest :: "ID \<Rightarrow> db \<Rightarrow> ProviderDispatchRequest res" where
  "providerRequest k d =
     (case find_by o_id k (db_ops d) of
        None \<Rightarrow> Inl ErrNoRows
      | Some x \<Rightarrow> (case find_by s_id (o_slot x) (db_slots d) of
          None \<Rightarrow> Inl ErrNoRows | Some s \<Rightarrow> Inr (request_of x s)))"

definition appendOperationEvent :: "string \<Rightarrow> string \<Rightarrow> operation \<Rightarrow> gtime \<Rightarrow> db \<Rightarrow> db res" where
  "appendOperationEvent rand event_type x now =
     append_event (NewID ''event'' rand) (o_task x) (o_attempt x) event_type [(''operation_id'', o_id x)] now"

subsection \<open>Policy and intent\<close>

record policyContext =
  px_now :: gtime
  px_risk :: string
  px_authority :: bool
  px_task :: ID
  px_attempt :: ID
  px_provider :: Provider
  px_type :: string
  px_phase :: string
  px_attributes :: "string \<Rightarrow> string option"

fun enforcement_text :: "enforcement_level \<Rightarrow> string" where
  "enforcement_text EnforcementEnforced = ''ENFORCED''"
| "enforcement_text EnforcementPartial = ''PARTIAL''"
| "enforcement_text EnforcementUnenforced = ''UNENFORCED''"
| "enforcement_text (EnforcementOther s) = s"

text \<open>The attributes of the caller are copied last, so they win over the service's own.\<close>

definition evaluatePolicy :: "Service \<Rightarrow> policyContext \<Rightarrow> policy_decision res" where
  "evaluatePolicy S x =
     sv_policy S \<lparr>pi_risk = trim_space (px_risk x), pi_authority = px_authority x, pi_now = px_now x,
       pi_attributes = [''task_id'' \<mapsto> px_task x, ''attempt_id'' \<mapsto> px_attempt x,
         ''provider'' \<mapsto> pv_name (px_provider x), ''capability'' \<mapsto> pv_capability (px_provider x),
         ''enforcement'' \<mapsto> enforcement_text (pv_enforcement (px_provider x)),
         ''descriptor_type'' \<mapsto> px_type x, ''phase'' \<mapsto> px_phase x] ++ px_attributes x\<rparr>"

definition canonicalIntent :: "op_codec \<Rightarrow> Provider \<Rightarrow> intent option \<Rightarrow> (string \<times> string) res" where
  "canonicalIntent C p descriptor =
     (case descriptor of
        None \<Rightarrow> Inl (Err ''typed intent descriptor is required'')
      | Some i \<Rightarrow>
          if trim_space (it_type i) = [] then Inl (Err ''typed intent descriptor is required'')
          else bindE (pv_canonical p i) (\<lambda>raw.
            bindE (canonical_json C raw) (\<lambda>canonical.
            bindE (intent_material C (pv_name p) (it_type i) canonical (if pv_semantic p then pv_adapter p else []))
              (\<lambda>encoded. Inr (canonical, sha256_hex C encoded)))))"

definition intent_cost :: "Provider \<Rightarrow> intent option \<Rightarrow> CostProfile res" where
  "intent_cost p descriptor =
     (case descriptor of None \<Rightarrow> Inl (Err ''typed intent descriptor is required'') | Some i \<Rightarrow> pv_cost p i)"

definition validatePrepareRequest :: "Service \<Rightarrow> PrepareRequest \<Rightarrow> Provider res" where
  "validatePrepareRequest S q =
     (if qp_attempt q = [] \<or> trim_space (qp_provider q) = [] \<or> trim_space (qp_slot_key q) = [] \<or> qp_intent q = None
      then Inl (Err ''attempt, provider, trusted slot key, and typed intent are required'')
      else providerFor S (qp_provider q))"

subsection \<open>Effect slots\<close>

definition slot_key :: "slot_row \<Rightarrow> ID \<times> ID \<times> string" where
  "slot_key s = (s_collective s, s_task s, s_key s)"

definition insert_slot :: "slot_row \<Rightarrow> db \<Rightarrow> (slot_row \<times> db) res" where
  "insert_slot s d =
     bindE (requireE (s_revision s > 0 \<and> \<not> exists_where (\<lambda>x. s_id x = s_id s \<or> slot_key x = slot_key s) (db_slots d))
              (ErrConstraint ''effect_slots'')) (\<lambda>_.
     Inr (s, d\<lparr>db_slots := db_slots d @ [s]\<rparr>))"

definition ResolveEffectSlot ::
  "Service \<Rightarrow> gtime \<Rightarrow> string \<Rightarrow> ID \<Rightarrow> string \<Rightarrow> Provider \<Rightarrow> string \<Rightarrow> string \<Rightarrow> string \<Rightarrow> db \<Rightarrow> (slot_row \<times> db) res" where
  "ResolveEffectSlot S now rand task_id key p dtype fingerprint canonical d =
     (let key = trim_space key in
      if task_id = [] \<or> key = [] \<or> fingerprint = [] \<or> canonical = []
      then Inl (Err ''task, trusted slot key, provider, fingerprint, and canonical intent are required'')
      else (case find_by slot_key (sv_collective S, task_id, key) (db_slots d) of
        Some s \<Rightarrow>
          if s_provider s \<noteq> pv_name p \<or> s_descriptor s \<noteq> dtype \<or> s_fingerprint s \<noteq> fingerprint
          then Inl ErrIntentConflict else Inr (s, d)
      | None \<Rightarrow>
          insert_slot \<lparr>s_id = NewID ''effectslot'' rand, s_collective = sv_collective S, s_task = task_id,
            s_key = key, s_provider = pv_name p, s_descriptor = dtype, s_fingerprint = fingerprint,
            s_revision = 1, s_canonical = canonical, s_adapter = pv_adapter p, s_semantic = pv_semantic p,
            s_created = now, s_updated = now\<rparr> d))"

subsection \<open>Prepare\<close>

text \<open>What \<open>Prepare\<close> has computed when it opens its transaction.\<close>

record prepare_plan =
  pp_now :: gtime
  pp_provider :: Provider
  pp_callers :: "ID list"
  pp_type :: string
  pp_canonical :: string
  pp_fingerprint :: string
  pp_cost :: CostProfile
  pp_task :: ID
  pp_decision :: policy_decision

definition prepare_plan_of :: "op_codec \<Rightarrow> Service \<Rightarrow> gtime \<Rightarrow> PrepareRequest \<Rightarrow> db \<Rightarrow> prepare_plan res" where
  "prepare_plan_of C S now q d =
     bindE (validatePrepareRequest S q) (\<lambda>p.
     let callers = normalizeApprovalIDs (qp_required q);
         dtype = (case qp_intent q of None \<Rightarrow> [] | Some i \<Rightarrow> it_type i) in
     bindE (canonicalIntent C p (qp_intent q)) (\<lambda>x.
     bindE (intent_cost p (qp_intent q)) (\<lambda>cost.
     bindE (requireE (\<not> cp_exposure cost \<le> 0)
              (Err ''provider cost profile must declare positive maximum exposure'')) (\<lambda>_.
     bindE (controlForAttempt (qp_attempt q) d) (\<lambda>t.
     bindE (evaluatePolicy S \<lparr>px_now = now, px_risk = qp_risk q, px_authority = authority_covers p t,
              px_task = t_id t, px_attempt = qp_attempt q, px_provider = p, px_type = dtype,
              px_phase = ''PREPARE'', px_attributes = qp_attributes q\<rparr>) (\<lambda>c.
     bindE (validateDecisionProvenance c now) (\<lambda>_.
     bindE (evaluatePrepareOutcome (pd_outcome c)) (\<lambda>gate.
     bindE (requireE (\<not> ((gate \<or> callers \<noteq> []) \<and> requiredApproversFor c callers = [])) ErrPolicyDenied) (\<lambda>_.
     Inr \<lparr>pp_now = now, pp_provider = p, pp_callers = callers, pp_type = dtype, pp_canonical = fst x,
          pp_fingerprint = snd x, pp_cost = cost, pp_task = t_id t, pp_decision = c\<rparr>)))))))))"

text \<open>The guards at the head of the transaction.\<close>

definition prepare_guard :: "env \<Rightarrow> ID \<Rightarrow> prepare_plan \<Rightarrow> db \<Rightarrow> (GuardedAttempt \<times> task) res" where
  "prepare_guard E attempt_id P d =
     bindE (GuardAttempt (clk E 1) attempt_id [TaskExecuting] d) (\<lambda>g.
     bindE (requireE (ga_task g = pp_task P) ErrStaleAttempt) (\<lambda>_.
     bindE (loadTaskControlTx (ga_task g) d) (\<lambda>t.
     bindE (requireE (authority_covers (pp_provider P) t) ErrPolicyDenied) (\<lambda>_.
     bindE (validateDecisionProvenance (pp_decision P) (pp_now P)) (\<lambda>_.
     bindE (evaluatePrepareOutcome (pd_outcome (pp_decision P))) (\<lambda>_.
     Inr (g, t)))))))"

definition set_op :: "(operation \<Rightarrow> bool) \<Rightarrow> (operation \<Rightarrow> operation) \<Rightarrow> db \<Rightarrow> db" where
  "set_op hit f d = d\<lparr>db_ops := update_where hit f (db_ops d)\<rparr>"

text \<open>Release the reservation of a prepared operation and cancel it.\<close>

definition cancel_op :: "gtime \<Rightarrow> gtime \<Rightarrow> operation \<Rightarrow> db \<Rightarrow> db res" where
  "cancel_op now ledger_now x d =
     bindE (ReleaseInTx ledger_now (o_reservation x) d) (\<lambda>d'.
     Inr (set_op (\<lambda>y. o_id y = o_id x \<and> o_state y = OperationPrepared)
            (\<lambda>y. y\<lparr>o_state := OperationCancelled, o_settled := Some now\<rparr>) d'))"

text \<open>
  The previous operation of the slot: its result is kept, or it makes room for a new one. The
  first component is the operation that is returned unchanged.
\<close>

definition previous_op ::
  "op_codec \<Rightarrow> env \<Rightarrow> ID \<Rightarrow> prepare_plan \<Rightarrow> slot_row \<Rightarrow> db \<Rightarrow> (operation option \<times> db) res" where
  "previous_op C E attempt_id P s d =
     (case loadLatestOperationForSlotTx (s_id s) d of
        None \<Rightarrow> Inr (None, d)
      | Some x \<Rightarrow>
        (case o_state x of
           OperationDispatched \<Rightarrow> Inr (Some x, d)
         | OperationOutcomeUnknown \<Rightarrow> Inr (Some x, d)
         | OperationConfirmedEffect \<Rightarrow> Inr (Some x, d)
         | OperationPrepared \<Rightarrow>
             bindE (if o_attempt x = attempt_id
                    then preparedApprovalMatchesInTx C x (pp_decision P) (pp_callers P) (pp_provider P) (pp_type P)
                           (pp_canonical P) d
                    else Inr False) (\<lambda>same.
             if same then Inr (Some x, d)
             else bindE (cancel_op (pp_now P) (clk E 6) x d) (\<lambda>d'. Inr (None, d')))
         | OperationConfirmedNoEffect \<Rightarrow> Inr (None, d)
         | OperationCancelled \<Rightarrow> Inr (None, d)
         | OperationOther _ \<Rightarrow> Inl (Err ''unsupported previous operation state'')))"

definition profile_active :: "ID \<Rightarrow> string \<Rightarrow> string \<Rightarrow> db \<Rightarrow> bool" where
  "profile_active k hash caps d \<longleftrightarrow>
     exists_where (\<lambda>p. p_active p \<and> p_id p = k \<and> p_hash p = hash \<and> p_caps_hash p = caps) (db_policy_sets d)"

text \<open>The trigger on the insert of an operation, its primary key and the unique sequence of a slot.\<close>

definition insert_operation :: "operation \<Rightarrow> db \<Rightarrow> db res" where
  "insert_operation x d =
     bindE (requireE (case o_prepare_decision x of (_, k, hash, caps) \<Rightarrow> profile_active k hash caps d)
              policyProfileInactiveMarker) (\<lambda>_.
     bindE (requireE (o_seq x > 0 \<and> o_revision x > 0 \<and>
              \<not> exists_where (\<lambda>y. o_id y = o_id x \<or> o_slot y = o_slot x \<and> o_seq y = o_seq x) (db_ops d))
              (ErrConstraint ''external_operations'')) (\<lambda>_.
     Inr (d\<lparr>db_ops := db_ops d @ [x]\<rparr>)))"

definition decision_source :: "policy_decision \<Rightarrow> ID \<times> ID \<times> string \<times> string" where
  "decision_source c = (pd_id c, pd_set_id c, pd_set_hash c, pd_caps_hash c)"

definition prepared_operation :: "env \<Rightarrow> PrepareRequest \<Rightarrow> prepare_plan \<Rightarrow> ID \<Rightarrow> slot_row \<Rightarrow> ID \<Rightarrow> int \<Rightarrow> operation" where
  "prepared_operation E q P task_id s reservation sequence =
     \<lparr>o_id = NewID ''operation'' (rnd E 2), o_task = task_id, o_attempt = qp_attempt q, o_slot = s_id s,
      o_seq = sequence, o_state = OperationPrepared, o_fingerprint = pp_fingerprint P, o_revision = s_revision s,
      o_provider = pv_name (pp_provider P), o_adapter = pv_adapter (pp_provider P), o_reservation = reservation,
      o_risk = trim_space (qp_risk q), o_prepare_decision = decision_source (pp_decision P), o_approval = [],
      o_callers = [], o_dispatch_decision = None, o_claim = None, o_reference = [], o_cancel_requested = False,
      o_reconcile = False, o_cost = None, o_created = pp_now P, o_dispatched = None, o_settled = None\<rparr>"

definition prepare_new ::
  "op_codec \<Rightarrow> env \<Rightarrow> PrepareRequest \<Rightarrow> prepare_plan \<Rightarrow> GuardedAttempt \<Rightarrow> task \<Rightarrow> slot_row \<Rightarrow> db \<Rightarrow> (operation \<times> db) res" where
  "prepare_new C E q P g t s d =
     bindE (ReserveInTx (clk E 3) (rnd E 1) (t_envelope t) (cp_exposure (pp_cost P)) (cp_enforceability (pp_cost P)) d)
       (\<lambda>r.
     bindE (nextOperationSequence (s_id s) (snd r)) (\<lambda>sequence.
     let x = prepared_operation E q P (ga_task g) s (r_id (fst r)) sequence in
     bindE (prepareApprovalInTx C E x (ga_expires g) (pp_decision P) (pp_callers P) (pp_provider P) (pp_type P)
              (pp_canonical P) (snd r)) (\<lambda>a.
     let x = x\<lparr>o_approval := fst (fst a), o_callers := snd (fst a)\<rparr> in
     bindE (insert_operation x (snd a)) (\<lambda>d'.
     bindE (appendOperationEvent (rnd E 4) ''OPERATION_PREPARED'' x (pp_now P) d') (\<lambda>d''. Inr (x, d''))))))"

definition prepareInTx ::
  "op_codec \<Rightarrow> Service \<Rightarrow> env \<Rightarrow> PrepareRequest \<Rightarrow> prepare_plan \<Rightarrow> db \<Rightarrow> (operation \<times> db) res" where
  "prepareInTx C S E q P d =
     bindE (prepare_guard E (qp_attempt q) P d) (\<lambda>gt.
     bindE (ResolveEffectSlot S (clk E 2) (rnd E 0) (ga_task (fst gt)) (qp_slot_key q) (pp_provider P) (pp_type P)
              (pp_fingerprint P) (pp_canonical P) d) (\<lambda>sd.
     bindE (previous_op C E (qp_attempt q) P (fst sd) (snd sd)) (\<lambda>xd.
     case fst xd of
       Some x \<Rightarrow> Inr (x, snd xd)
     | None \<Rightarrow> prepare_new C E q P (fst gt) (snd gt) (fst sd) (snd xd))))"

definition Prepare :: "op_codec \<Rightarrow> Service \<Rightarrow> env \<Rightarrow> PrepareRequest \<Rightarrow> db \<Rightarrow> db \<times> operation res" where
  "Prepare C S E q d =
     (case prepare_plan_of C S (clk E 0) q d of
        Inl e \<Rightarrow> (d, Inl e)
      | Inr P \<Rightarrow> with_tx (prepareInTx C S E q P) d)"

subsection \<open>Settlement, unknown outcomes and cancellation\<close>

definition SettleOutcomeInTx :: "gtime \<Rightarrow> gtime \<Rightarrow> string \<Rightarrow> ID \<Rightarrow> ProviderOutcome \<Rightarrow> db \<Rightarrow> (operation \<times> db) res" where
  "SettleOutcomeInTx now ledger_now rand k out d =
     bindE (loadOperation k d) (\<lambda>x.
     if o_state x = out_state out then
       (if o_cost x = None \<or> o_cost x \<noteq> Some (out_cost out) \<or> o_reference x \<noteq> trim_space (out_reference out)
        then Inl (Err ''conflicting repeated operation settlement'') else Inr (x, d))
     else if o_state x \<noteq> OperationDispatched \<and> o_state x \<noteq> OperationOutcomeUnknown
     then Inl (Err ''cannot settle operation from state'')
     else bindE (SettleInTx ledger_now (o_reservation x) (out_cost out) d) (\<lambda>d'.
       let f = (\<lambda>y. y\<lparr>o_state := out_state out, o_reference := trim_space (out_reference out),
                      o_reconcile := False, o_cost := Some (out_cost out), o_settled := Some now\<rparr>) in
       bindE (appendOperationEvent rand ''OPERATION_OUTCOME_SETTLED'' x now (set_op (\<lambda>y. o_id y = k) f d'))
         (\<lambda>d''. Inr (f x, d''))))"

definition confirmed :: "operation_state \<Rightarrow> bool" where
  "confirmed st \<longleftrightarrow> st = OperationConfirmedEffect \<or> st = OperationConfirmedNoEffect"

definition SettleOutcome :: "gtime \<Rightarrow> gtime \<Rightarrow> string \<Rightarrow> ID \<Rightarrow> ProviderOutcome \<Rightarrow> db \<Rightarrow> db \<times> operation res" where
  "SettleOutcome now ledger_now rand k out d =
     (if \<not> confirmed (out_state out)
      then (d, Inl (Err ''settlement requires confirmed effect or confirmed no-effect''))
      else if out_cost out < 0 then (d, Inl (Err ''actual cost cannot be negative''))
      else with_tx (SettleOutcomeInTx now ledger_now rand k out) d)"

definition markUnknownInTx :: "gtime \<Rightarrow> gtime \<Rightarrow> string \<Rightarrow> ID \<Rightarrow> db \<Rightarrow> (operation \<times> db) res" where
  "markUnknownInTx now ledger_now rand k d =
     bindE (loadOperation k d) (\<lambda>x.
     if confirmed (o_state x) then Inr (x, d)
     else if o_state x \<noteq> OperationDispatched \<and> o_state x \<noteq> OperationOutcomeUnknown
     then Inl (Err ''cannot mark operation unknown from state'')
     else bindE (MarkUnresolvedInTx ledger_now (o_reservation x) d) (\<lambda>d'.
       let f = (\<lambda>y. y\<lparr>o_state := OperationOutcomeUnknown, o_reconcile := True\<rparr>) in
       bindE (appendOperationEvent rand ''OPERATION_OUTCOME_UNKNOWN'' x now (set_op (\<lambda>y. o_id y = k) f d'))
         (\<lambda>d''. Inr (f x, d''))))"

definition markUnknown :: "gtime \<Rightarrow> gtime \<Rightarrow> string \<Rightarrow> ID \<Rightarrow> db \<Rightarrow> db \<times> operation res" where
  "markUnknown now ledger_now rand k = with_tx (markUnknownInTx now ledger_now rand k)"

definition cancelPrepared :: "env \<Rightarrow> operation \<Rightarrow> ID \<Rightarrow> db \<Rightarrow> db \<times> unit res" where
  "cancelPrepared E op attempt_id =
     WithGuardedAttempt (clk E 1) attempt_id [TaskExecuting] (\<lambda>g. no_result (\<lambda>d.
       bindE (requireE (ga_task g = o_task op) ErrStaleAttempt) (\<lambda>_.
       bindE (loadOperation (o_id op) d) (\<lambda>x.
       if o_state x \<noteq> OperationPrepared then Inr d
       else bindE (cancel_op (clk E 0) (clk E 2) x d)
         (appendOperationEvent (rnd E 0) ''OPERATION_CANCELLED_BEFORE_DISPATCH'' x (clk E 0))))))"

subsection \<open>Reconciliation\<close>

text \<open>
  Every call of a transaction reads the clock and draws identifiers of its own: \<open>site E n\<close> is the
  environment of the n-th transaction of a longer run.
\<close>

definition site :: "env \<Rightarrow> nat \<Rightarrow> env" where
  "site E n = E\<lparr>clk := \<lambda>i. clk E (10 * n + i), rnd := \<lambda>i. rnd E (10 * n + i)\<rparr>"

definition markUnknownAt :: "env \<Rightarrow> ID \<Rightarrow> db \<Rightarrow> db \<times> operation res" where
  "markUnknownAt E = markUnknown (clk E 0) (clk E 1) (rnd E 0)"

definition SettleOutcomeAt :: "env \<Rightarrow> ID \<Rightarrow> ProviderOutcome \<Rightarrow> db \<Rightarrow> db \<times> operation res" where
  "SettleOutcomeAt E = SettleOutcome (clk E 0) (clk E 1) (rnd E 0)"

text \<open>An operation that stays unknown: mark it and report the unknown outcome.\<close>

definition leave_unknown :: "env \<Rightarrow> ID \<Rightarrow> db \<Rightarrow> db \<times> operation res" where
  "leave_unknown E k d =
     (case markUnknownAt E k d of (d', Inl e) \<Rightarrow> (d', Inl e) | (d', Inr x) \<Rightarrow> (d', Inl ErrOutcomeUnknown))"

text \<open>The lookup, and what its answer settles.\<close>

definition lookup_outcome :: "Service \<Rightarrow> env \<Rightarrow> answer \<Rightarrow> operation \<Rightarrow> db \<Rightarrow> db \<times> operation res" where
  "lookup_outcome S E lookup x d =
     (case bindE (providerFor S (o_provider x)) (\<lambda>p. providerRequest (o_id x) d) of
        Inl e \<Rightarrow> (d, Inl e)
      | Inr request \<Rightarrow>
        (case lookup request of
           Inl e \<Rightarrow> leave_unknown (site E 1) (o_id x) d
         | Inr out \<Rightarrow>
             if out_state out = OperationOutcomeUnknown then leave_unknown (site E 1) (o_id x) d
             else if \<not> confirmed (out_state out) then (d, Inl ErrOutcomeUnknown)
             else SettleOutcomeAt (site E 2) (o_id x) out d))"

definition reconcile :: "Service \<Rightarrow> env \<Rightarrow> answer \<Rightarrow> ID \<Rightarrow> db \<Rightarrow> db \<times> operation res" where
  "reconcile S E lookup k d =
     (case loadOperation k d of
        Inl e \<Rightarrow> (d, Inl e)
      | Inr x \<Rightarrow>
        (case o_state x of
           OperationConfirmedEffect \<Rightarrow> (d, Inr x)
         | OperationConfirmedNoEffect \<Rightarrow> (d, Inr x)
         | OperationCancelled \<Rightarrow> (d, Inl (Err ''cancelled operation has no outcome to reconcile''))
         | OperationPrepared \<Rightarrow>
             (d, Inl (Err ''prepared operation must be revalidated at dispatch; reconciler will not send it''))
         | OperationDispatched \<Rightarrow>
             (case markUnknownAt E k d of
                (d', Inl e) \<Rightarrow> (d', Inl e)
              | (d', Inr y) \<Rightarrow> lookup_outcome S E lookup y d')
         | OperationOutcomeUnknown \<Rightarrow> lookup_outcome S E lookup x d
         | OperationOther _ \<Rightarrow> (d, Inl (Err ''unsupported reconciliation state''))))"

definition Reconcile :: "Service \<Rightarrow> env \<Rightarrow> answer \<Rightarrow> ID \<Rightarrow> db \<Rightarrow> db \<times> operation res" where
  "Reconcile S E lookup k d =
     (if k = [] then (d, Inl (Err ''operation id is required'')) else reconcile S E lookup k d)"

text \<open>The operations a restart reconciles, in order, and the loop that stops at the first hard error.\<close>

definition pending_operations :: "db \<Rightarrow> ID list" where
  "pending_operations d =
     map o_id (sort_key (\<lambda>x. (formatTime (o_created x), o_id x))
       (filter (\<lambda>x. o_state x = OperationDispatched \<or> o_state x = OperationOutcomeUnknown \<and> o_reconcile x)
         (db_ops d)))"

fun reconcile_all :: "Service \<Rightarrow> (ID \<Rightarrow> env) \<Rightarrow> answer \<Rightarrow> ID list \<Rightarrow> db \<Rightarrow> db \<times> unit res" where
  "reconcile_all S E lookup [] d = (d, Inr ())"
| "reconcile_all S E lookup (k # ks) d =
     (case reconcile S (E k) lookup k d of
        (d', Inl e) \<Rightarrow> if e = ErrOutcomeUnknown then reconcile_all S E lookup ks d' else (d', Inl e)
      | (d', Inr x) \<Rightarrow> reconcile_all S E lookup ks d')"

definition ReconcilePending :: "Service \<Rightarrow> (ID \<Rightarrow> env) \<Rightarrow> answer \<Rightarrow> db \<Rightarrow> db \<times> unit res" where
  "ReconcilePending S E lookup d = reconcile_all S E lookup (pending_operations d) d"

subsection \<open>Dispatch\<close>

text \<open>The row and its reservation and slot, as the joined query of the dispatch reads them.\<close>

definition dispatch_row :: "operation \<Rightarrow> db \<Rightarrow> (reservation \<times> slot_row) res" where
  "dispatch_row x d =
     (case find_by r_id (o_reservation x) (db_reservations d) of
        None \<Rightarrow> Inl ErrNoRows
      | Some r \<Rightarrow> (case find_by s_id (o_slot x) (db_slots d) of None \<Rightarrow> Inl ErrNoRows | Some s \<Rightarrow> Inr (r, s)))"

text \<open>What \<open>Dispatch\<close> knows when it opens its transaction.\<close>

record dispatch_plan =
  dp_now :: gtime
  dp_operation :: ID
  dp_task :: ID
  dp_attempt :: ID
  dp_provider :: Provider
  dp_type :: string
  dp_decision :: policy_decision

definition dispatch_guard :: "env \<Rightarrow> dispatch_plan \<Rightarrow> db \<Rightarrow> (operation \<times> slot_row) res" where
  "dispatch_guard E P d =
     bindE (GuardAttempt (clk E 1) (dp_attempt P) [TaskExecuting] d) (\<lambda>g.
     bindE (requireE (ga_task g = dp_task P) ErrStaleAttempt) (\<lambda>_.
     bindE (loadTaskControlTx (ga_task g) d) (\<lambda>t.
     bindE (requireE (authority_covers (dp_provider P) t) ErrPolicyDenied) (\<lambda>_.
     bindE (validateDecisionProvenance (dp_decision P) (dp_now P)) (\<lambda>_.
     bindE (validateDispatchOutcome (pd_outcome (dp_decision P))) (\<lambda>_.
     bindE (loadOperation (dp_operation P) d) (\<lambda>x.
     bindE (requireE (o_state x = OperationPrepared \<and> o_attempt x = dp_attempt P) ErrStaleAttempt) (\<lambda>_.
     bindE (dispatch_row x d) (\<lambda>rs.
     bindE (requireE (\<not> (o_cancel_requested x \<or> r_state (fst rs) \<noteq> ReservationHeld)) ErrPolicyDenied) (\<lambda>_.
     bindE (requireE (s_fingerprint (snd rs) = o_fingerprint x \<and> s_revision (snd rs) = o_revision x)
              ErrIntentConflict) (\<lambda>_.
     Inr (x, snd rs))))))))))))"

text \<open>The conditional update with its trigger and the unique claim.\<close>

definition commit_dispatch :: "env \<Rightarrow> dispatch_plan \<Rightarrow> db \<Rightarrow> db res" where
  "commit_dispatch E P d =
     (let hit = (\<lambda>x. o_id x = dp_operation P \<and> o_state x = OperationPrepared \<and> o_claim x = None \<and>
                  \<not> o_cancel_requested x);
          claim = NewID ''dispatch'' (rnd E 0); c = dp_decision P in
      bindE (requireE (\<not> exists_where hit (db_ops d) \<or> profile_active (pd_set_id c) (pd_set_hash c) (pd_caps_hash c) d)
               policyProfileInactiveMarker) (\<lambda>_.
      bindE (requireE (\<not> exists_where hit (db_ops d) \<or> \<not> exists_where (\<lambda>x. o_claim x = Some claim) (db_ops d))
               (ErrConstraint ''UNIQUE'')) (\<lambda>_.
      bindE (requireE (count_where hit (db_ops d) = 1) ErrStaleAttempt) (\<lambda>_.
      Inr (set_op hit (\<lambda>x. x\<lparr>o_state := OperationDispatched, o_claim := Some claim,
             o_dispatch_decision := Some (decision_source c), o_dispatched := Some (dp_now P)\<rparr>) d)))))"

definition dispatchInTx :: "op_codec \<Rightarrow> env \<Rightarrow> dispatch_plan \<Rightarrow> db \<Rightarrow> (ProviderDispatchRequest \<times> db) res" where
  "dispatchInTx C E P d =
     bindE (dispatch_guard E P d) (\<lambda>xs.
     bindE (validateAndConsumeApprovalInTx C (clk E 2) (fst xs) (dp_decision P)
              (normalizeApprovalIDs (o_callers (fst xs))) (dp_provider P) (dp_type P) (s_canonical (snd xs)) d) (\<lambda>d1.
     bindE (commit_dispatch E P d1) (\<lambda>d2.
     bindE (appendOperationEvent (rnd E 1) ''OPERATION_DISPATCH_COMMITTED'' (fst xs) (dp_now P) d2) (\<lambda>d3.
     Inr (request_of (fst xs) (snd xs), d3)))))"

text \<open>What a dispatch does with the answer of the provider.\<close>

definition dispatch_answer :: "env \<Rightarrow> ID \<Rightarrow> ProviderOutcome res \<Rightarrow> db \<Rightarrow> db \<times> operation res" where
  "dispatch_answer E k ack d =
     (case ack of
        Inl e \<Rightarrow> leave_unknown (site E 3) k d
      | Inr out \<Rightarrow>
          if \<not> confirmed (out_state out) then leave_unknown (site E 3) k d
          else SettleOutcomeAt (site E 3) k out d)"

text \<open>A prepared operation that the policy no longer allows is cancelled instead.\<close>

definition refuse_dispatch :: "env \<Rightarrow> operation \<Rightarrow> ID \<Rightarrow> db \<Rightarrow> db \<times> operation res" where
  "refuse_dispatch E x attempt_id d =
     (case cancelPrepared (site E 1) x attempt_id d of
        (d', Inl e) \<Rightarrow> (d', Inl e)
      | (d', Inr u) \<Rightarrow>
          (case loadOperation (o_id x) d' of Inl e \<Rightarrow> (d', Inl e) | Inr y \<Rightarrow> (d', Inl ErrPolicyDenied)))"

text \<open>The reads and the policy decision ahead of the transaction; the flag is whether to go on.\<close>

definition dispatch_plan_of ::
  "Service \<Rightarrow> gtime \<Rightarrow> operation \<Rightarrow> ID \<Rightarrow> db \<Rightarrow> (dispatch_plan \<times> bool) res" where
  "dispatch_plan_of S now x attempt_id d =
     bindE (providerFor S (o_provider x)) (\<lambda>p.
     bindE (controlForAttempt attempt_id d) (\<lambda>t.
     bindE (requireE (t_id t = o_task x) ErrStaleAttempt) (\<lambda>_.
     bindE (controlDescriptorType (o_slot x) d) (\<lambda>dtype.
     bindE (controlRisk (o_id x) d) (\<lambda>risk.
     bindE (evaluatePolicy S \<lparr>px_now = now, px_risk = risk, px_authority = authority_covers p t,
              px_task = o_task x, px_attempt = attempt_id, px_provider = p, px_type = dtype,
              px_phase = ''DISPATCH'', px_attributes = (\<lambda>_. None)\<rparr>) (\<lambda>c.
     Inr (\<lparr>dp_now = now, dp_operation = o_id x, dp_task = o_task x, dp_attempt = attempt_id, dp_provider = p,
            dp_type = dtype, dp_decision = c\<rparr>,
          validateDecisionProvenance c now = Inr () \<and> validateDispatchOutcome (pd_outcome c) = Inr () \<and>
          authority_covers p t)))))))"

definition guardAttemptForTask :: "gtime \<Rightarrow> ID \<Rightarrow> ID \<Rightarrow> db \<Rightarrow> db \<times> unit res" where
  "guardAttemptForTask now attempt_id task_id =
     WithGuardedAttempt now attempt_id [TaskExecuting] (\<lambda>g. no_result (\<lambda>d.
       bindE (requireE (ga_task g = task_id) ErrStaleAttempt) (\<lambda>_. Inr d)))"

text \<open>
  The result is the store, the requests that were sent to the provider and the outcome of the call.
\<close>

definition dispatch_prepared ::
  "op_codec \<Rightarrow> Service \<Rightarrow> env \<Rightarrow> answer \<Rightarrow> operation \<Rightarrow> ID \<Rightarrow> db \<Rightarrow> db \<times> ProviderDispatchRequest list \<times> operation res" where
  "dispatch_prepared C S E send x attempt_id d =
     (case dispatch_plan_of S (clk E 0) x attempt_id d of
        Inl e \<Rightarrow> (d, [], Inl e)
      | Inr Pg \<Rightarrow>
          if \<not> snd Pg then
            (case refuse_dispatch E x attempt_id d of (d', r) \<Rightarrow> (d', [], r))
          else
            (case with_tx (dispatchInTx C E (fst Pg)) d of
               (d', Inl e) \<Rightarrow> (d', [], Inl e)
             | (d', Inr rq) \<Rightarrow>
                 (case dispatch_answer E (o_id x) (send rq) d' of (d'', r) \<Rightarrow> (d'', [rq], r))))"

definition Dispatch ::
  "op_codec \<Rightarrow> Service \<Rightarrow> env \<Rightarrow> answer \<Rightarrow> answer \<Rightarrow> ID \<Rightarrow> ID \<Rightarrow> db \<Rightarrow>
   db \<times> ProviderDispatchRequest list \<times> operation res" where
  "Dispatch C S E send lookup k attempt_id d =
     (if k = [] \<or> attempt_id = []
      then (d, [], Inl (Err ''operation id and current attempt id are required''))
      else (case loadOperation k d of
        Inl e \<Rightarrow> (d, [], Inl e)
      | Inr x \<Rightarrow>
        (case o_state x of
           OperationConfirmedEffect \<Rightarrow> (d, [], Inr x)
         | OperationConfirmedNoEffect \<Rightarrow> (d, [], Inr x)
         | OperationCancelled \<Rightarrow> (d, [], Inl (Err ''cancelled operation cannot be dispatched''))
         | OperationPrepared \<Rightarrow>
             if o_attempt x \<noteq> attempt_id then (d, [], Inl ErrStaleAttempt)
             else dispatch_prepared C S E send x attempt_id d
         | OperationOther _ \<Rightarrow> (d, [], Inl (Err ''unsupported operation state''))
         | _ \<Rightarrow>
             (case guardAttemptForTask (clk E 0) attempt_id (o_task x) d of
                (d', Inl e) \<Rightarrow> (d', [], Inl e)
              | (d', Inr u) \<Rightarrow> (case reconcile S (site E 4) lookup k d' of (d'', r) \<Rightarrow> (d'', [], r))))))"

end
