(* ===== verification/Feedback.thy ===== *)
theory Feedback
  imports Detectors Operations
begin

text \<open>
  Feedback candidates (\<open>internal/fieldfeedback/feedback.go\<close>): what is to be reported about observations, in categorical tokens, and the
  states of a candidate. \<open>encoding/json\<close> and SHA-256 in hexadecimal are arguments: encoding cannot fail for the values used here,
  decoding can. The column \<open>updated_at\<close> is written and never read; it is left out.
\<close>

subsection \<open>Values and codecs\<close>

record NormalizedMetrics =
  nm_retry :: "int option"
  nm_latency :: "int option"
  nm_cost :: "int option"

record CandidateInput =
  ci_observations :: "ID list"
  ci_class :: GenericTaskClass
  ci_category :: string
  ci_expected :: string
  ci_observed :: string
  ci_transitions :: "string list"
  ci_metrics :: NormalizedMetrics
  ci_human :: bool
  ci_recovery :: string
  ci_runtime :: string
  ci_executor :: string
  ci_executor_version :: string
  ci_enforcement :: enforcement_level

datatype json = JText string | JNumber int | JFlag bool | JArray "json list" | JObject "(string \<times> json) list"

record feedback_codec =
  fb_marshal :: "json \<Rightarrow> string"
  fb_strings :: "string \<Rightarrow> string list res"
  fb_metrics :: "string \<Rightarrow> NormalizedMetrics res"
  fb_sha :: "string \<Rightarrow> string"

text \<open>A field with \<open>omitempty\<close> is left out when it is the empty string or a nil pointer.\<close>

definition text_field :: "string \<Rightarrow> string \<Rightarrow> (string \<times> json) list" where
  "text_field name s = (if s = [] then [] else [(name, JText s)])"

definition number_field :: "string \<Rightarrow> int option \<Rightarrow> (string \<times> json) list" where
  "number_field name x = (case x of None \<Rightarrow> [] | Some n \<Rightarrow> [(name, JNumber n)])"

definition json_texts :: "string list \<Rightarrow> json" where
  "json_texts xs = JArray (map JText xs)"

definition json_metrics :: "NormalizedMetrics \<Rightarrow> json" where
  "json_metrics m = JObject (number_field ''retry_count'' (nm_retry m) @ number_field ''latency_ms'' (nm_latency m) @
     number_field ''cost_units'' (nm_cost m))"

subsection \<open>Candidates\<close>

definition safeCategoryToken :: "string \<Rightarrow> bool" where
  "safeCategoryToken = token_text (in_ranges [upper_range]) (in_ranges [upper_range, digit_range, (CHR ''_'', CHR ''_'')]) 63"

definition safeExecutorToken :: "string \<Rightarrow> bool" where
  "safeExecutorToken = token_text letter_or_digit (\<lambda>c. letter_or_digit c \<or> c \<in> set ''._-'') 63"

definition safeTransitionTokens :: "string list" where
  "safeTransitionTokens =
     [''CREATED'', ''ELIGIBLE'', ''EXECUTING'', ''AWAITING_VERIFICATION'',
      ''SUCCEEDED'', ''FAILED'', ''BLOCKED'', ''CANCELLED'', ''CHALLENGED'', ''EXPIRED'',
      ''LEASED'', ''RUNNING'', ''COMPLETED'', ''ACTIVE'', ''REVOKED'',
      ''PREPARED'', ''DISPATCHED'', ''CONFIRMED_EFFECT'', ''CONFIRMED_NO_EFFECT'', ''OUTCOME_UNKNOWN'',
      ''PENDING'', ''APPROVED'', ''REJECTED'', ''CONSUMED'',
      ''OPERATION_PREPARED'', ''OPERATION_DISPATCH_COMMITTED'', ''OPERATION_OUTCOME_UNKNOWN'',
      ''OPERATION_OUTCOME_SETTLED'', ''OPERATION_CANCELLED_BEFORE_DISPATCH'',
      ''HUMAN_INTERVENTION'', ''VERIFICATION_ACCEPTED'', ''VERIFICATION_REJECTED'']"

definition safeTransitionToken :: "string \<Rightarrow> bool" where
  "safeTransitionToken s \<longleftrightarrow> s \<in> set safeTransitionTokens"

fun candidateTransitionAllowed :: "candidate_state \<Rightarrow> candidate_state \<Rightarrow> bool" where
  "candidateTransitionAllowed FeedbackStateCandidate b \<longleftrightarrow> b \<in> {FeedbackStateSanitizing, FeedbackStateLocalOnly}"
| "candidateTransitionAllowed FeedbackStateSanitizing b \<longleftrightarrow>
     b \<in> {FeedbackStateSanitized, FeedbackStateRejectedUnsafe, FeedbackStateLocalOnly}"
| "candidateTransitionAllowed FeedbackStateSanitized b \<longleftrightarrow>
     b \<in> {FeedbackStateSanitizing, FeedbackStateApprovalPending, FeedbackStateExportReady, FeedbackStateDuplicate, FeedbackStateLocalOnly}"
| "candidateTransitionAllowed FeedbackStateApprovalPending b \<longleftrightarrow>
     b \<in> {FeedbackStateExportReady, FeedbackStateRejectedPolicy, FeedbackStateDuplicate, FeedbackStateLocalOnly}"
| "candidateTransitionAllowed FeedbackStateExportReady b \<longleftrightarrow>
     b \<in> {FeedbackStateReported, FeedbackStateRejectedPolicy, FeedbackStateDuplicate, FeedbackStateLocalOnly}"
| "candidateTransitionAllowed _ b \<longleftrightarrow> False"

definition validCandidateState :: "candidate_state \<Rightarrow> bool" where
  "validCandidateState s = (case s of FeedbackStateOther _ \<Rightarrow> False | _ \<Rightarrow> True)"

definition candidateCorrelationKey ::
  "feedback_codec \<Rightarrow> string \<Rightarrow> GenericTaskClass \<Rightarrow> string \<Rightarrow> enforcement_level \<Rightarrow> string list \<Rightarrow> string" where
  "candidateCorrelationKey K category task_class executor level transitions =
     fb_sha K (fb_marshal K (JObject ([(''category'', JText category), (''generic_task_class'', JText (class_text task_class))] @
       text_field ''executor_kind'' executor @
       [(''enforcement'', JText (enforcement_text level)), (''state_transitions'', json_texts transitions)])))"

definition trimmed_candidate :: "CandidateInput \<Rightarrow> CandidateInput" where
  "trimmed_candidate q = q\<lparr>ci_observations := clean_ids (ci_observations q), ci_category := trim_space (ci_category q),
     ci_expected := trim_space (ci_expected q), ci_observed := trim_space (ci_observed q), ci_recovery := trim_space (ci_recovery q),
     ci_runtime := trim_space (ci_runtime q), ci_executor := trim_space (ci_executor q),
     ci_executor_version := trim_space (ci_executor_version q)\<rparr>"

definition below_zero_option :: "int option \<Rightarrow> bool" where
  "below_zero_option x = (case x of None \<Rightarrow> False | Some n \<Rightarrow> n < 0)"

definition normalizeCandidateInput :: "feedback_codec \<Rightarrow> CandidateInput \<Rightarrow> (CandidateInput \<times> string \<times> string \<times> string) res" where
  "normalizeCandidateInput K q =
     (let q = trimmed_candidate q in
      if ci_observations q = [] then Inl (Err ''candidate requires at least one observation'')
      else if \<not> class_valid (ci_class q) then Inl (Err ''invalid privacy-safe generic task class'')
      else if ci_category q = [] \<or> \<not> safeCategoryToken (ci_category q)
      then Inl (Err ''candidate category must be a privacy-safe categorical token'')
      else if ci_expected q = [] \<or> ci_observed q = [] then Inl (Err ''candidate expected and observed behavior are required'')
      else if ci_executor q \<noteq> [] \<and> \<not> safeExecutorToken (ci_executor q)
      then Inl (Err ''executor kind must be a privacy-safe categorical token'')
      else if \<not> known_enforcement (ci_enforcement q) then Inl (Err ''invalid enforcement level'')
      else if below_zero_option (nm_retry (ci_metrics q)) \<or> below_zero_option (nm_latency (ci_metrics q)) \<or> below_zero_option (nm_cost (ci_metrics q))
      then Inl (Err ''normalized candidate metrics cannot be negative'')
      else let transitions = map trim_space (ci_transitions q) in
        if \<not> list_all safeTransitionToken transitions then Inl (Err ''unsafe or unknown state transition token'')
        else Inr (q\<lparr>ci_transitions := transitions\<rparr>, fb_marshal K (json_texts transitions), fb_marshal K (json_metrics (ci_metrics q)),
               candidateCorrelationKey K (ci_category q) (ci_class q) (ci_executor q) (ci_enforcement q) transitions))"

definition loadCandidate :: "ID \<Rightarrow> db \<Rightarrow> FeedbackCandidate res" where
  "loadCandidate k d =
     (case find_by fc_id k (ft_candidates (db_feedback d)) of None \<Rightarrow> Inl (Err ''feedback candidate not found'') | Some c \<Rightarrow> Inr c)"

definition insert_candidate :: "FeedbackCandidate \<Rightarrow> db \<Rightarrow> db res" where
  "insert_candidate c d =
     bindE (requireE (validCandidateState (fc_state c) \<and> class_valid (fc_class c) \<and> known_enforcement (fc_enforcement c)) (ErrConstraint ''CHECK'')) (\<lambda>_.
     bindE (insert_unique fc_id c (ft_candidates (db_feedback d))) (\<lambda>rows.
     Inr (set_feedback (\<lambda>t. t\<lparr>ft_candidates := rows\<rparr>) d)))"

definition insert_candidate_links :: "ID \<Rightarrow> ID list \<Rightarrow> db \<Rightarrow> db res" where
  "insert_candidate_links k observations d =
     (let rows = ft_candidate_observations (db_feedback d); new = map (Pair k) observations in
      bindE (requireE (distinct new \<and> set new \<inter> set rows = {}) (ErrConstraint ''UNIQUE'')) (\<lambda>_.
      Inr (set_feedback (\<lambda>t. t\<lparr>ft_candidate_observations := rows @ new\<rparr>) d)))"

definition candidate_of :: "env \<Rightarrow> CandidateInput \<Rightarrow> string \<Rightarrow> string \<Rightarrow> string \<Rightarrow> FeedbackCandidate" where
  "candidate_of E q transitions metrics key =
     \<lparr>fc_id = NewID ''feedback'' (rnd E 0), fc_state = FeedbackStateCandidate, fc_class = ci_class q, fc_category = ci_category q,
      fc_expected = ci_expected q, fc_observed = ci_observed q, fc_transitions = transitions, fc_metrics = metrics,
      fc_human = ci_human q, fc_recovery = ci_recovery q, fc_runtime = ci_runtime q, fc_executor = ci_executor q,
      fc_executor_version = ci_executor_version q, fc_enforcement = ci_enforcement q, fc_correlation = key, fc_created = clk E 0\<rparr>"

definition create_candidate_tx :: "FeedbackCandidate \<Rightarrow> ID list \<Rightarrow> db \<Rightarrow> (FeedbackCandidate \<times> db) res" where
  "create_candidate_tx c observations d =
     bindE (requireE (\<forall>k \<in> set observations. exists_where (\<lambda>r. fo_id r = k) (ft_observations (db_feedback d))) (Err ''observation not found'')) (\<lambda>_.
     bindE (insert_candidate c d) (\<lambda>d.
     bindE (insert_candidate_links (fc_id c) observations d) (\<lambda>d. Inr (c, d))))"

definition CreateCandidate :: "feedback_codec \<Rightarrow> env \<Rightarrow> CandidateInput \<Rightarrow> db \<Rightarrow> db \<times> FeedbackCandidate res" where
  "CreateCandidate K E input d =
     (case normalizeCandidateInput K input of
        Inl e \<Rightarrow> (d, Inl e)
      | Inr (q, transitions, metrics, key) \<Rightarrow>
          with_tx (create_candidate_tx (candidate_of E q transitions metrics key) (ci_observations q)) d)"

definition Candidate :: "ID \<Rightarrow> db \<Rightarrow> FeedbackCandidate res" where
  "Candidate k d =
     (let k = trim_space k in if k = [] then Inl (Err ''candidate id is required'') else loadCandidate k d)"

definition Candidates :: "candidate_state \<Rightarrow> db \<Rightarrow> FeedbackCandidate list res" where
  "Candidates state d =
     (if state \<noteq> FeedbackStateOther [] \<and> \<not> validCandidateState state then Inl (Err ''invalid feedback candidate state'')
      else all_results (map (\<lambda>c. Candidate (fc_id c) d)
             (sort_key (\<lambda>c. (formatTime (fc_created c), fc_id c))
               (filter (\<lambda>c. state = FeedbackStateOther [] \<or> fc_state c = state) (ft_candidates (db_feedback d))))))"

definition transitionCandidateInTx :: "ID \<Rightarrow> candidate_state \<Rightarrow> db \<Rightarrow> db res" where
  "transitionCandidateInTx k target d =
     (let k = trim_space k in
      if k = [] \<or> \<not> validCandidateState target then Inl (Err ''candidate id and valid target state are required'')
      else bindE (loadCandidate k d) (\<lambda>current.
        if fc_state current = target then Inr d
        else if \<not> candidateTransitionAllowed (fc_state current) target then Inl (Err ''illegal feedback candidate transition'')
        else let sel = (\<lambda>c. fc_id c = k \<and> fc_state c = fc_state current) in
          if count_where sel (ft_candidates (db_feedback d)) \<noteq> 1 then Inl (Err ''feedback candidate was concurrently changed'')
          else Inr (set_feedback (\<lambda>t. t\<lparr>ft_candidates := update_where sel (\<lambda>c. c\<lparr>fc_state := target\<rparr>) (ft_candidates t)\<rparr>) d)))"

definition transitionCandidate :: "ID \<Rightarrow> candidate_state \<Rightarrow> db \<Rightarrow> db \<times> unit res" where
  "transitionCandidate k target d = with_tx (\<lambda>d. bindE (transitionCandidateInTx k target d) (\<lambda>d. Inr ((), d))) d"

end
