(* ===== verification/Regexp.thy ===== *)
theory Regexp
  imports Go_Library
begin

text \<open>
  The part of Go's package \<open>regexp\<close> that the code uses: byte classes, sequences, alternatives, bounded and unbounded repetitions, \<open>\b\<close>,
  and the anchors \<open>^\<close> and \<open>$\<close> with and without the flag \<open>m\<close>. A pattern relates positions of the text, so that the assertions see what
  surrounds a match. \<open>matched\<close> says what a pattern means; \<open>ends\<close> computes it with lists of positions; both agree. Texts are
  byte strings: the only runes beyond ASCII that the patterns name are the two that \<open>(?i)\<close> adds to \<open>k\<close> and \<open>s\<close>.
\<close>

subsection \<open>Patterns and their meaning\<close>

datatype regex =
    Class bool "(char \<times> char) list"
  | Epsilon
  | Word_edge
  | Line_begin
  | Text_begin
  | Text_end
  | Seq regex regex
  | Alt regex regex
  | Repeat regex nat "nat option"

definition in_class :: "bool \<Rightarrow> (char \<times> char) list \<Rightarrow> char \<Rightarrow> bool" where
  "in_class positive ranges c \<longleftrightarrow> (in_ranges ranges c \<longleftrightarrow> positive)"

definition underscore :: "char \<times> char" where
  "underscore = (CHR ''_'', CHR ''_'')"

definition word_byte :: "string \<Rightarrow> nat \<Rightarrow> bool" where
  "word_byte w i \<longleftrightarrow> i < length w \<and> in_ranges [digit_range, upper_range, lower_range, underscore] (w ! i)"

definition at_word_edge :: "string \<Rightarrow> nat \<Rightarrow> bool" where
  "at_word_edge w i \<longleftrightarrow> (0 < i \<and> word_byte w (i - 1)) \<noteq> word_byte w i"

definition at_line_begin :: "string \<Rightarrow> nat \<Rightarrow> bool" where
  "at_line_begin w i \<longleftrightarrow> i = 0 \<or> i \<le> length w \<and> w ! (i - 1) = CHR 0x0A"

fun matched :: "regex \<Rightarrow> string \<Rightarrow> nat \<Rightarrow> nat \<Rightarrow> bool" where
  "matched (Class positive ranges) w i j \<longleftrightarrow> i < length w \<and> j = Suc i \<and> in_class positive ranges (w ! i)"
| "matched Epsilon w i j \<longleftrightarrow> j = i"
| "matched Word_edge w i j \<longleftrightarrow> j = i \<and> at_word_edge w i"
| "matched Line_begin w i j \<longleftrightarrow> j = i \<and> at_line_begin w i"
| "matched Text_begin w i j \<longleftrightarrow> j = i \<and> i = 0"
| "matched Text_end w i j \<longleftrightarrow> j = i \<and> i = length w"
| "matched (Seq r s) w i j \<longleftrightarrow> (matched r w OO matched s w) i j"
| "matched (Alt r s) w i j \<longleftrightarrow> matched r w i j \<or> matched s w i j"
| "matched (Repeat r m n) w i j \<longleftrightarrow> (\<exists>k \<ge> m. (case n of None \<Rightarrow> True | Some n \<Rightarrow> k \<le> n) \<and> (matched r w ^^ k) i j)"

text \<open>\<open>MatchString\<close> looks for a match anywhere in the text.\<close>

definition occurs_in :: "regex \<Rightarrow> string \<Rightarrow> bool" where
  "occurs_in r w \<longleftrightarrow> (\<exists>i j. i \<le> length w \<and> matched r w i j)"

subsection \<open>The matcher\<close>

definition step_all :: "(nat \<Rightarrow> nat list) \<Rightarrow> nat list \<Rightarrow> nat list" where
  "step_all f ps = remdups (concat (map f ps))"

fun at_most :: "(nat \<Rightarrow> nat list) \<Rightarrow> nat \<Rightarrow> nat list \<Rightarrow> nat list" where
  "at_most f 0 ps = ps"
| "at_most f (Suc n) ps =
     (let qs = filter (\<lambda>q. q \<notin> set ps) (step_all f ps) in if qs = [] then ps else at_most f n (ps @ qs))"

fun exactly :: "(nat \<Rightarrow> nat list) \<Rightarrow> nat \<Rightarrow> nat list \<Rightarrow> nat list" where
  "exactly f 0 ps = ps"
| "exactly f (Suc n) ps = (if ps = [] then [] else exactly f n (step_all f ps))"

fun ends :: "regex \<Rightarrow> string \<Rightarrow> nat \<Rightarrow> nat list" where
  "ends (Class positive ranges) w i = (if i < length w \<and> in_class positive ranges (w ! i) then [Suc i] else [])"
| "ends Epsilon w i = [i]"
| "ends Word_edge w i = (if at_word_edge w i then [i] else [])"
| "ends Line_begin w i = (if at_line_begin w i then [i] else [])"
| "ends Text_begin w i = (if i = 0 then [i] else [])"
| "ends Text_end w i = (if i = length w then [i] else [])"
| "ends (Seq r s) w i = step_all (ends s w) (ends r w i)"
| "ends (Alt r s) w i = remdups (ends r w i @ ends s w i)"
| "ends (Repeat r m n) w i =
     (if n \<noteq> None \<and> the n < m then []
      else at_most (ends r w) (case n of None \<Rightarrow> length w | Some n \<Rightarrow> n - m) (exactly (ends r w) m [i]))"

definition MatchString :: "regex \<Rightarrow> string \<Rightarrow> bool" where
  "MatchString r w \<longleftrightarrow> (\<exists>i \<in> set [0 ..< Suc (length w)]. ends r w i \<noteq> [])"

subsection \<open>The matcher computes the meaning\<close>

lemma set_step_all [simp]: "set (step_all f ps) = {q. \<exists>p \<in> set ps. q \<in> set (f p)}"
  by (auto simp: step_all_def)

lemma set_exactly: "set (exactly f n ps) = {q. \<exists>p \<in> set ps. ((\<lambda>p q. q \<in> set (f p)) ^^ n) p q}"
proof (induction n arbitrary: ps)
  case (Suc n)
  have "set (exactly f (Suc n) ps) = set (exactly f n (step_all f ps))"
    using Suc by (cases "ps = []") auto
  with Suc show ?case unfolding relpowp_Suc_left by (auto simp: relcompp.simps)
qed auto

lemma closed_relpowp: "\<forall>p \<in> A. \<forall>q. r p q \<longrightarrow> q \<in> A \<Longrightarrow> p \<in> A \<Longrightarrow> (r ^^ n) p q \<Longrightarrow> q \<in> A"
  by (induction n arbitrary: q) auto

lemma set_at_most: "set (at_most f n ps) = {q. \<exists>p \<in> set ps. \<exists>k \<le> n. ((\<lambda>p q. q \<in> set (f p)) ^^ k) p q}"
proof (induction n arbitrary: ps)
  case (Suc n)
  let ?r = "\<lambda>p q. q \<in> set (f p)" and ?qs = "filter (\<lambda>q. q \<notin> set ps) (step_all f ps)"
  have split: "(\<exists>p \<in> set ps. \<exists>k \<le> Suc n. (?r ^^ k) p q) \<longleftrightarrow> (\<exists>p \<in> set (ps @ ?qs). \<exists>k \<le> n. (?r ^^ k) p q)" for q
  proof
    assume "\<exists>p \<in> set ps. \<exists>k \<le> Suc n. (?r ^^ k) p q"
    then obtain p k where p: "p \<in> set ps" "k \<le> Suc n" "(?r ^^ k) p q" by blast
    show "\<exists>p \<in> set (ps @ ?qs). \<exists>k \<le> n. (?r ^^ k) p q"
    proof (cases k)
      case 0
      with p have "p = q" by simp
      with p(1) show ?thesis by (intro bexI [of _ p] exI [of _ 0]) auto
    next
      case (Suc m)
      then obtain x where x: "?r p x" "(?r ^^ m) x q" using p(3) by (blast elim: relpowp_Suc_E2)
      then have "x \<in> set (ps @ ?qs)" using p(1) by auto
      with x(2) Suc p(2) show ?thesis by auto
    qed
  next
    assume "\<exists>p \<in> set (ps @ ?qs). \<exists>k \<le> n. (?r ^^ k) p q"
    then obtain p k where p: "p \<in> set (ps @ ?qs)" "k \<le> n" "(?r ^^ k) p q" by blast
    show "\<exists>p \<in> set ps. \<exists>k \<le> Suc n. (?r ^^ k) p q"
    proof (cases "p \<in> set ps")
      case False
      with p(1) obtain p' where "p' \<in> set ps" "?r p' p" by auto
      with p(2,3) show ?thesis by (meson Suc_le_mono relpowp_Suc_I2)
    qed (use p in \<open>auto intro: le_SucI\<close>)
  qed
  show ?case
  proof (cases "?qs = []")
    case True
    then have "\<forall>p \<in> set ps. \<forall>q. ?r p q \<longrightarrow> q \<in> set ps" by (auto simp: filter_empty_conv)
    then have sub: "{q. \<exists>p \<in> set ps. \<exists>k \<le> Suc n. (?r ^^ k) p q} \<subseteq> set ps" using closed_relpowp [of "set ps" ?r] by blast
    have sup: "set ps \<subseteq> {q. \<exists>p \<in> set ps. \<exists>k \<le> Suc n. (?r ^^ k) p q}"
    proof
      fix q assume "q \<in> set ps"
      then show "q \<in> {q. \<exists>p \<in> set ps. \<exists>k \<le> Suc n. (?r ^^ k) p q}"
        by (intro CollectI bexI [of _ q] exI [of _ 0] conjI) simp_all
    qed
    have "at_most f (Suc n) ps = ps" by (simp only: at_most.simps Let_def True refl if_True)
    then show ?thesis using subset_antisym [OF sup sub] by (simp only:)
  next
    case False
    then have "at_most f (Suc n) ps = at_most f n (ps @ ?qs)" by (simp only: at_most.simps Let_def if_False)
    then have "set (at_most f (Suc n) ps) = {q. \<exists>p \<in> set (ps @ ?qs). \<exists>k \<le> n. (?r ^^ k) p q}" by (simp only: Suc)
    with split show ?thesis by blast
  qed
qed auto

lemma matched_mono: "matched r w i j \<Longrightarrow> i \<le> j"
proof (induction r arbitrary: i j)
  case (Repeat r m n)
  then obtain k where "(matched r w ^^ k) i j" by auto
  then show ?case
  proof (induction k arbitrary: j)
    case (Suc k)
    then show ?case using Repeat.IH by (auto intro: order_trans)
  qed simp
next
  case (Seq r s)
  then show ?case by (auto simp: relcompp.simps) (meson order_trans)
qed auto

lemma matched_bound: "matched r w i j \<Longrightarrow> i \<le> length w \<Longrightarrow> j \<le> length w"
proof (induction r arbitrary: i j)
  case (Repeat r m n)
  then obtain k where "(matched r w ^^ k) i j" by auto
  then show ?case
  proof (induction k arbitrary: j)
    case (Suc k)
    then show ?case using Repeat.IH by auto
  qed (use Repeat.prems in simp)
qed auto

text \<open>Iterations that stay where they are can be dropped; those left move on, so the text bounds their number.\<close>

lemma few_iterations:
  assumes "\<And>p q. r p q \<Longrightarrow> p \<le> (q :: nat)" and "(r ^^ k) i j"
  shows "\<exists>k'. k' \<le> j - i \<and> (r ^^ k') i j"
  using assms(2)
proof (induction k arbitrary: j)
  case (Suc k)
  then obtain x where x: "(r ^^ k) i x" "r x j" by auto
  obtain k' where k': "k' \<le> x - i" "(r ^^ k') i x" using Suc.IH [OF x(1)] by blast
  have "i \<le> x" using k'(2) assms(1) by (induction k' arbitrary: x) (auto intro: order_trans)
  show ?case
  proof (cases "x = j")
    case False
    with assms(1) [OF x(2)] \<open>i \<le> x\<close> k'(1) have "Suc k' \<le> j - i" by simp
    moreover have "(r ^^ Suc k') i j" using k'(2) x(2) by auto
    ultimately show ?thesis by blast
  qed (use k' in auto)
qed auto

lemma ends_matched: "i \<le> length w \<Longrightarrow> j \<in> set (ends r w i) \<longleftrightarrow> matched r w i j"
proof (induction r arbitrary: i j)
  case (Seq r s)
  then show ?case using matched_bound by (auto simp: relcompp.simps)
next
  case (Repeat r m n)
  let ?f = "\<lambda>p q. q \<in> set (ends r w p)"
  have powers: "(?f ^^ k) p q \<longleftrightarrow> (matched r w ^^ k) p q" if "p \<le> length w" for k p q
  proof (induction k arbitrary: q)
    case (Suc k)
    have "x \<le> length w" if "(matched r w ^^ k) p x" for x
      using that \<open>p \<le> length w\<close> by (induction k arbitrary: x) (auto intro: matched_bound)
    with Suc Repeat.IH show ?case by (auto simp: relcompp.simps)
  qed simp
  have run: "q \<in> set (at_most (ends r w) b (exactly (ends r w) m [i])) \<longleftrightarrow> (\<exists>k \<le> b. (matched r w ^^ (m + k)) i q)" for q b
    unfolding powers [OF Repeat.prems, symmetric] by (auto simp: set_at_most set_exactly relpowp_add relcompp.simps)
  show ?case
  proof (cases n)
    case None
    have "(\<exists>k \<le> length w. (matched r w ^^ (m + k)) i j) \<longleftrightarrow> (\<exists>k \<ge> m. (matched r w ^^ k) i j)"
    proof
      assume "\<exists>k \<ge> m. (matched r w ^^ k) i j"
      then obtain k where "(matched r w ^^ (m + k)) i j" by (metis le_Suc_ex)
      then obtain x where x: "(matched r w ^^ m) i x" "(matched r w ^^ k) x j" by (auto simp: relpowp_add)
      have inside: "q \<le> length w" if "(matched r w ^^ k) p q" "p \<le> length w" for k p q
        using that by (induction k arbitrary: q) (auto intro: matched_bound)
      obtain k' where "k' \<le> j - x" "(matched r w ^^ k') x j" using few_iterations [of "matched r w" k x j] matched_mono x(2) by blast
      moreover have "j \<le> length w" using inside [OF x(2) inside [OF x(1) Repeat.prems]] .
      ultimately have "k' \<le> length w \<and> (matched r w ^^ (m + k')) i j" using x(1) by (auto simp: relpowp_add)
      then show "\<exists>k \<le> length w. (matched r w ^^ (m + k)) i j" by blast
    qed (metis le_add1)
    with None run show ?thesis by simp
  next
    case (Some b)
    have "(\<exists>k \<le> b - m. (matched r w ^^ (m + k)) i j) \<longleftrightarrow> (\<exists>k \<ge> m. k \<le> b \<and> (matched r w ^^ k) i j)" if "m \<le> b"
    proof
      assume "\<exists>k \<ge> m. k \<le> b \<and> (matched r w ^^ k) i j"
      then obtain k where "m \<le> k" "k \<le> b" "(matched r w ^^ (m + (k - m))) i j" by auto
      then show "\<exists>k \<le> b - m. (matched r w ^^ (m + k)) i j" by (meson diff_le_mono)
    qed (metis le_add1 le_diff_conv2 that add.commute)
    with Some run show ?thesis by (auto simp: not_less)
  qed
qed auto

lemma MatchString_iff: "MatchString r w \<longleftrightarrow> occurs_in r w"
proof -
  have "ends r w i \<noteq> [] \<longleftrightarrow> (\<exists>j. matched r w i j)" if "i \<le> length w" for i
    using ends_matched [OF that] by (metis list.set_intros(1) list.set_cases neq_Nil_conv empty_iff list.set(1))
  then show ?thesis unfolding MatchString_def occurs_in_def set_upt by (auto simp: Bex_def less_Suc_eq_le)
qed

subsection \<open>Notation of the package\<close>

text \<open>\<open>r*\<close>, \<open>r+\<close>, \<open>r?\<close>, sequences and alternatives of several patterns, and literal text.\<close>

definition many :: "regex \<Rightarrow> regex" where
  "many r = Repeat r 0 None"

definition some :: "regex \<Rightarrow> regex" where
  "some r = Repeat r 1 None"

definition maybe :: "regex \<Rightarrow> regex" where
  "maybe r = Repeat r 0 (Some 1)"

definition in_sequence :: "regex list \<Rightarrow> regex" where
  "in_sequence rs = foldr Seq rs Epsilon"

fun one_of :: "regex list \<Rightarrow> regex" where
  "one_of [] = Class True []"
| "one_of [r] = r"
| "one_of (r # rs) = Alt r (one_of rs)"

definition single :: "char \<Rightarrow> char \<times> char" where
  "single c = (c, c)"

definition literal :: "string \<Rightarrow> regex" where
  "literal s = in_sequence (map (\<lambda>c. Class True [single c]) s)"

text \<open>
  With the flag \<open>i\<close> a letter stands for both its cases, \<open>s\<close> also for U+017F and \<open>k\<close> also for U+212A. A class is written here with both
  cases of its letters.
\<close>

definition class_i :: "(char \<times> char) list \<Rightarrow> regex" where
  "class_i ranges = one_of (Class True ranges #
     (if in_ranges ranges (CHR ''s'') then [literal [CHR 0xC5, CHR 0xBF]] else []) @
     (if in_ranges ranges (CHR ''k'') then [literal [CHR 0xE2, CHR 0x84, CHR 0xAA]] else []))"

text \<open>The cases of an ASCII letter differ in the bit of value 32.\<close>

fun flip_case_bit :: "char \<Rightarrow> char" where
  "flip_case_bit (Char b0 b1 b2 b3 b4 b5 b6 b7) = Char b0 b1 b2 b3 b4 (\<not> b5) b6 b7"

definition swap_case :: "char \<Rightarrow> char" where
  "swap_case c = (if in_ranges [upper_range, lower_range] c then flip_case_bit c else c)"

definition literal_i :: "string \<Rightarrow> regex" where
  "literal_i s = in_sequence (map (\<lambda>c. class_i [single c, single (swap_case c)]) s)"

definition space_ranges :: "(char \<times> char) list" where
  "space_ranges = [(CHR 0x09, CHR 0x0A), (CHR 0x0C, CHR 0x0D), single (CHR '' '')]"

definition blank_class :: regex where
  "blank_class = Class True space_ranges"

definition digit_class :: regex where
  "digit_class = Class True [digit_range]"

definition letters :: "(char \<times> char) list" where
  "letters = [upper_range, lower_range]"

end
