(* ===== verification/Sanitizer.thy ===== *)
theory Sanitizer
  imports Feedback Regexp
begin

text \<open>
  The deterministic sanitizer (\<open>internal/fieldfeedback/sanitizer.go\<close>): a candidate is projected to its allowlisted fields, and the
  projection is scanned before and after it is encoded. No abstracter is ever installed by the code, so its branch is left out.
\<close>

subsection \<open>Scan rules\<close>

definition backslash :: char where
  "backslash = CHR 0x5C"

definition dash :: "char \<times> char" where
  "dash = single (CHR ''-'')"

definition not_blank :: regex where
  "not_blank = Class False space_ranges"

definition windows_path :: regex where
  "windows_path =
     (let part = some (Class False (single backslash # space_ranges)); slash = Class True [single backslash] in
      in_sequence [Word_edge, class_i letters, literal '':'', slash, many (Seq part slash), part])"

definition unix_path :: regex where
  "unix_path = in_sequence [literal ''/'',
     one_of (map literal [''home'', ''Users'', ''private'', ''var'', ''etc'', ''opt'', ''srv'', ''mnt'', ''workspace'', ''workspaces'', ''repo'', ''repos'']),
     literal ''/'', some not_blank]"

definition url :: regex where
  "url = in_sequence [Word_edge, literal_i ''http'', maybe (literal_i ''s''), literal ''://'', some not_blank]"

definition ipv4 :: regex where
  "ipv4 = (let number = Repeat digit_class 1 (Some 3) in
     in_sequence [Word_edge, Repeat (Seq number (literal ''.'')) 3 (Some 3), number, Word_edge])"

definition internal_hostname :: regex where
  "internal_hostname =
     (let label = some (class_i (letters @ [digit_range, dash])) in
      in_sequence [Word_edge, label, many (Seq (literal ''.'') label), literal ''.'',
        one_of (map literal_i [''internal'', ''local'', ''corp'', ''lan'']), Word_edge])"

definition bearer_token :: regex where
  "bearer_token = in_sequence [Word_edge, literal_i ''bearer'', some blank_class,
     Repeat (class_i (letters @ [digit_range] @ map single ''._~+/=-'')) 8 None]"

definition secret_or_account :: regex where
  "secret_or_account =
     (let sep = maybe (Class True [single (CHR ''_''), dash]) in
      in_sequence [Word_edge,
        one_of [in_sequence [literal_i ''api'', sep, literal_i ''key''], in_sequence [literal_i ''access'', sep, literal_i ''token''],
          literal_i ''token'', literal_i ''secret'', literal_i ''password'', in_sequence [literal_i ''account'', sep, literal_i ''id'']],
        many blank_class, Class True [single (CHR '':''), single (CHR ''='')], many blank_class,
        some (Class False (space_ranges @ map single '',;''))])"

definition email :: regex where
  "email = in_sequence [Word_edge, some (Class True (letters @ [digit_range] @ map single ''._%+-'')), literal ''@'',
     some (Class True (letters @ [digit_range] @ map single ''.-'')), literal ''.'', Repeat (Class True letters) 2 None, Word_edge]"

definition ticket_id :: regex where
  "ticket_id = in_sequence [Word_edge, Class True [upper_range], Repeat (Class True [upper_range, digit_range]) 1 (Some 9), literal ''-'',
     Repeat digit_class 2 None, Word_edge]"

definition diff_or_code :: regex where
  "diff_or_code =
     (let name = Seq (class_i (letters @ [underscore])) (many (class_i (letters @ [digit_range, underscore]))) in
      one_of [Seq Line_begin (literal_i ''diff --git ''), Seq Line_begin (literal ''@@ ''), Seq Line_begin (literal_i ''--- a/''),
        Seq Line_begin (literal_i ''+++ b/''),
        in_sequence [Word_edge, literal_i ''package'', some blank_class, name],
        in_sequence [Word_edge, literal_i ''func'', some blank_class, name, many blank_class, literal ''('']])"

text \<open>
  A rule has a code, the text of its pattern, which enters the hash of the rule set, and the pattern. In the texts an exclamation mark,
  which no pattern uses, stands for a backslash, which a string literal cannot have.
\<close>

definition pattern_text :: "string \<Rightarrow> string" where
  "pattern_text s = map (\<lambda>c. if c = CHR ''!'' then backslash else c) s"

definition builtinScanRules :: "(string \<times> string \<times> regex) list" where
  "builtinScanRules =
     [(''WINDOWS_PATH'', pattern_text ''(?i)!b[A-Z]:!!(?:[^!!!s]+!!)*[^!!!s]+'', windows_path),
      (''UNIX_PATH'', pattern_text ''/(?:home|Users|private|var|etc|opt|srv|mnt|workspace|workspaces|repo|repos)/[^!s]+'', unix_path),
      (''URL'', pattern_text ''(?i)!bhttps?://[^!s]+'', url),
      (''IPV4'', pattern_text ''!b(?:!d{1,3}!.){3}!d{1,3}!b'', ipv4),
      (''INTERNAL_HOSTNAME'', pattern_text ''(?i)!b[a-z0-9-]+(?:!.[a-z0-9-]+)*!.(?:internal|local|corp|lan)!b'', internal_hostname),
      (''BEARER_TOKEN'', pattern_text ''(?i)!bbearer!s+[A-Za-z0-9._~+/=-]{8,}'', bearer_token),
      (''SECRET_OR_ACCOUNT'', pattern_text ''(?i)!b(?:api[_-]?key|access[_-]?token|token|secret|password|account[_-]?id)!s*[:=]!s*[^!s,;]+'', secret_or_account),
      (''EMAIL'', pattern_text ''!b[A-Za-z0-9._%+-]+@[A-Za-z0-9.-]+!.[A-Za-z]{2,}!b'', email),
      (''TICKET_ID'', pattern_text ''!b[A-Z][A-Z0-9]{1,9}-!d{2,}!b'', ticket_id),
      (''DIFF_OR_CODE'', pattern_text ''(?im)(?:^diff --git |^@@ |^--- a/|^!+!+!+ b/|!bpackage!s+[A-Za-z_][A-Za-z0-9_]*|!bfunc!s+[A-Za-z_][A-Za-z0-9_]*!s*!()'', diff_or_code)]"

subsection \<open>The sanitizer\<close>

definition safeExportMetadataToken :: "string \<Rightarrow> bool" where
  "safeExportMetadataToken = token_text letter_or_digit (\<lambda>c. letter_or_digit c \<or> c \<in> set ''._+-'') 127"

definition safeExportCategories :: "string list" where
  "safeExportCategories =
     [''APPROVAL_FRICTION'', ''ATTEMPT_RECOVERY'', ''COST_LATENCY_OUTLIER'', ''EXECUTOR_SELECTION_FRICTION'', ''HUMAN_INTERVENTION'',
      ''INDEPENDENT_PROBLEM'', ''POLICY_AUTHORITY_FRICTION'', ''RECOVERY_FRICTION'', ''REPEATED_ATTEMPT_FAILURE'', ''TEST'',
      ''UNRESOLVED_OPERATION'', ''VERIFICATION_CHALLENGE_AFTER_ACCEPTANCE'']"

text \<open>A configured pattern is its text and what the text compiles to.\<close>

record sanitizer_config =
  sc_version :: string
  sc_deny :: "(string \<times> regex) list"
  sc_metadata :: bool
  sc_reproduction :: bool

record sanitizer =
  sn_config :: sanitizer_config
  sn_codec :: feedback_codec
  sn_ruleset :: string
  sn_builtin :: "(string \<times> string \<times> regex) list"

record exportProjection =
  ep_class :: GenericTaskClass
  ep_category :: string
  ep_transitions :: "string list"
  ep_metrics :: NormalizedMetrics
  ep_human :: bool
  ep_enforcement :: enforcement_level
  ep_runtime :: string
  ep_executor :: string
  ep_executor_version :: string

definition json_projection :: "exportProjection \<Rightarrow> json" where
  "json_projection p = JObject ([(''schema_version'', JNumber 1), (''generic_task_class'', JText (class_text (ep_class p))),
     (''category'', JText (ep_category p)), (''state_transitions'', json_texts (ep_transitions p)),
     (''metrics'', json_metrics (ep_metrics p)), (''human_intervention'', JFlag (ep_human p)),
     (''enforcement'', JText (enforcement_text (ep_enforcement p)))] @
     text_field ''runtime_version'' (ep_runtime p) @ text_field ''executor_kind'' (ep_executor p) @
     text_field ''executor_version'' (ep_executor_version p))"

definition computeRulesetHash :: "feedback_codec \<Rightarrow> sanitizer_config \<Rightarrow> (string \<times> string \<times> regex) list \<Rightarrow> string" where
  "computeRulesetHash K g builtin =
     fb_sha K (fb_marshal K (JObject [(''version'', JText (sc_version g)),
       (''builtin'', json_texts (map (\<lambda>(code, pattern, _). code @ ''='' @ pattern) builtin)),
       (''deny'', json_texts (sort (map fst (sc_deny g)))),
       (''allow_executor_metadata'', JFlag (sc_metadata g)), (''allow_synthetic_reproduction'', JFlag (sc_reproduction g))]))"

definition NewDeterministicSanitizer :: "feedback_codec \<Rightarrow> sanitizer_config \<Rightarrow> sanitizer res" where
  "NewDeterministicSanitizer K g =
     (let g = g\<lparr>sc_version := trim_space (sc_version g)\<rparr> in
      if sc_version g = [] then Inl (Err ''sanitizer version is required'')
      else Inr \<lparr>sn_config = g, sn_codec = K, sn_ruleset = computeRulesetHash K g builtinScanRules, sn_builtin = builtinScanRules\<rparr>)"

definition candidateDigest :: "feedback_codec \<Rightarrow> FeedbackCandidate \<Rightarrow> string" where
  "candidateDigest K c =
     fb_sha K (fb_marshal K (JObject [(''candidate_id'', JText (fc_id c)), (''generic_task_class'', JText (class_text (fc_class c))),
       (''category'', JText (fc_category c)), (''expected_behavior'', JText (fc_expected c)), (''observed_behavior'', JText (fc_observed c)),
       (''state_transition_json'', JText (fc_transitions c)), (''metrics_json'', JText (fc_metrics c)),
       (''human_intervention'', JFlag (fc_human c)), (''recovery_result'', JText (fc_recovery c)), (''runtime_version'', JText (fc_runtime c)),
       (''executor_kind'', JText (fc_executor c)), (''executor_version'', JText (fc_executor_version c)),
       (''enforcement'', JText (enforcement_text (fc_enforcement c))), (''correlation_key'', JText (fc_correlation c))]))"

definition project :: "sanitizer \<Rightarrow> FeedbackCandidate \<Rightarrow> exportProjection res" where
  "project S c =
     bindE (fb_strings (sn_codec S) (fc_transitions c)) (\<lambda>transitions.
     bindE (requireE (list_all safeTransitionToken transitions) (Err ''unsafe candidate transition token'')) (\<lambda>_.
     bindE (fb_metrics (sn_codec S) (fc_metrics c)) (\<lambda>metrics.
     bindE (requireE (fc_category c \<in> set safeExportCategories) (Err ''candidate category is not in the outbound allowlist'')) (\<lambda>_.
     let p = \<lparr>ep_class = fc_class c, ep_category = fc_category c, ep_transitions = transitions, ep_metrics = metrics,
              ep_human = fc_human c, ep_enforcement = fc_enforcement c, ep_runtime = [], ep_executor = [], ep_executor_version = []\<rparr> in
     if \<not> sc_metadata (sn_config S) then Inr p
     else bindE (requireE (list_all (\<lambda>v. v = [] \<or> safeExportMetadataToken v) [fc_runtime c, fc_executor c, fc_executor_version c])
                  (Err ''not a privacy-safe metadata token'')) (\<lambda>_.
       Inr (p\<lparr>ep_runtime := fc_runtime c, ep_executor := fc_executor c, ep_executor_version := fc_executor_version c\<rparr>))))))"

definition scanText :: "sanitizer \<Rightarrow> string \<Rightarrow> string list" where
  "scanText S s =
     distinct_sorted (map fst (filter (\<lambda>(code, pattern, r). MatchString r s) (sn_builtin S)) @
       map (\<lambda>(i, _). ''CONFIGURED_DENY_'' @ decimal (int (i + 1)))
         (filter (\<lambda>(i, pattern, r). MatchString r s) (enumerate 0 (sc_deny (sn_config S)))))"

definition scanProjection :: "sanitizer \<Rightarrow> exportProjection \<Rightarrow> string list" where
  "scanProjection S p = scanText S (Join [ep_category p, ep_runtime p, ep_executor p, ep_executor_version p] newline)"

definition uniqueSorted :: "string list \<Rightarrow> string list" where
  "uniqueSorted values = distinct_sorted (filter (\<lambda>v. v \<noteq> []) (map trim_space values))"

definition insertSanitizationResult :: "SanitizationResult \<Rightarrow> db \<Rightarrow> db res" where
  "insertSanitizationResult r d =
     bindE (requireE (\<not> exists_where (\<lambda>x. sz_id x = sz_id r) (ft_results (db_feedback d))) (ErrConstraint ''sanitization_results are immutable'')) (\<lambda>_.
     bindE (requireE (exists_where (\<lambda>c. fc_id c = sz_candidate r) (ft_candidates (db_feedback d))) (ErrConstraint ''FOREIGN KEY'')) (\<lambda>_.
     Inr (set_feedback (\<lambda>t. t\<lparr>ft_results := ft_results t @ [r]\<rparr>) d)))"

definition insert_sanitized :: "SanitizedFeedback \<Rightarrow> db \<Rightarrow> db res" where
  "insert_sanitized a d =
     bindE (requireE (\<not> exists_where (\<lambda>x. sf_id x = sf_id a) (ft_sanitized (db_feedback d))) (ErrConstraint ''sanitized_feedback is immutable'')) (\<lambda>_.
     bindE (requireE (exists_where (\<lambda>c. fc_id c = sf_candidate a) (ft_candidates (db_feedback d)) \<and>
              exists_where (\<lambda>r. sz_id r = sf_result a) (ft_results (db_feedback d))) (ErrConstraint ''FOREIGN KEY'')) (\<lambda>_.
     Inr (set_feedback (\<lambda>t. t\<lparr>ft_sanitized := ft_sanitized t @ [a]\<rparr>) d)))"

definition sanitization_of :: "sanitizer \<Rightarrow> env \<Rightarrow> FeedbackCandidate \<Rightarrow> string \<Rightarrow> sanitization_outcome \<Rightarrow> string \<Rightarrow> SanitizationResult" where
  "sanitization_of S E c digest outcome reasons =
     \<lparr>sz_id = NewID ''sanitization'' (rnd E 0), sz_candidate = fc_id c, sz_version = sc_version (sn_config S), sz_ruleset = sn_ruleset S,
      sz_input = digest, sz_outcome = outcome, sz_reasons = reasons, sz_created = clk E 0\<rparr>"

text \<open>A result without artifact leaves the zero value of the artifact, here \<open>None\<close>.\<close>

definition persistUnsafeWithDigest ::
  "sanitizer \<Rightarrow> env \<Rightarrow> FeedbackCandidate \<Rightarrow> string \<Rightarrow> sanitization_outcome \<Rightarrow> string list \<Rightarrow> db \<Rightarrow>
   db \<times> (SanitizedFeedback option \<times> SanitizationResult) res" where
  "persistUnsafeWithDigest S E c digest outcome reasons d =
     (if outcome \<noteq> SanitizationReject \<and> outcome \<noteq> SanitizationUncertain
      then (d, Inl (Err ''unsafe persistence requires REJECT or UNCERTAIN''))
      else let r = sanitization_of S E c digest outcome (fb_marshal (sn_codec S) (json_texts (uniqueSorted reasons)));
               target = (if outcome = SanitizationUncertain then FeedbackStateLocalOnly else FeedbackStateRejectedUnsafe) in
        with_tx (\<lambda>d. bindE (insertSanitizationResult r d) (\<lambda>d.
                      bindE (transitionCandidateInTx (fc_id c) target d) (\<lambda>d. Inr ((None, r), d)))) d)"

definition persistUnsafe ::
  "sanitizer \<Rightarrow> env \<Rightarrow> FeedbackCandidate \<Rightarrow> sanitization_outcome \<Rightarrow> string list \<Rightarrow> db \<Rightarrow>
   db \<times> (SanitizedFeedback option \<times> SanitizationResult) res" where
  "persistUnsafe S E c outcome reasons d = persistUnsafeWithDigest S E c (candidateDigest (sn_codec S) c) outcome reasons d"

definition fingerprint_of :: "feedback_codec \<Rightarrow> string \<Rightarrow> string" where
  "fingerprint_of K hash = fb_sha K (''summa42-sanitized-feedback-v1'' @ newline @ ''schema:1'' @ newline @ ''content-hash:'' @ hash @ newline)"

definition artifact_of :: "sanitizer \<Rightarrow> env \<Rightarrow> FeedbackCandidate \<Rightarrow> string \<Rightarrow> SanitizedFeedback" where
  "artifact_of S E c content =
     (let K = sn_codec S; hash = fb_sha K content in
      \<lparr>sf_id = NewID ''sanitized'' (rnd E 1), sf_candidate = fc_id c, sf_schema = 1, sf_content = content, sf_hash = hash,
       sf_result = NewID ''sanitization'' (rnd E 0), sf_correlation = fc_correlation c, sf_fingerprint = fingerprint_of K hash, sf_created = clk E 0\<rparr>)"

definition persist_safe ::
  "sanitizer \<Rightarrow> env \<Rightarrow> FeedbackCandidate \<Rightarrow> string \<Rightarrow> string \<Rightarrow> db \<Rightarrow> db \<times> (SanitizedFeedback option \<times> SanitizationResult) res" where
  "persist_safe S E c digest content d =
     (let r = sanitization_of S E c digest SanitizationPass ''[]''; a = artifact_of S E c content in
      with_tx (\<lambda>d. bindE (insertSanitizationResult r d) (\<lambda>d. bindE (insert_sanitized a d) (\<lambda>d.
                    bindE (transitionCandidateInTx (fc_id c) FeedbackStateSanitized d) (\<lambda>d. Inr ((Some a, r), d))))) d)"

text \<open>The sanitization of a loaded candidate, and the whole, with the state of the candidate as a transaction of its own before it.\<close>

definition sanitize_loaded ::
  "sanitizer \<Rightarrow> env \<Rightarrow> FeedbackCandidate \<Rightarrow> db \<Rightarrow> db \<times> (SanitizedFeedback option \<times> SanitizationResult) res" where
  "sanitize_loaded S E c d =
     (let digest = candidateDigest (sn_codec S) c in
      case project S c of
        Inl _ \<Rightarrow> persistUnsafe S E c SanitizationUncertain [''PROJECTION_INVALID''] d
      | Inr p \<Rightarrow>
          if scanProjection S p \<noteq> [] then persistUnsafeWithDigest S E c digest SanitizationReject (scanProjection S p) d
          else let content = fb_marshal (sn_codec S) (json_projection p) in
            if scanText S content \<noteq> [] then persistUnsafeWithDigest S E c digest SanitizationReject (scanText S content) d
            else persist_safe S E c digest content d)"

definition start_sanitizing :: "FeedbackCandidate \<Rightarrow> db \<Rightarrow> db \<times> unit res" where
  "start_sanitizing c d =
     (case fc_state c of
        FeedbackStateCandidate \<Rightarrow> transitionCandidate (fc_id c) FeedbackStateSanitizing d
      | FeedbackStateSanitized \<Rightarrow> transitionCandidate (fc_id c) FeedbackStateSanitizing d
      | FeedbackStateSanitizing \<Rightarrow> (d, Inr ())
      | _ \<Rightarrow> (d, Inl (Err ''candidate cannot be sanitized from its state'')))"

definition Sanitize :: "sanitizer \<Rightarrow> env \<Rightarrow> ID \<Rightarrow> db \<Rightarrow> db \<times> (SanitizedFeedback option \<times> SanitizationResult) res" where
  "Sanitize S E k d =
     (case Candidate k d of
        Inl e \<Rightarrow> (d, Inl e)
      | Inr c \<Rightarrow>
          (case start_sanitizing c d of
             (d, Inl e) \<Rightarrow> (d, Inl e)
           | (d, Inr _) \<Rightarrow>
               (case Candidate (fc_id c) d of Inl e \<Rightarrow> (d, Inl e) | Inr c \<Rightarrow> sanitize_loaded S E c d)))"

definition loadSanitizedFeedback :: "ID \<Rightarrow> db \<Rightarrow> SanitizedFeedback res" where
  "loadSanitizedFeedback k d =
     (let k = trim_space k in
      if k = [] then Inl (Err ''sanitized feedback id is required'')
      else case find_by sf_id k (ft_sanitized (db_feedback d)) of None \<Rightarrow> Inl (Err ''sanitized feedback not found'') | Some a \<Rightarrow> Inr a)"

definition LatestSanitizedFeedbackForCandidate :: "ID \<Rightarrow> db \<Rightarrow> SanitizedFeedback option res" where
  "LatestSanitizedFeedbackForCandidate k d =
     (let k = trim_space k in
      if k = [] then Inl (Err ''candidate id is required'')
      else case rev (sort_key (\<lambda>a. (formatTime (sf_created a), sf_id a)) (filter (\<lambda>a. sf_candidate a = k) (ft_sanitized (db_feedback d)))) of
        [] \<Rightarrow> Inr None
      | a # _ \<Rightarrow> bindE (loadSanitizedFeedback (sf_id a) d) (\<lambda>a. Inr (Some a)))"

end
