(* ===== verification/Emission.thy ===== *)
theory Emission
  imports Sanitizer
begin

text \<open>
  Emission of sanitized feedback (\<open>internal/fieldfeedback/emitter.go\<close>, the configuration of \<open>internal/localconfig\<close>): a task of the
  Collective's maintenance per provider, destination and content, paid from the maintenance envelope and linked to the artifact.
\<close>

subsection \<open>Configuration\<close>

datatype FeedbackMode = FeedbackModeLocalOnly | FeedbackModeRequireApproval | FeedbackModeAutoIfAllowed | FeedbackModeOther string

record FieldFeedbackConfig =
  ff_enabled :: bool
  ff_mode :: FeedbackMode
  ff_provider :: string
  ff_destination :: string
  ff_envelope :: ID
  ff_deny :: "string list"
  ff_enforcement :: enforcement_level

definition withDefaults :: "FieldFeedbackConfig \<Rightarrow> FieldFeedbackConfig" where
  "withDefaults g = g\<lparr>ff_mode := (if ff_mode g = FeedbackModeOther [] then FeedbackModeLocalOnly else ff_mode g),
     ff_enforcement := (if ff_enforcement g = EnforcementOther [] then EnforcementEnforced else ff_enforcement g)\<rparr>"

definition known_mode :: "FeedbackMode \<Rightarrow> bool" where
  "known_mode m = (case m of FeedbackModeOther _ \<Rightarrow> False | _ \<Rightarrow> True)"

definition provider_token :: "string \<Rightarrow> bool" where
  "provider_token = token_text (in_ranges [lower_range]) (\<lambda>c. in_ranges [lower_range, digit_range] c \<or> c \<in> set ''._-'') 63"

text \<open>\<open>compiles\<close> says whether \<open>regexp.Compile\<close> accepts a pattern.\<close>

definition Validate_feedback :: "(string \<Rightarrow> bool) \<Rightarrow> FieldFeedbackConfig \<Rightarrow> unit res" where
  "Validate_feedback compiles g =
     (let g = (withDefaults g)\<lparr>ff_provider := trim_space (ff_provider g), ff_destination := trim_space (ff_destination g)\<rparr> in
      if \<not> known_mode (ff_mode g) then Inl (Err ''invalid field feedback mode'')
      else if \<not> known_enforcement (ff_enforcement g) then Inl (Err ''invalid field feedback enforcement'')
      else bindE (all_results (map (\<lambda>p. if trim_space p = [] then Inl (Err ''field feedback deny patterns must not be empty'')
                    else if \<not> compiles p then Inl (Err ''invalid field feedback deny pattern'') else Inr ()) (ff_deny g))) (\<lambda>_.
        if \<not> ff_enabled g \<or> ff_mode g = FeedbackModeLocalOnly then Inr ()
        else if ff_provider g = [] \<or> ff_destination g = [] \<or> ff_envelope g = []
        then Inl (Err ''exporting field feedback requires provider, destination, and maintenance envelope'')
        else if \<not> provider_token (ff_provider g) then Inl (Err ''field feedback provider must be a lowercase categorical token'')
        else Inr ()))"

record emissionRuntime =
  em_tasks :: task_codec
  em_config :: FieldFeedbackConfig
  em_owner :: ID

definition ConfigureEmission :: "(string \<Rightarrow> bool) \<Rightarrow> task_codec \<Rightarrow> FieldFeedbackConfig \<Rightarrow> ID \<Rightarrow> emissionRuntime res" where
  "ConfigureEmission compiles K g owner =
     (let g = (withDefaults g)\<lparr>ff_provider := trim_space (ff_provider g), ff_destination := trim_space (ff_destination g)\<rparr>;
          owner = trim_space owner in
      bindE (Validate_feedback compiles g) (\<lambda>_.
      if ff_enabled g \<and> ff_mode g = FeedbackModeRequireApproval \<and> owner = []
      then Inl (Err ''REQUIRE_APPROVAL field feedback requires Owner principal id'')
      else Inr \<lparr>em_tasks = K, em_config = g, em_owner = owner\<rparr>))"

subsection \<open>Emission tasks\<close>

definition emissionLogicalKey :: "string \<Rightarrow> string \<Rightarrow> string \<Rightarrow> ID" where
  "emissionLogicalKey provider destination fingerprint =
     ''feedback:'' @ trim_space provider @ '':'' @ trim_space destination @ '':'' @ trim_space fingerprint"

definition feedbackCapability :: "string \<Rightarrow> string" where
  "feedbackCapability provider = ''feedback.'' @ trim_space provider @ ''.issue.create''"

definition emissionTask :: "ID \<Rightarrow> db \<Rightarrow> task option res" where
  "emissionTask k d =
     (case find_by fe_feedback k (ft_emissions (db_feedback d)) of
        None \<Rightarrow> Inr None
      | Some e \<Rightarrow> bindE (Task (fe_task e) d) (\<lambda>t. Inr (Some t)))"

definition emit_class :: string where
  "emit_class = ''collective.feedback.emit''"

definition logicalEmitTask :: "ID \<Rightarrow> db \<Rightarrow> task option res" where
  "logicalEmitTask key d =
     (case sort_key (\<lambda>t. formatTime (t_created t)) (filter (\<lambda>t. t_purpose t = \<lparr>pr_kind = PurposeCollectiveMaintenance, pr_id = key\<rparr> \<and>
              t_class t = emit_class) (db_tasks d)) of
        [] \<Rightarrow> Inr None
      | t # _ \<Rightarrow> bindE (Task (t_id t) d) (\<lambda>t. Inr (Some t)))"

definition taskHasEmission :: "ID \<Rightarrow> db \<Rightarrow> bool" where
  "taskHasEmission k d = exists_where (\<lambda>e. fe_task e = k) (ft_emissions (db_feedback d))"

text \<open>\<open>INSERT OR IGNORE\<close>: a row that would break a unique key is not inserted, a missing task or artifact is an error.\<close>

definition insert_emission :: "emission_row \<Rightarrow> db \<Rightarrow> db res" where
  "insert_emission e d =
     (if exists_where (\<lambda>x. fe_feedback x = fe_feedback e \<or> fe_task x = fe_task e) (ft_emissions (db_feedback d)) then Inr d
      else bindE (requireE (exists_where (\<lambda>a. sf_id a = fe_feedback e) (ft_sanitized (db_feedback d)) \<and>
                    exists_where (\<lambda>t. t_id t = fe_task e) (db_tasks d)) (ErrConstraint ''FOREIGN KEY'')) (\<lambda>_.
        Inr (set_feedback (\<lambda>t. t\<lparr>ft_emissions := ft_emissions t @ [e]\<rparr>) d)))"

definition emission_of :: "emissionRuntime \<Rightarrow> gtime \<Rightarrow> SanitizedFeedback \<Rightarrow> ID \<Rightarrow> emission_row" where
  "emission_of R now a k =
     \<lparr>fe_feedback = sf_id a, fe_task = k, fe_provider = ff_provider (em_config R), fe_destination = ff_destination (em_config R),
      fe_required = clean_ids (if ff_mode (em_config R) = FeedbackModeRequireApproval then [em_owner R] else []), fe_created = now\<rparr>"

definition linkEmission :: "emissionRuntime \<Rightarrow> gtime \<Rightarrow> SanitizedFeedback \<Rightarrow> ID \<Rightarrow> db \<Rightarrow> db \<times> unit res" where
  "linkEmission R now a k d =
     (case insert_emission (emission_of R now a k) d of
        Inl e \<Rightarrow> (d, Inl e)
      | Inr d \<Rightarrow>
          (d, case find_by fe_feedback (sf_id a) (ft_emissions (db_feedback d)) of
                None \<Rightarrow> if taskHasEmission k d then Inr () else Inl ErrNoRows
              | Some e \<Rightarrow> if fe_task e \<noteq> k then Inl (Err ''feedback is already linked to a different emit task'') else Inr ()))"

text \<open>SQLite turns a difference that leaves the integers into a real number, and the scan into an \<open>int64\<close> then fails.\<close>

definition maintenanceBudgetAvailable :: "ID \<Rightarrow> db \<Rightarrow> bool res" where
  "maintenanceBudgetAvailable envelope d =
     (let envelope = trim_space envelope in
      case (if envelope = [] then None else find_by e_id envelope (db_envelopes d)) of
        None \<Rightarrow> Inr False
      | Some e \<Rightarrow>
          let sum = (\<lambda>states amount. sql_sum (sum_where (\<lambda>r. r_envelope r = envelope \<and> r_state r \<in> states) amount (db_reservations d))) in
          bindE (sum {ReservationSettled} (\<lambda>r. case r_settled r of None \<Rightarrow> 0 | Some v \<Rightarrow> v)) (\<lambda>settled.
          bindE (sum {ReservationHeld, ReservationUnresolved} r_amount) (\<lambda>open_amount.
          let left = e_hard_limit e - settled - open_amount in
          bindE (requireE (in64 left) (Err ''converting driver.Value'')) (\<lambda>_. Inr (left > 0)))))"

definition emit_request :: "FieldFeedbackConfig \<Rightarrow> ID \<Rightarrow> TaskRequest" where
  "emit_request g key =
     \<lparr>tr_purpose = \<lparr>pr_kind = PurposeCollectiveMaintenance, pr_id = key\<rparr>, tr_class = emit_class, tr_objective = [], tr_payload = [],
      tr_key = [], tr_criteria = [''sanitized feedback artifact is emitted through the protected external-operation boundary and reconciled''],
      tr_capabilities = [feedbackCapability (ff_provider g)], tr_enforcement = ff_enforcement g,
      tr_authority = [feedbackCapability (ff_provider g)], tr_envelope = ff_envelope g, tr_priority = 0, tr_earliest = 0, tr_deadline = 0\<rparr>"

text \<open>The creation of the task, or of its row by someone else in between: the unique index decides.\<close>

definition create_emit_task :: "emissionRuntime \<Rightarrow> env \<Rightarrow> SanitizedFeedback \<Rightarrow> ID \<Rightarrow> db \<Rightarrow> db \<times> task res" where
  "create_emit_task R E a key d =
     (let linked = (\<lambda>t d. case linkEmission R (clk E 1) a (t_id t) d of (d, Inl e) \<Rightarrow> (d, Inl e) | (d, Inr _) \<Rightarrow> (d, Inr t)) in
      case CreateTask (em_tasks R) (clk E 0) (rnd E 0) (emit_request (em_config R) key) d of
        (d, Inr t) \<Rightarrow> linked t d
      | (d, Inl e) \<Rightarrow>
          (case logicalEmitTask key d of
             Inl e' \<Rightarrow> (d, Inl e')
           | Inr None \<Rightarrow> (d, Inl e)
           | Inr (Some t) \<Rightarrow> linked t d))"

definition request_task :: "emissionRuntime \<Rightarrow> env \<Rightarrow> SanitizedFeedback \<Rightarrow> db \<Rightarrow> db \<times> task res" where
  "request_task R E a d =
     (case maintenanceBudgetAvailable (ff_envelope (em_config R)) d of
        Inl e \<Rightarrow> (d, Inl e)
      | Inr available \<Rightarrow>
          if \<not> available then (d, Inl (Err ''field feedback maintenance budget is unavailable''))
          else let key = emissionLogicalKey (ff_provider (em_config R)) (ff_destination (em_config R)) (sf_fingerprint a) in
            (case logicalEmitTask key d of
               Inl e \<Rightarrow> (d, Inl e)
             | Inr (Some t) \<Rightarrow>
                 if taskHasEmission (t_id t) d then (d, Inr t)
                 else (case linkEmission R (clk E 1) a (t_id t) d of (d, Inl e) \<Rightarrow> (d, Inl e) | (d, Inr _) \<Rightarrow> (d, Inr t))
             | Inr None \<Rightarrow> create_emit_task R E a key d))"

definition make_exportable :: "FeedbackCandidate \<Rightarrow> db \<Rightarrow> db \<times> unit res" where
  "make_exportable c d =
     (if fc_state c = FeedbackStateSanitized then transitionCandidate (fc_id c) FeedbackStateExportReady d
      else if fc_state c \<noteq> FeedbackStateExportReady \<and> fc_state c \<noteq> FeedbackStateApprovalPending
      then (d, Inl (Err ''candidate is not ready for emission'')) else (d, Inr ()))"

definition RequestEmit :: "emissionRuntime option \<Rightarrow> env \<Rightarrow> ID \<Rightarrow> db \<Rightarrow> db \<times> task res" where
  "RequestEmit R E k d =
     (case R of
        None \<Rightarrow> (d, Inl (Err ''field feedback emission is disabled''))
      | Some R \<Rightarrow>
          if \<not> ff_enabled (em_config R) then (d, Inl (Err ''field feedback emission is disabled''))
          else if ff_mode (em_config R) = FeedbackModeLocalOnly
          then (d, Inl (Err ''LOCAL_ONLY field feedback cannot schedule emission''))
          else (case bindE (loadSanitizedFeedback k d) (\<lambda>a. bindE (Candidate (sf_candidate a) d) (\<lambda>c. Inr (a, c))) of
            Inl e \<Rightarrow> (d, Inl e)
          | Inr (a, c) \<Rightarrow>
              (case make_exportable c d of
                 (d, Inl e) \<Rightarrow> (d, Inl e)
               | (d, Inr _) \<Rightarrow>
                   (case emissionTask k d of
                      Inl e \<Rightarrow> (d, Inl e)
                    | Inr (Some t) \<Rightarrow> (d, Inr t)
                    | Inr None \<Rightarrow> request_task R E a d))))"

definition OnSanitized :: "emissionRuntime option \<Rightarrow> env \<Rightarrow> ID \<Rightarrow> db \<Rightarrow> db \<times> unit res" where
  "OnSanitized R E k d =
     (case bindE (loadSanitizedFeedback k d) (\<lambda>a. Candidate (sf_candidate a) d) of
        Inl e \<Rightarrow> (d, Inl e)
      | Inr c \<Rightarrow>
          if (case R of None \<Rightarrow> True | Some R \<Rightarrow> \<not> ff_enabled (em_config R) \<or> ff_mode (em_config R) = FeedbackModeLocalOnly)
          then (if fc_state c = FeedbackStateLocalOnly then (d, Inr ()) else transitionCandidate (fc_id c) FeedbackStateLocalOnly d)
          else (case (if fc_state c = FeedbackStateSanitized then transitionCandidate (fc_id c) FeedbackStateExportReady d
                 else if fc_state c \<noteq> FeedbackStateExportReady then (d, Inl (Err ''sanitized candidate is not exportable''))
                 else (d, Inr ())) of
              (d, Inl e) \<Rightarrow> (d, Inl e)
            | (d, Inr _) \<Rightarrow> (case RequestEmit R E k d of (d, Inl e) \<Rightarrow> (d, Inl e) | (d, Inr _) \<Rightarrow> (d, Inr ()))))"

subsection \<open>The link between a task and its artifact\<close>

definition FeedbackForEmitTask :: "ID \<Rightarrow> db \<Rightarrow> (SanitizedFeedback \<times> string \<times> ID list) res" where
  "FeedbackForEmitTask k d =
     (let k = trim_space k in
      if k = [] then Inl (Err ''emit task id is required'')
      else case find_by fe_task k (ft_emissions (db_feedback d)) of
        None \<Rightarrow> Inl (Err ''task has no feedback emission linkage'')
      | Some e \<Rightarrow> bindE (loadSanitizedFeedback (fe_feedback e) d) (\<lambda>a. Inr (a, fe_destination e, clean_ids (fe_required e))))"

definition ValidateEmitAttempt :: "ID \<Rightarrow> ID \<Rightarrow> db \<Rightarrow> unit res" where
  "ValidateEmitAttempt k attempt d =
     (let k = trim_space k; attempt = trim_space attempt in
      if k = [] \<or> attempt = [] then Inl (Err ''emit task and attempt ids are required'')
      else case find_by a_id attempt (db_attempts d) of
        None \<Rightarrow> Inl (Err ''emit attempt does not exist'')
      | Some a \<Rightarrow> requireE (a_task a = k) (Err ''emit attempt does not belong to task''))"

definition reported_event :: "env \<Rightarrow> ID \<Rightarrow> ID \<Rightarrow> ID \<Rightarrow> string \<Rightarrow> audit_event_row" where
  "reported_event E candidate feedback operation reference =
     \<lparr>ax_id = NewID ''audit'' (rnd E 0), ax_kind = ''FEEDBACK_REPORTED'', ax_actor = ''feedback-emitter'', ax_subject = candidate,
      ax_payload = [(''candidate_id'', Text candidate), (''feedback_id'', Text feedback), (''operation_id'', Text operation),
        (''provider_reference'', Text (trim_space reference))], ax_created = clk E 0\<rparr>"

definition MarkReported :: "env \<Rightarrow> ID \<Rightarrow> ID \<Rightarrow> string \<Rightarrow> db \<Rightarrow> db \<times> unit res" where
  "MarkReported E k operation reference d =
     (case bindE (loadSanitizedFeedback k d) (\<lambda>a. bindE (Candidate (sf_candidate a) d) (\<lambda>c. Inr (a, c))) of
        Inl e \<Rightarrow> (d, Inl e)
      | Inr (a, c) \<Rightarrow>
          (case (if fc_state c \<noteq> FeedbackStateReported then transitionCandidate (fc_id c) FeedbackStateReported d else (d, Inr ())) of
             (d, Inl e) \<Rightarrow> (d, Inl e)
           | (d, Inr _) \<Rightarrow>
               (case insert_audit_event (reported_event E (fc_id c) (sf_id a) operation reference) d of
                  Inl e \<Rightarrow> (d, Inl e) | Inr d \<Rightarrow> (d, Inr ()))))"

end
