(* ===== verification/Candidate_Lifecycle.thy ===== *)
theory Candidate_Lifecycle
  imports Emission
begin

text \<open>
  The life of a feedback candidate: its states only move along the allowed transitions, what is exported has been sanitized, and a
  sanitized artifact is the encoding of an allowlisted projection in which no built-in scan rule occurs and no pattern that every
  sanitizer of the run was configured to deny.
\<close>

subsection \<open>What is true of the tables\<close>

definition later_candidate :: "FeedbackCandidate \<Rightarrow> FeedbackCandidate \<Rightarrow> bool" where
  "later_candidate c c' \<longleftrightarrow> c' = c\<lparr>fc_state := fc_state c'\<rparr> \<and> candidateTransitionAllowed\<^sup>*\<^sup>* (fc_state c) (fc_state c')"

definition terminal :: "candidate_state \<Rightarrow> bool" where
  "terminal s \<longleftrightarrow> s \<in> {FeedbackStateReported, FeedbackStateLocalOnly, FeedbackStateRejectedUnsafe, FeedbackStateRejectedPolicy, FeedbackStateDuplicate}"

definition exportable :: "candidate_state \<Rightarrow> bool" where
  "exportable s \<longleftrightarrow> s \<in> {FeedbackStateSanitized, FeedbackStateApprovalPending, FeedbackStateExportReady, FeedbackStateReported}"

text \<open>The projection of a candidate holds only categorical values, and metadata only as tokens.\<close>

definition allowlisted :: "feedback_codec \<Rightarrow> FeedbackCandidate \<Rightarrow> exportProjection \<Rightarrow> bool" where
  "allowlisted K c p \<longleftrightarrow> fb_strings K (fc_transitions c) = Inr (ep_transitions p) \<and> set (ep_transitions p) \<subseteq> set safeTransitionTokens \<and>
     fb_metrics K (fc_metrics c) = Inr (ep_metrics p) \<and> ep_category p = fc_category c \<and> ep_category p \<in> set safeExportCategories \<and>
     ep_class p = fc_class c \<and> ep_human p = fc_human c \<and> ep_enforcement p = fc_enforcement c \<and>
     (\<forall>v \<in> {ep_runtime p, ep_executor p, ep_executor_version p}. v = [] \<or> safeExportMetadataToken v)"

definition clean_artifact :: "feedback_codec \<Rightarrow> regex set \<Rightarrow> FeedbackCandidate \<Rightarrow> SanitizedFeedback \<Rightarrow> bool" where
  "clean_artifact K D c a \<longleftrightarrow> (\<exists>p. allowlisted K c p \<and> sf_content a = fb_marshal K (json_projection p)) \<and>
     (\<forall>(code, pattern, r) \<in> set builtinScanRules. \<not> occurs_in r (sf_content a)) \<and> (\<forall>r \<in> D. \<not> occurs_in r (sf_content a)) \<and>
     sf_hash a = fb_sha K (sf_content a) \<and> sf_fingerprint a = fingerprint_of K (sf_hash a)"

definition feedback_ok :: "feedback_codec \<Rightarrow> regex set \<Rightarrow> db \<Rightarrow> bool" where
  "feedback_ok K D d \<longleftrightarrow>
     (let t = db_feedback d in
      distinct (map fc_id (ft_candidates t)) \<and> distinct (map sf_id (ft_sanitized t)) \<and>
      (\<forall>a \<in> set (ft_sanitized t). \<exists>c \<in> set (ft_candidates t). fc_id c = sf_candidate a \<and> clean_artifact K D c a) \<and>
      (\<forall>c \<in> set (ft_candidates t). exportable (fc_state c) \<longrightarrow> (\<exists>a \<in> set (ft_sanitized t). sf_candidate a = fc_id c)) \<and>
      distinct (map fe_feedback (ft_emissions t)) \<and> distinct (map fe_task (ft_emissions t)) \<and>
      (\<forall>e \<in> set (ft_emissions t). fe_feedback e \<in> sf_id ` set (ft_sanitized t)))"

lemma feedback_okD:
  assumes "feedback_ok K D d"
  shows "distinct (map fc_id (ft_candidates (db_feedback d)))" "distinct (map sf_id (ft_sanitized (db_feedback d)))"
    "\<And>a. a \<in> set (ft_sanitized (db_feedback d)) \<Longrightarrow>
       \<exists>c \<in> set (ft_candidates (db_feedback d)). fc_id c = sf_candidate a \<and> clean_artifact K D c a"
    "\<And>c. c \<in> set (ft_candidates (db_feedback d)) \<Longrightarrow> exportable (fc_state c) \<Longrightarrow>
       \<exists>a \<in> set (ft_sanitized (db_feedback d)). sf_candidate a = fc_id c"
    "distinct (map fe_feedback (ft_emissions (db_feedback d)))" "distinct (map fe_task (ft_emissions (db_feedback d)))"
    "\<And>e. e \<in> set (ft_emissions (db_feedback d)) \<Longrightarrow> fe_feedback e \<in> sf_id ` set (ft_sanitized (db_feedback d))"
  using assms by (simp_all add: feedback_ok_def Let_def)

text \<open>The content of an artifact does not depend on the state of its candidate.\<close>

lemma later_candidate_refl [simp]: "later_candidate c c"
  by (simp add: later_candidate_def)

lemma later_candidate_trans:
  assumes "later_candidate a b" and "later_candidate b c"
  shows "later_candidate a c"
proof -
  have b: "b = a\<lparr>fc_state := fc_state b\<rparr>" and c: "c = b\<lparr>fc_state := fc_state c\<rparr>"
    and reach: "candidateTransitionAllowed\<^sup>*\<^sup>* (fc_state a) (fc_state c)" using assms by (auto simp: later_candidate_def)
  have "b\<lparr>fc_state := fc_state c\<rparr> = a\<lparr>fc_state := fc_state c\<rparr>" by (subst b) simp
  with c reach show ?thesis by (simp add: later_candidate_def)
qed

lemma later_candidate_id: "later_candidate c c' \<Longrightarrow> fc_id c' = fc_id c"
  by (metis FeedbackCandidate.select_convs(1) FeedbackCandidate.surjective FeedbackCandidate.update_convs(2) later_candidate_def)

lemma clean_artifact_state: "clean_artifact K D (c\<lparr>fc_state := s\<rparr>) a \<longleftrightarrow> clean_artifact K D c a"
  by (simp add: clean_artifact_def allowlisted_def)

lemma clean_artifact_later: "later_candidate c c' \<Longrightarrow> clean_artifact K D c' a \<longleftrightarrow> clean_artifact K D c a"
  by (metis clean_artifact_state later_candidate_def)

lemma terminal_stays: "terminal s \<Longrightarrow> \<not> candidateTransitionAllowed s s'"
  by (auto simp: terminal_def)

lemma terminal_final: "candidateTransitionAllowed\<^sup>*\<^sup>* s s' \<Longrightarrow> terminal s \<Longrightarrow> s' = s"
  by (induction rule: rtranclp_induct) (auto simp: terminal_stays)

subsection \<open>Transitions\<close>

definition set_state :: "ID \<Rightarrow> candidate_state \<Rightarrow> candidate_state \<Rightarrow> db \<Rightarrow> db" where
  "set_state k from target d = set_feedback (\<lambda>t. t\<lparr>ft_candidates :=
     update_where (\<lambda>c. fc_id c = k \<and> fc_state c = from) (\<lambda>c. c\<lparr>fc_state := target\<rparr>) (ft_candidates t)\<rparr>) d"

lemma transitionCandidateInTx_cases:
  assumes "transitionCandidateInTx k target d = Inr d'"
  obtains c where "find_by fc_id (trim_space k) (ft_candidates (db_feedback d)) = Some c" "fc_state c = target" "d' = d"
  | c where "find_by fc_id (trim_space k) (ft_candidates (db_feedback d)) = Some c" "candidateTransitionAllowed (fc_state c) target"
      "d' = set_state (trim_space k) (fc_state c) target d"
proof -
  obtain c where c: "find_by fc_id (trim_space k) (ft_candidates (db_feedback d)) = Some c"
    and run: "(if fc_state c = target then Inr d
        else if \<not> candidateTransitionAllowed (fc_state c) target then Inl (Err ''illegal feedback candidate transition'')
        else let sel = (\<lambda>x. fc_id x = trim_space k \<and> fc_state x = fc_state c) in
          if count_where sel (ft_candidates (db_feedback d)) \<noteq> 1 then Inl (Err ''feedback candidate was concurrently changed'')
          else Inr (set_feedback (\<lambda>t. t\<lparr>ft_candidates := update_where sel (\<lambda>c. c\<lparr>fc_state := target\<rparr>) (ft_candidates t)\<rparr>) d)) = Inr d'"
    using assms by (auto simp: transitionCandidateInTx_def Let_def loadCandidate_def split: if_splits option.splits)
  show thesis
  proof (cases "fc_state c = target")
    case True
    with run c show thesis by (intro that(1)) simp_all
  next
    case False
    with run have "candidateTransitionAllowed (fc_state c) target" "d' = set_state (trim_space k) (fc_state c) target d"
      by (auto simp: set_state_def Let_def split: if_splits)
    with c show thesis by (rule that(2))
  qed
qed

text \<open>Candidates persist, their contents never change, and their states move along the allowed transitions.\<close>

definition candidates_le :: "db \<Rightarrow> db \<Rightarrow> bool" where
  "candidates_le d d' \<longleftrightarrow> (\<forall>c \<in> set (ft_candidates (db_feedback d)). \<exists>c' \<in> set (ft_candidates (db_feedback d')). later_candidate c c')"

lemma candidates_le_refl [simp]: "candidates_le d d"
  unfolding candidates_le_def by (blast intro: later_candidate_refl)

lemma candidates_le_trans: "candidates_le d e \<Longrightarrow> candidates_le e f \<Longrightarrow> candidates_le d f"
  unfolding candidates_le_def by (meson later_candidate_trans)

lemma set_state_candidates:
  "ft_candidates (db_feedback (set_state k from target d)) =
     update_where (\<lambda>c. fc_id c = k \<and> fc_state c = from) (\<lambda>c. c\<lparr>fc_state := target\<rparr>) (ft_candidates (db_feedback d))"
  "ft_sanitized (db_feedback (set_state k from target d)) = ft_sanitized (db_feedback d)"
  "ft_results (db_feedback (set_state k from target d)) = ft_results (db_feedback d)"
  "ft_emissions (db_feedback (set_state k from target d)) = ft_emissions (db_feedback d)"
  by (simp_all add: set_state_def)

lemma set_state_le:
  assumes "candidateTransitionAllowed from target"
  shows "candidates_le d (set_state k from target d)"
  unfolding candidates_le_def set_state_candidates set_update_where
proof
  fix c assume c: "c \<in> set (ft_candidates (db_feedback d))"
  let ?f = "\<lambda>c. if fc_id c = k \<and> fc_state c = from then c\<lparr>fc_state := target\<rparr> else c"
  have "later_candidate c (?f c)" using assms by (auto simp: later_candidate_def)
  with c show "\<exists>c' \<in> ?f ` set (ft_candidates (db_feedback d)). later_candidate c c'" by blast
qed

lemma transitionCandidateInTx_le: "transitionCandidateInTx k target d = Inr d' \<Longrightarrow> candidates_le d d'"
  by (erule transitionCandidateInTx_cases) (simp_all add: set_state_le)

subsection \<open>Every transaction keeps the invariant\<close>

lemma feedback_ok_same_tables:
  assumes "ft_candidates (db_feedback d') = ft_candidates (db_feedback d)" and "ft_sanitized (db_feedback d') = ft_sanitized (db_feedback d)"
    and "ft_emissions (db_feedback d') = ft_emissions (db_feedback d)"
  shows "feedback_ok K D d' \<longleftrightarrow> feedback_ok K D d"
  unfolding feedback_ok_def Let_def assms ..

lemma set_state_ok:
  assumes ok: "feedback_ok K D d" and artifact: "exportable target \<longrightarrow> (\<exists>a \<in> set (ft_sanitized (db_feedback d)). sf_candidate a = k)"
  shows "feedback_ok K D (set_state k from target d)"
proof -
  define f where "f c = (if fc_id c = k \<and> fc_state c = from then c\<lparr>fc_state := target\<rparr> else c)" for c :: FeedbackCandidate
  have ids: "fc_id (f c) = fc_id c" and clean: "clean_artifact K D (f c) a \<longleftrightarrow> clean_artifact K D c a" for c a
    by (simp_all add: f_def clean_artifact_state)
  have rows: "set (ft_candidates (db_feedback (set_state k from target d))) = f ` set (ft_candidates (db_feedback d))"
    by (simp add: set_state_candidates set_update_where f_def [abs_def])
  have dist: "distinct (map fc_id (ft_candidates (db_feedback (set_state k from target d))))"
    using feedback_okD(1) [OF ok] by (simp add: set_state_candidates map_key_update_where)
  have src: "\<exists>c \<in> f ` set (ft_candidates (db_feedback d)). fc_id c = sf_candidate a \<and> clean_artifact K D c a"
    if a: "a \<in> set (ft_sanitized (db_feedback d))" for a
  proof -
    obtain c where c: "c \<in> set (ft_candidates (db_feedback d))" "fc_id c = sf_candidate a" "clean_artifact K D c a"
      using feedback_okD(3) [OF ok a] by blast
    from imageI [OF c(1)] show ?thesis by (rule bexI [rotated]) (simp add: ids clean c)
  qed
  have art: "\<exists>a \<in> set (ft_sanitized (db_feedback d)). sf_candidate a = fc_id (f b)"
    if "b \<in> set (ft_candidates (db_feedback d))" "exportable (fc_state (f b))" for b
    using that artifact feedback_okD(4) [OF ok, of b] by (cases "fc_id b = k \<and> fc_state b = from") (auto simp: f_def)
  show ?thesis unfolding feedback_ok_def Let_def rows set_state_candidates(2-4) ball_simps(9)
    using dist src art feedback_okD [OF ok] by simp
qed

lemma exportable_before: "candidateTransitionAllowed from target \<Longrightarrow> exportable target \<Longrightarrow> target \<noteq> FeedbackStateSanitized \<Longrightarrow> exportable from"
  by (cases "from") (auto simp: exportable_def)

lemma transitionCandidateInTx_ok:
  assumes ok: "feedback_ok K D d" and run: "transitionCandidateInTx k target d = Inr d'"
    and artifact: "target = FeedbackStateSanitized \<longrightarrow> (\<exists>a \<in> set (ft_sanitized (db_feedback d)). sf_candidate a = trim_space k)"
  shows "feedback_ok K D d' \<and> candidates_le d d'"
  using run
proof (cases rule: transitionCandidateInTx_cases)
  case (2 c)
  have c: "c \<in> set (ft_candidates (db_feedback d))" "fc_id c = trim_space k" using find_by_SomeD [OF 2(1)] by simp_all
  have "\<exists>a \<in> set (ft_sanitized (db_feedback d)). sf_candidate a = trim_space k" if "exportable target"
    using artifact exportable_before [OF 2(2) that] feedback_okD(4) [OF ok c(1)] c(2) by auto
  then show ?thesis unfolding 2(3) using set_state_ok [OF ok] set_state_le [OF 2(2)] by blast
qed (use ok in simp)

lemma transitionCandidate_ok:
  assumes "feedback_ok K D d" and "target \<noteq> FeedbackStateSanitized"
  shows "feedback_ok K D (fst (transitionCandidate k target d)) \<and> candidates_le d (fst (transitionCandidate k target d))"
proof (cases "transitionCandidateInTx k target d")
  case (Inl e)
  then show ?thesis using assms(1) by (simp add: transitionCandidate_def with_tx_def)
next
  case (Inr d')
  then have "fst (transitionCandidate k target d) = d'" by (simp add: transitionCandidate_def with_tx_def)
  with transitionCandidateInTx_ok [OF assms(1) Inr] assms(2) show ?thesis by simp
qed

lemma scanText_Nil: "scanText S s = [] \<longleftrightarrow> (\<forall>(code, pattern, r) \<in> set (sn_builtin S). \<not> occurs_in r s) \<and>
    (\<forall>(pattern, r) \<in> set (sc_deny (sn_config S)). \<not> occurs_in r s)"
proof -
  have "distinct_sorted xs = [] \<longleftrightarrow> xs = []" for xs :: "string list" by (metis set_distinct_sorted set_empty)
  moreover have enum: "(\<forall>x \<in> set (enumerate 0 xs). P (snd x)) \<longleftrightarrow> (\<forall>x \<in> set xs. P x)" for P and xs :: "(string \<times> regex) list"
  proof -
    have "set xs = snd ` set (enumerate 0 xs)" by (metis list.set_map map_snd_enumerate)
    then show ?thesis by simp
  qed
  ultimately show ?thesis
    using enum [of "sc_deny (sn_config S)" "\<lambda>x. \<not> occurs_in (snd x) s"] by (simp add: scanText_def filter_empty_conv MatchString_iff split_beta)
qed

lemma project_allowlisted: "project S c = Inr p \<Longrightarrow> allowlisted (sn_codec S) c p"
  unfolding project_def Let_def allowlisted_def safeTransitionToken_def
  by (auto simp: bind_simps list_all_iff split: if_splits)

text \<open>A candidate that has been read at some time: its row is still there, possibly in a later state.\<close>

definition loaded :: "FeedbackCandidate \<Rightarrow> db \<Rightarrow> bool" where
  "loaded c d \<longleftrightarrow> trim_space (fc_id c) = fc_id c \<and> (\<exists>c' \<in> set (ft_candidates (db_feedback d)). later_candidate c c')"

text \<open>A sanitizer with the built-in rules that is configured to deny at least the patterns in \<open>D\<close>.\<close>

definition builtin_sanitizer :: "feedback_codec \<Rightarrow> regex set \<Rightarrow> sanitizer \<Rightarrow> bool" where
  "builtin_sanitizer K D S \<longleftrightarrow> sn_codec S = K \<and> sn_builtin S = builtinScanRules \<and> D \<subseteq> snd ` set (sc_deny (sn_config S))"

lemma NewDeterministicSanitizer_builtin: "NewDeterministicSanitizer K g = Inr S \<Longrightarrow> builtin_sanitizer K (snd ` set (sc_deny g)) S"
  by (auto simp: NewDeterministicSanitizer_def Let_def builtin_sanitizer_def split: if_splits)

lemma insertSanitizationResult_Inr: "insertSanitizationResult r d = Inr d' \<Longrightarrow> d' = set_feedback (\<lambda>t. t\<lparr>ft_results := ft_results t @ [r]\<rparr>) d"
  by (auto simp: insertSanitizationResult_def bind_simps)

lemma insert_sanitized_ok:
  assumes ok: "feedback_ok K D d" and ins: "insert_sanitized a d = Inr d'"
    and c: "c \<in> set (ft_candidates (db_feedback d))" "fc_id c = sf_candidate a" "clean_artifact K D c a"
  shows "feedback_ok K D d' \<and> candidates_le d d' \<and> a \<in> set (ft_sanitized (db_feedback d'))"
proof -
  have fresh: "sf_id a \<notin> sf_id ` set (ft_sanitized (db_feedback d))"
    and d': "d' = set_feedback (\<lambda>t. t\<lparr>ft_sanitized := ft_sanitized t @ [a]\<rparr>) d"
    using ins by (auto simp: insert_sanitized_def bind_simps exists_where_iff image_iff)
  have "feedback_ok K D d'"
    using ok c fresh unfolding feedback_ok_def Let_def d' by auto
  then show ?thesis by (simp add: d' candidates_le_def) (blast intro: later_candidate_refl)
qed

lemma persistUnsafeWithDigest_ok:
  assumes "feedback_ok K D d"
  shows "feedback_ok K D (fst (persistUnsafeWithDigest S E c digest outcome reasons d)) \<and>
    candidates_le d (fst (persistUnsafeWithDigest S E c digest outcome reasons d))"
proof -
  let ?r = "sanitization_of S E c digest outcome (fb_marshal (sn_codec S) (json_texts (uniqueSorted reasons)))"
  let ?target = "if outcome = SanitizationUncertain then FeedbackStateLocalOnly else FeedbackStateRejectedUnsafe"
  let ?body = "\<lambda>d. bindE (insertSanitizationResult ?r d) (\<lambda>d. bindE (transitionCandidateInTx (fc_id c) ?target d) (\<lambda>d. Inr ((None :: SanitizedFeedback option, ?r), d)))"
  have tx: "feedback_ok K D (fst (with_tx ?body d)) \<and> candidates_le d (fst (with_tx ?body d))"
  proof (cases "?body d")
    case (Inl e)
    then show ?thesis using assms by (simp add: with_tx_def)
  next
    case (Inr xd)
    then obtain d1 d2 where d1: "insertSanitizationResult ?r d = Inr d1" and d2: "transitionCandidateInTx (fc_id c) ?target d1 = Inr d2"
      and xd: "snd xd = d2" by (auto elim!: bindE_InrE)
    have "feedback_ok K D d1" "candidates_le d d1"
      using assms insertSanitizationResult_Inr [OF d1] feedback_ok_same_tables [of d1 d K D] by (simp_all add: candidates_le_def)
        (blast intro: later_candidate_refl)
    with transitionCandidateInTx_ok [OF _ d2] have "feedback_ok K D d2 \<and> candidates_le d d2" using candidates_le_trans by (auto split: if_splits)
    then show ?thesis using Inr xd by (simp add: with_tx_def split_beta)
  qed
  show ?thesis using tx assms unfolding persistUnsafeWithDigest_def Let_def by simp
qed

lemma persist_safe_ok:
  assumes ok: "feedback_ok K D d" and c: "loaded c d" and clean: "clean_artifact K D c (artifact_of S E c content)"
  shows "feedback_ok K D (fst (persist_safe S E c digest content d)) \<and> candidates_le d (fst (persist_safe S E c digest content d))"
proof -
  let ?r = "sanitization_of S E c digest SanitizationPass ''[]''" and ?a = "artifact_of S E c content"
  let ?body = "\<lambda>d. bindE (insertSanitizationResult ?r d) (\<lambda>d. bindE (insert_sanitized ?a d) (\<lambda>d.
     bindE (transitionCandidateInTx (fc_id c) FeedbackStateSanitized d) (\<lambda>d. Inr ((Some ?a, ?r), d))))"
  have run: "persist_safe S E c digest content d = with_tx ?body d" by (simp add: persist_safe_def Let_def)
  show ?thesis
  proof (cases "?body d")
    case (Inl e)
    then show ?thesis using ok by (simp add: run with_tx_def)
  next
    case (Inr xd)
    then obtain d1 d2 d3 where d1: "insertSanitizationResult ?r d = Inr d1" and d2: "insert_sanitized ?a d1 = Inr d2"
      and d3: "transitionCandidateInTx (fc_id c) FeedbackStateSanitized d2 = Inr d3" and xd: "snd xd = d3"
      by (auto elim!: bindE_InrE)
    have d1': "ft_candidates (db_feedback d1) = ft_candidates (db_feedback d)" and ok1: "feedback_ok K D d1"
      using ok insertSanitizationResult_Inr [OF d1] feedback_ok_same_tables [of d1 d K D] by simp_all
    obtain c' where c': "c' \<in> set (ft_candidates (db_feedback d))" "later_candidate c c'" using c by (auto simp: loaded_def)
    have "fc_id c' = sf_candidate ?a" using later_candidate_id [OF c'(2)] by (simp add: artifact_of_def Let_def)
    then have ok2: "feedback_ok K D d2" "candidates_le d1 d2" "?a \<in> set (ft_sanitized (db_feedback d2))"
      using insert_sanitized_ok [OF ok1 d2, of c'] c' clean clean_artifact_later by (auto simp: d1')
    have "\<exists>a \<in> set (ft_sanitized (db_feedback d2)). sf_candidate a = trim_space (fc_id c)"
      using ok2(3) c by (intro bexI [of _ ?a]) (simp_all add: artifact_of_def Let_def loaded_def)
    then have "feedback_ok K D d3 \<and> candidates_le d2 d3" using transitionCandidateInTx_ok [OF ok2(1) d3] by blast
    moreover have "candidates_le d d1" by (simp add: candidates_le_def d1') (blast intro: later_candidate_refl)
    ultimately show ?thesis using Inr xd ok2(2) candidates_le_trans by (auto simp: run with_tx_def split_beta)
  qed
qed

lemma sanitize_loaded_ok:
  assumes ok: "feedback_ok K D d" and c: "loaded c d" and S: "builtin_sanitizer K D S"
  shows "feedback_ok K D (fst (sanitize_loaded S E c d)) \<and> candidates_le d (fst (sanitize_loaded S E c d))"
proof (cases "project S c")
  case (Inl e)
  then show ?thesis using persistUnsafeWithDigest_ok [OF ok] by (simp add: sanitize_loaded_def Let_def persistUnsafe_def)
next
  case (Inr p)
  let ?content = "fb_marshal (sn_codec S) (json_projection p)"
  show ?thesis
  proof (cases "scanProjection S p = [] \<and> scanText S ?content = []")
    case True
    have "clean_artifact K D c (artifact_of S E c ?content)"
      using project_allowlisted [OF Inr] True S by (fastforce simp: clean_artifact_def artifact_of_def Let_def scanText_Nil builtin_sanitizer_def)
    from persist_safe_ok [OF ok c this] True Inr show ?thesis by (simp add: sanitize_loaded_def Let_def)
  next
    case False
    then show ?thesis using persistUnsafeWithDigest_ok [OF ok] Inr by (auto simp: sanitize_loaded_def Let_def)
  qed
qed

lemma create_candidate_ok:
  assumes ok: "feedback_ok K D d" and run: "create_candidate_tx c observations d = Inr (x, d')" and new: "fc_state c = FeedbackStateCandidate"
  shows "feedback_ok K D d' \<and> candidates_le d d'"
proof -
  obtain d1 where d1: "insert_candidate c d = Inr d1" and d2: "insert_candidate_links (fc_id c) observations d1 = Inr d'"
    using run by (auto simp: create_candidate_tx_def elim!: bindE_InrE)
  have fresh: "fc_id c \<notin> fc_id ` set (ft_candidates (db_feedback d))"
    and d1': "d1 = set_feedback (\<lambda>t. t\<lparr>ft_candidates := ft_candidates (db_feedback d) @ [c]\<rparr>) d"
    using d1 by (auto simp: insert_candidate_def bind_simps insert_unique_Inr_iff)
  have tables: "ft_candidates (db_feedback d') = ft_candidates (db_feedback d) @ [c]" "ft_sanitized (db_feedback d') = ft_sanitized (db_feedback d)"
    "ft_emissions (db_feedback d') = ft_emissions (db_feedback d)"
    using d2 by (auto simp: insert_candidate_links_def Let_def bind_simps d1')
  have "\<not> exportable (fc_state c)" by (simp add: new exportable_def)
  then have "feedback_ok K D d'" using ok fresh unfolding feedback_ok_def Let_def tables by auto
  moreover have "candidates_le d d'" unfolding candidates_le_def tables by (auto intro: later_candidate_refl)
  ultimately show ?thesis ..
qed

lemma CreateCandidate_ok:
  assumes "feedback_ok K D d"
  shows "feedback_ok K D (fst (CreateCandidate K' E q d)) \<and> candidates_le d (fst (CreateCandidate K' E q d))"
proof (cases "normalizeCandidateInput K' q")
  case (Inr n)
  obtain p transitions metrics key where n: "n = (p, transitions, metrics, key)" by (cases n)
  let ?c = "candidate_of E p transitions metrics key"
  show ?thesis
  proof (cases "create_candidate_tx ?c (ci_observations p) d")
    case (Inr xd)
    have "feedback_ok K D (snd xd) \<and> candidates_le d (snd xd)"
      using create_candidate_ok [OF assms, of ?c "ci_observations p" "fst xd" "snd xd"] Inr by (simp add: candidate_of_def)
    with Inr show ?thesis using \<open>normalizeCandidateInput K' q = Inr n\<close> n by (simp add: CreateCandidate_def with_tx_def split_beta)
  qed (use Inr n assms in \<open>simp add: CreateCandidate_def with_tx_def\<close>)
qed (use assms in \<open>simp add: CreateCandidate_def\<close>)

lemma insert_emission_ok:
  assumes ok: "feedback_ok K D d" and run: "insert_emission e d = Inr d'"
  shows "feedback_ok K D d' \<and> candidates_le d d'"
proof (cases "exists_where (\<lambda>x. fe_feedback x = fe_feedback e \<or> fe_task x = fe_task e) (ft_emissions (db_feedback d))")
  case True
  then show ?thesis using run ok by (simp add: insert_emission_def)
next
  case False
  then have d': "d' = set_feedback (\<lambda>t. t\<lparr>ft_emissions := ft_emissions t @ [e]\<rparr>) d"
    and artifact: "fe_feedback e \<in> sf_id ` set (ft_sanitized (db_feedback d))"
    using run by (force simp: insert_emission_def bind_simps exists_where_iff)+
  have "fe_feedback e \<notin> fe_feedback ` set (ft_emissions (db_feedback d))" "fe_task e \<notin> fe_task ` set (ft_emissions (db_feedback d))"
    using False by (auto simp: exists_where_iff)
  with ok artifact have "feedback_ok K D d'" unfolding feedback_ok_def Let_def d' by auto
  then show ?thesis by (simp add: d' candidates_le_def) (blast intro: later_candidate_refl)
qed

lemma linkEmission_ok:
  assumes "feedback_ok K D d"
  shows "feedback_ok K D (fst (linkEmission R now a k d)) \<and> candidates_le d (fst (linkEmission R now a k d))"
  using insert_emission_ok [OF assms, of "emission_of R now a k"] assms
  by (cases "insert_emission (emission_of R now a k) d") (auto simp: linkEmission_def)

subsection \<open>The steps of the feedback service\<close>

text \<open>
  A step is one transaction: the creation of a candidate, one of the two transactions of a sanitization with any candidate that was read
  before, one of the transitions of the emission, the link of an artifact to its task, or anything that other services do.
\<close>

inductive feedback_step :: "feedback_codec \<Rightarrow> regex set \<Rightarrow> db \<Rightarrow> db \<Rightarrow> bool" for K D where
  created: "feedback_step K D d (fst (CreateCandidate K E q d))"
| sanitizing: "feedback_step K D d (fst (start_sanitizing c d))"
| sanitized: "loaded c d \<Longrightarrow> builtin_sanitizer K D S \<Longrightarrow> feedback_step K D d (fst (sanitize_loaded S E c d))"
| moved: "target \<in> {FeedbackStateExportReady, FeedbackStateLocalOnly, FeedbackStateReported} \<Longrightarrow>
    feedback_step K D d (fst (transitionCandidate k target d))"
| linked: "feedback_step K D d (fst (linkEmission R now a k d))"
| others: "ft_candidates (db_feedback d') = ft_candidates (db_feedback d) \<Longrightarrow> ft_sanitized (db_feedback d') = ft_sanitized (db_feedback d) \<Longrightarrow>
    ft_emissions (db_feedback d') = ft_emissions (db_feedback d) \<Longrightarrow> feedback_step K D d d'"

lemma feedback_step_kept: "feedback_step K D d d' \<Longrightarrow> feedback_ok K D d \<Longrightarrow> feedback_ok K D d' \<and> candidates_le d d'"
proof (induction rule: feedback_step.induct)
  case (sanitizing d c)
  have "fst (start_sanitizing c d) = d \<or> fst (start_sanitizing c d) = fst (transitionCandidate (fc_id c) FeedbackStateSanitizing d)"
    by (auto simp: start_sanitizing_def split: candidate_state.split)
  then show ?case using transitionCandidate_ok [OF sanitizing, of FeedbackStateSanitizing "fc_id c"] sanitizing by auto
next
  case (moved target d k)
  then show ?case using transitionCandidate_ok [of K D d target k] by auto
next
  case (others d' d)
  then show ?case using feedback_ok_same_tables [of d' d K D] by (simp add: candidates_le_def) (blast intro: later_candidate_refl)
qed (simp_all add: CreateCandidate_ok sanitize_loaded_ok linkEmission_ok)

interpretation feedback: kept_invariant "feedback_step K D" "feedback_ok K D" for K D
  by unfold_locales (simp add: feedback_step_kept)

lemma feedback_run_le: "(feedback_step K D)\<^sup>*\<^sup>* d d' \<Longrightarrow> feedback_ok K D d \<Longrightarrow> candidates_le d d'"
proof (induction rule: rtranclp_induct)
  case (step d1 d2)
  then have "feedback_ok K D d1" using feedback.reach_inv by blast
  with step feedback_step_kept candidates_le_trans show ?case by blast
qed simp

subsection \<open>The operations are runs of these steps\<close>

lemma Candidate_loaded: "Candidate k d = Inr c \<Longrightarrow> loaded c d"
  by (auto simp: Candidate_def Let_def loadCandidate_def loaded_def dest!: find_by_SomeD split: if_splits option.splits
      intro: later_candidate_refl)

lemma Sanitize_run:
  assumes S: "builtin_sanitizer K D S"
  shows "(feedback_step K D)\<^sup>*\<^sup>* d (fst (Sanitize S E k d))"
proof (cases "Candidate k d")
  case (Inr c)
  obtain d1 r where d1: "start_sanitizing c d = (d1, r)" by fastforce
  then have one: "feedback_step K D d d1" using feedback_step.sanitizing [of K D d c] by simp
  show ?thesis
  proof (cases "\<exists>u c'. r = Inr u \<and> Candidate (fc_id c) d1 = Inr c'")
    case True
    then obtain c' where c': "r = Inr ()" "Candidate (fc_id c) d1 = Inr c'" by auto
    have "feedback_step K D d1 (fst (sanitize_loaded S E c' d1))" using Candidate_loaded [OF c'(2)] S by (rule feedback_step.sanitized)
    with one Inr d1 c' show ?thesis by (simp add: Sanitize_def converse_rtranclp_into_rtranclp)
  next
    case False
    then have "fst (Sanitize S E k d) = d1" using Inr d1 by (auto simp: Sanitize_def split: sum.splits)
    with one show ?thesis by auto
  qed
qed (simp add: Sanitize_def)

lemma exec_only_step: "exec_only d d' \<Longrightarrow> feedback_step K D d d'"
  by (rule feedback_step.others) (simp_all add: exec_onlyD)

lemma CreateTask_only: "exec_only d (fst (CreateTask T now rand q d))"
  by (auto simp: CreateTask_def CreateTaskWithGuard_def with_tx_def split: sum.split prod.split dest: insertTaskTx_only)

lemma link_then_run:
  "(feedback_step K D)\<^sup>*\<^sup>* d (fst (case linkEmission R now a k d of (d, Inl e) \<Rightarrow> (d, Inl e) | (d, Inr _) \<Rightarrow> (d, Inr (t :: task))))"
proof -
  have "fst (case linkEmission R now a k d of (d, Inl e) \<Rightarrow> (d, Inl e) | (d, Inr _) \<Rightarrow> (d, Inr t)) = fst (linkEmission R now a k d)"
    by (simp split: prod.split sum.split)
  then show ?thesis using feedback_step.linked [of K D d R now a k] by auto
qed

lemma create_emit_task_run: "(feedback_step K D)\<^sup>*\<^sup>* d (fst (create_emit_task R E a key d))"
proof -
  obtain d1 r where d1: "CreateTask (em_tasks R) (clk E 0) (rnd E 0) (emit_request (em_config R) key) d = (d1, r)" by fastforce
  then have one: "feedback_step K D d d1"
    using exec_only_step [OF CreateTask_only [of d "em_tasks R" "clk E 0" "rnd E 0" "emit_request (em_config R) key"]] by simp
  have "(feedback_step K D)\<^sup>*\<^sup>* d1 (fst (create_emit_task R E a key d))"
    using link_then_run [where K = K and D = D and d = d1 and R = R and now = "clk E 1" and a = a] d1 unfolding create_emit_task_def Let_def by (auto split: sum.split option.split)
  with one show ?thesis by (rule converse_rtranclp_into_rtranclp)
qed

lemma request_task_run: "(feedback_step K D)\<^sup>*\<^sup>* d (fst (request_task R E a d))"
  using create_emit_task_run [of K D d R E a] link_then_run [where K = K and D = D and d = d and R = R and now = "clk E 1" and a = a]
  unfolding request_task_def Let_def by (auto split: sum.split option.split)

lemma moved_run: "target \<in> {FeedbackStateExportReady, FeedbackStateLocalOnly, FeedbackStateReported} \<Longrightarrow>
    (feedback_step K D)\<^sup>*\<^sup>* d (fst (transitionCandidate k target d))"
  by (rule r_into_rtranclp) (rule feedback_step.moved)

lemma make_exportable_run: "(feedback_step K D)\<^sup>*\<^sup>* d (fst (make_exportable c d))"
  using moved_run [of FeedbackStateExportReady K D d "fc_id c"] by (simp add: make_exportable_def)

lemma RequestEmit_run: "(feedback_step K D)\<^sup>*\<^sup>* d (fst (RequestEmit R E k d))"
proof (cases "\<exists>Q a c. R = Some Q \<and> ff_enabled (em_config Q) \<and> ff_mode (em_config Q) \<noteq> FeedbackModeLocalOnly \<and>
    loadSanitizedFeedback k d = Inr a \<and> Candidate (sf_candidate a) d = Inr c")
  case True
  then obtain Q a c where Q: "R = Some Q" "ff_enabled (em_config Q)" "ff_mode (em_config Q) \<noteq> FeedbackModeLocalOnly"
    and a: "loadSanitizedFeedback k d = Inr a" "Candidate (sf_candidate a) d = Inr c" by blast
  obtain d1 r where d1: "make_exportable c d = (d1, r)" by fastforce
  have one: "(feedback_step K D)\<^sup>*\<^sup>* d d1" using make_exportable_run [of K D d c] d1 by simp
  have "(feedback_step K D)\<^sup>*\<^sup>* d1 (fst (RequestEmit R E k d))"
    using request_task_run [of K D d1 Q E a] Q a d1 by (auto simp: RequestEmit_def split: sum.split option.split)
  with one show ?thesis by (rule rtranclp_trans)
qed (auto simp: RequestEmit_def bindE_Inr_iff split: option.split sum.split prod.split if_splits)

lemma OnSanitized_run: "(feedback_step K D)\<^sup>*\<^sup>* d (fst (OnSanitized R E k d))"
proof (cases "bindE (loadSanitizedFeedback k d) (\<lambda>a. Candidate (sf_candidate a) d)")
  case (Inr c)
  let ?local = "case R of None \<Rightarrow> True | Some R \<Rightarrow> \<not> ff_enabled (em_config R) \<or> ff_mode (em_config R) = FeedbackModeLocalOnly"
  let ?move = "if fc_state c = FeedbackStateSanitized then transitionCandidate (fc_id c) FeedbackStateExportReady d
     else if fc_state c \<noteq> FeedbackStateExportReady then (d, Inl (Err ''sanitized candidate is not exportable'')) else (d, Inr ())"
  obtain d1 r where d1: "?move = (d1, r)" by fastforce
  have one: "(feedback_step K D)\<^sup>*\<^sup>* d d1"
    using d1 moved_run [of FeedbackStateExportReady K D d "fc_id c"] by (auto split: if_splits)
  show ?thesis
  proof (cases ?local)
    case True
    then show ?thesis using Inr moved_run [of FeedbackStateLocalOnly K D d "fc_id c"] by (simp add: OnSanitized_def)
  next
    case False
    then have "fst (OnSanitized R E k d) = (case r of Inl e \<Rightarrow> d1 | Inr _ \<Rightarrow> fst (RequestEmit R E k d1))"
      unfolding OnSanitized_def Inr using d1 by (simp split: sum.split prod.split)
    then show ?thesis using one RequestEmit_run [of K D d1 R E k] by (cases r) auto
  qed
qed (simp add: OnSanitized_def)

lemma MarkReported_run: "(feedback_step K D)\<^sup>*\<^sup>* d (fst (MarkReported E k operation reference d))"
proof (cases "bindE (loadSanitizedFeedback k d) (\<lambda>a. bindE (Candidate (sf_candidate a) d) (\<lambda>c. Inr (a, c)))")
  case (Inr ac)
  obtain a c where ac: "ac = (a, c)" by (cases ac)
  obtain d1 r where d1: "(if fc_state c \<noteq> FeedbackStateReported then transitionCandidate (fc_id c) FeedbackStateReported d else (d, Inr ())) = (d1, r)"
    by fastforce
  have one: "(feedback_step K D)\<^sup>*\<^sup>* d d1" using d1 moved_run [of FeedbackStateReported K D d "fc_id c"] by (auto split: if_splits)
  have "feedback_step K D d1 d2" if "insert_audit_event x d1 = Inr d2" for x d2
    using insert_audit_event_noted [OF that] by (intro feedback_step.others) auto
  with one have "(feedback_step K D)\<^sup>*\<^sup>* d (case r of Inl e \<Rightarrow> d1 | Inr _ \<Rightarrow>
      (case insert_audit_event (reported_event E (fc_id c) (sf_id a) operation reference) d1 of Inl e \<Rightarrow> d1 | Inr d2 \<Rightarrow> d2))"
    by (auto split: sum.split intro: rtranclp.rtrancl_into_rtrancl)
  moreover have "fst (MarkReported E k operation reference d) = (case r of Inl e \<Rightarrow> d1 | Inr _ \<Rightarrow>
      (case insert_audit_event (reported_event E (fc_id c) (sf_id a) operation reference) d1 of Inl e \<Rightarrow> d1 | Inr d2 \<Rightarrow> d2))"
    using d1 unfolding MarkReported_def Inr ac by (simp split: sum.split prod.split)
  ultimately show ?thesis by simp
qed (simp add: MarkReported_def)

subsection \<open>Properties\<close>

text \<open>
  C23. The life of a candidate: whatever steps follow, a candidate stays in the database with its contents unchanged, its state moves only
  along the allowed transitions, and a candidate that is reported, kept local, rejected or a duplicate never changes again.
\<close>

theorem candidate_states_only_advance:
  assumes "(feedback_step K D)\<^sup>*\<^sup>* d d'" and "feedback_ok K D d" and "c \<in> set (ft_candidates (db_feedback d))"
  shows "\<exists>c' \<in> set (ft_candidates (db_feedback d')). later_candidate c c' \<and> (terminal (fc_state c) \<longrightarrow> c' = c)"
proof -
  obtain c' where c': "c' \<in> set (ft_candidates (db_feedback d'))" "later_candidate c c'"
    using feedback_run_le [OF assms(1,2)] assms(3) by (auto simp: candidates_le_def)
  have "c' = c" if "terminal (fc_state c)"
    using c'(2) terminal_final [OF _ that] by (metis FeedbackCandidate.surjective FeedbackCandidate.update_convs(2) later_candidate_def)
  with c' show ?thesis by blast
qed

text \<open>A codec that encodes an object as its category, an observation, and a candidate about it.\<close>

definition demo_feedback_codec :: feedback_codec where
  "demo_feedback_codec = \<lparr>fb_marshal = (\<lambda>j. case j of JObject xs \<Rightarrow> (case map_of xs ''category'' of Some (JText s) \<Rightarrow> s | _ \<Rightarrow> ''{}'') | _ \<Rightarrow> ''[]''),
     fb_strings = (\<lambda>_. Inr [''FAILED'']), fb_metrics = (\<lambda>_. Inr \<lparr>nm_retry = Some 2, nm_latency = None, nm_cost = None\<rparr>), fb_sha = (\<lambda>s. ''sha:'' @ s)\<rparr>"

definition demo_candidate_input :: "string \<Rightarrow> CandidateInput" where
  "demo_candidate_input note = \<lparr>ci_observations = [''observation_1a''], ci_class = GenericTaskReview, ci_category = '' TEST'', ci_expected = note,
     ci_observed = ''it failed'', ci_transitions = [''FAILED''], ci_metrics = \<lparr>nm_retry = Some 2, nm_latency = None, nm_cost = None\<rparr>,
     ci_human = False, ci_recovery = [], ci_runtime = [], ci_executor = ''codex'', ci_executor_version = [], ci_enforcement = EnforcementPartial\<rparr>"

definition demo_denied :: "regex set" where
  "demo_denied = {literal ''codename''}"

definition demo_sanitizer :: sanitizer where
  "demo_sanitizer = (case NewDeterministicSanitizer demo_feedback_codec \<lparr>sc_version = ''v1 '', sc_deny = [(''codename'', literal ''codename'')], sc_metadata = False, sc_reproduction = False\<rparr> of
     Inr S \<Rightarrow> S | Inl _ \<Rightarrow> undefined)"

definition demo_created :: "string \<Rightarrow> db" where
  "demo_created note = fst (CreateCandidate demo_feedback_codec (demo_note_clock ''3'') (demo_candidate_input note) demo_recorded)"

definition demo_sanitized :: "string \<Rightarrow> db \<times> (SanitizedFeedback option \<times> SanitizationResult) res" where
  "demo_sanitized note = Sanitize demo_sanitizer (demo_note_clock ''4'') ''feedback_3a'' (demo_created note)"

lemma demo_sanitizer_builtin: "builtin_sanitizer demo_feedback_codec demo_denied demo_sanitizer"
proof -
  have "\<exists>S. NewDeterministicSanitizer demo_feedback_codec \<lparr>sc_version = ''v1 '', sc_deny = [(''codename'', literal ''codename'')], sc_metadata = False, sc_reproduction = False\<rparr> = Inr S"
  proof -
    have "trim_space ''v1 '' \<noteq> []" by code_simp
    then show ?thesis by (simp add: NewDeterministicSanitizer_def Let_def)
  qed
  then obtain S where "NewDeterministicSanitizer demo_feedback_codec \<lparr>sc_version = ''v1 '', sc_deny = [(''codename'', literal ''codename'')], sc_metadata = False, sc_reproduction = False\<rparr> = Inr S" ..
  then show ?thesis using NewDeterministicSanitizer_builtin by (fastforce simp: demo_sanitizer_def demo_denied_def)
qed

lemma demo_recorded_ok: "feedback_ok demo_feedback_codec demo_denied demo_recorded"
proof -
  have "(case db_feedback demo_recorded of t \<Rightarrow> ft_candidates t = [] \<and> ft_sanitized t = [] \<and> ft_emissions t = [])" by code_simp
  then show ?thesis by (simp add: feedback_ok_def)
qed

lemma demo_feedback_run: "(feedback_step demo_feedback_codec demo_denied)\<^sup>*\<^sup>* demo_recorded (demo_created note)"
    "(feedback_step demo_feedback_codec demo_denied)\<^sup>*\<^sup>* (demo_created note) (fst (demo_sanitized note))"
  unfolding demo_created_def demo_sanitized_def
  by (rule r_into_rtranclp, rule feedback_step.created) (rule Sanitize_run [OF demo_sanitizer_builtin])

theorem candidate_states_only_advance_witness:
  "\<exists>c \<in> set (ft_candidates (db_feedback (demo_created ''x''))). \<exists>c' \<in> set (ft_candidates (db_feedback (fst (demo_sanitized ''x'')))).
     fc_state c = FeedbackStateCandidate \<and> fc_state c' = FeedbackStateSanitized \<and> later_candidate c c'"
proof -
  have ok: "feedback_ok demo_feedback_codec demo_denied (demo_created ''x'')"
    using feedback.reach_inv [OF demo_feedback_run(1) demo_recorded_ok] .
  have one: "(case ft_candidates (db_feedback (demo_created ''x'')) of [c] \<Rightarrow> fc_state c = FeedbackStateCandidate | _ \<Rightarrow> False)" by code_simp
  have "map fc_state (ft_candidates (db_feedback (fst (demo_sanitized ''x'')))) = [FeedbackStateSanitized]" by code_simp
  then have after: "\<forall>c' \<in> set (ft_candidates (db_feedback (fst (demo_sanitized ''x'')))). fc_state c' = FeedbackStateSanitized"
    by (auto simp: map_eq_Cons_conv)
  from one obtain c where c: "c \<in> set (ft_candidates (db_feedback (demo_created ''x'')))" "fc_state c = FeedbackStateCandidate"
    by (auto split: list.splits)
  from candidate_states_only_advance [OF demo_feedback_run(2) ok c(1)] after c show ?thesis by blast
qed

subsection \<open>Free text has no influence\<close>

definition same_categories :: "FeedbackCandidate \<Rightarrow> FeedbackCandidate \<Rightarrow> bool" where
  "same_categories c c' \<longleftrightarrow> fc_class c = fc_class c' \<and> fc_category c = fc_category c' \<and> fc_transitions c = fc_transitions c' \<and>
     fc_metrics c = fc_metrics c' \<and> fc_human c = fc_human c' \<and> fc_enforcement c = fc_enforcement c' \<and>
     fc_runtime c = fc_runtime c' \<and> fc_executor c = fc_executor c' \<and> fc_executor_version c = fc_executor_version c'"

lemma project_same: "same_categories c c' \<Longrightarrow> project S c' = project S c"
  unfolding project_def same_categories_def by (elim conjE) (simp only:)

definition visible :: "SanitizedFeedback option \<times> SanitizationResult \<Rightarrow> (string \<times> string \<times> string) option \<times> sanitization_outcome \<times> string" where
  "visible x = (map_option (\<lambda>a. (sf_content a, sf_hash a, sf_fingerprint a)) (fst x), sz_outcome (snd x), sz_reasons (snd x))"

definition shown :: "sanitizer \<Rightarrow> FeedbackCandidate \<Rightarrow> (string \<times> string \<times> string) option \<times> sanitization_outcome \<times> string" where
  "shown S c =
     (let unsafe = (\<lambda>outcome reasons. (None, outcome, fb_marshal (sn_codec S) (json_texts (uniqueSorted reasons)))) in
      case project S c of
        Inl _ \<Rightarrow> unsafe SanitizationUncertain [''PROJECTION_INVALID'']
      | Inr p \<Rightarrow> let content = fb_marshal (sn_codec S) (json_projection p); hash = fb_sha (sn_codec S) content in
          if scanProjection S p \<noteq> [] then unsafe SanitizationReject (scanProjection S p)
          else if scanText S content \<noteq> [] then unsafe SanitizationReject (scanText S content)
          else (Some (content, hash, fingerprint_of (sn_codec S) hash), SanitizationPass, ''[]''))"

lemma persistUnsafe_visible:
  "persistUnsafeWithDigest S E c digest outcome reasons d = (d', Inr x) \<Longrightarrow>
   visible x = (None, outcome, fb_marshal (sn_codec S) (json_texts (uniqueSorted reasons)))"
  by (auto simp: persistUnsafeWithDigest_def Let_def with_tx_Inr_iff bind_simps visible_def sanitization_of_def split: if_splits)

lemma persist_safe_visible:
  "persist_safe S E c digest content d = (d', Inr x) \<Longrightarrow>
   visible x = (Some (content, fb_sha (sn_codec S) content, fingerprint_of (sn_codec S) (fb_sha (sn_codec S) content)), SanitizationPass, ''[]'')"
  by (auto simp: persist_safe_def Let_def with_tx_Inr_iff bind_simps visible_def sanitization_of_def artifact_of_def)

lemma sanitize_loaded_visible:
  assumes run: "sanitize_loaded S E c d = (d', Inr x)"
  shows "visible x = shown S c"
proof (cases "project S c")
  case (Inl e)
  with run have "persistUnsafeWithDigest S E c (candidateDigest (sn_codec S) c) SanitizationUncertain [''PROJECTION_INVALID''] d = (d', Inr x)"
    by (simp add: sanitize_loaded_def Let_def persistUnsafe_def)
  from persistUnsafe_visible [OF this] Inl show ?thesis by (simp add: shown_def)
next
  case (Inr p)
  with run show ?thesis
    unfolding sanitize_loaded_def shown_def Let_def by (auto dest: persistUnsafe_visible persist_safe_visible split: if_splits)
qed

text \<open>
  C22. Free text never leaves: two sanitizations by the same sanitizer, in any databases and at any times, of candidates that agree on
  their class, category, transitions, metrics and metadata, have the same outcome, the same reasons and the same content, hash and
  fingerprint, whatever the candidates say about expected and observed behaviour and about recovery.
\<close>

theorem free_text_never_leaves:
  assumes "Sanitize S E k d = (d', Inr x)" and "Sanitize S E' k' e = (e', Inr y)"
    and "Candidate k d = Inr c" and "Candidate k' e = Inr c'" and "same_categories c c'"
  shows "visible x = visible y"
proof -
  have same: "visible z = shown S b" if run: "Sanitize S F j f = (f', Inr z)" and b: "Candidate j f = Inr b" for F j f f' z b
  proof -
    obtain f1 u where f1: "start_sanitizing b f = (f1, Inr u)" and b': "\<exists>b'. Candidate (fc_id b) f1 = Inr b' \<and> sanitize_loaded S F b' f1 = (f', Inr z)"
      using run b by (auto simp: Sanitize_def split: prod.splits sum.splits)
    then obtain b' where b': "Candidate (fc_id b) f1 = Inr b'" "sanitize_loaded S F b' f1 = (f', Inr z)" by blast
    have find: "find_by fc_id (fc_id b) (ft_candidates (db_feedback f)) = Some b" "trim_space (fc_id b) = fc_id b"
      using b by (auto simp: Candidate_def Let_def loadCandidate_def dest: find_by_own find_by_SomeD split: if_splits option.splits)
    have "same_categories b b'"
    proof (cases "f1 = f")
      case True
      then show ?thesis using b'(1) find by (auto simp: Candidate_def Let_def loadCandidate_def same_categories_def split: if_splits)
    next
      case False
      then have "transitionCandidate (fc_id b) FeedbackStateSanitizing f = (f1, Inr u)"
        using f1 by (auto simp: start_sanitizing_def split: candidate_state.splits)
      then have "transitionCandidateInTx (fc_id b) FeedbackStateSanitizing f = Inr f1"
        by (auto simp: transitionCandidate_def with_tx_Inr_iff bind_simps)
      then have "find_by fc_id (fc_id b) (ft_candidates (db_feedback f1)) = Some (b\<lparr>fc_state := FeedbackStateSanitizing\<rparr>)"
        using False find by (cases rule: transitionCandidateInTx_cases) (auto simp: set_state_candidates find_by_update_where)
      then show ?thesis using b'(1) find(2) by (auto simp: Candidate_def Let_def loadCandidate_def same_categories_def split: if_splits)
    qed
    then show ?thesis using sanitize_loaded_visible [OF b'(2)] project_same by (simp add: shown_def)
  qed
  have "shown S c' = shown S c" using project_same [OF assms(5)] by (simp add: shown_def)
  with same [OF assms(1,3)] same [OF assms(2,4)] show ?thesis by simp
qed

theorem free_text_never_leaves_witness:
  "\<exists>x y. snd (demo_sanitized ''x'') = Inr x \<and> snd (demo_sanitized ''y'') = Inr y \<and> visible x = visible y \<and> fst (visible x) \<noteq> None"
proof -
  have runs: "(case snd (demo_sanitized ''x'') of Inr (Some a, r) \<Rightarrow> True | _ \<Rightarrow> False)" "(case snd (demo_sanitized ''y'') of Inr (Some a, r) \<Rightarrow> True | _ \<Rightarrow> False)"
    by code_simp+
  have rows: "(case Candidate ''feedback_3a'' (demo_created ''x'') of Inr c \<Rightarrow> (case Candidate ''feedback_3a'' (demo_created ''y'') of
      Inr c' \<Rightarrow> same_categories c c' \<and> fc_expected c \<noteq> fc_expected c' | _ \<Rightarrow> False) | _ \<Rightarrow> False)" by code_simp
  obtain a r b s where ab: "snd (demo_sanitized ''x'') = Inr (Some a, r)" "snd (demo_sanitized ''y'') = Inr (Some b, s)"
    using runs by (auto split: sum.splits prod.splits option.splits)
  obtain c c' where c: "Candidate ''feedback_3a'' (demo_created ''x'') = Inr c" "Candidate ''feedback_3a'' (demo_created ''y'') = Inr c'" "same_categories c c'"
    using rows by (auto split: sum.splits)
  have "demo_sanitized ''x'' = (fst (demo_sanitized ''x''), Inr (Some a, r))" "demo_sanitized ''y'' = (fst (demo_sanitized ''y''), Inr (Some b, s))"
    using ab by (metis prod.collapse)+
  from free_text_never_leaves [OF this [unfolded demo_sanitized_def] c] ab show ?thesis by (auto simp: visible_def)
qed

end
