(* ===== verification/Emission_Once.thy ===== *)
theory Emission_Once
  imports Candidate_Lifecycle
begin

text \<open>
  Asking for the emission of an artifact again returns the task of the first time and changes nothing, whatever the clock and the random
  part of identifiers say. An emission row names an existing task, as the schema demands.
\<close>

definition emissions_refer :: "db \<Rightarrow> bool" where
  "emissions_refer d \<longleftrightarrow> fe_task ` set (ft_emissions (db_feedback d)) \<subseteq> t_id ` set (db_tasks d)"

lemma Task_Inr: "Task k d = Inr t \<longleftrightarrow> nonblank k \<and> find_by t_id (trim_space k) (db_tasks d) = Some t"
  by (auto simp: Task_def loadTask_def bind_simps split: option.splits)

lemma logicalEmitTask_Some:
  assumes "logicalEmitTask key d = Inr (Some t)"
  shows "Task (t_id t) d = Inr t"
proof -
  obtain x :: task where "Task (t_id x) d = Inr t"
    using assms unfolding logicalEmitTask_def by (auto elim!: bindE_InrE split: list.splits)
  then have "nonblank (t_id x)" "find_by t_id (trim_space (t_id x)) (db_tasks d) = Some t" by (simp_all add: Task_Inr)
  moreover from this have "t_id t = trim_space (t_id x)" by (auto dest: find_by_SomeD)
  ultimately show ?thesis by (simp add: Task_Inr)
qed

lemma linkEmission_new:
  assumes "linkEmission R now a k d = (d', Inr ())"
    and "sf_id a \<notin> fe_feedback ` set (ft_emissions (db_feedback d))" and "k \<notin> fe_task ` set (ft_emissions (db_feedback d))"
  shows "d' = set_feedback (\<lambda>t. t\<lparr>ft_emissions := ft_emissions t @ [emission_of R now a k]\<rparr>) d \<and>
    find_by fe_feedback (sf_id a) (ft_emissions (db_feedback d')) = Some (emission_of R now a k)"
proof -
  have no: "\<not> exists_where (\<lambda>x. fe_feedback x = fe_feedback (emission_of R now a k) \<or> fe_task x = fe_task (emission_of R now a k)) (ft_emissions (db_feedback d))"
    using assms(2,3) by (auto simp: exists_where_iff emission_of_def image_iff)
  obtain d1 where d1: "insert_emission (emission_of R now a k) d = Inr d1" "d' = d1"
    using assms(1) by (auto simp: linkEmission_def split: sum.splits)
  have d': "d' = set_feedback (\<lambda>t. t\<lparr>ft_emissions := ft_emissions t @ [emission_of R now a k]\<rparr>) d"
    using d1 no by (auto simp: insert_emission_def bind_simps)
  have "find_by fe_feedback (sf_id a) (ft_emissions (db_feedback d)) = None" using assms(2) by (simp add: find_by_None_iff)
  then show ?thesis by (simp add: d' find_by_append find_by_Cons emission_of_def)
qed

lemma CreateTask_no_key:
  assumes "CreateTask T now rand q d = (d', Inr t)" and "tr_key q = []"
  shows "d' = d\<lparr>db_tasks := db_tasks d @ [t]\<rparr> \<and> t_id t \<notin> t_id ` set (db_tasks d) \<and> t_id t = NewID ''task'' rand"
proof -
  obtain p where p: "normalizeRootRequest q = Inr p" and run: "insertTaskTx T now rand [] p None d = Inr (t, d')"
    using assms(1) by (auto simp: CreateTask_def CreateTaskWithGuard_def with_tx_Inr_iff split: sum.splits)
  have p_key: "tr_key p = []" using p assms(2) by (auto simp: normalizeRootRequest_def Let_def bind_simps)
  show ?thesis using run
  proof (cases rule: insertTaskTx_cases)
    case (replay q')
    then show ?thesis using p_key by (auto simp: normalizeTaskIntent_def Let_def bind_simps split: if_splits)
  qed (simp add: new_task_def)
qed

text \<open>What follows the state of the candidate: the look for the task, its creation and its link.\<close>

definition emit_tail :: "emissionRuntime \<Rightarrow> env \<Rightarrow> ID \<Rightarrow> SanitizedFeedback \<Rightarrow> db \<Rightarrow> db \<times> task res" where
  "emit_tail R E k a d =
     (case emissionTask k d of Inl e \<Rightarrow> (d, Inl e) | Inr (Some t) \<Rightarrow> (d, Inr t) | Inr None \<Rightarrow> request_task R E a d)"

lemma emissionTask_linked:
  "find_by fe_feedback k (ft_emissions (db_feedback d)) = Some e \<Longrightarrow> Task (fe_task e) d = Inr t \<Longrightarrow> emissionTask k d = Inr (Some t)"
  by (simp add: emissionTask_def)

text \<open>The result of a first request: unchanged tables, or the task linked to the artifact.\<close>

lemma request_task_Inr:
  assumes run: "request_task R E a d = (d', Inr t)" and refer: "emissions_refer d"
    and free: "sf_id a \<notin> fe_feedback ` set (ft_emissions (db_feedback d))" and id: "trim_space (t_id t) = t_id t" "t_id t \<noteq> []"
  obtains "d' = d" "\<And>E'. request_task R E' a d = (d, Inr t)"
  | "emissionTask (sf_id a) d' = Inr (Some t)" "\<exists>ts es. d' = set_feedback (\<lambda>f. f\<lparr>ft_emissions := es\<rparr>) (d\<lparr>db_tasks := ts\<rparr>)"
proof -
  let ?key = "emissionLogicalKey (ff_provider (em_config R)) (ff_destination (em_config R)) (sf_fingerprint a)"
  have budget: "maintenanceBudgetAvailable (ff_envelope (em_config R)) d = Inr True"
    using run by (auto simp: request_task_def split: sum.splits if_splits)
  show thesis
  proof (cases "logicalEmitTask ?key d")
    case (Inl e)
    then show thesis using run budget by (simp add: request_task_def Let_def)
  next
    case (Inr found)
    show thesis
    proof (cases found)
      case (Some x)
      show thesis
      proof (cases "taskHasEmission (t_id x) d")
        case True
        then have "request_task R E' a d = (d, Inr x)" for E' using budget Inr Some by (simp add: request_task_def Let_def)
        with run that(1) show thesis by simp
      next
        case False
        then obtain r where link: "linkEmission R (clk E 1) a (t_id x) d = (d', Inr ())" and "t = x"
          using run budget Inr Some by (auto simp: request_task_def Let_def split: sum.splits prod.splits)
        moreover have "t_id x \<notin> fe_task ` set (ft_emissions (db_feedback d))"
          using False by (auto simp: taskHasEmission_def exists_where_iff)
        ultimately have d': "d' = set_feedback (\<lambda>f. f\<lparr>ft_emissions := ft_emissions f @ [emission_of R (clk E 1) a (t_id t)]\<rparr>) d"
          "find_by fe_feedback (sf_id a) (ft_emissions (db_feedback d')) = Some (emission_of R (clk E 1) a (t_id t))"
          using linkEmission_new [OF _ free] by blast+
        have "Task (t_id t) d' = Inr t"
          using logicalEmitTask_Some [of ?key d x] Inr Some \<open>t = x\<close> by (simp add: d'(1) Task_Inr)
        then have "emissionTask (sf_id a) d' = Inr (Some t)" using emissionTask_linked [OF d'(2)] by (simp add: emission_of_def)
        moreover have "d' = set_feedback (\<lambda>f. f\<lparr>ft_emissions := ft_emissions (db_feedback d) @ [emission_of R (clk E 1) a (t_id t)]\<rparr>) (d\<lparr>db_tasks := db_tasks d\<rparr>)"
          by (simp add: d'(1) set_feedback_def)
        ultimately show thesis using that(2) by blast
      qed
    next
      case None
      with run budget Inr have create: "create_emit_task R E a ?key d = (d', Inr t)" by (simp add: request_task_def Let_def)
      obtain d1 r where d1: "CreateTask (em_tasks R) (clk E 0) (rnd E 0) (emit_request (em_config R) ?key) d = (d1, r)" by fastforce
      show thesis
      proof (cases r)
        case (Inl e)
        then have "d1 = d" using d1 by (auto simp: CreateTask_def CreateTaskWithGuard_def with_tx_def split: sum.splits prod.splits)
        then show thesis using create d1 Inl Inr None by (simp add: create_emit_task_def Let_def)
      next
        case (Inr x)
        have d1': "d1 = d\<lparr>db_tasks := db_tasks d @ [x]\<rparr>" "t_id x \<notin> t_id ` set (db_tasks d)"
          using CreateTask_no_key [OF d1 [unfolded Inr]] by (auto simp: emit_request_def)
        obtain link: "linkEmission R (clk E 1) a (t_id x) d1 = (d', Inr ())" and "t = x"
          using create d1 Inr by (auto simp: create_emit_task_def Let_def split: sum.splits prod.splits)
        moreover have "t_id x \<notin> fe_task ` set (ft_emissions (db_feedback d1))" "sf_id a \<notin> fe_feedback ` set (ft_emissions (db_feedback d1))"
          using refer free d1' by (auto simp: emissions_refer_def)
        ultimately have d': "d' = set_feedback (\<lambda>f. f\<lparr>ft_emissions := ft_emissions f @ [emission_of R (clk E 1) a (t_id t)]\<rparr>) d1"
          "find_by fe_feedback (sf_id a) (ft_emissions (db_feedback d')) = Some (emission_of R (clk E 1) a (t_id t))"
          using linkEmission_new by blast+
        have "find_by t_id (t_id t) (db_tasks d) = None" using d1'(2) \<open>t = x\<close> by (simp add: find_by_None_iff)
        then have "Task (t_id t) d' = Inr t" using id \<open>t = x\<close> by (simp add: d'(1) Task_Inr d1'(1) find_by_append find_by_Cons)
        then have "emissionTask (sf_id a) d' = Inr (Some t)" using emissionTask_linked [OF d'(2)] by (simp add: emission_of_def)
        moreover have "d' = set_feedback (\<lambda>f. f\<lparr>ft_emissions := ft_emissions (db_feedback d) @ [emission_of R (clk E 1) a (t_id t)]\<rparr>)
            (d\<lparr>db_tasks := db_tasks d @ [x]\<rparr>)"
          by (simp add: d'(1) d1'(1) set_feedback_def)
        ultimately show thesis using that(2) by blast
      qed
    qed
  qed
qed

lemma request_task_id:
  assumes "request_task R E a d = (d', Inr t)"
  shows "t_id t \<noteq> []"
proof -
  have logical: "t_id x \<noteq> []" if "logicalEmitTask key e = Inr (Some x)" for key e and x :: task
    using logicalEmitTask_Some [OF that] by (auto simp: Task_Inr)
  have created: "t_id x \<noteq> []" if "CreateTask T now rand (emit_request g key) e = (e', Inr x)" for T now rand g key e e' x
    using CreateTask_no_key [OF that] by (simp add: emit_request_def)
  show ?thesis
    using assms logical created unfolding request_task_def create_emit_task_def Let_def
    by (auto split: sum.splits option.splits prod.splits if_splits)
qed

lemma loadSanitizedFeedback_Inr: "loadSanitizedFeedback k d = Inr a \<longleftrightarrow> trim_space k \<noteq> [] \<and> find_by sf_id (trim_space k) (ft_sanitized (db_feedback d)) = Some a"
  by (auto simp: loadSanitizedFeedback_def Let_def split: option.splits)

lemma Candidate_Inr: "Candidate k d = Inr c \<longleftrightarrow> trim_space k \<noteq> [] \<and> find_by fc_id (trim_space k) (ft_candidates (db_feedback d)) = Some c"
  by (auto simp: Candidate_def loadCandidate_def Let_def split: option.splits)

text \<open>After a candidate has been made exportable it still is.\<close>

lemma make_exportable_again:
  assumes run: "make_exportable c d = (d', Inr ())" and c: "Candidate k d = Inr c"
  shows "ft_sanitized (db_feedback d') = ft_sanitized (db_feedback d) \<and> ft_emissions (db_feedback d') = ft_emissions (db_feedback d) \<and>
    db_tasks d' = db_tasks d \<and> (\<exists>c'. Candidate k d' = Inr c' \<and> (\<forall>e. make_exportable c' e = (e, Inr ())))"
proof (cases "fc_state c = FeedbackStateSanitized")
  case True
  have id: "fc_id c = trim_space k" using c by (auto simp: Candidate_Inr dest: find_by_SomeD)
  then have "transitionCandidateInTx (trim_space k) FeedbackStateExportReady d = Inr d'"
    using run True by (auto simp: make_exportable_def transitionCandidate_def with_tx_Inr_iff bind_simps)
  then have d': "d' = set_state (trim_space k) FeedbackStateSanitized FeedbackStateExportReady d"
    using c True by (cases rule: transitionCandidateInTx_cases) (auto simp: Candidate_Inr)
  then have "Candidate k d' = Inr (c\<lparr>fc_state := FeedbackStateExportReady\<rparr>)"
    using c True id by (simp add: Candidate_Inr set_state_candidates find_by_update_where)
  then show ?thesis by (simp add: d' set_state_candidates) (simp add: set_state_def make_exportable_def)
next
  case False
  then have "d' = d" "\<forall>e. make_exportable c e = (e, Inr ())" using run by (auto simp: make_exportable_def split: if_splits)
  with c show ?thesis by simp
qed

lemma RequestEmit_Inr:
  "RequestEmit R E k d = (d', Inr t) \<longleftrightarrow> (\<exists>Q a c d1. R = Some Q \<and> ff_enabled (em_config Q) \<and> ff_mode (em_config Q) \<noteq> FeedbackModeLocalOnly \<and>
     loadSanitizedFeedback k d = Inr a \<and> Candidate (sf_candidate a) d = Inr c \<and> make_exportable c d = (d1, Inr ()) \<and>
     emit_tail Q E k a d1 = (d', Inr t))"
  unfolding RequestEmit_def emit_tail_def [symmetric] by (auto simp: bind_simps split: option.splits sum.splits prod.splits)

text \<open>
  C24. An emission is requested once: when a request for an artifact has returned a task, any later request for it, with another clock and
  other identifiers, returns the same task and leaves the database as it is; the artifact is linked to no second task.
\<close>

theorem emission_is_requested_once:
  assumes "RequestEmit R E k d = (d', Inr t)" and "trim_space k = k" and "emissions_refer d" and "trim_space (t_id t) = t_id t"
  shows "RequestEmit R E' k d' = (d', Inr t)"
proof -
  obtain Q a c d1 where Q: "R = Some Q" "ff_enabled (em_config Q)" "ff_mode (em_config Q) \<noteq> FeedbackModeLocalOnly"
    and a: "loadSanitizedFeedback k d = Inr a" and c: "Candidate (sf_candidate a) d = Inr c"
    and move: "make_exportable c d = (d1, Inr ())" and tail: "emit_tail Q E k a d1 = (d', Inr t)"
    using assms(1) unfolding RequestEmit_Inr by blast
  obtain c' where d1: "ft_sanitized (db_feedback d1) = ft_sanitized (db_feedback d)" "ft_emissions (db_feedback d1) = ft_emissions (db_feedback d)"
    "db_tasks d1 = db_tasks d" and c': "Candidate (sf_candidate a) d1 = Inr c'" "\<And>e. make_exportable c' e = (e, Inr ())"
    using make_exportable_again [OF move c] by blast
  have id: "sf_id a = k" using a assms(2) by (auto simp: loadSanitizedFeedback_Inr dest: find_by_SomeD)
  have again: "RequestEmit R E' k d' = (d', Inr t)"
    if "ft_sanitized (db_feedback d') = ft_sanitized (db_feedback d1)" "ft_candidates (db_feedback d') = ft_candidates (db_feedback d1)"
      "emit_tail Q E' k a d' = (d', Inr t)"
    unfolding RequestEmit_Inr using Q a c' that d1(1) by (auto simp: loadSanitizedFeedback_Inr Candidate_Inr)
  show ?thesis
  proof (cases "emissionTask k d1")
    case (Inr found)
    show ?thesis
    proof (cases found)
      case (Some x)
      then show ?thesis using tail Inr again by (simp add: emit_tail_def)
    next
      case None
      then have run: "request_task Q E a d1 = (d', Inr t)" using tail Inr by (simp add: emit_tail_def)
      have free: "sf_id a \<notin> fe_feedback ` set (ft_emissions (db_feedback d1))"
        using Inr None by (auto simp: emissionTask_def id find_by_None_iff bind_simps split: option.splits)
      have refer: "emissions_refer d1" using assms(3) d1 by (simp add: emissions_refer_def)
      have "t_id t \<noteq> []" using run by (rule request_task_id)
      from run refer free assms(4) this show ?thesis
      proof (cases rule: request_task_Inr)
        case 1
        then show ?thesis using again Inr None by (simp add: emit_tail_def)
      next
        case 2
        then show ?thesis using again by (auto simp: emit_tail_def id)
      qed
    qed
  qed (use tail in \<open>simp add: emit_tail_def\<close>)
qed

text \<open>An envelope for the maintenance, a configuration that asks the Owner, and two requests.\<close>

definition demo_runtime :: "emissionRuntime res" where
  "demo_runtime = ConfigureEmission (\<lambda>_. True) \<lparr>normalize_json = Inr, request_digest = (\<lambda>_ _. [])\<rparr>
     \<lparr>ff_enabled = True, ff_mode = FeedbackModeRequireApproval, ff_provider = '' github'', ff_destination = ''o/r'', ff_envelope = ''env'',
      ff_deny = [], ff_enforcement = EnforcementOther []\<rparr> ''ann''"

definition demo_budgeted :: db where
  "demo_budgeted = (fst (demo_sanitized ''x''))\<lparr>db_envelopes := [\<lparr>e_id = ''env'', e_parent = None, e_hard_limit = 5, e_created = 0\<rparr>]\<rparr>"

definition demo_requested_emission :: "db \<times> task res" where
  "demo_requested_emission = RequestEmit (case demo_runtime of Inr R \<Rightarrow> Some R | _ \<Rightarrow> None) (demo_note_clock ''5'') ''sanitized_4b'' demo_budgeted"

theorem emission_is_requested_once_witness:
  "\<exists>t. snd demo_requested_emission = Inr t \<and> t_class t = ''collective.feedback.emit'' \<and> RequestEmit (case demo_runtime of Inr R \<Rightarrow> Some R | _ \<Rightarrow> None)
    (demo_note_clock ''9'') ''sanitized_4b'' (fst demo_requested_emission) = (fst demo_requested_emission, Inr t)"
proof -
  have "(case snd demo_requested_emission of Inr t \<Rightarrow> t_class t = ''collective.feedback.emit'' \<and> trim_space (t_id t) = t_id t | Inl _ \<Rightarrow> False)"
    by code_simp
  then obtain t where t: "snd demo_requested_emission = Inr t" "t_class t = ''collective.feedback.emit''" "trim_space (t_id t) = t_id t"
    by (auto split: sum.splits)
  have id: "trim_space ''sanitized_4b'' = ''sanitized_4b''" by code_simp
  have "ft_emissions (db_feedback demo_budgeted) = []" by code_simp
  then have refer: "emissions_refer demo_budgeted" by (simp add: emissions_refer_def)
  have "demo_requested_emission = (fst demo_requested_emission, Inr t)" using t(1) by (metis prod.collapse)
  from emission_is_requested_once [OF this [unfolded demo_requested_emission_def] id refer t(3), of "demo_note_clock ''9''"] t(1,2)
  show ?thesis by (simp add: demo_requested_emission_def)
qed

end
