(* ===== verification/Effects.thy ===== *)
theory Effects
  imports Operations
begin

text \<open>
  The discipline of external effects: what the tables of operations, effect slots and reservations
  and the requests sent to providers satisfy in every state that the services reach, whatever calls
  interleave. The invariant couples an operation with its reservation, lets only the latest operation
  of a slot have an effect, and ties every request sent to the one claim of its operation.
\<close>

subsection \<open>The invariant\<close>

fun coupled :: "operation_state \<Rightarrow> reservation_state option" where
  "coupled OperationPrepared = Some ReservationHeld"
| "coupled OperationDispatched = Some ReservationHeld"
| "coupled OperationOutcomeUnknown = Some ReservationUnresolved"
| "coupled OperationConfirmedEffect = Some ReservationSettled"
| "coupled OperationConfirmedNoEffect = Some ReservationSettled"
| "coupled OperationCancelled = Some ReservationReleased"
| "coupled (OperationOther _) = None"

text \<open>A retired operation has no effect and never will; an operation that was dispatched holds a claim.\<close>

definition retired :: "operation_state \<Rightarrow> bool" where
  "retired st \<longleftrightarrow> st = OperationConfirmedNoEffect \<or> st = OperationCancelled"

definition was_sent :: "operation_state \<Rightarrow> bool" where
  "was_sent st \<longleftrightarrow> st = OperationDispatched \<or> st = OperationOutcomeUnknown \<or> confirmed st"

definition claim_ok :: "operation \<Rightarrow> bool" where
  "claim_ok x \<longleftrightarrow> (o_claim x \<noteq> None \<longleftrightarrow> was_sent (o_state x))"

definition reserved_ok :: "db \<Rightarrow> operation \<Rightarrow> bool" where
  "reserved_ok d x \<longleftrightarrow>
     (case find_by r_id (o_reservation x) (db_reservations d) of
        None \<Rightarrow> False | Some r \<Rightarrow> coupled (o_state x) = Some (r_state r))"

definition slotted_ok :: "db \<Rightarrow> operation \<Rightarrow> bool" where
  "slotted_ok d x \<longleftrightarrow>
     (case find_by s_id (o_slot x) (db_slots d) of
        None \<Rightarrow> False
      | Some s \<Rightarrow> s_task s = o_task x \<and> s_fingerprint s = o_fingerprint x \<and> s_revision s = o_revision x \<and>
          s_provider s = o_provider x)"

definition superseded_ok :: "operation list \<Rightarrow> operation \<Rightarrow> bool" where
  "superseded_ok xs x \<longleftrightarrow>
     retired (o_state x) \<or> (\<forall>y \<in> set xs. o_slot y = o_slot x \<longrightarrow> o_seq y \<le> o_seq x)"

definition slot_position :: "operation \<Rightarrow> ID \<times> int" where
  "slot_position x = (o_slot x, o_seq x)"

definition ops_ok :: "db \<Rightarrow> bool" where
  "ops_ok d \<longleftrightarrow>
     distinct (map o_id (db_ops d)) \<and> distinct (map slot_position (db_ops d)) \<and>
     distinct (map o_reservation (db_ops d)) \<and>
     distinct (map s_id (db_slots d)) \<and> distinct (map slot_key (db_slots d)) \<and>
     list_all claim_ok (db_ops d) \<and> list_all (reserved_ok d) (db_ops d) \<and>
     list_all (slotted_ok d) (db_ops d) \<and> list_all (superseded_ok (db_ops d)) (db_ops d) \<and>
     list_all (\<lambda>x. 0 < o_seq x) (db_ops d)"

lemma ops_okD:
  assumes "ops_ok d"
  shows "distinct (map o_id (db_ops d))" "distinct (map slot_position (db_ops d))"
    "distinct (map o_reservation (db_ops d))" "distinct (map s_id (db_slots d))" "distinct (map slot_key (db_slots d))"
    "x \<in> set (db_ops d) \<Longrightarrow> claim_ok x" "x \<in> set (db_ops d) \<Longrightarrow> reserved_ok d x"
    "x \<in> set (db_ops d) \<Longrightarrow> slotted_ok d x" "x \<in> set (db_ops d) \<Longrightarrow> superseded_ok (db_ops d) x"
    "x \<in> set (db_ops d) \<Longrightarrow> 0 < o_seq x"
  using assms by (auto simp: ops_ok_def list_all_iff)

lemma reserved_ok_iff:
  "reserved_ok d x \<longleftrightarrow> (\<exists>r. find_by r_id (o_reservation x) (db_reservations d) = Some r \<and>
     coupled (o_state x) = Some (r_state r))"
  by (auto simp: reserved_ok_def split: option.splits)

lemma slotted_ok_iff:
  "slotted_ok d x \<longleftrightarrow> (\<exists>s. find_by s_id (o_slot x) (db_slots d) = Some s \<and> s_task s = o_task x \<and>
     s_fingerprint s = o_fingerprint x \<and> s_revision s = o_revision x \<and> s_provider s = o_provider x)"
  by (auto simp: slotted_ok_def split: option.splits)

subsection \<open>How an operation moves\<close>

text \<open>Nothing leaves a terminal state, nothing sent is unsent, and the identity of an operation is fixed.\<close>

fun op_advance :: "operation_state \<Rightarrow> operation_state \<Rightarrow> bool" where
  "op_advance OperationPrepared st = True"
| "op_advance OperationDispatched st = was_sent st"
| "op_advance OperationOutcomeUnknown st = (st = OperationOutcomeUnknown \<or> confirmed st)"
| "op_advance st st' = (st' = st)"

definition later_op :: "operation \<Rightarrow> operation \<Rightarrow> bool" where
  "later_op x x' \<longleftrightarrow>
     x' = x\<lparr>o_state := o_state x', o_dispatch_decision := o_dispatch_decision x', o_claim := o_claim x',
            o_reference := o_reference x', o_reconcile := o_reconcile x', o_cost := o_cost x',
            o_dispatched := o_dispatched x', o_settled := o_settled x'\<rparr> \<and>
     (o_claim x \<noteq> None \<longrightarrow> o_claim x' = o_claim x) \<and> op_advance (o_state x) (o_state x') \<and>
     (Terminal (o_state x) \<longrightarrow> x' = x)"

definition ops_le :: "db \<Rightarrow> db \<Rightarrow> bool" where
  "ops_le d d' \<longleftrightarrow>
     (\<forall>k x. find_by o_id k (db_ops d) = Some x \<longrightarrow> (\<exists>x'. find_by o_id k (db_ops d') = Some x' \<and> later_op x x')) \<and>
     (\<forall>k s. find_by s_id k (db_slots d) = Some s \<longrightarrow> find_by s_id k (db_slots d') = Some s)"

definition ops_next :: "db \<Rightarrow> db \<Rightarrow> bool" where
  "ops_next d d' \<longleftrightarrow> ops_ok d' \<and> ops_le d d'"

lemma op_advance_refl [simp]: "op_advance st st"
  by (cases st) (simp_all add: was_sent_def)

lemma op_advance_trans: "op_advance a b \<Longrightarrow> op_advance b c \<Longrightarrow> op_advance a c"
  by (cases a; cases b) (auto simp: was_sent_def confirmed_def)

lemma later_op_refl [simp]: "later_op x x"
  by (simp add: later_op_def)

lemma later_opE:
  assumes "later_op x x'"
  obtains st c cl rf rc co di se where
    "x' = x\<lparr>o_state := st, o_dispatch_decision := c, o_claim := cl, o_reference := rf, o_reconcile := rc,
            o_cost := co, o_dispatched := di, o_settled := se\<rparr>"
    "o_claim x \<noteq> None \<Longrightarrow> cl = o_claim x" "op_advance (o_state x) st" "Terminal (o_state x) \<Longrightarrow> x' = x"
  using assms unfolding later_op_def by metis

lemma later_opD:
  assumes "later_op x x'"
  shows "o_id x' = o_id x" "o_task x' = o_task x" "o_attempt x' = o_attempt x" "o_slot x' = o_slot x"
    "o_seq x' = o_seq x" "o_fingerprint x' = o_fingerprint x" "o_revision x' = o_revision x"
    "o_provider x' = o_provider x" "o_reservation x' = o_reservation x" "o_approval x' = o_approval x"
    "o_callers x' = o_callers x" "slot_position x' = slot_position x" "request_of x' s = request_of x s"
    "op_advance (o_state x) (o_state x')" "o_claim x \<noteq> None \<Longrightarrow> o_claim x' = o_claim x"
    "Terminal (o_state x) \<Longrightarrow> x' = x"
  using assms by (auto simp: slot_position_def request_of_def elim!: later_opE)

lemma later_op_trans: "later_op x y \<Longrightarrow> later_op y z \<Longrightarrow> later_op x z"
proof -
  assume xy: "later_op x y" and yz: "later_op y z"
  have "op_advance (o_state x) (o_state z)"
    using later_opD(14) [OF xy] later_opD(14) [OF yz] by (rule op_advance_trans)
  moreover have "o_claim x \<noteq> None \<longrightarrow> o_claim z = o_claim x"
    using later_opD(15) [OF xy] later_opD(15) [OF yz] by auto
  moreover have "Terminal (o_state x) \<longrightarrow> z = x"
    using later_opD(16) [OF xy] later_opD(16) [OF yz] by auto
  ultimately show ?thesis using xy yz
    by (elim later_opE) (simp add: later_op_def)
qed

lemma ops_le_refl [simp]: "ops_le d d"
  by (simp add: ops_le_def)

lemma ops_le_trans: "ops_le d e \<Longrightarrow> ops_le e f \<Longrightarrow> ops_le d f"
  unfolding ops_le_def using later_op_trans by meson

lemma ops_next_refl: "ops_ok d \<Longrightarrow> ops_next d d"
  by (simp add: ops_next_def)

lemma ops_next_trans: "ops_next d e \<Longrightarrow> ops_next e f \<Longrightarrow> ops_next d f"
  by (auto simp: ops_next_def intro: ops_le_trans)

lemma ops_le_op: "ops_le d d' \<Longrightarrow> find_by o_id k (db_ops d) = Some x \<Longrightarrow>
   \<exists>x'. find_by o_id k (db_ops d') = Some x' \<and> later_op x x'"
  by (simp add: ops_le_def)

text \<open>Writes to other tables, and reservations that keep the rows of the existing operations.\<close>

lemma ops_next_other:
  assumes ok: "ops_ok d" and "db_ops d' = db_ops d" "db_slots d' = db_slots d"
    and res: "\<And>k r. find_by r_id k (db_reservations d) = Some r \<Longrightarrow> find_by r_id k (db_reservations d') = Some r"
  shows "ops_next d d'"
proof -
  have "reserved_ok d' x" if "reserved_ok d x" for x
    using that res by (auto simp: reserved_ok_iff)
  then show ?thesis
    using ok assms(2,3) by (auto simp: ops_next_def ops_ok_def ops_le_def list_all_iff slotted_ok_def)
qed

lemma ops_next_cong:
  "db_ops e' = db_ops e \<Longrightarrow> db_slots e' = db_slots e \<Longrightarrow> db_reservations e' = db_reservations e \<Longrightarrow>
   ops_next d e' = ops_next d e"
  by (simp add: ops_next_def ops_ok_def ops_le_def reserved_ok_def slotted_ok_def cong: list.pred_cong)

subsection \<open>The three kinds of writes\<close>

lemma image_if_eq: "x \<in> A \<Longrightarrow> (\<lambda>y. if y = x then z else y) ` A = insert z (A - {x})"
  by auto

lemma update_one:
  assumes "distinct (map key rows)" and "find_by key k rows = Some x" and "hit x"
    and only: "\<And>y. y \<in> set rows \<Longrightarrow> hit y \<Longrightarrow> y = x" and "key (f x) = key x"
  shows "find_by key j (update_where hit f rows) = (if j = k then Some (f x) else find_by key j rows)"
    and "set (update_where hit f rows) = insert (f x) (set rows - {x})"
proof -
  have x: "x \<in> set rows" "key x = k" using find_by_SomeD [OF assms(2)] by auto
  have "find_by key j (update_where hit f rows) = map_option (\<lambda>y. if hit y then f y else y) (find_by key j rows)"
    using only assms(5) by (intro find_by_update_where) blast
  also have "\<dots> = (if j = k then Some (f x) else find_by key j rows)"
  proof (cases "j = k")
    case False
    have "map_option (\<lambda>y. if hit y then f y else y) (find_by key j rows) = map_option id (find_by key j rows)"
      using False only x(2) by (intro option.map_cong refl) (auto dest!: find_by_SomeD)
    then show ?thesis using False by (simp add: option.map_id)
  qed (use assms(2,3) in simp)
  finally show "find_by key j (update_where hit f rows) = (if j = k then Some (f x) else find_by key j rows)" .
  show "set (update_where hit f rows) = insert (f x) (set rows - {x})"
  proof -
    have "(if hit y then f y else y) = (if y = x then f x else y)" if "y \<in> set rows" for y
      using only [OF that] assms(3) by metis
    then have "set (update_where hit f rows) = (\<lambda>y. if y = x then f x else y) ` set rows"
      unfolding set_update_where by (rule image_cong [OF refl])
    then show ?thesis by (simp only: image_if_eq [OF x(1)])
  qed
qed

lemma ops_next_change:
  assumes ok: "ops_ok d" and x: "find_by o_id k (db_ops d) = Some x" and live: "\<not> retired (o_state x)"
    and hit: "hit x" "\<And>y. y \<in> set (db_ops d) \<Longrightarrow> hit y \<Longrightarrow> y = x"
    and f: "later_op x (f x)" "claim_ok (f x)"
    and d': "db_ops d' = update_where hit f (db_ops d)" "db_slots d' = db_slots d"
    and own: "find_by r_id (o_reservation x) (db_reservations d') = Some r" "coupled (o_state (f x)) = Some (r_state r)"
    and others: "\<And>j. j \<noteq> o_reservation x \<Longrightarrow>
      find_by r_id j (db_reservations d') = find_by r_id j (db_reservations d)"
  shows "ops_next d d'"
proof -
  note keep = later_opD [OF f(1)]
  have mem: "x \<in> set (db_ops d)" "o_id x = k" using find_by_SomeD [OF x] by auto
  have rows: "set (db_ops d') = insert (f x) (set (db_ops d) - {x})"
    and look: "\<And>j. find_by o_id j (db_ops d') = (if j = k then Some (f x) else find_by o_id j (db_ops d))"
    using update_one [OF ops_okD(1) [OF ok] x, where hit = hit and f = f] hit keep(1) by (simp_all add: d'(1))
  have keys: "map g (db_ops d') = map g (db_ops d)" if "g (f x) = g x" for g :: "operation \<Rightarrow> 'k"
    using hit(2) that unfolding d'(1) by (intro map_key_update_where) metis
  have "reserved_ok d' y" if "y \<in> set (db_ops d')" for y
  proof (cases "y = f x")
    case True
    then show ?thesis using own keep(9) by (simp add: reserved_ok_iff)
  next
    case False
    then have y: "y \<in> set (db_ops d)" "y \<noteq> x" using that rows by auto
    then have "o_reservation y \<noteq> o_reservation x"
      using ops_okD(3) [OF ok] mem(1) by (auto simp: distinct_map dest: inj_onD)
    then show ?thesis using ops_okD(7) [OF ok y(1)] others by (simp add: reserved_ok_iff)
  qed
  moreover have "superseded_ok (db_ops d') y" if "y \<in> set (db_ops d')" for y
  proof -
    have top: "\<forall>z \<in> set (db_ops d). o_slot z = o_slot x \<longrightarrow> o_seq z \<le> o_seq x"
      using ops_okD(9) [OF ok mem(1)] live by (simp add: superseded_ok_def)
    show ?thesis
    proof (cases "y = f x")
      case True
      with top show ?thesis unfolding superseded_ok_def rows by (simp add: keep(4,5))
    next
      case False
      with that have y: "y \<in> set (db_ops d)" using rows by auto
      with ops_okD(9) [OF ok y] show ?thesis
        unfolding superseded_ok_def rows using mem(1) by (auto simp: keep(4,5))
    qed
  qed
  moreover have "slotted_ok d' y" if "y \<in> set (db_ops d')" for y
    using that ops_okD(8) [OF ok] mem(1) keep(2,4,6,7,8) unfolding rows slotted_ok_iff d'(2) by auto
  moreover have "claim_ok y" "0 < o_seq y" if "y \<in> set (db_ops d')" for y
    using that ops_okD(6,10) [OF ok] mem(1) f(2) keep(5) unfolding rows by auto
  ultimately have "ops_ok d'"
    using ops_okD(1-5) [OF ok] keep(1,9,12) by (simp add: ops_ok_def list_all_iff keys d'(2))
  moreover have "ops_le d d'"
    using look f(1) x by (auto simp: ops_le_def d'(2))
  ultimately show ?thesis by (simp add: ops_next_def)
qed

lemma ops_next_insert:
  assumes ok: "ops_ok d" and new: "o_id x \<notin> o_id ` set (db_ops d)" "o_reservation x \<notin> o_reservation ` set (db_ops d)"
    and st: "o_state x = OperationPrepared" "o_claim x = None"
    and res: "find_by r_id (o_reservation x) (db_reservations d') = Some r" "r_state r = ReservationHeld"
    and kept: "\<And>k r. find_by r_id k (db_reservations d) = Some r \<Longrightarrow> find_by r_id k (db_reservations d') = Some r"
    and slot: "slotted_ok d x" and top: "0 < o_seq x"
      "\<And>y. y \<in> set (db_ops d) \<Longrightarrow> o_slot y = o_slot x \<Longrightarrow> o_seq y < o_seq x \<and> retired (o_state y)"
    and d': "db_ops d' = db_ops d @ [x]" "db_slots d' = db_slots d"
  shows "ops_next d d'"
proof -
  have "reserved_ok d' y" if "y \<in> set (db_ops d')" for y
    using that res st ops_okD(7) [OF ok, of y] kept by (auto simp: d' reserved_ok_iff)
  moreover have "slotted_ok d' y" if "y \<in> set (db_ops d')" for y
    using that slot ops_okD(8) [OF ok, of y] by (auto simp: d' slotted_ok_iff)
  moreover have "superseded_ok (db_ops d') y" if "y \<in> set (db_ops d')" for y
    using that top ops_okD(9) [OF ok, of y] by (force simp: d' superseded_ok_def less_imp_le)
  moreover have "claim_ok y" "0 < o_seq y" if "y \<in> set (db_ops d')" for y
    using that ops_okD(6,10) [OF ok, of y] st top(1) by (auto simp: d' claim_ok_def was_sent_def confirmed_def)
  moreover have "slot_position x \<notin> slot_position ` set (db_ops d)"
    using top(2) by (fastforce simp: slot_position_def)
  ultimately have "ops_ok d'"
    using ops_okD(1-5) [OF ok] new by (simp add: ops_ok_def list_all_iff d')
  moreover have "ops_le d d'" by (auto simp: ops_le_def d' find_by_append)
  ultimately show ?thesis by (simp add: ops_next_def)
qed

lemma ops_next_slot:
  assumes ok: "ops_ok d" and new: "s_id s \<notin> s_id ` set (db_slots d)" "slot_key s \<notin> slot_key ` set (db_slots d)"
    and d': "db_slots d' = db_slots d @ [s]" "db_ops d' = db_ops d" "db_reservations d' = db_reservations d"
  shows "ops_next d d'"
proof -
  have "slotted_ok d' x" if "slotted_ok d x" for x
    using that by (auto simp: slotted_ok_iff d' find_by_append)
  moreover have "reserved_ok d' = reserved_ok d" by (simp add: fun_eq_iff reserved_ok_def d')
  ultimately have "ops_ok d'"
    using ops_okD [OF ok] new by (simp add: ops_ok_def list_all_iff d')
  moreover have "ops_le d d'" by (simp add: ops_le_def d' find_by_append)
  ultimately show ?thesis by (simp add: ops_next_def)
qed

subsection \<open>Releasing, settling and marking an operation with its reservation\<close>

lemma op_row: "ops_ok d \<Longrightarrow> find_by o_id k (db_ops d) = Some x \<Longrightarrow> x \<in> set (db_ops d) \<and> o_id x = k \<and> claim_ok x \<and>
  (\<exists>r. find_by r_id (o_reservation x) (db_reservations d) = Some r \<and> coupled (o_state x) = Some (r_state r))"
  using find_by_SomeD [of o_id k "db_ops d" x] ops_okD(6,7) [of d x] by (simp add: reserved_ok_iff)

lemma only_row: "ops_ok d \<Longrightarrow> find_by o_id k (db_ops d) = Some x \<Longrightarrow> y \<in> set (db_ops d) \<Longrightarrow> o_id y = k \<Longrightarrow> y = x"
  using find_by_only [OF ops_okD(1)] by blast

lemma set_reservation_tables:
  "db_ops (set_reservation k f d) = db_ops d" "db_slots (set_reservation k f d) = db_slots d"
  "db_tasks (set_reservation k f d) = db_tasks d" "db_attempts (set_reservation k f d) = db_attempts d"
  "db_approvals (set_reservation k f d) = db_approvals d" "db_decisions (set_reservation k f d) = db_decisions d"
  by (simp_all add: set_reservation_def)

text \<open>
  The body that all three share: the reservation of the operation moves, then the operation itself,
  then an event is appended.
\<close>

lemma move_with_reservation:
  assumes ok: "ops_ok d" and x: "find_by o_id k (db_ops d) = Some x" and live: "\<not> retired (o_state x)"
    and hit: "hit x" "\<And>y. hit y \<Longrightarrow> o_id y = k"
    and f: "later_op x (f x)" "claim_ok (f x)"
    and g: "\<And>y. r_id (g y) = r_id y" "\<And>y. coupled (o_state (f x)) = Some (r_state (g y))"
    and d': "db_ops d' = update_where hit f (db_ops d)" "db_slots d' = db_slots d"
      "db_reservations d' = db_reservations (set_reservation (o_reservation x) g d)"
  shows "ops_next d d'"
proof -
  obtain r where r: "find_by r_id (o_reservation x) (db_reservations d) = Some r"
    using op_row [OF ok x] by blast
  then have "find_by r_id (o_reservation x) (db_reservations d') = Some (g r)"
    using g(1) by (simp add: d'(3) find_set_reservation)
  then show ?thesis
    using ops_next_change [OF ok x live hit(1) _ f d'(1,2)] only_row [OF ok x] hit(2) g
    by (auto simp: d'(3) find_set_reservation_other)
qed

lemma append_event_rest:
  assumes "append_event i t a ty det now d = Inr d'"
  shows "db_ops d' = db_ops d" "db_slots d' = db_slots d" "db_reservations d' = db_reservations d"
    "db_tasks d' = db_tasks d" "db_attempts d' = db_attempts d" "db_approvals d' = db_approvals d"
    "db_decisions d' = db_decisions d" "db_policy_sets d' = db_policy_sets d"
  using append_event_Inr [OF assms] by auto

lemma op_event_rest:
  assumes "appendOperationEvent rand ty x now d = Inr d'"
  shows "db_ops d' = db_ops d" "db_slots d' = db_slots d" "db_reservations d' = db_reservations d"
    "db_tasks d' = db_tasks d" "db_attempts d' = db_attempts d" "db_approvals d' = db_approvals d"
    "db_decisions d' = db_decisions d" "db_policy_sets d' = db_policy_sets d"
  using append_event_rest [OF assms [unfolded appendOperationEvent_def]] by simp_all

lemma loadOperation_Inr [bind_simps]: "loadOperation k d = Inr x \<longleftrightarrow> find_by o_id k (db_ops d) = Some x"
  by (simp add: loadOperation_def split: option.split)

lemma set_op_tables:
  "db_ops (set_op hit f d) = update_where hit f (db_ops d)" "db_slots (set_op hit f d) = db_slots d"
  "db_reservations (set_op hit f d) = db_reservations d" "db_tasks (set_op hit f d) = db_tasks d"
  "db_attempts (set_op hit f d) = db_attempts d" "db_approvals (set_op hit f d) = db_approvals d"
  "db_decisions (set_op hit f d) = db_decisions d" "db_policy_sets (set_op hit f d) = db_policy_sets d"
  by (simp_all add: set_op_def)

lemma retired_simps [simp]:
  "\<not> retired OperationPrepared" "\<not> retired OperationDispatched" "\<not> retired OperationOutcomeUnknown"
  "\<not> retired OperationConfirmedEffect" "retired OperationConfirmedNoEffect" "retired OperationCancelled"
  by (simp_all add: retired_def)

lemma was_sent_simps [simp]:
  "\<not> was_sent OperationPrepared" "was_sent OperationDispatched" "was_sent OperationOutcomeUnknown"
  "was_sent OperationConfirmedEffect" "was_sent OperationConfirmedNoEffect" "\<not> was_sent OperationCancelled"
  "confirmed OperationConfirmedEffect" "confirmed OperationConfirmedNoEffect" "\<not> confirmed OperationPrepared"
  "\<not> confirmed OperationDispatched" "\<not> confirmed OperationOutcomeUnknown" "\<not> confirmed OperationCancelled"
  by (simp_all add: was_sent_def confirmed_def)

lemma confirmed_settled: "confirmed st \<Longrightarrow> coupled st = Some ReservationSettled \<and> was_sent st"
  by (auto simp: confirmed_def)

lemma cancel_op_Inr:
  assumes "ops_ok d" and "find_by o_id k (db_ops d) = Some x" and "o_state x = OperationPrepared"
  shows "cancel_op now ledger_now x d = Inr d' \<longleftrightarrow>
    o_reservation x \<noteq> [] \<and> d' = set_op (\<lambda>y. o_id y = o_id x \<and> o_state y = OperationPrepared)
      (\<lambda>y. y\<lparr>o_state := OperationCancelled, o_settled := Some now\<rparr>)
      (set_reservation (o_reservation x) (\<lambda>r. r\<lparr>r_state := ReservationReleased, r_updated := ledger_now\<rparr>) d)"
  using op_row [OF assms(1,2)] assms(3) by (auto simp: cancel_op_def bind_simps ReleaseInTx_Inr live_def)

lemma cancel_op_next:
  assumes ok: "ops_ok d" and x: "find_by o_id k (db_ops d) = Some x" "o_state x = OperationPrepared"
    and run: "cancel_op now ledger_now x d = Inr d'"
  shows "ops_next d d'"
proof -
  let ?f = "\<lambda>y. y\<lparr>o_state := OperationCancelled, o_settled := Some now\<rparr>"
  have claim: "o_claim x = None" using op_row [OF ok x(1)] x(2) by (simp add: claim_ok_def)
  note d' = run [unfolded cancel_op_Inr [OF ok x]]
  show ?thesis
    using op_row [OF ok x(1)] x(2) claim d'
    by (intro move_with_reservation [OF ok x(1), where f = ?f and g = "\<lambda>r. r\<lparr>r_state := ReservationReleased, r_updated := ledger_now\<rparr>"
          and hit = "\<lambda>y. o_id y = o_id x \<and> o_state y = OperationPrepared"])
      (simp_all add: set_op_tables set_reservation_tables later_op_def claim_ok_def)
qed

lemma SettleOutcomeInTx_Inr:
  assumes ok: "ops_ok d" and run: "SettleOutcomeInTx now ledger_now rand k out d = Inr (y, d')"
    and st: "confirmed (out_state out)"
  obtains x where "find_by o_id k (db_ops d) = Some x" "o_state x = out_state out" "o_cost x = Some (out_cost out)"
      "o_reference x = trim_space (out_reference out)" "y = x" "d' = d"
  | x f d0 where "find_by o_id k (db_ops d) = Some x" "o_state x = OperationDispatched \<or> o_state x = OperationOutcomeUnknown"
      "f = (\<lambda>z. z\<lparr>o_state := out_state out, o_reference := trim_space (out_reference out),
                 o_reconcile := False, o_cost := Some (out_cost out), o_settled := Some now\<rparr>)" "y = f x"
      "0 \<le> out_cost out" "d0 = set_op (\<lambda>z. o_id z = k) f (set_reservation (o_reservation x)
        (\<lambda>r. r\<lparr>r_state := ReservationSettled, r_settled := Some (out_cost out), r_updated := ledger_now\<rparr>) d)"
      "appendOperationEvent rand ''OPERATION_OUTCOME_SETTLED'' x now d0 = Inr d'"
proof -
  obtain x where x: "find_by o_id k (db_ops d) = Some x"
    using run unfolding SettleOutcomeInTx_def bind_simps by blast
  obtain r where r: "find_by r_id (o_reservation x) (db_reservations d) = Some r" "coupled (o_state x) = Some (r_state r)"
    using op_row [OF ok x] by blast
  consider "o_state x = out_state out" | "o_state x \<noteq> out_state out" "o_state x = OperationDispatched \<or> o_state x = OperationOutcomeUnknown"
    using run x by (auto simp: SettleOutcomeInTx_def loadOperation_def split: if_splits)
  then show thesis
  proof cases
    case 1
    then have "o_cost x = Some (out_cost out) \<and> o_reference x = trim_space (out_reference out) \<and> y = x \<and> d' = d"
      using run x by (simp add: SettleOutcomeInTx_def loadOperation_def split: if_splits)
    with that(1) [OF x 1] show ?thesis by blast
  next
    case 2
    define f :: "operation \<Rightarrow> operation" where "f = (\<lambda>z. z\<lparr>o_state := out_state out, o_reference := trim_space (out_reference out),
                 o_reconcile := False, o_cost := Some (out_cost out), o_settled := Some now\<rparr>)"
    have "r_state r \<noteq> ReservationSettled" using 2 r(2) by auto
    moreover obtain d1 where d1: "SettleInTx ledger_now (o_reservation x) (out_cost out) d = Inr d1"
      "appendOperationEvent rand ''OPERATION_OUTCOME_SETTLED'' x now (set_op (\<lambda>z. o_id z = k) f d1) = Inr d'" "y = f x"
      using run x 2 by (auto simp: SettleOutcomeInTx_def loadOperation_def bindE_Inr_iff Let_def f_def)
    ultimately show ?thesis
      using that(2) [OF x 2(2) f_def d1(3) _ _ d1(2)] r(1) by (auto simp: SettleInTx_Inr)
  qed
qed

lemma SettleOutcomeInTx_next:
  assumes ok: "ops_ok d" and run: "SettleOutcomeInTx now ledger_now rand k out d = Inr (y, d')"
    and st: "confirmed (out_state out)"
  shows "ops_next d d'"
  using ok run st
proof (cases rule: SettleOutcomeInTx_Inr)
  case (2 x f d0)
  have "ops_next d d0"
    using op_row [OF ok 2(1)] 2(2) st confirmed_settled [OF st]
    by (intro move_with_reservation [OF ok 2(1), where f = f and hit = "\<lambda>z. o_id z = k" and g =
          "\<lambda>r. r\<lparr>r_state := ReservationSettled, r_settled := Some (out_cost out), r_updated := ledger_now\<rparr>"])
      (auto simp: 2(3,6) set_op_tables set_reservation_tables later_op_def claim_ok_def)
  then show ?thesis using op_event_rest [OF 2(7)] by (simp add: ops_next_cong [of d' d0])
qed (simp add: ops_next_refl ok)

lemma markUnknownInTx_Inr:
  assumes ok: "ops_ok d" and run: "markUnknownInTx now ledger_now rand k d = Inr (y, d')"
  obtains x where "find_by o_id k (db_ops d) = Some x" "confirmed (o_state x)" "y = x" "d' = d"
  | x f d0 where "find_by o_id k (db_ops d) = Some x" "o_state x = OperationDispatched \<or> o_state x = OperationOutcomeUnknown"
      "f = (\<lambda>z. z\<lparr>o_state := OperationOutcomeUnknown, o_reconcile := True\<rparr>)" "y = f x"
      "d0 = set_op (\<lambda>z. o_id z = k) f
         (if o_state x = OperationOutcomeUnknown then d else set_reservation (o_reservation x)
            (\<lambda>r. r\<lparr>r_state := ReservationUnresolved, r_updated := ledger_now\<rparr>) d)"
      "appendOperationEvent rand ''OPERATION_OUTCOME_UNKNOWN'' x now d0 = Inr d'"
proof -
  obtain x where x: "find_by o_id k (db_ops d) = Some x"
    using run unfolding markUnknownInTx_def bind_simps by blast
  obtain r where r: "find_by r_id (o_reservation x) (db_reservations d) = Some r" "coupled (o_state x) = Some (r_state r)"
    using op_row [OF ok x] by blast
  consider "confirmed (o_state x)" | "\<not> confirmed (o_state x)" "o_state x = OperationDispatched \<or> o_state x = OperationOutcomeUnknown"
    using run x by (auto simp: markUnknownInTx_def loadOperation_def split: if_splits)
  then show thesis
  proof cases
    case 1
    then have "y = x \<and> d' = d" using run x by (simp add: markUnknownInTx_def loadOperation_def)
    with that(1) [OF x 1] show ?thesis by blast
  next
    case 2
    define f :: "operation \<Rightarrow> operation" where "f = (\<lambda>z. z\<lparr>o_state := OperationOutcomeUnknown, o_reconcile := True\<rparr>)"
    obtain d1 where d1: "MarkUnresolvedInTx ledger_now (o_reservation x) d = Inr d1"
      "appendOperationEvent rand ''OPERATION_OUTCOME_UNKNOWN'' x now (set_op (\<lambda>z. o_id z = k) f d1) = Inr d'" "y = f x"
      using run x 2 by (auto simp: markUnknownInTx_def loadOperation_def bindE_Inr_iff Let_def f_def)
    then show ?thesis
      using that(2) [OF x 2(2) f_def d1(3) _ d1(2)] r 2(2) by (auto simp: MarkUnresolvedInTx_Inr)
  qed
qed

lemma markUnknownInTx_next:
  assumes ok: "ops_ok d" and run: "markUnknownInTx now ledger_now rand k d = Inr (y, d')"
  shows "ops_next d d'"
  using ok run
proof (cases rule: markUnknownInTx_Inr)
  case (2 x f d0)
  obtain r where r: "find_by r_id (o_reservation x) (db_reservations d) = Some r" "coupled (o_state x) = Some (r_state r)"
    using op_row [OF ok 2(1)] by blast
  have fx: "later_op x (f x)" "claim_ok (f x)" "coupled (o_state (f x)) = Some ReservationUnresolved" "\<not> retired (o_state x)"
  proof -
    have "\<not> Terminal (o_state x)" "op_advance (o_state x) OperationOutcomeUnknown" "was_sent (o_state x)" "\<not> retired (o_state x)"
      using 2(2) by auto
    with op_row [OF ok 2(1)] show "later_op x (f x)" "claim_ok (f x)" "coupled (o_state (f x)) = Some ReservationUnresolved"
      "\<not> retired (o_state x)"
      by (simp_all add: 2(3) later_op_def claim_ok_def)
  qed
  have "ops_next d d0"
  proof (cases "o_state x = OperationOutcomeUnknown")
    case True
    then show ?thesis using r fx find_by_SomeD [OF 2(1)] only_row [OF ok 2(1)]
      by (intro ops_next_change [OF ok 2(1), where f = f and hit = "\<lambda>z. o_id z = k" and r = r])
        (auto simp: 2(5) set_op_tables)
  next
    case False
    then show ?thesis using fx find_by_SomeD [OF 2(1)]
      by (intro move_with_reservation [OF ok 2(1), where f = f and hit = "\<lambda>z. o_id z = k" and g =
            "\<lambda>r. r\<lparr>r_state := ReservationUnresolved, r_updated := ledger_now\<rparr>"])
        (simp_all add: 2(5) set_op_tables set_reservation_tables)
  qed
  then show ?thesis using op_event_rest [OF 2(6)] by (simp add: ops_next_cong [of d' d0])
qed (simp add: ops_next_refl ok)

subsection \<open>Preparation\<close>

lemma insert_slot_Inr:
  "insert_slot s d = Inr (s', d') \<longleftrightarrow> s' = s \<and> 0 < s_revision s \<and> d' = d\<lparr>db_slots := db_slots d @ [s]\<rparr> \<and>
     s_id s \<notin> s_id ` set (db_slots d) \<and> slot_key s \<notin> slot_key ` set (db_slots d)"
  by (auto simp: insert_slot_def bind_simps exists_where_iff image_iff)

lemma ResolveEffectSlot_Inr:
  assumes "ResolveEffectSlot S now rand task_id key p dtype fingerprint canonical d = Inr (s, d')"
  shows "find_by s_id (s_id s) (db_slots d') = Some s \<or> \<not> distinct (map s_id (db_slots d))"
    and "s_task s = task_id" "s_collective s = sv_collective S" "s_key s = trim_space key"
    "s_fingerprint s = fingerprint" "s_provider s = pv_name p" "s_descriptor s = dtype"
    and "d' = d \<or> d' = d\<lparr>db_slots := db_slots d @ [s]\<rparr> \<and> s_id s \<notin> s_id ` set (db_slots d) \<and>
      slot_key s \<notin> slot_key ` set (db_slots d) \<and> s_revision s = 1 \<and> s_canonical s = canonical"
proof -
  let ?key = "(sv_collective S, task_id, trim_space key)"
  show "find_by s_id (s_id s) (db_slots d') = Some s \<or> \<not> distinct (map s_id (db_slots d))"
    and "s_task s = task_id" "s_collective s = sv_collective S" "s_key s = trim_space key"
    "s_fingerprint s = fingerprint" "s_provider s = pv_name p" "s_descriptor s = dtype"
    and "d' = d \<or> d' = d\<lparr>db_slots := db_slots d @ [s]\<rparr> \<and> s_id s \<notin> s_id ` set (db_slots d) \<and>
      slot_key s \<notin> slot_key ` set (db_slots d) \<and> s_revision s = 1 \<and> s_canonical s = canonical"
    using assms find_by_SomeD [of slot_key ?key "db_slots d" s] find_by_member [of s_id "db_slots d" s]
    by (cases "find_by slot_key ?key (db_slots d)";
        auto simp: ResolveEffectSlot_def Let_def insert_slot_Inr slot_key_def find_by_insert_new split: if_splits)+
qed

lemma ResolveEffectSlot_next:
  assumes "ops_ok d" and "ResolveEffectSlot S now rand task_id key p dtype fingerprint canonical d = Inr (s, d')"
  shows "ops_next d d'"
  using ResolveEffectSlot_Inr(8) [OF assms(2)] assms(1) by (auto intro: ops_next_refl ops_next_slot)

lemma highest_Some:
  "highest xs = Some x \<Longrightarrow> x \<in> set xs \<and> (\<forall>y \<in> set xs. o_seq y \<le> o_seq x)"
proof (induction xs arbitrary: x)
  case (Cons a xs)
  show ?case
  proof (cases "highest xs")
    case None
    moreover from None have "xs = []" by (cases xs) (simp_all split: option.splits if_splits)
    ultimately show ?thesis using Cons.prems by simp
  next
    case (Some b)
    from Cons.IH [OF Some] have "b \<in> set xs" "\<forall>y \<in> set xs. o_seq y \<le> o_seq b" by auto
    with Cons.prems Some show ?thesis by (cases "o_seq a < o_seq b") auto
  qed
qed simp

lemma highest_None: "highest xs = None \<longleftrightarrow> xs = []"
  by (cases xs) (auto split: option.splits)

lemma fold_max_ge: "y \<in> set ys \<or> y \<le> z \<Longrightarrow> (y :: int) \<le> fold max ys z"
proof (induction ys arbitrary: z)
  case (Cons a ys)
  from Cons.prems have "y = a \<or> y \<in> set ys \<or> y \<le> z" by (simp add: disj_assoc)
  then have "y \<in> set ys \<or> y \<le> max a z"
    by (elim disjE) (simp_all only: max.cobounded1 simp_thms le_max_iff_disj)
  from Cons.IH [OF this] show ?case by simp
qed simp

lemma max_sequence_ge: "x \<in> set xs \<Longrightarrow> o_seq x \<le> max_sequence xs"
proof (cases xs)
  case (Cons y ys)
  moreover assume "x \<in> set xs"
  ultimately have "o_seq x \<in> set (map o_seq ys) \<or> o_seq x \<le> o_seq y" by auto
  from fold_max_ge [OF this] show ?thesis using Cons by (simp add: max_sequence_def)
qed simp

lemma max_sequence_nonneg: "(\<And>x. x \<in> set xs \<Longrightarrow> 0 < o_seq x) \<Longrightarrow> 0 \<le> max_sequence xs"
proof (cases xs)
  case (Cons x ys)
  assume "\<And>x. x \<in> set xs \<Longrightarrow> 0 < o_seq x"
  then have "0 < o_seq x" and "o_seq x \<le> max_sequence xs" using Cons max_sequence_ge [of x xs] by simp_all
  then show ?thesis by simp
qed (simp add: max_sequence_def)

lemma nextOperationSequence_Inr:
  "nextOperationSequence k d = Inr n \<longleftrightarrow> in64 n \<and> n = max_sequence (slot_ops k d) + 1"
  by (auto simp: nextOperationSequence_def bind_simps)

lemma previous_op_Inr:
  assumes ok: "ops_ok d" and run: "previous_op C E attempt_id P s d = Inr (found, d')"
  shows "ops_next d d'" "db_slots d' = db_slots d" "db_tasks d' = db_tasks d" "db_attempts d' = db_attempts d"
    "db_approvals d' = db_approvals d" "db_decisions d' = db_decisions d"
    "found = None \<Longrightarrow> y \<in> set (db_ops d') \<Longrightarrow> o_slot y = s_id s \<Longrightarrow> retired (o_state y)"
    "found = Some x \<Longrightarrow> d' = d \<and> x \<in> set (db_ops d) \<and> o_slot x = s_id s \<and> \<not> retired (o_state x)"
proof -
  have "ops_next d d' \<and> db_slots d' = db_slots d \<and> db_tasks d' = db_tasks d \<and> db_attempts d' = db_attempts d \<and>
    db_approvals d' = db_approvals d \<and> db_decisions d' = db_decisions d \<and>
    (found = None \<longrightarrow> (\<forall>y \<in> set (db_ops d'). o_slot y = s_id s \<longrightarrow> retired (o_state y))) \<and>
    (\<forall>x. found = Some x \<longrightarrow> d' = d \<and> x \<in> set (db_ops d) \<and> o_slot x = s_id s \<and> \<not> retired (o_state x))"
  proof (cases "highest (slot_ops (s_id s) d)")
    case None
    then have "found = None" "d' = d" using run by (simp_all add: previous_op_def loadLatestOperationForSlotTx_def)
    then show ?thesis using None ok by (auto simp: highest_None slot_ops_def filter_empty_conv ops_next_refl)
  next
    case (Some x)
    have x: "x \<in> set (db_ops d)" "o_slot x = s_id s" "\<And>y. y \<in> set (db_ops d) \<Longrightarrow> o_slot y = s_id s \<Longrightarrow> o_seq y \<le> o_seq x"
      using highest_Some [OF Some] by (auto simp: slot_ops_def)
    have others: "y = x \<or> retired (o_state y)" if "y \<in> set (db_ops d)" "o_slot y = s_id s" for y
    proof -
      have "o_seq y = o_seq x \<Longrightarrow> y = x"
        using ops_okD(2) [OF ok] that x(1,2) inj_onD [of slot_position "set (db_ops d)" y x]
        by (simp add: distinct_map slot_position_def)
      moreover have "retired (o_state y)" if "o_seq y < o_seq x"
        using ops_okD(9) [OF ok \<open>y \<in> set (db_ops d)\<close>] x(1,2) that \<open>o_slot y = s_id s\<close>
        by (force simp: superseded_ok_def)
      ultimately show ?thesis using x(3) [OF that] by fastforce
    qed
    have row: "find_by o_id (o_id x) (db_ops d) = Some x" using find_by_member [OF ops_okD(1) [OF ok] x(1)] .
    consider "found = Some x" "d' = d" "\<not> retired (o_state x)" | "found = None" "d' = d" "retired (o_state x)"
      | "found = None" "o_state x = OperationPrepared" "cancel_op (pp_now P) (clk E 6) x d = Inr d'"
      using run Some
      by (cases "o_state x")
        (auto simp: previous_op_def loadLatestOperationForSlotTx_def bindE_Inr_iff split: if_splits)
    then show ?thesis
    proof cases
      case 3
      note d' = cancel_op_next [OF ok row 3(2,3)] 3(3) [unfolded cancel_op_Inr [OF ok row 3(2)]]
      have "retired (o_state y)" if y: "y \<in> set (db_ops d')" "o_slot y = s_id s" for y
      proof -
        obtain z where z: "z \<in> set (db_ops d)"
          "y = (if o_id z = o_id x \<and> o_state z = OperationPrepared
                then z\<lparr>o_state := OperationCancelled, o_settled := Some (pp_now P)\<rparr> else z)"
          using y(1) d'(2) by (auto simp: set_op_tables set_reservation_tables set_update_where)
        with y(2) have "o_slot z = s_id s" by (simp split: if_splits)
        with others [OF z(1)] z(2) 3(2) show ?thesis by auto
      qed
      then show ?thesis using d' 3(1) by (auto simp: set_op_tables set_reservation_tables)
    qed (use ok x others in \<open>auto simp: ops_next_refl\<close>)
  qed
  then show "ops_next d d'" "db_slots d' = db_slots d" "db_tasks d' = db_tasks d" "db_attempts d' = db_attempts d"
    "db_approvals d' = db_approvals d" "db_decisions d' = db_decisions d"
    "found = None \<Longrightarrow> y \<in> set (db_ops d') \<Longrightarrow> o_slot y = s_id s \<Longrightarrow> retired (o_state y)"
    "found = Some x \<Longrightarrow> d' = d \<and> x \<in> set (db_ops d) \<and> o_slot x = s_id s \<and> \<not> retired (o_state x)"
    by auto
qed

text \<open>What an approval call leaves alone, and what it keeps.\<close>

definition approvals_kept :: "db \<Rightarrow> db \<Rightarrow> bool" where
  "approvals_kept d d' \<longleftrightarrow> approvals_ok d' \<and> approval_le d d'"

definition same_rest :: "db \<Rightarrow> db \<Rightarrow> bool" where
  "same_rest d d' \<longleftrightarrow> d' = d\<lparr>db_approvals := db_approvals d', db_decisions := db_decisions d'\<rparr>"

lemma approvals_kept_refl: "approvals_ok d \<Longrightarrow> approvals_kept d d"
  by (simp add: approvals_kept_def)

lemma approvals_kept_trans: "approvals_kept d e \<Longrightarrow> approvals_kept e f \<Longrightarrow> approvals_kept d f"
  by (auto simp: approvals_kept_def intro: approval_le_trans)

lemma approvals_kept_same:
  "approvals_ok d \<Longrightarrow> db_approvals d' = db_approvals d \<Longrightarrow> db_decisions d' = db_decisions d \<Longrightarrow> approvals_kept d d'"
  by (simp add: approvals_kept_def approvals_ok_cong [of d' d] approval_le_def)

lemma same_rest_tables:
  assumes "same_rest d d'"
  shows "db_ops d' = db_ops d" "db_slots d' = db_slots d" "db_reservations d' = db_reservations d"
    "db_tasks d' = db_tasks d" "db_attempts d' = db_attempts d" "db_events d' = db_events d"
proof -
  obtain a b where "d' = d\<lparr>db_approvals := a, db_decisions := b\<rparr>"
    using assms unfolding same_rest_def by blast
  then show "db_ops d' = db_ops d" "db_slots d' = db_slots d" "db_reservations d' = db_reservations d"
    "db_tasks d' = db_tasks d" "db_attempts d' = db_attempts d" "db_events d' = db_events d"
    by simp_all
qed

lemma CreateInTx_kept:
  "approvals_ok d \<Longrightarrow> CreateInTx now created rand q d = Inr (r, d') \<Longrightarrow> approvals_kept d d' \<and> same_rest d d'"
  using CreateInTx_ok CreateInTx_le CreateInTx_Inr [of now created rand q d r d']
  by (auto simp: approvals_kept_def same_rest_def)

lemma ConsumeInTx_kept:
  assumes "approvals_ok d" and "ConsumeInTx now k digest d = Inr d'"
  shows "approvals_kept d d' \<and> same_rest d d'"
proof -
  obtain P f where "d' = set_approval P f d" using ConsumeInTx_Inr [OF assms(2)] by blast
  then have "same_rest d d'" by (simp add: set_approval_def same_rest_def)
  then show ?thesis
    using ConsumeInTx_ok [OF assms] ConsumeInTx_le [OF assms(2)] by (simp add: approvals_kept_def)
qed

lemma prepareApprovalInTx_kept:
  assumes ok: "approvals_ok d"
    and run: "prepareApprovalInTx C E op expiry c callers p dtype canonical d = Inr (a, d')"
  shows "approvals_kept d d' \<and> same_rest d d'"
proof (cases "requires_approval c (normalizeApprovalIDs callers)")
  case False
  then have "d' = d" using run by (simp add: prepareApprovalInTx_def)
  then show ?thesis using ok by (simp add: approvals_kept_refl same_rest_def)
next
  case True
  then have "\<exists>q r. CreateInTx (clk E 4) (clk E 5) (rnd E 3) q d = Inr (r, d')"
    using run by (auto simp: prepareApprovalInTx_def Let_def bindE_Inr_iff split: if_splits)
  then show ?thesis using CreateInTx_kept [OF ok] by blast
qed

text \<open>One transaction of the operation service keeps every invariant and only adds to the histories.\<close>

definition tx_kept :: "db \<Rightarrow> db \<Rightarrow> bool" where
  "tx_kept d d' \<longleftrightarrow> ops_next d d' \<and> approvals_kept d d' \<and> db_tasks d' = db_tasks d \<and> db_attempts d' = db_attempts d"

lemma tx_kept_trans: "tx_kept d e \<Longrightarrow> tx_kept e f \<Longrightarrow> tx_kept d f"
  by (auto simp: tx_kept_def intro: ops_next_trans approvals_kept_trans)

lemma tx_kept_refl: "ops_ok d \<Longrightarrow> approvals_ok d \<Longrightarrow> tx_kept d d"
  by (simp add: tx_kept_def ops_next_refl approvals_kept_refl)

lemma tx_keptD: "tx_kept d d' \<Longrightarrow> ops_ok d' \<and> approvals_ok d' \<and> ops_le d d' \<and> approval_le d d'"
  by (simp add: tx_kept_def ops_next_def approvals_kept_def)

lemma tx_kept_same:
  "ops_next d d' \<Longrightarrow> approvals_ok d \<Longrightarrow> db_approvals d' = db_approvals d \<Longrightarrow> db_decisions d' = db_decisions d \<Longrightarrow>
   db_tasks d' = db_tasks d \<Longrightarrow> db_attempts d' = db_attempts d \<Longrightarrow> tx_kept d d'"
  by (simp add: tx_kept_def approvals_kept_same)

lemma insert_operation_Inr:
  "insert_operation x d = Inr d' \<longleftrightarrow>
   (case o_prepare_decision x of (_, k, hash, caps) \<Rightarrow> profile_active k hash caps d) \<and> 0 < o_seq x \<and> 0 < o_revision x \<and>
   o_id x \<notin> o_id ` set (db_ops d) \<and> slot_position x \<notin> slot_position ` set (db_ops d) \<and>
   d' = d\<lparr>db_ops := db_ops d @ [x]\<rparr>"
  by (auto simp: insert_operation_def bind_simps exists_where_iff image_iff slot_position_def)

lemma prepare_new_Inr:
  assumes "prepare_new C E q P g t s d = Inr (x, d')"
  obtains r d1 n a d2 d3 where
    "ReserveInTx (clk E 3) (rnd E 1) (t_envelope t) (cp_exposure (pp_cost P)) (cp_enforceability (pp_cost P)) d = Inr (r, d1)"
    "nextOperationSequence (s_id s) d1 = Inr n"
    "prepareApprovalInTx C E (prepared_operation E q P (ga_task g) s (r_id r) n) (ga_expires g) (pp_decision P)
       (pp_callers P) (pp_provider P) (pp_type P) (pp_canonical P) d1 = Inr (a, d2)"
    "x = (prepared_operation E q P (ga_task g) s (r_id r) n)\<lparr>o_approval := fst a, o_callers := snd a\<rparr>"
    "insert_operation x d2 = Inr d3"
    "appendOperationEvent (rnd E 4) ''OPERATION_PREPARED'' x (pp_now P) d3 = Inr d'"
  using assms unfolding prepare_new_def Let_def bindE_Inr_iff by auto

lemma prepare_new_kept:
  assumes ok: "ops_ok d" "approvals_ok d" and run: "prepare_new C E q P g t s d = Inr (x, d')"
    and slot: "find_by s_id (s_id s) (db_slots d) = Some s" "s_task s = ga_task g"
      "s_fingerprint s = pp_fingerprint P" "s_provider s = pv_name (pp_provider P)"
    and free: "\<And>y. y \<in> set (db_ops d) \<Longrightarrow> o_slot y = s_id s \<Longrightarrow> retired (o_state y)"
  shows "tx_kept d d'" "find_by o_id (o_id x) (db_ops d') = Some x"
proof -
  from run obtain r d1 n a d2 d3 where
    reserve: "ReserveInTx (clk E 3) (rnd E 1) (t_envelope t) (cp_exposure (pp_cost P)) (cp_enforceability (pp_cost P)) d = Inr (r, d1)"
    and seq: "nextOperationSequence (s_id s) d1 = Inr n"
    and appr: "prepareApprovalInTx C E (prepared_operation E q P (ga_task g) s (r_id r) n) (ga_expires g) (pp_decision P)
       (pp_callers P) (pp_provider P) (pp_type P) (pp_canonical P) d1 = Inr (a, d2)"
    and x: "x = (prepared_operation E q P (ga_task g) s (r_id r) n)\<lparr>o_approval := fst a, o_callers := snd a\<rparr>"
    and ins: "insert_operation x d2 = Inr d3"
    and ev: "appendOperationEvent (rnd E 4) ''OPERATION_PREPARED'' x (pp_now P) d3 = Inr d'"
    by (rule prepare_new_Inr)
  have d1: "d1 = d\<lparr>db_reservations := db_reservations d @ [r]\<rparr>" "r_id r \<notin> r_id ` set (db_reservations d)"
    "r_state r = ReservationHeld"
    using reserve by (auto simp: ReserveInTx_Inr)
  have "approvals_ok d1" using ok(2) by (simp add: d1(1) approvals_ok_cong [of "d\<lparr>db_reservations := _\<rparr>" d])
  then have d2: "approvals_kept d1 d2" "same_rest d1 d2" using prepareApprovalInTx_kept appr by blast+
  note rest = same_rest_tables [OF d2(2)] op_event_rest [OF ev]
  have d3: "d3 = d2\<lparr>db_ops := db_ops d2 @ [x]\<rparr>" "o_id x \<notin> o_id ` set (db_ops d)" "0 < o_seq x"
    using ins rest by (simp_all add: insert_operation_Inr d1(1))
  have fields: "o_reservation x = r_id r" "o_state x = OperationPrepared" "o_claim x = None" "o_slot x = s_id s"
    "o_seq x = max_sequence (slot_ops (s_id s) d) + 1" "o_task x = ga_task g" "o_fingerprint x = pp_fingerprint P"
    "o_revision x = s_revision s" "o_provider x = pv_name (pp_provider P)"
    using seq by (simp_all add: x prepared_operation_def nextOperationSequence_Inr d1(1) slot_ops_def)
  have "r_id r \<notin> o_reservation ` set (db_ops d)"
    using ops_okD(7) [OF ok(1)] d1(2) by (force simp: reserved_ok_iff dest!: find_by_SomeD)
  moreover have "o_seq y < o_seq x \<and> retired (o_state y)" if "y \<in> set (db_ops d)" "o_slot y = o_slot x" for y
    using that free max_sequence_ge [of y "slot_ops (s_id s) d"] by (simp add: fields slot_ops_def)
  moreover have "find_by r_id (r_id r) (db_reservations d1) = Some r"
    using d1(2) by (simp add: d1(1) find_by_insert_new)
  ultimately have "ops_next d d'"
    using slot d3 by (intro ops_next_insert [OF ok(1), where x = x and r = r])
      (auto simp: fields rest d1(1,3) slotted_ok_iff find_by_append)
  moreover have "approvals_kept d d'"
    using d2(1) by (simp add: approvals_kept_def approval_le_def rest d3(1) d1(1) approvals_ok_cong [of d' d2])
  ultimately show "tx_kept d d'" by (simp add: tx_kept_def rest d3(1) d1(1))
  show "find_by o_id (o_id x) (db_ops d') = Some x"
    using d3(2) by (simp add: rest d3(1) d1(1) find_by_insert_new)
qed

lemma prepare_guard_Inr:
  "prepare_guard E k P d = Inr (g, t) \<longleftrightarrow>
   GuardAttempt (clk E 1) k [TaskExecuting] d = Inr g \<and> ga_task g = pp_task P \<and>
   find_by t_id (ga_task g) (db_tasks d) = Some t \<and> authority_covers (pp_provider P) t \<and>
   validateDecisionProvenance (pp_decision P) (pp_now P) = Inr () \<and>
   (\<exists>gate. evaluatePrepareOutcome (pd_outcome (pp_decision P)) = Inr gate)"
  by (auto simp: prepare_guard_def bind_simps loadTaskControlTx_def split: option.split_asm)

lemma prepareInTx_Inr:
  assumes "prepareInTx C S E q P d = Inr (x, d')"
  obtains g t s d1 d2 where "prepare_guard E (qp_attempt q) P d = Inr (g, t)"
    "ResolveEffectSlot S (clk E 2) (rnd E 0) (ga_task g) (qp_slot_key q) (pp_provider P) (pp_type P)
       (pp_fingerprint P) (pp_canonical P) d = Inr (s, d1)"
    "previous_op C E (qp_attempt q) P s d1 = Inr (Some x, d2)" "d' = d2"
  | g t s d1 d2 where "prepare_guard E (qp_attempt q) P d = Inr (g, t)"
    "ResolveEffectSlot S (clk E 2) (rnd E 0) (ga_task g) (qp_slot_key q) (pp_provider P) (pp_type P)
       (pp_fingerprint P) (pp_canonical P) d = Inr (s, d1)"
    "previous_op C E (qp_attempt q) P s d1 = Inr (None, d2)"
    "prepare_new C E q P g t s d2 = Inr (x, d')"
proof -
  obtain g t s d1 f d2 where run: "prepare_guard E (qp_attempt q) P d = Inr (g, t)"
    "ResolveEffectSlot S (clk E 2) (rnd E 0) (ga_task g) (qp_slot_key q) (pp_provider P) (pp_type P)
       (pp_fingerprint P) (pp_canonical P) d = Inr (s, d1)"
    "previous_op C E (qp_attempt q) P s d1 = Inr (f, d2)"
    "(case f of Some x \<Rightarrow> Inr (x, d2) | None \<Rightarrow> prepare_new C E q P g t s d2) = Inr (x, d')"
    using assms unfolding prepareInTx_def bindE_Inr_iff split_paired_Ex prod.sel by blast
  then show thesis using that by (cases f) auto
qed

lemma prepareInTx_kept:
  assumes ok: "ops_ok d" "approvals_ok d" and run: "prepareInTx C S E q P d = Inr (x, d')"
  shows "tx_kept d d' \<and> find_by o_id (o_id x) (db_ops d') = Some x"
proof -
  have prefix: "tx_kept d d1 \<and> find_by s_id (s_id s) (db_slots d1) = Some s"
    if slot: "ResolveEffectSlot S now rand k key p dtype fp canonical d = Inr (s, d1)" for now rand k key p dtype fp canonical s d1
    using ResolveEffectSlot_next [OF ok(1) slot] ResolveEffectSlot_Inr(1,8) [OF slot] ops_okD(4) [OF ok(1)] ok(2)
    by (auto intro!: tx_kept_same)
  have prev: "tx_kept d1 d2"
    if "tx_kept d d1" "previous_op C E k P s d1 = Inr (found, d2)" for k s d1 d2 found
    using that previous_op_Inr [OF _ that(2)] tx_keptD [OF that(1)] by (intro tx_kept_same) auto
  from run show ?thesis
  proof (cases rule: prepareInTx_Inr)
    case (1 g t s d1 d2)
    have "ops_ok d1" using prefix [OF 1(2)] tx_keptD by blast
    then have "d2 = d1" "x \<in> set (db_ops d1)" using previous_op_Inr(8) [OF _ 1(3)] by auto
    with prefix [OF 1(2)] 1(4) show ?thesis
      using find_by_member [OF ops_okD(1) [OF \<open>ops_ok d1\<close>]] by simp
  next
    case (2 g t s d1 d2)
    have d1: "tx_kept d d1" "find_by s_id (s_id s) (db_slots d1) = Some s" "ops_ok d1"
      using prefix [OF 2(2)] tx_keptD by blast+
    have d2: "tx_kept d1 d2" "db_slots d2 = db_slots d1"
      using prev [OF d1(1) 2(3)] previous_op_Inr(2) [OF d1(3) 2(3)] by simp_all
    note new = prepare_new_kept [OF _ _ 2(4)]
    have "tx_kept d2 d' \<and> find_by o_id (o_id x) (db_ops d') = Some x"
      using new tx_keptD [OF d2(1)] d1(2) d2(2) ResolveEffectSlot_Inr(2,5,6) [OF 2(2)]
        previous_op_Inr(7) [OF d1(3) 2(3) refl] by simp
    then show ?thesis using tx_kept_trans [OF tx_kept_trans [OF d1(1) d2(1)]] by blast
  qed
qed

lemma Prepare_kept: "ops_ok d \<Longrightarrow> approvals_ok d \<Longrightarrow> tx_kept d (fst (Prepare C S E q d))"
  unfolding Prepare_def
  by (auto split: sum.split intro!: with_tx_invariant [where I = "tx_kept d"] tx_kept_refl
      dest: prepareInTx_kept)

subsection \<open>The other transactions\<close>

lemma SettleOutcome_kept: "ops_ok d \<Longrightarrow> approvals_ok d \<Longrightarrow> tx_kept d (fst (SettleOutcome now lnow rand k out d))"
proof -
  assume ok: "ops_ok d" "approvals_ok d"
  have "tx_kept d d'" if run: "SettleOutcomeInTx now lnow rand k out d = Inr (y, d')" and st: "confirmed (out_state out)" for y d'
  proof -
    have "db_approvals d' = db_approvals d \<and> db_decisions d' = db_decisions d \<and> db_tasks d' = db_tasks d \<and> db_attempts d' = db_attempts d"
      using ok(1) run st
    proof (cases rule: SettleOutcomeInTx_Inr)
      case (2 x f d0)
      then show ?thesis using op_event_rest [OF 2(7)] by (simp add: set_op_tables set_reservation_tables)
    qed simp
    then show ?thesis using SettleOutcomeInTx_next [OF ok(1) run st] ok(2) by (intro tx_kept_same) simp_all
  qed
  then show ?thesis unfolding SettleOutcome_def
    by (auto intro!: with_tx_invariant [where I = "tx_kept d"] tx_kept_refl ok)
qed

lemma markUnknown_kept: "ops_ok d \<Longrightarrow> approvals_ok d \<Longrightarrow> tx_kept d (fst (markUnknown now lnow rand k d))"
proof -
  assume ok: "ops_ok d" "approvals_ok d"
  have "tx_kept d d'" if run: "markUnknownInTx now lnow rand k d = Inr (y, d')" for y d'
  proof -
    have "db_approvals d' = db_approvals d \<and> db_decisions d' = db_decisions d \<and> db_tasks d' = db_tasks d \<and> db_attempts d' = db_attempts d"
      using ok(1) run
    proof (cases rule: markUnknownInTx_Inr)
      case (2 x f d0)
      then show ?thesis using op_event_rest [OF 2(6)] by (simp add: set_op_tables set_reservation_tables)
    qed simp
    then show ?thesis using markUnknownInTx_next [OF ok(1) run] ok(2) by (intro tx_kept_same) simp_all
  qed
  then show ?thesis unfolding markUnknown_def
    by (auto intro!: with_tx_invariant [where I = "tx_kept d"] tx_kept_refl ok)
qed

lemma cancel_op_rest:
  assumes "ops_ok d" and "find_by o_id k (db_ops d) = Some x" and "o_state x = OperationPrepared"
    and "cancel_op now ledger_now x d = Inr d'"
  shows "db_approvals d' = db_approvals d" "db_decisions d' = db_decisions d" "db_tasks d' = db_tasks d"
    "db_attempts d' = db_attempts d"
  using assms(4) unfolding cancel_op_Inr [OF assms(1-3)] by (simp_all add: set_op_tables set_reservation_tables)

lemma cancelPrepared_kept: "ops_ok d \<Longrightarrow> approvals_ok d \<Longrightarrow> tx_kept d (fst (cancelPrepared E op k d))"
proof -
  assume ok: "ops_ok d" "approvals_ok d"
  have "tx_kept d d'" if x: "find_by o_id (o_id op) (db_ops d) = Some x" "o_state x = OperationPrepared"
    and run: "cancel_op now lnow x d = Inr d1" "appendOperationEvent rand ty x now d1 = Inr d'" for now lnow rand ty x d1 d'
    using cancel_op_next [OF ok(1) x run(1)] cancel_op_rest [OF ok(1) x run(1)] op_event_rest [OF run(2)] ok(2)
    by (intro tx_kept_same) (simp_all add: ops_next_cong [of d' d1])
  then have "tx_kept d d'" if "bindE (GuardAttempt now k allowed d) (\<lambda>g. no_result (\<lambda>d.
       bindE (requireE (ga_task g = o_task op) ErrStaleAttempt) (\<lambda>_.
       bindE (loadOperation (o_id op) d) (\<lambda>x.
       if o_state x \<noteq> OperationPrepared then Inr d
       else bindE (cancel_op (clk E 0) (clk E 2) x d)
         (appendOperationEvent (rnd E 0) ''OPERATION_CANCELLED_BEFORE_DISPATCH'' x (clk E 0))))) d) = Inr (u, d')"
    for now allowed u d'
    using that tx_kept_refl [OF ok] by (auto simp: bind_simps split: if_splits)
  then show ?thesis unfolding cancelPrepared_def WithGuardedAttempt_def
    by (intro with_tx_invariant [where I = "tx_kept d"] tx_kept_refl ok) blast
qed

end
