(* ===== verification/Exactly_Once.thy ===== *)
theory Exactly_Once
  imports Effects Frames
begin

text \<open>
  The world of the operation service: the store together with the requests that dispatches have
  committed to send, in order. A step is one transaction of any service, so that every interleaving
  of processes is covered; the calls \<open>Dispatch\<close> and \<open>Reconcile\<close> are runs of such steps. The theorems
  count the requests of an operation and of an effect slot.
\<close>

subsection \<open>What a dispatch commits\<close>

lemma dispatch_guard_Inr:
  "dispatch_guard E P d = Inr (x, s) \<longleftrightarrow>
   (\<exists>g t r. GuardAttempt (clk E 1) (dp_attempt P) [TaskExecuting] d = Inr g \<and> ga_task g = dp_task P \<and>
     find_by t_id (ga_task g) (db_tasks d) = Some t \<and> authority_covers (dp_provider P) t \<and>
     validateDecisionProvenance (dp_decision P) (dp_now P) = Inr () \<and>
     validateDispatchOutcome (pd_outcome (dp_decision P)) = Inr () \<and>
     find_by o_id (dp_operation P) (db_ops d) = Some x \<and> o_state x = OperationPrepared \<and>
     o_attempt x = dp_attempt P \<and> \<not> o_cancel_requested x \<and>
     find_by r_id (o_reservation x) (db_reservations d) = Some r \<and> r_state r = ReservationHeld \<and>
     find_by s_id (o_slot x) (db_slots d) = Some s \<and> s_fingerprint s = o_fingerprint x \<and> s_revision s = o_revision x)"
proof -
  have row: "dispatch_row y d = Inr (r, z) \<longleftrightarrow> find_by r_id (o_reservation y) (db_reservations d) = Some r \<and>
      find_by s_id (o_slot y) (db_slots d) = Some z" for y r z
    by (auto simp: dispatch_row_def split: option.split)
  have load: "loadTaskControlTx k d = Inr t \<longleftrightarrow> find_by t_id k (db_tasks d) = Some t" for k t
    by (simp add: loadTaskControlTx_def split: option.split)
  show ?thesis
    unfolding dispatch_guard_def bind_simps row load split_paired_Ex prod.sel prod.inject sum.inject by auto
qed

text \<open>The approval that a dispatch has consumed binds this operation and everyone the caller named.\<close>

definition op_consented :: "db \<Rightarrow> operation \<Rightarrow> bool" where
  "op_consented d x \<longleftrightarrow>
     (case find_by ap_id (trim_space (o_approval x)) (db_approvals d) of
        None \<Rightarrow> False
      | Some r \<Rightarrow> ap_state r = ApprovalConsumed \<and> ap_kind r = ''EXTERNAL_OPERATION'' \<and> ap_subject r = o_id x \<and>
          set (normalizeApprovalIDs (o_callers x)) \<subseteq> set (normalizeApprovalIDs (ap_required r)))"

lemma op_consented_iff:
  "op_consented d x \<longleftrightarrow> (\<exists>r. find_by ap_id (trim_space (o_approval x)) (db_approvals d) = Some r \<and>
     ap_state r = ApprovalConsumed \<and> ap_kind r = ''EXTERNAL_OPERATION'' \<and> ap_subject r = o_id x \<and>
     set (normalizeApprovalIDs (o_callers x)) \<subseteq> set (normalizeApprovalIDs (ap_required r)))"
  by (auto simp: op_consented_def split: option.split)

lemma op_consented_later:
  assumes "op_consented d x" and "approval_le d d'" and "later_op x x'"
  shows "op_consented d' x'"
proof -
  obtain r where r: "find_by ap_id (trim_space (o_approval x)) (db_approvals d) = Some r" "ap_state r = ApprovalConsumed"
    "ap_kind r = ''EXTERNAL_OPERATION''" "ap_subject r = o_id x"
    "set (normalizeApprovalIDs (o_callers x)) \<subseteq> set (normalizeApprovalIDs (ap_required r))"
    using assms(1) by (auto simp: op_consented_iff)
  from r(1) obtain r' where r': "find_by ap_id (trim_space (o_approval x)) (db_approvals d') = Some r'" "later_approval r r'"
    using assms(2) unfolding approval_le_def by blast
  have "ap_kind r' = ap_kind r" "ap_subject r' = ap_subject r"
    using later_approvalD(2) [OF r'(2)] by (simp_all add: approval_key_def)
  with r r' later_approvalD [OF r'(2)] later_opD [OF assms(3)] show ?thesis
    by (simp add: op_consented_iff)
qed

lemma Get_Inr: "Get k d = Inr (r, ds) \<longleftrightarrow> trim_space k \<noteq> [] \<and> find_by ap_id (trim_space k) (db_approvals d) = Some r \<and>
    ds = loadDecisions (trim_space k) d"
  by (auto simp: Get_def Let_def bind_simps split: option.split)

lemma policy_denied_Inr: "policy_denied r = Inr x \<longleftrightarrow> r = Inr x"
  by (cases r) (simp_all add: policy_denied_def)

lemma validateAndConsume_Inr:
  assumes "validateAndConsumeApprovalInTx C now x c callers p dtype canonical d = Inr d'"
  obtains "\<not> requires_approval c callers" "o_approval x = []" "d' = d"
  | r digest where "requires_approval c callers" "o_approval x \<noteq> []" "requiredApproversFor c callers \<noteq> []"
    "find_by ap_id (trim_space (o_approval x)) (db_approvals d) = Some r" "ap_state r = ApprovalApproved"
    "operationApprovalDigest C (pv_name p) dtype (o_slot x) (o_fingerprint x) (o_revision x) canonical = Inr digest"
    "approval_binds x digest (requiredApproversFor c callers) r" "ConsumeInTx now (ap_id r) digest d = Inr d'"
proof (cases "requires_approval c callers")
  case False
  then show thesis using assms that(1) by (simp add: validateAndConsumeApprovalInTx_def split: if_splits)
next
  case True
  then have ne: "o_approval x \<noteq> []" "requiredApproversFor c callers \<noteq> []"
    using assms by (auto simp: validateAndConsumeApprovalInTx_def Let_def split: if_splits)
  from True ne assms obtain r ds digest where
    get: "Get (o_approval x) d = Inr (r, ds)" and
    dig: "operationApprovalDigest C (pv_name p) dtype (o_slot x) (o_fingerprint x) (o_revision x) canonical = Inr digest" and
    run: "(if \<not> approval_binds x digest (requiredApproversFor c callers) r then Inl ErrPolicyDenied
        else if ap_state r \<noteq> ApprovalApproved then Inl ErrPolicyDenied
        else policy_denied (ConsumeInTx now (ap_id r) digest d)) = Inr d'"
    unfolding validateAndConsumeApprovalInTx_def Let_def
    by (simp add: bindE_Inr_iff policy_denied_Inr del: not_Cons_self2) (metis fst_conv)
  from run have "approval_binds x digest (requiredApproversFor c callers) r" "ap_state r = ApprovalApproved"
    "ConsumeInTx now (ap_id r) digest d = Inr d'"
    by (simp_all add: policy_denied_Inr split: if_splits)
  with True ne dig get show thesis by (intro that(2)) (simp_all add: Get_Inr)
qed

lemma requiredApproversFor_callers:
  "set (normalizeApprovalIDs callers) \<subseteq> set (requiredApproversFor c callers)"
  by (auto simp: requiredApproversFor_def normalizeApprovalIDs_def)

interpretation operation_ids: id_normalizer normalizeApprovalIDs trim_space
  by unfold_locales (auto simp: normalizeApprovalIDs_def)

interpretation operation_rank: enforcement_ranking operation_rank
  by unfold_locales simp_all

lemma validateAndConsume_kept:
  assumes ok: "approvals_ok d"
    and run: "validateAndConsumeApprovalInTx C now x c (normalizeApprovalIDs (o_callers x)) p dtype canonical d = Inr d'"
  shows "approvals_kept d d' \<and> same_rest d d' \<and>
    (requires_approval c (normalizeApprovalIDs (o_callers x)) \<longrightarrow> op_consented d' x)"
  using run
proof (cases rule: validateAndConsume_Inr)
  case 1
  then show ?thesis using ok by (simp add: approvals_kept_refl same_rest_def)
next
  case (2 r digest)
  let ?k = "trim_space (o_approval x)"
  have id: "ap_id r = ?k" using find_by_SomeD [OF 2(4)] by simp
  obtain f where d': "d' = set_approval (\<lambda>y. ap_id y = ?k \<and> ap_state y = ApprovalApproved)
       (\<lambda>y. y\<lparr>ap_state := ApprovalConsumed\<rparr>) d"
    using ConsumeInTx_Inr [OF 2(8)] id by auto
  have "find_by ap_id ?k (db_approvals d') = Some (r\<lparr>ap_state := ApprovalConsumed\<rparr>)"
    using 2(4,5) id by (simp add: d' set_approval_def find_by_update_where)
  moreover have "set (normalizeApprovalIDs (o_callers x)) \<subseteq> set (normalizeApprovalIDs (ap_required r))"
    using 2(7) requiredApproversFor_callers [of "normalizeApprovalIDs (o_callers x)" c]
    by (simp add: approval_binds_def approvalIDsEqual_def operation_ids.norm_id)
      (simp add: requiredApproversFor_def operation_ids.norm_id)
  ultimately have "op_consented d' x"
    using 2(7) by (simp add: op_consented_iff approval_binds_def)
  then show ?thesis using ConsumeInTx_kept [OF ok 2(8)] by blast
qed

lemma commit_dispatch_Inr:
  assumes "commit_dispatch E P d = Inr d'"
  shows "d' = set_op (\<lambda>x. o_id x = dp_operation P \<and> o_state x = OperationPrepared \<and> o_claim x = None \<and> \<not> o_cancel_requested x)
      (\<lambda>x. x\<lparr>o_state := OperationDispatched, o_claim := Some (NewID ''dispatch'' (rnd E 0)),
         o_dispatch_decision := Some (decision_source (dp_decision P)), o_dispatched := Some (dp_now P)\<rparr>) d"
    and "profile_active (pd_set_id (dp_decision P)) (pd_set_hash (dp_decision P)) (pd_caps_hash (dp_decision P)) d"
    and "\<not> exists_where (\<lambda>x. o_claim x = Some (NewID ''dispatch'' (rnd E 0))) (db_ops d)"
proof -
  let ?hit = "\<lambda>x. o_id x = dp_operation P \<and> o_state x = OperationPrepared \<and> o_claim x = None \<and> \<not> o_cancel_requested x"
  have "count_where ?hit (db_ops d) = 1" using assms by (simp add: commit_dispatch_def Let_def bind_simps)
  then have "exists_where ?hit (db_ops d)"
    using count_where_zero [of ?hit "db_ops d"] by (auto simp: exists_where_iff)
  then show "d' = set_op ?hit
      (\<lambda>x. x\<lparr>o_state := OperationDispatched, o_claim := Some (NewID ''dispatch'' (rnd E 0)),
         o_dispatch_decision := Some (decision_source (dp_decision P)), o_dispatched := Some (dp_now P)\<rparr>) d"
    "profile_active (pd_set_id (dp_decision P)) (pd_set_hash (dp_decision P)) (pd_caps_hash (dp_decision P)) d"
    "\<not> exists_where (\<lambda>x. o_claim x = Some (NewID ''dispatch'' (rnd E 0))) (db_ops d)"
    using assms by (simp_all add: commit_dispatch_def Let_def bind_simps)
qed

lemma dispatchInTx_Inr:
  assumes "dispatchInTx C E P d = Inr (rq, d')"
  obtains x s d1 d2 where "dispatch_guard E P d = Inr (x, s)" "rq = request_of x s"
    "validateAndConsumeApprovalInTx C (clk E 2) x (dp_decision P) (normalizeApprovalIDs (o_callers x)) (dp_provider P)
       (dp_type P) (s_canonical s) d = Inr d1"
    "commit_dispatch E P d1 = Inr d2" "appendOperationEvent (rnd E 1) ''OPERATION_DISPATCH_COMMITTED'' x (dp_now P) d2 = Inr d'"
  using assms unfolding dispatchInTx_def bindE_Inr_iff split_paired_Ex prod.sel prod.inject sum.inject by blast


subsection \<open>The world and its steps\<close>

type_synonym world = "db \<times> ProviderDispatchRequest list"

inductive effect_step :: "world \<Rightarrow> world \<Rightarrow> bool" where
  effect_prepare: "effect_step (d, sent) (fst (Prepare C S E q d), sent)"
| effect_dispatch: "with_tx (dispatchInTx C E P) d = (d', Inr rq) \<Longrightarrow> effect_step (d, sent) (d', sent @ [rq])"
| effect_settle: "effect_step (d, sent) (fst (SettleOutcome now ledger_now rand k out d), sent)"
| effect_unknown: "effect_step (d, sent) (fst (markUnknown now ledger_now rand k d), sent)"
| effect_cancel: "effect_step (d, sent) (fst (cancelPrepared E x k d), sent)"
| effect_approval: "approval_step d d' \<Longrightarrow> effect_step (d, sent) (d', sent)"
| effect_execution: "exec_step d d' \<Longrightarrow> effect_step (d, sent) (d', sent)"
| effect_reserve: "effect_step (d, sent) (fst (Reserve now rand envelope amount e d), sent)"

inductive_cases effect_stepE: "effect_step w w'"

text \<open>A request in the log is the one of its operation, which holds a claim and the consent it needs.\<close>

definition request_ok :: "db \<Rightarrow> ProviderDispatchRequest \<Rightarrow> bool" where
  "request_ok d rq \<longleftrightarrow>
     (case find_by o_id (rq_operation rq) (db_ops d) of
        None \<Rightarrow> False
      | Some x \<Rightarrow> o_claim x \<noteq> None \<and>
          (case find_by s_id (o_slot x) (db_slots d) of None \<Rightarrow> False | Some s \<Rightarrow> rq = request_of x s) \<and>
          (normalizeApprovalIDs (o_callers x) \<noteq> [] \<longrightarrow> op_consented d x))"

definition effects_ok :: "world \<Rightarrow> bool" where
  "effects_ok w \<longleftrightarrow> ops_ok (fst w) \<and> approvals_ok (fst w) \<and> distinct (map rq_operation (snd w)) \<and>
     list_all (request_ok (fst w)) (snd w)"

lemma request_ok_iff:
  "request_ok d rq \<longleftrightarrow> (\<exists>x s. find_by o_id (rq_operation rq) (db_ops d) = Some x \<and> o_claim x \<noteq> None \<and>
     find_by s_id (o_slot x) (db_slots d) = Some s \<and> rq = request_of x s \<and>
     (normalizeApprovalIDs (o_callers x) \<noteq> [] \<longrightarrow> op_consented d x))"
  by (auto simp: request_ok_def split: option.splits)

lemma request_ok_later:
  assumes "request_ok d rq" and "ops_le d d'" and "approval_le d d'"
  shows "request_ok d' rq"
proof -
  obtain x s where x: "find_by o_id (rq_operation rq) (db_ops d) = Some x" "o_claim x \<noteq> None"
    "find_by s_id (o_slot x) (db_slots d) = Some s" "rq = request_of x s"
    "normalizeApprovalIDs (o_callers x) \<noteq> [] \<longrightarrow> op_consented d x"
    using assms(1) by (auto simp: request_ok_iff)
  obtain x' where x': "find_by o_id (rq_operation rq) (db_ops d') = Some x'" "later_op x x'"
    using ops_le_op [OF assms(2) x(1)] by blast
  have "find_by s_id (o_slot x) (db_slots d') = Some s" using assms(2) x(3) by (simp add: ops_le_def)
  then show ?thesis
    using x x' later_opD [OF x'(2)] op_consented_later [OF _ assms(3) x'(2)] by (auto simp: request_ok_iff)
qed

lemma effects_ok_tx: "effects_ok (d, sent) \<Longrightarrow> tx_kept d d' \<Longrightarrow> effects_ok (d', sent)"
  using tx_keptD [of d d'] by (auto simp: effects_ok_def list_all_iff intro: request_ok_later)

text \<open>The commit of a dispatch: a prepared operation gets its claim, and its request is new.\<close>

lemma dispatchInTx_kept:
  assumes ok: "ops_ok d" "approvals_ok d" and run: "dispatchInTx C E P d = Inr (rq, d')"
  shows "tx_kept d d'" "request_ok d' rq"
    "\<exists>x. find_by o_id (rq_operation rq) (db_ops d) = Some x \<and> o_state x = OperationPrepared \<and> o_claim x = None"
proof -
  from run obtain x s d1 d2 where guard: "dispatch_guard E P d = Inr (x, s)" and rq: "rq = request_of x s"
    and cons: "validateAndConsumeApprovalInTx C (clk E 2) x (dp_decision P) (normalizeApprovalIDs (o_callers x)) (dp_provider P)
       (dp_type P) (s_canonical s) d = Inr d1"
    and commit: "commit_dispatch E P d1 = Inr d2"
    and ev: "appendOperationEvent (rnd E 1) ''OPERATION_DISPATCH_COMMITTED'' x (dp_now P) d2 = Inr d'"
    by (rule dispatchInTx_Inr)
  define f :: "operation \<Rightarrow> operation" where "f = (\<lambda>x. x\<lparr>o_state := OperationDispatched,
      o_claim := Some (NewID ''dispatch'' (rnd E 0)), o_dispatch_decision := Some (decision_source (dp_decision P)),
      o_dispatched := Some (dp_now P)\<rparr>)"
  define hit :: "operation \<Rightarrow> bool" where "hit = (\<lambda>x. o_id x = dp_operation P \<and> o_state x = OperationPrepared \<and> o_claim x = None \<and>
      \<not> o_cancel_requested x)"
  obtain r where x: "find_by o_id (dp_operation P) (db_ops d) = Some x" "o_state x = OperationPrepared"
    "\<not> o_cancel_requested x" "find_by r_id (o_reservation x) (db_reservations d) = Some r" "r_state r = ReservationHeld"
    "find_by s_id (o_slot x) (db_slots d) = Some s"
    using guard unfolding dispatch_guard_Inr by blast
  have id: "o_id x = dp_operation P" using find_by_SomeD [OF x(1)] by simp
  have claim: "o_claim x = None" using op_row [OF ok(1) x(1)] x(2) by (simp add: claim_ok_def)
  have d1: "approvals_kept d d1" "same_rest d d1" "requires_approval (dp_decision P) (normalizeApprovalIDs (o_callers x)) \<Longrightarrow> op_consented d1 x"
    using validateAndConsume_kept [OF ok(2) cons] by blast+
  note rest = same_rest_tables [OF d1(2)] op_event_rest [OF ev]
  have d2: "d2 = set_op hit f d1" using commit_dispatch_Inr(1) [OF commit] by (simp add: hit_def f_def)
  have fx: "later_op x (f x)" "claim_ok (f x)" "o_claim (f x) \<noteq> None"
    using x(2) claim by (simp_all add: f_def later_op_def claim_ok_def)
  have only: "y = x" if "y \<in> set (db_ops d)" "hit y" for y
    using only_row [OF ok(1) x(1) that(1)] that(2) by (simp add: hit_def)
  have hitx: "hit x" using x(2,3) claim id by (simp add: hit_def)
  have d': "db_ops d' = update_where hit f (db_ops d)" "db_slots d' = db_slots d"
    "db_reservations d' = db_reservations d" "db_approvals d' = db_approvals d1" "db_decisions d' = db_decisions d1"
    "db_tasks d' = db_tasks d" "db_attempts d' = db_attempts d"
    by (simp_all add: rest d2 set_op_tables)
  have "ops_next d d'"
    using x fx hitx only by (intro ops_next_change [OF ok(1) x(1), where hit = hit and f = f and r = r])
      (simp_all add: d' f_def)
  moreover have "approvals_kept d d'"
    using d1(1) by (simp add: approvals_kept_def approval_le_def d' approvals_ok_cong [of d' d1])
  ultimately show "tx_kept d d'" by (simp add: tx_kept_def d')
  have "find_by o_id (dp_operation P) (db_ops d') = Some (f x)"
    using update_one(1) [OF ops_okD(1) [OF ok(1)] x(1), where hit = hit and f = f] hitx only
    by (simp add: d'(1) f_def)
  moreover have "op_consented d' (f x)" if "normalizeApprovalIDs (o_callers x) \<noteq> []"
    using d1(3) that op_consented_later [OF _ _ fx(1), of d1 d']
    by (simp add: requires_approval_def approval_le_def d')
  ultimately show "request_ok d' rq"
    using x(6) fx(3) later_opD [OF fx(1)] id by (auto simp: request_ok_iff rq request_of_def d'(2))
  show "\<exists>x. find_by o_id (rq_operation rq) (db_ops d) = Some x \<and> o_state x = OperationPrepared \<and> o_claim x = None"
    using x(1,2) claim id by (simp add: rq request_of_def)
qed

subsection \<open>What the other services leave alone\<close>

lemma set_approval_rest: "same_rest d (set_approval P f d)"
  by (simp add: same_rest_def set_approval_def)

lemma same_rest_refl [simp]: "same_rest d d"
  by (simp add: same_rest_def)

lemma record_decision_rest: "record_decision now r approver digest action d = Inr d' \<Longrightarrow> same_rest d d'"
  by (erule record_decision_Inr) (simp add: same_rest_def)

lemma approval_step_rest: "approval_step d d' \<Longrightarrow> same_rest d d'"
proof -
  have decide: "same_rest d (fst (decide now k approver digest action d))" for now k approver digest action d
    unfolding decide_def Let_def
    by (auto simp: no_result_Inr intro!: with_tx_invariant [where I = "same_rest d"]
        elim!: decideInTx_Inr dest: record_decision_rest)
  show "approval_step d d' \<Longrightarrow> same_rest d d'"
  proof (induction rule: approval_step.induct)
    case (step_create d now created rand request)
    have "same_rest d d'" if "CreateInTx now created rand request d = Inr (r, d')" for r d'
      using CreateInTx_Inr [OF that] by (auto simp: same_rest_def)
    then show ?case unfolding Create_def by (intro with_tx_invariant [where I = "same_rest d"]) auto
  next
    case (step_consume d now k digest)
    have "same_rest d d'" if "ConsumeInTx now k digest d = Inr d'" for d'
      using that by (auto elim!: ConsumeInTx_Inr simp: set_approval_rest)
    then show ?case unfolding Consume_def
      by (intro with_tx_invariant [where I = "same_rest d"]) (auto simp: no_result_Inr)
  qed (simp_all add: Approve_def Reject_def decide)
qed

lemma effect_step_ok: "effect_step w w' \<Longrightarrow> effects_ok w \<Longrightarrow> effects_ok w'"
proof (induction rule: effect_step.induct)
  case (effect_prepare d sent C S E q)
  then show ?case by (rule effects_ok_tx [OF _ Prepare_kept]) (use \<open>effects_ok (d, sent)\<close> in \<open>simp_all add: effects_ok_def\<close>)
next
  case (effect_dispatch C E P d d' rq sent)
  then have ok: "ops_ok d" "approvals_ok d" and run: "dispatchInTx C E P d = Inr (rq, d')"
    by (auto simp: effects_ok_def with_tx_Inr_iff)
  note kept = dispatchInTx_kept [OF ok run]
  have "rq_operation rq \<notin> rq_operation ` set sent"
  proof
    assume "rq_operation rq \<in> rq_operation ` set sent"
    then obtain rq' where "rq' \<in> set sent" "rq_operation rq' = rq_operation rq" by force
    moreover from this(1) have "request_ok d rq'"
      using effect_dispatch.prems by (simp add: effects_ok_def list_all_iff)
    ultimately show False using kept(3) by (auto simp: request_ok_iff)
  qed
  with effects_ok_tx [OF effect_dispatch.prems kept(1)] kept(2) show ?case
    by (simp add: effects_ok_def)
next
  case (effect_settle d sent now lnow rand k out)
  then show ?case by (rule effects_ok_tx [OF _ SettleOutcome_kept]) (use \<open>effects_ok (d, sent)\<close> in \<open>simp_all add: effects_ok_def\<close>)
next
  case (effect_unknown d sent now lnow rand k)
  then show ?case by (rule effects_ok_tx [OF _ markUnknown_kept]) (use \<open>effects_ok (d, sent)\<close> in \<open>simp_all add: effects_ok_def\<close>)
next
  case (effect_cancel d sent E x k)
  then show ?case by (rule effects_ok_tx [OF _ cancelPrepared_kept]) (use \<open>effects_ok (d, sent)\<close> in \<open>simp_all add: effects_ok_def\<close>)
next
  case (effect_approval d d' sent)
  then have "ops_le d d'" "ops_ok d'"
    using ops_next_other [of d d'] same_rest_tables [OF approval_step_rest]
    by (auto simp: effects_ok_def ops_next_def)
  then show ?case using effect_approval approvals.step_inv approval_step_le
    by (auto simp: effects_ok_def list_all_iff intro: request_ok_later)
next
  case (effect_execution d d' sent)
  note same = exec_onlyD [OF exec_step_only [OF effect_execution.hyps]]
  have "ops_next d d'" using effect_execution.prems same by (intro ops_next_other) (simp_all add: effects_ok_def)
  then show ?case
    using effect_execution.prems same
    by (auto simp: effects_ok_def list_all_iff ops_next_def approval_le_def approvals_ok_cong [of d' d]
        intro: request_ok_later)
next
  case (effect_reserve d sent now rand envelope amount e)
  have "tx_kept d d'" if "ReserveInTx now rand envelope amount e d = Inr (r, d')" for r d'
    using that effect_reserve.prems
    by (intro tx_kept_same ops_next_other) (auto simp: effects_ok_def ReserveInTx_Inr find_by_append)
  then have "tx_kept d (fst (Reserve now rand envelope amount e d))"
    using effect_reserve.prems unfolding Reserve_def
    by (intro with_tx_invariant [where I = "tx_kept d"]) (auto simp: effects_ok_def intro: tx_kept_refl)
  then show ?case by (rule effects_ok_tx [OF effect_reserve.prems])
qed

interpretation effects: kept_invariant effect_step effects_ok
  by unfold_locales (rule effect_step_ok)

subsection \<open>The calls are runs of steps\<close>

abbreviation effect_run :: "world \<Rightarrow> world \<Rightarrow> bool" where
  "effect_run \<equiv> effect_step\<^sup>*\<^sup>*"

lemma markUnknownAt_run: "effect_run (d, sent) (fst (markUnknownAt E k d), sent)"
  unfolding markUnknownAt_def by (rule r_into_rtranclp) (rule effect_unknown)

lemma SettleOutcomeAt_run: "effect_run (d, sent) (fst (SettleOutcomeAt E k out d), sent)"
  unfolding SettleOutcomeAt_def by (rule r_into_rtranclp) (rule effect_settle)

lemma leave_unknown_fst: "fst (leave_unknown E k d) = fst (markUnknownAt E k d)"
  by (auto simp: leave_unknown_def split: prod.split sum.split)

lemma leave_unknown_run: "effect_run (d, sent) (fst (leave_unknown E k d), sent)"
  unfolding leave_unknown_fst by (rule markUnknownAt_run)

lemma lookup_outcome_run: "effect_run (d, sent) (fst (lookup_outcome S E lookup x d), sent)"
  unfolding lookup_outcome_def
  by (auto split: sum.split simp: leave_unknown_run SettleOutcomeAt_run)

lemma reconcile_run: "effect_run (d, sent) (fst (reconcile S E lookup k d), sent)"
proof (cases "loadOperation k d")
  case (Inr x)
  show ?thesis
  proof (cases "o_state x")
    case OperationDispatched
    show ?thesis
    proof (cases "markUnknownAt E k d")
      case (Pair d' r)
      then have "effect_run (d, sent) (d', sent)" using markUnknownAt_run [of d sent E k] by simp
      then show ?thesis
        using lookup_outcome_run [of d' sent S E lookup] Inr OperationDispatched Pair
        by (auto simp: reconcile_def split: sum.split intro: rtranclp_trans)
    qed
  qed (simp_all add: reconcile_def Inr lookup_outcome_run)
qed (simp add: reconcile_def)

lemma reconcile_all_run: "effect_run (d, sent) (fst (reconcile_all S E lookup ks d), sent)"
proof (induction ks arbitrary: d)
  case (Cons k ks)
  show ?case
  proof (cases "reconcile S (E k) lookup k d")
    case (Pair d' r)
    then have "effect_run (d, sent) (d', sent)" using reconcile_run [of d sent S "E k" lookup k] by simp
    then show ?thesis using Pair Cons.IH [of d'] by (auto split: sum.split intro: rtranclp_trans)
  qed
qed simp

lemma guardAttemptForTask_fst: "fst (guardAttemptForTask now k task d) = d"
  by (auto simp: guardAttemptForTask_def WithGuardedAttempt_def with_tx_def no_result_def bindE_def requireE_def
      split: sum.split)

lemma dispatch_prepared_run:
  "effect_run (d, sent) (fst (dispatch_prepared C S E send x k d), sent @ fst (snd (dispatch_prepared C S E send x k d)))"
proof (cases "dispatch_plan_of S (clk E 0) x k d")
  case (Inr Pg)
  show ?thesis
  proof (cases "snd Pg")
    case False
    have "fst (refuse_dispatch E x k d) = fst (cancelPrepared (site E 1) x k d)"
      by (auto simp: refuse_dispatch_def split: prod.split sum.split)
    then have "effect_run (d, sent) (fst (refuse_dispatch E x k d), sent)"
      by (simp add: r_into_rtranclp effect_cancel)
    then show ?thesis using Inr False
      by (cases "refuse_dispatch E x k d") (simp add: dispatch_prepared_def)
  next
    case True
    show ?thesis
    proof (cases "with_tx (dispatchInTx C E (fst Pg)) d")
      case (Pair d' r)
      show ?thesis
      proof (cases r)
        case (Inl e)
        then have "d' = d" using Pair by (simp add: with_tx_Inl_iff)
        then show ?thesis using \<open>dispatch_plan_of S (clk E 0) x k d = Inr Pg\<close> True Pair Inl by (simp add: dispatch_prepared_def)
      next
        case (Inr rq)
        have "effect_run (d, sent) (d', sent @ [rq])"
          using Pair Inr by (intro r_into_rtranclp effect_dispatch) simp
        moreover have "effect_run (d', sent @ [rq]) (fst (dispatch_answer E (o_id x) (send rq) d'), sent @ [rq])"
          unfolding dispatch_answer_def by (auto split: sum.split simp: leave_unknown_run SettleOutcomeAt_run)
        ultimately show ?thesis
          using \<open>dispatch_plan_of S (clk E 0) x k d = Inr Pg\<close> True Pair Inr
          by (auto simp: dispatch_prepared_def split: prod.split intro: rtranclp_trans)
      qed
    qed
  qed
qed (simp add: dispatch_prepared_def)

lemma Dispatch_run:
  "effect_run (d, sent) (fst (Dispatch C S E send lookup k attempt d), sent @ fst (snd (Dispatch C S E send lookup k attempt d)))"
proof (cases "k = [] \<or> attempt = []")
  case False
  show ?thesis
  proof (cases "loadOperation k d")
    case (Inr x)
    have rec: "effect_run (d, sent) (fst (reconcile S (site E 4) lookup k d), sent)" by (rule reconcile_run)
    obtain r where guard: "guardAttemptForTask (clk E 0) attempt (o_task x) d = (d, r)"
      using guardAttemptForTask_fst [of "clk E 0" attempt "o_task x" d] by (metis prod.collapse)
    show ?thesis
      by (cases "o_state x")
        (use False Inr rec dispatch_prepared_run guard in
          \<open>auto simp: Dispatch_def split: sum.split prod.split\<close>)
  qed (simp add: Dispatch_def)
qed (auto simp: Dispatch_def)

subsection \<open>What every run only adds to\<close>

lemma effect_step_le:
  assumes "effect_step w w'" and "effects_ok w"
  shows "ops_le (fst w) (fst w') \<and> approval_le (fst w) (fst w')"
  using assms
proof (induction rule: effect_step.induct)
  case (effect_prepare d sent C S E q)
  then have "tx_kept d (fst (Prepare C S E q d))" by (intro Prepare_kept) (simp_all add: effects_ok_def)
  then show ?case using tx_keptD by simp
next
  case (effect_dispatch C E P d d' rq sent)
  then have "tx_kept d d'"
    using dispatchInTx_kept(1) by (auto simp: effects_ok_def with_tx_Inr_iff)
  then show ?case using tx_keptD by simp
next
  case (effect_settle d sent now lnow rand k out)
  then have "tx_kept d (fst (SettleOutcome now lnow rand k out d))" by (intro SettleOutcome_kept) (simp_all add: effects_ok_def)
  then show ?case using tx_keptD by simp
next
  case (effect_unknown d sent now lnow rand k)
  then have "tx_kept d (fst (markUnknown now lnow rand k d))" by (intro markUnknown_kept) (simp_all add: effects_ok_def)
  then show ?case using tx_keptD by simp
next
  case (effect_cancel d sent E x k)
  then have "tx_kept d (fst (cancelPrepared E x k d))" by (intro cancelPrepared_kept) (simp_all add: effects_ok_def)
  then show ?case using tx_keptD by simp
next
  case (effect_approval d d' sent)
  then have "ops_next d d'"
    using same_rest_tables [OF approval_step_rest] by (intro ops_next_other) (auto simp: effects_ok_def)
  then show ?case using approval_step_le [OF effect_approval.hyps] by (simp add: ops_next_def)
next
  case (effect_execution d d' sent)
  note same = exec_onlyD [OF exec_step_only [OF effect_execution.hyps]]
  have "ops_next d d'" using effect_execution.prems same by (intro ops_next_other) (simp_all add: effects_ok_def)
  then show ?case using same by (simp add: ops_next_def approval_le_def)
next
  case (effect_reserve d sent now rand envelope amount e)
  have "db_ops (fst (Reserve now rand envelope amount e d)) = db_ops d \<and>
    db_slots (fst (Reserve now rand envelope amount e d)) = db_slots d \<and>
    db_approvals (fst (Reserve now rand envelope amount e d)) = db_approvals d \<and>
    db_decisions (fst (Reserve now rand envelope amount e d)) = db_decisions d"
    unfolding Reserve_def using fst_with_tx [of "ReserveInTx now rand envelope amount e" d]
    by (auto simp: ReserveInTx_Inr)
  then show ?case by (simp add: ops_le_def approval_le_def)
qed

lemma effect_run_le:
  assumes "effect_run w w'" and "effects_ok w"
  shows "effects_ok w' \<and> ops_le (fst w) (fst w') \<and> approval_le (fst w) (fst w')"
  using assms
proof (induction rule: rtranclp_induct)
  case (step y z)
  then have y: "effects_ok y" "ops_le (fst w) (fst y)" "approval_le (fst w) (fst y)" by auto
  then show ?case
    using effect_step_le [OF step.hyps(2) y(1)] effect_step_ok [OF step.hyps(2) y(1)]
    by (blast intro: ops_le_trans approval_le_trans)
qed simp

lemma effect_run_op:
  assumes "effect_run w w'" and "effects_ok w" and "find_by o_id k (db_ops (fst w)) = Some x"
  obtains x' where "find_by o_id k (db_ops (fst w')) = Some x'" "later_op x x'"
  using effect_run_le [OF assms(1,2)] assms(3) ops_le_op by blast

subsection \<open>A world to evaluate on\<close>

definition demo_provider :: Provider where
  "demo_provider = \<lparr>pv_name = ''mail'', pv_capability = ''write'', pv_enforcement = EnforcementEnforced,
     pv_adapter = ''1'', pv_semantic = False, pv_canonical = (\<lambda>i. Inr (it_body i)),
     pv_cost = (\<lambda>i. Inr \<lparr>cp_exposure = 4, cp_enforceability =
        \<lparr>en_cost_control = CostPrepaidQuota, en_require_hard_cap = True, en_source = ''quota''\<rparr>\<rparr>)\<rparr>"

definition demo_service :: Service where
  "demo_service = \<lparr>sv_collective = ''me'', sv_providers = [demo_provider], sv_policy = (\<lambda>i. Inr
     \<lparr>pd_id = ''dec'', pd_outcome = PolicyAllow, pd_required = [], pd_set_id = ''set'', pd_set_hash = ''h'',
      pd_caps_hash = ''c'', pd_evaluated = pi_now i\<rparr>)\<rparr>"

definition demo_codes :: op_codec where
  "demo_codes = \<lparr>canonical_json = Inr, intent_material = (\<lambda>p t c v. Inr (p @ t @ c @ v)), sha256_hex = (\<lambda>s. ''h'')\<rparr>"

definition demo_clock :: env where
  "demo_clock = \<lparr>clk = (\<lambda>_. 20), rnd = (\<lambda>i. if i = 0 then ''a'' else if i < 5 then ''b'' else if i < 15 then ''c'' else if i < 25 then ''d'' else ''e'')\<rparr>"

definition demo_clock2 :: env where
  "demo_clock2 = \<lparr>clk = (\<lambda>_. 25), rnd = (\<lambda>i. if i = 0 then ''q'' else if i < 5 then ''r'' else if i < 15 then ''s'' else if i < 35 then ''t'' else ''u'')\<rparr>"

definition demo_store :: db where
  "demo_store = demo_started\<lparr>db_envelopes := [\<lparr>e_id = ''e'', e_parent = None, e_hard_limit = 10, e_created = 1\<rparr>],
     db_policy_sets := [\<lparr>p_id = ''set'', p_hash = ''h'', p_caps_hash = ''c'', p_active = True\<rparr>]\<rparr>"

definition demo_effect :: "ID list \<Rightarrow> PrepareRequest" where
  "demo_effect callers = \<lparr>qp_attempt = ''attempt_1'', qp_provider = ''mail'', qp_slot_key = ''welcome'',
     qp_intent = Some \<lparr>it_type = ''send'', it_body = ''hi''\<rparr>, qp_risk = ''low'', qp_attributes = (\<lambda>_. None),
     qp_required = callers\<rparr>"

definition demo_prepared :: db where
  "demo_prepared = fst (Prepare demo_codes demo_service demo_clock (demo_effect []) demo_store)"

definition demo_lost :: "db \<times> ProviderDispatchRequest list" where
  "demo_lost = (let run = Dispatch demo_codes demo_service demo_clock2 (\<lambda>rq. Inl (Err ''timeout''))
      (\<lambda>rq. Inl (Err ''down'')) ''operation_b'' ''attempt_1'' demo_prepared in (fst run, fst (snd run)))"

lemma demo_store_ok: "effects_ok (demo_store, [])"
  by code_simp

lemma demo_runs:
  "effect_run (demo_store, []) (demo_prepared, [])" "effect_run (demo_store, []) demo_lost"
proof -
  show "effect_run (demo_store, []) (demo_prepared, [])"
    unfolding demo_prepared_def by (rule r_into_rtranclp) (rule effect_prepare)
  also have "effect_run (demo_prepared, []) demo_lost"
    using Dispatch_run [of demo_prepared "[]" demo_codes demo_service demo_clock2 "\<lambda>rq. Inl (Err ''timeout'')"
        "\<lambda>rq. Inl (Err ''down'')" "''operation_b''" "''attempt_1''"]
    by (simp add: demo_lost_def Let_def)
  finally show "effect_run (demo_store, []) demo_lost" .
qed

lemma demo_lost_facts:
  "map (\<lambda>x. (o_id x, o_state x)) (db_ops (fst demo_lost)) = [(''operation_b'', OperationOutcomeUnknown)]"
  "map rq_operation (snd demo_lost) = [''operation_b'']"
  by code_simp+

end
