(* ===== verification/External_Effects.thy ===== *)
theory External_Effects
  imports Exactly_Once
begin

text \<open>
  The properties of external operations: at most one request per operation and one possible effect
  per slot, consent before sending, budget held while the outcome is open, final outcomes, replay and
  conflict of intents, and the recovery that asks but never sends.
\<close>

subsection \<open>One effect per slot\<close>

lemma sent_row:
  assumes "effects_ok (d, sent)" and "rq \<in> set sent"
  obtains x s where "find_by o_id (rq_operation rq) (db_ops d) = Some x" "x \<in> set (db_ops d)" "o_id x = rq_operation rq"
    "o_claim x \<noteq> None" "was_sent (o_state x)" "find_by s_id (o_slot x) (db_slots d) = Some s" "rq = request_of x s"
    "normalizeApprovalIDs (o_callers x) \<noteq> [] \<Longrightarrow> op_consented d x"
proof -
  have "request_ok d rq" using assms by (simp add: effects_ok_def list_all_iff)
  then obtain x s where x: "find_by o_id (rq_operation rq) (db_ops d) = Some x" "o_claim x \<noteq> None"
    "find_by s_id (o_slot x) (db_slots d) = Some s" "rq = request_of x s"
    "normalizeApprovalIDs (o_callers x) \<noteq> [] \<longrightarrow> op_consented d x"
    unfolding request_ok_iff by blast
  have "x \<in> set (db_ops d)" "o_id x = rq_operation rq" using find_by_SomeD [OF x(1)] by auto
  moreover from this have "was_sent (o_state x)"
    using x(2) ops_okD(6) [of d x] assms(1) by (simp add: effects_ok_def claim_ok_def)
  ultimately show thesis using x by (intro that) auto
qed

lemma lower_sent_is_no_effect:
  assumes "ops_ok d" and "x \<in> set (db_ops d)" "y \<in> set (db_ops d)" and "o_slot x = o_slot y" "o_seq x < o_seq y"
    and "was_sent (o_state x)"
  shows "o_state x = OperationConfirmedNoEffect"
proof -
  have "retired (o_state x)"
    using ops_okD(9) [OF assms(1,2)] assms(3-5) by (force simp: superseded_ok_def)
  with assms(6) show ?thesis by (auto simp: retired_def)
qed

text \<open>
  C1. Exactly-once effects: in every state that any interleaving of the services reaches, each operation
  has been sent to its provider at most once, and of any two requests sent for one effect slot at least
  one has been confirmed to have had no effect; a lost acknowledgement, a crash recovery or a new
  attempt never repeats an effect that may have happened.
\<close>

theorem effects_exactly_once:
  assumes "effect_run w0 (d, sent)" and "effects_ok w0"
  shows "distinct (map rq_operation sent) \<and>
    (\<forall>a \<in> set sent. \<forall>b \<in> set sent. rq_slot a = rq_slot b \<and> a \<noteq> b \<longrightarrow>
       (\<exists>x. (find_by o_id (rq_operation a) (db_ops d) = Some x \<or> find_by o_id (rq_operation b) (db_ops d) = Some x) \<and>
            o_state x = OperationConfirmedNoEffect))"
proof -
  have ok: "effects_ok (d, sent)" using effects.reach_inv assms by blast
  then have dist: "distinct (map rq_operation sent)" and ops: "ops_ok d" by (simp_all add: effects_ok_def)
  have "\<exists>x. (find_by o_id (rq_operation a) (db_ops d) = Some x \<or> find_by o_id (rq_operation b) (db_ops d) = Some x) \<and>
      o_state x = OperationConfirmedNoEffect"
    if ab: "a \<in> set sent" "b \<in> set sent" "rq_slot a = rq_slot b" "a \<noteq> b" for a b
  proof -
    obtain x s where x: "find_by o_id (rq_operation a) (db_ops d) = Some x" "x \<in> set (db_ops d)" "o_id x = rq_operation a"
      "was_sent (o_state x)" "a = request_of x s"
      using ok ab(1) by (rule sent_row)
    obtain y t where y: "find_by o_id (rq_operation b) (db_ops d) = Some y" "y \<in> set (db_ops d)" "o_id y = rq_operation b"
      "was_sent (o_state y)" "b = request_of y t"
      using ok ab(2) by (rule sent_row)
    have slot: "o_slot x = o_slot y" using ab(3) x(5) y(5) by (simp add: request_of_def)
    have "rq_operation a \<noteq> rq_operation b"
      using dist ab inj_onD [of rq_operation "set sent" a b] by (auto simp: distinct_map)
    then have "x \<noteq> y" using x(3) y(3) by auto
    then have "o_seq x \<noteq> o_seq y"
      using ops_okD(2) [OF ops] x(2) y(2) slot inj_onD [of slot_position "set (db_ops d)" x y]
      by (auto simp: distinct_map slot_position_def)
    then consider "o_seq x < o_seq y" | "o_seq y < o_seq x" by linarith
    then show ?thesis
      using lower_sent_is_no_effect [OF ops x(2) y(2) slot _ x(4)] lower_sent_is_no_effect [OF ops y(2) x(2) slot [symmetric] _ y(4)]
        x(1) y(1) by cases blast+
  qed
  with dist show ?thesis by blast
qed

lemma effects_exactly_once_witness: "distinct (map rq_operation (snd demo_lost)) \<and> snd demo_lost \<noteq> []"
proof -
  have "effect_run (demo_store, []) (fst demo_lost, snd demo_lost)" using demo_runs(2) by simp
  from effects_exactly_once [OF this demo_store_ok] demo_lost_facts(2) show ?thesis by auto
qed

lemma consent_of_sent:
  assumes "effect_run w0 (d, sent)" and "effects_ok w0" and "rq \<in> set sent"
    and "find_by o_id (rq_operation rq) (db_ops d) = Some x" and "p \<in> set (normalizeApprovalIDs (o_callers x))"
  shows "\<exists>r q. find_by ap_id (trim_space (o_approval x)) (db_approvals d) = Some r \<and> ap_state r = ApprovalConsumed \<and>
    ap_subject r = o_id x \<and> q \<in> set (ap_required r) \<and> trim_space q = p \<and> has_approved d r q"
proof -
  have ok: "effects_ok (d, sent)" using effects.reach_inv assms(1,2) by blast
  have "op_consented d x" using sent_row [OF ok assms(3)] assms(4,5) by (metis empty_iff list.set(1) option.inject)
  then obtain r where r: "find_by ap_id (trim_space (o_approval x)) (db_approvals d) = Some r" "ap_state r = ApprovalConsumed"
    "ap_subject r = o_id x" "set (normalizeApprovalIDs (o_callers x)) \<subseteq> set (normalizeApprovalIDs (ap_required r))"
    by (auto simp: op_consented_iff)
  with assms(5) have "p \<in> set (normalizeApprovalIDs (ap_required r))" by blast
  then obtain q where q: "q \<in> set (ap_required r)" "trim_space q = p"
    unfolding operation_ids.norm_set by blast
  have "has_approved d r q"
    using approved_iff [of d r] ok find_by_SomeD [OF r(1)] r(2) q(1) by (simp add: effects_ok_def)
  with r q show ?thesis by blast
qed

text \<open>
  C2. Nothing is sent without consent: whenever a request has been sent for an operation whose caller
  named approvers, the approval bound to that operation is CONSUMED and every named approver has
  recorded APPROVE for its digest.
\<close>

theorem sent_with_consent:
  assumes "effect_run w0 (d, sent)" and "effects_ok w0" and "rq \<in> set sent"
    and "find_by o_id (rq_operation rq) (db_ops d) = Some x" and "p \<in> set (normalizeApprovalIDs (o_callers x))"
  shows "\<exists>r q. find_by ap_id (trim_space (o_approval x)) (db_approvals d) = Some r \<and> ap_state r = ApprovalConsumed \<and>
    ap_subject r = o_id x \<and> q \<in> set (ap_required r) \<and> trim_space q = p \<and> has_approved d r q"
  using assms by (rule consent_of_sent)

definition demo_waiting :: db where
  "demo_waiting = fst (Prepare demo_codes demo_service demo_clock (demo_effect ['' ann'']) demo_store)"

definition demo_agreed :: db where
  "demo_agreed = fst (Approve 21 ''approval_b'' ''ann'' ''h'' demo_waiting)"

definition demo_sent :: "db \<times> ProviderDispatchRequest list" where
  "demo_sent = (let run = Dispatch demo_codes demo_service demo_clock2
      (\<lambda>rq. Inr \<lparr>out_state = OperationConfirmedEffect, out_reference = ''ref'', out_cost = 3\<rparr>)
      (\<lambda>rq. Inl (Err ''down'')) ''operation_b'' ''attempt_1'' demo_agreed in (fst run, fst (snd run)))"

lemma demo_sent_run: "effect_run (demo_store, []) (fst demo_sent, snd demo_sent)"
proof -
  have "effect_run (demo_store, []) (demo_waiting, [])"
    unfolding demo_waiting_def by (rule r_into_rtranclp) (rule effect_prepare)
  also have "effect_run (demo_waiting, []) (demo_agreed, [])"
    unfolding demo_agreed_def by (rule r_into_rtranclp) (rule effect_approval, rule approval_step.intros)
  also have "effect_run (demo_agreed, []) (fst demo_sent, snd demo_sent)"
    using Dispatch_run [of demo_agreed "[]"] by (simp add: demo_sent_def Let_def)
  finally show ?thesis .
qed

lemma demo_sent_facts:
  "map (\<lambda>x. (o_id x, o_state x, normalizeApprovalIDs (o_callers x), o_cost x)) (db_ops (fst demo_sent)) =
    [(''operation_b'', OperationConfirmedEffect, [''ann''], Some 3)]"
  "map rq_operation (snd demo_sent) = [''operation_b'']"
  by code_simp+

lemma sent_with_consent_witness:
  "\<exists>r q. ap_state r = ApprovalConsumed \<and> q \<in> set (ap_required r) \<and> trim_space q = ''ann'' \<and> has_approved (fst demo_sent) r q"
proof -
  obtain x where x: "db_ops (fst demo_sent) = [x]" "o_id x = ''operation_b''" "normalizeApprovalIDs (o_callers x) = [''ann'']"
    using demo_sent_facts(1) by (auto simp: map_eq_Cons_conv)
  obtain rq where rq: "snd demo_sent = [rq]" "rq_operation rq = ''operation_b''"
    using demo_sent_facts(2) by (auto simp: map_eq_Cons_conv)
  from sent_with_consent [OF demo_sent_run demo_store_ok, of rq x "''ann''"] x rq show ?thesis
    by (auto simp: find_by_Cons)
qed

text \<open>
  C4. The budget follows the effect: in every reachable state each operation has a reservation of its
  own, which is HELD while the operation is PREPARED or DISPATCHED, UNRESOLVED while its outcome is
  unknown, SETTLED once it is confirmed and RELEASED once it is cancelled.
\<close>

theorem budget_follows_effect:
  assumes "effect_run w0 (d, sent)" and "effects_ok w0"
  shows "distinct (map o_reservation (db_ops d)) \<and>
    (\<forall>x \<in> set (db_ops d). \<exists>r. find_by r_id (o_reservation x) (db_reservations d) = Some r \<and>
       (r_state r = ReservationHeld \<longleftrightarrow> o_state x = OperationPrepared \<or> o_state x = OperationDispatched) \<and>
       (r_state r = ReservationUnresolved \<longleftrightarrow> o_state x = OperationOutcomeUnknown) \<and>
       (r_state r = ReservationSettled \<longleftrightarrow> o_state x = OperationConfirmedEffect \<or> o_state x = OperationConfirmedNoEffect) \<and>
       (r_state r = ReservationReleased \<longleftrightarrow> o_state x = OperationCancelled))"
proof -
  have ok: "ops_ok d" using effects.reach_inv [OF assms] by (simp add: effects_ok_def)
  have "\<exists>r. find_by r_id (o_reservation x) (db_reservations d) = Some r \<and>
       (r_state r = ReservationHeld \<longleftrightarrow> o_state x = OperationPrepared \<or> o_state x = OperationDispatched) \<and>
       (r_state r = ReservationUnresolved \<longleftrightarrow> o_state x = OperationOutcomeUnknown) \<and>
       (r_state r = ReservationSettled \<longleftrightarrow> o_state x = OperationConfirmedEffect \<or> o_state x = OperationConfirmedNoEffect) \<and>
       (r_state r = ReservationReleased \<longleftrightarrow> o_state x = OperationCancelled)"
    if x: "x \<in> set (db_ops d)" for x
  proof -
    obtain r where "find_by r_id (o_reservation x) (db_reservations d) = Some r" "coupled (o_state x) = Some (r_state r)"
      using ops_okD(7) [OF ok x] by (auto simp: reserved_ok_iff)
    then show ?thesis by (cases "o_state x") auto
  qed
  then show ?thesis using ops_okD(3) [OF ok] by blast
qed

lemma budget_follows_effect_witness:
  "\<exists>x r. x \<in> set (db_ops (fst demo_lost)) \<and> find_by r_id (o_reservation x) (db_reservations (fst demo_lost)) = Some r \<and>
     r_state r = ReservationUnresolved"
proof -
  have "effect_run (demo_store, []) (fst demo_lost, snd demo_lost)" using demo_runs(2) by simp
  note all = budget_follows_effect [OF this demo_store_ok]
  obtain x where "db_ops (fst demo_lost) = [x]" "o_state x = OperationOutcomeUnknown"
    using demo_lost_facts(1) by (auto simp: map_eq_Cons_conv)
  with all show ?thesis by auto
qed

subsection \<open>Final outcomes\<close>

lemma SettleOutcome_row:
  assumes ok: "ops_ok d" and run: "SettleOutcome now lnow rand k out d = (d1, Inr x)"
  shows "confirmed (out_state out)" "0 \<le> out_cost out" "find_by o_id k (db_ops d1) = Some x" "o_state x = out_state out"
    "o_cost x = Some (out_cost out)" "o_reference x = trim_space (out_reference out)"
proof -
  have st: "confirmed (out_state out)" "0 \<le> out_cost out" and tx: "SettleOutcomeInTx now lnow rand k out d = Inr (x, d1)"
    using run by (auto simp: SettleOutcome_def with_tx_Inr_iff split: if_splits)
  show "confirmed (out_state out)" "0 \<le> out_cost out" by (rule st)+
  from ok tx st(1) have "find_by o_id k (db_ops d1) = Some x \<and> o_state x = out_state out \<and> o_cost x = Some (out_cost out) \<and>
      o_reference x = trim_space (out_reference out)"
  proof (cases rule: SettleOutcomeInTx_Inr)
    case (2 y f d0)
    have "find_by o_id k (db_ops d0) = Some (f y)"
      using update_one(1) [OF ops_okD(1) [OF ok] 2(1), where hit = "\<lambda>z. o_id z = k" and f = f and j = k]
        find_by_SomeD [OF 2(1)] only_row [OF ok 2(1)]
      by (simp add: 2(6) set_op_tables set_reservation_tables) (simp add: 2(3))
    then show ?thesis using op_event_rest(1) [OF 2(7)] by (simp add: 2(3,4))
  qed simp
  then show "find_by o_id k (db_ops d1) = Some x" "o_state x = out_state out"
    "o_cost x = Some (out_cost out)" "o_reference x = trim_space (out_reference out)" by simp_all
qed

text \<open>
  An outcome is final: once \<open>SettleOutcome\<close> has succeeded, the operation keeps that row in every
  later state of the services; repeating the same outcome returns it and changes nothing, and any other
  state, cost or reference is refused and changes nothing.
\<close>

theorem settled_outcome_is_final:
  assumes "effects_ok (d, sent)" and "SettleOutcome now lnow rand k out d = (d1, Inr x)"
    and "effect_run (d1, sent) (d2, sent2)"
  shows "find_by o_id k (db_ops d2) = Some x \<and> o_state x = out_state out \<and> o_cost x = Some (out_cost out) \<and>
    (if out_state out' = out_state out \<and> out_cost out' = out_cost out \<and>
        trim_space (out_reference out') = trim_space (out_reference out)
     then SettleOutcome now' lnow' rand' k out' d2 = (d2, Inr x)
     else \<exists>e. SettleOutcome now' lnow' rand' k out' d2 = (d2, Inl e))"
proof -
  have "effect_step (d, sent) (d1, sent)" using effect_settle [of d sent now lnow rand k out] assms(2) by simp
  then have ok1: "effects_ok (d1, sent)" using effect_step_ok assms(1) by blast
  have "ops_ok d" using assms(1) by (simp add: effects_ok_def)
  note row = SettleOutcome_row [OF this assms(2)]
  have "find_by o_id k (db_ops (fst (d1, sent))) = Some x" using row(3) by simp
  from assms(3) ok1 this obtain x' where x': "find_by o_id k (db_ops d2) = Some x'" "later_op x x'"
    by (rule effect_run_op) simp
  have "Terminal (o_state x)" using row(1,4) by (auto simp: confirmed_def)
  then have same: "find_by o_id k (db_ops d2) = Some x" using later_opD(16) [OF x'(2)] x'(1) by simp
  have load: "loadOperation k d2 = Inr x" using same by (simp add: loadOperation_def)
  show ?thesis
  proof (cases "confirmed (out_state out') \<and> 0 \<le> out_cost out'")
    case True
    then show ?thesis using same load row
      by (auto simp: SettleOutcome_def with_tx_def SettleOutcomeInTx_def confirmed_def)
  next
    case False
    then show ?thesis using same row by (auto simp: SettleOutcome_def)
  qed
qed

lemma settled_outcome_is_final_witness:
  "\<exists>e. SettleOutcome 40 40 ''z'' ''operation_b''
     \<lparr>out_state = OperationConfirmedNoEffect, out_reference = [], out_cost = 0\<rparr> (fst demo_sent) = (fst demo_sent, Inl e)"
proof -
  let ?out = "\<lparr>out_state = OperationConfirmedEffect, out_reference = ''ref'', out_cost = 3\<rparr>"
  have ok: "effects_ok (fst demo_sent, snd demo_sent)" using effects.reach_inv [OF demo_sent_run demo_store_ok] .
  have "fst (SettleOutcome 30 30 ''y'' ''operation_b'' ?out (fst demo_sent)) = fst demo_sent \<and>
      isl (snd (SettleOutcome 30 30 ''y'' ''operation_b'' ?out (fst demo_sent))) = False"
  proof -
    obtain x where "db_ops (fst demo_sent) = [x]" "o_id x = ''operation_b''" "o_state x = OperationConfirmedEffect" "o_cost x = Some 3"
      "o_reference x = ''ref''"
    proof -
      have "map (\<lambda>x. (o_id x, o_state x, o_cost x, o_reference x)) (db_ops (fst demo_sent)) =
        [(''operation_b'', OperationConfirmedEffect, Some 3, ''ref'')]" by code_simp
      then show thesis using that by (auto simp: map_eq_Cons_conv)
    qed
    moreover have "trim_space ''ref'' = ''ref''" by code_simp
    ultimately show ?thesis
      by (simp add: SettleOutcome_def with_tx_def SettleOutcomeInTx_def loadOperation_def find_by_Cons)
  qed
  then obtain x where "SettleOutcome 30 30 ''y'' ''operation_b'' ?out (fst demo_sent) = (fst demo_sent, Inr x)"
    by (metis isl_def prod.collapse sum.collapse(2))
  from settled_outcome_is_final [OF ok this rtranclp.rtrancl_refl,
      where out' = "\<lparr>out_state = OperationConfirmedNoEffect, out_reference = [], out_cost = 0\<rparr>"]
  show ?thesis by simp
qed

subsection \<open>Every gate is open when a request is sent\<close>

lemma dispatch_plan_Inr:
  assumes "dispatch_plan_of S now x k d = Inr (P, True)"
  obtains p t c risk where "providerFor S (o_provider x) = Inr p" "controlForAttempt k d = Inr t" "t_id t = o_task x"
    "validateDecisionProvenance c now = Inr ()" "validateDispatchOutcome (pd_outcome c) = Inr ()" "authority_covers p t"
    "dp_now P = now" "dp_operation P = o_id x" "dp_task P = o_task x" "dp_attempt P = k" "dp_provider P = p" "dp_decision P = c"
    "controlRisk (o_id x) d = Inr risk" "controlDescriptorType (o_slot x) d = Inr (dp_type P)"
    "evaluatePolicy S \<lparr>px_now = now, px_risk = risk, px_authority = True, px_task = o_task x, px_attempt = k, px_provider = p,
       px_type = dp_type P, px_phase = ''DISPATCH'', px_attributes = (\<lambda>_. None)\<rparr> = Inr c"
proof -
  from assms obtain p t risk dtype c where plan: "providerFor S (o_provider x) = Inr p" "controlForAttempt k d = Inr t" "t_id t = o_task x"
    "controlDescriptorType (o_slot x) d = Inr dtype" "controlRisk (o_id x) d = Inr risk"
    "evaluatePolicy S \<lparr>px_now = now, px_risk = risk, px_authority = authority_covers p t, px_task = o_task x, px_attempt = k,
       px_provider = p, px_type = dtype, px_phase = ''DISPATCH'', px_attributes = (\<lambda>_. None)\<rparr> = Inr c"
    and P: "P = \<lparr>dp_now = now, dp_operation = o_id x, dp_task = o_task x, dp_attempt = k, dp_provider = p, dp_type = dtype, dp_decision = c\<rparr>"
      "validateDecisionProvenance c now = Inr ()" "validateDispatchOutcome (pd_outcome c) = Inr ()" "authority_covers p t"
    unfolding dispatch_plan_of_def bindE_Inr_iff requireE_Inr_iff by (auto simp del: not_Cons_self2)
  show thesis by (rule that [of p t c risk]) (use plan P in simp_all)
qed

lemma validateDispatchOutcome_Inr:
  "validateDispatchOutcome st = Inr u \<longleftrightarrow> st = PolicyAllow \<or> st = PolicyRequireApproval"
  by (cases st) auto

lemma validateAndConsume_policy_sets:
  "validateAndConsumeApprovalInTx C now x c callers p dtype canonical d = Inr d' \<Longrightarrow> db_policy_sets d' = db_policy_sets d"
  by (erule validateAndConsume_Inr) (auto elim!: ConsumeInTx_Inr simp: set_approval_def)

text \<open>
  C3. A request leaves the service only when every gate is open: then it is one request, for the prepared
  operation of that attempt, which is not cancelled, and the bytes of its slot, which is still bound to its intent; the attempt passes
  the guard of its task, and the task's authority and enforcement level cover the provider. The decision is the answer that the policy of
  the service gives at this moment to the risk of this operation, its task, attempt, provider and descriptor type in the phase
  DISPATCH: it is ALLOW or REQUIRE_APPROVAL, carries its provenance, and its policy set is still active. The budget is HELD. And when
  the policy or the caller requires an approval, that of the operation is APPROVED and has not expired, its digest is that of this
  provider, slot and canonical intent, its approvers include everyone the caller named and everyone the policy requires, and all of
  them have approved.
\<close>

theorem Dispatch_sends_when_allowed:
  assumes "Dispatch C S E send lookup k a d = (d', rqs, r)" and "rq \<in> set rqs"
  shows "rqs = [rq] \<and> (\<exists>x s g t p c rs. find_by o_id k (db_ops d) = Some x \<and> o_state x = OperationPrepared \<and> o_attempt x = a \<and>
    \<not> o_cancel_requested x \<and> find_by s_id (o_slot x) (db_slots d) = Some s \<and> rq = request_of x s \<and>
    s_fingerprint s = o_fingerprint x \<and> s_revision s = o_revision x \<and>
    GuardAttempt (clk E 1) a [TaskExecuting] d = Inr g \<and> find_by t_id (ga_task g) (db_tasks d) = Some t \<and>
    ga_task g = o_task x \<and> authority_covers p t \<and> providerFor S (o_provider x) = Inr p \<and>
    sv_policy S \<lparr>pi_risk = trim_space (o_risk x), pi_authority = True, pi_now = clk E 0,
      pi_attributes = [''task_id'' \<mapsto> o_task x, ''attempt_id'' \<mapsto> a, ''provider'' \<mapsto> pv_name p, ''capability'' \<mapsto> pv_capability p,
        ''enforcement'' \<mapsto> enforcement_text (pv_enforcement p), ''descriptor_type'' \<mapsto> s_descriptor s, ''phase'' \<mapsto> ''DISPATCH'']\<rparr> = Inr c \<and>
    (pd_outcome c = PolicyAllow \<or> pd_outcome c = PolicyRequireApproval) \<and>
    validateDecisionProvenance c (clk E 0) = Inr () \<and>
    profile_active (pd_set_id c) (pd_set_hash c) (pd_caps_hash c) d \<and>
    find_by r_id (o_reservation x) (db_reservations d) = Some rs \<and> r_state rs = ReservationHeld \<and>
    (requires_approval c (normalizeApprovalIDs (o_callers x)) \<longrightarrow>
       (\<exists>ap. find_by ap_id (trim_space (o_approval x)) (db_approvals d) = Some ap \<and> ap_state ap = ApprovalApproved \<and>
          ap_subject ap = o_id x \<and> clk E 2 < ap_expires ap \<and>
          operationApprovalDigest C (pv_name p) (s_descriptor s) (o_slot x) (o_fingerprint x) (o_revision x) (s_canonical s) =
            Inr (ap_digest ap) \<and>
          (\<forall>q. q \<noteq> [] \<and> (q \<in> trim_space ` set (o_callers x) \<or>
               pd_outcome c = PolicyRequireApproval \<and> q \<in> trim_space ` set (pd_required c)) \<longrightarrow>
             q \<in> trim_space ` set (ap_required ap)) \<and>
          (approvals_ok d \<longrightarrow> (\<forall>q \<in> set (ap_required ap). has_approved d ap q)))))"
proof -
  have ne: "k \<noteq> [] \<and> a \<noteq> []" using assms by (auto simp: Dispatch_def)
  then obtain x where x: "loadOperation k d = Inr x" using assms by (auto simp: Dispatch_def split: sum.splits)
  have prep: "o_state x = OperationPrepared" "o_attempt x = a"
    and run: "dispatch_prepared C S E send x a d = (d', rqs, r)"
    using assms ne x by (auto simp: Dispatch_def split: operation_state.splits if_splits sum.splits prod.splits)
  have row: "find_by o_id k (db_ops d) = Some x" "o_id x = k"
    using x find_by_SomeD [of o_id k "db_ops d" x] by (simp_all add: loadOperation_Inr)
  obtain P go where P: "dispatch_plan_of S (clk E 0) x a d = Inr (P, go)"
    using run assms(2) by (auto simp: dispatch_prepared_def split: sum.splits)
  have go: "go" using run assms(2) P by (auto simp: dispatch_prepared_def split: prod.splits if_splits)
  obtain d1 where tx: "dispatchInTx C E P d = Inr (rq, d1)" and one: "rqs = [rq]"
    using run assms(2) P go by (auto simp: dispatch_prepared_def with_tx_Inr_iff split: prod.splits sum.splits)
  obtain p t c risk where plan: "providerFor S (o_provider x) = Inr p" "validateDecisionProvenance c (clk E 0) = Inr ()"
    "validateDispatchOutcome (pd_outcome c) = Inr ()" "dp_now P = clk E 0" "dp_operation P = o_id x" "dp_task P = o_task x"
    "dp_attempt P = a" "dp_provider P = p" "dp_decision P = c"
    and asked: "controlRisk (o_id x) d = Inr risk" "controlDescriptorType (o_slot x) d = Inr (dp_type P)"
      "evaluatePolicy S \<lparr>px_now = clk E 0, px_risk = risk, px_authority = True, px_task = o_task x, px_attempt = a, px_provider = p,
         px_type = dp_type P, px_phase = ''DISPATCH'', px_attributes = (\<lambda>_. None)\<rparr> = Inr c"
    by (rule dispatch_plan_Inr [of S "clk E 0" x a d P]) (use P go in simp_all)
  from tx obtain y s e1 e2 where guard: "dispatch_guard E P d = Inr (y, s)" and rq: "rq = request_of y s"
    and cons: "validateAndConsumeApprovalInTx C (clk E 2) y c (normalizeApprovalIDs (o_callers y)) p (dp_type P) (s_canonical s) d = Inr e1"
    and commit: "commit_dispatch E P e1 = Inr e2"
    by (rule dispatchInTx_Inr) (simp add: plan)
  obtain g t' rs where g: "GuardAttempt (clk E 1) a [TaskExecuting] d = Inr g" "ga_task g = o_task x"
    "find_by t_id (ga_task g) (db_tasks d) = Some t'" "authority_covers p t'" "find_by o_id k (db_ops d) = Some y"
    "find_by r_id (o_reservation y) (db_reservations d) = Some rs" "r_state rs = ReservationHeld"
    "find_by s_id (o_slot y) (db_slots d) = Some s" "\<not> o_cancel_requested y" "s_fingerprint s = o_fingerprint y" "s_revision s = o_revision y"
    using guard unfolding dispatch_guard_Inr plan row(2) by blast
  have y: "y = x" using g(5) row(1) by simp
  have dtype: "dp_type P = s_descriptor s" and risk: "risk = o_risk x"
    using asked(1,2) g(8) row by (simp_all add: controlDescriptorType_def controlRisk_def y)
  have active: "profile_active (pd_set_id c) (pd_set_hash c) (pd_caps_hash c) d"
    using commit_dispatch_Inr(2) [OF commit] validateAndConsume_policy_sets [OF cons]
    by (simp add: plan profile_active_def)
  have consent: "\<exists>ap. find_by ap_id (trim_space (o_approval x)) (db_approvals d) = Some ap \<and> ap_state ap = ApprovalApproved \<and>
      ap_subject ap = o_id x \<and> clk E 2 < ap_expires ap \<and>
      operationApprovalDigest C (pv_name p) (s_descriptor s) (o_slot x) (o_fingerprint x) (o_revision x) (s_canonical s) = Inr (ap_digest ap) \<and>
      (\<forall>q. q \<noteq> [] \<and> (q \<in> trim_space ` set (o_callers x) \<or> pd_outcome c = PolicyRequireApproval \<and> q \<in> trim_space ` set (pd_required c)) \<longrightarrow>
         q \<in> trim_space ` set (ap_required ap)) \<and>
      (approvals_ok d \<longrightarrow> (\<forall>q \<in> set (ap_required ap). has_approved d ap q))"
    if req: "requires_approval c (normalizeApprovalIDs (o_callers x))"
    using cons
  proof (cases rule: validateAndConsume_Inr)
    case (2 ap digest)
    obtain ap' where ap': "find_by ap_id (trim_space (ap_id ap)) (db_approvals d) = Some ap'" "clk E 2 < ap_expires ap'"
      using ConsumeInTx_Inr [OF 2(8)] by blast
    have "ap_id ap = trim_space (o_approval y)" using find_by_SomeD [OF 2(4)] by simp
    then have same: "ap' = ap" using ap'(1) 2(4) by simp
    have bound: "ap_subject ap = o_id x" "ap_digest ap = digest"
      "set (normalizeApprovalIDs (ap_required ap)) = set (normalizeApprovalIDs (requiredApproversFor c (normalizeApprovalIDs (o_callers x))))"
      using 2(7) by (simp_all add: approval_binds_def approvalIDsEqual_def y)
    have "q \<in> trim_space ` set (ap_required ap)"
      if "q \<noteq> []" "q \<in> trim_space ` set (o_callers x) \<or> pd_outcome c = PolicyRequireApproval \<and> q \<in> trim_space ` set (pd_required c)" for q
    proof -
      have trimmed: "trim_space q = q" using that(2) by auto
      then have again: "q \<in> trim_space ` set xs" if "q \<in> set xs" for xs using that by (metis image_eqI)
      have "q \<in> set (normalizeApprovalIDs (o_callers x)) \<or> pd_outcome c = PolicyRequireApproval \<and> q \<in> trim_space ` set (pd_required c)"
        using that by (auto simp: operation_ids.norm_set)
      then have "q \<in> set (requiredApproversFor c (normalizeApprovalIDs (o_callers x)))"
        using that(1) again [of "normalizeApprovalIDs (o_callers x)"]
        unfolding requiredApproversFor_def operation_ids.norm_set set_append by auto
      then have "q \<in> set (normalizeApprovalIDs (requiredApproversFor c (normalizeApprovalIDs (o_callers x))))"
        using that(1) again [of "requiredApproversFor c (normalizeApprovalIDs (o_callers x))"]
        unfolding operation_ids.norm_set [of "requiredApproversFor c (normalizeApprovalIDs (o_callers x))"] by simp
      then have "q \<in> set (normalizeApprovalIDs (ap_required ap))" by (simp only: bound(3))
      then show ?thesis by (simp add: operation_ids.norm_set)
    qed
    moreover have "\<forall>q \<in> set (ap_required ap). has_approved d ap q" if ok: "approvals_ok d"
      using approved_iff [OF ok, of ap] find_by_SomeD [OF 2(4)] 2(5) by simp
    ultimately show ?thesis using 2(4-6) bound ap' same dtype by (intro exI [of _ ap]) (simp add: y)
  qed (use req y in simp)
  have outcome: "pd_outcome c = PolicyAllow \<or> pd_outcome c = PolicyRequireApproval"
    using plan(3) by (simp add: validateDispatchOutcome_Inr)
  have policy: "sv_policy S \<lparr>pi_risk = trim_space (o_risk x), pi_authority = True, pi_now = clk E 0,
      pi_attributes = [''task_id'' \<mapsto> o_task x, ''attempt_id'' \<mapsto> a, ''provider'' \<mapsto> pv_name p, ''capability'' \<mapsto> pv_capability p,
        ''enforcement'' \<mapsto> enforcement_text (pv_enforcement p), ''descriptor_type'' \<mapsto> s_descriptor s, ''phase'' \<mapsto> ''DISPATCH'']\<rparr> = Inr c"
    using asked(3) by (simp add: evaluatePolicy_def risk dtype)
  show ?thesis
    using one row(1) prep g rq plan(1,2) active consent outcome policy unfolding y
    by (intro conjI exI [of _ x] exI [of _ s] exI [of _ g] exI [of _ t'] exI [of _ p] exI [of _ c] exI [of _ rs]) simp_all
qed

lemma Dispatch_sends_when_allowed_witness:
  "\<exists>x rs. find_by o_id ''operation_b'' (db_ops demo_prepared) = Some x \<and> o_state x = OperationPrepared \<and>
     find_by r_id (o_reservation x) (db_reservations demo_prepared) = Some rs \<and> r_state rs = ReservationHeld"
proof -
  obtain d' rqs r where run: "Dispatch demo_codes demo_service demo_clock2 (\<lambda>rq. Inl (Err ''timeout''))
      (\<lambda>rq. Inl (Err ''down'')) ''operation_b'' ''attempt_1'' demo_prepared = (d', rqs, r)"
    using prod_cases3 by blast
  then obtain rq where "rq \<in> set rqs"
    using demo_lost_facts(2) by (auto simp: demo_lost_def Let_def map_eq_Cons_conv)
  from Dispatch_sends_when_allowed [OF run this] show ?thesis by blast
qed

subsection \<open>Recovery asks, and never leaves an effect in the dark\<close>

definition in_flight :: "db \<Rightarrow> ID set" where
  "in_flight d = {k. \<exists>x. find_by o_id k (db_ops d) = Some x \<and> o_state x = OperationDispatched}"

lemma in_flight_update:
  assumes "ops_ok d" and "find_by o_id k (db_ops d) = Some x" and "o_id (f x) = o_id x" "o_state (f x) \<noteq> OperationDispatched"
    and "db_ops d' = update_where (\<lambda>z. o_id z = k) f (db_ops d)"
  shows "in_flight d' = in_flight d - {k}"
  using update_one(1) [OF ops_okD(1) [OF assms(1)] assms(2), where hit = "\<lambda>z. o_id z = k" and f = f]
    find_by_SomeD [OF assms(2)] only_row [OF assms(1,2)] assms(3-5)
  by (auto simp: in_flight_def)

lemma MarkUnresolvedInTx_Inl: "MarkUnresolvedInTx now k d = Inl e \<Longrightarrow> e \<noteq> ErrOutcomeUnknown"
  by (auto simp: MarkUnresolvedInTx_def bindE_Inl_iff requireE_Inl_iff loadReservationState_def
      split: option.splits reservation_state.splits)

lemma op_event_Inl: "appendOperationEvent rand ty x now d = Inl e \<Longrightarrow> e \<noteq> ErrOutcomeUnknown"
  by (auto simp: appendOperationEvent_def append_event_def bindE_Inl_iff insert_unique_Inl_iff)

lemma markUnknownAt_in_flight:
  assumes ok: "ops_ok d" and run: "markUnknownAt E k d = (d', r)"
  shows "in_flight d' \<subseteq> in_flight d" "r = Inr x \<Longrightarrow> k \<notin> in_flight d'" "r = Inl e \<Longrightarrow> d' = d \<and> e \<noteq> ErrOutcomeUnknown"
    "r = Inr x \<Longrightarrow> o_id x = k"
proof -
  have "in_flight d' \<subseteq> in_flight d \<and> k \<notin> in_flight d' \<and> o_id x = k" if r: "r = Inr x" for x
  proof -
    have tx: "markUnknownInTx (clk E 0) (clk E 1) (rnd E 0) k d = Inr (x, d')"
      using run r by (simp add: markUnknownAt_def markUnknown_def with_tx_Inr_iff)
    from ok tx show ?thesis
    proof (cases rule: markUnknownInTx_Inr)
      case (1 y)
      then show ?thesis using find_by_SomeD [OF 1(1)] by (auto simp: in_flight_def)
    next
      case (2 y f d0)
      have "in_flight d' = in_flight d - {k}"
        using op_event_rest(1) [OF 2(6)] by (intro in_flight_update [OF ok 2(1), where f = f])
          (simp_all add: 2(3,5) set_op_tables set_reservation_tables)
      then show ?thesis using find_by_SomeD [OF 2(1)] by (auto simp: 2(3,4))
    qed
  qed
  moreover have "d' = d \<and> e \<noteq> ErrOutcomeUnknown" if r: "r = Inl e" for e
  proof -
    obtain e0 where e0: "d' = d" "markUnknownInTx (clk E 0) (clk E 1) (rnd E 0) k d = Inl e0" "e = mapCanonicalInvariantError e0"
      using run r by (auto simp: markUnknownAt_def markUnknown_def with_tx_Inl_iff)
    have "e0 \<noteq> ErrOutcomeUnknown"
    proof (cases "find_by o_id k (db_ops d)")
      case None
      then show ?thesis using e0(2) by (auto simp: markUnknownInTx_def loadOperation_def)
    next
      case (Some y)
      define move where "move = bindE (MarkUnresolvedInTx (clk E 1) (o_reservation y) d)
        (\<lambda>d'. bindE (appendOperationEvent (rnd E 0) ''OPERATION_OUTCOME_UNKNOWN'' y (clk E 0)
           (set_op (\<lambda>z. o_id z = k) (\<lambda>z. z\<lparr>o_state := OperationOutcomeUnknown, o_reconcile := True\<rparr>) d'))
         (\<lambda>d''. Inr (y\<lparr>o_state := OperationOutcomeUnknown, o_reconcile := True\<rparr>, d'')))"
      have "e \<noteq> ErrOutcomeUnknown" if "move = Inl e" for e
        using that unfolding move_def bindE_Inl_iff sum.distinct by (blast dest: MarkUnresolvedInTx_Inl op_event_Inl)
      moreover have "e0 = Err ''cannot mark operation unknown from state'' \<or> move = Inl e0"
        using e0(2) Some by (simp add: markUnknownInTx_def loadOperation_def Let_def move_def split: if_splits)
      ultimately show ?thesis by auto
    qed
    with e0(1,3) show ?thesis by (simp add: mapCanonicalInvariantError_def policyProfileInactiveMarker_def)
  qed
  ultimately show "in_flight d' \<subseteq> in_flight d" "r = Inr x \<Longrightarrow> k \<notin> in_flight d'" "r = Inl e \<Longrightarrow> d' = d \<and> e \<noteq> ErrOutcomeUnknown"
    "r = Inr x \<Longrightarrow> o_id x = k"
    by (cases r; auto)+
qed

lemma SettleOutcomeAt_in_flight:
  assumes ok: "ops_ok d"
  shows "in_flight (fst (SettleOutcomeAt E k out d)) \<subseteq> in_flight d"
proof -
  have "in_flight d' \<subseteq> in_flight d" if tx: "SettleOutcomeInTx now lnow rand k out d = Inr (x, d')" and st: "confirmed (out_state out)"
    for now lnow rand x d'
    using ok tx st
  proof (cases rule: SettleOutcomeInTx_Inr)
    case (2 y f d0)
    have "in_flight d' = in_flight d - {k}"
      using op_event_rest(1) [OF 2(7)] st by (intro in_flight_update [OF ok 2(1), where f = f])
        (auto simp: 2(3,6) set_op_tables set_reservation_tables)
    then show ?thesis by auto
  qed simp
  then have "in_flight (fst (with_tx (SettleOutcomeInTx now lnow rand k out) d)) \<subseteq> in_flight d" if "confirmed (out_state out)"
    for now lnow rand
    using fst_with_tx [of "SettleOutcomeInTx now lnow rand k out" d] that by (metis order_refl)
  then show ?thesis by (simp add: SettleOutcomeAt_def SettleOutcome_def)
qed

lemma leave_unknown_in_flight: "ops_ok d \<Longrightarrow> in_flight (fst (leave_unknown E k d)) \<subseteq> in_flight d"
  unfolding leave_unknown_fst using markUnknownAt_in_flight(1) [of d E k] by (metis prod.collapse)

lemma lookup_outcome_in_flight: "ops_ok d \<Longrightarrow> in_flight (fst (lookup_outcome S E lookup x d)) \<subseteq> in_flight d"
  unfolding lookup_outcome_def using leave_unknown_in_flight SettleOutcomeAt_in_flight
  by (auto split: sum.split)

lemma reconcile_in_flight:
  assumes ok: "ops_ok d" and run: "reconcile S E lookup k d = (d', r)"
  shows "in_flight d' \<subseteq> in_flight d" "r = Inr x \<or> r = Inl ErrOutcomeUnknown \<Longrightarrow> k \<notin> in_flight d'"
proof -
  have "in_flight d' \<subseteq> in_flight d \<and> (r = Inr x \<or> r = Inl ErrOutcomeUnknown \<longrightarrow> k \<notin> in_flight d')"
  proof (cases "loadOperation k d")
    case (Inl e)
    then show ?thesis using run by (auto simp: reconcile_def in_flight_def loadOperation_def split: option.splits)
  next
    case (Inr y)
    then have y: "find_by o_id k (db_ops d) = Some y" by (simp add: loadOperation_Inr)
    show ?thesis
    proof (cases "o_state y = OperationDispatched")
      case False
      then have "k \<notin> in_flight d" using y by (simp add: in_flight_def)
      moreover have "d' = d \<or> d' = fst (lookup_outcome S E lookup y d)"
        using run Inr False by (cases "o_state y") (auto simp: reconcile_def)
      ultimately show ?thesis using lookup_outcome_in_flight [OF ok, of S E lookup y] by auto
    next
      case True
      obtain d1 r1 where mark: "markUnknownAt E k d = (d1, r1)" by (cases "markUnknownAt E k d")
      note facts = markUnknownAt_in_flight [OF ok mark]
      show ?thesis
      proof (cases r1)
        case (Inl e)
        then show ?thesis using run \<open>loadOperation k d = Inr y\<close> True mark facts(3) [OF Inl] by (auto simp: reconcile_def)
      next
        case (Inr z)
        then have d': "d' = fst (lookup_outcome S E lookup z d1)"
          using run \<open>loadOperation k d = Inr y\<close> True mark by (simp add: reconcile_def)
        have "ops_ok d1"
          using markUnknownInTx_next [OF ok] mark Inr
          by (auto simp: markUnknownAt_def markUnknown_def with_tx_Inr_iff ops_next_def)
        from lookup_outcome_in_flight [OF this, of S E lookup z] facts(1) facts(2) [OF Inr] d' show ?thesis by auto
      qed
    qed
  qed
  then show "in_flight d' \<subseteq> in_flight d" "r = Inr x \<or> r = Inl ErrOutcomeUnknown \<Longrightarrow> k \<notin> in_flight d'" by auto
qed

lemma reconcile_ok: "effects_ok (d, sent) \<Longrightarrow> effects_ok (fst (reconcile S E lookup k d), sent)"
  using effects.reach_inv [OF reconcile_run] .

text \<open>
  When recovery succeeds: what a call draws is new, the providers of the operations are registered, and an answer that confirms an
  outcome names a cost that is not negative.
\<close>

definition answered :: "answer \<Rightarrow> ProviderDispatchRequest \<Rightarrow> operation_state" where
  "answered lookup rq = (case lookup rq of Inl e \<Rightarrow> OperationOutcomeUnknown
     | Inr out \<Rightarrow> if confirmed (out_state out) then out_state out else OperationOutcomeUnknown)"

definition payable :: "answer \<Rightarrow> bool" where
  "payable lookup \<longleftrightarrow> (\<forall>rq out. lookup rq = Inr out \<and> confirmed (out_state out) \<longrightarrow> 0 \<le> out_cost out)"

definition event_ids :: "db \<Rightarrow> ID set" where
  "event_ids d = ev_id ` set (db_events d)"

definition draws :: "env \<Rightarrow> ID set" where
  "draws E = (\<lambda>n. NewID ''event'' (rnd E n)) ` {0, 10, 20}"

definition in_doubt :: "operation \<Rightarrow> bool" where
  "in_doubt x \<longleftrightarrow> o_state x = OperationDispatched \<or> o_state x = OperationOutcomeUnknown"

lemma op_event_fresh:
  assumes "NewID ''event'' rand \<notin> event_ids d"
  shows "\<exists>v. ev_id v = NewID ''event'' rand \<and> appendOperationEvent rand ty x now d = Inr (d\<lparr>db_events := db_events d @ [v]\<rparr>)"
proof -
  let ?v = "\<lparr>ev_id = NewID ''event'' rand, ev_task = o_task x, ev_attempt = (if o_attempt x = [] then None else Some (o_attempt x)),
    ev_type = ty, ev_details = [(''operation_id'', o_id x)], ev_at = now\<rparr>"
  have "insert_unique ev_id ?v (db_events d) = Inr (db_events d @ [?v])"
    using assms by (simp add: insert_unique_Inr_iff event_ids_def)
  then show ?thesis by (intro exI [of _ ?v]) (simp add: appendOperationEvent_def append_event_def)
qed

abbreviation unknown_op :: "operation \<Rightarrow> operation" where
  "unknown_op x \<equiv> x\<lparr>o_state := OperationOutcomeUnknown, o_reconcile := True\<rparr>"

lemma op_reservation:
  assumes "ops_ok d" and "find_by o_id k (db_ops d) = Some x" and "in_doubt x"
  obtains r where "find_by r_id (o_reservation x) (db_reservations d) = Some r"
    "r_state r = (if o_state x = OperationDispatched then ReservationHeld else ReservationUnresolved)"
  using op_row [OF assms(1,2)] assms(3) by (auto simp: in_doubt_def)

lemma event_ids_append [simp]: "event_ids (d\<lparr>db_events := db_events d @ [v]\<rparr>) = insert (ev_id v) (event_ids d)"
  by (simp add: event_ids_def)

lemma event_ids_tables [simp]: "event_ids (set_op hit f d) = event_ids d" "event_ids (set_reservation k g d) = event_ids d"
  by (simp_all add: event_ids_def set_op_def set_reservation_def)

lemma mark_total:
  assumes ok: "ops_ok d" and x: "find_by o_id k (db_ops d) = Some x" "in_doubt x" "o_reservation x \<noteq> []"
    and new: "NewID ''event'' (rnd E 0) \<notin> event_ids d"
  shows "\<exists>d'. markUnknownAt E k d = (d', Inr (unknown_op x)) \<and> ops_ok d' \<and> db_slots d' = db_slots d \<and>
    db_ops d' = update_where (\<lambda>z. o_id z = k) unknown_op (db_ops d) \<and> event_ids d' = insert (NewID ''event'' (rnd E 0)) (event_ids d)"
proof -
  obtain r where r: "find_by r_id (o_reservation x) (db_reservations d) = Some r"
    "r_state r = (if o_state x = OperationDispatched then ReservationHeld else ReservationUnresolved)"
    using op_reservation [OF ok x(1,2)] .
  obtain d1 where d1: "MarkUnresolvedInTx (clk E 1) (o_reservation x) d = Inr d1"
    using r x(3) MarkUnresolvedInTx_Inr [of "clk E 1" "o_reservation x" d] by (cases "o_state x = OperationDispatched") auto
  then have same: "db_ops d1 = db_ops d" "db_slots d1 = db_slots d" "event_ids d1 = event_ids d"
    by (auto simp: MarkUnresolvedInTx_Inr set_reservation_tables)
  let ?d2 = "set_op (\<lambda>y. o_id y = k) unknown_op d1"
  obtain v where v: "ev_id v = NewID ''event'' (rnd E 0)"
    "appendOperationEvent (rnd E 0) ''OPERATION_OUTCOME_UNKNOWN'' x (clk E 0) ?d2 = Inr (?d2\<lparr>db_events := db_events ?d2 @ [v]\<rparr>)"
    using op_event_fresh [of "rnd E 0" ?d2 "''OPERATION_OUTCOME_UNKNOWN''" x "clk E 0"] new same(3) unfolding event_ids_tables by blast
  have tx: "markUnknownInTx (clk E 0) (clk E 1) (rnd E 0) k d = Inr (unknown_op x, ?d2\<lparr>db_events := db_events ?d2 @ [v]\<rparr>)"
    using x d1 v by (auto simp: markUnknownInTx_def loadOperation_def bindE_def Let_def in_doubt_def confirmed_def)
  then have "markUnknownAt E k d = (?d2\<lparr>db_events := db_events ?d2 @ [v]\<rparr>, Inr (unknown_op x))"
    by (simp add: markUnknownAt_def markUnknown_def with_tx_Inr_iff)
  moreover have "ops_ok (?d2\<lparr>db_events := db_events ?d2 @ [v]\<rparr>)" using markUnknownInTx_next [OF ok tx] by (simp add: ops_next_def)
  ultimately show ?thesis using same v(1) by (intro exI [of _ "?d2\<lparr>db_events := db_events ?d2 @ [v]\<rparr>"]) (simp add: set_op_tables)
qed

lemma find_update_op:
  assumes "ops_ok d" and "find_by o_id k (db_ops d) = Some x" and "\<And>z. o_id (f z) = o_id z"
  shows "find_by o_id j (update_where (\<lambda>z. o_id z = k) f (db_ops d)) = (if j = k then Some (f x) else find_by o_id j (db_ops d))"
  using update_one(1) [OF ops_okD(1) [OF assms(1)] assms(2), where hit = "\<lambda>z. o_id z = k" and f = f and j = j]
    find_by_SomeD [OF assms(2)] only_row [OF assms(1,2)] assms(3) by simp

text \<open>What reconciling one operation leaves: its state is what the provider answered, and the other operations are as they were.\<close>

definition resolved :: "db \<Rightarrow> ID \<Rightarrow> operation_state \<Rightarrow> db \<Rightarrow> bool" where
  "resolved d k st d' \<longleftrightarrow> (\<exists>x. find_by o_id k (db_ops d') = Some x \<and> o_state x = st) \<and> db_slots d' = db_slots d \<and>
     (\<forall>j. j \<noteq> k \<longrightarrow> find_by o_id j (db_ops d') = find_by o_id j (db_ops d))"

lemma leave_unknown_total:
  assumes "ops_ok d" and "find_by o_id k (db_ops d) = Some x" "in_doubt x" "o_reservation x \<noteq> []"
    and "NewID ''event'' (rnd E 0) \<notin> event_ids d"
  shows "\<exists>d'. leave_unknown E k d = (d', Inl ErrOutcomeUnknown) \<and> resolved d k OperationOutcomeUnknown d' \<and>
    event_ids d' = insert (NewID ''event'' (rnd E 0)) (event_ids d)"
  using mark_total [OF assms] find_update_op [OF assms(1,2), of unknown_op] by (auto simp: leave_unknown_def resolved_def)

lemma settle_total:
  assumes ok: "ops_ok d" and x: "find_by o_id k (db_ops d) = Some x" "in_doubt x" "o_reservation x \<noteq> []"
    and out: "confirmed (out_state out)" "0 \<le> out_cost out" and new: "NewID ''event'' (rnd E 0) \<notin> event_ids d"
  shows "\<exists>d' y. SettleOutcomeAt E k out d = (d', Inr y) \<and> resolved d k (out_state out) d' \<and>
    event_ids d' = insert (NewID ''event'' (rnd E 0)) (event_ids d)"
proof -
  let ?f = "\<lambda>y. y\<lparr>o_state := out_state out, o_reference := trim_space (out_reference out), o_reconcile := False,
    o_cost := Some (out_cost out), o_settled := Some (clk E 0)\<rparr>"
  obtain r where r: "find_by r_id (o_reservation x) (db_reservations d) = Some r"
    "r_state r = (if o_state x = OperationDispatched then ReservationHeld else ReservationUnresolved)"
    using op_reservation [OF ok x(1,2)] .
  then have "live r" by (simp add: live_def)
  then obtain d1 where d1: "SettleInTx (clk E 1) (o_reservation x) (out_cost out) d = Inr d1"
    using r(1) x(3) out(2) SettleInTx_Inr [of "clk E 1" "o_reservation x" "out_cost out" d] by auto
  then have same: "db_ops d1 = db_ops d" "db_slots d1 = db_slots d" "event_ids d1 = event_ids d"
    by (auto simp: SettleInTx_Inr set_reservation_tables)
  let ?d2 = "set_op (\<lambda>y. o_id y = k) ?f d1"
  obtain v where v: "ev_id v = NewID ''event'' (rnd E 0)"
    "appendOperationEvent (rnd E 0) ''OPERATION_OUTCOME_SETTLED'' x (clk E 0) ?d2 = Inr (?d2\<lparr>db_events := db_events ?d2 @ [v]\<rparr>)"
    using op_event_fresh [of "rnd E 0" ?d2 "''OPERATION_OUTCOME_SETTLED''" x "clk E 0"] new same(3) unfolding event_ids_tables by blast
  have "o_state x \<noteq> out_state out" using x(2) out(1) by (auto simp: in_doubt_def confirmed_def)
  then have tx: "SettleOutcomeInTx (clk E 0) (clk E 1) (rnd E 0) k out d = Inr (?f x, ?d2\<lparr>db_events := db_events ?d2 @ [v]\<rparr>)"
    using x d1 v by (auto simp: SettleOutcomeInTx_def loadOperation_def bindE_def Let_def in_doubt_def)
  then have "SettleOutcomeAt E k out d = (?d2\<lparr>db_events := db_events ?d2 @ [v]\<rparr>, Inr (?f x))"
    using out by (simp add: SettleOutcomeAt_def SettleOutcome_def with_tx_Inr_iff)
  then show ?thesis
    using same v(1) find_update_op [OF ok x(1), of ?f]
    by (intro exI [of _ "?d2\<lparr>db_events := db_events ?d2 @ [v]\<rparr>"] exI [of _ "?f x"]) (simp add: set_op_tables resolved_def)
qed

lemma lookup_total:
  assumes ok: "ops_ok d" and x: "find_by o_id k (db_ops d) = Some x" "o_state x = OperationOutcomeUnknown" "o_reservation x \<noteq> []"
    and p: "providerFor S (o_provider x) = Inr p" and s: "find_by s_id (o_slot x) (db_slots d) = Some s"
    and new: "NewID ''event'' (rnd E 10) \<notin> event_ids d" "NewID ''event'' (rnd E 20) \<notin> event_ids d" and pay: "payable lookup"
  shows "\<exists>d' r. lookup_outcome S E lookup x d = (d', r) \<and> ((\<exists>y. r = Inr y) \<or> r = Inl ErrOutcomeUnknown) \<and>
    resolved d k (answered lookup (request_of x s)) d' \<and> event_ids d' \<subseteq> event_ids d \<union> draws E"
proof -
  have id: "o_id x = k" using find_by_SomeD [OF x(1)] by simp
  have doubt: "in_doubt x" using x(2) by (simp add: in_doubt_def)
  have request: "providerRequest k d = Inr (request_of x s)" using x(1) s by (simp add: providerRequest_def)
  have site: "rnd (site E 1) 0 = rnd E 10" "rnd (site E 2) 0 = rnd E 20" by (simp_all add: site_def)
  have draws: "NewID ''event'' (rnd E 10) \<in> draws E" "NewID ''event'' (rnd E 20) \<in> draws E" by (simp_all add: draws_def)
  have unknown: "\<exists>d'. leave_unknown (site E 1) k d = (d', Inl ErrOutcomeUnknown) \<and> resolved d k OperationOutcomeUnknown d' \<and>
    event_ids d' \<subseteq> event_ids d \<union> draws E"
    using leave_unknown_total [OF ok x(1) doubt x(3), of "site E 1"] new(1) draws unfolding site by auto
  show ?thesis
  proof (cases "lookup (request_of x s)")
    case (Inl e)
    then show ?thesis using unknown by (auto simp: lookup_outcome_def p request id bindE_def answered_def)
  next
    case (Inr out)
    consider "out_state out = OperationOutcomeUnknown" | "out_state out \<noteq> OperationOutcomeUnknown" "\<not> confirmed (out_state out)"
      | "confirmed (out_state out)" by blast
    then show ?thesis
    proof cases
      case 1
      then show ?thesis using unknown Inr by (auto simp: lookup_outcome_def p request id bindE_def answered_def confirmed_def)
    next
      case 2
      then show ?thesis using Inr x by (auto simp: lookup_outcome_def p request id bindE_def answered_def resolved_def)
    next
      case 3
      then have "0 \<le> out_cost out" using pay Inr by (auto simp: payable_def)
      from settle_total [OF ok x(1) doubt x(3) 3 this, of "site E 2"] new(2) draws obtain d' y where
        "SettleOutcomeAt (site E 2) k out d = (d', Inr y)" "resolved d k (out_state out) d'" "event_ids d' \<subseteq> event_ids d \<union> draws E"
        unfolding site by auto
      moreover have "out_state out \<noteq> OperationOutcomeUnknown" using 3 by (auto simp: confirmed_def)
      ultimately show ?thesis using 3 Inr by (auto simp: lookup_outcome_def p request id bindE_def answered_def)
    qed
  qed
qed

lemma reconcile_total:
  assumes ok: "ops_ok d" and x: "find_by o_id k (db_ops d) = Some x" "in_doubt x" "o_reservation x \<noteq> []"
    and p: "providerFor S (o_provider x) = Inr p" and s: "find_by s_id (o_slot x) (db_slots d) = Some s"
    and new: "draws E \<inter> event_ids d = {}" "inj_on (rnd E) {0, 10, 20}" and pay: "payable lookup"
  shows "\<exists>d' r. reconcile S E lookup k d = (d', r) \<and> ((\<exists>y. r = Inr y) \<or> r = Inl ErrOutcomeUnknown) \<and>
    resolved d k (answered lookup (request_of x s)) d' \<and> event_ids d' \<subseteq> event_ids d \<union> draws E"
proof -
  have fresh: "NewID ''event'' (rnd E 0) \<notin> event_ids d" "NewID ''event'' (rnd E 10) \<notin> event_ids d" "NewID ''event'' (rnd E 20) \<notin> event_ids d"
    using new(1) by (auto simp: draws_def)
  show ?thesis
  proof (cases "o_state x = OperationOutcomeUnknown")
    case True
    then show ?thesis using lookup_total [OF ok x(1) True x(3) p s fresh(2,3) pay] x(1) by (simp add: reconcile_def loadOperation_def)
  next
    case False
    then have st: "o_state x = OperationDispatched" using x(2) by (simp add: in_doubt_def)
    obtain d1 where d1: "markUnknownAt E k d = (d1, Inr (unknown_op x))" "ops_ok d1" "db_slots d1 = db_slots d"
      "db_ops d1 = update_where (\<lambda>z. o_id z = k) unknown_op (db_ops d)" "event_ids d1 = insert (NewID ''event'' (rnd E 0)) (event_ids d)"
      using mark_total [OF ok x fresh(1)] by blast
    have found: "find_by o_id j (db_ops d1) = (if j = k then Some (unknown_op x) else find_by o_id j (db_ops d))" for j
      unfolding d1(4) by (rule find_update_op [OF ok x(1)]) simp
    have "NewID ''event'' (rnd E 10) \<noteq> NewID ''event'' (rnd E 0)" "NewID ''event'' (rnd E 20) \<noteq> NewID ''event'' (rnd E 0)"
      using new(2) by (auto simp: NewID_def inj_on_def)
    then have "\<exists>d' r. lookup_outcome S E lookup (unknown_op x) d1 = (d', r) \<and> ((\<exists>y. r = Inr y) \<or> r = Inl ErrOutcomeUnknown) \<and>
      resolved d1 k (answered lookup (request_of (unknown_op x) s)) d' \<and> event_ids d' \<subseteq> event_ids d1 \<union> draws E"
      using found [of k] x(3) p s d1(3,5) fresh(2,3) by (intro lookup_total [OF d1(2) _ _ _ _ _ _ _ pay, where p = p]) simp_all
    moreover have "NewID ''event'' (rnd E 0) \<in> draws E" by (simp add: draws_def)
    ultimately show ?thesis
      using x(1) st d1 found by (auto simp: reconcile_def loadOperation_def resolved_def request_of_def)
  qed
qed

lemma reconcile_all_in_flight:
  "effects_ok (d, sent) \<Longrightarrow> reconcile_all S E lookup ks d = (d', Inr ()) \<Longrightarrow> in_flight d' \<subseteq> in_flight d - set ks"
proof (induction ks arbitrary: d)
  case (Cons k ks)
  obtain d1 r where one: "reconcile S (E k) lookup k d = (d1, r)" by (cases "reconcile S (E k) lookup k d")
  have ok: "ops_ok d" "effects_ok (d1, sent)"
    using Cons.prems(1) reconcile_ok [OF Cons.prems(1), of S "E k" lookup k] one by (simp_all add: effects_ok_def)
  have rest: "reconcile_all S E lookup ks d1 = (d', Inr ())" and r: "(\<exists>x. r = Inr x) \<or> r = Inl ErrOutcomeUnknown"
    using Cons.prems(2) one by (auto split: sum.splits if_splits)
  from r reconcile_in_flight [OF ok(1) one] Cons.IH [OF ok(2) rest] show ?case by auto
qed simp

definition recoverable :: "Service \<Rightarrow> (ID \<Rightarrow> env) \<Rightarrow> db \<Rightarrow> ID list \<Rightarrow> bool" where
  "recoverable S E d ks \<longleftrightarrow>
     (\<forall>k \<in> set ks. (\<exists>x p. find_by o_id k (db_ops d) = Some x \<and> in_doubt x \<and> o_reservation x \<noteq> [] \<and> providerFor S (o_provider x) = Inr p) \<and>
        draws (E k) \<inter> event_ids d = {} \<and> inj_on (rnd (E k)) {0, 10, 20} \<and>
        (\<forall>j \<in> set ks. j \<noteq> k \<longrightarrow> draws (E j) \<inter> draws (E k) = {}))"

lemma reconcile_all_total:
  assumes "effects_ok (d, sent)" and "distinct ks" and "recoverable S E d ks" and "payable lookup"
  shows "\<exists>d'. reconcile_all S E lookup ks d = (d', Inr ()) \<and> db_slots d' = db_slots d \<and>
    (\<forall>j. j \<notin> set ks \<longrightarrow> find_by o_id j (db_ops d') = find_by o_id j (db_ops d)) \<and>
    (\<forall>k \<in> set ks. \<forall>x s. find_by o_id k (db_ops d) = Some x \<and> find_by s_id (o_slot x) (db_slots d) = Some s \<longrightarrow>
      (\<exists>x'. find_by o_id k (db_ops d') = Some x' \<and> o_state x' = answered lookup (request_of x s)))"
  using assms(1-3)
proof (induction ks arbitrary: d)
  case (Cons k ks)
  have ok: "ops_ok d" using Cons.prems(1) by (simp add: effects_ok_def)
  obtain x p where x: "find_by o_id k (db_ops d) = Some x" "in_doubt x" "o_reservation x \<noteq> []" "providerFor S (o_provider x) = Inr p"
    and new: "draws (E k) \<inter> event_ids d = {}" "inj_on (rnd (E k)) {0, 10, 20}"
    using Cons.prems(3) unfolding recoverable_def by auto
  obtain s where s: "find_by s_id (o_slot x) (db_slots d) = Some s"
    using ops_okD(8) [OF ok] find_by_SomeD [OF x(1)] unfolding slotted_ok_iff by blast
  obtain d1 r where one: "reconcile S (E k) lookup k d = (d1, r)" "(\<exists>y. r = Inr y) \<or> r = Inl ErrOutcomeUnknown"
    and left: "resolved d k (answered lookup (request_of x s)) d1" "event_ids d1 \<subseteq> event_ids d \<union> draws (E k)"
    using reconcile_total [OF ok x s new assms(4)] by blast
  have ok1: "effects_ok (d1, sent)" using reconcile_ok [OF Cons.prems(1), of S "E k" lookup k] one(1) by simp
  have k: "k \<notin> set ks" "distinct ks" using Cons.prems(2) by auto
  have same: "find_by o_id j (db_ops d1) = find_by o_id j (db_ops d)" if "j \<noteq> k" for j using left(1) that by (simp add: resolved_def)
  have "recoverable S E d1 ks"
    unfolding recoverable_def
  proof (intro ballI conjI impI)
    fix j assume j: "j \<in> set ks"
    then have jk: "j \<noteq> k" using k(1) by blast
    show "\<exists>x p. find_by o_id j (db_ops d1) = Some x \<and> in_doubt x \<and> o_reservation x \<noteq> [] \<and> providerFor S (o_provider x) = Inr p"
      using Cons.prems(3) j unfolding recoverable_def same [OF jk] by simp
    show "inj_on (rnd (E j)) {0, 10, 20}" using Cons.prems(3) j unfolding recoverable_def by simp
    have "draws (E k) \<inter> draws (E j) = {}" "draws (E j) \<inter> event_ids d = {}"
      using Cons.prems(3) j jk unfolding recoverable_def by auto
    then show "draws (E j) \<inter> event_ids d1 = {}" using left(2) by blast
    show "draws (E i) \<inter> draws (E j) = {}" if "i \<in> set ks" "i \<noteq> j" for i
      using Cons.prems(3) j that unfolding recoverable_def by simp
  qed
  from Cons.IH [OF ok1 k(2) this] obtain d' where rest: "reconcile_all S E lookup ks d1 = (d', Inr ())" "db_slots d' = db_slots d1"
    "\<forall>j. j \<notin> set ks \<longrightarrow> find_by o_id j (db_ops d') = find_by o_id j (db_ops d1)"
    and settled: "\<forall>j \<in> set ks. \<forall>x s. find_by o_id j (db_ops d1) = Some x \<and> find_by s_id (o_slot x) (db_slots d1) = Some s \<longrightarrow>
      (\<exists>x'. find_by o_id j (db_ops d') = Some x' \<and> o_state x' = answered lookup (request_of x s))" by blast
  have slots: "db_slots d1 = db_slots d" using left(1) by (simp add: resolved_def)
  have "reconcile_all S E lookup (k # ks) d = (d', Inr ())" using one rest(1) by auto
  moreover have "\<exists>x'. find_by o_id k (db_ops d') = Some x' \<and> o_state x' = answered lookup (request_of x s)"
    using left(1) rest(3) k(1) by (auto simp: resolved_def)
  moreover have "\<forall>j \<in> set ks. \<forall>x s. find_by o_id j (db_ops d) = Some x \<and> find_by s_id (o_slot x) (db_slots d) = Some s \<longrightarrow>
      (\<exists>x'. find_by o_id j (db_ops d') = Some x' \<and> o_state x' = answered lookup (request_of x s))"
    using settled k(1) same unfolding slots by metis
  ultimately show ?case using rest(2,3) slots x(1) s same by (intro exI [of _ d']) auto
qed simp

lemma pending_iff: "ops_ok d \<Longrightarrow> k \<in> set (pending_operations d) \<longleftrightarrow>
    (\<exists>x. find_by o_id k (db_ops d) = Some x \<and> (o_state x = OperationDispatched \<or> o_state x = OperationOutcomeUnknown \<and> o_reconcile x))"
proof -
  assume ok: "ops_ok d"
  have "set (pending_operations d) = o_id ` {z \<in> set (db_ops d). o_state z = OperationDispatched \<or> o_state z = OperationOutcomeUnknown \<and> o_reconcile z}"
    unfolding pending_operations_def set_map set_sort set_filter by simp
  then show ?thesis using find_by_member [OF ops_okD(1) [OF ok]] find_by_SomeD by fastforce
qed

lemma pending_distinct: "ops_ok d \<Longrightarrow> distinct (pending_operations d)"
  using ops_okD(1) [of d] by (simp add: pending_operations_def distinct_map inj_on_def)

text \<open>
  C5. After a crash nothing stays in the dark. Every operation keeps its identity through the recovery, and none goes back in its life.
  If what the recovery draws is new, the providers of the pending operations are registered and no answer confirms an outcome at a
  negative cost, then the recovery returns without an error: no operation of the store is DISPATCHED any more, and each operation that
  was DISPATCHED, or UNKNOWN and to be reconciled, has the outcome that its provider confirms for its request, or is UNKNOWN when
  the provider does not answer or confirms nothing. In any case, where it returns without an error nothing is DISPATCHED.
\<close>

theorem recovery_resolves_dispatched:
  assumes "effects_ok (d, sent)" and "ReconcilePending S E lookup d = (d', r)"
  shows "effects_ok (d', sent) \<and> effect_run (d, sent) (d', sent) \<and>
    (\<forall>k x. find_by o_id k (db_ops d) = Some x \<longrightarrow> (\<exists>x'. find_by o_id k (db_ops d') = Some x' \<and> later_op x x')) \<and>
    (r = Inr () \<longrightarrow> (\<forall>x \<in> set (db_ops d'). o_state x \<noteq> OperationDispatched)) \<and>
    (recoverable S E d (pending_operations d) \<and> payable lookup \<longrightarrow> r = Inr () \<and>
       (\<forall>k x s. find_by o_id k (db_ops d) = Some x \<and> find_by s_id (o_slot x) (db_slots d) = Some s \<and>
          (o_state x = OperationDispatched \<or> o_state x = OperationOutcomeUnknown \<and> o_reconcile x) \<longrightarrow>
          (\<exists>x'. find_by o_id k (db_ops d') = Some x' \<and> o_state x' = (case lookup (request_of x s) of
             Inr out \<Rightarrow> if confirmed (out_state out) then out_state out else OperationOutcomeUnknown
           | Inl e \<Rightarrow> OperationOutcomeUnknown))))"
proof -
  have run: "effect_run (d, sent) (d', sent)"
    using reconcile_all_run [of d sent S E lookup "pending_operations d"] assms(2) by (simp add: ReconcilePending_def)
  have ok: "ops_ok d" using assms(1) by (simp add: effects_ok_def)
  note le = effect_run_le [OF run assms(1)]
  have "o_state x \<noteq> OperationDispatched" if r: "r = Inr ()" and x: "x \<in> set (db_ops d')" for x
  proof
    assume "o_state x = OperationDispatched"
    moreover have "find_by o_id (o_id x) (db_ops d') = Some x"
      using find_by_member [OF ops_okD(1) x] le by (simp add: effects_ok_def)
    ultimately have "o_id x \<in> in_flight d'" by (simp add: in_flight_def)
    then have "o_id x \<in> in_flight d" "o_id x \<notin> set (pending_operations d)"
      using reconcile_all_in_flight [OF assms(1), of S E lookup "pending_operations d" d'] assms(2) r
      by (auto simp: ReconcilePending_def)
    then show False using pending_iff [OF ok] by (auto simp: in_flight_def)
  qed
  then have flight: "r = Inr () \<longrightarrow> (\<forall>x \<in> set (db_ops d'). o_state x \<noteq> OperationDispatched)" by blast
  have able: "r = Inr () \<and> (\<forall>k x s. find_by o_id k (db_ops d) = Some x \<and> find_by s_id (o_slot x) (db_slots d) = Some s \<and>
      (o_state x = OperationDispatched \<or> o_state x = OperationOutcomeUnknown \<and> o_reconcile x) \<longrightarrow>
      (\<exists>x'. find_by o_id k (db_ops d') = Some x' \<and> o_state x' = answered lookup (request_of x s)))"
    if able: "recoverable S E d (pending_operations d)" "payable lookup"
    using reconcile_all_total [OF assms(1) pending_distinct [OF ok] able] assms(2) pending_iff [OF ok] unfolding ReconcilePending_def
    by (auto simp del: find_by_SomeD)
  have ids: "\<forall>k x. find_by o_id k (db_ops d) = Some x \<longrightarrow> (\<exists>x'. find_by o_id k (db_ops d') = Some x' \<and> later_op x x')"
    and ok': "effects_ok (d', sent)" using le by (simp_all add: ops_le_def)
  show ?thesis by (intro conjI ok' run ids flight impI able [unfolded answered_def]) simp_all
qed

definition demo_recovery_clock :: env where
  "demo_recovery_clock = \<lparr>clk = (\<lambda>_. 30), rnd = (\<lambda>i. replicate (Suc i) CHR ''z'')\<rparr>"

abbreviation demo_found :: answer where
  "demo_found \<equiv> (\<lambda>rq. Inr \<lparr>out_state = OperationConfirmedEffect, out_reference = ''ref'', out_cost = 3\<rparr>)"

lemma recovery_resolves_dispatched_witness:
  "\<exists>d' x. ReconcilePending demo_service (\<lambda>k. demo_recovery_clock) demo_found (fst demo_lost) = (d', Inr ()) \<and>
     find_by o_id ''operation_b'' (db_ops d') = Some x \<and> o_state x = OperationConfirmedEffect"
proof -
  have ok: "effects_ok (fst demo_lost, snd demo_lost)"
    using effects.reach_inv [OF demo_runs(2) demo_store_ok] by simp
  obtain d' r where run: "ReconcilePending demo_service (\<lambda>k. demo_recovery_clock) demo_found (fst demo_lost) = (d', r)"
    by (metis prod.collapse)
  have pending: "pending_operations (fst demo_lost) = [''operation_b'']" by code_simp
  obtain x s where x: "find_by o_id ''operation_b'' (db_ops (fst demo_lost)) = Some x" "o_state x = OperationOutcomeUnknown" "o_reconcile x"
      "o_reservation x \<noteq> []" "o_provider x = ''mail''" and s: "find_by s_id (o_slot x) (db_slots (fst demo_lost)) = Some s"
  proof -
    have "(case find_by o_id ''operation_b'' (db_ops (fst demo_lost)) of None \<Rightarrow> False
      | Some x \<Rightarrow> o_state x = OperationOutcomeUnknown \<and> o_reconcile x \<and> o_reservation x \<noteq> [] \<and> o_provider x = ''mail'' \<and>
          find_by s_id (o_slot x) (db_slots (fst demo_lost)) \<noteq> None)" by code_simp
    then show thesis using that by (auto split: option.splits)
  qed
  have "(case providerFor demo_service ''mail'' of Inl e \<Rightarrow> False | Inr p \<Rightarrow> True)" by code_simp
  then obtain p where p: "providerFor demo_service ''mail'' = Inr p" by (auto split: sum.splits)
  have "map ev_id (db_events (fst demo_lost)) = map ev_id (db_events (fst demo_lost)) \<and>
      list_all (\<lambda>v. ev_id v \<notin> set (map (\<lambda>n. NewID ''event'' (rnd demo_recovery_clock n)) [0, 10, 20])) (db_events (fst demo_lost))"
    by code_simp
  then have "draws demo_recovery_clock \<inter> event_ids (fst demo_lost) = {}" by (auto simp: draws_def event_ids_def list_all_iff)
  moreover have "inj_on (rnd demo_recovery_clock) {0, 10, 20}" by (simp add: demo_recovery_clock_def inj_on_def)
  ultimately have "recoverable demo_service (\<lambda>k. demo_recovery_clock) (fst demo_lost) (pending_operations (fst demo_lost))"
    using x p by (simp add: recoverable_def pending in_doubt_def)
  moreover have "payable demo_found" by (simp add: payable_def)
  ultimately show ?thesis using recovery_resolves_dispatched [OF ok run] x s run by (fastforce simp: confirmed_def)
qed


subsection \<open>Preparation of a slot\<close>

lemma prepare_plan_Inr:
  assumes "prepare_plan_of C S now q d = Inr P"
  obtains p t c gate where "validatePrepareRequest S q = Inr p" "controlForAttempt (qp_attempt q) d = Inr t"
    "0 < cp_exposure (pp_cost P)" "validateDecisionProvenance c now = Inr ()" "evaluatePrepareOutcome (pd_outcome c) = Inr gate"
    "pp_now P = now" "pp_provider P = p" "pp_decision P = c" "pp_task P = t_id t"
    "pp_callers P = normalizeApprovalIDs (qp_required q)"
    "(gate \<or> pp_callers P \<noteq> []) \<longrightarrow> requiredApproversFor c (pp_callers P) \<noteq> []"
  using assms unfolding prepare_plan_of_def bindE_Inr_iff requireE_Inr_iff Let_def
  by (auto simp del: not_Cons_self2)

lemma evaluatePrepareOutcome_Inr:
  "evaluatePrepareOutcome st = Inr gate \<longleftrightarrow> st = PolicyAllow \<and> \<not> gate \<or> st = PolicyRequireApproval \<and> gate"
  by (cases st) auto

lemma Prepare_Inr: "Prepare C S E q d = (d', Inr x) \<longleftrightarrow>
    (\<exists>P. prepare_plan_of C S (clk E 0) q d = Inr P \<and> prepareInTx C S E q P d = Inr (x, d'))"
  by (auto simp: Prepare_def with_tx_Inr_iff split: sum.split)

lemma validatePrepareRequest_key: "validatePrepareRequest S q = Inr p \<Longrightarrow> trim_space (qp_slot_key q) \<noteq> []"
  by (auto simp: validatePrepareRequest_def split: if_splits)

text \<open>
  C6. A slot binds one intent: a request for a slot that is bound to another provider, descriptor type or
  fingerprint is refused as a conflict and changes nothing; while the latest operation of the slot is
  DISPATCHED, UNKNOWN or confirmed to have had its effect, a request for the same intent returns that
  operation and changes nothing, whichever attempt asks.
\<close>

theorem slot_binds_one_intent:
  assumes "prepare_plan_of C S (clk E 0) q d = Inr P" and "prepare_guard E (qp_attempt q) P d = Inr (g, t)"
    and "find_by slot_key (sv_collective S, ga_task g, trim_space (qp_slot_key q)) (db_slots d) = Some s"
    and "ga_task g \<noteq> []" "pp_fingerprint P \<noteq> []" "pp_canonical P \<noteq> []"
  shows "if s_provider s \<noteq> pv_name (pp_provider P) \<or> s_descriptor s \<noteq> pp_type P \<or> s_fingerprint s \<noteq> pp_fingerprint P
    then Prepare C S E q d = (d, Inl ErrIntentConflict)
    else \<forall>x. loadLatestOperationForSlotTx (s_id s) d = Some x \<and> was_sent (o_state x) \<and> o_state x \<noteq> OperationConfirmedNoEffect \<longrightarrow>
       Prepare C S E q d = (d, Inr x)"
proof -
  obtain p where "validatePrepareRequest S q = Inr p" using assms(1) by (rule prepare_plan_Inr)
  then have key: "trim_space (qp_slot_key q) \<noteq> []" by (rule validatePrepareRequest_key)
  let ?conflict = "s_provider s \<noteq> pv_name (pp_provider P) \<or> s_descriptor s \<noteq> pp_type P \<or> s_fingerprint s \<noteq> pp_fingerprint P"
  have slot: "ResolveEffectSlot S (clk E 2) (rnd E 0) (ga_task g) (qp_slot_key q) (pp_provider P) (pp_type P)
      (pp_fingerprint P) (pp_canonical P) d = (if ?conflict then Inl ErrIntentConflict else Inr (s, d))"
    using key assms(3-6) by (simp add: ResolveEffectSlot_def)
  show ?thesis
  proof (cases ?conflict)
    case True
    then have "prepareInTx C S E q P d = Inl ErrIntentConflict"
      using slot assms(2) by (simp add: prepareInTx_def)
    with True assms(1) show ?thesis by (simp add: Prepare_def with_tx_def)
  next
    case False
    have "Prepare C S E q d = (d, Inr x)"
      if x: "loadLatestOperationForSlotTx (s_id s) d = Some x" "was_sent (o_state x)" "o_state x \<noteq> OperationConfirmedNoEffect" for x
    proof -
      have "previous_op C E (qp_attempt q) P s d = Inr (Some x, d)"
        using x by (cases "o_state x") (auto simp: previous_op_def was_sent_def confirmed_def)
      then have "prepareInTx C S E q P d = Inr (x, d)"
        using slot False assms(2) by (simp add: prepareInTx_def)
      with assms(1) show ?thesis by (simp add: Prepare_def with_tx_def)
    qed
    with False show ?thesis by simp
  qed
qed

text \<open>A store with one dispatched operation in the slot.\<close>

definition demo_bound_op :: operation where
  "demo_bound_op = \<lparr>o_id = ''o1'', o_task = ''task_1'', o_attempt = ''attempt_0'', o_slot = ''s1'', o_seq = 1,
     o_state = OperationDispatched, o_fingerprint = ''h'', o_revision = 1, o_provider = ''mail'', o_adapter = ''1'',
     o_reservation = ''r1'', o_risk = ''low'', o_prepare_decision = ([], [], [], []), o_approval = [], o_callers = [],
     o_dispatch_decision = None, o_claim = Some ''c1'', o_reference = [], o_cancel_requested = False,
     o_reconcile = False, o_cost = None, o_created = 1, o_dispatched = Some 2, o_settled = None\<rparr>"

definition demo_bound :: db where
  "demo_bound = demo_store\<lparr>db_slots := [\<lparr>s_id = ''s1'', s_collective = ''me'', s_task = ''task_1'', s_key = ''welcome'',
       s_provider = ''mail'', s_descriptor = ''send'', s_fingerprint = ''h'', s_revision = 1, s_canonical = ''hi'',
       s_adapter = ''1'', s_semantic = False, s_created = 1, s_updated = 1\<rparr>], db_ops := [demo_bound_op]\<rparr>"

definition demo_plan :: prepare_plan where
  "demo_plan = projr (prepare_plan_of demo_codes demo_service (clk demo_clock 0) (demo_effect []) demo_bound)"

lemma demo_plan_facts:
  "\<not> isl (prepare_plan_of demo_codes demo_service (clk demo_clock 0) (demo_effect []) demo_bound)"
  "(pv_name (pp_provider demo_plan), pp_type demo_plan, pp_fingerprint demo_plan, pp_canonical demo_plan) = (''mail'', ''send'', ''h'', ''hi'')"
  "\<not> isl (prepare_guard demo_clock ''attempt_1'' demo_plan demo_bound)"
  "ga_task (fst (projr (prepare_guard demo_clock ''attempt_1'' demo_plan demo_bound))) = ''task_1''"
  by code_simp+

lemma slot_binds_one_intent_witness:
  "Prepare demo_codes demo_service demo_clock (demo_effect []) demo_bound = (demo_bound, Inr demo_bound_op)"
proof -
  have P: "prepare_plan_of demo_codes demo_service (clk demo_clock 0) (demo_effect []) demo_bound = Inr demo_plan"
    using demo_plan_facts(1) by (simp add: demo_plan_def)
  obtain g t where g: "prepare_guard demo_clock ''attempt_1'' demo_plan demo_bound = Inr (g, t)"
    using demo_plan_facts(3) by (cases "prepare_guard demo_clock ''attempt_1'' demo_plan demo_bound") auto
  have task: "ga_task g = ''task_1''" using demo_plan_facts(4) g by simp
  have q: "qp_attempt (demo_effect []) = ''attempt_1''" "qp_slot_key (demo_effect []) = ''welcome''" "sv_collective demo_service = ''me''"
    by (simp_all add: demo_effect_def demo_service_def)
  have key: "trim_space ''welcome'' = ''welcome''" by code_simp
  have "find_by slot_key (sv_collective demo_service, ga_task g, trim_space (qp_slot_key (demo_effect []))) (db_slots demo_bound)
      = Some (hd (db_slots demo_bound))"
    by (simp add: q key task demo_bound_def find_by_Cons slot_key_def)
  from slot_binds_one_intent [OF P _ this] g task demo_plan_facts(2) show ?thesis
    by (simp add: q demo_bound_def loadLatestOperationForSlotTx_def slot_ops_def demo_bound_op_def)
qed

text \<open>
  What a new operation has passed: when \<open>Prepare\<close> creates an operation, the attempt passed the guard of
  its task, the task's authority and enforcement level cover the provider, the policy decision was ALLOW
  or REQUIRE_APPROVAL, complete, evaluated at this very moment and made by a policy set that is still
  active; the operation is PREPARED for that attempt and holds a positive amount of the task's envelope.
\<close>

theorem Prepare_gates:
  assumes "ops_ok d" and "approvals_ok d" and "Prepare C S E q d = (d', Inr x)" and "find_by o_id (o_id x) (db_ops d) = None"
  shows "o_state x = OperationPrepared \<and> o_attempt x = qp_attempt q \<and> find_by o_id (o_id x) (db_ops d') = Some x \<and>
    (\<exists>p g t c r. providerFor S (qp_provider q) = Inr p \<and> o_provider x = pv_name p \<and>
       GuardAttempt (clk E 1) (qp_attempt q) [TaskExecuting] d = Inr g \<and> o_task x = ga_task g \<and>
       find_by t_id (ga_task g) (db_tasks d) = Some t \<and> authority_covers p t \<and>
       (pd_outcome c = PolicyAllow \<or> pd_outcome c = PolicyRequireApproval) \<and>
       validateDecisionProvenance c (clk E 0) = Inr () \<and>
       profile_active (pd_set_id c) (pd_set_hash c) (pd_caps_hash c) d' \<and>
       find_by r_id (o_reservation x) (db_reservations d') = Some r \<and> r_state r = ReservationHeld \<and>
       r_envelope r = t_envelope t \<and> 0 < r_amount r)"
proof -
  obtain P where P: "prepare_plan_of C S (clk E 0) q d = Inr P" and run: "prepareInTx C S E q P d = Inr (x, d')"
    using assms(3) unfolding Prepare_Inr by blast
  obtain p c gate where plan: "validatePrepareRequest S q = Inr p" "validateDecisionProvenance c (clk E 0) = Inr ()"
    "evaluatePrepareOutcome (pd_outcome c) = Inr gate" "pp_provider P = p" "pp_decision P = c" "0 < cp_exposure (pp_cost P)"
    using P by (rule prepare_plan_Inr)
  have p: "providerFor S (qp_provider q) = Inr p" using plan(1) by (simp add: validatePrepareRequest_def split: if_splits)
  have outcome: "pd_outcome c = PolicyAllow \<or> pd_outcome c = PolicyRequireApproval"
    using plan(3) by (auto simp: evaluatePrepareOutcome_Inr)
  from run show ?thesis
  proof (cases rule: prepareInTx_Inr)
    case (1 g t s d1 d2)
    have "ops_next d d1" using ResolveEffectSlot_next [OF assms(1) 1(2)] .
    moreover have "db_ops d1 = db_ops d" using ResolveEffectSlot_Inr(8) [OF 1(2)] by auto
    ultimately have "x \<in> set (db_ops d)" using previous_op_Inr(8) [OF _ 1(3)] by (auto simp: ops_next_def)
    then have "find_by o_id (o_id x) (db_ops d) = Some x"
      using find_by_member ops_okD(1) [OF assms(1)] by metis
    with assms(4) show ?thesis by simp
  next
    case (2 g t s d1 d2)
    from 2(4) obtain r e1 n a e2 e3 where
      reserve: "ReserveInTx (clk E 3) (rnd E 1) (t_envelope t) (cp_exposure (pp_cost P)) (cp_enforceability (pp_cost P)) d2 = Inr (r, e1)"
      and appr: "prepareApprovalInTx C E (prepared_operation E q P (ga_task g) s (r_id r) n) (ga_expires g) (pp_decision P)
         (pp_callers P) (pp_provider P) (pp_type P) (pp_canonical P) e1 = Inr (a, e2)"
      and x: "x = (prepared_operation E q P (ga_task g) s (r_id r) n)\<lparr>o_approval := fst a, o_callers := snd a\<rparr>"
      and ins: "insert_operation x e2 = Inr e3"
      and ev: "appendOperationEvent (rnd E 4) ''OPERATION_PREPARED'' x (pp_now P) e3 = Inr d'"
      by (rule prepare_new_Inr)
    have kept: "find_by o_id (o_id x) (db_ops d') = Some x" using prepareInTx_kept [OF assms(1,2) run] by simp
    have e2: "approvals_ok e1 \<Longrightarrow> same_rest e1 e2" using prepareApprovalInTx_kept [OF _ appr] by blast
    have d1: "approvals_ok d1" using ResolveEffectSlot_Inr(8) [OF 2(2)] assms(2) by (auto simp: approvals_ok_def)
    have d2: "approvals_ok d2"
      using previous_op_Inr(5,6) [OF _ 2(3)] ResolveEffectSlot_next [OF assms(1) 2(2)] d1
      by (simp add: ops_next_def approvals_ok_cong [of d2 d1])
    have e1: "e1 = d2\<lparr>db_reservations := db_reservations d2 @ [r]\<rparr>" "r_id r \<notin> r_id ` set (db_reservations d2)"
      "r_state r = ReservationHeld" "r_envelope r = t_envelope t" "r_amount r = cp_exposure (pp_cost P)"
      using reserve by (auto simp: ReserveInTx_Inr)
    have "approvals_ok e1" using d2 by (simp add: e1(1) approvals_ok_cong [of "d2\<lparr>db_reservations := _\<rparr>" d2])
    note rest = same_rest_tables [OF e2 [OF this]] op_event_rest [OF ev]
    have e3: "e3 = e2\<lparr>db_ops := db_ops e2 @ [x]\<rparr>" "profile_active (pd_set_id c) (pd_set_hash c) (pd_caps_hash c) e2"
      using ins plan(5) by (auto simp: insert_operation_Inr x prepared_operation_def decision_source_def)
    have row: "find_by r_id (o_reservation x) (db_reservations d') = Some r"
      using e1(2) by (simp add: rest e3(1) e1(1) find_by_insert_new) (simp add: x prepared_operation_def)
    have active: "profile_active (pd_set_id c) (pd_set_hash c) (pd_caps_hash c) d'"
      using e3 by (simp add: profile_active_def rest)
    note guard = 2(1) [unfolded prepare_guard_Inr plan(4)]
    show ?thesis
      using kept p guard outcome plan(2) active row e1(3-5) plan(6) by (auto simp: x prepared_operation_def plan(4))
  qed
qed

lemma ok_result: "\<not> isl (snd p) \<Longrightarrow> \<exists>x. p = (fst p, Inr x)"
  by (cases p; cases "snd p") auto

lemma Prepare_gates_witness:
  "\<exists>x r. find_by o_id ''operation_b'' (db_ops demo_prepared) = Some x \<and>
     find_by r_id (o_reservation x) (db_reservations demo_prepared) = Some r \<and> 0 < r_amount r"
proof -
  have "map o_id (db_ops demo_store) = []" by code_simp
  then have ok: "ops_ok demo_store" "approvals_ok demo_store" "db_ops demo_store = []"
    using demo_store_ok by (simp_all add: effects_ok_def)
  have "\<not> isl (snd (Prepare demo_codes demo_service demo_clock (demo_effect []) demo_store))"
    "map o_id (db_ops demo_prepared) = [''operation_b'']" by code_simp+
  then obtain x where run: "Prepare demo_codes demo_service demo_clock (demo_effect []) demo_store = (demo_prepared, Inr x)"
    using ok_result [of "Prepare demo_codes demo_service demo_clock (demo_effect []) demo_store"]
    by (auto simp only: demo_prepared_def [symmetric])
  have "find_by o_id (o_id x) (db_ops demo_store) = None" using ok(3) by simp
  note gates = Prepare_gates [OF ok(1,2) run this]
  have "find_by o_id (o_id x) (db_ops demo_prepared) = Some x" using gates by (elim conjE)
  moreover obtain r where "find_by r_id (o_reservation x) (db_reservations demo_prepared) = Some r" "0 < r_amount r"
    using gates by (elim conjE exE) (rule that)
  moreover from calculation(1) have "o_id x = ''operation_b''"
    using \<open>map o_id (db_ops demo_prepared) = [''operation_b'']\<close> by (auto dest!: find_by_SomeD simp: map_eq_Cons_conv)
  ultimately show ?thesis by auto
qed

subsection \<open>Callers and requests\<close>

text \<open>An operation keeps the approvers its caller named, and a dispatch sends the request of its operation only.\<close>

lemma prepareApprovalInTx_callers:
  "prepareApprovalInTx C E x expiry c callers p dtype canonical d = Inr (a, d') \<Longrightarrow> snd a = normalizeApprovalIDs callers"
  by (auto simp: prepareApprovalInTx_def Let_def bind_simps split: if_splits)

lemma previous_op_callers:
  assumes "previous_op C E attempt P s d = Inr (Some x, d')" and "o_state x = OperationPrepared"
  shows "normalizeApprovalIDs (o_callers x) = normalizeApprovalIDs (pp_callers P)"
proof -
  have "x = y" if "loadLatestOperationForSlotTx (s_id s) d = Some y" for y
    using assms(1) that by (cases "o_state y") (auto simp: previous_op_def bind_simps split: if_splits)
  then have "loadLatestOperationForSlotTx (s_id s) d = Some x"
    using assms(1) by (cases "loadLatestOperationForSlotTx (s_id s) d") (auto simp: previous_op_def)
  with assms have "preparedApprovalMatchesInTx C x (pp_decision P) (pp_callers P) (pp_provider P) (pp_type P) (pp_canonical P) d = Inr True"
    by (auto simp: previous_op_def bind_simps split: if_splits)
  then have "approvalIDsEqual (o_callers x) (normalizeApprovalIDs (pp_callers P))"
    by (auto simp: preparedApprovalMatchesInTx_def Let_def split: if_splits)
  then show ?thesis by (simp add: approvalIDsEqual_def operation_ids.norm_id)
qed

lemma Prepare_callers:
  assumes run: "Prepare C S E q d = (d', Inr x)" and state: "o_state x = OperationPrepared"
  shows "normalizeApprovalIDs (o_callers x) = normalizeApprovalIDs (qp_required q)"
proof -
  obtain P where P: "prepare_plan_of C S (clk E 0) q d = Inr P" and tx: "prepareInTx C S E q P d = Inr (x, d')"
    using run unfolding Prepare_Inr by blast
  have callers: "pp_callers P = normalizeApprovalIDs (qp_required q)" using P by (rule prepare_plan_Inr)
  from tx show ?thesis
  proof (cases rule: prepareInTx_Inr)
    case (1 g t s d1 d2)
    from previous_op_callers [OF 1(3) state] show ?thesis by (simp add: callers operation_ids.norm_id)
  next
    case (2 g t s d1 d2)
    from 2(4) obtain y a d3 d4 where "prepareApprovalInTx C E y (ga_expires g) (pp_decision P) (pp_callers P) (pp_provider P) (pp_type P) (pp_canonical P) d3 = Inr (a, d4)"
      "x = y\<lparr>o_approval := fst a, o_callers := snd a\<rparr>"
      by (rule prepare_new_Inr) blast
    then show ?thesis using prepareApprovalInTx_callers by (simp add: callers operation_ids.norm_id)
  qed
qed

lemma Dispatch_sent:
  assumes run: "Dispatch C S E send lookup k a d = (d', rqs, r)" and rq: "rq \<in> set rqs"
  shows "rq_operation rq = k \<and> (\<exists>x. find_by o_id k (db_ops d) = Some x \<and> o_state x = OperationPrepared)"
proof -
  have ne: "k \<noteq> [] \<and> a \<noteq> []" using assms by (auto simp: Dispatch_def)
  then obtain x where x: "loadOperation k d = Inr x" using assms by (auto simp: Dispatch_def split: sum.splits)
  have prep: "o_state x = OperationPrepared" and go: "dispatch_prepared C S E send x a d = (d', rqs, r)"
    using assms ne x by (auto simp: Dispatch_def split: operation_state.splits if_splits sum.splits prod.splits)
  have row: "find_by o_id k (db_ops d) = Some x" "o_id x = k"
    using x find_by_SomeD [of o_id k "db_ops d" x] by (simp_all add: loadOperation_Inr)
  obtain P where P: "dispatch_plan_of S (clk E 0) x a d = Inr (P, True)"
    using go rq by (auto simp: dispatch_prepared_def split: sum.splits prod.splits if_splits)
  then have "dp_operation P = o_id x" by (rule dispatch_plan_Inr)
  moreover obtain d1 where "dispatchInTx C E P d = Inr (rq, d1)"
    using go rq P by (auto simp: dispatch_prepared_def with_tx_Inr_iff split: prod.splits sum.splits)
  then obtain y s where "dispatch_guard E P d = Inr (y, s)" "rq = request_of y s"
    by (auto simp: dispatchInTx_def elim!: bindE_InrE)
  moreover from this have "find_by o_id (dp_operation P) (db_ops d) = Some y" by (auto simp: dispatch_guard_Inr)
  ultimately show ?thesis using row prep by (auto simp: request_of_def dest: find_by_SomeD)
qed

end
