(* ===== verification/Worker.thy ===== *)
theory Worker
  imports Scheduler
begin

text \<open>
  The worker (\<open>internal/scheduler/worker.go\<close>): one step takes the next task, leases it, runs an executor
  on it and turns the answer into a completion or a failure. An executor is an interface and stays an
  argument; while it runs, the rest of the system goes on, so it also gives the store as it is when the
  executor answers. The workspace directory and the timeout of the context are not modelled.
\<close>

subsection \<open>Executors\<close>

record ExecutionResult =
  xr_exit :: int
  xr_stdout :: string
  xr_stderr :: string
  xr_evidence :: "(string \<times> string) list"

definition no_execution :: ExecutionResult where
  "no_execution = \<lparr>xr_exit = 0, xr_stdout = [], xr_stderr = [], xr_evidence = []\<rparr>"

record AttemptEnvelope =
  ae_task :: ID
  ae_attempt :: ID
  ae_objective :: string
  ae_payload :: string
  ae_criteria :: "string list"
  ae_capabilities :: "string list"
  ae_envelope :: ID

datatype executor_answer = Returned ExecutionResult "string option" | Panicked string

type_synonym executor = "AttemptEnvelope \<Rightarrow> evidence_store \<Rightarrow> evidence_store \<times> executor_answer"

definition runExecutor :: "executor \<Rightarrow> AttemptEnvelope \<Rightarrow> evidence_store \<Rightarrow> evidence_store \<times> ExecutionResult \<times> string option" where
  "runExecutor x envelope s =
     (case x envelope s of
        (s', Returned r e) \<Rightarrow> (s', r, e)
      | (s', Panicked m) \<Rightarrow> (s', no_execution, Some (''executor panic: '' @ m)))"

subsection \<open>The worker\<close>

datatype Outcome = StepIdle | StepCompleted | StepFailed

record StepResult =
  sr_outcome :: Outcome
  sr_task :: ID
  sr_attempt :: ID
  sr_evidence :: "ID list"

text \<open>The services the worker holds, and what the calls of one step read from the environment.\<close>

record worker =
  wk_executors :: "(string \<times> executor) list"
  wk_recorders :: "start_recorder list"
  wk_preference :: "preference option"
  wk_lease :: int
  wk_sha :: "string \<Rightarrow> string"
  wk_digest :: "ID list \<Rightarrow> string"

record step_env =
  sv_now :: gtime
  sv_capacity :: CapacitySnapshot
  sv_start :: env
  sv_put :: env
  sv_end :: env

text \<open>The registry after trimming; of two names that trim to the same one the later one in the iteration wins.\<close>

definition NewWorker :: "(string \<times> executor option) list \<Rightarrow> worker \<Rightarrow> worker res" where
  "NewWorker registry W =
     (let cleaned = fold (\<lambda>(kind, x) acc.
            case x of None \<Rightarrow> acc | Some f \<Rightarrow>
              if trim_space kind = [] then acc
              else (trim_space kind, f) # filter (\<lambda>p. fst p \<noteq> trim_space kind) acc) registry [] in
      if cleaned = [] then Inl (Err ''worker requires at least one executor'')
      else Inr (W\<lparr>wk_executors := cleaned\<rparr>))"

definition registryKinds :: "worker \<Rightarrow> string list" where
  "registryKinds W = sort (map fst (wk_executors W))"

definition evidence_blobs :: "ExecutionResult \<Rightarrow> (string \<times> string) list" where
  "evidence_blobs r =
     (if xr_stdout r \<noteq> [] then [(xr_stdout r, ''STDOUT'')] else []) @
     (if xr_stderr r \<noteq> [] then [(xr_stderr r, ''STDERR'')] else []) @
     map (\<lambda>(kind, content). (content, kind)) (filter (\<lambda>(kind, content). content \<noteq> []) (xr_evidence r))"

fun put_all :: "(string \<Rightarrow> string) \<Rightarrow> env \<Rightarrow> nat \<Rightarrow> (string \<times> string) list \<Rightarrow> evidence_store \<Rightarrow> evidence_store \<times> ID list res" where
  "put_all sha E i [] s = (s, Inr [])"
| "put_all sha E i ((content, kind) # bs) s =
     (case Put sha (clk E i) (rnd E i) content ''text/plain'' kind s of
        (s', Inl e) \<Rightarrow> (s', Inl e)
      | (s', Inr r) \<Rightarrow>
          (case put_all sha E (Suc i) bs s' of
             (s'', Inl e) \<Rightarrow> (s'', Inl e)
           | (s'', Inr ids) \<Rightarrow> (s'', Inr (evi_id r # ids))))"

definition persistEvidence :: "(string \<Rightarrow> string) \<Rightarrow> env \<Rightarrow> ExecutionResult \<Rightarrow> evidence_store \<Rightarrow> evidence_store \<times> ID list res" where
  "persistEvidence sha E outcome s = put_all sha E 0 (evidence_blobs outcome) s"

text \<open>An attempt that lost its lease meanwhile is a failed step, not an error of the worker.\<close>

definition superseded :: "go_error \<Rightarrow> bool" where
  "superseded e \<longleftrightarrow> e = ErrStaleAttempt \<or> e = ErrLeaseInactive"

definition failure_signature :: "string \<Rightarrow> ID \<Rightarrow> string option \<Rightarrow> string" where
  "failure_signature kind task_id err =
     (case err of
        None \<Rightarrow> ''worker:'' @ kind @ '':'' @ task_id
      | Some m \<Rightarrow> if take 15 m = ''executor panic:'' then ''worker:panic:'' @ kind @ '':'' @ task_id
                  else ''worker:'' @ kind @ '':'' @ task_id)"

definition failExecution ::
  "worker \<Rightarrow> step_env \<Rightarrow> string \<Rightarrow> task \<Rightarrow> ID \<Rightarrow> ExecutionResult \<Rightarrow> string option \<Rightarrow> evidence_store \<Rightarrow>
   evidence_store \<times> StepResult res" where
  "failExecution W V kind t attempt_id outcome err s =
     (case persistEvidence (wk_sha W) (sv_put V) outcome s of
        (s', Inl e) \<Rightarrow> (s', Inl e)
      | (s', Inr ids) \<Rightarrow>
          let failed = \<lparr>sr_outcome = StepFailed, sr_task = t_id t, sr_attempt = attempt_id, sr_evidence = ids\<rparr> in
          (case FailAttempt (sv_end V) attempt_id FailureExecution (failure_signature kind (t_id t) err) ids (es_db s') of
             (d, Inl e) \<Rightarrow> (s'\<lparr>es_db := d\<rparr>, if superseded e then Inr failed else Inl e)
           | (d, Inr u) \<Rightarrow> (s'\<lparr>es_db := d\<rparr>, Inr failed)))"

definition completeExecution ::
  "worker \<Rightarrow> step_env \<Rightarrow> string \<Rightarrow> task \<Rightarrow> ID \<Rightarrow> ExecutionResult \<Rightarrow> evidence_store \<Rightarrow> evidence_store \<times> StepResult res" where
  "completeExecution W V kind t attempt_id outcome s =
     (case persistEvidence (wk_sha W) (sv_put V) outcome s of
        (s', Inl e) \<Rightarrow> (s', Inl e)
      | (s', Inr ids) \<Rightarrow>
          if ids = [] then failExecution W V kind t attempt_id outcome (Some ''executor returned no evidence'') s'
          else
            let res = \<lparr>sr_outcome = StepFailed, sr_task = t_id t, sr_attempt = attempt_id, sr_evidence = ids\<rparr> in
            (case CompleteAttempt (wk_digest W) (sv_end V) attempt_id ids (es_db s') of
               (d, Inl e) \<Rightarrow> (s'\<lparr>es_db := d\<rparr>, if superseded e then Inr res else Inl e)
             | (d, Inr u) \<Rightarrow> (s'\<lparr>es_db := d\<rparr>, Inr (res\<lparr>sr_outcome := StepCompleted\<rparr>))))"

definition envelope_of :: "task \<Rightarrow> ID \<Rightarrow> AttemptEnvelope" where
  "envelope_of t attempt_id = \<lparr>ae_task = t_id t, ae_attempt = attempt_id, ae_objective = t_objective t,
     ae_payload = t_payload t, ae_criteria = t_criteria t, ae_capabilities = t_capabilities t,
     ae_envelope = t_envelope t\<rparr>"

definition executeAttempt ::
  "worker \<Rightarrow> step_env \<Rightarrow> executor \<Rightarrow> string \<Rightarrow> task \<Rightarrow> ID \<Rightarrow> evidence_store \<Rightarrow> evidence_store \<times> StepResult res" where
  "executeAttempt W V x kind t attempt_id s =
     (case runExecutor x (envelope_of t attempt_id) s of
        (s', outcome, err) \<Rightarrow>
          if err \<noteq> None \<or> xr_exit outcome \<noteq> 0 then failExecution W V kind t attempt_id outcome err s'
          else completeExecution W V kind t attempt_id outcome s')"

definition StepOnce :: "worker \<Rightarrow> step_env \<Rightarrow> evidence_store \<Rightarrow> evidence_store \<times> StepResult res" where
  "StepOnce W V s =
     (case Next (sv_now V) (sv_capacity V) (es_db s) of
        Inl e \<Rightarrow> (s, Inl e)
      | Inr None \<Rightarrow> (s, Inr \<lparr>sr_outcome = StepIdle, sr_task = [], sr_attempt = [], sr_evidence = []\<rparr>)
      | Inr (Some c) \<Rightarrow>
          (case ChooseExecutor (wk_preference W) (tc_task c) (registryKinds W) of
             Inl e \<Rightarrow> (s, Inl e)
           | Inr kind \<Rightarrow>
               (case map_of (wk_executors W) kind of
                  None \<Rightarrow> (s, Inl (Err ''executor is not registered''))
                | Some x \<Rightarrow>
                    (case Lease (wk_recorders W) (sv_start V) (t_id (tc_task c)) kind (wk_lease W) (es_db s) of
                       (d, Inl e) \<Rightarrow> (s\<lparr>es_db := d\<rparr>, Inl e)
                     | (d, Inr a) \<Rightarrow> executeAttempt W V x kind (tc_task c) (a_id a) (s\<lparr>es_db := d\<rparr>)))))"

text \<open>\<open>Run\<close> polls: it makes a step at once and one at each tick, and stops at the first error.\<close>

fun run_steps :: "worker \<Rightarrow> step_env list \<Rightarrow> evidence_store \<Rightarrow> evidence_store \<times> unit res" where
  "run_steps W [] s = (s, Inr ())"
| "run_steps W (V # Vs) s =
     (case StepOnce W V s of
        (s', Inl e) \<Rightarrow> (s', Inl e)
      | (s', Inr r) \<Rightarrow> run_steps W Vs s')"

definition Run :: "worker \<Rightarrow> int \<Rightarrow> step_env \<Rightarrow> step_env list \<Rightarrow> evidence_store \<Rightarrow> evidence_store \<times> unit res" where
  "Run W interval V ticks s =
     (if interval \<le> 0 then (s, Inl (Err ''worker requires a positive poll interval''))
      else run_steps W (V # ticks) s)"

subsection \<open>What a step keeps\<close>

text \<open>Other services may work while an executor runs, as long as they are steps of a consistent store.\<close>

definition executor_ok :: "executor \<Rightarrow> bool" where
  "executor_ok x \<longleftrightarrow> (\<forall>envelope s. exec_ok (es_db s) \<longrightarrow> exec_next (es_db s) (es_db (fst (x envelope s))))"

definition worker_ok :: "worker \<Rightarrow> bool" where
  "worker_ok W \<longleftrightarrow> (\<forall>(kind, x) \<in> set (wk_executors W). executor_ok x)"

lemma Put_next: "exec_ok (es_db s) \<Longrightarrow> exec_next (es_db s) (es_db (fst (Put sha now rand content media kind s)))"
proof -
  assume ok: "exec_ok (es_db s)"
  obtain rows where "es_db (fst (Put sha now rand content media kind s)) = (es_db s)\<lparr>db_evidence := db_evidence (es_db s) @ rows\<rparr>"
    using Put_db by blast
  then show ?thesis
    using exec_next_cong [of "(es_db s)\<lparr>db_evidence := db_evidence (es_db s) @ rows\<rparr>" "es_db s"] exec_next_refl [OF ok] by simp
qed

lemma put_all_next:
  "exec_ok (es_db s) \<Longrightarrow> put_all sha E i bs s = (s', out) \<Longrightarrow> exec_next (es_db s) (es_db s')"
proof (induction sha E i bs s arbitrary: s' out rule: put_all.induct)
  case (2 sha E i content kind bs s)
  show ?case
  proof (cases "Put sha (clk E i) (rnd E i) content ''text/plain'' kind s")
    case (Pair s1 r1)
    then have step: "exec_next (es_db s) (es_db s1)" using Put_next [OF 2(2)] by (metis fst_conv)
    show ?thesis
    proof (cases r1)
      case (Inl e)
      then show ?thesis using step 2(3) Pair by simp
    next
      case (Inr r)
      obtain s2 out2 where rest: "put_all sha E (Suc i) bs s1 = (s2, out2)" by fastforce
      have "exec_ok (es_db s1)" using step by (simp add: exec_next_def)
      then have "exec_next (es_db s1) (es_db s2)"
        using 2(1) [OF Pair [symmetric] Inr _ rest] by blast
      moreover have "s' = s2" using 2(3) Pair Inr rest by (auto split: sum.splits)
      ultimately show ?thesis using exec_next_trans [OF step] by simp
    qed
  qed
qed (simp add: exec_next_refl)

lemma persistEvidence_next:
  "exec_ok (es_db s) \<Longrightarrow> persistEvidence sha E r s = (s', out) \<Longrightarrow> exec_next (es_db s) (es_db s')"
  unfolding persistEvidence_def by (rule put_all_next)

text \<open>Refused now is refused for good.\<close>

definition refused_from :: "gtime \<Rightarrow> ID \<Rightarrow> db \<Rightarrow> bool" where
  "refused_from now k d \<longleftrightarrow> (\<forall>now' allowed. now \<le> now' \<longrightarrow> (\<exists>e. GuardAttempt now' k allowed d = Inl e))"

lemma guard_refused_from:
  assumes "exec_ok d" and "GuardAttempt now k [TaskExecuting] d = Inl e"
  shows "refused_from now k d"
  unfolding refused_from_def
proof (intro allI impI)
  fix now' allowed
  assume le: "now \<le> now'"
  show "\<exists>e. GuardAttempt now' k allowed d = Inl e"
  proof (cases "GuardAttempt now' k allowed d")
    case (Inr g)
    with assms(1) obtain a t where "find_by a_id k (db_attempts d) = Some a" "find_by t_id (a_task a) (db_tasks d) = Some t"
      "a_id a = k" "t_attempt t = Some k" "a_fence a = t_fence t" "a_lease a = LeaseActive" "now' < a_expires a"
      "t_state t = TaskExecuting"
      by (rule GuardAttempt_row) metis
    with le assms(2) show ?thesis by (simp add: GuardAttempt_def)
  qed simp
qed

lemma FailAttempt_refuses:
  assumes ok: "exec_ok d" and run: "FailAttempt E k cls sig ids d = (d', out)"
    and out: "out = Inr u \<or> (\<exists>e. out = Inl e \<and> superseded e)"
  shows "exec_next d d' \<and> refused_from (clk E 1) k d'"
proof -
  have nxt: "exec_next d d'" using FailAttempt_ok [OF ok, of E k cls sig ids] run by simp
  from out show ?thesis
  proof (elim disjE exE conjE)
    assume "out = Inr u"
    with FailAttempt_success [OF ok, of E k cls sig ids d' u] run nxt show ?thesis
      by (auto simp: refused_from_def)
  next
    fix e
    assume e: "out = Inl e" "superseded e"
    then have "d' = d" "\<exists>e. GuardAttempt (clk E 1) k [TaskExecuting] d = Inl e"
      using run by (auto simp: FailAttempt_def WithGuardedAttempt_def with_tx_Inl_iff bind_simps superseded_def
          mapCanonicalInvariantError_def append_event_def insert_unique_Inl_iff split: if_splits)
    then show ?thesis using nxt guard_refused_from [OF ok] by blast
  qed
qed

lemma superseded_simps [simp]: "\<not> superseded (Err m)" "\<not> superseded (ErrConstraint m)"
  by (simp_all add: superseded_def)

lemma complete_body_error: "complete_body digest E k ids g d = Inl e \<Longrightarrow> \<not> superseded (mapCanonicalInvariantError e)"
proof -
  have evidence: "requireEvidence ks d = Inl e \<Longrightarrow> e = Err ''evidence not found''" for ks
    by (induction ks) (auto split: option.splits)
  assume "complete_body digest E k ids g d = Inl e"
  then have "e = Err ''evidence not found'' \<or> e = ErrConstraint ''UNIQUE''"
    unfolding complete_body_def Let_def
    by (auto simp: bind_simps insert_completion_def insert_verification_def append_event_def insert_unique_Inl_iff
        dest: evidence)
  then show ?thesis by (auto simp: superseded_def mapCanonicalInvariantError_def)
qed

lemma CompleteAttempt_refuses:
  assumes ok: "exec_ok d" and run: "CompleteAttempt digest E k ids d = (d', Inl e)" and e: "superseded e"
  shows "refused_from (clk E 1) k d'"
proof -
  have "d' = d" "\<exists>e. GuardAttempt (clk E 1) k [TaskExecuting] d = Inl e"
    using run e
    by (auto simp: CompleteAttempt_def WithGuardedAttempt_def with_tx_Inl_iff bind_simps split: if_splits dest: complete_body_error)
  then show ?thesis using guard_refused_from [OF ok] by blast
qed

lemma put_all_ids: "put_all sha E i bs s = (s', Inr ids) \<Longrightarrow> [] \<notin> set ids"
proof (induction sha E i bs s arbitrary: s' ids rule: put_all.induct)
  case (2 sha E i content kind bs s)
  then show ?case
    by (auto split: prod.splits sum.splits elim!: Put_Inr simp: evidence_row_of_def)
qed simp

lemma failExecution_next:
  assumes ok: "exec_ok (es_db s)" and run: "failExecution W V kind t k outcome err s = (s', out)"
  shows "exec_next (es_db s) (es_db s') \<and> (\<forall>r. out = Inr r \<longrightarrow> sr_outcome r = StepFailed \<and> sr_task r = t_id t \<and>
    sr_attempt r = k \<and> refused_from (clk (sv_end V) 1) k (es_db s'))"
proof (cases "persistEvidence (wk_sha W) (sv_put V) outcome s")
  case (Pair s1 p)
  then have step: "exec_next (es_db s) (es_db s1)" using persistEvidence_next [OF ok] by blast
  then have ok1: "exec_ok (es_db s1)" by (simp add: exec_next_def)
  show ?thesis
  proof (cases p)
    case (Inl e)
    with run Pair step show ?thesis by (auto simp: failExecution_def)
  next
    case (Inr ids)
    obtain d1 q where f: "FailAttempt (sv_end V) k FailureExecution (failure_signature kind (t_id t) err) ids (es_db s1) = (d1, q)"
      by fastforce
    have "exec_next (es_db s1) d1" using FailAttempt_ok [OF ok1] f by (metis fst_conv)
    then have "exec_next (es_db s) d1" using exec_next_trans [OF step] by blast
    moreover have "refused_from (clk (sv_end V) 1) k d1" if "q = Inr u \<or> (\<exists>e. q = Inl e \<and> superseded e)" for u
      using FailAttempt_refuses [OF ok1 f that] by blast
    ultimately show ?thesis
      using run Pair Inr f by (cases q) (auto simp: failExecution_def Let_def split: if_splits)
  qed
qed

text \<open>What a completed step leaves.\<close>

definition handed_over :: "StepResult \<Rightarrow> db \<Rightarrow> bool" where
  "handed_over r d \<longleftrightarrow> sr_evidence r \<noteq> [] \<and> set (sr_evidence r) \<subseteq> evi_id ` set (db_evidence d) \<and>
     (\<exists>t c. find_by t_id (sr_task r) (db_tasks d) = Some t \<and> t_state t = TaskAwaitingVerification \<and>
        t_attempt t = Some (sr_attempt r) \<and> c \<in> set (db_completions d) \<and> co_task c = sr_task r \<and>
        co_attempt c = sr_attempt r \<and> set (co_evidence c) = set (sr_evidence r))"

lemma CompleteAttempt_handed_over:
  assumes ok: "exec_ok d" and run: "CompleteAttempt digest E k ids d = (d', Inr u)" and ids: "[] \<notin> set ids"
    and a: "find_by a_id k (db_attempts d) = Some a" "a_task a = i" and r: "sr_task r = i" "sr_attempt r = k" "sr_evidence r = ids"
  shows "handed_over r d' \<and> refused_from now k d'"
proof -
  obtain g t c where g: "GuardAttempt (clk E 1) k [TaskExecuting] d = Inr g"
    and t: "find_by t_id (ga_task g) (db_tasks d') = Some t" "t_state t = TaskAwaitingVerification" "t_attempt t = Some k"
    and c: "db_completions d' = db_completions d @ [c]" "co_task c = ga_task g" "co_attempt c = k"
      "co_evidence c = normalizeIDs ids"
    and ev: "set ids - {[]} \<subseteq> evi_id ` set (db_evidence d)" "set ids - {[]} \<noteq> {}"
    and later: "\<forall>d2. exec_le d' d2 \<longrightarrow> (\<forall>now allowed. \<exists>e. GuardAttempt now k allowed d2 = Inl e) \<and>
       (\<forall>digest E evidence. \<exists>e. CompleteAttempt digest E k evidence d2 = (d2, Inl e))"
    using CompleteAttempt_success [OF ok run] by (elim exE conjE) (rule that)
  have "ga_task g = i" using g a by (auto simp: GuardAttempt_Inr)
  moreover have "set (normalizeIDs ids) = set ids"
    using evidence_ids.norm_set [of ids] ids by auto
  moreover have "db_evidence d' = db_evidence d"
    using run by (auto simp: CompleteAttempt_Inr elim!: complete_body_Inr simp: end_attempt_def)
  moreover have "ids \<noteq> []" "set ids \<subseteq> evi_id ` set (db_evidence d)" using ev ids by auto
  ultimately have "handed_over r d'"
    unfolding handed_over_def r using t c
    by (intro conjI exI [of _ t] exI [of _ c]) simp_all
  moreover have "refused_from now k d'"
    using later exec_le_refl unfolding refused_from_def by blast
  ultimately show ?thesis ..
qed

lemma completeExecution_next:
  assumes ok: "exec_ok (es_db s)" and run: "completeExecution W V kind t k outcome s = (s', out)"
    and a: "find_by a_id k (db_attempts (es_db s)) = Some a" "a_task a = t_id t"
  shows "exec_next (es_db s) (es_db s') \<and> (\<forall>r. out = Inr r \<longrightarrow> sr_task r = t_id t \<and> sr_attempt r = k \<and>
    (sr_outcome r = StepCompleted \<and> handed_over r (es_db s') \<or> sr_outcome r = StepFailed) \<and>
    refused_from (clk (sv_end V) 1) k (es_db s'))"
proof (cases "persistEvidence (wk_sha W) (sv_put V) outcome s")
  case (Pair s1 p)
  then have step: "exec_next (es_db s) (es_db s1)" using persistEvidence_next [OF ok] by blast
  then have ok1: "exec_ok (es_db s1)" and le1: "exec_le (es_db s) (es_db s1)" by (simp_all add: exec_next_def)
  show ?thesis
  proof (cases p)
    case (Inl e)
    with run Pair step show ?thesis by (auto simp: completeExecution_def)
  next
    case (Inr ids)
    note p = Pair [unfolded Inr]
    show ?thesis
    proof (cases "ids = []")
      case True
      then have fail: "failExecution W V kind t k outcome (Some ''executor returned no evidence'') s1 = (s', out)"
        using run p by (simp add: completeExecution_def)
      from failExecution_next [OF ok1 fail] exec_next_trans [OF step] show ?thesis by blast
    next
      case False
      let ?r = "\<lparr>sr_outcome = StepFailed, sr_task = t_id t, sr_attempt = k, sr_evidence = ids\<rparr>"
      obtain d1 q where c: "CompleteAttempt (wk_digest W) (sv_end V) k ids (es_db s1) = (d1, q)" by fastforce
      have "exec_next (es_db s1) d1" using CompleteAttempt_ok [OF ok1] c by (metis fst_conv)
      then have nxt: "exec_next (es_db s) d1" using exec_next_trans [OF step] by blast
      show ?thesis
      proof (cases q)
        case (Inl e)
        then have "superseded e \<Longrightarrow> refused_from (clk (sv_end V) 1) k d1"
          using CompleteAttempt_refuses [OF ok1] c by blast
        with run p c Inl False nxt show ?thesis
          by (auto simp: completeExecution_def Let_def split: if_splits)
      next
        case (Inr u)
        obtain a1 where a1: "find_by a_id k (db_attempts (es_db s1)) = Some a1" "a_task a1 = t_id t"
          using exec_le_attempt [OF le1 a(1)] a(2) same_attemptD by metis
        have "[] \<notin> set ids" using p put_all_ids by (auto simp: persistEvidence_def)
        from CompleteAttempt_handed_over [OF ok1 c [unfolded Inr] this a1, of "?r\<lparr>sr_outcome := StepCompleted\<rparr>"]
        have "handed_over (?r\<lparr>sr_outcome := StepCompleted\<rparr>) d1 \<and> refused_from (clk (sv_end V) 1) k d1"
          by simp
        moreover have "s' = s1\<lparr>es_db := d1\<rparr>" "out = Inr (?r\<lparr>sr_outcome := StepCompleted\<rparr>)"
          using run p c Inr False by (simp_all add: completeExecution_def Let_def)
        ultimately show ?thesis using nxt by simp
      qed
    qed
  qed
qed

lemma executeAttempt_next:
  assumes ok: "exec_ok (es_db s)" and x: "executor_ok x" and run: "executeAttempt W V x kind t k s = (s', out)"
    and a: "find_by a_id k (db_attempts (es_db s)) = Some a" "a_task a = t_id t"
  shows "exec_next (es_db s) (es_db s') \<and> (\<forall>r. out = Inr r \<longrightarrow> sr_task r = t_id t \<and> sr_attempt r = k \<and>
    (sr_outcome r = StepCompleted \<and> handed_over r (es_db s') \<or> sr_outcome r = StepFailed) \<and>
    refused_from (clk (sv_end V) 1) k (es_db s'))"
proof -
  obtain s1 outcome err where r: "runExecutor x (envelope_of t k) s = (s1, outcome, err)"
    by (cases "runExecutor x (envelope_of t k) s") auto
  then have "s1 = fst (x (envelope_of t k) s)"
    by (auto simp: runExecutor_def split: prod.splits executor_answer.splits)
  then have step: "exec_next (es_db s) (es_db s1)" using x ok by (simp add: executor_ok_def)
  then have ok1: "exec_ok (es_db s1)" and le1: "exec_le (es_db s) (es_db s1)" by (simp_all add: exec_next_def)
  obtain a1 where a1: "find_by a_id k (db_attempts (es_db s1)) = Some a1" "a_task a1 = t_id t"
    using exec_le_attempt [OF le1 a(1)] a(2) same_attemptD by metis
  show ?thesis
  proof (cases "err \<noteq> None \<or> xr_exit outcome \<noteq> 0")
    case True
    then have "failExecution W V kind t k outcome err s1 = (s', out)" using run r by (auto simp: executeAttempt_def)
    from failExecution_next [OF ok1 this] exec_next_trans [OF step] show ?thesis by blast
  next
    case False
    then have "completeExecution W V kind t k outcome s1 = (s', out)" using run r by (simp add: executeAttempt_def)
    from completeExecution_next [OF ok1 this a1] exec_next_trans [OF step] show ?thesis by blast
  qed
qed

lemma StepOnce_cases:
  assumes "StepOnce W V s = (s', out)"
  obtains (error) e where "out = Inl e" "s' = s"
  | (idle) "Next (sv_now V) (sv_capacity V) (es_db s) = Inr None" "s' = s"
      "out = Inr \<lparr>sr_outcome = StepIdle, sr_task = [], sr_attempt = [], sr_evidence = []\<rparr>"
  | (run) c kind x d a where "Next (sv_now V) (sv_capacity V) (es_db s) = Inr (Some c)"
      "(kind, x) \<in> set (wk_executors W)"
      "StartAttempt (wk_recorders W) (sv_start V) (t_id (tc_task c)) kind (wk_lease W) (es_db s) = (d, Inr a)"
      "executeAttempt W V x kind (tc_task c) (a_id a) (s\<lparr>es_db := d\<rparr>) = (s', out)"
proof -
  have lease: "d = es_db s" if "Lease R E i kind n (es_db s) = (d, Inl e)" for R E i kind n d e
    using that by (auto simp: Lease_def StartAttempt_def with_tx_Inl_iff Let_def split: if_splits)
  show thesis
    using assms unfolding StepOnce_def
    by (auto split: sum.splits option.splits prod.splits simp: Lease_def [symmetric] dest!: map_of_SomeD
        intro: error idle run [unfolded Lease_def [symmetric]] dest!: lease)
qed

lemma StepOnce_next:
  assumes ok: "exec_ok (es_db s)" and W: "worker_ok W" and run: "StepOnce W V s = (s', out)"
  shows "exec_next (es_db s) (es_db s') \<and> (\<forall>r. out = Inr r \<longrightarrow>
    (sr_outcome r = StepIdle \<and> Next (sv_now V) (sv_capacity V) (es_db s) = Inr None \<and> s' = s \<or>
     sr_outcome r \<noteq> StepIdle \<and>
     (\<exists>c. Next (sv_now V) (sv_capacity V) (es_db s) = Inr (Some c) \<and> sr_task r = t_id (tc_task c)) \<and>
     (sr_outcome r = StepCompleted \<longrightarrow> handed_over r (es_db s')) \<and>
     refused_from (clk (sv_end V) 1) (sr_attempt r) (es_db s')))"
  using run
proof (cases rule: StepOnce_cases)
  case (run c kind x d a)
  have step: "exec_next (es_db s) d" using StartAttempt_ok [OF ok] run(3) by (metis fst_conv)
  then have "exec_ok (es_db (s\<lparr>es_db := d\<rparr>))" by (simp add: exec_next_def)
  moreover have "executor_ok x" using W run(2) by (auto simp: worker_ok_def)
  moreover have "find_by a_id (a_id a) (db_attempts (es_db (s\<lparr>es_db := d\<rparr>))) = Some a" "a_task a = t_id (tc_task c)"
    using StartAttempt_success [OF ok run(3)] by simp_all
  ultimately have "exec_next (es_db (s\<lparr>es_db := d\<rparr>)) (es_db s') \<and> (\<forall>r. out = Inr r \<longrightarrow> sr_task r = t_id (tc_task c) \<and>
      sr_attempt r = a_id a \<and> (sr_outcome r = StepCompleted \<and> handed_over r (es_db s') \<or> sr_outcome r = StepFailed) \<and>
      refused_from (clk (sv_end V) 1) (a_id a) (es_db s'))"
    using run(4) by (intro executeAttempt_next)
  then have "exec_next d (es_db s')" "\<forall>r. out = Inr r \<longrightarrow> sr_outcome r \<noteq> StepIdle \<and> sr_task r = t_id (tc_task c) \<and>
      (sr_outcome r = StepCompleted \<longrightarrow> handed_over r (es_db s')) \<and>
      refused_from (clk (sv_end V) 1) (sr_attempt r) (es_db s')"
    by auto
  with exec_next_trans [OF step] run(1) show ?thesis by blast
qed (auto simp: exec_next_refl ok)

lemma run_steps_next:
  "worker_ok W \<Longrightarrow> exec_ok (es_db s) \<Longrightarrow> run_steps W Vs s = (s', out) \<Longrightarrow> exec_next (es_db s) (es_db s')"
proof (induction Vs arbitrary: s)
  case (Cons V Vs)
  obtain s1 r where one: "StepOnce W V s = (s1, r)" by fastforce
  then have step: "exec_next (es_db s) (es_db s1)" using StepOnce_next [OF Cons.prems(2,1)] by blast
  then have "exec_ok (es_db s1)" by (simp add: exec_next_def)
  then show ?case
    using Cons.IH [OF Cons.prems(1)] Cons.prems(3) one step exec_next_trans [OF step] by (cases r) auto
qed (simp add: exec_next_refl)

subsection \<open>Properties\<close>

text \<open>
  C26. What one step of the worker may do, whatever the executor answers and whatever other services do while
  it runs: an idle step changes nothing and no task was schedulable; otherwise the step worked on a task that
  was schedulable and the most urgent one, and its attempt is refused by every guard from then on; and a
  step that reports completion has handed the task over: it AWAITS VERIFICATION under this attempt, with a
  completion record over the evidence the step stored, of which there is some.
\<close>

theorem StepOnce_outcome:
  assumes "exec_ok (es_db s)" and "worker_ok W" and "StepOnce W V s = (s', Inr r)"
  shows "exec_ok (es_db s') \<and>
    (case sr_outcome r of
       StepIdle \<Rightarrow> s' = s \<and> (\<forall>t \<in> set (db_tasks (es_db s)). \<not> schedulable (sv_now V) (sv_capacity V) (es_db s) t)
     | _ \<Rightarrow> (\<exists>c. best (sv_now V) (sv_capacity V) (es_db s) (Some c) \<and> sr_task r = t_id (tc_task c)) \<and>
         (\<forall>now allowed. clk (sv_end V) 1 \<le> now \<longrightarrow> (\<exists>e. GuardAttempt now (sr_attempt r) allowed (es_db s') = Inl e)) \<and>
         (sr_outcome r = StepCompleted \<longrightarrow>
            sr_evidence r \<noteq> [] \<and> set (sr_evidence r) \<subseteq> evi_id ` set (db_evidence (es_db s')) \<and>
            (\<exists>t c. find_by t_id (sr_task r) (db_tasks (es_db s')) = Some t \<and> t_state t = TaskAwaitingVerification \<and>
               t_attempt t = Some (sr_attempt r) \<and> c \<in> set (db_completions (es_db s')) \<and> co_task c = sr_task r \<and>
               co_attempt c = sr_attempt r \<and> set (co_evidence c) = set (sr_evidence r))))"
proof -
  note step = StepOnce_next [OF assms]
  have best: "best (sv_now V) (sv_capacity V) (es_db s) x" if "Next (sv_now V) (sv_capacity V) (es_db s) = Inr x" for x
    using Next_best [OF exec_okD(1) [OF assms(1)] that] .
  show ?thesis
  proof (cases "sr_outcome r")
    case StepIdle
    with step best [of None] assms(1) show ?thesis by (auto simp: best_def)
  next
    case StepCompleted
    then show ?thesis using step best by (auto simp: exec_next_def refused_from_def handed_over_def)
  next
    case StepFailed
    then show ?thesis using step best by (auto simp: exec_next_def refused_from_def)
  qed
qed

definition demo_worker :: worker where
  "demo_worker = \<lparr>wk_executors = [(''codex'', \<lambda>envelope s. (s, Returned \<lparr>xr_exit = 0, xr_stdout = ''ok'', xr_stderr = [],
       xr_evidence = [(''COMMAND'', []), (''COMMAND'', ''make'')]\<rparr> None))], wk_recorders = [], wk_preference = None,
     wk_lease = 50, wk_sha = demo_sha, wk_digest = demo_digest\<rparr>"

definition demo_step :: step_env where
  "demo_step = \<lparr>sv_now = 10, sv_capacity = demo_capacity, sv_start = demo_env,
     sv_put = \<lparr>clk = (\<lambda>_. 20), rnd = (\<lambda>i. if i = 0 then ''1'' else ''2'')\<rparr>,
     sv_end = \<lparr>clk = (\<lambda>_. 30), rnd = (\<lambda>i. if i = 0 then ''5'' else if i = 1 then ''6'' else ''7'')\<rparr>\<rparr>"

lemma StepOnce_outcome_witness:
  "\<exists>s' r. StepOnce demo_worker demo_step \<lparr>es_db = demo_queue, es_blobs = Map.empty\<rparr> = (s', Inr r) \<and>
     sr_outcome r = StepCompleted \<and> sr_task r = ''task_2'' \<and> length (sr_evidence r) = 2 \<and>
     (\<exists>t. find_by t_id ''task_2'' (db_tasks (es_db s')) = Some t \<and> t_state t = TaskAwaitingVerification)"
proof -
  let ?s = "\<lparr>es_db = demo_queue, es_blobs = Map.empty\<rparr>"
  have ok: "exec_ok (es_db ?s)" by code_simp
  have W: "worker_ok demo_worker"
    by (simp add: worker_ok_def demo_worker_def executor_ok_def exec_next_refl)
  have "snd (StepOnce demo_worker demo_step ?s) =
      Inr \<lparr>sr_outcome = StepCompleted, sr_task = ''task_2'', sr_attempt = ''attempt_1'',
        sr_evidence = [''evidence_1'', ''evidence_2'']\<rparr>"
    by code_simp
  then obtain s' where run: "StepOnce demo_worker demo_step ?s =
      (s', Inr \<lparr>sr_outcome = StepCompleted, sr_task = ''task_2'', sr_attempt = ''attempt_1'',
        sr_evidence = [''evidence_1'', ''evidence_2'']\<rparr>)"
    by (metis prod.collapse)
  from StepOnce_outcome [OF ok W run] run show ?thesis by auto
qed

end
