(* ===== verification/Emit_Executor.thy ===== *)
theory Emit_Executor
  imports Emission_Once External_Effects Worker
begin

text \<open>
  The executor of an emission task and the provider behind it (\<open>internal/fieldfeedback/executor.go\<close>, \<open>provider.go\<close>). The executor
  prepares and dispatches one external operation for the artifact that is linked to its task; the provider turns the artifact into an
  issue. The sink that creates issues and finds them by their marker is outside the repository: its answers are arguments.
\<close>

subsection \<open>The provider\<close>

record emit_codec = feedback_codec +
  eb_intent :: "string \<Rightarrow> (ID \<times> string) res"
  eb_category :: "string \<Rightarrow> string res"

record IssuePayload =
  ip_title :: string
  ip_body :: string
  ip_marker :: string

record Sink =
  sk_create :: "IssuePayload \<Rightarrow> (string \<times> int) res"
  sk_find :: "string \<Rightarrow> string option res"

record feedback_provider =
  fp_codec :: emit_codec
  fp_name :: string
  fp_destination :: string

definition NewProvider :: "emit_codec \<Rightarrow> string \<Rightarrow> string \<Rightarrow> feedback_provider res" where
  "NewProvider K name destination =
     (if trim_space name = [] \<or> trim_space destination = []
      then Inl (Err ''feedback provider requires name, destination, feedback reader, and sink'')
      else Inr \<lparr>fp_codec = K, fp_name = trim_space name, fp_destination = trim_space destination\<rparr>)"

definition emitDescriptorType :: string where
  "emitDescriptorType = ''feedback.issue.emit.v1''"

definition json_intent :: "ID \<Rightarrow> string \<Rightarrow> json" where
  "json_intent k destination = JObject [(''sanitized_feedback_id'', JText k), (''destination'', JText destination)]"

text \<open>A descriptor carries its Go type as a name and its fields as JSON.\<close>

definition emit_intent :: "emit_codec \<Rightarrow> ID \<Rightarrow> string \<Rightarrow> intent" where
  "emit_intent K k destination =
     \<lparr>it_type = emitDescriptorType, it_body = fb_marshal (feedback_codec.truncate K) (json_intent k destination)\<rparr>"

definition bound_intent :: "feedback_provider \<Rightarrow> ID \<times> string \<Rightarrow> (ID \<times> string) res" where
  "bound_intent P i =
     (let k = trim_space (fst i); destination = trim_space (snd i) in
      if k = [] \<or> destination = [] then Inl (Err ''sanitized feedback id and destination are required'')
      else if destination \<noteq> fp_destination P then Inl (Err ''feedback destination is not bound provider destination'')
      else Inr (k, destination))"

definition CanonicalIntent :: "feedback_provider \<Rightarrow> intent \<Rightarrow> string res" where
  "CanonicalIntent P descriptor =
     (if it_type descriptor \<noteq> emitDescriptorType then Inl (Err ''feedback provider rejects descriptor type'')
      else bindE (eb_intent (fp_codec P) (it_body descriptor)) (\<lambda>i. bindE (bound_intent P i) (\<lambda>(k, destination).
        Inr (fb_marshal (feedback_codec.truncate (fp_codec P)) (json_intent k destination)))))"

definition provider_cost :: "feedback_provider \<Rightarrow> intent \<Rightarrow> CostProfile res" where
  "provider_cost P descriptor =
     bindE (CanonicalIntent P descriptor) (\<lambda>_.
     Inr \<lparr>cp_exposure = 1, cp_enforceability = \<lparr>en_cost_control = CostTechnicallyCapped, en_require_hard_cap = False,
            en_source = ''feedback issue emission''\<rparr>\<rparr>)"

definition provider_interface :: "feedback_provider \<Rightarrow> Provider" where
  "provider_interface P =
     \<lparr>pv_name = fp_name P, pv_capability = ''feedback.'' @ fp_name P @ ''.issue.create'', pv_enforcement = EnforcementEnforced,
      pv_adapter = ''feedback-provider-v1'', pv_semantic = False, pv_canonical = CanonicalIntent P, pv_cost = provider_cost P\<rparr>"

definition resolve :: "feedback_provider \<Rightarrow> db \<Rightarrow> string \<Rightarrow> SanitizedFeedback res" where
  "resolve P d canonical =
     bindE (eb_intent (fp_codec P) canonical) (\<lambda>i.
     case bound_intent P i of
       Inl _ \<Rightarrow> Inl (Err ''feedback canonical intent is outside provider binding'')
     | Inr (k, destination) \<Rightarrow>
         bindE (loadSanitizedFeedback k d) (\<lambda>a.
         if sf_id a \<noteq> k \<or> trim_space (sf_content a) = [] \<or> trim_space (sf_fingerprint a) = []
         then Inl (Err ''sanitized feedback artifact is incomplete'') else Inr a))"

definition issuePayload :: "feedback_provider \<Rightarrow> SanitizedFeedback \<Rightarrow> IssuePayload res" where
  "issuePayload P a =
     bindE (eb_category (fp_codec P) (sf_content a)) (\<lambda>category.
     let category = (if trim_space category = [] then ''FIELD_FEEDBACK'' else trim_space category) in
     Inr \<lparr>ip_title = ''[Summa42] '' @ category, ip_body = sf_content a, ip_marker = ''summa42-feedback:'' @ sf_fingerprint a\<rparr>)"

definition payload_of :: "feedback_provider \<Rightarrow> db \<Rightarrow> ProviderDispatchRequest \<Rightarrow> IssuePayload res" where
  "payload_of P d rq = bindE (resolve P d (rq_canonical rq)) (issuePayload P)"

definition provider_dispatch :: "feedback_provider \<Rightarrow> Sink \<Rightarrow> db \<Rightarrow> answer" where
  "provider_dispatch P K d rq =
     bindE (payload_of P d rq) (\<lambda>payload.
     bindE (sk_create K payload) (\<lambda>(reference, cost).
     if trim_space reference = [] then Inl (Err ''feedback sink confirmed create without a provider reference'')
     else if cost < 0 then Inl (Err ''feedback sink returned negative actual cost'')
     else Inr \<lparr>out_state = OperationConfirmedEffect, out_reference = trim_space reference, out_cost = cost\<rparr>))"

definition provider_lookup :: "feedback_provider \<Rightarrow> Sink \<Rightarrow> db \<Rightarrow> answer" where
  "provider_lookup P K d rq =
     bindE (payload_of P d rq) (\<lambda>payload.
     bindE (sk_find K (ip_marker payload)) (\<lambda>found.
     case found of
       None \<Rightarrow> Inr \<lparr>out_state = OperationOutcomeUnknown, out_reference = [], out_cost = 0\<rparr>
     | Some reference \<Rightarrow>
         if trim_space reference = [] then Inl (Err ''feedback sink found marker without provider reference'')
         else Inr \<lparr>out_state = OperationConfirmedEffect, out_reference = trim_space reference, out_cost = 0\<rparr>))"

subsection \<open>The executor\<close>

record EmitExecutor =
  ex_codec :: emit_codec
  ex_ops :: op_codec
  ex_service :: Service
  ex_provider :: string

definition NewEmitExecutor :: "emit_codec \<Rightarrow> op_codec \<Rightarrow> Service \<Rightarrow> string \<Rightarrow> EmitExecutor res" where
  "NewEmitExecutor K C S name =
     (if trim_space name = [] then Inl (Err ''feedback emit executor requires lookup, operations service, and provider name'')
      else Inr \<lparr>ex_codec = K, ex_ops = C, ex_service = S, ex_provider = trim_space name\<rparr>)"

definition emit_prepare :: "EmitExecutor \<Rightarrow> ID \<Rightarrow> SanitizedFeedback \<Rightarrow> string \<Rightarrow> ID list \<Rightarrow> PrepareRequest" where
  "emit_prepare X attempt a destination required =
     \<lparr>qp_attempt = attempt, qp_provider = ex_provider X,
      qp_slot_key = ''feedback:'' @ ex_provider X @ '':'' @ destination @ '':'' @ sf_fingerprint a,
      qp_intent = Some (emit_intent (ex_codec X) (sf_id a) destination), qp_risk = ''LOW'', qp_attributes = (\<lambda>_. None), qp_required = required\<rparr>"

definition successResult :: "ID \<Rightarrow> operation \<Rightarrow> ExecutionResult" where
  "successResult k x =
     \<lparr>xr_exit = 0, xr_stdout = ''feedback external effect confirmed'', xr_stderr = [],
      xr_evidence = [(''AGENT_MESSAGE'', ''sanitized_feedback_id='' @ k @ newline @ ''operation_id='' @ o_id x @ newline @
        ''provider_reference='' @ trim_space (o_reference x))]\<rparr>"

definition emit_confirmed :: "env \<Rightarrow> ID \<Rightarrow> operation \<Rightarrow> db \<Rightarrow> db \<times> ExecutionResult res" where
  "emit_confirmed E k x d =
     (case MarkReported E k (o_id x) (o_reference x) d of
        (d, Inl e) \<Rightarrow> (d, Inl e) | (d, Inr _) \<Rightarrow> (d, Inr (successResult k x)))"

text \<open>The dispatch of a prepared or open operation, and what follows from its outcome.\<close>

definition emit_dispatch ::
  "EmitExecutor \<Rightarrow> (nat \<Rightarrow> env) \<Rightarrow> (db \<Rightarrow> answer) \<Rightarrow> (db \<Rightarrow> answer) \<Rightarrow> ID \<Rightarrow> ID \<Rightarrow> ID \<Rightarrow> db \<Rightarrow>
   db \<times> ProviderDispatchRequest list \<times> ExecutionResult res" where
  "emit_dispatch X Es send lookup k operation attempt d =
     (case Dispatch (ex_ops X) (ex_service X) (Es 1) (send d) (lookup d) operation attempt d of
        (d, rqs, Inl e) \<Rightarrow> (d, rqs, Inl e)
      | (d, rqs, Inr y) \<Rightarrow>
          (case o_state y of
             OperationConfirmedEffect \<Rightarrow> (case emit_confirmed (Es 2) k y d of (d, r) \<Rightarrow> (d, rqs, r))
           | OperationConfirmedNoEffect \<Rightarrow> (d, rqs, Inl (Err ''feedback effect is confirmed absent; governed retry is required''))
           | _ \<Rightarrow> (d, rqs, Inl (Err ''feedback operation did not settle to a confirmed outcome''))))"

definition emit_artifact ::
  "EmitExecutor \<Rightarrow> (nat \<Rightarrow> env) \<Rightarrow> (db \<Rightarrow> answer) \<Rightarrow> (db \<Rightarrow> answer) \<Rightarrow> ID \<Rightarrow> SanitizedFeedback \<Rightarrow> string \<Rightarrow> ID list \<Rightarrow> db \<Rightarrow>
   db \<times> ProviderDispatchRequest list \<times> ExecutionResult res" where
  "emit_artifact X Es send lookup attempt a destination required d =
     (case Prepare (ex_ops X) (ex_service X) (Es 0) (emit_prepare X attempt a destination required) d of
        (d, Inl e) \<Rightarrow> (d, [], Inl e)
      | (d, Inr x) \<Rightarrow>
          (case o_state x of
             OperationConfirmedEffect \<Rightarrow> (case emit_confirmed (Es 2) (sf_id a) x d of (d, r) \<Rightarrow> (d, [], r))
           | OperationConfirmedNoEffect \<Rightarrow> (d, [], Inl (Err ''feedback effect is confirmed absent; governed retry is required''))
           | OperationCancelled \<Rightarrow> (d, [], Inl (Err ''feedback operation reached unsupported state''))
           | OperationOther _ \<Rightarrow> (d, [], Inl (Err ''feedback operation reached unsupported state''))
           | _ \<Rightarrow> emit_dispatch X Es send lookup (sf_id a) (o_id x) attempt d))"

definition Start_emit ::
  "EmitExecutor \<Rightarrow> (nat \<Rightarrow> env) \<Rightarrow> (db \<Rightarrow> answer) \<Rightarrow> (db \<Rightarrow> answer) \<Rightarrow> ID \<Rightarrow> ID \<Rightarrow> db \<Rightarrow>
   db \<times> ProviderDispatchRequest list \<times> ExecutionResult res" where
  "Start_emit X Es send lookup k attempt d =
     (if k = [] \<or> attempt = [] then (d, [], Inl (Err ''feedback emit executor requires task and attempt ids''))
      else case bindE (ValidateEmitAttempt k attempt d) (\<lambda>_. bindE (FeedbackForEmitTask k d) (\<lambda>(a, destination, required).
             bindE (requireE (sf_id a \<noteq> [] \<and> trim_space destination \<noteq> []) (Err ''feedback emission linkage is incomplete'')) (\<lambda>_.
             Inr (a, destination, required)))) of
        Inl e \<Rightarrow> (d, [], Inl e)
      | Inr (a, destination, required) \<Rightarrow> emit_artifact X Es send lookup attempt a destination required d)"

subsection \<open>What the executor leaves alone and sends\<close>

text \<open>Reporting changes neither operations nor approvals.\<close>

lemma transitionCandidate_rest: "\<exists>f. fst (transitionCandidate k target d) = set_feedback f d"
proof (cases "transitionCandidateInTx k target d")
  case (Inl e)
  then have "fst (transitionCandidate k target d) = set_feedback (\<lambda>t. t) d" by (simp add: transitionCandidate_def with_tx_def set_feedback_def)
  then show ?thesis by blast
next
  case (Inr d')
  then have d': "fst (transitionCandidate k target d) = d'" by (simp add: transitionCandidate_def with_tx_def)
  from Inr show ?thesis
  proof (cases rule: transitionCandidateInTx_cases)
    case 1
    then have "d' = set_feedback (\<lambda>t. t) d" by (simp add: set_feedback_def)
    with d' show ?thesis by blast
  qed (auto simp: d' set_state_def)
qed

lemma MarkReported_rest:
  "db_ops (fst (MarkReported E k x r d)) = db_ops d \<and> db_approvals (fst (MarkReported E k x r d)) = db_approvals d \<and>
   db_decisions (fst (MarkReported E k x r d)) = db_decisions d"
proof -
  have move: "db_ops (fst (transitionCandidate j target e)) = db_ops e" "db_approvals (fst (transitionCandidate j target e)) = db_approvals e"
    "db_decisions (fst (transitionCandidate j target e)) = db_decisions e" for j target e
    using transitionCandidate_rest [of j target e] by auto
  have audit: "db_ops e' = db_ops e \<and> db_approvals e' = db_approvals e \<and> db_decisions e' = db_decisions e"
    if "insert_audit_event v e = Inr e'" for v e e'
    using insert_audit_event_noted [OF that] by (auto simp: set_audit_def)
  show ?thesis using move audit unfolding MarkReported_def
    by (auto split: sum.splits prod.splits if_splits) (metis fst_conv)+
qed

lemma Start_emit_sends:
  assumes run: "Start_emit X Es send lookup k attempt d = (d', rqs, r)" and rq: "rq \<in> set rqs"
    and e: "find_by fe_task (trim_space k) (ft_emissions (db_feedback d)) = Some e"
  obtains a x d1 d2 res where
    "Prepare (ex_ops X) (ex_service X) (Es 0) (emit_prepare X attempt a (fe_destination e) (clean_ids (fe_required e))) d = (d1, Inr x)"
    "loadSanitizedFeedback (fe_feedback e) d = Inr a"
    "Dispatch (ex_ops X) (ex_service X) (Es 1) (send d1) (lookup d1) (o_id x) attempt d1 = (d2, rqs, res)"
    "db_ops d' = db_ops d2 \<and> db_approvals d' = db_approvals d2 \<and> db_decisions d' = db_decisions d2"
proof -
  obtain a destination required where link: "FeedbackForEmitTask k d = Inr (a, destination, required)"
    and emit: "emit_artifact X Es send lookup attempt a destination required d = (d', rqs, r)"
    using run rq unfolding Start_emit_def by (auto elim!: bindE_InrE split: if_splits sum.splits)
  have a: "loadSanitizedFeedback (fe_feedback e) d = Inr a" "destination = fe_destination e" "required = clean_ids (fe_required e)"
    using link e by (auto simp: FeedbackForEmitTask_def Let_def bind_simps split: if_splits)
  obtain d1 x where p: "Prepare (ex_ops X) (ex_service X) (Es 0) (emit_prepare X attempt a destination required) d = (d1, Inr x)"
    using emit rq by (auto simp: emit_artifact_def split: prod.splits sum.splits)
  have "emit_dispatch X Es send lookup (sf_id a) (o_id x) attempt d1 = (d', rqs, r)"
    using emit rq p by (auto simp: emit_artifact_def split: operation_state.splits prod.splits)
  then obtain d2 res where disp: "Dispatch (ex_ops X) (ex_service X) (Es 1) (send d1) (lookup d1) (o_id x) attempt d1 = (d2, rqs, res)"
    and rest: "d' = d2 \<or> (\<exists>k y. d' = fst (emit_confirmed (Es 2) k y d2))"
    unfolding emit_dispatch_def by (auto split: prod.splits sum.splits operation_state.splits) (metis fst_conv)+
  have "fst (emit_confirmed (Es 2) j y d2) = fst (MarkReported (Es 2) j (o_id y) (o_reference y) d2)" for j y
    by (simp add: emit_confirmed_def split: prod.split sum.split)
  then have "db_ops d' = db_ops d2 \<and> db_approvals d' = db_approvals d2 \<and> db_decisions d' = db_decisions d2"
    using rest MarkReported_rest by metis
  with p a disp that show thesis by blast
qed

text \<open>
  C14. Nothing is emitted without its approvers: whenever the executor of an emission task sends a request, everyone whose approval the
  link between the task and the artifact demands (in REQUIRE_APPROVAL mode the Owner) has recorded APPROVE on the request that is bound to
  exactly this operation, and that approval is consumed.
\<close>

theorem nothing_emitted_without_approvers:
  assumes "effect_run w0 (d, sent)" and "effects_ok w0" and "Start_emit X Es send lookup k attempt d = (d', rqs, r)" and "rq \<in> set rqs"
    and "find_by fe_task (trim_space k) (ft_emissions (db_feedback d)) = Some e" and "p \<in> set (clean_ids (fe_required e))"
  shows "\<exists>x ap q. find_by o_id (rq_operation rq) (db_ops d') = Some x \<and> find_by ap_id (trim_space (o_approval x)) (db_approvals d') = Some ap \<and>
    ap_state ap = ApprovalConsumed \<and> ap_subject ap = o_id x \<and> q \<in> set (ap_required ap) \<and> trim_space q = p \<and> has_approved d' ap q"
proof -
  obtain a x d1 d2 res where
    prep: "Prepare (ex_ops X) (ex_service X) (Es 0) (emit_prepare X attempt a (fe_destination e) (clean_ids (fe_required e))) d = (d1, Inr x)"
    and disp: "Dispatch (ex_ops X) (ex_service X) (Es 1) (send d1) (lookup d1) (o_id x) attempt d1 = (d2, rqs, res)"
    and rest: "db_ops d' = db_ops d2" "db_approvals d' = db_approvals d2" "db_decisions d' = db_decisions d2"
    using Start_emit_sends [OF assms(3-5)] by metis
  have ok: "effects_ok (d, sent)" using effects.reach_inv assms(1,2) by blast
  have to_d1: "effect_run w0 (d1, sent)"
    using assms(1) effect_prepare [of d sent "ex_ops X" "ex_service X" "Es 0"
        "emit_prepare X attempt a (fe_destination e) (clean_ids (fe_required e))"] prep
    by (metis fst_conv rtranclp.rtrancl_into_rtrancl)
  have d1_d2: "effect_run (d1, sent) (d2, sent @ rqs)"
    using Dispatch_run [of d1 sent "ex_ops X" "ex_service X" "Es 1" "send d1" "lookup d1" "o_id x" attempt] disp by simp
  have sent: "rq_operation rq = o_id x" and "\<exists>y. find_by o_id (o_id x) (db_ops d1) = Some y \<and> o_state y = OperationPrepared"
    using Dispatch_sent [OF disp assms(4)] by blast+
  moreover have "ops_ok d" "approvals_ok d" using ok by (simp_all add: effects_ok_def)
  then have "find_by o_id (o_id x) (db_ops d1) = Some x" using prep prepareInTx_kept unfolding Prepare_Inr by blast
  ultimately have x: "find_by o_id (o_id x) (db_ops d1) = Some x" "o_state x = OperationPrepared" by auto
  have callers: "normalizeApprovalIDs (o_callers x) = normalizeApprovalIDs (clean_ids (fe_required e))"
    using Prepare_callers [OF prep x(2)] by (simp add: emit_prepare_def)
  have "effects_ok (d1, sent)" using effects.reach_inv to_d1 assms(2) by blast
  then obtain x' where x': "find_by o_id (o_id x) (db_ops d2) = Some x'" "later_op x x'"
    using effect_run_op [OF d1_d2, of "o_id x" x] x(1) by auto
  have "trim_space p = p" "p \<noteq> []" using assms(6) by (auto simp: clean_ids_members)
  then have "p \<in> trim_space ` set (clean_ids (fe_required e))" using assms(6) by (metis imageI)
  then have "p \<in> set (normalizeApprovalIDs (clean_ids (fe_required e)))" using \<open>p \<noteq> []\<close> by (simp add: normalizeApprovalIDs_def)
  then have "p \<in> set (normalizeApprovalIDs (o_callers x'))" using later_opD [OF x'(2)] callers by simp
  moreover have "effect_run w0 (d2, sent @ rqs)" using to_d1 d1_d2 by (rule rtranclp_trans)
  ultimately have "\<exists>r q. find_by ap_id (trim_space (o_approval x')) (db_approvals d2) = Some r \<and> ap_state r = ApprovalConsumed \<and>
      ap_subject r = o_id x' \<and> q \<in> set (ap_required r) \<and> trim_space q = p \<and> has_approved d2 r q"
    using consent_of_sent [of w0 d2 "sent @ rqs" rq x' p] assms(2,4) x'(1) sent by simp
  then show ?thesis using x'(1) sent rest by (auto simp: has_approved_def)
qed

text \<open>A link that demands the approval of Ann, who agrees between the preparation and the next start of the executor.\<close>

definition demo_emit_codec :: emit_codec where
  "demo_emit_codec = \<lparr>fb_marshal = fb_marshal demo_feedback_codec, fb_strings = fb_strings demo_feedback_codec,
     fb_metrics = fb_metrics demo_feedback_codec, fb_sha = fb_sha demo_feedback_codec,
     eb_intent = (\<lambda>s. Inr (''sanitized_4b'', ''o/r'')), eb_category = Inr\<rparr>"

definition demo_emitter :: EmitExecutor where
  "demo_emitter = \<lparr>ex_codec = demo_emit_codec, ex_ops = demo_codes, ex_service = demo_service, ex_provider = ''mail''\<rparr>"

definition demo_artifact :: SanitizedFeedback where
  "demo_artifact = \<lparr>sf_id = ''s'', sf_candidate = ''c'', sf_schema = 1, sf_content = ''TEST'', sf_hash = ''h'', sf_result = ''r'',
     sf_correlation = ''k'', sf_fingerprint = ''f'', sf_created = 1\<rparr>"

definition demo_link :: emission_row where
  "demo_link = \<lparr>fe_feedback = ''s'', fe_task = ''task_1'', fe_provider = ''mail'', fe_destination = ''o/r'', fe_required = ['' ann''], fe_created = 1\<rparr>"

definition demo_emit_store :: db where
  "demo_emit_store = demo_store\<lparr>db_feedback := empty_feedback\<lparr>ft_sanitized := [demo_artifact], ft_emissions := [demo_link]\<rparr>\<rparr>"

definition demo_emit_waiting :: db where
  "demo_emit_waiting = fst (Prepare demo_codes demo_service demo_clock (emit_prepare demo_emitter ''attempt_1'' demo_artifact ''o/r'' [''ann'']) demo_emit_store)"

definition demo_emit_agreed :: db where
  "demo_emit_agreed = fst (Approve 21 ''approval_b'' ''ann'' ''h'' demo_emit_waiting)"

definition demo_emit_sent :: "db \<times> ProviderDispatchRequest list \<times> ExecutionResult res" where
  "demo_emit_sent = Start_emit demo_emitter (\<lambda>_. demo_clock2)
     (\<lambda>_ rq. Inr \<lparr>out_state = OperationConfirmedEffect, out_reference = ''ref'', out_cost = 3\<rparr>) (\<lambda>_ rq. Inl (Err ''down''))
     ''task_1'' ''attempt_1'' demo_emit_agreed"

theorem nothing_emitted_without_approvers_witness:
  "\<exists>rq x ap q. rq \<in> set (fst (snd demo_emit_sent)) \<and> find_by o_id (rq_operation rq) (db_ops (fst demo_emit_sent)) = Some x \<and>
    ap_state ap = ApprovalConsumed \<and> q \<in> set (ap_required ap) \<and> trim_space q = ''ann'' \<and> has_approved (fst demo_emit_sent) ap q"
proof -
  have ok: "effects_ok (demo_emit_store, [])" by code_simp
  have "effect_run (demo_emit_store, []) (demo_emit_waiting, [])"
    unfolding demo_emit_waiting_def by (rule r_into_rtranclp) (rule effect_prepare)
  also have "effect_run (demo_emit_waiting, []) (demo_emit_agreed, [])"
    unfolding demo_emit_agreed_def by (rule r_into_rtranclp) (rule effect_approval, rule approval_step.intros)
  finally have run: "effect_run (demo_emit_store, []) (demo_emit_agreed, [])" .
  have "length (fst (snd demo_emit_sent)) = 1" by code_simp
  then obtain rq where rq: "rq \<in> set (fst (snd demo_emit_sent))" by (metis length_0_conv list.set_intros(1) neq_Nil_conv one_neq_zero)
  have "(case find_by fe_task (trim_space ''task_1'') (ft_emissions (db_feedback demo_emit_agreed)) of
      Some e \<Rightarrow> ''ann'' \<in> set (clean_ids (fe_required e)) | None \<Rightarrow> False)" by code_simp
  then obtain e where e: "find_by fe_task (trim_space ''task_1'') (ft_emissions (db_feedback demo_emit_agreed)) = Some e"
    "''ann'' \<in> set (clean_ids (fe_required e))" by (auto split: option.splits)
  have "demo_emit_sent = (fst demo_emit_sent, fst (snd demo_emit_sent), snd (snd demo_emit_sent))" by simp
  from nothing_emitted_without_approvers [OF run ok this [unfolded demo_emit_sent_def] _ e] rq
  show ?thesis unfolding demo_emit_sent_def by blast
qed

subsection \<open>What reaches the sink\<close>

text \<open>
  A clean payload of a database: its title is the fixed prefix with one of the allowed categories, its body is the content of a stored
  artifact, its marker is the fingerprint of that content.
\<close>

definition clean_payload :: "feedback_codec \<Rightarrow> regex set \<Rightarrow> db \<Rightarrow> IssuePayload \<Rightarrow> bool" where
  "clean_payload K D d p \<longleftrightarrow> (\<exists>a \<in> set (ft_sanitized (db_feedback d)). \<exists>c \<in> set (ft_candidates (db_feedback d)).
     fc_id c = sf_candidate a \<and> clean_artifact K D c a \<and> fc_category c \<in> set safeExportCategories \<and> ip_title p = ''[Summa42] '' @ fc_category c \<and>
     ip_body p = sf_content a \<and> ip_marker p = ''summa42-feedback:'' @ fingerprint_of K (fb_sha K (sf_content a)))"

lemma safeExportCategories_trimmed: "category \<in> set safeExportCategories \<Longrightarrow> trim_space category = category \<and> category \<noteq> []"
proof -
  have "list_all (\<lambda>c. trim_space c = c \<and> c \<noteq> []) safeExportCategories" by code_simp
  then show "category \<in> set safeExportCategories \<Longrightarrow> ?thesis" by (simp only: list_all_iff) blast
qed

lemma payload_of_clean:
  assumes ok: "feedback_ok K D d" and payload: "payload_of P d rq = Inr payload"
    and reads: "\<And>p. ep_category p \<in> set safeExportCategories \<Longrightarrow> eb_category (fp_codec P) (fb_marshal K (json_projection p)) = Inr (ep_category p)"
  shows "clean_payload K D d payload"
proof -
  obtain a where a: "resolve P d (rq_canonical rq) = Inr a" and p: "issuePayload P a = Inr payload"
    using payload by (auto simp: payload_of_def elim!: bindE_InrE)
  obtain k where "loadSanitizedFeedback k d = Inr a"
    using a unfolding resolve_def by (auto elim!: bindE_InrE split: sum.splits if_splits)
  then have mem: "a \<in> set (ft_sanitized (db_feedback d))" by (auto simp: loadSanitizedFeedback_Inr dest: find_by_SomeD)
  from feedback_okD(3) [OF ok this]
  obtain c where c: "c \<in> set (ft_candidates (db_feedback d))" "fc_id c = sf_candidate a" "clean_artifact K D c a" by blast
  then obtain x where x: "allowlisted K c x" "sf_content a = fb_marshal K (json_projection x)" by (auto simp: clean_artifact_def)
  have safe: "fc_category c \<in> set safeExportCategories" "ep_category x = fc_category c" using x(1) by (auto simp: allowlisted_def)
  have "eb_category (fp_codec P) (sf_content a) = Inr (fc_category c)" using reads [of x] safe x(2) by simp
  then have "ip_title payload = ''[Summa42] '' @ fc_category c"
    using p safeExportCategories_trimmed [OF safe(1)] by (auto simp: issuePayload_def Let_def bind_simps)
  moreover have "ip_body payload = sf_content a" "ip_marker payload = ''summa42-feedback:'' @ sf_fingerprint a"
    using p by (auto simp: issuePayload_def Let_def bind_simps)
  moreover have "sf_fingerprint a = fingerprint_of K (fb_sha K (sf_content a))" using c(3) by (simp add: clean_artifact_def)
  ultimately show ?thesis using mem c safe(1) unfolding clean_payload_def by auto
qed

text \<open>
  C13. Only clean text leaves: in a reachable database nothing but a clean payload reaches the sink, neither when an issue is created nor
  when it is looked up: two sinks that treat the clean payloads alike cannot be told apart. So the title is the prefix with an allowed
  category, the body is the encoding of an allowlisted projection of a candidate in which neither a built-in scan pattern occurs nor a
  pattern that every sanitizer was configured to deny, and the marker is the fingerprint of that body. Decoding the category of an encoded
  projection is assumed to give it back.
\<close>

theorem only_clean_text_leaves:
  assumes "(feedback_step K D)\<^sup>*\<^sup>* d0 d" and "feedback_ok K D d0"
    and "\<And>p. ep_category p \<in> set safeExportCategories \<Longrightarrow> eb_category (fp_codec P) (fb_marshal K (json_projection p)) = Inr (ep_category p)"
    and "\<And>p. clean_payload K D d p \<Longrightarrow> sk_create sink p = sk_create sink' p \<and> sk_find sink (ip_marker p) = sk_find sink' (ip_marker p)"
  shows "provider_dispatch P sink d rq = provider_dispatch P sink' d rq \<and> provider_lookup P sink d rq = provider_lookup P sink' d rq"
proof (cases "payload_of P d rq")
  case (Inr payload)
  have "feedback_ok K D d" using feedback.reach_inv assms(1,2) by blast
  from assms(4) [OF payload_of_clean [OF this Inr assms(3)]] show ?thesis
    by (simp add: Inr provider_dispatch_def provider_lookup_def)
qed (simp add: provider_dispatch_def provider_lookup_def)

definition demo_github :: feedback_provider where
  "demo_github = \<lparr>fp_codec = demo_emit_codec, fp_name = ''github'', fp_destination = ''o/r''\<rparr>"

definition demo_emit_request :: ProviderDispatchRequest where
  "demo_emit_request = \<lparr>rq_operation = ''operation_1'', rq_task = ''task_1'', rq_slot = ''slot_1'', rq_fingerprint = ''f'', rq_revision = 1, rq_canonical = ''{}''\<rparr>"

text \<open>A sink that creates every issue, and one that refuses titles without an allowed category and bodies with a denied word.\<close>

definition demo_open_sink :: Sink where
  "demo_open_sink = \<lparr>sk_create = (\<lambda>p. Inr (''issue/1'', 0)), sk_find = (\<lambda>_. Inr None)\<rparr>"

definition demo_strict_sink :: Sink where
  "demo_strict_sink = demo_open_sink\<lparr>sk_create := (\<lambda>p.
     if ip_title p \<in> (\<lambda>c. ''[Summa42] '' @ c) ` set safeExportCategories \<and> \<not> occurs_in email (ip_body p) \<and> \<not> occurs_in (literal ''codename'') (ip_body p)
     then sk_create demo_open_sink p else Inl (Err ''leak''))\<rparr>"

theorem only_clean_text_leaves_witness:
  "provider_dispatch demo_github demo_strict_sink (fst (demo_sanitized ''x'')) demo_emit_request =
   Inr \<lparr>out_state = OperationConfirmedEffect, out_reference = ''issue/1'', out_cost = 0\<rparr>"
proof -
  let ?d = "fst (demo_sanitized ''x'')"
  have run: "(feedback_step demo_feedback_codec demo_denied)\<^sup>*\<^sup>* demo_recorded ?d"
    using demo_feedback_run(1) demo_feedback_run(2) by (rule rtranclp_trans)
  have reads: "eb_category (fp_codec demo_github) (fb_marshal demo_feedback_codec (json_projection p)) = Inr (ep_category p)" for p
    by (simp add: demo_github_def demo_emit_codec_def demo_feedback_codec_def json_projection_def)
  have "sk_create demo_open_sink p = sk_create demo_strict_sink p \<and> sk_find demo_open_sink (ip_marker p) = sk_find demo_strict_sink (ip_marker p)"
    if "clean_payload demo_feedback_codec demo_denied ?d p" for p
  proof -
    have "(''EMAIL'', pattern, email) \<in> set builtinScanRules" if "pattern = fst (snd (builtinScanRules ! 7))" for pattern
      using that by (simp add: builtinScanRules_def)
    then have "\<not> occurs_in email (ip_body p) \<and> \<not> occurs_in (literal ''codename'') (ip_body p)"
      using that unfolding clean_payload_def clean_artifact_def demo_denied_def by fastforce
    moreover have "ip_title p \<in> (\<lambda>c. ''[Summa42] '' @ c) ` set safeExportCategories" using that unfolding clean_payload_def by blast
    ultimately show ?thesis by (simp add: demo_strict_sink_def)
  qed
  note same = only_clean_text_leaves [OF run demo_recorded_ok reads this, of demo_emit_request]
  have "provider_dispatch demo_github demo_open_sink ?d demo_emit_request =
    Inr \<lparr>out_state = OperationConfirmedEffect, out_reference = ''issue/1'', out_cost = 0\<rparr>" by code_simp
  with same show ?thesis by simp
qed

end
