(* ===== verification/Go_Values.thy ===== *)
theory Go_Values
  imports Go_Library Schema
begin

text \<open>
  Values of the Go type \<open>any\<close> as the decoder of JSON produces them, and what the code reads from them; \<open>strconv.ParseInt\<close> and
  the quoting of \<open>%q\<close>. An object has its keys in a list; a lookup finds the first, and a decoded object has each once.
\<close>

datatype any = ANull | AText string | ABool bool | AFloat float64 | AInt int | ANumber string
  | AList "any list" | AObject "(string \<times> any) list"

type_synonym any_object = "(string \<times> any) list"

text \<open>The type assertion to a text with its default.\<close>

fun text_of :: "any option \<Rightarrow> string" where
  "text_of (Some (AText s)) = s"
| "text_of _ = []"

fun bool_of :: "any option \<Rightarrow> bool option" where
  "bool_of (Some (ABool b)) = Some b"
| "bool_of _ = None"

fun items_of :: "any option \<Rightarrow> any list option" where
  "items_of (Some (AList xs)) = Some xs"
| "items_of _ = None"

fun object_of :: "any \<Rightarrow> any_object option" where
  "object_of (AObject m) = Some m"
| "object_of _ = None"

subsection \<open>Numbers\<close>

text \<open>The decimal value of digits; \<open>None\<close> for another byte or no byte.\<close>

definition digit :: "char \<Rightarrow> bool" where
  "digit c \<longleftrightarrow> CHR ''0'' \<le> c \<and> c \<le> CHR ''9''"

definition digit_value :: "char \<Rightarrow> int" where
  "digit_value c = of_char c - 48"

definition digits_value :: "string \<Rightarrow> int option" where
  "digits_value s = (if s \<noteq> [] \<and> list_all digit s then Some (foldl (\<lambda>n c. 10 * n + digit_value c) 0 s) else None)"

text \<open>\<open>ParseInt\<close> in base ten with 64 bits, which is also \<open>Atoi\<close>: a sign, digits, and the range.\<close>

definition ParseInt :: "string \<Rightarrow> int option" where
  "ParseInt s =
     (let v = (case s of
        [] \<Rightarrow> None
      | c # r \<Rightarrow> if c = CHR ''-'' then map_option uminus (digits_value r)
                 else if c = CHR ''+'' then digits_value r else digits_value s) in
      case v of None \<Rightarrow> None | Some n \<Rightarrow> if in64 n then Some n else None)"

lemma digit_of_number:
  assumes "0 \<le> n" and "n < 10"
  shows "digit (char_of (48 + n))" and "digit_value (char_of (48 + n)) = n"
proof -
  have "n = 0 \<or> n = 1 \<or> n = 2 \<or> n = 3 \<or> n = 4 \<or> n = 5 \<or> n = 6 \<or> n = 7 \<or> n = 8 \<or> n = 9" using assms by arith
  then show "digit (char_of (48 + n))" "digit_value (char_of (48 + n)) = n"
    by (elim disjE; simp add: digit_def digit_value_def char_of_def)+
qed

lemma digits_value_snoc: "digits_value s = Some v \<Longrightarrow> digit c \<Longrightarrow> digits_value (s @ [c]) = Some (10 * v + digit_value c)"
  by (auto simp: digits_value_def split: if_splits)

lemma digits_value_decimal: "0 \<le> n \<Longrightarrow> digits_value (decimal n) = Some n"
proof (induction n rule: decimal.induct)
  case (1 n)
  show ?case
  proof (cases "n < 10")
    case True
    then show ?thesis using 1(3) by (simp add: decimal.simps [of n] digits_value_def digit_of_number)
  next
    case False
    then have "decimal n = decimal (n div 10) @ [char_of (48 + n mod 10)]" using 1(3) by (simp add: decimal.simps [of n])
    moreover have "digits_value (decimal (n div 10)) = Some (n div 10)" using 1(2) 1(3) False by simp
    ultimately show ?thesis by (simp add: digits_value_snoc digit_of_number)
  qed
qed

text \<open>Reading back what \<open>FormatInt\<close> and \<open>%d\<close> print.\<close>

lemma ParseInt_decimal: "in64 n \<Longrightarrow> ParseInt (decimal n) = Some n"
proof (cases "n < 0")
  case True
  assume "in64 n"
  have "decimal n = CHR ''-'' # decimal (- n)" using True by (simp add: decimal.simps [of n])
  then show ?thesis using True \<open>in64 n\<close> by (simp add: ParseInt_def digits_value_decimal)
next
  case False
  assume "in64 n"
  have d: "digits_value (decimal n) = Some n" using False by (simp add: digits_value_decimal)
  then have "decimal n \<noteq> []" "list_all digit (decimal n)" by (auto simp: digits_value_def split: if_splits)
  then obtain c r where c: "decimal n = c # r" "digit c" by (cases "decimal n") auto
  then have "c \<noteq> CHR ''-''" "c \<noteq> CHR ''+''" by (auto simp: digit_def)
  with c d \<open>in64 n\<close> show ?thesis by (simp add: ParseInt_def)
qed

text \<open>
  The conversion of a \<open>float64\<close> to \<open>int64\<close> drops the fraction. Outside the range the language leaves the result open; it is the least
  integer on amd64.
\<close>

definition truncated :: "rat \<Rightarrow> int" where
  "truncated r = (if r < 0 then - \<lfloor>- r\<rfloor> else \<lfloor>r\<rfloor>)"

fun float_to_int :: "float64 \<Rightarrow> int" where
  "float_to_int (Finite r) = (if in64 (truncated r) then truncated r else - (2 ^ 63))"
| "float_to_int _ = - (2 ^ 63)"

subsection \<open>\<open>strconv.Quote\<close>\<close>

text \<open>
  The text of \<open>%q\<close>: ASCII bytes are kept or escaped one by one. A text with another byte depends on which runes Unicode counts as
  printable; its quoted form is given by the argument \<open>U\<close>.
\<close>

definition hex_digit :: "nat \<Rightarrow> char" where
  "hex_digit n = (if n < 10 then char_of (48 + n) else char_of (87 + n))"

definition escape :: "char \<Rightarrow> string" where
  "escape c =
     (let esc = CHR 0x5C; n = of_char c :: nat in
      if c = CHR 0x22 \<or> c = esc then [esc, c]
      else if n = 7 then [esc, CHR ''a''] else if n = 8 then [esc, CHR ''b''] else if n = 9 then [esc, CHR ''t'']
      else if n = 10 then [esc, CHR ''n''] else if n = 11 then [esc, CHR ''v''] else if n = 12 then [esc, CHR ''f'']
      else if n = 13 then [esc, CHR ''r'']
      else if n < 32 \<or> n = 127 then [esc, CHR ''x'', hex_digit (n div 16), hex_digit (n mod 16)] else [c])"

definition Quote :: "(string \<Rightarrow> string) \<Rightarrow> string \<Rightarrow> string" where
  "Quote U s =
     (if list_all (\<lambda>c. of_char c < (128 :: nat)) s then CHR 0x22 # concat (map escape s) @ [CHR 0x22] else U s)"

end
