(* ===== verification/Review_Assessment.thy ===== *)
theory Review_Assessment
  imports Workflow_Cases Go_Values
begin

text \<open>
  The assessment of a review (\<open>internal/adoreview/assess.go\<close>, with the result of a review from \<open>internal/executors/copilot.go\<close>):
  whether a reviewed pull request is approved, commented on, or held. Azure DevOps is the argument \<open>call\<close>, from a capability and
  its arguments to an answer. The JSON of a decision, SHA-256, the texts of errors and the Unicode part of \<open>%q\<close> are \<open>review_codec\<close>.
\<close>

subsection \<open>Reviews and decisions\<close>

datatype ReviewVerdict = ReviewClean | ReviewFindings | ReviewUncertain | ReviewOther string

fun verdict_name :: "ReviewVerdict \<Rightarrow> string" where
  "verdict_name ReviewClean = ''CLEAN''"
| "verdict_name ReviewFindings = ''FINDINGS''"
| "verdict_name ReviewUncertain = ''UNCERTAIN''"
| "verdict_name (ReviewOther s) = s"

record ReviewFinding =
  rf_path :: string
  rf_line :: int
  rf_explanation :: string
  rf_evidence :: string

record ReviewResult =
  rr_verdict :: ReviewVerdict
  rr_commits :: "string list"
  rr_files :: "string list"
  rr_findings :: "ReviewFinding list"
  rr_reason :: string

record ReviewInput =
  ri_case :: workflow_case
  ri_work :: ID
  ri_review :: ReviewResult
  ri_evidence :: ID
  ri_repo :: string
  ri_pr :: int
  ri_source :: string
  ri_target :: string
  ri_project :: string
  ri_require_ci :: bool
  ri_ci_status :: string
  ri_budget :: int

record DecisionComment =
  dc_path :: string
  dc_line :: int
  dc_body :: string

record ReviewDecision =
  rd_action :: string
  rd_comments :: "DecisionComment list"
  rd_vote :: string
  rd_reason :: string

type_synonym pr_caller = "string \<Rightarrow> any_object \<Rightarrow> any res"

record review_codec =
  rc_cases :: case_codec
  rc_decision :: "ReviewDecision \<Rightarrow> string"
  rc_sha :: "string \<Rightarrow> string"
  rc_error :: "go_error \<Rightarrow> string"
  rc_quote :: "string \<Rightarrow> string"

definition DecisionCommentAction :: string where "DecisionCommentAction = ''comment''"

definition DecisionApproveAction :: string where "DecisionApproveAction = ''approve''"

definition DecisionHoldAction :: string where "DecisionHoldAction = ''hold''"

definition effectApproveCapability :: string where "effectApproveCapability = ''ado.pr.approve''"

definition effectCommentCapability :: string where "effectCommentCapability = ''ado.pr.comment''"

definition decision_kind :: string where "decision_kind = ''ado.review.decision''"

text \<open>The validation of what the reviewing agent printed, once decoded.\<close>

definition validateCopilotResult :: "ReviewResult \<Rightarrow> ReviewResult res" where
  "validateCopilotResult r =
     bindE (requireE (case rr_verdict r of ReviewOther _ \<Rightarrow> False | _ \<Rightarrow> True) (Err ''copilot result has invalid verdict'')) (\<lambda>_.
     bindE (requireE (rr_commits r \<noteq> []) (Err ''copilot result reviewedCommits is required'')) (\<lambda>_.
     bindE (requireE (list_all nonblank (rr_commits r)) (Err ''copilot result reviewedCommits must not be blank'')) (\<lambda>_.
     bindE (requireE (rr_files r \<noteq> []) (Err ''copilot result reviewedFiles is required'')) (\<lambda>_.
     bindE (requireE (list_all nonblank (rr_files r)) (Err ''copilot result reviewedFiles must not be blank'')) (\<lambda>_.
     bindE (requireE (list_all (\<lambda>f. nonblank (rf_path f) \<and> nonblank (rf_explanation f)) (rr_findings r))
              (Err ''copilot result findings need path and explanation'')) (\<lambda>_.
     Inr r))))))"

subsection \<open>Answers\<close>

fun stringField :: "any_object \<Rightarrow> string list \<Rightarrow> string" where
  "stringField m [] = []"
| "stringField m (k # ks) = (if nonblank (text_of (map_of m k)) then text_of (map_of m k) else stringField m ks)"

fun number_text :: "any \<Rightarrow> string option" where
  "number_text (AText s) = (if nonblank s then Some s else None)"
| "number_text (AFloat x) = Some (decimal (float_to_int x))"
| "number_text (AInt n) = Some (decimal n)"
| "number_text (ANumber s) =
     (case ParseInt s of Some n \<Rightarrow> Some (decimal n) | None \<Rightarrow> if nonblank s then Some s else None)"
| "number_text _ = None"

fun stringOrNumberField :: "any_object \<Rightarrow> string list \<Rightarrow> string option" where
  "stringOrNumberField m [] = None"
| "stringOrNumberField m (k # ks) =
     (case Option.bind (map_of m k) number_text of Some s \<Rightarrow> Some s | None \<Rightarrow> stringOrNumberField m ks)"

subsection \<open>Identities\<close>

definition review_object :: "ReviewInput \<Rightarrow> string" where
  "review_object i = ri_repo i @ ''#'' @ decimal (ri_pr i)"

definition review_revision :: "ReviewInput \<Rightarrow> string" where
  "review_revision i = ri_source i @ '':'' @ ri_target i"

definition review_signature :: "ReviewInput \<Rightarrow> string" where
  "review_signature i =
     ''ado:'' @ review_object i @ '':'' @ review_revision i @ '':'' @ verdict_name (rr_verdict (ri_review i))"

subsection \<open>The gates\<close>

text \<open>Each gate lets the assessment go on or gives the reason to hold.\<close>

definition get_args :: "ReviewInput \<Rightarrow> any_object" where
  "get_args i =
     [(''action'', AText ''get''), (''repository'', AText (ri_repo i)), (''pullRequestId'', AInt (ri_pr i))] @
     (if nonblank (ri_project i) then [(''project'', AText (ri_project i))] else [])"

definition live_source :: "any_object \<Rightarrow> string" where
  "live_source m = stringField m [''sourceCommit'', ''lastMergeSourceCommit'']"

definition live_target :: "any_object \<Rightarrow> string" where
  "live_target m = stringField m [''targetCommit'', ''lastMergeTargetCommit'']"

text \<open>The pull request as it is now, when the review still covers it.\<close>

definition fresh_pr :: "review_codec \<Rightarrow> pr_caller \<Rightarrow> ReviewInput \<Rightarrow> string + any_object" where
  "fresh_pr R call i =
     (case call ''ado.pr.get'' (get_args i) of
        Inl e \<Rightarrow> Inl (''stale-review: '' @ rc_error R e)
      | Inr v \<Rightarrow>
          (case object_of v of
             None \<Rightarrow> Inl ''stale-review: PR get response is not an object, cannot confirm freshness''
           | Some m \<Rightarrow>
               if live_source m = [] \<or> live_target m = []
               then Inl ''stale-review: PR get response is missing source or target commits''
               else if live_source m \<noteq> ri_source i \<or> live_target m \<noteq> ri_target i
               then Inl (''stale-review: PR is now at '' @ live_source m @ '':'' @ live_target m @ '', review covered '' @ review_revision i)
               else if live_source m \<notin> set (rr_commits (ri_review i))
               then Inl (''stale-review: review did not cover current source commit '' @ live_source m)
               else Inr m))"

definition uncertain_reason :: "ReviewInput \<Rightarrow> string" where
  "uncertain_reason i =
     ''uncertain-review: review of '' @ review_object i @ '' '' @ review_revision i @ '' is inconclusive''"

fun findings_problem :: "review_codec \<Rightarrow> string list \<Rightarrow> ReviewFinding list \<Rightarrow> string + unit" where
  "findings_problem R files [] = Inr ()"
| "findings_problem R files (f # fs) =
     (if \<not> nonblank (rf_path f) then Inl ''invalid-finding: review finding is missing path''
      else if rf_path f \<notin> set files
      then Inl (''uncovered-finding: finding path '' @ Quote (rc_quote R) (rf_path f) @ '' is outside the reviewed files'')
      else findings_problem R files fs)"

definition consistent_review :: "review_codec \<Rightarrow> ReviewInput \<Rightarrow> string + unit" where
  "consistent_review R i =
     (let r = ri_review i in
      bindE (requireE (rr_verdict r \<noteq> ReviewUncertain) (uncertain_reason i)) (\<lambda>_.
      bindE (requireE (\<not> (rr_verdict r = ReviewClean \<and> rr_findings r \<noteq> []))
               ''verdict-findings-mismatch: CLEAN verdict carries findings'') (\<lambda>_.
      bindE (findings_problem R (rr_files r) (rr_findings r)) (\<lambda>_.
      requireE (\<not> (rr_verdict r = ReviewFindings \<and> rr_findings r = [])) ''empty-findings: FINDINGS verdict carries no findings''))))"

definition expected_ci :: "ReviewInput \<Rightarrow> string" where
  "expected_ci i = (if nonblank (ri_ci_status i) then trim_space (ri_ci_status i) else ''succeeded'')"

definition build_status :: "any \<Rightarrow> string" where
  "build_status v = (case object_of v of None \<Rightarrow> [] | Some b \<Rightarrow> stringField b [''status'', ''result''])"

definition ci_gate :: "review_codec \<Rightarrow> pr_caller \<Rightarrow> ReviewInput \<Rightarrow> any_object \<Rightarrow> string + unit" where
  "ci_gate R call i m =
     (if \<not> ri_require_ci i then Inr ()
      else case stringOrNumberField m [''mergeBuildId'', ''buildId''] of
        None \<Rightarrow> Inl ''ci-unknown: PR get response is missing build ID''
      | Some build \<Rightarrow>
          bindE (requireE (nonblank build) ''ci-unknown: PR get response is missing build ID'') (\<lambda>_.
          case call ''ado.build.status'' [(''action'', AText ''get_status''), (''buildId'', AText build)] of
            Inl e \<Rightarrow> Inl (''ci-unknown: '' @ rc_error R e)
          | Inr v \<Rightarrow>
              if \<not> nonblank (build_status v) then Inl ''ci-unknown: build status is missing''
              else if build_status v \<noteq> expected_ci i
              then Inl (''ci-failed: build status '' @ Quote (rc_quote R) (build_status v) @ '' does not satisfy required '' @
                     Quote (rc_quote R) (expected_ci i))
              else Inr ()))"

text \<open>The grant of the case must name the effect as an action and as a capability.\<close>

definition grant_gate :: "string \<Rightarrow> string \<Rightarrow> ReviewInput \<Rightarrow> string + unit" where
  "grant_gate effect what i =
     bindE (requireE (effect \<in> set (gr_actions (wc_grant (ri_case i))))
              (''grant-denies-'' @ effect @ '': grant does not permit '' @ what @ '' the PR'')) (\<lambda>_.
     requireE (effect \<in> set (gr_capabilities (wc_grant (ri_case i))))
       (''grant-denies-capability:'' @ effect @ '': grant does not permit '' @ what @ '' the PR''))"

subsection \<open>Decisions\<close>

definition renderComment :: "ReviewFinding \<Rightarrow> DecisionComment" where
  "renderComment f =
     (let place = (if rf_line f > 0 then rf_path f @ '':'' @ decimal (rf_line f) @ '': '' else rf_path f @ '': '') in
      \<lparr>dc_path = rf_path f, dc_line = rf_line f,
       dc_body = place @ rf_explanation f @
         (if nonblank (rf_evidence f) then newline @ newline @ ''Evidence: '' @ rf_evidence f else [])\<rparr>)"

definition hold_decision :: "string \<Rightarrow> ReviewDecision" where
  "hold_decision reason = \<lparr>rd_action = DecisionHoldAction, rd_comments = [], rd_vote = [], rd_reason = reason\<rparr>"

definition approve_decision :: "ReviewInput \<Rightarrow> ReviewDecision" where
  "approve_decision i =
     \<lparr>rd_action = DecisionApproveAction, rd_comments = [], rd_vote = ''approve'',
      rd_reason = ''review CLEAN for '' @ review_object i @ '' '' @ review_revision i @ ''; approving PR''\<rparr>"

definition comment_decision :: "ReviewInput \<Rightarrow> ReviewDecision" where
  "comment_decision i =
     (let comments = map renderComment (rr_findings (ri_review i)) in
      \<lparr>rd_action = DecisionCommentAction, rd_comments = comments, rd_vote = [],
       rd_reason = ''review found '' @ decimal (int (length comments)) @ '' findings for '' @ review_object i @ '' '' @
         review_revision i @ ''; commenting on PR''\<rparr>)"

subsection \<open>The assessment\<close>

text \<open>The request for the case: the decision is evidence, and the next work may use the effect that was decided.\<close>

definition review_assessment :: "ReviewInput \<Rightarrow> Verdict \<Rightarrow> string list \<Rightarrow> ReviewDecision \<Rightarrow> ID \<Rightarrow> AssessmentRequest" where
  "review_assessment i verdict effects x k =
     (let n = wc_next (ri_case i) in
      \<lparr>ar_case = wc_id (ri_case i), ar_work = ri_work i,
       ar_assessment = \<lparr>sm_verdict = verdict, sm_reason = rd_reason x, sm_evidence = [ri_evidence i, k],
         sm_next = Some \<lparr>wp_kind = ''publish-decision'', wp_required = wp_required n @ effects,
           wp_authority = wp_authority n @ effects, wp_actions = effects\<rparr>\<rparr>,
       ar_budget = ri_budget i, ar_signature = review_signature i\<rparr>)"

definition finish_review ::
  "review_codec \<Rightarrow> (nat \<Rightarrow> env) \<Rightarrow> ReviewInput \<Rightarrow> Verdict \<Rightarrow> string list \<Rightarrow> ReviewDecision \<Rightarrow> evidence_store \<Rightarrow>
   evidence_store \<times> ((work_decision \<times> workflow_case) \<times> ReviewDecision) res" where
  "finish_review R Es i verdict effects x s =
     (case Put (rc_sha R) (clk (Es 0) 0) (rnd (Es 0) 0) (rc_decision R x) ''application/json'' decision_kind s of
        (s1, Inl e) \<Rightarrow> (s1, Inl e)
      | (s1, Inr r) \<Rightarrow>
          (case Assess (rc_cases R) (Es 1) (review_assessment i verdict effects x (evi_id r)) (es_db s1) of
             (d, Inl e) \<Rightarrow> (s1\<lparr>es_db := d\<rparr>, Inl e)
           | (d, Inr y) \<Rightarrow> (s1\<lparr>es_db := d\<rparr>, Inr (y, x))))"

definition hold_review ::
  "review_codec \<Rightarrow> (nat \<Rightarrow> env) \<Rightarrow> ReviewInput \<Rightarrow> string \<Rightarrow> evidence_store \<Rightarrow>
   evidence_store \<times> ((work_decision \<times> workflow_case) \<times> ReviewDecision) res" where
  "hold_review R Es i reason s = finish_review R Es i VerdictUnknown [] (hold_decision reason) s"

definition valid_review_input :: "ReviewInput \<Rightarrow> unit res" where
  "valid_review_input i =
     bindE (requireE (nonblank (wc_id (ri_case i)) \<and> nonblank (ri_work i)) (Err ''case and work IDs are required'')) (\<lambda>_.
     bindE (requireE (nonblank (ri_evidence i)) (Err ''review evidence ID is required'')) (\<lambda>_.
     requireE (nonblank (ri_repo i) \<and> ri_pr i > 0 \<and> nonblank (ri_source i) \<and> nonblank (ri_target i))
       (Err ''review repo, pr, and commits are required'')))"

text \<open>All gates before the switch on the verdict.\<close>

definition review_gates :: "review_codec \<Rightarrow> pr_caller \<Rightarrow> ReviewInput \<Rightarrow> string + unit" where
  "review_gates R call i =
     bindE (fresh_pr R call i) (\<lambda>m. bindE (consistent_review R i) (\<lambda>_. ci_gate R call i m))"

definition AssessReview ::
  "review_codec \<Rightarrow> (nat \<Rightarrow> env) \<Rightarrow> pr_caller \<Rightarrow> ReviewInput \<Rightarrow> evidence_store \<Rightarrow>
   evidence_store \<times> ((work_decision \<times> workflow_case) \<times> ReviewDecision) res" where
  "AssessReview R Es call i s =
     (case valid_review_input i of Inl e \<Rightarrow> (s, Inl e) | Inr _ \<Rightarrow>
      case review_gates R call i of Inl reason \<Rightarrow> hold_review R Es i reason s | Inr _ \<Rightarrow>
      case rr_verdict (ri_review i) of
        ReviewUncertain \<Rightarrow> hold_review R Es i (uncertain_reason i) s
      | ReviewClean \<Rightarrow>
          if rr_findings (ri_review i) \<noteq> []
          then hold_review R Es i ''verdict-findings-mismatch: CLEAN verdict carries findings'' s
          else (case grant_gate effectApproveCapability ''approving'' i of
            Inl reason \<Rightarrow> hold_review R Es i reason s
          | Inr _ \<Rightarrow> finish_review R Es i VerdictContinue [effectApproveCapability] (approve_decision i) s)
      | ReviewFindings \<Rightarrow>
          (case grant_gate effectCommentCapability ''commenting on'' i of
             Inl reason \<Rightarrow> hold_review R Es i reason s
           | Inr _ \<Rightarrow> finish_review R Es i VerdictContinue [effectCommentCapability] (comment_decision i) s)
      | ReviewOther v \<Rightarrow> (s, Inl (Err ''invalid review verdict'')))"

subsection \<open>What a decision rests on\<close>

text \<open>The review covers the pull request as it is now, and the build passed where that is required.\<close>

definition current_review :: "pr_caller \<Rightarrow> ReviewInput \<Rightarrow> bool" where
  "current_review call i \<longleftrightarrow>
     (\<exists>m. call ''ado.pr.get'' (get_args i) = Inr (AObject m) \<and> live_source m = ri_source i \<and> live_target m = ri_target i \<and>
        ri_source i \<in> set (rr_commits (ri_review i)) \<and>
        (ri_require_ci i \<longrightarrow> (\<exists>build v. stringOrNumberField m [''mergeBuildId'', ''buildId''] = Some build \<and>
           call ''ado.build.status'' [(''action'', AText ''get_status''), (''buildId'', AText build)] = Inr v \<and>
           build_status v = expected_ci i)))"

definition granted :: "string \<Rightarrow> ReviewInput \<Rightarrow> bool" where
  "granted effect i \<longleftrightarrow> effect \<in> set (gr_actions (wc_grant (ri_case i))) \<and> effect \<in> set (gr_capabilities (wc_grant (ri_case i)))"

lemma object_of_Some: "object_of v = Some m \<longleftrightarrow> v = AObject m"
  by (cases v) auto

lemma fresh_pr_Inr:
  "fresh_pr R call i = Inr m \<Longrightarrow> call ''ado.pr.get'' (get_args i) = Inr (AObject m) \<and> live_source m = ri_source i \<and>
     live_target m = ri_target i \<and> ri_source i \<in> set (rr_commits (ri_review i))"
  by (auto simp: fresh_pr_def object_of_Some split: sum.splits option.splits if_splits)

lemma findings_problem_Inr: "findings_problem R files fs = Inr u \<Longrightarrow> rf_path ` set fs \<subseteq> set files"
  by (induction fs) (auto split: if_splits)

lemma consistent_review_Inr:
  assumes "consistent_review R i = Inr u"
  shows "rr_verdict (ri_review i) \<noteq> ReviewUncertain" "rr_verdict (ri_review i) = ReviewClean \<Longrightarrow> rr_findings (ri_review i) = []"
    "rr_verdict (ri_review i) = ReviewFindings \<Longrightarrow> rr_findings (ri_review i) \<noteq> []"
    "rf_path ` set (rr_findings (ri_review i)) \<subseteq> set (rr_files (ri_review i))"
  using assms by (auto simp: consistent_review_def Let_def bind_simps dest!: findings_problem_Inr)

lemma ci_gate_Inr:
  assumes "ci_gate R call i m = Inr u" and "ri_require_ci i"
  shows "\<exists>build v. stringOrNumberField m [''mergeBuildId'', ''buildId''] = Some build \<and>
    call ''ado.build.status'' [(''action'', AText ''get_status''), (''buildId'', AText build)] = Inr v \<and> build_status v = expected_ci i"
  using assms by (auto simp: ci_gate_def bind_simps split: option.splits sum.splits if_splits)

lemma review_gates_Inr:
  assumes "review_gates R call i = Inr u"
  shows "current_review call i" "\<exists>u. consistent_review R i = Inr u"
proof -
  obtain m u1 where "fresh_pr R call i = Inr m" "consistent_review R i = Inr u1" "ci_gate R call i m = Inr u"
    using assms by (auto simp: review_gates_def bind_simps)
  then show "current_review call i" "\<exists>u. consistent_review R i = Inr u"
    using fresh_pr_Inr [of R call i m] ci_gate_Inr [of R call i m u] by (auto simp: current_review_def)
qed

lemma grant_gate_Inr: "grant_gate effect what i = Inr u \<Longrightarrow> granted effect i"
  by (simp add: grant_gate_def granted_def bind_simps)

text \<open>The decision, as a function of the answers alone.\<close>

definition decide_review :: "review_codec \<Rightarrow> pr_caller \<Rightarrow> ReviewInput \<Rightarrow> ReviewDecision \<times> string list" where
  "decide_review R call i =
     (case review_gates R call i of Inl reason \<Rightarrow> (hold_decision reason, []) | Inr _ \<Rightarrow>
      case rr_verdict (ri_review i) of
        ReviewClean \<Rightarrow> (case grant_gate effectApproveCapability ''approving'' i of
          Inl reason \<Rightarrow> (hold_decision reason, []) | Inr _ \<Rightarrow> (approve_decision i, [effectApproveCapability]))
      | ReviewFindings \<Rightarrow> (case grant_gate effectCommentCapability ''commenting on'' i of
          Inl reason \<Rightarrow> (hold_decision reason, []) | Inr _ \<Rightarrow> (comment_decision i, [effectCommentCapability]))
      | _ \<Rightarrow> (hold_decision (uncertain_reason i), []))"

lemma AssessReview_Inr:
  assumes "AssessReview R Es call i s = (s', Inr (y, x))"
  shows "\<exists>effects. decide_review R call i = (x, effects) \<and>
    finish_review R Es i (if effects = [] then VerdictUnknown else VerdictContinue) effects x s = (s', Inr (y, x))"
proof -
  have x: "finish_review R Es i v es x' s = (s', Inr (y, x)) \<Longrightarrow> x' = x" for v es x'
    by (auto simp: finish_review_def split: prod.splits sum.splits)
  show ?thesis
  proof (cases "review_gates R call i")
    case (Inl reason)
    then show ?thesis
      using assms by (auto simp: AssessReview_def decide_review_def hold_review_def split: sum.splits dest: x)
  next
    case (Inr u)
    note review_gates_Inr(2) [OF Inr]
    then have c: "rr_verdict (ri_review i) \<noteq> ReviewUncertain" "rr_verdict (ri_review i) = ReviewClean \<Longrightarrow> rr_findings (ri_review i) = []"
      using consistent_review_Inr by blast+
    show ?thesis
      using assms Inr c
      by (auto simp: AssessReview_def decide_review_def hold_review_def split: sum.splits ReviewVerdict.splits if_splits dest: x)
  qed
qed

lemma decide_review_cases:
  assumes "decide_review R call i = (x, effects)"
  shows "effects = [] \<and> x = hold_decision (rd_reason x) \<or>
    effects = [effectApproveCapability] \<and> x = approve_decision i \<and> rr_verdict (ri_review i) = ReviewClean \<and> rr_findings (ri_review i) = [] \<and>
      granted effectApproveCapability i \<and> current_review call i \<or>
    effects = [effectCommentCapability] \<and> x = comment_decision i \<and> rr_verdict (ri_review i) = ReviewFindings \<and> rr_findings (ri_review i) \<noteq> [] \<and>
      rf_path ` set (rr_findings (ri_review i)) \<subseteq> set (rr_files (ri_review i)) \<and> granted effectCommentCapability i \<and> current_review call i"
proof (cases "review_gates R call i")
  case (Inl reason)
  then show ?thesis using assms by (auto simp: decide_review_def hold_decision_def)
next
  case (Inr u)
  obtain u1 where c: "consistent_review R i = Inr u1" using review_gates_Inr(2) [OF Inr] by blast
  note facts = review_gates_Inr(1) [OF Inr] consistent_review_Inr [OF c]
  show ?thesis
    using assms Inr facts
    by (auto simp: decide_review_def hold_decision_def dest!: grant_gate_Inr split: sum.splits ReviewVerdict.splits)
qed

lemma finish_review_Inr:
  assumes "finish_review R Es i verdict effects x s = (s', Inr (y, x'))"
  obtains s1 r d where "Put (rc_sha R) (clk (Es 0) 0) (rnd (Es 0) 0) (rc_decision R x) ''application/json'' decision_kind s = (s1, Inr r)"
    "Assess (rc_cases R) (Es 1) (review_assessment i verdict effects x (evi_id r)) (es_db s1) = (d, Inr y)"
    "s' = s1\<lparr>es_db := d\<rparr>"
  using assms by (auto simp: finish_review_def split: prod.splits sum.splits)

lemma Assess_evidence: "db_evidence (fst (Assess J E q d)) = db_evidence d"
  by (auto simp: Assess_def with_tx_def assessTx_def assess_new_def Let_def bindE_def write_case_def insert_assessment_def
      split: sum.splits option.splits)

lemma Assess_first:
  assumes "Assess J E q d = (d', Inr (dec, c))" and "find_by (\<lambda>x. (as_case x, as_work x)) (ar_case q, ar_work q) (db_assessments d) = None"
  shows "\<exists>c0. Decide (assess_input c0 q) = Inr dec \<and> c = next_case (rnd E 0) q dec c0"
proof -
  have "assessTx J E q d = Inr ((dec, c), d')" using assms(1) by (simp add: Assess_def with_tx_Inr_iff split: if_splits)
  then obtain c0 where "assess_new J E q c0 d = Inr ((dec, c), d')" using assms(2) by (auto simp: assessTx_def split: option.splits)
  then show ?thesis by (auto elim: assess_new_Inr)
qed

lemma Put_assessments: "db_assessments (es_db (fst (Put sha now rand content media kind s))) = db_assessments (es_db s)"
  by (auto simp: Put_def Let_def split: sum.split)

lemma decision_kind_trimmed: "trim_space decision_kind = decision_kind"
  unfolding decision_kind_def by (rule trim_space_plain; code_simp)

subsection \<open>A review to evaluate on\<close>

definition demo_review_codec :: review_codec where
  "demo_review_codec = \<lparr>rc_cases = demo_case_codec, rc_decision = rd_reason, rc_sha = demo_sha, rc_error = (\<lambda>e. ''error''), rc_quote = (\<lambda>s. s)\<rparr>"

definition demo_pr_case :: "db \<times> workflow_case res" where
  "demo_pr_case = Ensure demo_case_codec demo_env (demo_observation\<lparr>on_grant :=
     \<lparr>gr_capabilities = [''read'', ''ado.pr.approve''], gr_actions = [''ado.pr.approve'']\<rparr>\<rparr>) demo_mission"

definition demo_review_store :: evidence_store where
  "demo_review_store = \<lparr>es_db = fst demo_pr_case, es_blobs = Map.empty\<rparr>"

definition demo_review_input :: "ReviewVerdict \<Rightarrow> ReviewInput" where
  "demo_review_input v = \<lparr>ri_case = scanCase (hd (db_cases (fst demo_pr_case))), ri_work = ''work_1'',
     ri_review = \<lparr>rr_verdict = v, rr_commits = [''a''], rr_files = [''f''], rr_findings = [], rr_reason = ''r''\<rparr>,
     ri_evidence = ''e1'', ri_repo = ''repo'', ri_pr = 7, ri_source = ''a'', ri_target = ''b'', ri_project = [], ri_require_ci = True,
     ri_ci_status = [], ri_budget = 3\<rparr>"

definition demo_ado :: pr_caller where
  "demo_ado capability args =
     (if capability = ''ado.pr.get''
      then Inr (AObject [(''sourceCommit'', AText ''a''), (''targetCommit'', AText ''b''), (''buildId'', AInt 12)])
      else Inr (AObject [(''result'', AText ''succeeded'')]))"

definition demo_assess :: "ReviewVerdict \<Rightarrow> evidence_store \<times> ((work_decision \<times> workflow_case) \<times> ReviewDecision) res" where
  "demo_assess v = AssessReview demo_review_codec (\<lambda>n. demo_env) demo_ado (demo_review_input v) demo_review_store"

lemma demo_assess_clean:
  "\<exists>s' dec c. demo_assess ReviewClean = (s', Inr ((dec, c), approve_decision (demo_review_input ReviewClean))) \<and> wc_state c = CaseActive"
proof -
  have run: "(case snd (demo_assess ReviewClean) of Inr ((dec, c), x) \<Rightarrow>
      x = approve_decision (demo_review_input ReviewClean) \<and> wc_state c = CaseActive | Inl e \<Rightarrow> False)"
    by code_simp
  then show ?thesis by (cases "demo_assess ReviewClean") (auto split: sum.splits)
qed

subsection \<open>Properties\<close>

text \<open>
  C32. A decision is justified. When the assessment of a review succeeds, an approval means a CLEAN verdict without findings and a
  comment exactly one comment for each finding, all of them in reviewed files; both only when the live pull request has the commits that
  were reviewed, the required build passed, and the grant names the effect as action and capability. Everything else is held, and a
  held review, assessed for the first time, blocks the case. The decision is stored as evidence.
\<close>

theorem review_decision_is_justified:
  assumes "AssessReview R Es call i s = (s', Inr ((dec, c), x))"
  shows "(x = hold_decision (rd_reason x) \<or>
      x = approve_decision i \<and> rr_verdict (ri_review i) = ReviewClean \<and> rr_findings (ri_review i) = [] \<and>
        granted effectApproveCapability i \<and> current_review call i \<or>
      x = comment_decision i \<and> rr_verdict (ri_review i) = ReviewFindings \<and> rr_findings (ri_review i) \<noteq> [] \<and>
        rf_path ` set (rr_findings (ri_review i)) \<subseteq> set (rr_files (ri_review i)) \<and>
        granted effectCommentCapability i \<and> current_review call i) \<and>
    (rd_action x = DecisionHoldAction \<and>
      find_by (\<lambda>y. (as_case y, as_work y)) (wc_id (ri_case i), ri_work i) (db_assessments (es_db s)) = None \<longrightarrow> wc_state c = CaseBlocked) \<and>
    (\<exists>r \<in> set (db_evidence (es_db s')). evi_kind r = decision_kind \<and> evi_hash r = rc_sha R (rc_decision R x))"
proof -
  obtain effects where run: "decide_review R call i = (x, effects)"
    "finish_review R Es i (if effects = [] then VerdictUnknown else VerdictContinue) effects x s = (s', Inr ((dec, c), x))"
    using AssessReview_Inr [OF assms] by blast
  let ?v = "if effects = [] then VerdictUnknown else VerdictContinue"
  obtain s1 r d where put: "Put (rc_sha R) (clk (Es 0) 0) (rnd (Es 0) 0) (rc_decision R x) ''application/json'' decision_kind s = (s1, Inr r)"
    and step: "Assess (rc_cases R) (Es 1) (review_assessment i ?v effects x (evi_id r)) (es_db s1) = (d, Inr (dec, c))"
    and s': "s' = s1\<lparr>es_db := d\<rparr>" using run(2) by (rule finish_review_Inr)
  note decided = decide_review_cases [OF run(1)]
  have stored: "r \<in> set (db_evidence (es_db s'))" "evi_kind r = decision_kind" "evi_hash r = rc_sha R (rc_decision R x)"
    using put Assess_evidence [of "rc_cases R" "Es 1" "review_assessment i ?v effects x (evi_id r)" "es_db s1"] step s' decision_kind_trimmed
    by (auto elim!: Put_Inr simp: evidence_row_of_def)
  have "wc_state c = CaseBlocked" if first: "find_by (\<lambda>y. (as_case y, as_work y)) (wc_id (ri_case i), ri_work i) (db_assessments (es_db s)) = None"
    and hold: "rd_action x = DecisionHoldAction"
  proof -
    have "effects = []" using decided hold
      by (auto simp: approve_decision_def comment_decision_def Let_def DecisionHoldAction_def DecisionApproveAction_def DecisionCommentAction_def)
    moreover have "db_assessments (es_db s1) = db_assessments (es_db s)"
      using Put_assessments [of "rc_sha R" "clk (Es 0) 0" "rnd (Es 0) 0" "rc_decision R x" "''application/json''" decision_kind s] put by simp
    ultimately obtain c0 where "Decide (assess_input c0 (review_assessment i VerdictUnknown [] x (evi_id r))) = Inr dec"
      "c = next_case (rnd (Es 1) 0) (review_assessment i VerdictUnknown [] x (evi_id r)) dec c0"
      using Assess_first [OF step] first by (auto simp: review_assessment_def Let_def)
    then show ?thesis
      by (auto simp: Decide_evidence_first judge_def assess_input_def review_assessment_def next_case_def Let_def)
  qed
  with decided stored show ?thesis by blast
qed

lemma review_decision_is_justified_witness:
  "\<exists>s' dec c. demo_assess ReviewClean = (s', Inr ((dec, c), approve_decision (demo_review_input ReviewClean))) \<and> wc_state c = CaseActive \<and>
     granted effectApproveCapability (demo_review_input ReviewClean) \<and> current_review demo_ado (demo_review_input ReviewClean)"
proof -
  let ?i = "demo_review_input ReviewClean"
  obtain s' dec c where run: "demo_assess ReviewClean = (s', Inr ((dec, c), approve_decision ?i))" "wc_state c = CaseActive"
    using demo_assess_clean by blast
  have "approve_decision ?i \<noteq> hold_decision (rd_reason (approve_decision ?i))" "rr_verdict (ri_review ?i) = ReviewClean"
    by (simp_all add: approve_decision_def hold_decision_def DecisionApproveAction_def DecisionHoldAction_def demo_review_input_def)
  with review_decision_is_justified [OF run(1) [unfolded demo_assess_def]] run show ?thesis by auto
qed

end
