(* ===== verification/Review_Effects.thy ===== *)
theory Review_Effects
  imports Operations Regexp Go_Values
begin

text \<open>
  The effects on a pull request (\<open>internal/adoeffects/effects.go\<close>): the providers of a comment and of an approving vote. The session
  with Azure DevOps is the argument \<open>write\<close> or \<open>read\<close>; the JSON of the intents, SHA-256 and the printing of values that are not texts
  are \<open>ado_codec\<close>. A descriptor carries its Go type as a name and its fields as JSON.
\<close>

subsection \<open>Intents\<close>

record CommentIntent =
  ci_project :: string
  ci_repository :: string
  ci_pr :: int
  ci_path :: string
  ci_line :: int
  ci_body :: string
  ci_marker :: string

record VoteIntent =
  vi_project :: string
  vi_repository :: string
  vi_pr :: int
  vi_vote :: int

record ado_codec =
  ac_comment :: "CommentIntent \<Rightarrow> string"
  ac_read_comment :: "string \<Rightarrow> CommentIntent res"
  ac_vote :: "VoteIntent \<Rightarrow> string"
  ac_read_vote :: "string \<Rightarrow> VoteIntent res"
  ac_sha :: "string \<Rightarrow> string"
  ac_print :: "any \<Rightarrow> string"
  ac_float :: "string \<Rightarrow> float64 option"

definition approveVote :: int where
  "approveVote = 10"

definition comment_type :: string where "comment_type = ''ado.pr.comment''"

definition vote_type :: string where "vote_type = ''ado.pr.approve''"

definition comment_descriptor :: "ado_codec \<Rightarrow> CommentIntent \<Rightarrow> intent" where
  "comment_descriptor A i = \<lparr>it_type = comment_type, it_body = ac_comment A i\<rparr>"

definition vote_descriptor :: "ado_codec \<Rightarrow> VoteIntent \<Rightarrow> intent" where
  "vote_descriptor A i = \<lparr>it_type = vote_type, it_body = ac_vote A i\<rparr>"

text \<open>What both \<open>CanonicalIntent\<close> methods do with their own descriptor.\<close>

definition canonical_comment :: "CommentIntent \<Rightarrow> CommentIntent res" where
  "canonical_comment raw =
     (let i = raw\<lparr>ci_project := trim_space (ci_project raw), ci_repository := trim_space (ci_repository raw),
                 ci_path := trim_space (ci_path raw), ci_body := trim_space (ci_body raw), ci_marker := trim_space (ci_marker raw)\<rparr> in
      if ci_project i = [] \<or> ci_repository i = [] \<or> ci_pr i \<le> 0 \<or> ci_body i = [] \<or> ci_marker i = []
      then Inl (Err ''ADO comment intent requires project, repository, PR, body, and marker'') else Inr i)"

definition canonical_vote :: "VoteIntent \<Rightarrow> VoteIntent res" where
  "canonical_vote raw =
     (let i = raw\<lparr>vi_project := trim_space (vi_project raw), vi_repository := trim_space (vi_repository raw)\<rparr> in
      if vi_project i = [] \<or> vi_repository i = [] \<or> vi_pr i \<le> 0
      then Inl (Err ''ADO vote intent requires project, repository, and PR'')
      else if vi_vote i \<noteq> approveVote then Inl (Err ''ADO vote intent rejects vote: only the approve vote is supported'')
      else Inr i)"

definition CommentCanonicalIntent :: "ado_codec \<Rightarrow> intent \<Rightarrow> string res" where
  "CommentCanonicalIntent A descriptor =
     (if it_type descriptor \<noteq> comment_type then Inl (Err ''comment provider rejects descriptor type'')
      else bindE (ac_read_comment A (it_body descriptor)) (\<lambda>raw. bindE (canonical_comment raw) (\<lambda>i. Inr (ac_comment A i))))"

definition VoteCanonicalIntent :: "ado_codec \<Rightarrow> intent \<Rightarrow> string res" where
  "VoteCanonicalIntent A descriptor =
     (if it_type descriptor \<noteq> vote_type then Inl (Err ''vote provider rejects descriptor type'')
      else bindE (ac_read_vote A (it_body descriptor)) (\<lambda>raw. bindE (canonical_vote raw) (\<lambda>i. Inr (ac_vote A i))))"

definition ado_cost :: "string \<Rightarrow> CostProfile" where
  "ado_cost source = \<lparr>cp_exposure = 1, cp_enforceability =
     \<lparr>en_cost_control = CostTechnicallyCapped, en_require_hard_cap = False, en_source = source\<rparr>\<rparr>"

text \<open>The configuration of both providers; the time limit of a call is not modelled.\<close>

definition organization_name :: "string \<Rightarrow> bool" where
  "organization_name = token_text letter_or_digit (\<lambda>c. letter_or_digit c \<or> c \<in> set ''_-'') 49"

definition validateConfig :: "string \<Rightarrow> string \<Rightarrow> (string \<times> string) res" where
  "validateConfig command organization =
     (if trim_space command = [] \<or> \<not> organization_name (trim_space organization)
      then Inl (Err ''ADO effects requires an executable and a valid organization name'')
      else Inr (trim_space command, trim_space organization))"

definition comment_provider :: "ado_codec \<Rightarrow> Provider" where
  "comment_provider A =
     \<lparr>pv_name = ''ado-pr-comment'', pv_capability = ''ado.pr.comment'', pv_enforcement = EnforcementEnforced,
      pv_adapter = ''ado-effects-v1'', pv_semantic = False, pv_canonical = CommentCanonicalIntent A,
      pv_cost = (\<lambda>descriptor. bindE (CommentCanonicalIntent A descriptor) (\<lambda>_. Inr (ado_cost ''ado pr comment'')))\<rparr>"

definition vote_provider :: "ado_codec \<Rightarrow> Provider" where
  "vote_provider A =
     \<lparr>pv_name = ''ado-pr-vote'', pv_capability = ''ado.pr.approve'', pv_enforcement = EnforcementEnforced,
      pv_adapter = ''ado-effects-v1'', pv_semantic = False, pv_canonical = VoteCanonicalIntent A,
      pv_cost = (\<lambda>descriptor. bindE (VoteCanonicalIntent A descriptor) (\<lambda>_. Inr (ado_cost ''ado pr vote'')))\<rparr>"

text \<open>A canonical intent is decoded strictly and validated once more; its fields are used as they were stored.\<close>

definition decodeCommentIntent :: "ado_codec \<Rightarrow> string \<Rightarrow> CommentIntent res" where
  "decodeCommentIntent A canonical =
     bindE (ac_read_comment A canonical) (\<lambda>i. bindE (canonical_comment i) (\<lambda>_. Inr i))"

definition decodeVoteIntent :: "ado_codec \<Rightarrow> string \<Rightarrow> VoteIntent res" where
  "decodeVoteIntent A canonical =
     bindE (ac_read_vote A canonical) (\<lambda>i. bindE (canonical_vote i) (\<lambda>_. Inr i))"

subsection \<open>Reading answers\<close>

definition print_any :: "ado_codec \<Rightarrow> any \<Rightarrow> string" where
  "print_any A v = (case v of AText s \<Rightarrow> s | ANull \<Rightarrow> ''<nil>'' | _ \<Rightarrow> ac_print A v)"

text \<open>The first of the keys with a text that says something.\<close>

fun identity_field :: "ado_codec \<Rightarrow> any_object \<Rightarrow> string list \<Rightarrow> string option" where
  "identity_field A m [] = None"
| "identity_field A m (k # ks) =
     (case map_of m k of
        None \<Rightarrow> identity_field A m ks
      | Some v \<Rightarrow> let t = trim_space (print_any A v) in if t \<noteq> [] \<and> t \<noteq> ''<nil>'' then Some t else identity_field A m ks)"

definition anySlice :: "any option \<Rightarrow> any list" where
  "anySlice v = (case items_of v of None \<Rightarrow> [] | Some xs \<Rightarrow> xs)"

definition contains_text :: "string \<Rightarrow> string \<Rightarrow> bool" where
  "contains_text s m = list_ex (\<lambda>i. take (length m) (drop i s) = m) [0..<length s + 1]"

definition comment_texts :: "any_object \<Rightarrow> string list" where
  "comment_texts thread = map (\<lambda>c. text_of (map_of c ''content'')) (List.map_filter object_of (anySlice (map_of thread ''comments'')))"

definition thread_marked :: "string \<Rightarrow> any_object \<Rightarrow> bool" where
  "thread_marked marker thread = list_ex (\<lambda>content. content \<noteq> [] \<and> contains_text content marker) (comment_texts thread)"

definition threadIdentity :: "ado_codec \<Rightarrow> any_object \<Rightarrow> string" where
  "threadIdentity A thread = (case identity_field A thread [''threadId'', ''thread_id'', ''id''] of None \<Rightarrow> [] | Some t \<Rightarrow> t)"

definition threadContainsMarker :: "ado_codec \<Rightarrow> any \<Rightarrow> string \<Rightarrow> string option" where
  "threadContainsMarker A raw marker =
     (case object_of raw of
        None \<Rightarrow> None
      | Some payload \<Rightarrow>
          if marker = [] then None
          else map_option (threadIdentity A)
            (find (thread_marked marker) (List.map_filter object_of (anySlice (map_of payload ''threads'')))))"

fun voteEquals :: "ado_codec \<Rightarrow> any option \<Rightarrow> int \<Rightarrow> bool" where
  "voteEquals A (Some (AFloat x)) want = (x = Finite (of_int want))"
| "voteEquals A (Some (AInt n)) want = (n = want)"
| "voteEquals A (Some (ANumber s)) want =
     (case ParseInt s of Some n \<Rightarrow> n = want | None \<Rightarrow> ac_float A s = Some (Finite (of_int want)))"
| "voteEquals A _ want = False"

definition reviewersContainVote :: "ado_codec \<Rightarrow> any \<Rightarrow> int \<Rightarrow> bool" where
  "reviewersContainVote A raw vote =
     (case object_of raw of
        None \<Rightarrow> False
      | Some payload \<Rightarrow>
          list_ex (\<lambda>r. voteEquals A (map_of r ''vote'') vote) (List.map_filter object_of (anySlice (map_of payload ''reviewers''))))"

subsection \<open>Writing and looking up\<close>

definition commentReference :: "ado_codec \<Rightarrow> CommentIntent \<Rightarrow> string \<Rightarrow> string" where
  "commentReference A i thread =
     (let t = (if trim_space thread = [] then take 8 (ac_sha A (ci_marker i)) else trim_space thread) in
      ''ado-pr-comment:'' @ ci_repository i @ ''#'' @ decimal (ci_pr i) @ '':'' @ t)"

definition voteReference :: "VoteIntent \<Rightarrow> string" where
  "voteReference i =
     ''ado-pr-vote:'' @ vi_project i @ ''/'' @ vi_repository i @ ''/'' @ decimal (vi_pr i) @ ''/'' @ decimal (vi_vote i)"

type_synonym tool_call = "string \<times> any_object"

text \<open>The one call a dispatch makes.\<close>

definition comment_call :: "CommentIntent \<Rightarrow> tool_call" where
  "comment_call i =
     (''repo_pull_request_thread_write'',
      [(''action'', AText ''create''), (''project'', AText (ci_project i)), (''repository'', AText (ci_repository i)),
       (''pullRequestId'', AInt (ci_pr i)),
       (''thread'', AObject [(''comments'', AList [AObject [(''content'', AText (ci_body i @ newline @ ci_marker i))]]),
         (''status'', AText ''active'')])])"

definition vote_call :: "VoteIntent \<Rightarrow> tool_call" where
  "vote_call i =
     (''repo_pull_request_write'',
      [(''action'', AText ''vote''), (''project'', AText (vi_project i)), (''repository'', AText (vi_repository i)),
       (''pullRequestId'', AInt (vi_pr i)), (''vote'', AInt (vi_vote i))])"

definition comment_dispatch :: "ado_codec \<Rightarrow> (tool_call \<Rightarrow> any_object res) \<Rightarrow> answer" where
  "comment_dispatch A write rq =
     bindE (decodeCommentIntent A (rq_canonical rq)) (\<lambda>i.
     bindE (write (comment_call i)) (\<lambda>result.
     let thread = (case identity_field A result [''threadId'', ''thread_id'', ''id''] of None \<Rightarrow> [] | Some t \<Rightarrow> t) in
     Inr \<lparr>out_state = OperationConfirmedEffect, out_reference = commentReference A i thread, out_cost = 1\<rparr>))"

definition vote_dispatch :: "ado_codec \<Rightarrow> (tool_call \<Rightarrow> any_object res) \<Rightarrow> answer" where
  "vote_dispatch A write rq =
     bindE (decodeVoteIntent A (rq_canonical rq)) (\<lambda>i.
     bindE (write (vote_call i)) (\<lambda>result.
     let reference = (case identity_field A result [''id'', ''voteId'', ''vote_id''] of None \<Rightarrow> voteReference i | Some t \<Rightarrow> t) in
     Inr \<lparr>out_state = OperationConfirmedEffect, out_reference = reference, out_cost = 1\<rparr>))"

definition unknown_outcome :: ProviderOutcome where
  "unknown_outcome = \<lparr>out_state = OperationOutcomeUnknown, out_reference = [], out_cost = 0\<rparr>"

definition comment_lookup :: "ado_codec \<Rightarrow> (string \<Rightarrow> any_object \<Rightarrow> any res) \<Rightarrow> answer" where
  "comment_lookup A read rq =
     bindE (decodeCommentIntent A (rq_canonical rq)) (\<lambda>i.
     case read ''ado.pr.threads'' [(''action'', AText ''list''), (''project'', AText (ci_project i)),
            (''repository'', AText (ci_repository i)), (''pullRequestId'', AInt (ci_pr i))] of
       Inl e \<Rightarrow> Inr unknown_outcome
     | Inr raw \<Rightarrow>
         (case threadContainsMarker A raw (ci_marker i) of
            None \<Rightarrow> Inr unknown_outcome
          | Some thread \<Rightarrow>
              Inr \<lparr>out_state = OperationConfirmedEffect, out_reference = commentReference A i thread, out_cost = 0\<rparr>))"

definition vote_lookup :: "ado_codec \<Rightarrow> (string \<Rightarrow> any_object \<Rightarrow> any res) \<Rightarrow> answer" where
  "vote_lookup A read rq =
     bindE (decodeVoteIntent A (rq_canonical rq)) (\<lambda>i.
     case read ''ado.pr.get'' [(''action'', AText ''get''), (''project'', AText (vi_project i)),
            (''repository'', AText (vi_repository i)), (''pullRequestId'', AInt (vi_pr i))] of
       Inl e \<Rightarrow> Inr unknown_outcome
     | Inr raw \<Rightarrow>
         Inr (if reviewersContainVote A raw (vi_vote i)
              then \<lparr>out_state = OperationConfirmedEffect, out_reference = voteReference i, out_cost = 0\<rparr> else unknown_outcome))"

subsection \<open>What a canonical intent decodes to\<close>

lemma contains_text_iff: "contains_text s m \<longleftrightarrow> (\<exists>pre post. s = pre @ m @ post)"
proof
  assume "contains_text s m"
  then obtain i where "take (length m) (drop i s) = m" by (auto simp: contains_text_def list_ex_iff)
  then have "s = take i s @ m @ drop (length m) (drop i s)" by (metis append_take_drop_id)
  then show "\<exists>pre post. s = pre @ m @ post" by blast
next
  assume "\<exists>pre post. s = pre @ m @ post"
  then obtain pre post where s: "s = pre @ m @ post" by blast
  then have "take (length m) (drop (length pre) s) = m" "length pre \<in> set [0..<length s + 1]" by auto
  then show "contains_text s m" unfolding contains_text_def list_ex_iff by blast
qed

lemma canonical_comment_idem: "canonical_comment i = Inr j \<Longrightarrow> canonical_comment j = Inr j"
  by (auto simp: canonical_comment_def Let_def split: if_splits)

lemma canonical_vote_idem: "canonical_vote i = Inr j \<Longrightarrow> canonical_vote j = Inr j \<and> vi_vote j = approveVote"
  by (auto simp: canonical_vote_def Let_def split: if_splits)

text \<open>Decoding gives back what was encoded, for an intent and its canonical form.\<close>

definition comment_reads_back :: "ado_codec \<Rightarrow> CommentIntent \<Rightarrow> bool" where
  "comment_reads_back A i \<longleftrightarrow> ac_read_comment A (ac_comment A i) = Inr i \<and>
     (\<forall>j. canonical_comment i = Inr j \<longrightarrow> ac_read_comment A (ac_comment A j) = Inr j)"

definition vote_reads_back :: "ado_codec \<Rightarrow> VoteIntent \<Rightarrow> bool" where
  "vote_reads_back A i \<longleftrightarrow> ac_read_vote A (ac_vote A i) = Inr i \<and>
     (\<forall>j. canonical_vote i = Inr j \<longrightarrow> ac_read_vote A (ac_vote A j) = Inr j)"

lemma decode_canonical_comment:
  assumes "comment_reads_back A i" and "CommentCanonicalIntent A (comment_descriptor A i) = Inr c"
  shows "\<exists>j. canonical_comment i = Inr j \<and> c = ac_comment A j \<and> decodeCommentIntent A c = Inr j"
proof -
  obtain j where j: "canonical_comment i = Inr j" "c = ac_comment A j"
    using assms by (auto simp: CommentCanonicalIntent_def comment_descriptor_def comment_reads_back_def bindE_Inr_iff)
  then show ?thesis using assms(1) canonical_comment_idem [OF j(1)] by (simp add: decodeCommentIntent_def comment_reads_back_def)
qed

lemma decode_canonical_vote:
  assumes "vote_reads_back A i" and "VoteCanonicalIntent A (vote_descriptor A i) = Inr c"
  shows "\<exists>j. canonical_vote i = Inr j \<and> c = ac_vote A j \<and> decodeVoteIntent A c = Inr j"
proof -
  obtain j where j: "canonical_vote i = Inr j" "c = ac_vote A j"
    using assms by (auto simp: VoteCanonicalIntent_def vote_descriptor_def vote_reads_back_def bindE_Inr_iff)
  then show ?thesis using assms(1) canonical_vote_idem [OF j(1)] by (simp add: decodeVoteIntent_def vote_reads_back_def)
qed

lemma map_filter_object_of: "m \<in> set (List.map_filter object_of xs) \<longleftrightarrow> AObject m \<in> set xs"
proof -
  have "object_of v = Some m \<longleftrightarrow> v = AObject m" for v by (cases v) auto
  then show ?thesis by (force simp: List.map_filter_def)
qed

text \<open>The contents of all comments in an answer with threads.\<close>

definition contents_in :: "any \<Rightarrow> string set" where
  "contents_in raw = {content. \<exists>m ts t cs c. raw = AObject m \<and> map_of m ''threads'' = Some (AList ts) \<and> AObject t \<in> set ts \<and>
     map_of t ''comments'' = Some (AList cs) \<and> AObject c \<in> set cs \<and> map_of c ''content'' = Some (AText content)}"

lemma items_of_Some: "items_of v = Some xs \<longleftrightarrow> v = Some (AList xs)"
  by (induct v rule: items_of.induct) auto

lemma anySlice_iff: "x \<in> set (anySlice v) \<longleftrightarrow> (\<exists>xs. v = Some (AList xs) \<and> x \<in> set xs)"
  unfolding items_of_Some [symmetric] by (cases "items_of v") (simp_all add: anySlice_def)

lemma text_of_nonempty: "text_of v \<noteq> [] \<Longrightarrow> v = Some (AText (text_of v))"
  by (induct v rule: text_of.induct) auto

lemma thread_marked_iff:
  "thread_marked marker t \<longleftrightarrow> (\<exists>cs c content. map_of t ''comments'' = Some (AList cs) \<and> AObject c \<in> set cs \<and>
     map_of c ''content'' = Some (AText content) \<and> content \<noteq> [] \<and> contains_text content marker)"
proof
  assume "thread_marked marker t"
  then obtain c where c: "AObject c \<in> set (anySlice (map_of t ''comments''))" "text_of (map_of c ''content'') \<noteq> []"
    "contains_text (text_of (map_of c ''content'')) marker"
    by (auto simp: thread_marked_def comment_texts_def list_ex_iff map_filter_object_of)
  then show "\<exists>cs c content. map_of t ''comments'' = Some (AList cs) \<and> AObject c \<in> set cs \<and>
     map_of c ''content'' = Some (AText content) \<and> content \<noteq> [] \<and> contains_text content marker"
    using text_of_nonempty [OF c(2)] unfolding anySlice_iff by blast
next
  assume "\<exists>cs c content. map_of t ''comments'' = Some (AList cs) \<and> AObject c \<in> set cs \<and>
     map_of c ''content'' = Some (AText content) \<and> content \<noteq> [] \<and> contains_text content marker"
  then obtain cs c content where c: "map_of t ''comments'' = Some (AList cs)" "AObject c \<in> set cs"
    "map_of c ''content'' = Some (AText content)" "content \<noteq> []" "contains_text content marker" by blast
  then have "c \<in> set (List.map_filter object_of (anySlice (map_of t ''comments'')))" by (simp add: map_filter_object_of anySlice_def)
  then show "thread_marked marker t" unfolding thread_marked_def comment_texts_def list_ex_iff
    using c(3-5) by (intro bexI [of _ content]) (auto intro!: image_eqI [of _ _ c])
qed

lemma threadContainsMarker_iff:
  "threadContainsMarker A raw marker \<noteq> None \<longleftrightarrow> marker \<noteq> [] \<and> (\<exists>content \<in> contents_in raw. contains_text content marker)"
proof (cases "object_of raw")
  case None
  then have "contents_in raw = {}" by (cases raw) (auto simp: contents_in_def)
  with None show ?thesis by (simp add: threadContainsMarker_def)
next
  case (Some m)
  then have raw: "raw = AObject m" by (cases raw) auto
  have ne: "content \<noteq> []" if "contains_text content marker" "marker \<noteq> []" for content using that by (auto simp: contains_text_iff)
  have "threadContainsMarker A raw marker \<noteq> None \<longleftrightarrow>
      marker \<noteq> [] \<and> (\<exists>t. t \<in> set (List.map_filter object_of (anySlice (map_of m ''threads''))) \<and> thread_marked marker t)"
    using Some find_None_iff [of "thread_marked marker" "List.map_filter object_of (anySlice (map_of m ''threads''))"]
    by (auto simp: threadContainsMarker_def)
  also have "\<dots> \<longleftrightarrow> marker \<noteq> [] \<and> (\<exists>content \<in> contents_in raw. contains_text content marker)"
    unfolding map_filter_object_of anySlice_iff thread_marked_iff contents_in_def raw using ne by (auto; blast)
  finally show ?thesis .
qed

subsection \<open>Properties\<close>

text \<open>The two calls on the threads of a pull request that the service offers: creating one and listing them.\<close>

definition create_thread :: "string \<Rightarrow> string \<Rightarrow> int \<Rightarrow> any \<Rightarrow> tool_call" where
  "create_thread project repository pr thread =
     (''repo_pull_request_thread_write'', [(''action'', AText ''create''), (''project'', AText project), (''repository'', AText repository),
        (''pullRequestId'', AInt pr), (''thread'', thread)])"

definition list_threads :: "string \<Rightarrow> string \<Rightarrow> int \<Rightarrow> any_object" where
  "list_threads project repository pr =
     [(''action'', AText ''list''), (''project'', AText project), (''repository'', AText repository), (''pullRequestId'', AInt pr)]"

lemma contents_in_thread:
  "map_of m ''threads'' = Some (AList ts) \<Longrightarrow> AObject [(''comments'', AList [AObject [(''content'', AText content)]]), x] \<in> set ts \<Longrightarrow>
   fst x \<noteq> ''comments'' \<Longrightarrow> content \<in> contents_in (AObject m)"
  unfolding contents_in_def
  by (intro CollectI exI [of _ m] exI [of _ ts] exI [of _ "[(''comments'', AList [AObject [(''content'', AText content)]]), x]"]
      exI [of _ "[AObject [(''content'', AText content)]]"] exI [of _ "[(''content'', AText content)]"]) simp

lemma comment_lookup_outcome:
  assumes "decodeCommentIntent A (rq_canonical rq) = Inr j" and "ci_marker j \<noteq> []"
  shows "\<exists>out. comment_lookup A read rq = Inr out \<and> out_state out =
    (if \<exists>raw. read ''ado.pr.threads'' (list_threads (ci_project j) (ci_repository j) (ci_pr j)) = Inr raw \<and>
        (\<exists>content \<in> contents_in raw. \<exists>pre post. content = pre @ ci_marker j @ post)
     then OperationConfirmedEffect else OperationOutcomeUnknown)"
proof (cases "read ''ado.pr.threads'' (list_threads (ci_project j) (ci_repository j) (ci_pr j))")
  case (Inl e)
  then show ?thesis using assms(1) by (simp add: comment_lookup_def list_threads_def unknown_outcome_def)
next
  case (Inr raw)
  then have "comment_lookup A read rq = Inr (case threadContainsMarker A raw (ci_marker j) of None \<Rightarrow> unknown_outcome
      | Some thread \<Rightarrow> \<lparr>out_state = OperationConfirmedEffect, out_reference = commentReference A j thread, out_cost = 0\<rparr>)"
    using assms(1) by (simp add: comment_lookup_def list_threads_def split: option.split)
  then show ?thesis using Inr assms(2) threadContainsMarker_iff [of A raw "ci_marker j", unfolded contains_text_iff]
    by (cases "threadContainsMarker A raw (ci_marker j)") (auto simp: unknown_outcome_def)
qed


definition demo_comment :: CommentIntent where
  "demo_comment = \<lparr>ci_project = ''p'', ci_repository = ''r'', ci_pr = 7, ci_path = ''f'', ci_line = 1, ci_body = ''b'', ci_marker = ''[m]''\<rparr>"

definition demo_ado_codec :: ado_codec where
  "demo_ado_codec =
     \<lparr>ac_comment = ci_marker, ac_read_comment = (\<lambda>s. Inr (demo_comment\<lparr>ci_marker := s\<rparr>)), ac_vote = vi_repository,
      ac_read_vote = (\<lambda>s. Inr \<lparr>vi_project = ''p'', vi_repository = s, vi_pr = 7, vi_vote = 10\<rparr>),
      ac_sha = (\<lambda>s. s), ac_print = (\<lambda>v. []), ac_float = (\<lambda>s. None)\<rparr>"

lemma demo_comment_canonical:
  "canonical_comment demo_comment = Inr demo_comment" "CommentCanonicalIntent demo_ado_codec (comment_descriptor demo_ado_codec demo_comment) = Inr ''[m]''"
  by code_simp+

text \<open>A service that accepts this one comment and lists it with another one under its pull request only.\<close>

definition demo_write :: "tool_call \<Rightarrow> any_object res" where
  "demo_write call = (if call = comment_call demo_comment then Inr [(''id'', AInt 3)] else Inl (Err ''unexpected''))"

definition demo_read :: "string \<Rightarrow> any_object \<Rightarrow> any res" where
  "demo_read capability args =
     (if capability = ''ado.pr.threads'' \<and> args = list_threads ''p'' ''r'' 7
      then Inr (AObject [(''threads'', AList [AObject [(''comments'', AList [])],
        AObject [(''comments'', AList [AObject [(''content'', AText (''b'' @ newline @ ''[m]''))]]), (''status'', AText ''active'')]])])
      else Inl (Err ''unexpected''))"


end
