(* ===== verification/Review_Publication.thy ===== *)
theory Review_Publication
  imports Review_Assessment Review_Effects External_Effects Worker
begin

text \<open>
  The publication of a decided review (\<open>internal/adoreview/publish.go\<close>): the executor that turns a stored decision into comments and
  a vote, each one external operation in a slot of its own. JSON is \<open>publish_codec\<close>. The check of the workspace directory is left out,
  since envelopes have no workspace in this development.
\<close>

subsection \<open>Payloads, intents and entries\<close>

datatype PublishMode = PublishNone | PublishComments | PublishAll | PublishOther string

record PublishPayload =
  pl_decision :: string
  pl_case :: string
  pl_work :: string
  pl_project :: string
  pl_repo :: string
  pl_pr :: int
  pl_revision :: string

record publishIntent =
  pt_slot :: string
  pt_provider :: string
  pt_intent :: intent

record publishEvidenceEntry =
  pe_slot :: string
  pe_operation :: ID
  pe_state :: operation_state
  pe_reference :: string
  pe_skipped :: bool
  pe_recorded :: bool

record publish_codec =
  pb_ado :: ado_codec
  pb_read_payload :: "string \<Rightarrow> PublishPayload res"
  pb_read_decision :: "string \<Rightarrow> ReviewDecision res"
  pb_entry :: "publishEvidenceEntry \<Rightarrow> string"
  pb_read_entry :: "string \<Rightarrow> publishEvidenceEntry res"

definition commentProviderName :: string where "commentProviderName = ''ado-pr-comment''"

definition voteProviderName :: string where "voteProviderName = ''ado-pr-vote''"

definition decodePublishPayload :: "publish_codec \<Rightarrow> string \<Rightarrow> PublishPayload res" where
  "decodePublishPayload B raw =
     bindE (pb_read_payload B raw) (\<lambda>p0.
     let p = p0\<lparr>pl_decision := trim_space (pl_decision p0), pl_case := trim_space (pl_case p0), pl_work := trim_space (pl_work p0),
               pl_project := trim_space (pl_project p0), pl_repo := trim_space (pl_repo p0), pl_revision := trim_space (pl_revision p0)\<rparr> in
     if pl_decision p = [] \<or> pl_case p = [] \<or> pl_work p = [] \<or> pl_project p = [] \<or> pl_repo p = [] \<or> pl_revision p = [] \<or> pl_pr p \<le> 0
     then Inl (Err ''publish payload requires decision, caseID, workID, project, repo, positive pr, and revision'')
     else Inr p)"

definition validatePublishDecision :: "ReviewDecision \<Rightarrow> unit res" where
  "validatePublishDecision x =
     (if rd_action x = DecisionCommentAction then
        bindE (requireE (rd_comments x \<noteq> []) (Err ''comment review decision requires comments'')) (\<lambda>_.
        requireE (rd_vote x = []) (Err ''comment review decision must not carry vote''))
      else if rd_action x = DecisionApproveAction then
        bindE (requireE (rd_vote x = ''approve'') (Err ''approve review decision requires approve vote'')) (\<lambda>_.
        requireE (rd_comments x = []) (Err ''approve review decision must not carry comments''))
      else Inl (Err ''invalid review decision action''))"

definition pr_place :: "PublishPayload \<Rightarrow> string" where
  "pr_place p = pl_project p @ ''/'' @ pl_repo p @ ''#'' @ decimal (pl_pr p) @ '':'' @ pl_revision p"

definition comment_intent_of :: "publish_codec \<Rightarrow> PublishPayload \<Rightarrow> nat \<Rightarrow> DecisionComment \<Rightarrow> publishIntent" where
  "comment_intent_of B p index c =
     \<lparr>pt_slot = ''ado.pr.comment:'' @ pr_place p @ '':'' @ decimal (int index), pt_provider = commentProviderName,
      pt_intent = comment_descriptor (pb_ado B)
        \<lparr>ci_project = pl_project p, ci_repository = pl_repo p, ci_pr = pl_pr p, ci_path = trim_space (dc_path c), ci_line = dc_line c,
         ci_body = trim_space (dc_body c),
         ci_marker = ''[summa42:'' @ pl_case p @ '':'' @ pl_work p @ '':'' @ decimal (int index) @ '']''\<rparr>\<rparr>"

fun comment_intents :: "publish_codec \<Rightarrow> PublishPayload \<Rightarrow> nat \<Rightarrow> DecisionComment list \<Rightarrow> publishIntent list res" where
  "comment_intents B p index [] = Inr []"
| "comment_intents B p index (c # cs) =
     (if trim_space (dc_path c) = [] \<or> trim_space (dc_body c) = [] \<or> dc_line c < 0 then Inl (Err ''review decision comment is invalid'')
      else bindE (comment_intents B p (Suc index) cs) (\<lambda>is. Inr (comment_intent_of B p index c # is)))"

definition vote_intent_of :: "publish_codec \<Rightarrow> PublishPayload \<Rightarrow> publishIntent" where
  "vote_intent_of B p =
     \<lparr>pt_slot = ''ado.pr.approve:'' @ pr_place p, pt_provider = voteProviderName,
      pt_intent = vote_descriptor (pb_ado B)
        \<lparr>vi_project = pl_project p, vi_repository = pl_repo p, vi_pr = pl_pr p, vi_vote = 10\<rparr>\<rparr>"

definition buildPublishIntents :: "publish_codec \<Rightarrow> PublishPayload \<Rightarrow> ReviewDecision \<Rightarrow> publishIntent list res" where
  "buildPublishIntents B p x =
     bindE (validatePublishDecision x) (\<lambda>_.
     bindE (comment_intents B p 0 (rd_comments x)) (\<lambda>comments.
     let intents = comments @ (if rd_action x = DecisionApproveAction then [vote_intent_of B p] else []) in
     if intents = [] then Inl (Err ''review decision has no publish intents'') else Inr intents))"

subsection \<open>The publisher\<close>

record Publisher =
  pu_mode :: PublishMode
  pu_codec :: publish_codec
  pu_ops :: op_codec
  pu_service :: Service
  pu_sha :: "string \<Rightarrow> string"
  pu_approvals :: "ID list"
  pu_risk_comment :: string
  pu_risk_approve :: string

definition NewPublisher :: "Publisher \<Rightarrow> Publisher res" where
  "NewPublisher P =
     bindE (requireE (pu_mode P \<in> {PublishNone, PublishComments, PublishAll}) (Err ''unknown publish mode'')) (\<lambda>_.
     let comment = (if trim_space (pu_risk_comment P) = [] then ''LOW'' else trim_space (pu_risk_comment P));
         approve = trim_space (pu_risk_approve P) in
     if pu_mode P = PublishAll \<and> approve = [] then Inl (Err ''publish-all mode requires an explicit approve risk'')
     else Inr (P\<lparr>pu_risk_comment := comment, pu_risk_approve := approve\<rparr>))"

definition recorded_entry :: "string \<Rightarrow> publishEvidenceEntry" where
  "recorded_entry slot = \<lparr>pe_slot = slot, pe_operation = [], pe_state = OperationOther [], pe_reference = [], pe_skipped = False, pe_recorded = True\<rparr>"

definition skipped_entry :: "string \<Rightarrow> publishEvidenceEntry" where
  "skipped_entry slot = \<lparr>pe_slot = slot, pe_operation = [], pe_state = OperationOther [], pe_reference = [], pe_skipped = True, pe_recorded = False\<rparr>"

definition operation_entry :: "string \<Rightarrow> operation_state \<Rightarrow> operation \<Rightarrow> publishEvidenceEntry" where
  "operation_entry slot st x =
     \<lparr>pe_slot = slot, pe_operation = o_id x, pe_state = st, pe_reference = o_reference x, pe_skipped = False, pe_recorded = False\<rparr>"

definition publishExecutionResult :: "publish_codec \<Rightarrow> publishEvidenceEntry list \<Rightarrow> ExecutionResult" where
  "publishExecutionResult B entries =
     no_execution\<lparr>xr_evidence := [(''AGENT_MESSAGE'', Join (map (pb_entry B) entries) newline)]\<rparr>"

definition publish_request :: "Publisher \<Rightarrow> PublishPayload \<Rightarrow> ID \<Rightarrow> publishIntent \<Rightarrow> PrepareRequest" where
  "publish_request P p attempt i =
     \<lparr>qp_attempt = attempt, qp_provider = pt_provider i, qp_slot_key = pt_slot i, qp_intent = Some (pt_intent i),
      qp_risk = (if pt_provider i = voteProviderName then pu_risk_approve P else pu_risk_comment P),
      qp_attributes = [''repo'' \<mapsto> pl_repo p, ''pr'' \<mapsto> decimal (pl_pr p), ''revision'' \<mapsto> pl_revision p, ''project'' \<mapsto> pl_project p],
      qp_required = pu_approvals P\<rparr>"

text \<open>
  Whether the operation that \<open>Dispatch\<close> returns is UNKNOWN. \<open>Dispatch\<close> in this development returns no operation beside an error; the Go
  method returns an UNKNOWN one with the error for an unknown outcome, and when an operation that recovery has just marked has no
  provider or no slot to look up.
\<close>

definition returned_unknown :: "Service \<Rightarrow> ID \<Rightarrow> operation res \<Rightarrow> db \<Rightarrow> bool" where
  "returned_unknown S k r d =
     (case r of
        Inr y \<Rightarrow> o_state y = OperationOutcomeUnknown
      | Inl e \<Rightarrow> e = ErrOutcomeUnknown \<or>
          (case loadOperation k d of
             Inl _ \<Rightarrow> False
           | Inr x \<Rightarrow> o_state x = OperationOutcomeUnknown \<and> isl (bindE (providerFor S (o_provider x)) (\<lambda>p. providerRequest k d))))"

text \<open>The loop over the intents: the store, what was sent, the entries, and whether it ended with an error.\<close>

type_synonym publication = "db \<times> ProviderDispatchRequest list \<times> publishEvidenceEntry list \<times> go_error option"

text \<open>One intent with its operation: the entries so far, or the end of the loop.\<close>

definition publish_operation ::
  "Publisher \<Rightarrow> (nat \<Rightarrow> env) \<Rightarrow> answer \<Rightarrow> answer \<Rightarrow> PublishPayload \<Rightarrow> ID \<Rightarrow> nat \<Rightarrow> publishIntent \<Rightarrow> publishEvidenceEntry list \<Rightarrow> db \<Rightarrow>
   publication \<times> bool" where
  "publish_operation P Es send lookup p attempt n i entries d =
     (case Prepare (pu_ops P) (pu_service P) (Es (2 * n)) (publish_request P p attempt i) d of
        (d1, Inl e) \<Rightarrow> ((d1, [], entries, Some e), False)
      | (d1, Inr x) \<Rightarrow>
          if o_state x = OperationOutcomeUnknown
          then ((d1, [], entries @ [operation_entry (pt_slot i) OperationOutcomeUnknown x], None), False)
          else (case Dispatch (pu_ops P) (pu_service P) (Es (2 * n + 1)) send lookup (o_id x) attempt d1 of
            (d2, rqs, r) \<Rightarrow>
              if returned_unknown (pu_service P) (o_id x) r d2
              then ((d2, rqs, entries @ [operation_entry (pt_slot i) OperationOutcomeUnknown
                      (case loadOperation (o_id x) d2 of Inr y \<Rightarrow> y | Inl _ \<Rightarrow> x)], None), False)
              else (case r of
                Inl e \<Rightarrow> ((d2, rqs, entries, Some e), False)
              | Inr y \<Rightarrow>
                  if \<not> confirmed (o_state y) then ((d2, rqs, entries, Some (Err ''dispatch returned unsupported state'')), False)
                  else ((d2, rqs, entries @ [operation_entry (pt_slot i) (o_state y) (y\<lparr>o_id := o_id x\<rparr>)], None), True))))"

fun publish_all ::
  "Publisher \<Rightarrow> (nat \<Rightarrow> env) \<Rightarrow> answer \<Rightarrow> answer \<Rightarrow> PublishPayload \<Rightarrow> ID \<Rightarrow> nat \<Rightarrow> publishIntent list \<Rightarrow> publishEvidenceEntry list \<Rightarrow> db \<Rightarrow>
   publication" where
  "publish_all P Es send lookup p attempt n [] entries d = (d, [], entries, None)"
| "publish_all P Es send lookup p attempt n (i # is) entries d =
     (if pu_mode P = PublishNone
      then publish_all P Es send lookup p attempt (Suc n) is (entries @ [recorded_entry (pt_slot i)]) d
      else if pt_provider i = voteProviderName \<and> pu_mode P = PublishComments
      then publish_all P Es send lookup p attempt (Suc n) is (entries @ [skipped_entry (pt_slot i)]) d
      else (case publish_operation P Es send lookup p attempt n i entries d of
          ((d1, rqs, entries', e), False) \<Rightarrow> (d1, rqs, entries', e)
        | ((d1, rqs, entries', e), True) \<Rightarrow>
            (case publish_all P Es send lookup p attempt (Suc n) is entries' d1 of
               (d2, rqs2, entries2, e2) \<Rightarrow> (d2, rqs @ rqs2, entries2, e2))))"

text \<open>The decision is read from the evidence that the payload names.\<close>

definition read_publication :: "Publisher \<Rightarrow> AttemptEnvelope \<Rightarrow> evidence_store \<Rightarrow> (PublishPayload \<times> ReviewDecision) res" where
  "read_publication P envelope s =
     bindE (requireE (nonblank (ae_objective envelope)) (Err ''attempt objective is required'')) (\<lambda>_.
     bindE (decodePublishPayload (pu_codec P) (ae_payload envelope)) (\<lambda>p.
     bindE (Get_evidence (pu_sha P) (pl_decision p) s) (\<lambda>(r, raw).
     bindE (requireE (evi_kind r = decision_kind) (Err ''evidence is not an ADO review decision'')) (\<lambda>_.
     bindE (pb_read_decision (pu_codec P) raw) (\<lambda>x. Inr (p, x))))))"

definition publish_decision ::
  "Publisher \<Rightarrow> (nat \<Rightarrow> env) \<Rightarrow> answer \<Rightarrow> answer \<Rightarrow> PublishPayload \<Rightarrow> ID \<Rightarrow> ReviewDecision \<Rightarrow> db \<Rightarrow>
   db \<times> ProviderDispatchRequest list \<times> ExecutionResult \<times> go_error option" where
  "publish_decision P Es send lookup p attempt x d =
     (if rd_action x = DecisionHoldAction then (d, [], publishExecutionResult (pu_codec P) [recorded_entry ''hold''], None)
      else if rd_action x \<noteq> DecisionCommentAction \<and> rd_action x \<noteq> DecisionApproveAction
      then (d, [], no_execution, Some (Err ''invalid review decision action''))
      else (case buildPublishIntents (pu_codec P) p x of
        Inl e \<Rightarrow> (d, [], no_execution, Some e)
      | Inr is \<Rightarrow>
          (case publish_all P Es send lookup p attempt 0 is [] d of
             (d', rqs, entries, e) \<Rightarrow> (d', rqs, publishExecutionResult (pu_codec P) entries, e))))"

definition Start_publisher ::
  "Publisher \<Rightarrow> (nat \<Rightarrow> env) \<Rightarrow> answer \<Rightarrow> answer \<Rightarrow> AttemptEnvelope \<Rightarrow> evidence_store \<Rightarrow>
   evidence_store \<times> ProviderDispatchRequest list \<times> ExecutionResult \<times> go_error option" where
  "Start_publisher P Es send lookup envelope s =
     (case read_publication P envelope s of
        Inl e \<Rightarrow> (s, [], no_execution, Some e)
      | Inr (p, x) \<Rightarrow>
          (case publish_decision P Es send lookup p (ae_attempt envelope) x (es_db s) of
             (d, rqs, r, e) \<Rightarrow> (s\<lparr>es_db := d\<rparr>, rqs, r, e)))"

subsection \<open>The intents of a decision\<close>

lemma comment_intents_members:
  "comment_intents B p n cs = Inr is \<Longrightarrow> is = map (\<lambda>k. comment_intent_of B p (n + k) (cs ! k)) [0..<length cs]"
proof (induction cs arbitrary: n "is")
  case (Cons c cs)
  then obtain js where js: "comment_intents B p (Suc n) cs = Inr js" "is = comment_intent_of B p n c # js"
    by (auto simp: bind_simps split: if_splits)
  show ?case using Cons.IH [OF js(1)] js(2)
    by (simp add: upt_conv_Cons map_Suc_upt [symmetric] comp_def del: upt_Suc map_Suc_upt)
qed simp

lemma buildPublishIntents_Inr:
  assumes "buildPublishIntents B p x = Inr is" and "i \<in> set is"
  shows "rd_action x = DecisionApproveAction \<and> i = vote_intent_of B p \<or>
    rd_action x = DecisionCommentAction \<and> (\<exists>n < length (rd_comments x). i = comment_intent_of B p n (rd_comments x ! n))"
proof -
  obtain cs where v: "validatePublishDecision x = Inr ()" and cs: "comment_intents B p 0 (rd_comments x) = Inr cs"
    and is_eq: "is = cs @ (if rd_action x = DecisionApproveAction then [vote_intent_of B p] else [])"
    using assms(1) by (auto simp: buildPublishIntents_def Let_def elim!: bindE_InrE split: if_splits)
  have members: "set cs = (\<lambda>k. comment_intent_of B p k (rd_comments x ! k)) ` {..<length (rd_comments x)}"
    using comment_intents_members [OF cs] by (auto simp: atLeast0LessThan)
  show ?thesis
  proof (cases "rd_action x = DecisionApproveAction")
    case True
    then have "rd_comments x = []" using v
      by (auto simp: validatePublishDecision_def DecisionApproveAction_def DecisionCommentAction_def bind_simps)
    with True members assms(2) is_eq show ?thesis by auto
  next
    case False
    then have "rd_action x = DecisionCommentAction" using v by (auto simp: validatePublishDecision_def split: if_splits)
    with False members assms(2) is_eq show ?thesis by auto
  qed
qed

subsection \<open>What an operation is bound to\<close>

lemma Prepare_bound:
  assumes "ops_ok d" "approvals_ok d" and run: "Prepare C S E q d = (d', Inr x)"
  obtains pv c s where "providerFor S (qp_provider q) = Inr pv" "canonicalIntent C pv (qp_intent q) = Inr (c, s_fingerprint s)"
    "find_by s_id (o_slot x) (db_slots d') = Some s" "s_key s = trim_space (qp_slot_key q)" "s_provider s = pv_name pv"
proof -
  note goal = that
  obtain P where P: "prepare_plan_of C S (clk E 0) q d = Inr P" and tx: "prepareInTx C S E q P d = Inr (x, d')"
    using run unfolding Prepare_Inr by blast
  have plan: "providerFor S (qp_provider q) = Inr (pp_provider P) \<and> canonicalIntent C (pp_provider P) (qp_intent q) = Inr (pp_canonical P, pp_fingerprint P)"
    using P unfolding prepare_plan_of_def Let_def by (auto simp: validatePrepareRequest_def elim!: bindE_InrE split: if_splits)
  have bound: thesis
    if slot: "ResolveEffectSlot S (clk E 2) (rnd E 0) k (qp_slot_key q) (pp_provider P) (pp_type P) (pp_fingerprint P) (pp_canonical P) d = Inr (s, d1)"
      and x: "o_slot x = s_id s" "find_by s_id (s_id s) (db_slots d') = Some s" for k s d1
    using goal [of "pp_provider P" "pp_canonical P" s] plan ResolveEffectSlot_Inr(4,5,6) [OF slot] x by simp
  have slot_row: "ops_ok d1 \<and> approvals_ok d1 \<and> find_by s_id (s_id s) (db_slots d1) = Some s"
    if slot: "ResolveEffectSlot S (clk E 2) (rnd E 0) k (qp_slot_key q) (pp_provider P) (pp_type P) (pp_fingerprint P) (pp_canonical P) d = Inr (s, d1)"
    for k s d1
    using ResolveEffectSlot_next [OF assms(1) slot] ResolveEffectSlot_Inr(1,8) [OF slot] ops_okD(4) [OF assms(1)] assms(2)
    by (auto simp: ops_next_def approvals_ok_def)
  from tx show thesis
  proof (cases rule: prepareInTx_Inr)
    case (1 g t s d1 d2)
    then have "d' = d1" "o_slot x = s_id s" using previous_op_Inr(8) [OF _ 1(3) refl] slot_row [OF 1(2)] by auto
    with bound [OF 1(2)] slot_row [OF 1(2)] show ?thesis by blast
  next
    case (2 g t s d1 d2)
    note d1 = slot_row [OF 2(2)] and prev = previous_op_Inr [OF _ 2(3)]
    have d2: "ops_ok d2" "approvals_ok d2" "find_by s_id (s_id s) (db_slots d2) = Some s"
      using d1 prev(1,2,5,6) by (auto simp: ops_next_def approvals_ok_cong [of d2 d1])
    have "tx_kept d2 d'"
      using prepare_new_kept(1) [OF d2(1,2) 2(4) d2(3)] ResolveEffectSlot_Inr(2,5,6) [OF 2(2)] prev(7) d1 by simp
    then have "find_by s_id (s_id s) (db_slots d') = Some s" using d2(3) tx_keptD by (auto simp: ops_le_def)
    moreover have "o_slot x = s_id s" using 2(4) by (rule prepare_new_Inr) (simp add: prepared_operation_def)
    ultimately show ?thesis using bound [OF 2(2)] by blast
  qed
qed

text \<open>The request is of the operation that was prepared for this intent in its slot, by the caller's approvers.\<close>

definition issued :: "Publisher \<Rightarrow> publishIntent \<Rightarrow> db \<Rightarrow> ProviderDispatchRequest \<Rightarrow> bool" where
  "issued P i d rq \<longleftrightarrow>
     (\<exists>x s pv c. find_by o_id (rq_operation rq) (db_ops d) = Some x \<and> find_by s_id (o_slot x) (db_slots d) = Some s \<and>
        normalizeApprovalIDs (o_callers x) = normalizeApprovalIDs (pu_approvals P) \<and> s_key s = trim_space (pt_slot i) \<and>
        s_provider s = pv_name pv \<and> providerFor (pu_service P) (pt_provider i) = Inr pv \<and>
        canonicalIntent (pu_ops P) pv (Some (pt_intent i)) = Inr (c, s_fingerprint s))"

lemma issued_later:
  assumes "issued P i d rq" and "effect_run (d, sent) (d', sent')" and "effects_ok (d, sent)"
  shows "issued P i d' rq"
proof -
  have le: "ops_le d d'" using effect_run_le [OF assms(2,3)] by simp
  obtain x s pv c where x: "find_by o_id (rq_operation rq) (db_ops d) = Some x" and s: "find_by s_id (o_slot x) (db_slots d) = Some s"
    and i: "normalizeApprovalIDs (o_callers x) = normalizeApprovalIDs (pu_approvals P)" "s_key s = trim_space (pt_slot i)"
      "s_provider s = pv_name pv" "providerFor (pu_service P) (pt_provider i) = Inr pv"
      "canonicalIntent (pu_ops P) pv (Some (pt_intent i)) = Inr (c, s_fingerprint s)"
    using assms(1) unfolding issued_def by blast
  obtain x' where x': "find_by o_id (rq_operation rq) (db_ops d') = Some x'" "later_op x x'" using ops_le_op [OF le x] by blast
  moreover have "find_by s_id (o_slot x') (db_slots d') = Some s" using le s later_opD(4) [OF x'(2)] by (simp add: ops_le_def)
  ultimately show ?thesis using i later_opD(11) [OF x'(2)] unfolding issued_def by metis
qed

lemma publish_operation_sends:
  assumes run: "publish_operation P Es send lookup p attempt n i entries d = ((d2, rqs, entries', e), go)" and ok: "effects_ok (d, sent)"
  shows "effect_run (d, sent) (d2, sent @ rqs) \<and> (\<forall>rq \<in> set rqs. issued P i d2 rq)"
proof -
  let ?prepare = "Prepare (pu_ops P) (pu_service P) (Es (2 * n)) (publish_request P p attempt i) d"
  have to_d1: "effect_run (d, sent) (fst ?prepare, sent)" by (rule r_into_rtranclp) (rule effect_prepare)
  show ?thesis
  proof (cases "snd ?prepare")
    case (Inl e1)
    then have "d2 = fst ?prepare" "rqs = []" using run by (auto simp: publish_operation_def split: prod.splits)
    with to_d1 show ?thesis by simp
  next
    case (Inr x)
    then obtain d1 where prep: "?prepare = (d1, Inr x)" by (metis prod.collapse)
    let ?dispatch = "Dispatch (pu_ops P) (pu_service P) (Es (2 * n + 1)) send lookup (o_id x) attempt d1"
    have d1: "effect_run (d, sent) (d1, sent)" "effects_ok (d1, sent)"
      using to_d1 prep effects.reach_inv [OF _ ok] by auto
    show ?thesis
    proof (cases "d2 = d1 \<and> rqs = []")
      case True
      with d1 show ?thesis by simp
    next
      case False
      then obtain r where disp: "?dispatch = (d2, rqs, r)"
        using run prep by (auto simp: publish_operation_def split: prod.splits if_splits sum.splits)
      have d2: "effect_run (d1, sent) (d2, sent @ rqs)"
        using Dispatch_run [of d1 sent "pu_ops P" "pu_service P" "Es (2 * n + 1)" send lookup "o_id x" attempt] disp by simp
      have oks: "ops_ok d" "approvals_ok d" using ok by (simp_all add: effects_ok_def)
      have x: "find_by o_id (o_id x) (db_ops d1) = Some x" using prep prepareInTx_kept [OF oks] unfolding Prepare_Inr by blast
      have "issued P i d1 rq" if rq: "rq \<in> set rqs" for rq
      proof -
        have sent: "rq_operation rq = o_id x" "o_state x = OperationPrepared" using Dispatch_sent [OF disp rq] x by auto
        have callers: "normalizeApprovalIDs (o_callers x) = normalizeApprovalIDs (pu_approvals P)"
          using Prepare_callers [OF prep sent(2)] by (simp add: publish_request_def)
        show ?thesis
          by (rule Prepare_bound [OF oks prep]) (use x sent callers in \<open>auto simp: issued_def publish_request_def\<close>)
      qed
      then have "\<forall>rq \<in> set rqs. issued P i d2 rq" using issued_later d2 d1(2) by blast
      then show ?thesis using d1(1) d2 by (meson rtranclp_trans)
    qed
  qed
qed

lemma publish_all_sends:
  "publish_all P Es send lookup p attempt n is entries d = (d', rqs, entries', e) \<Longrightarrow> effects_ok (d, sent) \<Longrightarrow>
   effect_run (d, sent) (d', sent @ rqs) \<and>
   (\<forall>rq \<in> set rqs. \<exists>i \<in> set is. issued P i d' rq \<and> pu_mode P \<noteq> PublishNone \<and>
      (pt_provider i = voteProviderName \<longrightarrow> pu_mode P \<noteq> PublishComments))"
proof (induction "is" arbitrary: n entries d sent rqs)
  case (Cons i js)
  show ?case
  proof (cases "pu_mode P = PublishNone \<or> pt_provider i = voteProviderName \<and> pu_mode P = PublishComments")
    case True
    then obtain es where "publish_all P Es send lookup p attempt (Suc n) js es d = (d', rqs, entries', e)"
      using Cons.prems(1) by (cases "pu_mode P = PublishNone") auto
    from Cons.IH [OF this Cons.prems(2)] show ?thesis by auto
  next
    case False
    obtain d1 rqs1 es1 e1 go where op: "publish_operation P Es send lookup p attempt n i entries d = ((d1, rqs1, es1, e1), go)"
      by (metis prod.collapse)
    note first = publish_operation_sends [OF op Cons.prems(2)]
    show ?thesis
    proof (cases go)
      case stop: False
      then have "d' = d1" "rqs = rqs1" using Cons.prems(1) False op by (auto split: if_splits)
      with first False show ?thesis by auto
    next
      case True
      then obtain rqs2 where rest: "publish_all P Es send lookup p attempt (Suc n) js es1 d1 = (d', rqs2, entries', e)" "rqs = rqs1 @ rqs2"
        using Cons.prems(1) False op by (auto split: if_splits prod.splits)
      have ok1: "effects_ok (d1, sent @ rqs1)" using effects.reach_inv first Cons.prems(2) by blast
      note others = Cons.IH [OF rest(1) ok1]
      have "\<forall>rq \<in> set rqs1. issued P i d' rq" using first others issued_later [OF _ _ ok1] by blast
      moreover have "effect_run (d, sent) (d', sent @ rqs)" using first others rest(2) by (auto intro: rtranclp_trans)
      ultimately show ?thesis using others rest(2) False by auto
    qed
  qed
qed simp

subsection \<open>What the publisher sends\<close>

lemma Start_publisher_run:
  assumes "Start_publisher P Es send lookup envelope s = (s', rqs, r, e)" and "effects_ok (es_db s, sent)"
  shows "effect_run (es_db s, sent) (es_db s', sent @ rqs)"
proof (cases "es_db s' = es_db s \<and> rqs = []")
  case False
  then obtain p x "is" entries where "publish_all P Es send lookup p (ae_attempt envelope) 0 is [] (es_db s) = (es_db s', rqs, entries, e)"
    using assms(1) by (auto simp: Start_publisher_def publish_decision_def split: sum.splits prod.splits if_splits)
  from publish_all_sends [OF this assms(2)] show ?thesis by blast
qed simp

text \<open>
  C33. The publisher sends what was decided, where it was decided, and with consent. Every request it hands to a provider belongs to an
  intent of the decision that is stored as evidence under the identifier in the payload: a comment of the decision, or the vote of an
  approval when votes are enabled; nothing is sent for a held decision or with publishing disabled. The request goes to the slot of this intent, is addressed
  to the registered provider and has the fingerprint of the canonical intent, and every configured approver has approved exactly this
  operation.
\<close>

theorem publisher_sends_what_was_decided:
  assumes "effect_run w0 (es_db s, sent)" and "effects_ok w0"
    and "Start_publisher P Es send lookup envelope s = (s', rqs, r, e)" and "rq \<in> set rqs"
  shows "\<exists>p x i op slot pv c. read_publication P envelope s = Inr (p, x) \<and> pu_mode P \<noteq> PublishNone \<and>
    (rd_action x = DecisionApproveAction \<and> pu_mode P \<noteq> PublishComments \<and> i = vote_intent_of (pu_codec P) p \<or>
     rd_action x = DecisionCommentAction \<and> (\<exists>n < length (rd_comments x). i = comment_intent_of (pu_codec P) p n (rd_comments x ! n))) \<and>
    providerFor (pu_service P) (pt_provider i) = Inr pv \<and> canonicalIntent (pu_ops P) pv (Some (pt_intent i)) = Inr (c, rq_fingerprint rq) \<and>
    find_by o_id (rq_operation rq) (db_ops (es_db s')) = Some op \<and> o_provider op = pv_name pv \<and>
    find_by s_id (rq_slot rq) (db_slots (es_db s')) = Some slot \<and> s_key slot = trim_space (pt_slot i) \<and> rq_canonical rq = s_canonical slot \<and>
    (\<forall>a \<in> trim_space ` set (pu_approvals P) - {[]}. \<exists>ap q. find_by ap_id (trim_space (o_approval op)) (db_approvals (es_db s')) = Some ap \<and>
       ap_state ap = ApprovalConsumed \<and> ap_subject ap = o_id op \<and> q \<in> set (ap_required ap) \<and> trim_space q = a \<and> has_approved (es_db s') ap q)"
proof -
  obtain p x where read: "read_publication P envelope s = Inr (p, x)"
    and go: "publish_decision P Es send lookup p (ae_attempt envelope) x (es_db s) = (es_db s', rqs, r, e)"
    using assms(3,4) by (auto simp: Start_publisher_def split: sum.splits prod.splits)
  obtain "is" entries where intents: "buildPublishIntents (pu_codec P) p x = Inr is"
    and all: "publish_all P Es send lookup p (ae_attempt envelope) 0 is [] (es_db s) = (es_db s', rqs, entries, e)"
    using go assms(4) by (auto simp: publish_decision_def split: if_splits sum.splits prod.splits)
  have ok: "effects_ok (es_db s, sent)" using effects.reach_inv assms(1,2) by blast
  note sends = publish_all_sends [OF all ok]
  then obtain i where i: "i \<in> set is" "issued P i (es_db s') rq" "pu_mode P \<noteq> PublishNone"
      "pt_provider i = voteProviderName \<longrightarrow> pu_mode P \<noteq> PublishComments" using assms(4) by blast
  have reach: "effect_run w0 (es_db s', sent @ rqs)" using assms(1) sends by (meson rtranclp_trans)
  then have ok': "effects_ok (es_db s', sent @ rqs)" using effects.reach_inv assms(2) by blast
  have in_sent: "rq \<in> set (sent @ rqs)" using assms(4) by simp
  obtain op slot pv c where op: "find_by o_id (rq_operation rq) (db_ops (es_db s')) = Some op"
    and slot: "find_by s_id (o_slot op) (db_slots (es_db s')) = Some slot"
    and bound: "normalizeApprovalIDs (o_callers op) = normalizeApprovalIDs (pu_approvals P)" "s_key slot = trim_space (pt_slot i)"
      "s_provider slot = pv_name pv" "providerFor (pu_service P) (pt_provider i) = Inr pv"
      "canonicalIntent (pu_ops P) pv (Some (pt_intent i)) = Inr (c, s_fingerprint slot)"
    using i(2) unfolding issued_def by blast
  have rq: "rq = request_of op slot" and row: "op \<in> set (db_ops (es_db s'))"
    using sent_row [OF ok' in_sent] op slot by (metis option.inject)+
  have "slotted_ok (es_db s') op" using ok' row ops_okD(8) by (simp add: effects_ok_def)
  then have "s_fingerprint slot = o_fingerprint op" "s_provider slot = o_provider op" using slot by (auto simp: slotted_ok_iff)
  then have request: "rq_slot rq = o_slot op" "rq_fingerprint rq = s_fingerprint slot" "rq_canonical rq = s_canonical slot" "o_provider op = pv_name pv"
    using rq bound(3) by (simp_all add: request_of_def)
  have "set (normalizeApprovalIDs (o_callers op)) = trim_space ` set (pu_approvals P) - {[]}"
    unfolding bound(1) by (auto simp: normalizeApprovalIDs_def)
  then have consent: "\<forall>a \<in> trim_space ` set (pu_approvals P) - {[]}. \<exists>ap q.
      find_by ap_id (trim_space (o_approval op)) (db_approvals (es_db s')) = Some ap \<and> ap_state ap = ApprovalConsumed \<and>
      ap_subject ap = o_id op \<and> q \<in> set (ap_required ap) \<and> trim_space q = a \<and> has_approved (es_db s') ap q"
    using consent_of_sent [OF reach assms(2) in_sent op] by blast
  have which: "rd_action x = DecisionApproveAction \<and> pu_mode P \<noteq> PublishComments \<and> i = vote_intent_of (pu_codec P) p \<or>
     rd_action x = DecisionCommentAction \<and> (\<exists>n < length (rd_comments x). i = comment_intent_of (pu_codec P) p n (rd_comments x ! n))"
    using buildPublishIntents_Inr [OF intents i(1)] i(4) by (auto simp: vote_intent_of_def)
  show ?thesis using read i(3) which bound(2,4,5) op slot request consent by metis
qed

text \<open>A decision with one comment, which Ann approves between the preparation and the next start of the publisher.\<close>

definition demo_publish_codec :: publish_codec where
  "demo_publish_codec =
     \<lparr>pb_ado = demo_ado_codec,
      pb_read_payload = (\<lambda>s. Inr \<lparr>pl_decision = ''d'', pl_case = ''c'', pl_work = ''w'', pl_project = ''p'', pl_repo = ''r'', pl_pr = 7, pl_revision = ''v''\<rparr>),
      pb_read_decision = (\<lambda>s. Inr \<lparr>rd_action = DecisionCommentAction, rd_comments = [\<lparr>dc_path = ''f'', dc_line = 1, dc_body = ''b''\<rparr>], rd_vote = [],
        rd_reason = []\<rparr>),
      pb_entry = pe_slot, pb_read_entry = (\<lambda>s. Inr (recorded_entry s))\<rparr>"

definition demo_publisher :: Publisher where
  "demo_publisher =
     \<lparr>pu_mode = PublishComments, pu_codec = demo_publish_codec, pu_ops = demo_codes,
      pu_service = demo_service\<lparr>sv_providers := [comment_provider demo_ado_codec, vote_provider demo_ado_codec]\<rparr>,
      pu_sha = (\<lambda>s. replicate 64 (CHR ''a'')), pu_approvals = ['' ann''], pu_risk_comment = ''LOW'', pu_risk_approve = []\<rparr>"

definition demo_publish_envelope :: AttemptEnvelope where
  "demo_publish_envelope = \<lparr>ae_task = ''task_1'', ae_attempt = ''attempt_1'', ae_objective = ''publish'', ae_payload = ''{}'', ae_criteria = [],
     ae_capabilities = [''ado.pr.comment''], ae_envelope = ''e''\<rparr>"

definition demo_publish_store :: evidence_store where
  "demo_publish_store =
     \<lparr>es_db = demo_store\<lparr>db_tasks := map (\<lambda>t. t\<lparr>t_authority := ''ado.pr.comment'' # t_authority t\<rparr>) (db_tasks demo_store),
        db_evidence := [\<lparr>evi_id = ''d'', evi_hash = replicate 64 (CHR ''a''), evi_media = [], evi_kind = decision_kind, evi_size = 1, evi_created = 1\<rparr>]\<rparr>,
      es_blobs = (\<lambda>h. Some ''x'')\<rparr>"

text \<open>The first start ends where the approval is missing, the second sends.\<close>

definition demo_publish_waiting :: "evidence_store \<times> ProviderDispatchRequest list \<times> ExecutionResult \<times> go_error option" where
  "demo_publish_waiting = Start_publisher demo_publisher (\<lambda>n. demo_clock) (\<lambda>rq. Inl (Err ''down'')) (\<lambda>rq. Inl (Err ''down''))
     demo_publish_envelope demo_publish_store"

definition demo_publish_agreed :: evidence_store where
  "demo_publish_agreed =
     (fst demo_publish_waiting)\<lparr>es_db := fst (Approve 21 ''approval_b'' ''ann'' ''h'' (es_db (fst demo_publish_waiting)))\<rparr>"

definition demo_published :: "evidence_store \<times> ProviderDispatchRequest list \<times> ExecutionResult \<times> go_error option" where
  "demo_published = Start_publisher demo_publisher (\<lambda>n. demo_clock2)
     (comment_dispatch demo_ado_codec (\<lambda>call. Inr [(''threadId'', AText ''t9'')])) (\<lambda>rq. Inl (Err ''down'')) demo_publish_envelope demo_publish_agreed"

lemma demo_publish_ok: "effects_ok (es_db demo_publish_store, [])"
  by code_simp

lemma demo_publish_run: "effect_run (es_db demo_publish_store, []) (es_db demo_publish_agreed, [])"
proof -
  have none: "fst (snd demo_publish_waiting) = []" by code_simp
  have "Start_publisher demo_publisher (\<lambda>n. demo_clock) (\<lambda>rq. Inl (Err ''down'')) (\<lambda>rq. Inl (Err ''down'')) demo_publish_envelope demo_publish_store =
      (fst demo_publish_waiting, [], fst (snd (snd demo_publish_waiting)), snd (snd (snd demo_publish_waiting)))"
    using none by (metis demo_publish_waiting_def prod.collapse)
  then have "effect_run (es_db demo_publish_store, []) (es_db (fst demo_publish_waiting), [])"
    using Start_publisher_run demo_publish_ok by fastforce
  also have "effect_run (es_db (fst demo_publish_waiting), []) (es_db demo_publish_agreed, [])"
    unfolding demo_publish_agreed_def by (simp, rule r_into_rtranclp) (rule effect_approval, rule approval_step.intros)
  finally show ?thesis .
qed

theorem publisher_sends_what_was_decided_witness:
  "\<exists>rq op ap q. rq \<in> set (fst (snd demo_published)) \<and> find_by o_id (rq_operation rq) (db_ops (es_db (fst demo_published))) = Some op \<and>
    o_provider op = ''ado-pr-comment'' \<and> ap_state ap = ApprovalConsumed \<and> q \<in> set (ap_required ap) \<and> trim_space q = ''ann'' \<and>
    has_approved (es_db (fst demo_published)) ap q"
proof -
  have "length (fst (snd demo_published)) = 1" by code_simp
  then obtain rq where rq: "rq \<in> set (fst (snd demo_published))" by (metis length_0_conv list.set_intros(1) neq_Nil_conv one_neq_zero)
  have owner: "''ann'' \<in> trim_space ` set (pu_approvals demo_publisher) - {[]}" by code_simp
  have trimmed: "trim_space ''ado-pr-comment'' = ''ado-pr-comment''" by code_simp
  have name: "pv_name pv = ''ado-pr-comment''"
    if "providerFor (pu_service demo_publisher) (pt_provider i) = Inr pv" "i = comment_intent_of (pu_codec demo_publisher) p n c" for pv i p n c
  proof -
    have "providerFor (pu_service demo_publisher) commentProviderName = Inr (comment_provider demo_ado_codec)"
      using trimmed by (simp add: providerFor_def registered_def demo_publisher_def comment_provider_def vote_provider_def commentProviderName_def)
    moreover have "pt_provider i = commentProviderName" using that(2) by (simp add: comment_intent_of_def)
    ultimately have "pv = comment_provider demo_ado_codec" using that(1) by simp
    then show ?thesis by (simp add: comment_provider_def)
  qed
  have mode: "pu_mode demo_publisher = PublishComments" by (simp add: demo_publisher_def)
  have "demo_published = (fst demo_published, fst (snd demo_published), fst (snd (snd demo_published)), snd (snd (snd demo_published)))" by simp
  from publisher_sends_what_was_decided [OF demo_publish_run demo_publish_ok this [unfolded demo_published_def] rq [unfolded demo_published_def]] owner mode name
  show ?thesis using rq unfolding demo_published_def by metis
qed

end
