(* ===== verification/Review_Driver.thy ===== *)
theory Review_Driver
  imports Review_Publication Run_Manifest
begin

text \<open>
  The driver of a review (\<open>internal/adoreview/driver.go\<close>): it finds the assessment that decided a case, makes the task of its publication,
  checks the evidence of the publisher against the decision, looks every effect up again, and marks the case ready for verification or
  blocks it. JSON, SHA-256, the texts of foreign errors and the order in which Go visits a map are \<open>driver_codec\<close>; the services and
  Azure DevOps are in \<open>Driver\<close>. The polling loop \<open>Run\<close> is a repetition of \<open>StepOnce\<close> and left out. Assessments are stored decoded, so a
  result that does not decode does not occur.
\<close>

subsection \<open>Payloads and evidence\<close>

record workOnePayload =
  w1_project :: string
  w1_repo :: string
  w1_pr :: int
  w1_source :: string
  w1_target :: string

record terminalStateEvidence =
  ts_case :: ID
  ts_work :: ID
  ts_task :: ID
  ts_attempt :: ID
  ts_state :: task_state
  ts_reason :: string

record driver_codec =
  dk_publish :: publish_codec
  dk_cases :: case_codec
  dk_tasks :: task_codec
  dk_manifests :: manifest_codec
  dk_sha :: "string \<Rightarrow> string"
  dk_read_request :: "string \<Rightarrow> AssessmentRequest res"
  dk_read_work_one :: "string \<Rightarrow> workOnePayload res"
  dk_read_published :: "string \<Rightarrow> PublishPayload res"
  dk_payload :: "PublishPayload \<Rightarrow> string"
  dk_terminal :: "terminalStateEvidence \<Rightarrow> string"
  dk_error :: "go_error \<Rightarrow> string"
  dk_visit :: "string list \<Rightarrow> string list"

record LookupProvider =
  lp_name :: string
  lp_lookup :: answer

record Driver =
  dr_mission :: ID
  dr_envelope :: ID
  dr_comment :: LookupProvider
  dr_vote :: LookupProvider
  dr_caller :: pr_caller
  dr_project :: string
  dr_codec :: driver_codec

record DriverResult =
  dres_materialized :: "ID list"
  dres_ready :: "ID list"
  dres_blocked :: "ID list"

definition NewDriver :: "Driver \<Rightarrow> Driver res" where
  "NewDriver D0 =
     (let D = D0\<lparr>dr_mission := trim_space (dr_mission D0), dr_envelope := trim_space (dr_envelope D0), dr_project := trim_space (dr_project D0)\<rparr> in
      if dr_mission D = [] \<or> dr_envelope D = [] then Inl (Err ''driver mission and resource envelope are required'')
      else if lp_name (dr_comment D) \<noteq> commentProviderName \<or> lp_name (dr_vote D) \<noteq> voteProviderName
      then Inl (Err ''driver providers do not match ADO comment and vote providers'') else Inr D)"

fun task_state_text :: "task_state \<Rightarrow> string" where
  "task_state_text TaskCreated = ''CREATED''"
| "task_state_text TaskEligible = ''ELIGIBLE''"
| "task_state_text TaskExecuting = ''EXECUTING''"
| "task_state_text TaskAwaitingVerification = ''AWAITING_VERIFICATION''"
| "task_state_text TaskSucceeded = ''SUCCEEDED''"
| "task_state_text TaskFailed = ''FAILED''"
| "task_state_text TaskBlocked = ''BLOCKED''"
| "task_state_text TaskCancelled = ''CANCELLED''"
| "task_state_text TaskChallenged = ''CHALLENGED''"
| "task_state_text TaskExpired = ''EXPIRED''"

fun operation_state_text :: "operation_state \<Rightarrow> string" where
  "operation_state_text OperationPrepared = ''PREPARED''"
| "operation_state_text OperationDispatched = ''DISPATCHED''"
| "operation_state_text OperationConfirmedEffect = ''CONFIRMED_EFFECT''"
| "operation_state_text OperationConfirmedNoEffect = ''CONFIRMED_NO_EFFECT''"
| "operation_state_text OperationOutcomeUnknown = ''OUTCOME_UNKNOWN''"
| "operation_state_text OperationCancelled = ''CANCELLED''"
| "operation_state_text (OperationOther s) = s"

definition agent_message :: string where "agent_message = ''AGENT_MESSAGE''"

definition current_attempt :: "task \<Rightarrow> ID" where
  "current_attempt t = (case t_attempt t of None \<Rightarrow> [] | Some k \<Rightarrow> k)"

subsection \<open>The assessment that decided a case\<close>

text \<open>A problem of the stored data, which the final verifier rejects, is told apart from other errors.\<close>

datatype assessment_problem = DeterministicProblem string | OtherProblem go_error

fun problem_error :: "assessment_problem \<Rightarrow> go_error" where
  "problem_error (DeterministicProblem reason) = Err reason"
| "problem_error (OtherProblem e) = e"

record driverAssessment =
  da_work :: ID
  da_request_work :: ID
  da_case_work :: ID
  da_decision_id :: ID
  da_decision :: ReviewDecision
  da_review :: "ID list"
  da_evidence :: "ID list"

definition no_decision :: ReviewDecision where
  "no_decision = \<lparr>rd_action = [], rd_comments = [], rd_vote = [], rd_reason = []\<rparr>"

text \<open>The evidence of the request, one after the other: the assessment so far, the number of decisions and the text of the first.\<close>

fun scan_evidence ::
  "driver_codec \<Rightarrow> evidence_store \<Rightarrow> string list \<Rightarrow> driverAssessment \<times> nat \<times> string \<Rightarrow>
   assessment_problem + driverAssessment \<times> nat \<times> string" where
  "scan_evidence C s [] acc = Inr acc"
| "scan_evidence C s (raw # ids) (a, n, text) =
     (let k = trim_space raw; a = a\<lparr>da_evidence := da_evidence a @ [k]\<rparr> in
      if k = [] then Inl (DeterministicProblem ''assessment evidence contains a blank ID'')
      else (case Get_evidence (dk_sha C) k s of
        Inl e \<Rightarrow>
          Inl (if e = ErrEvidenceNotFound \<or> e = ErrEvidenceCorrupt
               then DeterministicProblem (''read assessment evidence '' @ k @ '': '' @ dk_error C e) else OtherProblem e)
      | Inr (r, data) \<Rightarrow>
          if evi_kind r = decision_kind
          then scan_evidence C s ids (if n = 0 then a\<lparr>da_decision_id := k\<rparr> else a, Suc n, if n = 0 then data else text)
          else scan_evidence C s ids (a\<lparr>da_review := da_review a @ [k]\<rparr>, n, text)))"

definition read_assessment ::
  "driver_codec \<Rightarrow> evidence_store \<Rightarrow> bool \<Rightarrow> assessment_row \<Rightarrow> assessment_problem + driverAssessment option" where
  "read_assessment C s requireDecision r =
     (case dk_read_request C (as_request r) of
        Inl e \<Rightarrow> Inl (DeterministicProblem (''decode assessment '' @ as_id r @ '' request: '' @ dk_error C e))
      | Inr q \<Rightarrow>
          bindE (scan_evidence C s (sm_evidence (ar_assessment q))
            (\<lparr>da_work = as_work r, da_request_work = ar_work q, da_case_work = wc_work (snd (as_result r)), da_decision_id = [],
              da_decision = no_decision, da_review = [], da_evidence = []\<rparr>, 0, [])) (\<lambda>(a, n, data).
          if \<not> requireDecision then Inr (Some a)
          else if n \<noteq> 1 then Inr None
          else (case pb_read_decision (dk_publish C) data of
            Inl e \<Rightarrow> Inl (DeterministicProblem (''decode review decision '' @ da_decision_id a @ '': '' @ dk_error C e))
          | Inr x \<Rightarrow> Inr (Some (a\<lparr>da_decision := x\<rparr>)))))"

definition discoverPublicationAssessment ::
  "driver_codec \<Rightarrow> ID \<Rightarrow> ID \<Rightarrow> bool \<Rightarrow> evidence_store \<Rightarrow> assessment_problem + driverAssessment option" where
  "discoverPublicationAssessment C k work requireDecision s =
     (case ListAssessments k (es_db s) of
        Inl e \<Rightarrow> Inl (OtherProblem e)
      | Inr rows \<Rightarrow>
          (case find (\<lambda>r. wc_work (snd (as_result r)) = work) rows of
             None \<Rightarrow> Inr None
           | Some r \<Rightarrow> read_assessment C s requireDecision r))"

subsection \<open>The first work is done\<close>

text \<open>How many of the identifiers, without repetitions, are messages of the agent; none when one is no output of the attempt.\<close>

fun qualifying :: "driver_codec \<Rightarrow> evidence_store \<Rightarrow> ID list \<Rightarrow> ID list \<Rightarrow> ID list \<Rightarrow> nat option res" where
  "qualifying C s output seen [] = Inr (Some 0)"
| "qualifying C s output seen (k # ks) =
     (if k \<in> set seen then qualifying C s output seen ks
      else if k \<notin> set output then Inr None
      else bindE (Get_evidence (dk_sha C) k s) (\<lambda>(r, data).
        bindE (qualifying C s output (k # seen) ks) (\<lambda>n.
        Inr (map_option (\<lambda>n. if evi_kind r = agent_message then Suc n else n) n))))"

definition orderingReady :: "driver_codec \<Rightarrow> driverAssessment \<Rightarrow> evidence_store \<Rightarrow> task option res" where
  "orderingReady C a s =
     bindE (FindByIdempotencyKey (da_work a) (es_db s)) (\<lambda>found.
     case found of
       None \<Rightarrow> Inr None
     | Some t \<Rightarrow>
         if t_state t \<noteq> TaskAwaitingVerification \<or> t_attempt t = None then Inr None
         else (case Read_provenance (dk_manifests C) (current_attempt t) (es_db s) of
           Inl e \<Rightarrow> if e = ErrManifestNotFound then Inr None else Inl e
         | Inr p \<Rightarrow>
             bindE (qualifying C s (map fst (pv_evidence p)) [] (da_review a)) (\<lambda>n.
             Inr (if n = Some 1 then Some t else None))))"

definition decodeWorkOnePayload :: "driver_codec \<Rightarrow> string \<Rightarrow> workOnePayload res" where
  "decodeWorkOnePayload C raw =
     bindE (dk_read_work_one C raw) (\<lambda>p0.
     let p = p0\<lparr>w1_project := trim_space (w1_project p0), w1_repo := trim_space (w1_repo p0), w1_source := trim_space (w1_source p0),
               w1_target := trim_space (w1_target p0)\<rparr> in
     if w1_repo p = [] \<or> w1_pr p \<le> 0 \<or> w1_source p = [] \<or> w1_target p = []
     then Inl (Err ''Work 1 payload requires repo, positive pr, sourceCommit, and targetCommit'') else Inr p)"

subsection \<open>The project of a pull request\<close>

definition ErrMalformedProject :: go_error where
  "ErrMalformedProject = Err ''PR get response field is malformed''"

fun project_name :: "any_object \<Rightarrow> string list \<Rightarrow> string res" where
  "project_name m [] = Inl ErrMalformedProject"
| "project_name m (k # ks) =
     (case map_of m k of
        None \<Rightarrow> project_name m ks
      | Some (AText name) \<Rightarrow> if nonblank name then Inr (trim_space name) else project_name m ks
      | Some _ \<Rightarrow> Inl ErrMalformedProject)"

fun project_of :: "any_object \<Rightarrow> string list \<Rightarrow> string res" where
  "project_of m [] = Inr []"
| "project_of m (k # ks) =
     (case map_of m k of
        None \<Rightarrow> project_of m ks
      | Some (AText name) \<Rightarrow> if nonblank name then Inr (trim_space name) else Inl ErrMalformedProject
      | Some (AObject named) \<Rightarrow> project_name named [''name'', ''projectName'']
      | Some _ \<Rightarrow> Inl ErrMalformedProject)"

definition adoProjectField :: "any \<Rightarrow> string res" where
  "adoProjectField raw =
     (case object_of raw of
        None \<Rightarrow> Inl (Err ''PR get response is not an object'')
      | Some pr \<Rightarrow> project_of pr [''project'', ''projectName''])"

definition resolveProject :: "Driver \<Rightarrow> workOnePayload \<Rightarrow> string res" where
  "resolveProject D w =
     (if w1_project w \<noteq> [] then Inr (w1_project w)
      else bindE (dr_caller D ''ado.pr.get''
             ([(''action'', AText ''get''), (''repository'', AText (w1_repo w)), (''pullRequestId'', AInt (w1_pr w))] @
              (if dr_project D \<noteq> [] then [(''project'', AText (dr_project D))] else []))) (\<lambda>raw.
        bindE (adoProjectField raw) (\<lambda>project.
        let project = (if project = [] then dr_project D else project) in
        if project = [] then Inl (Err ''resolve ADO project: PR get response is missing project'') else Inr project)))"

subsection \<open>Blocking a case\<close>

definition isTerminalTaskState :: "task_state \<Rightarrow> bool" where
  "isTerminalTaskState st \<longleftrightarrow> st \<in> {TaskBlocked, TaskChallenged, TaskCancelled, TaskExpired}"

text \<open>The newest output, the greater identifier among those of one time.\<close>

fun latest_output :: "driver_codec \<Rightarrow> evidence_store \<Rightarrow> (ID \<times> gtime) option \<Rightarrow> ID list \<Rightarrow> ID option res" where
  "latest_output C s newest [] = Inr (map_option fst newest)"
| "latest_output C s newest (k # ks) =
     bindE (Get_evidence (dk_sha C) k s) (\<lambda>(r, data).
     latest_output C s
       (case newest of
          None \<Rightarrow> Some (k, evi_created r)
        | Some (b, time) \<Rightarrow> if time < evi_created r \<or> evi_created r = time \<and> b < k then Some (k, evi_created r) else newest) ks)"

definition stored_terminal ::
  "driver_codec \<Rightarrow> env \<Rightarrow> workflow_case \<Rightarrow> task \<Rightarrow> string \<Rightarrow> evidence_store \<Rightarrow> evidence_store \<times> ID res" where
  "stored_terminal C E c t reason s =
     (let body = dk_terminal C \<lparr>ts_case = wc_id c, ts_work = wc_work c, ts_task = t_id t, ts_attempt = current_attempt t,
                   ts_state = t_state t, ts_reason = reason\<rparr> in
      case Put (dk_sha C) (clk E 0) (rnd E 0) body ''application/json'' ''ado.workflow.terminal'' s of
        (s1, Inl e) \<Rightarrow> (s1, Inl e)
      | (s1, Inr r) \<Rightarrow> (s1, Inr (evi_id r)))"

definition persistTerminalEvidence ::
  "driver_codec \<Rightarrow> env \<Rightarrow> workflow_case \<Rightarrow> task \<Rightarrow> string \<Rightarrow> evidence_store \<Rightarrow> evidence_store \<times> ID res" where
  "persistTerminalEvidence C E c t reason s =
     (if t_attempt t = None then stored_terminal C E c t reason s
      else (case Read_provenance (dk_manifests C) (current_attempt t) (es_db s) of
        Inr p \<Rightarrow>
          (case latest_output C s None (map fst (pv_evidence p)) of
             Inl e \<Rightarrow> (s, Inl e)
           | Inr (Some k) \<Rightarrow> (s, Inr k)
           | Inr None \<Rightarrow> stored_terminal C E c t reason s)
      | Inl e \<Rightarrow>
          if e = ErrManifestNotFound \<or> e = ErrManifestIncomplete \<and> isTerminalTaskState (t_state t)
          then stored_terminal C E c t reason s else (s, Inl e)))"

definition publication_assessment :: "workflow_case \<Rightarrow> Verdict \<Rightarrow> string \<Rightarrow> string \<Rightarrow> ID list \<Rightarrow> AssessmentRequest" where
  "publication_assessment c verdict reason suffix ids =
     \<lparr>ar_case = wc_id c, ar_work = wc_work c,
      ar_assessment = \<lparr>sm_verdict = verdict, sm_reason = reason, sm_evidence = ids, sm_next = None\<rparr>,
      ar_budget = wc_budget c, ar_signature = ''ado:publish:'' @ wc_id c @ '':'' @ wc_work c @ suffix\<rparr>"

type_synonym driver_step = "evidence_store \<times> DriverResult \<times> unit res"

definition hold_assessed ::
  "driver_codec \<Rightarrow> env \<Rightarrow> workflow_case \<Rightarrow> string \<Rightarrow> ID list \<Rightarrow> evidence_store \<Rightarrow> DriverResult \<Rightarrow> driver_step" where
  "hold_assessed C E c reason ids s r =
     (case Assess (dk_cases C) E (publication_assessment c VerdictUnknown reason '':unverified'' ids) (es_db s) of
        (d, Inl e) \<Rightarrow> (s\<lparr>es_db := d\<rparr>, r, Inl e)
      | (d, Inr x) \<Rightarrow> (s\<lparr>es_db := d\<rparr>, r\<lparr>dres_blocked := dres_blocked r @ [wc_id c]\<rparr>, Inr ()))"

definition hold ::
  "driver_codec \<Rightarrow> (nat \<Rightarrow> env) \<Rightarrow> workflow_case \<Rightarrow> task \<Rightarrow> string \<Rightarrow> ID list \<Rightarrow> evidence_store \<Rightarrow> DriverResult \<Rightarrow> driver_step" where
  "hold C Es c t reason ids s r =
     (let filtered = filter nonblank ids in
      if filtered \<noteq> [] then hold_assessed C (Es 1) c reason filtered s r
      else (case persistTerminalEvidence C (Es 0) c t reason s of
        (s1, Inl e) \<Rightarrow> (s1, r, Inl e)
      | (s1, Inr k) \<Rightarrow> hold_assessed C (Es 1) c reason [k] s1 r))"

subsection \<open>The evidence of the publisher\<close>

fun split_lines :: "string \<Rightarrow> string list" where
  "split_lines [] = [[]]"
| "split_lines (c # s) =
     (if c = CHR 0x0A then [] # split_lines s
      else (case split_lines s of [] \<Rightarrow> [[c]] | w # ws \<Rightarrow> (c # w) # ws))"

definition publisherEntryRejection :: "string \<Rightarrow> publishEvidenceEntry \<Rightarrow> string + unit" where
  "publisherEntryRejection slot x =
     (if pe_skipped x then Inl (''skipped slot '' @ slot) else if pe_recorded x then Inl (''recorded-only slot '' @ slot) else Inr ())"

text \<open>The codec reads one entry of a line and nothing after it; its error is the reason.\<close>

fun decode_lines :: "driver_codec \<Rightarrow> string list \<Rightarrow> string + publishEvidenceEntry list" where
  "decode_lines C [] = Inr []"
| "decode_lines C (line # ls) =
     (if trim_space line = [] then Inl ''publisher evidence contains a blank line''
      else (case pb_read_entry (dk_publish C) (trim_space line) of
        Inl e \<Rightarrow> Inl (dk_error C e)
      | Inr x \<Rightarrow> bindE (decode_lines C ls) (\<lambda>xs. Inr (x # xs))))"

definition decodePublisherEntries :: "driver_codec \<Rightarrow> string list \<Rightarrow> string + publishEvidenceEntry list" where
  "decodePublisherEntries C contents =
     bindE (decode_lines C (concat (map split_lines contents))) (\<lambda>entries.
     bindE (requireE (entries \<noteq> []) ''work2 completion has no publisher evidence'') (\<lambda>_. Inr entries))"

text \<open>The entries by their slots, each slot once. The map is a list of pairs with distinct keys.\<close>

type_synonym observed = "(string \<times> publishEvidenceEntry) list"

fun observe :: "observed \<Rightarrow> publishEvidenceEntry list \<Rightarrow> string + observed" where
  "observe m [] = Inr m"
| "observe m (x # xs) =
     (let slot = trim_space (pe_slot x) in
      if slot = [] then Inl ''publisher evidence has a blank slot''
      else if map_of m slot \<noteq> None then Inl (''duplicate publisher slot '' @ slot)
      else observe (m @ [(slot, x)]) xs)"

fun confirmed_entries :: "observed \<Rightarrow> publishIntent list \<Rightarrow> string + unit" where
  "confirmed_entries m [] = Inr ()"
| "confirmed_entries m (i # is) =
     (case map_of m (pt_slot i) of
        None \<Rightarrow> Inl (''missing slot '' @ pt_slot i)
      | Some x \<Rightarrow>
          bindE (publisherEntryRejection (pt_slot i) x) (\<lambda>_.
          bindE (requireE (pe_state x = OperationConfirmedEffect) (''slot '' @ pt_slot i @ '' is '' @ operation_state_text (pe_state x))) (\<lambda>_.
          confirmed_entries m is)))"

definition no_unexpected :: "driver_codec \<Rightarrow> publishIntent list \<Rightarrow> observed \<Rightarrow> string + unit" where
  "no_unexpected C is m =
     (case find (\<lambda>slot. slot \<notin> pt_slot ` set is) (dk_visit C (map fst m)) of
        None \<Rightarrow> Inr ()
      | Some slot \<Rightarrow> Inl (''unexpected slot '' @ slot))"

definition lookup_request :: "task \<Rightarrow> publishIntent \<Rightarrow> publishEvidenceEntry \<Rightarrow> ProviderDispatchRequest" where
  "lookup_request t i x =
     \<lparr>rq_operation = pe_operation x, rq_task = t_id t, rq_slot = [], rq_fingerprint = [], rq_revision = 0, rq_canonical = it_body (pt_intent i)\<rparr>"

definition lookup_of :: "LookupProvider \<Rightarrow> LookupProvider \<Rightarrow> publishIntent \<Rightarrow> answer" where
  "lookup_of comment vote i = (if pt_provider i = voteProviderName then lp_lookup vote else lp_lookup comment)"

fun confirm_all :: "Driver \<Rightarrow> task \<Rightarrow> observed \<Rightarrow> publishIntent list \<Rightarrow> string + unit" where
  "confirm_all D t m [] = Inr ()"
| "confirm_all D t m (i # is) =
     (case lookup_of (dr_comment D) (dr_vote D) i (lookup_request t i (the (map_of m (pt_slot i)))) of
        Inl e \<Rightarrow> Inl (''lookup '' @ pt_slot i @ '': '' @ dk_error (dr_codec D) e)
      | Inr out \<Rightarrow>
          bindE (requireE (out_state out = OperationConfirmedEffect)
              (''slot '' @ pt_slot i @ '' lookup is '' @ operation_state_text (out_state out))) (\<lambda>_.
          confirm_all D t m is))"

definition check_publication ::
  "Driver \<Rightarrow> task \<Rightarrow> PublishPayload \<Rightarrow> ReviewDecision \<Rightarrow> string list \<Rightarrow> string + unit" where
  "check_publication D t p x contents =
     bindE (decodePublisherEntries (dr_codec D) contents) (\<lambda>entries.
     bindE (case buildPublishIntents (dk_publish (dr_codec D)) p x of
              Inl e \<Rightarrow> Inl (''invalid publication decision: '' @ dk_error (dr_codec D) e) | Inr is \<Rightarrow> Inr is) (\<lambda>is.
     bindE (observe [] entries) (\<lambda>m.
     bindE (confirmed_entries m is) (\<lambda>_.
     bindE (no_unexpected (dr_codec D) is m) (\<lambda>_.
     confirm_all D t m is)))))"

text \<open>The messages of the agent among the outputs.\<close>

fun agent_messages :: "driver_codec \<Rightarrow> evidence_store \<Rightarrow> ID list \<Rightarrow> string list res" where
  "agent_messages C s [] = Inr []"
| "agent_messages C s (k # ks) =
     bindE (Get_evidence (dk_sha C) k s) (\<lambda>(r, data).
     bindE (agent_messages C s ks) (\<lambda>rest. Inr (if evi_kind r = agent_message then data # rest else rest)))"

definition verifyPublication ::
  "Driver \<Rightarrow> (nat \<Rightarrow> env) \<Rightarrow> workflow_case \<Rightarrow> task \<Rightarrow> PublishPayload \<Rightarrow> ReviewDecision \<Rightarrow> evidence_store \<Rightarrow> DriverResult \<Rightarrow> driver_step" where
  "verifyPublication D Es c t p x s r =
     (case bindE (Read_provenance (dk_manifests (dr_codec D)) (current_attempt t) (es_db s)) (\<lambda>pv.
             bindE (agent_messages (dr_codec D) s (map fst (pv_evidence pv))) (\<lambda>contents. Inr (map fst (pv_evidence pv), contents))) of
        Inl e \<Rightarrow> (s, r, Inl e)
      | Inr (ids, contents) \<Rightarrow>
          if ids = [] then hold (dr_codec D) Es c t ''work2 completion has no evidence'' [] s r
          else (case check_publication D t p x contents of
            Inl reason \<Rightarrow> hold (dr_codec D) Es c t reason ids s r
          | Inr u \<Rightarrow>
              (case Assess (dk_cases (dr_codec D)) (Es 1)
                  (publication_assessment c VerdictReady ''ADO publication effects verified'' '':verified'' ids) (es_db s) of
                 (d, Inl e) \<Rightarrow> (s\<lparr>es_db := d\<rparr>, r, Inl e)
               | (d, Inr y) \<Rightarrow> (s\<lparr>es_db := d\<rparr>, r\<lparr>dres_ready := dres_ready r @ [wc_id c]\<rparr>, Inr ()))))"

subsection \<open>One step\<close>

definition publish_task_request :: "Driver \<Rightarrow> workflow_case \<Rightarrow> PublishPayload \<Rightarrow> TaskRequest" where
  "publish_task_request D c p =
     \<lparr>tr_purpose = \<lparr>pr_kind = PurposeOther [], pr_id = []\<rparr>, tr_class = [], tr_objective = ''Publish ADO review decision for '' @ wc_object c,
      tr_payload = dk_payload (dr_codec D) p, tr_key = [], tr_criteria = [''publication evidence recorded for '' @ wc_revision c],
      tr_capabilities = [], tr_enforcement = EnforcementOther [], tr_authority = [], tr_envelope = dr_envelope D, tr_priority = 0,
      tr_earliest = 0, tr_deadline = 0\<rparr>"

text \<open>The task of the second work with its payload, found or made.\<close>

definition work_two ::
  "Driver \<Rightarrow> env \<Rightarrow> driverAssessment \<Rightarrow> workOnePayload \<Rightarrow> workflow_case \<Rightarrow> db \<Rightarrow> db \<times> (task \<times> PublishPayload) res" where
  "work_two D E a w c d =
     (case FindByIdempotencyKey (wc_work c) d of
        Inl e \<Rightarrow> (d, Inl e)
      | Inr (Some t) \<Rightarrow> (d, bindE (dk_read_published (dr_codec D) (t_payload t)) (\<lambda>p. Inr (t, p)))
      | Inr None \<Rightarrow>
          (case resolveProject D w of
             Inl e \<Rightarrow> (d, Inl e)
           | Inr project \<Rightarrow>
               let p = \<lparr>pl_decision = da_decision_id a, pl_case = wc_id c, pl_work = wc_work c, pl_project = project, pl_repo = w1_repo w,
                        pl_pr = w1_pr w, pl_revision = wc_revision c\<rparr> in
               (case MaterializeTask (dk_tasks (dr_codec D)) (clk E 0) (rnd E 0) (wc_id c) (wc_work c) (publish_task_request D c p) d of
                  (d1, Inl e) \<Rightarrow> (d1, Inl e)
                | (d1, Inr t) \<Rightarrow> (d1, Inr (t, p)))))"

definition settle_work_two ::
  "Driver \<Rightarrow> (nat \<Rightarrow> env) \<Rightarrow> workflow_case \<Rightarrow> task \<Rightarrow> PublishPayload \<Rightarrow> ReviewDecision \<Rightarrow> evidence_store \<Rightarrow> DriverResult \<Rightarrow> driver_step" where
  "settle_work_two D Es c t p x s r =
     (if t_state t \<in> {TaskEligible, TaskExecuting} then (s, r, Inr ())
      else if t_state t = TaskAwaitingVerification then verifyPublication D Es c t p x s r
      else if isTerminalTaskState (t_state t) then hold (dr_codec D) Es c t (''work2 '' @ task_state_text (t_state t)) [] s r
      else (s, r, Inl (Err ''work2 task has unsupported state'')))"

definition stepCase :: "Driver \<Rightarrow> (nat \<Rightarrow> env) \<Rightarrow> workflow_case \<Rightarrow> evidence_store \<Rightarrow> DriverResult \<Rightarrow> driver_step" where
  "stepCase D Es c s r =
     (case discoverPublicationAssessment (dr_codec D) (wc_id c) (wc_work c) True s of
        Inl problem \<Rightarrow> (s, r, Inl (problem_error problem))
      | Inr None \<Rightarrow> (s, r, Inr ())
      | Inr (Some a) \<Rightarrow>
          (case orderingReady (dr_codec D) a s of
             Inl e \<Rightarrow> (s, r, Inl e)
           | Inr None \<Rightarrow> (s, r, Inr ())
           | Inr (Some work1) \<Rightarrow>
               (case decodeWorkOnePayload (dr_codec D) (t_payload work1) of
                  Inl e \<Rightarrow> (s, r, Inl e)
                | Inr w \<Rightarrow>
                    (case work_two D (Es 2) a w c (es_db s) of
                       (d, Inl e) \<Rightarrow> (s\<lparr>es_db := d\<rparr>, r, Inl e)
                     | (d, Inr (t, p)) \<Rightarrow>
                         settle_work_two D Es c t p (da_decision a) (s\<lparr>es_db := d\<rparr>)
                           (r\<lparr>dres_materialized := dres_materialized r @ [t_id t]\<rparr>)))))"

fun step_cases :: "Driver \<Rightarrow> (nat \<Rightarrow> nat \<Rightarrow> env) \<Rightarrow> nat \<Rightarrow> workflow_case list \<Rightarrow> evidence_store \<Rightarrow> DriverResult \<Rightarrow> driver_step" where
  "step_cases D Ess n [] s r = (s, r, Inr ())"
| "step_cases D Ess n (c # cs) s r =
     (if wc_source c \<noteq> ''ado'' \<or> wp_kind (wc_next c) \<noteq> ''publish-decision'' then step_cases D Ess (Suc n) cs s r
      else (case stepCase D (Ess n) c s r of
        (s1, r1, Inl e) \<Rightarrow> (s1, r1, Inl e)
      | (s1, r1, Inr u) \<Rightarrow> step_cases D Ess (Suc n) cs s1 r1))"

definition StepOnce_driver :: "Driver \<Rightarrow> (nat \<Rightarrow> nat \<Rightarrow> env) \<Rightarrow> evidence_store \<Rightarrow> driver_step" where
  "StepOnce_driver D Ess s =
     (let r = \<lparr>dres_materialized = [], dres_ready = [], dres_blocked = []\<rparr> in
      case ListActive (dr_mission D) (es_db s) of
        Inl e \<Rightarrow> (s, r, Inl e)
      | Inr active \<Rightarrow> step_cases D Ess 0 active s r)"

subsection \<open>Lines and slots\<close>

lemma split_lines_no_newline: "CHR 0x0A \<notin> set w \<Longrightarrow> split_lines w = [w]"
  by (induction w) auto

lemma split_lines_append: "CHR 0x0A \<notin> set w \<Longrightarrow> split_lines (w @ CHR 0x0A # s) = w # split_lines s"
  by (induction w) auto

lemma split_lines_Join: "ws \<noteq> [] \<Longrightarrow> \<forall>w \<in> set ws. CHR 0x0A \<notin> set w \<Longrightarrow> split_lines (Join ws newline) = ws"
  by (induction ws newline rule: Join.induct) (simp_all add: split_lines_no_newline split_lines_append newline_def)

text \<open>What follows a separator that is no space is trimmed as it stands alone.\<close>

lemma trim_space_after:
  assumes "pre \<noteq> []" "plain_byte (hd pre)" "plain_byte (last pre)" and "trim_space r = r"
  shows "trim_space (pre @ r) = pre @ r"
proof (cases "r = []")
  case True
  with assms show ?thesis by (simp add: trim_space_plain)
next
  case False
  let ?R = "map rev go_spaces"
  have r: "\<not> starts_with_any ?R (rev r)"
    using strip_all_stripped [of ?R "rev (strip_all go_spaces r)"] assms(4) unfolding trim_space_def by (metis rev_rev_ident)
  have "\<not> starts_with_any ?R (rev r @ rev pre)"
  proof
    assume "starts_with_any ?R (rev r @ rev pre)"
    then obtain q where q: "q \<in> set ?R" "q \<noteq> []" "take (length q) (rev r @ rev pre) = q" unfolding starts_with_any_def by blast
    show False
    proof (cases "length q \<le> length r")
      case True
      with q have "take (length q) (rev r) = q" by simp
      with q r show False by (auto simp: starts_with_any_def)
    next
      case False
      then have "0 < length q - length r" by simp
      then obtain k where "length q - length r = Suc k" by (cases "length q - length r") auto
      then have "q = rev r @ take (Suc k) (rev pre)" using q(3) False by simp
      moreover obtain rest where "rev pre = last pre # rest" using assms(1) by (metis hd_rev list.collapse rev_is_Nil_conv)
      ultimately have "last pre \<in> set q" by auto
      with q(1) assms(3) show False by (auto simp: plain_byte_def)
    qed
  qed
  then have "strip_all ?R (rev (pre @ r)) = rev (pre @ r)" by (simp add: strip_all_id)
  moreover have "\<not> starts_with_any go_spaces (pre @ r)"
  proof
    assume "starts_with_any go_spaces (pre @ r)"
    then obtain q where q: "q \<in> set go_spaces" "q \<noteq> []" "take (length q) (pre @ r) = q" by (auto simp: starts_with_any_def)
    then have "hd q = hd pre" using assms(1) by (metis hd_append2 hd_take length_greater_0_conv)
    then have "hd pre \<in> set (concat go_spaces)" using q(1,2) by (metis UN_I list.set_sel(1) set_concat)
    with assms(2) show False by (simp add: plain_byte_def)
  qed
  ultimately show ?thesis by (simp add: trim_space_def strip_all_id)
qed

lemma digit_plain: "digit c \<Longrightarrow> plain_byte c"
  by (auto simp: plain_byte_def go_spaces_def digit_def)

lemma decimal_digits: "0 \<le> n \<Longrightarrow> decimal n \<noteq> [] \<and> list_all digit (decimal n)"
  using digits_value_decimal [of n] by (auto simp: digits_value_def split: if_splits)

lemma trim_space_decimal: "0 \<le> n \<Longrightarrow> trim_space (decimal n) = decimal n"
  using decimal_digits [of n] by (intro trim_space_plain) (auto simp: list_all_iff digit_plain)

lemma decimal_inj: "0 \<le> m \<Longrightarrow> 0 \<le> n \<Longrightarrow> decimal m = decimal n \<Longrightarrow> m = n"
  by (metis digits_value_decimal option.inject)

lemma buildPublishIntents_slots:
  assumes "buildPublishIntents B p x = Inr is" and "trim_space (pl_revision p) = pl_revision p"
  shows "distinct (map pt_slot is)" and "i \<in> set is \<Longrightarrow> trim_space (pt_slot i) = pt_slot i \<and> pt_slot i \<noteq> []"
proof -
  obtain cs where v: "validatePublishDecision x = Inr ()" and cs: "comment_intents B p 0 (rd_comments x) = Inr cs"
    and is_eq: "is = cs @ (if rd_action x = DecisionApproveAction then [vote_intent_of B p] else [])"
    using assms(1) by (auto simp: buildPublishIntents_def Let_def elim!: bindE_InrE split: if_splits)
  have members: "cs = map (\<lambda>k. comment_intent_of B p k (rd_comments x ! k)) [0..<length (rd_comments x)]"
    using comment_intents_members [OF cs] by simp
  have "cs = []" if "rd_action x = DecisionApproveAction"
    using v that members by (auto simp: validatePublishDecision_def DecisionApproveAction_def DecisionCommentAction_def bind_simps)
  moreover have "distinct (map pt_slot cs)"
    unfolding members by (auto simp: distinct_map inj_on_def comment_intent_of_def dest!: decimal_inj [rotated 2])
  ultimately show "distinct (map pt_slot is)" by (simp add: is_eq)
  have plain: "plain_byte (CHR ''a'')" "plain_byte (CHR '':'')" by (simp_all add: plain_byte_def go_spaces_def)
  assume "i \<in> set is"
  from buildPublishIntents_Inr [OF assms(1) this] show "trim_space (pt_slot i) = pt_slot i \<and> pt_slot i \<noteq> []"
  proof (elim disjE conjE exE)
    assume "i = vote_intent_of B p"
    then have "pt_slot i = (''ado.pr.approve:'' @ pl_project p @ ''/'' @ pl_repo p @ ''#'' @ decimal (pl_pr p) @ '':'') @ pl_revision p"
      by (simp add: vote_intent_of_def pr_place_def)
    moreover have "trim_space (pre @ pl_revision p) = pre @ pl_revision p" if "pre = ''ado.pr.approve:'' @ mid @ '':''" for pre mid
      using that plain by (intro trim_space_after assms(2)) simp_all
    ultimately show ?thesis by (metis (no_types, lifting) append.assoc append_is_Nil_conv list.discI)
  next
    fix n assume "i = comment_intent_of B p n (rd_comments x ! n)"
    then have "pt_slot i = (''ado.pr.comment:'' @ pr_place p @ '':'') @ decimal (int n)"
      by (simp add: comment_intent_of_def)
    moreover have "trim_space (pre @ decimal (int n)) = pre @ decimal (int n)" if "pre = ''ado.pr.comment:'' @ mid @ '':''" for pre mid
      using that plain by (intro trim_space_after trim_space_decimal) simp_all
    ultimately show ?thesis by (metis (no_types, lifting) append_is_Nil_conv list.discI)
  qed
qed

subsection \<open>What the checks establish\<close>

lemma observe_slots:
  "\<forall>x \<in> set xs. trim_space (pe_slot x) = pe_slot x \<and> pe_slot x \<noteq> [] \<Longrightarrow> distinct (map fst m @ map pe_slot xs) \<Longrightarrow>
   observe m xs = Inr (m @ map (\<lambda>x. (pe_slot x, x)) xs)"
proof (induction xs arbitrary: m)
  case (Cons x xs)
  then have "map_of m (pe_slot x) = None" by (auto simp: map_of_eq_None_iff)
  with Cons show ?case by (simp add: Let_def)
qed simp

lemma confirmed_entries_Inr:
  "confirmed_entries m is = Inr () \<longleftrightarrow>
   (\<forall>i \<in> set is. \<exists>x. map_of m (pt_slot i) = Some x \<and> \<not> pe_skipped x \<and> \<not> pe_recorded x \<and> pe_state x = OperationConfirmedEffect)"
  by (induction "is") (auto simp: publisherEntryRejection_def bind_simps split: option.split)

lemma confirm_all_Inr:
  "confirm_all D t m is = Inr () \<longleftrightarrow>
   (\<forall>i \<in> set is. \<exists>out. lookup_of (dr_comment D) (dr_vote D) i (lookup_request t i (the (map_of m (pt_slot i)))) = Inr out \<and>
      out_state out = OperationConfirmedEffect)"
  by (induction "is") (auto simp: bind_simps split: sum.split)

lemma no_unexpected_Inr:
  assumes "\<And>ks. set (dk_visit C ks) = set ks"
  shows "no_unexpected C is m = Inr () \<longleftrightarrow> fst ` set m \<subseteq> pt_slot ` set is"
proof -
  have "no_unexpected C is m = Inr () \<longleftrightarrow> find (\<lambda>slot. slot \<notin> pt_slot ` set is) (dk_visit C (map fst m)) = None"
    by (simp add: no_unexpected_def split: option.split)
  also have "\<dots> \<longleftrightarrow> fst ` set m \<subseteq> pt_slot ` set is" using assms by (auto simp: find_None_iff)
  finally show ?thesis .
qed

lemma decode_lines_entries:
  assumes "\<forall>x \<in> set xs. pb_read_entry (dk_publish C) (pb_entry (dk_publish C) x) = Inr x \<and>
    trim_space (pb_entry (dk_publish C) x) = pb_entry (dk_publish C) x \<and> pb_entry (dk_publish C) x \<noteq> []"
  shows "decode_lines C (map (pb_entry (dk_publish C)) xs) = Inr xs"
  using assms by (induction xs) auto

text \<open>What a codec of entries promises: an entry is one line, not blank, without space around it, and is read back.\<close>

definition entry_reads_back :: "publish_codec \<Rightarrow> publishEvidenceEntry \<Rightarrow> bool" where
  "entry_reads_back B x \<longleftrightarrow> pb_read_entry B (pb_entry B x) = Inr x \<and> trim_space (pb_entry B x) = pb_entry B x \<and>
     pb_entry B x \<noteq> [] \<and> CHR 0x0A \<notin> set (pb_entry B x)"

lemma decodePublisherEntries_written:
  assumes "xs \<noteq> []" and "\<forall>x \<in> set xs. entry_reads_back (dk_publish C) x"
  shows "decodePublisherEntries C [Join (map (pb_entry (dk_publish C)) xs) newline] = Inr xs"
proof -
  have "split_lines (Join (map (pb_entry (dk_publish C)) xs) newline) = map (pb_entry (dk_publish C)) xs"
    using assms by (intro split_lines_Join) (auto simp: entry_reads_back_def)
  then show ?thesis using decode_lines_entries [of xs C] assms by (simp add: decodePublisherEntries_def entry_reads_back_def)
qed

lemma publish_operation_entries:
  assumes "publish_operation P Es send lookup p attempt n i entries d = ((d1, rqs, es, e), go)"
  shows "go \<Longrightarrow> \<exists>y. es = entries @ [y] \<and> pe_slot y = pt_slot i \<and> \<not> pe_skipped y \<and> \<not> pe_recorded y"
    and "\<not> go \<Longrightarrow> e = None \<Longrightarrow> \<exists>y. es = entries @ [y] \<and> pe_state y = OperationOutcomeUnknown"
proof -
  let ?done = "(go \<longrightarrow> (\<exists>y. es = entries @ [y] \<and> pe_slot y = pt_slot i \<and> \<not> pe_skipped y \<and> \<not> pe_recorded y)) \<and>
    (\<not> go \<and> e = None \<longrightarrow> (\<exists>y. es = entries @ [y] \<and> pe_state y = OperationOutcomeUnknown))"
  obtain d0 q where prep: "Prepare (pu_ops P) (pu_service P) (Es (2 * n)) (publish_request P p attempt i) d = (d0, q)" by (cases rule: prod.exhaust)
  have "?done"
  proof (cases q)
    case (Inl e0)
    with assms prep show ?thesis by (auto simp: publish_operation_def)
  next
    case (Inr x)
    obtain d2 rqs2 r where disp: "Dispatch (pu_ops P) (pu_service P) (Es (2 * n + 1)) send lookup (o_id x) attempt d0 = (d2, rqs2, r)"
      by (cases rule: prod_cases3)
    show ?thesis
    proof (cases "o_state x = OperationOutcomeUnknown \<or> returned_unknown (pu_service P) (o_id x) r d2")
      case True
      then obtain d3 rqs3 y where "publish_operation P Es send lookup p attempt n i entries d =
          ((d3, rqs3, entries @ [operation_entry (pt_slot i) OperationOutcomeUnknown y], None), False)"
        unfolding publish_operation_def prep Inr prod.case sum.case disp by (cases "o_state x = OperationOutcomeUnknown") simp_all
      with assms show ?thesis by (auto simp: operation_entry_def)
    next
      case False
      then show ?thesis using assms prep Inr disp by (cases r) (auto simp: publish_operation_def operation_entry_def split: if_splits)
    qed
  qed
  then show "go \<Longrightarrow> \<exists>y. es = entries @ [y] \<and> pe_slot y = pt_slot i \<and> \<not> pe_skipped y \<and> \<not> pe_recorded y"
    "\<not> go \<Longrightarrow> e = None \<Longrightarrow> \<exists>y. es = entries @ [y] \<and> pe_state y = OperationOutcomeUnknown" by auto
qed

lemma publish_all_entries:
  "publish_all P Es send lookup p attempt n is entries d = (d', rqs, entries', None) \<Longrightarrow> pu_mode P \<noteq> PublishNone \<Longrightarrow>
   \<forall>i \<in> set is. pt_provider i = voteProviderName \<longrightarrow> pu_mode P \<noteq> PublishComments \<Longrightarrow>
   \<forall>x \<in> set entries'. pe_state x = OperationConfirmedEffect \<Longrightarrow>
   \<exists>ys. entries' = entries @ ys \<and> map pe_slot ys = map pt_slot is \<and> (\<forall>y \<in> set ys. \<not> pe_skipped y \<and> \<not> pe_recorded y)"
proof (induction "is" arbitrary: n entries d rqs)
  case (Cons i js)
  obtain d1 rqs1 es1 e1 go where op: "publish_operation P Es send lookup p attempt n i entries d = ((d1, rqs1, es1, e1), go)"
    by (metis prod.collapse)
  note entries = publish_operation_entries [OF op]
  have run: "publish_all P Es send lookup p attempt n (i # js) entries d =
      (if go then (case publish_all P Es send lookup p attempt (Suc n) js es1 d1 of (d2, rqs2, es2, e2) \<Rightarrow> (d2, rqs1 @ rqs2, es2, e2))
       else (d1, rqs1, es1, e1))"
    using Cons.prems(2,3) op by (cases go) auto
  have go: go
  proof (rule ccontr)
    assume "\<not> go"
    then have "e1 = None" "entries' = es1" using run Cons.prems(1) by auto
    with entries(2) \<open>\<not> go\<close> Cons.prems(4) show False by auto
  qed
  then obtain rqs2 where "publish_all P Es send lookup p attempt (Suc n) js es1 d1 = (d', rqs2, entries', None)"
    using Cons.prems(1) run by (auto split: prod.splits)
  from Cons.IH [OF this] Cons.prems(2-4) obtain ys where
    "entries' = es1 @ ys" "map pe_slot ys = map pt_slot js" "\<forall>y \<in> set ys. \<not> pe_skipped y \<and> \<not> pe_recorded y" by auto
  with entries(1) [OF go] show ?case by fastforce
qed simp

subsection \<open>A review to evaluate on\<close>

text \<open>One comment, published: the case with both tasks done, their manifests, completions and evidence.\<close>

definition demo_pr_payload :: PublishPayload where
  "demo_pr_payload = \<lparr>pl_decision = ''d1'', pl_case = ''k'', pl_work = ''w2'', pl_project = ''p'', pl_repo = ''r'', pl_pr = 7, pl_revision = ''v''\<rparr>"

definition demo_entry :: publishEvidenceEntry where
  "demo_entry = \<lparr>pe_slot = ''ado.pr.comment:p/r#7:v:0'', pe_operation = ''operation_b'', pe_state = OperationConfirmedEffect,
     pe_reference = ''ado-pr-comment:r#7:t9'', pe_skipped = False, pe_recorded = False\<rparr>"

definition demo_manifest :: "ID \<Rightarrow> Manifest" where
  "demo_manifest k = \<lparr>mf_version = 1, mf_task = CHR ''t'' # tl k, mf_objective = [], mf_payload_hash = [], mf_attempt = k, mf_fence = 1,
     mf_executor = [], mf_runtime = \<lparr>bm_version = [], bm_commit = []\<rparr>, mf_policy = \<lparr>ps_set = [], ps_hash = [], ps_caps_hash = []\<rparr>,
     mf_teb = \<lparr>ts_name = [], ts_level = EnforcementEnforced, ts_guarantees = []\<rparr>, mf_capabilities = [], mf_envelope = [], mf_started = 1\<rparr>"

definition demo_driver_codec :: driver_codec where
  "demo_driver_codec =
     \<lparr>dk_publish = demo_publish_codec\<lparr>pb_read_payload := (\<lambda>s. Inr demo_pr_payload), pb_entry := (\<lambda>x. ''c''), pb_read_entry := (\<lambda>s. Inr demo_entry)\<rparr>,
      dk_cases = demo_case_codec, dk_tasks = \<lparr>normalize_json = Inr, request_digest = (\<lambda>k q. [])\<rparr>,
      dk_manifests = \<lparr>mc_encode = mf_attempt, mc_decode = (\<lambda>s. Inr (demo_manifest s)), mc_sha = (\<lambda>s. s)\<rparr>,
      dk_sha = (\<lambda>s. replicate 64 (hd s)),
      dk_read_request = (\<lambda>s. Inr \<lparr>ar_case = ''k'', ar_work = s,
        ar_assessment = \<lparr>sm_verdict = VerdictContinue, sm_reason = [], sm_evidence = (if s = ''w1'' then [''e1'', ''d1''] else [''p1'']), sm_next = None\<rparr>,
        ar_budget = 3, ar_signature = []\<rparr>),
      dk_read_work_one = (\<lambda>s. Inr \<lparr>w1_project = ''p'', w1_repo = ''r'', w1_pr = 7, w1_source = ''a'', w1_target = ''b''\<rparr>),
      dk_read_published = (\<lambda>s. Inr demo_pr_payload), dk_payload = pl_work, dk_terminal = ts_reason, dk_error = (\<lambda>e. ''error''),
      dk_visit = (\<lambda>ks. ks)\<rparr>"

definition demo_lookups :: "string \<Rightarrow> LookupProvider" where
  "demo_lookups name = \<lparr>lp_name = name, lp_lookup = (\<lambda>rq. Inr \<lparr>out_state = OperationConfirmedEffect, out_reference = [], out_cost = 0\<rparr>)\<rparr>"

definition demo_driver :: Driver where
  "demo_driver = \<lparr>dr_mission = ''m'', dr_envelope = ''e'', dr_comment = demo_lookups commentProviderName, dr_vote = demo_lookups voteProviderName,
     dr_caller = demo_ado, dr_project = [], dr_codec = demo_driver_codec\<rparr>"

definition demo_publishing_case :: "case_state \<Rightarrow> ID \<Rightarrow> workflow_case" where
  "demo_publishing_case st work = \<lparr>wc_id = ''k'', wc_mission = ''m'', wc_work = work, wc_source = ''ado'', wc_object = ''r#7'', wc_revision = ''v'',
     wc_evidence = ''e1'', wc_state = st,
     wc_next = (if work = [] then no_work else \<lparr>wp_kind = ''publish-decision'', wp_required = [], wp_authority = [], wp_actions = []\<rparr>),
     wc_grant = \<lparr>gr_capabilities = [], gr_actions = []\<rparr>, wc_steps = (if work = [] then 2 else 1), wc_max = 5, wc_budget = 3, wc_signature = []\<rparr>"

definition demo_published_task :: "string \<Rightarrow> string \<Rightarrow> task" where
  "demo_published_task n cl = \<lparr>t_id = CHR ''t'' # n, t_parent = [], t_purpose = mission_ref ''m'', t_class = cl, t_objective = [], t_payload = [],
     t_idem_key = CHR ''w'' # n, t_state = TaskAwaitingVerification, t_attempt = Some (CHR ''a'' # n), t_fence = 1, t_criteria = [], t_capabilities = [],
     t_enforcement = EnforcementEnforced, t_authority = [], t_envelope = ''e'', t_priority = 0, t_earliest = 0, t_deadline = 0, t_created = 1,
     t_updated = 1, t_request_hash = []\<rparr>"

definition demo_assessed_row :: "string \<Rightarrow> workflow_case \<Rightarrow> assessment_row" where
  "demo_assessed_row work c = \<lparr>as_id = work, as_case = ''k'', as_work = work, as_request = work,
     as_result = (\<lparr>wd_outcome = OutcomeContinue, wd_reason = [], wd_next = None\<rparr>, c), as_created = 1\<rparr>"

definition demo_evidence_of :: "string \<Rightarrow> string \<Rightarrow> char \<Rightarrow> evidence_row" where
  "demo_evidence_of k kind h = \<lparr>evi_id = k, evi_hash = replicate 64 h, evi_media = [], evi_kind = kind, evi_size = 1, evi_created = 1\<rparr>"

definition demo_driver_store :: "workflow_case \<Rightarrow> assessment_row list \<Rightarrow> evidence_store" where
  "demo_driver_store c rows =
     \<lparr>es_db = demo_mission\<lparr>
        db_cases := [workflow_case.extend c \<lparr>wc_request = [], wc_created = 1, wc_updated = 1\<rparr>], db_assessments := rows,
        db_tasks := [demo_published_task ''1'' ''review'', demo_published_task ''2'' ''publish-decision''],
        db_manifests := map (\<lambda>n. \<lparr>rm_attempt = CHR ''a'' # n, rm_task = CHR ''t'' # n, rm_hash = CHR ''a'' # n, rm_json = CHR ''a'' # n, rm_created = 1\<rparr>)
          [''1'', ''2''],
        db_completions := [\<lparr>co_id = ''c1'', co_task = ''t1'', co_attempt = ''a1'', co_hash = [], co_evidence = [''e1''], co_at = 1\<rparr>,
          \<lparr>co_id = ''c2'', co_task = ''t2'', co_attempt = ''a2'', co_hash = [], co_evidence = [''p1''], co_at = 1\<rparr>],
        db_evidence := [demo_evidence_of ''e1'' agent_message (CHR ''a''), demo_evidence_of ''d1'' decision_kind (CHR ''b''),
          demo_evidence_of ''p1'' agent_message (CHR ''c'')]\<rparr>,
      es_blobs = (\<lambda>h. Some [hd h])\<rparr>"

definition demo_driver_step :: driver_step where
  "demo_driver_step =
     (let c = demo_publishing_case CaseActive ''w2'' in
      stepCase demo_driver (\<lambda>n. demo_env) c (demo_driver_store c [demo_assessed_row ''w1'' c])
        \<lparr>dres_materialized = [], dres_ready = [], dres_blocked = []\<rparr>)"

lemma demo_driver_readies: "snd demo_driver_step = (\<lparr>dres_materialized = [''t2''], dres_ready = [''k''], dres_blocked = []\<rparr>, Inr ())"
  by code_simp

subsection \<open>Publisher and driver\<close>

text \<open>
  What the publisher completes, the driver accepts: when the loop over the intents of a decision ends without an error and every
  entry of its evidence is a confirmed effect, the driver reads exactly these entries back from the evidence, finds each intent once and no other slot,
  and passes the publication if the providers still confirm the effects.
\<close>

theorem completed_publication_passes:
  assumes "buildPublishIntents (pu_codec P) p x = Inr is" and "publish_all P Es send lookup p attempt 0 is [] d = (d', rqs, entries, None)"
    and "pu_mode P = PublishAll \<or> pu_mode P = PublishComments \<and> rd_action x = DecisionCommentAction"
    and "\<forall>y \<in> set entries. pe_state y = OperationConfirmedEffect \<and> entry_reads_back (pu_codec P) y"
    and "dk_publish (dr_codec D) = pu_codec P" and "\<And>ks. set (dk_visit (dr_codec D) ks) = set ks"
    and "trim_space (pl_revision p) = pl_revision p"
    and "\<And>i y. i \<in> set is \<Longrightarrow> y \<in> set entries \<Longrightarrow>
      \<exists>out. lookup_of (dr_comment D) (dr_vote D) i (lookup_request t i y) = Inr out \<and> out_state out = OperationConfirmedEffect"
  shows "xr_evidence (publishExecutionResult (pu_codec P) entries) = [(agent_message, c)] \<Longrightarrow>
    decodePublisherEntries (dr_codec D) [c] = Inr entries \<and> check_publication D t p x [c] = Inr ()"
proof -
  assume c: "xr_evidence (publishExecutionResult (pu_codec P) entries) = [(agent_message, c)]"
  have votes: "\<forall>i \<in> set is. pt_provider i = voteProviderName \<longrightarrow> pu_mode P \<noteq> PublishComments"
    using assms(3) buildPublishIntents_Inr [OF assms(1)]
    by (fastforce simp: DecisionApproveAction_def DecisionCommentAction_def comment_intent_of_def commentProviderName_def voteProviderName_def)
  have slots: "map pe_slot entries = map pt_slot is" and plain: "\<forall>y \<in> set entries. \<not> pe_skipped y \<and> \<not> pe_recorded y"
    using publish_all_entries [OF assms(2) _ votes] assms(3,4) by auto
  note intent_slots = buildPublishIntents_slots [OF assms(1,7)]
  have "is \<noteq> []" using assms(1) by (auto simp: buildPublishIntents_def Let_def elim!: bindE_InrE split: if_splits)
  then have "entries \<noteq> []" using slots by auto
  then have decoded: "decodePublisherEntries (dr_codec D) [c] = Inr entries"
    using decodePublisherEntries_written [of entries "dr_codec D"] assms(4,5) c by (auto simp: publishExecutionResult_def)
  let ?m = "map (\<lambda>y. (pe_slot y, y)) entries"
  have "\<forall>y \<in> set entries. trim_space (pe_slot y) = pe_slot y \<and> pe_slot y \<noteq> []"
  proof
    fix y assume "y \<in> set entries"
    then have "pe_slot y \<in> set (map pt_slot is)" unfolding slots [symmetric] by simp
    then obtain i where "i \<in> set is" "pe_slot y = pt_slot i" by auto
    with intent_slots(2) [of i] show "trim_space (pe_slot y) = pe_slot y \<and> pe_slot y \<noteq> []" by simp
  qed
  then have observed: "observe [] entries = Inr ?m" using observe_slots [of entries "[]"] intent_slots(1) slots by simp
  have dist: "distinct (map fst ?m)" using intent_slots(1) slots by (simp add: comp_def)
  have entry: "\<exists>y \<in> set entries. map_of ?m (pt_slot i) = Some y" if "i \<in> set is" for i
  proof -
    have "pt_slot i \<in> pe_slot ` set entries" using that slots by (metis imageI list.set_map)
    then obtain y where y: "y \<in> set entries" "pt_slot i = pe_slot y" by auto
    then have "(pt_slot i, y) \<in> set ?m" by auto
    then show ?thesis using map_of_is_SomeI [OF dist] y(1) by blast
  qed
  have "confirmed_entries ?m is = Inr ()" unfolding confirmed_entries_Inr using entry assms(4) plain by blast
  moreover have "no_unexpected (dr_codec D) is ?m = Inr ()"
    unfolding no_unexpected_Inr [OF assms(6)] using slots by (auto simp: image_image) (metis imageI list.set_map)
  moreover have "confirm_all D t ?m is = Inr ()" unfolding confirm_all_Inr using entry assms(8) by (metis option.sel)
  ultimately show ?thesis using decoded observed assms(1,5) by (simp add: check_publication_def)
qed

definition demo_completing :: Publisher where
  "demo_completing = demo_publisher\<lparr>pu_codec := dk_publish demo_driver_codec\<rparr>"

definition demo_decision :: ReviewDecision where
  "demo_decision = \<lparr>rd_action = DecisionCommentAction, rd_comments = [\<lparr>dc_path = ''f'', dc_line = 1, dc_body = ''b''\<rparr>], rd_vote = [], rd_reason = []\<rparr>"

definition demo_intents :: "publishIntent list" where
  "demo_intents = [comment_intent_of (pu_codec demo_completing) demo_pr_payload 0 \<lparr>dc_path = ''f'', dc_line = 1, dc_body = ''b''\<rparr>]"

definition demo_completed :: publication where
  "demo_completed = publish_all demo_completing (\<lambda>n. demo_clock2)
     (comment_dispatch demo_ado_codec (\<lambda>call. Inr [(''threadId'', AText ''t9'')])) (\<lambda>rq. Inl (Err ''down'')) demo_pr_payload ''attempt_1'' 0
     demo_intents [] (es_db demo_publish_agreed)"

theorem completed_publication_passes_witness:
  "decodePublisherEntries demo_driver_codec [''c''] = Inr [demo_entry] \<and>
   check_publication demo_driver t demo_pr_payload demo_decision [''c''] = Inr ()"
proof -
  have intents: "buildPublishIntents (pu_codec demo_completing) demo_pr_payload demo_decision = Inr demo_intents" by code_simp
  have entries: "snd (snd demo_completed) = ([demo_entry], None)" by code_simp
  then have run: "demo_completed = (fst demo_completed, fst (snd demo_completed), [demo_entry], None)" by (metis prod.collapse)
  have codec: "dk_publish (dr_codec demo_driver) = pu_codec demo_completing" by (simp add: demo_driver_def demo_completing_def)
  have result: "xr_evidence (publishExecutionResult (pu_codec demo_completing) [demo_entry]) = [(agent_message, ''c'')]" by code_simp
  have mode: "pu_mode demo_completing = PublishAll \<or> pu_mode demo_completing = PublishComments \<and> rd_action demo_decision = DecisionCommentAction"
    by (simp add: demo_completing_def demo_publisher_def demo_decision_def)
  have entry: "pe_state demo_entry = OperationConfirmedEffect \<and> entry_reads_back (pu_codec demo_completing) demo_entry" by code_simp
  have visit: "set (dk_visit (dr_codec demo_driver) ks) = set ks" for ks by (simp add: demo_driver_def demo_driver_codec_def)
  have revision: "trim_space (pl_revision demo_pr_payload) = pl_revision demo_pr_payload" by code_simp
  have lookup: "\<exists>out. lookup_of (dr_comment demo_driver) (dr_vote demo_driver) i (lookup_request t i y) = Inr out \<and> out_state out = OperationConfirmedEffect"
    for i y by (simp add: lookup_of_def demo_driver_def demo_lookups_def)
  have "decodePublisherEntries (dr_codec demo_driver) [''c''] = Inr [demo_entry] \<and> check_publication demo_driver t demo_pr_payload demo_decision [''c''] = Inr ()"
    by (rule completed_publication_passes [OF intents run [unfolded demo_completed_def] mode _ codec visit revision lookup result]) (use entry in simp)
  then show ?thesis by (simp add: demo_driver_def)
qed

lemma hold_ready: "hold C Es c t reason ids s r = (s', r', res) \<Longrightarrow> dres_ready r' = dres_ready r"
  by (auto simp: hold_def hold_assessed_def Let_def split: if_splits prod.splits sum.splits)

lemma check_publication_Inr:
  assumes "check_publication D t p x contents = Inr ()"
  obtains "is" m where "buildPublishIntents (dk_publish (dr_codec D)) p x = Inr is"
    "bindE (decodePublisherEntries (dr_codec D) contents) (observe []) = Inr m"
    "confirmed_entries m is = Inr ()" "no_unexpected (dr_codec D) is m = Inr ()" "confirm_all D t m is = Inr ()"
  using assms unfolding check_publication_def bindE_Inr_iff by (auto split: sum.splits)

lemma verifyPublication_ready:
  assumes "verifyPublication D Es c t p x s r = (s', r', Inr ())" and "dres_ready r' \<noteq> dres_ready r"
  obtains pv contents y where "Read_provenance (dk_manifests (dr_codec D)) (current_attempt t) (es_db s) = Inr pv"
    "agent_messages (dr_codec D) s (map fst (pv_evidence pv)) = Inr contents"
    "check_publication D t p x contents = Inr ()" "r' = r\<lparr>dres_ready := dres_ready r @ [wc_id c]\<rparr>"
    "Assess (dk_cases (dr_codec D)) (Es 1) (publication_assessment c VerdictReady ''ADO publication effects verified'' '':verified''
       (map fst (pv_evidence pv))) (es_db s) = (es_db s', Inr y)"
proof -
  obtain ids contents pv where pv: "Read_provenance (dk_manifests (dr_codec D)) (current_attempt t) (es_db s) = Inr pv"
    and contents: "agent_messages (dr_codec D) s (map fst (pv_evidence pv)) = Inr contents" and ids: "ids = map fst (pv_evidence pv)"
    using assms(1) by (auto simp: verifyPublication_def split: sum.splits elim!: bindE_InrE)
  have check: "check_publication D t p x contents = Inr ()"
    using assms pv contents by (auto simp: verifyPublication_def split: sum.splits if_splits dest: hold_ready)
  obtain d y where d: "Assess (dk_cases (dr_codec D)) (Es 1)
      (publication_assessment c VerdictReady ''ADO publication effects verified'' '':verified'' ids) (es_db s) = (d, Inr y)"
    and s': "s' = s\<lparr>es_db := d\<rparr>" and r': "r' = r\<lparr>dres_ready := dres_ready r @ [wc_id c]\<rparr>"
    using assms pv contents check ids
    by (auto simp: verifyPublication_def split: sum.splits if_splits prod.splits dest: hold_ready)
  show thesis by (rule that [OF pv contents check r']) (use d s' ids in simp)
qed

text \<open>
  A case becomes ready for verification only when its publication is confirmed twice: one step of the driver reports a case as ready
  only if its first work is done and the task of its current work awaits verification. Then the messages of the agent among the outputs of
  the attempt of this task have for each intent of the decision of its assessment one entry, neither skipped nor only recorded, with a
  confirmed effect, the lookup of each intent confirmed the effect again, and the case is assessed as ready with these outputs as evidence.
\<close>

theorem driver_readies_only_confirmed:
  assumes "stepCase D Es c s r = (s', r', Inr ())" and "dres_ready r' \<noteq> dres_ready r"
  shows "\<exists>a work1 w d t p pv contents is m y. dres_ready r' = dres_ready r @ [wc_id c] \<and> dres_blocked r' = dres_blocked r \<and>
    discoverPublicationAssessment (dr_codec D) (wc_id c) (wc_work c) True s = Inr (Some a) \<and>
    orderingReady (dr_codec D) a s = Inr (Some work1) \<and> decodeWorkOnePayload (dr_codec D) (t_payload work1) = Inr w \<and>
    work_two D (Es 2) a w c (es_db s) = (d, Inr (t, p)) \<and> t_state t = TaskAwaitingVerification \<and>
    Read_provenance (dk_manifests (dr_codec D)) (current_attempt t) d = Inr pv \<and>
    agent_messages (dr_codec D) (s\<lparr>es_db := d\<rparr>) (map fst (pv_evidence pv)) = Inr contents \<and>
    buildPublishIntents (dk_publish (dr_codec D)) p (da_decision a) = Inr is \<and>
    bindE (decodePublisherEntries (dr_codec D) contents) (observe []) = Inr m \<and>
    (\<forall>i \<in> set is. \<exists>x out. map_of m (pt_slot i) = Some x \<and> \<not> pe_skipped x \<and> \<not> pe_recorded x \<and> pe_state x = OperationConfirmedEffect \<and>
       lookup_of (dr_comment D) (dr_vote D) i (lookup_request t i x) = Inr out \<and> out_state out = OperationConfirmedEffect) \<and>
    Assess (dk_cases (dr_codec D)) (Es 1) (publication_assessment c VerdictReady ''ADO publication effects verified'' '':verified''
       (map fst (pv_evidence pv))) d = (es_db s', Inr y)"
proof -
  obtain a work1 w where a: "discoverPublicationAssessment (dr_codec D) (wc_id c) (wc_work c) True s = Inr (Some a)"
    and work1: "orderingReady (dr_codec D) a s = Inr (Some work1)" "decodeWorkOnePayload (dr_codec D) (t_payload work1) = Inr w"
    using assms by (auto simp: stepCase_def split: sum.splits option.splits)
  then obtain d t p where two: "work_two D (Es 2) a w c (es_db s) = (d, Inr (t, p))"
    and go: "settle_work_two D Es c t p (da_decision a) (s\<lparr>es_db := d\<rparr>) (r\<lparr>dres_materialized := dres_materialized r @ [t_id t]\<rparr>) = (s', r', Inr ())"
    using assms(1) by (auto simp: stepCase_def split: prod.splits sum.splits)
  then have t: "t_state t = TaskAwaitingVerification"
    and verify: "verifyPublication D Es c t p (da_decision a) (s\<lparr>es_db := d\<rparr>) (r\<lparr>dres_materialized := dres_materialized r @ [t_id t]\<rparr>) = (s', r', Inr ())"
    using assms(2) by (auto simp: settle_work_two_def split: if_splits dest: hold_ready)
  have "dres_ready r' \<noteq> dres_ready (r\<lparr>dres_materialized := dres_materialized r @ [t_id t]\<rparr>)" using assms(2) by simp
  from verifyPublication_ready [OF verify this] obtain pv contents y where
    pv: "Read_provenance (dk_manifests (dr_codec D)) (current_attempt t) (es_db (s\<lparr>es_db := d\<rparr>)) = Inr pv"
      "agent_messages (dr_codec D) (s\<lparr>es_db := d\<rparr>) (map fst (pv_evidence pv)) = Inr contents"
    and check: "check_publication D t p (da_decision a) contents = Inr ()"
    and r': "r' = r\<lparr>dres_materialized := dres_materialized r @ [t_id t], dres_ready := dres_ready (r\<lparr>dres_materialized := dres_materialized r @ [t_id t]\<rparr>) @ [wc_id c]\<rparr>"
    and assessed: "Assess (dk_cases (dr_codec D)) (Es 1) (publication_assessment c VerdictReady ''ADO publication effects verified'' '':verified''
       (map fst (pv_evidence pv))) (es_db (s\<lparr>es_db := d\<rparr>)) = (es_db s', Inr y)" .
  have now: "Read_provenance (dk_manifests (dr_codec D)) (current_attempt t) d = Inr pv" using pv(1) by simp
  have ready: "Assess (dk_cases (dr_codec D)) (Es 1) (publication_assessment c VerdictReady ''ADO publication effects verified'' '':verified''
       (map fst (pv_evidence pv))) d = (es_db s', Inr y)" using assessed by simp
  from check obtain "is" m where "is": "buildPublishIntents (dk_publish (dr_codec D)) p (da_decision a) = Inr is"
    and m: "bindE (decodePublisherEntries (dr_codec D) contents) (observe []) = Inr m"
    and checks: "confirmed_entries m is = Inr ()" "confirm_all D t m is = Inr ()" by (rule check_publication_Inr)
  have twice: "\<forall>i \<in> set is. \<exists>x out. map_of m (pt_slot i) = Some x \<and> \<not> pe_skipped x \<and> \<not> pe_recorded x \<and> pe_state x = OperationConfirmedEffect \<and>
       lookup_of (dr_comment D) (dr_vote D) i (lookup_request t i x) = Inr out \<and> out_state out = OperationConfirmedEffect"
    using checks unfolding confirmed_entries_Inr confirm_all_Inr by (metis option.sel)
  have list: "dres_ready r' = dres_ready r @ [wc_id c]" "dres_blocked r' = dres_blocked r" by (simp_all add: r')
  show ?thesis
    by (rule exI [of _ a], rule exI [of _ work1], rule exI [of _ w], rule exI [of _ d], rule exI [of _ t], rule exI [of _ p],
        rule exI [of _ pv], rule exI [of _ contents], rule exI [of _ "is"], rule exI [of _ m], rule exI [of _ y])
      (intro conjI list a work1 two t now pv(2) "is" m twice ready)
qed

theorem driver_readies_only_confirmed_witness:
  "\<exists>t p is m contents. t_state t = TaskAwaitingVerification \<and> buildPublishIntents (dk_publish demo_driver_codec) p demo_decision = Inr is \<and>
    bindE (decodePublisherEntries demo_driver_codec contents) (observe []) = Inr m \<and>
    (\<forall>i \<in> set is. \<exists>x out. map_of m (pt_slot i) = Some x \<and> \<not> pe_skipped x \<and> \<not> pe_recorded x \<and> pe_state x = OperationConfirmedEffect \<and>
      lookup_of (dr_comment demo_driver) (dr_vote demo_driver) i (lookup_request t i x) = Inr out \<and> out_state out = OperationConfirmedEffect)"
proof -
  let ?c = "demo_publishing_case CaseActive ''w2''"
  let ?s = "demo_driver_store ?c [demo_assessed_row ''w1'' ?c]"
  let ?r = "\<lparr>dres_materialized = [], dres_ready = [], dres_blocked = []\<rparr>"
  have run: "stepCase demo_driver (\<lambda>n. demo_env) ?c ?s ?r = (fst demo_driver_step, fst (snd demo_driver_step), Inr ())"
    using demo_driver_readies unfolding demo_driver_step_def Let_def by (metis prod.collapse snd_conv)
  have "dres_ready (fst (snd demo_driver_step)) \<noteq> dres_ready ?r" using demo_driver_readies by simp
  from driver_readies_only_confirmed [OF run this] obtain a t p "is" m contents where
    a: "discoverPublicationAssessment (dr_codec demo_driver) (wc_id ?c) (wc_work ?c) True ?s = Inr (Some a)" and
    rest: "t_state t = TaskAwaitingVerification" "buildPublishIntents (dk_publish (dr_codec demo_driver)) p (da_decision a) = Inr is"
      "bindE (decodePublisherEntries (dr_codec demo_driver) contents) (observe []) = Inr m"
      "\<forall>i \<in> set is. \<exists>x out. map_of m (pt_slot i) = Some x \<and> \<not> pe_skipped x \<and> \<not> pe_recorded x \<and> pe_state x = OperationConfirmedEffect \<and>
        lookup_of (dr_comment demo_driver) (dr_vote demo_driver) i (lookup_request t i x) = Inr out \<and> out_state out = OperationConfirmedEffect"
    by (elim exE conjE) (rule that)
  have "map_sum (\<lambda>x. x) (map_option da_decision) (discoverPublicationAssessment (dr_codec demo_driver) (wc_id ?c) (wc_work ?c) True ?s) = Inr (Some demo_decision)"
    by code_simp
  then have "da_decision a = demo_decision" using a by simp
  with rest show ?thesis
    by (intro exI [of _ t] exI [of _ p] exI [of _ "is"] exI [of _ m] exI [of _ contents] conjI) (simp_all add: demo_driver_def)
qed

end
