(* ===== verification/Review_Verifier.thy ===== *)
theory Review_Verifier
  imports Review_Driver
begin

text \<open>
  The final verifier of reviews (\<open>internal/adoreview/verify.go\<close>): for a case that is ready it reads the two assessments, the task, the
  decision and the evidence of the publisher again, looks every effect up, accepts the task and closes the case; what does not fit
  together rejects the case, what is not known yet leaves it. The polling loop \<open>Run\<close> is a repetition of \<open>StepOnce\<close> and left out.
\<close>

subsection \<open>Configuration and results\<close>

record finalVerificationVerdict =
  fv_slot :: string
  fv_state :: operation_state

record finalVerificationSnapshot =
  fs_case :: ID
  fs_revision :: string
  fs_work :: ID
  fs_slots :: "string list"
  fs_verdicts :: "finalVerificationVerdict list"

record FinalVerifier =
  fv_mission :: ID
  fv_project :: string
  fv_comment :: LookupProvider
  fv_vote :: LookupProvider
  fv_verifier :: ID
  fv_type :: string
  fv_codec :: driver_codec
  fv_snapshot :: "finalVerificationSnapshot \<Rightarrow> string"
  fv_unicode :: "string \<Rightarrow> string"

datatype disposition = FinalHeld | FinalBlocked | FinalClosed

record FinalVerifierResult =
  fr_closed :: "ID list"
  fr_blocked :: "ID list"

definition finalVerificationEvidenceKind :: string where
  "finalVerificationEvidenceKind = ''ado.workflow.verification''"

text \<open>\<open>EqualFold\<close> with a text of ASCII letters: a text of ASCII bytes is compared by its lower case, for any other one the argument folds
  its runes.\<close>

definition NewFinalVerifier :: "FinalVerifier \<Rightarrow> FinalVerifier res" where
  "NewFinalVerifier V0 =
     (let V = V0\<lparr>fv_mission := trim_space (fv_mission V0), fv_project := trim_space (fv_project V0),
               fv_verifier := trim_space (fv_verifier V0), fv_type := trim_space (fv_type V0)\<rparr> in
      if fv_mission V = [] \<or> fv_verifier V = [] \<or> fv_type V = []
      then Inl (Err ''final verifier mission, verifier ID, and verifier type are required'')
      else if to_lower (fv_unicode V) (fv_verifier V) = ''publisher''
      then Inl (Err ''final verifier identity must be distinct from publisher'')
      else if lp_name (fv_comment V) \<noteq> commentProviderName \<or> lp_name (fv_vote V) \<noteq> voteProviderName
      then Inl (Err ''final verifier providers do not match ADO comment and vote providers'') else Inr V)"

subsection \<open>What must fit together\<close>

text \<open>The messages of the agent among the evidence of the assessment: their identifiers and contents, and the problem that ended it.\<close>

fun loadCompletionEvidence ::
  "driver_codec \<Rightarrow> evidence_store \<Rightarrow> ID list \<Rightarrow> ID list \<times> string list \<Rightarrow> ID list \<times> string list \<times> string option" where
  "loadCompletionEvidence C s [] (ids, contents) = (ids, contents, None)"
| "loadCompletionEvidence C s (raw # rest) (ids, contents) =
     (let k = trim_space raw in
      if k = [] then (ids, contents, Some ''Work 2 completion contains a blank evidence ID'')
      else (case Get_evidence (dk_sha C) k s of
        Inl e \<Rightarrow> (ids, contents, Some (''read Work 2 completion evidence: '' @ dk_error C e))
      | Inr (r, data) \<Rightarrow>
          loadCompletionEvidence C s rest (if evi_kind r = agent_message then (ids @ [k], contents @ [data]) else (ids, contents))))"

definition validateFinalTask :: "workflow_case \<Rightarrow> ID \<Rightarrow> task \<Rightarrow> unit res" where
  "validateFinalTask c work t =
     (if work = [] \<or> t_idem_key t \<noteq> work then Inl (Err ''Work 2 task identity does not match producing assessment'')
      else if t_purpose t \<noteq> mission_ref (wc_mission c) then Inl (Err ''Work 2 task Mission identity mismatch'')
      else if t_class t \<noteq> ''publish-decision'' then Inl (Err ''Work 2 task class mismatch'') else Inr ())"

text \<open>The text before the last \<open>#\<close> and after it.\<close>

definition split_object :: "string \<Rightarrow> (string \<times> string) option" where
  "split_object s =
     (let after = takeWhile (\<lambda>c. c \<noteq> CHR ''#'') (rev s) in
      if CHR ''#'' \<in> set s then Some (rev (drop (Suc (length after)) (rev s)), rev after) else None)"

definition bindFinalPayload :: "workflow_case \<Rightarrow> ID \<Rightarrow> PublishPayload \<Rightarrow> unit res" where
  "bindFinalPayload c work p =
     (if pl_case p \<noteq> wc_id c \<or> pl_work p \<noteq> work \<or> pl_revision p \<noteq> wc_revision c then Inl (Err ''Work 2 payload identity mismatch'')
      else (case split_object (wc_object c) of
        None \<Rightarrow> Inl (Err ''workflow case object identity is not repo#pr'')
      | Some (repo, number) \<Rightarrow>
          if repo = [] \<or> number = [] then Inl (Err ''workflow case object identity is not repo#pr'')
          else (case ParseInt number of
            None \<Rightarrow> Inl (Err ''workflow case object identity has an invalid pull request'')
          | Some pr \<Rightarrow>
              if pr \<le> 0 then Inl (Err ''workflow case object identity has an invalid pull request'')
              else if pl_repo p \<noteq> repo \<or> pl_pr p \<noteq> pr then Inl (Err ''Work 2 payload repository identity mismatch'')
              else Inr ())))"

fun observe_final :: "observed \<Rightarrow> publishEvidenceEntry list \<Rightarrow> string + observed" where
  "observe_final m [] = Inr m"
| "observe_final m (x # xs) =
     (let slot = trim_space (pe_slot x) in
      if slot = [] then Inl ''publisher evidence has a blank slot''
      else bindE (publisherEntryRejection slot x) (\<lambda>_.
        if map_of m slot \<noteq> None then Inl (''duplicate publisher slot '' @ slot)
        else observe_final (m @ [(slot, x)]) xs))"

definition bindPublisherEntries ::
  "driver_codec \<Rightarrow> publishIntent list \<Rightarrow> publishEvidenceEntry list \<Rightarrow> string + observed" where
  "bindPublisherEntries C is entries =
     bindE (observe_final [] entries) (\<lambda>m.
     bindE (case find (\<lambda>i. map_of m (pt_slot i) = None) is of
              Some i \<Rightarrow> Inl (''missing slot '' @ pt_slot i) | None \<Rightarrow> Inr ()) (\<lambda>_.
     bindE (no_unexpected C is m) (\<lambda>_. Inr m)))"

text \<open>The intents in the order of their slots, which are distinct: each looked up, up to the first that is not confirmed.\<close>

definition by_slot :: "publishIntent list \<Rightarrow> publishIntent list" where
  "by_slot is = sort_key pt_slot is"

datatype lookup_end = LookupFailed go_error | LookupUnknown | LookupDenied string

fun lookupFinalIntents ::
  "FinalVerifier \<Rightarrow> task \<Rightarrow> observed \<Rightarrow> publishIntent list \<Rightarrow> lookup_end + finalVerificationVerdict list" where
  "lookupFinalIntents V t m [] = Inr []"
| "lookupFinalIntents V t m (i # is) =
     (case lookup_of (fv_comment V) (fv_vote V) i (lookup_request t i (the (map_of m (pt_slot i)))) of
        Inl e \<Rightarrow> Inl (LookupFailed e)
      | Inr out \<Rightarrow>
          (case out_state out of
             OperationConfirmedEffect \<Rightarrow>
               bindE (lookupFinalIntents V t m is) (\<lambda>vs. Inr (\<lparr>fv_slot = pt_slot i, fv_state = out_state out\<rparr> # vs))
           | OperationOutcomeUnknown \<Rightarrow> Inl LookupUnknown
           | st \<Rightarrow> Inl (LookupDenied (''slot '' @ pt_slot i @ '' lookup is '' @ operation_state_text st))))"

subsection \<open>Accepting, closing, rejecting\<close>

definition finalizeTask :: "FinalVerifier \<Rightarrow> env \<Rightarrow> task \<Rightarrow> ID list \<Rightarrow> db \<Rightarrow> db \<times> bool res" where
  "finalizeTask V E t completion d =
     (if t_state t = TaskSucceeded then (d, Inr True)
      else if t_state t = TaskAwaitingVerification then
        (case AcceptTask E (t_id t) \<lparr>aq_verifier = fv_verifier V, aq_type = fv_type V, aq_met = True, aq_evidence = completion\<rparr> d of
           (d1, Inr u) \<Rightarrow> (d1, Inr True)
         | (d1, Inl e) \<Rightarrow>
             (case Task (t_id t) d1 of
                Inl e' \<Rightarrow> (d1, Inl e)
              | Inr now \<Rightarrow> if t_state now = TaskSucceeded then (d1, Inr True) else (d1, Inl e)))
      else (d, Inr False))"

fun verificationEvidenceIDFromRecord :: "driver_codec \<Rightarrow> evidence_store \<Rightarrow> string \<Rightarrow> ID list \<Rightarrow> ID option res" where
  "verificationEvidenceIDFromRecord C s body [] = Inr None"
| "verificationEvidenceIDFromRecord C s body (k # ks) =
     bindE (Get_evidence (dk_sha C) k s) (\<lambda>(r, data).
     if evi_kind r = finalVerificationEvidenceKind \<and> data = body then Inr (Some k)
     else verificationEvidenceIDFromRecord C s body ks)"

definition recorded_evidence :: "driver_codec \<Rightarrow> evidence_store \<Rightarrow> string \<Rightarrow> ID list \<Rightarrow> ID res" where
  "recorded_evidence C s body ids =
     bindE (verificationEvidenceIDFromRecord C s body ids) (\<lambda>found.
     case found of
       None \<Rightarrow> Inl (Err ''existing workflow verification has no matching verification evidence'')
     | Some k \<Rightarrow> Inr k)"

definition finalVerificationEvidenceID ::
  "driver_codec \<Rightarrow> env \<Rightarrow> ID \<Rightarrow> string \<Rightarrow> string \<Rightarrow> evidence_store \<Rightarrow> evidence_store \<times> ID res" where
  "finalVerificationEvidenceID C E k body hash s =
     (case FindVerification k (es_db s) of
        Inl e \<Rightarrow> (s, Inl e)
      | Inr (Some v) \<Rightarrow>
          if cv_hash v \<noteq> hash \<or> cv_snapshot v \<noteq> body then (s, Inl ErrIntentConflict) else (s, recorded_evidence C s body (cv_evidence v))
      | Inr None \<Rightarrow>
          (case FindByContentHash (dk_sha C) hash finalVerificationEvidenceKind s of
             Inl e \<Rightarrow> (s, Inl e)
           | Inr (Some r) \<Rightarrow> (s, Inr (evi_id r))
           | Inr None \<Rightarrow>
               (case Put (dk_sha C) (clk E 0) (rnd E 0) body ''application/json'' finalVerificationEvidenceKind s of
                  (s1, Inl e) \<Rightarrow> (s1, Inl e)
                | (s1, Inr r) \<Rightarrow> (s1, Inr (evi_id r)))))"

definition final_request :: "FinalVerifier \<Rightarrow> workflow_case \<Rightarrow> string \<Rightarrow> string \<Rightarrow> ID list \<Rightarrow> VerificationRequest" where
  "final_request V c body hash ids =
     \<lparr>vr_case = wc_id c, vr_verifier = fv_verifier V, vr_type = fv_type V, vr_hash = hash, vr_snapshot = body, vr_evidence = ids\<rparr>"

text \<open>A conflict with a verification of the same snapshot is closed again with the evidence that this verification names.\<close>

definition close_again ::
  "FinalVerifier \<Rightarrow> env \<Rightarrow> workflow_case \<Rightarrow> string \<Rightarrow> string \<Rightarrow> ID list \<Rightarrow> evidence_store \<Rightarrow> evidence_store \<times> unit res" where
  "close_again V E c body hash ids s =
     (case FindVerification (wc_id c) (es_db s) of
        Inl e \<Rightarrow> (s, Inl e)
      | Inr None \<Rightarrow> (s, Inl ErrIntentConflict)
      | Inr (Some v) \<Rightarrow>
          if cv_hash v \<noteq> hash \<or> cv_snapshot v \<noteq> body then (s, Inl ErrIntentConflict)
          else (case recorded_evidence (fv_codec V) s body (cv_evidence v) of
            Inl e \<Rightarrow> (s, Inl e)
          | Inr k \<Rightarrow>
              (case Close E (final_request V c body hash (ids @ [k])) (es_db s) of
                 (d, r) \<Rightarrow> (s\<lparr>es_db := d\<rparr>, map_sum (\<lambda>e. e) (\<lambda>_. ()) r))))"

definition snapshot_of :: "workflow_case \<Rightarrow> ID \<Rightarrow> publishIntent list \<Rightarrow> finalVerificationVerdict list \<Rightarrow> finalVerificationSnapshot" where
  "snapshot_of c work is verdicts =
     \<lparr>fs_case = wc_id c, fs_revision = wc_revision c, fs_work = work, fs_slots = map pt_slot (by_slot is), fs_verdicts = verdicts\<rparr>"

definition close_final ::
  "FinalVerifier \<Rightarrow> (nat \<Rightarrow> env) \<Rightarrow> workflow_case \<Rightarrow> ID \<Rightarrow> publishIntent list \<Rightarrow> finalVerificationVerdict list \<Rightarrow> ID list \<Rightarrow> evidence_store \<Rightarrow>
   evidence_store \<times> unit res" where
  "close_final V Es c work is verdicts ids s =
     (let body = fv_snapshot V (snapshot_of c work is verdicts); hash = dk_sha (fv_codec V) body in
      case finalVerificationEvidenceID (fv_codec V) (Es 1) (wc_id c) body hash s of
        (s1, Inl e) \<Rightarrow> (s1, Inl e)
      | (s1, Inr k) \<Rightarrow>
          (case Close (Es 2) (final_request V c body hash (ids @ [k])) (es_db s1) of
             (d, Inr v) \<Rightarrow> (s1\<lparr>es_db := d\<rparr>, Inr ())
           | (d, Inl e) \<Rightarrow>
               if e \<noteq> ErrIntentConflict then (s1\<lparr>es_db := d\<rparr>, Inl e)
               else close_again V (Es 3) c body hash ids (s1\<lparr>es_db := d\<rparr>)))"

type_synonym final_step = "evidence_store \<times> disposition res"

definition reject_final :: "FinalVerifier \<Rightarrow> env \<Rightarrow> workflow_case \<Rightarrow> string \<Rightarrow> ID list \<Rightarrow> evidence_store \<Rightarrow> final_step" where
  "reject_final V E c reason ids s =
     (case Reject_case (dk_cases (fv_codec V)) E (wc_id c) reason ids (es_db s) of
        (d, Inl e) \<Rightarrow> (s\<lparr>es_db := d\<rparr>, Inl e)
      | (d, Inr v) \<Rightarrow> (s\<lparr>es_db := d\<rparr>, Inr FinalBlocked))"

subsection \<open>One step\<close>

text \<open>
  What reading finds before anything is looked up: nothing to do yet, an error, a reason to reject with the evidence for it, or the
  publication.
\<close>

record publication_facts =
  pf_work :: ID
  pf_task :: task
  pf_intents :: "publishIntent list"
  pf_entries :: observed
  pf_decision :: ID
  pf_completion :: "ID list"

datatype reading_end = ReadHeld | ReadFailed go_error | ReadRejected string "ID list"

fun problem_end :: "ID list \<Rightarrow> assessment_problem \<Rightarrow> reading_end" where
  "problem_end ids (DeterministicProblem reason) = ReadRejected reason ids"
| "problem_end ids (OtherProblem e) = ReadFailed e"

definition reject_on :: "FinalVerifier \<Rightarrow> ID list \<Rightarrow> string \<Rightarrow> 'a res \<Rightarrow> reading_end + 'a" where
  "reject_on V ids prefix r =
     (case r of Inl e \<Rightarrow> Inl (ReadRejected (prefix @ dk_error (fv_codec V) e) ids) | Inr x \<Rightarrow> Inr x)"

definition reject_reason :: "ID list \<Rightarrow> string + 'a \<Rightarrow> reading_end + 'a" where
  "reject_reason ids r = (case r of Inl reason \<Rightarrow> Inl (ReadRejected reason ids) | Inr x \<Rightarrow> Inr x)"

definition work_mismatch :: string where
  "work_mismatch = ''producing assessment WorkID does not match case current work''"

text \<open>The assessment that made the case ready, its completion evidence, and the assessment whose decision was published.\<close>

definition read_assessments ::
  "FinalVerifier \<Rightarrow> workflow_case \<Rightarrow> evidence_store \<Rightarrow> reading_end + driverAssessment \<times> driverAssessment \<times> ID list \<times> string list" where
  "read_assessments V c s =
     (case discoverPublicationAssessment (fv_codec V) (wc_id c) (wc_work c) False s of
        Inl problem \<Rightarrow> Inl (problem_end [] problem)
      | Inr None \<Rightarrow> Inl ReadHeld
      | Inr (Some a) \<Rightarrow>
          (case loadCompletionEvidence (fv_codec V) s (da_evidence a) ([], []) of
             (ids, contents, Some reason) \<Rightarrow> Inl (ReadRejected reason ids)
           | (ids, contents, None) \<Rightarrow>
               if da_work a = [] \<or> da_request_work a \<noteq> da_work a then Inl (ReadRejected work_mismatch ids)
               else (case discoverPublicationAssessment (fv_codec V) (wc_id c) (da_work a) True s of
                 Inl problem \<Rightarrow> Inl (problem_end ids problem)
               | Inr None \<Rightarrow> Inl (ReadRejected work_mismatch ids)
               | Inr (Some b) \<Rightarrow>
                   if da_work b = [] \<or> da_request_work b \<noteq> da_work b \<or> da_case_work b \<noteq> da_work a
                   then Inl (ReadRejected work_mismatch ids) else Inr (a, b, ids, contents))))"

definition read_work_two ::
  "FinalVerifier \<Rightarrow> workflow_case \<Rightarrow> ID \<Rightarrow> ID list \<Rightarrow> evidence_store \<Rightarrow> reading_end + task \<times> PublishPayload" where
  "read_work_two V c work ids s =
     (case FindByIdempotencyKey work (es_db s) of
        Inl e \<Rightarrow> Inl (ReadFailed e)
      | Inr None \<Rightarrow> Inl (ReadRejected ''Work 2 task not found for producing assessment'' ids)
      | Inr (Some t) \<Rightarrow>
          bindE (reject_on V ids ''invalid Work 2 payload: '' (decodePublishPayload (dk_publish (fv_codec V)) (t_payload t))) (\<lambda>p.
          bindE (reject_on V ids [] (bindFinalPayload c work p)) (\<lambda>_.
          bindE (reject_on V ids [] (validateFinalTask c work t)) (\<lambda>_.
          bindE (requireE (fv_project V = [] \<or> pl_project p = fv_project V) ReadHeld) (\<lambda>_. Inr (t, p))))))"

definition read_decision ::
  "FinalVerifier \<Rightarrow> ID \<Rightarrow> ID list \<Rightarrow> evidence_store \<Rightarrow> reading_end + ReviewDecision" where
  "read_decision V k ids s =
     bindE (reject_on V ids ''read review decision: '' (Get_evidence (dk_sha (fv_codec V)) k s)) (\<lambda>(r, data).
     bindE (requireE (evi_kind r = decision_kind) (ReadRejected (''evidence '' @ k @ '' is not an ADO review decision'') ids)) (\<lambda>_.
     reject_on V ids ''decode review decision: '' (pb_read_decision (dk_publish (fv_codec V)) data)))"

definition read_facts :: "FinalVerifier \<Rightarrow> workflow_case \<Rightarrow> evidence_store \<Rightarrow> reading_end + publication_facts" where
  "read_facts V c s =
     bindE (read_assessments V c s) (\<lambda>(a, b, ids, contents).
     bindE (read_work_two V c (da_work a) ids s) (\<lambda>(t, p).
     bindE (requireE (pl_decision p = da_decision_id b)
       (ReadRejected ''Work 2 payload decision identity does not match producing assessment'' (ids @ [da_decision_id b]))) (\<lambda>_.
     bindE (read_decision V (da_decision_id b) ids s) (\<lambda>x.
     let all = ids @ [da_decision_id b] in
     bindE (reject_on V all ''invalid publication decision: '' (buildPublishIntents (dk_publish (fv_codec V)) p x)) (\<lambda>is.
     bindE (reject_reason all (decodePublisherEntries (fv_codec V) contents)) (\<lambda>entries.
     bindE (reject_reason all (bindPublisherEntries (fv_codec V) is entries)) (\<lambda>m.
     Inr \<lparr>pf_work = da_work a, pf_task = t, pf_intents = is, pf_entries = m, pf_decision = da_decision_id b, pf_completion = ids\<rparr>)))))))"

definition settle_case ::
  "FinalVerifier \<Rightarrow> (nat \<Rightarrow> env) \<Rightarrow> workflow_case \<Rightarrow> publication_facts \<Rightarrow> finalVerificationVerdict list \<Rightarrow> evidence_store \<Rightarrow> final_step" where
  "settle_case V Es c f verdicts s =
     (case finalizeTask V (Es 0) (pf_task f) (pf_completion f) (es_db s) of
        (d, Inl e) \<Rightarrow> (s\<lparr>es_db := d\<rparr>, Inl e)
      | (d, Inr False) \<Rightarrow> (s\<lparr>es_db := d\<rparr>, Inr FinalHeld)
      | (d, Inr True) \<Rightarrow>
          (case close_final V Es c (pf_work f) (pf_intents f) verdicts (pf_completion f @ [pf_decision f]) (s\<lparr>es_db := d\<rparr>) of
             (s1, Inl e) \<Rightarrow> (s1, Inl e)
           | (s1, Inr u) \<Rightarrow> (s1, Inr FinalClosed)))"

definition stepCase_final :: "FinalVerifier \<Rightarrow> (nat \<Rightarrow> env) \<Rightarrow> workflow_case \<Rightarrow> evidence_store \<Rightarrow> final_step" where
  "stepCase_final V Es c s =
     (case read_facts V c s of
        Inl ReadHeld \<Rightarrow> (s, Inr FinalHeld)
      | Inl (ReadFailed e) \<Rightarrow> (s, Inl e)
      | Inl (ReadRejected reason ids) \<Rightarrow> reject_final V (Es 0) c reason ids s
      | Inr f \<Rightarrow>
          (case lookupFinalIntents V (pf_task f) (pf_entries f) (by_slot (pf_intents f)) of
             Inl (LookupFailed e) \<Rightarrow> (s, Inl e)
           | Inl LookupUnknown \<Rightarrow> (s, Inr FinalHeld)
           | Inl (LookupDenied reason) \<Rightarrow> reject_final V (Es 0) c reason (pf_completion f @ [pf_decision f]) s
           | Inr verdicts \<Rightarrow> settle_case V Es c f verdicts s))"

fun step_ready ::
  "FinalVerifier \<Rightarrow> (nat \<Rightarrow> nat \<Rightarrow> env) \<Rightarrow> nat \<Rightarrow> workflow_case list \<Rightarrow> evidence_store \<Rightarrow> FinalVerifierResult \<Rightarrow>
   evidence_store \<times> FinalVerifierResult \<times> unit res" where
  "step_ready V Ess n [] s r = (s, r, Inr ())"
| "step_ready V Ess n (c # cs) s r =
     (if wc_source c \<noteq> ''ado'' then step_ready V Ess (Suc n) cs s r
      else (case stepCase_final V (Ess n) c s of
        (s1, Inl e) \<Rightarrow> (s1, r, Inl e)
      | (s1, Inr FinalHeld) \<Rightarrow> step_ready V Ess (Suc n) cs s1 r
      | (s1, Inr FinalBlocked) \<Rightarrow> step_ready V Ess (Suc n) cs s1 (r\<lparr>fr_blocked := fr_blocked r @ [wc_id c]\<rparr>)
      | (s1, Inr FinalClosed) \<Rightarrow> step_ready V Ess (Suc n) cs s1 (r\<lparr>fr_closed := fr_closed r @ [wc_id c]\<rparr>)))"

definition StepOnce_final :: "FinalVerifier \<Rightarrow> (nat \<Rightarrow> nat \<Rightarrow> env) \<Rightarrow> evidence_store \<Rightarrow> evidence_store \<times> FinalVerifierResult \<times> unit res" where
  "StepOnce_final V Ess s =
     (let r = \<lparr>fr_closed = [], fr_blocked = []\<rparr> in
      case ListReadyForVerification (fv_mission V) (es_db s) of
        Inl e \<Rightarrow> (s, r, Inl e)
      | Inr ready \<Rightarrow> step_ready V Ess 0 ready s r)"

subsection \<open>What reading establishes\<close>

lemma split_object_Some: "split_object w = Some (repo, number) \<Longrightarrow> w = repo @ ''#'' @ number"
proof -
  let ?a = "takeWhile (\<lambda>c. c \<noteq> CHR ''#'') (rev w)"
  assume "split_object w = Some (repo, number)"
  then have hash: "CHR ''#'' \<in> set (rev w)" and parts: "repo = rev (drop (Suc (length ?a)) (rev w))" "number = rev ?a"
    by (auto simp: split_object_def Let_def split: if_splits)
  have rest: "dropWhile (\<lambda>c. c \<noteq> CHR ''#'') (rev w) = drop (length ?a) (rev w)" by (rule dropWhile_eq_drop)
  have "dropWhile (\<lambda>c. c \<noteq> CHR ''#'') (rev w) \<noteq> []" using hash by (auto simp: dropWhile_eq_Nil_conv)
  then obtain c r where cr: "dropWhile (\<lambda>c. c \<noteq> CHR ''#'') (rev w) = c # r" by (cases "dropWhile (\<lambda>c. c \<noteq> CHR ''#'') (rev w)") auto
  then have "c = CHR ''#''" using hd_dropWhile [of "\<lambda>c. c \<noteq> CHR ''#''" "rev w"] by simp
  moreover have "r = drop (Suc (length ?a)) (rev w)" using cr rest by (metis drop_Suc list.sel(3) tl_drop)
  moreover have "rev w = ?a @ dropWhile (\<lambda>c. c \<noteq> CHR ''#'') (rev w)" by simp
  ultimately have "rev w = ?a @ CHR ''#'' # drop (Suc (length ?a)) (rev w)" using cr by simp
  then have "rev (rev w) = rev (drop (Suc (length ?a)) (rev w)) @ ''#'' @ rev ?a" by (metis append.assoc append_Cons append_Nil rev.simps(2) rev_append)
  with parts show ?thesis by simp
qed

lemma bindFinalPayload_Inr:
  assumes "bindFinalPayload c work p = Inr ()"
  shows "pl_case p = wc_id c \<and> pl_work p = work \<and> pl_revision p = wc_revision c \<and>
    (\<exists>number. wc_object c = pl_repo p @ ''#'' @ number \<and> ParseInt number = Some (pl_pr p) \<and> 0 < pl_pr p)"
  using assms by (auto simp: bindFinalPayload_def split: if_splits option.splits dest!: split_object_Some)

lemma validateFinalTask_Inr:
  "validateFinalTask c work t = Inr () \<longleftrightarrow> work \<noteq> [] \<and> t_idem_key t = work \<and> t_purpose t = mission_ref (wc_mission c) \<and> t_class t = ''publish-decision''"
  by (auto simp: validateFinalTask_def)

lemma reject_on_Inr: "reject_on V ids prefix r = Inr x \<longleftrightarrow> r = Inr x"
  by (auto simp: reject_on_def split: sum.split)

lemma reject_reason_Inr: "reject_reason ids r = Inr x \<longleftrightarrow> r = Inr x"
  by (auto simp: reject_reason_def split: sum.split)

lemma FindByIdempotencyKey_Some:
  "FindByIdempotencyKey k d = Inr (Some t) \<Longrightarrow> find_by t_id (t_id t) (db_tasks d) = Some t"
proof -
  assume "FindByIdempotencyKey k d = Inr (Some t)"
  then obtain j where j: "find_by t_id j (db_tasks d) = Some t"
    by (auto simp: FindByIdempotencyKey_def loadTask_Inr elim!: bindE_InrE split: option.splits)
  moreover have "t_id t = j" using find_by_SomeD [OF j] by simp
  ultimately show ?thesis by simp
qed

lemma read_work_two_Inr:
  assumes "read_work_two V c work ids s = Inr (t, p)"
  shows "find_by t_id (t_id t) (db_tasks (es_db s)) = Some t \<and> t_idem_key t = work \<and> t_class t = ''publish-decision'' \<and>
    bindFinalPayload c work p = Inr () \<and> decodePublishPayload (dk_publish (fv_codec V)) (t_payload t) = Inr p"
  using assms
  by (auto simp: read_work_two_def reject_on_Inr validateFinalTask_Inr elim!: bindE_InrE split: sum.splits option.splits
      dest: FindByIdempotencyKey_Some)

text \<open>A message of the agent that the evidence store holds.\<close>

definition stored_message :: "driver_codec \<Rightarrow> evidence_store \<Rightarrow> string \<Rightarrow> bool" where
  "stored_message C s content \<longleftrightarrow>
     list_ex (\<lambda>r. evi_kind r = agent_message \<and> Get_evidence (dk_sha C) (evi_id r) s = Inr (r, content)) (db_evidence (es_db s))"

lemma loadCompletionEvidence_stored:
  "loadCompletionEvidence C s ks (ids, contents) = (ids', contents', res) \<Longrightarrow> \<forall>k \<in> set contents. stored_message C s k \<Longrightarrow>
   \<forall>k \<in> set contents'. stored_message C s k"
proof (induction ks arbitrary: ids contents)
  case (Cons x xs)
  show ?case
  proof (cases "trim_space x = []")
    case False
    show ?thesis
    proof (cases "Get_evidence (dk_sha C) (trim_space x) s")
      case (Inr y)
      obtain r data where y: "y = (r, data)" by (cases y)
      have r: "r \<in> set (db_evidence (es_db s))" and again: "Get_evidence (dk_sha C) (evi_id r) s = Inr (r, data)"
        using Inr find_by_SomeD [of evi_id "trim_space x" "db_evidence (es_db s)" r] unfolding y by (auto simp: Get_evidence_Inr)
      have data: "stored_message C s data" if "evi_kind r = agent_message"
        using that r again by (auto simp: stored_message_def list_ex_iff)
      have rest: "loadCompletionEvidence C s xs (if evi_kind r = agent_message then (ids @ [trim_space x], contents @ [data]) else (ids, contents)) =
        (ids', contents', res)" using Cons.prems(1) False Inr y by (simp add: Let_def)
      show ?thesis
      proof (cases "evi_kind r = agent_message")
        case True
        have "\<forall>k \<in> set (contents @ [data]). stored_message C s k" using Cons.prems(2) data [OF True] by simp
        from Cons.IH [OF _ this] rest True show ?thesis by simp
      qed (use Cons.IH [OF _ Cons.prems(2)] rest in simp)
    qed (use Cons.prems False in \<open>simp add: Let_def\<close>)
  qed (use Cons.prems in \<open>simp add: Let_def\<close>)
qed simp

lemma read_assessments_stored:
  assumes "read_assessments V c s = Inr (a, b, ids, contents)"
  shows "\<forall>k \<in> set contents. stored_message (fv_codec V) s k"
proof -
  obtain ks where "loadCompletionEvidence (fv_codec V) s ks ([], []) = (ids, contents, None)"
    using assms by (auto simp: read_assessments_def split: sum.splits option.splits prod.splits if_splits)
  then show ?thesis by (rule loadCompletionEvidence_stored) simp
qed

lemma read_assessments_Inr:
  "read_assessments V c s = Inr (a, b, ids, contents) \<Longrightarrow>
   discoverPublicationAssessment (fv_codec V) (wc_id c) (wc_work c) False s = Inr (Some a) \<and>
   loadCompletionEvidence (fv_codec V) s (da_evidence a) ([], []) = (ids, contents, None) \<and>
   discoverPublicationAssessment (fv_codec V) (wc_id c) (da_work a) True s = Inr (Some b)"
  by (auto simp: read_assessments_def split: sum.splits option.splits prod.splits if_splits)

lemma read_facts_Inr:
  assumes "read_facts V c s = Inr f"
  obtains p x r data entries contents a b ids where
    "discoverPublicationAssessment (fv_codec V) (wc_id c) (wc_work c) False s = Inr (Some a)"
    "loadCompletionEvidence (fv_codec V) s (da_evidence a) ([], []) = (ids, contents, None)"
    "discoverPublicationAssessment (fv_codec V) (wc_id c) (da_work a) True s = Inr (Some b)"
    "pf_work f = da_work a" "pl_decision p = da_decision_id b" "decodePublishPayload (dk_publish (fv_codec V)) (t_payload (pf_task f)) = Inr p"
    "find_by t_id (t_id (pf_task f)) (db_tasks (es_db s)) = Some (pf_task f)" "t_class (pf_task f) = ''publish-decision''"
    "t_idem_key (pf_task f) = pf_work f" "bindFinalPayload c (pf_work f) p = Inr ()"
    "Get_evidence (dk_sha (fv_codec V)) (pl_decision p) s = Inr (r, data)" "evi_kind r = decision_kind"
    "pb_read_decision (dk_publish (fv_codec V)) data = Inr x" "buildPublishIntents (dk_publish (fv_codec V)) p x = Inr (pf_intents f)"
    "decodePublisherEntries (fv_codec V) contents = Inr entries"
    "bindPublisherEntries (fv_codec V) (pf_intents f) entries = Inr (pf_entries f)"
    "\<forall>k \<in> set contents. stored_message (fv_codec V) s k"
proof -
  from assms obtain a b ids contents where read: "read_assessments V c s = Inr (a, b, ids, contents)"
    and rest: "bindE (read_work_two V c (da_work a) ids s) (\<lambda>(t, p).
     bindE (requireE (pl_decision p = da_decision_id b)
       (ReadRejected ''Work 2 payload decision identity does not match producing assessment'' (ids @ [da_decision_id b]))) (\<lambda>_.
     bindE (read_decision V (da_decision_id b) ids s) (\<lambda>x.
     let all = ids @ [da_decision_id b] in
     bindE (reject_on V all ''invalid publication decision: '' (buildPublishIntents (dk_publish (fv_codec V)) p x)) (\<lambda>is.
     bindE (reject_reason all (decodePublisherEntries (fv_codec V) contents)) (\<lambda>entries.
     bindE (reject_reason all (bindPublisherEntries (fv_codec V) is entries)) (\<lambda>m.
     Inr \<lparr>pf_work = da_work a, pf_task = t, pf_intents = is, pf_entries = m, pf_decision = da_decision_id b, pf_completion = ids\<rparr>)))))) = Inr f"
    unfolding read_facts_def by (auto elim!: bindE_InrE)
  then obtain t p x "is" entries m where t: "read_work_two V c (da_work a) ids s = Inr (t, p)" and dec: "pl_decision p = da_decision_id b"
    and x: "read_decision V (da_decision_id b) ids s = Inr x"
    and facts: "buildPublishIntents (dk_publish (fv_codec V)) p x = Inr is" "decodePublisherEntries (fv_codec V) contents = Inr entries"
      "bindPublisherEntries (fv_codec V) is entries = Inr m"
    and f: "f = \<lparr>pf_work = da_work a, pf_task = t, pf_intents = is, pf_entries = m, pf_decision = da_decision_id b, pf_completion = ids\<rparr>"
    unfolding Let_def by (auto simp: reject_on_Inr reject_reason_Inr requireE_Inr_iff elim!: bindE_InrE)
  from x obtain r data where "Get_evidence (dk_sha (fv_codec V)) (pl_decision p) s = Inr (r, data)" "evi_kind r = decision_kind"
    "pb_read_decision (dk_publish (fv_codec V)) data = Inr x"
    by (auto simp: read_decision_def reject_on_Inr requireE_Inr_iff dec elim!: bindE_InrE)
  with read_work_two_Inr [OF t] facts dec read_assessments_stored [OF read] read_assessments_Inr [OF read] show thesis
    by (intro that [of a ids contents b p r data x entries]) (simp_all add: f)
qed

lemma observe_final_plain:
  "observe_final m xs = Inr m' \<Longrightarrow> \<forall>x \<in> snd ` set m. \<not> pe_skipped x \<and> \<not> pe_recorded x \<Longrightarrow>
   \<forall>x \<in> snd ` set m'. \<not> pe_skipped x \<and> \<not> pe_recorded x"
proof (induction xs arbitrary: m)
  case (Cons x xs)
  from Cons.prems(1) have plain: "\<not> pe_skipped x" "\<not> pe_recorded x"
    and rest: "observe_final (m @ [(trim_space (pe_slot x), x)]) xs = Inr m'"
    by (auto simp: Let_def publisherEntryRejection_def split: if_splits elim!: bindE_InrE)
  show ?case by (rule Cons.IH [OF rest]) (use plain Cons.prems(2) in auto)
qed simp

lemma bindPublisherEntries_Inr:
  assumes "bindPublisherEntries C is entries = Inr m"
  shows "\<forall>i \<in> set is. \<exists>y. map_of m (pt_slot i) = Some y \<and> \<not> pe_skipped y \<and> \<not> pe_recorded y"
proof -
  have m: "observe_final [] entries = Inr m" and all: "find (\<lambda>i. map_of m (pt_slot i) = None) is = None"
    using assms by (auto simp: bindPublisherEntries_def elim!: bindE_InrE split: option.splits)
  show ?thesis
  proof
    fix i assume "i \<in> set is"
    then obtain y where y: "map_of m (pt_slot i) = Some y" using all by (auto simp: find_None_iff)
    then have "y \<in> snd ` set m" by (metis imageI map_of_SomeD snd_conv)
    then show "\<exists>y. map_of m (pt_slot i) = Some y \<and> \<not> pe_skipped y \<and> \<not> pe_recorded y"
      using observe_final_plain [OF m] y by auto
  qed
qed

lemma lookupFinalIntents_Inr:
  "lookupFinalIntents V t m is = Inr verdicts \<Longrightarrow>
   \<forall>i \<in> set is. \<exists>out. lookup_of (fv_comment V) (fv_vote V) i (lookup_request t i (the (map_of m (pt_slot i)))) = Inr out \<and>
     out_state out = OperationConfirmedEffect"
proof (induction "is" arbitrary: verdicts)
  case (Cons i js)
  then obtain out where out: "lookup_of (fv_comment V) (fv_vote V) i (lookup_request t i (the (map_of m (pt_slot i)))) = Inr out"
    by (auto split: sum.splits)
  then have "out_state out = OperationConfirmedEffect" "\<exists>vs. lookupFinalIntents V t m js = Inr vs"
    using Cons.prems by (cases "out_state out"; auto elim!: bindE_InrE)+
  with out Cons.IH show ?case by auto
qed simp

lemma lookupFinalIntents_verdicts:
  "lookupFinalIntents V t m is = Inr verdicts \<Longrightarrow>
   map fv_slot verdicts = map pt_slot is \<and> (\<forall>w \<in> set verdicts. fv_state w = OperationConfirmedEffect)"
proof (induction "is" arbitrary: verdicts)
  case (Cons i js)
  then obtain out where "lookup_of (fv_comment V) (fv_vote V) i (lookup_request t i (the (map_of m (pt_slot i)))) = Inr out"
    by (auto split: sum.splits)
  then obtain vs where "lookupFinalIntents V t m js = Inr vs" "verdicts = \<lparr>fv_slot = pt_slot i, fv_state = OperationConfirmedEffect\<rparr> # vs"
    using Cons.prems by (cases "out_state out"; auto elim!: bindE_InrE)
  with Cons.IH show ?case by simp
qed simp

subsection \<open>What accepting and closing do\<close>

lemma finalizeTask_True:
  assumes t: "find_by t_id (t_id t) (db_tasks d) = Some t" "trim_space (t_id t) = t_id t"
    and run: "finalizeTask V E t ids d = (d', Inr True)"
  shows "(\<exists>t'. find_by t_id (t_id t) (db_tasks d') = Some t' \<and> t_state t' = TaskSucceeded \<and> t_class t' = t_class t) \<and>
    db_cases d' = db_cases d \<and> db_assessments d' = db_assessments d \<and> db_case_verifications d' = db_case_verifications d"
proof (cases "t_state t = TaskSucceeded")
  case True
  then show ?thesis using assms by (simp add: finalizeTask_def)
next
  case False
  let ?q = "\<lparr>aq_verifier = fv_verifier V, aq_type = fv_type V, aq_met = True, aq_evidence = ids\<rparr>"
  have waits: "t_state t = TaskAwaitingVerification" using run False by (auto simp: finalizeTask_def split: if_splits)
  obtain d1 res where acc: "AcceptTask E (t_id t) ?q d = (d1, res)" by (cases "AcceptTask E (t_id t) ?q d")
  show ?thesis
  proof (cases res)
    case (Inl e)
    then have d1: "d1 = d" using acc by (auto simp: AcceptTask_def with_tx_Inl_iff split: if_splits)
    have "t_state now \<noteq> TaskSucceeded" if "Task (t_id t) d = Inr now" for now
      using that t waits by (auto simp: Task_def loadTask_Inr elim!: bindE_InrE)
    then have False using run waits acc Inl d1 by (auto simp: finalizeTask_def split: sum.splits if_splits)
    then show ?thesis ..
  next
    case (Inr u)
    then have d': "d' = d1" using run waits acc by (simp add: finalizeTask_def)
    from acc Inr obtain a where "accept_writes E (t_id t) a ?q d = Inr d1" by (auto elim: AcceptTask_Inr)
    then obtain r vs events ts where ts: "ts = update_where (\<lambda>x. t_id x = t_id t \<and> t_state x = TaskAwaitingVerification)
        (\<lambda>x. x\<lparr>t_state := TaskSucceeded, t_updated := clk E 0\<rparr>) (db_tasks d)"
      and d1: "d1 = (unlock_dependents (clk E 0) (t_id t) (d\<lparr>db_tasks := ts\<rparr>))
       \<lparr>db_acceptances := db_acceptances d @ [r], db_verifications := vs, db_events := events\<rparr>"
      by (rule accept_writes_Inr)
    have "find_by t_id (t_id t) ts = Some (t\<lparr>t_state := TaskSucceeded, t_updated := clk E 0\<rparr>)"
      unfolding ts using t waits by (subst find_by_update_where) auto
    then have "find_by t_id (t_id t) (db_tasks d1) = Some (t\<lparr>t_state := TaskSucceeded, t_updated := clk E 0\<rparr>)"
      by (simp add: d1 unlock_dependents_def find_by_update_where unlocked_def)
    then show ?thesis by (simp add: d' d1 unlock_dependents_def)
  qed
qed

lemma Close_effect:
  assumes ok: "cases_ok d" and run: "Close E q d = (d', Inr v)"
  shows "db_tasks d' = db_tasks d \<and>
    (\<exists>x r. find_by cv_case (trim_space (vr_case q)) (db_case_verifications d') = Some x \<and> cv_hash x = trim_space (vr_hash q) \<and>
       find_by wc_id (trim_space (vr_case q)) (db_cases d') = Some r \<and> wc_state r = CaseClosed)"
proof -
  obtain x where x: "find_by cv_case (trim_space (vr_case q)) (db_case_verifications d') = Some x" "scanVerification x = scanVerification v"
    "cv_hash x \<noteq> []" and v: "cv_hash v = trim_space (vr_hash q)" using Close_recorded [OF run] by blast
  have "cases_ok d'" using Close_ok [OF ok, of E q] run by simp
  from closed_row [OF this x(1,3)] obtain r where
    "find_by wc_id (trim_space (vr_case q)) (db_cases d') = Some r" "wc_state r = CaseClosed" by blast
  moreover have "cv_hash x = trim_space (vr_hash q)"
    using arg_cong [OF x(2), of cv_hash] v by (simp add: scanVerification_def)
  moreover have "db_tasks d' = db_tasks d"
    using run by (cases rule: Close_Inr) (auto dest: finish_case_Inr)
  ultimately show ?thesis using x(1) by auto
qed

lemma Close_Inl: "Close E q d = (d', Inl e) \<Longrightarrow> d' = d"
  by (auto simp: Close_def Let_def dest: close_loop_Inl split: if_splits)

lemma finalVerificationEvidenceID_db:
  "\<exists>rows. es_db (fst (finalVerificationEvidenceID C E k body hash s)) = (es_db s)\<lparr>db_evidence := db_evidence (es_db s) @ rows\<rparr>"
proof -
  have same: "\<exists>rows. es_db s = (es_db s)\<lparr>db_evidence := db_evidence (es_db s) @ rows\<rparr>" by (rule exI [of _ "[]"]) simp
  show ?thesis
    using Put_db [of "dk_sha C" "clk E 0" "rnd E 0" body "''application/json''" finalVerificationEvidenceKind s] same
    by (auto simp: finalVerificationEvidenceID_def split: sum.split option.split prod.split)
qed

lemma close_final_Inr:
  assumes ok: "cases_ok (es_db s)" and run: "close_final V Es c work is verdicts ids s = (s', Inr ())"
  shows "db_tasks (es_db s') = db_tasks (es_db s) \<and>
    (\<exists>x r. find_by cv_case (trim_space (wc_id c)) (db_case_verifications (es_db s')) = Some x \<and>
       cv_hash x = trim_space (dk_sha (fv_codec V) (fv_snapshot V (snapshot_of c work is verdicts))) \<and>
       find_by wc_id (trim_space (wc_id c)) (db_cases (es_db s')) = Some r \<and> wc_state r = CaseClosed)"
proof -
  define body where "body = fv_snapshot V (snapshot_of c work is verdicts)"
  define hash where "hash = dk_sha (fv_codec V) body"
  obtain s1 res where ev: "finalVerificationEvidenceID (fv_codec V) (Es 1) (wc_id c) body hash s = (s1, res)"
    by (cases "finalVerificationEvidenceID (fv_codec V) (Es 1) (wc_id c) body hash s")
  from run ev obtain k where k: "res = Inr k"
    by (cases res) (auto simp: close_final_def Let_def body_def hash_def)
  obtain rows where "es_db s1 = (es_db s)\<lparr>db_evidence := db_evidence (es_db s) @ rows\<rparr>"
    using finalVerificationEvidenceID_db [of "fv_codec V" "Es 1" "wc_id c" body hash s] ev by auto
  then have ok1: "cases_ok (es_db s1)" and tasks: "db_tasks (es_db s1) = db_tasks (es_db s)"
    using ok cases_ok_cong [of "es_db s1" "es_db s"] by simp_all
  have "\<exists>E ids d' v. Close E (final_request V c body hash ids) (es_db s1) = (d', Inr v) \<and> es_db s' = d'"
  proof (cases "Close (Es 2) (final_request V c body hash (ids @ [k])) (es_db s1)")
    case (Pair d out)
    show ?thesis
    proof (cases out)
      case (Inl e)
      with Close_Inl Pair have d: "d = es_db s1" by blast
      have again: "close_again V (Es 3) c body hash ids (s1\<lparr>es_db := d\<rparr>) = (s', Inr ())"
        using run ev k Pair Inl by (auto simp: close_final_def Let_def body_def [symmetric] hash_def [symmetric] split: if_splits)
      then show ?thesis
        by (auto simp: close_again_def d split: sum.splits option.splits if_splits prod.splits)
          (metis map_sum.simps(1) sum.exhaust sum.distinct(1))
    next
      case (Inr v)
      then have "s' = s1\<lparr>es_db := d\<rparr>"
        using run ev k Pair by (auto simp: close_final_def Let_def body_def [symmetric] hash_def [symmetric])
      then show ?thesis using Pair Inr by (intro exI [of _ "Es 2"] exI [of _ "ids @ [k]"]) simp
    qed
  qed
  then obtain E ids' d' v where close: "Close E (final_request V c body hash ids') (es_db s1) = (d', Inr v)" and s': "es_db s' = d'"
    by blast
  from Close_effect [OF ok1 close] tasks show ?thesis
    by (simp add: final_request_def s' body_def hash_def)
qed

subsection \<open>A closed review was published\<close>

text \<open>A review whose comment is published, ready for its verification.\<close>

definition demo_ready_case :: workflow_case where
  "demo_ready_case = demo_publishing_case CaseReadyForVerification []"

definition demo_ready_store :: evidence_store where
  "demo_ready_store = (demo_driver_store demo_ready_case
     [demo_assessed_row ''w1'' (demo_publishing_case CaseActive ''w2''), demo_assessed_row ''w2'' demo_ready_case])
     \<lparr>es_blobs := (\<lambda>h. if hd h = CHR ''e'' then None else Some [hd h])\<rparr>"

definition demo_verifier :: FinalVerifier where
  "demo_verifier = \<lparr>fv_mission = ''m'', fv_project = [], fv_comment = demo_lookups commentProviderName, fv_vote = demo_lookups voteProviderName,
     fv_verifier = ''verifier'', fv_type = ''deterministic'', fv_codec = demo_driver_codec, fv_snapshot = (\<lambda>x. ''e'' @ concat (fs_slots x)),
     fv_unicode = (\<lambda>s. s)\<rparr>"

definition demo_verified :: final_step where
  "demo_verified = stepCase_final demo_verifier (\<lambda>n. demo_env) demo_ready_case demo_ready_store"

lemma demo_verified_closes: "snd demo_verified = Inr FinalClosed"
  by code_simp

text \<open>
  C34. A review that the final verifier closes was published: the payload of the publication's task names this revision of this pull request
  and the decision, in the stored evidence, of the assessment that ordered the publication. Each intent of this decision has an
  entry in the stored messages that the last assessment of the case cites, neither skipped nor only recorded, and its provider confirmed
  the effect again; the publication's task has succeeded, and the case is closed with a verification whose hash
  is that of a snapshot of exactly these slots, all confirmed. Identifiers of tasks, which the control plane makes, have no blanks around
  them.
\<close>

theorem closed_review_was_published:
  assumes "cases_ok (es_db s)" and "\<forall>t \<in> set (db_tasks (es_db s)). trim_space (t_id t) = t_id t"
    and "stepCase_final V Es c s = (s', Inr FinalClosed)"
  shows "\<exists>p r data x is contents entries m t verdicts v row number a b ids.
    discoverPublicationAssessment (fv_codec V) (wc_id c) (wc_work c) False s = Inr (Some a) \<and>
    loadCompletionEvidence (fv_codec V) s (da_evidence a) ([], []) = (ids, contents, None) \<and>
    discoverPublicationAssessment (fv_codec V) (wc_id c) (da_work a) True s = Inr (Some b) \<and>
    pl_work p = da_work a \<and> pl_decision p = da_decision_id b \<and> decodePublishPayload (dk_publish (fv_codec V)) (t_payload t) = Inr p \<and>
    pl_case p = wc_id c \<and> pl_revision p = wc_revision c \<and> wc_object c = pl_repo p @ ''#'' @ number \<and> ParseInt number = Some (pl_pr p) \<and>
    Get_evidence (dk_sha (fv_codec V)) (pl_decision p) s = Inr (r, data) \<and> evi_kind r = decision_kind \<and>
    pb_read_decision (dk_publish (fv_codec V)) data = Inr x \<and> buildPublishIntents (dk_publish (fv_codec V)) p x = Inr is \<and>
    (\<forall>k \<in> set contents. stored_message (fv_codec V) s k) \<and> decodePublisherEntries (fv_codec V) contents = Inr entries \<and>
    bindPublisherEntries (fv_codec V) is entries = Inr m \<and>
    (\<forall>i \<in> set is. \<exists>y out. map_of m (pt_slot i) = Some y \<and> \<not> pe_skipped y \<and> \<not> pe_recorded y \<and>
       lookup_of (fv_comment V) (fv_vote V) i (lookup_request t i y) = Inr out \<and> out_state out = OperationConfirmedEffect) \<and>
    find_by t_id (t_id t) (db_tasks (es_db s)) = Some t \<and> t_idem_key t = pl_work p \<and>
    (\<exists>t'. find_by t_id (t_id t) (db_tasks (es_db s')) = Some t' \<and> t_state t' = TaskSucceeded \<and> t_class t' = ''publish-decision'') \<and>
    find_by wc_id (trim_space (wc_id c)) (db_cases (es_db s')) = Some row \<and> wc_state row = CaseClosed \<and>
    find_by cv_case (trim_space (wc_id c)) (db_case_verifications (es_db s')) = Some v \<and>
    cv_hash v = trim_space (dk_sha (fv_codec V) (fv_snapshot V (snapshot_of c (pl_work p) is verdicts))) \<and>
    map fv_slot verdicts = map pt_slot (by_slot is) \<and> (\<forall>w \<in> set verdicts. fv_state w = OperationConfirmedEffect)"
proof -
  from assms(3) obtain f verdicts where f: "read_facts V c s = Inr f"
    and look: "lookupFinalIntents V (pf_task f) (pf_entries f) (by_slot (pf_intents f)) = Inr verdicts"
    and settle: "settle_case V Es c f verdicts s = (s', Inr FinalClosed)"
    by (auto simp: stepCase_final_def reject_final_def split: sum.splits reading_end.splits lookup_end.splits prod.splits)
  from f obtain p x r data entries contents a b ids where
    read: "discoverPublicationAssessment (fv_codec V) (wc_id c) (wc_work c) False s = Inr (Some a)"
      "loadCompletionEvidence (fv_codec V) s (da_evidence a) ([], []) = (ids, contents, None)"
      "discoverPublicationAssessment (fv_codec V) (wc_id c) (da_work a) True s = Inr (Some b)"
      "pf_work f = da_work a" "pl_decision p = da_decision_id b" "decodePublishPayload (dk_publish (fv_codec V)) (t_payload (pf_task f)) = Inr p"
    and t: "find_by t_id (t_id (pf_task f)) (db_tasks (es_db s)) = Some (pf_task f)" "t_class (pf_task f) = ''publish-decision''" "t_idem_key (pf_task f) = pf_work f"
    and bound: "bindFinalPayload c (pf_work f) p = Inr ()"
    and decision: "Get_evidence (dk_sha (fv_codec V)) (pl_decision p) s = Inr (r, data)" "evi_kind r = decision_kind"
      "pb_read_decision (dk_publish (fv_codec V)) data = Inr x" "buildPublishIntents (dk_publish (fv_codec V)) p x = Inr (pf_intents f)"
    and entries: "\<forall>k \<in> set contents. stored_message (fv_codec V) s k" "decodePublisherEntries (fv_codec V) contents = Inr entries"
      "bindPublisherEntries (fv_codec V) (pf_intents f) entries = Inr (pf_entries f)"
    by (rule read_facts_Inr)
  have id: "trim_space (t_id (pf_task f)) = t_id (pf_task f)" using assms(2) find_by_SomeD [OF t(1)] by simp
  obtain d where task: "finalizeTask V (Es 0) (pf_task f) (pf_completion f) (es_db s) = (d, Inr True)"
    and close: "close_final V Es c (pf_work f) (pf_intents f) verdicts (pf_completion f @ [pf_decision f]) (s\<lparr>es_db := d\<rparr>) = (s', Inr ())"
    using settle by (auto simp: settle_case_def split: prod.splits sum.splits bool.splits)
  note finished = finalizeTask_True [OF t(1) id task]
  have ok: "cases_ok (es_db (s\<lparr>es_db := d\<rparr>))" using finished assms(1) cases_ok_cong [of d "es_db s"] by simp
  note closed = close_final_Inr [OF ok close]
  from bindFinalPayload_Inr [OF bound] obtain number where p: "pl_case p = wc_id c" "pl_work p = pf_work f" "pl_revision p = wc_revision c"
    "wc_object c = pl_repo p @ ''#'' @ number" "ParseInt number = Some (pl_pr p)" by blast
  from closed obtain v row where v: "find_by cv_case (trim_space (wc_id c)) (db_case_verifications (es_db s')) = Some v"
      "cv_hash v = trim_space (dk_sha (fv_codec V) (fv_snapshot V (snapshot_of c (pl_work p) (pf_intents f) verdicts)))"
      "find_by wc_id (trim_space (wc_id c)) (db_cases (es_db s')) = Some row" "wc_state row = CaseClosed"
    unfolding p by blast
  have succeeded: "\<exists>t'. find_by t_id (t_id (pf_task f)) (db_tasks (es_db s')) = Some t' \<and> t_state t' = TaskSucceeded \<and> t_class t' = ''publish-decision''"
    using finished closed t(2) by auto
  have confirmed: "\<forall>i \<in> set (pf_intents f). \<exists>y out. map_of (pf_entries f) (pt_slot i) = Some y \<and> \<not> pe_skipped y \<and> \<not> pe_recorded y \<and>
       lookup_of (fv_comment V) (fv_vote V) i (lookup_request (pf_task f) i y) = Inr out \<and> out_state out = OperationConfirmedEffect"
    using bindPublisherEntries_Inr [OF entries(3)] lookupFinalIntents_Inr [OF look] by (fastforce simp: by_slot_def)
  have a: "pl_work p = da_work a" using p(2) read(4) by simp
  have work: "t_idem_key (pf_task f) = pl_work p" using t(3) p(2) by simp
  from lookupFinalIntents_verdicts [OF look] have verdicts: "map fv_slot verdicts = map pt_slot (by_slot (pf_intents f))"
    "\<forall>w \<in> set verdicts. fv_state w = OperationConfirmedEffect" by blast+
  show ?thesis
    by (rule exI [of _ p], rule exI [of _ r], rule exI [of _ data], rule exI [of _ x], rule exI [of _ "pf_intents f"],
        rule exI [of _ contents], rule exI [of _ entries], rule exI [of _ "pf_entries f"], rule exI [of _ "pf_task f"],
        rule exI [of _ verdicts], rule exI [of _ v], rule exI [of _ row], rule exI [of _ number], rule exI [of _ a], rule exI [of _ b],
        rule exI [of _ ids])
      (intro conjI read(1-3,5,6) a p(1,3-5) decision entries confirmed t(1) work succeeded v verdicts)
qed

theorem closed_review_was_published_witness:
  "\<exists>p x is row v number. ''r#7'' = pl_repo p @ ''#'' @ number \<and> ParseInt number = Some (pl_pr p) \<and>
    buildPublishIntents (dk_publish demo_driver_codec) p x = Inr is \<and>
    find_by wc_id ''k'' (db_cases (es_db (fst demo_verified))) = Some row \<and> wc_state row = CaseClosed \<and>
    find_by cv_case ''k'' (db_case_verifications (es_db (fst demo_verified))) = Some v"
proof -
  have ok: "cases_ok (es_db demo_ready_store)" by code_simp
  have ids: "\<forall>t \<in> set (db_tasks (es_db demo_ready_store)). trim_space (t_id t) = t_id t" by code_simp
  have run: "stepCase_final demo_verifier (\<lambda>n. demo_env) demo_ready_case demo_ready_store = (fst demo_verified, Inr FinalClosed)"
    using demo_verified_closes unfolding demo_verified_def by (metis prod.collapse)
  have k: "trim_space (wc_id demo_ready_case) = ''k''" "wc_object demo_ready_case = ''r#7''" by code_simp+
  have codec: "fv_codec demo_verifier = demo_driver_codec" by (simp add: demo_verifier_def)
  from closed_review_was_published [OF ok ids run] obtain p x "is" v row number where
    o: "wc_object demo_ready_case = pl_repo p @ ''#'' @ number" "ParseInt number = Some (pl_pr p)" and
    facts: "buildPublishIntents (dk_publish (fv_codec demo_verifier)) p x = Inr is"
      "find_by wc_id (trim_space (wc_id demo_ready_case)) (db_cases (es_db (fst demo_verified))) = Some row" "wc_state row = CaseClosed"
      "find_by cv_case (trim_space (wc_id demo_ready_case)) (db_case_verifications (es_db (fst demo_verified))) = Some v"
    by (elim exE conjE) (rule that)
  show ?thesis
    by (rule exI [of _ p], rule exI [of _ x], rule exI [of _ "is"], rule exI [of _ row], rule exI [of _ v], rule exI [of _ number])
      (intro conjI o [unfolded k] facts [unfolded k codec])
qed

end
