(* ===== verification/Spec2Isabelle.thy ===== *)
theory Spec2Isabelle
  imports Wake Workflow_Cases Run_Manifest Learning Memory Emit_Executor Review_Verifier
begin

text \<open>
  Summa42 is a local runtime for agents, written in Go. One daemon, the Box, keeps all state in one SQLite
  database; services change it, each in a transaction of its own. This development translates the services that
  hold the rules of the system and proves what they promise. Names are those of the Go code; where a name would clash
  with one of the library or of another service it has a suffix (\<open>Get_case\<close>, \<open>Reject_case\<close>).

  How the code is read:
  \<^item> A Go function that can fail returns \<open>go_error + 'a\<close>. Sentinel errors are constructors, since \<open>errors.Is\<close>
    distinguishes them; every other error is its message without arguments.
  \<^item> The database is the record \<open>db\<close>, a list of rows per table. \<open>WithTx\<close> is \<open>with_tx\<close>: the body returns its result
    with a new database or fails, and then nothing has changed. CHECK and UNIQUE constraints, partial unique indexes and
    triggers are conditions of the inserts and updates they belong to. Columns with JSON are kept decoded, columns with
    times are instants in nanoseconds; where a statement compares or sorts their texts, the text is computed (\<open>Times\<close>).
  \<^item> \<open>int64\<close> and \<open>int\<close> values are integers whose arithmetic wraps with \<open>wrap64\<close> where it can leave the range; SQLite's
    \<open>SUM\<close> fails instead.
  \<^item> The clock and the random part of identifiers are read from \<open>env\<close>: one function per source, indexed by the
    reading. The theorems hold for all of them, also for clocks that go backwards, unless they say otherwise.
  \<^item> Code outside the repository is an argument: the JSON codecs and digests (\<open>task_codec\<close>, \<open>case_codec\<close>, \<open>grant_codec\<close>,
    \<open>feedback_codec\<close>, \<open>review_codec\<close>, \<open>ado_codec\<close>, \<open>publish_codec\<close>, \<open>driver_codec\<close>, the SHA-256 functions), a provider of external effects, the policy engine, an executor, the preference
    between executors, the sink of feedback issues, the answers of Azure DevOps, the full text index, the Unicode tables of \<open>ToLower\<close>, the compiler of
    configured patterns and the order in which Go visits a map. An executor and a provider may change the database in any
    way the steps of their component allow while they run.

  Shared theories:
  \<^item> \<open>Prelude\<close>: results, Go strings and integers, and the locales \<open>id_normalizer\<close>, \<open>rank_order\<close> and \<open>kept_invariant\<close>,
    interpreted in the components. \<open>Tables\<close>: SQL statements on lists of rows. \<open>Times\<close>: RFC3339Nano texts and their order.
  \<^item> \<open>Domain\<close>, \<open>Schema\<close>, \<open>Store\<close>: \<open>internal/domain\<close> and \<open>internal/state/sqlite\<close> with its migrations.
  \<^item> \<open>Go_Library\<close>: what the code uses of \<open>strings\<close> and \<open>strconv\<close>. \<open>Regexp\<close>: the syntax of the patterns in use, what an
    occurrence is, and a matcher that is proved to find exactly the occurrences. \<open>Go_Values\<close>: values of type \<open>any\<close>, the
    numbers and quotations of \<open>strconv\<close>.

  Components, in the order of their theories:
  \<^item> \<open>Purpose\<close> (\<open>internal/purpose\<close>): missions, obligations, goals. At most one mission is active.
  \<^item> \<open>Resources\<close> (\<open>internal/resources\<close>): the ledger. Reservations and settlements never exceed an envelope, the balance is
    computed without wrap-around, and the ledger refines a budget without rows.
  \<^item> \<open>Execution\<close> (\<open>internal/execution\<close>) are the operations on tasks and attempts; \<open>Leases\<close> their invariant \<open>exec_ok\<close>, the
    step relation \<open>exec_step\<close> and their properties: one attempt of a task may write, authority shrinks down the task
    tree, starting, failing and challenging on every branch. \<open>Frames\<close>: what these steps leave alone.
  \<^item> \<open>Approvals\<close> (\<open>internal/approvals\<close>): requests bound to a digest, their decisions and their consumption.
  \<^item> \<open>Operations\<close> (\<open>internal/operations\<close>) are the operations on external effects; \<open>Effects\<close> their invariant,
    \<open>Exactly_Once\<close> the step relation over the database and the list of requests sent, \<open>External_Effects\<close> the properties:
    at most one possible effect per slot, nothing sent without consent, money held while an outcome is open.
  \<^item> \<open>Evidence\<close> (\<open>internal/evidence\<close>) and \<open>Verification\<close> (\<open>internal/verification\<close>): content-addressed blobs, completion of
    attempts, acceptance of tasks. A task succeeds only by an acceptance backed by stored evidence.
  \<^item> \<open>Scheduler\<close> and \<open>Worker\<close> (\<open>internal/scheduler\<close>): the next task, its executor and one step of the worker.
  \<^item> \<open>Wake\<close> (\<open>internal/wake\<close>): wakeups, recovery of expired leases, the strategic pulse.
  \<^item> \<open>Workflow\<close> (\<open>internal/workflow\<close>) and \<open>Workflow_Cases\<close> (\<open>internal/workflowcase\<close>): the bounded workflow of a case, its
    decisions, its tasks and its closing.
  \<^item> \<open>Capabilities\<close> (\<open>internal/capabilities\<close>): the registry of capabilities, the assessments of their providers and the
    sessions through which an attempt calls them: no call without authority, none after the end of the session.
  \<^item> \<open>Run_Manifest\<close> (\<open>internal/runmanifest\<close>, \<open>internal/teb/profile.go\<close>): the profile of the execution boundary and the
    manifest that is written with every start of an attempt.
  \<^item> \<open>Audit_Log\<close> (\<open>internal/audit\<close>): decision records and audit events, which other services append to.
  \<^item> \<open>Memory\<close> (\<open>internal/memory\<close>): evidence, claims, their contradictions and supersession, deltas, and the beliefs at a time.
  \<^item> \<open>Experience\<close> and \<open>Learning\<close> (\<open>internal/experience\<close>): grants, proposals and outcomes, the evaluation of rules, and the
    learned preference, whose use by the scheduler is the property of this theory.
  \<^item> Field feedback (\<open>internal/fieldfeedback\<close>): \<open>Observations\<close> and \<open>Detectors\<close> turn the tables of the other services into
    observations; \<open>Feedback\<close> are the operations on candidates, \<open>Sanitizer\<close> projects a candidate to its allowlisted part and
    scans it, \<open>Candidate_Lifecycle\<close> has their invariant and step relation; \<open>Emission\<close> requests the task that reports an artifact
    and \<open>Emission_Once\<close> shows it is requested once; \<open>Emit_Executor\<close> is the executor of this task with the provider, on top of
    \<open>Worker\<close> and \<open>External_Effects\<close>: what leaves is clean, and nothing leaves before its approvers agreed.
  \<^item> Reviews of pull requests: \<open>Review_Assessment\<close> (\<open>internal/adoreview/assess.go\<close>) turns the result of a review into a decision and
    an assessment of its case; \<open>Review_Effects\<close> (\<open>internal/adoeffects\<close>) are the providers of comments and votes, and
    \<open>Review_Publication\<close> (\<open>internal/adoreview/publish.go\<close>) the executor that makes operations of a decision:
    it sends what was decided, to the slot of the decision, and only with consent. \<open>Review_Driver\<close> (\<open>internal/adoreview/driver.go\<close>)
    makes the task of a publication and checks what was published against the decision and with the providers;
    \<open>Review_Verifier\<close> (\<open>internal/adoreview/verify.go\<close>) reads and looks up everything again before it accepts the task and
    closes the case: what is closed was published.

  Each component has the same groups: records and datatypes, operations, an invariant on the tables with a lemma for
  every operation that it is kept, a step relation with an interpretation of \<open>kept_invariant\<close>, a small store to evaluate
  on, and the properties with their witnesses. A frame lemma says which tables an operation leaves alone wherever
  another component needs it.

  Bounds and loops: loops over rows and lists are structural recursion. The retry loop of \<open>Close\<close> has the
  twenty attempts of the code as its fuel and returns the last error when they are used up, as the code does; the
  trimming of strings is a function with a termination proof. The polling loop of the worker (\<open>Run\<close>) takes the
  number of polls until its context is done, since it has no other end.

  Not modelled: contexts and their timeouts, SQLITE_BUSY and failures of the disk (transactions are serial and
  durable here), values that a function returns together with an error, and nil checks of the services' own
  dependencies. Foreign keys are modelled where a body does not look the row up itself. The remaining packages are I/O or
  clients of other programs and are listed with the reason in the manifest: the command line (\<open>cmd\<close>), the control server
  and its client, the sessions with Azure DevOps, GitHub and MCP, the observation of pull requests and issues, the processes of external agents, containers and network
  connections (\<open>internal/teb\<close> apart from its profiles), the policy engine OPA, keys on disk and the bootstrap of an
  installation, telemetry, and the configuration file apart from the settings of field feedback.
\<close>


section \<open>Learned preferences in the scheduler\<close>

lemma PreferredExecutor_in_force:
  assumes "PreferredExecutor S now d t eligible = Inr (x, True)"
  shows "x \<in> set eligible \<and> (\<exists>r. r \<in> set (xt_rules (db_experience d)) \<and> xr_executor r = x \<and>
    in_force \<lparr>pq_scope = trim_space (t_class t), pq_class = GenericTaskUnknown []\<rparr> now d r)"
proof -
  let ?q = "\<lparr>pq_scope = trim_space (t_class t), pq_class = GenericTaskUnknown []\<rparr>"
  obtain k where p: "Preference S now ?q d = Inr (Some (k, x))" and x: "x \<in> set eligible"
    using assms by (auto simp: PreferredExecutor_def Let_def bindE_Inr_iff split: if_splits option.splits prod.splits)
  then obtain r rs where "active_rules ?q now d = r # rs" "xr_executor r = x"
    by (auto simp: Preference_def Let_def bindE_Inr_iff split: if_splits list.splits)
  then have "r \<in> set (filter (in_force ?q now d) (xt_rules (db_experience d)))"
    unfolding active_rules_def by (metis list.set_intros(1) set_rev set_sort)
  with x \<open>xr_executor r = x\<close> show ?thesis by auto
qed

text \<open>
  C16. Learning stays within its limits: the executor that the scheduler chooses for a task with the learned preference is one of the
  kinds it was offered; it is the first of them in order, as without learning, or the executor of a rule in force, the latest version
  of its proposal, for the class of the task, under a grant for this class that names the executor, has not expired by the text of its
  time, and for whose exact definition the Owner has approved the digest.
\<close>

theorem learned_choice_is_granted:
  assumes "(experience_step S)\<^sup>*\<^sup>* d0 d" and "experience_ok S d0"
    and "ChooseExecutor (Some (PreferredExecutor S now d)) t kinds = Inr x"
  shows "x \<in> trim_space ` set kinds - {[]} \<and> ((\<forall>y \<in> trim_space ` set kinds - {[]}. x \<le> y) \<or>
    (\<exists>r g a. r \<in> set (xt_rules (db_experience d)) \<and> latest_version r d \<and> xr_state r = ExperienceActive \<and> xr_executor r = x \<and>
      g \<in> set (xt_grants (db_experience d)) \<and> ag_id g = xr_grant r \<and> x \<in> set (ag_executors g) \<and>
      trim_space (ag_scope g) = trim_space (t_class t) \<and> formatTime now < formatTime (ag_expires g) \<and>
      a \<in> set (db_approvals d) \<and> ap_subject a = ag_request g \<and> has_approved d a (es_owner S)))"
proof -
  let ?eligible = "distinct_sorted (filter (\<lambda>k. k \<noteq> []) (map trim_space kinds))"
  have kinds: "set ?eligible = trim_space ` set kinds - {[]}" by auto
  obtain b bs where b: "?eligible = b # bs" using assms(3) by (cases ?eligible) (auto simp: ChooseExecutor_def)
  have "sorted (b # bs)" unfolding b [symmetric] by simp
  then have least: "\<forall>y \<in> trim_space ` set kinds - {[]}. b \<le> y" unfolding kinds [symmetric] b by auto
  have run: "bindE (PreferredExecutor S now d t ?eligible) (\<lambda>(preferred, found).
      if \<not> found then Inr b else if trim_space preferred \<in> set ?eligible then Inr (trim_space preferred)
      else Inl (Err ''learned preference returned ineligible executor'')) = Inr x"
    using assms(3) unfolding ChooseExecutor_def Let_def b list.case option.case .
  then obtain preferred found where pref: "PreferredExecutor S now d t ?eligible = Inr (preferred, found)"
    and x: "(if \<not> found then Inr b else if trim_space preferred \<in> set ?eligible then Inr (trim_space preferred)
      else Inl (Err ''learned preference returned ineligible executor'')) = (Inr x :: string res)"
    by (auto elim!: bindE_InrE)
  show ?thesis
  proof (cases found)
    case False
    with x have "x = b" by simp
    then show ?thesis using least kinds b by auto
  next
    case True
    then have learned: "PreferredExecutor S now d t ?eligible = Inr (preferred, True)" using pref by simp
    have mem: "preferred \<in> trim_space ` set kinds - {[]}"
      using PreferredExecutor_in_force [OF learned] kinds by auto
    have same: "x = preferred" using mem x True by (auto split: if_splits)
    have ok: "experience_ok S d" by (rule experience.reach_inv [OF assms(1,2)])
    obtain r where r: "r \<in> set (xt_rules (db_experience d))" "xr_executor r = preferred"
      "in_force \<lparr>pq_scope = trim_space (t_class t), pq_class = GenericTaskUnknown []\<rparr> now d r"
      using PreferredExecutor_in_force [OF learned] by blast
    obtain p where p: "xr_grant r = xp_grant p" "xr_executor r = xp_executor p" "xr_scope r = xp_scope p" "proposal_ok d p"
      using experience_okD(4) [OF ok r(1)] unfolding rule_ok_def by blast
    obtain g where g: "find_by ag_id (xp_grant p) (xt_grants (db_experience d)) = Some g" "xp_executor p \<in> set (ag_executors g)"
      "xp_scope p = trim_space (ag_scope g)" using p(4) unfolding proposal_ok_def by blast
    note member = find_by_SomeD [OF g(1)]
    obtain a where a: "a \<in> set (db_approvals d)" "ap_subject a = ag_request g" "has_approved d a (es_owner S)"
      using experience_grants [OF ok member [THEN conjunct1]] by (auto dest: find_by_SomeD)
    have "formatTime now < formatTime (ag_expires g)"
      using r(3) find_by_only [OF experience_okD(7) [OF ok] g(1)] p(1) by (auto simp: in_force_def exists_where_iff)
    then show ?thesis
      using r p g member a mem same
      by (intro conjI disjI2 exI [of _ r] exI [of _ g] exI [of _ a]) (simp_all add: in_force_def)
  qed
qed

lemma learned_choice_is_granted_witness:
  "ChooseExecutor (Some (PreferredExecutor demo_experience 20 (fst demo_learned))) demo_task [''codex'', ''action''] = Inr ''codex'' \<and>
   (\<exists>g \<in> set (xt_grants (db_experience (fst demo_learned))). ''codex'' \<in> set (ag_executors g))"
proof -
  have run: "ChooseExecutor (Some (PreferredExecutor demo_experience 20 (fst demo_learned))) demo_task [''codex'', ''action''] = Inr ''codex''"
    by code_simp
  have "\<not> (\<forall>y \<in> trim_space ` set [''codex'', ''action''] - {[]}. ''codex'' \<le> y)" by code_simp
  with learned_choice_is_granted [OF demo_experience_run demo_world_ok run] run show ?thesis by blast
qed

end
